(* ===== verification/Prelude.thy ===== *)
theory Prelude
  imports Main
begin

section \<open>Shared types, errors and library lemmas\<close>

text \<open>
  What every component of the development uses: the identifiers of
  \<^verbatim>\<open>src/include/common/config.h\<close>, the ways a C++ operation can fail
  (\<^verbatim>\<open>src/include/common/macros.h\<close>) as values of a sum type, \<open>size_t\<close> counters whose
  decrement wraps, and list and map lemmas that carry the component proofs.
\<close>

subsection \<open>Identifiers\<close>

text \<open>
  \<open>frame_id_t\<close> and \<open>page_id_t\<close> are \<open>int32_t\<close>, \<open>txn_id_t\<close> and \<open>timestamp_t\<close> are
  \<open>int64_t\<close>. They are identifiers: the code compares them and counts them up from 0, so
  they are unbounded integers here; -1 marks an invalid one.
\<close>

type_synonym frame_id = int
type_synonym page_id = int
type_synonym rid = "page_id \<times> nat"

definition INVALID_PAGE_ID :: page_id where
  "INVALID_PAGE_ID = -1"

definition INVALID_FRAME_ID :: frame_id where
  "INVALID_FRAME_ID = -1"

definition BUSTUB_PAGE_SIZE :: nat where
  "BUSTUB_PAGE_SIZE = 8192"

definition BUSTUB_BATCH_SIZE :: nat where
  "BUSTUB_BATCH_SIZE = 20"

subsection \<open>Failures\<close>

text \<open>
  An operation that cannot return normally yields a \<open>fault\<close>:
  \<^item> \<open>Assertion\<close>: \<open>BUSTUB_ASSERT\<close> (a plain \<open>assert\<close>) failed;
  \<^item> \<open>Terminated\<close>: \<open>BUSTUB_ENSURE\<close>, \<open>std::terminate\<close> or \<open>std::abort\<close>;
  \<^item> \<open>Thrown\<close>: a C++ exception, with its message;
  \<^item> \<open>Failed\<close>: an \<open>ExecutionException\<close>, which the execution engine catches;
  \<^item> \<open>Undefined\<close>: the C++ standard gives the execution no meaning (a null pointer is
    dereferenced, an empty container is read, a page is read as the wrong type);
  \<^item> \<open>Stuck\<close>: the thread waits for a latch that it or a finished guard will never release,
    or a recursion bounded by fuel needs more of it.
\<close>

datatype fault = Assertion | Terminated | Thrown string | Failed string | Undefined | Stuck

type_synonym 'a result = "fault + 'a"

definition rbind :: "'a result \<Rightarrow> ('a \<Rightarrow> 'b result) \<Rightarrow> 'b result" where
  "rbind m k = (case m of Inl e \<Rightarrow> Inl e | Inr x \<Rightarrow> k x)"

lemma rbind_simps [simp]:
  "rbind (Inl e) k = Inl e" "rbind (Inr x) k = k x"
  by (simp_all add: rbind_def)

lemma rbind_eq_Inr_iff: "rbind m k = Inr y \<longleftrightarrow> (\<exists>x. m = Inr x \<and> k x = Inr y)"
  by (cases m) auto

lemma rbind_InrE [elim!]:
  assumes "rbind m k = Inr y"
  obtains x where "m = Inr x" "k x = Inr y"
  using assms by (auto simp: rbind_eq_Inr_iff)

definition returns :: "'a result \<Rightarrow> bool" where
  "returns m \<longleftrightarrow> (case m of Inl _ \<Rightarrow> False | Inr _ \<Rightarrow> True)"

lemma returns_simps [simp]: "returns (Inr x)" "\<not> returns (Inl e)"
  by (simp_all add: returns_def)

lemma returnsE [elim?]:
  assumes "returns m" obtains x where "m = Inr x"
  using assms by (cases m) auto

subsection \<open>Counters\<close>

text \<open>
  A \<open>size_t\<close> counter is a natural number. The counters of the program count stored
  objects, so an increment never reaches \<open>2 ^ 64\<close>; a decrement of 0 wraps, as in C++.
\<close>

definition size_dec :: "nat \<Rightarrow> nat" where
  "size_dec n = (if n = 0 then 2 ^ 64 - 1 else n - 1)"

lemma size_dec_Suc [simp]: "size_dec (Suc n) = n"
  by (simp add: size_dec_def)

lemma size_dec_pos [simp]: "0 < n \<Longrightarrow> size_dec n = n - 1"
  by (simp add: size_dec_def)

subsection \<open>Lists\<close>

text \<open>Erasing the node an iterator into a \<open>std::list\<close> points at, found from the back.\<close>

definition erase_back :: "'a \<Rightarrow> 'a list \<Rightarrow> 'a list" where
  "erase_back x xs = rev (remove1 x (rev xs))"

lemma remove1_append_middle: "x \<notin> set xs \<Longrightarrow> remove1 x (xs @ x # ys) = xs @ ys"
  by (simp add: remove1_append)

lemma remove1_distinct_filter: "distinct xs \<Longrightarrow> remove1 x xs = filter (\<lambda>y. y \<noteq> x) xs"
  by (induction xs) (auto intro!: filter_True [symmetric])

lemma erase_back_distinct: "distinct xs \<Longrightarrow> erase_back x xs = remove1 x xs"
  by (simp add: erase_back_def remove1_distinct_filter rev_filter)

lemma length_remove1_mem: "x \<in> set xs \<Longrightarrow> Suc (length (remove1 x xs)) = length xs"
  by (induction xs) auto

lemma length_filter_remove1_in:
  "distinct xs \<Longrightarrow> x \<in> set xs \<Longrightarrow> P x \<Longrightarrow>
   Suc (length (filter P (remove1 x xs))) = length (filter P xs)"
  by (induction xs) auto

lemma length_filter_remove1_out:
  "\<not> P x \<Longrightarrow> length (filter P (remove1 x xs)) = length (filter P xs)"
  by (induction xs) auto

lemma butlast_set_distinct:
  "xs \<noteq> [] \<Longrightarrow> distinct xs \<Longrightarrow> set (butlast xs) = set xs - {last xs}"
  by (induction xs rule: rev_induct) auto

lemma distinct_butlast_last: "xs \<noteq> [] \<Longrightarrow> distinct xs \<Longrightarrow> last xs \<notin> set (butlast xs)"
  by (induction xs rule: rev_induct) auto

lemma length_filter_cong_set:
  "(\<And>x. x \<in> set xs \<Longrightarrow> P x = Q x) \<Longrightarrow> length (filter P xs) = length (filter Q xs)"
  by (metis (no_types, lifting) filter_cong)

lemma distinct_descending: "sorted_wrt (>) (xs :: 'a::linorder list) \<Longrightarrow> distinct xs"
  by (induction xs) auto

subsection \<open>Counting the entries of a map\<close>

definition cnt :: "('b \<Rightarrow> bool) \<Rightarrow> ('a \<rightharpoonup> 'b) \<Rightarrow> nat" where
  "cnt P m = card {k. \<exists>x. m k = Some x \<and> P x}"

lemma cnt_empty [simp]: "cnt P Map.empty = 0"
  by (simp add: cnt_def)

lemma cnt_finite: "finite (dom m) \<Longrightarrow> finite {k. \<exists>x. m k = Some x \<and> P x}"
  by (rule finite_subset [of _ "dom m"]) auto

lemma cnt_del:
  assumes "finite (dom m)" "m k = Some y"
  shows "cnt P (m(k := None)) + of_bool (P y) = cnt P m"
proof -
  let ?A = "{j. \<exists>x. m j = Some x \<and> P x}"
  have "{j. \<exists>x. (m(k := None)) j = Some x \<and> P x} = ?A - {k}" by auto
  then show ?thesis
    using cnt_finite [OF assms(1), of P] assms(2) card_Suc_Diff1 [of ?A k] by (auto simp: cnt_def)
qed

lemma cnt_new:
  assumes "finite (dom m)" "m k = None"
  shows "cnt P (m(k \<mapsto> x)) = cnt P m + of_bool (P x)"
proof -
  have "{j. \<exists>y. (m(k \<mapsto> x)) j = Some y \<and> P y} =
      (if P x then insert k {j. \<exists>y. m j = Some y \<and> P y} else {j. \<exists>y. m j = Some y \<and> P y})"
    using assms(2) by auto
  then show ?thesis using cnt_finite [OF assms(1), of P] assms(2) by (auto simp: cnt_def)
qed

lemma cnt_upd:
  assumes "finite (dom m)" "m k = Some y"
  shows "cnt P (m(k \<mapsto> x)) + of_bool (P y) = cnt P m + of_bool (P x)"
proof -
  have "cnt P ((m(k := None))(k \<mapsto> x)) = cnt P (m(k := None)) + of_bool (P x)"
    using assms(1) by (intro cnt_new) (auto intro: finite_subset)
  then show ?thesis using cnt_del [OF assms, of P] by simp
qed

lemma cnt_0_iff: "finite (dom m) \<Longrightarrow> cnt P m = 0 \<longleftrightarrow> (\<forall>k x. m k = Some x \<longrightarrow> \<not> P x)"
  using cnt_finite [of m P] by (auto simp: cnt_def)

lemma cnt_pos: "finite (dom m) \<Longrightarrow> m k = Some x \<Longrightarrow> P x \<Longrightarrow> 0 < cnt P m"
  using cnt_0_iff [of m P] by auto

end
