(* ===== verification/Arc.thy ===== *)
theory Arc
  imports Prelude
begin

section \<open>The ARC replacement policy\<close>

text \<open>
  Models \<^verbatim>\<open>src/buffer/arc_replacer.cpp\<close> and
  \<^verbatim>\<open>src/include/buffer/arc_replacer.h\<close>: the four lists, the two hash maps, the adaptive
  target and the five operations. A \<open>std::list\<close> is a list with its front first; an iterator
  kept in a \<open>FrameStatus\<close> points at the node that holds the frame (or page), so erasing it
  removes that element. The mutex makes each operation one atomic step.
\<close>

subsection \<open>State\<close>

datatype arc_status = MRU | MFU | MRU_GHOST | MFU_GHOST

record frame_status =
  fs_page_id :: page_id
  fs_frame_id :: frame_id
  fs_evictable :: bool
  fs_arc_status :: arc_status

record arc =
  mru :: "frame_id list"
  mfu :: "frame_id list"
  mru_ghost :: "page_id list"
  mfu_ghost :: "page_id list"
  alive_map :: "frame_id \<rightharpoonup> frame_status"
  ghost_map :: "page_id \<rightharpoonup> frame_status"
  curr_size :: nat
  mru_target_size :: nat
  replacer_size :: nat

definition arc_init :: "nat \<Rightarrow> arc" where
  "arc_init num_frames =
     \<lparr>mru = [], mfu = [], mru_ghost = [], mfu_ghost = [],
      alive_map = Map.empty, ghost_map = Map.empty,
      curr_size = 0, mru_target_size = 0, replacer_size = num_frames\<rparr>"

subsection \<open>Operations\<close>

text \<open>
  The scan of \<open>Evict\<close> from the back of a list: the first frame whose status is evictable.
  \<open>alive_map_[fid]\<close> of a frame without status creates a null pointer that is then
  dereferenced.
\<close>

fun scan_back :: "(frame_id \<rightharpoonup> frame_status) \<Rightarrow> frame_id list \<Rightarrow> (frame_id \<times> frame_status) option result" where
  "scan_back m [] = Inr None"
| "scan_back m (fid # rest) =
     (case m fid of
        None \<Rightarrow> Inl Undefined
      | Some status \<Rightarrow> if fs_evictable status then Inr (Some (fid, status)) else scan_back m rest)"

definition try_evict_from_mru :: "arc \<Rightarrow> (frame_id option \<times> arc) result" where
  "try_evict_from_mru s =
     rbind (scan_back (alive_map s) (rev (mru s))) (\<lambda>found. case found of
       None \<Rightarrow> Inr (None, s)
     | Some (fid, status) \<Rightarrow>
         (let pid = fs_page_id status;
              ghost_status = \<lparr>fs_page_id = pid, fs_frame_id = fid, fs_evictable = False,
                              fs_arc_status = MRU_GHOST\<rparr>
          in Inr (Some fid,
               s\<lparr>mru_ghost := pid # mru_ghost s,
                 ghost_map := (ghost_map s)(pid \<mapsto> ghost_status),
                 mru := erase_back fid (mru s),
                 alive_map := (alive_map s)(fid := None),
                 curr_size := size_dec (curr_size s)\<rparr>)))"

definition try_evict_from_mfu :: "arc \<Rightarrow> (frame_id option \<times> arc) result" where
  "try_evict_from_mfu s =
     rbind (scan_back (alive_map s) (rev (mfu s))) (\<lambda>found. case found of
       None \<Rightarrow> Inr (None, s)
     | Some (fid, status) \<Rightarrow>
         (let pid = fs_page_id status;
              ghost_status = \<lparr>fs_page_id = pid, fs_frame_id = fid, fs_evictable = False,
                              fs_arc_status = MFU_GHOST\<rparr>
          in Inr (Some fid,
               s\<lparr>mfu_ghost := pid # mfu_ghost s,
                 ghost_map := (ghost_map s)(pid \<mapsto> ghost_status),
                 mfu := erase_back fid (mfu s),
                 alive_map := (alive_map s)(fid := None),
                 curr_size := size_dec (curr_size s)\<rparr>)))"

definition arc_evict :: "arc \<Rightarrow> (frame_id option \<times> arc) result" where
  "arc_evict s =
     (if curr_size s = 0 then Inr (None, s)
      else if length (mru s) \<ge> mru_target_size s then
        rbind (try_evict_from_mru s) (\<lambda>(r, s1).
          if r \<noteq> None then Inr (r, s1) else try_evict_from_mfu s1)
      else
        rbind (try_evict_from_mfu s) (\<lambda>(r, s1).
          if r \<noteq> None then Inr (r, s1) else try_evict_from_mru s1))"

text \<open>
  The three cases of \<open>RecordAccess\<close>: a frame that is alive, a page with a ghost entry, and a
  page unknown to all four lists. The division in the second case is by the size of a list
  that holds the ghost entry; an empty list would trap.
\<close>

definition record_hit :: "arc \<Rightarrow> frame_id \<Rightarrow> frame_status \<Rightarrow> arc" where
  "record_hit s frame_id status =
     (let s1 = (if fs_arc_status status = MRU then s\<lparr>mru := remove1 frame_id (mru s)\<rparr>
                else s\<lparr>mfu := remove1 frame_id (mfu s)\<rparr>)
      in s1\<lparr>mfu := frame_id # mfu s1,
            alive_map := (alive_map s1)(frame_id \<mapsto> status\<lparr>fs_arc_status := MFU\<rparr>)\<rparr>)"

definition record_ghost :: "arc \<Rightarrow> frame_id \<Rightarrow> page_id \<Rightarrow> frame_status \<Rightarrow> arc result" where
  "record_ghost s frame_id page_id ghost_status =
     (let mru_ghost_size = length (mru_ghost s);
          mfu_ghost_size = length (mfu_ghost s);
          adapted =
            (if fs_arc_status ghost_status = MRU_GHOST then
               (if mru_ghost_size \<ge> mfu_ghost_size then
                  Inr (s\<lparr>mru_target_size := min (mru_target_size s + 1) (replacer_size s),
                         mru_ghost := remove1 page_id (mru_ghost s)\<rparr>)
                else if mru_ghost_size = 0 then Inl Undefined
                else
                  Inr (s\<lparr>mru_target_size :=
                           min (mru_target_size s + mfu_ghost_size div mru_ghost_size)
                               (replacer_size s),
                         mru_ghost := remove1 page_id (mru_ghost s)\<rparr>))
             else
               (if mfu_ghost_size \<ge> mru_ghost_size then
                  Inr (s\<lparr>mru_target_size :=
                           (if mru_target_size s > 0 then mru_target_size s - 1 else 0),
                         mfu_ghost := remove1 page_id (mfu_ghost s)\<rparr>)
                else Inr (s\<lparr>mfu_ghost := remove1 page_id (mfu_ghost s)\<rparr>)))
      in rbind adapted (\<lambda>s1.
           Inr (s1\<lparr>ghost_map := (ghost_map s1)(page_id := None),
                   mfu := frame_id # mfu s1,
                   alive_map := (alive_map s1)(frame_id \<mapsto>
                     \<lparr>fs_page_id = page_id, fs_frame_id = frame_id, fs_evictable = False,
                      fs_arc_status = MFU\<rparr>)\<rparr>)))"

definition record_miss :: "arc \<Rightarrow> frame_id \<Rightarrow> page_id \<Rightarrow> arc" where
  "record_miss s frame_id page_id =
     (let mru_total = length (mru s) + length (mru_ghost s);
          s1 =
            (if mru_total = replacer_size s then
               (if mru_ghost s \<noteq> [] then
                  s\<lparr>ghost_map := (ghost_map s)(last (mru_ghost s) := None),
                    mru_ghost := butlast (mru_ghost s)\<rparr>
                else s)
             else if mru_total + length (mfu s) + length (mfu_ghost s) = 2 * replacer_size s then
               (if mfu_ghost s \<noteq> [] then
                  s\<lparr>ghost_map := (ghost_map s)(last (mfu_ghost s) := None),
                    mfu_ghost := butlast (mfu_ghost s)\<rparr>
                else s)
             else s)
      in s1\<lparr>mru := frame_id # mru s1,
            alive_map := (alive_map s1)(frame_id \<mapsto>
              \<lparr>fs_page_id = page_id, fs_frame_id = frame_id, fs_evictable = False,
               fs_arc_status = MRU\<rparr>)\<rparr>)"

definition arc_record_access :: "arc \<Rightarrow> frame_id \<Rightarrow> page_id \<Rightarrow> arc result" where
  "arc_record_access s frame_id page_id =
     (case alive_map s frame_id of
        Some status \<Rightarrow> Inr (record_hit s frame_id status)
      | None \<Rightarrow>
          (case ghost_map s page_id of
             Some ghost_status \<Rightarrow> record_ghost s frame_id page_id ghost_status
           | None \<Rightarrow> Inr (record_miss s frame_id page_id)))"

definition arc_set_evictable :: "arc \<Rightarrow> frame_id \<Rightarrow> bool \<Rightarrow> arc result" where
  "arc_set_evictable s frame_id set_evictable =
     (if \<not> frame_id \<ge> 0 then Inl Assertion
      else
        (case alive_map s frame_id of
           None \<Rightarrow> Inr s
         | Some status \<Rightarrow>
             if fs_evictable status = set_evictable then Inr s
             else
               Inr (s\<lparr>alive_map := (alive_map s)(frame_id \<mapsto>
                        status\<lparr>fs_evictable := set_evictable\<rparr>),
                      curr_size := (if set_evictable then curr_size s + 1
                                    else size_dec (curr_size s))\<rparr>)))"

definition arc_remove :: "arc \<Rightarrow> frame_id \<Rightarrow> arc result" where
  "arc_remove s frame_id =
     (case alive_map s frame_id of
        None \<Rightarrow> Inr s
      | Some status \<Rightarrow>
          if \<not> fs_evictable status then Inl Assertion
          else
            (let s1 = (if fs_arc_status status = MRU then s\<lparr>mru := remove1 frame_id (mru s)\<rparr>
                       else s\<lparr>mfu := remove1 frame_id (mfu s)\<rparr>)
             in Inr (s1\<lparr>alive_map := (alive_map s1)(frame_id := None),
                        curr_size := size_dec (curr_size s1)\<rparr>)))"

definition arc_size :: "arc \<Rightarrow> nat" where
  "arc_size s = curr_size s"

end
