(* ===== verification/Replacer_Spec.thy ===== *)
theory Replacer_Spec
  imports Prelude
begin

section \<open>The contract of a replacement policy\<close>

text \<open>
  What the buffer pool relies on when it calls its replacer
  (\<^verbatim>\<open>src/buffer/buffer_pool_manager.cpp\<close>, \<^verbatim>\<open>src/storage/page/page_guard.cpp\<close>): the five
  operations, and a view of the replacer's state that maps each tracked frame to the page it
  holds and whether it may be evicted. The lemmas below are what the pool's proofs use; the
  theory \<open>Arc_Proofs\<close> interprets the contract on the model of \<open>ArcReplacer\<close>.
\<close>

type_synonym frame_view = "frame_id \<rightharpoonup> page_id \<times> bool"

definition view_admits :: "frame_view \<Rightarrow> nat \<Rightarrow> frame_id \<Rightarrow> page_id \<Rightarrow> bool" where
  "view_admits v c f p \<longleftrightarrow>
     (case v f of
        Some (q, _) \<Rightarrow> q = p
      | None \<Rightarrow> (\<forall>g b. v g \<noteq> Some (p, b)) \<and> card (dom v) < c)"

definition view_record :: "frame_view \<Rightarrow> frame_id \<Rightarrow> page_id \<Rightarrow> frame_view" where
  "view_record v f p = (case v f of Some _ \<Rightarrow> v | None \<Rightarrow> v(f \<mapsto> (p, False)))"

definition view_set :: "frame_view \<Rightarrow> frame_id \<Rightarrow> bool \<Rightarrow> frame_view" where
  "view_set v f b = (case v f of None \<Rightarrow> v | Some (p, _) \<Rightarrow> v(f \<mapsto> (p, b)))"

lemma dom_view_set [simp]: "dom (view_set v f b) = dom v"
  by (auto simp: view_set_def split: option.splits)

lemma view_set_same [simp]: "v f = Some (p, b') \<Longrightarrow> view_set v f b = v(f \<mapsto> (p, b))"
  by (simp add: view_set_def)

lemma view_set_upd [simp]: "view_set (v(f \<mapsto> (p, b))) f c = v(f \<mapsto> (p, c))"
  by (simp add: view_set_def)

lemma view_record_same [simp]: "v f = Some x \<Longrightarrow> view_record v f p = v"
  by (simp add: view_record_def)

lemma view_record_new [simp]: "v f = None \<Longrightarrow> view_record v f p = v(f \<mapsto> (p, False))"
  by (simp add: view_record_def)

locale replacer =
  fixes evict :: "'s \<Rightarrow> (frame_id option \<times> 's) result"
    and record_access :: "'s \<Rightarrow> frame_id \<Rightarrow> page_id \<Rightarrow> 's result"
    and set_evictable :: "'s \<Rightarrow> frame_id \<Rightarrow> bool \<Rightarrow> 's result"
    and remove :: "'s \<Rightarrow> frame_id \<Rightarrow> 's result"
    and size_of :: "'s \<Rightarrow> nat"
    and view :: "'s \<Rightarrow> frame_view"
    and capacity :: "'s \<Rightarrow> nat"
    and inv :: "'s \<Rightarrow> bool"
  assumes evict_returns: "inv s \<Longrightarrow> returns (evict s)"
    and evict_None: "inv s \<Longrightarrow> evict s = Inr (None, s') \<Longrightarrow> s' = s \<and> (\<forall>f p. view s f \<noteq> Some (p, True))"
    and evict_Some: "inv s \<Longrightarrow> evict s = Inr (Some f, s') \<Longrightarrow>
      inv s' \<and> (\<exists>p. view s f = Some (p, True)) \<and> view s' = (view s)(f := None) \<and> capacity s' = capacity s"
    and record_ok: "inv s \<Longrightarrow> view_admits (view s) (capacity s) f p \<Longrightarrow>
      \<exists>s'. record_access s f p = Inr s' \<and> inv s' \<and> view s' = view_record (view s) f p \<and>
        capacity s' = capacity s"
    and set_evictable_ok: "inv s \<Longrightarrow> 0 \<le> f \<Longrightarrow>
      \<exists>s'. set_evictable s f b = Inr s' \<and> inv s' \<and> view s' = view_set (view s) f b \<and>
        capacity s' = capacity s"
    and remove_ok: "inv s \<Longrightarrow> view s f = Some (p, True) \<Longrightarrow>
      \<exists>s'. remove s f = Inr s' \<and> inv s' \<and> view s' = (view s)(f := None) \<and> capacity s' = capacity s"
    and size_eq: "inv s \<Longrightarrow> size_of s = card {f. \<exists>p. view s f = Some (p, True)}"
begin

text \<open>A page that is already in a frame: pin it, then record the access.\<close>

lemma pin_tracked:
  assumes "inv s" "0 \<le> f" "view s f = Some (p, b)"
  obtains s1 s2 where "set_evictable s f False = Inr s1" "record_access s1 f p = Inr s2"
    "inv s2" "view s2 = (view s)(f \<mapsto> (p, False))" "capacity s2 = capacity s"
proof -
  obtain s1 where s1: "set_evictable s f False = Inr s1" "inv s1"
    "view s1 = (view s)(f \<mapsto> (p, False))" "capacity s1 = capacity s"
    using set_evictable_ok [OF assms(1,2), of False] assms(3) by auto
  then have "view_admits (view s1) (capacity s1) f p" by (simp add: view_admits_def)
  with record_ok [OF s1(2)] obtain s2 where
    "record_access s1 f p = Inr s2" "inv s2" "view s2 = view_record (view s1) f p"
    "capacity s2 = capacity s1" by blast
  with s1 that show thesis by simp
qed

text \<open>A page brought into a frame the replacer does not track yet.\<close>

lemma pin_new:
  assumes "inv s" "0 \<le> f" "view s f = None" "\<And>g b. view s g \<noteq> Some (p, b)"
    "card (dom (view s)) < capacity s"
  obtains s1 s2 where "record_access s f p = Inr s1" "set_evictable s1 f False = Inr s2"
    "inv s2" "view s2 = (view s)(f \<mapsto> (p, False))" "capacity s2 = capacity s"
proof -
  have adm: "view_admits (view s) (capacity s) f p" using assms by (simp add: view_admits_def)
  obtain s1 where s1: "record_access s f p = Inr s1" "inv s1"
    "view s1 = (view s)(f \<mapsto> (p, False))" "capacity s1 = capacity s"
    using record_ok [OF assms(1) adm] assms(3) by auto
  with set_evictable_ok [OF s1(2) assms(2), of False] that show thesis by auto
qed

text \<open>A pinned frame is never the victim.\<close>

lemma pinned_not_evicted:
  assumes "inv s" "view s f = Some (p, False)" "evict s = Inr (Some g, s')"
  shows "g \<noteq> f \<and> view s' f = Some (p, False)"
  using evict_Some [OF assms(1,3)] assms(2) by auto

text \<open>The size is what decides whether a victim exists.\<close>

lemma evict_iff_size:
  assumes "inv s" "finite (dom (view s))"
  shows "(\<exists>f s'. evict s = Inr (Some f, s')) \<longleftrightarrow> 0 < size_of s"
proof -
  have fin: "finite {f. \<exists>p. view s f = Some (p, True)}"
    by (rule finite_subset [OF _ assms(2)]) auto
  obtain r s' where e: "evict s = Inr (r, s')"
    using evict_returns [OF assms(1)] by (auto elim: returnsE)
  show ?thesis
  proof (cases r)
    case None
    with e evict_None [OF assms(1)] have "{f. \<exists>p. view s f = Some (p, True)} = {}" by auto
    with None e show ?thesis by (simp add: size_eq [OF assms(1)])
  next
    case (Some f)
    with e evict_Some [OF assms(1)] have "f \<in> {f. \<exists>p. view s f = Some (p, True)}" by blast
    with fin have "0 < card {f. \<exists>p. view s f = Some (p, True)}" by (auto simp: card_gt_0_iff)
    with Some e show ?thesis by (simp add: size_eq [OF assms(1)])
  qed
qed

end

end
