(* ===== verification/Arc_Proofs.thy ===== *)
theory Arc_Proofs
  imports Arc Replacer_Spec
begin

section \<open>Correctness of the ARC replacer\<close>

text \<open>
  The invariant of \<open>ArcReplacer\<close>, its preservation by every operation, the victim each
  \<open>Evict\<close> chooses, the bounds of the ghost lists, and the interpretation of the replacer
  contract on the model.
\<close>

subsection \<open>Invariant\<close>

definition evictable_in :: "(frame_id \<rightharpoonup> frame_status) \<Rightarrow> frame_id \<Rightarrow> bool" where
  "evictable_in m f = (case m f of None \<Rightarrow> False | Some st \<Rightarrow> fs_evictable st)"

definition arc_lists :: "arc \<Rightarrow> bool" where
  "arc_lists s \<longleftrightarrow>
     distinct (mru s @ mfu s) \<and> distinct (mru_ghost s @ mfu_ghost s) \<and>
     dom (alive_map s) = set (mru s @ mfu s) \<and> dom (ghost_map s) = set (mru_ghost s @ mfu_ghost s) \<and>
     (\<forall>f st. alive_map s f = Some st \<longrightarrow> fs_arc_status st = (if f \<in> set (mru s) then MRU else MFU)) \<and>
     (\<forall>p st. ghost_map s p = Some st \<longrightarrow>
        fs_arc_status st = (if p \<in> set (mru_ghost s) then MRU_GHOST else MFU_GHOST))"

definition arc_pages :: "arc \<Rightarrow> bool" where
  "arc_pages s \<longleftrightarrow>
     (\<forall>f g st st'. alive_map s f = Some st \<longrightarrow> alive_map s g = Some st' \<longrightarrow>
        fs_page_id st = fs_page_id st' \<longrightarrow> f = g) \<and>
     (\<forall>f st. alive_map s f = Some st \<longrightarrow> ghost_map s (fs_page_id st) = None)"

definition arc_counts :: "arc \<Rightarrow> bool" where
  "arc_counts s \<longleftrightarrow>
     curr_size s = length (filter (evictable_in (alive_map s)) (mru s @ mfu s))"

definition arc_bounds :: "arc \<Rightarrow> bool" where
  "arc_bounds s \<longleftrightarrow>
     mru_target_size s \<le> replacer_size s \<and>
     length (mru s) + length (mru_ghost s) \<le> replacer_size s \<and>
     length (mru s) + length (mru_ghost s) + length (mfu s) + length (mfu_ghost s)
       \<le> 2 * replacer_size s"

definition arc_inv :: "arc \<Rightarrow> bool" where
  "arc_inv s \<longleftrightarrow> arc_lists s \<and> arc_pages s \<and> arc_counts s \<and> arc_bounds s"

definition arc_view :: "arc \<Rightarrow> frame_view" where
  "arc_view s f = map_option (\<lambda>st. (fs_page_id st, fs_evictable st)) (alive_map s f)"

lemmas arc_inv_defs = arc_inv_def arc_lists_def arc_pages_def arc_counts_def arc_bounds_def

lemma arc_init_inv: "arc_inv (arc_init c)"
  by (simp add: arc_inv_defs arc_init_def)

lemma arc_view_init: "arc_view (arc_init c) = Map.empty"
  by (simp add: arc_view_def arc_init_def fun_eq_iff)

lemma arc_view_eq_Some:
  "arc_view s f = Some (p, b) \<longleftrightarrow>
     (\<exists>st. alive_map s f = Some st \<and> fs_page_id st = p \<and> fs_evictable st = b)"
  by (auto simp: arc_view_def)

lemma arc_view_eq_None [simp]: "arc_view s f = None \<longleftrightarrow> alive_map s f = None"
  by (simp add: arc_view_def)

lemma dom_arc_view: "dom (arc_view s) = dom (alive_map s)"
  by (auto simp: arc_view_def)

lemma evictable_in_upd [simp]:
  "evictable_in (m(f \<mapsto> st)) g = (if g = f then fs_evictable st else evictable_in m g)"
  "evictable_in (m(f := None)) g = (g \<noteq> f \<and> evictable_in m g)"
  by (simp_all add: evictable_in_def)

subsection \<open>The victim\<close>

definition lru_evictable :: "arc \<Rightarrow> frame_id list \<Rightarrow> frame_id option" where
  "lru_evictable s xs = find (evictable_in (alive_map s)) (rev xs)"

definition arc_victim :: "arc \<Rightarrow> frame_id option" where
  "arc_victim s =
     (let m = lru_evictable s (mru s); f = lru_evictable s (mfu s)
      in if length (mru s) \<ge> mru_target_size s then (if m \<noteq> None then m else f)
         else (if f \<noteq> None then f else m))"

lemma scan_back_find:
  "set fs \<subseteq> dom m \<Longrightarrow>
   scan_back m fs = Inr (map_option (\<lambda>f. (f, the (m f))) (find (evictable_in m) fs))"
  by (induction fs) (auto simp: evictable_in_def split: option.splits)

definition evicted :: "arc \<Rightarrow> frame_id \<Rightarrow> arc \<Rightarrow> bool" where
  "evicted s f s' \<longleftrightarrow>
     (let p = fs_page_id (the (alive_map s f)) in
      evictable_in (alive_map s) f \<and> alive_map s' = (alive_map s)(f := None) \<and>
      curr_size s' = size_dec (curr_size s) \<and> mru_target_size s' = mru_target_size s \<and>
      replacer_size s' = replacer_size s \<and>
      (\<exists>st. ghost_map s' = (ghost_map s)(p \<mapsto> st) \<and>
         (f \<in> set (mru s) \<and> mru s' = remove1 f (mru s) \<and> mfu s' = mfu s \<and>
            mru_ghost s' = p # mru_ghost s \<and> mfu_ghost s' = mfu_ghost s \<and> fs_arc_status st = MRU_GHOST \<or>
          f \<in> set (mfu s) \<and> mfu s' = remove1 f (mfu s) \<and> mru s' = mru s \<and>
            mfu_ghost s' = p # mfu_ghost s \<and> mru_ghost s' = mru_ghost s \<and> fs_arc_status st = MFU_GHOST)))"

lemma find_SomeD: "find P xs = Some x \<Longrightarrow> x \<in> set xs \<and> P x"
  by (induction xs) (auto split: if_splits)

lemma try_evict_from_mru_eq:
  assumes "arc_lists s"
  shows "lru_evictable s (mru s) = None \<Longrightarrow> try_evict_from_mru s = Inr (None, s)"
    and "lru_evictable s (mru s) = Some f \<Longrightarrow>
      \<exists>s'. try_evict_from_mru s = Inr (Some f, s') \<and> evicted s f s'"
proof -
  have sub: "set (rev (mru s)) \<subseteq> dom (alive_map s)" using assms by (auto simp: arc_lists_def)
  show "try_evict_from_mru s = Inr (None, s)" if "lru_evictable s (mru s) = None"
    using that by (simp add: try_evict_from_mru_def scan_back_find [OF sub] lru_evictable_def)
  assume f: "lru_evictable s (mru s) = Some f"
  then have "f \<in> set (mru s)" "evictable_in (alive_map s) f"
    by (auto simp: lru_evictable_def dest: find_SomeD)
  moreover have "distinct (mru s)" using assms by (simp add: arc_lists_def)
  ultimately show "\<exists>s'. try_evict_from_mru s = Inr (Some f, s') \<and> evicted s f s'"
    using f by (simp add: try_evict_from_mru_def scan_back_find [OF sub] lru_evictable_def
      evicted_def Let_def erase_back_distinct) (rule exI, rule conjI, rule refl, simp)
qed

lemma try_evict_from_mfu_eq:
  assumes "arc_lists s"
  shows "lru_evictable s (mfu s) = None \<Longrightarrow> try_evict_from_mfu s = Inr (None, s)"
    and "lru_evictable s (mfu s) = Some f \<Longrightarrow>
      \<exists>s'. try_evict_from_mfu s = Inr (Some f, s') \<and> evicted s f s'"
proof -
  have sub: "set (rev (mfu s)) \<subseteq> dom (alive_map s)" using assms by (auto simp: arc_lists_def)
  show "try_evict_from_mfu s = Inr (None, s)" if "lru_evictable s (mfu s) = None"
    using that by (simp add: try_evict_from_mfu_def scan_back_find [OF sub] lru_evictable_def)
  assume f: "lru_evictable s (mfu s) = Some f"
  then have "f \<in> set (mfu s)" "evictable_in (alive_map s) f"
    by (auto simp: lru_evictable_def dest: find_SomeD)
  moreover have "distinct (mfu s)" using assms by (simp add: arc_lists_def)
  ultimately show "\<exists>s'. try_evict_from_mfu s = Inr (Some f, s') \<and> evicted s f s'"
    using f by (simp add: try_evict_from_mfu_def scan_back_find [OF sub] lru_evictable_def
      evicted_def Let_def erase_back_distinct) (rule exI, rule conjI, rule refl, simp)
qed

lemma arc_victim_None_iff:
  assumes "arc_counts s"
  shows "arc_victim s = None \<longleftrightarrow> curr_size s = 0"
  using assms by (auto simp: arc_victim_def arc_counts_def lru_evictable_def find_None_iff
    filter_empty_conv Let_def)

lemma arc_evict_eq:
  assumes "arc_inv s"
  shows "case arc_victim s of
      None \<Rightarrow> arc_evict s = Inr (None, s)
    | Some f \<Rightarrow> \<exists>s'. arc_evict s = Inr (Some f, s') \<and> evicted s f s'"
proof (cases "curr_size s = 0")
  case True
  with arc_victim_None_iff [of s] assms show ?thesis by (simp add: arc_evict_def arc_inv_def)
next
  case False
  note l = assms [unfolded arc_inv_def, THEN conjunct1]
  from False arc_victim_None_iff [of s] assms obtain f where f: "arc_victim s = Some f"
    by (auto simp: arc_inv_def)
  show ?thesis
    by (cases "lru_evictable s (mru s)"; cases "lru_evictable s (mfu s)")
      (use False f in \<open>auto simp: arc_evict_def arc_victim_def Let_def
         dest!: try_evict_from_mru_eq [OF l] try_evict_from_mfu_eq [OF l] split: if_splits\<close>)
qed

subsection \<open>Preservation\<close>

lemma evicted_cases:
  assumes "arc_inv s" "evicted s f s'"
  obtains st g where "alive_map s f = Some st" "fs_evictable st"
    "alive_map s' = (alive_map s)(f := None)" "ghost_map s' = (ghost_map s)(fs_page_id st \<mapsto> g)"
    "curr_size s' = size_dec (curr_size s)" "mru_target_size s' = mru_target_size s"
    "replacer_size s' = replacer_size s"
    "f \<in> set (mru s) \<and> mru s' = remove1 f (mru s) \<and> mfu s' = mfu s \<and>
       mru_ghost s' = fs_page_id st # mru_ghost s \<and> mfu_ghost s' = mfu_ghost s \<and>
       fs_arc_status g = MRU_GHOST \<or>
     f \<in> set (mfu s) \<and> f \<notin> set (mru s) \<and> mfu s' = remove1 f (mfu s) \<and> mru s' = mru s \<and>
       mfu_ghost s' = fs_page_id st # mfu_ghost s \<and> mru_ghost s' = mru_ghost s \<and>
       fs_arc_status g = MFU_GHOST"
proof -
  from assms obtain st where st: "alive_map s f = Some st" "fs_evictable st"
    by (auto simp: evicted_def evictable_in_def Let_def split: option.splits)
  have "f \<in> set (mfu s) \<Longrightarrow> f \<notin> set (mru s)" using assms(1) by (auto simp: arc_inv_defs)
  with assms st that show thesis by (auto simp: evicted_def Let_def)
qed

lemma alive_page_not_ghost:
  assumes "arc_inv s" "alive_map s f = Some st"
  shows "fs_page_id st \<notin> set (mru_ghost s)" "fs_page_id st \<notin> set (mfu_ghost s)"
proof -
  have "fs_page_id st \<notin> dom (ghost_map s)" using assms by (auto simp: arc_inv_def arc_pages_def)
  with assms(1) show "fs_page_id st \<notin> set (mru_ghost s)" "fs_page_id st \<notin> set (mfu_ghost s)"
    by (simp_all add: arc_inv_def arc_lists_def)
qed

lemma evicted_lists:
  assumes "arc_inv s" "evicted s f s'"
  shows "arc_lists s' \<and> arc_pages s'"
proof (rule evicted_cases [OF assms])
  fix st g
  assume st: "alive_map s f = Some st"
    and am: "alive_map s' = (alive_map s)(f := None)"
    and gm: "ghost_map s' = (ghost_map s)(fs_page_id st \<mapsto> g)"
    and d: "f \<in> set (mru s) \<and> mru s' = remove1 f (mru s) \<and> mfu s' = mfu s \<and>
       mru_ghost s' = fs_page_id st # mru_ghost s \<and> mfu_ghost s' = mfu_ghost s \<and>
       fs_arc_status g = MRU_GHOST \<or>
     f \<in> set (mfu s) \<and> f \<notin> set (mru s) \<and> mfu s' = remove1 f (mfu s) \<and> mru s' = mru s \<and>
       mfu_ghost s' = fs_page_id st # mfu_ghost s \<and> mru_ghost s' = mru_ghost s \<and>
       fs_arc_status g = MFU_GHOST"
  note new = alive_page_not_ghost [OF assms(1) st]
  have "arc_lists s'"
    using d
  proof
    assume "f \<in> set (mru s) \<and> mru s' = remove1 f (mru s) \<and> mfu s' = mfu s \<and>
       mru_ghost s' = fs_page_id st # mru_ghost s \<and> mfu_ghost s' = mfu_ghost s \<and>
       fs_arc_status g = MRU_GHOST"
    with assms(1) am gm new show ?thesis by (auto simp: arc_inv_defs)
  next
    assume "f \<in> set (mfu s) \<and> f \<notin> set (mru s) \<and> mfu s' = remove1 f (mfu s) \<and> mru s' = mru s \<and>
       mfu_ghost s' = fs_page_id st # mfu_ghost s \<and> mru_ghost s' = mru_ghost s \<and>
       fs_arc_status g = MFU_GHOST"
    with assms(1) am gm new show ?thesis by (auto simp: arc_inv_defs)
  qed
  moreover have "arc_pages s'"
    using assms(1) st unfolding arc_inv_def arc_pages_def am gm by (auto split: if_splits)
  ultimately show ?thesis by simp
qed

lemma evicted_counts:
  assumes "arc_inv s" "evicted s f s'"
  shows "arc_counts s' \<and> arc_bounds s'"
proof (rule evicted_cases [OF assms])
  fix st g
  let ?ev = "evictable_in (alive_map s)"
  assume st: "alive_map s f = Some st" "fs_evictable st"
    and am: "alive_map s' = (alive_map s)(f := None)"
    and cs: "curr_size s' = size_dec (curr_size s)"
    and ts: "mru_target_size s' = mru_target_size s" "replacer_size s' = replacer_size s"
    and d: "f \<in> set (mru s) \<and> mru s' = remove1 f (mru s) \<and> mfu s' = mfu s \<and>
       mru_ghost s' = fs_page_id st # mru_ghost s \<and> mfu_ghost s' = mfu_ghost s \<and>
       fs_arc_status g = MRU_GHOST \<or>
     f \<in> set (mfu s) \<and> f \<notin> set (mru s) \<and> mfu s' = remove1 f (mfu s) \<and> mru s' = mru s \<and>
       mfu_ghost s' = fs_page_id st # mfu_ghost s \<and> mru_ghost s' = mru_ghost s \<and>
       fs_arc_status g = MFU_GHOST"
  have dist: "distinct (mru s @ mfu s)" using assms(1) by (simp add: arc_inv_defs)
  have f: "f \<in> set (mru s @ mfu s)" using d by auto
  have lists: "mru s' @ mfu s' = remove1 f (mru s @ mfu s)"
    using d by (auto simp: remove1_append)
  have notin: "f \<notin> set (remove1 f (mru s @ mfu s))" using dist by (simp del: remove1_append)
  have "filter (evictable_in (alive_map s')) (mru s' @ mfu s') = filter ?ev (remove1 f (mru s @ mfu s))"
    unfolding lists using notin by (intro filter_cong) (auto simp: am)
  moreover have "Suc (length (filter ?ev (remove1 f (mru s @ mfu s)))) = length (filter ?ev (mru s @ mfu s))"
    by (rule length_filter_remove1_in [OF dist f]) (use st in \<open>simp add: evictable_in_def\<close>)
  moreover have "curr_size s = length (filter ?ev (mru s @ mfu s))"
    using assms(1) by (simp add: arc_inv_defs)
  ultimately have "arc_counts s'" unfolding arc_counts_def cs by (metis size_dec_Suc)
  moreover have "arc_bounds s'"
    using assms(1) d ts length_remove1_mem [of f "mru s"] length_remove1_mem [of f "mfu s"]
    by (auto simp: arc_inv_defs)
  ultimately show ?thesis by simp
qed

lemma evicted_inv:
  assumes "arc_inv s" "evicted s f s'"
  shows "arc_inv s'"
  unfolding arc_inv_def using evicted_lists [OF assms] evicted_counts [OF assms] by simp

lemma evicted_view:
  assumes "arc_inv s" "evicted s f s'"
  shows "(\<exists>p. arc_view s f = Some (p, True)) \<and> arc_view s' = (arc_view s)(f := None) \<and>
    replacer_size s' = replacer_size s"
  by (rule evicted_cases [OF assms]) (auto simp: arc_view_def fun_eq_iff)

lemma length_filter_remove1_mem:
  assumes "distinct xs" "x \<in> set xs"
  shows "length (filter P (remove1 x xs)) + (if P x then 1 else 0) = length (filter P xs)"
  using length_filter_remove1_in [OF assms, of P] length_filter_remove1_out [of P x xs] by auto

lemma length_filter_fresh:
  "f \<notin> set xs \<Longrightarrow>
   length (filter (evictable_in (m(f \<mapsto> st))) xs) = length (filter (evictable_in m) xs)"
  by (rule length_filter_cong_set) auto

lemma record_hit_view:
  "alive_map s f = Some st \<Longrightarrow> arc_view (record_hit s f st) = arc_view s \<and>
     replacer_size (record_hit s f st) = replacer_size s"
  by (auto simp: record_hit_def arc_view_def fun_eq_iff Let_def)

lemma record_hit_inv:
  assumes inv: "arc_inv s" and st: "alive_map s f = Some st"
  shows "arc_inv (record_hit s f st)"
proof -
  let ?s = "record_hit s f st"
  have lists: "mru ?s = (if f \<in> set (mru s) then remove1 f (mru s) else mru s)"
    "mfu ?s = f # (if f \<in> set (mru s) then mfu s else remove1 f (mfu s))"
    and mem: "f \<in> set (mru s) \<or> f \<in> set (mfu s)"
    and same: "mru_ghost ?s = mru_ghost s" "mfu_ghost ?s = mfu_ghost s" "ghost_map ?s = ghost_map s"
      "curr_size ?s = curr_size s" "mru_target_size ?s = mru_target_size s"
      "replacer_size ?s = replacer_size s"
      "alive_map ?s = (alive_map s)(f \<mapsto> st\<lparr>fs_arc_status := MFU\<rparr>)"
    using inv st by (auto simp: record_hit_def arc_inv_def arc_lists_def Let_def)
  have d: "distinct (mru s)" "distinct (mfu s)" using inv by (auto simp: arc_inv_defs)
  have ev: "evictable_in ((alive_map s)(f \<mapsto> st\<lparr>fs_arc_status := MFU\<rparr>)) = evictable_in (alive_map s)"
    using st by (auto simp: fun_eq_iff) (auto simp: evictable_in_def)
  have "arc_lists ?s \<and> arc_pages ?s"
    using inv st by (auto simp: lists same arc_inv_defs)
  moreover have "arc_counts ?s"
    using inv d mem length_filter_remove1_mem [of "mru s" f "evictable_in (alive_map s)"]
      length_filter_remove1_mem [of "mfu s" f "evictable_in (alive_map s)"]
    by (auto simp: arc_counts_def ev lists same arc_inv_def)
  moreover have "arc_bounds ?s"
    using inv mem length_remove1_mem [of f "mru s"] length_remove1_mem [of f "mfu s"]
    by (auto simp: arc_bounds_def lists same arc_inv_def)
  ultimately show ?thesis by (simp add: arc_inv_def)
qed

definition adapted_target :: "arc \<Rightarrow> page_id \<Rightarrow> nat" where
  "adapted_target s p =
     (let b1 = length (mru_ghost s); b2 = length (mfu_ghost s) in
      if p \<in> set (mru_ghost s) then
        min (mru_target_size s + (if b1 \<ge> b2 then 1 else b2 div b1)) (replacer_size s)
      else if b2 \<ge> b1 then mru_target_size s - 1 else mru_target_size s)"

lemma record_ghost_eq:
  assumes "p \<in> set (mru_ghost s) \<or> p \<in> set (mfu_ghost s)"
    and "fs_arc_status gs = MRU_GHOST \<longleftrightarrow> p \<in> set (mru_ghost s)"
  shows "record_ghost s f p gs = Inr (s\<lparr>mru_target_size := adapted_target s p,
    mru_ghost := (if p \<in> set (mru_ghost s) then remove1 p (mru_ghost s) else mru_ghost s),
    mfu_ghost := (if p \<in> set (mru_ghost s) then mfu_ghost s else remove1 p (mfu_ghost s)),
    ghost_map := (ghost_map s)(p := None), mfu := f # mfu s,
    alive_map := (alive_map s)(f \<mapsto> \<lparr>fs_page_id = p, fs_frame_id = f, fs_evictable = False,
      fs_arc_status = MFU\<rparr>)\<rparr>)"
  using assms
  by (cases "p \<in> set (mru_ghost s)"; cases "length (mfu_ghost s) \<le> length (mru_ghost s)";
      cases "length (mru_ghost s) \<le> length (mfu_ghost s)")
    (auto simp: record_ghost_def adapted_target_def Let_def)

lemma adapted_target_le:
  "mru_target_size s \<le> replacer_size s \<Longrightarrow> adapted_target s p \<le> replacer_size s"
  by (auto simp: adapted_target_def Let_def)

lemma record_ghost_ok:
  assumes inv: "arc_inv s" and new: "alive_map s f = None" and g: "ghost_map s p = Some gs"
  shows "\<exists>s'. record_ghost s f p gs = Inr s' \<and> arc_inv s' \<and>
    arc_view s' = (arc_view s)(f \<mapsto> (p, False)) \<and> replacer_size s' = replacer_size s"
proof -
  have fn: "f \<notin> set (mru s)" "f \<notin> set (mfu s)"
    using inv new by (auto simp: arc_inv_defs domIff)
  have pg: "p \<in> set (mru_ghost s) \<or> p \<in> set (mfu_ghost s)"
    using inv g by (auto simp: arc_inv_defs)
  then have st: "fs_arc_status gs = MRU_GHOST \<longleftrightarrow> p \<in> set (mru_ghost s)"
    using inv g by (auto simp: arc_inv_defs split: if_splits)
  obtain s' where s': "record_ghost s f p gs = Inr s'" "mru s' = mru s" "mfu s' = f # mfu s"
    "mru_ghost s' = (if p \<in> set (mru_ghost s) then remove1 p (mru_ghost s) else mru_ghost s)"
    "mfu_ghost s' = (if p \<in> set (mru_ghost s) then mfu_ghost s else remove1 p (mfu_ghost s))"
    "alive_map s' = (alive_map s)(f \<mapsto> \<lparr>fs_page_id = p, fs_frame_id = f, fs_evictable = False,
       fs_arc_status = MFU\<rparr>)"
    "ghost_map s' = (ghost_map s)(p := None)" "curr_size s' = curr_size s"
    "replacer_size s' = replacer_size s" "mru_target_size s' = adapted_target s p"
    by (rule that [OF record_ghost_eq [OF pg st, of f]]) simp_all
  have "arc_lists s'" using inv fn pg by (auto simp: arc_inv_def arc_lists_def s')
  moreover have "arc_pages s'"
    using inv new g by (auto simp: arc_inv_def arc_pages_def s')
  moreover have "arc_counts s'"
    using inv fn length_filter_fresh [OF fn(1)] length_filter_fresh [OF fn(2)]
    by (simp add: arc_inv_def arc_counts_def s')
  moreover have "arc_bounds s'"
    using inv pg length_remove1_mem [of p "mru_ghost s"] length_remove1_mem [of p "mfu_ghost s"]
    by (auto simp: arc_inv_def arc_bounds_def s' adapted_target_le)
  moreover have "arc_view s' = (arc_view s)(f \<mapsto> (p, False))"
    by (auto simp: arc_view_def s' fun_eq_iff)
  ultimately show ?thesis using s' by (auto simp: arc_inv_def)
qed

lemma record_miss_ok:
  assumes inv: "arc_inv s" and new: "alive_map s f = None" and g: "ghost_map s p = None"
    and np: "\<And>h st. alive_map s h = Some st \<Longrightarrow> fs_page_id st \<noteq> p"
    and room: "length (mru s) + length (mfu s) < replacer_size s"
  shows "arc_inv (record_miss s f p) \<and> arc_view (record_miss s f p) = (arc_view s)(f \<mapsto> (p, False)) \<and>
    replacer_size (record_miss s f p) = replacer_size s"
proof -
  let ?s = "record_miss s f p"
  let ?L1 = "length (mru s) + length (mru_ghost s)"
  let ?all = "?L1 + length (mfu s) + length (mfu_ghost s)"
  let ?c = "replacer_size s"
  have fn: "f \<notin> set (mru s)" "f \<notin> set (mfu s)"
    using inv new by (auto simp: arc_inv_defs domIff)
  have "p \<notin> dom (ghost_map s)" using g by auto
  then have pn: "p \<notin> set (mru_ghost s)" "p \<notin> set (mfu_ghost s)"
    using inv by (simp_all add: arc_inv_def arc_lists_def)
  have trim: "?L1 = ?c \<Longrightarrow> mru_ghost s \<noteq> []" "?L1 \<noteq> ?c \<Longrightarrow> ?all = 2 * ?c \<Longrightarrow> mfu_ghost s \<noteq> []"
    using room inv by (auto simp: arc_inv_def arc_bounds_def)
  have gl: "mru_ghost ?s = (if ?L1 = ?c then butlast (mru_ghost s) else mru_ghost s)"
    "mfu_ghost ?s = (if ?L1 \<noteq> ?c \<and> ?all = 2 * ?c then butlast (mfu_ghost s) else mfu_ghost s)"
    "ghost_map ?s = (if ?L1 = ?c then (ghost_map s)(last (mru_ghost s) := None)
       else if ?all = 2 * ?c then (ghost_map s)(last (mfu_ghost s) := None) else ghost_map s)"
    using trim by (auto simp: record_miss_def Let_def)
  have same: "mru ?s = f # mru s" "mfu ?s = mfu s" "curr_size ?s = curr_size s"
    "mru_target_size ?s = mru_target_size s" "replacer_size ?s = ?c"
    "alive_map ?s = (alive_map s)(f \<mapsto> \<lparr>fs_page_id = p, fs_frame_id = f, fs_evictable = False,
       fs_arc_status = MRU\<rparr>)"
    by (auto simp: record_miss_def Let_def)
  have d: "distinct (mru_ghost s)" "distinct (mfu_ghost s)" "set (mru_ghost s) \<inter> set (mfu_ghost s) = {}"
    using inv by (auto simp: arc_inv_defs)
  have lm: "mru_ghost s \<noteq> [] \<Longrightarrow> last (mru_ghost s) \<notin> set (mfu_ghost s)"
    "mfu_ghost s \<noteq> [] \<Longrightarrow> last (mfu_ghost s) \<notin> set (mru_ghost s)"
    using d(3) last_in_set by fastforce+
  have "arc_lists ?s"
    using inv fn d trim lm unfolding arc_inv_def arc_lists_def same gl
    by (auto simp: butlast_set_distinct distinct_butlast dest: in_set_butlastD)
  moreover have "arc_pages ?s"
    using inv new g np by (auto simp: arc_inv_def arc_pages_def same gl)
  moreover have "arc_counts ?s"
    using inv fn length_filter_fresh [OF fn(1)] length_filter_fresh [OF fn(2)]
    by (simp add: arc_inv_def arc_counts_def same)
  moreover have "arc_bounds ?s"
    using inv room trim by (auto simp: arc_inv_def arc_bounds_def same gl)
  moreover have "arc_view ?s = (arc_view s)(f \<mapsto> (p, False))"
    by (auto simp: arc_view_def same fun_eq_iff)
  ultimately show ?thesis by (simp add: arc_inv_def same)
qed

lemma card_alive: "arc_inv s \<Longrightarrow> card (dom (alive_map s)) = length (mru s) + length (mfu s)"
  by (simp add: arc_inv_def arc_lists_def card_Un_disjoint distinct_card)

lemma arc_record_ok:
  assumes inv: "arc_inv s" and adm: "view_admits (arc_view s) (replacer_size s) f p"
  shows "\<exists>s'. arc_record_access s f p = Inr s' \<and> arc_inv s' \<and>
    arc_view s' = view_record (arc_view s) f p \<and> replacer_size s' = replacer_size s"
proof (cases "alive_map s f")
  case (Some st)
  with record_hit_inv [OF inv Some] record_hit_view [OF Some] show ?thesis
    by (simp add: arc_record_access_def arc_view_def view_record_def)
next
  case None
  then have np: "\<And>h st. alive_map s h = Some st \<Longrightarrow> fs_page_id st \<noteq> p"
    and room: "length (mru s) + length (mfu s) < replacer_size s"
    using adm inv by (auto simp: view_admits_def arc_view_def dom_arc_view card_alive)
  show ?thesis
  proof (cases "ghost_map s p")
    case (Some gs)
    with record_ghost_ok [OF inv None Some] None show ?thesis
      by (simp add: arc_record_access_def)
  next
    case g: None
    with record_miss_ok [OF inv None g np room] None show ?thesis
      by (simp add: arc_record_access_def)
  qed
qed

lemma arc_set_evictable_ok:
  assumes inv: "arc_inv s" and f: "0 \<le> f"
  shows "\<exists>s'. arc_set_evictable s f b = Inr s' \<and> arc_inv s' \<and>
    arc_view s' = view_set (arc_view s) f b \<and> replacer_size s' = replacer_size s"
proof (cases "alive_map s f")
  case None
  then have "arc_view s f = None" by simp
  with None inv f show ?thesis by (simp add: arc_set_evictable_def view_set_def del: arc_view_eq_None)
next
  case (Some st)
  show ?thesis
  proof (cases "fs_evictable st = b")
    case True
    with Some inv f show ?thesis
      by (auto simp: arc_set_evictable_def view_set_def arc_view_def)
  next
    case False
    let ?n = "if b then curr_size s + 1 else size_dec (curr_size s)"
    let ?s = "s\<lparr>alive_map := (alive_map s)(f \<mapsto> st\<lparr>fs_evictable := b\<rparr>), curr_size := ?n\<rparr>"
    have d: "distinct (mru s @ mfu s)" and mem: "f \<in> set (mru s @ mfu s)"
      using inv Some by (auto simp: arc_inv_defs)
    let ?ev = "evictable_in (alive_map s)" and ?ev' = "evictable_in (alive_map ?s)"
    have rest: "length (filter ?ev' (remove1 f (mru s @ mfu s))) = length (filter ?ev (remove1 f (mru s @ mfu s)))"
      by (rule length_filter_cong_set) (use d in \<open>auto simp del: remove1_append distinct_append\<close>)
    have cs: "curr_size s = length (filter ?ev (mru s @ mfu s))"
      using inv by (simp add: arc_inv_defs)
    have "?ev f \<longleftrightarrow> \<not> b" using Some False by (auto simp: evictable_in_def)
    then have "length (filter ?ev' (mru s @ mfu s)) = ?n"
      using length_filter_remove1_mem [OF d mem, of ?ev] length_filter_remove1_mem [OF d mem, of ?ev'] rest
      unfolding cs by (auto simp del: filter_append remove1_append split: if_splits)
        (metis size_dec_Suc)
    then have "arc_counts ?s" by (simp add: arc_counts_def)
    moreover have "arc_lists ?s" "arc_pages ?s" "arc_bounds ?s"
      using inv Some by (auto simp: arc_inv_defs)
    ultimately have "arc_inv ?s" by (simp add: arc_inv_def)
    moreover have "arc_view ?s = view_set (arc_view s) f b"
      using Some by (auto simp: arc_view_def view_set_def fun_eq_iff)
    moreover have "arc_set_evictable s f b = Inr ?s"
      using Some False f by (simp add: arc_set_evictable_def)
    ultimately show ?thesis by (intro exI [of _ ?s]) simp
  qed
qed

lemma arc_remove_ok:
  assumes inv: "arc_inv s" and v: "arc_view s f = Some (p, True)"
  shows "\<exists>s'. arc_remove s f = Inr s' \<and> arc_inv s' \<and> arc_view s' = (arc_view s)(f := None) \<and>
    replacer_size s' = replacer_size s"
proof -
  from v obtain st where st: "alive_map s f = Some st" "fs_evictable st"
    by (auto simp: arc_view_def)
  define s' where "s' = s\<lparr>mru := remove1 f (mru s), mfu := remove1 f (mfu s),
    alive_map := (alive_map s)(f := None), curr_size := size_dec (curr_size s)\<rparr>"
  have d: "distinct (mru s @ mfu s)" and mem: "f \<in> set (mru s @ mfu s)"
    using inv st by (auto simp: arc_inv_defs)
  have "f \<in> set (mru s) \<Longrightarrow> remove1 f (mfu s) = mfu s" using d by (simp add: disjoint_iff remove1_idem)
  then have eq: "arc_remove s f = Inr s'"
    using inv st by (auto simp: arc_remove_def s'_def arc_inv_def arc_lists_def Let_def remove1_idem
      intro!: arc.equality)
  have app: "remove1 f (mru s) @ remove1 f (mfu s) = remove1 f (mru s @ mfu s)"
    using d by (auto simp: remove1_append remove1_idem disjoint_iff)
  have "length (filter (evictable_in (alive_map s')) (remove1 f (mru s @ mfu s))) =
      length (filter (evictable_in (alive_map s)) (remove1 f (mru s @ mfu s)))"
    by (rule length_filter_cong_set) (use d in \<open>auto simp: s'_def simp del: remove1_append distinct_append\<close>)
  then have "curr_size s' = length (filter (evictable_in (alive_map s')) (remove1 f (mru s @ mfu s)))"
    using length_filter_remove1_in [OF d mem, of "evictable_in (alive_map s)"] inv st
    by (simp add: s'_def arc_inv_def arc_counts_def evictable_in_def del: filter_append remove1_append)
      (metis size_dec_Suc)
  then have "arc_counts s'" by (simp add: arc_counts_def s'_def app del: filter_append remove1_append)
  moreover have "arc_lists s'" "arc_pages s'"
    using inv by (auto simp: arc_inv_defs s'_def)
  moreover have "arc_bounds s'"
    using inv length_remove1 [of f "mru s"] length_remove1 [of f "mfu s"]
    by (auto simp: arc_inv_def arc_bounds_def s'_def)
  moreover have "arc_view s' = (arc_view s)(f := None)"
    by (simp add: arc_view_def s'_def fun_eq_iff)
  ultimately show ?thesis using eq by (auto simp: arc_inv_def s'_def)
qed

lemma arc_size_eq:
  assumes "arc_inv s"
  shows "arc_size s = card {f. \<exists>p. arc_view s f = Some (p, True)}"
proof -
  let ?l = "filter (evictable_in (alive_map s)) (mru s @ mfu s)"
  have set: "{f. \<exists>p. arc_view s f = Some (p, True)} = set ?l"
  proof (rule set_eqI)
    fix f
    have "f \<in> dom (alive_map s) \<longleftrightarrow> f \<in> set (mru s @ mfu s)"
      using assms by (simp add: arc_inv_def arc_lists_def)
    then show "f \<in> {f. \<exists>p. arc_view s f = Some (p, True)} \<longleftrightarrow> f \<in> set ?l"
      by (cases "alive_map s f") (auto simp: arc_view_def evictable_in_def)
  qed
  have "distinct ?l" using assms by (auto simp: arc_inv_def arc_lists_def)
  then have "card (set ?l) = length ?l" by (rule distinct_card)
  moreover have "curr_size s = length ?l" using assms unfolding arc_inv_def arc_counts_def by blast
  ultimately show ?thesis unfolding arc_size_def set by (rule trans [OF _ sym, rotated])
qed

subsection \<open>ARC is a replacement policy\<close>

lemma arc_evict_None:
  "arc_inv s \<Longrightarrow> arc_evict s = Inr (None, s') \<Longrightarrow> s' = s \<and> curr_size s = 0"
  using arc_evict_eq [of s] arc_victim_None_iff [of s]
  by (auto simp: arc_inv_def split: option.splits)

lemma arc_evict_Some:
  "arc_inv s \<Longrightarrow> arc_evict s = Inr (Some f, s') \<Longrightarrow> arc_victim s = Some f \<and> evicted s f s'"
  using arc_evict_eq [of s] by (auto split: option.splits)

lemma arc_evict_returns: "arc_inv s \<Longrightarrow> returns (arc_evict s)"
  using arc_evict_eq [of s] by (auto split: option.splits)

lemma curr_size_0_view:
  assumes "arc_inv s" "curr_size s = 0"
  shows "arc_view s f \<noteq> Some (p, True)"
proof -
  have dom: "dom (alive_map s) = set (mru s @ mfu s)" using assms by (simp add: arc_inv_defs)
  have "\<forall>g \<in> set (mru s @ mfu s). \<not> evictable_in (alive_map s) g"
    using assms by (auto simp: arc_inv_def arc_counts_def filter_empty_conv)
  with dom show ?thesis by (force simp: arc_view_eq_Some evictable_in_def split: option.splits)
qed

interpretation arcr: replacer arc_evict arc_record_access arc_set_evictable arc_remove arc_size
  arc_view replacer_size arc_inv
proof unfold_locales
  fix s s' :: arc and f :: frame_id
  assume "arc_inv s"
  then show "returns (arc_evict s)" by (rule arc_evict_returns)
  show "s' = s \<and> (\<forall>f p. arc_view s f \<noteq> Some (p, True))" if "arc_evict s = Inr (None, s')"
    using arc_evict_None [OF \<open>arc_inv s\<close> that] curr_size_0_view [OF \<open>arc_inv s\<close>] by blast
  show "arc_inv s' \<and> (\<exists>p. arc_view s f = Some (p, True)) \<and> arc_view s' = (arc_view s)(f := None) \<and>
      replacer_size s' = replacer_size s" if "arc_evict s = Inr (Some f, s')"
    using arc_evict_Some [OF \<open>arc_inv s\<close> that] evicted_inv evicted_view \<open>arc_inv s\<close> by blast
qed (fact arc_record_ok arc_set_evictable_ok arc_remove_ok arc_size_eq)+

subsection \<open>Runs of the replacer\<close>

text \<open>
  A client's sequence of calls. The client of the code (the buffer pool) gives one page to
  one frame at a time and never tracks more frames than the replacer was built for; these
  are the guards of \<open>RecordAccess\<close>. \<open>Remove\<close> is called on evictable frames only.
\<close>

datatype arc_op = Evict | Record frame_id page_id | SetEvictable frame_id bool | RemoveFrame frame_id

fun arc_step :: "arc \<Rightarrow> arc_op \<Rightarrow> arc result" where
  "arc_step s Evict = rbind (arc_evict s) (\<lambda>(_, s'). Inr s')"
| "arc_step s (Record f p) = arc_record_access s f p"
| "arc_step s (SetEvictable f b) = arc_set_evictable s f b"
| "arc_step s (RemoveFrame f) = arc_remove s f"

fun arc_guard :: "arc \<Rightarrow> arc_op \<Rightarrow> bool" where
  "arc_guard s Evict = True"
| "arc_guard s (Record f p) = view_admits (arc_view s) (replacer_size s) f p"
| "arc_guard s (SetEvictable f b) = (0 \<le> f)"
| "arc_guard s (RemoveFrame f) = (\<forall>p. arc_view s f \<noteq> Some (p, False))"

inductive arc_reachable :: "nat \<Rightarrow> arc \<Rightarrow> bool" for c where
  init: "arc_reachable c (arc_init c)"
| step: "arc_reachable c s \<Longrightarrow> arc_guard s op \<Longrightarrow> arc_step s op = Inr s' \<Longrightarrow> arc_reachable c s'"

lemma arc_step_ok:
  assumes "arc_inv s" "arc_guard s op"
  shows "\<exists>s'. arc_step s op = Inr s' \<and> arc_inv s' \<and> replacer_size s' = replacer_size s"
proof (cases op)
  case Evict
  obtain r s' where e: "arc_evict s = Inr (r, s')"
    using arcr.evict_returns [OF assms(1)] by (auto elim: returnsE)
  with arcr.evict_None [OF assms(1)] arcr.evict_Some [OF assms(1)] assms(1)
  have "arc_inv s' \<and> replacer_size s' = replacer_size s" by (cases r) auto
  with e Evict show ?thesis by simp
next
  case (Record f p)
  with arcr.record_ok [OF assms(1), of f p] assms(2) show ?thesis by auto
next
  case (SetEvictable f b)
  with arcr.set_evictable_ok [OF assms(1), of f b] assms(2) show ?thesis by auto
next
  case (RemoveFrame f)
  show ?thesis
  proof (cases "arc_view s f")
    case None
    with RemoveFrame assms(1) show ?thesis by (simp add: arc_remove_def)
  next
    case (Some pb)
    with assms(2) RemoveFrame have "arc_view s f = Some (fst pb, True)" by (cases pb) auto
    with arcr.remove_ok [OF assms(1)] RemoveFrame show ?thesis by auto
  qed
qed

lemma arc_reachable_inv: "arc_reachable c s \<Longrightarrow> arc_inv s \<and> replacer_size s = c"
proof (induction rule: arc_reachable.induct)
  case init
  show ?case by (simp add: arc_init_inv) (simp add: arc_init_def)
next
  case (step s op s')
  with arc_step_ok [of s op] show ?case by auto
qed

subsection \<open>Properties\<close>

text \<open>A concrete run: page 10 is loaded into frame 0, which then becomes evictable.\<close>

definition arc_one :: arc where
  "arc_one = (arc_init 2)\<lparr>mru := [0],
     alive_map := [0 \<mapsto> \<lparr>fs_page_id = 10, fs_frame_id = 0, fs_evictable = True, fs_arc_status = MRU\<rparr>],
     curr_size := 1\<rparr>"

lemma arc_one_reachable: "arc_reachable 2 arc_one"
proof -
  let ?s = "(arc_init 2)\<lparr>mru := [0], alive_map := [0 \<mapsto> \<lparr>fs_page_id = 10, fs_frame_id = 0,
    fs_evictable = False, fs_arc_status = MRU\<rparr>]\<rparr>"
  have "arc_reachable 2 ?s"
    by (rule arc_reachable.step [OF arc_reachable.init, where op = "Record 0 10"])
      (simp_all add: view_admits_def arc_view_init, simp_all add: arc_init_def
        arc_record_access_def record_miss_def)
  then show ?thesis
    by (rule arc_reachable.step [where op = "SetEvictable 0 True"])
      (simp_all add: arc_one_def arc_init_def arc_set_evictable_def)
qed

text \<open>C5: in every state a client can reach, a frame is in exactly one of the two alive lists, a
  page in at most one ghost list, no page is both alive and a ghost, \<open>Size\<close> is the number of
  evictable frames, the lists respect the bounds of the ARC paper, and no guarded operation
  fails.\<close>

theorem arc_reachable_correct:
  assumes "arc_reachable c s"
  shows "distinct (mru s @ mfu s) \<and> distinct (mru_ghost s @ mfu_ghost s) \<and>
    dom (alive_map s) = set (mru s @ mfu s) \<and> dom (ghost_map s) = set (mru_ghost s @ mfu_ghost s) \<and>
    (\<forall>f st. alive_map s f = Some st \<longrightarrow> fs_page_id st \<notin> set (mru_ghost s @ mfu_ghost s)) \<and>
    arc_size s = card {f. \<exists>p. arc_view s f = Some (p, True)} \<and>
    mru_target_size s \<le> c \<and> length (mru s) + length (mru_ghost s) \<le> c \<and>
    length (mru s) + length (mru_ghost s) + length (mfu s) + length (mfu_ghost s) \<le> 2 * c \<and>
    (\<forall>op. arc_guard s op \<longrightarrow> returns (arc_step s op))"
proof (intro conjI)
  have inv: "arc_inv s" and c: "replacer_size s = c" using arc_reachable_inv [OF assms] by auto
  show "distinct (mru s @ mfu s)" "distinct (mru_ghost s @ mfu_ghost s)"
    "dom (alive_map s) = set (mru s @ mfu s)" "dom (ghost_map s) = set (mru_ghost s @ mfu_ghost s)"
    "mru_target_size s \<le> c" "length (mru s) + length (mru_ghost s) \<le> c"
    "length (mru s) + length (mru_ghost s) + length (mfu s) + length (mfu_ghost s) \<le> 2 * c"
    using inv c by (auto simp: arc_inv_defs)
  show "\<forall>f st. alive_map s f = Some st \<longrightarrow> fs_page_id st \<notin> set (mru_ghost s @ mfu_ghost s)"
    using alive_page_not_ghost [OF inv] by auto
  show "arc_size s = card {f. \<exists>p. arc_view s f = Some (p, True)}" by (rule arcr.size_eq [OF inv])
  show "\<forall>op. arc_guard s op \<longrightarrow> returns (arc_step s op)"
    using arc_step_ok [OF inv] by (metis returns_simps(1))
qed

theorem arc_reachable_correct_witness:
  "arc_size arc_one = card {f. \<exists>p. arc_view arc_one f = Some (p, True)} \<and> returns (arc_step arc_one Evict)"
  using arc_reachable_correct [OF arc_one_reachable] by (metis arc_guard.simps(1))

text \<open>\<open>Evict\<close> fails exactly when no frame is evictable; otherwise it takes the evictable
  frame nearest the back of the side the target prefers (the MRU list when it is at least as
  long as the target), falls back to the other side only when the preferred one has none, and
  the victim's page becomes the front of that side's ghost list.\<close>

theorem arc_evict_lru:
  assumes "arc_reachable c s"
  shows "case arc_evict s of
      Inl e \<Rightarrow> False
    | Inr (None, s') \<Rightarrow> s' = s \<and> arc_size s = 0
    | Inr (Some f, s') \<Rightarrow>
        (let first = (if length (mru s) \<ge> mru_target_size s then mru s else mfu s);
             second = (if length (mru s) \<ge> mru_target_size s then mfu s else mru s) in
         (find (evictable_in (alive_map s)) (rev first) = Some f \<or>
          find (evictable_in (alive_map s)) (rev first) = None \<and>
          find (evictable_in (alive_map s)) (rev second) = Some f) \<and>
         (f \<in> set (mru s) \<longrightarrow> mru_ghost s' = fs_page_id (the (alive_map s f)) # mru_ghost s) \<and>
         (f \<in> set (mfu s) \<longrightarrow> mfu_ghost s' = fs_page_id (the (alive_map s f)) # mfu_ghost s) \<and>
         alive_map s' = (alive_map s)(f := None) \<and> arc_size s = Suc (arc_size s'))"
proof -
  have inv: "arc_inv s" using arc_reachable_inv [OF assms] by simp
  obtain r s' where e: "arc_evict s = Inr (r, s')"
    using arcr.evict_returns [OF inv] by (auto elim: returnsE)
  show ?thesis
  proof (cases r)
    case None
    with e arc_evict_None [OF inv] show ?thesis by (simp add: arc_size_def)
  next
    case (Some f)
    with e have v: "arc_victim s = Some f" "evicted s f s'" using arc_evict_Some [OF inv] by auto
    then have "0 < curr_size s" using arc_victim_None_iff [of s] inv by (auto simp: arc_inv_def)
    moreover have "f \<in> set (mru s) \<Longrightarrow> f \<notin> set (mfu s)" using inv by (auto simp: arc_inv_defs)
    ultimately show ?thesis
      using v e Some by (auto simp: evicted_def arc_victim_def lru_evictable_def arc_size_def Let_def
          split: if_splits)
  qed
qed

theorem arc_evict_lru_witness:
  "\<exists>s'. arc_evict arc_one = Inr (Some 0, s') \<and> arc_size arc_one = Suc (arc_size s')"
  using arc_evict_lru [OF arc_one_reachable]
  by (simp add: arc_one_def arc_init_def arc_evict_def try_evict_from_mru_def Let_def)

text \<open>An access to a page in a ghost list revives it at the front of the MFU list and moves
  the target: up (never past the capacity) for a ghost of the MRU list, down for a ghost of
  the MFU list, by 1 or by the ratio of the ghost lists.\<close>

theorem arc_ghost_hit:
  assumes "arc_reachable c s" "alive_map s f = None" "p \<in> set (mru_ghost s @ mfu_ghost s)"
  shows "\<exists>s'. arc_record_access s f p = Inr s' \<and> mfu s' = f # mfu s \<and> mru s' = mru s \<and>
    p \<notin> set (mru_ghost s' @ mfu_ghost s') \<and> mru_target_size s' = adapted_target s p \<and>
    mru_target_size s' \<le> c \<and>
    (p \<in> set (mru_ghost s) \<longrightarrow> mru_target_size s \<le> mru_target_size s') \<and>
    (p \<in> set (mfu_ghost s) \<longrightarrow> mru_target_size s' \<le> mru_target_size s)"
proof -
  have inv: "arc_inv s" and c: "replacer_size s = c" using arc_reachable_inv [OF assms(1)] by auto
  have "p \<in> dom (ghost_map s)" using inv assms(3) by (simp add: arc_inv_defs)
  then obtain gs where gs: "ghost_map s p = Some gs" by auto
  have mem: "p \<in> set (mru_ghost s) \<or> p \<in> set (mfu_ghost s)" using assms(3) by simp
  have dis: "p \<in> set (mfu_ghost s) \<Longrightarrow> p \<notin> set (mru_ghost s)" "distinct (mru_ghost s)" "distinct (mfu_ghost s)"
    "mru_target_size s \<le> replacer_size s"
    using inv by (auto simp: arc_inv_defs)
  have "fs_arc_status gs = MRU_GHOST \<longleftrightarrow> p \<in> set (mru_ghost s)"
    using inv gs mem by (auto simp: arc_inv_defs split: if_splits)
  from record_ghost_eq [OF mem this, of f] show ?thesis
    using assms(2) gs dis mem adapted_target_le [OF dis(4)] c
    by (auto simp: arc_record_access_def adapted_target_def Let_def)
qed

theorem arc_ghost_hit_witness:
  "\<exists>s s'. arc_reachable 2 s \<and> 10 \<in> set (mru_ghost s) \<and> arc_record_access s 0 10 = Inr s' \<and>
     mfu s' = [0] \<and> mru_target_size s' = 1"
proof -
  let ?s = "(arc_init 2)\<lparr>mru_ghost := [10], ghost_map := [10 \<mapsto> \<lparr>fs_page_id = 10, fs_frame_id = 0,
    fs_evictable = False, fs_arc_status = MRU_GHOST\<rparr>]\<rparr>"
  have r: "arc_reachable 2 ?s"
    by (rule arc_reachable.step [OF arc_one_reachable, where op = Evict])
      (simp_all add: arc_one_def arc_init_def arc_evict_def try_evict_from_mru_def erase_back_def Let_def)
  obtain s' where "arc_record_access ?s 0 10 = Inr s'" "mfu s' = [0]"
      "mru_target_size s' = adapted_target ?s 10"
    using arc_ghost_hit [OF r, of 0 10] by (auto simp: arc_init_def)
  with r show ?thesis by (intro exI [of _ ?s] exI [of _ s']) (simp add: adapted_target_def arc_init_def)
qed

text \<open>The target does not move when the MFU ghost list is the shorter one, where the ARC paper
  lowers it by the ratio of the two lists.\<close>

theorem arc_target_stuck:
  "p \<in> set (mfu_ghost s) \<Longrightarrow> p \<notin> set (mru_ghost s) \<Longrightarrow>
   length (mfu_ghost s) < length (mru_ghost s) \<Longrightarrow> adapted_target s p = mru_target_size s"
  by (simp add: adapted_target_def Let_def)

end
