(* ===== verification/Disk.thy ===== *)
theory Disk
  imports Prelude "HOL-Library.Word"
begin

section \<open>Disk managers and the disk scheduler\<close>

text \<open>
  Models \<^verbatim>\<open>src/storage/disk/disk_manager.cpp\<close> (the database file),
  \<^verbatim>\<open>src/storage/disk/disk_manager_memory.cpp\<close> (the two in-memory managers),
  \<^verbatim>\<open>src/storage/disk/disk_scheduler.cpp\<close> and \<^verbatim>\<open>src/include/common/channel.h\<close>.
  The virtual methods of \<open>DiskManager\<close> are a record of operations, so the buffer pool is
  modelled for any of them. The operating system's file is the map from byte offsets to the
  page-sized block stored there, filled with zeros by \<open>resize_file\<close>; its I/O does not fail.
\<close>

type_synonym page_data = "8 word list"

definition zero_page :: page_data where
  "zero_page = replicate BUSTUB_PAGE_SIZE 0"

record 'd disk_ops =
  op_write :: "'d \<Rightarrow> page_id \<Rightarrow> page_data \<Rightarrow> 'd result"
  op_read :: "'d \<Rightarrow> page_id \<Rightarrow> page_data \<Rightarrow> (page_data \<times> 'd) result"
  op_delete :: "'d \<Rightarrow> page_id \<Rightarrow> 'd result"

subsection \<open>The contract\<close>

text \<open>
  What the buffer pool relies on: a page reads back what was last written to it, and an
  operation on one page leaves the others alone. What a page holds that was never written, or
  that was deleted, is not promised.
\<close>

locale disk =
  fixes dk :: "'d disk_ops"
    and contents :: "'d \<Rightarrow> page_id \<rightharpoonup> page_data"
    and valid :: "page_id \<Rightarrow> bool"
    and ok :: "'d \<Rightarrow> bool"
  assumes write_ok: "ok d \<Longrightarrow> valid p \<Longrightarrow>
      \<exists>d'. op_write dk d p x = Inr d' \<and> ok d' \<and> contents d' = (contents d)(p \<mapsto> x)"
    and read_ok: "ok d \<Longrightarrow> valid p \<Longrightarrow>
      \<exists>x d'. op_read dk d p buf = Inr (x, d') \<and> ok d' \<and> contents d' p = Some x \<and>
        (\<forall>q. contents d q \<noteq> None \<longrightarrow> contents d' q = contents d q)"
    and delete_ok: "ok d \<Longrightarrow> valid p \<Longrightarrow>
      \<exists>d'. op_delete dk d p = Inr d' \<and> ok d' \<and> (\<forall>q. q \<noteq> p \<longrightarrow> contents d' q = contents d q)"
begin

lemma read_stored:
  assumes "ok d" "valid p" "contents d p = Some x"
  obtains d' where "op_read dk d p buf = Inr (x, d')" "ok d'"
    "\<And>q. contents d q \<noteq> None \<Longrightarrow> contents d' q = contents d q"
  using read_ok [OF assms(1,2), of buf] assms(3) by fastforce

lemma read_after_write:
  assumes "ok d" "valid p"
  obtains d1 d2 where "op_write dk d p x = Inr d1" "op_read dk d1 p buf = Inr (x, d2)" "ok d2"
proof -
  obtain d1 where d1: "op_write dk d p x = Inr d1" "ok d1" "contents d1 = (contents d)(p \<mapsto> x)"
    using write_ok [OF assms] by blast
  then have "contents d1 p = Some x" by simp
  with read_stored [OF d1(2) assms(2)] d1(1) that show thesis by metis
qed

end

subsection \<open>The file disk manager\<close>

record disk_file =
  df_pages :: "page_id \<rightharpoonup> nat"
  df_free_slots :: "nat list"
  df_page_capacity :: nat
  df_file :: "nat \<Rightarrow> page_data"
  df_num_writes :: nat
  df_num_deletes :: nat

definition DEFAULT_DB_IO_SIZE :: nat where
  "DEFAULT_DB_IO_SIZE = 16"

definition disk_file_init :: disk_file where
  "disk_file_init = \<lparr>df_pages = Map.empty, df_free_slots = [], df_page_capacity = DEFAULT_DB_IO_SIZE,
     df_file = (\<lambda>_. zero_page), df_num_writes = 0, df_num_deletes = 0\<rparr>"

text \<open>
  \<open>free_slots_\<close> is a vector used as a stack (its back is the last element).
\<close>

definition AllocatePage :: "disk_file \<Rightarrow> nat \<times> disk_file" where
  "AllocatePage d =
     (if df_free_slots d \<noteq> [] then
        (last (df_free_slots d), d\<lparr>df_free_slots := butlast (df_free_slots d)\<rparr>)
      else
        (let n = card (dom (df_pages d));
             d1 = (if n + 1 \<ge> df_page_capacity d
                   then d\<lparr>df_page_capacity := df_page_capacity d * 2\<rparr> else d)
         in (n * BUSTUB_PAGE_SIZE, d1)))"

definition disk_file_write :: "disk_file \<Rightarrow> page_id \<Rightarrow> page_data \<Rightarrow> disk_file result" where
  "disk_file_write d page_id page_data =
     (let (offset, d1) = (case df_pages d page_id of Some off \<Rightarrow> (off, d) | None \<Rightarrow> AllocatePage d)
      in Inr (d1\<lparr>df_file := (df_file d1)(offset := page_data),
                 df_num_writes := df_num_writes d1 + 1,
                 df_pages := (df_pages d1)(page_id \<mapsto> offset)\<rparr>))"

text \<open>
  \<open>GetFileSize\<close> returns the file's size as an \<open>int\<close>, so it is negative from 2 GiB on.
  A read that is refused leaves the caller's buffer as it was.
\<close>

definition GetFileSize :: "disk_file \<Rightarrow> int" where
  "GetFileSize d = sint (word_of_nat ((df_page_capacity d + 1) * BUSTUB_PAGE_SIZE) :: 32 word)"

definition disk_file_read :: "disk_file \<Rightarrow> page_id \<Rightarrow> page_data \<Rightarrow> (page_data \<times> disk_file) result" where
  "disk_file_read d page_id page_data =
     (let (offset, d1) = (case df_pages d page_id of Some off \<Rightarrow> (off, d) | None \<Rightarrow> AllocatePage d);
          file_size = GetFileSize d1
      in if file_size < 0 then Inr (page_data, d1)
         else if int offset > file_size then Inr (page_data, d1)
         else Inr (df_file d1 offset, d1\<lparr>df_pages := (df_pages d1)(page_id \<mapsto> offset)\<rparr>))"

definition disk_file_delete :: "disk_file \<Rightarrow> page_id \<Rightarrow> disk_file result" where
  "disk_file_delete d page_id =
     (case df_pages d page_id of
        None \<Rightarrow> Inr d
      | Some offset \<Rightarrow>
          Inr (d\<lparr>df_free_slots := df_free_slots d @ [offset],
                 df_pages := (df_pages d)(page_id := None),
                 df_num_deletes := df_num_deletes d + 1\<rparr>))"

definition disk_file_ops :: "disk_file disk_ops" where
  "disk_file_ops = \<lparr>op_write = disk_file_write, op_read = disk_file_read, op_delete = disk_file_delete\<rparr>"

subsection \<open>The in-memory disk managers\<close>

text \<open>
  \<open>DiskManagerUnlimitedMemory\<close>: a vector of pages, grown on demand, whose null entries become
  zero-filled pages on first use. \<open>DiskManagerMemory\<close>: an array of a fixed capacity; a page
  id outside it trips the assertion on a write and reads outside the array on a read. The
  latency simulator only sleeps.
\<close>

type_synonym disk_mem = "page_data option list"

definition mem_touch :: "disk_mem \<Rightarrow> nat \<Rightarrow> disk_mem" where
  "mem_touch data i =
     (let data1 = (if i \<ge> length data then data @ replicate (i + 1 - length data) None else data)
      in if data1 ! i = None then data1[i := Some zero_page] else data1)"

definition disk_mem_init :: disk_mem where
  "disk_mem_init = replicate (DEFAULT_DB_IO_SIZE + 1) (Some zero_page)"

definition disk_mem_write :: "disk_mem \<Rightarrow> page_id \<Rightarrow> page_data \<Rightarrow> disk_mem result" where
  "disk_mem_write data page_id page_data =
     (if page_id < 0 then Inl Terminated
      else Inr ((mem_touch data (nat page_id))[nat page_id := Some page_data]))"

definition disk_mem_read :: "disk_mem \<Rightarrow> page_id \<Rightarrow> page_data \<Rightarrow> (page_data \<times> disk_mem) result" where
  "disk_mem_read data page_id page_data =
     (if page_id < 0 then Inl Terminated
      else (let data1 = mem_touch data (nat page_id)
            in case data1 ! nat page_id of None \<Rightarrow> Inl Undefined | Some x \<Rightarrow> Inr (x, data1)))"

definition disk_mem_delete :: "disk_mem \<Rightarrow> page_id \<Rightarrow> disk_mem result" where
  "disk_mem_delete data page_id = Inr data"

definition disk_mem_ops :: "disk_mem disk_ops" where
  "disk_mem_ops = \<lparr>op_write = disk_mem_write, op_read = disk_mem_read, op_delete = disk_mem_delete\<rparr>"

type_synonym disk_array = "page_data list"

definition disk_array_write :: "disk_array \<Rightarrow> page_id \<Rightarrow> page_data \<Rightarrow> disk_array result" where
  "disk_array_write memory page_id page_data =
     (if 0 \<le> page_id \<and> nat page_id < length memory then Inr (memory[nat page_id := page_data])
      else Inl Assertion)"

definition disk_array_read :: "disk_array \<Rightarrow> page_id \<Rightarrow> page_data \<Rightarrow> (page_data \<times> disk_array) result" where
  "disk_array_read memory page_id page_data =
     (if 0 \<le> page_id \<and> nat page_id < length memory then Inr (memory ! nat page_id, memory)
      else Inl Undefined)"

subsection \<open>The channel and the scheduler\<close>

text \<open>
  A channel is a FIFO queue; \<open>Get\<close> on an empty one blocks. A request names the buffer it
  reads into or writes from and the promise it fulfils. The worker takes requests off the
  queue until it meets \<open>std::nullopt\<close>.
\<close>

definition chan_put :: "'a list \<Rightarrow> 'a \<Rightarrow> 'a list" where
  "chan_put q element = q @ [element]"

definition chan_get :: "'a list \<Rightarrow> ('a \<times> 'a list) option" where
  "chan_get q = (case q of [] \<Rightarrow> None | x # q' \<Rightarrow> Some (x, q'))"

record disk_request =
  rq_is_write :: bool
  rq_data :: nat
  rq_page_id :: page_id
  rq_callback :: nat

record 'd sched =
  sc_disk :: 'd
  sc_mem :: "nat \<Rightarrow> page_data"
  sc_queue :: "disk_request option list"
  sc_done :: "nat list"

definition Schedule :: "'d sched \<Rightarrow> disk_request list \<Rightarrow> 'd sched" where
  "Schedule s requests =
     s\<lparr>sc_queue := fold (\<lambda>req q. chan_put q (Some req)) requests (sc_queue s)\<rparr>"

definition sched_shutdown :: "'d sched \<Rightarrow> 'd sched" where
  "sched_shutdown s = s\<lparr>sc_queue := chan_put (sc_queue s) None\<rparr>"

definition execute_request :: "'d disk_ops \<Rightarrow> 'd sched \<Rightarrow> disk_request \<Rightarrow> 'd sched result" where
  "execute_request dk s req =
     rbind
       (if rq_is_write req then
          rbind (op_write dk (sc_disk s) (rq_page_id req) (sc_mem s (rq_data req)))
            (\<lambda>d. Inr (s\<lparr>sc_disk := d\<rparr>))
        else
          rbind (op_read dk (sc_disk s) (rq_page_id req) (sc_mem s (rq_data req)))
            (\<lambda>(x, d). Inr (s\<lparr>sc_disk := d, sc_mem := (sc_mem s)(rq_data req := x)\<rparr>)))
       (\<lambda>s1. Inr (s1\<lparr>sc_done := sc_done s1 @ [rq_callback req]\<rparr>))"

text \<open>
  One turn of the worker: \<open>Running\<close> after a request, \<open>Finished\<close> at the end marker,
  \<open>Blocked\<close> on an empty queue. The loop takes turns until it finishes or blocks; each turn
  shortens the queue.
\<close>

datatype worker_state = Running | Finished | Blocked

definition worker_turn :: "'d disk_ops \<Rightarrow> 'd sched \<Rightarrow> (worker_state \<times> 'd sched) result" where
  "worker_turn dk s =
     (case chan_get (sc_queue s) of
        None \<Rightarrow> Inr (Blocked, s)
      | Some (request_opt, q) \<Rightarrow>
          (case request_opt of
             None \<Rightarrow> Inr (Finished, s\<lparr>sc_queue := q\<rparr>)
           | Some req \<Rightarrow> rbind (execute_request dk (s\<lparr>sc_queue := q\<rparr>) req) (\<lambda>s1. Inr (Running, s1))))"

fun worker_loop :: "nat \<Rightarrow> 'd disk_ops \<Rightarrow> 'd sched \<Rightarrow> (worker_state \<times> 'd sched) result" where
  "worker_loop 0 dk s = Inr (Running, s)"
| "worker_loop (Suc fuel) dk s =
     rbind (worker_turn dk s) (\<lambda>(w, s1). if w = Running then worker_loop fuel dk s1 else Inr (w, s1))"

definition StartWorkerThread :: "'d disk_ops \<Rightarrow> 'd sched \<Rightarrow> (worker_state \<times> 'd sched) result" where
  "StartWorkerThread dk s = worker_loop (Suc (length (sc_queue s))) dk s"

end
