(* ===== verification/Disk_Proofs.thy ===== *)
theory Disk_Proofs
  imports Disk
begin

section \<open>Correctness of the disk layer\<close>

text \<open>
  The slot allocation of the file disk manager, the interpretation of the disk contract on the
  two disk managers the system runs on, and the order in which the scheduler's worker executes
  requests.
\<close>

subsection \<open>Runs of a disk\<close>

datatype disk_op = DWrite page_id page_data | DRead page_id page_data | DDelete page_id

fun disk_step :: "'d disk_ops \<Rightarrow> 'd \<Rightarrow> disk_op \<Rightarrow> 'd result" where
  "disk_step dk d (DWrite p x) = op_write dk d p x"
| "disk_step dk d (DRead p buf) = rbind (op_read dk d p buf) (\<lambda>(_, d'). Inr d')"
| "disk_step dk d (DDelete p) = op_delete dk d p"

fun disk_run :: "'d disk_ops \<Rightarrow> 'd \<Rightarrow> disk_op list \<Rightarrow> 'd result" where
  "disk_run dk d [] = Inr d"
| "disk_run dk d (op # ops) = rbind (disk_step dk d op) (\<lambda>d'. disk_run dk d' ops)"

fun op_page :: "disk_op \<Rightarrow> page_id" where
  "op_page (DWrite p x) = p"
| "op_page (DRead p buf) = p"
| "op_page (DDelete p) = p"

fun op_changes :: "page_id \<Rightarrow> disk_op \<Rightarrow> bool" where
  "op_changes p (DWrite q x) = (q = p)"
| "op_changes p (DRead q buf) = False"
| "op_changes p (DDelete q) = (q = p)"

context disk
begin

lemma step_ok:
  assumes "ok d" "valid (op_page op)"
  shows "\<exists>d'. disk_step dk d op = Inr d' \<and> ok d' \<and>
    (\<forall>p x. \<not> op_changes p op \<longrightarrow> contents d p = Some x \<longrightarrow> contents d' p = Some x)"
proof (cases op)
  case (DWrite p x)
  with assms write_ok [of d p x] show ?thesis by auto
next
  case (DRead p buf)
  with assms read_ok [of d p buf] show ?thesis by fastforce
next
  case (DDelete p)
  with assms delete_ok [of d p] show ?thesis by auto
qed

lemma run_ok:
  "ok d \<Longrightarrow> \<forall>op \<in> set ops. valid (op_page op) \<Longrightarrow>
   \<exists>d'. disk_run dk d ops = Inr d' \<and> ok d' \<and>
     (\<forall>p x. (\<forall>op \<in> set ops. \<not> op_changes p op) \<longrightarrow> contents d p = Some x \<longrightarrow> contents d' p = Some x)"
proof (induction ops arbitrary: d)
  case Nil
  then show ?case by simp
next
  case (Cons op ops)
  then obtain d1 where d1: "disk_step dk d op = Inr d1" "ok d1"
    "\<And>p x. \<not> op_changes p op \<Longrightarrow> contents d p = Some x \<Longrightarrow> contents d1 p = Some x"
    using step_ok [of d op] by auto
  with Cons.IH [OF d1(2)] Cons.prems show ?case by auto
qed

text \<open>Whatever happens to other pages in between, a page reads back as it was written.\<close>

lemma durable:
  assumes "ok d" "valid p" "\<forall>op \<in> set ops. valid (op_page op) \<and> \<not> op_changes p op"
  shows "\<exists>d1 d2 d3. op_write dk d p x = Inr d1 \<and> disk_run dk d1 ops = Inr d2 \<and>
    op_read dk d2 p buf = Inr (x, d3)"
proof -
  obtain d1 where d1: "op_write dk d p x = Inr d1" "ok d1" "contents d1 p = Some x"
    using write_ok [OF assms(1,2)] by fastforce
  then obtain d2 where d2: "disk_run dk d1 ops = Inr d2" "ok d2" "contents d2 p = Some x"
    using run_ok [of d1 ops] assms(3) by blast
  with read_stored [OF d2(2) assms(2) d2(3)] d1 show ?thesis by metis
qed

end

subsection \<open>Slots of the file\<close>

definition file_valid :: "page_id \<Rightarrow> bool" where
  "file_valid p \<longleftrightarrow> 0 \<le> p \<and> p < 131070"

definition file_contents :: "disk_file \<Rightarrow> page_id \<rightharpoonup> page_data" where
  "file_contents d p = map_option (df_file d) (df_pages d p)"


text \<open>
  The slots of the file: each page has one of its own, and a slot below the high-water mark
  is a page's or free.
\<close>

definition slots_ok :: "(page_id \<rightharpoonup> nat) \<Rightarrow> nat list \<Rightarrow> bool" where
  "slots_ok m free \<longleftrightarrow>
     finite (dom m) \<and> distinct free \<and> inj_on m (dom m) \<and> ran m \<inter> set free = {} \<and>
     ran m \<union> set free = (\<lambda>i. i * BUSTUB_PAGE_SIZE) ` {..<card (dom m) + length free}"

lemma slots_okD:
  assumes "slots_ok m free"
  shows "finite (dom m)" "distinct free" "inj_on m (dom m)" "ran m \<inter> set free = {}"
    "ran m \<union> set free = (\<lambda>i. i * BUSTUB_PAGE_SIZE) ` {..<card (dom m) + length free}"
  using assms by (simp_all add: slots_ok_def)

lemma inj_map_upd_fresh:
  "inj_on m (dom m) \<Longrightarrow> y \<notin> ran m \<Longrightarrow> m x = None \<Longrightarrow> inj_on (m(x \<mapsto> y)) (dom (m(x \<mapsto> y)))"
  by (auto simp: inj_on_def ran_def)

lemma card_dom_upd: "finite (dom m) \<Longrightarrow> m p = None \<Longrightarrow> card (dom (m(p \<mapsto> x))) = Suc (card (dom m))"
  by (simp add: domIff)

lemma slots_reuse:
  assumes ok: "slots_ok m free" and free: "free \<noteq> []" and p: "m p = None"
  shows "slots_ok (m(p \<mapsto> last free)) (butlast free) \<and> last free \<notin> ran m"
proof -
  note ok' = slots_okD [OF ok]
  have off: "last free \<in> set free" using free by simp
  then have fresh: "last free \<notin> ran m" using ok'(4) by blast
  have b: "set (butlast free) = set free - {last free}" using butlast_set_distinct [OF free ok'(2)] .
  have n: "Suc (card (dom m)) + length (butlast free) = card (dom m) + length free"
    using free by (cases free) auto
  have ran: "ran (m(p \<mapsto> last free)) = insert (last free) (ran m)" using p by simp
  have "ran (m(p \<mapsto> last free)) \<union> set (butlast free) = ran m \<union> set free"
    unfolding ran b using off by blast
  moreover have "ran (m(p \<mapsto> last free)) \<inter> set (butlast free) = {}"
    unfolding ran b using ok'(4) by blast
  moreover have "distinct (butlast free)" using ok'(2) by (rule distinct_butlast)
  ultimately show ?thesis
    using ok'(5) inj_map_upd_fresh [OF ok'(3) fresh p] fresh ok'(1)
    unfolding slots_ok_def card_dom_upd [OF ok'(1) p] n by simp
qed

lemma slots_grow:
  assumes ok: "slots_ok m []" and p: "m p = None" and off: "off = card (dom m) * BUSTUB_PAGE_SIZE"
  shows "slots_ok (m(p \<mapsto> off)) [] \<and> off \<notin> ran m"
proof -
  note ok' = slots_okD [OF ok]
  have img: "ran m = (\<lambda>i. i * BUSTUB_PAGE_SIZE) ` {..<card (dom m)}" using ok'(5) by simp
  have fresh: "off \<notin> ran m" unfolding off img by (auto simp: BUSTUB_PAGE_SIZE_def)
  have "insert off (ran m) = (\<lambda>i. i * BUSTUB_PAGE_SIZE) ` {..<Suc (card (dom m))}"
    unfolding lessThan_Suc img off by simp
  moreover have "ran (m(p \<mapsto> off)) = insert off (ran m)" using p by simp
  ultimately show ?thesis
    using inj_map_upd_fresh [OF ok'(3) fresh p] fresh ok'(1)
    unfolding slots_ok_def card_dom_upd [OF ok'(1) p] by simp
qed

lemma slots_release:
  assumes ok: "slots_ok m free" and p: "m p = Some off"
  shows "slots_ok (m(p := None)) (free @ [off])"
proof -
  note ok' = slots_okD [OF ok]
  have ran: "ran (m(p := None)) = ran m - {off}"
    using ok'(3) p by (auto simp: ran_def inj_on_def dom_def) (metis option.inject)
  have off: "off \<in> ran m" using p by (auto simp: ran_def)
  then have nf: "off \<notin> set free" using ok'(4) by blast
  have c: "card (dom (m(p := None))) + length (free @ [off]) = card (dom m) + length free"
    using ok'(1) p card_Suc_Diff1 [of "dom m" p] by (auto simp: domIff)
  have "ran (m(p := None)) \<union> set (free @ [off]) = ran m \<union> set free"
    unfolding ran using off by auto
  moreover have "ran (m(p := None)) \<inter> set (free @ [off]) = {}"
    unfolding ran using ok'(4) by auto
  moreover have "inj_on (m(p := None)) (dom (m(p := None)))"
    using ok'(3) by (auto simp: inj_on_def)
  ultimately show ?thesis using ok'(1,2,5) nf unfolding slots_ok_def c by simp
qed

definition file_ok :: "disk_file \<Rightarrow> bool" where
  "file_ok d \<longleftrightarrow>
     slots_ok (df_pages d) (df_free_slots d) \<and> dom (df_pages d) \<subseteq> {0..<131070} \<and>
     card (dom (df_pages d)) + length (df_free_slots d) < df_page_capacity d \<and>
     (\<exists>k \<le> 13. df_page_capacity d = 16 * 2 ^ k)"

lemma file_init_ok: "file_ok disk_file_init"
  by (auto simp: file_ok_def slots_ok_def disk_file_init_def DEFAULT_DB_IO_SIZE_def intro: exI [of _ 0])

lemma file_ok_irrelevant [simp]:
  "file_ok (d\<lparr>df_file := f\<rparr>) = file_ok d" "file_ok (d\<lparr>df_num_writes := n\<rparr>) = file_ok d"
  "file_ok (d\<lparr>df_num_deletes := n\<rparr>) = file_ok d"
  by (simp_all add: file_ok_def)

lemma capacity_double:
  assumes "\<exists>k \<le> 13. c = 16 * 2 ^ k" "c \<le> (131070 :: nat)"
  shows "\<exists>k \<le> 13. c * 2 = 16 * 2 ^ k"
proof -
  from assms(1) obtain k where k: "k \<le> 13" "c = 16 * 2 ^ k" by blast
  have "k \<noteq> 13" using k assms(2) by auto
  with k show ?thesis by (intro exI [of _ "Suc k"]) auto
qed

text \<open>A page without a slot gets one that no other page has.\<close>

lemma AllocatePage_ok:
  assumes ok: "file_ok d" and p: "file_valid p" "df_pages d p = None"
    and a: "AllocatePage d = (off, d1)"
  shows "file_ok (d1\<lparr>df_pages := (df_pages d)(p \<mapsto> off)\<rparr>) \<and> off \<notin> ran (df_pages d) \<and>
    df_pages d1 = df_pages d \<and> df_file d1 = df_file d"
proof -
  let ?m = "df_pages d" and ?free = "df_free_slots d" and ?n = "card (dom (df_pages d))"
  have s: "slots_ok ?m ?free" using ok by (simp add: file_ok_def)
  note fin = slots_okD(1) [OF s]
  have sub: "dom (?m(p \<mapsto> off)) \<subseteq> {0..<131070}" using ok p(1) by (auto simp: file_ok_def file_valid_def)
  show ?thesis
  proof (cases "?free = []")
    case False
    then have eq: "off = last ?free" "d1 = d\<lparr>df_free_slots := butlast ?free\<rparr>"
      using a by (auto simp: AllocatePage_def)
    have "Suc ?n + length (butlast ?free) < df_page_capacity d"
      using False ok by (cases ?free) (auto simp: file_ok_def)
    with slots_reuse [OF s False p(2)] sub ok eq show ?thesis
      by (simp add: file_ok_def card_dom_upd [OF fin p(2)] del: dom_fun_upd length_butlast)
  next
    case True
    have off: "off = ?n * BUSTUB_PAGE_SIZE" using a True by (auto simp: AllocatePage_def Let_def)
    have "card (dom (?m(p \<mapsto> off))) \<le> card {0..<131070::int}"
      using sub by (intro card_mono) auto
    then have le: "Suc ?n \<le> 131070" unfolding card_dom_upd [OF fin p(2)] by simp
    have cap: "df_page_capacity d1 = (if Suc ?n \<ge> df_page_capacity d then df_page_capacity d * 2
        else df_page_capacity d)" "df_free_slots d1 = []" "df_pages d1 = ?m" "df_file d1 = df_file d"
      using a True by (auto simp: AllocatePage_def Let_def)
    have "\<exists>k \<le> 13. df_page_capacity d1 = 16 * 2 ^ k"
      using ok le capacity_double [of "df_page_capacity d"] by (auto simp: cap(1) file_ok_def)
    moreover have "Suc ?n < df_page_capacity d1"
      using ok True by (auto simp: cap(1) file_ok_def)
    moreover have "slots_ok (?m(p \<mapsto> off)) [] \<and> off \<notin> ran ?m"
      using s True off p(2) by (intro slots_grow) auto
    ultimately show ?thesis
      using sub cap by (simp add: file_ok_def card_dom_upd [OF fin p(2)] del: dom_fun_upd)
  qed
qed


lemma sint_small: "n < 2 ^ 31 \<Longrightarrow> sint (word_of_nat n :: 32 word) = int n"
proof -
  assume "n < 2 ^ 31"
  then have "int n < 2 ^ 31" by (metis of_nat_less_iff of_nat_numeral of_nat_power)
  then show ?thesis by (simp add: signed_of_nat signed_take_bit_int_eq_self)
qed

lemma file_size_ok: "file_ok d \<Longrightarrow> GetFileSize d = int ((df_page_capacity d + 1) * BUSTUB_PAGE_SIZE)"
proof -
  assume ok: "file_ok d"
  then obtain k where k: "k \<le> 13" "df_page_capacity d = 16 * 2 ^ k" by (auto simp: file_ok_def)
  have "(2::nat) ^ k \<le> 2 ^ 13" by (rule power_increasing [OF k(1)]) simp
  then have "(df_page_capacity d + 1) * BUSTUB_PAGE_SIZE < 2 ^ 31"
    unfolding k(2) by (simp add: BUSTUB_PAGE_SIZE_def)
  then show ?thesis unfolding GetFileSize_def by (rule sint_small)
qed

lemma slot_in_file:
  assumes ok: "file_ok d" and p: "df_pages d p = Some off"
  shows "int off \<le> GetFileSize d"
proof -
  have "off \<in> ran (df_pages d) \<union> set (df_free_slots d)" using p by (auto simp: ran_def)
  then obtain i where "off = i * BUSTUB_PAGE_SIZE" "i < df_page_capacity d"
    using ok slots_okD(5) [of "df_pages d" "df_free_slots d"] by (fastforce simp: file_ok_def)
  then show ?thesis unfolding file_size_ok [OF ok] by (simp add: BUSTUB_PAGE_SIZE_def)
qed

lemma file_contents_upd:
  assumes "off \<notin> ran (df_pages d)"
  shows "file_contents (d\<lparr>df_pages := (df_pages d)(p \<mapsto> off), df_file := (df_file d)(off := x)\<rparr>) =
    (file_contents d)(p \<mapsto> x)"
  using assms by (auto simp: file_contents_def fun_eq_iff ran_def map_option_case split: option.splits)


lemma file_write_ok:
  assumes ok: "file_ok d" and p: "file_valid p"
  shows "\<exists>d'. disk_file_write d p x = Inr d' \<and> file_ok d' \<and> file_contents d' = (file_contents d)(p \<mapsto> x)"
proof (cases "df_pages d p")
  case (Some off)
  have inj: "df_pages d q = Some off \<Longrightarrow> q = p" for q
    using ok Some by (auto simp: file_ok_def slots_ok_def inj_on_def dom_def)
  let ?d = "d\<lparr>df_file := (df_file d)(off := x), df_num_writes := df_num_writes d + 1,
    df_pages := (df_pages d)(p \<mapsto> off)\<rparr>"
  have "(df_pages d)(p \<mapsto> off) = df_pages d" using Some by (simp add: fun_upd_idem)
  then have "?d = d\<lparr>df_file := (df_file d)(off := x), df_num_writes := df_num_writes d + 1\<rparr>" by simp
  then have "file_ok ?d" using ok by (simp only: file_ok_irrelevant)
  moreover have "file_contents ?d = (file_contents d)(p \<mapsto> x)"
    using Some by (auto simp: file_contents_def fun_eq_iff map_option_case split: option.splits dest: inj)
  ultimately show ?thesis using Some by (simp add: disk_file_write_def)
next
  case None
  obtain off d1 where a: "AllocatePage d = (off, d1)" by fastforce
  note al = AllocatePage_ok [OF ok p None a]
  let ?d = "d1\<lparr>df_file := (df_file d1)(off := x), df_num_writes := df_num_writes d1 + 1,
    df_pages := (df_pages d1)(p \<mapsto> off)\<rparr>"
  have "file_ok ?d" using al by (simp add: file_ok_def)
  moreover have "file_contents ?d = (file_contents d)(p \<mapsto> x)"
    using al by (auto simp: file_contents_def fun_eq_iff ran_def map_option_case split: option.splits)
  ultimately show ?thesis using None a by (simp add: disk_file_write_def)
qed

lemma file_read_ok:
  assumes ok: "file_ok d" and p: "file_valid p"
  shows "\<exists>x d'. disk_file_read d p buf = Inr (x, d') \<and> file_ok d' \<and> file_contents d' p = Some x \<and>
    (\<forall>q. file_contents d q \<noteq> None \<longrightarrow> file_contents d' q = file_contents d q)"
proof (cases "df_pages d p")
  case (Some off)
  have "(df_pages d)(p \<mapsto> off) = df_pages d" using Some by (simp add: fun_upd_idem)
  moreover have "int off \<le> GetFileSize d" by (rule slot_in_file [OF ok Some])
  ultimately show ?thesis using ok Some by (simp add: disk_file_read_def file_contents_def)
next
  case None
  obtain off d1 where a: "AllocatePage d = (off, d1)" by fastforce
  note al = AllocatePage_ok [OF ok p None a]
  let ?d = "d1\<lparr>df_pages := (df_pages d)(p \<mapsto> off)\<rparr>"
  have s: "GetFileSize d1 = GetFileSize ?d" by (simp add: GetFileSize_def)
  have "int off \<le> GetFileSize ?d" using al by (intro slot_in_file) auto
  then show ?thesis
    using None a al by (auto simp: disk_file_read_def s file_contents_def)
qed

lemma file_delete_ok:
  assumes ok: "file_ok d" and p: "file_valid p"
  shows "\<exists>d'. disk_file_delete d p = Inr d' \<and> file_ok d' \<and>
    (\<forall>q. q \<noteq> p \<longrightarrow> file_contents d' q = file_contents d q)"
proof (cases "df_pages d p")
  case None
  then show ?thesis using ok by (simp add: disk_file_delete_def)
next
  case (Some off)
  let ?m = "df_pages d"
  have s: "slots_ok ?m (df_free_slots d)" using ok by (simp add: file_ok_def)
  have "card (dom (?m(p := None))) + 1 = card (dom ?m)"
    using card_Suc_Diff1 [OF slots_okD(1) [OF s], of p] Some by (auto simp: domIff)
  then have "file_ok (d\<lparr>df_free_slots := df_free_slots d @ [off], df_pages := ?m(p := None)\<rparr>)"
    using ok slots_release [OF s Some] by (auto simp: file_ok_def)
  then show ?thesis using Some by (auto simp: disk_file_delete_def file_contents_def)
qed

interpretation filedisk: disk disk_file_ops file_contents file_valid file_ok
  by (unfold_locales; unfold disk_file_ops_def disk_ops.select_convs;
      rule file_write_ok file_read_ok file_delete_ok; assumption)


subsection \<open>The in-memory manager\<close>

definition mem_contents :: "disk_mem \<Rightarrow> page_id \<rightharpoonup> page_data" where
  "mem_contents d p = (if 0 \<le> p \<and> nat p < length d then d ! nat p else None)"

lemma mem_touch_nth:
  "i < length (mem_touch d n) \<Longrightarrow> mem_touch d n ! i =
     (if i = n then Some (case (if n < length d then d ! n else None) of None \<Rightarrow> zero_page | Some x \<Rightarrow> x)
      else if i < length d then d ! i else None)"
  by (auto simp: mem_touch_def nth_append nth_list_update Let_def split: option.splits)

lemma mem_touch_length: "length (mem_touch d n) = max (length d) (Suc n)"
  by (simp add: mem_touch_def Let_def)

lemma mem_write_ok:
  "0 \<le> p \<Longrightarrow> \<exists>d'. disk_mem_write d p x = Inr d' \<and> mem_contents d' = (mem_contents d)(p \<mapsto> x)"
  by (auto simp: disk_mem_write_def mem_contents_def fun_eq_iff mem_touch_length mem_touch_nth
      nth_list_update nat_eq_iff2)

lemma mem_read_ok:
  "0 \<le> p \<Longrightarrow> \<exists>x d'. disk_mem_read d p buf = Inr (x, d') \<and> mem_contents d' p = Some x \<and>
    (\<forall>q. mem_contents d q \<noteq> None \<longrightarrow> mem_contents d' q = mem_contents d q)"
  by (auto simp: disk_mem_read_def mem_contents_def mem_touch_length mem_touch_nth Let_def
      split: option.splits if_splits)

interpretation memdisk: disk disk_mem_ops mem_contents "\<lambda>p. 0 \<le> p" "\<lambda>_. True"
  by (unfold_locales; unfold disk_mem_ops_def disk_ops.select_convs)
    (simp_all only: mem_write_ok mem_read_ok disk_mem_delete_def sum.inject simp_thms HOL.ex_simps)

subsection \<open>The scheduler\<close>

text \<open>
  What a batch of requests means: in the order they were scheduled, a write stores the buffer
  in the page and a read copies the page into the buffer.
\<close>

fun meaning :: "(page_id \<rightharpoonup> page_data) \<times> (nat \<Rightarrow> page_data) \<Rightarrow> disk_request list \<Rightarrow>
    (page_id \<rightharpoonup> page_data) \<times> (nat \<Rightarrow> page_data)" where
  "meaning (C, M) [] = (C, M)"
| "meaning (C, M) (r # rs) =
     (if rq_is_write r then meaning (C(rq_page_id r \<mapsto> M (rq_data r)), M) rs
      else case C (rq_page_id r) of
             None \<Rightarrow> meaning (C, M) rs
           | Some x \<Rightarrow> meaning (C, M(rq_data r := x)) rs)"

fun reads_stored :: "page_id set \<Rightarrow> disk_request list \<Rightarrow> bool" where
  "reads_stored P [] = True"
| "reads_stored P (r # rs) =
     (if rq_is_write r then reads_stored (insert (rq_page_id r) P) rs
      else rq_page_id r \<in> P \<and> reads_stored P rs)"

context disk
begin

lemma execute_write:
  assumes "ok (sc_disk s)" "valid (rq_page_id r)" "rq_is_write r"
  shows "\<exists>d'. execute_request dk s r = Inr (s\<lparr>sc_disk := d', sc_done := sc_done s @ [rq_callback r]\<rparr>) \<and>
    ok d' \<and> contents d' = (contents (sc_disk s))(rq_page_id r \<mapsto> sc_mem s (rq_data r))"
  using write_ok [OF assms(1,2), of "sc_mem s (rq_data r)"] assms(3)
  by (auto simp: execute_request_def)

lemma execute_read:
  assumes "ok (sc_disk s)" "valid (rq_page_id r)" "\<not> rq_is_write r"
    "contents (sc_disk s) (rq_page_id r) = Some x"
  shows "\<exists>d'. execute_request dk s r = Inr (s\<lparr>sc_disk := d', sc_mem := (sc_mem s)(rq_data r := x),
      sc_done := sc_done s @ [rq_callback r]\<rparr>) \<and> ok d' \<and> contents (sc_disk s) \<subseteq>\<^sub>m contents d'"
proof -
  obtain d' where "op_read dk (sc_disk s) (rq_page_id r) (sc_mem s (rq_data r)) = Inr (x, d')" "ok d'"
    "\<And>q. contents (sc_disk s) q \<noteq> None \<Longrightarrow> contents d' q = contents (sc_disk s) q"
    using read_stored [OF assms(1,2,4)] by blast
  then show ?thesis using assms(3) by (auto simp: execute_request_def map_le_def dom_def)
qed

lemma worker_loop_requests:
  "ok (sc_disk s) \<Longrightarrow> \<forall>r \<in> set rs. valid (rq_page_id r) \<Longrightarrow> C \<subseteq>\<^sub>m contents (sc_disk s) \<Longrightarrow>
   reads_stored (dom C) rs \<Longrightarrow> sc_queue s = map Some rs @ q \<Longrightarrow>
   \<exists>s'. worker_loop (length rs + n) dk s = worker_loop n dk s' \<and> ok (sc_disk s') \<and> sc_queue s' = q \<and>
     sc_done s' = sc_done s @ map rq_callback rs \<and>
     fst (meaning (C, sc_mem s) rs) \<subseteq>\<^sub>m contents (sc_disk s') \<and>
     sc_mem s' = snd (meaning (C, sc_mem s) rs)"
proof (induction rs arbitrary: s C)
  case Nil
  then show ?case by auto
next
  case (Cons r rs)
  let ?s = "s\<lparr>sc_queue := map Some rs @ q\<rparr>" and ?p = "rq_page_id r"
  have v: "valid ?p" "ok (sc_disk ?s)" using Cons.prems by auto
  have turn: "execute_request dk ?s r = Inr s1 \<Longrightarrow>
      worker_loop (length (r # rs) + n) dk s = worker_loop (length rs + n) dk s1" for s1
    using Cons.prems(5) by (simp add: worker_turn_def chan_get_def)
  show ?case
  proof (cases "rq_is_write r")
    case True
    obtain d' where d': "execute_request dk ?s r =
        Inr (?s\<lparr>sc_disk := d', sc_done := sc_done ?s @ [rq_callback r]\<rparr>)" "ok d'"
      "contents d' = (contents (sc_disk ?s))(?p \<mapsto> sc_mem ?s (rq_data r))"
      using execute_write [OF v(2,1) True] by blast
    define C1 where "C1 = C(?p \<mapsto> sc_mem s (rq_data r))"
    have "C1 \<subseteq>\<^sub>m contents d'" using d'(3) Cons.prems(3) by (auto simp: map_le_def C1_def)
    moreover have "reads_stored (dom C1) rs" using Cons.prems(4) True by (simp add: C1_def)
    ultimately obtain s' where s': "worker_loop (length rs + n) dk
        (?s\<lparr>sc_disk := d', sc_done := sc_done ?s @ [rq_callback r]\<rparr>) = worker_loop n dk s'"
      "ok (sc_disk s')" "sc_queue s' = q" "sc_done s' = (sc_done s @ [rq_callback r]) @ map rq_callback rs"
      "fst (meaning (C1, sc_mem s) rs) \<subseteq>\<^sub>m contents (sc_disk s')" "sc_mem s' = snd (meaning (C1, sc_mem s) rs)"
      using Cons.IH [of "?s\<lparr>sc_disk := d', sc_done := sc_done ?s @ [rq_callback r]\<rparr>" C1]
        d'(2) Cons.prems(2) by auto
    then show ?thesis unfolding turn [OF d'(1)] using True by (intro exI [of _ s']) (simp add: C1_def)
  next
    case False
    then obtain x where x: "C ?p = Some x" using Cons.prems(4) by auto
    then have "contents (sc_disk ?s) ?p = Some x" using Cons.prems(3) by (auto simp: map_le_def dom_def)
    from execute_read [OF v(2,1) False this] obtain d' where d': "execute_request dk ?s r =
        Inr (?s\<lparr>sc_disk := d', sc_mem := (sc_mem ?s)(rq_data r := x),
          sc_done := sc_done ?s @ [rq_callback r]\<rparr>)" "ok d'"
      "contents (sc_disk ?s) \<subseteq>\<^sub>m contents d'"
      by blast
    define M1 where "M1 = (sc_mem s)(rq_data r := x)"
    have "C \<subseteq>\<^sub>m contents d'" using d'(3) Cons.prems(3) by (auto intro: map_le_trans)
    then obtain s' where s': "worker_loop (length rs + n) dk
        (?s\<lparr>sc_disk := d', sc_mem := M1, sc_done := sc_done ?s @ [rq_callback r]\<rparr>) = worker_loop n dk s'"
      "ok (sc_disk s')" "sc_queue s' = q" "sc_done s' = (sc_done s @ [rq_callback r]) @ map rq_callback rs"
      "fst (meaning (C, M1) rs) \<subseteq>\<^sub>m contents (sc_disk s')" "sc_mem s' = snd (meaning (C, M1) rs)"
      using Cons.IH [of "?s\<lparr>sc_disk := d', sc_mem := M1, sc_done := sc_done ?s @ [rq_callback r]\<rparr>" C]
        d'(2) Cons.prems(2,4) False by auto
    then show ?thesis
      unfolding turn [OF d'(1)] using False x by (intro exI [of _ s']) (simp add: M1_def)
  qed
qed

text \<open>The worker drains the queue up to the end marker, in order.\<close>

lemma worker_drains:
  assumes "ok (sc_disk s)" "\<forall>r \<in> set rs. valid (rq_page_id r)"
    "reads_stored (dom (contents (sc_disk s))) rs" "sc_queue s = map Some rs @ None # q"
  shows "\<exists>s'. StartWorkerThread dk s = Inr (Finished, s') \<and> ok (sc_disk s') \<and> sc_queue s' = q \<and>
     sc_done s' = sc_done s @ map rq_callback rs \<and>
     fst (meaning (contents (sc_disk s), sc_mem s) rs) \<subseteq>\<^sub>m contents (sc_disk s') \<and>
     sc_mem s' = snd (meaning (contents (sc_disk s), sc_mem s) rs)"
proof -
  have n: "Suc (length (sc_queue s)) = length rs + Suc (Suc (length q))" using assms(4) by simp
  obtain s1 where s1: "worker_loop (length rs + Suc (Suc (length q))) dk s =
      worker_loop (Suc (Suc (length q))) dk s1"
    "ok (sc_disk s1)" "sc_queue s1 = None # q" "sc_done s1 = sc_done s @ map rq_callback rs"
    "fst (meaning (contents (sc_disk s), sc_mem s) rs) \<subseteq>\<^sub>m contents (sc_disk s1)"
    "sc_mem s1 = snd (meaning (contents (sc_disk s), sc_mem s) rs)"
    using worker_loop_requests [OF assms(1,2) map_le_refl assms(3,4)] by blast
  then show ?thesis
    by (simp add: StartWorkerThread_def n worker_turn_def chan_get_def del: worker_loop.simps(2))
      (simp add: worker_turn_def chan_get_def)
qed

end


subsection \<open>Properties\<close>

lemma file_run_ok:
  "disk_run disk_file_ops disk_file_init ops = Inr d \<Longrightarrow> \<forall>op \<in> set ops. file_valid (op_page op) \<Longrightarrow> file_ok d"
  using filedisk.run_ok [OF file_init_ok, of ops] by auto

text \<open>C7: The database file is durable. After any sequence of writes, reads and deletes from a
  fresh manager, a page that is written reads back exactly as written, whatever is done to
  other pages in between: every step succeeds, and no reallocation of slots or growth of the
  file disturbs it (page ids below the limit at which the file reaches 2 GiB).\<close>

theorem disk_file_durable:
  assumes "disk_run disk_file_ops disk_file_init before = Inr d"
    and "\<forall>op \<in> set before. file_valid (op_page op)"
    and "file_valid p"
    and "\<forall>op \<in> set between. file_valid (op_page op) \<and> \<not> op_changes p op"
  shows "\<exists>d1 d2 d3. disk_file_write d p x = Inr d1 \<and> disk_run disk_file_ops d1 between = Inr d2 \<and>
    disk_file_read d2 p buf = Inr (x, d3)"
  using filedisk.durable [OF file_run_ok [OF assms(1,2)] assms(3,4), of x buf]
  by (simp add: disk_file_ops_def)

theorem disk_file_durable_witness:
  "\<exists>d d1 d2 d3. disk_run disk_file_ops disk_file_init [DWrite 5 [1], DDelete 5] = Inr d \<and>
    disk_file_write d 7 [2] = Inr d1 \<and>
    disk_run disk_file_ops d1 [DRead 5 [], DWrite 6 [3], DDelete 5] = Inr d2 \<and>
    disk_file_read d2 7 [] = Inr ([2], d3)"
proof -
  obtain d where d: "disk_run disk_file_ops disk_file_init [DWrite 5 [1], DDelete 5] = Inr d"
    using filedisk.run_ok [OF file_init_ok, of "[DWrite 5 [1], DDelete 5]"] by (auto simp: file_valid_def)
  then show ?thesis
    using disk_file_durable [OF d, of 7 "[DRead 5 [], DWrite 6 [3], DDelete 5]" "[2]" "[]"]
    by (simp add: file_valid_def)
qed

text \<open>Slot allocation is sound: in every state a manager reaches, two pages never share
  a slot of the file, a free slot belongs to no page, and every slot handed out is a page-aligned
  offset inside the file as \<open>GetFileSize\<close> reports it.\<close>

theorem disk_slots_sound:
  assumes "disk_run disk_file_ops disk_file_init ops = Inr d"
    and "\<forall>op \<in> set ops. file_valid (op_page op)"
  shows "inj_on (df_pages d) (dom (df_pages d)) \<and> ran (df_pages d) \<inter> set (df_free_slots d) = {} \<and>
    distinct (df_free_slots d) \<and>
    (\<forall>off \<in> ran (df_pages d) \<union> set (df_free_slots d).
       off mod BUSTUB_PAGE_SIZE = 0 \<and> int off + int BUSTUB_PAGE_SIZE \<le> GetFileSize d)"
proof -
  have ok: "file_ok d" by (rule file_run_ok [OF assms])
  then have s: "slots_ok (df_pages d) (df_free_slots d)" by (simp add: file_ok_def)
  have "\<forall>off \<in> ran (df_pages d) \<union> set (df_free_slots d).
      off mod BUSTUB_PAGE_SIZE = 0 \<and> int off + int BUSTUB_PAGE_SIZE \<le> GetFileSize d"
    unfolding slots_okD(5) [OF s] file_size_ok [OF ok]
    using ok by (auto simp: file_ok_def BUSTUB_PAGE_SIZE_def)
  with slots_okD(2,3,4) [OF s] show ?thesis by blast
qed

theorem disk_slots_sound_witness:
  "\<exists>d. disk_run disk_file_ops disk_file_init [DWrite 5 [1], DWrite 6 [2], DDelete 5, DRead 7 []] = Inr d \<and>
    inj_on (df_pages d) (dom (df_pages d))"
proof -
  let ?ops = "[DWrite 5 [1], DWrite 6 [2], DDelete 5, DRead 7 []]"
  obtain d where d: "disk_run disk_file_ops disk_file_init ?ops = Inr d"
    using filedisk.run_ok [OF file_init_ok, of ?ops] by (auto simp: file_valid_def)
  then show ?thesis using disk_slots_sound [OF d] by (simp add: file_valid_def)
qed

text \<open>The disk scheduler executes requests in the order they were scheduled. Scheduling a
  batch and shutting down lets the worker finish with every callback fulfilled in
  order, each read buffer holding what the preceding writes (and the disk) put in its page, and
  the disk holding the last write of each page.\<close>

theorem scheduler_fifo:
  assumes "file_ok (sc_disk s)" "sc_queue s = []" "\<forall>r \<in> set rs. file_valid (rq_page_id r)"
    and "reads_stored (dom (file_contents (sc_disk s))) rs"
  shows "\<exists>s'. StartWorkerThread disk_file_ops (sched_shutdown (Schedule s rs)) = Inr (Finished, s') \<and>
     sc_queue s' = [] \<and> sc_done s' = sc_done s @ map rq_callback rs \<and>
     sc_mem s' = snd (meaning (file_contents (sc_disk s), sc_mem s) rs) \<and>
     fst (meaning (file_contents (sc_disk s), sc_mem s) rs) \<subseteq>\<^sub>m file_contents (sc_disk s')"
proof -
  have q: "fold (\<lambda>req q. chan_put q (Some req)) rs xs = xs @ map Some rs" for xs
    by (induction rs arbitrary: xs) (simp_all add: chan_put_def)
  let ?s = "sched_shutdown (Schedule s rs)"
  have "sc_queue ?s = map Some rs @ None # []" "sc_disk ?s = sc_disk s" "sc_mem ?s = sc_mem s"
    "sc_done ?s = sc_done s"
    by (simp_all add: sched_shutdown_def Schedule_def chan_put_def q [unfolded chan_put_def] assms(2))
  with filedisk.worker_drains [of ?s rs "[]"] assms show ?thesis by auto
qed

definition demo_request :: "bool \<Rightarrow> nat \<Rightarrow> page_id \<Rightarrow> nat \<Rightarrow> disk_request" where
  "demo_request w buf p cb = \<lparr>rq_is_write = w, rq_data = buf, rq_page_id = p, rq_callback = cb\<rparr>"

theorem scheduler_fifo_witness:
  "\<exists>s'. StartWorkerThread disk_file_ops (sched_shutdown (Schedule
       \<lparr>sc_disk = disk_file_init, sc_mem = (\<lambda>i. [word_of_nat i]), sc_queue = [], sc_done = []\<rparr>
       [demo_request True 1 9 100, demo_request False 2 9 101])) = Inr (Finished, s') \<and>
     sc_done s' = [100, 101] \<and> sc_mem s' 2 = [1]"
  using scheduler_fifo [of "\<lparr>sc_disk = disk_file_init, sc_mem = (\<lambda>i. [word_of_nat i]), sc_queue = [], sc_done = []\<rparr>"
      "[demo_request True 1 9 100, demo_request False 2 9 101]"]
  by (auto simp: file_init_ok file_valid_def demo_request_def)

text \<open>The limit of C4 and C5 is real: once the file has 2 GiB, every read of a stored page
  returns without filling the caller's buffer, because the size no longer fits an \<open>int\<close>.\<close>

theorem read_lost_at_2GiB:
  assumes "df_page_capacity d = 262144" "df_pages d p = Some off"
  shows "disk_file_read d p buf = Inr (buf, d)"
  using assms by (simp add: disk_file_read_def GetFileSize_def BUSTUB_PAGE_SIZE_def)

end
