(* ===== verification/BufferPool.thy ===== *)
theory BufferPool
  imports Arc Disk
begin

section \<open>The buffer pool manager and its page guards\<close>

text \<open>
  Models \<^verbatim>\<open>src/buffer/buffer_pool_manager.cpp\<close>, \<^verbatim>\<open>src/storage/page/page_guard.cpp\<close> and
  their headers. The pool is parametrised by the disk's virtual methods \<open>dk\<close>; handing one
  request to the scheduler and waiting for its future is that request's execution
  (\<open>request_executed\<close> in \<open>BufferPool_Proofs\<close>). \<open>bpm_latch_\<close> makes each operation of the
  pool one step; a guard's constructor takes the frame's latch after \<open>bpm_latch_\<close> is
  released, and \<open>Drop\<close> releases the frame's latch, decrements the pin count and only then
  takes \<open>bpm_latch_\<close>, so these are definitions of their own that other threads can run
  between.
\<close>

subsection \<open>Frames, latches, the pool and guards\<close>

text \<open>\<open>std::shared_mutex\<close>: a lock that cannot be taken now makes the caller wait (\<open>Stuck\<close> when
  nothing else runs); unlocking what is not held is undefined.\<close>

datatype rwlatch = Unlocked | Shared nat | Exclusive

fun lock_shared :: "rwlatch \<Rightarrow> rwlatch result" where
  "lock_shared Unlocked = Inr (Shared 1)"
| "lock_shared (Shared n) = Inr (Shared (n + 1))"
| "lock_shared Exclusive = Inl Stuck"

fun lock_exclusive :: "rwlatch \<Rightarrow> rwlatch result" where
  "lock_exclusive Unlocked = Inr Exclusive"
| "lock_exclusive l = Inl Stuck"

fun unlock_shared :: "rwlatch \<Rightarrow> rwlatch result" where
  "unlock_shared (Shared n) = Inr (if n \<le> 1 then Unlocked else Shared (n - 1))"
| "unlock_shared l = Inl Undefined"

fun unlock_exclusive :: "rwlatch \<Rightarrow> rwlatch result" where
  "unlock_exclusive Exclusive = Inr Unlocked"
| "unlock_exclusive l = Inl Undefined"

record frame_header =
  fh_frame_id :: frame_id
  fh_rwlatch :: rwlatch
  fh_pin_count :: nat
  fh_is_dirty :: bool
  fh_data :: page_data

definition frame_reset :: "frame_header \<Rightarrow> frame_header" where
  "frame_reset fr = fr\<lparr>fh_data := zero_page, fh_pin_count := 0, fh_is_dirty := False\<rparr>"

definition FrameHeader :: "frame_id \<Rightarrow> frame_header" where
  "FrameHeader frame_id = frame_reset
     \<lparr>fh_frame_id = frame_id, fh_rwlatch = Unlocked, fh_pin_count = 0, fh_is_dirty = False,
      fh_data = zero_page\<rparr>"

record 'd bpm =
  bp_num_frames :: nat
  bp_next_page_id :: page_id
  bp_frames :: "frame_header list"
  bp_page_table :: "page_id \<rightharpoonup> frame_id"
  bp_free_frames :: "frame_id list"
  bp_replacer :: arc
  bp_frame_to_page :: "frame_id \<rightharpoonup> page_id"
  bp_disk :: 'd

definition BufferPoolManager :: "nat \<Rightarrow> 'd \<Rightarrow> 'd bpm" where
  "BufferPoolManager num_frames d =
     \<lparr>bp_num_frames = num_frames, bp_next_page_id = 0,
      bp_frames = map (\<lambda>i. FrameHeader (int i)) [0..<num_frames],
      bp_page_table = Map.empty,
      bp_free_frames = map int [0..<num_frames],
      bp_replacer = arc_init num_frames,
      bp_frame_to_page = Map.empty,
      bp_disk = d\<rparr>"

text \<open>Indexing \<open>frames_\<close> outside the vector is undefined.\<close>

definition frame_at :: "'d bpm \<Rightarrow> frame_id \<Rightarrow> frame_header result" where
  "frame_at s fid =
     (if 0 \<le> fid \<and> nat fid < length (bp_frames s) then Inr (bp_frames s ! nat fid) else Inl Undefined)"

definition set_frame :: "frame_id \<Rightarrow> frame_header \<Rightarrow> 'd bpm \<Rightarrow> 'd bpm" where
  "set_frame fid fr s = s\<lparr>bp_frames := (bp_frames s)[nat fid := fr]\<rparr>"

subsection \<open>Requests to the disk\<close>

definition schedule_write :: "'d disk_ops \<Rightarrow> 'd bpm \<Rightarrow> page_id \<Rightarrow> page_data \<Rightarrow> 'd bpm result" where
  "schedule_write dk s page_id buf =
     rbind (op_write dk (bp_disk s) page_id buf) (\<lambda>d. Inr (s\<lparr>bp_disk := d\<rparr>))"

definition schedule_read :: "'d disk_ops \<Rightarrow> 'd bpm \<Rightarrow> page_id \<Rightarrow> page_data \<Rightarrow> (page_data \<times> 'd bpm) result" where
  "schedule_read dk s page_id buf =
     rbind (op_read dk (bp_disk s) page_id buf) (\<lambda>(x, d). Inr (x, s\<lparr>bp_disk := d\<rparr>))"

definition DeallocatePage :: "'d disk_ops \<Rightarrow> 'd bpm \<Rightarrow> page_id \<Rightarrow> 'd bpm result" where
  "DeallocatePage dk s page_id =
     rbind (op_delete dk (bp_disk s) page_id) (\<lambda>d. Inr (s\<lparr>bp_disk := d\<rparr>))"

text \<open>The block that writes a dirty frame out and clears its flag, of eviction and of every flush.\<close>

definition write_back :: "'d disk_ops \<Rightarrow> 'd bpm \<Rightarrow> frame_id \<Rightarrow> page_id \<Rightarrow> 'd bpm result" where
  "write_back dk s fid page_id =
     rbind (frame_at s fid) (\<lambda>frame.
       if fh_is_dirty frame then
         rbind (schedule_write dk s page_id (fh_data frame)) (\<lambda>s1.
           Inr (set_frame fid (frame\<lparr>fh_is_dirty := False\<rparr>) s1))
       else Inr s)"

subsection \<open>Page allocation and deletion\<close>

definition NewPage :: "'d bpm \<Rightarrow> page_id \<times> 'd bpm" where
  "NewPage s = (bp_next_page_id s, s\<lparr>bp_next_page_id := bp_next_page_id s + 1\<rparr>)"

definition DeletePage :: "'d disk_ops \<Rightarrow> 'd bpm \<Rightarrow> page_id \<Rightarrow> (bool \<times> 'd bpm) result" where
  "DeletePage dk s page_id =
     (case bp_page_table s page_id of
        None \<Rightarrow> rbind (DeallocatePage dk s page_id) (\<lambda>s1. Inr (True, s1))
      | Some fid \<Rightarrow>
          rbind (frame_at s fid) (\<lambda>frame.
            if fh_pin_count frame > 0 then Inr (False, s)
            else
              rbind (arc_remove (bp_replacer s) fid) (\<lambda>r.
                let s1 = s\<lparr>bp_replacer := r,
                           bp_page_table := (bp_page_table s)(page_id := None),
                           bp_frame_to_page := (bp_frame_to_page s)(fid := None),
                           bp_free_frames := bp_free_frames s @ [fid]\<rparr>
                in rbind (DeallocatePage dk (set_frame fid (frame_reset frame) s1) page_id)
                     (\<lambda>s2. Inr (True, s2)))))"

subsection \<open>Bringing a page into a frame\<close>

text \<open>Case 1: the page is in the pool.\<close>

definition pin_resident :: "'d bpm \<Rightarrow> frame_id \<Rightarrow> page_id \<Rightarrow> 'd bpm result" where
  "pin_resident s fid page_id =
     rbind (frame_at s fid) (\<lambda>frame.
       let s1 = set_frame fid (frame\<lparr>fh_pin_count := fh_pin_count frame + 1\<rparr>) s in
       rbind (arc_set_evictable (bp_replacer s1) fid False) (\<lambda>r.
       rbind (arc_record_access r fid page_id) (\<lambda>r.
         Inr (s1\<lparr>bp_replacer := r\<rparr>))))"

text \<open>Cases 2 and 3: a free frame, or the replacer's victim, written back if it is dirty.\<close>

definition evict_frame :: "'d disk_ops \<Rightarrow> 'd bpm \<Rightarrow> (frame_id option \<times> 'd bpm) result" where
  "evict_frame dk s =
     rbind (arc_evict (bp_replacer s)) (\<lambda>(evict_opt, r).
       let s1 = s\<lparr>bp_replacer := r\<rparr> in
       case evict_opt of
         None \<Rightarrow> Inr (None, s1)
       | Some fid \<Rightarrow>
           rbind
             (case bp_frame_to_page s1 fid of
                None \<Rightarrow> Inr s1
              | Some evicted_pid \<Rightarrow>
                  rbind (write_back dk s1 fid evicted_pid) (\<lambda>s2.
                    Inr (s2\<lparr>bp_page_table := (bp_page_table s2)(evicted_pid := None),
                            bp_frame_to_page := (bp_frame_to_page s2)(fid := None)\<rparr>)))
             (\<lambda>s3. rbind (frame_at s3 fid) (\<lambda>frame.
                     Inr (Some fid, set_frame fid (frame_reset frame) s3))))"

definition take_frame :: "'d disk_ops \<Rightarrow> 'd bpm \<Rightarrow> (frame_id option \<times> 'd bpm) result" where
  "take_frame dk s =
     (case bp_free_frames s of
        fid # rest \<Rightarrow> Inr (Some fid, s\<lparr>bp_free_frames := rest\<rparr>)
      | [] \<Rightarrow> evict_frame dk s)"

definition load_page :: "'d disk_ops \<Rightarrow> 'd bpm \<Rightarrow> frame_id \<Rightarrow> page_id \<Rightarrow> 'd bpm result" where
  "load_page dk s fid page_id =
     rbind (frame_at s fid) (\<lambda>frame.
     rbind (schedule_read dk s page_id (fh_data frame)) (\<lambda>(x, s1).
       let s2 = s1\<lparr>bp_page_table := (bp_page_table s1)(page_id \<mapsto> fid),
                   bp_frame_to_page := (bp_frame_to_page s1)(fid \<mapsto> page_id)\<rparr>;
           s3 = set_frame fid (frame\<lparr>fh_data := x, fh_pin_count := 1\<rparr>) s2
       in
       rbind (arc_record_access (bp_replacer s3) fid page_id) (\<lambda>r.
       rbind (arc_set_evictable r fid False) (\<lambda>r.
         Inr (s3\<lparr>bp_replacer := r\<rparr>)))))"

text \<open>The part of \<open>CheckedWritePage\<close> and \<open>CheckedReadPage\<close> that runs under \<open>bpm_latch_\<close>.\<close>

definition pin_page :: "'d disk_ops \<Rightarrow> 'd bpm \<Rightarrow> page_id \<Rightarrow> (frame_id option \<times> 'd bpm) result" where
  "pin_page dk s page_id =
     (case bp_page_table s page_id of
        Some fid \<Rightarrow> rbind (pin_resident s fid page_id) (\<lambda>s1. Inr (Some fid, s1))
      | None \<Rightarrow>
          rbind (take_frame dk s) (\<lambda>(fid_opt, s1).
            case fid_opt of
              None \<Rightarrow> Inr (None, s1)
            | Some fid \<Rightarrow> rbind (load_page dk s1 fid page_id) (\<lambda>s2. Inr (Some fid, s2))))"

subsection \<open>Guards\<close>

text \<open>A moved-from guard is invalid; so is a dropped one.\<close>

record page_guard =
  pg_page_id :: page_id
  pg_frame :: frame_id
  pg_is_valid :: bool

definition ReadPageGuard :: "'d bpm \<Rightarrow> page_id \<Rightarrow> frame_id \<Rightarrow> bool \<Rightarrow> (page_guard \<times> 'd bpm) result" where
  "ReadPageGuard s page_id fid already_locked =
     rbind (frame_at s fid) (\<lambda>frame.
     rbind (if already_locked then Inr (fh_rwlatch frame) else lock_shared (fh_rwlatch frame)) (\<lambda>l.
       Inr (\<lparr>pg_page_id = page_id, pg_frame = fid, pg_is_valid = True\<rparr>,
            set_frame fid (frame\<lparr>fh_rwlatch := l\<rparr>) s)))"

definition WritePageGuard :: "'d bpm \<Rightarrow> page_id \<Rightarrow> frame_id \<Rightarrow> bool \<Rightarrow> (page_guard \<times> 'd bpm) result" where
  "WritePageGuard s page_id fid already_locked =
     rbind (frame_at s fid) (\<lambda>frame.
     rbind (if already_locked then Inr (fh_rwlatch frame) else lock_exclusive (fh_rwlatch frame)) (\<lambda>l.
       Inr (\<lparr>pg_page_id = page_id, pg_frame = fid, pg_is_valid = True\<rparr>,
            set_frame fid (frame\<lparr>fh_rwlatch := l, fh_is_dirty := True\<rparr>) s)))"

text \<open>The accessors check that the guard is valid (\<open>BUSTUB_ENSURE\<close>).\<close>

definition guard_frame :: "'d bpm \<Rightarrow> page_guard \<Rightarrow> frame_header result" where
  "guard_frame s g = (if \<not> pg_is_valid g then Inl Terminated else frame_at s (pg_frame g))"

definition GetPageId :: "page_guard \<Rightarrow> page_id result" where
  "GetPageId g = (if \<not> pg_is_valid g then Inl Terminated else Inr (pg_page_id g))"

definition GetData :: "'d bpm \<Rightarrow> page_guard \<Rightarrow> page_data result" where
  "GetData s g = rbind (guard_frame s g) (\<lambda>frame. Inr (fh_data frame))"

definition IsDirty :: "'d bpm \<Rightarrow> page_guard \<Rightarrow> bool result" where
  "IsDirty s g = rbind (guard_frame s g) (\<lambda>frame. Inr (fh_is_dirty frame))"

text \<open>Writing through the pointer \<open>GetDataMut\<close> returns: only the bytes change.\<close>

definition GetDataMut_write :: "'d bpm \<Rightarrow> page_guard \<Rightarrow> page_data \<Rightarrow> 'd bpm result" where
  "GetDataMut_write s g x =
     rbind (guard_frame s g) (\<lambda>frame. Inr (set_frame (pg_frame g) (frame\<lparr>fh_data := x\<rparr>) s))"

definition guard_Flush :: "'d disk_ops \<Rightarrow> 'd bpm \<Rightarrow> page_guard \<Rightarrow> 'd bpm result" where
  "guard_Flush dk s g =
     (if \<not> pg_is_valid g then Inl Terminated else write_back dk s (pg_frame g) (pg_page_id g))"

text \<open>\<open>Drop\<close> in the three parts other threads can run between: the frame's latch, the pin
  count, and the replacer under \<open>bpm_latch_\<close>.\<close>

definition drop_unlatch :: "(rwlatch \<Rightarrow> rwlatch result) \<Rightarrow> 'd bpm \<Rightarrow> frame_id \<Rightarrow> 'd bpm result" where
  "drop_unlatch unlock s fid =
     rbind (frame_at s fid) (\<lambda>frame. rbind (unlock (fh_rwlatch frame)) (\<lambda>l.
       Inr (set_frame fid (frame\<lparr>fh_rwlatch := l\<rparr>) s)))"

definition drop_unpin :: "'d bpm \<Rightarrow> frame_id \<Rightarrow> 'd bpm result" where
  "drop_unpin s fid =
     rbind (frame_at s fid) (\<lambda>frame.
       Inr (set_frame fid (frame\<lparr>fh_pin_count := size_dec (fh_pin_count frame)\<rparr>) s))"

definition drop_release :: "'d bpm \<Rightarrow> frame_id \<Rightarrow> 'd bpm result" where
  "drop_release s fid =
     rbind (frame_at s fid) (\<lambda>frame.
       if fh_pin_count frame = 0 then
         rbind (arc_set_evictable (bp_replacer s) (fh_frame_id frame) True) (\<lambda>r.
           Inr (s\<lparr>bp_replacer := r\<rparr>))
       else Inr s)"

definition ReadPageGuard_Drop :: "'d bpm \<Rightarrow> page_guard \<Rightarrow> (page_guard \<times> 'd bpm) result" where
  "ReadPageGuard_Drop s g =
     (if \<not> pg_is_valid g then Inr (g, s)
      else
        rbind (drop_unlatch unlock_shared s (pg_frame g)) (\<lambda>s1.
        rbind (drop_unpin s1 (pg_frame g)) (\<lambda>s2.
        rbind (drop_release s2 (pg_frame g)) (\<lambda>s3.
          Inr (g\<lparr>pg_is_valid := False\<rparr>, s3)))))"

definition WritePageGuard_Drop :: "'d bpm \<Rightarrow> page_guard \<Rightarrow> (page_guard \<times> 'd bpm) result" where
  "WritePageGuard_Drop s g =
     (if \<not> pg_is_valid g then Inr (g, s)
      else
        rbind (drop_unlatch unlock_exclusive s (pg_frame g)) (\<lambda>s1.
        rbind (drop_unpin s1 (pg_frame g)) (\<lambda>s2.
        rbind (drop_release s2 (pg_frame g)) (\<lambda>s3.
          Inr (g\<lparr>pg_is_valid := False\<rparr>, s3)))))"

text \<open>The move constructor: the new guard and the source, now invalid; the move assignment
  drops what the target held first.\<close>

definition guard_move :: "page_guard \<Rightarrow> page_guard \<times> page_guard" where
  "guard_move that = (that, that\<lparr>pg_is_valid := False\<rparr>)"

definition ReadPageGuard_assign ::
    "'d bpm \<Rightarrow> page_guard \<Rightarrow> page_guard \<Rightarrow> (page_guard \<times> page_guard \<times> 'd bpm) result" where
  "ReadPageGuard_assign s this that =
     rbind (ReadPageGuard_Drop s this) (\<lambda>(_, s1). Inr (that, that\<lparr>pg_is_valid := False\<rparr>, s1))"

definition WritePageGuard_assign ::
    "'d bpm \<Rightarrow> page_guard \<Rightarrow> page_guard \<Rightarrow> (page_guard \<times> page_guard \<times> 'd bpm) result" where
  "WritePageGuard_assign s this that =
     rbind (WritePageGuard_Drop s this) (\<lambda>(_, s1). Inr (that, that\<lparr>pg_is_valid := False\<rparr>, s1))"

subsection \<open>Access to pages\<close>

definition CheckedWritePage :: "'d disk_ops \<Rightarrow> 'd bpm \<Rightarrow> page_id \<Rightarrow> (page_guard option \<times> 'd bpm) result" where
  "CheckedWritePage dk s page_id =
     rbind (pin_page dk s page_id) (\<lambda>(fid_opt, s1).
       case fid_opt of
         None \<Rightarrow> Inr (None, s1)
       | Some fid \<Rightarrow> rbind (WritePageGuard s1 page_id fid False) (\<lambda>(g, s2). Inr (Some g, s2)))"

definition CheckedReadPage :: "'d disk_ops \<Rightarrow> 'd bpm \<Rightarrow> page_id \<Rightarrow> (page_guard option \<times> 'd bpm) result" where
  "CheckedReadPage dk s page_id =
     rbind (pin_page dk s page_id) (\<lambda>(fid_opt, s1).
       case fid_opt of
         None \<Rightarrow> Inr (None, s1)
       | Some fid \<Rightarrow> rbind (ReadPageGuard s1 page_id fid False) (\<lambda>(g, s2). Inr (Some g, s2)))"

definition WritePage :: "'d disk_ops \<Rightarrow> 'd bpm \<Rightarrow> page_id \<Rightarrow> (page_guard \<times> 'd bpm) result" where
  "WritePage dk s page_id =
     rbind (CheckedWritePage dk s page_id) (\<lambda>(guard_opt, s1).
       case guard_opt of None \<Rightarrow> Inl Terminated | Some g \<Rightarrow> Inr (g, s1))"

definition ReadPage :: "'d disk_ops \<Rightarrow> 'd bpm \<Rightarrow> page_id \<Rightarrow> (page_guard \<times> 'd bpm) result" where
  "ReadPage dk s page_id =
     rbind (CheckedReadPage dk s page_id) (\<lambda>(guard_opt, s1).
       case guard_opt of None \<Rightarrow> Inl Terminated | Some g \<Rightarrow> Inr (g, s1))"

subsection \<open>Flushing\<close>

definition FlushPageUnsafe :: "'d disk_ops \<Rightarrow> 'd bpm \<Rightarrow> page_id \<Rightarrow> (bool \<times> 'd bpm) result" where
  "FlushPageUnsafe dk s page_id =
     (case bp_page_table s page_id of
        None \<Rightarrow> Inr (False, s)
      | Some fid \<Rightarrow> rbind (write_back dk s fid page_id) (\<lambda>s1. Inr (True, s1)))"

text \<open>The frame's latch is taken and released around the flush.\<close>

definition FlushPage :: "'d disk_ops \<Rightarrow> 'd bpm \<Rightarrow> page_id \<Rightarrow> (bool \<times> 'd bpm) result" where
  "FlushPage dk s page_id =
     (case bp_page_table s page_id of
        None \<Rightarrow> Inr (False, s)
      | Some fid \<Rightarrow>
          rbind (frame_at s fid) (\<lambda>frame.
          rbind (lock_exclusive (fh_rwlatch frame)) (\<lambda>l.
          rbind (FlushPageUnsafe dk (set_frame fid (frame\<lparr>fh_rwlatch := l\<rparr>) s) page_id) (\<lambda>(result, s1).
          rbind (drop_unlatch unlock_exclusive s1 fid) (\<lambda>s2.
            Inr (result, s2))))))"

text \<open>The two loops over \<open>page_table_\<close>, whose iteration order is the hash table's.\<close>

fun FlushAllPagesUnsafe :: "'d disk_ops \<Rightarrow> page_id list \<Rightarrow> 'd bpm \<Rightarrow> 'd bpm result" where
  "FlushAllPagesUnsafe dk [] s = Inr s"
| "FlushAllPagesUnsafe dk (pid # pids) s =
     rbind (FlushPageUnsafe dk s pid) (\<lambda>(_, s1). FlushAllPagesUnsafe dk pids s1)"

fun FlushAllPages :: "'d disk_ops \<Rightarrow> page_id list \<Rightarrow> 'd bpm \<Rightarrow> 'd bpm result" where
  "FlushAllPages dk [] s = Inr s"
| "FlushAllPages dk (pid # pids) s =
     rbind (FlushPage dk s pid) (\<lambda>(_, s1). FlushAllPages dk pids s1)"

definition GetPinCount :: "'d bpm \<Rightarrow> page_id \<Rightarrow> nat option result" where
  "GetPinCount s page_id =
     (case bp_page_table s page_id of
        None \<Rightarrow> Inr None
      | Some fid \<Rightarrow> rbind (frame_at s fid) (\<lambda>frame. Inr (Some (fh_pin_count frame))))"

end
