(* ===== verification/BufferPool_Proofs.thy ===== *)
theory BufferPool_Proofs
  imports BufferPool Arc_Proofs Disk_Proofs
begin

section \<open>Correctness of the buffer pool\<close>

text \<open>
  The consistency of the pool's tables, frames and replacer; the pages the pool stores, as its
  clients see them through the frames and the disk together; and the runs of concurrent
  clients, each step of which is one section of code between two points where other threads
  can run. Everything is proved for any disk that meets the contract of \<open>Disk\<close>.
\<close>

subsection \<open>Consistency of the pool\<close>

definition in_frame :: "'d bpm \<Rightarrow> frame_id \<Rightarrow> frame_header" where
  "in_frame s f = bp_frames s ! nat f"

definition tables_ok :: "'d bpm \<Rightarrow> bool" where
  "tables_ok s \<longleftrightarrow>
     (\<forall>p f. bp_page_table s p = Some f \<longleftrightarrow> bp_frame_to_page s f = Some p) \<and>
     distinct (bp_free_frames s) \<and> set (bp_free_frames s) \<inter> dom (bp_frame_to_page s) = {} \<and>
     set (bp_free_frames s) \<union> dom (bp_frame_to_page s) = {0..<int (bp_num_frames s)}"

definition frames_ok :: "'d bpm \<Rightarrow> bool" where
  "frames_ok s \<longleftrightarrow> length (bp_frames s) = bp_num_frames s \<and>
     (\<forall>f. 0 \<le> f \<and> f < int (bp_num_frames s) \<longrightarrow> fh_frame_id (in_frame s f) = f)"

definition tracked_ok :: "'d bpm \<Rightarrow> bool" where
  "tracked_ok s \<longleftrightarrow> arc_inv (bp_replacer s) \<and> replacer_size (bp_replacer s) = bp_num_frames s \<and>
     (\<forall>f. map_option fst (arc_view (bp_replacer s) f) = bp_frame_to_page s f)"

definition evict_ok :: "'d bpm \<Rightarrow> bool" where
  "evict_ok s \<longleftrightarrow> (\<forall>f p. arc_view (bp_replacer s) f = Some (p, True) \<longrightarrow> fh_pin_count (in_frame s f) = 0)"

definition bpm_ok :: "'d bpm \<Rightarrow> bool" where
  "bpm_ok s \<longleftrightarrow> tables_ok s \<and> frames_ok s \<and> tracked_ok s \<and> evict_ok s"

lemmas bpm_ok_defs = bpm_ok_def tables_ok_def frames_ok_def tracked_ok_def evict_ok_def

lemma bpm_okD:
  assumes "bpm_ok s"
  shows "tables_ok s" "frames_ok s" "tracked_ok s" "evict_ok s"
  using assms by (simp_all add: bpm_ok_def)

lemma table_iff: "bpm_ok s \<Longrightarrow> bp_page_table s p = Some f \<longleftrightarrow> bp_frame_to_page s f = Some p"
  by (simp add: bpm_ok_def tables_ok_def)

lemma view_page: "bpm_ok s \<Longrightarrow> bp_frame_to_page s f = Some p \<Longrightarrow> \<exists>b. arc_view (bp_replacer s) f = Some (p, b)"
  by (metis (no_types, lifting) bpm_ok_def tracked_ok_def map_option_eq_Some prod.collapse)

lemma view_frame: "bpm_ok s \<Longrightarrow> arc_view (bp_replacer s) f = Some (p, b) \<Longrightarrow> bp_frame_to_page s f = Some p"
  by (metis bpm_ok_def fst_conv map_option_eq_Some tracked_ok_def)

lemma frame_range: "bpm_ok s \<Longrightarrow> bp_frame_to_page s f = Some p \<Longrightarrow> 0 \<le> f \<and> f < int (bp_num_frames s)"
  by (fastforce simp: bpm_ok_def tables_ok_def)

lemma frame_at_ok:
  "frames_ok s \<Longrightarrow> 0 \<le> f \<Longrightarrow> f < int (bp_num_frames s) \<Longrightarrow> frame_at s f = Inr (in_frame s f)"
  by (simp add: frame_at_def frames_ok_def in_frame_def nat_less_iff)

lemma set_frame_select [simp]:
  "bp_num_frames (set_frame f fr s) = bp_num_frames s" "bp_next_page_id (set_frame f fr s) = bp_next_page_id s"
  "bp_page_table (set_frame f fr s) = bp_page_table s" "bp_free_frames (set_frame f fr s) = bp_free_frames s"
  "bp_replacer (set_frame f fr s) = bp_replacer s" "bp_frame_to_page (set_frame f fr s) = bp_frame_to_page s"
  "bp_disk (set_frame f fr s) = bp_disk s"
  by (simp_all add: set_frame_def)

lemma in_frame_select [simp]:
  "in_frame (s\<lparr>bp_next_page_id := n\<rparr>) f = in_frame s f" "in_frame (s\<lparr>bp_page_table := t\<rparr>) f = in_frame s f"
  "in_frame (s\<lparr>bp_free_frames := l\<rparr>) f = in_frame s f" "in_frame (s\<lparr>bp_replacer := r\<rparr>) f = in_frame s f"
  "in_frame (s\<lparr>bp_frame_to_page := u\<rparr>) f = in_frame s f" "in_frame (s\<lparr>bp_disk := d\<rparr>) f = in_frame s f"
  by (simp_all add: in_frame_def)

lemma in_frame_set:
  assumes "frames_ok s" "0 \<le> f" "f < int (bp_num_frames s)" "0 \<le> g"
  shows "in_frame (set_frame f fr s) g = (if g = f then fr else in_frame s g)"
  using assms by (auto simp: in_frame_def set_frame_def frames_ok_def nth_list_update nat_less_iff eq_nat_nat_iff)

lemma frames_ok_set:
  assumes "frames_ok s" "0 \<le> f" "f < int (bp_num_frames s)" "fh_frame_id fr = f"
  shows "frames_ok (set_frame f fr s)"
proof -
  have "length (bp_frames (set_frame f fr s)) = bp_num_frames s"
    using assms(1) by (simp add: frames_ok_def set_frame_def)
  then show ?thesis
    using assms(1,4) by (auto simp: frames_ok_def in_frame_set [OF assms(1-3)])
qed

lemma frame_id_eq: "frames_ok s \<Longrightarrow> 0 \<le> f \<Longrightarrow> f < int (bp_num_frames s) \<Longrightarrow> fh_frame_id (in_frame s f) = f"
  by (simp add: frames_ok_def)

lemma frames_ok_select [simp]:
  "frames_ok (s\<lparr>bp_next_page_id := n\<rparr>) = frames_ok s" "frames_ok (s\<lparr>bp_page_table := t\<rparr>) = frames_ok s"
  "frames_ok (s\<lparr>bp_free_frames := l\<rparr>) = frames_ok s" "frames_ok (s\<lparr>bp_replacer := r\<rparr>) = frames_ok s"
  "frames_ok (s\<lparr>bp_frame_to_page := u\<rparr>) = frames_ok s" "frames_ok (s\<lparr>bp_disk := d\<rparr>) = frames_ok s"
  by (simp_all add: frames_ok_def)

lemma BufferPoolManager_ok: "bpm_ok (BufferPoolManager n d)"
proof -
  have "set (map int [0..<n]) = {0..<int n}"
    by (simp add: image_int_atLeastLessThan)
  then have "tables_ok (BufferPoolManager n d)"
    by (simp add: tables_ok_def BufferPoolManager_def distinct_map)
  moreover have "frames_ok (BufferPoolManager n d)"
    by (auto simp: frames_ok_def BufferPoolManager_def in_frame_def FrameHeader_def frame_reset_def nat_less_iff)
  moreover have "tracked_ok (BufferPoolManager n d) \<and> evict_ok (BufferPoolManager n d)"
    by (simp add: tracked_ok_def evict_ok_def BufferPoolManager_def arc_init_inv arc_view_init)
       (simp add: arc_init_def)
  ultimately show ?thesis by (simp add: bpm_ok_def)
qed


subsection \<open>What a client sees\<close>

text \<open>A request handed to the idle scheduler is executed by the worker's next turn.\<close>

lemma request_executed:
  "worker_turn dk (Schedule \<lparr>sc_disk = bp_disk s, sc_mem = M, sc_queue = [], sc_done = ds\<rparr>
       [\<lparr>rq_is_write = True, rq_data = b, rq_page_id = p, rq_callback = cb\<rparr>]) =
     rbind (schedule_write dk s p (M b)) (\<lambda>s'.
       Inr (Running, \<lparr>sc_disk = bp_disk s', sc_mem = M, sc_queue = [], sc_done = ds @ [cb]\<rparr>))"
  "worker_turn dk (Schedule \<lparr>sc_disk = bp_disk s, sc_mem = M, sc_queue = [], sc_done = ds\<rparr>
       [\<lparr>rq_is_write = False, rq_data = b, rq_page_id = p, rq_callback = cb\<rparr>]) =
     rbind (schedule_read dk s p (M b)) (\<lambda>(x, s').
       Inr (Running, \<lparr>sc_disk = bp_disk s', sc_mem = M(b := x), sc_queue = [], sc_done = ds @ [cb]\<rparr>))"
  by (auto simp: worker_turn_def Schedule_def chan_put_def chan_get_def execute_request_def
      schedule_write_def schedule_read_def rbind_def split: sum.splits prod.splits)

text \<open>The page as stored by the pool: in its frame, or else on disk.\<close>

definition pool_pages :: "('d \<Rightarrow> page_id \<rightharpoonup> page_data) \<Rightarrow> 'd bpm \<Rightarrow> page_id \<rightharpoonup> page_data" where
  "pool_pages contents s p = (case bp_page_table s p of
      Some f \<Rightarrow> Some (fh_data (in_frame s f)) | None \<Rightarrow> contents (bp_disk s) p)"

context disk
begin

abbreviation pages :: "'d bpm \<Rightarrow> page_id \<rightharpoonup> page_data" where
  "pages \<equiv> pool_pages contents"

definition clean_ok :: "'d bpm \<Rightarrow> bool" where
  "clean_ok s \<longleftrightarrow> ok (bp_disk s) \<and> (\<forall>p \<in> dom (bp_page_table s). valid p) \<and>
     (\<forall>p f. bp_page_table s p = Some f \<longrightarrow> \<not> fh_is_dirty (in_frame s f) \<longrightarrow>
        contents (bp_disk s) p = Some (fh_data (in_frame s f)))"

definition pool_ok :: "'d bpm \<Rightarrow> bool" where
  "pool_ok s \<longleftrightarrow> bpm_ok s \<and> clean_ok s"

lemma pool_okD: "pool_ok s \<Longrightarrow> bpm_ok s" "pool_ok s \<Longrightarrow> clean_ok s"
  by (simp_all add: pool_ok_def)

lemma pages_resident: "bp_page_table s p = Some f \<Longrightarrow> pages s p = Some (fh_data (in_frame s f))"
  by (simp add: pool_pages_def)

text \<open>Writing a frame back changes no page: the frame is clean afterwards.\<close>

lemma write_back_ok:
  assumes fr: "frames_ok s" "0 \<le> f" "f < int (bp_num_frames s)"
    and d: "ok (bp_disk s)" "valid p"
      "\<not> fh_is_dirty (in_frame s f) \<Longrightarrow> contents (bp_disk s) p = Some (fh_data (in_frame s f))"
  shows "\<exists>d'. write_back dk s f p =
      Inr ((set_frame f ((in_frame s f)\<lparr>fh_is_dirty := False\<rparr>) s)\<lparr>bp_disk := d'\<rparr>) \<and>
    ok d' \<and> contents d' p = Some (fh_data (in_frame s f)) \<and>
    (\<forall>q. q \<noteq> p \<longrightarrow> contents d' q = contents (bp_disk s) q)"
proof -
  have at: "frame_at s f = Inr (in_frame s f)" by (rule frame_at_ok [OF fr])
  show ?thesis
  proof (cases "fh_is_dirty (in_frame s f)")
    case True
    obtain d' where "op_write dk (bp_disk s) p (fh_data (in_frame s f)) = Inr d'" "ok d'"
      "contents d' = (contents (bp_disk s))(p \<mapsto> fh_data (in_frame s f))"
      using write_ok [OF d(1,2)] by blast
    then show ?thesis
      using True at by (intro exI [of _ d']) (simp add: write_back_def schedule_write_def set_frame_def)
  next
    case False
    then have "(in_frame s f)\<lparr>fh_is_dirty := False\<rparr> = in_frame s f" by (cases "in_frame s f") simp
    moreover have "set_frame f (in_frame s f) s = s" by (simp add: set_frame_def in_frame_def)
    ultimately have "(set_frame f ((in_frame s f)\<lparr>fh_is_dirty := False\<rparr>) s)\<lparr>bp_disk := bp_disk s\<rparr> = s" by simp
    then show ?thesis
      using False at d by (intro exI [of _ "bp_disk s"]) (auto simp: write_back_def)
  qed
qed

text \<open>The resident pages are valid, and clean ones agree with the disk.\<close>

lemma residentD:
  assumes "pool_ok s" "bp_frame_to_page s f = Some p"
  shows "bp_page_table s p = Some f" "0 \<le> f" "f < int (bp_num_frames s)" "valid p" "ok (bp_disk s)"
    "\<not> fh_is_dirty (in_frame s f) \<Longrightarrow> contents (bp_disk s) p = Some (fh_data (in_frame s f))"
proof -
  note b = pool_okD(1) [OF assms(1)] and c = pool_okD(2) [OF assms(1)]
  show pt: "bp_page_table s p = Some f" using assms(2) by (simp add: table_iff [OF b])
  show "0 \<le> f" "f < int (bp_num_frames s)" using frame_range [OF b assms(2)] by auto
  show "valid p" "ok (bp_disk s)" using c pt by (auto simp: clean_ok_def)
  show "contents (bp_disk s) p = Some (fh_data (in_frame s f))" if "\<not> fh_is_dirty (in_frame s f)"
    using c pt that by (auto simp: clean_ok_def)
qed

text \<open>A frame taken out of the tables for a new page: everything it held is on disk.\<close>

definition detached :: "'d bpm \<Rightarrow> frame_id \<Rightarrow> 'd bpm \<Rightarrow> bool" where
  "detached s f s' \<longleftrightarrow> 0 \<le> f \<and> f < int (bp_num_frames s) \<and>
     bp_num_frames s' = bp_num_frames s \<and> bp_next_page_id s' = bp_next_page_id s \<and>
     bp_frame_to_page s' = (bp_frame_to_page s)(f := None) \<and>
     (\<forall>q. bp_page_table s' q = (if bp_frame_to_page s f = Some q then None else bp_page_table s q)) \<and>
     bp_free_frames s' = remove1 f (bp_free_frames s) \<and>
     (f \<in> set (bp_free_frames s) \<or> fh_pin_count (in_frame s f) = 0) \<and>
     arc_inv (bp_replacer s') \<and> replacer_size (bp_replacer s') = bp_num_frames s \<and>
     arc_view (bp_replacer s') = (arc_view (bp_replacer s))(f := None) \<and>
     frames_ok s' \<and> (\<forall>g \<ge> 0. g \<noteq> f \<longrightarrow> in_frame s' g = in_frame s g) \<and>
     fh_rwlatch (in_frame s' f) = fh_rwlatch (in_frame s f) \<and>
     ok (bp_disk s') \<and> (\<forall>q. bp_page_table s' q = None \<longrightarrow> contents (bp_disk s') q = pages s q) \<and>
     (\<forall>q. bp_page_table s q \<noteq> None \<longrightarrow> bp_frame_to_page s f \<noteq> Some q \<longrightarrow>
        contents (bp_disk s') q = contents (bp_disk s) q)"

lemma evict_frame_ok:
  assumes ok: "pool_ok s" and e: "evict_frame dk s = r"
  shows "(r = Inr (None, s) \<and> (\<forall>f p. arc_view (bp_replacer s) f \<noteq> Some (p, True))) \<or>
    (\<exists>f s'. r = Inr (Some f, s') \<and> detached s f s')"
proof -
  note b = pool_okD(1) [OF ok] and c = pool_okD(2) [OF ok]
  have inv: "arc_inv (bp_replacer s)" and cap: "replacer_size (bp_replacer s) = bp_num_frames s"
    using bpm_okD(3) [OF b] by (auto simp: tracked_ok_def)
  obtain v a where ev: "arc_evict (bp_replacer s) = Inr (v, a)"
    using arcr.evict_returns [OF inv] by (auto elim: returnsE)
  show ?thesis
  proof (cases v)
    case None
    with ev arcr.evict_None [OF inv] e show ?thesis by (auto simp: evict_frame_def)
  next
    case (Some f)
    then obtain p where p: "arc_inv a" "arc_view (bp_replacer s) f = Some (p, True)"
      "arc_view a = (arc_view (bp_replacer s))(f := None)" "replacer_size a = bp_num_frames s"
      using arcr.evict_Some [OF inv] ev cap by force
    have "map_option fst (arc_view (bp_replacer s) f) = bp_frame_to_page s f"
      using bpm_okD(3) [OF b] by (simp add: tracked_ok_def)
    then have fp: "bp_frame_to_page s f = Some p" using p(2) by simp
    have pin: "fh_pin_count (in_frame s f) = 0"
      using bpm_okD(4) [OF b] p(2) by (auto simp: evict_ok_def)
    note res = residentD [OF ok fp]
    have fr: "frames_ok s" by (rule bpm_okD(2) [OF b])
    define s1 where "s1 = s\<lparr>bp_replacer := a\<rparr>"
    have s1: "frames_ok s1" "in_frame s1 f = in_frame s f" "bp_num_frames s1 = bp_num_frames s"
      "bp_disk s1 = bp_disk s"
      using fr by (simp_all add: s1_def)
    obtain d' where wb: "write_back dk s1 f p =
        Inr ((set_frame f ((in_frame s f)\<lparr>fh_is_dirty := False\<rparr>) s1)\<lparr>bp_disk := d'\<rparr>)" "ok d'"
      "contents d' p = Some (fh_data (in_frame s f))" "\<And>q. q \<noteq> p \<Longrightarrow> contents d' q = contents (bp_disk s) q"
      using write_back_ok [of s1 f p] s1 res by auto
    have fid: "fh_frame_id (in_frame s f) = f" using fr res by (simp add: frames_ok_def)
    define s3 where "s3 = (set_frame f ((in_frame s f)\<lparr>fh_is_dirty := False\<rparr>) s1)\<lparr>bp_disk := d',
      bp_page_table := (bp_page_table s)(p := None), bp_frame_to_page := (bp_frame_to_page s)(f := None)\<rparr>"
    have s3: "frames_ok s3" "bp_num_frames s3 = bp_num_frames s"
      using frames_ok_set [of s1 f "(in_frame s f)\<lparr>fh_is_dirty := False\<rparr>"] s1 res fid
      by (simp_all add: s3_def)
    have if3: "0 \<le> g \<Longrightarrow> in_frame s3 g = (if g = f then (in_frame s f)\<lparr>fh_is_dirty := False\<rparr> else in_frame s g)" for g
      using in_frame_set [of s1 f g] s1 res by (simp add: s3_def) (simp add: s1_def)
    define s4 where "s4 = set_frame f (frame_reset (in_frame s3 f)) s3"
    have "r = Inr (Some f, s4)"
      using e ev Some fp wb(1) frame_at_ok [OF s3(1), of f] s3(2) res
      by (simp add: evict_frame_def s4_def s3_def s1_def)
    moreover have "detached s f s4"
    proof -
      have fr4: "frames_ok s4"
        unfolding s4_def using s3 res fid if3 [of f] by (intro frames_ok_set) (auto simp: frame_reset_def)
      have if4: "0 \<le> g \<Longrightarrow> in_frame s4 g = (if g = f then frame_reset (in_frame s3 f) else in_frame s g)" for g
        unfolding s4_def using in_frame_set [OF s3(1), of f g] s3(2) res if3 by simp
      have "f \<notin> set (bp_free_frames s)" using bpm_okD(1) [OF b] fp by (auto simp: tables_ok_def)
      moreover have "pages s p = Some (fh_data (in_frame s f))" using res(1) by (rule pages_resident)
      moreover have "pages s q = contents (bp_disk s) q" if "bp_page_table s q = None" for q
        using that by (simp add: pool_pages_def)
      ultimately show ?thesis
        using res pin p fr4 if4 wb fp if3 [of f]
        by (simp add: detached_def remove1_idem)
          (simp add: s4_def s3_def s1_def frame_reset_def)
    qed
    ultimately show ?thesis by blast
  qed
qed


lemma take_frame_ok:
  assumes ok: "pool_ok s" and e: "take_frame dk s = r"
  shows "(r = Inr (None, s) \<and> bp_free_frames s = [] \<and> (\<forall>f p. arc_view (bp_replacer s) f \<noteq> Some (p, True))) \<or>
    (\<exists>f s'. r = Inr (Some f, s') \<and> detached s f s')"
proof (cases "bp_free_frames s")
  case Nil
  with e evict_frame_ok [OF ok, of r] show ?thesis by (simp add: take_frame_def)
next
  case (Cons f rest)
  note b = pool_okD(1) [OF ok] and c = pool_okD(2) [OF ok]
  have t: "distinct (f # rest)" "f \<notin> dom (bp_frame_to_page s)" "f \<in> {0..<int (bp_num_frames s)}"
    using bpm_okD(1) [OF b] Cons by (auto simp: tables_ok_def)
  then have fp: "bp_frame_to_page s f = None" by auto
  have "map_option fst (arc_view (bp_replacer s) f) = bp_frame_to_page s f"
    using bpm_okD(3) [OF b] by (simp add: tracked_ok_def)
  then have "arc_view (bp_replacer s) f = None" using fp by simp
  then have v: "(arc_view (bp_replacer s))(f := None) = arc_view (bp_replacer s)" by (metis fun_upd_triv)
  have "(bp_frame_to_page s)(f := None) = bp_frame_to_page s" using fp by auto
  moreover have "arc_inv (bp_replacer s)" "replacer_size (bp_replacer s) = bp_num_frames s"
    using bpm_okD(3) [OF b] by (auto simp: tracked_ok_def)
  moreover have "pages s q = contents (bp_disk s) q" if "bp_page_table s q = None" for q
    using that by (simp add: pool_pages_def)
  ultimately have "detached s f (s\<lparr>bp_free_frames := rest\<rparr>)"
    using t fp v Cons bpm_okD(2) [OF b] c by (simp add: detached_def clean_ok_def)
  then show ?thesis using e Cons by (auto simp: take_frame_def)
qed

text \<open>A page pinned in a frame, by either route.\<close>

definition pinned :: "'d bpm \<Rightarrow> frame_id \<Rightarrow> page_id \<Rightarrow> 'd bpm \<Rightarrow> bool" where
  "pinned s f p s' \<longleftrightarrow> pool_ok s' \<and> 0 \<le> f \<and> f < int (bp_num_frames s) \<and>
     bp_num_frames s' = bp_num_frames s \<and> bp_next_page_id s' = bp_next_page_id s \<and>
     bp_frame_to_page s' = (bp_frame_to_page s)(f \<mapsto> p) \<and>
     (bp_frame_to_page s f \<noteq> Some p \<longrightarrow> f \<in> set (bp_free_frames s) \<or> fh_pin_count (in_frame s f) = 0) \<and>
     (\<forall>g \<ge> 0. g \<noteq> f \<longrightarrow> in_frame s' g = in_frame s g) \<and>
     fh_rwlatch (in_frame s' f) = fh_rwlatch (in_frame s f) \<and>
     fh_pin_count (in_frame s' f) = (if bp_frame_to_page s f = Some p then fh_pin_count (in_frame s f) + 1 else 1) \<and>
     arc_view (bp_replacer s') = (arc_view (bp_replacer s))(f \<mapsto> (p, False)) \<and>
     (\<forall>q. pages s q \<noteq> None \<longrightarrow> pages s' q = pages s q) \<and> pages s' p \<noteq> None"

lemma tracked_upd:
  assumes "\<forall>f. map_option fst (v f) = fp f" "v' = v(f \<mapsto> (p, b))" "fp' = fp(f \<mapsto> p)"
  shows "\<forall>f. map_option fst (v' f) = fp' f"
  using assms by auto

lemma pin_resident_ok:
  assumes ok: "pool_ok s" and pt: "bp_page_table s p = Some f"
  shows "\<exists>s'. pin_resident s f p = Inr s' \<and> pinned s f p s'"
proof -
  note b = pool_okD(1) [OF ok] and c = pool_okD(2) [OF ok]
  have fp: "bp_frame_to_page s f = Some p" using pt by (simp add: table_iff [OF b])
  note res = residentD [OF ok fp] and fr = bpm_okD(2) [OF b]
  obtain bb where v: "arc_view (bp_replacer s) f = Some (p, bb)" using view_page [OF b fp] by blast
  have inv: "arc_inv (bp_replacer s)" using bpm_okD(3) [OF b] by (simp add: tracked_ok_def)
  obtain r1 r2 where r: "arc_set_evictable (bp_replacer s) f False = Inr r1"
    "arc_record_access r1 f p = Inr r2" "arc_inv r2"
    "arc_view r2 = (arc_view (bp_replacer s))(f \<mapsto> (p, False))" "replacer_size r2 = replacer_size (bp_replacer s)"
    using arcr.pin_tracked [OF inv res(2) v] by blast
  define fh where "fh = (in_frame s f)\<lparr>fh_pin_count := fh_pin_count (in_frame s f) + 1\<rparr>"
  define s' where "s' = (set_frame f fh s)\<lparr>bp_replacer := r2\<rparr>"
  have e: "pin_resident s f p = Inr s'"
    using frame_at_ok [OF fr res(2,3)] r by (simp add: pin_resident_def s'_def fh_def)
  have iff: "0 \<le> g \<Longrightarrow> in_frame s' g = (if g = f then fh else in_frame s g)" for g
    unfolding s'_def using in_frame_set [OF fr res(2,3)] by simp
  have range: "bp_page_table s q = Some g \<Longrightarrow> 0 \<le> g" for q g
    using frame_range [OF b] by (simp add: table_iff [OF b])
  have upd: "(bp_frame_to_page s)(f \<mapsto> p) = bp_frame_to_page s" using fp by auto
  have "frames_ok s'"
    unfolding s'_def using frames_ok_set [OF fr res(2,3), of fh] frame_id_eq [OF fr res(2,3)]
    by (simp add: fh_def)
  moreover have "tables_ok s'" using bpm_okD(1) [OF b] by (simp add: tables_ok_def s'_def)
  moreover have "tracked_ok s'"
    using bpm_okD(3) [OF b] r fp by (auto simp: tracked_ok_def s'_def)
  moreover have "evict_ok s'"
    using bpm_okD(4) [OF b] r(4) unfolding evict_ok_def s'_def [symmetric]
  proof (intro allI impI)
    fix g q assume "arc_view (bp_replacer s') g = Some (q, True)"
    then have "g \<noteq> f" "arc_view (bp_replacer s) g = Some (q, True)"
      using r(4) by (auto simp: s'_def split: if_splits)
    moreover have "0 \<le> g"
      using calculation(2) view_frame [OF b] frame_range [OF b] by blast
    ultimately show "fh_pin_count (in_frame s' g) = 0" using iff bpm_okD(4) [OF b] by (auto simp: evict_ok_def)
  qed
  moreover have "clean_ok s'"
    using c range iff unfolding clean_ok_def by (auto simp: s'_def fh_def)
  moreover have pg: "pages s' q = pages s q" for q
    using range [of q] iff by (auto simp: pool_pages_def s'_def fh_def split: option.splits)
  ultimately show ?thesis
    using e res fp upd iff r(4) pages_resident [OF pt]
    by (auto simp: pinned_def pool_ok_def bpm_ok_def) (auto simp: s'_def fh_def)
qed


lemma load_page_ok:
  assumes ok: "pool_ok s" and det: "detached s f s1" and p: "bp_page_table s p = None" "valid p"
  shows "\<exists>s'. load_page dk s1 f p = Inr s' \<and> pinned s f p s'"
proof -
  note b = pool_okD(1) [OF ok] and c = pool_okD(2) [OF ok]
  have d: "0 \<le> f" "f < int (bp_num_frames s)" "bp_num_frames s1 = bp_num_frames s"
    "bp_frame_to_page s1 = (bp_frame_to_page s)(f := None)" "arc_inv (bp_replacer s1)"
    "arc_view (bp_replacer s1) = (arc_view (bp_replacer s))(f := None)"
    "replacer_size (bp_replacer s1) = bp_num_frames s" "frames_ok s1" "ok (bp_disk s1)"
    "bp_next_page_id s1 = bp_next_page_id s"
    "\<And>g. 0 \<le> g \<Longrightarrow> g \<noteq> f \<Longrightarrow> in_frame s1 g = in_frame s g"
    "fh_rwlatch (in_frame s1 f) = fh_rwlatch (in_frame s f)"
    "bp_free_frames s1 = remove1 f (bp_free_frames s)"
    "f \<in> set (bp_free_frames s) \<or> fh_pin_count (in_frame s f) = 0"
    "\<And>q. bp_page_table s1 q = (if bp_frame_to_page s f = Some q then None else bp_page_table s q)"
    "\<And>q. bp_page_table s1 q = None \<Longrightarrow> contents (bp_disk s1) q = pages s q"
    "\<And>q. bp_page_table s q \<noteq> None \<Longrightarrow> bp_frame_to_page s f \<noteq> Some q \<Longrightarrow>
      contents (bp_disk s1) q = contents (bp_disk s) q"
    using det by (simp_all add: detached_def)
  have t: "tables_ok s" by (rule bpm_okD(1) [OF b])
  have fpp: "bp_frame_to_page s g \<noteq> Some p" for g using p(1) table_iff [OF b, of p g] by simp
  obtain x d' where rd: "op_read dk (bp_disk s1) p (fh_data (in_frame s1 f)) = Inr (x, d')" "ok d'"
    "contents d' p = Some x" "\<And>q. contents (bp_disk s1) q \<noteq> None \<Longrightarrow> contents d' q = contents (bp_disk s1) q"
    using read_ok [OF d(9) p(2)] by blast
  have dom: "dom (arc_view (bp_replacer s1)) \<subseteq> {0..<int (bp_num_frames s)} - {f}"
  proof
    fix g assume "g \<in> dom (arc_view (bp_replacer s1))"
    then obtain q bb where q: "arc_view (bp_replacer s) g = Some (q, bb)" "g \<noteq> f"
      unfolding d(6) by (auto split: if_splits)
    from frame_range [OF b view_frame [OF b q(1)]] q(2)
    show "g \<in> {0..<int (bp_num_frames s)} - {f}" by simp
  qed
  have "card (dom (arc_view (bp_replacer s1))) \<le> card ({0..<int (bp_num_frames s)} - {f})"
    using dom by (intro card_mono) auto
  also have "\<dots> < replacer_size (bp_replacer s1)" using d(1,2,7) by simp
  finally have cap: "card (dom (arc_view (bp_replacer s1))) < replacer_size (bp_replacer s1)" .
  have vf: "arc_view (bp_replacer s1) f = None" and vp: "arc_view (bp_replacer s1) g \<noteq> Some (p, bb)" for g bb
    using d(6) view_frame [OF b] fpp by auto
  obtain r1 r2 where r: "arc_record_access (bp_replacer s1) f p = Inr r1" "arc_set_evictable r1 f False = Inr r2"
    "arc_inv r2" "arc_view r2 = (arc_view (bp_replacer s1))(f \<mapsto> (p, False))"
    "replacer_size r2 = replacer_size (bp_replacer s1)"
    using arcr.pin_new [OF d(5,1) vf vp cap] by blast
  define fh where "fh = (in_frame s1 f)\<lparr>fh_data := x, fh_pin_count := 1\<rparr>"
  define s' where "s' = set_frame f fh (s1\<lparr>bp_disk := d', bp_page_table := (bp_page_table s1)(p \<mapsto> f),
    bp_frame_to_page := (bp_frame_to_page s1)(f \<mapsto> p), bp_replacer := r2\<rparr>)"
  have e: "load_page dk s1 f p = Inr s'"
    using frame_at_ok [OF d(8,1)] d(2,3) rd(1) r(1,2)
    by (simp add: load_page_def schedule_read_def s'_def fh_def set_frame_def)
  have sel: "bp_num_frames s' = bp_num_frames s" "bp_next_page_id s' = bp_next_page_id s"
    "bp_frame_to_page s' = (bp_frame_to_page s)(f \<mapsto> p)" "bp_page_table s' = (bp_page_table s1)(p \<mapsto> f)"
    "bp_free_frames s' = remove1 f (bp_free_frames s)" "bp_replacer s' = r2" "bp_disk s' = d'"
    using d by (simp_all add: s'_def)
  have view: "arc_view r2 = (arc_view (bp_replacer s))(f \<mapsto> (p, False))" using r(4) d(6) by auto
  have iff: "0 \<le> g \<Longrightarrow> in_frame s' g = (if g = f then fh else in_frame s g)" for g
    unfolding s'_def using d(2,3,8,11) by (simp add: in_frame_set [OF _ d(1)])
  have fr': "frames_ok s'"
    unfolding s'_def using d(8,1,2,3) frame_id_eq [OF d(8,1)] by (intro frames_ok_set) (auto simp: fh_def)
  have range: "bp_page_table s q = Some g \<Longrightarrow> 0 \<le> g" for q g
    using frame_range [OF b] by (simp add: table_iff [OF b])
  have free: "f \<in> set (bp_free_frames s) \<Longrightarrow> bp_frame_to_page s f = None"
    using t by (auto simp: tables_ok_def)
  have pt': "bp_page_table s' q = Some g \<longleftrightarrow> (if q = p then g = f else
      bp_page_table s q = Some g \<and> g \<noteq> f)" for q g
    using d(15) [of q] table_iff [OF b, of q f] table_iff [OF b, of q g] by (auto simp: sel)
  have "tables_ok s'"
    unfolding tables_ok_def
  proof (intro conjI allI)
    fix q g show "(bp_page_table s' q = Some g) = (bp_frame_to_page s' g = Some q)"
      unfolding pt' using table_iff [OF b] fpp by (auto simp: sel)
  next
    show "distinct (bp_free_frames s')" using t by (simp add: sel tables_ok_def)
    have "set (bp_free_frames s') = set (bp_free_frames s) - {f}" using t by (simp add: sel tables_ok_def)
    then show "set (bp_free_frames s') \<inter> dom (bp_frame_to_page s') = {}"
      "set (bp_free_frames s') \<union> dom (bp_frame_to_page s') = {0..<int (bp_num_frames s')}"
      using t d(1,2) by (auto simp: tables_ok_def sel)
  qed
  moreover have "tracked_ok s'"
    unfolding tracked_ok_def sel
    using r(3,5) d(7) tracked_upd [OF _ view refl] bpm_okD(3) [OF b] by (simp add: tracked_ok_def)
  moreover have "evict_ok s'"
    unfolding evict_ok_def sel
  proof (intro allI impI)
    fix g q assume "arc_view r2 g = Some (q, True)"
    then have g: "g \<noteq> f" "arc_view (bp_replacer s) g = Some (q, True)" using view by (auto split: if_splits)
    then show "fh_pin_count (in_frame s' g) = 0"
      using iff [of g] frame_range [OF b view_frame [OF b g(2)]] bpm_okD(4) [OF b] by (auto simp: evict_ok_def)
  qed
  moreover have "clean_ok s'"
    unfolding clean_ok_def
  proof (intro conjI ballI allI impI)
    show "ok (bp_disk s')" using rd(2) by (simp add: sel)
    show "valid q" if "q \<in> dom (bp_page_table s')" for q
    proof -
      from that obtain g where "bp_page_table s' q = Some g" by blast
      with p(2) c pt' [of q g] show ?thesis by (auto simp: clean_ok_def split: if_splits)
    qed
    fix q g assume q: "bp_page_table s' q = Some g" "\<not> fh_is_dirty (in_frame s' g)"
    show "contents (bp_disk s') q = Some (fh_data (in_frame s' g))"
    proof (cases "q = p")
      case True
      with q(1) pt' have "g = f" by simp
      with True rd(3) iff [OF d(1)] show ?thesis by (simp add: sel fh_def)
    next
      case False
      with q(1) pt' have g: "bp_page_table s q = Some g" "g \<noteq> f" by auto
      have same: "in_frame s' g = in_frame s g" using iff [OF range [OF g(1)]] g(2) by simp
      have cq: "contents (bp_disk s) q = Some (fh_data (in_frame s g))"
        using c g(1) q(2) same by (auto simp: clean_ok_def)
      have "bp_frame_to_page s f \<noteq> Some q" using table_iff [OF b, of q f] g by auto
      with d(17) g(1) cq have "contents (bp_disk s1) q = Some (fh_data (in_frame s g))" by simp
      with rd(4) same show ?thesis by (simp add: sel)
    qed
  qed
  moreover have "pages s' q = pages s q" if "pages s q \<noteq> None" for q
  proof (cases "bp_page_table s' q")
    case None
    then have "bp_page_table s1 q = None" by (auto simp: sel split: if_splits)
    with d(16) rd(4) [of q] that None show ?thesis by (simp add: pool_pages_def [of contents s'] sel)
  next
    case (Some g)
    show ?thesis
    proof (cases "q = p")
      case True
      then have "bp_page_table s1 p = None" using d(15) p(1) by simp
      with d(16) [of p] rd(3) rd(4) [of p] that True Some pt' [of p g] iff [OF d(1)] show ?thesis
        by (auto simp: pool_pages_def [of contents s'] fh_def)
    next
      case False
      with Some pt' have g: "bp_page_table s q = Some g" "g \<noteq> f" by auto
      with iff [OF range [OF g(1)]] Some show ?thesis by (simp add: pool_pages_def)
    qed
  qed
  moreover have "pages s' p \<noteq> None" by (simp add: pool_pages_def sel)
  ultimately show ?thesis
    using e fr' d(1,2,12,14) view iff fpp [of f]
    by (simp add: pinned_def pool_ok_def bpm_ok_def sel fh_def)
qed

lemma pin_page_ok:
  assumes ok: "pool_ok s" and p: "valid p" and e: "pin_page dk s p = r"
  shows "(r = Inr (None, s) \<and> bp_page_table s p = None \<and> bp_free_frames s = [] \<and>
      (\<forall>f q. arc_view (bp_replacer s) f \<noteq> Some (q, True))) \<or>
    (\<exists>f s'. r = Inr (Some f, s') \<and> pinned s f p s')"
proof (cases "bp_page_table s p")
  case (Some f)
  with pin_resident_ok [OF ok Some] e show ?thesis by (auto simp: pin_page_def)
next
  case None
  from take_frame_ok [OF ok refl] show ?thesis
  proof (elim disjE exE conjE)
    assume "take_frame dk s = Inr (None, s)" "bp_free_frames s = []"
      "\<forall>f p. arc_view (bp_replacer s) f \<noteq> Some (p, True)"
    then show ?thesis using None e by (simp add: pin_page_def)
  next
    fix f s1 assume t: "take_frame dk s = Inr (Some f, s1)" and d: "detached s f s1"
    from load_page_ok [OF ok d None p] obtain s' where "load_page dk s1 f p = Inr s'" "pinned s f p s'" by blast
    with t None e show ?thesis by (auto simp: pin_page_def)
  qed
qed


subsection \<open>Changing one frame\<close>

lemma set_frame_ok:
  assumes ok: "pool_ok s" and f: "0 \<le> f" "f < int (bp_num_frames s)" "fh_frame_id fr = f"
    and ev: "\<And>p. arc_view (bp_replacer s) f = Some (p, True) \<Longrightarrow> fh_pin_count fr = 0"
    and cl: "\<And>p. bp_frame_to_page s f = Some p \<Longrightarrow> \<not> fh_is_dirty fr \<Longrightarrow>
      contents (bp_disk s) p = Some (fh_data fr)"
  shows "pool_ok (set_frame f fr s) \<and>
    pages (set_frame f fr s) =
      (case bp_frame_to_page s f of None \<Rightarrow> pages s | Some p \<Rightarrow> (pages s)(p \<mapsto> fh_data fr))"
proof -
  note b = pool_okD(1) [OF ok] and c = pool_okD(2) [OF ok]
  have fr: "frames_ok s" by (rule bpm_okD(2) [OF b])
  have iff: "0 \<le> g \<Longrightarrow> in_frame (set_frame f fr s) g = (if g = f then fr else in_frame s g)" for g
    by (rule in_frame_set [OF fr f(1,2)])
  have ptr: "bp_page_table s q = Some g \<Longrightarrow> 0 \<le> g \<and> (g = f \<longleftrightarrow> bp_frame_to_page s f = Some q)" for q g
    using frame_range [OF b, of g q] table_iff [OF b, of q g] table_iff [OF b, of q f] by auto
  have vr: "arc_view (bp_replacer s) g = Some (q, bb) \<Longrightarrow> 0 \<le> g" for g q bb
    using frame_range [OF b view_frame [OF b]] by blast
  have "tables_ok (set_frame f fr s)" "tracked_ok (set_frame f fr s)"
    using bpm_okD(1,3) [OF b] by (simp_all add: tables_ok_def tracked_ok_def)
  moreover have "frames_ok (set_frame f fr s)" by (rule frames_ok_set [OF fr f])
  moreover have "evict_ok (set_frame f fr s)"
    using bpm_okD(4) [OF b] ev vr iff by (auto simp: evict_ok_def)
  moreover have "clean_ok (set_frame f fr s)"
    using c cl ptr iff by (auto simp: clean_ok_def)
  moreover have "pages (set_frame f fr s) q =
      (case bp_frame_to_page s f of None \<Rightarrow> pages s | Some p \<Rightarrow> (pages s)(p \<mapsto> fh_data fr)) q" for q
    using ptr [of q] iff table_iff [OF b, of q f]
    by (auto simp: pool_pages_def split: option.splits)
  ultimately show ?thesis by (auto simp: pool_ok_def bpm_ok_def)
qed

text \<open>A change of the latch or of the pin count only.\<close>

lemma set_frame_same_data:
  assumes ok: "pool_ok s" and f: "0 \<le> f" "f < int (bp_num_frames s)"
    and fr: "fh_frame_id fr = f" "fh_data fr = fh_data (in_frame s f)"
      "fh_is_dirty (in_frame s f) \<Longrightarrow> fh_is_dirty fr"
      "fh_pin_count (in_frame s f) = 0 \<Longrightarrow> fh_pin_count fr = 0"
  shows "pool_ok (set_frame f fr s) \<and> pages (set_frame f fr s) = pages s"
proof -
  note b = pool_okD(1) [OF ok]
  have ev: "fh_pin_count fr = 0" if "arc_view (bp_replacer s) f = Some (p, True)" for p
    using bpm_okD(4) [OF b] that fr(4) by (auto simp: evict_ok_def)
  have cl: "contents (bp_disk s) p = Some (fh_data fr)" if "bp_frame_to_page s f = Some p" "\<not> fh_is_dirty fr" for p
    using residentD(6) [OF ok that(1)] that(2) fr by auto
  have "pages s p = Some (fh_data (in_frame s f))" if "bp_frame_to_page s f = Some p" for p
    by (rule pages_resident [OF residentD(1) [OF ok that]])
  then show ?thesis
    using set_frame_ok [OF ok f fr(1) ev cl] fr(2) by (auto split: option.splits)
qed

text \<open>A flush leaves the pages alone and the frame clean.\<close>

lemma write_back_pool:
  assumes ok: "pool_ok s" and fp: "bp_frame_to_page s f = Some p"
  shows "\<exists>d'. write_back dk s f p =
      Inr ((set_frame f ((in_frame s f)\<lparr>fh_is_dirty := False\<rparr>) s)\<lparr>bp_disk := d'\<rparr>) \<and>
    pool_ok ((set_frame f ((in_frame s f)\<lparr>fh_is_dirty := False\<rparr>) s)\<lparr>bp_disk := d'\<rparr>) \<and>
    pages ((set_frame f ((in_frame s f)\<lparr>fh_is_dirty := False\<rparr>) s)\<lparr>bp_disk := d'\<rparr>) = pages s \<and>
    contents d' p = pages s p"
proof -
  note b = pool_okD(1) [OF ok] and c = pool_okD(2) [OF ok] and res = residentD [OF ok fp]
  have fr: "frames_ok s" by (rule bpm_okD(2) [OF b])
  obtain d' where d': "write_back dk s f p =
      Inr ((set_frame f ((in_frame s f)\<lparr>fh_is_dirty := False\<rparr>) s)\<lparr>bp_disk := d'\<rparr>)" "ok d'"
      "contents d' p = Some (fh_data (in_frame s f))" "\<And>q. q \<noteq> p \<Longrightarrow> contents d' q = contents (bp_disk s) q"
    using write_back_ok [OF fr res(2,3,5,4,6)] by blast
  let ?s = "s\<lparr>bp_disk := d'\<rparr>" and ?fr = "(in_frame s f)\<lparr>fh_is_dirty := False\<rparr>"
  have ok1: "pool_ok ?s"
  proof -
    have "bpm_ok ?s" using b by (simp add: bpm_ok_defs in_frame_def)
    moreover have "contents d' q = Some (fh_data (in_frame s g))"
      if "bp_page_table s q = Some g" "\<not> fh_is_dirty (in_frame s g)" for q g
      using d'(3,4) c that res(1) by (cases "q = p") (auto simp: clean_ok_def)
    ultimately show ?thesis using c d'(2) by (auto simp: pool_ok_def clean_ok_def)
  qed
  have pg: "pages ?s q = pages s q" for q
    using d'(4) res(1) by (cases "q = p") (auto simp: pool_pages_def split: option.splits)
  have p': "pages s p = Some (fh_data (in_frame s f))" by (rule pages_resident [OF res(1)])
  have ev: "fh_pin_count ?fr = 0" if "arc_view (bp_replacer ?s) f = Some (q, True)" for q
    using bpm_okD(4) [OF b] that by (auto simp: evict_ok_def)
  have cl: "contents (bp_disk ?s) q = Some (fh_data ?fr)" if "bp_frame_to_page ?s f = Some q" for q
    using that fp d'(3) by simp
  have "pool_ok (set_frame f ?fr ?s)" "pages (set_frame f ?fr ?s) = (pages ?s)(p \<mapsto> fh_data ?fr)"
    using set_frame_ok [OF ok1, of f ?fr] res frame_id_eq [OF fr res(2,3)] ev cl fp by auto
  moreover have "set_frame f ?fr ?s = (set_frame f ?fr s)\<lparr>bp_disk := d'\<rparr>" by (simp add: set_frame_def)
  moreover have "(pages ?s)(p \<mapsto> fh_data ?fr) = pages s" using pg p' by (auto simp: fun_eq_iff)
  ultimately show ?thesis using d'(1,3) p' by auto
qed


subsection \<open>Releasing and deleting\<close>

lemma replacer_changed:
  assumes ok: "pool_ok s" and r: "arc_inv r" "replacer_size r = bp_num_frames s"
    and v: "\<And>g. map_option fst (arc_view r g) = map_option fst (arc_view (bp_replacer s) g)"
    and ev: "\<And>g q. arc_view r g = Some (q, True) \<Longrightarrow> fh_pin_count (in_frame s g) = 0"
  shows "pool_ok (s\<lparr>bp_replacer := r\<rparr>) \<and> pages (s\<lparr>bp_replacer := r\<rparr>) = pages s"
proof -
  note b = pool_okD(1) [OF ok] and c = pool_okD(2) [OF ok]
  have "bpm_ok (s\<lparr>bp_replacer := r\<rparr>)"
    using b r v ev by (simp add: bpm_ok_defs in_frame_def)
  moreover have "clean_ok (s\<lparr>bp_replacer := r\<rparr>)" using c by (simp add: clean_ok_def)
  moreover have "pages (s\<lparr>bp_replacer := r\<rparr>) = pages s"
    by (auto simp: pool_pages_def fun_eq_iff split: option.splits)
  ultimately show ?thesis by (simp add: pool_ok_def)
qed

lemma drop_release_ok:
  assumes ok: "pool_ok s" and f: "0 \<le> f" "f < int (bp_num_frames s)"
  shows "\<exists>r. drop_release s f = Inr (s\<lparr>bp_replacer := r\<rparr>) \<and> pool_ok (s\<lparr>bp_replacer := r\<rparr>) \<and>
    pages (s\<lparr>bp_replacer := r\<rparr>) = pages s \<and>
    arc_view r = (if fh_pin_count (in_frame s f) = 0 then view_set (arc_view (bp_replacer s)) f True
                  else arc_view (bp_replacer s))"
proof -
  note b = pool_okD(1) [OF ok]
  have at: "frame_at s f = Inr (in_frame s f)" "fh_frame_id (in_frame s f) = f"
    using frame_at_ok [OF bpm_okD(2) [OF b] f] frame_id_eq [OF bpm_okD(2) [OF b] f] by auto
  show ?thesis
  proof (cases "fh_pin_count (in_frame s f) = 0")
    case False
    then have "drop_release s f = Inr (s\<lparr>bp_replacer := bp_replacer s\<rparr>)" using at by (simp add: drop_release_def)
    then show ?thesis using ok False by (intro exI [of _ "bp_replacer s"]) simp
  next
    case True
    have inv: "arc_inv (bp_replacer s)" "replacer_size (bp_replacer s) = bp_num_frames s"
      using bpm_okD(3) [OF b] by (auto simp: tracked_ok_def)
    obtain r where r: "arc_set_evictable (bp_replacer s) f True = Inr r" "arc_inv r"
      "arc_view r = view_set (arc_view (bp_replacer s)) f True" "replacer_size r = bp_num_frames s"
      using arcr.set_evictable_ok [OF inv(1) f(1), of True] inv(2) by auto
    have "map_option fst (arc_view r g) = map_option fst (arc_view (bp_replacer s) g)" for g
      unfolding r(3) by (auto simp: view_set_def split: option.splits)
    moreover have "fh_pin_count (in_frame s g) = 0" if "arc_view r g = Some (q, True)" for g q
      using that True bpm_okD(4) [OF b]
      by (auto simp: r(3) view_set_def evict_ok_def split: option.splits if_splits)
    ultimately show ?thesis
      using replacer_changed [OF ok r(2,4)] True at r(1,3) by (auto simp: drop_release_def)
  qed
qed

lemma DeletePage_absent:
  assumes ok: "pool_ok s" and p: "valid p" "bp_page_table s p = None"
  shows "\<exists>d'. DeletePage dk s p = Inr (True, s\<lparr>bp_disk := d'\<rparr>) \<and> pool_ok (s\<lparr>bp_disk := d'\<rparr>) \<and>
    (\<forall>q. q \<noteq> p \<longrightarrow> pages (s\<lparr>bp_disk := d'\<rparr>) q = pages s q)"
proof -
  note b = pool_okD(1) [OF ok] and c = pool_okD(2) [OF ok]
  obtain d' where d': "op_delete dk (bp_disk s) p = Inr d'" "ok d'"
    "\<And>q. q \<noteq> p \<Longrightarrow> contents d' q = contents (bp_disk s) q"
    using delete_ok [of "bp_disk s" p] c p(1) by (auto simp: clean_ok_def)
  have "bpm_ok (s\<lparr>bp_disk := d'\<rparr>)" using b by (simp add: bpm_ok_defs in_frame_def)
  moreover have "contents d' q = contents (bp_disk s) q" if "bp_page_table s q = Some g" for q g
    using that p(2) d'(3) [of q] by (cases "q = p") auto
  then have "clean_ok (s\<lparr>bp_disk := d'\<rparr>)" using c d'(2) by (simp add: clean_ok_def)
  ultimately show ?thesis
    using p(2) d'(1,3) by (auto simp: DeletePage_def DeallocatePage_def pool_ok_def pool_pages_def split: option.splits)
qed

lemma DeletePage_present:
  assumes ok: "pool_ok s" and p: "bp_page_table s p = Some f" and pin: "fh_pin_count (in_frame s f) = 0"
    and v: "arc_view (bp_replacer s) f = Some (p, True)"
  shows "\<exists>s'. DeletePage dk s p = Inr (True, s') \<and> pool_ok s' \<and> (\<forall>q. q \<noteq> p \<longrightarrow> pages s' q = pages s q) \<and>
    bp_num_frames s' = bp_num_frames s \<and> bp_next_page_id s' = bp_next_page_id s \<and>
    bp_frame_to_page s' = (bp_frame_to_page s)(f := None) \<and>
    arc_view (bp_replacer s') = (arc_view (bp_replacer s))(f := None) \<and>
    fh_pin_count (in_frame s' f) = 0 \<and> fh_rwlatch (in_frame s' f) = fh_rwlatch (in_frame s f) \<and>
    (\<forall>g \<ge> 0. g \<noteq> f \<longrightarrow> in_frame s' g = in_frame s g)"
proof -
  note b = pool_okD(1) [OF ok] and c = pool_okD(2) [OF ok]
  have fp: "bp_frame_to_page s f = Some p" using p table_iff [OF b] by simp
  note res = residentD [OF ok fp]
  have fr: "frames_ok s" and t: "tables_ok s" by (rule bpm_okD [OF b])+
  have inv: "arc_inv (bp_replacer s)" "replacer_size (bp_replacer s) = bp_num_frames s"
    using bpm_okD(3) [OF b] by (auto simp: tracked_ok_def)
  obtain r where r: "arc_remove (bp_replacer s) f = Inr r" "arc_inv r"
    "arc_view r = (arc_view (bp_replacer s))(f := None)" "replacer_size r = bp_num_frames s"
    using arcr.remove_ok [OF inv(1) v] inv(2) by auto
  obtain d' where d': "op_delete dk (bp_disk s) p = Inr d'" "ok d'"
    "\<And>q. q \<noteq> p \<Longrightarrow> contents d' q = contents (bp_disk s) q"
    using delete_ok [OF res(5,4)] by blast
  define fh where "fh = frame_reset (in_frame s f)"
  define s' where "s' = set_frame f fh (s\<lparr>bp_replacer := r, bp_page_table := (bp_page_table s)(p := None),
    bp_frame_to_page := (bp_frame_to_page s)(f := None), bp_free_frames := bp_free_frames s @ [f],
    bp_disk := d'\<rparr>)"
  have e: "DeletePage dk s p = Inr (True, s')"
    using p frame_at_ok [OF fr res(2,3)] pin r(1) d'(1)
    by (simp add: DeletePage_def DeallocatePage_def s'_def fh_def set_frame_def)
  have sel: "bp_num_frames s' = bp_num_frames s" "bp_next_page_id s' = bp_next_page_id s"
    "bp_frame_to_page s' = (bp_frame_to_page s)(f := None)" "bp_page_table s' = (bp_page_table s)(p := None)"
    "bp_free_frames s' = bp_free_frames s @ [f]" "bp_replacer s' = r" "bp_disk s' = d'"
    by (simp_all add: s'_def)
  have iff: "0 \<le> g \<Longrightarrow> in_frame s' g = (if g = f then fh else in_frame s g)" for g
    unfolding s'_def using fr res(3) by (simp add: in_frame_set [OF _ res(2)])
  have ptr: "bp_page_table s q = Some g \<Longrightarrow> 0 \<le> g \<and> (g = f \<longleftrightarrow> q = p)" for q g
    using frame_range [OF b, of g q] table_iff [OF b, of q g] p fp by auto
  have vr: "arc_view (bp_replacer s) g = Some (q, bb) \<Longrightarrow> 0 \<le> g" for g q bb
    using frame_range [OF b view_frame [OF b]] by blast
  have "frames_ok s'"
    unfolding s'_def using fr res frame_id_eq [OF fr res(2,3)]
    by (intro frames_ok_set) (auto simp: fh_def frame_reset_def)
  moreover have "tables_ok s'"
    unfolding tables_ok_def
  proof (intro conjI allI)
    fix q g show "(bp_page_table s' q = Some g) = (bp_frame_to_page s' g = Some q)"
      unfolding sel using ptr [of q g] table_iff [OF b, of q g] fp by auto
  next
    have "f \<in> dom (bp_frame_to_page s)" using fp by auto
    then show "distinct (bp_free_frames s')" "set (bp_free_frames s') \<inter> dom (bp_frame_to_page s') = {}"
      "set (bp_free_frames s') \<union> dom (bp_frame_to_page s') = {0..<int (bp_num_frames s')}"
      unfolding sel using t by (auto simp: tables_ok_def)
  qed
  moreover have "tracked_ok s'"
    using bpm_okD(3) [OF b] r(2-4) by (simp add: tracked_ok_def sel)
  moreover have "evict_ok s'"
    using bpm_okD(4) [OF b] vr iff by (auto simp: evict_ok_def sel r(3) split: if_splits)
  moreover have "clean_ok s'"
    unfolding clean_ok_def sel
  proof (intro conjI ballI allI impI)
    show "valid q" if "q \<in> dom ((bp_page_table s)(p := None))" for q
      using that c by (auto simp: clean_ok_def split: if_splits)
    fix q g assume "((bp_page_table s)(p := None)) q = Some g" "\<not> fh_is_dirty (in_frame s' g)"
    then show "contents d' q = Some (fh_data (in_frame s' g))"
      using ptr [of q g] iff [of g] c d'(3) [of q] by (auto simp: clean_ok_def split: if_splits)
  qed (rule d'(2))
  moreover have "pages s' q = pages s q" if "q \<noteq> p" for q
    using that ptr [of q] iff d'(3) by (auto simp: pool_pages_def sel split: option.splits)
  ultimately show ?thesis
    using e iff res(2) r(3) by (intro exI [of _ s']) (simp add: pool_ok_def bpm_ok_def sel fh_def frame_reset_def)
qed

end

end
