(* ===== verification/BufferPool_Runs.thy ===== *)
theory BufferPool_Runs
  imports BufferPool_Proofs
begin

section \<open>Concurrent clients of the buffer pool\<close>

text \<open>
  The runs of any number of threads that hold page guards. A step is one section of code that
  no other thread can interrupt: the part of \<open>CheckedReadPage\<close> or \<open>CheckedWritePage\<close> under
  \<open>bpm_latch_\<close>, the guard's constructor, an access through the guard, and the three parts of
  \<open>Drop\<close>. The invariant ties pin counts, latches and evictability to the live guards.
\<close>

subsection \<open>Steps\<close>

text \<open>\<open>Pinned\<close>: waits for the frame's latch. \<open>Held\<close>: the guard is usable. \<open>Unlatched\<close>: the latch
  is released. \<open>Unpinned\<close>: the pin count is decremented, and \<open>bpm_latch_\<close> not yet taken.\<close>

datatype phase = Pinned | Held | Unlatched | Unpinned

record guard_state =
  gs_page :: page_id
  gs_frame :: frame_id
  gs_write :: bool
  gs_phase :: phase

record 'd pool =
  pl_bpm :: "'d bpm"
  pl_guards :: "nat \<rightharpoonup> guard_state"

datatype pool_op =
    Pin nat page_id bool
  | Latch nat
  | Store nat page_data
  | Flush nat
  | Unlatch nat
  | Unpin nat
  | Release nat
  | Allocate
  | Delete page_id
  | FlushOne page_id

definition the_guard :: "guard_state \<Rightarrow> page_guard" where
  "the_guard gs = \<lparr>pg_page_id = gs_page gs, pg_frame = gs_frame gs, pg_is_valid = True\<rparr>"

definition at_phase :: "'d pool \<Rightarrow> nat \<Rightarrow> (guard_state \<Rightarrow> 'd bpm result) \<Rightarrow> phase option \<Rightarrow> 'd pool result" where
  "at_phase s g act ph =
     (case pl_guards s g of
        None \<Rightarrow> Inl Undefined
      | Some gs \<Rightarrow> rbind (act gs) (\<lambda>b. Inr (s\<lparr>pl_bpm := b,
          pl_guards := (pl_guards s)(g := map_option (\<lambda>p. gs\<lparr>gs_phase := p\<rparr>) ph)\<rparr>)))"

fun pool_step :: "'d disk_ops \<Rightarrow> 'd pool \<Rightarrow> pool_op \<Rightarrow> 'd pool result" where
  "pool_step dk s (Pin g p w) =
     rbind (pin_page dk (pl_bpm s) p) (\<lambda>(fid_opt, b). case fid_opt of
       None \<Rightarrow> Inr (s\<lparr>pl_bpm := b\<rparr>)
     | Some f \<Rightarrow> Inr (s\<lparr>pl_bpm := b, pl_guards := (pl_guards s)(g \<mapsto>
         \<lparr>gs_page = p, gs_frame = f, gs_write = w, gs_phase = Pinned\<rparr>)\<rparr>))"
| "pool_step dk s (Latch g) =
     at_phase s g (\<lambda>gs. rbind ((if gs_write gs then WritePageGuard else ReadPageGuard)
       (pl_bpm s) (gs_page gs) (gs_frame gs) False) (\<lambda>(_, b). Inr b)) (Some Held)"
| "pool_step dk s (Store g x) =
     at_phase s g (\<lambda>gs. GetDataMut_write (pl_bpm s) (the_guard gs) x) (Some Held)"
| "pool_step dk s (Flush g) = at_phase s g (\<lambda>gs. guard_Flush dk (pl_bpm s) (the_guard gs)) (Some Held)"
| "pool_step dk s (Unlatch g) =
     at_phase s g (\<lambda>gs. drop_unlatch (if gs_write gs then unlock_exclusive else unlock_shared)
       (pl_bpm s) (gs_frame gs)) (Some Unlatched)"
| "pool_step dk s (Unpin g) = at_phase s g (\<lambda>gs. drop_unpin (pl_bpm s) (gs_frame gs)) (Some Unpinned)"
| "pool_step dk s (Release g) = at_phase s g (\<lambda>gs. drop_release (pl_bpm s) (gs_frame gs)) None"
| "pool_step dk s Allocate = Inr (s\<lparr>pl_bpm := snd (NewPage (pl_bpm s))\<rparr>)"
| "pool_step dk s (Delete p) = rbind (DeletePage dk (pl_bpm s) p) (\<lambda>(_, b). Inr (s\<lparr>pl_bpm := b\<rparr>))"
| "pool_step dk s (FlushOne p) = rbind (FlushPage dk (pl_bpm s) p) (\<lambda>(_, b). Inr (s\<lparr>pl_bpm := b\<rparr>))"

text \<open>A thread takes its steps in order, waits for latches, and writes only through a write
  guard whose frame is still marked dirty (it does not write after its own \<open>Flush\<close>).\<close>

definition in_phase :: "'d pool \<Rightarrow> nat \<Rightarrow> phase \<Rightarrow> (guard_state \<Rightarrow> bool) \<Rightarrow> bool" where
  "in_phase s g ph P \<longleftrightarrow> (case pl_guards s g of None \<Rightarrow> False | Some gs \<Rightarrow> gs_phase gs = ph \<and> P gs)"

definition latch_of :: "'d pool \<Rightarrow> frame_id \<Rightarrow> rwlatch" where
  "latch_of s f = fh_rwlatch (in_frame (pl_bpm s) f)"

fun pool_enabled :: "(page_id \<Rightarrow> bool) \<Rightarrow> 'd pool \<Rightarrow> pool_op \<Rightarrow> bool" where
  "pool_enabled valid s (Pin g p w) = (pl_guards s g = None \<and> valid p)"
| "pool_enabled valid s (Latch g) = in_phase s g Pinned (\<lambda>gs.
     if gs_write gs then latch_of s (gs_frame gs) = Unlocked else latch_of s (gs_frame gs) \<noteq> Exclusive)"
| "pool_enabled valid s (Store g x) = in_phase s g Held (\<lambda>gs.
     gs_write gs \<and> fh_is_dirty (in_frame (pl_bpm s) (gs_frame gs)))"
| "pool_enabled valid s (Flush g) = in_phase s g Held (\<lambda>_. True)"
| "pool_enabled valid s (Unlatch g) = in_phase s g Held (\<lambda>_. True)"
| "pool_enabled valid s (Unpin g) = in_phase s g Unlatched (\<lambda>_. True)"
| "pool_enabled valid s (Release g) = in_phase s g Unpinned (\<lambda>_. True)"
| "pool_enabled valid s Allocate = True"
| "pool_enabled valid s (Delete p) = valid p"
| "pool_enabled valid s (FlushOne p) =
     (case bp_page_table (pl_bpm s) p of None \<Rightarrow> True | Some f \<Rightarrow> latch_of s f = Unlocked)"

inductive pool_reachable :: "'d disk_ops \<Rightarrow> (page_id \<Rightarrow> bool) \<Rightarrow> nat \<Rightarrow> 'd \<Rightarrow> 'd pool \<Rightarrow> bool"
  for dk valid n d where
  init: "pool_reachable dk valid n d \<lparr>pl_bpm = BufferPoolManager n d, pl_guards = Map.empty\<rparr>"
| step: "pool_reachable dk valid n d s \<Longrightarrow> pool_enabled valid s op \<Longrightarrow> pool_step dk s op = Inr s' \<Longrightarrow>
    pool_reachable dk valid n d s'"

subsection \<open>The invariant\<close>

definition pins :: "frame_id \<Rightarrow> guard_state \<Rightarrow> bool" where
  "pins f gs \<longleftrightarrow> gs_frame gs = f \<and> gs_phase gs \<noteq> Unpinned"

definition holds :: "frame_id \<Rightarrow> bool \<Rightarrow> guard_state \<Rightarrow> bool" where
  "holds f w gs \<longleftrightarrow> gs_frame gs = f \<and> gs_phase gs = Held \<and> gs_write gs = w"

fun latch_ok :: "rwlatch \<Rightarrow> nat \<Rightarrow> nat \<Rightarrow> bool" where
  "latch_ok Unlocked r w = (r = 0 \<and> w = 0)"
| "latch_ok (Shared n) r w = (0 < n \<and> r = n \<and> w = 0)"
| "latch_ok Exclusive r w = (r = 0 \<and> w = 1)"

definition frame_guards_ok :: "frame_header \<Rightarrow> (nat \<rightharpoonup> guard_state) \<Rightarrow> frame_id \<Rightarrow> bool" where
  "frame_guards_ok fr m f \<longleftrightarrow> fh_pin_count fr = cnt (pins f) m \<and>
     latch_ok (fh_rwlatch fr) (cnt (holds f False) m) (cnt (holds f True) m)"

definition guards_ok :: "'d bpm \<Rightarrow> (nat \<rightharpoonup> guard_state) \<Rightarrow> bool" where
  "guards_ok b m \<longleftrightarrow> finite (dom m) \<and>
     (\<forall>g gs. m g = Some gs \<longrightarrow> 0 \<le> gs_frame gs \<and> gs_frame gs < int (bp_num_frames b) \<and>
        (gs_phase gs \<noteq> Unpinned \<longrightarrow> bp_frame_to_page b (gs_frame gs) = Some (gs_page gs))) \<and>
     (\<forall>f. 0 \<le> f \<and> f < int (bp_num_frames b) \<longrightarrow> frame_guards_ok (in_frame b f) m f) \<and>
     (\<forall>f p. arc_view (bp_replacer b) f = Some (p, False) \<longrightarrow> fh_pin_count (in_frame b f) = 0 \<longrightarrow>
        (\<exists>g gs. m g = Some gs \<and> gs_frame gs = f \<and> gs_phase gs = Unpinned))"

lemma guards_okD:
  assumes "guards_ok b m"
  shows "finite (dom m)"
    "m g = Some gs \<Longrightarrow> 0 \<le> gs_frame gs" "m g = Some gs \<Longrightarrow> gs_frame gs < int (bp_num_frames b)"
    "m g = Some gs \<Longrightarrow> gs_phase gs \<noteq> Unpinned \<Longrightarrow> bp_frame_to_page b (gs_frame gs) = Some (gs_page gs)"
    "0 \<le> f \<Longrightarrow> f < int (bp_num_frames b) \<Longrightarrow> frame_guards_ok (in_frame b f) m f"
    "arc_view (bp_replacer b) f = Some (p, False) \<Longrightarrow> fh_pin_count (in_frame b f) = 0 \<Longrightarrow>
        \<exists>g gs. m g = Some gs \<and> gs_frame gs = f \<and> gs_phase gs = Unpinned"
  using assms by (auto simp: guards_ok_def)

text \<open>A guard of one frame does not count for another.\<close>

lemma frame_guards_other:
  assumes "finite (dom m)" "m g = Some gs" "gs_frame gs \<noteq> f" "gs_frame gs' \<noteq> f"
  shows "frame_guards_ok fr (m(g \<mapsto> gs')) f = frame_guards_ok fr m f"
proof -
  have "cnt P (m(g \<mapsto> gs')) = cnt P m" if "\<not> P gs" "\<not> P gs'" for P
    using cnt_upd [OF assms(1,2), of P gs'] that by simp
  then show ?thesis using assms(3,4) by (simp add: frame_guards_ok_def pins_def holds_def)
qed

text \<open>One guard changes its phase, and its frame with it.\<close>

lemma guard_step:
  assumes ok: "guards_ok b m" and g: "m g = Some gs"
    and gs': "gs_frame gs' = gs_frame gs" "gs_page gs' = gs_page gs"
      "gs_phase gs = Unpinned \<Longrightarrow> gs_phase gs' = Unpinned"
    and b': "bp_num_frames b' = bp_num_frames b" "bp_frame_to_page b' = bp_frame_to_page b"
      "arc_view (bp_replacer b') = arc_view (bp_replacer b)"
      "\<And>f. 0 \<le> f \<Longrightarrow> f \<noteq> gs_frame gs \<Longrightarrow> in_frame b' f = in_frame b f"
    and fr: "frame_guards_ok (in_frame b' (gs_frame gs)) (m(g \<mapsto> gs')) (gs_frame gs)"
      "fh_pin_count (in_frame b (gs_frame gs)) = 0 \<or> fh_pin_count (in_frame b' (gs_frame gs)) \<noteq> 0 \<or>
       gs_phase gs' = Unpinned"
    and nonneg: "\<And>f p c. arc_view (bp_replacer b) f = Some (p, c) \<Longrightarrow> 0 \<le> f"
  shows "guards_ok b' (m(g \<mapsto> gs'))"
proof -
  note fin = guards_okD(1) [OF ok]
  have "frame_guards_ok (in_frame b' f) (m(g \<mapsto> gs')) f" if f: "0 \<le> f" "f < int (bp_num_frames b)" for f
    using fr(1) b'(4) [OF f(1)] frame_guards_other [OF fin g, of f gs'] gs'(1) guards_okD(5) [OF ok f]
    by (cases "f = gs_frame gs") auto
  moreover have "\<exists>h hs. (m(g \<mapsto> gs')) h = Some hs \<and> gs_frame hs = f \<and> gs_phase hs = Unpinned"
    if v: "arc_view (bp_replacer b) f = Some (p, False)" "fh_pin_count (in_frame b' f) = 0" for f p
  proof (cases "f = gs_frame gs")
    case True
    show ?thesis
    proof (cases "gs_phase gs' = Unpinned")
      case False
      then have "fh_pin_count (in_frame b f) = 0" using fr(2) v(2) True by auto
      with guards_okD(6) [OF ok v(1)] obtain h hs where h: "m h = Some hs" "gs_frame hs = f" "gs_phase hs = Unpinned"
        by blast
      then have "h \<noteq> g" using False g gs'(3) by auto
      with h show ?thesis by (intro exI [of _ h] exI [of _ hs]) simp
    qed (use True gs'(1) in auto)
  next
    case False
    with b'(4) [OF nonneg [OF v(1)]] v have "fh_pin_count (in_frame b f) = 0" by simp
    with guards_okD(6) [OF ok v(1)] obtain h hs where h: "m h = Some hs" "gs_frame hs = f" "gs_phase hs = Unpinned"
      by blast
    then show ?thesis using False g by (intro exI [of _ h] exI [of _ hs]) auto
  qed
  moreover have "0 \<le> gs_frame hs \<and> gs_frame hs < int (bp_num_frames b) \<and>
      (gs_phase hs \<noteq> Unpinned \<longrightarrow> bp_frame_to_page b (gs_frame hs) = Some (gs_page hs))"
    if "(m(g \<mapsto> gs')) h = Some hs" for h hs
    using that guards_okD(2-4) [OF ok g] guards_okD(2-4) [OF ok, of h hs] gs' by (cases "h = g") auto
  ultimately show ?thesis using fin by (simp add: guards_ok_def b'(1-3))
qed


text \<open>Counts after one guard has moved on.\<close>

lemma frame_guards_phase:
  assumes fin: "finite (dom m)" and g: "m g = Some gs" and f: "f = gs_frame gs"
    and old: "frame_guards_ok fr m f"
  shows
    "gs_phase gs = Pinned \<Longrightarrow> gs_write gs \<Longrightarrow> fh_rwlatch fr = Unlocked \<Longrightarrow>
       frame_guards_ok (fr\<lparr>fh_rwlatch := Exclusive, fh_is_dirty := d\<rparr>) (m(g \<mapsto> gs\<lparr>gs_phase := Held\<rparr>)) f"
    "gs_phase gs = Pinned \<Longrightarrow> \<not> gs_write gs \<Longrightarrow> lock_shared (fh_rwlatch fr) = Inr l \<Longrightarrow>
       frame_guards_ok (fr\<lparr>fh_rwlatch := l\<rparr>) (m(g \<mapsto> gs\<lparr>gs_phase := Held\<rparr>)) f"
    "gs_phase gs = Held \<Longrightarrow> gs_write gs \<Longrightarrow>
       fh_rwlatch fr = Exclusive \<and> frame_guards_ok (fr\<lparr>fh_rwlatch := Unlocked\<rparr>) (m(g \<mapsto> gs\<lparr>gs_phase := Unlatched\<rparr>)) f"
    "gs_phase gs = Held \<Longrightarrow> \<not> gs_write gs \<Longrightarrow>
       \<exists>l. unlock_shared (fh_rwlatch fr) = Inr l \<and>
         frame_guards_ok (fr\<lparr>fh_rwlatch := l\<rparr>) (m(g \<mapsto> gs\<lparr>gs_phase := Unlatched\<rparr>)) f"
    "gs_phase gs = Unlatched \<Longrightarrow>
       0 < fh_pin_count fr \<and>
       frame_guards_ok (fr\<lparr>fh_pin_count := fh_pin_count fr - 1\<rparr>) (m(g \<mapsto> gs\<lparr>gs_phase := Unpinned\<rparr>)) f"
proof -
  have c: "cnt P (m(g \<mapsto> x)) + of_bool (P gs) = cnt P m + of_bool (P x)" for P x
    by (rule cnt_upd [OF fin g])
  note defs = frame_guards_ok_def pins_def holds_def
  {
    assume "gs_phase gs = Pinned" "gs_write gs" "fh_rwlatch fr = Unlocked"
    then show "frame_guards_ok (fr\<lparr>fh_rwlatch := Exclusive, fh_is_dirty := d\<rparr>) (m(g \<mapsto> gs\<lparr>gs_phase := Held\<rparr>)) f"
      using old c [of "pins f" "gs\<lparr>gs_phase := Held\<rparr>"] c [of "holds f True" "gs\<lparr>gs_phase := Held\<rparr>"]
        c [of "holds f False" "gs\<lparr>gs_phase := Held\<rparr>"] f by (simp add: defs)
  next
    assume "gs_phase gs = Pinned" "\<not> gs_write gs" "lock_shared (fh_rwlatch fr) = Inr l"
    then show "frame_guards_ok (fr\<lparr>fh_rwlatch := l\<rparr>) (m(g \<mapsto> gs\<lparr>gs_phase := Held\<rparr>)) f"
      using old c [of "pins f" "gs\<lparr>gs_phase := Held\<rparr>"] c [of "holds f True" "gs\<lparr>gs_phase := Held\<rparr>"]
        c [of "holds f False" "gs\<lparr>gs_phase := Held\<rparr>"] f by (cases "fh_rwlatch fr") (auto simp: defs)
  next
    assume "gs_phase gs = Held" "gs_write gs"
    then show "fh_rwlatch fr = Exclusive \<and> frame_guards_ok (fr\<lparr>fh_rwlatch := Unlocked\<rparr>) (m(g \<mapsto> gs\<lparr>gs_phase := Unlatched\<rparr>)) f"
      using old c [of "pins f" "gs\<lparr>gs_phase := Unlatched\<rparr>"] c [of "holds f True" "gs\<lparr>gs_phase := Unlatched\<rparr>"]
        c [of "holds f False" "gs\<lparr>gs_phase := Unlatched\<rparr>"] f cnt_pos [of m g gs "holds f True"] fin g
      by (cases "fh_rwlatch fr") (auto simp: defs)
  next
    assume "gs_phase gs = Held" "\<not> gs_write gs"
    then show "\<exists>l. unlock_shared (fh_rwlatch fr) = Inr l \<and>
        frame_guards_ok (fr\<lparr>fh_rwlatch := l\<rparr>) (m(g \<mapsto> gs\<lparr>gs_phase := Unlatched\<rparr>)) f"
      using old c [of "pins f" "gs\<lparr>gs_phase := Unlatched\<rparr>"] c [of "holds f True" "gs\<lparr>gs_phase := Unlatched\<rparr>"]
        c [of "holds f False" "gs\<lparr>gs_phase := Unlatched\<rparr>"] f cnt_pos [of m g gs "holds f False"] fin g
      by (cases "fh_rwlatch fr") (auto simp: defs)
  next
    assume "gs_phase gs = Unlatched"
    then show "0 < fh_pin_count fr \<and>
        frame_guards_ok (fr\<lparr>fh_pin_count := fh_pin_count fr - 1\<rparr>) (m(g \<mapsto> gs\<lparr>gs_phase := Unpinned\<rparr>)) f"
      using old c [of "pins f" "gs\<lparr>gs_phase := Unpinned\<rparr>"] c [of "holds f True" "gs\<lparr>gs_phase := Unpinned\<rparr>"]
        c [of "holds f False" "gs\<lparr>gs_phase := Unpinned\<rparr>"] f cnt_pos [of m g gs "pins f"] fin g
      by (auto simp: defs)
  }
qed


subsection \<open>The number of frames never changes\<close>

lemma write_back_frames: "write_back dk b f p = Inr b' \<Longrightarrow> bp_num_frames b' = bp_num_frames b"
  by (auto simp: write_back_def schedule_write_def split: if_splits)

lemma evict_frame_frames: "evict_frame dk b = Inr (r, b') \<Longrightarrow> bp_num_frames b' = bp_num_frames b"
  by (auto simp: evict_frame_def Let_def split: option.splits dest!: write_back_frames)

lemma pin_page_frames: "pin_page dk b p = Inr (r, b') \<Longrightarrow> bp_num_frames b' = bp_num_frames b"
  by (auto simp: pin_page_def pin_resident_def take_frame_def load_page_def schedule_read_def Let_def
      split: option.splits list.splits dest!: evict_frame_frames)

lemma DeletePage_frames: "DeletePage dk b p = Inr (r, b') \<Longrightarrow> bp_num_frames b' = bp_num_frames b"
  by (auto simp: DeletePage_def DeallocatePage_def Let_def split: option.splits if_splits)

lemma FlushPage_frames: "FlushPage dk b p = Inr (r, b') \<Longrightarrow> bp_num_frames b' = bp_num_frames b"
  by (auto simp: FlushPage_def FlushPageUnsafe_def drop_unlatch_def split: option.splits
      dest!: write_back_frames)

lemma pool_step_frames: "pool_step dk s op = Inr s' \<Longrightarrow> bp_num_frames (pl_bpm s') = bp_num_frames (pl_bpm s)"
  by (cases op)
    (auto simp: at_phase_def WritePageGuard_def ReadPageGuard_def GetDataMut_write_def guard_Flush_def
      drop_unlatch_def drop_unpin_def drop_release_def NewPage_def split: option.splits if_splits
      dest!: pin_page_frames DeletePage_frames FlushPage_frames write_back_frames)

lemma reachable_frames: "pool_reachable dk valid n d s \<Longrightarrow> bp_num_frames (pl_bpm s) = n"
  by (induction rule: pool_reachable.induct) (auto simp: BufferPoolManager_def dest: pool_step_frames)

subsection \<open>Every step keeps the invariant\<close>

text \<open>What a step may do to the pages clients see.\<close>

fun pool_effect :: "'d pool \<Rightarrow> pool_op \<Rightarrow> (page_id \<rightharpoonup> page_data) \<Rightarrow> (page_id \<rightharpoonup> page_data) \<Rightarrow> bool" where
  "pool_effect s (Store g x) P P' = (\<exists>gs. pl_guards s g = Some gs \<and> P' = P(gs_page gs \<mapsto> x))"
| "pool_effect s (Delete p) P P' = (\<forall>q. q \<noteq> p \<longrightarrow> P' q = P q)"
| "pool_effect s op P P' = (P \<subseteq>\<^sub>m P')"

lemma view_set_True: "view_set v f True f \<noteq> Some (p, False)"
  by (auto simp: view_set_def split: option.splits)

lemma view_set_other: "g \<noteq> f \<Longrightarrow> view_set v f b g = v g"
  by (auto simp: view_set_def split: option.splits)

lemma in_phaseE:
  assumes "in_phase s g ph P"
  obtains gs where "pl_guards s g = Some gs" "gs_phase gs = ph" "P gs"
  using assms by (auto simp: in_phase_def split: option.splits)

context disk
begin

definition runs_ok :: "'d pool \<Rightarrow> bool" where
  "runs_ok s \<longleftrightarrow> pool_ok (pl_bpm s) \<and> guards_ok (pl_bpm s) (pl_guards s)"

lemma runs_init: "ok d \<Longrightarrow> runs_ok \<lparr>pl_bpm = BufferPoolManager n d, pl_guards = Map.empty\<rparr>"
proof -
  assume "ok d"
  then have "pool_ok (BufferPoolManager n d)"
    by (simp add: pool_ok_def clean_ok_def BufferPoolManager_ok) (simp add: BufferPoolManager_def)
  moreover have "in_frame (BufferPoolManager n d) f = FrameHeader f" if "0 \<le> f" "f < int n" for f
    using that by (simp add: in_frame_def BufferPoolManager_def nat_less_iff)
  then have "guards_ok (BufferPoolManager n d) Map.empty"
    by (simp add: guards_ok_def frame_guards_ok_def)
      (simp add: BufferPoolManager_def FrameHeader_def frame_reset_def arc_view_init)
  ultimately show ?thesis by (simp add: runs_ok_def)
qed

text \<open>The facts of one live guard.\<close>

lemma guard_facts:
  assumes "runs_ok s" "pl_guards s g = Some gs"
  shows "pool_ok (pl_bpm s)" "guards_ok (pl_bpm s) (pl_guards s)" "0 \<le> gs_frame gs"
    "gs_frame gs < int (bp_num_frames (pl_bpm s))" "frames_ok (pl_bpm s)"
    "frame_at (pl_bpm s) (gs_frame gs) = Inr (in_frame (pl_bpm s) (gs_frame gs))"
    "fh_frame_id (in_frame (pl_bpm s) (gs_frame gs)) = gs_frame gs"
    "frame_guards_ok (in_frame (pl_bpm s) (gs_frame gs)) (pl_guards s) (gs_frame gs)"
    "finite (dom (pl_guards s))"
    "\<And>f p c. arc_view (bp_replacer (pl_bpm s)) f = Some (p, c) \<Longrightarrow> 0 \<le> f"
proof -
  show p: "pool_ok (pl_bpm s)" and g: "guards_ok (pl_bpm s) (pl_guards s)" using assms(1) by (auto simp: runs_ok_def)
  show f: "0 \<le> gs_frame gs" "gs_frame gs < int (bp_num_frames (pl_bpm s))"
    using guards_okD(2,3) [OF g assms(2)] by auto
  show fr: "frames_ok (pl_bpm s)" by (rule bpm_okD(2) [OF pool_okD(1) [OF p]])
  show "frame_at (pl_bpm s) (gs_frame gs) = Inr (in_frame (pl_bpm s) (gs_frame gs))" by (rule frame_at_ok [OF fr f])
  show "fh_frame_id (in_frame (pl_bpm s) (gs_frame gs)) = gs_frame gs" by (rule frame_id_eq [OF fr f])
  show "frame_guards_ok (in_frame (pl_bpm s) (gs_frame gs)) (pl_guards s) (gs_frame gs)"
    by (rule guards_okD(5) [OF g f])
  show "finite (dom (pl_guards s))" by (rule guards_okD(1) [OF g])
  show "0 \<le> f" if "arc_view (bp_replacer (pl_bpm s)) f = Some (p, c)" for f p c
    using frame_range [OF pool_okD(1) [OF p] view_frame [OF pool_okD(1) [OF p] that]] by simp
qed

text \<open>A step that rewrites the guard's frame, keeps its data and its dirty flag, and moves the
  guard to its next phase.\<close>

lemma frame_step_ok:
  assumes ok: "runs_ok s" and g: "pl_guards s g = Some gs"
    and fr: "fh_frame_id fr = gs_frame gs" "fh_data fr = fh_data (in_frame (pl_bpm s) (gs_frame gs))"
      "fh_is_dirty (in_frame (pl_bpm s) (gs_frame gs)) \<Longrightarrow> fh_is_dirty fr"
      "fh_pin_count (in_frame (pl_bpm s) (gs_frame gs)) = 0 \<Longrightarrow> fh_pin_count fr = 0"
    and ph: "frame_guards_ok fr ((pl_guards s)(g \<mapsto> gs\<lparr>gs_phase := ph\<rparr>)) (gs_frame gs)"
      "gs_phase gs \<noteq> Unpinned" "0 < fh_pin_count (in_frame (pl_bpm s) (gs_frame gs)) \<Longrightarrow> fh_pin_count fr = 0 \<Longrightarrow> ph = Unpinned"
    and s': "s' = s\<lparr>pl_bpm := set_frame (gs_frame gs) fr (pl_bpm s),
      pl_guards := (pl_guards s)(g \<mapsto> gs\<lparr>gs_phase := ph\<rparr>)\<rparr>"
  shows "runs_ok s' \<and> pages (pl_bpm s') = pages (pl_bpm s)"
proof -
  note gf = guard_facts [OF ok g]
  have p: "pool_ok (set_frame (gs_frame gs) fr (pl_bpm s)) \<and>
      pages (set_frame (gs_frame gs) fr (pl_bpm s)) = pages (pl_bpm s)"
    using fr by (intro set_frame_same_data [OF gf(1,3,4)]) auto
  have "guards_ok (set_frame (gs_frame gs) fr (pl_bpm s)) ((pl_guards s)(g \<mapsto> gs\<lparr>gs_phase := ph\<rparr>))"
    by (rule guard_step [OF gf(2) g])
      (use ph gf in \<open>auto simp: in_frame_set [OF gf(5,3,4)]\<close>)
  with p show ?thesis by (simp add: s' runs_ok_def)
qed

lemma step_Latch:
  assumes ok: "runs_ok s" and en: "pool_enabled valid s (Latch g)"
  shows "\<exists>s'. pool_step dk s (Latch g) = Inr s' \<and> runs_ok s' \<and> pages (pl_bpm s') = pages (pl_bpm s)"
proof -
  from en obtain gs where gs: "pl_guards s g = Some gs" "gs_phase gs = Pinned"
    and l: "if gs_write gs then latch_of s (gs_frame gs) = Unlocked else latch_of s (gs_frame gs) \<noteq> Exclusive"
    by (auto elim: in_phaseE)
  note gf = guard_facts [OF ok gs(1)]
  let ?f = "gs_frame gs" and ?b = "pl_bpm s"
  let ?fr = "in_frame ?b ?f"
  note ph = frame_guards_phase(1,2) [OF gf(9) gs(1) refl gf(8) gs(2)]
  show ?thesis
  proof (cases "gs_write gs")
    case True
    with l have u: "fh_rwlatch ?fr = Unlocked" by (simp add: latch_of_def)
    have "pool_step dk s (Latch g) = Inr (s\<lparr>pl_bpm := set_frame ?f (?fr\<lparr>fh_rwlatch := Exclusive, fh_is_dirty := True\<rparr>) ?b,
        pl_guards := (pl_guards s)(g \<mapsto> gs\<lparr>gs_phase := Held\<rparr>)\<rparr>)"
      using gs True u gf(6) by (simp add: at_phase_def WritePageGuard_def)
    then show ?thesis using frame_step_ok [OF ok gs(1), of "?fr\<lparr>fh_rwlatch := Exclusive, fh_is_dirty := True\<rparr>" Held, OF _ _ _ _ _ _ _ refl] gs gf ph(1) [OF True u, of True] by simp
  next
    case False
    with l have "fh_rwlatch ?fr \<noteq> Exclusive" by (simp add: latch_of_def)
    then obtain l' where l': "lock_shared (fh_rwlatch ?fr) = Inr l'" by (cases "fh_rwlatch ?fr") auto
    have "pool_step dk s (Latch g) = Inr (s\<lparr>pl_bpm := set_frame ?f (?fr\<lparr>fh_rwlatch := l'\<rparr>) ?b,
        pl_guards := (pl_guards s)(g \<mapsto> gs\<lparr>gs_phase := Held\<rparr>)\<rparr>)"
      using gs False l' gf(6) by (simp add: at_phase_def ReadPageGuard_def)
    then show ?thesis using frame_step_ok [OF ok gs(1), of "?fr\<lparr>fh_rwlatch := l'\<rparr>" Held, OF _ _ _ _ _ _ _ refl] gs gf ph(2) [OF False l'] by simp
  qed
qed

lemma step_Unlatch:
  assumes ok: "runs_ok s" and en: "pool_enabled valid s (Unlatch g)"
  shows "\<exists>s'. pool_step dk s (Unlatch g) = Inr s' \<and> runs_ok s' \<and> pages (pl_bpm s') = pages (pl_bpm s)"
proof -
  from en obtain gs where gs: "pl_guards s g = Some gs" "gs_phase gs = Held" by (auto elim: in_phaseE)
  note gf = guard_facts [OF ok gs(1)]
  let ?f = "gs_frame gs" and ?b = "pl_bpm s"
  let ?fr = "in_frame ?b ?f"
  note ph = frame_guards_phase(3,4) [OF gf(9) gs(1) refl gf(8) gs(2)]
  obtain l where l: "(if gs_write gs then unlock_exclusive else unlock_shared) (fh_rwlatch ?fr) = Inr l"
    "frame_guards_ok (?fr\<lparr>fh_rwlatch := l\<rparr>) ((pl_guards s)(g \<mapsto> gs\<lparr>gs_phase := Unlatched\<rparr>)) ?f"
    using ph by (cases "gs_write gs") auto
  have "pool_step dk s (Unlatch g) = Inr (s\<lparr>pl_bpm := set_frame ?f (?fr\<lparr>fh_rwlatch := l\<rparr>) ?b,
      pl_guards := (pl_guards s)(g \<mapsto> gs\<lparr>gs_phase := Unlatched\<rparr>)\<rparr>)"
    using gs l(1) gf(6) by (simp add: at_phase_def drop_unlatch_def)
  then show ?thesis using frame_step_ok [OF ok gs(1), of "?fr\<lparr>fh_rwlatch := l\<rparr>" Unlatched, OF _ _ _ _ _ _ _ refl] gs gf l(2) by simp
qed

lemma step_Unpin:
  assumes ok: "runs_ok s" and en: "pool_enabled valid s (Unpin g)"
  shows "\<exists>s'. pool_step dk s (Unpin g) = Inr s' \<and> runs_ok s' \<and> pages (pl_bpm s') = pages (pl_bpm s)"
proof -
  from en obtain gs where gs: "pl_guards s g = Some gs" "gs_phase gs = Unlatched" by (auto elim: in_phaseE)
  note gf = guard_facts [OF ok gs(1)]
  let ?f = "gs_frame gs" and ?b = "pl_bpm s"
  let ?fr = "in_frame ?b ?f"
  note ph = frame_guards_phase(5) [OF gf(9) gs(1) refl gf(8) gs(2)]
  have "pool_step dk s (Unpin g) = Inr (s\<lparr>pl_bpm := set_frame ?f (?fr\<lparr>fh_pin_count := fh_pin_count ?fr - 1\<rparr>) ?b,
      pl_guards := (pl_guards s)(g \<mapsto> gs\<lparr>gs_phase := Unpinned\<rparr>)\<rparr>)"
    using gs ph gf(6) by (simp add: at_phase_def drop_unpin_def)
  then show ?thesis using frame_step_ok [OF ok gs(1), of "?fr\<lparr>fh_pin_count := fh_pin_count ?fr - 1\<rparr>" Unpinned, OF _ _ _ _ _ _ _ refl] gs gf ph by simp
qed


text \<open>Steps that leave the guard held: a store changes its page, a flush none.\<close>

lemma same_phase: "pl_guards s g = Some gs \<Longrightarrow> gs_phase gs = Held \<Longrightarrow>
    (pl_guards s)(g \<mapsto> gs\<lparr>gs_phase := Held\<rparr>) = pl_guards s"
  by (cases gs) auto

text \<open>The guards only see the tables, the pin counts and the latches of the pool.\<close>

lemma guards_ok_cong:
  assumes "guards_ok b m" "bp_num_frames b' = bp_num_frames b" "bp_frame_to_page b' = bp_frame_to_page b"
    "arc_view (bp_replacer b') = arc_view (bp_replacer b)"
    and fr: "\<And>f. 0 \<le> f \<Longrightarrow> f < int (bp_num_frames b) \<Longrightarrow> fh_pin_count (in_frame b' f) = fh_pin_count (in_frame b f) \<and>
      fh_rwlatch (in_frame b' f) = fh_rwlatch (in_frame b f)"
    and range: "\<And>f p c. arc_view (bp_replacer b) f = Some (p, c) \<Longrightarrow> 0 \<le> f \<and> f < int (bp_num_frames b)"
  shows "guards_ok b' m"
  using assms(1) fr range unfolding guards_ok_def assms(2-4) frame_guards_ok_def
  by (metis (no_types, lifting))

lemma view_range:
  assumes "pool_ok b" "arc_view (bp_replacer b) f = Some (p, c)"
  shows "0 \<le> f \<and> f < int (bp_num_frames b)"
  using frame_range [OF pool_okD(1) [OF assms(1)] view_frame [OF pool_okD(1) [OF assms(1)] assms(2)]] .

lemma step_Store:
  assumes ok: "runs_ok s" and en: "pool_enabled valid s (Store g x)"
  shows "\<exists>s' gs. pool_step dk s (Store g x) = Inr s' \<and> runs_ok s' \<and> pl_guards s g = Some gs \<and>
    pages (pl_bpm s') = (pages (pl_bpm s))(gs_page gs \<mapsto> x)"
proof -
  from en obtain gs where gs: "pl_guards s g = Some gs" "gs_phase gs = Held"
    and d: "fh_is_dirty (in_frame (pl_bpm s) (gs_frame gs))"
    by (auto elim: in_phaseE)
  note gf = guard_facts [OF ok gs(1)]
  let ?f = "gs_frame gs" and ?b = "pl_bpm s"
  let ?fr = "in_frame ?b ?f"
  let ?b' = "set_frame ?f (?fr\<lparr>fh_data := x\<rparr>) ?b"
  have fp: "bp_frame_to_page ?b ?f = Some (gs_page gs)" using guards_okD(4) [OF gf(2) gs(1)] gs(2) by simp
  have "fh_pin_count (?fr\<lparr>fh_data := x\<rparr>) = 0" if "arc_view (bp_replacer ?b) ?f = Some (p, True)" for p
    using bpm_okD(4) [OF pool_okD(1) [OF gf(1)]] that by (simp add: evict_ok_def)
  with set_frame_ok [OF gf(1,3,4), of "?fr\<lparr>fh_data := x\<rparr>"] gf(7) d fp
  have p: "pool_ok ?b'" "pages ?b' = (pages ?b)(gs_page gs \<mapsto> x)" by auto
  have "guards_ok ?b' (pl_guards s)"
    by (rule guards_ok_cong [OF gf(2)])
      (use view_range [OF gf(1)] in \<open>simp_all add: in_frame_set [OF gf(5,3,4)]\<close>)
  moreover have "pool_step dk s (Store g x) = Inr (s\<lparr>pl_bpm := ?b'\<rparr>)"
    using gs gf(6) same_phase [OF gs]
    by (simp add: at_phase_def GetDataMut_write_def guard_frame_def the_guard_def)
  ultimately show ?thesis using p gs by (auto simp: runs_ok_def)
qed

lemma write_back_guards:
  assumes b: "pool_ok b" and g: "guards_ok b m" and f: "0 \<le> f" "f < int (bp_num_frames b)"
  shows "guards_ok ((set_frame f ((in_frame b f)\<lparr>fh_is_dirty := x\<rparr>) b)\<lparr>bp_disk := d\<rparr>) m"
proof -
  have fr: "frames_ok b" by (rule bpm_okD(2) [OF pool_okD(1) [OF b]])
  show ?thesis
    by (rule guards_ok_cong [OF g])
      (use view_range [OF b] in \<open>simp_all add: in_frame_set [OF fr f]\<close>)
qed

lemma step_Flush:
  assumes ok: "runs_ok s" and en: "pool_enabled valid s (Flush g)"
  shows "\<exists>s'. pool_step dk s (Flush g) = Inr s' \<and> runs_ok s' \<and> pages (pl_bpm s') = pages (pl_bpm s)"
proof -
  from en obtain gs where gs: "pl_guards s g = Some gs" "gs_phase gs = Held" by (auto elim: in_phaseE)
  note gf = guard_facts [OF ok gs(1)]
  have fp: "bp_frame_to_page (pl_bpm s) (gs_frame gs) = Some (gs_page gs)"
    using guards_okD(4) [OF gf(2) gs(1)] gs(2) by simp
  let ?c = "set_frame (gs_frame gs) ((in_frame (pl_bpm s) (gs_frame gs))\<lparr>fh_is_dirty := False\<rparr>) (pl_bpm s)"
  from write_back_pool [OF gf(1) fp] obtain d' where
    d': "write_back dk (pl_bpm s) (gs_frame gs) (gs_page gs) = Inr (?c\<lparr>bp_disk := d'\<rparr>)"
      "pool_ok (?c\<lparr>bp_disk := d'\<rparr>)" "pages (?c\<lparr>bp_disk := d'\<rparr>) = pages (pl_bpm s)"
    by blast
  let ?b' = "?c\<lparr>bp_disk := d'\<rparr>"
  have "guards_ok ?b' (pl_guards s)" by (rule write_back_guards [OF gf(1-4)])
  moreover have "pool_step dk s (Flush g) = Inr (s\<lparr>pl_bpm := ?b'\<rparr>)"
    using gs d'(1) same_phase [OF gs] by (simp add: at_phase_def guard_Flush_def the_guard_def)
  ultimately show ?thesis using d' by (auto simp: runs_ok_def)
qed

lemma step_Release:
  assumes ok: "runs_ok s" and en: "pool_enabled valid s (Release g)"
  shows "\<exists>s'. pool_step dk s (Release g) = Inr s' \<and> runs_ok s' \<and> pages (pl_bpm s') = pages (pl_bpm s)"
proof -
  from en obtain gs where gs: "pl_guards s g = Some gs" "gs_phase gs = Unpinned" by (auto elim: in_phaseE)
  note gf = guard_facts [OF ok gs(1)]
  let ?f = "gs_frame gs" and ?b = "pl_bpm s" and ?m = "(pl_guards s)(g := None)"
  obtain r where r: "drop_release ?b ?f = Inr (?b\<lparr>bp_replacer := r\<rparr>)" "pool_ok (?b\<lparr>bp_replacer := r\<rparr>)"
    "pages (?b\<lparr>bp_replacer := r\<rparr>) = pages ?b"
    "arc_view r = (if fh_pin_count (in_frame ?b ?f) = 0 then view_set (arc_view (bp_replacer ?b)) ?f True
        else arc_view (bp_replacer ?b))"
    using drop_release_ok [OF gf(1,3,4)] by blast
  have cnt: "cnt P ?m = cnt P (pl_guards s)" if "\<not> P gs" for P
    using cnt_del [OF gf(9) gs(1), of P] that by simp
  have fg: "frame_guards_ok fr ?m f = frame_guards_ok fr (pl_guards s) f" for fr f
    using gs(2) by (simp add: frame_guards_ok_def pins_def holds_def cnt)
  have "guards_ok (?b\<lparr>bp_replacer := r\<rparr>) ?m"
    unfolding guards_ok_def
  proof (intro conjI allI impI)
    show "finite (dom ?m)" using gf(9) by simp
    fix h hs assume "?m h = Some hs"
    then have h: "pl_guards s h = Some hs" by (auto split: if_splits)
    show "0 \<le> gs_frame hs" "gs_frame hs < int (bp_num_frames (?b\<lparr>bp_replacer := r\<rparr>))"
      using guards_okD(2,3) [OF gf(2) h] by auto
    show "bp_frame_to_page (?b\<lparr>bp_replacer := r\<rparr>) (gs_frame hs) = Some (gs_page hs)" if "gs_phase hs \<noteq> Unpinned"
      using guards_okD(4) [OF gf(2) h that] by simp
  next
    fix f assume "0 \<le> f \<and> f < int (bp_num_frames (?b\<lparr>bp_replacer := r\<rparr>))"
    then show "frame_guards_ok (in_frame (?b\<lparr>bp_replacer := r\<rparr>) f) ?m f"
      using guards_okD(5) [OF gf(2), of f] by (simp add: fg)
  next
    fix f p
    assume v: "arc_view (bp_replacer (?b\<lparr>bp_replacer := r\<rparr>)) f = Some (p, False)"
      and p0: "fh_pin_count (in_frame (?b\<lparr>bp_replacer := r\<rparr>) f) = 0"
    have "f \<noteq> ?f" using v p0 r(4) view_set_True [of "arc_view (bp_replacer ?b)" f p] by auto
    then have "arc_view (bp_replacer ?b) f = Some (p, False)"
      using v r(4) view_set_other [of f ?f "arc_view (bp_replacer ?b)" True] by (simp split: if_splits)
    from guards_okD(6) [OF gf(2) this] p0 obtain h hs where
      h: "pl_guards s h = Some hs" "gs_frame hs = f" "gs_phase hs = Unpinned" by auto
    then have "h \<noteq> g" using gs(1) \<open>f \<noteq> ?f\<close> by auto
    with h show "\<exists>g gs. ?m g = Some gs \<and> gs_frame gs = f \<and> gs_phase gs = Unpinned"
      by (intro exI [of _ h] exI [of _ hs]) simp
  qed
  moreover have "pool_step dk s (Release g) = Inr (s\<lparr>pl_bpm := ?b\<lparr>bp_replacer := r\<rparr>, pl_guards := ?m\<rparr>)"
    using gs r(1) by (simp add: at_phase_def)
  ultimately show ?thesis using r by (auto simp: runs_ok_def)
qed


text \<open>A new guard; the pool has pinned its frame.\<close>

lemma pin_guards:
  assumes ok: "pool_ok b" and g: "guards_ok b m" "m h = None" and pn: "pinned b f p b'"
  shows "guards_ok b' (m(h \<mapsto> \<lparr>gs_page = p, gs_frame = f, gs_write = w, gs_phase = Pinned\<rparr>))"
proof -
  let ?gs = "\<lparr>gs_page = p, gs_frame = f, gs_write = w, gs_phase = Pinned\<rparr>"
  note fin = guards_okD(1) [OF g(1)]
  have pd: "0 \<le> f" "f < int (bp_num_frames b)" "bp_num_frames b' = bp_num_frames b"
    "bp_frame_to_page b' = (bp_frame_to_page b)(f \<mapsto> p)"
    "bp_frame_to_page b f \<noteq> Some p \<Longrightarrow> f \<in> set (bp_free_frames b) \<or> fh_pin_count (in_frame b f) = 0"
    "\<And>k. 0 \<le> k \<Longrightarrow> k \<noteq> f \<Longrightarrow> in_frame b' k = in_frame b k"
    "fh_rwlatch (in_frame b' f) = fh_rwlatch (in_frame b f)"
    "fh_pin_count (in_frame b' f) = (if bp_frame_to_page b f = Some p then fh_pin_count (in_frame b f) + 1 else 1)"
    "arc_view (bp_replacer b') = (arc_view (bp_replacer b))(f \<mapsto> (p, False))"
    using pn by (auto simp: pinned_def)
  have pin: "fh_pin_count (in_frame b f) = cnt (pins f) m"
    using guards_okD(5) [OF g(1) pd(1,2)] by (simp add: frame_guards_ok_def)
  have none: "cnt (pins f) m = 0" if "bp_frame_to_page b f \<noteq> Some p"
  proof (cases "f \<in> set (bp_free_frames b)")
    case True
    then have "bp_frame_to_page b f = None"
      using bpm_okD(1) [OF pool_okD(1) [OF ok]] by (auto simp: tables_ok_def)
    then show ?thesis
      unfolding cnt_0_iff [OF fin] pins_def using guards_okD(4) [OF g(1)] by fastforce
  qed (use pd(5) that pin in simp)
  have page: "bp_frame_to_page b f = Some p" if "m k = Some gs" "gs_frame gs = f" "gs_phase gs \<noteq> Unpinned" for k gs
    using none that by (auto simp: cnt_0_iff [OF fin] pins_def)
  have c: "cnt P (m(h \<mapsto> ?gs)) = cnt P m + of_bool (P ?gs)" for P by (rule cnt_new [OF fin g(2)])
  show ?thesis
    unfolding guards_ok_def
  proof (intro conjI allI impI)
    show "finite (dom (m(h \<mapsto> ?gs)))" using fin by simp
    fix k gs assume k: "(m(h \<mapsto> ?gs)) k = Some gs"
    show "0 \<le> gs_frame gs" "gs_frame gs < int (bp_num_frames b')"
      using k guards_okD(2,3) [OF g(1), of k gs] pd(1-3) by (auto split: if_splits)
    show "bp_frame_to_page b' (gs_frame gs) = Some (gs_page gs)" if "gs_phase gs \<noteq> Unpinned"
      using k that guards_okD(4) [OF g(1), of k gs] page [of k gs] pd(4) by (auto split: if_splits)
  next
    fix k assume "0 \<le> k \<and> k < int (bp_num_frames b')"
    then have k: "0 \<le> k" "k < int (bp_num_frames b)" using pd(3) by auto
    show "frame_guards_ok (in_frame b' k) (m(h \<mapsto> ?gs)) k"
      using guards_okD(5) [OF g(1) k] pd(6) [OF k(1)] pd(7,8) none
      by (cases "k = f") (auto simp: frame_guards_ok_def c pins_def holds_def)
  next
    fix k q assume v: "arc_view (bp_replacer b') k = Some (q, False)" "fh_pin_count (in_frame b' k) = 0"
    then have kf: "k \<noteq> f" using pd(8) by (auto split: if_splits)
    then have vk: "arc_view (bp_replacer b) k = Some (q, False)" using v(1) pd(9) by simp
    then have "fh_pin_count (in_frame b k) = 0"
      using v(2) kf pd(6) [of k] view_range [OF ok vk] by simp
    from guards_okD(6) [OF g(1) vk this] obtain j gs where j: "m j = Some gs" "gs_frame gs = k" "gs_phase gs = Unpinned"
      by blast
    then have "j \<noteq> h" using g(2) by auto
    with j show "\<exists>g gs. (m(h \<mapsto> ?gs)) g = Some gs \<and> gs_frame gs = k \<and> gs_phase gs = Unpinned"
      by (intro exI [of _ j] exI [of _ gs]) simp
  qed
qed

lemma step_Pin:
  assumes ok: "runs_ok s" and en: "pool_enabled valid s (Pin g p w)"
  shows "\<exists>s'. pool_step dk s (Pin g p w) = Inr s' \<and> runs_ok s' \<and> pages (pl_bpm s) \<subseteq>\<^sub>m pages (pl_bpm s')"
proof -
  have e: "pl_guards s g = None" "valid p" using en by auto
  have o: "pool_ok (pl_bpm s)" "guards_ok (pl_bpm s) (pl_guards s)" using ok by (auto simp: runs_ok_def)
  from pin_page_ok [OF o(1) e(2) refl] show ?thesis
  proof (elim disjE exE conjE)
    assume "pin_page dk (pl_bpm s) p = Inr (None, pl_bpm s)"
    then show ?thesis using ok by simp
  next
    fix f b' assume b': "pin_page dk (pl_bpm s) p = Inr (Some f, b')" "pinned (pl_bpm s) f p b'"
    then have "pool_ok b'" "pages (pl_bpm s) \<subseteq>\<^sub>m pages b'" by (auto simp: pinned_def map_le_def dom_def)
    with b' pin_guards [OF o e(1) b'(2), of w] show ?thesis by (simp add: runs_ok_def)
  qed
qed

text \<open>\<open>DeletePage\<close> fails only when a guard of the page's frame has lowered the pin count to 0
  and not yet told the replacer.\<close>

lemma step_Delete:
  assumes ok: "runs_ok s" and en: "pool_enabled valid s (Delete p)"
  shows "(\<exists>s'. pool_step dk s (Delete p) = Inr s' \<and> runs_ok s' \<and>
      (\<forall>q. q \<noteq> p \<longrightarrow> pages (pl_bpm s') q = pages (pl_bpm s) q)) \<or>
    pool_step dk s (Delete p) = Inl Assertion \<and>
      (\<exists>g gs. pl_guards s g = Some gs \<and> gs_phase gs = Unpinned \<and>
         bp_page_table (pl_bpm s) p = Some (gs_frame gs))"
proof -
  let ?b = "pl_bpm s" and ?m = "pl_guards s"
  have p: "valid p" using en by simp
  have o: "pool_ok ?b" "guards_ok ?b ?m" using ok by (auto simp: runs_ok_def)
  note b = pool_okD(1) [OF o(1)]
  show ?thesis
  proof (cases "bp_page_table ?b p")
    case None
    obtain d' where d': "DeletePage dk ?b p = Inr (True, ?b\<lparr>bp_disk := d'\<rparr>)" "pool_ok (?b\<lparr>bp_disk := d'\<rparr>)"
      "\<forall>q. q \<noteq> p \<longrightarrow> pages (?b\<lparr>bp_disk := d'\<rparr>) q = pages ?b q"
      using DeletePage_absent [OF o(1) p None] by blast
    have "guards_ok (?b\<lparr>bp_disk := d'\<rparr>) ?m"
      by (rule guards_ok_cong [OF o(2)]) (use view_range [OF o(1)] in auto)
    with d' show ?thesis by (auto simp: runs_ok_def)
  next
    case (Some f)
    then have fp: "bp_frame_to_page ?b f = Some p" by (simp add: table_iff [OF b])
    note res = residentD [OF o(1) fp]
    have at: "frame_at ?b f = Inr (in_frame ?b f)" by (rule frame_at_ok [OF bpm_okD(2) [OF b] res(2,3)])
    obtain c where v: "arc_view (bp_replacer ?b) f = Some (p, c)" using view_page [OF b fp] by blast
    show ?thesis
    proof (cases "fh_pin_count (in_frame ?b f) = 0")
      case False
      then have "pool_step dk s (Delete p) = Inr s" using Some at by (simp add: DeletePage_def)
      with ok show ?thesis by auto
    next
      case pin: True
      show ?thesis
      proof (cases c)
        case True
        with v have "arc_view (bp_replacer ?b) f = Some (p, True)" by simp
        from DeletePage_present [OF o(1) Some pin this] obtain b' where b': "DeletePage dk ?b p = Inr (True, b')"
          "pool_ok b'" "\<forall>q. q \<noteq> p \<longrightarrow> pages b' q = pages ?b q" "bp_num_frames b' = bp_num_frames ?b"
          "bp_frame_to_page b' = (bp_frame_to_page ?b)(f := None)"
          "arc_view (bp_replacer b') = (arc_view (bp_replacer ?b))(f := None)"
          "fh_pin_count (in_frame b' f) = 0" "fh_rwlatch (in_frame b' f) = fh_rwlatch (in_frame ?b f)"
          "\<And>k. 0 \<le> k \<Longrightarrow> k \<noteq> f \<Longrightarrow> in_frame b' k = in_frame ?b k"
          by blast
        have "cnt (pins f) ?m = 0"
          using guards_okD(5) [OF o(2) res(2,3)] pin by (simp add: frame_guards_ok_def)
        then have nf: "?m k = Some gs \<Longrightarrow> gs_phase gs \<noteq> Unpinned \<Longrightarrow> gs_frame gs \<noteq> f" for k gs
          by (auto simp: cnt_0_iff [OF guards_okD(1) [OF o(2)]] pins_def)
        have "guards_ok b' ?m"
          unfolding guards_ok_def
        proof (intro conjI allI impI)
          show "finite (dom ?m)" by (rule guards_okD(1) [OF o(2)])
          fix k gs assume k: "?m k = Some gs"
          show "0 \<le> gs_frame gs" "gs_frame gs < int (bp_num_frames b')"
            using guards_okD(2,3) [OF o(2) k] b'(4) by auto
          show "bp_frame_to_page b' (gs_frame gs) = Some (gs_page gs)" if "gs_phase gs \<noteq> Unpinned"
            using guards_okD(4) [OF o(2) k that] nf [OF k that] b'(5) by simp
        next
          fix k assume "0 \<le> k \<and> k < int (bp_num_frames b')"
          then show "frame_guards_ok (in_frame b' k) ?m k"
            using guards_okD(5) [OF o(2), of k] b'(4) b'(7,8) b'(9) [of k] pin
            by (cases "k = f") (auto simp: frame_guards_ok_def)
        next
          fix k q assume k: "arc_view (bp_replacer b') k = Some (q, False)" "fh_pin_count (in_frame b' k) = 0"
          then have vk: "k \<noteq> f" "arc_view (bp_replacer ?b) k = Some (q, False)" using b'(6) by (auto split: if_splits)
          then show "\<exists>g gs. ?m g = Some gs \<and> gs_frame gs = k \<and> gs_phase gs = Unpinned"
            using guards_okD(6) [OF o(2) vk(2)] k(2) b'(9) [of k] view_range [OF o(1) vk(2)] by simp
        qed
        with b' show ?thesis by (auto simp: runs_ok_def)
      next
        case False
        with v have vf: "arc_view (bp_replacer ?b) f = Some (p, False)" by simp
        then have "arc_remove (bp_replacer ?b) f = Inl Assertion"
          by (auto simp: arc_remove_def arc_view_eq_Some)
        then have "pool_step dk s (Delete p) = Inl Assertion"
          using Some at pin by (simp add: DeletePage_def)
        with guards_okD(6) [OF o(2) vf pin] Some show ?thesis by blast
      qed
    qed
  qed
qed


lemma set_frame_disk: "set_frame f x (s\<lparr>bp_disk := d\<rparr>) = (set_frame f x s)\<lparr>bp_disk := d\<rparr>"
  by (simp add: set_frame_def)

lemma set_frame_twice [simp]: "set_frame f y (set_frame f x s) = set_frame f y s"
  by (simp add: set_frame_def)

lemma step_FlushOne:
  assumes ok: "runs_ok s" and en: "pool_enabled valid s (FlushOne p)"
  shows "\<exists>s'. pool_step dk s (FlushOne p) = Inr s' \<and> runs_ok s' \<and> pages (pl_bpm s') = pages (pl_bpm s) \<and>
    (bp_page_table (pl_bpm s) p \<noteq> None \<longrightarrow> contents (bp_disk (pl_bpm s')) p = pages (pl_bpm s) p)"
proof -
  let ?b = "pl_bpm s" and ?m = "pl_guards s"
  have o: "pool_ok ?b" "guards_ok ?b ?m" using ok by (auto simp: runs_ok_def)
  note b = pool_okD(1) [OF o(1)]
  show ?thesis
  proof (cases "bp_page_table ?b p")
    case None
    then have "pool_step dk s (FlushOne p) = Inr s" by (simp add: FlushPage_def)
    with ok None show ?thesis by simp
  next
    case (Some f)
    then have fp: "bp_frame_to_page ?b f = Some p" by (simp add: table_iff [OF b])
    note res = residentD [OF o(1) fp] and fr = bpm_okD(2) [OF b]
    let ?fr = "in_frame ?b f"
    let ?c = "set_frame f (?fr\<lparr>fh_rwlatch := Exclusive\<rparr>) ?b" and ?d = "set_frame f (?fr\<lparr>fh_is_dirty := False\<rparr>) ?b"
    have u: "fh_rwlatch ?fr = Unlocked" using en Some by (simp add: latch_of_def)
    then have same: "?fr\<lparr>fh_is_dirty := False, fh_rwlatch := Unlocked\<rparr> = ?fr\<lparr>fh_is_dirty := False\<rparr>"
      by (cases ?fr) simp
    have at: "frame_at ?b f = Inr ?fr" by (rule frame_at_ok [OF fr res(2,3)])
    have c: "frames_ok ?c" "in_frame ?c f = ?fr\<lparr>fh_rwlatch := Exclusive\<rparr>"
      using frames_ok_set [OF fr res(2,3)] frame_id_eq [OF fr res(2,3)] in_frame_set [OF fr res(2,3,2)] by simp_all
    have atc: "frame_at ?c f = Inr (?fr\<lparr>fh_rwlatch := Exclusive\<rparr>)"
      using frame_at_ok [OF c(1) res(2)] res(3) c(2) by simp
    have atd: "frame_at ((set_frame f x ?b)\<lparr>bp_disk := d\<rparr>) f = Inr x" for x d
      using fr res(2,3) by (auto simp: frame_at_def set_frame_def frames_ok_def nat_less_iff)
    obtain d' where d': "write_back dk ?b f p = Inr (?d\<lparr>bp_disk := d'\<rparr>)" "pool_ok (?d\<lparr>bp_disk := d'\<rparr>)"
      "pages (?d\<lparr>bp_disk := d'\<rparr>) = pages ?b" "contents d' p = pages ?b p"
      using write_back_pool [OF o(1) fp] by blast
    have "write_back dk ?c f p = Inr ((set_frame f (?fr\<lparr>fh_rwlatch := Exclusive, fh_is_dirty := False\<rparr>) ?b)\<lparr>bp_disk := d'\<rparr>)"
    proof (cases "fh_is_dirty ?fr")
      case True
      obtain d where d: "op_write dk (bp_disk ?b) p (fh_data ?fr) = Inr d"
        using d'(1) at True
        by (cases "op_write dk (bp_disk ?b) p (fh_data ?fr)") (auto simp: write_back_def schedule_write_def)
      then have "write_back dk ?b f p = Inr (?d\<lparr>bp_disk := d\<rparr>)"
        using at True by (simp add: write_back_def schedule_write_def set_frame_disk)
      with d'(1) have "bp_disk (?d\<lparr>bp_disk := d'\<rparr>) = bp_disk (?d\<lparr>bp_disk := d\<rparr>)" by simp
      then have "d' = d" by simp
      with d True atc show ?thesis
        by (simp add: write_back_def schedule_write_def set_frame_disk)
    next
      case False
      then have "?d\<lparr>bp_disk := d'\<rparr> = ?b" using d'(1) at by (simp add: write_back_def)
      then have "bp_disk (?d\<lparr>bp_disk := d'\<rparr>) = bp_disk ?b" by (rule arg_cong)
      then have "d' = bp_disk ?b" by simp
      moreover have "?fr\<lparr>fh_rwlatch := Exclusive, fh_is_dirty := False\<rparr> = ?fr\<lparr>fh_rwlatch := Exclusive\<rparr>"
        using False by (cases ?fr) simp
      moreover have "write_back dk ?c f p = Inr ?c" using False atc by (simp add: write_back_def)
      moreover have "?c\<lparr>bp_disk := bp_disk ?b\<rparr> = ?c" by (simp add: set_frame_def)
      ultimately show ?thesis by (simp only:)
    qed
    then have "FlushPage dk ?b p = Inr (True,
        (set_frame f (?fr\<lparr>fh_is_dirty := False, fh_rwlatch := Unlocked\<rparr>) ?b)\<lparr>bp_disk := d'\<rparr>)"
      using Some at u atd
      by (simp add: FlushPage_def FlushPageUnsafe_def drop_unlatch_def set_frame_disk)
    then have "FlushPage dk ?b p = Inr (True, ?d\<lparr>bp_disk := d'\<rparr>)" unfolding same .
    moreover have "guards_ok (?d\<lparr>bp_disk := d'\<rparr>) ?m" by (rule write_back_guards [OF o res(2,3)])
    ultimately show ?thesis using d' by (auto simp: runs_ok_def)
  qed
qed

lemma step_Allocate:
  assumes ok: "runs_ok s"
  shows "\<exists>s'. pool_step dk s Allocate = Inr s' \<and> runs_ok s' \<and> pages (pl_bpm s') = pages (pl_bpm s)"
proof -
  let ?b = "pl_bpm s"
  let ?b' = "?b\<lparr>bp_next_page_id := bp_next_page_id ?b + 1\<rparr>"
  have o: "pool_ok ?b" "guards_ok ?b (pl_guards s)" using ok by (auto simp: runs_ok_def)
  have "pool_ok ?b'" using o(1) by (simp add: pool_ok_def clean_ok_def bpm_ok_defs in_frame_def)
  moreover have "guards_ok ?b' (pl_guards s)"
    by (rule guards_ok_cong [OF o(2)]) (use view_range [OF o(1)] in auto)
  moreover have "pages ?b' = pages ?b" by (auto simp: pool_pages_def fun_eq_iff split: option.splits)
  ultimately show ?thesis by (simp add: NewPage_def runs_ok_def)
qed

text \<open>All steps at once.\<close>

lemma step_ok:
  assumes ok: "runs_ok s" and en: "pool_enabled valid s op"
  shows "(\<exists>s'. pool_step dk s op = Inr s' \<and> runs_ok s' \<and>
      pool_effect s op (pages (pl_bpm s)) (pages (pl_bpm s'))) \<or>
    (\<exists>p g gs. op = Delete p \<and> pool_step dk s op = Inl Assertion \<and> pl_guards s g = Some gs \<and>
      gs_phase gs = Unpinned \<and> bp_page_table (pl_bpm s) p = Some (gs_frame gs))"
proof (cases op)
  case (Pin g p w)
  with step_Pin [OF ok, of g p w] en show ?thesis by auto
next
  case (Latch g)
  with step_Latch [OF ok, of g] en show ?thesis by auto
next
  case (Store g x)
  with step_Store [OF ok, of g x] en show ?thesis by auto
next
  case (Flush g)
  with step_Flush [OF ok, of g] en show ?thesis by auto
next
  case (Unlatch g)
  with step_Unlatch [OF ok, of g] en show ?thesis by auto
next
  case (Unpin g)
  with step_Unpin [OF ok, of g] en show ?thesis by auto
next
  case (Release g)
  with step_Release [OF ok, of g] en show ?thesis by auto
next
  case Allocate
  with step_Allocate [OF ok] show ?thesis by auto
next
  case (Delete p)
  with step_Delete [OF ok, of p] en show ?thesis by (auto simp del: pool_step.simps pool_enabled.simps)
next
  case (FlushOne p)
  with step_FlushOne [OF ok, of p] en show ?thesis by (auto simp del: pool_step.simps pool_enabled.simps)
qed

lemma reachable_ok: "pool_reachable dk valid n d s \<Longrightarrow> ok d \<Longrightarrow> runs_ok s"
proof (induction rule: pool_reachable.induct)
  case init
  then show ?case by (rule runs_init)
next
  case (step s op s')
  from step_ok [OF step.IH [OF step.prems] step.hyps(2)] step.hyps(3) show ?case by auto
qed


text \<open>A page cannot be brought in only when a live guard refers to every frame.\<close>

lemma exhausted:
  assumes ok: "runs_ok s" and p: "valid p" and e: "pin_page dk (pl_bpm s) p = Inr (None, b')"
    and f: "0 \<le> f" "f < int (bp_num_frames (pl_bpm s))"
  shows "\<exists>g gs. pl_guards s g = Some gs \<and> gs_frame gs = f"
proof -
  let ?b = "pl_bpm s"
  have o: "pool_ok ?b" "guards_ok ?b (pl_guards s)" using ok by (auto simp: runs_ok_def)
  note b = pool_okD(1) [OF o(1)]
  have n: "bp_free_frames ?b = []" "\<And>f q. arc_view (bp_replacer ?b) f \<noteq> Some (q, True)"
    using pin_page_ok [OF o(1) p e] by auto
  have "f \<in> dom (bp_frame_to_page ?b)" using bpm_okD(1) [OF b] n(1) f by (simp add: tables_ok_def)
  then obtain q where "bp_frame_to_page ?b f = Some q" by blast
  then obtain c where v: "arc_view (bp_replacer ?b) f = Some (q, c)" using view_page [OF b] by blast
  then have v': "arc_view (bp_replacer ?b) f = Some (q, False)" using n(2) by (cases c) auto
  show ?thesis
  proof (cases "fh_pin_count (in_frame ?b f) = 0")
    case True
    with guards_okD(6) [OF o(2) v'] show ?thesis by blast
  next
    case False
    then have "cnt (pins f) (pl_guards s) \<noteq> 0"
      using guards_okD(5) [OF o(2) f] by (simp add: frame_guards_ok_def)
    then show ?thesis by (auto simp: cnt_0_iff [OF guards_okD(1) [OF o(2)]] pins_def)
  qed
qed

end


subsection \<open>A single client\<close>

text \<open>The calls of one thread are its steps run one after the other.\<close>

context disk
begin

definition alone :: "'d bpm \<Rightarrow> guard_state option \<Rightarrow> 'd pool" where
  "alone b gs = \<lparr>pl_bpm = b, pl_guards = (case gs of None \<Rightarrow> Map.empty | Some x \<Rightarrow> [0 \<mapsto> x])\<rparr>"

lemma open_guard:
  assumes ok: "runs_ok (alone b None)" and n: "0 < bp_num_frames b" and p: "valid p"
  shows "\<exists>f b'. (if w then WritePage else ReadPage) dk b p =
      Inr (\<lparr>pg_page_id = p, pg_frame = f, pg_is_valid = True\<rparr>, b') \<and>
    runs_ok (alone b' (Some \<lparr>gs_page = p, gs_frame = f, gs_write = w, gs_phase = Held\<rparr>)) \<and>
    pages b \<subseteq>\<^sub>m pages b' \<and> (w \<longrightarrow> fh_is_dirty (in_frame b' f)) \<and> bp_num_frames b' = bp_num_frames b"
proof -
  have o: "pool_ok b" using ok by (simp add: runs_ok_def alone_def)
  have "\<not> (\<exists>b'. pin_page dk b p = Inr (None, b'))"
    using exhausted [OF ok p, of _ 0] n by (auto simp: alone_def)
  with pin_page_ok [OF o p refl] obtain f b1 where b1: "pin_page dk b p = Inr (Some f, b1)" "pinned b f p b1"
    by blast
  let ?gs = "\<lparr>gs_page = p, gs_frame = f, gs_write = w, gs_phase = Pinned\<rparr>"
  have s1: "pool_step dk (alone b None) (Pin 0 p w) = Inr (alone b1 (Some ?gs))"
    using b1(1) by (simp add: alone_def)
  have "pool_enabled valid (alone b None) (Pin 0 p w)" using p by (simp add: alone_def)
  from step_Pin [OF ok this] s1 have ok1: "runs_ok (alone b1 (Some ?gs))" "pages b \<subseteq>\<^sub>m pages b1"
    by (auto simp: alone_def)
  have g1: "pl_guards (alone b1 (Some ?gs)) 0 = Some ?gs" by (simp add: alone_def)
  note gf = guard_facts [OF ok1(1) g1]
  have "cnt (holds f c) [0::nat \<mapsto> ?gs] = 0" for c by (simp add: cnt_0_iff holds_def)
  with gf(8) have u: "fh_rwlatch (in_frame b1 f) = Unlocked"
    by (cases "fh_rwlatch (in_frame b1 f)") (auto simp: frame_guards_ok_def alone_def)
  then have "pool_enabled valid (alone b1 (Some ?gs)) (Latch 0)"
    by (simp add: in_phase_def alone_def latch_of_def)
  from step_Latch [OF ok1(1) this] obtain s2 where s2: "pool_step dk (alone b1 (Some ?gs)) (Latch 0) = Inr s2"
    "runs_ok s2" "pages (pl_bpm s2) = pages b1" by (auto simp: alone_def)
  have at: "frame_at b1 f = Inr (in_frame b1 f)" using gf(6) by (simp add: alone_def)
  define fr where "fr = (in_frame b1 f)\<lparr>fh_rwlatch := (if w then Exclusive else Shared 1),
    fh_is_dirty := (w \<or> fh_is_dirty (in_frame b1 f))\<rparr>"
  have ro: "\<not> w \<Longrightarrow> fr = (in_frame b1 f)\<lparr>fh_rwlatch := Shared 1\<rparr>" by (cases "in_frame b1 f") (simp add: fr_def)
  have G: "(if w then WritePageGuard else ReadPageGuard) b1 p f False =
      Inr (\<lparr>pg_page_id = p, pg_frame = f, pg_is_valid = True\<rparr>, set_frame f fr b1)"
    using at u ro by (cases w) (simp_all add: WritePageGuard_def ReadPageGuard_def fr_def)
  then have "s2 = alone (set_frame f fr b1) (Some (?gs\<lparr>gs_phase := Held\<rparr>))"
    using s2(1) by (cases w) (auto simp: at_phase_def alone_def)
  moreover have "(if w then WritePage else ReadPage) dk b p =
      Inr (\<lparr>pg_page_id = p, pg_frame = f, pg_is_valid = True\<rparr>, set_frame f fr b1)"
    using G b1(1) by (cases w) (simp_all add: WritePage_def ReadPage_def CheckedWritePage_def CheckedReadPage_def)
  moreover have "w \<longrightarrow> fh_is_dirty (in_frame (set_frame f fr b1) f)"
    using gf(3-5) by (simp add: in_frame_set fr_def alone_def)
  moreover have "bp_num_frames b1 = bp_num_frames b" using b1(2) by (simp add: pinned_def)
  ultimately show ?thesis
    using s2(2,3) ok1(2) by (intro exI [of _ f] exI [of _ "set_frame f fr b1"]) (simp add: alone_def)
qed

lemma close_guard:
  assumes ok: "runs_ok (alone b (Some gs))" and h: "gs_phase gs = Held"
  shows "\<exists>b'. (if gs_write gs then WritePageGuard_Drop else ReadPageGuard_Drop) b (the_guard gs) =
      Inr ((the_guard gs)\<lparr>pg_is_valid := False\<rparr>, b') \<and>
    runs_ok (alone b' None) \<and> pages b' = pages b \<and> bp_num_frames b' = bp_num_frames b"
proof -
  have "pool_enabled valid (alone b (Some gs)) (Unlatch 0)" using h by (simp add: in_phase_def alone_def)
  from step_Unlatch [OF ok this] obtain b1 where b1: "runs_ok (alone b1 (Some (gs\<lparr>gs_phase := Unlatched\<rparr>)))"
    "pages b1 = pages b"
    "drop_unlatch (if gs_write gs then unlock_exclusive else unlock_shared) b (gs_frame gs) = Inr b1"
    by (auto simp: at_phase_def alone_def)
  have "pool_enabled valid (alone b1 (Some (gs\<lparr>gs_phase := Unlatched\<rparr>))) (Unpin 0)"
    by (simp add: in_phase_def alone_def)
  from step_Unpin [OF b1(1) this] obtain b2 where b2: "runs_ok (alone b2 (Some (gs\<lparr>gs_phase := Unpinned\<rparr>)))"
    "pages b2 = pages b1" "drop_unpin b1 (gs_frame gs) = Inr b2"
    by (auto simp: at_phase_def alone_def)
  have "pool_enabled valid (alone b2 (Some (gs\<lparr>gs_phase := Unpinned\<rparr>))) (Release 0)"
    by (simp add: in_phase_def alone_def)
  from step_Release [OF b2(1) this] obtain b3 where b3: "runs_ok (alone b3 None)" "pages b3 = pages b2"
    "drop_release b2 (gs_frame gs) = Inr b3"
    by (auto simp: at_phase_def alone_def)
  have "bp_num_frames b3 = bp_num_frames b"
    using b1(3) b2(3) b3(3) by (auto simp: drop_unlatch_def drop_unpin_def drop_release_def split: if_splits)
  with b1 b2 b3 show ?thesis
    by (auto simp: WritePageGuard_Drop_def ReadPageGuard_Drop_def the_guard_def)
qed

text \<open>What is written through a guard is read back through the next one.\<close>

lemma write_read:
  assumes ok: "runs_ok (alone b None)" and n: "0 < bp_num_frames b" and p: "valid p"
  shows "\<exists>g b1 b2 g' b3 h b4. WritePage dk b p = Inr (g, b1) \<and> GetDataMut_write b1 g x = Inr b2 \<and>
    WritePageGuard_Drop b2 g = Inr (g', b3) \<and> pages b3 = (pages b1)(p \<mapsto> x) \<and> pages b \<subseteq>\<^sub>m pages b1 \<and>
    ReadPage dk b3 p = Inr (h, b4) \<and> GetData b4 h = Inr x"
proof -
  obtain f b1 where b1: "WritePage dk b p = Inr (\<lparr>pg_page_id = p, pg_frame = f, pg_is_valid = True\<rparr>, b1)"
    "runs_ok (alone b1 (Some \<lparr>gs_page = p, gs_frame = f, gs_write = True, gs_phase = Held\<rparr>))"
    "fh_is_dirty (in_frame b1 f)" "bp_num_frames b1 = bp_num_frames b" "pages b \<subseteq>\<^sub>m pages b1"
    using open_guard [OF ok n p, of True] by auto
  let ?gs = "\<lparr>gs_page = p, gs_frame = f, gs_write = True, gs_phase = Held\<rparr>"
  have "pool_enabled valid (alone b1 (Some ?gs)) (Store 0 x)" using b1(3) by (simp add: in_phase_def alone_def)
  from step_Store [OF b1(2) this] obtain b2 where b2: "GetDataMut_write b1 (the_guard ?gs) x = Inr b2"
    "runs_ok (alone b2 (Some ?gs))" "pages b2 = (pages b1)(p \<mapsto> x)"
    by (auto simp: at_phase_def alone_def)
  have n2: "bp_num_frames b2 = bp_num_frames b1"
    using b2(1) by (auto simp: GetDataMut_write_def guard_frame_def split: if_splits)
  obtain b3 where b3: "WritePageGuard_Drop b2 (the_guard ?gs) = Inr ((the_guard ?gs)\<lparr>pg_is_valid := False\<rparr>, b3)"
    "runs_ok (alone b3 None)" "pages b3 = pages b2" "bp_num_frames b3 = bp_num_frames b2"
    using close_guard [OF b2(2)] by auto
  obtain k b4 where b4: "ReadPage dk b3 p = Inr (\<lparr>pg_page_id = p, pg_frame = k, pg_is_valid = True\<rparr>, b4)"
    "runs_ok (alone b4 (Some \<lparr>gs_page = p, gs_frame = k, gs_write = False, gs_phase = Held\<rparr>))"
    "pages b3 \<subseteq>\<^sub>m pages b4"
    using open_guard [OF b3(2) _ p, of False] n b1(4) n2 b3(4) by auto
  have g4: "pl_guards (alone b4 (Some \<lparr>gs_page = p, gs_frame = k, gs_write = False, gs_phase = Held\<rparr>)) 0 =
      Some \<lparr>gs_page = p, gs_frame = k, gs_write = False, gs_phase = Held\<rparr>" by (simp add: alone_def)
  note gf = guard_facts [OF b4(2) g4]
  have "bp_frame_to_page b4 k = Some p" using guards_okD(4) [OF gf(2) g4] by (simp add: alone_def)
  then have "pages b4 p = Some (fh_data (in_frame b4 k))"
    using gf(1) pages_resident residentD(1) by (simp add: alone_def)
  moreover have "pages b4 p = Some x" using b4(3) b3(3) b2(3) by (auto simp: map_le_def dom_def)
  ultimately have "GetData b4 \<lparr>pg_page_id = p, pg_frame = k, pg_is_valid = True\<rparr> = Inr x"
    using gf(6) by (simp add: GetData_def guard_frame_def alone_def)
  then show ?thesis
    using b1(1,5) b2 b3 b4(1) by (auto simp: the_guard_def)
qed

end

subsection \<open>Properties\<close>

text \<open>Runs of a pool on the database file.\<close>

abbreviation file_pool :: "nat \<Rightarrow> disk_file pool \<Rightarrow> bool" where
  "file_pool \<equiv> \<lambda>n. pool_reachable disk_file_ops file_valid n disk_file_init"

lemma file_pool_ok:
  assumes "file_pool n s"
  shows "filedisk.runs_ok s" "filedisk.pool_ok (pl_bpm s)" "guards_ok (pl_bpm s) (pl_guards s)"
    "bpm_ok (pl_bpm s)" "bp_num_frames (pl_bpm s) = n"
proof -
  show r: "filedisk.runs_ok s" by (rule filedisk.reachable_ok [OF assms file_init_ok])
  then show "filedisk.pool_ok (pl_bpm s)" "guards_ok (pl_bpm s) (pl_guards s)" by (auto simp: filedisk.runs_ok_def)
  then show "bpm_ok (pl_bpm s)" by (simp add: filedisk.pool_ok_def)
  show "bp_num_frames (pl_bpm s) = n" by (rule reachable_frames [OF assms])
qed

lemma cnt_one:
  assumes "cnt P m = 1" "m g = Some x" "P x" "m h = Some y" "P y"
  shows "g = h"
proof -
  let ?A = "{k. \<exists>x. m k = Some x \<and> P x}"
  obtain k where "?A = {k}" using assms(1) by (auto simp: cnt_def card_1_singleton_iff)
  moreover have "g \<in> ?A" "h \<in> ?A" using assms(2-5) by auto
  ultimately show ?thesis by simp
qed








text \<open>A client that is alone with a pool of at least one frame never blocks or fails: it
  opens any page for writing, stores bytes, drops the guard, opens the page for reading and
  reads the bytes it stored; no other page has changed.\<close>

theorem pool_write_read:
  assumes "file_pool n s" "pl_guards s = Map.empty" "0 < n" "file_valid p"
  shows "\<exists>g b1 b2 g' b3 h b4. WritePage disk_file_ops (pl_bpm s) p = Inr (g, b1) \<and>
    GetDataMut_write b1 g x = Inr b2 \<and> WritePageGuard_Drop b2 g = Inr (g', b3) \<and>
    pool_pages file_contents b3 = (pool_pages file_contents b1)(p \<mapsto> x) \<and>
    pool_pages file_contents (pl_bpm s) \<subseteq>\<^sub>m pool_pages file_contents b1 \<and>
    ReadPage disk_file_ops b3 p = Inr (h, b4) \<and> GetData b4 h = Inr x"
proof -
  have "s = filedisk.alone (pl_bpm s) None" using assms(2) by (simp add: filedisk.alone_def)
  then have "filedisk.runs_ok (filedisk.alone (pl_bpm s) None)" using file_pool_ok(1) [OF assms(1)] by simp
  from filedisk.write_read [OF this _ assms(4)] show ?thesis
    using file_pool_ok(5) [OF assms(1)] assms(3) by simp
qed

theorem pool_write_read_witness:
  "\<exists>b3 h b4. ReadPage disk_file_ops b3 7 = Inr (h, b4) \<and> GetData b4 h = Inr [1, 2, 3]"
proof -
  have r: "file_pool 1 \<lparr>pl_bpm = BufferPoolManager 1 disk_file_init, pl_guards = Map.empty\<rparr>"
    by (rule pool_reachable.init)
  show ?thesis using pool_write_read [OF r, of 7 "[1, 2, 3]"] by (auto simp: file_valid_def)
qed

subsection \<open>What the guards do not protect from\<close>

text \<open>The failure C8 allows for does happen: a thread between the two halves of \<open>Drop\<close> makes
  another thread's \<open>DeletePage\<close> of the same page fail its assertion.\<close>

fun pool_run :: "'d disk_ops \<Rightarrow> (page_id \<Rightarrow> bool) \<Rightarrow> 'd pool \<Rightarrow> pool_op list \<Rightarrow> 'd pool result" where
  "pool_run dk valid s [] = Inr s"
| "pool_run dk valid s (op # ops) =
     (if pool_enabled valid s op then rbind (pool_step dk s op) (\<lambda>s'. pool_run dk valid s' ops) else Inl Stuck)"

lemma pool_run_reachable:
  "pool_reachable dk valid n d s \<Longrightarrow> pool_run dk valid s ops = Inr s' \<Longrightarrow> pool_reachable dk valid n d s'"
  by (induction ops arbitrary: s) (auto split: if_splits intro: pool_reachable.step)

lemmas run_defs = pin_page_def BufferPoolManager_def take_frame_def load_page_def frame_at_def Let_def
  schedule_read_def disk_file_ops_def disk_file_read_def AllocatePage_def disk_file_init_def
  DEFAULT_DB_IO_SIZE_def GetFileSize_def BUSTUB_PAGE_SIZE_def set_frame_def arc_record_access_def
  record_miss_def arc_init_def arc_set_evictable_def FrameHeader_def frame_reset_def in_frame_def
  at_phase_def in_phase_def latch_of_def file_valid_def WritePageGuard_def drop_unlatch_def drop_unpin_def
  DeletePage_def arc_remove_def

theorem delete_during_drop:
  "\<exists>s. file_pool 1 s \<and> pool_step disk_file_ops s (Delete 5) = Inl Assertion"
proof -
  let ?i = "\<lparr>pl_bpm = BufferPoolManager 1 disk_file_init, pl_guards = Map.empty\<rparr>"
  have "\<exists>s. pool_run disk_file_ops file_valid ?i [Pin 0 5 True, Latch 0, Unlatch 0, Unpin 0] = Inr s \<and>
      pool_step disk_file_ops s (Delete 5) = Inl Assertion"
    by (simp add: run_defs)
  then obtain s where s: "pool_run disk_file_ops file_valid ?i [Pin 0 5 True, Latch 0, Unlatch 0, Unpin 0] = Inr s"
    "pool_step disk_file_ops s (Delete 5) = Inl Assertion" by blast
  have "file_pool 1 s" by (rule pool_run_reachable [OF pool_reachable.init s(1)])
  with s(2) show ?thesis by blast
qed

text \<open>A write guard's \<open>Flush\<close> clears the dirty flag it set when it was taken, and nothing sets it
  again: what is written through the same guard afterwards is not written back.\<close>

theorem store_after_flush_lost:
  assumes "guard_Flush dk b g = Inr b1" "GetDataMut_write b1 g x = Inr b2"
  shows "guard_Flush dk b2 g = Inr b2"
  using assms
  by (auto simp: guard_Flush_def GetDataMut_write_def guard_frame_def frame_at_def write_back_def
      schedule_write_def set_frame_def split: if_splits)

end
