(* ===== verification/BPTree_Pages.thy ===== *)
theory BPTree_Pages
  imports Prelude
begin

section \<open>B+ tree pages\<close>

text \<open>
  Models \<^verbatim>\<open>src/storage/page/b_plus_tree_page.cpp\<close>,
  \<^verbatim>\<open>b_plus_tree_leaf_page.cpp\<close> and \<^verbatim>\<open>b_plus_tree_internal_page.cpp\<close>. A page's arrays are
  lists of the page's current size: the slots behind them hold stale bytes, and an operation
  that reads one is \<open>Undefined\<close>. A leaf keeps keys and values together; an internal page keeps
  its two arrays, whose first key is invalid (whatever the slot holds). Keys are linearly
  ordered by the comparator, which returns a negative, zero or positive \<open>int\<close>.
\<close>

definition key_cmp :: "'k::linorder \<Rightarrow> 'k \<Rightarrow> int" where
  "key_cmp a b = (if a < b then -1 else if b < a then 1 else 0)"

text \<open>The sizes a tree is configured with: the maximal sizes, the tombstone buffer
  (\<open>LEAF_PAGE_TOMB_CNT\<close>), the slots the arrays have (\<open>INTERNAL_PAGE_SLOT_CNT\<close>,
  \<open>LEAF_PAGE_SLOT_CNT\<close>), and the bytes a fresh page happens to hold in its first key slot.\<close>

record 'k bt_config =
  leaf_max_size :: nat
  internal_max_size :: nat
  tomb_cnt :: nat
  leaf_slots :: nat
  internal_slots :: nat
  stale_key :: 'k

subsection \<open>Binary search\<close>

text \<open>The loop every search of the tree runs between \<open>lo\<close> and \<open>hi\<close>.\<close>

function bsearch :: "(nat \<Rightarrow> bool) \<Rightarrow> nat \<Rightarrow> nat \<Rightarrow> nat" where
  "bsearch go_right lo hi =
     (if lo < hi then
        (let mid = (lo + hi) div 2
         in if go_right mid then bsearch go_right (mid + 1) hi else bsearch go_right lo mid)
      else lo)"
  by pat_completeness auto
termination
  by (relation "measure (\<lambda>(_, lo, hi). hi - lo)") auto

declare bsearch.simps [simp del]

subsection \<open>Leaf pages\<close>

record ('k, 'v) leaf_page =
  lp_max_size :: nat
  lp_entries :: "('k \<times> 'v) list"
  lp_tombstones :: "nat list"
  lp_next_page_id :: page_id

definition leaf_Init :: "nat \<Rightarrow> ('k, 'v) leaf_page" where
  "leaf_Init max_size =
     \<lparr>lp_max_size = max_size, lp_entries = [], lp_tombstones = [], lp_next_page_id = INVALID_PAGE_ID\<rparr>"

definition leaf_GetSize :: "('k, 'v) leaf_page \<Rightarrow> nat" where
  "leaf_GetSize p = length (lp_entries p)"

definition leaf_GetMinSize :: "('k, 'v) leaf_page \<Rightarrow> nat" where
  "leaf_GetMinSize p = lp_max_size p div 2"

definition leaf_GetLiveSize :: "('k, 'v) leaf_page \<Rightarrow> int" where
  "leaf_GetLiveSize p = int (leaf_GetSize p) - int (length (lp_tombstones p))"

definition leaf_KeyAt :: "('k, 'v) leaf_page \<Rightarrow> nat \<Rightarrow> 'k" where
  "leaf_KeyAt p index = fst (lp_entries p ! index)"

definition leaf_ValueAt :: "('k, 'v) leaf_page \<Rightarrow> nat \<Rightarrow> 'v" where
  "leaf_ValueAt p index = snd (lp_entries p ! index)"

definition leaf_GetTombstones :: "('k, 'v) leaf_page \<Rightarrow> 'k list" where
  "leaf_GetTombstones p = map (leaf_KeyAt p) (lp_tombstones p)"

definition leaf_IsTombstone :: "('k, 'v) leaf_page \<Rightarrow> nat \<Rightarrow> bool" where
  "leaf_IsTombstone p index = list_ex (\<lambda>t. t = index) (lp_tombstones p)"

definition leaf_InsertAt :: "('k, 'v) leaf_page \<Rightarrow> nat \<Rightarrow> 'k \<Rightarrow> 'v \<Rightarrow> ('k, 'v) leaf_page" where
  "leaf_InsertAt p index key value =
     p\<lparr>lp_entries := take index (lp_entries p) @ (key, value) # drop index (lp_entries p),
       lp_tombstones := map (\<lambda>t. if t \<ge> index then t + 1 else t) (lp_tombstones p)\<rparr>"

text \<open>The pages are updated in place; the pair is the old leaf and the new one.\<close>

definition leaf_Split :: "('k, 'v) leaf_page \<Rightarrow> ('k, 'v) leaf_page \<Rightarrow> ('k, 'v) leaf_page \<times> ('k, 'v) leaf_page" where
  "leaf_Split p new_leaf =
     (let split_point = leaf_GetSize p div 2 in
      (p\<lparr>lp_entries := take split_point (lp_entries p),
         lp_tombstones := filter (\<lambda>t. \<not> t \<ge> split_point) (lp_tombstones p)\<rparr>,
       new_leaf\<lparr>lp_entries := drop split_point (lp_entries p),
         lp_tombstones := map (\<lambda>t. t - split_point) (filter (\<lambda>t. t \<ge> split_point) (lp_tombstones p))\<rparr>))"

definition leaf_RemoveAt :: "('k, 'v) leaf_page \<Rightarrow> nat \<Rightarrow> ('k, 'v) leaf_page" where
  "leaf_RemoveAt p index =
     p\<lparr>lp_entries := take index (lp_entries p) @ drop (index + 1) (lp_entries p),
       lp_tombstones := map (\<lambda>t. if t > index then t - 1 else t)
         (filter (\<lambda>t. t \<noteq> index) (lp_tombstones p))\<rparr>"

text \<open>The scan of \<open>Remove\<close> for the key, from index \<open>i\<close> on.\<close>

fun find_key :: "('k::linorder \<times> 'v) list \<Rightarrow> 'k \<Rightarrow> nat \<Rightarrow> nat option" where
  "find_key [] key i = None"
| "find_key (e # es) key i = (if key_cmp (fst e) key = 0 then Some i else find_key es key (i + 1))"

definition leaf_Remove :: "nat \<Rightarrow> ('k::linorder, 'v) leaf_page \<Rightarrow> 'k \<Rightarrow> bool \<times> ('k, 'v) leaf_page" where
  "leaf_Remove tombs p key =
     (case find_key (lp_entries p) key 0 of
        None \<Rightarrow> (False, p)
      | Some i \<Rightarrow>
          if leaf_IsTombstone p i then (False, p)
          else if length (lp_tombstones p) \<ge> tombs then (True, leaf_RemoveAt p i)
          else (True, p\<lparr>lp_tombstones := lp_tombstones p @ [i]\<rparr>))"

text \<open>Moving entries between siblings: the source and the recipient. The tombstones stay
  where they are.\<close>

definition leaf_MoveLastToFrontOf ::
    "('k, 'v) leaf_page \<Rightarrow> ('k, 'v) leaf_page \<Rightarrow> ('k, 'v) leaf_page \<times> ('k, 'v) leaf_page" where
  "leaf_MoveLastToFrontOf p recipient =
     (p\<lparr>lp_entries := butlast (lp_entries p)\<rparr>,
      recipient\<lparr>lp_entries := last (lp_entries p) # lp_entries recipient\<rparr>)"

definition leaf_MoveFirstToEndOf ::
    "('k, 'v) leaf_page \<Rightarrow> ('k, 'v) leaf_page \<Rightarrow> ('k, 'v) leaf_page \<times> ('k, 'v) leaf_page" where
  "leaf_MoveFirstToEndOf p recipient =
     (p\<lparr>lp_entries := tl (lp_entries p)\<rparr>,
      recipient\<lparr>lp_entries := lp_entries recipient @ [hd (lp_entries p)]\<rparr>)"

definition leaf_MoveAllTo ::
    "('k, 'v) leaf_page \<Rightarrow> ('k, 'v) leaf_page \<Rightarrow> ('k, 'v) leaf_page \<times> ('k, 'v) leaf_page" where
  "leaf_MoveAllTo p recipient =
     (p\<lparr>lp_entries := []\<rparr>,
      recipient\<lparr>lp_entries := lp_entries recipient @ lp_entries p,
                lp_next_page_id := lp_next_page_id p\<rparr>)"

subsection \<open>Internal pages\<close>

record 'k internal_page =
  ip_max_size :: nat
  ip_keys :: "'k list"
  ip_children :: "page_id list"

definition internal_Init :: "nat \<Rightarrow> 'k internal_page" where
  "internal_Init max_size = \<lparr>ip_max_size = max_size, ip_keys = [], ip_children = []\<rparr>"

definition internal_GetSize :: "'k internal_page \<Rightarrow> nat" where
  "internal_GetSize p = length (ip_children p)"

definition internal_GetMinSize :: "'k internal_page \<Rightarrow> nat" where
  "internal_GetMinSize p = ip_max_size p div 2"

definition internal_KeyAt :: "'k internal_page \<Rightarrow> nat \<Rightarrow> 'k" where
  "internal_KeyAt p index = ip_keys p ! index"

definition internal_ValueAt :: "'k internal_page \<Rightarrow> nat \<Rightarrow> page_id" where
  "internal_ValueAt p index = ip_children p ! index"

definition internal_SetKeyAt :: "'k internal_page \<Rightarrow> nat \<Rightarrow> 'k \<Rightarrow> 'k internal_page" where
  "internal_SetKeyAt p index key = p\<lparr>ip_keys := (ip_keys p)[index := key]\<rparr>"

definition internal_SetValueAt :: "'k internal_page \<Rightarrow> nat \<Rightarrow> page_id \<Rightarrow> 'k internal_page" where
  "internal_SetValueAt p index v = p\<lparr>ip_children := (ip_children p)[index := v]\<rparr>"

text \<open>\<open>SetSize(2)\<close> on a fresh page exposes two slots of each array.\<close>

definition internal_SetSize2 :: "'k \<Rightarrow> 'k internal_page \<Rightarrow> 'k internal_page" where
  "internal_SetSize2 stale p = p\<lparr>ip_keys := [stale, stale], ip_children := [INVALID_PAGE_ID, INVALID_PAGE_ID]\<rparr>"

fun value_index_from :: "page_id list \<Rightarrow> page_id \<Rightarrow> int \<Rightarrow> int" where
  "value_index_from [] v i = -1"
| "value_index_from (x # xs) v i = (if x = v then i else value_index_from xs v (i + 1))"

definition internal_ValueIndex :: "'k internal_page \<Rightarrow> page_id \<Rightarrow> int" where
  "internal_ValueIndex p v = value_index_from (ip_children p) v 0"

definition internal_InsertAt :: "'k internal_page \<Rightarrow> nat \<Rightarrow> 'k \<Rightarrow> page_id \<Rightarrow> 'k internal_page" where
  "internal_InsertAt p index key v =
     p\<lparr>ip_keys := take index (ip_keys p) @ key # drop index (ip_keys p),
       ip_children := take index (ip_children p) @ v # drop index (ip_children p)\<rparr>"

text \<open>The old page, the new one (whose first key slot stays stale) and the promoted key.\<close>

definition internal_Split ::
    "'k \<Rightarrow> 'k internal_page \<Rightarrow> 'k internal_page \<Rightarrow> 'k internal_page \<times> 'k internal_page \<times> 'k" where
  "internal_Split stale p new_node =
     (let mid = internal_GetSize p div 2 in
      (p\<lparr>ip_keys := take mid (ip_keys p), ip_children := take mid (ip_children p)\<rparr>,
       new_node\<lparr>ip_keys := stale # drop (mid + 1) (ip_keys p),
                ip_children := (ip_children p ! mid) # drop (mid + 1) (ip_children p)\<rparr>,
       ip_keys p ! mid))"

text \<open>\<open>Lookup\<close> counts with \<open>int\<close>: its bounds may cross.\<close>

function lookup_loop :: "(int \<Rightarrow> bool) \<Rightarrow> int \<Rightarrow> int \<Rightarrow> int \<Rightarrow> int" where
  "lookup_loop le left right result =
     (if left \<le> right then
        (let mid = (left + right) div 2
         in if le mid then lookup_loop le (mid + 1) right mid
            else lookup_loop le left (mid - 1) result)
      else result)"
  by pat_completeness auto
termination
  by (relation "measure (\<lambda>(_, l, r, _). nat (r - l + 1))") auto

declare lookup_loop.simps [simp del]

definition internal_Lookup :: "('k::linorder) internal_page \<Rightarrow> 'k \<Rightarrow> page_id" where
  "internal_Lookup p key =
     internal_ValueAt p (nat (lookup_loop (\<lambda>mid. key_cmp (internal_KeyAt p (nat mid)) key \<le> 0)
       1 (int (internal_GetSize p) - 1) 0))"

definition internal_RemoveAt :: "'k internal_page \<Rightarrow> nat \<Rightarrow> 'k internal_page" where
  "internal_RemoveAt p index =
     p\<lparr>ip_keys := take index (ip_keys p) @ drop (index + 1) (ip_keys p),
       ip_children := take index (ip_children p) @ drop (index + 1) (ip_children p)\<rparr>"

text \<open>An empty recipient exposes its stale first key slot.\<close>

definition internal_MoveLastToFrontOf ::
    "'k \<Rightarrow> 'k internal_page \<Rightarrow> 'k internal_page \<Rightarrow> 'k \<Rightarrow> 'k internal_page \<times> 'k internal_page \<times> 'k" where
  "internal_MoveLastToFrontOf stale p recipient middle_key =
     (p\<lparr>ip_keys := butlast (ip_keys p), ip_children := butlast (ip_children p)\<rparr>,
      recipient\<lparr>ip_keys := (case ip_keys recipient of [] \<Rightarrow> [stale] | k # ks \<Rightarrow> k # middle_key # ks),
                ip_children := last (ip_children p) # ip_children recipient\<rparr>,
      last (ip_keys p))"

text \<open>The loop of \<open>MoveFirstToEndOf\<close> starts at index 1 for both arrays.\<close>

definition internal_MoveFirstToEndOf ::
    "'k internal_page \<Rightarrow> 'k internal_page \<Rightarrow> 'k \<Rightarrow> 'k internal_page \<times> 'k internal_page \<times> 'k" where
  "internal_MoveFirstToEndOf p recipient middle_key =
     (p\<lparr>ip_keys := take (length (ip_keys p) - 1) (take 1 (ip_keys p) @ drop 2 (ip_keys p)),
        ip_children := take (length (ip_children p) - 1) (take 1 (ip_children p) @ drop 2 (ip_children p))\<rparr>,
      recipient\<lparr>ip_keys := ip_keys recipient @ [middle_key],
                ip_children := ip_children recipient @ [hd (ip_children p)]\<rparr>,
      ip_keys p ! 1)"

definition internal_MoveAllTo ::
    "'k internal_page \<Rightarrow> 'k internal_page \<Rightarrow> 'k \<Rightarrow> 'k internal_page \<times> 'k internal_page" where
  "internal_MoveAllTo p recipient middle_key =
     (p\<lparr>ip_keys := [], ip_children := []\<rparr>,
      recipient\<lparr>ip_keys := ip_keys recipient @ middle_key # tl (ip_keys p),
                ip_children := ip_children recipient @ ip_children p\<rparr>)"

end
