(* ===== verification/BPTree.thy ===== *)
theory BPTree
  imports BPTree_Pages
begin

section \<open>The B+ tree\<close>

text \<open>
  Models \<^verbatim>\<open>src/storage/index/b_plus_tree.cpp\<close> and \<^verbatim>\<open>src/storage/index/index_iterator.cpp\<close>
  for one thread. The pages a tree reads and writes through guards are a map from page ids to
  pages (what the theories of the buffer pool show the pool to provide); the header page is the
  field with the root's id. Reading an id that holds no page of the tree, or a page as the
  wrong type, is \<open>Undefined\<close>. A walk through pages that visits more pages than the tree has
  never ends: walks take the number of pages as fuel and are \<open>Stuck\<close> beyond it.
\<close>

datatype ('k, 'v) bt_node =
    LeafPage (leaf_of: "('k, 'v) leaf_page")
  | InternalPage (internal_of: "'k internal_page")

record ('k, 'v) btree =
  bt_root_page_id :: page_id
  bt_pages :: "page_id \<rightharpoonup> ('k, 'v) bt_node"
  bt_next_page_id :: page_id

definition BPlusTree :: "page_id \<Rightarrow> ('k, 'v) btree" where
  "BPlusTree next = \<lparr>bt_root_page_id = INVALID_PAGE_ID, bt_pages = Map.empty, bt_next_page_id = next\<rparr>"

definition read_leaf :: "('k, 'v) btree \<Rightarrow> page_id \<Rightarrow> ('k, 'v) leaf_page result" where
  "read_leaf t pid = (case bt_pages t pid of Some (LeafPage p) \<Rightarrow> Inr p | _ \<Rightarrow> Inl Undefined)"

definition read_internal :: "('k, 'v) btree \<Rightarrow> page_id \<Rightarrow> 'k internal_page result" where
  "read_internal t pid = (case bt_pages t pid of Some (InternalPage p) \<Rightarrow> Inr p | _ \<Rightarrow> Inl Undefined)"

definition write_leaf :: "page_id \<Rightarrow> ('k, 'v) leaf_page \<Rightarrow> ('k, 'v) btree \<Rightarrow> ('k, 'v) btree" where
  "write_leaf pid p t = t\<lparr>bt_pages := (bt_pages t)(pid \<mapsto> LeafPage p)\<rparr>"

definition write_internal :: "page_id \<Rightarrow> 'k internal_page \<Rightarrow> ('k, 'v) btree \<Rightarrow> ('k, 'v) btree" where
  "write_internal pid p t = t\<lparr>bt_pages := (bt_pages t)(pid \<mapsto> InternalPage p)\<rparr>"

definition new_page :: "('k, 'v) btree \<Rightarrow> page_id \<times> ('k, 'v) btree" where
  "new_page t = (bt_next_page_id t, t\<lparr>bt_next_page_id := bt_next_page_id t + 1\<rparr>)"

definition delete_page :: "page_id \<Rightarrow> ('k, 'v) btree \<Rightarrow> ('k, 'v) btree" where
  "delete_page pid t = t\<lparr>bt_pages := (bt_pages t)(pid := None)\<rparr>"

definition page_fuel :: "('k, 'v) btree \<Rightarrow> nat" where
  "page_fuel t = Suc (card (dom (bt_pages t)))"

definition IsEmpty :: "('k, 'v) btree \<Rightarrow> bool" where
  "IsEmpty t = (bt_root_page_id t = INVALID_PAGE_ID)"

definition GetRootPageId :: "('k, 'v) btree \<Rightarrow> page_id" where
  "GetRootPageId t = bt_root_page_id t"

subsection \<open>Search\<close>

text \<open>The two binary searches: the first index of a leaf whose key is not below the key, and
  the child of an internal page to descend to.\<close>

definition leaf_lower_bound :: "('k::linorder, 'v) leaf_page \<Rightarrow> 'k \<Rightarrow> nat" where
  "leaf_lower_bound leaf key =
     bsearch (\<lambda>mid. key_cmp (leaf_KeyAt leaf mid) key < 0) 0 (leaf_GetSize leaf)"

definition internal_upper_bound :: "('k::linorder) internal_page \<Rightarrow> 'k \<Rightarrow> nat" where
  "internal_upper_bound internal key =
     bsearch (\<lambda>mid. key_cmp (internal_KeyAt internal mid) key \<le> 0) 1 (internal_GetSize internal)"

definition child_for :: "('k::linorder) internal_page \<Rightarrow> 'k \<Rightarrow> page_id" where
  "child_for internal key = internal_ValueAt internal (internal_upper_bound internal key - 1)"

text \<open>The descent: the pages passed, the deepest last, and the leaf's id.\<close>

fun descend :: "nat \<Rightarrow> ('k internal_page \<Rightarrow> page_id) \<Rightarrow> ('k, 'v) btree \<Rightarrow> page_id \<Rightarrow> page_id list \<Rightarrow>
    (page_id list \<times> page_id) result" where
  "descend 0 next t pid path = Inl Stuck"
| "descend (Suc fuel) next t pid path =
     (case bt_pages t pid of
        None \<Rightarrow> Inl Undefined
      | Some (LeafPage leaf) \<Rightarrow> Inr (path, pid)
      | Some (InternalPage internal) \<Rightarrow> descend fuel next t (next internal) (path @ [pid]))"

definition GetValue :: "('k::linorder, 'v) btree \<Rightarrow> 'k \<Rightarrow> 'v option result" where
  "GetValue t key =
     (if bt_root_page_id t = INVALID_PAGE_ID then Inr None
      else
        rbind (descend (page_fuel t) (\<lambda>internal. child_for internal key) t (bt_root_page_id t) [])
          (\<lambda>(_, pid). rbind (read_leaf t pid) (\<lambda>leaf.
             let lo = leaf_lower_bound leaf key in
             if lo < leaf_GetSize leaf \<and> key_cmp (leaf_KeyAt leaf lo) key = 0 then
               (if leaf_IsTombstone leaf lo then Inr None else Inr (Some (leaf_ValueAt leaf lo)))
             else Inr None)))"

text \<open>The guards the optimistic descent holds are those of the path and the leaf.\<close>

definition FindLeafPageOptimistic :: "('k::linorder, 'v) btree \<Rightarrow> 'k \<Rightarrow> page_id result" where
  "FindLeafPageOptimistic t key =
     (if bt_root_page_id t = INVALID_PAGE_ID then Inr INVALID_PAGE_ID
      else
        rbind (descend (page_fuel t) (\<lambda>internal. child_for internal key) t (bt_root_page_id t) [])
          (\<lambda>(_, pid). Inr pid))"

subsection \<open>Insertion\<close>

text \<open>Inserting into a page whose slots are all taken writes behind its arrays.\<close>

definition leaf_insert_checked ::
    "'k bt_config \<Rightarrow> ('k, 'v) leaf_page \<Rightarrow> nat \<Rightarrow> 'k \<Rightarrow> 'v \<Rightarrow> ('k, 'v) leaf_page result" where
  "leaf_insert_checked cfg p index key value =
     (if leaf_GetSize p < leaf_slots cfg then Inr (leaf_InsertAt p index key value) else Inl Undefined)"

definition internal_insert_checked ::
    "'k bt_config \<Rightarrow> 'k internal_page \<Rightarrow> nat \<Rightarrow> 'k \<Rightarrow> page_id \<Rightarrow> 'k internal_page result" where
  "internal_insert_checked cfg p index key v =
     (if internal_GetSize p < internal_slots cfg then Inr (internal_InsertAt p index key v) else Inl Undefined)"

definition TryOptimisticInsert ::
    "('k::linorder) bt_config \<Rightarrow> ('k, 'v) btree \<Rightarrow> 'k \<Rightarrow> 'v \<Rightarrow> (bool \<times> ('k, 'v) btree) result" where
  "TryOptimisticInsert cfg t key value =
     rbind (FindLeafPageOptimistic t key) (\<lambda>leaf_pid.
       if leaf_pid = INVALID_PAGE_ID then Inr (False, t)
       else
         rbind (read_leaf t leaf_pid) (\<lambda>leaf.
           if leaf_GetSize leaf + 1 \<ge> lp_max_size leaf then Inr (False, t)
           else
             (let lo = leaf_lower_bound leaf key in
              if lo < leaf_GetSize leaf \<and> key_cmp (leaf_KeyAt leaf lo) key = 0 then Inr (False, t)
              else
                rbind (leaf_insert_checked cfg leaf lo key value) (\<lambda>leaf.
                  Inr (True, write_leaf leaf_pid leaf t)))))"

text \<open>The write set is given with its back first: the parent of the child is its head.\<close>

fun InsertIntoParent ::
    "('k::linorder) bt_config \<Rightarrow> page_id list \<Rightarrow> ('k, 'v) btree \<Rightarrow> page_id \<Rightarrow> 'k \<Rightarrow> page_id \<Rightarrow>
     ('k, 'v) btree result" where
  "InsertIntoParent cfg [] t child_pid up_key new_pid =
     (let (new_root_pid, t1) = new_page t;
          root0 = internal_SetSize2 (stale_key cfg) (internal_Init (internal_max_size cfg));
          root1 = internal_SetKeyAt root0 1 up_key;
          root2 = internal_SetValueAt root1 0 child_pid;
          root3 = internal_SetValueAt root2 1 new_pid
      in Inr ((write_internal new_root_pid root3 t1)\<lparr>bt_root_page_id := new_root_pid\<rparr>))"
| "InsertIntoParent cfg (parent_pid # ws) t child_pid up_key new_pid =
     rbind (read_internal t parent_pid) (\<lambda>parent.
       let lo = internal_upper_bound parent up_key in
       if internal_GetSize parent < internal_max_size cfg then
         rbind (internal_insert_checked cfg parent lo up_key new_pid) (\<lambda>parent.
           Inr (write_internal parent_pid parent t))
       else
         rbind (internal_insert_checked cfg parent lo up_key new_pid) (\<lambda>parent.
           let (new_parent_pid, t1) = new_page t;
               (parent1, new_parent, promote_key) =
                 internal_Split (stale_key cfg) parent (internal_Init (internal_max_size cfg));
               t2 = write_internal new_parent_pid new_parent (write_internal parent_pid parent1 t1)
           in InsertIntoParent cfg ws t2 parent_pid promote_key new_parent_pid))"

definition InsertPessimistic ::
    "('k::linorder) bt_config \<Rightarrow> ('k, 'v) btree \<Rightarrow> 'k \<Rightarrow> 'v \<Rightarrow> (bool \<times> ('k, 'v) btree) result" where
  "InsertPessimistic cfg t key value =
     (if bt_root_page_id t = INVALID_PAGE_ID then
        (let (new_pid, t1) = new_page t in
         rbind (leaf_insert_checked cfg (leaf_Init (leaf_max_size cfg)) 0 key value) (\<lambda>leaf.
           Inr (True, (write_leaf new_pid leaf t1)\<lparr>bt_root_page_id := new_pid\<rparr>)))
      else
        rbind (descend (page_fuel t) (\<lambda>internal. child_for internal key) t (bt_root_page_id t) [])
          (\<lambda>(write_set, leaf_pid). rbind (read_leaf t leaf_pid) (\<lambda>leaf.
             let lo = leaf_lower_bound leaf key in
             if lo < leaf_GetSize leaf \<and> key_cmp (leaf_KeyAt leaf lo) key = 0 then Inr (False, t)
             else
               rbind (leaf_insert_checked cfg leaf lo key value) (\<lambda>leaf.
                 if leaf_GetSize leaf = leaf_max_size cfg then
                   (let (new_pid, t1) = new_page t;
                        (leaf1, new_leaf) = leaf_Split leaf (leaf_Init (leaf_max_size cfg));
                        new_leaf1 = new_leaf\<lparr>lp_next_page_id := lp_next_page_id leaf1\<rparr>;
                        leaf2 = leaf1\<lparr>lp_next_page_id := new_pid\<rparr>;
                        t2 = write_leaf new_pid new_leaf1 (write_leaf leaf_pid leaf2 t1);
                        up_key = leaf_KeyAt new_leaf1 0
                    in rbind (InsertIntoParent cfg (rev write_set) t2 leaf_pid up_key new_pid)
                         (\<lambda>t3. Inr (True, t3)))
                 else Inr (True, write_leaf leaf_pid leaf t)))))"

definition Insert ::
    "('k::linorder) bt_config \<Rightarrow> ('k, 'v) btree \<Rightarrow> 'k \<Rightarrow> 'v \<Rightarrow> (bool \<times> ('k, 'v) btree) result" where
  "Insert cfg t key value =
     rbind (TryOptimisticInsert cfg t key value) (\<lambda>(done, t1).
       if done then Inr (True, t1) else InsertPessimistic cfg t1 key value)"

end
