(* ===== verification/BPTree_Inv.thy ===== *)
theory BPTree_Inv
  imports BPTree "HOL-Library.Multiset"
begin

section \<open>The tree a page map represents\<close>

text \<open>
  The invariant of the B+ tree: the pages represent a tree whose leaves hold sorted keys inside
  the bounds their ancestors' separators give, on pairwise different pages, linked in order. A
  context (the path from a node up to the root with the siblings on both sides) is what an
  operation that has descended leaves unchanged.
\<close>

subsection \<open>Binary search\<close>

lemma bsearch_correct:
  assumes "lo \<le> c" "c \<le> hi" "\<And>i. lo \<le> i \<Longrightarrow> i < c \<Longrightarrow> P i" "\<And>i. c \<le> i \<Longrightarrow> i < hi \<Longrightarrow> \<not> P i"
  shows "bsearch P lo hi = c"
  using assms
proof (induction P lo hi rule: bsearch.induct)
  case (1 P lo hi)
  let ?m = "(lo + hi) div 2"
  show ?case
  proof (cases "lo < hi")
    case False
    with "1.prems" show ?thesis by (subst bsearch.simps) auto
  next
    case True
    then have m: "lo \<le> ?m" "?m < hi" by auto
    show ?thesis
    proof (cases "P ?m")
      case P: True
      then have "?m < c" using "1.prems"(4) [of ?m] m by (metis not_le)
      with "1.IH"(1) [OF True refl P] "1.prems" True P show ?thesis
        by (subst bsearch.simps) (auto simp: Let_def)
    next
      case P: False
      then have "c \<le> ?m" using "1.prems"(3) [of ?m] m by (metis not_le)
      with "1.IH"(2) [OF True refl P] "1.prems" True P m show ?thesis
        by (subst bsearch.simps) (auto simp: Let_def)
    qed
  qed
qed

lemma key_cmp_simps [simp]:
  "key_cmp a b < 0 \<longleftrightarrow> a < b" "key_cmp a b \<le> 0 \<longleftrightarrow> a \<le> b" "key_cmp a b = 0 \<longleftrightarrow> a = b"
  by (auto simp: key_cmp_def)

subsection \<open>Trees and contexts\<close>

datatype ('k, 'v) tree =
    TLeaf page_id "('k, 'v) leaf_page"
  | TNode page_id "'k internal_page" "('k, 'v) tree list"

fun root_id :: "('k, 'v) tree \<Rightarrow> page_id" where
  "root_id (TLeaf p lf) = p"
| "root_id (TNode p ip ts) = p"

fun pids :: "('k, 'v) tree \<Rightarrow> page_id list" where
  "pids (TLeaf p lf) = [p]"
| "pids (TNode p ip ts) = p # concat (map pids ts)"

fun leaves :: "('k, 'v) tree \<Rightarrow> (page_id \<times> ('k, 'v) leaf_page) list" where
  "leaves (TLeaf p lf) = [(p, lf)]"
| "leaves (TNode p ip ts) = concat (map leaves ts)"

fun depth :: "('k, 'v) tree \<Rightarrow> nat" where
  "depth (TLeaf p lf) = 0"
| "depth (TNode p ip ts) = Suc (foldr max (map depth ts) 0)"

fun repr :: "(page_id \<rightharpoonup> ('k, 'v) bt_node) \<Rightarrow> ('k, 'v) tree \<Rightarrow> bool" where
  "repr m (TLeaf p lf) = (m p = Some (LeafPage lf))"
| "repr m (TNode p ip ts) =
     (m p = Some (InternalPage ip) \<and> ip_children ip = map root_id ts \<and> (\<forall>t \<in> set ts. repr m t))"

lemma root_in_pids [simp]: "root_id t \<in> set (pids t)"
  by (cases t) auto

lemma repr_cong: "repr m t \<Longrightarrow> (\<And>p. p \<in> set (pids t) \<Longrightarrow> m' p = m p) \<Longrightarrow> repr m' t"
  by (induction t) auto

type_synonym ('k, 'v) ctx = "(page_id \<times> 'k internal_page \<times> ('k, 'v) tree list \<times> ('k, 'v) tree list) list"

fun plug :: "('k, 'v) tree \<Rightarrow> ('k, 'v) ctx \<Rightarrow> ('k, 'v) tree" where
  "plug t [] = t"
| "plug t ((p, ip, ls, rs) # C) = plug (TNode p ip (ls @ t # rs)) C"

fun ctx_pids :: "('k, 'v) ctx \<Rightarrow> page_id list" where
  "ctx_pids [] = []"
| "ctx_pids ((p, ip, ls, rs) # C) = p # concat (map pids (ls @ rs)) @ ctx_pids C"

fun ctx_repr :: "(page_id \<rightharpoonup> ('k, 'v) bt_node) \<Rightarrow> page_id \<Rightarrow> ('k, 'v) ctx \<Rightarrow> bool" where
  "ctx_repr m r [] = True"
| "ctx_repr m r ((p, ip, ls, rs) # C) =
     (m p = Some (InternalPage ip) \<and> ip_children ip = map root_id ls @ r # map root_id rs \<and>
      (\<forall>t \<in> set (ls @ rs). repr m t) \<and> ctx_repr m p C)"

fun left_leaves :: "('k, 'v) ctx \<Rightarrow> (page_id \<times> ('k, 'v) leaf_page) list" where
  "left_leaves [] = []"
| "left_leaves ((p, ip, ls, rs) # C) = left_leaves C @ concat (map leaves ls)"

fun right_leaves :: "('k, 'v) ctx \<Rightarrow> (page_id \<times> ('k, 'v) leaf_page) list" where
  "right_leaves [] = []"
| "right_leaves ((p, ip, ls, rs) # C) = concat (map leaves rs) @ right_leaves C"

definition ctx_path :: "('k, 'v) ctx \<Rightarrow> page_id list" where
  "ctx_path C = map fst C"

lemma plug_append: "plug t (C @ D) = plug (plug t C) D"
  by (induction C arbitrary: t) auto

lemma repr_plug: "repr m (plug t C) \<longleftrightarrow> repr m t \<and> ctx_repr m (root_id t) C"
  by (induction t C rule: plug.induct) auto

lemma pids_plug: "mset (pids (plug t C)) = mset (pids t) + mset (ctx_pids C)"
  by (induction t C rule: plug.induct) auto

lemma set_pids_plug: "set (pids (plug t C)) = set (pids t) \<union> set (ctx_pids C)"
  using pids_plug [of t C] by (metis set_mset_mset set_mset_union)

lemma distinct_pids_plug: "distinct (pids (plug t C)) \<longleftrightarrow> distinct (pids t @ ctx_pids C)"
  using pids_plug [of t C] by (metis mset_append mset_eq_imp_distinct_iff)

lemma leaves_plug: "leaves (plug t C) = left_leaves C @ leaves t @ right_leaves C"
  by (induction t C rule: plug.induct) auto

lemma ctx_repr_cong:
  "ctx_repr m r C \<Longrightarrow> (\<And>p. p \<in> set (ctx_pids C) \<Longrightarrow> m' p = m p) \<Longrightarrow> ctx_repr m' r C"
proof (induction C arbitrary: r)
  case (Cons f C)
  obtain p ip ls rs where f: "f = (p, ip, ls, rs)" by (cases f)
  have "repr m' t" if "t \<in> set (ls @ rs)" for t
    using Cons.prems that by (intro repr_cong [of m t m']) (auto simp: f)
  with Cons f show ?case by auto
qed simp

subsection \<open>Bounds\<close>

text \<open>Bounds of keys: at least the lower one, below the upper one; \<open>None\<close> is no bound.\<close>

definition bound_lt :: "'k::linorder option \<Rightarrow> 'k option \<Rightarrow> bool" where
  "bound_lt lo hi = (case lo of None \<Rightarrow> True | Some a \<Rightarrow> (case hi of None \<Rightarrow> True | Some b \<Rightarrow> a < b))"

definition within :: "'k::linorder option \<Rightarrow> 'k option \<Rightarrow> 'k \<Rightarrow> bool" where
  "within lo hi k \<longleftrightarrow> (case lo of None \<Rightarrow> True | Some a \<Rightarrow> a \<le> k) \<and> (case hi of None \<Rightarrow> True | Some b \<Rightarrow> k < b)"

lemma bound_simps [simp]:
  "bound_lt None x" "bound_lt x None" "bound_lt (Some a) (Some b) \<longleftrightarrow> a < b"
  "within None None k" "within (Some a) None k \<longleftrightarrow> a \<le> k" "within None (Some b) k \<longleftrightarrow> k < b"
  "within (Some a) (Some b) k \<longleftrightarrow> a \<le> k \<and> k < b"
  by (auto simp: bound_lt_def within_def split: option.splits)

lemma within_split: "within lo (Some k) x \<Longrightarrow> bound_lt (Some k) hi \<Longrightarrow> within lo hi x"
  by (cases lo; cases hi) auto

lemma within_split': "within (Some k) hi x \<Longrightarrow> bound_lt lo (Some k) \<Longrightarrow> within lo hi x"
  by (cases lo; cases hi) auto

lemma bound_lt_trans: "bound_lt lo (Some k) \<Longrightarrow> bound_lt (Some k) hi \<Longrightarrow> bound_lt lo hi"
  by (cases lo; cases hi) auto

definition leaf_wf :: "('k::linorder, 'v) leaf_page \<Rightarrow> bool" where
  "leaf_wf lf \<longleftrightarrow> sorted_wrt (<) (map fst (lp_entries lf)) \<and> distinct (lp_tombstones lf) \<and>
     (\<forall>i \<in> set (lp_tombstones lf). i < length (lp_entries lf))"

fun wft :: "'k::linorder option \<Rightarrow> 'k option \<Rightarrow> ('k, 'v) tree \<Rightarrow> bool"
  and chain :: "'k option \<Rightarrow> 'k option \<Rightarrow> 'k list \<Rightarrow> ('k, 'v) tree list \<Rightarrow> bool" where
  "wft lo hi (TLeaf p lf) = (bound_lt lo hi \<and> leaf_wf lf \<and> (\<forall>e \<in> set (lp_entries lf). within lo hi (fst e)))"
| "wft lo hi (TNode p ip ts) = (length (ip_keys ip) = length ts \<and> chain lo hi (tl (ip_keys ip)) ts)"
| "chain lo hi ks [] = False"
| "chain lo hi [] (t # ts) = (ts = [] \<and> wft lo hi t)"
| "chain lo hi (k # ks) (t # ts) = (wft lo (Some k) t \<and> chain (Some k) hi ks ts)"

lemma wft_bounds: fixes t :: "('k::linorder, 'v) tree" and ts :: "('k, 'v) tree list"
  shows "wft lo hi t \<Longrightarrow> bound_lt lo hi" and "chain lo hi ks ts \<Longrightarrow> bound_lt lo hi"
  by (induction lo hi t and lo hi ks ts rule: wft_chain.induct) (auto intro: bound_lt_trans)

definition leaf_keys :: "(page_id \<times> ('k, 'v) leaf_page) list \<Rightarrow> 'k set" where
  "leaf_keys ls = (\<Union>(p, lf) \<in> set ls. fst ` set (lp_entries lf))"

lemma leaf_keys_simps [simp]:
  "leaf_keys [] = {}" "leaf_keys (x # ls) = fst ` set (lp_entries (snd x)) \<union> leaf_keys ls"
  "leaf_keys (ls @ rs) = leaf_keys ls \<union> leaf_keys rs"
  by (auto simp: leaf_keys_def split: prod.splits)

lemma wft_keys: fixes t :: "('k::linorder, 'v) tree" and ts :: "('k, 'v) tree list"
  shows "wft lo hi t \<Longrightarrow> k \<in> leaf_keys (leaves t) \<Longrightarrow> within lo hi k"
    and "chain lo hi ks ts \<Longrightarrow> k \<in> leaf_keys (concat (map leaves ts)) \<Longrightarrow> within lo hi k"
proof (induction lo hi t and lo hi ks ts rule: wft_chain.induct)
  case (5 lo hi k' ks t ts)
  then have b: "bound_lt lo (Some k')" "bound_lt (Some k') hi" using wft_bounds by auto
  from 5 show ?case by (auto intro: within_split [OF _ b(2)] within_split' [OF _ b(1)])
qed auto

text \<open>A list of children split at one of them.\<close>

fun before :: "'k::linorder option \<Rightarrow> 'k option \<Rightarrow> 'k list \<Rightarrow> ('k, 'v) tree list \<Rightarrow> bool" where
  "before lo a [] [] = (a = lo)"
| "before lo a (k # ks) (t # ts) = (wft lo (Some k) t \<and> before (Some k) a ks ts)"
| "before lo a _ _ = False"

definition after :: "'k::linorder option \<Rightarrow> 'k option \<Rightarrow> 'k list \<Rightarrow> ('k, 'v) tree list \<Rightarrow> bool" where
  "after b hi ks ts = (case ks of [] \<Rightarrow> ts = [] \<and> b = hi | k # ks' \<Rightarrow> b = Some k \<and> chain b hi ks' ts)"

lemma chain_split:
  "length ks1 = length ls \<Longrightarrow>
   chain lo hi (ks1 @ ks2) (ls @ t # rs) \<longleftrightarrow> (\<exists>a b. before lo a ks1 ls \<and> wft a b t \<and> after b hi ks2 rs)"
proof (induction ks1 ls arbitrary: lo rule: list_induct2)
  case Nil
  then show ?case by (cases ks2) (auto simp: after_def)
next
  case (Cons k ks l ls)
  then show ?case by auto
qed

lemma chain_cut:
  "length ks1 = length ls \<Longrightarrow>
   chain lo hi (ks1 @ k # ks2) (ls @ t # rs) \<longleftrightarrow> chain lo (Some k) ks1 (ls @ [t]) \<and> chain (Some k) hi ks2 rs"
proof (induction ks1 ls arbitrary: lo rule: list_induct2)
  case Nil
  then show ?case by auto
next
  case (Cons k ks l ls)
  then show ?case by auto
qed

lemma chain_length: "chain lo hi ks ts \<Longrightarrow> length ts = Suc (length ks)"
proof (induction ts arbitrary: lo ks)
  case (Cons t ts)
  then show ?case by (cases ks) auto
qed simp

lemma before_length: "before lo a ks ts \<Longrightarrow> length ks = length ts"
  by (induction lo a ks ts rule: before.induct) auto

lemma before_mono: "before (Some k) a ks ls \<Longrightarrow> \<exists>a'. a = Some a' \<and> k \<le> a'"
proof (induction "Some k" a ks ls arbitrary: k rule: before.induct)
  case (2 a k' ks t ts)
  then have "bound_lt (Some k) (Some k')" using wft_bounds(1) [of "Some k" "Some k'" t] by simp
  with 2 show ?case by (fastforce intro: order.trans less_imp_le)
qed auto

lemma before_bounds:
  "before lo a ks ls \<Longrightarrow> (\<forall>x \<in> set ks. \<exists>a'. a = Some a' \<and> x \<le> a') \<and>
   (\<forall>x \<in> leaf_keys (concat (map leaves ls)). \<exists>a'. a = Some a' \<and> x < a')"
proof (induction lo a ks ls rule: before.induct)
  case (2 lo a k ks t ts)
  then obtain a' where a: "a = Some a'" "k \<le> a'" using before_mono [of k a ks ts] by auto
  have "x < a'" if "x \<in> leaf_keys (leaves t)" for x
    using wft_keys(1) [of lo "Some k" t x] 2(2) that a(2) by (cases lo) auto
  with 2 a show ?case by auto
qed auto

lemma chain_seps: "chain (Some k) hi ks ts \<Longrightarrow> x \<in> set ks \<Longrightarrow> k < x"
proof (induction ts arbitrary: k ks)
  case (Cons t ts)
  show ?case
  proof (cases ks)
    case (Cons k' ks')
    with Cons.prems have "wft (Some k) (Some k') t" "chain (Some k') hi ks' ts" by auto
    then have "k < k'" using wft_bounds(1) [of "Some k" "Some k'" t] by simp
    with Cons.IH [OF \<open>chain (Some k') hi ks' ts\<close>] Cons.prems(2) Cons show ?thesis by fastforce
  qed (use Cons.prems in auto)
qed simp

lemma after_bounds:
  "after b hi ks ts \<Longrightarrow> (\<forall>x \<in> set ks. \<exists>b'. b = Some b' \<and> b' \<le> x) \<and>
   (\<forall>x \<in> leaf_keys (concat (map leaves ts)). \<exists>b'. b = Some b' \<and> b' \<le> x)"
proof (cases ks)
  case (Cons k ks')
  assume "after b hi ks ts"
  with Cons have b: "b = Some k" "chain (Some k) hi ks' ts" by (auto simp: after_def)
  have "k \<le> x" if "x \<in> leaf_keys (concat (map leaves ts))" for x
    using wft_keys(2) [OF b(2) that] by (cases hi) auto
  then show ?thesis using b(1) chain_seps [OF b(2)] Cons by (auto intro: less_imp_le)
qed (auto simp: after_def)

subsection \<open>The descent\<close>

text \<open>A context is well formed between the outer bounds \<open>lo\<close>, \<open>hi\<close> and the bounds \<open>a\<close>, \<open>b\<close> of
  its hole.\<close>

fun ctx_wf :: "'k::linorder option \<Rightarrow> 'k option \<Rightarrow> 'k option \<Rightarrow> 'k option \<Rightarrow> ('k, 'v) ctx \<Rightarrow> bool" where
  "ctx_wf lo hi a b [] = (a = lo \<and> b = hi)"
| "ctx_wf lo hi a b ((p, ip, ls, rs) # C) =
     (\<exists>a' b' k0 ks1 ks2. ip_keys ip = k0 # ks1 @ ks2 \<and> before a' a ks1 ls \<and> after b b' ks2 rs \<and>
        ctx_wf lo hi a' b' C)"

lemma ctx_wf_plug:
  "ctx_wf lo hi a b C \<Longrightarrow> wft a b t \<Longrightarrow> wft lo hi (plug t C)"
proof (induction C arbitrary: a b t)
  case (Cons f C)
  obtain p ip ls rs where f: "f = (p, ip, ls, rs)" by (cases f)
  from Cons.prems(1) f obtain a' b' k0 ks1 ks2 where c: "ip_keys ip = k0 # ks1 @ ks2" "before a' a ks1 ls"
    "after b b' ks2 rs" "ctx_wf lo hi a' b' C" by auto
  have "length ks1 = length ls" by (rule before_length [OF c(2)])
  then have "chain a' b' (ks1 @ ks2) (ls @ t # rs)" using chain_split c(2,3) Cons.prems(2) by blast
  then have "wft a' b' (TNode p ip (ls @ t # rs))" using chain_length c(1) by fastforce
  with Cons.IH [OF c(4)] f show ?case by simp
qed simp

lemma within_iff: "within a b k \<longleftrightarrow> within a None k \<and> within None b k"
  by (cases a; cases b) auto

lemma before_within: "before lo a ks ls \<Longrightarrow> within a None k \<Longrightarrow> within lo None k"
proof (induction lo a ks ls rule: before.induct)
  case (2 lo a k' ks t ts)
  then have "bound_lt lo (Some k')" "within (Some k') None k" using wft_bounds(1) by auto
  then show ?case by (auto intro: within_split')
qed auto

lemma after_within: "after b hi ks ts \<Longrightarrow> within None b k \<Longrightarrow> within None hi k"
proof (cases ks)
  case (Cons k' ks')
  assume a: "after b hi ks ts" "within None b k"
  with Cons have "b = Some k'" "chain (Some k') hi ks' ts" by (auto simp: after_def)
  then have "bound_lt (Some k') hi" "k < k'" using wft_bounds(2) a(2) by auto
  then show ?thesis by (cases hi) auto
qed (auto simp: after_def)

text \<open>The leaves beside the hole hold no key the hole could hold.\<close>

lemma ctx_leaf_bounds:
  assumes "ctx_wf lo hi a b C" "within a b k"
  shows "within lo hi k \<and> (\<forall>x \<in> leaf_keys (left_leaves C). x < k) \<and> (\<forall>x \<in> leaf_keys (right_leaves C). k < x)"
  using assms
proof (induction C arbitrary: a b)
  case (Cons f C)
  obtain p ip ls rs where f: "f = (p, ip, ls, rs)" by (cases f)
  from Cons.prems(1) f obtain a' b' k0 ks1 ks2 where c: "ip_keys ip = k0 # ks1 @ ks2" "before a' a ks1 ls"
    "after b b' ks2 rs" "ctx_wf lo hi a' b' C" by auto
  have "within a' b' k"
    using Cons.prems(2) before_within [OF c(2)] after_within [OF c(3)] within_iff by blast
  note IH = Cons.IH [OF c(4) this]
  have "x < k" if "x \<in> leaf_keys (concat (map leaves ls))" for x
    using before_bounds [OF c(2)] that Cons.prems(2) by (cases b) fastforce+
  moreover have "k < x" if x: "x \<in> leaf_keys (concat (map leaves rs))" for x
  proof -
    obtain b1 where "b = Some b1" "b1 \<le> x" using after_bounds [OF c(3)] x by blast
    with Cons.prems(2) show ?thesis by (cases a) auto
  qed
  ultimately show ?case using IH f by auto
qed simp

text \<open>The binary search of an internal page finds the child whose bounds hold the key.\<close>

lemma upper_bound_at:
  assumes k: "ip_keys ip = k0 # ks1 @ ks2" "length (ip_children ip) = Suc (length ks1 + length ks2)"
    and c: "\<And>x. x \<in> set ks1 \<Longrightarrow> x \<le> key" "\<And>x. x \<in> set ks2 \<Longrightarrow> key < x"
  shows "internal_upper_bound ip key = Suc (length ks1)"
  unfolding internal_upper_bound_def
proof (rule bsearch_correct)
  fix i assume "1 \<le> i" "i < Suc (length ks1)"
  then have "ip_keys ip ! i \<in> set ks1" using k(1) by (auto simp: nth_Cons' nth_append)
  with c(1) show "key_cmp (internal_KeyAt ip i) key \<le> 0" by (simp add: internal_KeyAt_def)
next
  fix i assume "Suc (length ks1) \<le> i" "i < internal_GetSize ip"
  then have "ip_keys ip ! i \<in> set ks2" using k by (auto simp: nth_Cons' nth_append internal_GetSize_def)
  with c(2) show "\<not> key_cmp (internal_KeyAt ip i) key \<le> 0" by (simp add: internal_KeyAt_def not_le)
qed (use k in \<open>simp_all add: internal_GetSize_def\<close>)

lemma chain_find:
  "chain lo hi ks ts \<Longrightarrow> within lo hi key \<Longrightarrow>
   \<exists>ks1 ks2 ls t rs a b. ks = ks1 @ ks2 \<and> ts = ls @ t # rs \<and> length ks1 = length ls \<and>
     before lo a ks1 ls \<and> wft a b t \<and> after b hi ks2 rs \<and> within a b key"
proof (induction ts arbitrary: lo ks)
  case (Cons t ts)
  show ?case
  proof (cases ks)
    case Nil
    with Cons.prems show ?thesis
      by (intro exI [of _ "[]"] exI [of _ t] exI [of _ lo] exI [of _ hi]) (auto simp: after_def)
  next
    case (Cons k ks')
    with Cons.prems have c: "wft lo (Some k) t" "chain (Some k) hi ks' ts" by auto
    show ?thesis
    proof (cases "key < k")
      case True
      then have "within lo (Some k) key" using Cons.prems(2) by (cases lo; cases hi) auto
      with c Cons show ?thesis
        by (intro exI [of _ "[]"] exI [of _ ks] exI [of _ t] exI [of _ ts] exI [of _ lo] exI [of _ "Some k"])
          (auto simp: after_def)
    next
      case False
      then have "within (Some k) hi key" using Cons.prems(2) by (cases hi; cases lo) auto
      from Cons.IH [OF c(2) this] obtain ks1 ks2 ls u rs a b where
        "ks' = ks1 @ ks2" "ts = ls @ u # rs" "length ks1 = length ls" "before (Some k) a ks1 ls" "wft a b u"
        "after b hi ks2 rs" "within a b key" by blast
      with c(1) Cons show ?thesis
        by (intro exI [of _ "k # ks1"] exI [of _ ks2] exI [of _ "t # ls"] exI [of _ u] exI [of _ rs]
            exI [of _ a] exI [of _ b]) simp
    qed
  qed
qed simp


lemma lookup_loop_correct:
  assumes "result = left - 1" "left \<le> c" "c \<le> right + 1"
    "\<And>i. left \<le> i \<Longrightarrow> i < c \<Longrightarrow> P i" "\<And>i. c \<le> i \<Longrightarrow> i \<le> right \<Longrightarrow> \<not> P i"
  shows "lookup_loop P left right result = c - 1"
  using assms
proof (induction P left right result rule: lookup_loop.induct)
  case (1 P left right result)
  let ?m = "(left + right) div 2"
  show ?case
  proof (cases "left \<le> right")
    case False
    with "1.prems" show ?thesis by (subst lookup_loop.simps) auto
  next
    case True
    then have m: "left \<le> ?m" "?m \<le> right" by auto
    show ?thesis
    proof (cases "P ?m")
      case P: True
      then have "?m < c" using "1.prems"(5) [of ?m] m by (metis not_le)
      with "1.IH"(1) [OF True refl P] "1.prems" True P m show ?thesis
        by (subst lookup_loop.simps) (auto simp: Let_def)
    next
      case P: False
      then have "c \<le> ?m" using "1.prems"(4) [of ?m] m by (metis not_le)
      with "1.IH"(2) [OF True refl P] "1.prems" True P m show ?thesis
        by (subst lookup_loop.simps) (auto simp: Let_def)
    qed
  qed
qed

text \<open>\<open>Lookup\<close>, the search of \<open>Remove\<close>, finds the same child.\<close>

lemma Lookup_at:
  assumes k: "ip_keys ip = k0 # ks1 @ ks2" "length (ip_children ip) = Suc (length ks1 + length ks2)"
    and c: "\<And>x. x \<in> set ks1 \<Longrightarrow> x \<le> key" "\<And>x. x \<in> set ks2 \<Longrightarrow> key < x"
  shows "internal_Lookup ip key = ip_children ip ! length ks1"
proof -
  have "lookup_loop (\<lambda>mid. key_cmp (internal_KeyAt ip (nat mid)) key \<le> 0) 1
      (int (internal_GetSize ip) - 1) 0 = int (Suc (length ks1)) - 1"
  proof (rule lookup_loop_correct)
    fix i :: int assume i: "1 \<le> i" "i < int (Suc (length ks1))"
    then have "ip_keys ip ! nat i \<in> set ks1" using k(1) by (auto simp: nth_Cons' nth_append nat_less_iff)
    with c(1) show "key_cmp (internal_KeyAt ip (nat i)) key \<le> 0" by (simp add: internal_KeyAt_def)
  next
    fix i :: int assume i: "int (Suc (length ks1)) \<le> i" "i \<le> int (internal_GetSize ip) - 1"
    then have "nat i - 1 - length ks1 < length ks2" "\<not> nat i - 1 < length ks1" "nat i \<noteq> 0"
      using k(2) by (auto simp: internal_GetSize_def)
    then have "ip_keys ip ! nat i \<in> set ks2" using k(1) by (simp add: nth_Cons' nth_append)
    with c(2) show "\<not> key_cmp (internal_KeyAt ip (nat i)) key \<le> 0" by (simp add: internal_KeyAt_def not_le)
  qed (use k in \<open>simp_all add: internal_GetSize_def\<close>)
  then show ?thesis by (simp add: internal_Lookup_def internal_ValueAt_def)
qed

lemma ctx_wf_snoc:
  "ctx_wf a' b' a b C \<Longrightarrow> ctx_wf lo hi a' b' [f] \<Longrightarrow> ctx_wf lo hi a b (C @ [f])"
proof (induction C arbitrary: a b)
  case (Cons g C)
  obtain p ip ls rs where g: "g = (p, ip, ls, rs)" by (cases g)
  from Cons.prems(1) g obtain a1 b1 k0 ks1 ks2 where "ip_keys ip = k0 # ks1 @ ks2" "before a1 a ks1 ls"
    "after b b1 ks2 rs" "ctx_wf a' b' a1 b1 C" by auto
  with Cons.IH [of a1 b1] Cons.prems(2) g show ?case by auto
next
  case Nil
  then show ?case by simp
qed

lemma foldr_max_ge: "x \<in> set xs \<Longrightarrow> (x::nat) \<le> foldr max xs 0"
  by (induction xs) auto

lemma foldr_max_le: "\<forall>t \<in> set ts. depth t \<le> length (pids t) \<Longrightarrow>
    foldr max (map depth ts) 0 \<le> length (concat (map pids ts))"
  by (induction ts) auto

lemma depth_le: "depth t \<le> length (pids t)"
proof (induction t)
  case (TNode p ip ts)
  then show ?case using foldr_max_le [of ts] by simp
qed simp

text \<open>A search function that agrees with the binary search descends to the leaf that could hold
  the key.\<close>

definition searches :: "('k::linorder internal_page \<Rightarrow> page_id) \<Rightarrow> 'k \<Rightarrow> bool" where
  "searches nxt key \<longleftrightarrow> (\<forall>ip k0 ks1 ks2. ip_keys ip = k0 # ks1 @ ks2 \<longrightarrow>
     length (ip_children ip) = Suc (length ks1 + length ks2) \<longrightarrow>
     (\<forall>x \<in> set ks1. x \<le> key) \<longrightarrow> (\<forall>x \<in> set ks2. key < x) \<longrightarrow> nxt ip = ip_children ip ! length ks1)"

lemma searches_child_for: "searches (\<lambda>ip. child_for ip key) key"
  by (auto simp: searches_def child_for_def internal_ValueAt_def upper_bound_at)

lemma searches_Lookup: "searches (\<lambda>ip. internal_Lookup ip key) key"
  by (auto simp: searches_def Lookup_at)

lemma descend_find:
  "repr (bt_pages T) t \<Longrightarrow> wft lo hi t \<Longrightarrow> within lo hi key \<Longrightarrow> depth t < fuel \<Longrightarrow> searches nxt key \<Longrightarrow>
   \<exists>C p lf a b. t = plug (TLeaf p lf) C \<and> ctx_wf lo hi a b C \<and> wft a b (TLeaf p lf) \<and> within a b key \<and>
     descend fuel nxt T (root_id t) path = Inr (path @ rev (ctx_path C), p)"
proof (induction t arbitrary: lo hi fuel path)
  case (TLeaf p lf)
  then obtain n where "fuel = Suc n" by (cases fuel) auto
  with TLeaf show ?case
    by (intro exI [of _ "[]"] exI [of _ p] exI [of _ lf] exI [of _ lo] exI [of _ hi]) (simp add: ctx_path_def)
next
  case (TNode p ip ts)
  then obtain n where n: "fuel = Suc n" by (cases fuel) auto
  have ch: "chain lo hi (tl (ip_keys ip)) ts" "length (ip_keys ip) = length ts" using TNode.prems(2) by auto
  have ne: "ip_keys ip \<noteq> []" using ch chain_length by fastforce
  obtain ks1 ks2 ls u rs a' b' where s: "tl (ip_keys ip) = ks1 @ ks2" "ts = ls @ u # rs" "length ks1 = length ls"
    "before lo a' ks1 ls" "wft a' b' u" "after b' hi ks2 rs" "within a' b' key"
    using chain_find [OF ch(1) TNode.prems(3)] by blast
  have k: "ip_keys ip = hd (ip_keys ip) # ks1 @ ks2" using ne s(1) by (cases "ip_keys ip") auto
  have r: "bt_pages T p = Some (InternalPage ip)" "ip_children ip = map root_id ts" "repr (bt_pages T) u"
    using TNode.prems(1) s(2) by auto
  have len: "length (ip_children ip) = Suc (length ks1 + length ks2)"
    using ch k r(2) by (metis length_Cons length_append length_map)
  have "x \<le> key" if "x \<in> set ks1" for x
    using before_bounds [OF s(4)] that s(7) by (cases b') fastforce+
  moreover have "key < x" if x: "x \<in> set ks2" for x
  proof -
    obtain b1 where "b' = Some b1" "b1 \<le> x" using after_bounds [OF s(6)] x by blast
    with s(7) show ?thesis by (cases a') auto
  qed
  ultimately have "nxt ip = ip_children ip ! length ks1"
    using TNode.prems(5) k len unfolding searches_def by blast
  then have nxt: "nxt ip = root_id u"
    using r(2) s(2,3) nth_append_length [of "map root_id ls" "root_id u" "map root_id rs"] by simp
  have "depth u \<le> foldr max (map depth ts) 0" using s(2) by (intro foldr_max_ge) auto
  then have d: "depth u < n" using TNode.prems(4) n by simp
  have u: "u \<in> set ts" using s(2) by simp
  obtain C q lf a b where C: "u = plug (TLeaf q lf) C" "ctx_wf a' b' a b C" "wft a b (TLeaf q lf)" "within a b key"
    "descend n nxt T (root_id u) (path @ [p]) = Inr ((path @ [p]) @ rev (ctx_path C), q)"
    using TNode.IH [OF u r(3) s(5,7) d TNode.prems(5), of "path @ [p]"] by blast
  have "ctx_wf lo hi a' b' [(p, ip, ls, rs)]" using k s(4,6) by auto
  from ctx_wf_snoc [OF C(2) this] C r(1) n nxt s(2) show ?case
    by (intro exI [of _ "C @ [(p, ip, ls, rs)]"] exI [of _ q] exI [of _ lf] exI [of _ a] exI [of _ b])
      (simp add: plug_append ctx_path_def)
qed

subsection \<open>What a tree stores\<close>

text \<open>The live entries of a leaf, and of the tree as a map.\<close>

definition live :: "('k, 'v) leaf_page \<Rightarrow> ('k \<times> 'v) list" where
  "live lf = map (\<lambda>i. lp_entries lf ! i) (filter (\<lambda>i. i \<notin> set (lp_tombstones lf)) [0..<length (lp_entries lf)])"

definition tree_map :: "('k, 'v) tree \<Rightarrow> 'k \<rightharpoonup> 'v" where
  "tree_map t = map_of (concat (map (live \<circ> snd) (leaves t)))"

text \<open>The leaves are linked in order.\<close>

fun linked :: "(page_id \<times> ('k, 'v) leaf_page) list \<Rightarrow> bool" where
  "linked [] = True"
| "linked [(p, lf)] = (lp_next_page_id lf = INVALID_PAGE_ID)"
| "linked ((p, lf) # (q, lg) # ls) = (lp_next_page_id lf = q \<and> linked ((q, lg) # ls))"


lemma map_of_concat_middle:
  assumes "k \<notin> fst ` set xs" "k \<notin> fst ` set zs"
  shows "map_of (xs @ ys @ zs) k = map_of ys k"
proof -
  have "map_of xs k = None" "map_of zs k = None" using assms by (simp_all add: map_of_eq_None_iff)
  then show ?thesis by (simp add: map_add_def split: option.splits)
qed

lemma live_keys: "fst ` set (live lf) \<subseteq> fst ` set (lp_entries lf)"
  by (auto simp: live_def)

lemma live_concat_keys: "fst ` set (concat (map (live \<circ> snd) ls)) \<subseteq> leaf_keys ls"
proof (induction ls)
  case (Cons x ls)
  then show ?case using live_keys [of "snd x"] by (simp add: image_Un) blast
qed simp

text \<open>Only the leaf the search reaches can hold the key.\<close>

lemma tree_map_plug:
  assumes "ctx_wf lo hi a b C" "within a b k"
  shows "tree_map (plug t C) k = map_of (concat (map (live \<circ> snd) (leaves t))) k"
proof -
  note b = ctx_leaf_bounds [OF assms]
  have "k \<notin> leaf_keys (left_leaves C)" "k \<notin> leaf_keys (right_leaves C)" using b by auto
  then have "k \<notin> fst ` set (concat (map (live \<circ> snd) (left_leaves C)))"
    "k \<notin> fst ` set (concat (map (live \<circ> snd) (right_leaves C)))"
    using subsetD [OF live_concat_keys] by metis+
  from map_of_concat_middle [OF this] show ?thesis by (simp add: tree_map_def leaves_plug)
qed

text \<open>The lower bound in a leaf.\<close>

lemma lower_bound_at:
  assumes "lp_entries lf = xs @ ys" "\<forall>e \<in> set xs. fst e < k" "\<forall>e \<in> set ys. k \<le> fst e"
  shows "leaf_lower_bound lf k = length xs"
  unfolding leaf_lower_bound_def
proof (rule bsearch_correct)
  fix i assume "i < length xs"
  then have "lp_entries lf ! i \<in> set xs" using assms(1) by (simp add: nth_append)
  with assms(2) show "key_cmp (leaf_KeyAt lf i) k < 0" by (simp add: leaf_KeyAt_def)
next
  fix i assume "length xs \<le> i" "i < leaf_GetSize lf"
  then have "lp_entries lf ! i \<in> set ys" using assms(1) by (auto simp: nth_append leaf_GetSize_def)
  with assms(3) show "\<not> key_cmp (leaf_KeyAt lf i) k < 0" by (simp add: leaf_KeyAt_def not_less)
qed (use assms(1) in \<open>simp_all add: leaf_GetSize_def\<close>)

text \<open>A sorted list splits at any key.\<close>

lemma sorted_split:
  assumes "sorted_wrt (<) (map fst (es :: ('k::linorder \<times> 'v) list))"
  obtains xs ys where "es = xs @ ys" "\<forall>e \<in> set xs. fst e < k" "\<forall>e \<in> set ys. k \<le> fst e"
proof -
  let ?xs = "takeWhile (\<lambda>e. fst e < k) es" and ?ys = "dropWhile (\<lambda>e. fst e < k) es"
  have eq: "es = ?xs @ ?ys" by simp
  have "k \<le> fst e" if "e \<in> set ?ys" for e
  proof (cases ?ys)
    case (Cons y ys')
    then have "k \<le> fst y" using hd_dropWhile [of "\<lambda>e. fst e < k" es] by (metis list.discI list.sel(1) not_less)
    moreover have "sorted_wrt (<) (map fst ?ys)" using assms eq by (metis map_append sorted_wrt_append)
    then have "\<forall>e \<in> set ys'. fst y < fst e" unfolding Cons by simp
    ultimately show ?thesis using that Cons by fastforce
  next
    case Nil
    with that show ?thesis by (metis empty_iff empty_set)
  qed
  moreover have "\<forall>e \<in> set ?xs. fst e < k" by (auto dest: set_takeWhileD)
  ultimately show thesis using that [OF eq] by blast
qed

lemma live_lookup:
  assumes wf: "leaf_wf lf" and s: "lp_entries lf = xs @ ys" "\<forall>e \<in> set xs. fst e < k" "\<forall>e \<in> set ys. k \<le> fst e"
  shows "map_of (live lf) k =
    (if length xs < length (lp_entries lf) \<and> fst (lp_entries lf ! length xs) = k \<and> length xs \<notin> set (lp_tombstones lf)
     then Some (snd (lp_entries lf ! length xs)) else None)"
proof -
  let ?es = "lp_entries lf" and ?n = "length xs"
  have dist: "distinct (map fst ?es)"
    using wf strict_sorted_iff unfolding leaf_wf_def by blast
  have inj: "i = j" if "i < length ?es" "j < length ?es" "fst (?es ! i) = fst (?es ! j)" for i j
    using dist that by (metis distinct_conv_nth length_map nth_map)
  have dl: "distinct (map fst (live lf))"
    unfolding live_def by (auto simp: distinct_map inj_on_def intro: inj)
  have only: "i = ?n" if i: "i < length ?es" "fst (?es ! i) = k" for i
  proof -
    have "\<not> i < ?n" using s(1,2) i by (metis less_irrefl nth_append nth_mem)
    moreover have "\<not> ?n < i"
    proof
      assume "?n < i"
      then have "fst (?es ! ?n) < fst (?es ! i)"
        using wf i(1) by (simp add: leaf_wf_def sorted_wrt_iff_nth_less)
      moreover have "ys \<noteq> []" using s(1) i(1) \<open>?n < i\<close> by auto
      then have "?es ! ?n \<in> set ys" using s(1) by (simp add: nth_append)
      ultimately show False using s(3) i(2) by fastforce
    qed
    ultimately show ?thesis by simp
  qed
  show ?thesis
  proof (cases "?n < length ?es \<and> fst (?es ! ?n) = k \<and> ?n \<notin> set (lp_tombstones lf)")
    case True
    then have "?es ! ?n \<in> set (live lf)" by (auto simp: live_def)
    then have "(k, snd (?es ! ?n)) \<in> set (live lf)" using True by (metis prod.collapse)
    with True show ?thesis using map_of_is_SomeI [OF dl] by simp
  next
    case False
    have "k \<notin> fst ` set (live lf)"
    proof
      assume "k \<in> fst ` set (live lf)"
      then obtain i where i: "i < length ?es" "i \<notin> set (lp_tombstones lf)" "fst (?es ! i) = k"
        unfolding live_def by auto
      with only [OF i(1,3)] False show False by blast
    qed
    then have "map_of (live lf) k = None" by (simp add: map_of_eq_None_iff)
    with False show ?thesis by auto
  qed
qed


subsection \<open>The invariant of the B+ tree\<close>

fun sizes_ok :: "'k bt_config \<Rightarrow> ('k, 'v) tree \<Rightarrow> bool" where
  "sizes_ok cfg (TLeaf p lf) = (lp_max_size lf = leaf_max_size cfg \<and> length (lp_entries lf) < leaf_max_size cfg)"
| "sizes_ok cfg (TNode p ip ts) = (length ts \<le> internal_max_size cfg \<and> (\<forall>t \<in> set ts. sizes_ok cfg t))"

definition config_ok :: "'k bt_config \<Rightarrow> bool" where
  "config_ok cfg \<longleftrightarrow> 2 \<le> leaf_max_size cfg \<and> leaf_max_size cfg \<le> leaf_slots cfg \<and>
     2 \<le> internal_max_size cfg \<and> internal_max_size cfg < internal_slots cfg"

definition bt_ok :: "('k::linorder) bt_config \<Rightarrow> ('k, 'v) btree \<Rightarrow> ('k, 'v) tree option \<Rightarrow> bool" where
  "bt_ok cfg t T \<longleftrightarrow> finite (dom (bt_pages t)) \<and> 0 \<le> bt_next_page_id t \<and>
     (case T of
        None \<Rightarrow> bt_root_page_id t = INVALID_PAGE_ID
      | Some r \<Rightarrow> bt_root_page_id t = root_id r \<and> repr (bt_pages t) r \<and> wft None None r \<and>
          distinct (pids r) \<and> (\<forall>p \<in> set (pids r). 0 \<le> p \<and> p < bt_next_page_id t) \<and>
          linked (leaves r) \<and> sizes_ok cfg r)"

definition bt_map :: "('k, 'v) tree option \<Rightarrow> 'k \<rightharpoonup> 'v" where
  "bt_map T = (case T of None \<Rightarrow> Map.empty | Some r \<Rightarrow> tree_map r)"

definition bt_keys :: "('k, 'v) tree option \<Rightarrow> 'k set" where
  "bt_keys T = (case T of None \<Rightarrow> {} | Some r \<Rightarrow> leaf_keys (leaves r))"

lemma bt_okD:
  assumes "bt_ok cfg t (Some r)"
  shows "bt_root_page_id t = root_id r" "repr (bt_pages t) r" "wft None None r" "distinct (pids r)"
    "p \<in> set (pids r) \<Longrightarrow> 0 \<le> p \<and> p < bt_next_page_id t" "finite (dom (bt_pages t))" "linked (leaves r)"
    "sizes_ok cfg r" "bt_root_page_id t \<noteq> INVALID_PAGE_ID" "0 \<le> bt_next_page_id t"
proof -
  have a: "finite (dom (bt_pages t)) \<and> 0 \<le> bt_next_page_id t \<and> bt_root_page_id t = root_id r \<and>
      repr (bt_pages t) r \<and> wft None None r \<and> distinct (pids r) \<and>
      (\<forall>p \<in> set (pids r). 0 \<le> p \<and> p < bt_next_page_id t) \<and> linked (leaves r) \<and> sizes_ok cfg r"
    using assms by (simp add: bt_ok_def)
  then show "bt_root_page_id t = root_id r" "repr (bt_pages t) r" "wft None None r" "distinct (pids r)"
    "finite (dom (bt_pages t))" "linked (leaves r)" "sizes_ok cfg r" "0 \<le> bt_next_page_id t" by simp_all
  show "p \<in> set (pids r) \<Longrightarrow> 0 \<le> p \<and> p < bt_next_page_id t" using a by blast
  have "0 \<le> root_id r" using a root_in_pids [of r] by blast
  then have "root_id r \<noteq> -1" by linarith
  then show "bt_root_page_id t \<noteq> INVALID_PAGE_ID" using a by (simp add: INVALID_PAGE_ID_def)
qed

lemma repr_dom: "repr m t \<Longrightarrow> set (pids t) \<subseteq> dom m"
  by (induction t) auto

text \<open>The fuel of a descent is enough.\<close>

lemma depth_fuel: "bt_ok cfg t (Some r) \<Longrightarrow> depth r < page_fuel t"
proof -
  assume ok: "bt_ok cfg t (Some r)"
  have "length (pids r) = card (set (pids r))" using bt_okD(4) [OF ok] by (simp add: distinct_card)
  also have "\<dots> \<le> card (dom (bt_pages t))"
    using repr_dom [OF bt_okD(2) [OF ok]] bt_okD(6) [OF ok] by (intro card_mono)
  finally show ?thesis using depth_le [of r] by (simp add: page_fuel_def)
qed

text \<open>Every search ends at the one leaf whose bounds hold the key.\<close>

lemma find_leaf:
  assumes ok: "bt_ok cfg t (Some r)" and nxt: "searches nxt key"
  obtains C p lf a b where "r = plug (TLeaf p lf) C" "ctx_wf None None a b C" "wft a b (TLeaf p lf)"
    "within a b key" "descend (page_fuel t) nxt t (bt_root_page_id t) [] = Inr (rev (ctx_path C), p)"
    "bt_pages t p = Some (LeafPage lf)"
proof -
  obtain C p lf a b where C: "r = plug (TLeaf p lf) C" "ctx_wf None None a b C" "wft a b (TLeaf p lf)"
    "within a b key" "descend (page_fuel t) nxt t (root_id r) [] = Inr ([] @ rev (ctx_path C), p)"
    using descend_find [OF bt_okD(2,3) [OF ok] _ depth_fuel [OF ok] nxt, of "[]"] by auto
  moreover have "bt_pages t p = Some (LeafPage lf)" using bt_okD(2) [OF ok] C(1) by (simp add: repr_plug)
  ultimately show thesis using that bt_okD(1) [OF ok] by simp
qed

lemma GetValue_ok:
  assumes ok: "bt_ok cfg t T"
  shows "GetValue t key = Inr (bt_map T key)"
proof (cases T)
  case None
  with ok show ?thesis by (simp add: GetValue_def bt_ok_def bt_map_def)
next
  case (Some r)
  note ok' = ok [unfolded Some]
  obtain C p lf a b where C: "r = plug (TLeaf p lf) C" "ctx_wf None None a b C" "wft a b (TLeaf p lf)"
    "within a b key" "descend (page_fuel t) (\<lambda>ip. child_for ip key) t (bt_root_page_id t) [] = Inr (rev (ctx_path C), p)"
    "bt_pages t p = Some (LeafPage lf)"
    by (rule find_leaf [OF ok' searches_child_for])
  have wf: "leaf_wf lf" using C(3) by simp
  then have "sorted_wrt (<) (map fst (lp_entries lf))" by (simp add: leaf_wf_def)
  then obtain xs ys where s: "lp_entries lf = xs @ ys" "\<forall>e \<in> set xs. fst e < key"
    "\<forall>e \<in> set ys. key \<le> fst e" by (rule sorted_split)
  have "bt_map T key = map_of (live lf) key"
    using tree_map_plug [OF C(2,4), of "TLeaf p lf"] by (simp add: Some bt_map_def C(1))
  also have "\<dots> = (if length xs < length (lp_entries lf) \<and> fst (lp_entries lf ! length xs) = key \<and>
      length xs \<notin> set (lp_tombstones lf) then Some (snd (lp_entries lf ! length xs)) else None)"
    by (rule live_lookup [OF wf s])
  finally show ?thesis
    using C(5,6) bt_okD(9) [OF ok'] lower_bound_at [OF s]
    by (auto simp: GetValue_def read_leaf_def leaf_GetSize_def leaf_KeyAt_def leaf_ValueAt_def
        leaf_IsTombstone_def list_ex_iff Let_def)
qed

end
