(* ===== verification/BPTree_Insert.thy ===== *)
theory BPTree_Insert
  imports BPTree_Inv
begin

section \<open>Insertion keeps the B+ tree\<close>

text \<open>
  \<open>Insert\<close> preserves the invariant of \<open>BPTree_Inv\<close> on every path (optimistic, leaf split,
  splits all the way up, new root) and adds exactly the new entry.
\<close>

subsection \<open>Sizes and contexts\<close>

fun ctx_sizes :: "'k bt_config \<Rightarrow> ('k, 'v) ctx \<Rightarrow> bool" where
  "ctx_sizes cfg [] = True"
| "ctx_sizes cfg ((p, ip, ls, rs) # C) =
     (Suc (length ls + length rs) \<le> internal_max_size cfg \<and> (\<forall>t \<in> set (ls @ rs). sizes_ok cfg t) \<and>
      ctx_sizes cfg C)"

lemma sizes_plug: "sizes_ok cfg (plug t C) \<longleftrightarrow> sizes_ok cfg t \<and> ctx_sizes cfg C"
  by (induction t C rule: plug.induct) auto

lemma root_plug: "root_id (plug t C) = (if C = [] then root_id t else fst (last C))"
  by (induction t C rule: plug.induct) auto

lemma chain_cut_at:
  assumes c: "chain lo hi ks ts" and m: "0 < mid" "mid < length ts"
  shows "chain lo (Some (ks ! (mid - 1))) (take (mid - 1) ks) (take mid ts) \<and>
    chain (Some (ks ! (mid - 1))) hi (drop mid ks) (drop mid ts)"
proof -
  have len: "length ts = Suc (length ks)" by (rule chain_length [OF c])
  have "ks = take (mid - 1) ks @ ks ! (mid - 1) # drop mid ks"
    using id_take_nth_drop [of "mid - 1" ks] m len by simp
  moreover have "ts = take (mid - 1) ts @ ts ! (mid - 1) # drop mid ts"
    using id_take_nth_drop [of "mid - 1" ts] m by simp
  moreover have "length (take (mid - 1) ks) = length (take (mid - 1) ts)" using len m by simp
  moreover have "take (mid - 1) ts @ [ts ! (mid - 1)] = take mid ts"
    using take_Suc_conv_app_nth [of "mid - 1" ts] m by simp
  ultimately show ?thesis using chain_cut c by metis
qed

text \<open>Two children in the place of one.\<close>

lemma chain_two:
  assumes "before lo a ks1 ls" "wft a (Some k) l" "wft (Some k) b r" "after b hi ks2 rs"
  shows "chain lo hi (ks1 @ k # ks2) (ls @ l # r # rs)"
proof -
  have len: "length ks1 = length ls" by (rule before_length [OF assms(1)])
  have "after (Some k) (Some k) [] []" by (simp add: after_def)
  then have "chain lo (Some k) (ks1 @ []) (ls @ l # [])" using chain_split [OF len] assms(1,2) by blast
  moreover have "chain (Some k) hi ([] @ ks2) ([] @ r # rs)"
    using chain_split [of "[]" "[]" "Some k" hi ks2 r rs] assms(3,4) by auto
  ultimately show ?thesis using chain_cut [OF len] by simp
qed

subsection \<open>Inserting into the parent\<close>

text \<open>A page map in which two trees are to take the place of the one a context was built for.\<close>

definition split_ok ::
    "('k::linorder) bt_config \<Rightarrow> ('k, 'v) btree \<Rightarrow> ('k, 'v) tree \<Rightarrow> 'k \<Rightarrow> ('k, 'v) tree \<Rightarrow> ('k, 'v) ctx \<Rightarrow> bool" where
  "split_ok cfg t l k r C \<longleftrightarrow>
     (\<exists>a b. ctx_wf None None a b C \<and> wft a (Some k) l \<and> wft (Some k) b r) \<and>
     repr (bt_pages t) l \<and> repr (bt_pages t) r \<and> ctx_repr (bt_pages t) (root_id l) C \<and>
     distinct (pids l @ pids r @ ctx_pids C) \<and>
     (\<forall>p \<in> set (pids l @ pids r @ ctx_pids C). 0 \<le> p \<and> p < bt_next_page_id t) \<and>
     sizes_ok cfg l \<and> sizes_ok cfg r \<and> ctx_sizes cfg C \<and> finite (dom (bt_pages t)) \<and>
     0 \<le> bt_next_page_id t \<and> (C \<noteq> [] \<longrightarrow> bt_root_page_id t = fst (last C))"

lemma new_root_ok:
  assumes "split_ok cfg t l k r []" "config_ok cfg"
  shows "\<exists>t' T. InsertIntoParent cfg [] t (root_id l) k (root_id r) = Inr t' \<and>
    leaves T = leaves l @ leaves r \<and>
    (linked (leaves T) \<longrightarrow> bt_ok cfg t' (Some T))"
proof -
  let ?n = "bt_next_page_id t"
  define ip where "ip = internal_SetValueAt (internal_SetValueAt (internal_SetKeyAt
    (internal_SetSize2 (stale_key cfg) (internal_Init (internal_max_size cfg))) 1 k) 0 (root_id l)) 1 (root_id r)"
  have ip: "ip_keys ip = [stale_key cfg, k]" "ip_children ip = [root_id l, root_id r]"
    by (simp_all add: ip_def internal_SetValueAt_def internal_SetKeyAt_def internal_SetSize2_def internal_Init_def)
  define T where "T = TNode ?n ip [l, r]"
  define t' where "t' = (write_internal ?n ip (t\<lparr>bt_next_page_id := ?n + 1\<rparr>))\<lparr>bt_root_page_id := ?n\<rparr>"
  have s: "wft None (Some k) l" "wft (Some k) None r" "repr (bt_pages t) l" "repr (bt_pages t) r"
    "distinct (pids l @ pids r)" "\<And>p. p \<in> set (pids l @ pids r) \<Longrightarrow> 0 \<le> p \<and> p < ?n"
    "sizes_ok cfg l" "sizes_ok cfg r" "finite (dom (bt_pages t))" "0 \<le> ?n"
    using assms(1) by (auto simp: split_ok_def)
  have pg: "bt_pages t' = (bt_pages t)(?n \<mapsto> InternalPage ip)" by (simp add: t'_def write_internal_def)
  have fresh: "?n \<notin> set (pids l @ pids r)" using s(6) by fastforce
  have "repr (bt_pages t') l" "repr (bt_pages t') r"
    using fresh by (auto intro!: repr_cong [OF s(3)] repr_cong [OF s(4)] simp: pg)
  then have "repr (bt_pages t') T" by (simp add: T_def pg ip)
  moreover have "wft None None T" using s(1,2) by (simp add: T_def ip)
  moreover have "distinct (pids T)" using s(5) fresh by (simp add: T_def)
  moreover have "\<forall>p \<in> set (pids T). 0 \<le> p \<and> p < bt_next_page_id t'"
    using s(6,10) by (force simp: T_def t'_def write_internal_def)
  moreover have "sizes_ok cfg T" using s(7,8) assms(2) by (simp add: T_def config_ok_def)
  moreover have "finite (dom (bt_pages t'))" "0 \<le> bt_next_page_id t'" "bt_root_page_id t' = root_id T"
    using s(9,10) by (simp_all add: pg) (simp_all add: t'_def write_internal_def T_def)
  moreover have "InsertIntoParent cfg [] t (root_id l) k (root_id r) = Inr t'"
    by (simp add: new_page_def t'_def ip_def)
  ultimately show ?thesis by (intro exI [of _ t'] exI [of _ T]) (simp add: bt_ok_def T_def)
qed


text \<open>The separators of a parent around the bounds of the child that was split.\<close>

lemma parent_search:
  assumes k: "ip_keys ip = k0 # ks1 @ ks2" "length (ip_children ip) = Suc (length ks1 + length ks2)"
    and c: "before a' a ks1 ls" "after b b' ks2 rs" "bound_lt a (Some k)" "bound_lt (Some k) b"
  shows "internal_upper_bound ip k = Suc (length ks1)"
proof (rule upper_bound_at [OF k])
  fix x assume "x \<in> set ks1"
  then obtain a1 where "a = Some a1" "x \<le> a1" using before_bounds [OF c(1)] by blast
  with c(3) show "x \<le> k" by simp
next
  fix x assume "x \<in> set ks2"
  then obtain b1 where "b = Some b1" "b1 \<le> x" using after_bounds [OF c(2)] by blast
  with c(4) show "k < x" by simp
qed

lemma InsertAt_lists:
  assumes "ip_keys ip = k0 # ks1 @ ks2" "ip_children ip = cs1 @ c # cs2" "length ks1 = length cs1"
  shows "ip_keys (internal_InsertAt ip (Suc (length ks1)) k q) = k0 # ks1 @ k # ks2"
    "ip_children (internal_InsertAt ip (Suc (length ks1)) k q) = cs1 @ c # q # cs2"
    "ip_max_size (internal_InsertAt ip (Suc (length ks1)) k q) = ip_max_size ip"
  using assms by (simp_all add: internal_InsertAt_def)

lemma distinct_perm: "distinct xs \<Longrightarrow> mset ys = mset xs \<Longrightarrow> distinct ys"
  by (metis mset_eq_imp_distinct_iff)

lemma set_perm: "mset ys = mset xs \<Longrightarrow> set ys = set xs"
  by (metis set_mset_mset)

text \<open>The parent has room: the two children stand where the one was.\<close>

lemma parent_room_ok:
  assumes ok: "split_ok cfg t l k r ((p, ip, ls, rs) # C)" and cfg: "config_ok cfg"
    and room: "Suc (length ls + length rs) < internal_max_size cfg"
  shows "\<exists>t' T. InsertIntoParent cfg (p # ctx_path C) t (root_id l) k (root_id r) = Inr t' \<and>
    leaves T = left_leaves ((p, ip, ls, rs) # C) @ leaves l @ leaves r @ right_leaves ((p, ip, ls, rs) # C) \<and>
    (linked (leaves T) \<longrightarrow> bt_ok cfg t' (Some T))"
proof -
  from ok obtain a b where w: "ctx_wf None None a b ((p, ip, ls, rs) # C)" "wft a (Some k) l" "wft (Some k) b r"
    unfolding split_ok_def by blast
  from w(1) obtain a' b' k0 ks1 ks2 where c: "ip_keys ip = k0 # ks1 @ ks2" "before a' a ks1 ls" "after b b' ks2 rs"
    "ctx_wf None None a' b' C" by auto
  have s: "repr (bt_pages t) l" "repr (bt_pages t) r" "bt_pages t p = Some (InternalPage ip)"
    "ip_children ip = map root_id ls @ root_id l # map root_id rs" "\<And>u. u \<in> set (ls @ rs) \<Longrightarrow> repr (bt_pages t) u"
    "ctx_repr (bt_pages t) p C" "distinct (pids l @ pids r @ ctx_pids ((p, ip, ls, rs) # C))"
    "\<And>q. q \<in> set (pids l @ pids r @ ctx_pids ((p, ip, ls, rs) # C)) \<Longrightarrow> 0 \<le> q \<and> q < bt_next_page_id t"
    "sizes_ok cfg l" "sizes_ok cfg r" "\<And>u. u \<in> set (ls @ rs) \<Longrightarrow> sizes_ok cfg u" "ctx_sizes cfg C"
    "finite (dom (bt_pages t))" "0 \<le> bt_next_page_id t" "bt_root_page_id t = fst (last ((p, ip, ls, rs) # C))"
    using ok by (auto simp: split_ok_def)
  have len: "length ks1 = length ls" by (rule before_length [OF c(2)])
  have ch: "chain a' b' (ks1 @ k # ks2) (ls @ l # r # rs)" by (rule chain_two [OF c(2) w(2,3) c(3)])
  have len2: "length ks2 = length rs" using chain_length [OF ch] len by simp
  have ub: "internal_upper_bound ip k = Suc (length ks1)"
    using parent_search [OF c(1) _ c(2,3)] wft_bounds(1) [OF w(2)] wft_bounds(1) [OF w(3)] s(4) len len2 by simp
  define jp where "jp = internal_InsertAt ip (Suc (length ks1)) k (root_id r)"
  have jp: "ip_keys jp = k0 # ks1 @ k # ks2" "ip_children jp = map root_id ls @ root_id l # root_id r # map root_id rs"
    unfolding jp_def using InsertAt_lists [OF c(1) s(4)] len by simp_all
  let ?N = "TNode p jp (ls @ l # r # rs)" and ?t = "write_internal p jp t"
  have "InsertIntoParent cfg (p # ctx_path C) t (root_id l) k (root_id r) = Inr ?t"
    using s(3,4) room ub cfg
    by (simp add: read_internal_def internal_GetSize_def internal_insert_checked_def config_ok_def jp_def)
  moreover have "bt_ok cfg ?t (Some (plug ?N C))" if "linked (leaves (plug ?N C))"
  proof -
    have pg: "bt_pages ?t = (bt_pages t)(p \<mapsto> InternalPage jp)" by (simp add: write_internal_def)
    have np: "p \<notin> set (pids l @ pids r @ concat (map pids (ls @ rs)) @ ctx_pids C)" using s(7) by auto
    have "repr (bt_pages ?t) u" if "u \<in> set (ls @ l # r # rs)" for u
    proof (rule repr_cong [of "bt_pages t"])
      show "repr (bt_pages t) u" using that s(1,2,5) by auto
      fix q assume "q \<in> set (pids u)"
      then have "q \<noteq> p" using that np by auto
      then show "bt_pages ?t q = bt_pages t q" by (simp add: pg)
    qed
    moreover have "ctx_repr (bt_pages ?t) p C"
      by (rule ctx_repr_cong [OF s(6)]) (use np in \<open>auto simp: pg\<close>)
    ultimately have "repr (bt_pages ?t) (plug ?N C)" using jp(2) by (simp add: repr_plug pg)
    moreover have "wft None None (plug ?N C)"
      using ctx_wf_plug [OF c(4), of ?N] ch jp(1) len len2 by simp
    moreover have perm: "mset (pids ?N @ ctx_pids C) = mset (pids l @ pids r @ ctx_pids ((p, ip, ls, rs) # C))" by simp
    then have "distinct (pids (plug ?N C))" using distinct_perm [OF s(7)] distinct_pids_plug by blast
    moreover have "\<forall>q \<in> set (pids (plug ?N C)). 0 \<le> q \<and> q < bt_next_page_id ?t"
      using s(8) set_perm [OF perm] by (auto simp: set_pids_plug write_internal_def)
    moreover have "sizes_ok cfg (plug ?N C)" using s(9-12) room by (auto simp: sizes_plug)
    ultimately show ?thesis
      using s(13-15) that by (auto simp: bt_ok_def pg root_plug write_internal_def)
  qed
  ultimately show ?thesis by (intro exI [of _ ?t] exI [of _ "plug ?N C"]) (simp add: leaves_plug)
qed


text \<open>The parent is full: it takes the two children and is split in turn.\<close>

lemma Split_lists:
  assumes k: "length (ip_keys ip) = length ts" "ip_children ip = map root_id ts"
    and m: "mid = length ts div 2" "0 < mid" "mid < length ts"
    and e: "internal_Split stale ip fresh = (ip1, ip2, pk)"
  shows "ip_keys ip1 = take mid (ip_keys ip)" "ip_children ip1 = map root_id (take mid ts)"
    "tl (ip_keys ip2) = drop mid (tl (ip_keys ip))" "length (ip_keys ip2) = length (drop mid ts)"
    "ip_children ip2 = map root_id (drop mid ts)" "pk = tl (ip_keys ip) ! (mid - 1)"
proof -
  have sz: "internal_GetSize ip = length ts" by (simp add: internal_GetSize_def k(2))
  then have "ip1 = ip\<lparr>ip_keys := take mid (ip_keys ip), ip_children := take mid (ip_children ip)\<rparr>"
    "ip2 = fresh\<lparr>ip_keys := stale # drop (mid + 1) (ip_keys ip),
      ip_children := (ip_children ip ! mid) # drop (mid + 1) (ip_children ip)\<rparr>" "pk = ip_keys ip ! mid"
    using e m(1) by (auto simp: internal_Split_def Let_def)
  moreover have "ip_children ip ! mid # drop (mid + 1) (ip_children ip) = drop mid (ip_children ip)"
    using m(3) k(2) by (metis Cons_nth_drop_Suc Suc_eq_plus1 length_map)
  ultimately show "ip_keys ip1 = take mid (ip_keys ip)" "ip_children ip1 = map root_id (take mid ts)"
    "tl (ip_keys ip2) = drop mid (tl (ip_keys ip))" "length (ip_keys ip2) = length (drop mid ts)"
    "ip_children ip2 = map root_id (drop mid ts)" "pk = tl (ip_keys ip) ! (mid - 1)"
    using k m(2,3) by (auto simp: take_map drop_map drop_Suc nth_tl)
qed

lemma parent_full:
  assumes ok: "split_ok cfg t l k r ((p, ip, ls, rs) # C)" and cfg: "config_ok cfg"
    and full: "Suc (length ls + length rs) = internal_max_size cfg"
  shows "\<exists>t' L pk R. InsertIntoParent cfg (p # ctx_path C) t (root_id l) k (root_id r) =
      InsertIntoParent cfg (ctx_path C) t' (root_id L) pk (root_id R) \<and> split_ok cfg t' L pk R C \<and>
    leaves L @ leaves R = concat (map leaves ls) @ leaves l @ leaves r @ concat (map leaves rs)"
proof -
  from ok obtain a b where w: "ctx_wf None None a b ((p, ip, ls, rs) # C)" "wft a (Some k) l" "wft (Some k) b r"
    unfolding split_ok_def by blast
  from w(1) obtain a' b' k0 ks1 ks2 where c: "ip_keys ip = k0 # ks1 @ ks2" "before a' a ks1 ls" "after b b' ks2 rs"
    "ctx_wf None None a' b' C" by auto
  have s: "repr (bt_pages t) l" "repr (bt_pages t) r" "bt_pages t p = Some (InternalPage ip)"
    "ip_children ip = map root_id ls @ root_id l # map root_id rs" "\<And>u. u \<in> set (ls @ rs) \<Longrightarrow> repr (bt_pages t) u"
    "ctx_repr (bt_pages t) p C" "distinct (pids l @ pids r @ ctx_pids ((p, ip, ls, rs) # C))"
    "\<And>q. q \<in> set (pids l @ pids r @ ctx_pids ((p, ip, ls, rs) # C)) \<Longrightarrow> 0 \<le> q \<and> q < bt_next_page_id t"
    "sizes_ok cfg l" "sizes_ok cfg r" "\<And>u. u \<in> set (ls @ rs) \<Longrightarrow> sizes_ok cfg u" "ctx_sizes cfg C"
    "finite (dom (bt_pages t))" "0 \<le> bt_next_page_id t" "bt_root_page_id t = fst (last ((p, ip, ls, rs) # C))"
    using ok by (auto simp: split_ok_def)
  have len: "length ks1 = length ls" by (rule before_length [OF c(2)])
  have ch: "chain a' b' (ks1 @ k # ks2) (ls @ l # r # rs)" by (rule chain_two [OF c(2) w(2,3) c(3)])
  have len2: "length ks2 = length rs" using chain_length [OF ch] len by simp
  have ub: "internal_upper_bound ip k = Suc (length ks1)"
    using parent_search [OF c(1) _ c(2,3)] wft_bounds(1) [OF w(2)] wft_bounds(1) [OF w(3)] s(4) len len2 by simp
  define jp where "jp = internal_InsertAt ip (Suc (length ks1)) k (root_id r)"
  define ts where "ts = ls @ l # r # rs"
  have jp: "ip_keys jp = k0 # ks1 @ k # ks2" "ip_children jp = map root_id ts"
    unfolding jp_def ts_def using InsertAt_lists [OF c(1) s(4)] len by simp_all
  define mid where "mid = length ts div 2"
  have lt: "length ts = Suc (internal_max_size cfg)" using full by (simp add: ts_def)
  then have mid: "0 < mid" "mid < length ts" using cfg by (auto simp: mid_def config_ok_def)
  obtain jp1 jp2 pk where sp: "internal_Split (stale_key cfg) jp (internal_Init (internal_max_size cfg)) = (jp1, jp2, pk)"
    by (cases "internal_Split (stale_key cfg) jp (internal_Init (internal_max_size cfg))") auto
  have jl: "length (ip_keys jp) = length ts" using jp(1) len len2 by (simp add: ts_def)
  note S = Split_lists [OF jl jp(2) mid_def mid sp]
  let ?n = "bt_next_page_id t"
  define L where "L = TNode p jp1 (take mid ts)"
  define R where "R = TNode ?n jp2 (drop mid ts)"
  define t' where "t' = write_internal ?n jp2 (write_internal p jp1 (t\<lparr>bt_next_page_id := ?n + 1\<rparr>))"
  have "InsertIntoParent cfg (p # ctx_path C) t (root_id l) k (root_id r) =
      InsertIntoParent cfg (ctx_path C) t' (root_id L) pk (root_id R)"
    using s(3,4) full ub cfg sp
    by (simp add: read_internal_def internal_GetSize_def internal_insert_checked_def config_ok_def jp_def
        new_page_def t'_def L_def R_def)
  moreover have "leaves L @ leaves R = concat (map leaves ls) @ leaves l @ leaves r @ concat (map leaves rs)"
    unfolding L_def R_def leaves.simps concat_append [symmetric] map_append [symmetric] append_take_drop_id
    by (simp add: ts_def)
  moreover have "split_ok cfg t' L pk R C"
  proof -
    have pg: "bt_pages t' = (bt_pages t)(p \<mapsto> InternalPage jp1, ?n \<mapsto> InternalPage jp2)"
      by (simp add: t'_def write_internal_def)
    have np: "p \<notin> set (pids l @ pids r @ concat (map pids (ls @ rs)) @ ctx_pids C)" using s(7) by auto
    have nn: "?n \<noteq> q" if "q \<in> set (pids l @ pids r @ ctx_pids ((p, ip, ls, rs) # C))" for q
      using s(8) [OF that] by auto
    have rep: "repr (bt_pages t') u" if "u \<in> set ts" for u
    proof (rule repr_cong [of "bt_pages t"])
      show "repr (bt_pages t) u" using that s(1,2,5) by (auto simp: ts_def)
      fix q assume "q \<in> set (pids u)"
      then have "q \<noteq> p" "?n \<noteq> q" using that np nn by (auto simp: ts_def)
      then show "bt_pages t' q = bt_pages t q" by (simp add: pg)
    qed
    have "p \<noteq> ?n" using nn [of p] by auto
    then have "repr (bt_pages t') L" "repr (bt_pages t') R"
      using rep S(2,5) by (auto simp: L_def R_def pg dest: in_set_takeD in_set_dropD)
    moreover have "ctx_repr (bt_pages t') (root_id L) C"
      unfolding L_def root_id.simps
      by (rule ctx_repr_cong [OF s(6)]) (use np nn in \<open>auto simp: pg\<close>)
    moreover have "wft a' (Some pk) L \<and> wft (Some pk) b' R"
      using chain_cut_at [OF ch [folded ts_def] mid] S(1,3,4,6) jl jp(1) mid
      by (simp add: L_def R_def take_Suc_conv_app_nth tl_take)
    moreover have perm: "mset (pids L @ pids R @ ctx_pids C) =
        mset (?n # pids l @ pids r @ ctx_pids ((p, ip, ls, rs) # C))"
    proof -
      have "mset (concat (map pids (take mid ts))) + mset (concat (map pids (drop mid ts))) = mset (concat (map pids ts))"
        by (metis append_take_drop_id concat_append map_append mset_append)
      then have "mset (pids L @ pids R @ ctx_pids C) =
          add_mset ?n (add_mset p (mset (concat (map pids ts)) + mset (ctx_pids C)))"
        unfolding L_def R_def by simp
      also have "\<dots> = mset (?n # pids l @ pids r @ ctx_pids ((p, ip, ls, rs) # C))" by (simp add: ts_def)
      finally show ?thesis .
    qed
    moreover have "distinct (?n # pids l @ pids r @ ctx_pids ((p, ip, ls, rs) # C))" using s(7) nn by auto
    then have "distinct (pids L @ pids R @ ctx_pids C)" using distinct_perm perm by blast
    moreover have "\<forall>q \<in> set (pids L @ pids R @ ctx_pids C). 0 \<le> q \<and> q < bt_next_page_id t'"
      unfolding set_perm [OF perm]
    proof
      fix q assume "q \<in> set (?n # pids l @ pids r @ ctx_pids ((p, ip, ls, rs) # C))"
      then have "q = ?n \<or> q \<in> set (pids l @ pids r @ ctx_pids ((p, ip, ls, rs) # C))"
        by (simp only: list.set insert_iff)
      then have "q = ?n \<or> 0 \<le> q \<and> q < ?n" using s(8) by blast
      moreover have "bt_next_page_id t' = ?n + 1" by (simp add: t'_def write_internal_def)
      ultimately show "0 \<le> q \<and> q < bt_next_page_id t'" using s(14) by linarith
    qed
    moreover have "sizes_ok cfg u" if "u \<in> set ts" for u using that s(9-11) by (auto simp: ts_def)
    then have "sizes_ok cfg L" "sizes_ok cfg R"
      using lt mid cfg by (auto simp: L_def R_def mid_def config_ok_def dest: in_set_takeD in_set_dropD)
    moreover have "C \<noteq> [] \<Longrightarrow> bt_root_page_id t' = fst (last C)"
      using s(15) by (simp add: t'_def write_internal_def)
    moreover have "finite (dom (bt_pages t'))" "0 \<le> bt_next_page_id t'"
      using s(13,14) by (simp_all add: pg) (simp add: t'_def write_internal_def)
    ultimately show ?thesis using c(4) s(12) unfolding split_ok_def by blast
  qed
  ultimately show ?thesis by blast
qed

lemma InsertIntoParent_ok:
  "split_ok cfg t l k r C \<Longrightarrow> config_ok cfg \<Longrightarrow>
   \<exists>t' T. InsertIntoParent cfg (ctx_path C) t (root_id l) k (root_id r) = Inr t' \<and>
     leaves T = left_leaves C @ leaves l @ leaves r @ right_leaves C \<and>
     (linked (leaves T) \<longrightarrow> bt_ok cfg t' (Some T))"
proof (induction C arbitrary: t l k r)
  case Nil
  then show ?case using new_root_ok by (fastforce simp: ctx_path_def)
next
  case (Cons f C)
  obtain p ip ls rs where f: "f = (p, ip, ls, rs)" by (cases f)
  note ok = Cons.prems(1) [unfolded f]
  have path: "ctx_path (f # C) = p # ctx_path C" by (simp add: ctx_path_def f)
  have "Suc (length ls + length rs) \<le> internal_max_size cfg" using ok by (simp add: split_ok_def)
  then consider "Suc (length ls + length rs) < internal_max_size cfg"
    | "Suc (length ls + length rs) = internal_max_size cfg" by linarith
  then show ?case
  proof cases
    case 1
    show ?thesis unfolding path using parent_room_ok [OF ok Cons.prems(2) 1] by (simp only: f)
  next
    case 2
    from parent_full [OF ok Cons.prems(2) 2] obtain t' L pk R where
      e: "InsertIntoParent cfg (p # ctx_path C) t (root_id l) k (root_id r) =
        InsertIntoParent cfg (ctx_path C) t' (root_id L) pk (root_id R)" "split_ok cfg t' L pk R C"
      "leaves L @ leaves R = concat (map leaves ls) @ leaves l @ leaves r @ concat (map leaves rs)" by blast
    have "left_leaves C @ leaves L @ leaves R @ right_leaves C =
        left_leaves (f # C) @ leaves l @ leaves r @ right_leaves (f # C)"
      using arg_cong [OF e(3), of "\<lambda>x. left_leaves C @ x @ right_leaves C"] by (simp add: f)
    with Cons.IH [OF e(2) Cons.prems(2)] e(1) show ?thesis unfolding path by simp
  qed
qed


subsection \<open>The live entries of a leaf\<close>

fun live_from :: "nat \<Rightarrow> (nat \<Rightarrow> bool) \<Rightarrow> 'a list \<Rightarrow> 'a list" where
  "live_from n dead [] = []"
| "live_from n dead (e # es) = (if dead n then [] else [e]) @ live_from (Suc n) dead es"

lemma live_from_append:
  "live_from n dead (xs @ ys) = live_from n dead xs @ live_from (n + length xs) dead ys"
  by (induction xs arbitrary: n) auto

lemma live_from_shift: "live_from (n + d) dead es = live_from n (\<lambda>i. dead (i + d)) es"
  by (induction es arbitrary: n) (auto, metis add_Suc)

lemma live_from_cong:
  "(\<And>i. n \<le> i \<Longrightarrow> i < n + length es \<Longrightarrow> dead i = dead' i) \<Longrightarrow> live_from n dead es = live_from n dead' es"
  by (induction es arbitrary: n) auto

lemma live_from_upt:
  "map (\<lambda>i. es ! i) (filter (\<lambda>i. \<not> D i) [0..<length es]) = live_from 0 D es"
proof (induction es rule: rev_induct)
  case (snoc x xs)
  have "map (\<lambda>i. (xs @ [x]) ! i) (filter (\<lambda>i. \<not> D i) [0..<length xs]) =
      map (\<lambda>i. xs ! i) (filter (\<lambda>i. \<not> D i) [0..<length xs])"
    by (auto simp: nth_append)
  with snoc show ?case by (auto simp: live_from_append)
qed simp

lemma live_eq: "live lf = live_from 0 (\<lambda>i. i \<in> set (lp_tombstones lf)) (lp_entries lf)"
  by (simp add: live_def live_from_upt)

lemma live_from_subset: "set (live_from m D es) \<subseteq> set es"
  by (induction es arbitrary: m) auto

lemma shifted_mem:
  "(i :: nat) \<in> (\<lambda>t. if n \<le> t then t + 1 else t) ` T \<longleftrightarrow> (if i < n then i \<in> T else i \<noteq> n \<and> i - 1 \<in> T)"
proof
  assume "if i < n then i \<in> T else i \<noteq> n \<and> i - 1 \<in> T"
  then show "i \<in> (\<lambda>t. if n \<le> t then t + 1 else t) ` T"
    by (cases "i < n") (auto simp: image_iff split: if_splits intro: bexI [of _ "i - 1"] bexI [of _ i])
qed (auto split: if_splits)

lemma leaf_insert_facts:
  fixes v :: 'v
  assumes wf: "leaf_wf lf" and s: "lp_entries lf = xs @ ys" "\<forall>e \<in> set xs. fst e < k" "\<forall>e \<in> set ys. k < fst e"
  defines "lf' \<equiv> leaf_InsertAt lf (length xs) k v"
  shows "leaf_wf lf'" "lp_entries lf' = xs @ (k, v) # ys" "lp_next_page_id lf' = lp_next_page_id lf"
    "lp_max_size lf' = lp_max_size lf"
    "\<exists>A B. live lf = A @ B \<and> live lf' = A @ (k, v) # B \<and> fst ` set A \<subseteq> fst ` set xs"
proof -
  let ?n = "length xs" and ?T = "lp_tombstones lf"
  have lf': "lp_entries lf' = xs @ (k, v) # ys" "lp_tombstones lf' = map (\<lambda>t. if ?n \<le> t then t + 1 else t) ?T"
    "lp_next_page_id lf' = lp_next_page_id lf" "lp_max_size lf' = lp_max_size lf"
    by (simp_all add: lf'_def leaf_InsertAt_def s(1))
  then show "lp_entries lf' = xs @ (k, v) # ys" "lp_next_page_id lf' = lp_next_page_id lf"
    "lp_max_size lf' = lp_max_size lf" by simp_all
  have inj: "inj_on (\<lambda>t. if ?n \<le> t then t + 1 else t) (set ?T)" by (auto simp: inj_on_def split: if_splits)
  have "sorted_wrt (<) (map fst (xs @ (k, v) # ys))"
    using wf s by (auto simp: leaf_wf_def sorted_wrt_append)
  then show "leaf_wf lf'"
    using wf inj s(1) by (auto simp: leaf_wf_def lf' distinct_map)
  let ?D = "\<lambda>i. i \<in> set ?T" and ?D' = "\<lambda>i. i \<in> set (lp_tombstones lf')"
  have D: "?D' i \<longleftrightarrow> (if i < ?n then ?D i else i \<noteq> ?n \<and> ?D (i - 1))" for i
    unfolding lf'(2) set_map by (rule shifted_mem)
  have "live_from 0 ?D' xs = live_from 0 ?D xs" by (rule live_from_cong) (simp add: D)
  moreover have "live_from (Suc ?n) ?D' ys = live_from ?n ?D ys"
  proof -
    have "live_from (?n + 1) ?D' ys = live_from ?n (\<lambda>i. ?D' (i + 1)) ys" by (rule live_from_shift)
    also have "\<dots> = live_from ?n ?D ys" by (rule live_from_cong) (auto simp: D)
    finally show ?thesis by simp
  qed
  ultimately have "live lf' = live_from 0 ?D xs @ (k, v) # live_from ?n ?D ys"
    by (simp add: live_eq [of lf'] lf'(1) live_from_append D [of ?n])
  moreover have "live lf = live_from 0 ?D xs @ live_from ?n ?D ys"
    by (simp add: live_eq [of lf] s(1) live_from_append)
  ultimately show "\<exists>A B. live lf = A @ B \<and> live lf' = A @ (k, v) # B \<and> fst ` set A \<subseteq> fst ` set xs"
    using image_mono [OF live_from_subset, of fst 0 ?D xs] by blast
qed

end
