(* ===== verification/BPTree_Remove.thy ===== *)
theory BPTree_Remove
  imports BPTree
begin

section \<open>Removal from the B+ tree, and its iterators\<close>

text \<open>
  The rest of \<^verbatim>\<open>src/storage/index/b_plus_tree.cpp\<close> and
  \<^verbatim>\<open>src/storage/index/index_iterator.cpp\<close>. The write set of \<open>Remove\<close> is a list with the
  root first. Taking the guard of a page whose write guard the thread already holds never
  returns (\<open>Stuck\<close>).
\<close>

definition TryOptimisticRemove ::
    "('k::linorder) bt_config \<Rightarrow> ('k, 'v) btree \<Rightarrow> 'k \<Rightarrow> (bool \<times> ('k, 'v) btree) result" where
  "TryOptimisticRemove cfg t key =
     rbind (FindLeafPageOptimistic t key) (\<lambda>leaf_pid.
       if leaf_pid = INVALID_PAGE_ID then Inr (False, t)
       else
         rbind (read_leaf t leaf_pid) (\<lambda>leaf.
           if leaf_GetLiveSize leaf \<le> int (leaf_GetMinSize leaf) then Inr (False, t)
           else
             (let (removed, leaf1) = leaf_Remove (tomb_cnt cfg) leaf key
              in Inr (removed, write_leaf leaf_pid leaf1 t))))"

subsection \<open>The separators of the ancestors\<close>

text \<open>The write set with its back first, and what is left of it.\<close>

fun UpdateAncestorMinKey ::
    "page_id list \<Rightarrow> ('k, 'v) btree \<Rightarrow> page_id \<Rightarrow> 'k \<Rightarrow> (page_id list \<times> ('k, 'v) btree) result" where
  "UpdateAncestorMinKey [] t child_page_id key = Inr ([], t)"
| "UpdateAncestorMinKey (pid # ws) t child_page_id key =
     rbind (read_internal t pid) (\<lambda>parent.
       let index = internal_ValueIndex parent child_page_id in
       if index > 0 then Inr (ws, write_internal pid (internal_SetKeyAt parent (nat index) key) t)
       else UpdateAncestorMinKey ws t pid key)"

subsection \<open>Repairing an underflow\<close>

definition take_guard :: "page_id list \<Rightarrow> page_id \<Rightarrow> unit result" where
  "take_guard held pid = (if pid \<in> set held then Inl Stuck else Inr ())"

definition sibling_leaf :: "page_id list \<Rightarrow> ('k, 'v) btree \<Rightarrow> page_id \<Rightarrow> ('k, 'v) leaf_page result" where
  "sibling_leaf held t pid = rbind (take_guard held pid) (\<lambda>_. read_leaf t pid)"

definition sibling_internal :: "page_id list \<Rightarrow> ('k, 'v) btree \<Rightarrow> page_id \<Rightarrow> 'k internal_page result" where
  "sibling_internal held t pid = rbind (take_guard held pid) (\<lambda>_. read_internal t pid)"

text \<open>Borrowing from a sibling: \<open>Some\<close> of the tree when it could lend.\<close>

definition borrow_left_leaf ::
    "page_id list \<Rightarrow> ('k, 'v) btree \<Rightarrow> page_id \<Rightarrow> 'k internal_page \<Rightarrow> int \<Rightarrow> page_id \<Rightarrow> ('k, 'v) leaf_page \<Rightarrow>
     ('k, 'v) btree option result" where
  "borrow_left_leaf held t parent_pid parent ci node_pid current =
     (if \<not> ci > 0 then Inr None
      else
        (let left_page_id = internal_ValueAt parent (nat (ci - 1)) in
         rbind (sibling_leaf held t left_page_id) (\<lambda>left.
           if leaf_GetSize left > leaf_GetMinSize left then
             (let (left1, current1) = leaf_MoveLastToFrontOf left current;
                  parent1 = internal_SetKeyAt parent (nat ci) (leaf_KeyAt current1 0)
              in Inr (Some (write_internal parent_pid parent1
                   (write_leaf node_pid current1 (write_leaf left_page_id left1 t)))))
           else Inr None)))"

definition borrow_right_leaf ::
    "page_id list \<Rightarrow> ('k, 'v) btree \<Rightarrow> page_id \<Rightarrow> 'k internal_page \<Rightarrow> int \<Rightarrow> page_id \<Rightarrow> ('k, 'v) leaf_page \<Rightarrow>
     ('k, 'v) btree option result" where
  "borrow_right_leaf held t parent_pid parent ci node_pid current =
     (if \<not> ci + 1 < int (internal_GetSize parent) then Inr None
      else
        (let right_page_id = internal_ValueAt parent (nat (ci + 1)) in
         rbind (sibling_leaf held t right_page_id) (\<lambda>right.
           if leaf_GetSize right > leaf_GetMinSize right then
             (let (right1, current1) = leaf_MoveFirstToEndOf right current in
              if leaf_GetSize right1 = 0 then Inl Undefined
              else
                (let parent1 = internal_SetKeyAt parent (nat (ci + 1)) (leaf_KeyAt right1 0)
                 in Inr (Some (write_internal parent_pid parent1
                      (write_leaf node_pid current1 (write_leaf right_page_id right1 t))))))
           else Inr None)))"

text \<open>Merging: the tree and the page to delete.\<close>

definition merge_leaf ::
    "page_id list \<Rightarrow> ('k, 'v) btree \<Rightarrow> page_id \<Rightarrow> 'k internal_page \<Rightarrow> int \<Rightarrow> page_id \<Rightarrow> ('k, 'v) leaf_page \<Rightarrow>
     (('k, 'v) btree \<times> page_id) result" where
  "merge_leaf held t parent_pid parent ci node_pid current =
     (let has_left = ci > 0; has_right = ci + 1 < int (internal_GetSize parent) in
      if \<not> has_left \<and> \<not> has_right then
        (if ci < 0 then Inl Undefined
         else Inr (write_internal parent_pid (internal_RemoveAt parent (nat ci)) t, node_pid))
      else if has_left then
        (let left_page_id = internal_ValueAt parent (nat (ci - 1)) in
         rbind (sibling_leaf held t left_page_id) (\<lambda>left.
           let (current1, left1) = leaf_MoveAllTo current left;
               left2 = left1\<lparr>lp_next_page_id := lp_next_page_id current1\<rparr>
           in Inr (write_internal parent_pid (internal_RemoveAt parent (nat ci))
                (write_leaf left_page_id left2 (write_leaf node_pid current1 t)), node_pid)))
      else
        (let right_page_id = internal_ValueAt parent (nat (ci + 1)) in
         rbind (sibling_leaf held t right_page_id) (\<lambda>right.
           let (right1, current1) = leaf_MoveAllTo right current;
               current2 = current1\<lparr>lp_next_page_id := lp_next_page_id right1\<rparr>
           in Inr (write_internal parent_pid (internal_RemoveAt parent (nat (ci + 1)))
                (write_leaf node_pid current2 (write_leaf right_page_id right1 t)), right_page_id))))"

text \<open>One turn of the repair at a leaf: whether to go on with the parent, the tree, and the
  pages to delete.\<close>

definition fix_leaf ::
    "page_id list \<Rightarrow> ('k, 'v) btree \<Rightarrow> page_id \<Rightarrow> 'k internal_page \<Rightarrow> page_id \<Rightarrow> ('k, 'v) leaf_page \<Rightarrow>
     (bool \<times> ('k, 'v) btree \<times> page_id list) result" where
  "fix_leaf held t parent_pid parent node_pid current =
     (let ci = internal_ValueIndex parent node_pid in
      rbind (borrow_left_leaf held t parent_pid parent ci node_pid current) (\<lambda>r. case r of
        Some t1 \<Rightarrow> Inr (False, t1, [])
      | None \<Rightarrow>
          rbind (borrow_right_leaf held t parent_pid parent ci node_pid current) (\<lambda>r. case r of
            Some t1 \<Rightarrow> Inr (False, t1, [])
          | None \<Rightarrow>
              rbind (merge_leaf held t parent_pid parent ci node_pid current) (\<lambda>(t1, dead).
                Inr (True, t1, [dead])))))"

definition borrow_left_internal ::
    "'k bt_config \<Rightarrow> page_id list \<Rightarrow> ('k, 'v) btree \<Rightarrow> page_id \<Rightarrow> 'k internal_page \<Rightarrow> int \<Rightarrow> page_id \<Rightarrow>
     'k internal_page \<Rightarrow> ('k, 'v) btree option result" where
  "borrow_left_internal cfg held t parent_pid parent ci node_pid current =
     (if \<not> ci > 0 then Inr None
      else
        (let left_page_id = internal_ValueAt parent (nat (ci - 1)) in
         rbind (sibling_internal held t left_page_id) (\<lambda>left.
           if internal_GetSize left > internal_GetMinSize left then
             (let (left1, current1, new_parent_key) =
                    internal_MoveLastToFrontOf (stale_key cfg) left current (internal_KeyAt parent (nat ci));
                  parent1 = internal_SetKeyAt parent (nat ci) new_parent_key
              in Inr (Some (write_internal parent_pid parent1
                   (write_internal node_pid current1 (write_internal left_page_id left1 t)))))
           else Inr None)))"

definition borrow_right_internal ::
    "page_id list \<Rightarrow> ('k, 'v) btree \<Rightarrow> page_id \<Rightarrow> 'k internal_page \<Rightarrow> int \<Rightarrow> page_id \<Rightarrow> 'k internal_page \<Rightarrow>
     ('k, 'v) btree option result" where
  "borrow_right_internal held t parent_pid parent ci node_pid current =
     (if \<not> ci + 1 < int (internal_GetSize parent) then Inr None
      else
        (let right_page_id = internal_ValueAt parent (nat (ci + 1)) in
         rbind (sibling_internal held t right_page_id) (\<lambda>right.
           if internal_GetSize right > internal_GetMinSize right then
             (if internal_GetSize right < 2 then Inl Undefined
              else
                (let (right1, current1, new_parent_key) =
                       internal_MoveFirstToEndOf right current (internal_KeyAt parent (nat (ci + 1)));
                     parent1 = internal_SetKeyAt parent (nat (ci + 1)) new_parent_key
                 in Inr (Some (write_internal parent_pid parent1
                      (write_internal node_pid current1 (write_internal right_page_id right1 t))))))
           else Inr None)))"

definition merge_internal ::
    "page_id list \<Rightarrow> ('k, 'v) btree \<Rightarrow> page_id \<Rightarrow> 'k internal_page \<Rightarrow> int \<Rightarrow> page_id \<Rightarrow> 'k internal_page \<Rightarrow>
     (('k, 'v) btree \<times> page_id) result" where
  "merge_internal held t parent_pid parent ci node_pid current =
     (let has_left = ci > 0; has_right = ci + 1 < int (internal_GetSize parent) in
      if \<not> has_left \<and> \<not> has_right then
        (if ci < 0 then Inl Undefined
         else Inr (write_internal parent_pid (internal_RemoveAt parent (nat ci)) t, node_pid))
      else if has_left then
        (let left_page_id = internal_ValueAt parent (nat (ci - 1)) in
         rbind (sibling_internal held t left_page_id) (\<lambda>left.
           let (current1, left1) =
                 (if internal_GetSize current > 0
                  then internal_MoveAllTo current left (internal_KeyAt parent (nat ci)) else (current, left))
           in Inr (write_internal parent_pid (internal_RemoveAt parent (nat ci))
                (write_internal left_page_id left1 (write_internal node_pid current1 t)), node_pid)))
      else
        (let right_page_id = internal_ValueAt parent (nat (ci + 1)) in
         rbind (sibling_internal held t right_page_id) (\<lambda>right.
           let (right1, current1) =
                 (if internal_GetSize right > 0
                  then internal_MoveAllTo right current (internal_KeyAt parent (nat (ci + 1)))
                  else (right, current))
           in Inr (write_internal parent_pid (internal_RemoveAt parent (nat (ci + 1)))
                (write_internal node_pid current1 (write_internal right_page_id right1 t)), right_page_id))))"

definition fix_internal ::
    "'k bt_config \<Rightarrow> page_id list \<Rightarrow> ('k, 'v) btree \<Rightarrow> page_id \<Rightarrow> 'k internal_page \<Rightarrow> page_id \<Rightarrow>
     'k internal_page \<Rightarrow> (bool \<times> ('k, 'v) btree \<times> page_id list) result" where
  "fix_internal cfg held t parent_pid parent node_pid current =
     (let ci = internal_ValueIndex parent node_pid in
      rbind (borrow_left_internal cfg held t parent_pid parent ci node_pid current) (\<lambda>r. case r of
        Some t1 \<Rightarrow> Inr (False, t1, [])
      | None \<Rightarrow>
          rbind (borrow_right_internal held t parent_pid parent ci node_pid current) (\<lambda>r. case r of
            Some t1 \<Rightarrow> Inr (False, t1, [])
          | None \<Rightarrow>
              rbind (merge_internal held t parent_pid parent ci node_pid current) (\<lambda>(t1, dead).
                Inr (True, t1, [dead])))))"

text \<open>The loop from the level of the leaf up to the root's children.\<close>

fun repair ::
    "'k bt_config \<Rightarrow> page_id list \<Rightarrow> nat \<Rightarrow> ('k, 'v) btree \<Rightarrow> page_id list \<Rightarrow>
     (('k, 'v) btree \<times> page_id list) result" where
  "repair cfg ws 0 t dead = Inr (t, dead)"
| "repair cfg ws (Suc l) t dead =
     (case bt_pages t (ws ! Suc l) of
        None \<Rightarrow> Inl Undefined
      | Some (LeafPage node) \<Rightarrow>
          if leaf_GetSize node \<ge> leaf_GetMinSize node then Inr (t, dead)
          else
            rbind (read_internal t (ws ! l)) (\<lambda>parent.
            rbind (fix_leaf ws t (ws ! l) parent (ws ! Suc l) node) (\<lambda>(up, t1, d).
              if up then repair cfg ws l t1 (dead @ d) else Inr (t1, dead @ d)))
      | Some (InternalPage node) \<Rightarrow>
          if internal_GetSize node \<ge> internal_GetMinSize node then Inr (t, dead)
          else
            rbind (read_internal t (ws ! l)) (\<lambda>parent.
            rbind (fix_internal cfg ws t (ws ! l) parent (ws ! Suc l) node) (\<lambda>(up, t1, d).
              if up then repair cfg ws l t1 (dead @ d) else Inr (t1, dead @ d))))"

subsection \<open>Shrinking the root\<close>

definition shrink_root ::
    "page_id list \<Rightarrow> ('k, 'v) btree \<Rightarrow> page_id list \<Rightarrow> (('k, 'v) btree \<times> page_id list) result" where
  "shrink_root ws t dead =
     (case ws of
        [] \<Rightarrow> Inl Undefined
      | root_pid # _ \<Rightarrow>
          (case bt_pages t root_pid of
             None \<Rightarrow> Inl Undefined
           | Some (LeafPage _) \<Rightarrow> Inr (t, dead)
           | Some (InternalPage root) \<Rightarrow>
               if internal_GetSize root = 1 then
                 Inr (t\<lparr>bt_root_page_id := internal_ValueAt root 0\<rparr>, dead @ [root_pid])
               else if internal_GetSize root = 0 then
                 Inr (t\<lparr>bt_root_page_id := INVALID_PAGE_ID\<rparr>, dead @ [root_pid])
               else Inr (t, dead)))"

fun collapse_root :: "nat \<Rightarrow> ('k, 'v) btree \<Rightarrow> ('k, 'v) btree result" where
  "collapse_root 0 t = Inl Stuck"
| "collapse_root (Suc fuel) t =
     (let root_pid = bt_root_page_id t in
      if root_pid = INVALID_PAGE_ID then Inr t
      else
        (case bt_pages t root_pid of
           None \<Rightarrow> Inl Undefined
         | Some (LeafPage root_leaf) \<Rightarrow>
             if leaf_GetSize root_leaf = 0 then
               Inr (delete_page root_pid (t\<lparr>bt_root_page_id := INVALID_PAGE_ID\<rparr>))
             else Inr t
         | Some (InternalPage root_internal) \<Rightarrow>
             if internal_GetSize root_internal = 0 then
               Inr (delete_page root_pid (t\<lparr>bt_root_page_id := INVALID_PAGE_ID\<rparr>))
             else if internal_GetSize root_internal \<noteq> 1 then Inr t
             else
               collapse_root fuel
                 (delete_page root_pid (t\<lparr>bt_root_page_id := internal_ValueAt root_internal 0\<rparr>))))"

subsection \<open>Remove\<close>

text \<open>The leaf below the root: the root's own leaf is emptied by dropping it.\<close>

definition remove_from_root_leaf :: "('k, 'v) btree \<Rightarrow> page_id \<Rightarrow> ('k, 'v) leaf_page \<Rightarrow> ('k, 'v) btree" where
  "remove_from_root_leaf t leaf_pid leaf =
     (if leaf_GetLiveSize leaf = 0 then delete_page leaf_pid (t\<lparr>bt_root_page_id := INVALID_PAGE_ID\<rparr>) else t)"

definition RemovePessimistic ::
    "('k::linorder) bt_config \<Rightarrow> ('k, 'v) btree \<Rightarrow> 'k \<Rightarrow> ('k, 'v) btree result" where
  "RemovePessimistic cfg t key =
     (if bt_root_page_id t = INVALID_PAGE_ID then Inr t
      else
        rbind (descend (page_fuel t) (\<lambda>internal. internal_Lookup internal key) t (bt_root_page_id t) [])
          (\<lambda>(path, leaf_pid). rbind (read_leaf t leaf_pid) (\<lambda>leaf0.
             let (removed, leaf) = leaf_Remove (tomb_cnt cfg) leaf0 key;
                 ws = path @ [leaf_pid];
                 t1 = write_leaf leaf_pid leaf t
             in
             if \<not> removed then Inr t1
             else if leaf_pid = bt_root_page_id t then Inr (remove_from_root_leaf t1 leaf_pid leaf)
             else
               rbind
                 (if leaf_GetSize leaf0 > 0 \<and> leaf_GetSize leaf > 0 \<and>
                     key_cmp (leaf_KeyAt leaf0 0) (leaf_KeyAt leaf 0) \<noteq> 0
                  then
                    rbind (UpdateAncestorMinKey (rev ws) t1 leaf_pid (leaf_KeyAt leaf 0)) (\<lambda>(left, t2).
                      Inr (rev left, t2))
                  else Inr (ws, t1))
                 (\<lambda>(ws, t2).
                    if leaf_GetSize leaf \<ge> leaf_GetMinSize leaf then Inr t2
                    else
                      rbind (repair cfg ws (length ws - 1) t2 []) (\<lambda>(t3, dead).
                      rbind (shrink_root ws t3 dead) (\<lambda>(t4, dead).
                        let t5 = fold delete_page dead t4
                        in collapse_root (page_fuel t5) t5))))))"

definition Remove ::
    "('k::linorder) bt_config \<Rightarrow> ('k, 'v) btree \<Rightarrow> 'k \<Rightarrow> ('k, 'v) btree result" where
  "Remove cfg t key =
     rbind (TryOptimisticRemove cfg t key) (\<lambda>(done, t1).
       if done then Inr t1 else RemovePessimistic cfg t1 key)"

subsection \<open>Iterators\<close>

text \<open>A position is a page and an index; the end has the invalid page id.\<close>

type_synonym bt_iterator = "page_id \<times> nat"

function skip_tombstones :: "('k, 'v) leaf_page \<Rightarrow> nat \<Rightarrow> nat" where
  "skip_tombstones leaf index =
     (if index < leaf_GetSize leaf \<and> leaf_IsTombstone leaf index then skip_tombstones leaf (index + 1)
      else index)"
  by pat_completeness auto
termination
  by (relation "measure (\<lambda>(leaf, index). leaf_GetSize leaf - index)") auto

declare skip_tombstones.simps [simp del]

text \<open>From an index of a leaf to the next live entry, along the chain of leaves.\<close>

fun seek :: "nat \<Rightarrow> ('k, 'v) btree \<Rightarrow> page_id \<Rightarrow> nat \<Rightarrow> bt_iterator result" where
  "seek 0 t pid index = Inl Stuck"
| "seek (Suc fuel) t pid index =
     rbind (read_leaf t pid) (\<lambda>leaf.
       let i = skip_tombstones leaf index in
       if i < leaf_GetSize leaf then Inr (pid, i)
       else if lp_next_page_id leaf = INVALID_PAGE_ID then Inr (INVALID_PAGE_ID, 0)
       else seek fuel t (lp_next_page_id leaf) 0)"

definition EndIter :: bt_iterator where
  "EndIter = (INVALID_PAGE_ID, 0)"

definition BeginFirst :: "('k, 'v) btree \<Rightarrow> bt_iterator result" where
  "BeginFirst t =
     (if bt_root_page_id t = INVALID_PAGE_ID then Inr EndIter
      else
        rbind (descend (page_fuel t) (\<lambda>internal. internal_ValueAt internal 0) t (bt_root_page_id t) [])
          (\<lambda>(_, pid). seek (page_fuel t) t pid 0))"

definition BeginAt :: "('k::linorder, 'v) btree \<Rightarrow> 'k \<Rightarrow> bt_iterator result" where
  "BeginAt t key =
     (if bt_root_page_id t = INVALID_PAGE_ID then Inr EndIter
      else
        rbind (descend (page_fuel t) (\<lambda>internal. child_for internal key) t (bt_root_page_id t) [])
          (\<lambda>(_, pid). rbind (read_leaf t pid) (\<lambda>leaf.
             seek (page_fuel t) t pid (leaf_lower_bound leaf key))))"

definition IsEnd :: "bt_iterator \<Rightarrow> bool" where
  "IsEnd it = (fst it = INVALID_PAGE_ID)"

definition iter_deref :: "('k, 'v) btree \<Rightarrow> bt_iterator \<Rightarrow> ('k \<times> 'v) result" where
  "iter_deref t it =
     (if IsEnd it then Inl Undefined
      else rbind (read_leaf t (fst it)) (\<lambda>leaf.
        if snd it < leaf_GetSize leaf then Inr (leaf_KeyAt leaf (snd it), leaf_ValueAt leaf (snd it))
        else Inl Undefined))"

definition iter_next :: "('k, 'v) btree \<Rightarrow> bt_iterator \<Rightarrow> bt_iterator result" where
  "iter_next t it =
     (if IsEnd it then Inl Undefined else seek (page_fuel t) t (fst it) (snd it + 1))"

end
