(* ===== verification/BPTree_Correct.thy ===== *)
theory BPTree_Correct
  imports BPTree_Insert BPTree_Remove
begin

section \<open>The operations of the B+ tree on a tree in order\<close>

text \<open>
  What \<open>Insert\<close> and \<open>Remove\<close> do to the entries of a tree that satisfies the invariant: the
  leaf they change, the leaf they split, and the map of the whole tree.
\<close>

subsection \<open>Maps and chains of leaves\<close>

lemma map_of_insert_mid:
  "k \<notin> fst ` set xs \<Longrightarrow> map_of (xs @ (k, v) # ys) = (map_of (xs @ ys))(k \<mapsto> v)"
  by (induction xs) auto

lemma map_of_delete_mid:
  "k \<notin> fst ` set xs \<Longrightarrow> k \<notin> fst ` set ys \<Longrightarrow> map_of (xs @ ys) = (map_of (xs @ (k, v) # ys))(k := None)"
  by (induction xs) (auto simp: fun_eq_iff map_of_eq_None_iff)

lemma linked_tl: "linked (x # ls) \<Longrightarrow> ls \<noteq> [] \<Longrightarrow> linked ls"
  by (cases ls; cases x; cases "hd ls") auto

lemma linked_suffix: "linked (ls @ rs) \<Longrightarrow> linked rs"
proof (induction ls)
  case (Cons x ls)
  then show ?case using linked_tl [of x "ls @ rs"] by (cases "ls @ rs = []") auto
qed simp

lemma linked_replace:
  "linked (ls @ (p, lf) # rs) \<Longrightarrow> linked ((p, lf') # rs') \<Longrightarrow> linked (ls @ (p, lf') # rs')"
proof (induction ls)
  case (Cons x ls)
  obtain q lg where x: "x = (q, lg)" by (cases x)
  have "linked (ls @ (p, lf) # rs)" using linked_tl [of x "ls @ (p, lf) # rs"] Cons.prems(1) by simp
  then have IH: "linked (ls @ (p, lf') # rs')" using Cons by blast
  show ?case
  proof (cases ls)
    case Nil
    with Cons.prems x show ?thesis by simp
  next
    case (Cons y ls')
    with IH Cons.prems x show ?thesis by (cases y) simp
  qed
qed simp

lemma linked_same_next:
  "linked ((p, lf) # rs) \<Longrightarrow> lp_next_page_id lf' = lp_next_page_id lf \<Longrightarrow> linked ((p, lf') # rs)"
  by (cases rs) auto

subsection \<open>Replacing a leaf\<close>

lemma leaf_replace_ok:
  assumes ok: "bt_ok cfg t (Some (plug (TLeaf p lf) C))" and c: "ctx_wf None None a b C"
    and w: "wft a b (TLeaf p lf')" and s: "sizes_ok cfg (TLeaf p lf')"
    and n: "lp_next_page_id lf' = lp_next_page_id lf"
  shows "bt_ok cfg (write_leaf p lf' t) (Some (plug (TLeaf p lf') C))"
proof -
  let ?t = "write_leaf p lf' t"
  note o = bt_okD [OF ok]
  have pg: "bt_pages ?t = (bt_pages t)(p \<mapsto> LeafPage lf')" by (simp add: write_leaf_def)
  have np: "p \<notin> set (ctx_pids C)" using o(4) by (simp add: distinct_pids_plug)
  have "ctx_repr (bt_pages t) p C" using o(2) by (simp add: repr_plug)
  then have "ctx_repr (bt_pages ?t) p C"
    by (rule ctx_repr_cong) (use np in \<open>auto simp: pg\<close>)
  then have "repr (bt_pages ?t) (plug (TLeaf p lf') C)" by (simp add: repr_plug pg)
  moreover have "wft None None (plug (TLeaf p lf') C)" by (rule ctx_wf_plug [OF c w])
  moreover have "distinct (pids (plug (TLeaf p lf') C))" using o(4) by (simp add: distinct_pids_plug)
  moreover have "\<forall>q \<in> set (pids (plug (TLeaf p lf') C)). 0 \<le> q \<and> q < bt_next_page_id ?t"
    using o(5) by (simp add: set_pids_plug write_leaf_def)
  moreover have "linked (leaves (plug (TLeaf p lf') C))"
    using linked_replace linked_same_next [OF linked_suffix n] o(7) by (simp add: leaves_plug) blast
  moreover have "sizes_ok cfg (plug (TLeaf p lf') C)" using o(8) s by (simp add: sizes_plug)
  moreover have "finite (dom (bt_pages ?t))" using o(6) by (simp add: pg)
  ultimately show ?thesis
    using o(1,10) by (simp add: bt_ok_def root_plug write_leaf_def)
qed

subsection \<open>Splitting a leaf\<close>

lemma leaf_split_facts:
  assumes wf: "leaf_wf lf" and e: "leaf_Split lf (leaf_Init m) = (l, r)"
  shows "leaf_wf l" "leaf_wf r" "live l @ live r = live lf"
    "lp_entries l = take (length (lp_entries lf) div 2) (lp_entries lf)"
    "lp_entries r = drop (length (lp_entries lf) div 2) (lp_entries lf)"
    "lp_next_page_id l = lp_next_page_id lf" "lp_max_size l = lp_max_size lf" "lp_max_size r = m"
proof -
  let ?h = "length (lp_entries lf) div 2" and ?T = "lp_tombstones lf" and ?es = "lp_entries lf"
  have l: "lp_entries l = take ?h ?es" "lp_tombstones l = filter (\<lambda>t. \<not> t \<ge> ?h) ?T"
    "lp_next_page_id l = lp_next_page_id lf" "lp_max_size l = lp_max_size lf"
    and r: "lp_entries r = drop ?h ?es" "lp_tombstones r = map (\<lambda>t. t - ?h) (filter (\<lambda>t. t \<ge> ?h) ?T)"
    "lp_max_size r = m"
    using e by (auto simp: leaf_Split_def leaf_Init_def leaf_GetSize_def Let_def)
  then show "lp_entries l = take ?h ?es" "lp_entries r = drop ?h ?es" "lp_next_page_id l = lp_next_page_id lf"
    "lp_max_size l = lp_max_size lf" "lp_max_size r = m" by simp_all
  show "leaf_wf l" using wf by (auto simp: leaf_wf_def l take_map [symmetric] sorted_wrt_take)
  have "inj_on (\<lambda>t. t - ?h) {t. ?h \<le> t}" by (auto simp: inj_on_def)
  then have "inj_on (\<lambda>t. t - ?h) (set (filter (\<lambda>t. t \<ge> ?h) ?T))" by (rule inj_on_subset) auto
  then show "leaf_wf r"
    using wf by (auto simp: leaf_wf_def r drop_map [symmetric] sorted_wrt_drop distinct_map)
  have "live lf = live_from 0 (\<lambda>i. i \<in> set ?T) (take ?h ?es) @ live_from ?h (\<lambda>i. i \<in> set ?T) (drop ?h ?es)"
  proof -
    have "live lf = live_from 0 (\<lambda>i. i \<in> set ?T) (take ?h ?es @ drop ?h ?es)" by (simp add: live_eq)
    then show ?thesis unfolding live_from_append by simp
  qed
  moreover have "live l = live_from 0 (\<lambda>i. i \<in> set ?T) (take ?h ?es)"
    unfolding live_eq [of l] l by (rule live_from_cong) auto
  moreover have "live_from (0 + ?h) (\<lambda>i. i \<in> set ?T) (drop ?h ?es) = live r"
    unfolding live_from_shift live_eq [of r] r by (rule live_from_cong) (force simp: image_iff)
  ultimately show "live l @ live r = live lf" by simp
qed

subsection \<open>Insert\<close>

text \<open>What the search for a key finds in a tree: the leaf, its context and the place in it.\<close>

definition found ::
    "('k::linorder, 'v) btree \<Rightarrow> ('k, 'v) tree \<Rightarrow> 'k \<Rightarrow> ('k, 'v) ctx \<Rightarrow> page_id \<Rightarrow> ('k, 'v) leaf_page \<Rightarrow>
     'k option \<Rightarrow> 'k option \<Rightarrow> ('k \<times> 'v) list \<Rightarrow> ('k \<times> 'v) list \<Rightarrow> bool" where
  "found t r key C p lf a b xs ys \<longleftrightarrow>
     r = plug (TLeaf p lf) C \<and> ctx_wf None None a b C \<and> wft a b (TLeaf p lf) \<and> within a b key \<and>
     bt_pages t p = Some (LeafPage lf) \<and> p \<noteq> INVALID_PAGE_ID \<and>
     lp_entries lf = xs @ ys \<and> (\<forall>e \<in> set xs. fst e < key) \<and> (\<forall>e \<in> set ys. key \<le> fst e)"

lemma search_found:
  assumes ok: "bt_ok cfg t (Some r)" and nxt: "searches nxt key"
  obtains C p lf a b xs ys where "found t r key C p lf a b xs ys"
    "descend (page_fuel t) nxt t (bt_root_page_id t) [] = Inr (rev (ctx_path C), p)"
proof -
  obtain C p lf a b where C: "r = plug (TLeaf p lf) C" "ctx_wf None None a b C" "wft a b (TLeaf p lf)"
    "within a b key" "descend (page_fuel t) nxt t (bt_root_page_id t) [] = Inr (rev (ctx_path C), p)"
    "bt_pages t p = Some (LeafPage lf)"
    by (rule find_leaf [OF ok nxt])
  have "sorted_wrt (<) (map fst (lp_entries lf))" using C(3) by (simp add: leaf_wf_def)
  then obtain xs ys where "lp_entries lf = xs @ ys" "\<forall>e \<in> set xs. fst e < key" "\<forall>e \<in> set ys. key \<le> fst e"
    by (rule sorted_split)
  moreover have "0 \<le> p" using bt_okD(5) [OF ok, of p] by (simp add: C(1) set_pids_plug)
  then have "p \<noteq> INVALID_PAGE_ID" by (simp add: INVALID_PAGE_ID_def)
  ultimately have "found t r key C p lf a b xs ys" using C unfolding found_def by blast
  with C(5) show thesis using that by blast
qed

lemma found_present:
  assumes f: "found t r key C p lf a b xs ys"
  shows "length xs < leaf_GetSize lf \<and> key_cmp (leaf_KeyAt lf (length xs)) key = 0 \<longleftrightarrow> key \<in> leaf_keys (leaves r)"
    "key \<notin> leaf_keys (leaves r) \<Longrightarrow> \<forall>e \<in> set ys. key < fst e"
proof -
  have c: "ctx_wf None None a b C" "within a b key" and e: "lp_entries lf = xs @ ys"
    "\<forall>e \<in> set xs. fst e < key" "\<forall>e \<in> set ys. key \<le> fst e" and r: "r = plug (TLeaf p lf) C"
    using f by (simp_all add: found_def)
  have s: "sorted_wrt (<) (map fst ys)"
    using f unfolding found_def wft.simps leaf_wf_def by (auto simp: sorted_wrt_append)
  have k: "key \<in> leaf_keys (leaves r) \<longleftrightarrow> key \<in> fst ` set ys"
    using ctx_leaf_bounds [OF c] e(1,2) unfolding r by (auto simp: leaves_plug)
  show "length xs < leaf_GetSize lf \<and> key_cmp (leaf_KeyAt lf (length xs)) key = 0 \<longleftrightarrow> key \<in> leaf_keys (leaves r)"
    unfolding k using e(1,3) s by (cases ys) (fastforce simp: leaf_GetSize_def leaf_KeyAt_def)+
  show "key \<notin> leaf_keys (leaves r) \<Longrightarrow> \<forall>e \<in> set ys. key < fst e"
    unfolding k using e(3) by force
qed

lemma Insert_empty:
  assumes ok: "bt_ok cfg t None" and cfg: "config_ok cfg"
  shows "\<exists>t' T'. Insert cfg t k v = Inr (True, t') \<and> bt_ok cfg t' (Some T') \<and>
    tree_map T' = Map.empty(k \<mapsto> v) \<and> leaf_keys (leaves T') = {k}"
proof -
  define lf where "lf = leaf_InsertAt (leaf_Init (leaf_max_size cfg)) 0 k v"
  have lf: "lp_entries lf = [(k, v)]" "lp_tombstones lf = []" "lp_next_page_id lf = INVALID_PAGE_ID"
    "lp_max_size lf = leaf_max_size cfg"
    by (simp_all add: lf_def leaf_InsertAt_def leaf_Init_def)
  let ?n = "bt_next_page_id t" and ?T = "TLeaf (bt_next_page_id t) lf"
  define t' where "t' = (write_leaf ?n lf (t\<lparr>bt_next_page_id := ?n + 1\<rparr>))\<lparr>bt_root_page_id := ?n\<rparr>"
  have o: "finite (dom (bt_pages t))" "0 \<le> ?n" "bt_root_page_id t = INVALID_PAGE_ID"
    using ok by (simp_all add: bt_ok_def)
  have "Insert cfg t k v = Inr (True, t')"
    using o(3) cfg by (simp add: Insert_def TryOptimisticInsert_def FindLeafPageOptimistic_def
        InsertPessimistic_def new_page_def leaf_insert_checked_def leaf_GetSize_def leaf_Init_def
        config_ok_def t'_def lf_def)
  moreover have "bt_ok cfg t' (Some ?T)"
    using o cfg by (simp add: bt_ok_def t'_def write_leaf_def leaf_wf_def lf config_ok_def)
  moreover have "tree_map ?T = Map.empty(k \<mapsto> v)" by (simp add: tree_map_def live_def lf)
  moreover have "leaf_keys (leaves ?T) = {k}" by (simp add: lf)
  ultimately show ?thesis by blast
qed

text \<open>The leaf has room.\<close>

lemma leaf_update_map:
  assumes c: "ctx_wf None None a b C" "within a b k"
    and l: "live lf = A @ B" "concat (map (live \<circ> snd) ls) = A @ (k, v) # B" "k \<notin> fst ` set A"
    and s: "leaves T = left_leaves C @ ls @ right_leaves C"
  shows "tree_map T = (tree_map (plug (TLeaf p lf) C))(k \<mapsto> v)"
proof -
  let ?L = "concat (map (live \<circ> snd) (left_leaves C))" and ?R = "concat (map (live \<circ> snd) (right_leaves C))"
  have "k \<notin> leaf_keys (left_leaves C)" using ctx_leaf_bounds [OF c] by auto
  then have "k \<notin> fst ` set (?L @ A)" using l(3) subsetD [OF live_concat_keys [of "left_leaves C"]] by auto
  then have "map_of ((?L @ A) @ (k, v) # (B @ ?R)) = (map_of ((?L @ A) @ (B @ ?R)))(k \<mapsto> v)"
    by (rule map_of_insert_mid)
  then show ?thesis by (simp only: tree_map_def s leaves_plug map_append concat_append l) (simp add: l)
qed

text \<open>The leaf is full: its two halves and the key between them.\<close>

definition halves ::
    "('k::linorder) bt_config \<Rightarrow> ('k, 'v) leaf_page \<Rightarrow> page_id \<Rightarrow> ('k, 'v) leaf_page \<times> ('k, 'v) leaf_page" where
  "halves cfg lf q =
     (let (l, r) = leaf_Split lf (leaf_Init (leaf_max_size cfg))
      in (l\<lparr>lp_next_page_id := q\<rparr>, r\<lparr>lp_next_page_id := lp_next_page_id l\<rparr>))"

lemma halves_facts:
  assumes wf: "leaf_wf lf" and sz: "leaf_GetSize lf = leaf_max_size cfg" "lp_max_size lf = leaf_max_size cfg"
    and cfg: "config_ok cfg" and e: "halves cfg lf q = (l, r)"
  shows "leaf_wf l" "leaf_wf r" "live l @ live r = live lf" "lp_entries l @ lp_entries r = lp_entries lf"
    "lp_next_page_id l = q" "lp_next_page_id r = lp_next_page_id lf"
    "sizes_ok cfg (TLeaf p l)" "sizes_ok cfg (TLeaf p' r)" "lp_entries l \<noteq> []" "lp_entries r \<noteq> []"
proof -
  obtain l0 r0 where sp: "leaf_Split lf (leaf_Init (leaf_max_size cfg)) = (l0, r0)"
    by (cases "leaf_Split lf (leaf_Init (leaf_max_size cfg))")
  note S = leaf_split_facts [OF wf sp]
  have lr: "l = l0\<lparr>lp_next_page_id := q\<rparr>" "r = r0\<lparr>lp_next_page_id := lp_next_page_id l0\<rparr>"
    using e sp by (simp_all add: halves_def)
  show "leaf_wf l" "leaf_wf r" "live l @ live r = live lf" "lp_entries l @ lp_entries r = lp_entries lf"
    "lp_next_page_id l = q" "lp_next_page_id r = lp_next_page_id lf"
    using S by (simp_all add: lr leaf_wf_def live_def)
  have "0 < leaf_max_size cfg div 2" "leaf_max_size cfg div 2 < leaf_max_size cfg"
    using cfg by (simp_all add: config_ok_def)
  then show "sizes_ok cfg (TLeaf p l)" "sizes_ok cfg (TLeaf p' r)" "lp_entries l \<noteq> []" "lp_entries r \<noteq> []"
    using S sz by (auto simp: lr leaf_GetSize_def)
qed

lemma halves_wft:
  assumes wf: "leaf_wf l" "leaf_wf r" "sorted_wrt (<) (map fst (lp_entries l @ lp_entries r))"
    and ne: "lp_entries l \<noteq> []" "lp_entries r \<noteq> []"
    and b: "\<forall>e \<in> set (lp_entries l @ lp_entries r). within a b (fst e)"
  shows "wft a (Some (leaf_KeyAt r 0)) (TLeaf p l)" "wft (Some (leaf_KeyAt r 0)) b (TLeaf q r)"
proof -
  let ?up = "leaf_KeyAt r 0"
  obtain y ys where r: "lp_entries r = y # ys" using ne(2) by (cases "lp_entries r") auto
  have up: "?up = fst y" by (simp add: leaf_KeyAt_def r)
  have below: "within a (Some ?up) (fst e)" if "e \<in> set (lp_entries l)" for e
  proof -
    have "fst e < ?up" using that wf(3) by (auto simp: up r sorted_wrt_append)
    moreover have "within a b (fst e)" using that b by simp
    ultimately show ?thesis by (cases a; cases b) auto
  qed
  have above: "within (Some ?up) b (fst e)" if "e \<in> set (lp_entries r)" for e
  proof -
    have "?up \<le> fst e" using that wf(3) by (auto simp: up r sorted_wrt_append)
    moreover have "within a b (fst e)" using that b by simp
    ultimately show ?thesis by (cases a; cases b) auto
  qed
  obtain x where x: "x \<in> set (lp_entries l)" using ne(1) by (cases "lp_entries l") auto
  have "bound_lt a (Some ?up)" using below [OF x] by (cases a) auto
  moreover have "bound_lt (Some ?up) b" using above [of y] by (cases b) (auto simp: r)
  ultimately show "wft a (Some ?up) (TLeaf p l)" "wft (Some ?up) b (TLeaf q r)" using wf(1,2) below above by simp_all
qed

lemma leaf_split_ok:
  assumes ok: "bt_ok cfg t (Some (plug (TLeaf p lf) C))" and cfg: "config_ok cfg" and c: "ctx_wf None None a b C"
    and wf: "leaf_wf lf'" "\<forall>e \<in> set (lp_entries lf'). within a b (fst e)"
    and sz: "leaf_GetSize lf' = leaf_max_size cfg" "lp_max_size lf' = leaf_max_size cfg"
    and n: "lp_next_page_id lf' = lp_next_page_id lf" and e: "halves cfg lf' (bt_next_page_id t) = (l, r)"
  shows "\<exists>t' T. InsertIntoParent cfg (ctx_path C)
      (write_leaf (bt_next_page_id t) r (write_leaf p l (t\<lparr>bt_next_page_id := bt_next_page_id t + 1\<rparr>)))
      p (leaf_KeyAt r 0) (bt_next_page_id t) = Inr t' \<and> bt_ok cfg t' (Some T) \<and>
    leaves T = left_leaves C @ [(p, l), (bt_next_page_id t, r)] @ right_leaves C"
proof -
  let ?n = "bt_next_page_id t"
  let ?t = "write_leaf ?n r (write_leaf p l (t\<lparr>bt_next_page_id := ?n + 1\<rparr>))" and ?up = "leaf_KeyAt r 0"
  note o = bt_okD [OF ok] and H = halves_facts [OF wf(1) sz cfg e]
  have w: "wft a (Some ?up) (TLeaf p l)" "wft (Some ?up) b (TLeaf ?n r)"
    by (rule halves_wft [OF H(1,2) _ H(9,10)]; use wf H(4) in \<open>simp add: leaf_wf_def\<close>)+
  have pg: "bt_pages ?t = (bt_pages t)(p \<mapsto> LeafPage l, ?n \<mapsto> LeafPage r)" "bt_next_page_id ?t = ?n + 1"
    "bt_root_page_id ?t = bt_root_page_id t" by (simp_all add: write_leaf_def)
  have d: "distinct (p # ctx_pids C)" using o(4) by (simp add: distinct_pids_plug)
  have bnd: "0 \<le> q \<and> q < ?n" if "q \<in> insert p (set (ctx_pids C))" for q
    using o(5) [of q] that by (simp add: set_pids_plug)
  then have nn: "?n \<notin> insert p (set (ctx_pids C))" by fastforce
  have "ctx_repr (bt_pages t) p C" using o(2) by (simp add: repr_plug)
  then have cr: "ctx_repr (bt_pages ?t) p C" by (rule ctx_repr_cong) (use nn d in \<open>auto simp: pg\<close>)
  have "\<forall>q \<in> set (pids (TLeaf p l) @ pids (TLeaf ?n r) @ ctx_pids C). 0 \<le> q \<and> q < bt_next_page_id ?t"
    using bnd o(10) by (fastforce simp: pg)
  then have "split_ok cfg ?t (TLeaf p l) ?up (TLeaf ?n r) C"
    using c w nn d cr o(1,6,8,10) H(7,8) by (auto simp: split_ok_def pg sizes_plug root_plug)
  from InsertIntoParent_ok [OF this cfg] obtain t' T where P: "InsertIntoParent cfg (ctx_path C) ?t p ?up ?n = Inr t'"
    "leaves T = left_leaves C @ [(p, l), (?n, r)] @ right_leaves C" "linked (leaves T) \<Longrightarrow> bt_ok cfg t' (Some T)" by auto
  have lnk: "linked (left_leaves C @ (p, lf) # right_leaves C)" using o(7) by (simp add: leaves_plug)
  have "linked ((?n, r) # right_leaves C)"
    using linked_suffix [OF lnk] H(6) n by (cases "right_leaves C") auto
  then have "linked ((p, l) # (?n, r) # right_leaves C)" using H(5) by simp
  then have "linked (leaves T)" unfolding P(2) using linked_replace [OF lnk] by simp
  with P show ?thesis by blast
qed

text \<open>Inserting a key the tree has no entry for.\<close>

lemma leaf_insert_within:
  assumes "found t r k C p lf a b xs ys"
  shows "\<forall>e \<in> set (xs @ (k, v) # ys). within a b (fst e)" "bound_lt a b" "leaf_wf lf"
  using assms by (auto simp: found_def)

lemma insert_absent:
  assumes ok: "bt_ok cfg t (Some r)" and cfg: "config_ok cfg" and k: "k \<notin> leaf_keys (leaves r)"
    and f: "found t r k C p lf a b xs ys"
    and d: "descend (page_fuel t) (\<lambda>ip. child_for ip k) t (bt_root_page_id t) [] = Inr (rev (ctx_path C), p)"
  shows "\<exists>t' T ls. Insert cfg t k v = Inr (True, t') \<and> bt_ok cfg t' (Some T) \<and>
    leaves T = left_leaves C @ ls @ right_leaves C \<and>
    concat (map (live \<circ> snd) ls) = live (leaf_InsertAt lf (length xs) k v) \<and>
    leaf_keys ls = fst ` set (xs @ (k, v) # ys)"
proof -
  have c: "r = plug (TLeaf p lf) C" "ctx_wf None None a b C" "within a b k" "bt_pages t p = Some (LeafPage lf)"
    "p \<noteq> INVALID_PAGE_ID" "lp_entries lf = xs @ ys" "\<forall>e \<in> set xs. fst e < k" "\<forall>e \<in> set ys. k \<le> fst e"
    using f unfolding found_def by blast+
  define lf' where "lf' = leaf_InsertAt lf (length xs) k v"
  note o = bt_okD [OF ok] and present = found_present [OF f] and W = leaf_insert_within(1) [OF f, of v] leaf_insert_within(2,3) [OF f]
  note I = leaf_insert_facts [OF W(3) c(6,7) present(2) [OF k], of v, folded lf'_def]
  have lb: "leaf_lower_bound lf k = length xs" by (rule lower_bound_at [OF c(6-8)])
  have rl: "read_leaf t p = Inr lf" by (simp add: read_leaf_def c(4))
  have fl: "FindLeafPageOptimistic t k = Inr p" by (simp add: FindLeafPageOptimistic_def o(9) d)
  have sz: "lp_max_size lf = leaf_max_size cfg" "leaf_GetSize lf < leaf_max_size cfg"
    using o(8) by (simp_all add: c(1) sizes_plug leaf_GetSize_def)
  have ins: "leaf_insert_checked cfg lf (length xs) k v = Inr lf'"
    using sz(2) cfg by (simp add: leaf_insert_checked_def config_ok_def lf'_def)
  have sz': "leaf_GetSize lf' = Suc (leaf_GetSize lf)" by (simp add: leaf_GetSize_def I(2) c(6))
  show ?thesis
  proof (cases "leaf_GetSize lf + 1 \<ge> lp_max_size lf")
    case False
    have "Insert cfg t k v = Inr (True, write_leaf p lf' t)"
      using False k present(1) by (auto simp: Insert_def TryOptimisticInsert_def fl rl c(5) lb ins)
    moreover have "bt_ok cfg (write_leaf p lf' t) (Some (plug (TLeaf p lf') C))"
      by (rule leaf_replace_ok [OF ok [unfolded c(1)] c(2) _ _ I(3)])
        (use I(1,4) W(1,2) False sz sz' in \<open>simp_all add: I(2) leaf_GetSize_def\<close>)
    ultimately show ?thesis
      by (intro exI [of _ "write_leaf p lf' t"] exI [of _ "plug (TLeaf p lf') C"] exI [of _ "[(p, lf')]"])
        (simp add: leaves_plug I(2) lf'_def [symmetric])
  next
    case full: True
    then have full': "leaf_GetSize lf' = leaf_max_size cfg" using sz sz' by simp
    let ?n = "bt_next_page_id t"
    obtain l q where hv: "halves cfg lf' ?n = (l, q)" by (cases "halves cfg lf' ?n")
    have mx: "lp_max_size lf' = leaf_max_size cfg" using I(4) sz(1) by simp
    note H = halves_facts [OF I(1) full' mx cfg hv]
    obtain t' T where P: "InsertIntoParent cfg (ctx_path C)
        (write_leaf ?n q (write_leaf p l (t\<lparr>bt_next_page_id := ?n + 1\<rparr>))) p (leaf_KeyAt q 0) ?n = Inr t'"
      "bt_ok cfg t' (Some T)" "leaves T = left_leaves C @ [(p, l), (?n, q)] @ right_leaves C"
      using leaf_split_ok [OF ok [unfolded c(1)] cfg c(2) I(1) _ full' mx I(3) hv] W(1) I(2) by auto
    obtain l0 q0 where sp: "leaf_Split lf' (leaf_Init (leaf_max_size cfg)) = (l0, q0)"
      "l = l0\<lparr>lp_next_page_id := ?n\<rparr>" "q = q0\<lparr>lp_next_page_id := lp_next_page_id l0\<rparr>"
      using hv by (auto simp: halves_def split: prod.splits)
    have "TryOptimisticInsert cfg t k v = Inr (False, t)"
      using full by (simp add: TryOptimisticInsert_def fl rl c(5))
    moreover have "InsertPessimistic cfg t k v = Inr (True, t')"
      using k present(1) o(9) d full' P(1) sp
      by (auto simp: InsertPessimistic_def rl lb ins new_page_def Let_def)
    ultimately have "Insert cfg t k v = Inr (True, t')" by (simp add: Insert_def)
    moreover have "leaf_keys [(p, l), (?n, q)] = fst ` set (xs @ (k, v) # ys)"
      unfolding I(2) [symmetric] H(4) [symmetric] by auto
    moreover have "concat (map (live \<circ> snd) [(p, l), (?n, q)]) = live (leaf_InsertAt lf (length xs) k v)"
      using H(3) by (simp add: lf'_def)
    ultimately show ?thesis using P(2,3) by blast
  qed
qed

lemma Insert_found:
  assumes ok: "bt_ok cfg t (Some r)" and cfg: "config_ok cfg"
  shows "\<exists>t' T'. Insert cfg t k v = Inr (k \<notin> leaf_keys (leaves r), t') \<and> bt_ok cfg t' (Some T') \<and>
    tree_map T' = (if k \<in> leaf_keys (leaves r) then tree_map r else (tree_map r)(k \<mapsto> v)) \<and>
    leaf_keys (leaves T') = insert k (leaf_keys (leaves r))"
proof -
  obtain C p lf a b xs ys where f: "found t r k C p lf a b xs ys"
    and d: "descend (page_fuel t) (\<lambda>ip. child_for ip k) t (bt_root_page_id t) [] = Inr (rev (ctx_path C), p)"
    by (rule search_found [OF ok searches_child_for])
  have c: "r = plug (TLeaf p lf) C" "ctx_wf None None a b C" "within a b k" "bt_pages t p = Some (LeafPage lf)"
    "p \<noteq> INVALID_PAGE_ID" "lp_entries lf = xs @ ys" "\<forall>e \<in> set xs. fst e < k" "\<forall>e \<in> set ys. k \<le> fst e"
    using f unfolding found_def by blast+
  show ?thesis
  proof (cases "k \<in> leaf_keys (leaves r)")
    case True
    have "read_leaf t p = Inr lf" by (simp add: read_leaf_def c(4))
    then have "Insert cfg t k v = Inr (False, t)"
      using True found_present(1) [OF f] bt_okD(9) [OF ok] d lower_bound_at [OF c(6-8)]
      by (simp add: Insert_def TryOptimisticInsert_def FindLeafPageOptimistic_def c(5) InsertPessimistic_def)
    with True ok show ?thesis by (auto simp: insert_absorb)
  next
    case False
    from insert_absent [OF ok cfg False f d, of v] obtain t' T ls where
      i: "Insert cfg t k v = Inr (True, t')" "bt_ok cfg t' (Some T)" "leaves T = left_leaves C @ ls @ right_leaves C"
        "concat (map (live \<circ> snd) ls) = live (leaf_InsertAt lf (length xs) k v)"
        "leaf_keys ls = fst ` set (xs @ (k, v) # ys)" by blast
    from leaf_insert_facts(5) [OF leaf_insert_within(3) [OF f] c(6,7) found_present(2) [OF f False], of v]
    obtain A B where AB: "live lf = A @ B" "live (leaf_InsertAt lf (length xs) k v) = A @ (k, v) # B"
      "fst ` set A \<subseteq> fst ` set xs" by blast
    have "k \<notin> fst ` set A" using AB(3) c(7) by (metis imageE less_irrefl subsetD)
    then have "tree_map T = (tree_map r)(k \<mapsto> v)"
      unfolding c(1) by (rule leaf_update_map [OF c(2,3) AB(1) i(4) [unfolded AB(2)] _ i(3)])
    moreover have "leaf_keys (leaves T) = insert k (leaf_keys (leaves r))"
      unfolding c(1) i(3) by (auto simp: leaves_plug i(5) c(6))
    ultimately show ?thesis using False i(1,2) by auto
  qed
qed

lemma Insert_ok:
  assumes "bt_ok cfg t T" "config_ok cfg"
  shows "\<exists>t' T'. Insert cfg t k v = Inr (k \<notin> bt_keys T, t') \<and> bt_ok cfg t' (Some T') \<and>
    bt_map (Some T') = (if k \<in> bt_keys T then bt_map T else (bt_map T)(k \<mapsto> v)) \<and>
    bt_keys (Some T') = insert k (bt_keys T)"
proof (cases T)
  case None
  with Insert_empty [of cfg t k v] assms show ?thesis by (auto simp: bt_map_def bt_keys_def)
next
  case (Some r)
  with Insert_found [of cfg t r k v] assms show ?thesis by (auto simp: bt_map_def bt_keys_def)
qed

subsection \<open>Removing from a leaf\<close>

lemma find_key_at:
  "\<forall>e \<in> set xs. fst e \<noteq> k \<Longrightarrow> find_key (xs @ (k, v) # ys) k i = Some (i + length xs)"
  by (induction xs arbitrary: i) auto

lemma find_key_None: "k \<notin> fst ` set es \<Longrightarrow> find_key es k i = None"
  by (induction es arbitrary: i) (auto simp: key_cmp_def)

lemma unshifted_mem:
  "(i :: nat) \<in> (\<lambda>t. if t > n then t - 1 else t) ` {t \<in> T. t \<noteq> n} \<longleftrightarrow> (if i < n then i \<in> T else i + 1 \<in> T)"
proof
  assume "if i < n then i \<in> T else i + 1 \<in> T"
  then show "i \<in> (\<lambda>t. if t > n then t - 1 else t) ` {t \<in> T. t \<noteq> n}"
    by (cases "i < n") (auto simp: image_iff intro: bexI [of _ "i + 1"] bexI [of _ i])
qed (auto split: if_splits)

definition leaf_without :: "nat \<Rightarrow> ('k, 'v) leaf_page \<Rightarrow> nat \<Rightarrow> ('k, 'v) leaf_page" where
  "leaf_without tombs lf n =
     (if length (lp_tombstones lf) \<ge> tombs then leaf_RemoveAt lf n
      else lf\<lparr>lp_tombstones := lp_tombstones lf @ [n]\<rparr>)"

lemma leaf_without_fields:
  "lp_next_page_id (leaf_without m lf n) = lp_next_page_id lf" "lp_max_size (leaf_without m lf n) = lp_max_size lf"
  "set (lp_entries (leaf_without m lf n)) \<subseteq> set (lp_entries lf)"
  "length (lp_entries (leaf_without m lf n)) \<le> length (lp_entries lf)"
  by (auto simp: leaf_without_def leaf_RemoveAt_def dest: in_set_takeD in_set_dropD)

lemma leaf_remove_live:
  fixes lf :: "('k::linorder, 'v) leaf_page"
  assumes wf: "leaf_wf lf" and e: "lp_entries lf = xs @ (k, v) # ys" and n: "length xs \<notin> set (lp_tombstones lf)"
  shows "leaf_Remove m lf k = (True, leaf_without m lf (length xs))"
    "leaf_wf (leaf_without m lf (length xs))"
    "\<exists>A B. live lf = A @ (k, v) # B \<and> live (leaf_without m lf (length xs)) = A @ B \<and>
       k \<notin> fst ` set A \<and> k \<notin> fst ` set B"
proof -
  let ?n = "length xs" and ?T = "lp_tombstones lf"
  let ?D = "\<lambda>i. i \<in> set ?T"
  have srt: "\<forall>e \<in> set xs. fst e < k" "\<forall>e \<in> set ys. k < fst e" "sorted_wrt (<) (map fst (xs @ ys))"
    using wf e by (auto simp: leaf_wf_def sorted_wrt_append)
  have "\<forall>e \<in> set xs. fst e \<noteq> k" using srt(1) by blast
  then show "leaf_Remove m lf k = (True, leaf_without m lf ?n)"
    using find_key_at [of xs k v ys 0] n
    by (simp add: leaf_Remove_def leaf_without_def e leaf_IsTombstone_def list_ex_iff)
  have inj: "inj_on (\<lambda>t. if t > ?n then t - 1 else t) {t. t \<noteq> ?n}" by (auto simp: inj_on_def split: if_splits)
  then have inj': "inj_on (\<lambda>t. if t > ?n then t - 1 else t) (set (filter (\<lambda>t. t \<noteq> ?n) ?T))"
    by (rule inj_on_subset) auto
  let ?R = "leaf_RemoveAt lf ?n"
  have R: "lp_entries ?R = xs @ ys"
    "lp_tombstones ?R = map (\<lambda>t. if t > ?n then t - 1 else t) (filter (\<lambda>t. t \<noteq> ?n) ?T)"
    by (simp_all add: leaf_RemoveAt_def e)
  have R': "i \<in> set (lp_tombstones ?R) \<longleftrightarrow> (if i < ?n then ?D i else ?D (i + 1))" for i
    unfolding R set_map set_filter by (rule unshifted_mem)
  have "\<forall>i \<in> set (lp_tombstones ?R). i < length (xs @ ys)"
    using wf by (auto simp: R leaf_wf_def e split: if_splits)
  then have wfR: "leaf_wf ?R" using wf inj' srt(3) by (simp add: leaf_wf_def R distinct_map)
  then show "leaf_wf (leaf_without m lf ?n)"
    using wf n e by (auto simp: leaf_without_def leaf_wf_def)
  let ?A = "live_from 0 ?D xs" and ?B = "live_from (Suc ?n) ?D ys"
  have "live lf = ?A @ (k, v) # ?B" using n by (simp add: live_eq [of lf] e live_from_append)
  moreover have "live ?R = ?A @ ?B"
  proof -
    have "live_from (?n + 1) ?D ys = live_from ?n (\<lambda>i. i \<in> set (lp_tombstones ?R)) ys"
      unfolding live_from_shift by (rule live_from_cong) (simp add: R')
    moreover have "?A = live_from 0 (\<lambda>i. i \<in> set (lp_tombstones ?R)) xs" by (rule live_from_cong) (simp add: R')
    ultimately show ?thesis by (simp add: live_eq [of ?R] R(1) live_from_append)
  qed
  moreover have "live (lf\<lparr>lp_tombstones := ?T @ [?n]\<rparr>) = ?A @ ?B"
  proof -
    let ?D' = "\<lambda>i. i = ?n \<or> ?D i"
    have "live_from 0 ?D' xs = ?A" "live_from (Suc ?n) ?D' ys = ?B" by (rule live_from_cong; simp)+
    then show ?thesis by (simp add: live_eq e live_from_append)
  qed
  moreover have "k \<notin> fst ` set ?A" "k \<notin> fst ` set ?B"
    using live_from_subset [of 0 ?D xs] live_from_subset [of "Suc ?n" ?D ys] srt(1,2) by fastforce+
  ultimately show "\<exists>A B. live lf = A @ (k, v) # B \<and> live (leaf_without m lf ?n) = A @ B \<and>
       k \<notin> fst ` set A \<and> k \<notin> fst ` set B"
    by (auto simp: leaf_without_def)
qed

lemma leaf_remove_dead:
  assumes wf: "leaf_wf lf" and s: "lp_entries lf = xs @ ys" "\<forall>e \<in> set xs. fst e < k" "\<forall>e \<in> set ys. k \<le> fst e"
    and dead: "map_of (live lf) k = None"
  shows "leaf_Remove m lf k = (False, lf)"
proof (cases "k \<in> fst ` set (lp_entries lf)")
  case False
  then show ?thesis by (simp add: leaf_Remove_def find_key_None)
next
  case True
  then obtain y ys' where ys: "ys = y # ys'" "fst y = k"
  proof -
    have "k \<in> fst ` set ys" using True s(1,2) by force
    then obtain e where e: "e \<in> set ys" "fst e = k" by blast
    obtain y ys' where y: "ys = y # ys'" using e(1) by (cases ys) auto
    have "sorted_wrt (<) (map fst ys)" using wf s(1) by (simp add: leaf_wf_def sorted_wrt_append)
    then have "fst y \<le> k" using e y by auto
    moreover have "k \<le> fst y" using s(3) y by simp
    ultimately show thesis using that y by simp
  qed
  obtain v where y: "y = (k, v)" using ys(2) by (cases y) auto
  have "length xs \<in> set (lp_tombstones lf)"
    using live_lookup [OF wf s] dead s(1) ys(1) y by (auto split: if_splits)
  moreover have "\<forall>e \<in> set xs. fst e \<noteq> k" using s(2) by blast
  ultimately show ?thesis
    using find_key_at [of xs k v ys' 0] s(1) ys(1) y
    by (simp add: leaf_Remove_def leaf_IsTombstone_def list_ex_iff)
qed

end
