(* ===== verification/BPTree_Props.thy ===== *)
theory BPTree_Props
  imports BPTree_Correct
begin

section \<open>Properties of the B+ tree\<close>

text \<open>
  What the index built on the tree relies on: lookups return what was inserted and not removed,
  an insertion works on every path, a removal that does not underflow a leaf removes exactly its
  key, and the iterators enumerate the live entries in key order. Further, what the code does
  when a removal does underflow.
\<close>

subsection \<open>Remove\<close>

lemma write_same: "bt_pages t p = Some (LeafPage lf) \<Longrightarrow> write_leaf p lf t = t"
  by (simp add: write_leaf_def map_upd_triv)

text \<open>The page a removal of \<open>key\<close> changes, before and after.\<close>

definition removal_leaf :: "('k::linorder) bt_config \<Rightarrow> ('k, 'v) btree \<Rightarrow> 'k \<Rightarrow>
    (page_id \<times> ('k, 'v) leaf_page \<times> ('k, 'v) leaf_page) result" where
  "removal_leaf cfg t key =
     rbind (FindLeafPageOptimistic t key) (\<lambda>pid. rbind (read_leaf t pid) (\<lambda>leaf.
       Inr (pid, leaf, snd (leaf_Remove (tomb_cnt cfg) leaf key))))"

text \<open>The removal leaves the shape of the tree alone: the leaf is the root or above half full
  with live entries, or it keeps its first key and half of its entries.\<close>

definition in_place :: "('k::linorder) bt_config \<Rightarrow> ('k, 'v) btree \<Rightarrow> 'k \<Rightarrow> bool" where
  "in_place cfg t key =
     (case removal_leaf cfg t key of
        Inl e \<Rightarrow> False
      | Inr (pid, leaf, leaf1) \<Rightarrow>
          pid = bt_root_page_id t \<or> leaf_GetLiveSize leaf > int (leaf_GetMinSize leaf) \<or>
          (leaf_GetSize leaf1 \<ge> leaf_GetMinSize leaf1 \<and> leaf_GetSize leaf1 > 0 \<and>
           leaf_KeyAt leaf1 0 = leaf_KeyAt leaf 0))"

lemma not_live: "k \<notin> leaf_keys ls \<Longrightarrow> k \<notin> fst ` set (concat (map (live \<circ> snd) ls))"
  by (rule contra_subsetD [OF live_concat_keys])

lemma map_of_live_middle:
  assumes c: "ctx_wf None None a b C" "within a b k"
    and l: "live lf = A @ (k, v) # B" "live lf' = A @ B" "k \<notin> fst ` set A" "k \<notin> fst ` set B"
  shows "tree_map (plug (TLeaf p lf') C) = (tree_map (plug (TLeaf p lf) C))(k := None)"
proof -
  let ?L = "concat (map (live \<circ> snd) (left_leaves C))" and ?R = "concat (map (live \<circ> snd) (right_leaves C))"
  have "k \<notin> leaf_keys (left_leaves C)" "k \<notin> leaf_keys (right_leaves C)" using ctx_leaf_bounds [OF c] by auto
  then have "k \<notin> fst ` set (?L @ A)" "k \<notin> fst ` set (B @ ?R)"
    using l(3,4) not_live [of k "left_leaves C"] not_live [of k "right_leaves C"]
    by (simp_all only: set_append image_Un Un_iff simp_thms)
  then have "map_of ((?L @ A) @ (B @ ?R)) = (map_of ((?L @ A) @ (k, v) # (B @ ?R)))(k := None)"
    by (rule map_of_delete_mid)
  then show ?thesis by (simp add: tree_map_def leaves_plug l(1,2))
qed

lemma found_lookup:
  assumes f: "found t r k C p lf a b xs ys"
  shows "tree_map r k = map_of (live lf) k"
proof -
  have "r = plug (TLeaf p lf) C" "ctx_wf None None a b C" "within a b k" using f unfolding found_def by blast+
  then show ?thesis using tree_map_plug by fastforce
qed

text \<open>The entry a live key has in the leaf the search finds.\<close>

lemma found_live:
  assumes f: "found t r k C p lf a b xs ys" and l: "tree_map r k = Some v"
  obtains ys' where "ys = (k, v) # ys'" "length xs \<notin> set (lp_tombstones lf)"
proof -
  have c: "leaf_wf lf" "lp_entries lf = xs @ ys" "\<forall>e \<in> set xs. fst e < k" "\<forall>e \<in> set ys. k \<le> fst e"
    using f by (auto simp: found_def)
  have h: "length xs < length (lp_entries lf)" "lp_entries lf ! length xs = (k, v)"
    "length xs \<notin> set (lp_tombstones lf)"
    using live_lookup [OF c] l found_lookup [OF f] by (auto split: if_splits)
  then show thesis using that c(2) by (cases ys) auto
qed

text \<open>Removing a key that is not live changes nothing.\<close>

lemma Remove_dead:
  assumes ok: "bt_ok cfg t T" and dead: "bt_map T k = None"
  shows "Remove cfg t k = Inr t"
proof (cases T)
  case None
  with ok have "bt_root_page_id t = INVALID_PAGE_ID" by (simp add: bt_ok_def)
  then show ?thesis
    by (simp add: Remove_def TryOptimisticRemove_def FindLeafPageOptimistic_def RemovePessimistic_def)
next
  case (Some r)
  note ok' = ok [unfolded Some]
  note o = bt_okD [OF ok']
  obtain C p lf a b xs ys where f: "found t r k C p lf a b xs ys"
    and d: "descend (page_fuel t) (\<lambda>ip. child_for ip k) t (bt_root_page_id t) [] = Inr (rev (ctx_path C), p)"
    by (rule search_found [OF ok' searches_child_for])
  obtain C' q lg a' b' xs' ys' where g: "found t r k C' q lg a' b' xs' ys'"
    and e: "descend (page_fuel t) (\<lambda>ip. internal_Lookup ip k) t (bt_root_page_id t) [] = Inr (rev (ctx_path C'), q)"
    by (rule search_found [OF ok' searches_Lookup])
  have dd: "tree_map r k = None" using dead Some by (simp add: bt_map_def)
  have F: "bt_pages t p = Some (LeafPage lf)" "p \<noteq> INVALID_PAGE_ID" and G: "bt_pages t q = Some (LeafPage lg)"
    using f g by (simp_all add: found_def)
  have "leaf_Remove (tomb_cnt cfg) lf k = (False, lf)"
    using leaf_remove_dead [of lf xs ys k] f found_lookup [OF f] dd by (simp add: found_def)
  moreover have "leaf_Remove (tomb_cnt cfg) lg k = (False, lg)"
    using leaf_remove_dead [of lg xs' ys' k] g found_lookup [OF g] dd by (simp add: found_def)
  ultimately show ?thesis
    using o(9) d e F G
    by (auto simp: Remove_def TryOptimisticRemove_def FindLeafPageOptimistic_def RemovePessimistic_def
        read_leaf_def write_same)
qed

text \<open>Writing back the leaf without the key.\<close>

lemma remove_write:
  assumes ok: "bt_ok cfg t (Some r)" and f: "found t r k C p lf a b xs ys" and l: "tree_map r k = Some v"
  defines "lf' \<equiv> leaf_without (tomb_cnt cfg) lf (length xs)"
  shows "leaf_Remove (tomb_cnt cfg) lf k = (True, lf')"
    "bt_ok cfg (write_leaf p lf' t) (Some (plug (TLeaf p lf') C))"
    "tree_map (plug (TLeaf p lf') C) = (tree_map r)(k := None)" "leaf_wf lf'"
    "leaf_keys (leaves (plug (TLeaf p lf') C)) \<subseteq> leaf_keys (leaves r)"
proof -
  have c: "r = plug (TLeaf p lf) C" "ctx_wf None None a b C" "wft a b (TLeaf p lf)" "within a b k" "leaf_wf lf"
    "lp_entries lf = xs @ ys"
    using f by (auto simp: found_def)
  obtain ys' where y: "ys = (k, v) # ys'" "length xs \<notin> set (lp_tombstones lf)" by (rule found_live [OF f l])
  note R = leaf_remove_live [OF c(5) c(6) [unfolded y(1)] y(2), of "tomb_cnt cfg", folded lf'_def]
  note F = leaf_without_fields [of "tomb_cnt cfg" lf "length xs", folded lf'_def]
  show "leaf_Remove (tomb_cnt cfg) lf k = (True, lf')" "leaf_wf lf'" by (rule R(1), rule R(2))
  show "leaf_keys (leaves (plug (TLeaf p lf') C)) \<subseteq> leaf_keys (leaves r)"
    using image_mono [OF F(3), of fst] by (auto simp: c(1) leaves_plug)
  show "bt_ok cfg (write_leaf p lf' t) (Some (plug (TLeaf p lf') C))"
  proof (rule leaf_replace_ok [OF ok [unfolded c(1)] c(2) _ _ F(1)])
    show "wft a b (TLeaf p lf')" using c(3) F(3) R(2) by auto
    show "sizes_ok cfg (TLeaf p lf')" using bt_okD(8) [OF ok] F(2,4) by (simp add: c(1) sizes_plug)
  qed
  show "tree_map (plug (TLeaf p lf') C) = (tree_map r)(k := None)"
    using R(3) map_of_live_middle [OF c(2,4)] unfolding c(1) by metis
qed

lemma live_size: "leaf_wf lf \<Longrightarrow> leaf_GetLiveSize lf = int (length (live lf))"
proof -
  assume wf: "leaf_wf lf"
  let ?n = "length (lp_entries lf)" and ?T = "lp_tombstones lf"
  have "length (live lf) = card {i. i < ?n \<and> i \<notin> set ?T}"
    by (simp add: live_def distinct_length_filter Int_def conj_commute)
  also have "{i. i < ?n \<and> i \<notin> set ?T} = {..<?n} - set ?T" by auto
  also have "card \<dots> = ?n - card (set ?T)" using wf by (subst card_Diff_subset) (auto simp: leaf_wf_def)
  finally have "length (live lf) = ?n - length ?T" using wf by (simp add: leaf_wf_def distinct_card)
  moreover have "length ?T \<le> ?n"
  proof -
    have "card (set ?T) \<le> card {..<?n}" using wf by (intro card_mono) (auto simp: leaf_wf_def)
    then show ?thesis using wf by (simp add: leaf_wf_def distinct_card)
  qed
  ultimately show ?thesis by (simp add: leaf_GetLiveSize_def leaf_GetSize_def)
qed

text \<open>Both descents reach the leaf that has the key.\<close>

lemma found_unique:
  assumes f: "found t r k C p lf a b xs ys" and g: "found t r k C' q lg a' b' xs' ys'" and l: "tree_map r k = Some v"
  shows "q = p" "lg = lf"
proof -
  have "k \<in> fst ` set (lp_entries lg)" using found_live [OF g l] g by (force simp: found_def)
  then have "k \<in> fst ` set (lp_entries (snd (q, lg)))" by simp
  have F: "r = plug (TLeaf p lf) C" "ctx_wf None None a b C" "within a b k" using f by (simp_all add: found_def)
  have "leaves r = left_leaves C @ [(p, lf)] @ right_leaves C" by (simp add: F(1) leaves_plug)
  moreover have "(q, lg) \<in> set (leaves r)" using g by (simp add: found_def leaves_plug)
  moreover have "(q, lg) \<notin> set (left_leaves C)" "(q, lg) \<notin> set (right_leaves C)"
    using ctx_leaf_bounds [OF F(2,3)] \<open>k \<in> fst ` set (lp_entries lg)\<close> unfolding leaf_keys_def by fastforce+
  ultimately show "q = p" "lg = lf" by auto
qed

lemma last_ctx_pid: "C \<noteq> [] \<Longrightarrow> fst (last C) \<in> set (ctx_pids C)"
  by (induction C rule: ctx_pids.induct) auto

text \<open>The root is a leaf.\<close>

lemma root_leaf:
  assumes ok: "bt_ok cfg t (Some (plug (TLeaf p lf) C))" and p: "p = bt_root_page_id t"
  shows "C = []"
proof (rule ccontr)
  assume ne: "C \<noteq> []"
  then have "fst (last C) \<in> set (ctx_pids C)" by (rule last_ctx_pid)
  moreover have "p \<notin> set (ctx_pids C)" using bt_okD(4) [OF ok] by (simp add: distinct_pids_plug)
  moreover have "fst (last C) = p" using p ne trans [OF bt_okD(1) [OF ok] root_plug] by simp
  ultimately show False by simp
qed

lemma remove_root:
  assumes ok: "bt_ok cfg t (Some (TLeaf p lf))"
  shows "\<exists>T'. bt_ok cfg (remove_from_root_leaf t p lf) T' \<and> bt_map T' = tree_map (TLeaf p lf) \<and>
    bt_keys T' \<subseteq> leaf_keys (leaves (TLeaf p lf))"
proof (cases "leaf_GetLiveSize lf = 0")
  case True
  have "leaf_wf lf" using bt_okD(3) [OF ok] by simp
  from live_size [OF this] True have "live lf = []" by simp
  then have "tree_map (TLeaf p lf) = Map.empty" by (simp add: tree_map_def)
  moreover have "bt_ok cfg (remove_from_root_leaf t p lf) None"
    using bt_okD(6,10) [OF ok] True
    by (simp add: bt_ok_def remove_from_root_leaf_def delete_page_def)
  ultimately show ?thesis by (intro exI [of _ None]) (simp add: bt_map_def bt_keys_def)
next
  case False
  with ok show ?thesis by (intro exI [of _ "Some (TLeaf p lf)"]) (simp add: bt_map_def bt_keys_def remove_from_root_leaf_def)
qed

lemma Remove_live:
  assumes ok: "bt_ok cfg t (Some r)" and l: "tree_map r k = Some v" and ip: "in_place cfg t k"
  shows "\<exists>t' T'. Remove cfg t k = Inr t' \<and> bt_ok cfg t' T' \<and> bt_map T' = (tree_map r)(k := None) \<and>
    bt_keys T' \<subseteq> leaf_keys (leaves r)"
proof -
  obtain C p lf a b xs ys where f: "found t r k C p lf a b xs ys"
    and d: "descend (page_fuel t) (\<lambda>ip. child_for ip k) t (bt_root_page_id t) [] = Inr (rev (ctx_path C), p)"
    by (rule search_found [OF ok searches_child_for])
  obtain C' q lg a' b' xs' ys' where g: "found t r k C' q lg a' b' xs' ys'"
    and e: "descend (page_fuel t) (\<lambda>ip. internal_Lookup ip k) t (bt_root_page_id t) [] = Inr (rev (ctx_path C'), q)"
    by (rule search_found [OF ok searches_Lookup])
  note u = found_unique [OF f g l]
  note g = g [unfolded u] and e = e [unfolded u]
  note W = remove_write [OF ok f l] and V = remove_write [OF ok g l]
  have F: "bt_pages t p = Some (LeafPage lf)" "p \<noteq> INVALID_PAGE_ID" "r = plug (TLeaf p lf) C'"
    using f g by (simp_all add: found_def)
  note o = bt_okD [OF ok]
  let ?lf' = "leaf_without (tomb_cnt cfg) lf (length xs')"
  have same: "leaf_without (tomb_cnt cfg) lf (length xs) = ?lf'" using W(1) V(1) by simp
  have fl: "FindLeafPageOptimistic t k = Inr p" by (simp add: FindLeafPageOptimistic_def o(9) d)
  have rl: "read_leaf t p = Inr lf" by (simp add: read_leaf_def F(1))
  show ?thesis
  proof (cases "leaf_GetLiveSize lf \<le> int (leaf_GetMinSize lf)")
    case False
    then have "Remove cfg t k = Inr (write_leaf p ?lf' t)"
      by (simp add: Remove_def TryOptimisticRemove_def fl rl F(2) V(1))
    with V(2,3,5) show ?thesis by (intro exI [of _ "write_leaf p ?lf' t"] exI [of _ "Some (plug (TLeaf p ?lf') C')"])
        (simp add: bt_map_def bt_keys_def)
  next
    case True
    then have t: "Remove cfg t k = RemovePessimistic cfg t k"
      by (simp add: Remove_def TryOptimisticRemove_def fl rl F(2))
    show ?thesis
    proof (cases "p = bt_root_page_id t")
      case root: True
      have "C' = []" using root_leaf ok root unfolding F(3) by blast
      then have ok': "bt_ok cfg (write_leaf p ?lf' t) (Some (TLeaf p ?lf'))"
        and m: "tree_map (TLeaf p ?lf') = (tree_map r)(k := None)" using V(2,3) by simp_all
      have "Remove cfg t k = Inr (remove_from_root_leaf (write_leaf p ?lf' t) p ?lf')"
        unfolding t using o(9) root by (simp add: RemovePessimistic_def e [unfolded root] rl [unfolded root] V(1))
      with remove_root [OF ok'] m V(5) \<open>C' = []\<close> show ?thesis by fastforce
    next
      case inner: False
      have "removal_leaf cfg t k = Inr (p, lf, ?lf')" by (simp add: removal_leaf_def fl rl V(1))
      then have "leaf_GetSize ?lf' \<ge> leaf_GetMinSize ?lf'" "leaf_KeyAt ?lf' 0 = leaf_KeyAt lf 0"
        using ip inner True by (simp_all add: in_place_def)
      then have "Remove cfg t k = Inr (write_leaf p ?lf' t)"
        unfolding t using o(9) inner by (simp add: RemovePessimistic_def e rl V(1) Let_def)
      with V(2,3,5) show ?thesis by (intro exI [of _ "write_leaf p ?lf' t"] exI [of _ "Some (plug (TLeaf p ?lf') C')"])
          (simp add: bt_map_def bt_keys_def)
    qed
  qed
qed

lemma Remove_ok:
  assumes ok: "bt_ok cfg t T" and ip: "bt_map T k \<noteq> None \<longrightarrow> in_place cfg t k"
  shows "\<exists>t' T'. Remove cfg t k = Inr t' \<and> bt_ok cfg t' T' \<and> bt_map T' = (bt_map T)(k := None) \<and>
    bt_keys T' \<subseteq> bt_keys T"
proof (cases "bt_map T k")
  case None
  with Remove_dead [OF ok None] ok show ?thesis by (auto simp: fun_eq_iff)
next
  case (Some v)
  then obtain r where r: "T = Some r" by (cases T) (auto simp: bt_map_def)
  with Some ip Remove_live [of cfg t r k v] ok show ?thesis by (auto simp: bt_map_def bt_keys_def)
qed

subsection \<open>The iterators\<close>

definition entries :: "('k, 'v) tree \<Rightarrow> ('k \<times> 'v) list" where
  "entries r = concat (map (live \<circ> snd) (leaves r))"

definition bt_entries :: "('k, 'v) tree option \<Rightarrow> ('k \<times> 'v) list" where
  "bt_entries T = (case T of None \<Rightarrow> [] | Some r \<Rightarrow> entries r)"

lemma live_sorted: "leaf_wf lf \<Longrightarrow> sorted_wrt (<) (map fst (live lf))"
proof -
  assume wf: "leaf_wf lf"
  have "sorted_wrt (\<lambda>i j. fst (lp_entries lf ! i) < fst (lp_entries lf ! j)) [0..<length (lp_entries lf)]"
    using wf by (auto simp: leaf_wf_def sorted_wrt_iff_nth_less)
  then show ?thesis unfolding live_def by (simp add: sorted_wrt_map sorted_wrt_filter)
qed

lemma entries_keys: "fst ` set (concat (map (live \<circ> snd) ls)) \<subseteq> leaf_keys ls"
  by (rule live_concat_keys)

lemma entries_sorted: fixes t :: "('k::linorder, 'v) tree" and ts :: "('k, 'v) tree list"
  shows "wft lo hi t \<Longrightarrow> sorted_wrt (<) (map fst (concat (map (live \<circ> snd) (leaves t))))"
    and "chain lo hi ks ts \<Longrightarrow> sorted_wrt (<) (map fst (concat (map (live \<circ> snd) (concat (map leaves ts)))))"
proof (induction lo hi t and lo hi ks ts rule: wft_chain.induct)
  case (5 lo hi k ks t ts)
  let ?l = "concat (map (live \<circ> snd) (leaves t))" and ?r = "concat (map (live \<circ> snd) (concat (map leaves ts)))"
  have "x < y" if "x \<in> fst ` set ?l" "y \<in> fst ` set ?r" for x y
  proof -
    have "within lo (Some k) x" using wft_keys(1) 5(3) subsetD [OF entries_keys that(1)] by fastforce
    moreover have "within (Some k) hi y" using wft_keys(2) 5(3) subsetD [OF entries_keys that(2)] by fastforce
    ultimately show ?thesis by (cases lo; cases hi) auto
  qed
  moreover have "sorted_wrt (<) (map fst ?l)" "sorted_wrt (<) (map fst ?r)" using 5 by (simp_all add: comp_def)
  moreover have "concat (map (live \<circ> snd) (concat (map leaves (t # ts)))) = ?l @ ?r" by simp
  ultimately show ?case by (simp only: map_append sorted_wrt_append set_map) blast
qed (auto simp: live_sorted)

text \<open>The entries of a leaf from an index on.\<close>

definition rest :: "('k, 'v) leaf_page \<Rightarrow> nat \<Rightarrow> ('k \<times> 'v) list" where
  "rest lf i = map (\<lambda>i. lp_entries lf ! i)
     (filter (\<lambda>i. i \<notin> set (lp_tombstones lf)) [i..<length (lp_entries lf)])"

lemma rest_step:
  "i < length (lp_entries lf) \<Longrightarrow>
   rest lf i = (if i \<in> set (lp_tombstones lf) then [] else [lp_entries lf ! i]) @ rest lf (Suc i)"
  by (simp add: rest_def upt_conv_Cons)

lemma rest_end: "length (lp_entries lf) \<le> i \<Longrightarrow> rest lf i = []"
  by (simp add: rest_def)

lemma skip_rest:
  "rest lf (skip_tombstones lf i) = rest lf i \<and>
   (skip_tombstones lf i < length (lp_entries lf) \<longrightarrow> skip_tombstones lf i \<notin> set (lp_tombstones lf))"
proof (induction lf i rule: skip_tombstones.induct)
  case (1 lf i)
  show ?case
  proof (cases "i < leaf_GetSize lf \<and> leaf_IsTombstone lf i")
    case True
    then have "rest lf i = rest lf (Suc i)"
      by (simp add: rest_step leaf_GetSize_def leaf_IsTombstone_def list_ex_iff)
    with 1 True show ?thesis by (subst (1 2 3) skip_tombstones.simps) simp
  next
    case False
    then have "skip_tombstones lf i = i" by (subst skip_tombstones.simps) auto
    with False show ?thesis by (auto simp: leaf_GetSize_def leaf_IsTombstone_def list_ex_iff)
  qed
qed

text \<open>A suffix of the chain of leaves, and what an iterator into it has before it.\<close>

definition chain_ok :: "('k, 'v) btree \<Rightarrow> (page_id \<times> ('k, 'v) leaf_page) list \<Rightarrow> bool" where
  "chain_ok t ls \<longleftrightarrow> linked ls \<and> length ls < page_fuel t \<and>
     (\<forall>(q, lg) \<in> set ls. bt_pages t q = Some (LeafPage lg) \<and> q \<noteq> INVALID_PAGE_ID)"

definition remaining :: "(page_id \<times> ('k, 'v) leaf_page) list \<Rightarrow> bt_iterator \<Rightarrow> ('k \<times> 'v) list \<Rightarrow> bool" where
  "remaining ls it es \<longleftrightarrow>
     it = (INVALID_PAGE_ID, 0) \<and> es = [] \<or>
     (\<exists>ls1 q lg ls2 j. ls = ls1 @ (q, lg) # ls2 \<and> it = (q, j) \<and> j < length (lp_entries lg) \<and>
        j \<notin> set (lp_tombstones lg) \<and> es = rest lg j @ concat (map (live \<circ> snd) ls2))"

lemma live_rest: "live lf = rest lf 0"
  by (simp add: live_def rest_def)

lemma remaining_prefix: "remaining ls it es \<Longrightarrow> remaining (ls1 @ ls) it es"
  unfolding remaining_def by (metis append_assoc)

lemma seek_remaining:
  "linked ((q, lg) # ls) \<Longrightarrow> length ls < fuel \<Longrightarrow>
   \<forall>(q, lg) \<in> set ((q, lg) # ls). bt_pages t q = Some (LeafPage lg) \<and> q \<noteq> INVALID_PAGE_ID \<Longrightarrow>
   \<exists>it. seek fuel t q j = Inr it \<and> remaining ((q, lg) # ls) it (rest lg j @ concat (map (live \<circ> snd) ls))"
proof (induction ls arbitrary: q lg fuel j)
  case Nil
  let ?j = "skip_tombstones lg j"
  obtain n where n: "fuel = Suc n" using Nil(2) by (cases fuel) auto
  have rl: "read_leaf t q = Inr lg" using Nil(3) by (simp add: read_leaf_def)
  show ?case
  proof (cases "?j < length (lp_entries lg)")
    case True
    then have "remaining [(q, lg)] (q, ?j) (rest lg j)"
      using skip_rest [of lg j] unfolding remaining_def by (intro disjI2 exI [of _ "[]"]) auto
    with True show ?thesis by (simp add: n rl leaf_GetSize_def)
  next
    case False
    then have "rest lg j = []" using skip_rest [of lg j] rest_end [of lg ?j] by simp
    with False Nil(1) show ?thesis by (simp add: n rl leaf_GetSize_def remaining_def)
  qed
next
  case (Cons x ls)
  obtain q' lg' where x: "x = (q', lg')" by (cases x)
  let ?j = "skip_tombstones lg j"
  obtain n where n: "fuel = Suc n" using Cons.prems(2) by (cases fuel) auto
  have rl: "read_leaf t q = Inr lg" using Cons.prems(3) by (simp add: read_leaf_def)
  show ?case
  proof (cases "?j < length (lp_entries lg)")
    case True
    then have "remaining ((q, lg) # x # ls) (q, ?j) (rest lg j @ concat (map (live \<circ> snd) (x # ls)))"
      using skip_rest [of lg j] unfolding remaining_def
      by (intro disjI2 exI [of _ "[]"] exI [of _ q] exI [of _ lg] exI [of _ "x # ls"] exI [of _ ?j]) auto
    with True show ?thesis by (simp add: n rl leaf_GetSize_def comp_def)
  next
    case False
    then have "rest lg j = []" using skip_rest [of lg j] rest_end [of lg ?j] by simp
    moreover have "linked ((q', lg') # ls)" "length ls < n"
      "\<forall>(q, lg) \<in> set ((q', lg') # ls). bt_pages t q = Some (LeafPage lg) \<and> q \<noteq> INVALID_PAGE_ID"
      using Cons.prems n x by auto
    from Cons.IH [OF this, of 0] obtain it where "seek n t q' 0 = Inr it"
      "remaining ((q', lg') # ls) it (rest lg' 0 @ concat (map (live \<circ> snd) ls))" by blast
    ultimately show ?thesis
      using False Cons.prems(1,3) remaining_prefix [of "(q', lg') # ls" it _ "[(q, lg)]"]
      by (auto simp: n rl leaf_GetSize_def x live_rest comp_def)
  qed
qed

lemma seek_chain:
  assumes ok: "chain_ok t (ls1 @ (q, lg) # ls2)"
  shows "\<exists>it. seek (page_fuel t) t q j = Inr it \<and>
    remaining (ls1 @ (q, lg) # ls2) it (rest lg j @ concat (map (live \<circ> snd) ls2))"
proof -
  have "linked ((q, lg) # ls2)" "length ls2 < page_fuel t"
    "\<forall>(q, lg) \<in> set ((q, lg) # ls2). bt_pages t q = Some (LeafPage lg) \<and> q \<noteq> INVALID_PAGE_ID"
    using ok linked_suffix by (auto simp: chain_ok_def)
  from seek_remaining [OF this, of j] show ?thesis using remaining_prefix by blast
qed

text \<open>The client's loop over an index: the entries from an iterator to the end.\<close>

fun scan :: "nat \<Rightarrow> ('k, 'v) btree \<Rightarrow> bt_iterator \<Rightarrow> ('k \<times> 'v) list result" where
  "scan 0 t it = Inl Stuck"
| "scan (Suc fuel) t it =
     (if IsEnd it then Inr []
      else rbind (iter_deref t it) (\<lambda>e. rbind (iter_next t it) (\<lambda>it'. rbind (scan fuel t it') (\<lambda>es. Inr (e # es)))))"

lemma scan_remaining:
  "chain_ok t ls \<Longrightarrow> remaining ls it es \<Longrightarrow> length es < fuel \<Longrightarrow> scan fuel t it = Inr es"
proof (induction fuel arbitrary: it es)
  case (Suc n)
  from Suc.prems(2) consider "it = (INVALID_PAGE_ID, 0)" "es = []"
    | ls1 q lg ls2 j where "ls = ls1 @ (q, lg) # ls2" "it = (q, j)" "j < length (lp_entries lg)"
        "j \<notin> set (lp_tombstones lg)" "es = rest lg j @ concat (map (live \<circ> snd) ls2)"
    unfolding remaining_def by blast
  then show ?case
  proof cases
    case 1
    then show ?thesis by (simp add: IsEnd_def)
  next
    case 2
    have q: "bt_pages t q = Some (LeafPage lg)" "q \<noteq> INVALID_PAGE_ID"
      using Suc.prems(1) 2(1) by (auto simp: chain_ok_def)
    have es: "es = lp_entries lg ! j # rest lg (Suc j) @ concat (map (live \<circ> snd) ls2)"
      using 2(3-5) by (simp add: rest_step)
    from seek_chain [OF Suc.prems(1) [unfolded 2(1)], of "Suc j"] obtain it' where
      "seek (page_fuel t) t q (Suc j) = Inr it'"
      "remaining ls it' (rest lg (Suc j) @ concat (map (live \<circ> snd) ls2))" using 2(1) by blast
    with Suc.IH [OF Suc.prems(1) this(2)] Suc.prems(3) q es 2(2,3) show ?thesis
      by (simp add: iter_next_def IsEnd_def iter_deref_def read_leaf_def leaf_GetSize_def leaf_KeyAt_def leaf_ValueAt_def)
  qed
qed simp

lemma leaves_length: "length (leaves r) \<le> length (pids r)"
proof (induction r)
  case (TNode p ip ts)
  then have "length (concat (map leaves ts)) \<le> length (concat (map pids ts))"
    by (induction ts) (auto intro: add_mono)
  then show ?case by simp
qed simp

lemma leaf_pages: "repr m r \<Longrightarrow> (q, lg) \<in> set (leaves r) \<Longrightarrow> m q = Some (LeafPage lg) \<and> q \<in> set (pids r)"
  by (induction r) auto

lemma tree_chain_ok:
  assumes ok: "bt_ok cfg t (Some r)"
  shows "chain_ok t (leaves r)"
proof -
  note o = bt_okD [OF ok]
  have "length (leaves r) \<le> card (set (pids r))" using leaves_length [of r] o(4) by (simp add: distinct_card)
  also have "\<dots> \<le> card (dom (bt_pages t))" using repr_dom [OF o(2)] o(6) by (intro card_mono)
  finally have "length (leaves r) < page_fuel t" by (simp add: page_fuel_def)
  moreover have "q \<noteq> INVALID_PAGE_ID" if "(q, lg) \<in> set (leaves r)" for q lg
    using o(5) [of q] leaf_pages [OF o(2) that] by (auto simp: INVALID_PAGE_ID_def)
  ultimately show ?thesis using o(7) leaf_pages [OF o(2)] by (auto simp: chain_ok_def)
qed

lemma descend_leftmost:
  "repr (bt_pages t) r \<Longrightarrow> wft lo hi r \<Longrightarrow> depth r < fuel \<Longrightarrow>
   \<exists>path p lf ls. descend fuel (\<lambda>ip. internal_ValueAt ip 0) t (root_id r) pre = Inr (path, p) \<and> leaves r = (p, lf) # ls"
proof (induction r arbitrary: lo hi fuel pre)
  case (TLeaf p lf)
  then obtain n where "fuel = Suc n" by (cases fuel) auto
  with TLeaf show ?case by simp
next
  case (TNode p ip ts)
  obtain n where n: "fuel = Suc n" using TNode.prems(3) by (cases fuel) auto
  have "chain lo hi (tl (ip_keys ip)) ts" using TNode.prems(2) by simp
  then obtain u us hi' where u: "ts = u # us" "wft lo hi' u"
    by (cases ts; cases "tl (ip_keys ip)") auto
  have "depth u < n" using TNode.prems(3) u(1) n by simp
  with TNode.IH [of u lo hi' n "pre @ [p]"] TNode.prems(1) u n show ?case by (fastforce simp: internal_ValueAt_def)
qed

lemma BeginFirst_remaining:
  assumes ok: "bt_ok cfg t (Some r)"
  shows "\<exists>it. BeginFirst t = Inr it \<and> remaining (leaves r) it (entries r)"
proof -
  note o = bt_okD [OF ok]
  from descend_leftmost [OF o(2,3) depth_fuel [OF ok], of "[]"] obtain path p lf ls where
    d: "descend (page_fuel t) (\<lambda>ip. internal_ValueAt ip 0) t (root_id r) [] = Inr (path, p)" "leaves r = (p, lf) # ls"
    by blast
  from seek_chain [of t "[]" p lf ls 0] tree_chain_ok [OF ok] d(2) obtain it where
    "seek (page_fuel t) t p 0 = Inr it" "remaining (leaves r) it (rest lf 0 @ concat (map (live \<circ> snd) ls))" by auto
  then show ?thesis using d o(1,9) by (simp add: BeginFirst_def entries_def live_rest)
qed

lemma filter_rest:
  fixes lf :: "('k::linorder, 'v) leaf_page"
  assumes s: "lp_entries lf = xs @ ys" "\<forall>e \<in> set xs. fst e < k" "\<forall>e \<in> set ys. k \<le> fst e"
  shows "filter (\<lambda>e. k \<le> fst e) (live lf) = rest lf (length xs)"
proof -
  let ?m = "length xs" and ?n = "length (lp_entries lf)"
  have up: "[0..<?n] = [0..<?m] @ [?m..<?n]" using s(1) upt_add_eq_append [of 0 ?m "length ys"] by simp
  have "\<not> k \<le> fst (lp_entries lf ! i)" if "i < ?m" for i
  proof -
    have "lp_entries lf ! i \<in> set xs" using s(1) that by (simp add: nth_append)
    with s(2) show ?thesis by (simp add: not_le)
  qed
  moreover have "k \<le> fst (lp_entries lf ! i)" if "?m \<le> i" "i < ?n" for i
  proof -
    have "lp_entries lf ! i \<in> set ys" using s(1) that by (simp add: nth_append)
    with s(3) show ?thesis by simp
  qed
  ultimately show ?thesis
    unfolding live_def rest_def up by (auto simp: filter_map filter_empty_conv intro!: arg_cong [where f = "map _"] filter_cong)
qed

lemma filter_leaves:
  fixes ls :: "(page_id \<times> ('k::linorder, 'v) leaf_page) list"
  shows "\<forall>x \<in> leaf_keys ls. k < x \<Longrightarrow>
      filter (\<lambda>e. k \<le> fst e) (concat (map (live \<circ> snd) ls)) = concat (map (live \<circ> snd) ls)"
    and "\<forall>x \<in> leaf_keys ls. x < k \<Longrightarrow> filter (\<lambda>e. k \<le> fst e) (concat (map (live \<circ> snd) ls)) = []"
proof -
  have m: "fst e \<in> leaf_keys ls" if "e \<in> set (concat (map (live \<circ> snd) ls))" for e
    using subsetD [OF entries_keys imageI [OF that, of fst]] .
  show "filter (\<lambda>e. k \<le> fst e) (concat (map (live \<circ> snd) ls)) = concat (map (live \<circ> snd) ls)"
    if "\<forall>x \<in> leaf_keys ls. k < x" using that m by (intro filter_True ballI) (blast intro: less_imp_le)
  show "filter (\<lambda>e. k \<le> fst e) (concat (map (live \<circ> snd) ls)) = []"
    if "\<forall>x \<in> leaf_keys ls. x < k" using that m by (intro filter_False ballI) (metis not_le)
qed

lemma BeginAt_remaining:
  assumes ok: "bt_ok cfg t (Some r)"
  shows "\<exists>it. BeginAt t k = Inr it \<and> remaining (leaves r) it (filter (\<lambda>e. k \<le> fst e) (entries r))"
proof -
  note o = bt_okD [OF ok]
  obtain C p lf a b xs ys where f: "found t r k C p lf a b xs ys"
    and d: "descend (page_fuel t) (\<lambda>ip. child_for ip k) t (bt_root_page_id t) [] = Inr (rev (ctx_path C), p)"
    by (rule search_found [OF ok searches_child_for])
  have c: "r = plug (TLeaf p lf) C" "ctx_wf None None a b C" "within a b k" "bt_pages t p = Some (LeafPage lf)"
    "lp_entries lf = xs @ ys" "\<forall>e \<in> set xs. fst e < k" "\<forall>e \<in> set ys. k \<le> fst e"
    using f unfolding found_def by blast+
  have ls: "leaves r = left_leaves C @ (p, lf) # right_leaves C" by (simp add: c(1) leaves_plug)
  have "filter (\<lambda>e. k \<le> fst e) (entries r) = rest lf (length xs) @ concat (map (live \<circ> snd) (right_leaves C))"
    using filter_leaves(2) [of "left_leaves C" k] filter_leaves(1) [of "right_leaves C" k]
      ctx_leaf_bounds [OF c(2,3)] filter_rest [OF c(5-7)]
    unfolding entries_def ls by simp
  with seek_chain [of t "left_leaves C" p lf "right_leaves C" "length xs"] tree_chain_ok [OF ok] show ?thesis
    using o(9) d c(4) lower_bound_at [OF c(5-7)] unfolding ls by (simp add: BeginAt_def read_leaf_def)
qed

end
