(* ===== verification/BPTree_Index.thy ===== *)
theory BPTree_Index
  imports BPTree_Props
begin

section \<open>The index\<close>

text \<open>
  Models \<^verbatim>\<open>src/storage/index/b_plus_tree_index.cpp\<close>: the operations the executors call, over the
  tree. \<open>key_of\<close> stands for \<open>SetFromKey\<close>, which copies a tuple's bytes into a key. The interface
  of an index is the locale \<open>ordered_index\<close>; the tree interprets it.
\<close>

definition InsertEntry :: "('t \<Rightarrow> 'k::linorder) \<Rightarrow> 'k bt_config \<Rightarrow> ('k, 'v) btree \<Rightarrow> 't \<Rightarrow> 'v \<Rightarrow>
    (bool \<times> ('k, 'v) btree) result" where
  "InsertEntry key_of cfg container key rid = Insert cfg container (key_of key) rid"

definition DeleteEntry :: "('t \<Rightarrow> 'k::linorder) \<Rightarrow> 'k bt_config \<Rightarrow> ('k, 'v) btree \<Rightarrow> 't \<Rightarrow> ('k, 'v) btree result" where
  "DeleteEntry key_of cfg container key = Remove cfg container (key_of key)"

text \<open>\<open>GetValue\<close> appends at most one value to the result vector.\<close>

definition ScanKey :: "('t \<Rightarrow> 'k::linorder) \<Rightarrow> ('k, 'v) btree \<Rightarrow> 't \<Rightarrow> 'v list \<Rightarrow> 'v list result" where
  "ScanKey key_of container key res =
     rbind (GetValue container (key_of key)) (\<lambda>r. Inr (res @ (case r of None \<Rightarrow> [] | Some v \<Rightarrow> [v])))"

definition GetBeginIterator :: "('k, 'v) btree \<Rightarrow> bt_iterator result" where
  "GetBeginIterator container = BeginFirst container"

definition GetBeginIterator_at :: "('k::linorder, 'v) btree \<Rightarrow> 'k \<Rightarrow> bt_iterator result" where
  "GetBeginIterator_at container key = BeginAt container key"

subsection \<open>The interface\<close>

text \<open>Loading an index entry by entry.\<close>

fun load :: "('s \<Rightarrow> 'k \<Rightarrow> 'v \<Rightarrow> (bool \<times> 's) result) \<Rightarrow> ('k \<times> 'v) list \<Rightarrow> 's \<Rightarrow> 's result" where
  "load ins [] s = Inr s"
| "load ins ((k, v) # kvs) s = rbind (ins s k v) (\<lambda>(added, s'). load ins kvs s')"

text \<open>
  \<open>inv s m ks\<close>: the state \<open>s\<close> stores the map \<open>m\<close>, and takes no insertion of the keys \<open>ks\<close>.
\<close>

locale ordered_index =
  fixes inv :: "'s \<Rightarrow> ('k::linorder \<rightharpoonup> 'v) \<Rightarrow> 'k set \<Rightarrow> bool"
    and ins :: "'s \<Rightarrow> 'k \<Rightarrow> 'v \<Rightarrow> (bool \<times> 's) result"
    and del :: "'s \<Rightarrow> 'k \<Rightarrow> 's result"
    and ready :: "'s \<Rightarrow> 'k \<Rightarrow> bool"
    and get :: "'s \<Rightarrow> 'k \<Rightarrow> 'v option result"
    and all :: "'s \<Rightarrow> ('k \<times> 'v) list result"
  assumes stored_law: "inv s m ks \<Longrightarrow> dom m \<subseteq> ks"
    and ins_law: "inv s m ks \<Longrightarrow> \<exists>s'. ins s k v = Inr (k \<notin> ks, s') \<and>
      inv s' (if k \<in> ks then m else m(k \<mapsto> v)) (insert k ks)"
    and del_law: "inv s m ks \<Longrightarrow> (k \<in> dom m \<Longrightarrow> ready s k) \<Longrightarrow>
      \<exists>s' ks'. del s k = Inr s' \<and> inv s' (m(k := None)) ks' \<and> ks' \<subseteq> ks"
    and get_law: "inv s m ks \<Longrightarrow> get s k = Inr (m k)"
    and all_law: "inv s m ks \<Longrightarrow> \<exists>es. all s = Inr es \<and> sorted_wrt (<) (map fst es) \<and> map_of es = m"
begin

lemma load_inv:
  "inv s m ks \<Longrightarrow> \<exists>s'. load ins kvs s = Inr s' \<and>
     inv s' (\<lambda>k. if k \<in> ks then m k else map_of kvs k) (ks \<union> fst ` set kvs)"
proof (induction kvs arbitrary: s m ks)
  case Nil
  have "(\<lambda>k. if k \<in> ks then m k else map_of [] k) = m" using stored_law [OF Nil] by (intro ext) (metis domIff subsetD map_of.simps(1))
  with Nil show ?case by simp
next
  case (Cons e kvs)
  obtain k v where e: "e = (k, v)" by (cases e)
  from ins_law [OF Cons.prems] obtain s' where s': "ins s k v = Inr (k \<notin> ks, s')"
    "inv s' (if k \<in> ks then m else m(k \<mapsto> v)) (insert k ks)" by blast
  have "(\<lambda>j. if j \<in> insert k ks then (if k \<in> ks then m else m(k \<mapsto> v)) j else map_of kvs j) =
      (\<lambda>j. if j \<in> ks then m j else map_of (e # kvs) j)"
    by (auto simp: fun_eq_iff e)
  with Cons.IH [OF s'(2)] s'(1) show ?case by (auto simp: e insert_commute)
qed

lemma load_start:
  assumes "inv start Map.empty {}"
  obtains s where "load ins kvs start = Inr s" "inv s (map_of kvs) (fst ` set kvs)"
  using load_inv [OF assms, of kvs] by auto

lemma load_get: "inv start Map.empty {} \<Longrightarrow> \<exists>s. load ins kvs start = Inr s \<and> (\<forall>k. get s k = Inr (map_of kvs k))"
  using load_start get_law by metis

lemma sorted_of_map:
  fixes es kvs :: "('k \<times> 'v) list"
  assumes "sorted_wrt (<) (map fst es)" "map_of es = map_of kvs" "sorted_wrt (<) (map fst kvs)"
  shows "es = kvs"
proof -
  have d: "distinct (map fst es)" "distinct (map fst kvs)" using assms(1,3) by (simp_all add: strict_sorted_iff)
  have s: "set es = set kvs" using assms(2) map_of_inject_set [OF d] by simp
  have "inj_on fst (set es \<union> set kvs)" using d(1) s by (simp add: distinct_map)
  moreover have "sorted (map fst es)" "sorted (map fst kvs)" using assms(1,3) by (simp_all add: strict_sorted_iff)
  ultimately show ?thesis using map_sorted_distinct_set_unique [of fst es kvs] d s by blast
qed

text \<open>Loading a list of entries with different keys, in any order, and scanning it sorts it.\<close>

lemma load_sorts:
  assumes e: "inv start Map.empty {}" and "distinct (map fst kvs)"
  shows "\<exists>s. load ins kvs start = Inr s \<and> all s = Inr (sort_key fst kvs)"
proof -
  obtain s where s: "load ins kvs start = Inr s" "inv s (map_of kvs) (fst ` set kvs)" by (rule load_start [OF e])
  obtain es where es: "all s = Inr es" "sorted_wrt (<) (map fst es)" "map_of es = map_of kvs"
    using all_law [OF s(2)] by blast
  let ?ss = "sort_key fst kvs"
  have d: "distinct (map fst ?ss)" using assms(2) by (metis distinct_map distinct_sort mset_sort set_sort)
  have "map_of ?ss = map_of kvs" using d assms(2) by (intro map_of_eqI) (auto simp: map_of_eq_Some_iff)
  moreover have "sorted_wrt (<) (map fst ?ss)" using d by (simp add: strict_sorted_iff)
  ultimately have "es = ?ss" using sorted_of_map es(2,3) by metis
  with s(1) es(1) show ?thesis by simp
qed

lemma del_get:
  assumes "inv s m ks" "k \<in> dom m \<Longrightarrow> ready s k"
  shows "\<exists>s'. del s k = Inr s' \<and> (\<forall>j. get s' j = (if j = k then Inr None else get s j))"
proof -
  obtain s' ks' where s': "del s k = Inr s'" "inv s' (m(k := None)) ks'" using del_law [OF assms] by blast
  have "get s' j = (if j = k then Inr None else get s j)" for j
    using get_law [OF s'(2), of j] get_law [OF assms(1), of j] by simp
  with s'(1) show ?thesis by blast
qed

end

subsection \<open>The tree provides the interface\<close>

text \<open>The state of a tree together with its configuration.\<close>

definition index_inv :: "'k bt_config \<Rightarrow> ('k::linorder, 'v) btree \<Rightarrow> ('k \<rightharpoonup> 'v) \<Rightarrow> 'k set \<Rightarrow> bool" where
  "index_inv cfg t m ks \<longleftrightarrow> config_ok cfg \<and> (\<exists>T. bt_ok cfg t T \<and> m = bt_map T \<and> bt_keys T = ks)"

text \<open>The client's loop from \<open>Begin\<close> to \<open>End\<close>, with one turn for each slot of a leaf as fuel.\<close>

definition slots_in :: "('k, 'v) btree \<Rightarrow> page_id \<Rightarrow> nat" where
  "slots_in t p = (case bt_pages t p of Some (LeafPage lf) \<Rightarrow> length (lp_entries lf) | _ \<Rightarrow> 0)"

definition scan_fuel :: "('k, 'v) btree \<Rightarrow> nat" where
  "scan_fuel t = Suc (\<Sum>p \<in> dom (bt_pages t). slots_in t p)"

definition scan_all :: "('k, 'v) btree \<Rightarrow> ('k \<times> 'v) list result" where
  "scan_all t = rbind (GetBeginIterator t) (scan (scan_fuel t) t)"

definition scan_from :: "('k::linorder, 'v) btree \<Rightarrow> 'k \<Rightarrow> ('k \<times> 'v) list result" where
  "scan_from t k = rbind (GetBeginIterator_at t k) (scan (scan_fuel t) t)"

lemma distinct_leaf_ids: "distinct (pids r) \<Longrightarrow> distinct (map fst (leaves r)) \<and> fst ` set (leaves r) \<subseteq> set (pids r)"
proof (induction r)
  case (TNode p ip ts)
  have "distinct (concat (map pids us)) \<Longrightarrow> set us \<subseteq> set ts \<Longrightarrow>
      distinct (map fst (concat (map leaves us))) \<and> fst ` set (concat (map leaves us)) \<subseteq> set (concat (map pids us))"
    for us
  proof (induction us)
    case (Cons u us)
    let ?l = "concat (map leaves us)" and ?p = "concat (map pids us)"
    have u: "distinct (map fst (leaves u))" "fst ` set (leaves u) \<subseteq> set (pids u)"
      using TNode.IH [of u] Cons.prems by auto
    have us: "distinct (map fst ?l)" "fst ` set ?l \<subseteq> set ?p" using Cons by auto
    have "set (pids u) \<inter> set ?p = {}" using Cons.prems(1) by (simp del: set_concat)
    then have "set (map fst (leaves u)) \<inter> set (map fst ?l) = {}"
      unfolding set_map using u(2) us(2) by blast
    with u us have "distinct (map fst (leaves u @ ?l))" "fst ` set (leaves u @ ?l) \<subseteq> set (pids u @ ?p)"
      by (simp_all only: map_append distinct_append set_append image_Un) blast+
    then show ?case by (simp only: list.map concat.simps simp_thms)
  qed simp
  from this [of ts] TNode.prems show ?case by auto
qed simp

lemma live_length: "length (live lf) \<le> length (lp_entries lf)"
  unfolding live_def by (metis length_filter_le length_map length_upt diff_zero)

lemma entries_fuel:
  assumes ok: "bt_ok cfg t (Some r)"
  shows "length (entries r) < scan_fuel t"
proof -
  note o = bt_okD [OF ok]
  have "length (entries r) = sum_list (map (\<lambda>x. length (live (snd x))) (leaves r))"
    by (simp add: entries_def length_concat comp_def)
  also have "\<dots> \<le> sum_list (map (\<lambda>x. slots_in t (fst x)) (leaves r))"
  proof (rule sum_list_mono)
    fix x assume "x \<in> set (leaves r)"
    then show "length (live (snd x)) \<le> slots_in t (fst x)"
      using leaf_pages [OF o(2), of "fst x" "snd x"] live_length [of "snd x"] by (simp add: slots_in_def)
  qed
  also have "\<dots> = (\<Sum>p \<in> set (map fst (leaves r)). slots_in t p)"
    using distinct_leaf_ids [OF o(4)] by (metis (no_types, lifting) map_map comp_def sum_list_distinct_conv_sum_set map_eq_conv)
  also have "\<dots> \<le> (\<Sum>p \<in> dom (bt_pages t). slots_in t p)"
    using distinct_leaf_ids [OF o(4)] repr_dom [OF o(2)] o(6) by (intro sum_mono2) auto
  finally show ?thesis by (simp add: scan_fuel_def)
qed

lemma scan_all_ok:
  assumes "bt_ok cfg t T"
  shows "scan_all t = Inr (bt_entries T) \<and> scan_from t k = Inr (filter (\<lambda>e. k \<le> fst e) (bt_entries T)) \<and>
    sorted_wrt (<) (map fst (bt_entries T)) \<and> map_of (bt_entries T) = bt_map T"
proof (cases T)
  case None
  with assms show ?thesis
    by (simp add: scan_all_def scan_from_def GetBeginIterator_def GetBeginIterator_at_def BeginFirst_def BeginAt_def
        bt_ok_def bt_entries_def bt_map_def EndIter_def IsEnd_def scan_fuel_def)
next
  case (Some r)
  note ok = assms [unfolded Some]
  note chain = tree_chain_ok [OF ok]
  obtain it where it: "BeginFirst t = Inr it" "remaining (leaves r) it (entries r)"
    using BeginFirst_remaining [OF ok] by blast
  obtain it' where it': "BeginAt t k = Inr it'" "remaining (leaves r) it' (filter (\<lambda>e. k \<le> fst e) (entries r))"
    using BeginAt_remaining [OF ok] by blast
  have "length (filter (\<lambda>e. k \<le> fst e) (entries r)) < scan_fuel t"
    using length_filter_le entries_fuel [OF ok] by (metis le_less_trans)
  from scan_remaining [OF chain it(2) entries_fuel [OF ok]] scan_remaining [OF chain it'(2) this]
  show ?thesis using it(1) it'(1) entries_sorted(1) [OF bt_okD(3) [OF ok]]
    by (simp add: Some scan_all_def scan_from_def GetBeginIterator_def GetBeginIterator_at_def bt_entries_def
        bt_map_def tree_map_def entries_def)
qed

lemma bt_map_keys: "dom (bt_map T) \<subseteq> bt_keys T"
proof (cases T)
  case (Some r)
  have "dom (tree_map r) = fst ` set (concat (map (live \<circ> snd) (leaves r)))"
    by (simp only: tree_map_def dom_map_of_conv_image_fst)
  then show ?thesis using live_concat_keys [of "leaves r"] Some by (simp add: bt_map_def bt_keys_def)
qed (simp add: bt_map_def)

lemma index_get: "index_inv cfg t m ks \<Longrightarrow> GetValue t k = Inr (m k)"
  unfolding index_inv_def using GetValue_ok by blast

lemma index_ins:
  "index_inv cfg t m ks \<Longrightarrow> \<exists>t'. Insert cfg t k v = Inr (k \<notin> ks, t') \<and>
     index_inv cfg t' (if k \<in> ks then m else m(k \<mapsto> v)) (insert k ks)"
  unfolding index_inv_def using Insert_ok by (metis (no_types, lifting))

lemma index_all:
  "index_inv cfg t m ks \<Longrightarrow> \<exists>es. scan_all t = Inr es \<and> sorted_wrt (<) (map fst es) \<and> map_of es = m"
  unfolding index_inv_def using scan_all_ok by blast

lemma index_del:
  "index_inv cfg t m ks \<Longrightarrow> (k \<in> dom m \<Longrightarrow> in_place cfg t k) \<Longrightarrow>
   \<exists>t' ks'. Remove cfg t k = Inr t' \<and> index_inv cfg t' (m(k := None)) ks' \<and> ks' \<subseteq> ks"
proof -
  assume inv: "index_inv cfg t m ks" and ip: "k \<in> dom m \<Longrightarrow> in_place cfg t k"
  then obtain T where T: "config_ok cfg" "bt_ok cfg t T" "m = bt_map T" "bt_keys T = ks"
    unfolding index_inv_def by blast
  from ip T(3) have "bt_map T k \<noteq> None \<longrightarrow> in_place cfg t k" by (auto simp: domIff)
  from Remove_ok [OF T(2) this] obtain t' T' where r: "Remove cfg t k = Inr t'" "bt_ok cfg t' T'"
    "bt_map T' = (bt_map T)(k := None)" "bt_keys T' \<subseteq> bt_keys T" by blast
  have "index_inv cfg t' (m(k := None)) (bt_keys T')" unfolding index_inv_def using T(1,3) r(2,3) by metis
  with r(1,4) T(4) show ?thesis by blast
qed

lemma index_stored: "index_inv cfg t m ks \<Longrightarrow> dom m \<subseteq> ks"
  unfolding index_inv_def by (metis bt_map_keys)

lemma index_start: "config_ok cfg \<Longrightarrow> 0 \<le> n \<Longrightarrow> index_inv cfg (BPlusTree n) Map.empty {}"
  unfolding index_inv_def by (auto simp: bt_ok_def BPlusTree_def bt_map_def bt_keys_def intro!: exI [of _ None])

interpretation idx: ordered_index "index_inv cfg" "Insert cfg" "Remove cfg" "in_place cfg" GetValue scan_all
  for cfg :: "('k::linorder) bt_config"
  by unfold_locales (fact index_stored index_ins index_del index_get index_all)+

subsection \<open>Properties\<close>


definition cfg4 :: "nat bt_config" where
  "cfg4 = \<lparr>leaf_max_size = 4, internal_max_size = 4, tomb_cnt = 0, leaf_slots = 8, internal_slots = 8, stale_key = 0\<rparr>"

definition leaf3 :: "(nat, nat) leaf_page" where
  "leaf3 = \<lparr>lp_max_size = 4, lp_entries = [(1, 10), (3, 30), (5, 50)], lp_tombstones = [],
     lp_next_page_id = INVALID_PAGE_ID\<rparr>"

definition tree3 :: "(nat, nat) btree" where
  "tree3 = \<lparr>bt_root_page_id = 0, bt_pages = [0 \<mapsto> LeafPage leaf3], bt_next_page_id = 1\<rparr>"

lemma tree3_ok: "config_ok cfg4" "bt_ok cfg4 tree3 (Some (TLeaf 0 leaf3))"
  by (simp_all add: config_ok_def cfg4_def bt_ok_def tree3_def leaf3_def leaf_wf_def)

lemma tree3_map: "bt_map (Some (TLeaf 0 leaf3)) = [1 \<mapsto> 10, 3 \<mapsto> 30, 5 \<mapsto> 50]"
  "bt_keys (Some (TLeaf 0 leaf3)) = {1, 3, 5}"
  by (auto simp: bt_map_def tree_map_def live_eq leaf3_def bt_keys_def)


text \<open>A point lookup in a tree in order never fails and returns exactly the live value of
  the key.\<close>

theorem bt_lookup_correct:
  assumes "bt_ok cfg t T"
  shows "ScanKey key_of t key res = Inr (res @ (case bt_map T (key_of key) of None \<Rightarrow> [] | Some v \<Rightarrow> [v]))"
  using GetValue_ok [OF assms] by (simp add: ScanKey_def)

theorem bt_lookup_correct_witness:
  "ScanKey id tree3 3 [7] = Inr [7, 30] \<and> ScanKey id tree3 4 [7] = Inr [7]"
  using bt_lookup_correct [OF tree3_ok(2), of id 3 "[7]"] bt_lookup_correct [OF tree3_ok(2), of id 4 "[7]"]
  by (simp add: tree3_map)

text \<open>C2: Removing a key that has no live entry changes nothing; removing one whose leaf stays
  in place (a root leaf, a leaf above half full, or one that keeps half of its slots and its
  first key) deletes exactly that key and keeps the tree in order.\<close>

theorem bt_remove_correct:
  assumes "bt_ok cfg t T" "bt_map T k \<noteq> None \<longrightarrow> in_place cfg t k"
  shows "\<exists>t' T'. DeleteEntry id cfg t k = Inr t' \<and> bt_ok cfg t' T' \<and> bt_map T' = (bt_map T)(k := None) \<and>
    bt_keys T' \<subseteq> bt_keys T \<and> (bt_map T k = None \<longrightarrow> t' = t)"
  using Remove_ok [OF assms] Remove_dead [OF assms(1), of k] by (fastforce simp: DeleteEntry_def)

theorem bt_remove_correct_witness:
  "\<exists>t' T'. DeleteEntry id cfg4 tree3 1 = Inr t' \<and> bt_ok cfg4 t' T' \<and> bt_map T' = [3 \<mapsto> 30, 5 \<mapsto> 50]"
proof -
  have "in_place cfg4 tree3 1"
    by (simp add: in_place_def removal_leaf_def FindLeafPageOptimistic_def tree3_def page_fuel_def
        INVALID_PAGE_ID_def read_leaf_def)
  moreover have "[1 \<mapsto> 10, 3 \<mapsto> 30, 5 \<mapsto> 50](1 := None) = [3 \<mapsto> 30, (5::nat) \<mapsto> (50::nat)]" by (auto simp: fun_eq_iff)
  ultimately show ?thesis using bt_remove_correct [OF tree3_ok(2), of 1] by (auto simp: tree3_map)
qed

text \<open>C6: The loop from \<open>Begin\<close> to \<open>End\<close> visits exactly the live entries, in strictly ascending
  order of keys, and the loop from \<open>Begin(key)\<close> those with keys at or above the key.\<close>

theorem bt_scan_sorted:
  assumes "bt_ok cfg t T"
  shows "\<exists>es. scan_all t = Inr es \<and> scan_from t k = Inr (filter (\<lambda>e. k \<le> fst e) es) \<and>
    sorted_wrt (<) (map fst es) \<and> map_of es = bt_map T"
  using scan_all_ok [OF assms] by blast

theorem bt_scan_sorted_witness:
  "\<exists>es. scan_all tree3 = Inr es \<and> scan_from tree3 3 = Inr (filter (\<lambda>e. 3 \<le> fst e) es) \<and>
    map_of es = [1 \<mapsto> 10, 3 \<mapsto> 30, 5 \<mapsto> 50]"
  using bt_scan_sorted [OF tree3_ok(2), of 3] unfolding tree3_map by blast

text \<open>An index loaded entry by entry into an empty tree, in any order, answers every lookup
  with the first value loaded for the key, and when the keys differ a scan returns the
  loaded entries sorted.\<close>

theorem bt_load_roundtrip:
  assumes "config_ok cfg" "0 \<le> n"
  shows "\<exists>t. load (Insert cfg) kvs (BPlusTree n) = Inr t \<and> (\<forall>k. GetValue t k = Inr (map_of kvs k)) \<and>
    (distinct (map fst kvs) \<longrightarrow> scan_all t = Inr (sort_key fst kvs))"
  using idx.load_get [OF index_start [OF assms], of kvs] idx.load_sorts [OF index_start [OF assms], of kvs] by force

theorem bt_load_roundtrip_witness:
  "\<exists>t. load (Insert cfg4) [(5, 50), (1, 10), (3, 30), (2, 20), (4, 40 :: nat)] (BPlusTree 0) = Inr t \<and>
    GetValue t 2 = Inr (Some 20) \<and> scan_all t = Inr [(1, 10), (2, 20), (3, 30), (4, 40), (5, 50)]"
  using bt_load_roundtrip [OF tree3_ok(1), of 0 "[(5, 50), (1, 10), (3, 30), (2, 20), (4, 40)]"]
  by (fastforce simp: insort_key_def)

subsection \<open>Where the code leaves the contract\<close>

text \<open>When a removal physically drops the first entry of a leaf that is not the root, that is
  at most half full with live entries and that keeps an entry, \<open>UpdateAncestorMinKey\<close> starts at the leaf
  itself, the back of the write set, and reads it as an internal page: the execution is
  undefined.\<close>

theorem bt_first_key_removal:
  assumes "bt_ok cfg t (Some r)" "removal_leaf cfg t k = Inr (pid, leaf, leaf1)"
    "pid \<noteq> bt_root_page_id t" "leaf_GetLiveSize leaf \<le> int (leaf_GetMinSize leaf)"
    "0 < leaf_GetSize leaf1" "leaf_KeyAt leaf1 0 \<noteq> leaf_KeyAt leaf 0" "bt_map (Some r) k \<noteq> None"
  shows "Remove cfg t k = Inl Undefined"
proof -
  note ok = assms(1) and o = bt_okD [OF assms(1)]
  obtain v where v: "tree_map r k = Some v" using assms(7) by (auto simp: bt_map_def)
  obtain C p lf a b xs ys where f: "found t r k C p lf a b xs ys"
    and d: "descend (page_fuel t) (\<lambda>ip. child_for ip k) t (bt_root_page_id t) [] = Inr (rev (ctx_path C), p)"
    by (rule search_found [OF ok searches_child_for])
  obtain C' q lg a' b' xs' ys' where g: "found t r k C' q lg a' b' xs' ys'"
    and e: "descend (page_fuel t) (\<lambda>ip. internal_Lookup ip k) t (bt_root_page_id t) [] = Inr (rev (ctx_path C'), q)"
    by (rule search_found [OF ok searches_Lookup])
  note u = found_unique [OF f g v]
  have F: "bt_pages t p = Some (LeafPage lf)" "p \<noteq> INVALID_PAGE_ID" using f by (simp_all add: found_def)
  have rl: "read_leaf t p = Inr lf" by (simp add: read_leaf_def F(1))
  have fl: "FindLeafPageOptimistic t k = Inr p" by (simp add: FindLeafPageOptimistic_def o(9) d)
  have l: "p = pid" "lf = leaf" and r: "leaf_Remove (tomb_cnt cfg) leaf k = (True, leaf1)"
    using assms(2) remove_write(1) [OF ok f v] by (auto simp: removal_leaf_def fl rl)
  have "0 < leaf_GetSize leaf"
    using found_live [OF f v] f l by (force simp: found_def leaf_GetSize_def)
  moreover have "read_internal (write_leaf pid leaf1 t) pid = Inl Undefined"
    by (simp add: read_internal_def write_leaf_def)
  ultimately have "RemovePessimistic cfg t k = Inl Undefined"
    using assms(3,5,6) o(9) e u l rl r by (auto simp: RemovePessimistic_def Let_def)
  moreover have "TryOptimisticRemove cfg t k = Inr (False, t)"
    using assms(4) F(2) l by (simp add: TryOptimisticRemove_def fl [unfolded l] rl [unfolded l] l)
  ultimately show ?thesis by (simp add: Remove_def)
qed

definition leaf_a :: "(nat, nat) leaf_page" where
  "leaf_a = \<lparr>lp_max_size = 4, lp_entries = [(1, 10), (2, 20)], lp_tombstones = [], lp_next_page_id = 1\<rparr>"

definition leaf_b :: "(nat, nat) leaf_page" where
  "leaf_b = \<lparr>lp_max_size = 4, lp_entries = [(3, 30), (4, 40)], lp_tombstones = [], lp_next_page_id = INVALID_PAGE_ID\<rparr>"

definition root_ab :: "nat internal_page" where
  "root_ab = \<lparr>ip_max_size = 4, ip_keys = [0, 3], ip_children = [0, 1]\<rparr>"

definition tree_ab :: "(nat, nat) btree" where
  "tree_ab = \<lparr>bt_root_page_id = 2, bt_pages = [0 \<mapsto> LeafPage leaf_a, 1 \<mapsto> LeafPage leaf_b, 2 \<mapsto> InternalPage root_ab],
     bt_next_page_id = 3\<rparr>"

definition shape_ab :: "(nat, nat) tree" where
  "shape_ab = TNode 2 root_ab [TLeaf 0 leaf_a, TLeaf 1 leaf_b]"

lemma tree_ab_ok: "bt_ok cfg4 tree_ab (Some shape_ab)"
  by (simp add: bt_ok_def tree_ab_def shape_ab_def root_ab_def leaf_a_def leaf_b_def cfg4_def leaf_wf_def
      INVALID_PAGE_ID_def)

theorem bt_first_key_removal_witness: "Remove cfg4 tree_ab 3 = Inl Undefined"
proof -
  have b: "bsearch P (Suc 0) (Suc (Suc 0)) = (if P (Suc 0) then Suc (Suc 0) else Suc 0)" for P
    by (simp add: bsearch.simps)
  have "card (dom (bt_pages tree_ab)) = 3" by (simp add: tree_ab_def)
  then have r: "removal_leaf cfg4 tree_ab 3 = Inr (1, leaf_b, leaf_b\<lparr>lp_entries := [(4, 40)]\<rparr>)"
    by (simp add: removal_leaf_def FindLeafPageOptimistic_def page_fuel_def tree_ab_def INVALID_PAGE_ID_def
        child_for_def internal_upper_bound_def root_ab_def internal_GetSize_def internal_KeyAt_def
        internal_ValueAt_def b read_leaf_def leaf_Remove_def leaf_b_def cfg4_def leaf_RemoveAt_def
        leaf_IsTombstone_def numeral_3_eq_3)
  have m: "bt_map (Some shape_ab) 3 \<noteq> None"
    by (simp add: bt_map_def tree_map_def shape_ab_def live_eq leaf_a_def leaf_b_def)
  show ?thesis
    by (rule bt_first_key_removal [OF tree_ab_ok r _ _ _ _ m])
      (simp_all add: tree_ab_def leaf_b_def leaf_GetLiveSize_def leaf_GetMinSize_def leaf_GetSize_def leaf_KeyAt_def)
qed

text \<open>An internal page configured to use all slots of its arrays (as the default
  \<open>internal_max_size\<close> does) overflows them when a child splits while it is full: the separator is
  inserted before the page is split.\<close>

theorem bt_full_parent_overflow:
  assumes "internal_max_size cfg = internal_slots cfg" "bt_pages t p = Some (InternalPage ip)"
    "internal_GetSize ip = internal_max_size cfg"
  shows "InsertIntoParent cfg (p # ws) t child k new = Inl Undefined"
  using assms by (simp add: read_internal_def internal_insert_checked_def Let_def)

theorem bt_full_parent_overflow_witness:
  "InsertIntoParent (cfg4\<lparr>internal_max_size := 2, internal_slots := 2\<rparr>) [2] tree_ab 1 4 3 = Inl Undefined"
  by (rule bt_full_parent_overflow [of _ _ _ root_ab]) (simp_all add: tree_ab_def root_ab_def internal_GetSize_def cfg4_def)

text \<open>While the tombstone of a removed key is in its leaf, the key cannot be inserted again:
  the insertion returns false and the key stays absent.\<close>

theorem bt_reinsert_rejected:
  assumes "config_ok cfg" "bt_ok cfg t T" "k \<in> bt_keys T" "bt_map T k = None"
  shows "\<exists>t'. Insert cfg t k v = Inr (False, t') \<and> GetValue t' k = Inr None"
proof -
  obtain t' T' where r: "Insert cfg t k v = Inr (False, t')" "bt_ok cfg t' T'" "bt_map T' k = None"
    using Insert_ok [OF assms(2,1), of k v] assms(3,4) by auto
  with GetValue_ok [OF r(2), of k] show ?thesis by simp
qed

theorem bt_reinsert_rejected_witness:
  "\<exists>t'. Insert cfg4 (tree3\<lparr>bt_pages := [0 \<mapsto> LeafPage (leaf3\<lparr>lp_tombstones := [1]\<rparr>)]\<rparr>) 3 33 = Inr (False, t') \<and>
    GetValue t' 3 = Inr None"
proof -
  let ?l = "leaf3\<lparr>lp_tombstones := [1]\<rparr>"
  have "bt_ok cfg4 (tree3\<lparr>bt_pages := [0 \<mapsto> LeafPage ?l]\<rparr>) (Some (TLeaf 0 ?l))"
    by (simp add: cfg4_def bt_ok_def tree3_def leaf3_def leaf_wf_def)
  moreover have "3 \<in> bt_keys (Some (TLeaf 0 ?l))" "bt_map (Some (TLeaf 0 ?l)) 3 = None"
    by (simp_all add: bt_map_def tree_map_def live_eq leaf3_def bt_keys_def)
  ultimately show ?thesis by (rule bt_reinsert_rejected [OF tree3_ok(1)])
qed

text \<open>Borrowing the first child of the right sibling leaves that child in both pages and loses
  the sibling's second child.\<close>

theorem bt_borrow_right_loses_child:
  assumes "ip_children right = c0 # c1 # cs" "ip_keys right = k0 # k1 # ks"
    "internal_MoveFirstToEndOf right current middle = (right1, current1, up)"
  shows "ip_children right1 = c0 # cs \<and> ip_children current1 = ip_children current @ [c0] \<and>
    (distinct (ip_children right) \<longrightarrow> c1 \<notin> set (ip_children right1))"
  using assms by (auto simp: internal_MoveFirstToEndOf_def)

theorem bt_borrow_right_loses_child_witness:
  "\<exists>right1 current1 up. internal_MoveFirstToEndOf \<lparr>ip_max_size = 4, ip_keys = [0, 30, 40], ip_children = [5, 6, 7]\<rparr>
      \<lparr>ip_max_size = 4, ip_keys = [0], ip_children = [4]\<rparr> (20::nat) = (right1, current1, up) \<and>
    ip_children right1 = [5, 7] \<and> ip_children current1 = [4, 5]"
  using bt_borrow_right_loses_child [of "\<lparr>ip_max_size = 4, ip_keys = [0, 30, 40], ip_children = [5, 6, 7]\<rparr>" 5 6 "[7]" 0 30
      "[40]" "\<lparr>ip_max_size = 4, ip_keys = [0], ip_children = [4]\<rparr>" "20::nat"]
  by (cases "internal_MoveFirstToEndOf \<lparr>ip_max_size = 4, ip_keys = [0, 30, 40], ip_children = [5, 6, 7]\<rparr>
      \<lparr>ip_max_size = 4, ip_keys = [0], ip_children = [4]\<rparr> (20::nat)") auto

end
