(* ===== verification/Watermark.thy ===== *)
theory Watermark
  imports Prelude
begin

section \<open>The watermark\<close>

text \<open>
  Models \<^verbatim>\<open>src/concurrency/watermark.cpp\<close> and \<^verbatim>\<open>src/include/concurrency/watermark.h\<close>: the
  read timestamps of the running transactions, counted in a hash map and kept in an ordered set,
  whose least element bounds what garbage collection may remove. Timestamps are unbounded
  integers.
\<close>

record watermark =
  wm_commit_ts :: int
  wm_watermark :: int
  wm_current_reads :: "int \<rightharpoonup> int"
  wm_read_timestamps :: "int set"

definition Watermark :: "int \<Rightarrow> watermark" where
  "Watermark commit_ts = \<lparr>wm_commit_ts = commit_ts, wm_watermark = commit_ts,
     wm_current_reads = Map.empty, wm_read_timestamps = {}\<rparr>"

definition AddTxn :: "watermark \<Rightarrow> int \<Rightarrow> watermark result" where
  "AddTxn w read_ts =
     (if read_ts < wm_commit_ts w then Inl (Thrown ''read ts < commit ts'')
      else
        (let n = (case wm_current_reads w read_ts of None \<Rightarrow> 0 | Some n \<Rightarrow> n);
             ts = insert read_ts (wm_read_timestamps w)
         in Inr (w\<lparr>wm_current_reads := (wm_current_reads w)(read_ts \<mapsto> n + 1),
                   wm_read_timestamps := ts, wm_watermark := Min ts\<rparr>)))"

definition RemoveTxn :: "watermark \<Rightarrow> int \<Rightarrow> watermark" where
  "RemoveTxn w read_ts =
     (case wm_current_reads w read_ts of
        None \<Rightarrow> w
      | Some n \<Rightarrow>
          (let w1 = (if n - 1 = 0
                     then w\<lparr>wm_current_reads := (wm_current_reads w)(read_ts := None),
                            wm_read_timestamps := wm_read_timestamps w - {read_ts}\<rparr>
                     else w\<lparr>wm_current_reads := (wm_current_reads w)(read_ts \<mapsto> n - 1)\<rparr>)
           in w1\<lparr>wm_watermark :=
                (if wm_read_timestamps w1 = {} then wm_commit_ts w1 else Min (wm_read_timestamps w1))\<rparr>))"

definition UpdateCommitTs :: "watermark \<Rightarrow> int \<Rightarrow> watermark" where
  "UpdateCommitTs w commit_ts = w\<lparr>wm_commit_ts := commit_ts\<rparr>"

definition GetWatermark :: "watermark \<Rightarrow> int" where
  "GetWatermark w = (if dom (wm_current_reads w) = {} then wm_commit_ts w else wm_watermark w)"

subsection \<open>What the watermark tracks\<close>

text \<open>\<open>reads r\<close> is the number of running transactions that read at \<open>r\<close>.\<close>

definition tracks :: "watermark \<Rightarrow> (int \<Rightarrow> nat) \<Rightarrow> bool" where
  "tracks w reads \<longleftrightarrow> finite {r. 0 < reads r} \<and>
     wm_current_reads w = (\<lambda>r. if 0 < reads r then Some (int (reads r)) else None) \<and>
     wm_read_timestamps w = {r. 0 < reads r} \<and>
     ({r. 0 < reads r} \<noteq> {} \<longrightarrow> wm_watermark w = Min {r. 0 < reads r})"

lemma tracks_init: "tracks (Watermark c) (\<lambda>_. 0)"
  by (simp add: tracks_def Watermark_def)

lemma positive_upd: "{r. 0 < (reads(a := Suc n)) r} = insert a {r. 0 < reads r}"
  by auto

lemma AddTxn_tracks:
  assumes t: "tracks w reads" and r: "wm_commit_ts w \<le> r"
  shows "\<exists>w'. AddTxn w r = Inr w' \<and> tracks w' (reads(r := reads r + 1)) \<and> wm_commit_ts w' = wm_commit_ts w"
proof -
  let ?reads = "reads(r := Suc (reads r))"
  let ?w = "w\<lparr>wm_current_reads := (wm_current_reads w)(r \<mapsto> int (Suc (reads r))),
     wm_read_timestamps := insert r (wm_read_timestamps w), wm_watermark := Min (insert r (wm_read_timestamps w))\<rparr>"
  have "AddTxn w r = Inr ?w"
    using t r by (auto simp: AddTxn_def tracks_def Let_def add.commute)
  moreover have "tracks ?w ?reads"
    using t unfolding tracks_def positive_upd by (auto simp: fun_eq_iff)
  ultimately show ?thesis by simp
qed

lemma RemoveTxn_tracks:
  assumes t: "tracks w reads" and r: "0 < reads r"
  shows "tracks (RemoveTxn w r) (reads(r := reads r - 1))" "wm_commit_ts (RemoveTxn w r) = wm_commit_ts w"
proof -
  let ?R = "{x. 0 < (reads(r := reads r - 1)) x}"
  have c: "wm_current_reads w r = Some (int (reads r))" and ts: "wm_read_timestamps w = {x. 0 < reads x}"
    and fin: "finite {x. 0 < reads x}" using t r by (simp_all add: tracks_def)
  show "wm_commit_ts (RemoveTxn w r) = wm_commit_ts w" by (simp add: RemoveTxn_def c Let_def)
  have R: "?R = (if reads r = 1 then {x. 0 < reads x} - {r} else {x. 0 < reads x})" using r by auto
  have "finite ?R" unfolding R using fin by simp
  moreover have "wm_read_timestamps (RemoveTxn w r) = ?R" unfolding R using r by (simp add: RemoveTxn_def c Let_def ts)
  moreover have "wm_current_reads (RemoveTxn w r) =
      (\<lambda>x. if 0 < (reads(r := reads r - 1)) x then Some (int ((reads(r := reads r - 1)) x)) else None)"
    using t r by (auto simp: RemoveTxn_def c Let_def tracks_def fun_eq_iff)
  moreover have "wm_watermark (RemoveTxn w r) = Min ?R" if "?R \<noteq> {}"
    using that unfolding R using r by (auto simp: RemoveTxn_def c Let_def ts split: if_splits)
  ultimately show "tracks (RemoveTxn w r) (reads(r := reads r - 1))" unfolding tracks_def by blast
qed

lemma UpdateCommitTs_tracks: "tracks w reads \<Longrightarrow> tracks (UpdateCommitTs w c) reads"
  by (simp add: tracks_def UpdateCommitTs_def)

lemma GetWatermark_tracks:
  assumes "tracks w reads"
  shows "GetWatermark w = (if {r. 0 < reads r} = {} then wm_commit_ts w else Min {r. 0 < reads r})"
proof -
  have "dom (wm_current_reads w) = {r. 0 < reads r}" using assms by (auto simp: tracks_def dom_def)
  with assms show ?thesis by (simp add: GetWatermark_def tracks_def)
qed

text \<open>No running transaction reads below the watermark.\<close>

lemma GetWatermark_le:
  assumes "tracks w reads" "0 < reads r"
  shows "GetWatermark w \<le> r"
proof -
  have "finite {r. 0 < reads r}" "r \<in> {r. 0 < reads r}" using assms by (simp_all add: tracks_def)
  then have "Min {r. 0 < reads r} \<le> r" by (rule Min_le)
  with assms(2) show ?thesis unfolding GetWatermark_tracks [OF assms(1)] by auto
qed

lemma GetWatermark_le_commit:
  assumes "tracks w reads" "\<And>r. 0 < reads r \<Longrightarrow> r \<le> wm_commit_ts w"
  shows "GetWatermark w \<le> wm_commit_ts w"
proof (cases "{r. 0 < reads r} = {}")
  case True
  then show ?thesis unfolding GetWatermark_tracks [OF assms(1)] by simp
next
  case False
  then obtain r where "0 < reads r" by blast
  with GetWatermark_le [OF assms(1)] assms(2) show ?thesis by (meson order.trans)
qed

end
