(* ===== verification/Mvcc.thy ===== *)
theory Mvcc
  imports Watermark
begin

section \<open>Transactions, versions and undo logs\<close>

text \<open>
  Models \<^verbatim>\<open>src/concurrency/transaction_manager.cpp\<close>, \<^verbatim>\<open>transaction_manager_impl.cpp\<close>,
  \<^verbatim>\<open>src/include/concurrency/transaction.h\<close> and the version-chain part of
  \<^verbatim>\<open>src/execution/execution_common.cpp\<close>. A tuple is the list of its column values (\<open>'v\<close>, with the
  equality \<open>CompareExactlyEquals\<close>); columns have fixed sizes, so an update in place always fits. The heap
  maps a record id to the tuple's meta data and its values; \<open>table_of\<close> names the table whose heap
  owns a page, \<open>columns_of\<close> the number of columns the catalog has for a table. Every operation runs
  under the page's write lock or the manager's mutexes, and is one step here. Loops over hash
  maps and sets, whose order C++ leaves open, touch each record once and are folds over lists of
  distinct records.
\<close>

type_synonym txn_id = int
type_synonym oid = nat

definition INVALID_TXN_ID :: txn_id where
  "INVALID_TXN_ID = -1"

definition TXN_START_ID :: txn_id where
  "TXN_START_ID = 2 ^ 62"

record tuple_meta =
  tm_ts :: int
  tm_is_deleted :: bool

record undo_link =
  prev_txn :: txn_id
  prev_log_idx :: nat

definition UndoLink :: undo_link where
  "UndoLink = \<lparr>prev_txn = INVALID_TXN_ID, prev_log_idx = 0\<rparr>"

definition IsValid :: "undo_link \<Rightarrow> bool" where
  "IsValid l = (prev_txn l \<noteq> INVALID_TXN_ID)"

record 'v undo_log =
  ul_is_deleted :: bool
  ul_modified_fields :: "bool list"
  ul_tuple :: "'v list"
  ul_ts :: int
  ul_prev_version :: undo_link

datatype txn_state = RUNNING | TAINTED | COMMITTED | ABORTED
datatype isolation_level = READ_UNCOMMITTED | SNAPSHOT_ISOLATION | SERIALIZABLE

text \<open>A scan predicate is \<open>None\<close> for the null pointer, else whether it evaluates to true.\<close>

record 'v txn =
  tx_state :: txn_state
  tx_read_ts :: int
  tx_commit_ts :: int
  tx_undo_logs :: "'v undo_log list"
  tx_write_set :: "(oid \<times> rid) list"
  tx_scan_predicates :: "(oid \<times> ('v list \<Rightarrow> bool) option) list"
  tx_isolation_level :: isolation_level
  tx_txn_id :: txn_id

record 'v txn_mgr =
  txn_map :: "txn_id \<rightharpoonup> 'v txn"
  version_info :: "rid \<rightharpoonup> undo_link"
  running_txns :: watermark
  last_commit_ts :: int
  next_txn_id :: txn_id
  heap :: "rid \<rightharpoonup> tuple_meta \<times> 'v list"
  table_of :: "page_id \<Rightarrow> oid"
  columns_of :: "oid \<Rightarrow> nat"

definition TransactionManager :: "(page_id \<Rightarrow> oid) \<Rightarrow> (oid \<Rightarrow> nat) \<Rightarrow> 'v txn_mgr" where
  "TransactionManager tables columns =
     \<lparr>txn_map = Map.empty, version_info = Map.empty, running_txns = Watermark 0, last_commit_ts = 0,
      next_txn_id = TXN_START_ID, heap = Map.empty, table_of = tables, columns_of = columns\<rparr>"

definition get_txn :: "'v txn_mgr \<Rightarrow> txn_id \<Rightarrow> 'v txn result" where
  "get_txn m tid = (case txn_map m tid of None \<Rightarrow> Inl Undefined | Some t \<Rightarrow> Inr t)"

definition set_txn :: "txn_id \<Rightarrow> 'v txn \<Rightarrow> 'v txn_mgr \<Rightarrow> 'v txn_mgr" where
  "set_txn tid t m = m\<lparr>txn_map := (txn_map m)(tid \<mapsto> t)\<rparr>"

definition GetTransactionTempTs :: "'v txn \<Rightarrow> int" where
  "GetTransactionTempTs t = tx_txn_id t"

subsection \<open>The transaction's buffers\<close>

definition AppendUndoLog :: "'v txn \<Rightarrow> 'v undo_log \<Rightarrow> undo_link \<times> 'v txn" where
  "AppendUndoLog t log =
     (let logs = tx_undo_logs t @ [log]
      in (\<lparr>prev_txn = tx_txn_id t, prev_log_idx = length logs - 1\<rparr>, t\<lparr>tx_undo_logs := logs\<rparr>))"

definition ModifyUndoLog :: "'v txn \<Rightarrow> nat \<Rightarrow> 'v undo_log \<Rightarrow> 'v txn result" where
  "ModifyUndoLog t i log =
     (if i < length (tx_undo_logs t) then Inr (t\<lparr>tx_undo_logs := (tx_undo_logs t)[i := log]\<rparr>) else Inl Undefined)"

definition txn_GetUndoLog :: "'v txn \<Rightarrow> nat \<Rightarrow> 'v undo_log result" where
  "txn_GetUndoLog t i = (if i < length (tx_undo_logs t) then Inr (tx_undo_logs t ! i) else Inl Undefined)"

definition GetUndoLogNum :: "'v txn \<Rightarrow> nat" where
  "GetUndoLogNum t = length (tx_undo_logs t)"

definition ClearUndoLog :: "'v txn \<Rightarrow> 'v txn" where
  "ClearUndoLog t = t\<lparr>tx_undo_logs := []\<rparr>"

definition AppendWriteSet :: "'v txn \<Rightarrow> oid \<Rightarrow> rid \<Rightarrow> 'v txn" where
  "AppendWriteSet t table rid =
     (if (table, rid) \<in> set (tx_write_set t) then t else t\<lparr>tx_write_set := tx_write_set t @ [(table, rid)]\<rparr>)"

definition AppendScanPredicate :: "'v txn \<Rightarrow> oid \<Rightarrow> ('v list \<Rightarrow> bool) option \<Rightarrow> 'v txn" where
  "AppendScanPredicate t table p = t\<lparr>tx_scan_predicates := tx_scan_predicates t @ [(table, p)]\<rparr>"

definition SetTainted :: "'v txn \<Rightarrow> 'v txn result" where
  "SetTainted t = (if tx_state t = RUNNING then Inr (t\<lparr>tx_state := TAINTED\<rparr>) else Inl Terminated)"

subsection \<open>Undo links and logs\<close>

definition UpdateUndoLink ::
    "'v txn_mgr \<Rightarrow> rid \<Rightarrow> undo_link option \<Rightarrow> (undo_link option \<Rightarrow> bool) option \<Rightarrow> bool \<times> 'v txn_mgr" where
  "UpdateUndoLink m rid prev_link check =
     (if (case check of None \<Rightarrow> False | Some c \<Rightarrow> \<not> c (version_info m rid)) then (False, m)
      else (True, m\<lparr>version_info := (version_info m)(rid := prev_link)\<rparr>))"

definition GetUndoLink :: "'v txn_mgr \<Rightarrow> rid \<Rightarrow> undo_link option" where
  "GetUndoLink m rid = version_info m rid"

definition GetUndoLogOptional :: "'v txn_mgr \<Rightarrow> undo_link \<Rightarrow> 'v undo_log option result" where
  "GetUndoLogOptional m link =
     (case txn_map m (prev_txn link) of
        None \<Rightarrow> Inr None
      | Some t \<Rightarrow> rbind (txn_GetUndoLog t (prev_log_idx link)) (\<lambda>log. Inr (Some log)))"

definition GetUndoLog :: "'v txn_mgr \<Rightarrow> undo_link \<Rightarrow> 'v undo_log result" where
  "GetUndoLog m link =
     rbind (GetUndoLogOptional m link) (\<lambda>undo_log. case undo_log of
       Some log \<Rightarrow> Inr log
     | None \<Rightarrow> Inl (Thrown ''undo log not exist''))"

text \<open>Tuples in the heap.\<close>

definition heap_get :: "'v txn_mgr \<Rightarrow> rid \<Rightarrow> (tuple_meta \<times> 'v list) result" where
  "heap_get m rid = (case heap m rid of None \<Rightarrow> Inl (Thrown ''Tuple ID out of range'') | Some x \<Rightarrow> Inr x)"

definition UpdateInPlace :: "'v txn_mgr \<Rightarrow> rid \<Rightarrow> tuple_meta \<Rightarrow> 'v list \<Rightarrow> 'v txn_mgr" where
  "UpdateInPlace m rid meta tuple = m\<lparr>heap := (heap m)(rid \<mapsto> (meta, tuple))\<rparr>"

definition GetTupleAndUndoLink :: "'v txn_mgr \<Rightarrow> rid \<Rightarrow> (tuple_meta \<times> 'v list \<times> undo_link option) result" where
  "GetTupleAndUndoLink m rid =
     rbind (heap_get m rid) (\<lambda>(meta, tuple). Inr (meta, tuple, GetUndoLink m rid))"

definition UpdateTupleAndUndoLink ::
    "'v txn_mgr \<Rightarrow> rid \<Rightarrow> undo_link option \<Rightarrow> tuple_meta \<Rightarrow> 'v list \<Rightarrow>
     (tuple_meta \<Rightarrow> 'v list \<Rightarrow> rid \<Rightarrow> undo_link option \<Rightarrow> bool) option \<Rightarrow> (bool \<times> 'v txn_mgr) result" where
  "UpdateTupleAndUndoLink m rid undo_link meta tuple check =
     rbind (heap_get m rid) (\<lambda>(base_meta, base_tuple).
       if (case check of None \<Rightarrow> False | Some c \<Rightarrow> \<not> c base_meta base_tuple rid undo_link) then Inr (False, m)
       else
         (let m1 = (if meta \<noteq> base_meta \<or> tuple \<noteq> base_tuple then UpdateInPlace m rid meta tuple else m)
          in Inr (True, snd (UpdateUndoLink m1 rid undo_link None))))"

subsection \<open>Reconstructing versions\<close>

text \<open>One undo log applied to the column values: the modified fields are taken from the log's
  tuple in order.\<close>

fun undo_fields :: "bool list \<Rightarrow> 'v list \<Rightarrow> 'v list \<Rightarrow> 'v list" where
  "undo_fields (True # ms) (v # vs) us = hd us # undo_fields ms vs (tl us)"
| "undo_fields (False # ms) (v # vs) us = v # undo_fields ms vs us"
| "undo_fields _ vs us = vs"

definition undo_step :: "'v undo_log \<Rightarrow> 'v list \<times> bool \<Rightarrow> 'v list \<times> bool" where
  "undo_step log st = (undo_fields (ul_modified_fields log) (fst st) (ul_tuple log), ul_is_deleted log)"

definition ReconstructTuple :: "nat \<Rightarrow> 'v list \<Rightarrow> tuple_meta \<Rightarrow> 'v undo_log list \<Rightarrow> 'v list option" where
  "ReconstructTuple n base_tuple base_meta undo_logs =
     (let (values, deleted) =
            fold undo_step undo_logs (map (\<lambda>i. base_tuple ! i) [0..<n], tm_is_deleted base_meta)
      in if deleted then None else Some values)"

text \<open>The walk down the chain, with fuel for its length.\<close>

definition log_fuel :: "'v txn_mgr \<Rightarrow> nat" where
  "log_fuel m = Suc (\<Sum>tid \<in> dom (txn_map m). length (tx_undo_logs (the (txn_map m tid))))"

fun collect_logs :: "nat \<Rightarrow> 'v txn_mgr \<Rightarrow> int \<Rightarrow> undo_link option \<Rightarrow> 'v undo_log list \<Rightarrow> 'v undo_log list option result" where
  "collect_logs 0 m read_ts undo_link logs = Inl Stuck"
| "collect_logs (Suc fuel) m read_ts undo_link logs =
     (case undo_link of
        None \<Rightarrow> Inr None
      | Some link \<Rightarrow>
          if \<not> IsValid link then Inr None
          else
            rbind (GetUndoLog m link) (\<lambda>log.
              if ul_ts log \<le> read_ts then Inr (Some (logs @ [log]))
              else collect_logs fuel m read_ts (Some (ul_prev_version log)) (logs @ [log])))"

definition CollectUndoLogs ::
    "'v txn_mgr \<Rightarrow> tuple_meta \<Rightarrow> undo_link option \<Rightarrow> 'v txn \<Rightarrow> 'v undo_log list option result" where
  "CollectUndoLogs m base_meta undo_link t =
     (if tm_ts base_meta \<le> tx_read_ts t \<or> tm_ts base_meta = GetTransactionTempTs t then Inr (Some [])
      else collect_logs (log_fuel m) m (tx_read_ts t) undo_link [])"

text \<open>What a scan does with one record: the version visible to the transaction.\<close>

definition visible_tuple :: "'v txn_mgr \<Rightarrow> txn_id \<Rightarrow> rid \<Rightarrow> 'v list option result" where
  "visible_tuple m tid rid =
     rbind (get_txn m tid) (\<lambda>t.
     rbind (GetTupleAndUndoLink m rid) (\<lambda>(meta, base, link).
     rbind (CollectUndoLogs m meta link t) (\<lambda>logs. case logs of
       None \<Rightarrow> Inr None
     | Some logs \<Rightarrow> Inr (ReconstructTuple (columns_of m (table_of m (fst rid))) base meta logs))))"

subsection \<open>Generating undo logs\<close>

text \<open>The old value of column \<open>i\<close>, if the write changes it.\<close>

definition changed_field :: "'v list option \<Rightarrow> 'v list option \<Rightarrow> nat \<Rightarrow> 'v option" where
  "changed_field base target i =
     (case base of
        None \<Rightarrow> None
      | Some b \<Rightarrow> (case target of
          None \<Rightarrow> Some (b ! i)
        | Some t \<Rightarrow> if b ! i \<noteq> t ! i then Some (b ! i) else None))"

definition GenerateNewUndoLog ::
    "nat \<Rightarrow> 'v list option \<Rightarrow> 'v list option \<Rightarrow> int \<Rightarrow> undo_link \<Rightarrow> 'v undo_log" where
  "GenerateNewUndoLog n base target ts prev_version =
     (let fields = map (changed_field base target) [0..<n]
      in \<lparr>ul_is_deleted = (base = None), ul_modified_fields = map (\<lambda>f. f \<noteq> None) fields,
          ul_tuple = map the (filter (\<lambda>f. f \<noteq> None) fields), ul_ts = ts, ul_prev_version = prev_version\<rparr>)"

text \<open>The old log's fields, and between them the ones this write changes for the first time.\<close>

fun merge_fields :: "bool list \<Rightarrow> 'v list \<Rightarrow> 'v option list \<Rightarrow> (bool \<times> 'v list) list" where
  "merge_fields (True # ms) us (f # fs) = (True, [hd us]) # merge_fields ms (tl us) fs"
| "merge_fields (False # ms) us (f # fs) =
     (case f of None \<Rightarrow> (False, []) | Some v \<Rightarrow> (True, [v])) # merge_fields ms us fs"
| "merge_fields _ us _ = []"

definition GenerateUpdatedUndoLog ::
    "nat \<Rightarrow> 'v list option \<Rightarrow> 'v list option \<Rightarrow> 'v undo_log \<Rightarrow> 'v undo_log" where
  "GenerateUpdatedUndoLog n base target log =
     (if ul_is_deleted log then log
      else
        (let merged = merge_fields (ul_modified_fields log) (ul_tuple log) (map (changed_field base target) [0..<n])
         in log\<lparr>ul_modified_fields := map fst merged, ul_tuple := concat (map snd merged)\<rparr>))"

subsection \<open>Writing\<close>

text \<open>\<open>ThrowWriteConflict\<close> taints the transaction and throws: an operation that ends with it
  returns \<open>False\<close> and the state it leaves.\<close>

definition ThrowWriteConflict :: "'v txn_mgr \<Rightarrow> txn_id \<Rightarrow> (bool \<times> 'v txn_mgr) result" where
  "ThrowWriteConflict m tid =
     rbind (get_txn m tid) (\<lambda>t. rbind (SetTainted t) (\<lambda>t1. Inr (False, set_txn tid t1 m)))"

definition ModifyTuple ::
    "'v txn_mgr \<Rightarrow> txn_id \<Rightarrow> oid \<Rightarrow> rid \<Rightarrow> 'v list option \<Rightarrow> bool \<Rightarrow> (bool \<times> 'v txn_mgr) result" where
  "ModifyTuple m tid table rid target require_deleted =
     rbind (get_txn m tid) (\<lambda>t.
     rbind (heap_get m rid) (\<lambda>(meta, base).
       if (tm_ts meta \<noteq> GetTransactionTempTs t \<and> tm_ts meta > tx_read_ts t) \<or> (require_deleted \<and> \<not> tm_is_deleted meta)
       then ThrowWriteConflict m tid
       else
         (let link = GetUndoLink m rid;
              before = (if tm_is_deleted meta then None else Some base);
              n = columns_of m table
          in rbind
               (if tm_ts meta = GetTransactionTempTs t then
                  (case link of
                     Some l \<Rightarrow>
                       if prev_txn l = tx_txn_id t then
                         rbind (txn_GetUndoLog t (prev_log_idx l)) (\<lambda>log.
                         rbind (ModifyUndoLog t (prev_log_idx l) (GenerateUpdatedUndoLog n before target log)) (\<lambda>t1.
                           Inr (link, t1)))
                       else Inr (link, t)
                   | None \<Rightarrow> Inr (link, t))
                else
                  (let (l, t1) = AppendUndoLog t (GenerateNewUndoLog n before target (tm_ts meta)
                         (case link of Some l \<Rightarrow> l | None \<Rightarrow> UndoLink))
                   in Inr (Some l, t1)))
               (\<lambda>(link1, t1).
                  let m1 = UpdateInPlace m rid \<lparr>tm_ts = GetTransactionTempTs t, tm_is_deleted = (target = None)\<rparr>
                        (case target of None \<Rightarrow> base | Some x \<Rightarrow> x);
                      m2 = snd (UpdateUndoLink m1 rid link1 None)
                  in Inr (True, set_txn tid (AppendWriteSet t1 table rid) m2)))))"

text \<open>\<open>InsertTupleMvcc\<close> over the indexes of the table: \<open>scan_key\<close> finds the records an index has
  for the tuple's key, \<open>insert_entry\<close> adds an entry (false when the key is taken), and \<open>fresh\<close> is
  the slot the table heap finds for the tuple.\<close>

fun first_hit :: "('i \<Rightarrow> rid list) \<Rightarrow> 'i list \<Rightarrow> rid option" where
  "first_hit scan_key [] = None"
| "first_hit scan_key (i # is) = (case scan_key i of rid # _ \<Rightarrow> Some rid | [] \<Rightarrow> first_hit scan_key is)"

fun insert_entries :: "('i \<Rightarrow> rid \<Rightarrow> bool \<times> 'i) \<Rightarrow> rid \<Rightarrow> 'i list \<Rightarrow> bool \<times> 'i list" where
  "insert_entries insert_entry rid [] = (True, [])"
| "insert_entries insert_entry rid (i # is) =
     (let (ok, i1) = insert_entry i rid
      in if \<not> ok then (False, i1 # is)
         else (let (oks, is1) = insert_entries insert_entry rid is in (oks, i1 # is1)))"

definition InsertTupleMvcc ::
    "('i \<Rightarrow> 'v list \<Rightarrow> rid list) \<Rightarrow> ('i \<Rightarrow> 'v list \<Rightarrow> rid \<Rightarrow> bool \<times> 'i) \<Rightarrow> rid option \<Rightarrow> 'i list \<Rightarrow>
     'v txn_mgr \<Rightarrow> txn_id \<Rightarrow> oid \<Rightarrow> 'v list \<Rightarrow> (bool \<times> 'i list \<times> 'v txn_mgr) result" where
  "InsertTupleMvcc scan_key insert_entry fresh indexes m tid table tuple =
     (case first_hit (\<lambda>i. scan_key i tuple) indexes of
        Some rid \<Rightarrow> rbind (ModifyTuple m tid table rid (Some tuple) True) (\<lambda>(ok, m1). Inr (ok, indexes, m1))
      | None \<Rightarrow>
          (case fresh of
             None \<Rightarrow> rbind (ThrowWriteConflict m tid) (\<lambda>(ok, m1). Inr (ok, indexes, m1))
           | Some rid \<Rightarrow>
               rbind (get_txn m tid) (\<lambda>t.
                 let m1 = UpdateInPlace m rid \<lparr>tm_ts = GetTransactionTempTs t, tm_is_deleted = False\<rparr> tuple;
                     m2 = set_txn tid (AppendWriteSet t table rid) m1;
                     (ok, indexes1) = insert_entries (\<lambda>i r. insert_entry i tuple r) rid indexes
                 in if ok then Inr (True, indexes1, m2)
                    else rbind (ThrowWriteConflict m2 tid) (\<lambda>(ok, m3). Inr (ok, indexes1, m3)))))"

end
