(* ===== verification/Txn_Manager.thy ===== *)
theory Txn_Manager
  imports Mvcc
begin

section \<open>The transaction manager\<close>

text \<open>
  Models \<^verbatim>\<open>src/concurrency/transaction_manager.cpp\<close>: beginning, validating, committing and
  aborting transactions, and the garbage collection of finished ones.
\<close>

definition Begin :: "'v txn_mgr \<Rightarrow> isolation_level \<Rightarrow> (txn_id \<times> 'v txn_mgr) result" where
  "Begin m isolation_level =
     (let tid = next_txn_id m;
          t = \<lparr>tx_state = RUNNING, tx_read_ts = last_commit_ts m, tx_commit_ts = -1, tx_undo_logs = [],
               tx_write_set = [], tx_scan_predicates = [], tx_isolation_level = isolation_level, tx_txn_id = tid\<rparr>
      in rbind (AddTxn (running_txns m) (tx_read_ts t)) (\<lambda>w.
           Inr (tid, (set_txn tid t m)\<lparr>next_txn_id := tid + 1, running_txns := w\<rparr>)))"

subsection \<open>Validation\<close>

definition matches :: "('v list \<Rightarrow> bool) option list \<Rightarrow> 'v list option \<Rightarrow> bool" where
  "matches predicates tuple =
     (case tuple of
        None \<Rightarrow> False
      | Some x \<Rightarrow> list_ex (\<lambda>p. case p of None \<Rightarrow> True | Some f \<Rightarrow> f x) predicates)"

text \<open>Whether no version of a record later than the read timestamp matches.\<close>

fun verify_rid :: "nat \<Rightarrow> 'v txn_mgr \<Rightarrow> nat \<Rightarrow> int \<Rightarrow> ('v list \<Rightarrow> bool) option list \<Rightarrow>
    tuple_meta \<Rightarrow> 'v list \<Rightarrow> undo_link option \<Rightarrow> 'v list option \<Rightarrow> bool result" where
  "verify_rid 0 m n read_ts predicates meta base link current = Inl Stuck"
| "verify_rid (Suc fuel) m n read_ts predicates meta base link current =
     (if \<not> tm_ts meta > read_ts then Inr True
      else
        rbind (case link of
                 Some l \<Rightarrow> if IsValid l then GetUndoLogOptional m l else Inr None
               | None \<Rightarrow> Inr None)
          (\<lambda>log.
             let before = (case log of Some u \<Rightarrow> ReconstructTuple n base meta [u] | None \<Rightarrow> None) in
             if tm_ts meta < TXN_START_ID \<and> (matches predicates current \<or> matches predicates before) then Inr False
             else
               (case log of
                  None \<Rightarrow> Inr True
                | Some u \<Rightarrow>
                    verify_rid fuel m n read_ts predicates \<lparr>tm_ts = ul_ts u, tm_is_deleted = ul_is_deleted u\<rparr>
                      (case before of Some b \<Rightarrow> b | None \<Rightarrow> base) (Some (ul_prev_version u)) before)))"

definition predicates_of :: "'v txn \<Rightarrow> oid \<Rightarrow> ('v list \<Rightarrow> bool) option list" where
  "predicates_of t table = map snd (filter (\<lambda>(o', _). o' = table) (tx_scan_predicates t))"

text \<open>The records other transactions have committed since, of tables this one scanned.\<close>

definition changed_rids :: "'v txn_mgr \<Rightarrow> 'v txn \<Rightarrow> (oid \<times> rid) list" where
  "changed_rids m t =
     remdups (concat (map (\<lambda>i. case txn_map m i of
         None \<Rightarrow> []
       | Some other \<Rightarrow>
           if tx_state other \<noteq> COMMITTED \<or> tx_commit_ts other \<le> tx_read_ts t then []
           else filter (\<lambda>(table, rid). predicates_of t table \<noteq> []) (tx_write_set other))
       (sorted_list_of_set (dom (txn_map m)))))"

fun verify_rids :: "'v txn_mgr \<Rightarrow> 'v txn \<Rightarrow> (oid \<times> rid) list \<Rightarrow> bool result" where
  "verify_rids m t [] = Inr True"
| "verify_rids m t ((table, rid) # rids) =
     rbind (GetTupleAndUndoLink m rid) (\<lambda>(meta, base, link).
     rbind (verify_rid (Suc (log_fuel m)) m (columns_of m table) (tx_read_ts t) (predicates_of t table) meta base link
              (ReconstructTuple (columns_of m table) base meta [])) (\<lambda>ok.
       if ok then verify_rids m t rids else Inr False))"

definition VerifyTxn :: "'v txn_mgr \<Rightarrow> 'v txn \<Rightarrow> bool result" where
  "VerifyTxn m t =
     (if tx_write_set t = [] then Inr True else verify_rids m t (changed_rids m t))"

subsection \<open>Abort and commit\<close>

definition abort_rid :: "txn_id \<Rightarrow> oid \<times> rid \<Rightarrow> 'v txn_mgr \<Rightarrow> 'v txn_mgr result" where
  "abort_rid tid orid m =
     (let (table, rid) = orid in
      rbind (get_txn m tid) (\<lambda>t.
      rbind (heap_get m rid) (\<lambda>(meta, tuple).
        if tm_ts meta \<noteq> GetTransactionTempTs t then Inr m
        else
          (let fresh = UpdateInPlace m rid \<lparr>tm_ts = 0, tm_is_deleted = True\<rparr> tuple in
           case GetUndoLink m rid of
             None \<Rightarrow> Inr fresh
           | Some link \<Rightarrow>
               if prev_txn link \<noteq> tx_txn_id t then Inr fresh
               else
                 rbind (txn_GetUndoLog t (prev_log_idx link)) (\<lambda>log.
                   let restored = ReconstructTuple (columns_of m table) tuple meta [log];
                       m1 = UpdateInPlace m rid \<lparr>tm_ts = ul_ts log, tm_is_deleted = ul_is_deleted log\<rparr>
                              (case restored of Some x \<Rightarrow> x | None \<Rightarrow> tuple)
                   in Inr (snd (UpdateUndoLink m1 rid
                        (if IsValid (ul_prev_version log) then Some (ul_prev_version log) else None) None)))))))"

fun fold_rids :: "(oid \<times> rid \<Rightarrow> 'v txn_mgr \<Rightarrow> 'v txn_mgr result) \<Rightarrow> (oid \<times> rid) list \<Rightarrow> 'v txn_mgr \<Rightarrow> 'v txn_mgr result" where
  "fold_rids f [] m = Inr m"
| "fold_rids f (r # rs) m = rbind (f r m) (fold_rids f rs)"

definition Abort :: "'v txn_mgr \<Rightarrow> txn_id \<Rightarrow> 'v txn_mgr result" where
  "Abort m tid =
     rbind (get_txn m tid) (\<lambda>t.
       if tx_state t \<noteq> RUNNING \<and> tx_state t \<noteq> TAINTED then Inl (Thrown ''txn not in running / tainted state'')
       else
         rbind (fold_rids (abort_rid tid) (tx_write_set t) m) (\<lambda>m1.
           Inr ((set_txn tid (t\<lparr>tx_state := ABORTED\<rparr>) m1)\<lparr>running_txns := RemoveTxn (running_txns m1) (tx_read_ts t)\<rparr>)))"

definition commit_rid :: "txn_id \<Rightarrow> int \<Rightarrow> oid \<times> rid \<Rightarrow> 'v txn_mgr \<Rightarrow> 'v txn_mgr result" where
  "commit_rid tid commit_ts orid m =
     (let (table, rid) = orid in
      rbind (get_txn m tid) (\<lambda>t.
      rbind (heap_get m rid) (\<lambda>(meta, tuple).
        if tm_ts meta = GetTransactionTempTs t
        then Inr (UpdateInPlace m rid \<lparr>tm_ts = commit_ts, tm_is_deleted = tm_is_deleted meta\<rparr> tuple)
        else Inr m)))"

definition Commit :: "'v txn_mgr \<Rightarrow> txn_id \<Rightarrow> (bool \<times> 'v txn_mgr) result" where
  "Commit m tid =
     (let commit_ts = last_commit_ts m + 1 in
      rbind (get_txn m tid) (\<lambda>t.
        if tx_state t \<noteq> RUNNING then Inl (Thrown ''txn not in running state'')
        else
          rbind (if tx_isolation_level t = SERIALIZABLE then VerifyTxn m t else Inr True) (\<lambda>valid.
            if \<not> valid then rbind (Abort m tid) (\<lambda>m1. Inr (False, m1))
            else
              rbind (fold_rids (commit_rid tid commit_ts) (tx_write_set t) m) (\<lambda>m1.
                Inr (True,
                  (set_txn tid (t\<lparr>tx_commit_ts := commit_ts, tx_state := COMMITTED\<rparr>) m1)
                    \<lparr>last_commit_ts := commit_ts,
                     running_txns := RemoveTxn (UpdateCommitTs (running_txns m1) commit_ts) (tx_read_ts t)\<rparr>)))))"

subsection \<open>Garbage collection\<close>

text \<open>The transactions whose undo logs a version chain still needs.\<close>

fun needed_txns :: "nat \<Rightarrow> 'v txn_mgr \<Rightarrow> int \<Rightarrow> undo_link option \<Rightarrow> txn_id list" where
  "needed_txns 0 m watermark link = []"
| "needed_txns (Suc fuel) m watermark link =
     (case link of
        None \<Rightarrow> []
      | Some l \<Rightarrow>
          if \<not> IsValid l then []
          else
            (case GetUndoLogOptional m l of
               Inr (Some log) \<Rightarrow>
                 prev_txn l # (if ul_ts log \<le> watermark then []
                               else needed_txns fuel m watermark (Some (ul_prev_version log)))
             | _ \<Rightarrow> []))"

definition needed :: "'v txn_mgr \<Rightarrow> int \<Rightarrow> txn_id set" where
  "needed m watermark =
     (\<Union>rid \<in> dom (heap m). case heap m rid of
        None \<Rightarrow> {}
      | Some (meta, _) \<Rightarrow>
          if tm_ts meta \<le> watermark then {}
          else set (needed_txns (log_fuel m) m watermark (GetUndoLink m rid)))"

text \<open>The least read timestamp of an active serializable transaction.\<close>

definition serial_read_ts :: "'v txn_mgr \<Rightarrow> int" where
  "serial_read_ts m =
     Min (insert (2 ^ 63 - 1) (tx_read_ts ` {t \<in> ran (txn_map m).
       tx_isolation_level t = SERIALIZABLE \<and> (tx_state t = RUNNING \<or> tx_state t = TAINTED)}))"

definition GarbageCollection :: "'v txn_mgr \<Rightarrow> 'v txn_mgr" where
  "GarbageCollection m =
     (let watermark = GetWatermark (running_txns m);
          keep = needed m watermark;
          serial = serial_read_ts m
      in m\<lparr>txn_map := (\<lambda>i. case txn_map m i of
             None \<Rightarrow> None
           | Some t \<Rightarrow>
               if (tx_state t = COMMITTED \<or> tx_state t = ABORTED) \<and> i \<notin> keep \<and>
                  (tx_state t \<noteq> COMMITTED \<or> tx_commit_ts t \<le> serial)
               then None else Some t)\<rparr>)"

end
