(* ===== verification/Mvcc_Inv.thy ===== *)
theory Mvcc_Inv
  imports Txn_Manager
begin

section \<open>The versions of a record\<close>

text \<open>
  The specification of the version store: each record has a list of versions, newest first, each
  with the timestamp of its commit (or the id of the transaction that has not committed it yet)
  and its value, \<open>None\<close> for a deleted one. A transaction sees its own write, else the newest
  version committed up to its read timestamp. The invariant says that heap, undo links and undo
  logs represent such lists; versions below the watermark may be cut off.
\<close>

type_synonym 'v version = "int \<times> 'v list option"

fun at_ts :: "int \<Rightarrow> 'v version list \<Rightarrow> 'v list option" where
  "at_ts r [] = None"
| "at_ts r ((ts, v) # vs) = (if ts \<le> r then v else at_ts r vs)"

definition snapshot :: "txn_id \<Rightarrow> int \<Rightarrow> 'v version list \<Rightarrow> 'v list option" where
  "snapshot i r vs = (case vs of [] \<Rightarrow> None | (ts, v) # _ \<Rightarrow> if ts = i then v else at_ts r vs)"

lemma snapshot_simps [simp]:
  "snapshot i r [] = None" "snapshot i r ((ts, v) # vs) = (if ts = i then v else at_ts r ((ts, v) # vs))"
  by (simp_all add: snapshot_def)

subsection \<open>Applying undo logs\<close>

lemma length_undo_fields [simp]: "length (undo_fields ms vs us) = length vs"
  by (induction ms vs us rule: undo_fields.induct) auto

text \<open>The value and the deletion flag a reconstruction holds represent a version's value.\<close>

definition rep :: "nat \<Rightarrow> 'v list \<Rightarrow> bool \<Rightarrow> 'v list option \<Rightarrow> bool" where
  "rep n vals del v \<longleftrightarrow> length vals = n \<and> (del \<longleftrightarrow> v = None) \<and> (\<forall>x. v = Some x \<longrightarrow> vals = x)"

definition restores :: "nat \<Rightarrow> 'v undo_log \<Rightarrow> 'v list option \<Rightarrow> 'v list option \<Rightarrow> bool" where
  "restores n log v v' \<longleftrightarrow>
     length (ul_modified_fields log) = n \<and> (ul_is_deleted log \<longleftrightarrow> v' = None) \<and>
     length (ul_tuple log) = length (filter (\<lambda>b. b) (ul_modified_fields log)) \<and>
     (\<forall>x vals. v' = Some x \<longrightarrow> rep n vals (v = None) v \<longrightarrow>
        undo_fields (ul_modified_fields log) vals (ul_tuple log) = x)"

lemma undo_rep:
  "rep n vals del v \<Longrightarrow> restores n log v v' \<Longrightarrow>
   rep n (undo_fields (ul_modified_fields log) vals (ul_tuple log)) (ul_is_deleted log) v'"
  by (auto simp: rep_def restores_def)

lemma Reconstruct_rep:
  assumes "length base = n" "fold undo_step logs (base, tm_is_deleted meta) = (vals, del)" "rep n vals del v"
  shows "ReconstructTuple n base meta logs = v"
proof -
  have "map (\<lambda>i. base ! i) [0..<n] = base" using map_nth [of base] assms(1) by simp
  with assms(2,3) show ?thesis by (auto simp: ReconstructTuple_def rep_def)
qed

subsection \<open>Chains\<close>

definition lookup :: "'v txn_mgr \<Rightarrow> undo_link \<Rightarrow> 'v undo_log option" where
  "lookup m l = (case txn_map m (prev_txn l) of
      None \<Rightarrow> None
    | Some t \<Rightarrow> if prev_log_idx l < length (tx_undo_logs t) then Some (tx_undo_logs t ! prev_log_idx l) else None)"

lemma link_eta [simp]: "\<lparr>prev_txn = prev_txn k, prev_log_idx = prev_log_idx k\<rparr> = k"
  by (cases k) simp

lemma lookup_log: "lookup m l = Some log \<Longrightarrow> GetUndoLog m l = Inr log \<and> GetUndoLogOptional m l = Inr (Some log)"
  by (auto simp: lookup_def GetUndoLog_def GetUndoLogOptional_def txn_GetUndoLog_def split: option.splits if_splits)

text \<open>Who holds the log below a version: its writer, if the version is not committed yet, else some
  committed transaction.\<close>

definition own :: "'v txn_mgr \<Rightarrow> int \<Rightarrow> undo_link \<Rightarrow> bool" where
  "own m ts k \<longleftrightarrow> (\<exists>t. txn_map m (prev_txn k) = Some t \<and>
     (if TXN_START_ID \<le> ts then prev_txn k = ts else tx_state t = COMMITTED))"

fun chain :: "'v txn_mgr \<Rightarrow> nat \<Rightarrow> int \<Rightarrow> 'v version list \<Rightarrow> undo_link option \<Rightarrow> bool" where
  "chain m n wm [] l = False"
| "chain m n wm [(ts, v)] l = (ts \<le> wm \<or> (case l of None \<Rightarrow> True | Some k \<Rightarrow> \<not> IsValid k))"
| "chain m n wm ((ts, v) # (ts', v') # vs) l =
     (\<exists>k log. l = Some k \<and> IsValid k \<and> own m ts k \<and> lookup m k = Some log \<and> ul_ts log = ts' \<and>
        restores n log v v' \<and> chain m n wm ((ts', v') # vs) (Some (ul_prev_version log)))"

lemma chain_cong:
  "chain m n wm vs l \<Longrightarrow> wm \<le> wm' \<Longrightarrow> distinct (map fst vs) \<Longrightarrow>
   (\<And>ts k log. ts \<in> fst ` set vs \<Longrightarrow> (ts = fst (hd vs) \<longrightarrow> l = Some k) \<Longrightarrow> own m ts k \<Longrightarrow> lookup m k = Some log \<Longrightarrow>
      own m' ts k \<and> lookup m' k = Some log) \<Longrightarrow>
   chain m' n wm' vs l"
proof (induction m n wm vs l rule: chain.induct)
  case (3 m n wm ts v ts' v' vs l)
  from "3.prems"(1) obtain k log where k: "l = Some k" "IsValid k" "own m ts k" "lookup m k = Some log" "ul_ts log = ts'"
    "restores n log v v'" "chain m n wm ((ts', v') # vs) (Some (ul_prev_version log))" by auto
  have "own m' ts k \<and> lookup m' k = Some log" using "3.prems"(4) [of ts k log] k by simp
  moreover have "chain m' n wm' ((ts', v') # vs) (Some (ul_prev_version log))"
  proof (rule "3.IH" [OF k(7) "3.prems"(2)])
    show "distinct (map fst ((ts', v') # vs))" using "3.prems"(3) by simp
    fix ts1 k1 log1 assume "ts1 \<in> fst ` set ((ts', v') # vs)" "own m ts1 k1" "lookup m k1 = Some log1"
    then show "own m' ts1 k1 \<and> lookup m' k1 = Some log1" using "3.prems"(3,4) by auto
  qed
  ultimately show ?case using k by auto
qed (auto split: option.splits)

text \<open>The walk down a chain.\<close>

lemma collect_chain:
  "chain m n wm ((ts, v) # vs) l \<Longrightarrow> r < ts \<Longrightarrow> wm \<le> r \<Longrightarrow> length vs < fuel \<Longrightarrow> rep n vals del v \<Longrightarrow>
   (\<exists>logs. collect_logs fuel m r l acc = Inr (Some (acc @ logs)) \<and>
      (\<exists>vals' del'. fold undo_step logs (vals, del) = (vals', del') \<and> rep n vals' del' (at_ts r vs))) \<or>
   collect_logs fuel m r l acc = Inr None \<and> at_ts r vs = None"
proof (induction vs arbitrary: ts v l fuel vals del acc)
  case Nil
  then obtain f where "fuel = Suc f" by (cases fuel) auto
  with Nil show ?case by (auto split: option.splits)
next
  case (Cons x vs)
  obtain ts' v' where x: "x = (ts', v')" by (cases x)
  obtain f where f: "fuel = Suc f" using Cons.prems(4) by (cases fuel) auto
  from Cons.prems(1) x obtain k log where k: "l = Some k" "IsValid k" "lookup m k = Some log" "ul_ts log = ts'"
    "restores n log v v'" "chain m n wm ((ts', v') # vs) (Some (ul_prev_version log))" by auto
  note gl = conjunct1 [OF lookup_log [OF k(3)]]
  note rp = undo_rep [OF Cons.prems(5) k(5)]
  show ?case
  proof (cases "ts' \<le> r")
    case True
    then have "collect_logs fuel m r l acc = Inr (Some (acc @ [log]))" by (simp add: f k(1,2,4) gl)
    with rp True show ?thesis by (intro disjI1 exI [of _ "[log]"]) (simp add: x undo_step_def)
  next
    case False
    then have "collect_logs fuel m r l acc = collect_logs f m r (Some (ul_prev_version log)) (acc @ [log])"
      by (simp add: f k(1,2,4) gl)
    moreover have "r < ts'" "length vs < f" using False Cons.prems(4) f by simp_all
    note IH = Cons.IH [OF k(6) this(1) Cons.prems(3) this(2) rp, of "acc @ [log]"]
    moreover have "at_ts r (x # vs) = at_ts r vs" using False by (simp add: x)
    moreover have "fold undo_step (log # logs) (vals, del) = fold undo_step logs
        (undo_fields (ul_modified_fields log) vals (ul_tuple log), ul_is_deleted log)" for logs
      by (simp add: undo_step_def)
    ultimately show ?thesis by (metis append.assoc append_Cons append_Nil)
  qed
qed

text \<open>The fuel is enough: the logs of a chain are different.\<close>

definition log_ids :: "'v txn_mgr \<Rightarrow> (txn_id \<times> nat) set" where
  "log_ids m = (SIGMA i : dom (txn_map m). {..< length (tx_undo_logs (the (txn_map m i)))})"

lemma card_log_ids: "finite (dom (txn_map m)) \<Longrightarrow> card (log_ids m) < log_fuel m"
  by (simp add: log_ids_def log_fuel_def)

lemma versions_length:
  assumes fin: "finite (dom (txn_map m))"
  shows "chain m n wm ((ts, v) # vs) l \<Longrightarrow> distinct (map fst vs) \<Longrightarrow>
    \<exists>ks. length ks = length vs \<and> set ks \<subseteq> log_ids m \<and> distinct ks \<and>
      (\<forall>k \<in> set ks. \<exists>log. lookup m \<lparr>prev_txn = fst k, prev_log_idx = snd k\<rparr> = Some log \<and> ul_ts log \<in> fst ` set vs)"
proof (induction vs arbitrary: ts v l)
  case (Cons x vs)
  obtain ts' v' where x: "x = (ts', v')" by (cases x)
  from Cons.prems(1) x obtain k log where k: "lookup m k = Some log" "ul_ts log = ts'"
    "chain m n wm ((ts', v') # vs) (Some (ul_prev_version log))" by auto
  from Cons.IH [OF k(3)] Cons.prems(2) x obtain ks where ks: "length ks = length vs" "set ks \<subseteq> log_ids m" "distinct ks"
    "\<forall>k \<in> set ks. \<exists>log. lookup m \<lparr>prev_txn = fst k, prev_log_idx = snd k\<rparr> = Some log \<and> ul_ts log \<in> fst ` set vs" by auto
  let ?k = "(prev_txn k, prev_log_idx k)"
  have kk: "lookup m \<lparr>prev_txn = fst ?k, prev_log_idx = snd ?k\<rparr> = Some log" using k(1) by simp
  have "?k \<in> log_ids m" using k(1) by (auto simp: lookup_def log_ids_def split: option.splits if_splits)
  moreover have "?k \<notin> set ks"
  proof
    assume "?k \<in> set ks"
    from bspec [OF ks(4) this] kk have "ul_ts log \<in> fst ` set vs" by simp
    with k(2) Cons.prems(2) x show False by simp
  qed
  moreover have "\<forall>j \<in> set (?k # ks). \<exists>log. lookup m \<lparr>prev_txn = fst j, prev_log_idx = snd j\<rparr> = Some log \<and>
      ul_ts log \<in> fst ` set (x # vs)"
  proof
    fix j assume "j \<in> set (?k # ks)"
    then consider "j = ?k" | "j \<in> set ks" by auto
    then show "\<exists>log. lookup m \<lparr>prev_txn = fst j, prev_log_idx = snd j\<rparr> = Some log \<and> ul_ts log \<in> fst ` set (x # vs)"
    proof cases
      case 1
      with kk k(2) x show ?thesis by auto
    next
      case 2
      from bspec [OF ks(4) 2] show ?thesis by auto
    qed
  qed
  ultimately show ?case using ks(1-3) by (intro exI [of _ "?k # ks"]) simp
qed simp

lemma chain_fuel:
  assumes "finite (dom (txn_map m))" "chain m n wm ((ts, v) # vs) l" "distinct (map fst vs)"
  shows "length vs < log_fuel m"
proof -
  obtain ks where "length ks = length vs" "set ks \<subseteq> log_ids m" "distinct ks" using versions_length [OF assms] by blast
  moreover have "finite (log_ids m)" using assms(1) by (simp add: log_ids_def)
  ultimately have "length vs \<le> card (log_ids m)" by (metis card_mono distinct_card)
  with card_log_ids [OF assms(1)] show ?thesis by simp
qed

subsection \<open>The invariant\<close>

definition active :: "'v txn \<Rightarrow> bool" where
  "active t \<longleftrightarrow> tx_state t = RUNNING \<or> tx_state t = TAINTED"

definition reads_at :: "'v txn_mgr \<Rightarrow> int \<Rightarrow> nat" where
  "reads_at m r = cnt (\<lambda>t. active t \<and> tx_read_ts t = r) (txn_map m)"

abbreviation wmark :: "'v txn_mgr \<Rightarrow> int" where
  "wmark m \<equiv> GetWatermark (running_txns m)"

abbreviation cols :: "'v txn_mgr \<Rightarrow> rid \<Rightarrow> nat" where
  "cols m rid \<equiv> columns_of m (table_of m (fst rid))"

definition txns_ok :: "'v txn_mgr \<Rightarrow> bool" where
  "txns_ok m \<longleftrightarrow> finite (dom (txn_map m)) \<and> 0 \<le> last_commit_ts m \<and> last_commit_ts m < TXN_START_ID \<and>
     TXN_START_ID \<le> next_txn_id m \<and>
     (\<forall>i t. txn_map m i = Some t \<longrightarrow> tx_txn_id t = i \<and> TXN_START_ID \<le> i \<and> i < next_txn_id m \<and>
        0 \<le> tx_read_ts t \<and> tx_read_ts t \<le> last_commit_ts m) \<and>
     tracks (running_txns m) (reads_at m) \<and> wm_commit_ts (running_txns m) = last_commit_ts m"

text \<open>The writer of an uncommitted head, and what it holds.\<close>

definition pending :: "'v txn_mgr \<Rightarrow> rid \<Rightarrow> 'v version list \<Rightarrow> bool" where
  "pending m rid vs \<longleftrightarrow> (case vs of [] \<Rightarrow> False | (ts, v) # vs' \<Rightarrow>
     (\<exists>t. txn_map m ts = Some t \<and> active t \<and> (table_of m (fst rid), rid) \<in> set (tx_write_set t) \<and>
        (\<forall>x \<in> set vs'. fst x \<le> tx_read_ts t)))"

definition record_ok :: "'v txn_mgr \<Rightarrow> rid \<Rightarrow> 'v version list \<Rightarrow> bool" where
  "record_ok m rid vs \<longleftrightarrow> (case heap m rid of
      None \<Rightarrow> vs = [] \<and> version_info m rid = None
    | Some (meta, base) \<Rightarrow>
        length base = cols m rid \<and> vs \<noteq> [] \<and>
        hd vs = (tm_ts meta, if tm_is_deleted meta then None else Some base) \<and>
        chain m (cols m rid) (wmark m) vs (version_info m rid) \<and> sorted_wrt (>) (map fst vs) \<and>
        (\<forall>x \<in> set (tl vs). 0 \<le> fst x \<and> fst x \<le> last_commit_ts m) \<and>
        (0 \<le> tm_ts meta \<and> tm_ts meta \<le> last_commit_ts m \<or> pending m rid vs))"

text \<open>Different records a transaction has written use different logs of it.\<close>

definition logs_apart :: "'v txn_mgr \<Rightarrow> bool" where
  "logs_apart m \<longleftrightarrow> (\<forall>rid rid' meta meta' base base' l l'. rid \<noteq> rid' \<longrightarrow>
     heap m rid = Some (meta, base) \<longrightarrow> heap m rid' = Some (meta', base') \<longrightarrow> tm_ts meta = tm_ts meta' \<longrightarrow>
     TXN_START_ID \<le> tm_ts meta \<longrightarrow> version_info m rid = Some l \<longrightarrow> version_info m rid' = Some l' \<longrightarrow>
     prev_txn l = tm_ts meta \<longrightarrow> prev_txn l' = tm_ts meta \<longrightarrow> prev_log_idx l \<noteq> prev_log_idx l')"

definition writes_ok :: "'v txn_mgr \<Rightarrow> bool" where
  "writes_ok m \<longleftrightarrow> (\<forall>i t. txn_map m i = Some t \<longrightarrow> distinct (tx_write_set t) \<and>
     (\<forall>(table, rid) \<in> set (tx_write_set t). table = table_of m (fst rid) \<and> rid \<in> dom (heap m)))"

definition mvcc_ok :: "'v txn_mgr \<Rightarrow> (rid \<Rightarrow> 'v version list) \<Rightarrow> bool" where
  "mvcc_ok m V \<longleftrightarrow> txns_ok m \<and> writes_ok m \<and> logs_apart m \<and> finite (dom (heap m)) \<and> (\<forall>rid. record_ok m rid (V rid))"

lemma mvcc_okD:
  assumes "mvcc_ok m V"
  shows "txns_ok m" "writes_ok m" "logs_apart m" "finite (dom (heap m))" "record_ok m rid (V rid)"
  using assms unfolding mvcc_ok_def by blast+

lemma writes_okD:
  "writes_ok m \<Longrightarrow> txn_map m i = Some t \<Longrightarrow> distinct (tx_write_set t) \<and>
     (\<forall>(table, rid) \<in> set (tx_write_set t). table = table_of m (fst rid) \<and> rid \<in> dom (heap m))"
  unfolding writes_ok_def by blast

lemma txns_okD:
  assumes "txns_ok m"
  shows "finite (dom (txn_map m))" "0 \<le> last_commit_ts m" "last_commit_ts m < TXN_START_ID"
    "TXN_START_ID \<le> next_txn_id m" "tracks (running_txns m) (reads_at m)"
    "wm_commit_ts (running_txns m) = last_commit_ts m"
    "txn_map m i = Some t \<Longrightarrow> tx_txn_id t = i \<and> TXN_START_ID \<le> i \<and> i < next_txn_id m \<and>
        0 \<le> tx_read_ts t \<and> tx_read_ts t \<le> last_commit_ts m"
  using assms by (simp_all add: txns_ok_def)

lemma reads_pos: "txns_ok m \<Longrightarrow> txn_map m i = Some t \<Longrightarrow> active t \<Longrightarrow> 0 < reads_at m (tx_read_ts t)"
  unfolding reads_at_def by (rule cnt_pos [OF txns_okD(1)]) auto

lemma reads_le:
  assumes "txns_ok m" "0 < reads_at m r"
  shows "r \<le> last_commit_ts m"
proof -
  obtain i t where "txn_map m i = Some t" "tx_read_ts t = r"
    using cnt_0_iff [OF txns_okD(1) [OF assms(1)], of "\<lambda>t. active t \<and> tx_read_ts t = r"] assms(2)
    unfolding reads_at_def by auto
  with txns_okD(7) [OF assms(1)] show ?thesis by blast
qed

lemma wmark_le_read: "txns_ok m \<Longrightarrow> txn_map m i = Some t \<Longrightarrow> active t \<Longrightarrow> wmark m \<le> tx_read_ts t"
  using GetWatermark_le [OF txns_okD(5) reads_pos] by blast

lemma wmark_le_commit: "txns_ok m \<Longrightarrow> wmark m \<le> last_commit_ts m"
  using GetWatermark_le_commit [OF txns_okD(5)] reads_le txns_okD(6) by metis

text \<open>The watermark never falls.\<close>

lemma wmark_mono:
  assumes ok: "txns_ok m" and w: "tracks w reads" "wm_commit_ts w = c" "last_commit_ts m \<le> c"
    and r: "\<And>r. 0 < reads r \<Longrightarrow> 0 < reads_at m r \<or> r = last_commit_ts m"
  shows "wmark m \<le> GetWatermark w"
proof (cases "{r. 0 < reads r} = {}")
  case True
  then show ?thesis unfolding GetWatermark_tracks [OF w(1)] using wmark_le_commit [OF ok] w(2,3) by simp
next
  case False
  have fin: "finite {r. 0 < reads r}" using w(1) by (simp add: tracks_def)
  have "wmark m \<le> r" if "0 < reads r" for r
    using r [OF that] GetWatermark_le [OF txns_okD(5) [OF ok]] wmark_le_commit [OF ok] by blast
  then have "wmark m \<le> Min {r. 0 < reads r}" using fin False by simp
  then show ?thesis unfolding GetWatermark_tracks [OF w(1)] if_not_P [OF False] .
qed

subsection \<open>Reading\<close>

theorem visible_snapshot:
  assumes ok: "mvcc_ok m V" and t: "txn_map m i = Some t" "active t" and h: "heap m rid \<noteq> None"
  shows "visible_tuple m i rid = Inr (snapshot i (tx_read_ts t) (V rid))"
proof -
  note o = mvcc_okD [OF ok]
  obtain meta base where h: "heap m rid = Some (meta, base)" using h by auto
  let ?n = "cols m rid" and ?r = "tx_read_ts t" and ?v = "if tm_is_deleted meta then None else Some base"
  obtain vs where vs: "V rid = (tm_ts meta, ?v) # vs" "length base = ?n" "sorted_wrt (>) (map fst (V rid))"
    "chain m ?n (wmark m) (V rid) (version_info m rid)"
    using o(5) [of rid] h by (cases "V rid") (auto simp: record_ok_def)
  have rp: "rep ?n base (tm_is_deleted meta) ?v" using vs(2) by (simp add: rep_def)
  have g: "GetTupleAndUndoLink m rid = Inr (meta, base, version_info m rid)"
    by (simp add: GetTupleAndUndoLink_def heap_get_def h GetUndoLink_def)
  have tmp: "GetTransactionTempTs t = i" using txns_okD(7) [OF o(1) t(1)] by (simp add: GetTransactionTempTs_def)
  show ?thesis
  proof (cases "tm_ts meta \<le> ?r \<or> tm_ts meta = i")
    case True
    have "ReconstructTuple ?n base meta [] = ?v" by (rule Reconstruct_rep [OF vs(2) _ rp]) simp
    with True show ?thesis by (auto simp: visible_tuple_def get_txn_def t(1) g CollectUndoLogs_def tmp vs(1))
  next
    case False
    have sn: "snapshot i ?r (V rid) = at_ts ?r vs" using False by (simp add: vs(1))
    have d: "distinct (map fst vs)"
      using distinct_descending [OF vs(3)] by (simp add: vs(1))
    have fu: "length vs < log_fuel m" by (rule chain_fuel [OF txns_okD(1) [OF o(1)] vs(4) [unfolded vs(1)] d])
    have r: "?r < tm_ts meta" using False by simp
    from collect_chain [OF vs(4) [unfolded vs(1)] r wmark_le_read [OF o(1) t] fu rp, of "[]"]
    show ?thesis
    proof (elim disjE exE conjE)
      fix logs vals del
      assume "collect_logs (log_fuel m) m ?r (version_info m rid) [] = Inr (Some ([] @ logs))"
        "fold undo_step logs (base, tm_is_deleted meta) = (vals, del)" "rep ?n vals del (at_ts ?r vs)"
      with Reconstruct_rep [OF vs(2) this(2,3)] False show ?thesis
        by (auto simp: visible_tuple_def get_txn_def t(1) g CollectUndoLogs_def tmp sn)
    next
      assume "collect_logs (log_fuel m) m ?r (version_info m rid) [] = Inr None" "at_ts ?r vs = None"
      with False show ?thesis by (auto simp: visible_tuple_def get_txn_def t(1) g CollectUndoLogs_def tmp sn)
    qed
  qed
qed

end
