(* ===== verification/Mvcc_Steps.thy ===== *)
theory Mvcc_Steps
  imports Mvcc_Inv
begin

section \<open>The operations keep the version lists\<close>

text \<open>
  Each operation of the transaction manager preserves the invariant of \<open>Mvcc_Inv\<close>, with the
  version lists changed as the specification says: a write puts the writer's version in front
  (in the place of its earlier one), a commit gives the writer's versions the commit timestamp,
  an abort drops them, and nothing else changes a list.
\<close>

subsection \<open>Frames\<close>

lemma own_upd:
  assumes "txn_map m i = Some t" "active t" "txn_map m' = (txn_map m)(i \<mapsto> t')" "own m ts k" "lookup m k = Some log"
    and "prev_txn k = i \<Longrightarrow> ts = i \<Longrightarrow> prev_log_idx k < length (tx_undo_logs t) \<Longrightarrow>
      prev_log_idx k < length (tx_undo_logs t') \<and> tx_undo_logs t' ! prev_log_idx k = tx_undo_logs t ! prev_log_idx k"
  shows "own m' ts k \<and> lookup m' k = Some log"
proof (cases "prev_txn k = i")
  case True
  then have ts: "ts = i" "TXN_START_ID \<le> ts" using assms(1,2,4) by (auto simp: own_def active_def split: if_splits)
  have "prev_log_idx k < length (tx_undo_logs t)" "tx_undo_logs t ! prev_log_idx k = log"
    using assms(1,5) True by (auto simp: lookup_def split: if_splits)
  with assms(3,6) True ts show ?thesis by (simp add: own_def lookup_def)
next
  case False
  with assms(3-5) show ?thesis by (simp add: own_def lookup_def)
qed

lemma record_ok_frame:
  assumes "record_ok m rid vs" "heap m' rid = heap m rid" "version_info m' rid = version_info m rid"
    "table_of m' = table_of m" "columns_of m' = columns_of m" "wmark m \<le> wmark m'" "last_commit_ts m \<le> last_commit_ts m'"
    and own: "\<And>ts k log. ts \<in> fst ` set vs \<Longrightarrow> (ts = fst (hd vs) \<longrightarrow> version_info m rid = Some k) \<Longrightarrow> own m ts k \<Longrightarrow>
      lookup m k = Some log \<Longrightarrow> own m' ts k \<and> lookup m' k = Some log"
    and pend: "pending m rid vs \<Longrightarrow> pending m' rid vs"
  shows "record_ok m' rid vs"
proof (cases "heap m rid")
  case None
  with assms(1-3) show ?thesis by (simp add: record_ok_def)
next
  case (Some x)
  obtain meta base where h: "heap m rid = Some (meta, base)" using Some by (cases x) auto
  have r: "length base = cols m rid" "vs \<noteq> []" "hd vs = (tm_ts meta, if tm_is_deleted meta then None else Some base)"
    "chain m (cols m rid) (wmark m) vs (version_info m rid)" "sorted_wrt (>) (map fst vs)"
    "\<forall>x \<in> set (tl vs). 0 \<le> fst x \<and> fst x \<le> last_commit_ts m"
    "0 \<le> tm_ts meta \<and> tm_ts meta \<le> last_commit_ts m \<or> pending m rid vs"
    using assms(1) h by (simp_all add: record_ok_def)
  have "distinct (map fst vs)" using r(5) by (rule distinct_descending)
  from chain_cong [OF r(4) assms(6) this own] have "chain m' (cols m rid) (wmark m') vs (version_info m rid)" by blast
  then show ?thesis using r pend assms(2-5,7) h by (fastforce simp: record_ok_def)
qed

lemma pending_upd:
  assumes "pending m rid vs" "txn_map m i = Some t" "txn_map m' = (txn_map m)(i \<mapsto> t')" "table_of m' = table_of m"
    "fst (hd vs) = i \<Longrightarrow> active t' \<and> set (tx_write_set t) \<subseteq> set (tx_write_set t') \<and> tx_read_ts t' = tx_read_ts t"
  shows "pending m' rid vs"
proof -
  obtain ts v vs' u where vs: "vs = (ts, v) # vs'" "txn_map m ts = Some u" "active u"
    "(table_of m (fst rid), rid) \<in> set (tx_write_set u)" "\<forall>x \<in> set vs'. fst x \<le> tx_read_ts u"
    using assms(1) by (auto simp: pending_def split: list.splits)
  show ?thesis
  proof (cases "ts = i")
    case True
    with assms(2-5) vs have "txn_map m' ts = Some t'" "active t'" "(table_of m' (fst rid), rid) \<in> set (tx_write_set t')"
      "\<forall>x \<in> set vs'. fst x \<le> tx_read_ts t'" by auto
    with vs(1) show ?thesis by (simp add: pending_def)
  next
    case False
    with assms(3,4) vs show ?thesis by (simp add: pending_def)
  qed
qed

lemma reads_upd:
  assumes "txns_ok m" "txn_map m i = Some t" "txn_map m' = (txn_map m)(i \<mapsto> t')" "active t' = active t"
    "tx_read_ts t' = tx_read_ts t"
  shows "reads_at m' = reads_at m"
proof
  fix r
  show "reads_at m' r = reads_at m r"
    using cnt_upd [OF txns_okD(1) [OF assms(1)] assms(2), of "\<lambda>t. active t \<and> tx_read_ts t = r" t'] assms(3-5)
    by (simp add: reads_at_def)
qed

lemma txns_ok_upd:
  assumes ok: "txns_ok m" "txn_map m i = Some t" and m': "txn_map m' = (txn_map m)(i \<mapsto> t')"
    and t': "active t' = active t" "tx_read_ts t' = tx_read_ts t" "tx_txn_id t' = tx_txn_id t"
    and same: "last_commit_ts m' = last_commit_ts m" "next_txn_id m' = next_txn_id m" "running_txns m' = running_txns m"
  shows "txns_ok m'"
proof -
  note o = txns_okD [OF ok(1)]
  have "tx_txn_id u = j \<and> TXN_START_ID \<le> j \<and> j < next_txn_id m \<and> 0 \<le> tx_read_ts u \<and> tx_read_ts u \<le> last_commit_ts m"
    if "txn_map m' j = Some u" for j u
    using that o(7) [OF ok(2)] o(7) [of j u] t'(2,3) unfolding m' by (metis fun_upd_apply option.inject)
  then show ?thesis unfolding txns_ok_def reads_upd [OF ok m' t'(1,2)] same using o(1-6) by (simp add: m')
qed

subsection \<open>Writing a record\<close>

lemma write_ok:
  assumes ok: "mvcc_ok m V" and t: "txn_map m i = Some t" "active t"
    and t1: "tx_txn_id t1 = tx_txn_id t" "tx_read_ts t1 = tx_read_ts t" "tx_state t1 = tx_state t"
      "tx_write_set t1 = tx_write_set t"
    and logs: "length (tx_undo_logs t) \<le> length (tx_undo_logs t1)"
      "\<And>j. j < length (tx_undo_logs t) \<Longrightarrow> tx_undo_logs t1 ! j = tx_undo_logs t ! j \<or>
        link = Some \<lparr>prev_txn = i, prev_log_idx = j\<rparr>"
    and m': "m' = set_txn i (AppendWriteSet t1 (table_of m (fst rid)) rid)
      ((UpdateInPlace m rid \<lparr>tm_ts = i, tm_is_deleted = (v = None)\<rparr> base)\<lparr>version_info := (version_info m)(rid := link)\<rparr>)"
    and base: "length base = cols m rid" "\<forall>x. v = Some x \<longrightarrow> base = x"
    and ch: "chain m' (cols m rid) (wmark m) ((i, v) # vs) link"
    and vs: "sorted_wrt (>) (map fst vs)" "\<forall>x \<in> set vs. 0 \<le> fst x \<and> fst x \<le> tx_read_ts t"
    and apart: "\<And>rid' meta' base' l l'. rid' \<noteq> rid \<Longrightarrow> heap m rid' = Some (meta', base') \<Longrightarrow> tm_ts meta' = i \<Longrightarrow>
      version_info m rid' = Some l' \<Longrightarrow> link = Some l \<Longrightarrow> prev_txn l' = i \<Longrightarrow> prev_txn l = i \<Longrightarrow>
      prev_log_idx l' \<noteq> prev_log_idx l"
  shows "mvcc_ok m' (V(rid := (i, v) # vs))"
proof -
  note o = mvcc_okD [OF ok]
  let ?t' = "AppendWriteSet t1 (table_of m (fst rid)) rid"
  have id: "tx_txn_id t = i" "TXN_START_ID \<le> i" "tx_read_ts t \<le> last_commit_ts m" using txns_okD(7) [OF o(1) t(1)] by auto
  have big: "last_commit_ts m < i" using txns_okD(3) [OF o(1)] id(2) by simp
  have m's: "txn_map m' = (txn_map m)(i \<mapsto> ?t')" "heap m' = (heap m)(rid \<mapsto> (\<lparr>tm_ts = i, tm_is_deleted = (v = None)\<rparr>, base))"
    "version_info m' = (version_info m)(rid := link)" "running_txns m' = running_txns m"
    "last_commit_ts m' = last_commit_ts m" "next_txn_id m' = next_txn_id m" "table_of m' = table_of m"
    "columns_of m' = columns_of m"
    by (simp_all add: m' set_txn_def UpdateInPlace_def)
  have t': "active ?t' = active t" "tx_read_ts ?t' = tx_read_ts t" "tx_txn_id ?t' = tx_txn_id t"
    "tx_undo_logs ?t' = tx_undo_logs t1" "set (tx_write_set ?t') = insert (table_of m (fst rid), rid) (set (tx_write_set t))"
    "distinct (tx_write_set t) \<longrightarrow> distinct (tx_write_set ?t')"
    using t1 by (auto simp: AppendWriteSet_def active_def)
  have "txns_ok m'" by (rule txns_ok_upd [OF o(1) t(1) m's(1) t'(1-3) m's(5,6,4)])
  moreover have "writes_ok m'"
    unfolding writes_ok_def
  proof (intro allI impI)
    fix j u assume u: "txn_map m' j = Some u"
    have old: "distinct (tx_write_set t)" "\<forall>(table, r) \<in> set (tx_write_set t). table = table_of m (fst r) \<and> r \<in> dom (heap m)"
      using writes_okD [OF o(2) t(1)] by blast+
    show "distinct (tx_write_set u) \<and>
      (\<forall>(table, r) \<in> set (tx_write_set u). table = table_of m' (fst r) \<and> r \<in> dom (heap m'))"
    proof (cases "j = i")
      case True
      then have "u = ?t'" using u by (simp add: m's(1))
      then show ?thesis using old t'(5,6) by (auto simp: m's(2,7))
    next
      case False
      then have "txn_map m j = Some u" using u by (simp add: m's(1))
      from writes_okD [OF o(2) this] show ?thesis unfolding m's(2,7) by fastforce
    qed
  qed
  moreover have "logs_apart m'"
    unfolding logs_apart_def
  proof (intro allI impI)
    fix r r' meta meta' b b' l l'
    assume a: "r \<noteq> r'" "heap m' r = Some (meta, b)" "heap m' r' = Some (meta', b')" "tm_ts meta = tm_ts meta'"
      "TXN_START_ID \<le> tm_ts meta" "version_info m' r = Some l" "version_info m' r' = Some l'"
      "prev_txn l = tm_ts meta" "prev_txn l' = tm_ts meta"
    consider "r = rid" | "r' = rid" | "r \<noteq> rid" "r' \<noteq> rid" by blast
    then show "prev_log_idx l \<noteq> prev_log_idx l'"
    proof cases
      case 1
      note a = a [unfolded 1 m's(2,3)]
      have i: "tm_ts meta = i" using a(2) by auto
      have "prev_log_idx l' \<noteq> prev_log_idx l"
        by (rule apart [of r' meta' b']) (use a i in \<open>auto split: if_splits\<close>)
      then show ?thesis by simp
    next
      case 2
      note a = a [unfolded 2 m's(2,3)]
      have i: "tm_ts meta' = i" using a(3) by auto
      show ?thesis
        by (rule apart [of r meta b]) (use a i in \<open>auto split: if_splits\<close>)
    next
      case 3
      then have "heap m r = Some (meta, b)" "heap m r' = Some (meta', b')" "version_info m r = Some l" "version_info m r' = Some l'"
        using a(2,3,6,7) by (simp_all add: m's(2,3))
      with o(3) a(1,4,5,8,9) show ?thesis unfolding logs_apart_def by blast
    qed
  qed
  moreover have "finite (dom (heap m'))" using o(4) by (simp add: m's)
  moreover have "record_ok m' r ((V(rid := (i, v) # vs)) r)" for r
  proof (cases "r = rid")
    case True
    have "pending m' rid ((i, v) # vs)" using t(2) t' vs(2) by (simp add: pending_def m's(1,7))
    moreover have "\<forall>x \<in> set vs. 0 \<le> fst x \<and> fst x \<le> last_commit_ts m" using vs(2) id(3) by force
    moreover from this have "sorted_wrt (>) (map fst ((i, v) # vs))" using vs(1) big by force
    moreover have "(i, if v = None then None else Some base) = (i, v)" using base(2) by (cases v) auto
    ultimately show ?thesis
      using base(1) ch True by (simp add: record_ok_def m's)
  next
    case False
    note ro = o(5) [of r]
    have "record_ok m' r (V r)"
    proof (rule record_ok_frame [OF ro])
      fix ts k log
      assume k: "ts \<in> fst ` set (V r)" "ts = fst (hd (V r)) \<longrightarrow> version_info m r = Some k" "own m ts k"
        "lookup m k = Some log"
      show "own m' ts k \<and> lookup m' k = Some log"
      proof (rule own_upd [OF t m's(1) k(3,4)])
        assume j: "prev_txn k = i" "ts = i" "prev_log_idx k < length (tx_undo_logs t)"
        obtain meta b where h: "heap m r = Some (meta, b)" using ro k(1) by (cases "heap m r") (auto simp: record_ok_def)
        have hd: "fst (hd (V r)) = tm_ts meta" "\<forall>x \<in> set (tl (V r)). fst x \<le> last_commit_ts m" "V r \<noteq> []"
          using ro h by (auto simp: record_ok_def)
        have "ts = tm_ts meta" using hd k(1) j(2) big by (cases "V r") auto
        then have "link \<noteq> Some k" using apart [OF False h _ _ _ j(1)] k(2) hd(1) j(1,2) by auto
        moreover have "\<lparr>prev_txn = i, prev_log_idx = prev_log_idx k\<rparr> = k" using j(1) by (simp flip: j(1))
        ultimately show "prev_log_idx k < length (tx_undo_logs ?t') \<and>
            tx_undo_logs ?t' ! prev_log_idx k = tx_undo_logs t ! prev_log_idx k"
          using logs(1) logs(2) [OF j(3)] j(3) t'(4) by auto
      qed
    next
      assume "pending m r (V r)"
      then show "pending m' r (V r)"
        by (rule pending_upd [OF _ t(1) m's(1,7)]) (use t' t(2) in auto)
    qed (use False in \<open>simp_all add: m's\<close>)
    with False show ?thesis by simp
  qed
  ultimately show ?thesis by (simp add: mvcc_ok_def)
qed

subsection \<open>Undo logs as fields\<close>

text \<open>A log as the list of the values it restores, \<open>None\<close> for a field it leaves.\<close>

definition mask :: "'v option list \<Rightarrow> bool list" where
  "mask fs = map (\<lambda>f. f \<noteq> None) fs"

definition kept :: "'v option list \<Rightarrow> 'v list" where
  "kept fs = map the (filter (\<lambda>f. f \<noteq> None) fs)"

definition overlay :: "'v option list \<Rightarrow> 'v list \<Rightarrow> 'v list" where
  "overlay fs vals = map2 (\<lambda>f v. case f of None \<Rightarrow> v | Some x \<Rightarrow> x) fs vals"

lemma mask_kept_simps [simp]:
  "mask [] = []" "mask (f # fs) = (f \<noteq> None) # mask fs" "length (mask fs) = length fs"
  "kept [] = []" "kept (None # fs) = kept fs" "kept (Some x # fs) = x # kept fs"
  "overlay [] vals = []" "overlay (f # fs) (v # vals) = (case f of None \<Rightarrow> v | Some x \<Rightarrow> x) # overlay fs vals"
  by (simp_all add: mask_def kept_def overlay_def)

lemma undo_overlay: "length fs = length vals \<Longrightarrow> undo_fields (mask fs) vals (kept fs) = overlay fs vals"
proof (induction fs vals rule: list_induct2)
  case (Cons f fs v vals)
  then show ?case by (cases f) auto
qed simp

lemma kept_length: "length (kept fs) = length (filter (\<lambda>b. b) (mask fs))"
proof (induction fs)
  case (Cons f fs)
  then show ?case by (cases f) auto
qed simp

lemma fields_of: "length us = length (filter (\<lambda>b. b) ms) \<Longrightarrow> \<exists>fs. ms = mask fs \<and> us = kept fs"
proof (induction ms arbitrary: us)
  case Nil
  then show ?case by (intro exI [of _ "[]"]) simp
next
  case (Cons b ms)
  show ?case
  proof (cases b)
    case True
    with Cons.prems obtain u us' where us: "us = u # us'" by (cases us) auto
    with Cons True obtain fs where "ms = mask fs" "us' = kept fs" by fastforce
    with True us show ?thesis by (intro exI [of _ "Some u # fs"]) simp
  next
    case False
    with Cons obtain fs where "ms = mask fs" "us = kept fs" by fastforce
    with False show ?thesis by (intro exI [of _ "None # fs"]) simp
  qed
qed

lemma merge_mask: "length fs = length cs \<Longrightarrow>
  map fst (merge_fields (mask fs) (kept fs) cs) = mask (map2 (\<lambda>f c. case f of None \<Rightarrow> c | Some x \<Rightarrow> Some x) fs cs) \<and>
  concat (map snd (merge_fields (mask fs) (kept fs) cs)) =
    kept (map2 (\<lambda>f c. case f of None \<Rightarrow> c | Some x \<Rightarrow> Some x) fs cs)"
proof (induction fs cs rule: list_induct2)
  case (Cons f fs c cs)
  then show ?case by (cases f; cases c) auto
qed simp

lemma nth_overlay: "length fs = length vals \<Longrightarrow> i < length vals \<Longrightarrow>
  overlay fs vals ! i = (case fs ! i of None \<Rightarrow> vals ! i | Some x \<Rightarrow> x)"
  by (simp add: overlay_def)

lemma length_overlay: "length fs = length vals \<Longrightarrow> length (overlay fs vals) = length vals"
  by (simp add: overlay_def)

text \<open>A log restores the old version over the new one.\<close>

lemma restores_fields:
  assumes "length fs = n" "\<And>x vals. v' = Some x \<Longrightarrow> rep n vals (v = None) v \<Longrightarrow> overlay fs vals = x"
  shows "restores n \<lparr>ul_is_deleted = (v' = None), ul_modified_fields = mask fs, ul_tuple = kept fs, ul_ts = ts,
    ul_prev_version = prev\<rparr> v v'"
proof -
  have "undo_fields (mask fs) vals (kept fs) = x" if "v' = Some x" "rep n vals (v = None) v" for x vals
  proof -
    have "length fs = length vals" using that(2) assms(1) by (simp add: rep_def)
    then show ?thesis using undo_overlay assms(2) [OF that] by metis
  qed
  then show ?thesis using assms(1) by (simp add: restores_def kept_length)
qed

lemma new_log_restores:
  assumes v: "\<forall>x. v = Some x \<longrightarrow> length x = n" and v': "\<forall>x. v' = Some x \<longrightarrow> length x = n"
  shows "restores n (GenerateNewUndoLog n v' v ts prev) v v'"
proof -
  let ?fs = "map (changed_field v' v) [0..<n]"
  have "overlay ?fs vals = x" if x: "v' = Some x" and r: "rep n vals (v = None) v" for x vals
  proof (rule nth_equalityI)
    have len: "length vals = n" using r by (simp add: rep_def)
    then show "length (overlay ?fs vals) = length x" using v' x by (simp add: length_overlay)
    fix i assume "i < length (overlay ?fs vals)"
    then have "i < n" using len by (simp add: length_overlay)
    with r len show "overlay ?fs vals ! i = x ! i"
      by (cases v) (auto simp: nth_overlay changed_field_def x rep_def)
  qed
  then show ?thesis
    using restores_fields [of ?fs n v' v ts prev] by (simp add: GenerateNewUndoLog_def mask_def kept_def comp_def)
qed

lemma updated_log_restores:
  assumes r: "restores n log cur v'" and v: "\<forall>x. v = Some x \<longrightarrow> length x = n"
    and cur: "\<forall>x. cur = Some x \<longrightarrow> length x = n"
  shows "restores n (GenerateUpdatedUndoLog n cur v log) v v'" "ul_ts (GenerateUpdatedUndoLog n cur v log) = ul_ts log"
    "ul_prev_version (GenerateUpdatedUndoLog n cur v log) = ul_prev_version log"
proof -
  show "ul_ts (GenerateUpdatedUndoLog n cur v log) = ul_ts log"
    "ul_prev_version (GenerateUpdatedUndoLog n cur v log) = ul_prev_version log"
    by (simp_all add: GenerateUpdatedUndoLog_def Let_def)
  obtain fs where fs: "ul_modified_fields log = mask fs" "ul_tuple log = kept fs" "length fs = n"
    using fields_of [of "ul_tuple log" "ul_modified_fields log"] r by (auto simp: restores_def)
  show "restores n (GenerateUpdatedUndoLog n cur v log) v v'"
  proof (cases v')
    case None
    then show ?thesis using r by (simp add: restores_def GenerateUpdatedUndoLog_def)
  next
    case (Some x)
    let ?cs = "map (changed_field cur v) [0..<n]"
    let ?fs = "map2 (\<lambda>f c. case f of None \<Rightarrow> c | Some x \<Rightarrow> Some x) fs ?cs"
    have nd: "\<not> ul_is_deleted log" using r Some by (simp add: restores_def)
    have old: "overlay fs vals = x" if "rep n vals (cur = None) cur" for vals
      using r Some that fs undo_overlay [of fs vals] by (auto simp: restores_def rep_def)
    have "overlay ?fs vals = x" if rv: "rep n vals (v = None) v" for vals
    proof (rule nth_equalityI)
      have len: "length vals = n" using rv by (simp add: rep_def)
      have lx: "length x = n"
        using old [of "case cur of None \<Rightarrow> vals | Some c \<Rightarrow> c"] cur len fs(3) length_overlay
        by (fastforce simp: rep_def split: option.splits)
      show "length (overlay ?fs vals) = length x" using fs(3) len lx by (simp add: length_overlay)
      fix i assume "i < length (overlay ?fs vals)"
      then have i: "i < n" using fs(3) len by (simp add: length_overlay)
      have f: "overlay ?fs vals ! i = (case fs ! i of Some u \<Rightarrow> u | None \<Rightarrow>
          (case changed_field cur v i of None \<Rightarrow> vals ! i | Some u \<Rightarrow> u))"
        using i fs(3) len by (simp add: nth_overlay split: option.splits)
      show "overlay ?fs vals ! i = x ! i"
      proof (cases cur)
        case None
        then have "x = overlay fs vals" using old [of vals] len by (simp add: rep_def)
        with None i fs(3) len show ?thesis unfolding f by (simp add: nth_overlay changed_field_def split: option.splits)
      next
        case (Some c)
        then have "x = overlay fs c" "length c = n" using old [of c] cur by (simp_all add: rep_def)
        with Some i fs(3) rv len show ?thesis
          unfolding f by (cases v) (auto simp: nth_overlay changed_field_def rep_def split: option.splits)
      qed
    qed
    then have "restores n \<lparr>ul_is_deleted = (v' = None), ul_modified_fields = mask ?fs, ul_tuple = kept ?fs,
        ul_ts = ul_ts log, ul_prev_version = ul_prev_version log\<rparr> v v'"
      using fs(3) Some by (intro restores_fields) auto
    moreover have "GenerateUpdatedUndoLog n cur v log = \<lparr>ul_is_deleted = (v' = None), ul_modified_fields = mask ?fs,
        ul_tuple = kept ?fs, ul_ts = ul_ts log, ul_prev_version = ul_prev_version log\<rparr>"
      using nd merge_mask [of fs ?cs] fs Some by (simp add: GenerateUpdatedUndoLog_def Let_def)
    ultimately show ?thesis by simp
  qed
qed

subsection \<open>ModifyTuple\<close>

definition write_version :: "txn_id \<Rightarrow> 'v list option \<Rightarrow> 'v version list \<Rightarrow> 'v version list" where
  "write_version i v vs = (i, v) # (case vs of [] \<Rightarrow> [] | (ts, v0) # vs' \<Rightarrow> if ts = i then vs' else vs)"

text \<open>A record that exists, opened.\<close>

lemma record_open:
  assumes ok: "mvcc_ok m V" and h: "heap m rid = Some (meta, base)"
  obtains vs where "V rid = (tm_ts meta, if tm_is_deleted meta then None else Some base) # vs"
    "chain m (cols m rid) (wmark m) (V rid) (version_info m rid)" "length base = cols m rid"
    "sorted_wrt (>) (map fst (V rid))" "\<forall>x \<in> set vs. 0 \<le> fst x \<and> fst x \<le> last_commit_ts m"
    "0 \<le> tm_ts meta \<and> tm_ts meta \<le> last_commit_ts m \<or> pending m rid (V rid)"
  using mvcc_okD(5) [OF ok, of rid] h that by (cases "V rid") (auto simp: record_ok_def)

lemma pending_big: "txns_ok m \<Longrightarrow> pending m rid ((ts, v) # vs) \<Longrightarrow> TXN_START_ID \<le> ts \<and> last_commit_ts m < ts"
  using txns_okD(3,7) [of m] by (fastforce simp: pending_def)

text \<open>The link of an uncommitted head.\<close>

lemma own_link:
  assumes ok: "mvcc_ok m V" and h: "heap m rid = Some (meta, base)" and ts: "TXN_START_ID \<le> tm_ts meta"
    and l: "version_info m rid = Some l"
  shows "prev_txn l = tm_ts meta \<Longrightarrow> \<exists>log ts1 v1 vs1. lookup m l = Some log \<and> tl (V rid) = (ts1, v1) # vs1 \<and>
      ul_ts log = ts1 \<and> restores (cols m rid) log (if tm_is_deleted meta then None else Some base) v1 \<and>
      chain m (cols m rid) (wmark m) ((ts1, v1) # vs1) (Some (ul_prev_version log))"
    "prev_txn l \<noteq> tm_ts meta \<Longrightarrow> tl (V rid) = [] \<and> \<not> IsValid l"
proof -
  note o = mvcc_okD [OF ok]
  obtain vs where vs: "V rid = (tm_ts meta, if tm_is_deleted meta then None else Some base) # vs"
    "chain m (cols m rid) (wmark m) (V rid) (version_info m rid)" by (rule record_open [OF ok h])
  have big: "wmark m < tm_ts meta" using wmark_le_commit [OF o(1)] txns_okD(3) [OF o(1)] ts by simp
  have valid: "IsValid l" if "prev_txn l = tm_ts meta"
    using that ts by (simp add: IsValid_def INVALID_TXN_ID_def TXN_START_ID_def)
  show "prev_txn l = tm_ts meta \<Longrightarrow> \<exists>log ts1 v1 vs1. lookup m l = Some log \<and> tl (V rid) = (ts1, v1) # vs1 \<and>
      ul_ts log = ts1 \<and> restores (cols m rid) log (if tm_is_deleted meta then None else Some base) v1 \<and>
      chain m (cols m rid) (wmark m) ((ts1, v1) # vs1) (Some (ul_prev_version log))"
    using vs(2) l valid big unfolding vs(1) by (cases vs) auto
  show "prev_txn l \<noteq> tm_ts meta \<Longrightarrow> tl (V rid) = [] \<and> \<not> IsValid l"
    using vs(2) l ts big unfolding vs(1) by (cases vs) (auto simp: own_def)
qed

lemma own_head_fresh:
  assumes ok: "mvcc_ok m V" and h: "heap m rid = Some (meta, base)" and ts: "TXN_START_ID \<le> tm_ts meta"
    and l: "\<forall>l. version_info m rid = Some l \<longrightarrow> prev_txn l \<noteq> tm_ts meta"
  shows "tl (V rid) = []" "\<forall>l. version_info m rid = Some l \<longrightarrow> \<not> IsValid l"
proof -
  obtain vs where vs: "V rid = (tm_ts meta, if tm_is_deleted meta then None else Some base) # vs"
    "chain m (cols m rid) (wmark m) (V rid) (version_info m rid)" by (rule record_open [OF ok h])
  have "tl (V rid) = [] \<and> (\<forall>l. version_info m rid = Some l \<longrightarrow> \<not> IsValid l)"
  proof (cases "version_info m rid")
    case None
    then show ?thesis using vs(2) unfolding vs(1) by (cases vs) auto
  next
    case (Some l)
    then show ?thesis using l own_link(2) [OF ok h ts Some] by auto
  qed
  then show "tl (V rid) = []" "\<forall>l. version_info m rid = Some l \<longrightarrow> \<not> IsValid l" by auto
qed

lemma chain_link_None: "chain m n wm vs None \<Longrightarrow> chain m n wm vs (Some UndoLink)"
  by (cases "(m, n, wm, vs, None :: undo_link option)" rule: chain.cases) (auto simp: IsValid_def UndoLink_def)

text \<open>Chains below the writer's version are left alone.\<close>

lemma chain_below:
  assumes "chain m n (wmark m) vs l" "txn_map m i = Some t" "active t" "txn_map m' = (txn_map m)(i \<mapsto> t')"
    "running_txns m' = running_txns m" "sorted_wrt (>) (map fst vs)" "\<forall>x \<in> set vs. fst x \<noteq> i"
  shows "chain m' n (wmark m) vs l"
proof (rule chain_cong [OF assms(1) order_refl])
  show "distinct (map fst vs)" using assms(6) by (rule distinct_descending)
  fix ts k log assume k: "ts \<in> fst ` set vs" "own m ts k" "lookup m k = Some log"
  show "own m' ts k \<and> lookup m' k = Some log"
    by (rule own_upd [OF assms(2-4) k(2,3)]) (use k(1) assms(7) in auto)
qed

lemma modify_first:
  assumes ok: "mvcc_ok m V" and t: "txn_map m i = Some t" "tx_state t = RUNNING" and h: "heap m rid = Some (meta, base)"
    and tgt: "\<forall>x. target = Some x \<longrightarrow> length x = cols m rid" and ts: "tm_ts meta \<noteq> i" "tm_ts meta \<le> tx_read_ts t"
    and nd: "rd \<longrightarrow> tm_is_deleted meta"
  shows "\<exists>m'. ModifyTuple m i (table_of m (fst rid)) rid target rd = Inr (True, m') \<and>
    mvcc_ok m' (V(rid := write_version i target (V rid))) \<and> (\<exists>t1. tx_read_ts t1 = tx_read_ts t \<and>
    tx_state t1 = RUNNING \<and> txn_map m' = (txn_map m)(i \<mapsto> t1)) \<and> dom (heap m') = dom (heap m) \<and>
    last_commit_ts m' = last_commit_ts m \<and> table_of m' = table_of m \<and> columns_of m' = columns_of m"
proof -
  note o = mvcc_okD [OF ok]
  let ?n = "cols m rid" and ?v = "if tm_is_deleted meta then None else Some base" and ?l = "version_info m rid"
  obtain vs where vs: "V rid = (tm_ts meta, ?v) # vs" "chain m ?n (wmark m) (V rid) ?l" "length base = ?n"
    "sorted_wrt (>) (map fst (V rid))" "\<forall>x \<in> set vs. 0 \<le> fst x \<and> fst x \<le> last_commit_ts m"
    "0 \<le> tm_ts meta \<and> tm_ts meta \<le> last_commit_ts m \<or> pending m rid (V rid)" by (rule record_open [OF ok h])
  have id: "tx_txn_id t = i" "TXN_START_ID \<le> i" "tx_read_ts t \<le> last_commit_ts m" using txns_okD(7) [OF o(1) t(1)] by auto
  have act: "active t" using t(2) by (simp add: active_def)
  define log where "log = GenerateNewUndoLog ?n ?v target (tm_ts meta) (case ?l of Some l \<Rightarrow> l | None \<Rightarrow> UndoLink)"
  define link where "link = \<lparr>prev_txn = i, prev_log_idx = length (tx_undo_logs t)\<rparr>"
  define t1 where "t1 = t\<lparr>tx_undo_logs := tx_undo_logs t @ [log]\<rparr>"
  define b where "b = (case target of None \<Rightarrow> base | Some x \<Rightarrow> x)"
  define m' where "m' = set_txn i (AppendWriteSet t1 (table_of m (fst rid)) rid)
      ((UpdateInPlace m rid \<lparr>tm_ts = i, tm_is_deleted = (target = None)\<rparr> b)\<lparr>version_info := (version_info m)(rid := Some link)\<rparr>)"
  have m's: "txn_map m' = (txn_map m)(i \<mapsto> AppendWriteSet t1 (table_of m (fst rid)) rid)" "running_txns m' = running_txns m"
    by (simp_all add: m'_def set_txn_def UpdateInPlace_def)
  have run: "ModifyTuple m i (table_of m (fst rid)) rid target rd = Inr (True, m')"
    using ts nd id(1) by (auto simp: ModifyTuple_def get_txn_def t(1) heap_get_def h GetTransactionTempTs_def
        AppendUndoLog_def Let_def UpdateUndoLink_def GetUndoLink_def UpdateInPlace_def m'_def t1_def log_def link_def b_def)
  have "\<not> pending m rid (V rid)" using pending_big [OF o(1), of rid] ts(2) id(3) unfolding vs(1) by force
  then have below: "0 \<le> tm_ts meta" "\<forall>x \<in> set (V rid). fst x \<noteq> i"
    using vs(5,6) txns_okD(3) [OF o(1)] id(2) unfolding vs(1) by force+
  have "chain m' ?n (wmark m) (V rid) ?l" by (rule chain_below [OF vs(2) t(1) act m's vs(4) below(2)])
  then have "chain m' ?n (wmark m) (V rid) (Some (ul_prev_version log))"
    using chain_link_None by (fastforce simp: log_def GenerateNewUndoLog_def Let_def split: option.splits)
  moreover have "IsValid link" using id(2) by (simp add: link_def IsValid_def INVALID_TXN_ID_def TXN_START_ID_def)
  moreover have "lookup m' link = Some log" by (simp add: lookup_def m's(1) link_def AppendWriteSet_def t1_def)
  moreover have "own m' i link" using id(2) by (simp add: own_def m's(1) link_def)
  moreover have "restores ?n log target ?v" unfolding log_def by (rule new_log_restores) (use tgt vs(3) in auto)
  moreover have "ul_ts log = tm_ts meta" by (simp add: log_def GenerateNewUndoLog_def Let_def)
  ultimately have ch: "chain m' ?n (wmark m) ((i, target) # V rid) (Some link)" unfolding vs(1) by auto
  have "mvcc_ok m' (V(rid := (i, target) # V rid))"
  proof (rule write_ok [OF ok t(1) act _ _ _ _ _ _ m'_def _ _ ch vs(4)])
    show "tx_txn_id t1 = tx_txn_id t" "tx_read_ts t1 = tx_read_ts t" "tx_state t1 = tx_state t"
      "tx_write_set t1 = tx_write_set t" "length (tx_undo_logs t) \<le> length (tx_undo_logs t1)" by (simp_all add: t1_def)
    show "\<And>j. j < length (tx_undo_logs t) \<Longrightarrow> tx_undo_logs t1 ! j = tx_undo_logs t ! j \<or>
        Some link = Some \<lparr>prev_txn = i, prev_log_idx = j\<rparr>" by (simp add: t1_def nth_append)
    show "length b = ?n" "\<forall>x. target = Some x \<longrightarrow> b = x" using tgt vs(3) by (auto simp: b_def split: option.splits)
    show "\<forall>x \<in> set (V rid). 0 \<le> fst x \<and> fst x \<le> tx_read_ts t"
      using vs(4,5) ts(2) below(1) unfolding vs(1) by force
    fix rid' meta' base' l l'
    assume a: "heap m rid' = Some (meta', base')" "tm_ts meta' = i" "version_info m rid' = Some l'" "Some link = Some l" "prev_txn l' = i"
    have "\<exists>log. lookup m l' = Some log" using own_link(1) [OF ok a(1) _ a(3)] a(2,5) id(2) by auto
    then have "prev_log_idx l' < length (tx_undo_logs t)" using t(1) a(5) by (auto simp: lookup_def split: if_splits)
    with a(4) show "prev_log_idx l' \<noteq> prev_log_idx l" by (auto simp: link_def)
  qed
  moreover have "write_version i target (V rid) = (i, target) # V rid" using ts(1) by (simp add: write_version_def vs(1))
  moreover have "tx_read_ts (AppendWriteSet t1 (table_of m (fst rid)) rid) = tx_read_ts t \<and>
      tx_state (AppendWriteSet t1 (table_of m (fst rid)) rid) = RUNNING"
    using t(2) by (simp add: AppendWriteSet_def t1_def)
  moreover have "dom (heap m') = dom (heap m)" "last_commit_ts m' = last_commit_ts m" "table_of m' = table_of m"
    "columns_of m' = columns_of m"
    using h by (auto simp: m'_def set_txn_def UpdateInPlace_def)
  ultimately show ?thesis using run m's(1) by (intro exI [of _ m'] conjI) auto
qed

lemma same_link:
  "version_info m rid = l \<Longrightarrow> m\<lparr>heap := h, version_info := (version_info m)(rid := l)\<rparr> = m\<lparr>heap := h\<rparr>"
  by (cases m) (simp add: fun_upd_idem)

lemma modify_again:
  assumes ok: "mvcc_ok m V" and t: "txn_map m i = Some t" "tx_state t = RUNNING" and h: "heap m rid = Some (meta, base)"
    and tgt: "\<forall>x. target = Some x \<longrightarrow> length x = cols m rid" and ts: "tm_ts meta = i" and nd: "rd \<longrightarrow> tm_is_deleted meta"
  shows "\<exists>m'. ModifyTuple m i (table_of m (fst rid)) rid target rd = Inr (True, m') \<and>
    mvcc_ok m' (V(rid := write_version i target (V rid))) \<and> (\<exists>t1. tx_read_ts t1 = tx_read_ts t \<and>
    tx_state t1 = RUNNING \<and> txn_map m' = (txn_map m)(i \<mapsto> t1)) \<and> dom (heap m') = dom (heap m) \<and>
    last_commit_ts m' = last_commit_ts m \<and> table_of m' = table_of m \<and> columns_of m' = columns_of m"
proof -
  note o = mvcc_okD [OF ok]
  let ?n = "cols m rid" and ?v = "if tm_is_deleted meta then None else Some base" and ?l = "version_info m rid"
  obtain vs where vs: "V rid = (tm_ts meta, ?v) # vs" "chain m ?n (wmark m) (V rid) ?l" "length base = ?n"
    "sorted_wrt (>) (map fst (V rid))" "\<forall>x \<in> set vs. 0 \<le> fst x \<and> fst x \<le> last_commit_ts m"
    "0 \<le> tm_ts meta \<and> tm_ts meta \<le> last_commit_ts m \<or> pending m rid (V rid)" by (rule record_open [OF ok h])
  have id: "tx_txn_id t = i" "TXN_START_ID \<le> i" "last_commit_ts m < i" "wmark m < i"
    using txns_okD(3,7) [OF o(1)] t(1) wmark_le_commit [OF o(1)] by fastforce+
  have act: "active t" using t(2) by (simp add: active_def)
  have "pending m rid (V rid)" using vs(6) ts id(3) by simp
  then have low: "\<forall>x \<in> set vs. 0 \<le> fst x \<and> fst x \<le> tx_read_ts t" using vs(1,5) t(1) ts by (simp add: pending_def)
  have below: "sorted_wrt (>) (map fst vs)" "\<forall>x \<in> set vs. fst x \<noteq> i" using vs(4,5) id(3) unfolding vs(1) by force+
  define b where "b = (case target of None \<Rightarrow> base | Some x \<Rightarrow> x)"
  have b: "length b = ?n" "\<forall>x. target = Some x \<longrightarrow> b = x" using tgt vs(3) by (auto simp: b_def split: option.splits)
  define st where "st t1 = set_txn i (AppendWriteSet t1 (table_of m (fst rid)) rid)
      ((UpdateInPlace m rid \<lparr>tm_ts = i, tm_is_deleted = (target = None)\<rparr> b)\<lparr>version_info := (version_info m)(rid := ?l)\<rparr>)" for t1
  have st: "txn_map (st t1) = (txn_map m)(i \<mapsto> AppendWriteSet t1 (table_of m (fst rid)) rid)" "running_txns (st t1) = running_txns m"
    "dom (heap (st t1)) = dom (heap m)" "last_commit_ts (st t1) = last_commit_ts m" "table_of (st t1) = table_of m"
    "columns_of (st t1) = columns_of m" for t1
    using h by (auto simp: st_def set_txn_def UpdateInPlace_def)
  have ws: "tx_undo_logs (AppendWriteSet t1 a r) = tx_undo_logs t1" "tx_read_ts (AppendWriteSet t1 a r) = tx_read_ts t1"
    "tx_state (AppendWriteSet t1 a r) = tx_state t1" for t1 :: "'a txn" and a r by (simp_all add: AppendWriteSet_def)
  have ver: "V(rid := write_version i target (V rid)) = V(rid := (i, target) # vs)" using ts by (simp add: write_version_def vs(1))
  have finish: ?thesis if "ModifyTuple m i (table_of m (fst rid)) rid target rd = Inr (True, st t1)"
    "mvcc_ok (st t1) (V(rid := (i, target) # vs))" "tx_read_ts t1 = tx_read_ts t" "tx_state t1 = RUNNING" for t1
    unfolding ver using that st
    by (intro exI [of _ "st t1"] exI [of _ "AppendWriteSet t1 (table_of m (fst rid)) rid"] conjI) (simp_all add: ws)
  consider l where "?l = Some l" "prev_txn l = i" | "?l = None \<or> (\<exists>l. ?l = Some l \<and> prev_txn l \<noteq> i)" by (cases ?l) auto
  then show ?thesis
  proof cases
    case 1
    obtain log ts1 v1 vs1 where k: "lookup m l = Some log" "vs = (ts1, v1) # vs1" "ul_ts log = ts1"
      "restores ?n log ?v v1" "chain m ?n (wmark m) ((ts1, v1) # vs1) (Some (ul_prev_version log))"
      using own_link(1) [OF ok h _ 1(1)] 1(2) ts id(2) vs(1) by auto
    have idx: "prev_log_idx l < length (tx_undo_logs t)" "tx_undo_logs t ! prev_log_idx l = log"
      using k(1) 1(2) t(1) by (auto simp: lookup_def split: if_splits)
    define new where "new = GenerateUpdatedUndoLog ?n ?v target log"
    define t1 where "t1 = t\<lparr>tx_undo_logs := (tx_undo_logs t)[prev_log_idx l := new]\<rparr>"
    have run: "ModifyTuple m i (table_of m (fst rid)) rid target rd = Inr (True, st t1)"
      using ts nd id(1) 1 idx by (auto simp: ModifyTuple_def get_txn_def t(1) heap_get_def h GetTransactionTempTs_def Let_def
        UpdateUndoLink_def GetUndoLink_def UpdateInPlace_def txn_GetUndoLog_def ModifyUndoLog_def st_def t1_def b_def new_def)
    have "restores ?n new target v1" "ul_ts new = ts1" "ul_prev_version new = ul_prev_version log"
      using updated_log_restores [OF k(4) tgt] vs(3) k(3) by (simp_all add: new_def)
    moreover have "chain (st t1) ?n (wmark m) ((ts1, v1) # vs1) (Some (ul_prev_version log))"
      by (rule chain_below [OF k(5) t(1) act st(1,2)]) (use below k(2) in auto)
    moreover have "IsValid l" "own (st t1) i l" using 1(2) id(2)
      by (simp_all add: IsValid_def own_def st(1) INVALID_TXN_ID_def TXN_START_ID_def)
    moreover have "lookup (st t1) l = Some new" using 1(2) idx(1) by (simp add: lookup_def st(1) ws t1_def)
    ultimately have ch: "chain (st t1) ?n (wmark m) ((i, target) # vs) ?l" unfolding k(2) 1(1) by auto
    have "mvcc_ok (st t1) (V(rid := (i, target) # vs))"
    proof (rule write_ok [OF ok t(1) act _ _ _ _ _ _ st_def b ch below(1) low])
      show "tx_txn_id t1 = tx_txn_id t" "tx_read_ts t1 = tx_read_ts t" "tx_state t1 = tx_state t"
        "tx_write_set t1 = tx_write_set t" "length (tx_undo_logs t) \<le> length (tx_undo_logs t1)" by (simp_all add: t1_def)
      show "tx_undo_logs t1 ! j = tx_undo_logs t ! j \<or>
          ?l = Some \<lparr>prev_txn = i, prev_log_idx = j\<rparr>" for j
        using 1 by (cases "prev_log_idx l = j") (auto simp: t1_def)
      fix rid' meta' base' l1 l'
      assume "rid' \<noteq> rid" "heap m rid' = Some (meta', base')" "tm_ts meta' = i" "version_info m rid' = Some l'"
        "?l = Some l1" "prev_txn l' = i" "prev_txn l1 = i"
      with o(3) h ts id(2) show "prev_log_idx l' \<noteq> prev_log_idx l1" unfolding logs_apart_def by metis
    qed
    from finish [OF run this] t(2) show ?thesis by (simp add: t1_def)
  next
    case 2
    have none: "vs = []" "\<forall>l. ?l = Some l \<longrightarrow> \<not> IsValid l"
      using own_head_fresh [OF ok h] 2 ts id(2) vs(1) by auto
    have run: "ModifyTuple m i (table_of m (fst rid)) rid target rd = Inr (True, st t)"
      using ts nd id(1) 2 by (auto simp: ModifyTuple_def get_txn_def t(1) heap_get_def h GetTransactionTempTs_def Let_def
        UpdateUndoLink_def GetUndoLink_def UpdateInPlace_def st_def b_def same_link)
    have ch: "chain (st t) ?n (wmark m) ((i, target) # vs) ?l" using none by (auto split: option.splits)
    have "mvcc_ok (st t) (V(rid := (i, target) # vs))"
      by (rule write_ok [OF ok t(1) act refl refl refl refl _ _ st_def b ch below(1) low]) (use 2 in auto)
    from finish [OF run this refl t(2)] show ?thesis .
  qed
qed

end
