(* ===== verification/Mvcc_Ops.thy ===== *)
theory Mvcc_Ops
  imports Mvcc_Steps
begin

section \<open>Beginning, writing, tainting\<close>

text \<open>
  The operations a running transaction performs, on the version lists: a write, an insert into a
  fresh slot, a write conflict, a scan predicate, and the beginning of a transaction.
\<close>

subsection \<open>A transaction changes itself\<close>

lemma txn_change_ok:
  assumes ok: "mvcc_ok m V" and t: "txn_map m i = Some t" "active t"
    and t': "tx_txn_id t' = tx_txn_id t" "tx_read_ts t' = tx_read_ts t" "active t'"
      "tx_write_set t' = tx_write_set t" "tx_undo_logs t' = tx_undo_logs t"
  shows "mvcc_ok (set_txn i t' m) V"
proof -
  note o = mvcc_okD [OF ok]
  let ?m = "set_txn i t' m"
  have m': "txn_map ?m = (txn_map m)(i \<mapsto> t')" "heap ?m = heap m" "version_info ?m = version_info m"
    "running_txns ?m = running_txns m" "last_commit_ts ?m = last_commit_ts m" "next_txn_id ?m = next_txn_id m"
    "table_of ?m = table_of m" "columns_of ?m = columns_of m"
    by (simp_all add: set_txn_def)
  have "txns_ok ?m" by (rule txns_ok_upd [OF o(1) t(1) m'(1) _ t'(2,1) m'(5,6,4)]) (simp add: t t')
  moreover have "writes_ok ?m"
    unfolding writes_ok_def
  proof (intro allI impI)
    fix j u assume u: "txn_map ?m j = Some u"
    obtain u0 where u0: "txn_map m j = Some u0" "tx_write_set u0 = tx_write_set u"
    proof (cases "j = i")
      case True
      then have "u = t'" using u unfolding m'(1) by simp
      with t t'(4) that [of t] True show ?thesis by metis
    next
      case False
      then have "txn_map m j = Some u" using u unfolding m'(1) by simp
      from that [OF this refl] show ?thesis .
    qed
    from writes_okD [OF o(2) u0(1)] show "distinct (tx_write_set u) \<and>
        (\<forall>(table, rid) \<in> set (tx_write_set u). table = table_of ?m (fst rid) \<and> rid \<in> dom (heap ?m))"
      unfolding u0(2) m' .
  qed
  moreover have "logs_apart ?m" using o(3) unfolding logs_apart_def m' .
  moreover have "finite (dom (heap ?m))" using o(4) by (simp add: m')
  moreover have "record_ok ?m rid (V rid)" for rid
  proof (rule record_ok_frame [OF o(5) _ _ _ _ _ _ _ pending_upd [OF _ t(1) m'(1)]])
    fix ts k log assume k: "own m ts k" "lookup m k = Some log"
    show "own ?m ts k \<and> lookup ?m k = Some log"
      by (rule own_upd [OF t m'(1) k]) (simp add: t')
  qed (use t' in \<open>simp_all add: m'\<close>)
  ultimately show ?thesis unfolding mvcc_ok_def by blast
qed

lemma ThrowWriteConflict_ok:
  assumes ok: "mvcc_ok m V" and t: "txn_map m i = Some t" "tx_state t = RUNNING"
  shows "ThrowWriteConflict m i = Inr (False, set_txn i (t\<lparr>tx_state := TAINTED\<rparr>) m)"
    "mvcc_ok (set_txn i (t\<lparr>tx_state := TAINTED\<rparr>) m) V"
proof -
  show "ThrowWriteConflict m i = Inr (False, set_txn i (t\<lparr>tx_state := TAINTED\<rparr>) m)"
    using t by (simp add: ThrowWriteConflict_def get_txn_def SetTainted_def)
  show "mvcc_ok (set_txn i (t\<lparr>tx_state := TAINTED\<rparr>) m) V"
    by (rule txn_change_ok [OF ok t(1)]) (simp_all add: t active_def)
qed

lemma AppendScanPredicate_ok:
  assumes ok: "mvcc_ok m V" and t: "txn_map m i = Some t" "active t"
  shows "mvcc_ok (set_txn i (AppendScanPredicate t table p) m) V"
  by (rule txn_change_ok [OF ok t]) (use t in \<open>simp_all add: AppendScanPredicate_def active_def\<close>)

subsection \<open>Writing\<close>

text \<open>Only the transaction \<open>i\<close> changed, and it goes on.\<close>

definition touched :: "'v txn_mgr \<Rightarrow> txn_id \<Rightarrow> 'v txn_mgr \<Rightarrow> bool" where
  "touched m i m' \<longleftrightarrow> (\<exists>t t'. txn_map m i = Some t \<and> txn_map m' = (txn_map m)(i \<mapsto> t') \<and>
     tx_read_ts t' = tx_read_ts t \<and> tx_state t' = RUNNING) \<and> dom (heap m) \<subseteq> dom (heap m') \<and>
     last_commit_ts m' = last_commit_ts m \<and> table_of m' = table_of m \<and> columns_of m' = columns_of m"

text \<open>The first updater wins: a write conflicts when the newest version is not the writer's own and
  not in its snapshot, or when it has to be deleted and is not.\<close>

definition write_conflict :: "txn_id \<Rightarrow> int \<Rightarrow> bool \<Rightarrow> 'v version list \<Rightarrow> bool" where
  "write_conflict i r rd vs \<longleftrightarrow> (case vs of [] \<Rightarrow> False | (ts, v) # _ \<Rightarrow> ts \<noteq> i \<and> r < ts \<or> rd \<and> v \<noteq> None)"

lemma ModifyTuple_ok:
  assumes ok: "mvcc_ok m V" and t: "txn_map m i = Some t" "tx_state t = RUNNING" and h: "heap m rid \<noteq> None"
    and tgt: "\<forall>x. target = Some x \<longrightarrow> length x = cols m rid"
  shows "write_conflict i (tx_read_ts t) rd (V rid) \<Longrightarrow>
      ModifyTuple m i (table_of m (fst rid)) rid target rd = Inr (False, set_txn i (t\<lparr>tx_state := TAINTED\<rparr>) m)"
    "\<not> write_conflict i (tx_read_ts t) rd (V rid) \<Longrightarrow>
      \<exists>m'. ModifyTuple m i (table_of m (fst rid)) rid target rd = Inr (True, m') \<and>
        mvcc_ok m' (V(rid := write_version i target (V rid))) \<and> touched m i m'"
proof -
  obtain meta base where h: "heap m rid = Some (meta, base)" using h by auto
  obtain vs where vs: "V rid = (tm_ts meta, if tm_is_deleted meta then None else Some base) # vs"
    by (rule record_open [OF ok h])
  have id: "GetTransactionTempTs t = i" using txns_okD(7) [OF mvcc_okD(1) [OF ok] t(1)] by (simp add: GetTransactionTempTs_def)
  have c: "write_conflict i (tx_read_ts t) rd (V rid) \<longleftrightarrow>
      tm_ts meta \<noteq> i \<and> tx_read_ts t < tm_ts meta \<or> rd \<and> \<not> tm_is_deleted meta"
    by (auto simp: write_conflict_def vs)
  show "ModifyTuple m i (table_of m (fst rid)) rid target rd = Inr (False, set_txn i (t\<lparr>tx_state := TAINTED\<rparr>) m)"
    if "write_conflict i (tx_read_ts t) rd (V rid)"
    using that ThrowWriteConflict_ok(1) [OF ok t] unfolding c
    by (auto simp: ModifyTuple_def get_txn_def t(1) heap_get_def h id)
  assume nc: "\<not> write_conflict i (tx_read_ts t) rd (V rid)"
  show "\<exists>m'. ModifyTuple m i (table_of m (fst rid)) rid target rd = Inr (True, m') \<and>
        mvcc_ok m' (V(rid := write_version i target (V rid))) \<and> touched m i m'"
  proof (cases "tm_ts meta = i")
    case True
    then show ?thesis using modify_again [OF ok t h tgt, of rd] nc t(1) unfolding c touched_def by auto
  next
    case False
    then show ?thesis using modify_first [OF ok t h tgt, of rd] nc t(1) unfolding c touched_def by auto
  qed
qed

text \<open>A fresh slot.\<close>

lemma insert_fresh_ok:
  assumes ok: "mvcc_ok m V" and t: "txn_map m i = Some t" "tx_state t = RUNNING" and h: "heap m rid = None"
    and x: "length x = cols m rid"
    and m': "m' = set_txn i (AppendWriteSet t (table_of m (fst rid)) rid)
      (UpdateInPlace m rid \<lparr>tm_ts = i, tm_is_deleted = False\<rparr> x)"
  shows "V rid = []" "mvcc_ok m' (V(rid := write_version i (Some x) (V rid)))" "touched m i m'"
proof -
  note o = mvcc_okD [OF ok]
  have none: "V rid = [] \<and> version_info m rid = None" using o(5) [of rid] h by (simp add: record_ok_def)
  then show "V rid = []" by simp
  have m1: "m' = set_txn i (AppendWriteSet t (table_of m (fst rid)) rid)
      ((UpdateInPlace m rid \<lparr>tm_ts = i, tm_is_deleted = (Some x = None)\<rparr> x)\<lparr>version_info := (version_info m)(rid := None)\<rparr>)"
    unfolding m' using none by (simp add: UpdateInPlace_def same_link)
  have ch: "chain m' (cols m rid) (wmark m) ((i, Some x) # []) None" by simp
  have act: "active t" using t(2) by (simp add: active_def)
  have "mvcc_ok m' (V(rid := (i, Some x) # []))"
    by (rule write_ok [OF ok t(1) act refl refl refl refl _ _ m1 x _ ch]) simp_all
  then show "mvcc_ok m' (V(rid := write_version i (Some x) (V rid)))" using none by (simp add: write_version_def)
  show "touched m i m'"
    unfolding touched_def using t
    by (auto simp: m' set_txn_def UpdateInPlace_def AppendWriteSet_def
        intro!: exI [of _ "AppendWriteSet t (table_of m (fst rid)) rid"])
qed

subsection \<open>Beginning\<close>

lemma Begin_ok:
  assumes ok: "mvcc_ok m V"
  shows "\<exists>m' t. Begin m level = Inr (next_txn_id m, m') \<and> mvcc_ok m' V \<and> txn_map m' = (txn_map m)(next_txn_id m \<mapsto> t) \<and>
    tx_read_ts t = last_commit_ts m \<and> tx_state t = RUNNING \<and> tx_isolation_level t = level \<and> txn_map m (next_txn_id m) = None \<and>
    heap m' = heap m \<and> version_info m' = version_info m \<and> last_commit_ts m' = last_commit_ts m \<and>
    table_of m' = table_of m \<and> columns_of m' = columns_of m"
proof -
  note o = mvcc_okD [OF ok] and p = txns_okD [OF mvcc_okD(1) [OF ok]]
  let ?i = "next_txn_id m"
  define t where "t = \<lparr>tx_state = RUNNING, tx_read_ts = last_commit_ts m, tx_commit_ts = -1,
     tx_undo_logs = [] :: 'a undo_log list, tx_write_set = [], tx_scan_predicates = [], tx_isolation_level = level,
     tx_txn_id = ?i\<rparr>"
  have fresh: "txn_map m ?i = None" using p(7) [of ?i] by (cases "txn_map m ?i") auto
  obtain w where w: "AddTxn (running_txns m) (last_commit_ts m) = Inr w"
    "tracks w ((reads_at m)(last_commit_ts m := reads_at m (last_commit_ts m) + 1))" "wm_commit_ts w = last_commit_ts m"
    using AddTxn_tracks [OF p(5), of "last_commit_ts m"] p(6) by auto
  define m' where "m' = (set_txn ?i t m)\<lparr>next_txn_id := ?i + 1, running_txns := w\<rparr>"
  have run: "Begin m level = Inr (?i, m')" using w(1) by (simp add: Begin_def Let_def m'_def t_def)
  have m': "txn_map m' = (txn_map m)(?i \<mapsto> t)" "heap m' = heap m" "version_info m' = version_info m" "running_txns m' = w"
    "last_commit_ts m' = last_commit_ts m" "next_txn_id m' = ?i + 1" "table_of m' = table_of m" "columns_of m' = columns_of m"
    by (simp_all add: m'_def set_txn_def)
  have reads: "reads_at m' = (reads_at m)(last_commit_ts m := reads_at m (last_commit_ts m) + 1)"
  proof
    fix r show "reads_at m' r = ((reads_at m)(last_commit_ts m := reads_at m (last_commit_ts m) + 1)) r"
      unfolding reads_at_def m'(1) cnt_new [OF p(1) fresh] by (auto simp: t_def active_def)
  qed
  have wm: "wmark m \<le> wmark m'"
    unfolding m'(4) by (rule wmark_mono [OF o(1) w(2,3) order_refl]) (auto split: if_splits)
  have txns: "txns_ok m'"
    unfolding txns_ok_def m' reads
  proof (intro conjI allI impI)
    fix j u assume u: "((txn_map m)(?i \<mapsto> t)) j = Some u"
    then have "j = ?i \<and> u = t \<or> txn_map m j = Some u" by (auto split: if_splits)
    then show "tx_txn_id u = j" "TXN_START_ID \<le> j" "j < ?i + 1" "0 \<le> tx_read_ts u" "tx_read_ts u \<le> last_commit_ts m"
      using p(2,4) p(7) [of j u] by (auto simp: t_def)
  qed (use p w in simp_all)
  have writes: "writes_ok m'"
    unfolding writes_ok_def
  proof (intro allI impI)
    fix j u assume u: "txn_map m' j = Some u"
    show "distinct (tx_write_set u) \<and>
        (\<forall>(table, rid) \<in> set (tx_write_set u). table = table_of m' (fst rid) \<and> rid \<in> dom (heap m'))"
    proof (cases "j = ?i")
      case True
      then show ?thesis using u by (auto simp: m' t_def)
    next
      case False
      then have "txn_map m j = Some u" using u by (simp add: m')
      from writes_okD [OF o(2) this] show ?thesis unfolding m' .
    qed
  qed
  have "logs_apart m'" using o(3) unfolding logs_apart_def m' .
  moreover have "finite (dom (heap m'))" using o(4) by (simp add: m')
  moreover have "record_ok m' rid (V rid)" for rid
  proof (rule record_ok_frame [OF o(5) _ _ _ _ wm])
    fix ts k log assume k: "own m ts k" "lookup m k = Some log"
    have "prev_txn k \<noteq> ?i" using k(1) fresh by (auto simp: own_def)
    then show "own m' ts k \<and> lookup m' k = Some log" using k by (simp add: own_def lookup_def m')
  next
    assume p: "pending m rid (V rid)"
    then obtain ts v vs u where u: "V rid = (ts, v) # vs" "txn_map m ts = Some u" by (auto simp: pending_def split: list.splits)
    then have "ts \<noteq> ?i" using fresh by auto
    with p u show "pending m' rid (V rid)" by (simp add: pending_def m')
  qed (simp_all add: m')
  ultimately have "mvcc_ok m' V" using txns writes unfolding mvcc_ok_def by blast
  with run m' fresh show ?thesis by (intro exI [of _ m'] exI [of _ t]) (simp add: t_def)
qed

end
