(* ===== verification/Mvcc_Finish.thy ===== *)
theory Mvcc_Finish
  imports Mvcc_Ops
begin

section \<open>Abort, commit and garbage collection\<close>

text \<open>
  An abort drops the writer's versions, record by record; a commit stamps them with the new commit
  timestamp; garbage collection cuts every list at the watermark.
\<close>

subsection \<open>One record changes\<close>

lemma replace_ok:
  assumes ok: "mvcc_ok m V" and h: "rid \<in> dom (heap m)" and ts: "tm_ts meta < TXN_START_ID"
    and m': "m' = m\<lparr>heap := (heap m)(rid \<mapsto> (meta, b)), version_info := (version_info m)(rid := l)\<rparr>"
    and r: "record_ok m' rid vs"
  shows "mvcc_ok m' (V(rid := vs))"
proof -
  note o = mvcc_okD [OF ok]
  have m's: "txn_map m' = txn_map m" "heap m' = (heap m)(rid \<mapsto> (meta, b))" "version_info m' = (version_info m)(rid := l)"
    "running_txns m' = running_txns m" "last_commit_ts m' = last_commit_ts m" "next_txn_id m' = next_txn_id m"
    "table_of m' = table_of m" "columns_of m' = columns_of m"
    by (simp_all add: m')
  have d: "dom (heap m') = dom (heap m)" using h by (auto simp: m's)
  have "reads_at m' = reads_at m" by (simp add: reads_at_def m's fun_eq_iff)
  then have "txns_ok m'" using o(1) unfolding txns_ok_def m's by simp
  moreover have "writes_ok m'" using o(2) unfolding writes_ok_def d unfolding m's .
  moreover have "logs_apart m'"
    unfolding logs_apart_def
  proof (intro allI impI)
    fix r r' meta1 meta' b1 b' l1 l'
    assume a: "r \<noteq> r'" "heap m' r = Some (meta1, b1)" "heap m' r' = Some (meta', b')" "tm_ts meta1 = tm_ts meta'"
      "TXN_START_ID \<le> tm_ts meta1" "version_info m' r = Some l1" "version_info m' r' = Some l'"
      "prev_txn l1 = tm_ts meta1" "prev_txn l' = tm_ts meta1"
    have "r \<noteq> rid" "r' \<noteq> rid" using a(2-5) ts by (auto simp: m's)
    then have "heap m r = Some (meta1, b1)" "heap m r' = Some (meta', b')" "version_info m r = Some l1" "version_info m r' = Some l'"
      using a by (simp_all add: m's)
    with o(3) a(1,4,5,8,9) show "prev_log_idx l1 \<noteq> prev_log_idx l'" unfolding logs_apart_def by blast
  qed
  moreover have "finite (dom (heap m'))" using o(4) by (simp add: d)
  moreover have "record_ok m' r ((V(rid := vs)) r)" for r
  proof (cases "r = rid")
    case True
    with r show ?thesis by simp
  next
    case False
    have "record_ok m' r (V r)"
      by (rule record_ok_frame [OF o(5)]) (use False in \<open>simp_all add: m's own_def lookup_def pending_def split: list.splits prod.splits\<close>)
    with False show ?thesis by simp
  qed
  ultimately show ?thesis unfolding mvcc_ok_def by blast
qed

subsection \<open>Abort\<close>

definition drop_version :: "txn_id \<Rightarrow> 'v version list \<Rightarrow> 'v version list" where
  "drop_version i vs =
     (case vs of [] \<Rightarrow> [] | (ts, v) # vs' \<Rightarrow> if ts \<noteq> i then vs else if vs' = [] then [(0, None)] else vs')"

lemma chain_valid: "chain m n wm vs (Some k) \<Longrightarrow> chain m n wm vs (if IsValid k then Some k else None)"
  by (cases "(m, n, wm, vs, Some k)" rule: chain.cases) auto

lemma abort_rid_ok:
  assumes ok: "mvcc_ok m V" and t: "txn_map m i = Some t" "active t" and h: "rid \<in> dom (heap m)"
  shows "\<exists>m'. abort_rid i (table_of m (fst rid), rid) m = Inr m' \<and> mvcc_ok m' (V(rid := drop_version i (V rid))) \<and>
    (\<exists>hp vi. m' = m\<lparr>heap := hp, version_info := vi\<rparr> \<and> dom hp = dom (heap m))"
proof -
  note o = mvcc_okD [OF ok]
  obtain meta base where hm: "heap m rid = Some (meta, base)" using h by auto
  let ?n = "cols m rid" and ?v = "if tm_is_deleted meta then None else Some base" and ?l = "version_info m rid"
  obtain vs where vs: "V rid = (tm_ts meta, ?v) # vs" "chain m ?n (wmark m) (V rid) ?l" "length base = ?n"
    "sorted_wrt (>) (map fst (V rid))" "\<forall>x \<in> set vs. 0 \<le> fst x \<and> fst x \<le> last_commit_ts m"
    by (rule record_open [OF ok hm])
  have id: "tx_txn_id t = i" "TXN_START_ID \<le> i" "0 \<le> last_commit_ts m" "last_commit_ts m < TXN_START_ID"
    using txns_okD(2,3,7) [OF o(1)] t(1) by auto
  have finish: ?thesis if "abort_rid i (table_of m (fst rid), rid) m = Inr m'" "tm_ts meta' < TXN_START_ID"
    "drop_version i (V rid) = vs'" "record_ok m' rid vs'"
    "m' = m\<lparr>heap := (heap m)(rid \<mapsto> (meta', b)), version_info := (version_info m)(rid := l)\<rparr>" for m' meta' b l vs'
    using that replace_ok [OF ok h that(2,5,4)] h
    by (intro exI [of _ m'] exI [of _ "(heap m)(rid \<mapsto> (meta', b))"] exI [of _ "(version_info m)(rid := l)"] conjI)
      (simp_all add: insert_absorb)
  show ?thesis
  proof (cases "tm_ts meta = i")
    case False
    then have "abort_rid i (table_of m (fst rid), rid) m = Inr m"
      by (simp add: abort_rid_def get_txn_def t(1) heap_get_def hm GetTransactionTempTs_def id)
    moreover have "V(rid := drop_version i (V rid)) = V" using False by (auto simp: drop_version_def vs(1))
    ultimately show ?thesis using ok
      by (intro exI [of _ m]) (auto intro!: exI [of _ "heap m"] exI [of _ "version_info m"])
  next
    case True
    consider l where "?l = Some l" "prev_txn l = i" | "\<forall>l. ?l = Some l \<longrightarrow> prev_txn l \<noteq> tm_ts meta" using True by auto
    then show ?thesis
    proof cases
      case 1
      obtain log ts1 v1 vs1 where k: "lookup m l = Some log" "vs = (ts1, v1) # vs1" "ul_ts log = ts1"
        "restores ?n log ?v v1" "chain m ?n (wmark m) ((ts1, v1) # vs1) (Some (ul_prev_version log))"
        using own_link(1) [OF ok hm _ 1(1)] 1(2) True id(2) vs(1) by auto
      have lg: "txn_GetUndoLog t (prev_log_idx l) = Inr log"
        using k(1) 1(2) t(1) by (auto simp: lookup_def txn_GetUndoLog_def split: if_splits)
      have rp: "rep ?n (undo_fields (ul_modified_fields log) base (ul_tuple log)) (ul_is_deleted log) v1"
        by (rule undo_rep [of _ _ "tm_is_deleted meta", OF _ k(4)]) (simp add: rep_def vs(3))
      have "ReconstructTuple ?n base meta [log] = v1" by (rule Reconstruct_rep [OF vs(3) _ rp]) (simp add: undo_step_def)
      then have run: "abort_rid i (table_of m (fst rid), rid) m = Inr (m\<lparr>heap := (heap m)(rid \<mapsto>
          (\<lparr>tm_ts = ts1, tm_is_deleted = ul_is_deleted log\<rparr>, case v1 of Some x \<Rightarrow> x | None \<Rightarrow> base)),
          version_info := (version_info m)(rid := if IsValid (ul_prev_version log) then Some (ul_prev_version log) else None)\<rparr>)"
        using lg by (simp add: abort_rid_def get_txn_def t(1) heap_get_def hm GetTransactionTempTs_def id True GetUndoLink_def
            1 k(3) UpdateUndoLink_def UpdateInPlace_def Let_def)
      have low: "0 \<le> ts1" "ts1 \<le> last_commit_ts m" "ts1 < TXN_START_ID" using vs(5) k(2) id(4) by auto
      show ?thesis
      proof (rule finish [OF run _ _ _ refl])
        show "tm_ts \<lparr>tm_ts = ts1, tm_is_deleted = ul_is_deleted log\<rparr> < TXN_START_ID" using low by simp
        show "drop_version i (V rid) = vs" using True k(2) by (simp add: drop_version_def vs(1))
        let ?m = "m\<lparr>heap := (heap m)(rid \<mapsto>
          (\<lparr>tm_ts = ts1, tm_is_deleted = ul_is_deleted log\<rparr>, case v1 of Some x \<Rightarrow> x | None \<Rightarrow> base)),
          version_info := (version_info m)(rid := if IsValid (ul_prev_version log) then Some (ul_prev_version log) else None)\<rparr>"
        have d: "sorted_wrt (>) (map fst ((ts1, v1) # vs1))" using vs(4) unfolding vs(1) k(2) by simp
        have "chain ?m ?n (wmark m) ((ts1, v1) # vs1)
            (if IsValid (ul_prev_version log) then Some (ul_prev_version log) else None)"
          by (rule chain_cong [OF chain_valid [OF k(5)] order_refl distinct_descending [OF d]]) (simp add: own_def lookup_def)
        then show "record_ok ?m rid vs"
          using rp low vs(3,5) d unfolding k(2) record_ok_def by (auto simp: rep_def split: option.splits)
      qed
    next
      case 2
      have none: "vs = []" "\<forall>l. ?l = Some l \<longrightarrow> \<not> IsValid l" using own_head_fresh [OF ok hm _ 2] True id(2) vs(1) by auto
      have "abort_rid i (table_of m (fst rid), rid) m =
          Inr (m\<lparr>heap := (heap m)(rid \<mapsto> (\<lparr>tm_ts = 0, tm_is_deleted = True\<rparr>, base))\<rparr>)"
        using 2 True by (auto simp: abort_rid_def get_txn_def t(1) heap_get_def hm GetTransactionTempTs_def id GetUndoLink_def
            UpdateInPlace_def Let_def split: option.splits)
      then have run: "abort_rid i (table_of m (fst rid), rid) m =
          Inr (m\<lparr>heap := (heap m)(rid \<mapsto> (\<lparr>tm_ts = 0, tm_is_deleted = True\<rparr>, base)), version_info := (version_info m)(rid := ?l)\<rparr>)"
        by (simp add: same_link)
      show ?thesis
      proof (rule finish [OF run _ _ _ refl])
        show "tm_ts \<lparr>tm_ts = 0, tm_is_deleted = True\<rparr> < TXN_START_ID" by (simp add: TXN_START_ID_def)
        show "drop_version i (V rid) = [(0, None)]" using True none by (simp add: drop_version_def vs(1))
        show "record_ok (m\<lparr>heap := (heap m)(rid \<mapsto> (\<lparr>tm_ts = 0, tm_is_deleted = True\<rparr>, base)),
            version_info := (version_info m)(rid := ?l)\<rparr>) rid [(0, None)]"
          using none id(3) vs(3) by (simp add: record_ok_def split: option.splits)
      qed
    qed
  qed
qed

lemma drop_version_idle: "vs = [] \<or> fst (hd vs) \<noteq> i \<Longrightarrow> drop_version i vs = vs"
  by (cases vs) (auto simp: drop_version_def)

lemma fold_abort_ok:
  assumes "mvcc_ok m V" "txn_map m i = Some t" "active t" "\<forall>(table, rid) \<in> set ws. table = table_of m (fst rid) \<and> rid \<in> dom (heap m)"
    "distinct ws"
  shows "\<exists>m' hp vi. fold_rids (abort_rid i) ws m = Inr m' \<and>
    mvcc_ok m' (\<lambda>rid. if rid \<in> snd ` set ws then drop_version i (V rid) else V rid) \<and>
    m' = m\<lparr>heap := hp, version_info := vi\<rparr> \<and> dom hp = dom (heap m)"
  using assms
proof (induction ws arbitrary: m V)
  case Nil
  then show ?case by (intro exI [of _ m] exI [of _ "heap m"] exI [of _ "version_info m"]) simp
next
  case (Cons w ws)
  obtain rid where w: "w = (table_of m (fst rid), rid)" "rid \<in> dom (heap m)" using Cons.prems(4) by (cases w) auto
  obtain m1 hp vi where m1: "abort_rid i w m = Inr m1" "mvcc_ok m1 (V(rid := drop_version i (V rid)))"
    "m1 = m\<lparr>heap := hp, version_info := vi\<rparr>" "dom hp = dom (heap m)"
    using abort_rid_ok [OF Cons.prems(1-3) w(2)] w(1) by auto
  have "\<forall>(table, r) \<in> set ws. table = table_of m1 (fst r) \<and> r \<in> dom (heap m1)"
    using Cons.prems(4) m1(4) by (auto simp: m1(3))
  moreover have "txn_map m1 i = Some t" using Cons.prems(2) by (simp add: m1(3))
  ultimately obtain m2 hp' vi' where m2: "fold_rids (abort_rid i) ws m1 = Inr m2" "m2 = m1\<lparr>heap := hp', version_info := vi'\<rparr>"
    "mvcc_ok m2 (\<lambda>r. if r \<in> snd ` set ws then drop_version i ((V(rid := drop_version i (V rid))) r)
        else (V(rid := drop_version i (V rid))) r)" "dom hp' = dom (heap m1)"
    using Cons.IH [OF m1(2) _ Cons.prems(3)] Cons.prems(5) by auto
  have "rid \<notin> snd ` set ws"
  proof
    assume "rid \<in> snd ` set ws"
    then obtain table where "(table, rid) \<in> set ws" by auto
    with Cons.prems(4,5) w(1) show False by fastforce
  qed
  then have "(\<lambda>r. if r \<in> snd ` set ws then drop_version i ((V(rid := drop_version i (V rid))) r)
        else (V(rid := drop_version i (V rid))) r) =
      (\<lambda>r. if r \<in> snd ` set (w # ws) then drop_version i (V r) else V r)"
    by (auto simp: w(1) fun_eq_iff)
  with m2 m1 show ?case by (intro exI [of _ m2] exI [of _ hp'] exI [of _ vi']) simp
qed

text \<open>The writer of an uncommitted version has the record in its write set.\<close>

lemma head_in_write_set:
  assumes ok: "mvcc_ok m V" and t: "txn_map m i = Some t" and h: "V rid = (i, v) # vs"
  shows "active t" "(table_of m (fst rid), rid) \<in> set (tx_write_set t)" "\<forall>x \<in> set vs. fst x \<le> tx_read_ts t"
    "rid \<in> dom (heap m)"
proof -
  note o = mvcc_okD [OF ok]
  show d: "rid \<in> dom (heap m)" using o(5) [of rid] h by (cases "heap m rid") (auto simp: record_ok_def)
  then obtain meta base where hm: "heap m rid = Some (meta, base)" by auto
  have "0 \<le> i \<and> i \<le> last_commit_ts m \<or> pending m rid (V rid)" using record_open [OF ok hm] h by auto
  then have "pending m rid (V rid)" using txns_okD(3,7) [OF o(1)] t by fastforce
  then show "active t" "(table_of m (fst rid), rid) \<in> set (tx_write_set t)" "\<forall>x \<in> set vs. fst x \<le> tx_read_ts t"
    using t by (auto simp: pending_def h)
qed

subsection \<open>Finishing\<close>

lemma finish_frame:
  assumes ok: "mvcc_ok m V" and t: "txn_map m i = Some t" "active t"
    and t': "tx_txn_id t' = tx_txn_id t" "tx_read_ts t' = tx_read_ts t" "\<not> active t'" "tx_write_set t' = tx_write_set t"
    and m': "txn_map m' = (txn_map m)(i \<mapsto> t')" "dom (heap m') = dom (heap m)" "next_txn_id m' = next_txn_id m"
      "table_of m' = table_of m"
    and w: "running_txns m' = RemoveTxn w (tx_read_ts t)" "tracks w (reads_at m)" "wm_commit_ts w = last_commit_ts m'"
    and c: "last_commit_ts m \<le> last_commit_ts m'" "last_commit_ts m' < TXN_START_ID"
  shows "txns_ok m'" "writes_ok m'" "wmark m \<le> wmark m'"
proof -
  note o = mvcc_okD [OF ok] and p = txns_okD [OF mvcc_okD(1) [OF ok]]
  let ?r = "tx_read_ts t"
  have pos: "0 < reads_at m ?r" by (rule reads_pos [OF o(1) t])
  have reads: "reads_at m' = (reads_at m)(?r := reads_at m ?r - 1)"
  proof
    fix r show "reads_at m' r = ((reads_at m)(?r := reads_at m ?r - 1)) r"
      using cnt_upd [OF p(1) t(1), of "\<lambda>t. active t \<and> tx_read_ts t = r" t'] t(2) t'(2,3)
      unfolding reads_at_def m'(1) by (cases "r = ?r") auto
  qed
  have tr: "tracks (running_txns m') (reads_at m')" "wm_commit_ts (running_txns m') = last_commit_ts m'"
    using RemoveTxn_tracks [OF w(2) pos] w(3) unfolding w(1) reads by simp_all
  show "wmark m \<le> wmark m'"
    by (rule wmark_mono [OF o(1) tr c(1)]) (auto simp: reads split: if_splits)
  show "txns_ok m'"
    unfolding txns_ok_def
  proof (intro conjI allI impI)
    fix j u assume u: "txn_map m' j = Some u"
    obtain u0 where u0: "txn_map m j = Some u0" "tx_txn_id u = tx_txn_id u0" "tx_read_ts u = tx_read_ts u0"
      using u t(1) t' that unfolding m'(1) by (cases "j = i") auto
    from p(7) [OF u0(1)] c(1) show "tx_txn_id u = j" "TXN_START_ID \<le> j" "j < next_txn_id m'" "0 \<le> tx_read_ts u"
      "tx_read_ts u \<le> last_commit_ts m'" by (auto simp: u0(2,3) m'(3))
  qed (use p(1,2,4) c tr m' in auto)
  show "writes_ok m'"
    unfolding writes_ok_def
  proof (intro allI impI)
    fix j u assume u: "txn_map m' j = Some u"
    obtain u0 where u0: "txn_map m j = Some u0" "tx_write_set u = tx_write_set u0"
      using u t(1) t'(4) that unfolding m'(1) by (cases "j = i") auto
    from writes_okD [OF o(2) u0(1)] show "distinct (tx_write_set u) \<and>
        (\<forall>(table, rid) \<in> set (tx_write_set u). table = table_of m' (fst rid) \<and> rid \<in> dom (heap m'))"
      unfolding u0(2) m' .
  qed
qed

text \<open>A list whose head is not the finished writer's is left alone.\<close>

lemma finish_record:
  assumes ok: "mvcc_ok m V" and t: "txn_map m i = Some t" "active t" and hd: "V rid = [] \<or> fst (hd (V rid)) \<noteq> i"
    and m': "txn_map m' = (txn_map m)(i \<mapsto> t')" "table_of m' = table_of m" "columns_of m' = columns_of m"
      "heap m' rid = heap m rid" "version_info m' rid = version_info m rid" "wmark m \<le> wmark m'"
      "last_commit_ts m \<le> last_commit_ts m'"
  shows "record_ok m' rid (V rid)"
proof (rule record_ok_frame [OF mvcc_okD(5) [OF ok] m'(4,5,2,3,6,7)])
  fix ts k log assume k: "ts \<in> fst ` set (V rid)" "own m ts k" "lookup m k = Some log"
  have "ts \<noteq> i"
  proof (cases "heap m rid")
    case None
    with k(1) mvcc_okD(5) [OF ok, of rid] show ?thesis by (simp add: record_ok_def)
  next
    case (Some x)
    obtain meta base where hm: "heap m rid = Some (meta, base)" using Some by (cases x) auto
    obtain v vs where vs: "V rid = (tm_ts meta, v) # vs" "\<forall>x \<in> set vs. 0 \<le> fst x \<and> fst x \<le> last_commit_ts m"
      using record_open [OF ok hm] by metis
    have "last_commit_ts m < i" using txns_okD(3,7) [OF mvcc_okD(1) [OF ok]] t(1) by fastforce
    with k(1) vs hd show ?thesis by fastforce
  qed
  then show "own m' ts k \<and> lookup m' k = Some log" using own_upd [OF t m'(1) k(2,3)] by blast
next
  assume p: "pending m rid (V rid)"
  show "pending m' rid (V rid)"
    by (rule pending_upd [OF p t(1) m'(1,2)]) (use hd p in \<open>auto simp: pending_def split: list.splits\<close>)
qed

end
