(* ===== verification/Mvcc_Commit.thy ===== *)
theory Mvcc_Commit
  imports Mvcc_Finish
begin

section \<open>The ends of a transaction\<close>

text \<open>
  \<open>Abort\<close>, \<open>Commit\<close> and \<open>GarbageCollection\<close> as a whole: an abort drops the writer's versions,
  a commit stamps them with the new timestamp, and the garbage collection cuts every list below
  the watermark.
\<close>

subsection \<open>Abort\<close>

lemma Abort_ok:
  assumes ok: "mvcc_ok m V" and t: "txn_map m i = Some t" "active t"
  shows "\<exists>m'. Abort m i = Inr m' \<and> mvcc_ok m' (\<lambda>rid. drop_version i (V rid)) \<and>
    txn_map m' = (txn_map m)(i \<mapsto> t\<lparr>tx_state := ABORTED\<rparr>) \<and> dom (heap m') = dom (heap m) \<and>
    last_commit_ts m' = last_commit_ts m \<and> table_of m' = table_of m \<and> columns_of m' = columns_of m"
proof -
  note o = mvcc_okD [OF ok] and ws = writes_okD [OF mvcc_okD(2) [OF ok] t(1)]
  let ?V = "\<lambda>rid. drop_version i (V rid)" and ?t = "t\<lparr>tx_state := ABORTED\<rparr>"
  obtain m1 hp vi where m1: "fold_rids (abort_rid i) (tx_write_set t) m = Inr m1"
    "mvcc_ok m1 (\<lambda>rid. if rid \<in> snd ` set (tx_write_set t) then drop_version i (V rid) else V rid)"
    "m1 = m\<lparr>heap := hp, version_info := vi\<rparr>" "dom hp = dom (heap m)"
    using fold_abort_ok [OF ok t] ws by blast
  have all: "(if rid \<in> snd ` set (tx_write_set t) then drop_version i (V rid) else V rid) = ?V rid" for rid
  proof (cases "V rid = [] \<or> fst (hd (V rid)) \<noteq> i")
    case False
    then obtain v vs where "V rid = (i, v) # vs" by (cases "V rid") auto
    then have "(table_of m (fst rid), rid) \<in> set (tx_write_set t)" by (rule head_in_write_set(2) [where m = m, OF ok t(1)])
    then show ?thesis by force
  qed (simp add: drop_version_idle)
  have ok1: "mvcc_ok m1 ?V" using m1(2) unfolding all .
  have t1: "txn_map m1 i = Some t" by (simp add: m1(3) t(1))
  define m' where "m' = (set_txn i ?t m1)\<lparr>running_txns := RemoveTxn (running_txns m1) (tx_read_ts t)\<rparr>"
  have run: "Abort m i = Inr m'"
    using t(2) m1(1) by (auto simp: Abort_def get_txn_def t(1) active_def m'_def)
  have m': "txn_map m' = (txn_map m1)(i \<mapsto> ?t)" "heap m' = heap m1" "version_info m' = version_info m1"
    "next_txn_id m' = next_txn_id m1" "table_of m' = table_of m1" "columns_of m' = columns_of m1"
    "last_commit_ts m' = last_commit_ts m1" "running_txns m' = RemoveTxn (running_txns m1) (tx_read_ts t)"
    by (simp_all add: m'_def set_txn_def)
  note p = txns_okD [OF mvcc_okD(1) [OF ok1]]
  have fin: "txns_ok m'" "writes_ok m'" "wmark m1 \<le> wmark m'"
    by (rule finish_frame [OF ok1 t1 t(2) _ _ _ _ m'(1) _ m'(4,5,8) p(5)];
      use p(3,6) in \<open>simp add: m'(2,7) active_def\<close>)+
  have hd: "?V rid = [] \<or> fst (hd (?V rid)) \<noteq> i" for rid
  proof (cases "heap m rid")
    case None
    then show ?thesis using o(5) [of rid] by (simp add: record_ok_def drop_version_def)
  next
    case (Some x)
    obtain meta base where hm: "heap m rid = Some (meta, base)" using Some by (cases x) auto
    obtain v vs where vs: "V rid = (tm_ts meta, v) # vs" "\<forall>x \<in> set vs. 0 \<le> fst x \<and> fst x \<le> last_commit_ts m"
      using record_open [OF ok hm] by metis
    have "last_commit_ts m < i" "0 < i" using txns_okD(2,3,7) [OF o(1)] t(1) by fastforce+
    then show ?thesis using vs(2) by (cases vs) (auto simp: drop_version_def vs(1))
  qed
  have "record_ok m' rid (?V rid)" for rid
    using finish_record [OF ok1 t1 t(2) hd m'(1,5,6)] fin(3) by (simp add: m'(2,3,7))
  moreover have "logs_apart m'" using mvcc_okD(3) [OF ok1] unfolding logs_apart_def m' .
  moreover have "finite (dom (heap m'))" using mvcc_okD(4) [OF ok1] by (simp add: m')
  ultimately have "mvcc_ok m' ?V" using fin unfolding mvcc_ok_def by blast
  with run show ?thesis by (intro exI [of _ m']) (simp add: m' m1(3,4))
qed

subsection \<open>Commit\<close>

definition stamp :: "txn_id \<Rightarrow> int \<Rightarrow> 'v version list \<Rightarrow> 'v version list" where
  "stamp i c vs = (case vs of [] \<Rightarrow> [] | (ts, v) # vs' \<Rightarrow> if ts = i then (c, v) # vs' else vs)"

lemma stamp_idle: "vs = [] \<or> fst (hd vs) \<noteq> i \<Longrightarrow> stamp i c vs = vs"
  by (cases vs) (auto simp: stamp_def)

definition restamp :: "txn_id \<Rightarrow> int \<Rightarrow> tuple_meta \<times> 'v list \<Rightarrow> tuple_meta \<times> 'v list" where
  "restamp i c x = (if tm_ts (fst x) = i then (\<lparr>tm_ts = c, tm_is_deleted = tm_is_deleted (fst x)\<rparr>, snd x) else x)"

lemma fold_commit:
  assumes "txn_map m i = Some t" "tx_txn_id t = i" "\<forall>rid \<in> snd ` set ws. heap m rid \<noteq> None" "c \<noteq> i"
  shows "fold_rids (commit_rid i c) ws m =
    Inr (m\<lparr>heap := \<lambda>rid. if rid \<in> snd ` set ws then map_option (restamp i c) (heap m rid) else heap m rid\<rparr>)"
  using assms
proof (induction ws arbitrary: m)
  case (Cons w ws)
  obtain table rid where w: "w = (table, rid)" by (cases w)
  obtain x where h: "heap m rid = Some x" using Cons.prems(3) w by auto
  let ?m = "m\<lparr>heap := (heap m)(rid \<mapsto> restamp i c x)\<rparr>"
  have "commit_rid i c w m = Inr ?m"
    using Cons.prems(1,2) h w
    by (auto simp: commit_rid_def get_txn_def heap_get_def GetTransactionTempTs_def UpdateInPlace_def restamp_def fun_upd_idem
        split: prod.splits)
  moreover have "fold_rids (commit_rid i c) ws ?m =
    Inr (?m\<lparr>heap := \<lambda>r. if r \<in> snd ` set ws then map_option (restamp i c) (heap ?m r) else heap ?m r\<rparr>)"
    by (rule Cons.IH) (use Cons.prems in auto)
  moreover have "restamp i c (restamp i c x) = restamp i c x" using Cons.prems(4) by (simp add: restamp_def)
  then have "(\<lambda>r. if r \<in> snd ` set ws then map_option (restamp i c) (heap ?m r) else heap ?m r) =
      (\<lambda>r. if r \<in> snd ` set (w # ws) then map_option (restamp i c) (heap m r) else heap m r)"
    using h w by (auto simp: fun_eq_iff)
  ultimately show ?case by simp
qed simp

lemma commit_heap:
  assumes ok: "mvcc_ok m V" and t: "txn_map m i = Some t" "active t" and c: "c \<noteq> i"
  shows "fold_rids (commit_rid i c) (tx_write_set t) m = Inr (m\<lparr>heap := \<lambda>rid. map_option (restamp i c) (heap m rid)\<rparr>)"
proof -
  note ws = writes_okD [OF mvcc_okD(2) [OF ok] t(1)]
  have id: "tx_txn_id t = i" using txns_okD(7) [OF mvcc_okD(1) [OF ok] t(1)] by simp
  have same: "(if rid \<in> snd ` set (tx_write_set t) then map_option (restamp i c) (heap m rid) else heap m rid) =
      map_option (restamp i c) (heap m rid)" for rid
  proof (cases "\<exists>meta base. heap m rid = Some (meta, base) \<and> tm_ts meta = i")
    case True
    then obtain meta base where h: "heap m rid = Some (meta, base)" "tm_ts meta = i" by blast
    obtain v vs where "V rid = (i, v) # vs" using record_open [OF ok h(1)] h(2) by metis
    then have "(table_of m (fst rid), rid) \<in> set (tx_write_set t)" by (rule head_in_write_set(2) [where m = m, OF ok t(1)])
    then show ?thesis by force
  next
    case False
    then show ?thesis by (cases "heap m rid") (auto simp: restamp_def)
  qed
  have d: "\<forall>rid \<in> snd ` set (tx_write_set t). heap m rid \<noteq> None" using ws by fastforce
  show ?thesis unfolding fold_commit [OF t(1) id d c] same ..
qed

lemma stamp_chain:
  assumes ok: "mvcc_ok m V" and t: "txn_map m i = Some t" "active t" and h: "V rid = (i, v) # vs"
    and m': "txn_map m' = (txn_map m)(i \<mapsto> t')" "wmark m \<le> wmark m'"
    and t': "tx_state t' = COMMITTED" "tx_undo_logs t' = tx_undo_logs t" and c: "c < TXN_START_ID"
    and ch: "chain m n (wmark m) ((i, v) # vs) l" and s: "sorted_wrt (>) (map fst vs)" "\<forall>x \<in> set vs. fst x \<noteq> i"
  shows "chain m' n (wmark m') ((c, v) # vs) l"
proof (cases vs)
  case Nil
  have "\<not> i \<le> wmark m" using wmark_le_commit [OF mvcc_okD(1) [OF ok]] txns_okD(3,7) [OF mvcc_okD(1) [OF ok]] t(1)
    by fastforce
  with ch Nil show ?thesis by simp
next
  case (Cons x vs')
  obtain ts v' where x: "x = (ts, v')" by (cases x)
  obtain k log where k: "l = Some k" "IsValid k" "own m i k" "lookup m k = Some log" "ul_ts log = ts" "restores n log v v'"
    "chain m n (wmark m) vs (Some (ul_prev_version log))"
    using ch unfolding Cons x by auto
  have "TXN_START_ID \<le> i" using txns_okD(7) [OF mvcc_okD(1) [OF ok] t(1)] by simp
  then have i: "prev_txn k = i" using k(3) by (simp add: own_def)
  have "own m' c k" using i t' c by (simp add: own_def m'(1))
  moreover have "lookup m' k = Some log" using k(4) i t(1) t'(2) by (auto simp: lookup_def m'(1) split: if_splits)
  moreover have "chain m' n (wmark m') vs (Some (ul_prev_version log))"
  proof (rule chain_cong [OF k(7) m'(2) distinct_descending [OF s(1)]])
    fix ts k log assume k: "ts \<in> fst ` set vs" "own m ts k" "lookup m k = Some log"
    show "own m' ts k \<and> lookup m' k = Some log" by (rule own_upd [OF t m'(1) k(2,3)]) (use k(1) s(2) in auto)
  qed
  ultimately show ?thesis using k(1,2,5,6) unfolding Cons x by auto
qed

lemma stamp_record:
  assumes ok: "mvcc_ok m V" and t: "txn_map m i = Some t" "active t" and h: "V rid = (i, v) # vs"
    and m': "txn_map m' = (txn_map m)(i \<mapsto> t')" "table_of m' = table_of m" "columns_of m' = columns_of m"
      "heap m' rid = map_option (restamp i (last_commit_ts m')) (heap m rid)" "version_info m' rid = version_info m rid"
      "wmark m \<le> wmark m'"
    and t': "tx_state t' = COMMITTED" "tx_undo_logs t' = tx_undo_logs t"
    and c: "last_commit_ts m < last_commit_ts m'" "last_commit_ts m' < TXN_START_ID"
  shows "record_ok m' rid ((last_commit_ts m', v) # vs)"
proof -
  note o = mvcc_okD [OF ok]
  obtain meta base where hm: "heap m rid = Some (meta, base)" using head_in_write_set(4) [of m, OF ok t(1) h] by auto
  obtain vs' where vs: "V rid = (tm_ts meta, if tm_is_deleted meta then None else Some base) # vs'" "length base = cols m rid"
    "chain m (cols m rid) (wmark m) (V rid) (version_info m rid)" "sorted_wrt (>) (map fst (V rid))"
    "\<forall>x \<in> set vs'. 0 \<le> fst x \<and> fst x \<le> last_commit_ts m"
    by (rule record_open [OF ok hm])
  have e: "tm_ts meta = i" "v = (if tm_is_deleted meta then None else Some base)" "vs' = vs" using vs(1) h by simp_all
  have "last_commit_ts m < i" using txns_okD(3,7) [OF o(1)] t(1) by fastforce
  then have low: "sorted_wrt (>) (map fst vs)" "\<forall>x \<in> set vs. fst x \<noteq> i" "\<forall>x \<in> set vs. fst x < last_commit_ts m'"
    using vs(4,5) h c(1) by (fastforce simp: e)+
  have "chain m' (cols m rid) (wmark m') ((last_commit_ts m', v) # vs) (version_info m rid)"
    by (rule stamp_chain [OF ok t h m'(1,6) t' c(2) vs(3) [unfolded h] low(1,2)])
  then show ?thesis
    using vs(2,5) c low(1,3) txns_okD(2) [OF o(1)] by (auto simp: record_ok_def m'(2-5) hm restamp_def e)
qed

lemma Commit_ok:
  assumes ok: "mvcc_ok m V" and t: "txn_map m i = Some t" "tx_state t = RUNNING" and c: "last_commit_ts m + 1 < TXN_START_ID"
    and valid: "tx_isolation_level t = SERIALIZABLE \<Longrightarrow> VerifyTxn m t = Inr True"
  shows "\<exists>m' t'. Commit m i = Inr (True, m') \<and> mvcc_ok m' (\<lambda>rid. stamp i (last_commit_ts m + 1) (V rid)) \<and>
    txn_map m' = (txn_map m)(i \<mapsto> t') \<and> tx_state t' = COMMITTED \<and> dom (heap m') = dom (heap m) \<and>
    last_commit_ts m' = last_commit_ts m + 1 \<and> table_of m' = table_of m \<and> columns_of m' = columns_of m"
proof -
  note o = mvcc_okD [OF ok] and p = txns_okD [OF mvcc_okD(1) [OF ok]]
  let ?c = "last_commit_ts m + 1" and ?V = "\<lambda>rid. stamp i (last_commit_ts m + 1) (V rid)"
  have act: "active t" using t(2) by (simp add: active_def)
  have id: "tx_txn_id t = i" "?c < i" using p(7) [OF t(1)] c by auto
  define t' where "t' = t\<lparr>tx_commit_ts := ?c, tx_state := COMMITTED\<rparr>"
  define m1 where "m1 = m\<lparr>heap := \<lambda>rid. map_option (restamp i ?c) (heap m rid)\<rparr>"
  define m' where "m' = (set_txn i t' m1)\<lparr>last_commit_ts := ?c,
    running_txns := RemoveTxn (UpdateCommitTs (running_txns m1) ?c) (tx_read_ts t)\<rparr>"
  have "fold_rids (commit_rid i ?c) (tx_write_set t) m = Inr m1"
    unfolding m1_def by (rule commit_heap [OF ok t(1) act]) (use id(2) in simp)
  then have run: "Commit m i = Inr (True, m')"
    using valid t(2) by (simp add: Commit_def get_txn_def t(1) Let_def m'_def t'_def)
  have m': "txn_map m' = (txn_map m)(i \<mapsto> t')" "heap m' = (\<lambda>rid. map_option (restamp i ?c) (heap m rid))"
    "version_info m' = version_info m" "next_txn_id m' = next_txn_id m" "table_of m' = table_of m"
    "columns_of m' = columns_of m" "last_commit_ts m' = ?c"
    "running_txns m' = RemoveTxn (UpdateCommitTs (running_txns m) ?c) (tx_read_ts t)"
    by (simp_all add: m'_def set_txn_def m1_def)
  have d: "dom (heap m') = dom (heap m)" unfolding m'(2) by (auto simp: dom_def)
  have fin: "txns_ok m'" "writes_ok m'" "wmark m \<le> wmark m'"
    by (rule finish_frame [OF ok t(1) act _ _ _ _ m'(1) d m'(4,5,8) UpdateCommitTs_tracks [OF p(5)]];
      use p(3,6) c in \<open>simp add: m'(7) active_def t'_def UpdateCommitTs_def\<close>)+
  have "record_ok m' rid (?V rid)" for rid
  proof (cases "V rid = [] \<or> fst (hd (V rid)) \<noteq> i")
    case True
    have "heap m' rid = heap m rid"
    proof (cases "heap m rid")
      case (Some x)
      obtain meta base where hm: "heap m rid = Some (meta, base)" using Some by (cases x) auto
      obtain v vs where "V rid = (tm_ts meta, v) # vs" using record_open [OF ok hm] by metis
      with True show ?thesis by (simp add: m'(2) hm restamp_def)
    qed (simp add: m'(2))
    from finish_record [OF ok t(1) act True m'(1,5,6) this _ fin(3)] show ?thesis
      unfolding stamp_idle [OF True] by (simp add: m'(3,7))
  next
    case False
    then obtain v vs where h: "V rid = (i, v) # vs" by (cases "V rid") auto
    have "record_ok m' rid ((last_commit_ts m', v) # vs)"
      by (rule stamp_record [where m = m, OF ok t(1) act h m'(1,5,6) _ _ fin(3)]) (use c in \<open>simp_all add: m' t'_def\<close>)
    then show ?thesis by (simp add: h stamp_def m'(7))
  qed
  moreover have "logs_apart m'"
    unfolding logs_apart_def m'(3)
  proof (intro allI impI)
    fix r r' meta meta' b b' l l'
    assume a: "r \<noteq> r'" "heap m' r = Some (meta, b)" "heap m' r' = Some (meta', b')" "tm_ts meta = tm_ts meta'"
      "TXN_START_ID \<le> tm_ts meta" "version_info m r = Some l" "version_info m r' = Some l'"
      "prev_txn l = tm_ts meta" "prev_txn l' = tm_ts meta"
    have "heap m r = Some (meta, b)" "heap m r' = Some (meta', b')"
      using a(2-5) c by (auto simp: m'(2) restamp_def split: if_splits)
    with o(3) a(1,4-9) show "prev_log_idx l \<noteq> prev_log_idx l'" unfolding logs_apart_def by blast
  qed
  moreover have "finite (dom (heap m'))" using o(4) by (simp add: d)
  ultimately have "mvcc_ok m' ?V" using fin unfolding mvcc_ok_def by blast
  with run d show ?thesis by (intro exI [of _ m'] exI [of _ t']) (simp add: m' t'_def)
qed

subsection \<open>Garbage collection\<close>

fun trunc :: "int \<Rightarrow> 'v version list \<Rightarrow> 'v version list" where
  "trunc wm [] = []"
| "trunc wm ((ts, v) # vs) = (if ts \<le> wm then [(ts, v)] else (ts, v) # trunc wm vs)"

lemma at_ts_trunc: "wm \<le> r \<Longrightarrow> at_ts r (trunc wm vs) = at_ts r vs"
  by (induction wm vs rule: trunc.induct) auto

lemma snapshot_trunc: "wm \<le> r \<Longrightarrow> snapshot i r (trunc wm vs) = snapshot i r vs"
  using at_ts_trunc [of wm r vs] by (cases vs) (auto split: if_splits)

lemma set_trunc: "set (trunc wm vs) \<subseteq> set vs"
  by (induction wm vs rule: trunc.induct) auto

lemma trunc_tl: "set (tl (trunc wm vs)) \<subseteq> set (tl vs)"
proof (cases vs)
  case (Cons x vs')
  then show ?thesis using set_trunc [of wm vs'] by (cases x) auto
qed simp

lemma sorted_trunc: "sorted_wrt (>) (map fst vs) \<Longrightarrow> sorted_wrt (>) (map fst (trunc wm vs))"
proof (induction wm vs rule: trunc.induct)
  case (2 wm ts v vs)
  then show ?case using set_trunc [of wm vs] by auto
qed simp

lemma trunc_hd: "trunc wm vs = [] \<longleftrightarrow> vs = []" "vs \<noteq> [] \<Longrightarrow> hd (trunc wm vs) = hd vs"
  by (induction wm vs rule: trunc.induct) simp_all

lemma needed_chain:
  "chain m n wm ((ts, v) # vs) l \<Longrightarrow> wm < ts \<Longrightarrow> length vs < fuel \<Longrightarrow>
   \<forall>j \<in> set (needed_txns fuel m wm l). txn_map m' j = txn_map m j \<Longrightarrow> chain m' n wm (trunc wm ((ts, v) # vs)) l"
proof (induction vs arbitrary: ts v l fuel)
  case Nil
  then show ?case by simp
next
  case (Cons x vs)
  obtain ts' v' where x: "x = (ts', v')" by (cases x)
  obtain f where f: "fuel = Suc f" using Cons.prems(3) by (cases fuel) auto
  obtain k log where k: "l = Some k" "IsValid k" "own m ts k" "lookup m k = Some log" "ul_ts log = ts'" "restores n log v v'"
    "chain m n wm ((ts', v') # vs) (Some (ul_prev_version log))"
    using Cons.prems(1) unfolding x by auto
  have need: "needed_txns fuel m wm l = prev_txn k #
      (if ts' \<le> wm then [] else needed_txns f m wm (Some (ul_prev_version log)))"
    using lookup_log [OF k(4)] by (simp add: f k(1,2,5))
  then have "txn_map m' (prev_txn k) = txn_map m (prev_txn k)" using Cons.prems(4) by simp
  then have kl: "own m' ts k" "lookup m' k = Some log" using k(3,4) by (simp_all add: own_def lookup_def)
  have "chain m' n wm (trunc wm ((ts', v') # vs)) (Some (ul_prev_version log))"
  proof (cases "ts' \<le> wm")
    case True
    then show ?thesis by simp
  next
    case False
    have "\<forall>j \<in> set (needed_txns f m wm (Some (ul_prev_version log))). txn_map m' j = txn_map m j"
      using Cons.prems(4) False unfolding need by simp
    with Cons.IH [OF k(7), of f] False Cons.prems(3) show ?thesis by (simp add: f)
  qed
  then show ?case using Cons.prems(2) k(1,2,5,6) kl by (simp add: x split: if_splits)
qed

lemma GarbageCollection_ok:
  assumes ok: "mvcc_ok m V"
  shows "mvcc_ok (GarbageCollection m) (\<lambda>rid. trunc (wmark m) (V rid))"
    "txn_map m i = Some t \<Longrightarrow> active t \<Longrightarrow> txn_map (GarbageCollection m) i = Some t"
    "heap (GarbageCollection m) = heap m" "last_commit_ts (GarbageCollection m) = last_commit_ts m"
    "table_of (GarbageCollection m) = table_of m" "columns_of (GarbageCollection m) = columns_of m"
    "txn_map (GarbageCollection m) \<subseteq>\<^sub>m txn_map m"
proof -
  note o = mvcc_okD [OF ok] and p = txns_okD [OF mvcc_okD(1) [OF ok]]
  let ?m = "GarbageCollection m"
  have m': "heap ?m = heap m" "version_info ?m = version_info m" "running_txns ?m = running_txns m"
    "next_txn_id ?m = next_txn_id m" "last_commit_ts ?m = last_commit_ts m" "table_of ?m = table_of m"
    "columns_of ?m = columns_of m"
    by (simp_all add: GarbageCollection_def Let_def)
  then show "heap ?m = heap m" "last_commit_ts ?m = last_commit_ts m" "table_of ?m = table_of m"
    "columns_of ?m = columns_of m" by simp_all
  have keep: "txn_map ?m j = Some u" if "txn_map m j = Some u" "active u" for j u
    using that by (auto simp: GarbageCollection_def Let_def active_def)
  show "txn_map m i = Some t \<Longrightarrow> active t \<Longrightarrow> txn_map ?m i = Some t" by (rule keep)
  have sub: "txn_map m j = Some u" if "txn_map ?m j = Some u" for j u
    using that by (auto simp: GarbageCollection_def Let_def split: option.splits if_splits)
  show "txn_map ?m \<subseteq>\<^sub>m txn_map m" using sub by (auto simp: map_le_def dom_def)
  have need: "txn_map ?m j = txn_map m j" if "j \<in> needed m (wmark m)" for j
    using that by (simp add: GarbageCollection_def Let_def split: option.splits)
  have "reads_at ?m = reads_at m"
  proof
    fix r
    have "{k. \<exists>t. txn_map ?m k = Some t \<and> active t \<and> tx_read_ts t = r} = {k. \<exists>t. txn_map m k = Some t \<and> active t \<and> tx_read_ts t = r}"
      using keep sub by blast
    then show "reads_at ?m r = reads_at m r" by (simp add: reads_at_def cnt_def)
  qed
  moreover have "finite (dom (txn_map ?m))" by (rule finite_subset [OF _ p(1)]) (use sub in auto)
  ultimately have "txns_ok ?m" using p(2-6) p(7) [OF sub] unfolding txns_ok_def m' by simp
  moreover have "writes_ok ?m" unfolding writes_ok_def m' using writes_okD [OF o(2) sub] by blast
  moreover have "logs_apart ?m" using o(3) unfolding logs_apart_def m' .
  moreover have "finite (dom (heap ?m))" using o(4) by (simp add: m')
  moreover have "record_ok ?m rid (trunc (wmark m) (V rid))" for rid
  proof (cases "heap m rid")
    case None
    then show ?thesis using o(5) [of rid] by (simp add: record_ok_def m')
  next
    case (Some x)
    obtain meta base where hm: "heap m rid = Some (meta, base)" using Some by (cases x) auto
    let ?v = "if tm_is_deleted meta then None else Some base"
    obtain vs where vs: "V rid = (tm_ts meta, ?v) # vs" "chain m (cols m rid) (wmark m) (V rid) (version_info m rid)"
      "length base = cols m rid" "sorted_wrt (>) (map fst (V rid))" "\<forall>x \<in> set vs. 0 \<le> fst x \<and> fst x \<le> last_commit_ts m"
      "0 \<le> tm_ts meta \<and> tm_ts meta \<le> last_commit_ts m \<or> pending m rid (V rid)"
      by (rule record_open [OF ok hm])
    let ?T = "trunc (wmark m) (V rid)"
    have "chain ?m (cols m rid) (wmark m) ?T (version_info m rid)"
    proof (cases "tm_ts meta \<le> wmark m")
      case False
      have "distinct (map fst vs)" using distinct_descending [OF vs(4)] by (simp add: vs(1))
      note fuel = chain_fuel [OF p(1) vs(2) [unfolded vs(1)] this]
      have "\<forall>j \<in> set (needed_txns (log_fuel m) m (wmark m) (version_info m rid)). txn_map ?m j = txn_map m j"
      proof
        fix j assume "j \<in> set (needed_txns (log_fuel m) m (wmark m) (version_info m rid))"
        then have "j \<in> needed m (wmark m)" using False by (auto simp: needed_def GetUndoLink_def hm intro!: bexI [of _ rid])
        then show "txn_map ?m j = txn_map m j" by (rule need)
      qed
      with needed_chain [OF vs(2) [unfolded vs(1)] _ fuel] False show ?thesis unfolding vs(1) by simp
    qed (simp add: vs(1))
    moreover have "0 \<le> tm_ts meta \<and> tm_ts meta \<le> last_commit_ts m \<or> pending ?m rid ?T"
    proof (rule disjE [OF vs(6)])
      assume "pending m rid (V rid)"
      then obtain t where "txn_map m (tm_ts meta) = Some t" "active t" "(table_of m (fst rid), rid) \<in> set (tx_write_set t)"
        "\<forall>x \<in> set vs. fst x \<le> tx_read_ts t" by (auto simp: pending_def vs(1))
      then have "pending ?m rid ?T"
        using keep set_trunc [of "wmark m" vs] by (auto simp: pending_def vs(1) m')
      then show ?thesis by blast
    qed simp
    moreover have "\<forall>x \<in> set (tl ?T). 0 \<le> fst x \<and> fst x \<le> last_commit_ts m"
      using vs(5) trunc_tl [of "wmark m" "V rid"] by (auto simp: vs(1))
    ultimately show ?thesis
      using vs(3) sorted_trunc [OF vs(4)] trunc_hd [where wm = "wmark m" and vs = "V rid"] by (simp add: record_ok_def m' hm vs(1))
  qed
  ultimately show "mvcc_ok ?m (\<lambda>rid. trunc (wmark m) (V rid))" unfolding mvcc_ok_def by blast
qed

end
