(* ===== verification/Mvcc_Verify.thy ===== *)
theory Mvcc_Verify
  imports Mvcc_Commit
begin

section \<open>Validation of serializable transactions\<close>

text \<open>
  \<open>VerifyTxn\<close> against the version lists: it never fails, and it rejects exactly when a record
  that a transaction committed since has written, in a table this one has scanned, has a version
  committed after the snapshot that matches one of the scan predicates itself or whose predecessor
  does.
\<close>

definition newest :: "'v version list \<Rightarrow> 'v list option" where
  "newest vs = (case vs of [] \<Rightarrow> None | (_, v) # _ \<Rightarrow> v)"

lemma newest_simps [simp]: "newest [] = None" "newest ((ts, v) # vs) = v"
  by (simp_all add: newest_def)

fun phantom :: "int \<Rightarrow> ('v list \<Rightarrow> bool) option list \<Rightarrow> 'v version list \<Rightarrow> bool" where
  "phantom r preds [] \<longleftrightarrow> False"
| "phantom r preds ((ts, v) # vs) \<longleftrightarrow> r < ts \<and>
     (ts < TXN_START_ID \<and> (matches preds v \<or> matches preds (newest vs)) \<or> phantom r preds vs)"

lemma verify_rid_ok:
  "chain m n wm ((ts, v) # vs) l \<Longrightarrow> wm \<le> r \<Longrightarrow> length vs < fuel \<Longrightarrow> rep n base del v \<Longrightarrow>
   verify_rid fuel m n r preds \<lparr>tm_ts = ts, tm_is_deleted = del\<rparr> base l v = Inr (\<not> phantom r preds ((ts, v) # vs))"
proof (induction vs arbitrary: ts v l fuel base del)
  case Nil
  then obtain f where "fuel = Suc f" by (cases fuel) auto
  with Nil show ?case by (auto split: option.splits)
next
  case (Cons x vs)
  obtain ts' v' where x: "x = (ts', v')" by (cases x)
  obtain f where f: "fuel = Suc f" using Cons.prems(3) by (cases fuel) auto
  obtain k log where k: "l = Some k" "IsValid k" "lookup m k = Some log" "ul_ts log = ts'" "restores n log v v'"
    "chain m n wm ((ts', v') # vs) (Some (ul_prev_version log))"
    using Cons.prems(1) unfolding x by auto
  have rp: "rep n (undo_fields (ul_modified_fields log) base (ul_tuple log)) (ul_is_deleted log) v'"
    by (rule undo_rep [OF Cons.prems(4) k(5)])
  have before: "ReconstructTuple n base \<lparr>tm_ts = ts, tm_is_deleted = del\<rparr> [log] = v'"
    by (rule Reconstruct_rep [OF _ _ rp]) (use Cons.prems(4) in \<open>simp_all add: undo_step_def rep_def\<close>)
  have base: "rep n (case v' of Some b \<Rightarrow> b | None \<Rightarrow> base) (ul_is_deleted log) v'"
    using rp Cons.prems(4) by (auto simp: rep_def split: option.splits)
  have IH: "verify_rid f m n r preds \<lparr>tm_ts = ts', tm_is_deleted = ul_is_deleted log\<rparr> (case v' of Some b \<Rightarrow> b | None \<Rightarrow> base)
      (Some (ul_prev_version log)) v' = Inr (\<not> phantom r preds ((ts', v') # vs))"
    by (rule Cons.IH [OF k(6) Cons.prems(2) _ base]) (use Cons.prems(3) f in simp)
  show ?case using lookup_log [OF k(3)] before IH by (simp add: f k(1,2,4) x Let_def; blast)
qed

lemma meta_eta [simp]: "\<lparr>tm_ts = tm_ts meta, tm_is_deleted = tm_is_deleted meta\<rparr> = meta"
  by (cases meta) simp

lemma verify_record:
  assumes ok: "mvcc_ok m V" and r: "wmark m \<le> r" and h: "heap m rid = Some (meta, base)"
  shows "verify_rid (Suc (log_fuel m)) m (cols m rid) r preds meta base (version_info m rid)
      (ReconstructTuple (cols m rid) base meta []) = Inr (\<not> phantom r preds (V rid))"
proof -
  let ?v = "if tm_is_deleted meta then None else Some base"
  obtain vs where vs: "V rid = (tm_ts meta, ?v) # vs" "chain m (cols m rid) (wmark m) (V rid) (version_info m rid)"
    "length base = cols m rid" "sorted_wrt (>) (map fst (V rid))"
    by (rule record_open [OF ok h])
  have "distinct (map fst vs)" using distinct_descending [OF vs(4)] by (simp add: vs(1))
  then have f: "length vs < Suc (log_fuel m)"
    using chain_fuel [OF txns_okD(1) [OF mvcc_okD(1) [OF ok]] vs(2) [unfolded vs(1)]] by simp
  have rp: "rep (cols m rid) base (tm_is_deleted meta) ?v" using vs(3) by (simp add: rep_def)
  have "ReconstructTuple (cols m rid) base meta [] = ?v" by (rule Reconstruct_rep [OF vs(3) _ rp]) simp
  with verify_rid_ok [OF vs(2) [unfolded vs(1)] r f rp, of preds] show ?thesis
    unfolding vs(1) by (simp del: verify_rid.simps phantom.simps)
qed

lemma verify_rids_ok:
  assumes "mvcc_ok m V" "wmark m \<le> tx_read_ts t" "\<forall>(table, rid) \<in> set rids. table = table_of m (fst rid) \<and> rid \<in> dom (heap m)"
  shows "verify_rids m t rids =
    Inr (\<forall>(table, rid) \<in> set rids. \<not> phantom (tx_read_ts t) (predicates_of t table) (V rid))"
  using assms(3)
proof (induction rids)
  case (Cons w rids)
  obtain table rid where w: "w = (table, rid)" by (cases w)
  then obtain meta base where h: "heap m rid = Some (meta, base)" "table = table_of m (fst rid)" using Cons.prems by auto
  have "verify_rids m t rids = Inr (\<forall>(table, rid) \<in> set rids. \<not> phantom (tx_read_ts t) (predicates_of t table) (V rid))"
    by (rule Cons.IH) (use Cons.prems in auto)
  with verify_record [OF assms(1,2) h(1), of "predicates_of t table"] show ?case
    by (simp add: w GetTupleAndUndoLink_def heap_get_def h GetUndoLink_def)
qed simp

lemma VerifyTxn_ok:
  assumes ok: "mvcc_ok m V" and t: "txn_map m i = Some t" "active t"
  shows "VerifyTxn m t = Inr (tx_write_set t = [] \<or>
    (\<forall>(table, rid) \<in> set (changed_rids m t). \<not> phantom (tx_read_ts t) (predicates_of t table) (V rid)))"
proof -
  have "table = table_of m (fst rid) \<and> rid \<in> dom (heap m)" if c: "(table, rid) \<in> set (changed_rids m t)" for table rid
  proof -
    have "finite (dom (txn_map m))" using txns_okD(1) [OF mvcc_okD(1) [OF ok]] .
    with c obtain j other where "txn_map m j = Some other" "(table, rid) \<in> set (tx_write_set other)"
      by (auto simp: changed_rids_def split: option.splits if_splits)
    with writes_okD [OF mvcc_okD(2) [OF ok]] show ?thesis by blast
  qed
  then have "\<forall>(table, rid) \<in> set (changed_rids m t). table = table_of m (fst rid) \<and> rid \<in> dom (heap m)" by blast
  from verify_rids_ok [OF ok wmark_le_read [OF mvcc_okD(1) [OF ok] t] this] show ?thesis by (simp add: VerifyTxn_def)
qed

text \<open>Hence every commit of a running transaction returns.\<close>

lemma Commit_returns:
  assumes ok: "mvcc_ok m V" and t: "txn_map m i = Some t" "tx_state t = RUNNING" and c: "last_commit_ts m + 1 < TXN_START_ID"
  shows "\<exists>ok' m' t'. Commit m i = Inr (ok', m') \<and>
    mvcc_ok m' (\<lambda>rid. if ok' then stamp i (last_commit_ts m + 1) (V rid) else drop_version i (V rid)) \<and>
    txn_map m' = (txn_map m)(i \<mapsto> t') \<and> tx_state t' = (if ok' then COMMITTED else ABORTED) \<and>
    last_commit_ts m' = last_commit_ts m + of_bool ok' \<and> dom (heap m') = dom (heap m) \<and>
    table_of m' = table_of m \<and> columns_of m' = columns_of m \<and>
    (ok' \<longleftrightarrow> tx_isolation_level t \<noteq> SERIALIZABLE \<or> VerifyTxn m t = Inr True)"
proof -
  have act: "active t" using t(2) by (simp add: active_def)
  show ?thesis
  proof (cases "tx_isolation_level t \<noteq> SERIALIZABLE \<or> VerifyTxn m t = Inr True")
    case True
    then obtain m' t' where "Commit m i = Inr (True, m')" "mvcc_ok m' (\<lambda>rid. stamp i (last_commit_ts m + 1) (V rid))"
      "txn_map m' = (txn_map m)(i \<mapsto> t')" "tx_state t' = COMMITTED" "dom (heap m') = dom (heap m)"
      "last_commit_ts m' = last_commit_ts m + 1" "table_of m' = table_of m" "columns_of m' = columns_of m"
      using Commit_ok [OF ok t c] by blast
    with True show ?thesis by (intro exI [of _ True] exI [of _ m'] exI [of _ t']) simp
  next
    case False
    then have "VerifyTxn m t = Inr False" using VerifyTxn_ok [OF ok t(1) act] by simp
    moreover obtain m' where m': "Abort m i = Inr m'" "mvcc_ok m' (\<lambda>rid. drop_version i (V rid))"
      "txn_map m' = (txn_map m)(i \<mapsto> t\<lparr>tx_state := ABORTED\<rparr>)" "dom (heap m') = dom (heap m)"
      "last_commit_ts m' = last_commit_ts m" "table_of m' = table_of m" "columns_of m' = columns_of m"
      using Abort_ok [OF ok t(1) act] by blast
    ultimately have "Commit m i = Inr (False, m')"
      using False t by (simp add: Commit_def get_txn_def Let_def)
    with m' False show ?thesis
      by (intro exI [of _ False] exI [of _ m'] exI [of _ "t\<lparr>tx_state := ABORTED\<rparr>"]) simp
  qed
qed

end
