(* ===== verification/Mvcc_Props.thy ===== *)
theory Mvcc_Props
  imports Mvcc_Verify
begin

section \<open>Snapshot isolation\<close>

text \<open>
  The runs of the transaction manager: from the empty manager, transactions begin, write, insert,
  record scan predicates, fail with a write conflict, commit and abort, in any interleaving, and
  the garbage collection may run between any two operations. A transaction that writes or commits
  is running and one that aborts is active, as the execution engine and the tests use the manager. The step relation
  names the transaction that takes the step, if any.
\<close>

inductive mvcc_step :: "'v txn_mgr \<Rightarrow> txn_id option \<Rightarrow> 'v txn_mgr \<Rightarrow> bool" where
  step_begin: "Begin m level = Inr (i, m') \<Longrightarrow> mvcc_step m (Some i) m'"
| step_write: "txn_map m i = Some t \<Longrightarrow> tx_state t = RUNNING \<Longrightarrow> heap m rid \<noteq> None \<Longrightarrow>
    \<forall>x. target = Some x \<longrightarrow> length x = cols m rid \<Longrightarrow>
    ModifyTuple m i (table_of m (fst rid)) rid target rd = Inr (ok, m') \<Longrightarrow> mvcc_step m (Some i) m'"
| step_insert: "txn_map m i = Some t \<Longrightarrow> tx_state t = RUNNING \<Longrightarrow> heap m rid = None \<Longrightarrow> length x = cols m rid \<Longrightarrow>
    m' = set_txn i (AppendWriteSet t (table_of m (fst rid)) rid)
      (UpdateInPlace m rid \<lparr>tm_ts = GetTransactionTempTs t, tm_is_deleted = False\<rparr> x) \<Longrightarrow> mvcc_step m (Some i) m'"
| step_conflict: "txn_map m i = Some t \<Longrightarrow> tx_state t = RUNNING \<Longrightarrow> ThrowWriteConflict m i = Inr (ok, m') \<Longrightarrow>
    mvcc_step m (Some i) m'"
| step_scan: "txn_map m i = Some t \<Longrightarrow> active t \<Longrightarrow> m' = set_txn i (AppendScanPredicate t table p) m \<Longrightarrow> mvcc_step m (Some i) m'"
| step_commit: "txn_map m i = Some t \<Longrightarrow> tx_state t = RUNNING \<Longrightarrow> last_commit_ts m + 1 < TXN_START_ID \<Longrightarrow>
    Commit m i = Inr (ok, m') \<Longrightarrow> mvcc_step m (Some i) m'"
| step_abort: "txn_map m i = Some t \<Longrightarrow> active t \<Longrightarrow> Abort m i = Inr m' \<Longrightarrow> mvcc_step m (Some i) m'"
| step_gc: "mvcc_step m None (GarbageCollection m)"

inductive reachable :: "'v txn_mgr \<Rightarrow> bool" where
  reach_init: "reachable (TransactionManager tables columns)"
| reach_step: "reachable m \<Longrightarrow> mvcc_step m a m' \<Longrightarrow> reachable m'"

text \<open>Runs in which transaction \<open>i\<close> takes no step.\<close>

inductive others :: "txn_id \<Rightarrow> 'v txn_mgr \<Rightarrow> 'v txn_mgr \<Rightarrow> bool" for i m where
  others_refl: "others i m m"
| others_step: "others i m m1 \<Longrightarrow> mvcc_step m1 a m2 \<Longrightarrow> a \<noteq> Some i \<Longrightarrow> others i m m2"

subsection \<open>Snapshots of the others\<close>

lemma snapshot_write:
  "r < j \<Longrightarrow> i \<noteq> j \<Longrightarrow> \<not> write_conflict j rj rd vs \<Longrightarrow> rj < i \<Longrightarrow> snapshot i r (write_version j v vs) = snapshot i r vs"
proof (cases vs)
  case (Cons x vs')
  obtain ts u where x: "x = (ts, u)" by (cases x)
  assume "r < j" "i \<noteq> j" "\<not> write_conflict j rj rd vs" "rj < i"
  then show ?thesis by (cases "ts = j"; cases "ts = i") (auto simp: write_conflict_def write_version_def snapshot_def Cons x)
qed (simp add: write_version_def snapshot_def)

lemma snapshot_fresh: "r < j \<Longrightarrow> i \<noteq> j \<Longrightarrow> snapshot i r (write_version j v []) = None"
  by (simp add: write_version_def snapshot_def)

lemma snapshot_stamp: "r < c \<Longrightarrow> r < j \<Longrightarrow> i \<noteq> j \<Longrightarrow> c \<noteq> i \<Longrightarrow> snapshot i r (stamp j c vs) = snapshot i r vs"
  by (cases vs) (auto simp: stamp_def snapshot_def)

lemma snapshot_drop:
  "r < j \<Longrightarrow> i \<noteq> j \<Longrightarrow> i \<noteq> 0 \<Longrightarrow> \<forall>x \<in> set (tl vs). fst x \<noteq> i \<Longrightarrow> snapshot i r (drop_version j vs) = snapshot i r vs"
  by (cases vs; cases "tl vs") (auto simp: drop_version_def snapshot_def)

lemma tail_committed:
  assumes "mvcc_ok m V" "x \<in> set (tl (V rid))"
  shows "0 \<le> fst x" "fst x \<le> last_commit_ts m"
  using mvcc_okD(5) [OF assms(1), of rid] assms(2) by (auto simp: record_ok_def split: option.splits)

definition keeps_others :: "'v txn_mgr \<Rightarrow> (rid \<Rightarrow> 'v version list) \<Rightarrow> txn_id option \<Rightarrow> 'v txn_mgr \<Rightarrow> (rid \<Rightarrow> 'v version list) \<Rightarrow> bool" where
  "keeps_others m V a m' V' \<longleftrightarrow> mvcc_ok m' V' \<and> dom (heap m) \<subseteq> dom (heap m') \<and>
     (\<forall>i t. a \<noteq> Some i \<longrightarrow> txn_map m i = Some t \<longrightarrow> active t \<longrightarrow> txn_map m' i = Some t \<and>
        (\<forall>rid. snapshot i (tx_read_ts t) (V' rid) = snapshot i (tx_read_ts t) (V rid)))"

lemma keeps_othersI:
  assumes ok: "mvcc_ok m V" and j: "txn_map m j = Some tj" and m': "mvcc_ok m' V'" "dom (heap m) \<subseteq> dom (heap m')"
    "txn_map m' = (txn_map m)(j \<mapsto> t')"
    and s: "\<And>i t rid. txn_map m i = Some t \<Longrightarrow> active t \<Longrightarrow> i \<noteq> j \<Longrightarrow> tx_read_ts t < j \<Longrightarrow> tx_read_ts tj < i \<Longrightarrow>
      tx_read_ts t \<le> last_commit_ts m \<Longrightarrow> TXN_START_ID \<le> i \<Longrightarrow>
      snapshot i (tx_read_ts t) (V' rid) = snapshot i (tx_read_ts t) (V rid)"
  shows "keeps_others m V (Some j) m' V'"
proof -
  note p = txns_okD [OF mvcc_okD(1) [OF ok]]
  have "txn_map m' i = Some t \<and> (\<forall>rid. snapshot i (tx_read_ts t) (V' rid) = snapshot i (tx_read_ts t) (V rid))"
    if "Some j \<noteq> Some i" "txn_map m i = Some t" "active t" for i t
    using that s [OF that(2,3)] p(3) p(7) [OF that(2)] p(7) [OF j] by (simp add: m'(3))
  with m'(1,2) show ?thesis unfolding keeps_others_def by blast
qed

lemma write_keeps_others:
  assumes ok: "mvcc_ok m V" and t: "txn_map m j = Some tj" and nc: "\<not> write_conflict j (tx_read_ts tj) rd (V rid)"
    and m': "mvcc_ok m' (V(rid := write_version j v (V rid)))" "touched m j m'"
  shows "keeps_others m V (Some j) m' (V(rid := write_version j v (V rid)))"
proof -
  obtain t' where "txn_map m' = (txn_map m)(j \<mapsto> t')" "dom (heap m) \<subseteq> dom (heap m')" using m'(2) by (auto simp: touched_def)
  then show ?thesis
    by (intro keeps_othersI [OF ok t m'(1)]) (simp_all add: snapshot_write [OF _ _ nc])
qed

lemma self_keeps_others:
  assumes ok: "mvcc_ok m V" and t: "txn_map m j = Some tj" and m': "mvcc_ok (set_txn j t' m) V"
  shows "keeps_others m V (Some j) (set_txn j t' m) V"
  by (rule keeps_othersI [OF ok t m', of t']) (simp_all add: set_txn_def)

lemma step_keeps_others:
  assumes "mvcc_step m a m'" "mvcc_ok m V"
  shows "\<exists>V'. keeps_others m V a m' V'"
  using assms
proof (induction rule: mvcc_step.induct)
  case (step_begin m level i m')
  obtain m1 t where m1: "Begin m level = Inr (next_txn_id m, m1)" "mvcc_ok m1 V" "txn_map m1 = (txn_map m)(next_txn_id m \<mapsto> t)"
    "heap m1 = heap m" using Begin_ok [OF step_begin(2)] by metis
  with step_begin(1) have "i = next_txn_id m" "m' = m1" by simp_all
  with m1 have "keeps_others m V (Some i) m' V" by (simp add: keeps_others_def)
  then show ?case by blast
next
  case (step_write m i t rid target rd ok m')
  note o = step_write(6) step_write(1,2,3,4)
  show ?case
  proof (cases "write_conflict i (tx_read_ts t) rd (V rid)")
    case True
    with ModifyTuple_ok(1) [OF o] step_write(5) have "m' = set_txn i (t\<lparr>tx_state := TAINTED\<rparr>) m" by simp
    then show ?thesis using self_keeps_others [OF o(1,2) ThrowWriteConflict_ok(2) [OF o(1,2,3)]] by blast
  next
    case False
    obtain m1 where m1: "ModifyTuple m i (table_of m (fst rid)) rid target rd = Inr (True, m1)"
      "mvcc_ok m1 (V(rid := write_version i target (V rid)))" "touched m i m1" using ModifyTuple_ok(2) [OF o False] by blast
    with step_write(5) have "m' = m1" by simp
    then show ?thesis using write_keeps_others [OF o(1,2) False m1(2,3)] by blast
  qed
next
  case (step_insert m i t rid x m')
  have "GetTransactionTempTs t = i" using txns_okD(7) [OF mvcc_okD(1) [OF step_insert(6)] step_insert(1)]
    by (simp add: GetTransactionTempTs_def)
  note i = insert_fresh_ok [OF step_insert(6,1-5) [unfolded this]]
  have "\<not> write_conflict i (tx_read_ts t) False (V rid)" by (simp add: i(1) write_conflict_def)
  then show ?case using write_keeps_others [OF step_insert(6,1) _ i(2,3)] by blast
next
  case (step_conflict m i t ok m')
  then have "m' = set_txn i (t\<lparr>tx_state := TAINTED\<rparr>) m" using ThrowWriteConflict_ok(1) [OF step_conflict(4,1,2)] by simp
  then show ?case using self_keeps_others [OF step_conflict(4,1) ThrowWriteConflict_ok(2) [OF step_conflict(4,1,2)]] by blast
next
  case (step_scan m i t m' table p)
  then show ?case using self_keeps_others [OF step_scan(4,1) AppendScanPredicate_ok [OF step_scan(4,1,2)]] by blast
next
  case (step_commit m i t ok m')
  let ?c = "last_commit_ts m + 1" and ?V = "\<lambda>rid. if ok then stamp i (last_commit_ts m + 1) (V rid) else drop_version i (V rid)"
  obtain t' where m': "mvcc_ok m' ?V" "txn_map m' = (txn_map m)(i \<mapsto> t')" "dom (heap m') = dom (heap m)"
    using Commit_returns [OF step_commit(5,1-3)] step_commit(4) by (auto split: if_splits)
  have "keeps_others m V (Some i) m' ?V"
  proof (rule keeps_othersI [OF step_commit(5,1) m'(1) _ m'(2)])
    fix j u rid
    assume j: "txn_map m j = Some u" "active u" "j \<noteq> i" "tx_read_ts u < i" "tx_read_ts u \<le> last_commit_ts m" "TXN_START_ID \<le> j"
    have "snapshot j (tx_read_ts u) (stamp i ?c (V rid)) = snapshot j (tx_read_ts u) (V rid)"
      by (rule snapshot_stamp) (use j step_commit(3) in auto)
    moreover have "snapshot j (tx_read_ts u) (drop_version i (V rid)) = snapshot j (tx_read_ts u) (V rid)"
      by (rule snapshot_drop) (use j step_commit(3) tail_committed(2) [OF step_commit(5)] txns_okD(2) [OF mvcc_okD(1) [OF step_commit(5)]]
        in fastforce)+
    ultimately show "snapshot j (tx_read_ts u) (?V rid) = snapshot j (tx_read_ts u) (V rid)" by simp
  qed (simp add: m'(3))
  then show ?case by blast
next
  case (step_abort m i t m')
  let ?V = "\<lambda>rid. drop_version i (V rid)"
  note p = txns_okD [OF mvcc_okD(1) [OF step_abort(4)]]
  obtain t' where m': "mvcc_ok m' ?V" "txn_map m' = (txn_map m)(i \<mapsto> t')" "dom (heap m') = dom (heap m)"
    using Abort_ok [OF step_abort(4,1,2)] step_abort(3) by auto
  have "keeps_others m V (Some i) m' ?V"
  proof (rule keeps_othersI [OF step_abort(4,1) m'(1) _ m'(2)])
    fix j u rid
    assume j: "txn_map m j = Some u" "j \<noteq> i" "tx_read_ts u < i" "TXN_START_ID \<le> j"
    show "snapshot j (tx_read_ts u) (?V rid) = snapshot j (tx_read_ts u) (V rid)"
      by (rule snapshot_drop) (use j p(2,3) tail_committed(2) [OF step_abort(4)] in fastforce)+
  qed (simp add: m'(3))
  then show ?case by blast
next
  case (step_gc m)
  note g = GarbageCollection_ok [OF step_gc] and s = snapshot_trunc [OF wmark_le_read [OF mvcc_okD(1) [OF step_gc]]]
  have "keeps_others m V None (GarbageCollection m) (\<lambda>rid. trunc (wmark m) (V rid))"
    unfolding keeps_others_def
  proof (intro conjI allI impI)
    fix i t rid assume t: "txn_map m i = Some t" "active t"
    show "txn_map (GarbageCollection m) i = Some t" by (rule g(2) [OF t])
    show "snapshot i (tx_read_ts t) (trunc (wmark m) (V rid)) = snapshot i (tx_read_ts t) (V rid)" by (rule s [OF t])
  qed (use g(1,3) in simp_all)
  then show ?case by blast
qed

lemma init_ok: "mvcc_ok (TransactionManager tables columns) (\<lambda>_. [])"
proof -
  have "reads_at (TransactionManager tables columns :: 'a txn_mgr) = (\<lambda>_. 0)"
    by (simp add: reads_at_def TransactionManager_def fun_eq_iff)
  then show ?thesis
    using tracks_init [of 0]
    by (simp add: mvcc_ok_def txns_ok_def writes_ok_def logs_apart_def record_ok_def TransactionManager_def TXN_START_ID_def
        Watermark_def)
qed

lemma mvcc_reachable_ok: "reachable m \<Longrightarrow> \<exists>V. mvcc_ok m V"
proof (induction rule: reachable.induct)
  case (reach_init tables columns)
  then show ?case using init_ok by blast
next
  case (reach_step m a m')
  then show ?case using step_keeps_others unfolding keeps_others_def by blast
qed

end
