(* ===== verification/Snapshot_Isolation.thy ===== *)
theory Snapshot_Isolation
  imports Mvcc_Props
begin

section \<open>What transactions can rely on\<close>

text \<open>
  The guarantees of the transaction manager, stated on its own states and operations (no version
  lists): repeatable reads, own writes, visibility of commits, aborts without a trace, the first
  updater wins, exact validation, the watermark and the reclaiming of aborted transactions.
\<close>

subsection \<open>Lemmas on version lists\<close>

lemma others_snapshot:
  assumes "others i m m'" and ok: "mvcc_ok m V" and t: "txn_map m i = Some t" "active t"
  shows "\<exists>V'. mvcc_ok m' V' \<and> txn_map m' i = Some t \<and> dom (heap m) \<subseteq> dom (heap m') \<and>
    (\<forall>rid. snapshot i (tx_read_ts t) (V' rid) = snapshot i (tx_read_ts t) (V rid))"
  using assms(1)
proof (induction rule: others.induct)
  case others_refl
  with ok t show ?case by blast
next
  case (others_step m1 a m2)
  then obtain V1 where V1: "mvcc_ok m1 V1" "txn_map m1 i = Some t" "dom (heap m) \<subseteq> dom (heap m1)"
    "\<forall>rid. snapshot i (tx_read_ts t) (V1 rid) = snapshot i (tx_read_ts t) (V rid)" by blast
  obtain V2 where "keeps_others m1 V1 a m2 V2" using step_keeps_others [OF others_step(2) V1(1)] by blast
  then have "mvcc_ok m2 V2" "dom (heap m1) \<subseteq> dom (heap m2)" "txn_map m2 i = Some t"
    "\<forall>rid. snapshot i (tx_read_ts t) (V2 rid) = snapshot i (tx_read_ts t) (V1 rid)"
    using V1(2) t(2) others_step(3) unfolding keeps_others_def by blast+
  with V1(3,4) show ?case by (intro exI [of _ V2]) auto
qed

lemma empty_versions: "mvcc_ok m V \<Longrightarrow> heap m rid = None \<Longrightarrow> V rid = []"
  using mvcc_okD(5) [of m V rid] by (simp add: record_ok_def)

text \<open>What a transaction sees that begins now.\<close>

lemma begin_visible:
  assumes ok: "mvcc_ok m V" and b: "Begin m level = Inr (j, m1)" and h: "heap m rid \<noteq> None"
  shows "visible_tuple m1 j rid = Inr (at_ts (last_commit_ts m) (V rid))"
proof -
  obtain t where m1: "j = next_txn_id m" "mvcc_ok m1 V" "txn_map m1 j = Some t" "tx_read_ts t = last_commit_ts m"
    "tx_state t = RUNNING" "heap m1 = heap m" "txn_map m j = None"
    using Begin_ok [OF ok, of level] b by auto
  have "snapshot j (last_commit_ts m) (V rid) = at_ts (last_commit_ts m) (V rid)"
  proof (cases "V rid = [] \<or> fst (hd (V rid)) \<noteq> j")
    case True
    then show ?thesis by (cases "V rid") (auto simp: snapshot_def)
  next
    case False
    then obtain v vs where hv: "V rid = (j, v) # vs" by (cases "V rid") auto
    obtain meta base where hm: "heap m rid = Some (meta, base)" using h by auto
    have "0 \<le> j \<and> j \<le> last_commit_ts m \<or> pending m rid (V rid)" using record_open [OF ok hm] hv by auto
    then have False
      using m1(1,7) txns_okD(3,4) [OF mvcc_okD(1) [OF ok]] by (auto simp: pending_def hv)
    then show ?thesis ..
  qed
  moreover have "visible_tuple m1 j rid = Inr (snapshot j (last_commit_ts m) (V rid))"
    using visible_snapshot [OF m1(2,3)] m1(4,5,6) h by (simp add: active_def)
  ultimately show ?thesis by simp
qed

lemma at_ts_stamp:
  assumes "mvcc_ok m V" "txn_map m i = Some t" "last_commit_ts m + 1 < TXN_START_ID"
  shows "at_ts (last_commit_ts m + 1) (stamp i (last_commit_ts m + 1) (V rid)) =
    (if V rid \<noteq> [] \<and> fst (hd (V rid)) = i then snapshot i r (V rid) else at_ts (last_commit_ts m) (V rid))"
proof (cases "V rid")
  case (Cons x vs)
  obtain ts v where x: "x = (ts, v)" by (cases x)
  have low: "\<forall>x \<in> set vs. fst x \<le> last_commit_ts m" using tail_committed(2) [OF assms(1), of _ rid] by (simp add: Cons)
  have "at_ts (last_commit_ts m + 1) vs = at_ts (last_commit_ts m) vs" using low by (cases vs) auto
  moreover have "ts \<le> last_commit_ts m \<or> TXN_START_ID \<le> ts"
  proof -
    obtain meta base where hm: "heap m rid = Some (meta, base)"
      using empty_versions [OF assms(1), of rid] Cons by (cases "heap m rid") auto
    have "0 \<le> ts \<and> ts \<le> last_commit_ts m \<or> pending m rid (V rid)" using record_open [OF assms(1) hm] by (auto simp: Cons x)
    then show ?thesis using pending_big [OF mvcc_okD(1) [OF assms(1)], of rid ts v vs] by (auto simp: Cons x)
  qed
  ultimately show ?thesis
    using txns_okD(7) [OF mvcc_okD(1) [OF assms(1)] assms(2)] assms(3)
    by (auto simp: Cons x stamp_def)
qed (simp add: stamp_def)

lemma at_ts_drop:
  assumes "mvcc_ok m V" "txn_map m i = Some t"
  shows "at_ts (last_commit_ts m) (drop_version i (V rid)) = at_ts (last_commit_ts m) (V rid)"
proof -
  have "last_commit_ts m < i" using txns_okD(3,7) [OF mvcc_okD(1) [OF assms(1)]] assms(2) by fastforce
  then show ?thesis by (cases "V rid"; cases "tl (V rid)") (auto simp: drop_version_def)
qed

lemma read_own_write_core:
  assumes "mvcc_ok m V" "txn_map m i = Some t" "tx_state t = RUNNING" "mvcc_ok m' (V(rid := write_version i target (V rid)))"
    "touched m i m'" "heap m rid' \<noteq> None"
  shows "visible_tuple m' i rid' = (if rid' = rid then Inr target else visible_tuple m i rid')"
proof -
  have act: "active t" using assms(3) by (simp add: active_def)
  obtain t' where t': "txn_map m' i = Some t'" "tx_read_ts t' = tx_read_ts t" "active t'" "heap m' rid' \<noteq> None"
    using assms(2,5,6) by (auto simp: touched_def active_def)
  show ?thesis
    using visible_snapshot [OF assms(4) t'(1,3,4)] visible_snapshot [OF assms(1,2) act assms(6)] unfolding t'(2)
    by (simp add: write_version_def)
qed

lemma write_outcome:
  assumes "mvcc_ok m V" "txn_map m i = Some t" "tx_state t = RUNNING" "heap m rid \<noteq> None"
    "\<forall>x. target = Some x \<longrightarrow> length x = cols m rid" "ModifyTuple m i (table_of m (fst rid)) rid target rd = Inr (True, m')"
  shows "mvcc_ok m' (V(rid := write_version i target (V rid)))" "touched m i m'"
proof -
  have "\<not> write_conflict i (tx_read_ts t) rd (V rid)" using ModifyTuple_ok(1) [OF assms(1-5)] assms(6) by auto
  from ModifyTuple_ok(2) [OF assms(1-5) this] assms(6)
  show "mvcc_ok m' (V(rid := write_version i target (V rid)))" "touched m i m'" by auto
qed

subsection \<open>Reading\<close>

text \<open>C9: Repeatable reads: whatever other transactions do (write, commit, abort) and whatever the
  garbage collection frees, an active transaction's read of a record always returns (it never runs
  into a missing undo log) and always yields the same value; a record inserted by others since
  is invisible to it.\<close>

theorem repeatable_read:
  assumes "reachable m" "txn_map m i = Some t" "active t" "others i m m'" "heap m' rid \<noteq> None"
  shows "\<exists>v. visible_tuple m' i rid = Inr v \<and> (if heap m rid = None then v = None else visible_tuple m i rid = Inr v)"
proof -
  obtain V where V: "mvcc_ok m V" using mvcc_reachable_ok [OF assms(1)] by blast
  obtain V' where V': "mvcc_ok m' V'" "txn_map m' i = Some t"
    "snapshot i (tx_read_ts t) (V' rid) = snapshot i (tx_read_ts t) (V rid)"
    using others_snapshot [OF assms(4) V assms(2,3)] by blast
  show ?thesis
    using visible_snapshot [OF V'(1,2) assms(3,5)] visible_snapshot [OF V assms(2,3), of rid] V'(3) empty_versions [OF V, of rid]
    by auto
qed

text \<open>A transaction reads its own writes: after a successful write it sees the value it wrote, and
  every other record as before.\<close>

theorem read_own_write:
  assumes "reachable m" "txn_map m i = Some t" "tx_state t = RUNNING" "heap m rid \<noteq> None"
    "\<forall>x. target = Some x \<longrightarrow> length x = columns_of m (table_of m (fst rid))"
    "ModifyTuple m i (table_of m (fst rid)) rid target rd = Inr (True, m')" "heap m rid' \<noteq> None"
  shows "visible_tuple m' i rid' = (if rid' = rid then Inr target else visible_tuple m i rid')"
proof -
  obtain V where V: "mvcc_ok m V" using mvcc_reachable_ok [OF assms(1)] by blast
  show ?thesis by (rule read_own_write_core [OF V assms(2,3) write_outcome [OF V assms(2-6)] assms(7)])
qed

text \<open>C11: A commit publishes exactly the writer's versions: a transaction that begins after a successful
  commit sees, for the records the committer wrote, what the committer saw, and for every other
  record what a transaction that began before the commit would see.\<close>

theorem commit_visible:
  assumes "reachable m" "txn_map m i = Some t" "tx_state t = RUNNING" "last_commit_ts m + 1 < TXN_START_ID"
    "Commit m i = Inr (True, m1)" "Begin m1 level = Inr (j, m2)" "Begin m level = Inr (j0, m0)" "heap m rid = Some (meta, base)"
  shows "visible_tuple m2 j rid = (if tm_ts meta = i then visible_tuple m i rid else visible_tuple m0 j0 rid)"
proof -
  obtain V where V: "mvcc_ok m V" using mvcc_reachable_ok [OF assms(1)] by blast
  have h: "heap m rid \<noteq> None" using assms(8) by simp
  have m1: "mvcc_ok m1 (\<lambda>rid. stamp i (last_commit_ts m + 1) (V rid))" "last_commit_ts m1 = last_commit_ts m + 1"
    "dom (heap m1) = dom (heap m)"
    using Commit_returns [OF V assms(2-4)] assms(5) by (auto split: if_splits)
  have h1: "heap m1 rid \<noteq> None" using m1(3) h by (metis domIff)
  obtain v vs where vs: "V rid = (tm_ts meta, v) # vs" using record_open [OF V assms(8)] by metis
  show ?thesis
    using begin_visible [OF m1(1) assms(6) h1] begin_visible [OF V assms(7) h] visible_snapshot [OF V assms(2) _ h] assms(3)
      at_ts_stamp [OF V assms(2,4), of rid "tx_read_ts t"]
    unfolding m1(2) by (auto simp: active_def vs)
qed

text \<open>C12: An abort leaves no trace: it always succeeds on an active transaction, and a transaction that begins
  after it sees exactly what it would have seen had it begun before.\<close>

theorem abort_no_trace:
  assumes "reachable m" "txn_map m i = Some t" "active t" "Begin m level = Inr (j0, m0)" "heap m rid \<noteq> None"
  shows "\<exists>m1 m2. Abort m i = Inr m1 \<and> Begin m1 level = Inr (next_txn_id m1, m2) \<and>
    visible_tuple m2 (next_txn_id m1) rid = visible_tuple m0 j0 rid"
proof -
  obtain V where V: "mvcc_ok m V" using mvcc_reachable_ok [OF assms(1)] by blast
  obtain m1 where m1: "Abort m i = Inr m1" "mvcc_ok m1 (\<lambda>rid. drop_version i (V rid))" "dom (heap m1) = dom (heap m)"
    "last_commit_ts m1 = last_commit_ts m"
    using Abort_ok [OF V assms(2,3)] by blast
  obtain m2 where m2: "Begin m1 level = Inr (next_txn_id m1, m2)" using Begin_ok [OF m1(2), of level] by auto
  have "heap m1 rid \<noteq> None" using m1(3) assms(5) by (metis domIff)
  then have "visible_tuple m2 (next_txn_id m1) rid = visible_tuple m0 j0 rid"
    using begin_visible [OF m1(2) m2] begin_visible [OF V assms(4,5)] at_ts_drop [OF V assms(2)] by (simp add: m1(4))
  with m1(1) m2 show ?thesis by blast
qed

subsection \<open>Writing\<close>

lemma touched_other: "touched m i m' \<Longrightarrow> i \<noteq> j \<Longrightarrow> txn_map m' j = txn_map m j"
  by (auto simp: touched_def)

text \<open>C10: The first updater wins: once a transaction has written a record, every write to that record by
  another transaction that is running conflicts, both while the first one is uncommitted and after it has
  committed, so that no update is lost.\<close>

theorem first_updater_wins:
  assumes "reachable m" "txn_map m i = Some t" "tx_state t = RUNNING" "txn_map m j = Some u" "tx_state u = RUNNING" "i \<noteq> j"
    "heap m rid \<noteq> None" "\<forall>x. target = Some x \<longrightarrow> length x = columns_of m (table_of m (fst rid))"
    "\<forall>x. target' = Some x \<longrightarrow> length x = columns_of m (table_of m (fst rid))" "last_commit_ts m + 1 < TXN_START_ID"
    "ModifyTuple m i (table_of m (fst rid)) rid target rd = Inr (True, m1)"
  shows "(\<exists>m2. ModifyTuple m1 j (table_of m (fst rid)) rid target' rd' = Inr (False, m2)) \<and>
    (\<forall>m2. Commit m1 i = Inr (True, m2) \<longrightarrow>
      (\<exists>m3. ModifyTuple m2 j (table_of m (fst rid)) rid target' rd' = Inr (False, m3)))"
proof -
  obtain V where V: "mvcc_ok m V" using mvcc_reachable_ok [OF assms(1)] by blast
  note w = write_outcome [OF V assms(2,3,7,8,11)] and p = txns_okD [OF mvcc_okD(1) [OF V]]
  let ?V = "V(rid := write_version i target (V rid))"
  obtain t1 where m1: "txn_map m1 i = Some t1" "tx_state t1 = RUNNING" "dom (heap m) \<subseteq> dom (heap m1)" "table_of m1 = table_of m"
    "columns_of m1 = columns_of m" "last_commit_ts m1 = last_commit_ts m"
    using w(2) by (auto simp: touched_def)
  have u1: "txn_map m1 j = Some u" using touched_other [OF w(2) assms(6)] assms(4) by simp
  have h1: "heap m1 rid \<noteq> None" using m1(3) assms(7) by (metis domIff subsetD)
  have i: "TXN_START_ID \<le> i" "TXN_START_ID \<le> j" "tx_read_ts u \<le> last_commit_ts m" using p(7) [OF assms(2)] p(7) [OF assms(4)] by simp_all
  have "write_conflict j (tx_read_ts u) rd' (?V rid)"
    using i(1,3) p(3) assms(6) by (simp add: write_conflict_def write_version_def)
  with ModifyTuple_ok(1) [OF w(1) u1 assms(5) h1] assms(9)
  have "\<exists>m2. ModifyTuple m1 j (table_of m (fst rid)) rid target' rd' = Inr (False, m2)" by (simp add: m1(4,5))
  moreover have "\<exists>m3. ModifyTuple m2 j (table_of m (fst rid)) rid target' rd' = Inr (False, m3)"
    if c: "Commit m1 i = Inr (True, m2)" for m2
  proof -
    have "last_commit_ts m1 + 1 < TXN_START_ID" using assms(10) m1(6) by simp
    from Commit_returns [OF w(1) m1(1,2) this] c obtain t2
      where m2: "mvcc_ok m2 (\<lambda>rid. stamp i (last_commit_ts m1 + 1) (?V rid))"
      "txn_map m2 = (txn_map m1)(i \<mapsto> t2)" "dom (heap m2) = dom (heap m1)" "table_of m2 = table_of m1" "columns_of m2 = columns_of m1"
      by (auto split: if_splits)
    have "heap m2 rid \<noteq> None" using h1 m2(3) by (metis domIff)
    moreover have "txn_map m2 j = Some u" using u1 assms(6) m2(2) by simp
    moreover have "write_conflict j (tx_read_ts u) rd' (stamp i (last_commit_ts m1 + 1) (?V rid))"
      using i assms(10) by (simp add: write_conflict_def write_version_def stamp_def m1(6))
    ultimately show ?thesis
      using ModifyTuple_ok(1) [OF m2(1) _ assms(5), of j rid target' rd'] assms(9) by (simp add: m2(4,5) m1(4,5))
  qed
  ultimately show ?thesis by blast
qed

text \<open>What an insertion does: it ends in a conflict, or it puts the tuple into a record that the inserter saw
  as empty before, and nothing else it sees changes.\<close>

definition tainted :: "'v txn_mgr \<Rightarrow> txn_id \<Rightarrow> bool" where
  "tainted m i \<longleftrightarrow> reachable m \<and> (\<exists>t. txn_map m i = Some t \<and> tx_state t = TAINTED)"

definition running :: "'v txn_mgr \<Rightarrow> txn_id \<Rightarrow> bool" where
  "running m i \<longleftrightarrow> reachable m \<and> (\<exists>t. txn_map m i = Some t \<and> tx_state t = RUNNING)"

text \<open>What the transaction sees of a record, nothing when there is no record.\<close>

definition seen :: "'v txn_mgr \<Rightarrow> txn_id \<Rightarrow> rid \<Rightarrow> 'v list option" where
  "seen m i rid = (case visible_tuple m i rid of Inr v \<Rightarrow> v | Inl e \<Rightarrow> None)"

definition wrote :: "'v txn_mgr \<Rightarrow> txn_id \<Rightarrow> rid \<Rightarrow> 'v list option \<Rightarrow> 'v txn_mgr \<Rightarrow> bool" where
  "wrote m i rid target m' \<longleftrightarrow> running m' i \<and> dom (heap m') = insert rid (dom (heap m)) \<and> table_of m' = table_of m \<and>
     columns_of m' = columns_of m \<and> (\<forall>r. seen m' i r = (if r = rid then target else seen m i r))"

lemma seen_absent: "heap m rid = None \<Longrightarrow> seen m i rid = None"
  by (auto simp: seen_def visible_tuple_def GetTupleAndUndoLink_def heap_get_def get_txn_def split: option.splits)

lemma seen_visible: "running m i \<Longrightarrow> heap m rid \<noteq> None \<Longrightarrow> visible_tuple m i rid = Inr (seen m i rid)"
proof -
  assume "running m i" "heap m rid \<noteq> None"
  moreover obtain t V where "txn_map m i = Some t" "tx_state t = RUNNING" "mvcc_ok m V"
    using \<open>running m i\<close> mvcc_reachable_ok [of m] by (auto simp: running_def)
  ultimately show ?thesis using visible_snapshot [of m V i t rid] by (simp add: seen_def active_def)
qed

lemma seen_snapshot:
  assumes "mvcc_ok m V" "txn_map m i = Some t" "tx_state t = RUNNING"
  shows "seen m i rid = snapshot i (tx_read_ts t) (V rid)"
proof (cases "heap m rid")
  case None
  with seen_absent [of m rid i] empty_versions [OF assms(1), of rid] show ?thesis by simp
next
  case (Some x)
  then show ?thesis using visible_snapshot [OF assms(1,2), of rid] assms(3) by (simp add: seen_def active_def)
qed

lemma wroteI:
  assumes V: "mvcc_ok m V" and t: "txn_map m i = Some t" "tx_state t = RUNNING" and rc: "reachable m'"
    and m': "mvcc_ok m' (V(rid := write_version i target (V rid)))" "touched m i m'" "dom (heap m') = insert rid (dom (heap m))"
  shows "wrote m i rid target m'"
proof -
  obtain t' where t': "txn_map m' i = Some t'" "tx_read_ts t' = tx_read_ts t" "tx_state t' = RUNNING" "table_of m' = table_of m"
      "columns_of m' = columns_of m"
    using t(1) m'(2) by (auto simp: touched_def)
  have "seen m' i r = (if r = rid then target else seen m i r)" for r
    using seen_snapshot [OF m'(1) t'(1,3), of r] seen_snapshot [OF V t, of r] by (simp add: t'(2) write_version_def)
  with rc t' m'(3) show ?thesis by (auto simp: wrote_def running_def)
qed

lemma taint_result:
  assumes "running m i"
  shows "\<exists>m'. ThrowWriteConflict m i = Inr (False, m') \<and> tainted m' i"
proof -
  obtain t where t: "txn_map m i = Some t" "tx_state t = RUNNING" "reachable m" using assms by (auto simp: running_def)
  obtain V where V: "mvcc_ok m V" using mvcc_reachable_ok [OF t(3)] by blast
  show ?thesis
    using ThrowWriteConflict_ok(1) [OF V t(1,2)] reach_step [OF t(3) step_conflict [OF t(1,2)]] by (auto simp: tainted_def set_txn_def)
qed

lemma ModifyTuple_dom: "ModifyTuple m i table rid target rd = Inr (True, m') \<Longrightarrow> dom (heap m') = insert rid (dom (heap m))"
proof -
  assume m': "ModifyTuple m i table rid target rd = Inr (True, m')"
  have throw: "ThrowWriteConflict m i \<noteq> Inr (True, m')" by (auto simp: ThrowWriteConflict_def)
  obtain t meta base where "get_txn m i = Inr t" "heap_get m rid = Inr (meta, base)"
    using m' by (cases "get_txn m i"; cases "heap_get m rid") (auto simp: ModifyTuple_def)
  with m' throw show ?thesis unfolding ModifyTuple_def Let_def
    by (simp only: rbind_simps prod.case split: if_split_asm)
      ((erule rbind_InrE | blast), (clarsimp simp: UpdateInPlace_def UpdateUndoLink_def set_txn_def)?)+
qed

lemma modify_result:
  assumes "running m i" "heap m rid \<noteq> None" "table_of m (fst rid) = table" "\<forall>x. target = Some x \<longrightarrow> length x = columns_of m table"
  shows "(\<exists>m'. ModifyTuple m i table rid target rd = Inr (False, m') \<and> tainted m' i) \<or>
    (\<exists>m'. ModifyTuple m i table rid target rd = Inr (True, m') \<and> wrote m i rid target m' \<and> (rd \<longrightarrow> seen m i rid = None))"
proof -
  obtain t where t: "txn_map m i = Some t" "tx_state t = RUNNING" "reachable m" using assms(1) by (auto simp: running_def)
  obtain V where V: "mvcc_ok m V" using mvcc_reachable_ok [OF t(3)] by blast
  have tgt: "\<forall>x. target = Some x \<longrightarrow> length x = cols m rid" using assms(3,4) by simp
  note mt = ModifyTuple_ok [OF V t(1,2) assms(2) tgt, of rd, unfolded assms(3)]
  note rc = reach_step [OF t(3) step_write [OF t(1,2) assms(2) tgt], unfolded assms(3)]
  show ?thesis
  proof (cases "write_conflict i (tx_read_ts t) rd (V rid)")
    case True
    with mt(1) rc [OF mt(1)] show ?thesis by (auto simp: tainted_def set_txn_def)
  next
    case False
    then obtain m' where m': "ModifyTuple m i table rid target rd = Inr (True, m')"
      "mvcc_ok m' (V(rid := write_version i target (V rid)))" "touched m i m'" using mt(2) by blast
    have "seen m i rid = None" if rd
      using False that seen_snapshot [OF V t(1,2), of rid] by (cases "V rid") (auto simp: write_conflict_def split: if_splits)
    with m'(1) wroteI [OF V t(1,2) rc [OF m'(1)] m'(2,3) ModifyTuple_dom [OF m'(1)]] show ?thesis by blast
  qed
qed

lemma first_hit_mem: "first_hit f is = Some rid \<Longrightarrow> \<exists>ix \<in> set is. rid \<in> set (f ix)"
  by (induction "is") (auto split: list.splits)

lemma insert_result:
  assumes "running m i" "length x = columns_of m table"
    "\<forall>ix \<in> set indexes. \<forall>r \<in> set (scan_key ix x). heap m r \<noteq> None \<and> table_of m (fst r) = table"
    "\<forall>r. fresh = Some r \<longrightarrow> heap m r = None \<and> table_of m (fst r) = table"
  shows "(\<exists>indexes' m'. InsertTupleMvcc scan_key insert_entry fresh indexes m i table x = Inr (False, indexes', m') \<and> tainted m' i) \<or>
    (\<exists>rid indexes' m'. InsertTupleMvcc scan_key insert_entry fresh indexes m i table x = Inr (True, indexes', m') \<and>
       table_of m (fst rid) = table \<and> seen m i rid = None \<and> wrote m i rid (Some x) m' \<and>
       (indexes' = indexes \<or> insert_entries (\<lambda>ix r. insert_entry ix x r) rid indexes = (True, indexes')))"
proof (cases "first_hit (\<lambda>ix. scan_key ix x) indexes")
  case (Some rid)
  with assms(3) have r: "heap m rid \<noteq> None" "table_of m (fst rid) = table" using first_hit_mem by blast+
  have "\<forall>y. Some x = Some y \<longrightarrow> length y = columns_of m table" using assms(2) by simp
  from modify_result [OF assms(1) r this, of True] show ?thesis
  proof (elim disjE exE conjE)
    fix m' assume "ModifyTuple m i table rid (Some x) True = Inr (True, m')" "wrote m i rid (Some x) m'" "True \<longrightarrow> seen m i rid = None"
    with r(2) show ?thesis by (intro disjI2 exI [of _ rid] exI [of _ indexes] exI [of _ m']) (simp add: InsertTupleMvcc_def Some)
  qed (auto simp: InsertTupleMvcc_def Some)
next
  case None
  obtain t where t: "txn_map m i = Some t" "tx_state t = RUNNING" "reachable m" using assms(1) by (auto simp: running_def)
  obtain V where V: "mvcc_ok m V" using mvcc_reachable_ok [OF t(3)] by blast
  have id: "GetTransactionTempTs t = i" using txns_okD(7) [OF mvcc_okD(1) [OF V] t(1)] by (simp add: GetTransactionTempTs_def)
  show ?thesis
  proof (cases fresh)
    case none: None
    with taint_result [OF assms(1)] show ?thesis by (auto simp: InsertTupleMvcc_def None)
  next
    case (Some rid)
    have r: "heap m rid = None" "table_of m (fst rid) = table" "length x = cols m rid" using assms(2,4) Some by simp_all
    define m1 where "m1 = set_txn i (AppendWriteSet t (table_of m (fst rid)) rid)
        (UpdateInPlace m rid \<lparr>tm_ts = i, tm_is_deleted = False\<rparr> x)"
    note f = insert_fresh_ok [OF V t(1,2) r(1,3) m1_def]
    have rc: "reachable m1" by (rule reach_step [OF t(3) step_insert [OF t(1,2) r(1,3)]]) (simp add: m1_def id(1))
    have w: "wrote m i rid (Some x) m1" by (rule wroteI [OF V t(1,2) rc f(2,3)]) (simp add: m1_def set_txn_def UpdateInPlace_def)
    obtain oks indexes1 where ie: "insert_entries (\<lambda>ix r. insert_entry ix x r) rid indexes = (oks, indexes1)" by force
    have run: "InsertTupleMvcc scan_key insert_entry fresh indexes m i table x =
        (if oks then Inr (True, indexes1, m1) else rbind (ThrowWriteConflict m1 i) (\<lambda>(ok, m3). Inr (ok, indexes1, m3)))"
      using ie by (simp add: InsertTupleMvcc_def None Some get_txn_def t(1) m1_def id(1) r(2))
    show ?thesis
    proof (cases oks)
      case True
      with run w ie r(2) seen_absent [OF r(1)] show ?thesis
        by (intro disjI2 exI [of _ rid] exI [of _ indexes1] exI [of _ m1]) simp
    next
      case False
      with run taint_result [of m1 i] w show ?thesis by (auto simp: wrote_def)
    qed
  qed
qed

text \<open>Inserting through the indexes always returns: either the tuple is visible to the inserter afterwards,
  in a record of the table (a slot of its own, or a deleted record with the same key that is
  taken over), or the transaction is tainted by a write conflict. The state it leaves is reachable.\<close>

theorem insert_outcome:
  assumes "reachable m" "txn_map m i = Some t" "tx_state t = RUNNING" "length x = columns_of m table"
    "\<forall>ix \<in> set indexes. \<forall>r \<in> set (scan_key ix x). heap m r \<noteq> None \<and> table_of m (fst r) = table"
    "\<forall>r. fresh = Some r \<longrightarrow> heap m r = None \<and> table_of m (fst r) = table"
  shows "\<exists>ok indexes' m'. InsertTupleMvcc scan_key insert_entry fresh indexes m i table x = Inr (ok, indexes', m') \<and>
    reachable m' \<and> (if ok then \<exists>rid. table_of m' (fst rid) = table \<and> visible_tuple m' i rid = Inr (Some x)
                    else \<exists>t'. txn_map m' i = Some t' \<and> tx_state t' = TAINTED)"
proof -
  have run: "running m i" using assms(1-3) by (auto simp: running_def)
  have good: ?thesis
    if a: "InsertTupleMvcc scan_key insert_entry fresh indexes m i table x = Inr (True, indexes', m')" "wrote m i rid (Some x) m'"
      "table_of m (fst rid) = table" for rid indexes' m'
  proof -
    have "rid \<in> dom (heap m')" using a(2) by (simp add: wrote_def)
    then have "heap m' rid \<noteq> None" by blast
    moreover have "seen m' i rid = Some x" using a(2) by (simp add: wrote_def del: split_paired_All)
    ultimately have v: "visible_tuple m' i rid = Inr (Some x)" using seen_visible [of m' i rid] a(2) by (simp add: wrote_def)
    have w: "reachable m'" "table_of m' (fst rid) = table" using a(2,3) by (simp_all add: wrote_def running_def)
    show ?thesis
      by (rule exI [of _ True], rule exI [of _ indexes'], rule exI [of _ m'], simp only: if_True) (intro conjI a(1) w(1) exI [of _ rid] w(2) v)
  qed
  have bad: ?thesis
    if a: "InsertTupleMvcc scan_key insert_entry fresh indexes m i table x = Inr (False, indexes', m')" "tainted m' i" for indexes' m'
    by (rule exI [of _ False], rule exI [of _ indexes'], rule exI [of _ m']) (simp add: a(1) a(2) [unfolded tainted_def])
  from insert_result [where scan_key = scan_key and insert_entry = insert_entry, OF run assms(4-6)] show ?thesis
    by (elim disjE exE conjE) (erule bad good, assumption+)+
qed

subsection \<open>Undo logs\<close>

text \<open>C14: Undo logs invert writes: the log of a first write takes the new tuple back to the old one, and after
  a second write in the same transaction the updated log still does, for inserts, deletes and updates
  of any columns.\<close>

theorem undo_log_roundtrip:
  assumes "\<forall>x \<in> {old, new, newer}. \<forall>y. x = Some y \<longrightarrow> length y = n" "length cur = n" "length cur' = n"
    "\<forall>y. new = Some y \<longrightarrow> cur = y" "\<forall>y. newer = Some y \<longrightarrow> cur' = y"
    "log = GenerateNewUndoLog n old new ts prev"
  shows "ReconstructTuple n cur \<lparr>tm_ts = w, tm_is_deleted = (new = None)\<rparr> [log] = old \<and>
    ReconstructTuple n cur' \<lparr>tm_ts = w, tm_is_deleted = (newer = None)\<rparr> [GenerateUpdatedUndoLog n new newer log] = old"
proof
  have r: "restores n log new old" unfolding assms(6) by (rule new_log_restores) (use assms(1) in auto)
  have r': "restores n (GenerateUpdatedUndoLog n new newer log) newer old"
    by (rule updated_log_restores(1) [OF r]) (use assms(1) in auto)
  have undo: "ReconstructTuple n c \<lparr>tm_ts = w, tm_is_deleted = (v = None)\<rparr> [l] = old"
    if "restores n l v old" "length c = n" "\<forall>y. v = Some y \<longrightarrow> c = y" for c v l
  proof (rule Reconstruct_rep [OF that(2)])
    show "rep n (undo_fields (ul_modified_fields l) c (ul_tuple l)) (ul_is_deleted l) old"
      by (rule undo_rep [of _ _ "v = None", OF _ that(1)]) (use that(2,3) in \<open>simp add: rep_def\<close>)
  qed (simp add: undo_step_def)
  show "ReconstructTuple n cur \<lparr>tm_ts = w, tm_is_deleted = (new = None)\<rparr> [log] = old" by (rule undo [OF r assms(2,4)])
  show "ReconstructTuple n cur' \<lparr>tm_ts = w, tm_is_deleted = (newer = None)\<rparr> [GenerateUpdatedUndoLog n new newer log] = old"
    by (rule undo [OF r' assms(3,5)])
qed

subsection \<open>Validation\<close>


subsection \<open>The watermark and garbage collection\<close>

text \<open>C15: The watermark is the oldest snapshot in use: in every reachable state it is the least read timestamp of
  the active transactions, and the last commit timestamp when there is none.\<close>

theorem watermark_oldest_snapshot:
  assumes "reachable m"
  shows "GetWatermark (running_txns m) =
    (let reads = {tx_read_ts t | t. t \<in> ran (txn_map m) \<and> active t}
     in if reads = {} then last_commit_ts m else Min reads)"
proof -
  obtain V where V: "mvcc_ok m V" using mvcc_reachable_ok [OF assms] by blast
  note p = txns_okD [OF mvcc_okD(1) [OF V]]
  have "{r. 0 < reads_at m r} = {tx_read_ts t | t. t \<in> ran (txn_map m) \<and> active t}"
  proof -
    have "0 < reads_at m r \<longleftrightarrow> (\<exists>i t. txn_map m i = Some t \<and> active t \<and> tx_read_ts t = r)" for r
      using cnt_0_iff [OF p(1), of "\<lambda>t. active t \<and> tx_read_ts t = r"] unfolding reads_at_def by auto
    then show ?thesis by (auto simp: ran_def)
  qed
  then show ?thesis by (simp only: GetWatermark_tracks [OF p(5)] p(6) Let_def)
qed

lemma needed_own:
  "chain m n wm ((ts, v) # vs) l \<Longrightarrow> wm < ts \<Longrightarrow> \<forall>x \<in> fst ` set ((ts, v) # vs). TXN_START_ID \<le> x \<longrightarrow> (\<exists>u. txn_map m x = Some u \<and> active u) \<Longrightarrow>
   j \<in> set (needed_txns fuel m wm l) \<Longrightarrow> \<exists>u. txn_map m j = Some u \<and> tx_state u \<noteq> ABORTED"
proof (induction vs arbitrary: ts v l fuel)
  case Nil
  then show ?case by (cases fuel) (auto split: option.splits)
next
  case (Cons x vs)
  obtain ts' v' where x: "x = (ts', v')" by (cases x)
  obtain f where f: "fuel = Suc f" using Cons.prems(4) by (cases fuel) auto
  obtain k log where k: "l = Some k" "IsValid k" "own m ts k" "lookup m k = Some log" "ul_ts log = ts'"
    "chain m n wm ((ts', v') # vs) (Some (ul_prev_version log))"
    using Cons.prems(1) unfolding x by auto
  have "j = prev_txn k \<or> wm < ts' \<and> j \<in> set (needed_txns f m wm (Some (ul_prev_version log)))"
    using Cons.prems(4) lookup_log [OF k(4)] by (auto simp: f k(1,2,5) split: if_splits)
  then show ?case
  proof
    assume "j = prev_txn k"
    then show ?thesis using k(3) Cons.prems(3) by (auto simp: own_def active_def split: if_splits)
  next
    assume "wm < ts' \<and> j \<in> set (needed_txns f m wm (Some (ul_prev_version log)))"
    then show ?thesis using Cons.IH [OF k(6), of f] Cons.prems(3) by (simp add: x)
  qed
qed

text \<open>C16: Garbage collection reclaims every aborted transaction, keeps every active one, and the transactions it
  keeps are unchanged: in every reachable state no version chain needs an aborted transaction.\<close>

theorem gc_reclaims_aborted:
  assumes "reachable m" "txn_map m i = Some t"
  shows "(tx_state t = ABORTED \<longrightarrow> txn_map (GarbageCollection m) i = None) \<and>
    (active t \<longrightarrow> txn_map (GarbageCollection m) i = Some t) \<and> txn_map (GarbageCollection m) i \<in> {None, Some t}"
proof -
  obtain V where V: "mvcc_ok m V" using mvcc_reachable_ok [OF assms(1)] by blast
  have "i \<notin> needed m (wmark m)" if ab: "tx_state t = ABORTED"
  proof
    assume "i \<in> needed m (wmark m)"
    then obtain rid meta base where n: "heap m rid = Some (meta, base)" "wmark m < tm_ts meta"
      "i \<in> set (needed_txns (log_fuel m) m (wmark m) (version_info m rid))"
      by (auto simp: needed_def GetUndoLink_def split: option.splits if_splits)
    obtain vs where vs: "V rid = (tm_ts meta, if tm_is_deleted meta then None else Some base) # vs"
      "chain m (cols m rid) (wmark m) (V rid) (version_info m rid)" "\<forall>x \<in> set vs. 0 \<le> fst x \<and> fst x \<le> last_commit_ts m"
      "0 \<le> tm_ts meta \<and> tm_ts meta \<le> last_commit_ts m \<or> pending m rid (V rid)"
      by (rule record_open [OF V n(1)])
    have "\<exists>u. txn_map m x = Some u \<and> active u" if "x \<in> fst ` set (V rid)" "TXN_START_ID \<le> x" for x
    proof -
      have "last_commit_ts m < x" using that(2) txns_okD(3) [OF mvcc_okD(1) [OF V]] by simp
      then have "x = tm_ts meta" using that(1) vs(3) by (auto simp: vs(1))
      then have "pending m rid (V rid)" using vs(4) \<open>last_commit_ts m < x\<close> by simp
      then show ?thesis using \<open>x = tm_ts meta\<close> by (auto simp: pending_def vs(1))
    qed
    then have "\<exists>u. txn_map m i = Some u \<and> tx_state u \<noteq> ABORTED"
      using needed_own [OF vs(2) [unfolded vs(1)] n(2) _ n(3)] unfolding vs(1) by blast
    with assms(2) ab show False by simp
  qed
  then show ?thesis
    using GarbageCollection_ok(2) [OF V assms(2)] assms(2) by (auto simp: GarbageCollection_def Let_def)
qed

end
