(* ===== verification/Snapshot_Witnesses.thy ===== *)
theory Snapshot_Witnesses
  imports Snapshot_Isolation
begin

section \<open>A history\<close>

text \<open>
  The properties of \<open>Snapshot_Isolation\<close> at a concrete history: one transaction inserts the row
  [5] and commits, two others begin, and one of them updates the row to [7] and commits.
\<close>

abbreviation T0 :: txn_id where "T0 \<equiv> 4611686018427387904"
abbreviation T1 :: txn_id where "T1 \<equiv> 4611686018427387905"
abbreviation T2 :: txn_id where "T2 \<equiv> 4611686018427387906"

definition ex_txn :: "txn_state \<Rightarrow> int \<Rightarrow> int \<Rightarrow> int undo_log list \<Rightarrow> (oid \<times> rid) list \<Rightarrow> txn_id \<Rightarrow> int txn" where
  "ex_txn st r c logs ws i = \<lparr>tx_state = st, tx_read_ts = r, tx_commit_ts = c, tx_undo_logs = logs, tx_write_set = ws,
     tx_scan_predicates = [], tx_isolation_level = SNAPSHOT_ISOLATION, tx_txn_id = i\<rparr>"

definition ex_mgr ::
    "(txn_id \<rightharpoonup> int txn) \<Rightarrow> (rid \<rightharpoonup> undo_link) \<Rightarrow> int \<Rightarrow> int \<Rightarrow> (int \<rightharpoonup> int) \<Rightarrow> int set \<Rightarrow> txn_id \<Rightarrow> (rid \<rightharpoonup> tuple_meta \<times> int list) \<Rightarrow> int txn_mgr" where
  "ex_mgr txns links c wm reads ts next hp = \<lparr>txn_map = txns, version_info = links,
     running_txns = \<lparr>wm_commit_ts = c, wm_watermark = wm, wm_current_reads = reads, wm_read_timestamps = ts\<rparr>,
     last_commit_ts = c, next_txn_id = next, heap = hp, table_of = (\<lambda>_. 0), columns_of = (\<lambda>_. 1)\<rparr>"

definition mv1 where "mv1 = ex_mgr [T0 \<mapsto> ex_txn RUNNING 0 (-1) [] [] T0] Map.empty 0 0 [0 \<mapsto> 1] {0} T1 Map.empty"
definition mv2 where "mv2 = ex_mgr [T0 \<mapsto> ex_txn RUNNING 0 (-1) [] [(0, (0, 0))] T0] Map.empty 0 0 [0 \<mapsto> 1] {0} T1
   [(0, 0) \<mapsto> (\<lparr>tm_ts = T0, tm_is_deleted = False\<rparr>, [5])]"
abbreviation "mv_t \<equiv> ex_txn COMMITTED 0 1 [] [(0, (0, 0))] T0"
definition mv3 where "mv3 = ex_mgr [T0 \<mapsto> mv_t] Map.empty 1 1 Map.empty {} T1
   [(0, 0) \<mapsto> (\<lparr>tm_ts = 1, tm_is_deleted = False\<rparr>, [5])]"
definition mv4 where "mv4 = ex_mgr [T0 \<mapsto> mv_t, T1 \<mapsto> ex_txn RUNNING 1 (-1) [] [] T1] Map.empty 1 1 [1 \<mapsto> 1] {1} T2
   [(0, 0) \<mapsto> (\<lparr>tm_ts = 1, tm_is_deleted = False\<rparr>, [5])]"
definition mv5 where "mv5 = ex_mgr [T0 \<mapsto> mv_t, T1 \<mapsto> ex_txn RUNNING 1 (-1) [] [] T1, T2 \<mapsto> ex_txn RUNNING 1 (-1) [] [] T2]
   Map.empty 1 1 [1 \<mapsto> 2] {1} 4611686018427387907 [(0, 0) \<mapsto> (\<lparr>tm_ts = 1, tm_is_deleted = False\<rparr>, [5])]"
definition mv6 where "mv6 = ex_mgr [T0 \<mapsto> mv_t, T1 \<mapsto> ex_txn RUNNING 1 (-1) [] [] T1, T2 \<mapsto> ex_txn RUNNING 1 (-1)
     [\<lparr>ul_is_deleted = False, ul_modified_fields = [True], ul_tuple = [5], ul_ts = 1, ul_prev_version = UndoLink\<rparr>] [(0, (0, 0))] T2]
   [(0, 0) \<mapsto> \<lparr>prev_txn = T2, prev_log_idx = 0\<rparr>]
   1 1 [1 \<mapsto> 2] {1} 4611686018427387907 [(0, 0) \<mapsto> (\<lparr>tm_ts = T2, tm_is_deleted = False\<rparr>, [7])]"
definition mv7 where "mv7 = ex_mgr [T0 \<mapsto> mv_t, T1 \<mapsto> ex_txn RUNNING 1 (-1) [] [] T1, T2 \<mapsto> ex_txn COMMITTED 1 2
     [\<lparr>ul_is_deleted = False, ul_modified_fields = [True], ul_tuple = [5], ul_ts = 1, ul_prev_version = UndoLink\<rparr>] [(0, (0, 0))] T2]
   [(0, 0) \<mapsto> \<lparr>prev_txn = T2, prev_log_idx = 0\<rparr>]
   2 1 [1 \<mapsto> 1] {1} 4611686018427387907 [(0, 0) \<mapsto> (\<lparr>tm_ts = 2, tm_is_deleted = False\<rparr>, [7])]"

lemmas mv_ops = Begin_def AddTxn_def RemoveTxn_def UpdateCommitTs_def set_txn_def TXN_START_ID_def Let_def ex_mgr_def ex_txn_def
  get_txn_def heap_get_def UpdateInPlace_def AppendWriteSet_def GetTransactionTempTs_def Commit_def commit_rid_def
  ModifyTuple_def GetUndoLink_def AppendUndoLog_def UpdateUndoLink_def GenerateNewUndoLog_def changed_field_def fun_upd_idem
  fun_upd_twist

lemma run1: "Begin (TransactionManager (\<lambda>_. 0) (\<lambda>_. 1)) SNAPSHOT_ISOLATION = Inr (T0, mv1)"
  by (simp add: mv_ops TransactionManager_def Watermark_def mv1_def)
lemma run3: "Commit mv2 T0 = Inr (True, mv3)"
  by (simp add: mv_ops mv2_def mv3_def)
lemma run4: "Begin mv3 SNAPSHOT_ISOLATION = Inr (T1, mv4)"
  by (simp add: mv_ops mv3_def mv4_def)
lemma run5: "Begin mv4 SNAPSHOT_ISOLATION = Inr (T2, mv5)"
  by (simp add: mv_ops mv5_def mv4_def)
lemma run6: "ModifyTuple mv5 T2 0 (0, 0) (Some [7]) False = Inr (True, mv6)"
  by (simp add: mv_ops mv5_def mv6_def)
lemma run7: "Commit mv6 T2 = Inr (True, mv7)"
  by (simp add: mv_ops mv6_def mv7_def)

definition mv8 where "mv8 = set_txn T1 (AppendScanPredicate (ex_txn RUNNING 1 (-1) [] [] T1) 0 None) mv7"

abbreviation "mv_t9 \<equiv> AppendWriteSet (AppendScanPredicate (ex_txn RUNNING 1 (-1) [] [] T1) 0 None) 0 (0, Suc 0)"

definition mv9 where "mv9 = set_txn T1 mv_t9 (UpdateInPlace mv8 (0, Suc 0) \<lparr>tm_ts = T1, tm_is_deleted = False\<rparr> [9])"

text \<open>The transactions of the history.\<close>

lemma mv_txns:
  "txn_map mv1 T0 = Some (ex_txn RUNNING 0 (-1) [] [] T0)"
  "txn_map mv2 T0 = Some (ex_txn RUNNING 0 (-1) [] [(0, (0, 0))] T0)"
  "txn_map mv5 T1 = Some (ex_txn RUNNING 1 (-1) [] [] T1)"
  "txn_map mv5 T2 = Some (ex_txn RUNNING 1 (-1) [] [] T2)"
  "txn_map mv6 T2 = Some (ex_txn RUNNING 1 (-1)
     [\<lparr>ul_is_deleted = False, ul_modified_fields = [True], ul_tuple = [5], ul_ts = 1, ul_prev_version = UndoLink\<rparr>] [(0, (0, 0))] T2)"
  "txn_map mv7 T1 = Some (ex_txn RUNNING 1 (-1) [] [] T1)"
  "txn_map mv8 T1 = Some (AppendScanPredicate (ex_txn RUNNING 1 (-1) [] [] T1) 0 None)"
  "txn_map mv9 T1 = Some mv_t9"
  by (simp_all add: mv1_def mv2_def mv5_def mv6_def mv7_def mv8_def mv9_def ex_mgr_def set_txn_def)

lemma mv_state:
  "tx_state (ex_txn st r c logs ws i) = st" "active (ex_txn RUNNING r c logs ws i)"
  "tx_read_ts (ex_txn st r c logs ws i) = r" "tx_txn_id (ex_txn st r c logs ws i) = i"
  by (simp_all add: ex_txn_def active_def)

lemma mv_heaps:
  "heap mv1 = Map.empty" "heap mv2 (0, 0) = Some (\<lparr>tm_ts = T0, tm_is_deleted = False\<rparr>, [5])"
  "heap mv5 (0, 0) = Some (\<lparr>tm_ts = 1, tm_is_deleted = False\<rparr>, [5])"
  "heap mv6 (0, 0) = Some (\<lparr>tm_ts = T2, tm_is_deleted = False\<rparr>, [7])"
  "heap mv7 (0, 0) = Some (\<lparr>tm_ts = 2, tm_is_deleted = False\<rparr>, [7])" "heap mv8 (0, Suc 0) = None"
  "heap mv9 (0, 0) = Some (\<lparr>tm_ts = 2, tm_is_deleted = False\<rparr>, [7])"
  by (simp_all add: mv1_def mv2_def mv5_def mv6_def mv7_def mv8_def mv9_def ex_mgr_def set_txn_def UpdateInPlace_def)

lemma mv_consts:
  "last_commit_ts mv1 = 0" "last_commit_ts mv2 = 0" "last_commit_ts mv5 = 1" "last_commit_ts mv6 = 1"
  "table_of mv1 = (\<lambda>_. 0)" "columns_of mv1 = (\<lambda>_. 1)" "table_of mv5 = (\<lambda>_. 0)" "columns_of mv5 = (\<lambda>_. 1)"
  "table_of mv8 = (\<lambda>_. 0)" "columns_of mv8 = (\<lambda>_. 1)"
  by (simp_all add: mv1_def mv2_def mv5_def mv6_def mv7_def mv8_def ex_mgr_def set_txn_def)

lemma mv_step6: "mvcc_step mv5 (Some T2) mv6"
  by (rule step_write [OF mv_txns(4), of "(0, 0)" "Some [7]" False]) (simp_all add: run6 mv_state mv_heaps mv_consts)

lemma mv_step7: "mvcc_step mv6 (Some T2) mv7"
  by (rule step_commit [OF mv_txns(5) _ _ run7]) (simp_all add: mv_state mv_consts TXN_START_ID_def)

lemma mv_reach:
  "reachable mv1" "reachable mv2" "reachable mv5" "reachable mv6" "reachable mv7" "reachable mv9"
proof -
  show 1: "reachable mv1" by (rule reach_step [OF reach_init step_begin [OF run1]])
  show 2: "reachable mv2"
    by (rule reach_step [OF 1 step_insert [OF mv_txns(1), of "(0, 0)" "[5]"]]) (simp_all add: mv_ops mv1_def mv2_def)
  have 3: "reachable mv3"
    by (rule reach_step [OF 2 step_commit [OF mv_txns(2) _ _ run3]]) (simp_all add: mv_state mv_consts TXN_START_ID_def)
  have 4: "reachable mv4" by (rule reach_step [OF 3 step_begin [OF run4]])
  show 5: "reachable mv5" by (rule reach_step [OF 4 step_begin [OF run5]])
  show 6: "reachable mv6" by (rule reach_step [OF 5 mv_step6])
  show 7: "reachable mv7" by (rule reach_step [OF 6 mv_step7])
  have 8: "reachable mv8"
    by (rule reach_step [OF 7 step_scan [OF mv_txns(6) _ mv8_def]]) (simp add: mv_state)
  show "reachable mv9"
    by (rule reach_step [OF 8 step_insert [OF mv_txns(7), of "(0, Suc 0)" "[9]"]])
      (simp_all add: mv9_def mv_heaps mv_consts AppendScanPredicate_def mv_state GetTransactionTempTs_def)
qed

subsection \<open>The witnesses\<close>

lemma mv_visible: "visible_tuple mv5 T1 (0, 0) = Inr (Some [5])" "visible_tuple mv2 T0 (0, 0) = Inr (Some [5])"
  by (simp_all add: visible_tuple_def mv_ops GetTupleAndUndoLink_def CollectUndoLogs_def ReconstructTuple_def mv5_def mv2_def)

lemma repeatable_read_witness: "visible_tuple mv7 T1 (0, 0) = Inr (Some [5])"
proof -
  have "others T1 mv5 mv7"
    by (rule others_step [OF others_step [OF others_refl mv_step6] mv_step7]) simp_all
  from repeatable_read [OF mv_reach(3) mv_txns(3) mv_state(2) this, of "(0, 0)"] show ?thesis
    by (simp add: mv_heaps mv_visible)
qed

lemma read_own_write_witness: "visible_tuple mv6 T2 (0, 0) = Inr (Some [7])"
  using read_own_write [OF mv_reach(3) mv_txns(4), of "(0, 0)" "Some [7]" False mv6 "(0, 0)"]
  by (simp add: mv_state mv_heaps mv_consts run6)

lemma commit_visible_witness: "visible_tuple mv4 T1 (0, 0) = Inr (Some [5])"
proof -
  have "Begin mv2 SNAPSHOT_ISOLATION = Inr (T1, snd (projr (Begin mv2 SNAPSHOT_ISOLATION)))"
    by (simp add: mv_ops mv2_def)
  from commit_visible [OF mv_reach(2) mv_txns(2) mv_state(1) _ run3 run4 this mv_heaps(2)] show ?thesis
    by (simp add: mv_consts TXN_START_ID_def mv_visible)
qed

lemma abort_no_trace_witness:
  "\<exists>m1 m2. Abort mv6 T2 = Inr m1 \<and> Begin m1 SNAPSHOT_ISOLATION = Inr (next_txn_id m1, m2) \<and>
    visible_tuple m2 (next_txn_id m1) (0, 0) = Inr (Some [5])"
proof -
  let ?m0 = "snd (projr (Begin mv6 SNAPSHOT_ISOLATION))"
  have b: "Begin mv6 SNAPSHOT_ISOLATION = Inr (4611686018427387907, ?m0)" by (simp add: mv_ops mv6_def)
  have "visible_tuple ?m0 4611686018427387907 (0, 0) = Inr (Some [5])"
    by (simp add: visible_tuple_def mv_ops GetTupleAndUndoLink_def CollectUndoLogs_def ReconstructTuple_def mv6_def log_fuel_def
        IsValid_def INVALID_TXN_ID_def GetUndoLog_def GetUndoLogOptional_def txn_GetUndoLog_def undo_step_def)
  with abort_no_trace [OF mv_reach(4) mv_txns(5) mv_state(2) b, of "(0, 0)"] show ?thesis by (simp add: mv_heaps)
qed

lemma first_updater_wins_witness:
  "(\<exists>m. ModifyTuple mv6 T1 0 (0, 0) (Some [9]) False = Inr (False, m)) \<and>
   (\<exists>m. ModifyTuple mv7 T1 0 (0, 0) (Some [9]) False = Inr (False, m))"
  using first_updater_wins [OF mv_reach(3) mv_txns(4) mv_state(1) mv_txns(3) mv_state(1), of "(0, 0)" "Some [7]" "Some [9]" False mv6 False]
  by (simp add: mv_heaps mv_consts run6 run7 TXN_START_ID_def)

lemma insert_outcome_witness:
  "\<exists>ok indexes' m'. InsertTupleMvcc (\<lambda>ix x. []) (\<lambda>ix x r. (True, ix + 1)) (Some (0, 0)) [0 :: nat] mv1 T0 0 [5] = Inr (ok, indexes', m') \<and>
    reachable m' \<and> (if ok then \<exists>rid. table_of m' (fst rid) = 0 \<and> visible_tuple m' T0 rid = Inr (Some [5])
                    else \<exists>t'. txn_map m' T0 = Some t' \<and> tx_state t' = TAINTED)"
  by (rule insert_outcome [OF mv_reach(1) mv_txns(1) mv_state(1)]) (simp_all add: mv_heaps mv_consts)

lemma undo_log_roundtrip_witness:
  "ReconstructTuple 2 [1, 3] \<lparr>tm_ts = 7, tm_is_deleted = False\<rparr> [GenerateNewUndoLog 2 (Some [1, 2]) (Some [1, 3]) 4 UndoLink] =
    Some [1, 2 :: int]"
  using undo_log_roundtrip [of "Some [1, 2 :: int]" "Some [1, 3]" None 2 "[1, 3]" "[1, 3]"
    "GenerateNewUndoLog 2 (Some [1, 2]) (Some [1, 3]) 4 UndoLink" 4 UndoLink 7] by simp


lemma watermark_oldest_snapshot_witness: "GetWatermark (running_txns mv7) = 1"
proof -
  let ?R = "{tx_read_ts t | t. t \<in> ran (txn_map mv7) \<and> active t}"
  have "?R \<subseteq> {1}" by (auto simp: mv7_def ex_mgr_def ran_def ex_txn_def active_def split: if_splits)
  moreover have "1 \<in> ?R" using ranI [of "txn_map mv7", OF mv_txns(6)] mv_state(2) [of 1 "-1" "[]" "[]" T1]
    by (intro CollectI exI [of _ "ex_txn RUNNING 1 (-1) [] [] T1"]) (simp add: mv_state(3))
  ultimately have "?R = {1}" by blast
  with watermark_oldest_snapshot [OF mv_reach(5)] show ?thesis by simp
qed

lemma gc_reclaims_aborted_witness:
  "\<exists>m. Abort mv5 T2 = Inr m \<and> txn_map (GarbageCollection m) T2 = None"
proof -
  obtain m where m: "Abort mv5 T2 = Inr m" "txn_map m T2 = Some (ex_txn ABORTED 1 (-1) [] [] T2)"
    by (simp add: Abort_def mv_ops mv5_def)
  have "reachable m" by (rule reach_step [OF mv_reach(3) step_abort [OF mv_txns(4) mv_state(2) m(1)]])
  from gc_reclaims_aborted [OF this m(2)] m(1) show ?thesis by (simp add: mv_state)
qed

end
