(* ===== verification/Executor.thy ===== *)
theory Executor
  imports Prelude
begin

section \<open>Query executors\<close>

text \<open>
  Models the iterator interface of \<^verbatim>\<open>src/include/execution/executors/abstract_executor.h\<close>, the
  polling loop of \<^verbatim>\<open>src/include/execution/execution_engine.h\<close>, and the executors with at most one child:
  \<^verbatim>\<open>values\<close>, \<^verbatim>\<open>filter\<close>, \<^verbatim>\<open>projection\<close>, \<^verbatim>\<open>limit\<close> and \<^verbatim>\<open>init_check\<close> under
  \<^verbatim>\<open>src/execution/\<close>. A call of \<open>Next\<close> yields its status, the two output vectors as one list of
  tuples with their record ids, and the state it leaves; an exception is an error value. A child is
  any \<open>Next\<close> function over any state, so that executors compose. Expressions are functions on
  tuples; \<open>None\<close> is the SQL null.
\<close>

type_synonym 't rows = "('t \<times> rid) list"
type_synonym ('s, 't) next_fn = "nat \<Rightarrow> 's \<Rightarrow> (bool \<times> 't rows \<times> 's) result"

definition NO_RID :: rid where
  "NO_RID = (INVALID_PAGE_ID, 0)"

text \<open>A loop that may not end is a partial function; not ending is \<open>Stuck\<close>.\<close>

definition ended :: "'a result option \<Rightarrow> 'a result" where
  "ended r = (case r of None \<Rightarrow> Inl Stuck | Some x \<Rightarrow> x)"

lemma ended_Some [simp]: "ended (Some x) = x"
  by (simp add: ended_def)

subsection \<open>Polling\<close>

text \<open>The loop \<open>while (Next(&tuples, &rids, BUSTUB_BATCH_SIZE))\<close> over a child.\<close>

partial_function (option) drain_loop :: "('s, 't) next_fn \<Rightarrow> 's \<Rightarrow> 't rows \<Rightarrow> ('t rows \<times> 's) result option" where
  "drain_loop nxt s acc =
     (case nxt BUSTUB_BATCH_SIZE s of
        Inl e \<Rightarrow> Some (Inl e)
      | Inr (status, rows, s') \<Rightarrow> if status then drain_loop nxt s' (acc @ rows) else Some (Inr (acc, s')))"

definition drain :: "('s, 't) next_fn \<Rightarrow> 's \<Rightarrow> ('t rows \<times> 's) result" where
  "drain nxt s = ended (drain_loop nxt s [])"

definition PollExecutor :: "('s, 't) next_fn \<Rightarrow> 's \<Rightarrow> ('t list \<times> 's) result" where
  "PollExecutor nxt s = rbind (drain nxt s) (\<lambda>(rows, s'). Inr (map fst rows, s'))"

text \<open>The loop \<open>while (child->Next(&tuples, &rids, BUSTUB_BATCH_SIZE)) for (tuple : tuples)\<close> with which an
  executor reads its child to the end, a step per tuple.\<close>

fun fold_result :: "('t \<Rightarrow> 'a \<Rightarrow> 'a result) \<Rightarrow> 't list \<Rightarrow> 'a \<Rightarrow> 'a result" where
  "fold_result f [] a = Inr a"
| "fold_result f (x # xs) a = rbind (f x a) (fold_result f xs)"

partial_function (option) consume_loop ::
    "('s, 't) next_fn \<Rightarrow> ('t \<times> rid \<Rightarrow> 'a \<Rightarrow> 'a result) \<Rightarrow> 's \<Rightarrow> 'a \<Rightarrow> ('a \<times> 's) result option" where
  "consume_loop nxt f s a =
     (case nxt BUSTUB_BATCH_SIZE s of
        Inl e \<Rightarrow> Some (Inl e)
      | Inr (status, rows, s') \<Rightarrow>
          if status then (case fold_result f rows a of Inl e \<Rightarrow> Some (Inl e) | Inr a' \<Rightarrow> consume_loop nxt f s' a')
          else Some (Inr (a, s')))"

definition consume :: "('s, 't) next_fn \<Rightarrow> ('t \<times> rid \<Rightarrow> 'a \<Rightarrow> 'a result) \<Rightarrow> 's \<Rightarrow> 'a \<Rightarrow> ('a \<times> 's) result" where
  "consume nxt f s a = ended (consume_loop nxt f s a)"

text \<open>The loop \<open>while (cursor < items.size() && batch.size() < batch_size)\<close> with which an executor hands out
  what it has stored; \<open>out\<close> makes the tuple and its record id of an item.\<close>

function emit_loop :: "('e \<Rightarrow> 't \<times> rid) \<Rightarrow> 'e list \<Rightarrow> nat \<Rightarrow> nat \<Rightarrow> 't rows \<Rightarrow> 't rows \<times> nat" where
  "emit_loop out items n cursor batch =
     (if cursor < length items \<and> length batch < n
      then emit_loop out items n (cursor + 1) (batch @ [out (items ! cursor)])
      else (batch, cursor))"
  by pat_completeness auto
termination by (relation "measure (\<lambda>(out, items, n, cursor, batch). length items - cursor)") auto

declare emit_loop.simps [simp del]

subsection \<open>Values\<close>

text \<open>The state is the cursor into the rows of the plan, already evaluated.\<close>

definition values_init :: "nat \<Rightarrow> nat result" where
  "values_init cursor = Inr 0"

function values_loop :: "'t list \<Rightarrow> nat \<Rightarrow> nat \<Rightarrow> 't rows \<Rightarrow> 't rows \<times> nat" where
  "values_loop vals n cursor batch =
     (if length batch < n \<and> cursor < length vals
      then values_loop vals n (cursor + 1) (batch @ [(vals ! cursor, NO_RID)])
      else (batch, cursor))"
  by pat_completeness auto
termination by (relation "measure (\<lambda>(vals, n, cursor, batch). length vals - cursor)") auto

declare values_loop.simps [simp del]

definition values_next :: "'t list \<Rightarrow> (nat, 't) next_fn" where
  "values_next vals n cursor =
     (let (batch, cursor') = values_loop vals n cursor [] in Inr (batch \<noteq> [], batch, cursor'))"

subsection \<open>Filter\<close>

record ('s, 't) buffered =
  child :: 's
  child_rows :: "'t rows"
  child_offset :: nat

text \<open>Initialising a filter or a projection initialises the child; the buffer is left as it is.\<close>

definition buffered_init :: "('s \<Rightarrow> 's result) \<Rightarrow> ('s, 't) buffered \<Rightarrow> ('s, 't) buffered result" where
  "buffered_init init st = rbind (init (child st)) (\<lambda>c. Inr (st\<lparr>child := c\<rparr>))"

text \<open>The loop over a child batch: whether the output batch filled up, the offset to continue at, and
  the output batch. \<open>i\<close> is the index of the first row of \<open>rows\<close> in a child batch of length \<open>len\<close>.\<close>

fun fill_batch :: "('t \<Rightarrow> bool option) \<Rightarrow> nat \<Rightarrow> nat \<Rightarrow> nat \<Rightarrow> 't rows \<Rightarrow> 't rows \<Rightarrow> bool \<times> nat \<times> 't rows" where
  "fill_batch p n len i [] batch = (False, 0, batch)"
| "fill_batch p n len i (r # rows) batch =
     (if p (fst r) = Some True then
        (if n \<le> length (batch @ [r]) then (True, if i + 1 < len then i + 1 else 0, batch @ [r])
         else fill_batch p n len (i + 1) rows (batch @ [r]))
      else fill_batch p n len (i + 1) rows batch)"

partial_function (option) filter_loop ::
    "('s, 't) next_fn \<Rightarrow> ('t \<Rightarrow> bool option) option \<Rightarrow> nat \<Rightarrow> ('s, 't) buffered \<Rightarrow> 't rows \<Rightarrow>
     (bool \<times> 't rows \<times> ('s, 't) buffered) result option" where
  "filter_loop nxt predicate n st batch =
     (let left = (if child_offset st \<noteq> 0 then drop (child_offset st) (child_rows st) else []) in
      if left \<noteq> [] \<and> predicate = None then Some (Inl Undefined)
      else
        (let batch1 = batch @ filter (\<lambda>r. the predicate (fst r) = Some True) left in
         case nxt n (child st) of
           Inl e \<Rightarrow> Some (Inl e)
         | Inr (status, rows, c) \<Rightarrow>
             (let st1 = \<lparr>child = c, child_rows = rows, child_offset = 0\<rparr> in
              if \<not> status then Some (Inr (batch1 \<noteq> [], batch1, st1))
              else if rows \<noteq> [] \<and> predicate = None then Some (Inl Undefined)
              else
                (let (filled, offset, batch2) = fill_batch (the predicate) n (length rows) 0 rows batch1 in
                 if filled then Some (Inr (True, batch2, st1\<lparr>child_offset := offset\<rparr>))
                 else filter_loop nxt predicate n st1 batch2))))"

definition filter_next :: "('s, 't) next_fn \<Rightarrow> ('t \<Rightarrow> bool option) option \<Rightarrow> (('s, 't) buffered, 't) next_fn" where
  "filter_next nxt predicate n st = ended (filter_loop nxt predicate n st [])"

subsection \<open>Projection\<close>

fun project_batch :: "('t \<Rightarrow> 'u) \<Rightarrow> nat \<Rightarrow> nat \<Rightarrow> nat \<Rightarrow> 't rows \<Rightarrow> 'u rows \<Rightarrow> nat \<times> 'u rows" where
  "project_batch f n len i [] batch = (0, batch)"
| "project_batch f n len i (r # rows) batch =
     (let batch1 = batch @ [(f (fst r), snd r)] in
      if n \<le> length batch1 then (if i + 1 < len then i + 1 else 0, batch1)
      else project_batch f n len (i + 1) rows batch1)"

definition projection_next :: "('s, 't) next_fn \<Rightarrow> ('t \<Rightarrow> 'u) \<Rightarrow> (('s, 't) buffered, 'u) next_fn" where
  "projection_next nxt f n st =
     (let left = (if child_offset st \<noteq> 0 then drop (child_offset st) (child_rows st) else []);
          batch1 = map (\<lambda>r. (f (fst r), snd r)) left
      in rbind (nxt n (child st)) (\<lambda>(status, rows, c).
           let st1 = \<lparr>child = c, child_rows = rows, child_offset = 0\<rparr> in
           if \<not> status then Inr (batch1 \<noteq> [], batch1, st1)
           else
             (let (offset, batch2) = project_batch f n (length rows) 0 rows batch1
              in Inr (batch2 \<noteq> [], batch2, st1\<lparr>child_offset := offset\<rparr>))))"

subsection \<open>Limit\<close>

text \<open>The state is the number of tuples emitted and the child's state.\<close>

definition limit_init :: "('s \<Rightarrow> 's result) \<Rightarrow> nat \<times> 's \<Rightarrow> (nat \<times> 's) result" where
  "limit_init init st = rbind (init (snd st)) (\<lambda>c. Inr (0, c))"

definition limit_next :: "('s, 't) next_fn \<Rightarrow> nat \<Rightarrow> (nat \<times> 's, 't) next_fn" where
  "limit_next nxt limit n st =
     (let (emitted, c) = st in
      if limit \<le> emitted \<or> n = 0 then Inr (False, [], st)
      else
        (let remaining = min n (limit - emitted) in
         rbind (nxt remaining c) (\<lambda>(status, rows, c').
           if \<not> status then Inr (False, rows, emitted, c')
           else
             (let rows1 = (if remaining < length rows then take remaining rows else rows)
              in Inr (rows1 \<noteq> [], rows1, emitted + length rows1, c')))))"

subsection \<open>Init check\<close>

text \<open>The state is the counters of calls and the child's state, if there is a child.\<close>

record 's init_check =
  n_init :: nat
  n_next :: nat
  checked :: "'s option"

definition init_check_init :: "('s \<Rightarrow> 's result) \<Rightarrow> 's init_check \<Rightarrow> 's init_check result" where
  "init_check_init init st =
     (case checked st of
        None \<Rightarrow> Inr st
      | Some c \<Rightarrow> rbind (init c) (\<lambda>c'. Inr (st\<lparr>n_init := n_init st + 1, checked := Some c'\<rparr>)))"

definition init_check_next :: "('s, 't) next_fn \<Rightarrow> ('s init_check, 't) next_fn" where
  "init_check_next nxt n st =
     (case checked st of
        None \<Rightarrow> Inl Undefined
      | Some c \<Rightarrow>
          rbind (nxt n c) (\<lambda>(status, rows, c').
            Inr (status, rows, st\<lparr>n_next := n_next st + of_bool status, checked := Some c'\<rparr>)))"

text \<open>\<open>PerformChecks\<close>, over the next count of the left and the init count of the right executor of each
  registered pair: the right side of a nested loop join is initialised for every left batch.\<close>

definition PerformChecks :: "(nat \<times> nat) list \<Rightarrow> unit result" where
  "PerformChecks pairs =
     (if \<forall>(left_next, right_init) \<in> set pairs. left_next \<le> right_init + 1 then Inr () else Inl Assertion)"

subsection \<open>Execution of a query\<close>

text \<open>\<open>Execute\<close>: whether the query succeeded and the result set; an execution exception fails the
  query and clears the result. The counts of the pairs of init checks that the context has registered are read
  off the final state of the executors.\<close>

definition Execute ::
    "('s \<Rightarrow> 's result) \<Rightarrow> ('s, 't) next_fn \<Rightarrow> ('s \<Rightarrow> (nat \<times> nat) list) \<Rightarrow> 's \<Rightarrow> (bool \<times> 't list) result" where
  "Execute init nxt checks s =
     (case rbind (init s) (\<lambda>s1. rbind (PollExecutor nxt s1) (\<lambda>(tuples, s2). rbind (PerformChecks (checks s2)) (\<lambda>_. Inr tuples))) of
        Inr tuples \<Rightarrow> Inr (True, tuples)
      | Inl (Failed _) \<Rightarrow> Inr (False, [])
      | Inl e \<Rightarrow> Inl e)"

end
