(* ===== verification/Joins.thy ===== *)
theory Joins
  imports Executor
begin

section \<open>Joins\<close>

text \<open>
  Models \<^verbatim>\<open>src/execution/nested_loop_join_executor.cpp\<close>, \<^verbatim>\<open>hash_join_executor.cpp\<close> and
  \<^verbatim>\<open>nested_index_join_executor.cpp\<close>. A tuple is the list of its values; a value is \<open>None\<close> for
  the SQL null. The plan gives the join type, the number of columns of both sides and the null
  values the schema has for the right side.
\<close>

datatype join_type = INVALID | LEFT | RIGHT | INNER | OUTER

type_synonym 'v tuple = "'v option list"

record plan =
  plan_type :: join_type
  left_columns :: nat
  right_columns :: nat

definition BuildJoinTuple :: "plan \<Rightarrow> 'v tuple \<Rightarrow> 'v tuple option \<Rightarrow> 'v tuple" where
  "BuildJoinTuple p l r =
     map (\<lambda>i. l ! i) [0..<left_columns p] @
     (case r of Some r \<Rightarrow> map (\<lambda>i. r ! i) [0..<right_columns p] | None \<Rightarrow> replicate (right_columns p) None)"

text \<open>The constructors of all three executors reject the other join types.\<close>

definition join_supported :: "plan \<Rightarrow> unit result" where
  "join_supported p =
     (if plan_type p \<noteq> LEFT \<and> plan_type p \<noteq> INNER then Inl (Thrown ''join type not supported'') else Inr ())"

subsection \<open>Nested loop join\<close>

record ('l, 'r, 'v) nlj =
  nlj_left :: 'l
  nlj_right :: 'r
  left_tuples :: "'v tuple rows"
  left_idx :: nat
  right_tuples :: "'v tuple rows"
  right_idx :: nat
  has_current_left :: bool
  current_left_tuple :: "'v tuple"
  current_match_found :: bool

definition nlj_init :: "('l \<Rightarrow> 'l result) \<Rightarrow> ('l, 'r, 'v) nlj \<Rightarrow> ('l, 'r, 'v) nlj result" where
  "nlj_init init st =
     rbind (init (nlj_left st)) (\<lambda>l.
       Inr (st\<lparr>nlj_left := l, left_tuples := [], left_idx := 0, has_current_left := False\<rparr>))"

partial_function (option) FetchNextRightTuple ::
    "('r, 'v tuple) next_fn \<Rightarrow> 'r \<Rightarrow> 'v tuple rows \<Rightarrow> nat \<Rightarrow> ('v tuple option \<times> 'r \<times> 'v tuple rows \<times> nat) result option" where
  "FetchNextRightTuple rnxt r rows idx =
     (if length rows \<le> idx then
        (case rnxt BUSTUB_BATCH_SIZE r of
           Inl e \<Rightarrow> Some (Inl e)
         | Inr (status, rows', r') \<Rightarrow>
             if \<not> status then Some (Inr (None, r', rows', idx)) else FetchNextRightTuple rnxt r' rows' 0)
      else Some (Inr (Some (fst (rows ! idx)), r, rows, idx + 1)))"

text \<open>The next left tuple, with the right side scanned anew; false when the left side has ended.\<close>

definition nlj_advance ::
    "('l, 'v tuple) next_fn \<Rightarrow> ('r \<Rightarrow> 'r result) \<Rightarrow> ('l, 'r, 'v) nlj \<Rightarrow> (bool \<times> ('l, 'r, 'v) nlj) result" where
  "nlj_advance lnxt rinit st =
     (if has_current_left st then Inr (True, st)
      else
        rbind (if length (left_tuples st) \<le> left_idx st then
                 rbind (lnxt BUSTUB_BATCH_SIZE (nlj_left st)) (\<lambda>(status, rows, l).
                   Inr (status, st\<lparr>nlj_left := l, left_tuples := rows, left_idx := (if status then 0 else left_idx st)\<rparr>))
               else Inr (True, st))
          (\<lambda>(go, st1).
             if \<not> go then Inr (False, st1)
             else
               rbind (rinit (nlj_right st1)) (\<lambda>r.
                 Inr (True, st1\<lparr>current_left_tuple := fst (left_tuples st1 ! left_idx st1), left_idx := left_idx st1 + 1,
                   nlj_right := r, right_tuples := [], right_idx := 0, current_match_found := False, has_current_left := True\<rparr>))))"

text \<open>The join predicate: \<open>None\<close> for the null pointer.\<close>

definition join_matches :: "('v tuple \<Rightarrow> 'v tuple \<Rightarrow> bool option) option \<Rightarrow> 'v tuple \<Rightarrow> 'v tuple \<Rightarrow> bool" where
  "join_matches predicate l r = (case predicate of None \<Rightarrow> True | Some f \<Rightarrow> f l r = Some True)"

partial_function (option) nlj_loop ::
    "plan \<Rightarrow> ('v tuple \<Rightarrow> 'v tuple \<Rightarrow> bool option) option \<Rightarrow> ('l, 'v tuple) next_fn \<Rightarrow> ('r \<Rightarrow> 'r result) \<Rightarrow> ('r, 'v tuple) next_fn \<Rightarrow>
     nat \<Rightarrow> ('l, 'r, 'v) nlj \<Rightarrow> 'v tuple rows \<Rightarrow> ('v tuple rows \<times> ('l, 'r, 'v) nlj) result option" where
  "nlj_loop p predicate lnxt rinit rnxt n st batch =
     (if n \<le> length batch then Some (Inr (batch, st))
      else
        (case nlj_advance lnxt rinit st of
           Inl e \<Rightarrow> Some (Inl e)
         | Inr (go, st1) \<Rightarrow>
             if \<not> go then Some (Inr (batch, st1))
             else
               (case ended (FetchNextRightTuple rnxt (nlj_right st1) (right_tuples st1) (right_idx st1)) of
                  Inl e \<Rightarrow> Some (Inl e)
                | Inr (right, r, rows, idx) \<Rightarrow>
                    (let st2 = st1\<lparr>nlj_right := r, right_tuples := rows, right_idx := idx\<rparr>; l = current_left_tuple st1 in
                     case right of
                       None \<Rightarrow>
                         nlj_loop p predicate lnxt rinit rnxt n (st2\<lparr>has_current_left := False\<rparr>)
                           (if \<not> current_match_found st1 \<and> plan_type p = LEFT
                            then batch @ [(BuildJoinTuple p l None, NO_RID)] else batch)
                     | Some t \<Rightarrow>
                         if join_matches predicate l t
                         then nlj_loop p predicate lnxt rinit rnxt n (st2\<lparr>current_match_found := True\<rparr>)
                                (batch @ [(BuildJoinTuple p l (Some t), NO_RID)])
                         else nlj_loop p predicate lnxt rinit rnxt n st2 batch))))"

definition nlj_next ::
    "plan \<Rightarrow> ('v tuple \<Rightarrow> 'v tuple \<Rightarrow> bool option) option \<Rightarrow> ('l, 'v tuple) next_fn \<Rightarrow> ('r \<Rightarrow> 'r result) \<Rightarrow> ('r, 'v tuple) next_fn \<Rightarrow>
     (('l, 'r, 'v) nlj, 'v tuple) next_fn" where
  "nlj_next p predicate lnxt rinit rnxt n st =
     rbind (ended (nlj_loop p predicate lnxt rinit rnxt n st [])) (\<lambda>(batch, st1). Inr (batch \<noteq> [], batch, st1))"

subsection \<open>Hash join\<close>

text \<open>Two keys are equal when all their values are (a comparison with null is not true).\<close>

definition keys_equal :: "'v tuple \<Rightarrow> 'v tuple \<Rightarrow> bool" where
  "keys_equal ks ks' = (\<forall>i < length ks. ks ! i \<noteq> None \<and> ks ! i = ks' ! i)"

type_synonym 'v join_table = "('v tuple \<times> 'v tuple list) list"

text \<open>The hash table: entries with their keys, looked up by \<open>keys_equal\<close> with the stored key first.\<close>

fun ht_push :: "'v tuple \<Rightarrow> 'v tuple \<Rightarrow> 'v join_table \<Rightarrow> 'v join_table" where
  "ht_push key t [] = [(key, [t])]"
| "ht_push key t ((k, ts) # ht) = (if keys_equal k key then (k, ts @ [t]) # ht else (k, ts) # ht_push key t ht)"

fun ht_find :: "'v tuple \<Rightarrow> 'v join_table \<Rightarrow> 'v tuple list option" where
  "ht_find key [] = None"
| "ht_find key ((k, ts) # ht) = (if keys_equal k key then Some ts else ht_find key ht)"

record ('l, 'r, 'v) hash_join =
  hj_left :: 'l
  hj_right :: 'r
  hash_table :: "'v join_table"
  hj_left_tuples :: "'v tuple rows"
  hj_left_idx :: nat
  hj_has_current_left :: bool
  hj_current_left :: "'v tuple"
  current_matches :: "'v tuple list option"
  match_idx :: nat
  hj_match_found :: bool

definition MakeJoinKey :: "('v tuple \<Rightarrow> 'v option) list \<Rightarrow> 'v tuple \<Rightarrow> 'v tuple" where
  "MakeJoinKey key_exprs t = map (\<lambda>e. e t) key_exprs"

definition hash_join_init ::
    "('v tuple \<Rightarrow> 'v option) list \<Rightarrow> ('l \<Rightarrow> 'l result) \<Rightarrow> ('r \<Rightarrow> 'r result) \<Rightarrow> ('r, 'v tuple) next_fn \<Rightarrow>
     ('l, 'r, 'v) hash_join \<Rightarrow> ('l, 'r, 'v) hash_join result" where
  "hash_join_init right_keys linit rinit rnxt st =
     rbind (linit (hj_left st)) (\<lambda>l.
     rbind (rinit (hj_right st)) (\<lambda>r.
     rbind (drain rnxt r) (\<lambda>(rows, r').
       Inr (st\<lparr>hj_left := l, hj_right := r',
               hash_table := fold (\<lambda>(t, _). ht_push (MakeJoinKey right_keys t) t) rows [],
               hj_left_tuples := [], hj_left_idx := 0, hj_has_current_left := False\<rparr>))))"

definition hash_join_advance ::
    "('v tuple \<Rightarrow> 'v option) list \<Rightarrow> ('l, 'v tuple) next_fn \<Rightarrow> ('l, 'r, 'v) hash_join \<Rightarrow> (bool \<times> ('l, 'r, 'v) hash_join) result" where
  "hash_join_advance left_keys lnxt st =
     (if hj_has_current_left st then Inr (True, st)
      else
        rbind (if length (hj_left_tuples st) \<le> hj_left_idx st then
                 rbind (lnxt BUSTUB_BATCH_SIZE (hj_left st)) (\<lambda>(status, rows, l).
                   Inr (status, st\<lparr>hj_left := l, hj_left_tuples := rows,
                     hj_left_idx := (if status then 0 else hj_left_idx st)\<rparr>))
               else Inr (True, st))
          (\<lambda>(go, st1).
             if \<not> go then Inr (False, st1)
             else
               (let t = fst (hj_left_tuples st1 ! hj_left_idx st1) in
                Inr (True, st1\<lparr>hj_current_left := t, hj_left_idx := hj_left_idx st1 + 1,
                  current_matches := ht_find (MakeJoinKey left_keys t) (hash_table st1), match_idx := 0,
                  hj_match_found := False, hj_has_current_left := True\<rparr>))))"

partial_function (option) hash_join_loop ::
    "plan \<Rightarrow> ('v tuple \<Rightarrow> 'v option) list \<Rightarrow> ('l, 'v tuple) next_fn \<Rightarrow> nat \<Rightarrow> ('l, 'r, 'v) hash_join \<Rightarrow> 'v tuple rows \<Rightarrow>
     ('v tuple rows \<times> ('l, 'r, 'v) hash_join) result option" where
  "hash_join_loop p left_keys lnxt n st batch =
     (if n \<le> length batch then Some (Inr (batch, st))
      else
        (case hash_join_advance left_keys lnxt st of
           Inl e \<Rightarrow> Some (Inl e)
         | Inr (go, st1) \<Rightarrow>
             if \<not> go then Some (Inr (batch, st1))
             else if current_matches st1 \<noteq> None \<and> match_idx st1 < length (the (current_matches st1)) then
               hash_join_loop p left_keys lnxt n (st1\<lparr>match_idx := match_idx st1 + 1, hj_match_found := True\<rparr>)
                 (batch @ [(BuildJoinTuple p (hj_current_left st1) (Some (the (current_matches st1) ! match_idx st1)), NO_RID)])
             else
               hash_join_loop p left_keys lnxt n (st1\<lparr>hj_has_current_left := False\<rparr>)
                 (if \<not> hj_match_found st1 \<and> plan_type p = LEFT
                  then batch @ [(BuildJoinTuple p (hj_current_left st1) None, NO_RID)] else batch)))"

definition hash_join_next ::
    "plan \<Rightarrow> ('v tuple \<Rightarrow> 'v option) list \<Rightarrow> ('l, 'v tuple) next_fn \<Rightarrow> (('l, 'r, 'v) hash_join, 'v tuple) next_fn" where
  "hash_join_next p left_keys lnxt n st =
     rbind (ended (hash_join_loop p left_keys lnxt n st [])) (\<lambda>(batch, st1). Inr (batch \<noteq> [], batch, st1))"

end
