(* ===== verification/Executor_Proofs.thy ===== *)
theory Executor_Proofs
  imports Executor
begin

section \<open>What an executor produces\<close>

text \<open>
  The contract of the iterator interface: a state \<^emph>\<open>yields\<close> a list of rows when every permitted
  call of \<open>Next\<close> succeeds, hands out a prefix of the list that is empty only when the list is,
  reports whether it is nonempty, keeps to a bound on the batch, and leaves a state that yields the
  rest. An executor implements an operator of the relational algebra when it yields the operator's
  result whenever its children yield its arguments.

  There are three strengths of the contract. A \<open>Sized\<close> source takes calls of any batch size and never
  exceeds it. A filter may hold back rows of a larger batch and later hand out more than asked: it is
  \<open>Steady N\<close>, within \<open>N\<close> rows as long as calls ask for \<open>N\<close>, where a smaller call that is met ends the
  contract (as the last call of a limit does). An \<open>Exact N\<close> source is only ever asked for \<open>N\<close> rows, as the polling
  loops do.
\<close>

datatype mode = Sized | Steady nat | Exact nat

fun calls :: "mode \<Rightarrow> nat \<Rightarrow> bool" where
  "calls Sized n \<longleftrightarrow> 0 < n"
| "calls (Steady N) n \<longleftrightarrow> 0 < n \<and> n \<le> N"
| "calls (Exact N) n \<longleftrightarrow> 0 < n \<and> n = N"

fun most :: "mode \<Rightarrow> nat \<Rightarrow> nat" where
  "most Sized n = n"
| "most (Steady N) n = N"
| "most (Exact N) n = N"

fun goes_on :: "mode \<Rightarrow> nat \<Rightarrow> nat \<Rightarrow> bool" where
  "goes_on (Steady N) n k \<longleftrightarrow> n = N \<or> k < n"
| "goes_on _ n k \<longleftrightarrow> True"

lemma calls_pos: "calls m n \<Longrightarrow> 0 < n \<and> n \<le> most m n"
  by (cases m) auto

definition hands :: "('s, 't) next_fn \<Rightarrow> nat \<Rightarrow> nat \<Rightarrow> 's \<Rightarrow> 't rows \<Rightarrow> 't rows \<Rightarrow> 't rows \<Rightarrow> 's \<Rightarrow> bool" where
  "hands nxt k n s xs b rest s' \<longleftrightarrow> nxt n s = Inr (b \<noteq> [], b, s') \<and> xs = b @ rest \<and> (b = [] \<longrightarrow> xs = []) \<and> length b \<le> k"

lemma handsD:
  assumes "hands nxt k n s xs b rest s'"
  shows "nxt n s = Inr (b \<noteq> [], b, s')" "xs = b @ rest" "b = [] \<longrightarrow> xs = []" "length b \<le> k"
  using assms unfolding hands_def by blast+

coinductive yields :: "mode \<Rightarrow> ('s, 't) next_fn \<Rightarrow> 's \<Rightarrow> 't rows \<Rightarrow> bool" for m nxt where
  yieldsI: "(\<And>n. calls m n \<Longrightarrow> \<exists>b rest s'. hands nxt (most m n) n s xs b rest s' \<and>
     (goes_on m n (length b) \<longrightarrow> yields m nxt s' rest)) \<Longrightarrow> yields m nxt s xs"

lemma yieldsE:
  assumes "yields m nxt s xs" "calls m n"
  obtains b rest s' where "nxt n s = Inr (b \<noteq> [], b, s')" "xs = b @ rest" "b = [] \<longrightarrow> xs = []" "length b \<le> most m n"
    "goes_on m n (length b) \<longrightarrow> yields m nxt s' rest"
  by (rule yields.cases [OF assms(1)]) (use assms(2) that in \<open>auto simp: hands_def\<close>)

lemma yields_coinduct [consumes 1, case_names step]:
  assumes "R s xs"
    and step: "\<And>s xs n. R s xs \<Longrightarrow> calls m n \<Longrightarrow> \<exists>b rest s'. hands nxt (most m n) n s xs b rest s' \<and>
      (goes_on m n (length b) \<longrightarrow> R s' rest)"
  shows "yields m nxt s xs"
  using assms(1)
proof (coinduction arbitrary: s xs rule: yields.coinduct)
  case yields
  show ?case by (rule exI conjI refl)+ (use step [OF yields] in \<open>simp; blast\<close>)
qed

lemma sized_steady: "yields Sized nxt s xs \<Longrightarrow> yields (Steady N) nxt s xs"
proof (rule yields_coinduct [of "yields Sized nxt"], assumption)
  fix s xs n assume y: "yields Sized nxt s xs" and n: "calls (Steady N) n"
  have "calls Sized n" using n by simp
  with y obtain b rest s' where "nxt n s = Inr (b \<noteq> [], b, s')" "xs = b @ rest" "b = [] \<longrightarrow> xs = []" "length b \<le> n"
    "yields Sized nxt s' rest" by (auto elim: yieldsE)
  with n show "\<exists>b rest s'. hands nxt (most (Steady N) n) n s xs b rest s' \<and> (goes_on (Steady N) n (length b) \<longrightarrow> yields Sized nxt s' rest)"
    by (intro exI [of _ b] exI [of _ rest] exI [of _ s']) (simp add: hands_def)
qed

lemma steady_exact: "yields (Steady N) nxt s xs \<Longrightarrow> yields (Exact N) nxt s xs"
proof (rule yields_coinduct [of "yields (Steady N) nxt"], assumption)
  fix s xs n assume y: "yields (Steady N) nxt s xs" and n: "calls (Exact N) n"
  have "calls (Steady N) n" using n by simp
  with y obtain b rest s' where "nxt n s = Inr (b \<noteq> [], b, s')" "xs = b @ rest" "b = [] \<longrightarrow> xs = []" "length b \<le> N"
    "goes_on (Steady N) n (length b) \<longrightarrow> yields (Steady N) nxt s' rest" by (auto elim: yieldsE)
  with n show "\<exists>b rest s'. hands nxt (most (Exact N) n) n s xs b rest s' \<and> (goes_on (Exact N) n (length b) \<longrightarrow> yields (Steady N) nxt s' rest)"
    by (intro exI [of _ b] exI [of _ rest] exI [of _ s']) (simp add: hands_def)
qed

lemmas sized_exact = steady_exact [OF sized_steady]

subsection \<open>Clients\<close>

lemma fold_result_append: "fold_result f (xs @ ys) a = rbind (fold_result f xs a) (fold_result f ys)"
proof (induction xs arbitrary: a)
  case (Cons x xs)
  then show ?case by (cases "f x a") simp_all
qed simp

lemma fold_result_cong: "(\<And>x a. x \<in> set xs \<Longrightarrow> f x a = g x a) \<Longrightarrow> fold_result f xs a = fold_result g xs a"
proof (induction xs arbitrary: a)
  case (Cons x xs)
  then show ?case by (cases "g x a") simp_all
qed simp

text \<open>The interface, as the clients of a child use it that poll it to its end.\<close>

locale row_source =
  fixes nxt :: "('s, 't) next_fn" and rep :: "'s \<Rightarrow> 't rows \<Rightarrow> bool"
  assumes poll_step: "rep s xs \<Longrightarrow> \<exists>b rest s'. hands nxt BUSTUB_BATCH_SIZE BUSTUB_BATCH_SIZE s xs b rest s' \<and> rep s' rest"
begin

text \<open>Polling a child to its end collects what it yields, and ends.\<close>

lemma drain_collects: "rep s xs \<Longrightarrow> \<exists>s'. drain_loop nxt s acc = Some (Inr (acc @ xs, s')) \<and> rep s' []"
proof (induction "length xs" arbitrary: s xs acc rule: less_induct)
  case less
  obtain b rest s' where s: "nxt BUSTUB_BATCH_SIZE s = Inr (b \<noteq> [], b, s')" "xs = b @ rest" "b = [] \<longrightarrow> xs = []" "rep s' rest"
    using poll_step [OF less.prems] by (auto simp: hands_def)
  show ?case
  proof (cases "b = []")
    case True
    with s show ?thesis by (subst drain_loop.simps) auto
  next
    case False
    then have "length rest < length xs" using s(2) by simp
    from less.hyps [OF this s(4), of "acc @ b"] False s(1,2) show ?thesis by (subst drain_loop.simps) auto
  qed
qed

lemma source_drain: "rep s xs \<Longrightarrow> \<exists>s'. drain nxt s = Inr (xs, s') \<and> rep s' []"
  using drain_collects [of s xs "[]"] by (auto simp: drain_def)

text \<open>Reading a child to its end is a fold over what it yields; a fault of a step ends the loop.\<close>

lemma consume_folds:
  "rep s xs \<Longrightarrow> \<exists>s'. consume_loop nxt f s a = Some (rbind (fold_result f xs a) (\<lambda>a'. Inr (a', s'))) \<and>
     (returns (fold_result f xs a) \<longrightarrow> rep s' [])"
proof (induction "length xs" arbitrary: s xs a rule: less_induct)
  case less
  obtain b rest s' where s: "nxt BUSTUB_BATCH_SIZE s = Inr (b \<noteq> [], b, s')" "xs = b @ rest" "b = [] \<longrightarrow> xs = []" "rep s' rest"
    using poll_step [OF less.prems] by (auto simp: hands_def)
  show ?case
  proof (cases "b = []")
    case True
    with s show ?thesis by (subst consume_loop.simps) auto
  next
    case False
    then have shorter: "length rest < length xs" using s(2) by simp
    show ?thesis
    proof (cases "fold_result f b a")
      case (Inl e)
      with False s(1,2) show ?thesis by (subst consume_loop.simps) (simp add: fold_result_append)
    next
      case (Inr a')
      with less.hyps [OF shorter s(4), of a'] False s(1,2) show ?thesis
        by (subst consume_loop.simps) (simp add: fold_result_append)
    qed
  qed
qed

lemma source_consume:
  assumes "rep s xs"
  obtains s' where "consume nxt f s a = rbind (fold_result f xs a) (\<lambda>a'. Inr (a', s'))"
    "returns (fold_result f xs a) \<longrightarrow> rep s' []"
proof -
  obtain s' where "consume_loop nxt f s a = Some (rbind (fold_result f xs a) (\<lambda>a'. Inr (a', s')))"
    "returns (fold_result f xs a) \<longrightarrow> rep s' []" using consume_folds [OF assms, of f a] by blast
  then show ?thesis by (intro that) (simp_all add: consume_def)
qed

lemma source_poll: "rep s xs \<Longrightarrow> \<exists>s'. PollExecutor nxt s = Inr (map fst xs, s') \<and> rep s' []"
  using source_drain [of s xs] by (auto simp: PollExecutor_def)

end

abbreviation polled :: "('s, 't) next_fn \<Rightarrow> 's \<Rightarrow> 't rows \<Rightarrow> bool" where
  "polled \<equiv> yields (Exact BUSTUB_BATCH_SIZE)"

interpretation src: row_source nxt "polled nxt" for nxt
  by unfold_locales (erule yieldsE [of _ _ _ _ BUSTUB_BATCH_SIZE], simp add: BUSTUB_BATCH_SIZE_def,
    auto simp: hands_def)

lemma polled_det:
  assumes "polled nxt s xs" "polled nxt s ys"
  shows "xs = ys"
  using src.source_drain [OF assms(1)] src.source_drain [OF assms(2)] by auto

subsection \<open>Values\<close>

lemma emit_loop_take:
  "emit_loop out items n cursor batch =
   (let k = min (n - length batch) (length items - cursor)
    in (batch @ map out (take k (drop cursor items)), cursor + k))"
proof (induction out items n cursor batch rule: emit_loop.induct)
  case (1 out items n cursor batch)
  show ?case
  proof (cases "cursor < length items \<and> length batch < n")
    case True
    then obtain k where k: "min (n - length batch) (length items - cursor) = Suc k"
      "min (n - Suc (length batch)) (length items - Suc cursor) = k" by (cases "min (n - length batch) (length items - cursor)") auto
    have "drop cursor items = items ! cursor # drop (Suc cursor) items" using True by (simp add: Cons_nth_drop_Suc)
    with 1 [OF True] True k show ?thesis by (subst emit_loop.simps) (simp add: Let_def)
  next
    case False
    then show ?thesis by (subst emit_loop.simps) auto
  qed
qed

text \<open>An executor whose \<open>Next\<close> is that loop yields what it has stored, from the cursor on.\<close>

lemma emit_yields:
  assumes nxt: "\<And>n st. nxt n st = (let (batch, c) = emit_loop out (items st) n (cur st) [] in Inr (batch \<noteq> [], batch, upd st c))"
    and upd: "\<And>st c. items (upd st c) = items st" "\<And>st c. cur (upd st c) = c"
  shows "yields Sized nxt st (map out (drop (cur st) (items st)))"
proof (rule yields_coinduct [of "\<lambda>st xs. xs = map out (drop (cur st) (items st))"])
  fix st xs and n :: nat
  assume xs: "xs = map out (drop (cur st) (items st))" and n: "calls Sized n"
  define k where "k = min n (length (items st) - cur st)"
  let ?b = "map out (take k (drop (cur st) (items st)))" and ?s = "upd st (cur st + k)"
  have "nxt n st = Inr (?b \<noteq> [], ?b, ?s)" by (simp add: nxt emit_loop_take k_def Let_def)
  moreover have "drop (cur st) (items st) = take k (drop (cur st) (items st)) @ drop (cur st + k) (items st)"
    by (metis append_take_drop_id drop_drop add.commute)
  then have "xs = ?b @ map out (drop (cur st + k) (items st))" unfolding xs by (metis map_append)
  moreover have "take k (drop (cur st) (items st)) = [] \<longrightarrow> xs = []" using n by (auto simp: k_def xs min_def split: if_splits)
  then have "?b = [] \<longrightarrow> xs = []" by simp
  moreover have "length ?b \<le> n" by (simp add: k_def)
  ultimately have "hands nxt n n st xs ?b (map out (drop (cur st + k) (items st))) ?s" unfolding hands_def by blast
  then have "hands nxt n n st xs ?b (map out (drop (cur ?s) (items ?s))) ?s" by (simp add: upd)
  then show "\<exists>b rest s'. hands nxt (most Sized n) n st xs b rest s' \<and>
      (goes_on Sized n (length b) \<longrightarrow> rest = map out (drop (cur s') (items s')))"
    unfolding most.simps by blast
qed simp

lemma values_loop_emit: "values_loop vals n cursor batch = emit_loop (\<lambda>v. (v, NO_RID)) vals n cursor batch"
  by (induction vals n cursor batch rule: values_loop.induct) (subst values_loop.simps, subst emit_loop.simps, simp)

theorem values_yields: "yields Sized (values_next vals) cursor (map (\<lambda>v. (v, NO_RID)) (drop cursor vals))"
  by (rule emit_yields [where items = "\<lambda>_. vals" and cur = "\<lambda>c. c" and upd = "\<lambda>_ c. c"])
    (simp_all add: values_next_def values_loop_emit)

subsection \<open>Filter\<close>

lemma drop_offset: "i < off \<Longrightarrow> drop (off - i) (r # rows) = drop (off - Suc i) rows"
proof -
  assume "i < off"
  then have "off - i = Suc (off - Suc i)" by simp
  then show ?thesis by simp
qed

lemma fill_batch_spec:
  "fill_batch p n len i rows batch = (filled, off, batch') \<Longrightarrow> i + length rows = len \<Longrightarrow>
   (filled \<longrightarrow> batch' \<noteq> [] \<and> (off = 0 \<or> i < off \<and> off \<le> len) \<and> length batch' \<le> max n (Suc (length batch)) \<and>
      batch' @ filter (\<lambda>r. p (fst r) = Some True) (if off = 0 then [] else drop (off - i) rows) =
      batch @ filter (\<lambda>r. p (fst r) = Some True) rows) \<and>
   (\<not> filled \<longrightarrow> batch' = batch @ filter (\<lambda>r. p (fst r) = Some True) rows \<and> length batch' < max n (Suc (length batch)))"
proof (induction p n len i rows batch rule: fill_batch.induct)
  case (2 p n len i r rows batch)
  show ?case
  proof (cases "p (fst r) = Some True \<and> n \<le> length (batch @ [r])")
    case True
    with "2.prems" show ?thesis by (auto split: if_splits)
  next
    case False
    show ?thesis
    proof (cases "p (fst r) = Some True")
      case True
      with False "2.prems" "2.IH"(1) show ?thesis by (auto simp: drop_offset)
    next
      case False
      with "2.prems" "2.IH"(2) show ?thesis by (auto simp: drop_offset)
    qed
  qed
qed auto

text \<open>The rows a filter still owes from the last child batch.\<close>

definition owed :: "('s, 't) buffered \<Rightarrow> 't rows" where
  "owed st = (if child_offset st = 0 then [] else drop (child_offset st) (child_rows st))"

abbreviation passes :: "('t \<Rightarrow> bool option) \<Rightarrow> 't \<times> rid \<Rightarrow> bool" where
  "passes p r \<equiv> p (fst r) = Some True"

lemma filter_loop_ok:
  "yields m nxt (child st) xs \<Longrightarrow> calls m n \<Longrightarrow> \<forall>k. goes_on m n k \<Longrightarrow> most m n \<le> N \<Longrightarrow>
   length (batch @ filter (passes p) (owed st)) < N \<Longrightarrow>
   \<exists>b st' xs'. filter_loop nxt (Some p) n st batch = Some (Inr (b \<noteq> [], b, st')) \<and> yields m nxt (child st') xs' \<and>
     batch @ filter (passes p) (owed st @ xs) = b @ filter (passes p) (owed st' @ xs') \<and>
     (b = [] \<longrightarrow> batch @ filter (passes p) (owed st @ xs) = []) \<and> length b \<le> N \<and> length (owed st') < N"
proof (induction "length xs" arbitrary: st xs batch rule: less_induct)
  case less
  obtain rows rest c where r: "nxt n (child st) = Inr (rows \<noteq> [], rows, c)" "xs = rows @ rest" "rows = [] \<longrightarrow> xs = []"
    "length rows \<le> most m n" "goes_on m n (length rows) \<longrightarrow> yields m nxt c rest" by (rule yieldsE [OF less.prems(1,2)])
  have y: "yields m nxt c rest" and n: "n \<le> N" using r(5) less.prems(3,4) calls_pos [OF less.prems(2)] by auto
  define batch1 where "batch1 = batch @ filter (passes p) (owed st)"
  define st1 where "st1 = \<lparr>child = c, child_rows = rows, child_offset = 0\<rparr>"
  have left: "(if child_offset st \<noteq> 0 then drop (child_offset st) (child_rows st) else []) = owed st" by (simp add: owed_def)
  have unfold: "filter_loop nxt (Some p) n st batch =
    (if rows = [] then Some (Inr (batch1 \<noteq> [], batch1, st1))
     else (let (filled, offset, batch2) = fill_batch p n (length rows) 0 rows batch1 in
       if filled then Some (Inr (True, batch2, st1\<lparr>child_offset := offset\<rparr>)) else filter_loop nxt (Some p) n st1 batch2))"
    unfolding filter_loop.simps [of nxt "Some p" n st batch] left r(1) batch1_def st1_def by (simp add: Let_def)
  show ?case
  proof (cases "rows = []")
    case True
    then have "xs = []" "rest = []" using r(2,3) by auto
    with True unfold y less.prems(5) show ?thesis
      by (intro exI [of _ batch1] exI [of _ st1] exI [of _ "[]"]) (simp add: batch1_def st1_def owed_def)
  next
    case False
    obtain filled off batch2 where f: "fill_batch p n (length rows) 0 rows batch1 = (filled, off, batch2)" by (metis prod_cases3)
    note spec = fill_batch_spec [OF f]
    have len: "max n (Suc (length batch1)) \<le> N" using n less.prems(5) by (simp add: batch1_def)
    show ?thesis
    proof (cases filled)
      case True
      have s: "batch2 @ filter (passes p) (owed (st1\<lparr>child_offset := off\<rparr>)) = batch1 @ filter (passes p) rows" "batch2 \<noteq> []"
        "length batch2 \<le> N"
        using spec True len by (auto simp: owed_def st1_def)
      then have "batch @ filter (passes p) (owed st @ xs) = batch2 @ filter (passes p) (owed (st1\<lparr>child_offset := off\<rparr>) @ rest)"
        by (simp add: batch1_def r(2))
      moreover have "length (owed (st1\<lparr>child_offset := off\<rparr>)) < N"
        using False r(4) less.prems(4) n calls_pos [OF less.prems(2)] by (cases rows) (auto simp: owed_def st1_def)
      ultimately show ?thesis using unfold f False True y s(2,3)
        by (intro exI [of _ batch2] exI [of _ "st1\<lparr>child_offset := off\<rparr>"] exI [of _ rest]) (simp add: st1_def)
    next
      case notfull: False
      have b2: "batch2 = batch1 @ filter (passes p) rows" "length batch2 < N" using spec notfull len by auto
      have "length rest < length xs" using False r(2) by simp
      moreover have "yields m nxt (child st1) rest" using y by (simp add: st1_def)
      moreover have "length (batch2 @ filter (passes p) (owed st1)) < N" using b2(2) by (simp add: st1_def owed_def)
      ultimately obtain b st' xs' where IH: "filter_loop nxt (Some p) n st1 batch2 = Some (Inr (b \<noteq> [], b, st'))"
        "yields m nxt (child st') xs'" "batch2 @ filter (passes p) (owed st1 @ rest) = b @ filter (passes p) (owed st' @ xs')"
        "b = [] \<longrightarrow> batch2 @ filter (passes p) (owed st1 @ rest) = []" "length b \<le> N" "length (owed st') < N"
        using less.hyps [OF _ _ less.prems(2-4), of rest st1 batch2] by blast
      have "batch @ filter (passes p) (owed st @ xs) = batch2 @ filter (passes p) (owed st1 @ rest)"
        by (simp add: b2(1) batch1_def r(2) st1_def owed_def)
      with IH unfold f False notfull show ?thesis by (intro exI [of _ b] exI [of _ st'] exI [of _ xs']) simp
    qed
  qed
qed

lemma filter_yields_mode:
  assumes "yields m nxt (child st) xs" "length (owed st) < N" "\<And>n. calls m' n \<Longrightarrow> most m' n = N"
    "\<And>n. calls m' n \<Longrightarrow> calls m n \<and> most m n \<le> N \<and> (\<forall>k. goes_on m n k)"
  shows "yields m' (filter_next nxt (Some p)) st (filter (passes p) (owed st @ xs))"
proof (rule yields_coinduct [of "\<lambda>st ys. \<exists>xs. yields m nxt (child st) xs \<and> length (owed st) < N \<and> ys = filter (passes p) (owed st @ xs)"])
  fix st :: "('a, 'b) buffered" and ys and n :: nat
  assume "\<exists>xs. yields m nxt (child st) xs \<and> length (owed st) < N \<and> ys = filter (passes p) (owed st @ xs)" and n: "calls m' n"
  then obtain xs where xs: "yields m nxt (child st) xs" "length (owed st) < N" and ys: "ys = filter (passes p) (owed st @ xs)" by blast
  have "length ([] @ filter (passes p) (owed st)) < N" using xs(2) le_less_trans [OF length_filter_le] by simp
  from filter_loop_ok [OF xs(1) _ _ _ this, of n] assms(4) [OF n] obtain b st' xs' where
    "filter_loop nxt (Some p) n st [] = Some (Inr (b \<noteq> [], b, st'))" "yields m nxt (child st') xs'"
    "ys = b @ filter (passes p) (owed st' @ xs')" "b = [] \<longrightarrow> ys = []" "length b \<le> N" "length (owed st') < N"
    unfolding ys append_Nil by blast
  then show "\<exists>b rest s'. hands (filter_next nxt (Some p)) (most m' n) n st ys b rest s' \<and> (goes_on m' n (length b) \<longrightarrow>
      (\<exists>xs. yields m nxt (child s') xs \<and> length (owed s') < N \<and> rest = filter (passes p) (owed s' @ xs)))"
    using assms(3) [OF n] unfolding filter_next_def hands_def
    by (intro exI [of _ b] exI [of _ "filter (passes p) (owed st' @ xs')"] exI [of _ st']) auto
qed (use assms in blast)

theorem filter_yields:
  "yields Sized nxt (child st) xs \<Longrightarrow> length (owed st) < N \<Longrightarrow>
     yields (Steady N) (filter_next nxt (Some p)) st (filter (passes p) (owed st @ xs))"
  "yields (Exact N) nxt (child st) xs \<Longrightarrow> length (owed st) < N \<Longrightarrow>
     yields (Exact N) (filter_next nxt (Some p)) st (filter (passes p) (owed st @ xs))"
  by (erule (1) filter_yields_mode; simp)+

subsection \<open>Projection\<close>

abbreviation project :: "('t \<Rightarrow> 'u) \<Rightarrow> 't rows \<Rightarrow> 'u rows" where
  "project f rows \<equiv> map (\<lambda>r. (f (fst r), snd r)) rows"

lemma project_batch_spec:
  "project_batch f n len i rows batch = (off, batch') \<Longrightarrow> i + length rows = len \<Longrightarrow> length batch < n \<Longrightarrow>
   (off = 0 \<or> i < off \<and> off < len \<and> length batch' = n) \<and>
   batch' @ project f (if off = 0 then [] else drop (off - i) rows) = batch @ project f rows \<and>
   length batch' \<le> n \<and> (batch' = [] \<longrightarrow> batch = [] \<and> rows = []) \<and> (length batch + length rows \<le> n \<longrightarrow> off = 0)"
proof (induction f n len i rows batch rule: project_batch.induct)
  case (2 f n len i r rows batch)
  show ?case
  proof (cases "n \<le> length (batch @ [(f (fst r), snd r)])")
    case True
    with "2.prems" show ?thesis by (auto simp: Let_def split: if_splits)
  next
    case False
    have len: "length batch + length (r # rows) = length (batch @ [(f (fst r), snd r)]) + length rows" by simp
    have "project_batch f n len (i + 1) rows (batch @ [(f (fst r), snd r)]) = (off, batch')"
      using False "2.prems"(1) by (simp add: Let_def)
    note IH = "2.IH" [OF refl False this]
    have "i + 1 + length rows = len" "length (batch @ [(f (fst r), snd r)]) < n" using False "2.prems"(2) by simp_all
    with IH show ?thesis unfolding len by (auto simp: drop_offset)
  qed
qed auto

text \<open>Between calls a projection owes nothing, unless its child handed out more than asked.\<close>

theorem projection_yields:
  assumes "yields m nxt (child st) xs" "owed st = []"
  shows "yields m (projection_next nxt f) st (project f xs)"
proof (rule yields_coinduct [of "\<lambda>st ys. \<exists>xs. yields m nxt (child st) xs \<and> owed st = [] \<and> ys = project f xs"])
  fix st :: "('a, 'b) buffered" and ys and n :: nat
  assume "\<exists>xs. yields m nxt (child st) xs \<and> owed st = [] \<and> ys = project f xs" and n: "calls m n"
  then obtain xs where xs: "yields m nxt (child st) xs" "owed st = []" and ys: "ys = project f xs" by blast
  obtain rows rest c where r: "nxt n (child st) = Inr (rows \<noteq> [], rows, c)" "xs = rows @ rest" "rows = [] \<longrightarrow> xs = []"
    "length rows \<le> most m n" "goes_on m n (length rows) \<longrightarrow> yields m nxt c rest" by (rule yieldsE [OF xs(1) n])
  have left: "(if child_offset st \<noteq> 0 then drop (child_offset st) (child_rows st) else []) = []" using xs(2) by (auto simp: owed_def split: if_splits)
  obtain off b where f: "project_batch f n (length rows) 0 rows [] = (off, b)" by fastforce
  have n0: "length ([] :: 'c rows) < n" using calls_pos [OF n] by simp
  have spec: "off = 0 \<or> 0 < off \<and> off < length rows \<and> length b = n"
      "b @ project f (if off = 0 then [] else drop off rows) = project f rows" "length b \<le> n" "b = [] \<longrightarrow> rows = []"
      "length rows \<le> n \<longrightarrow> off = 0"
    using project_batch_spec [OF f _ n0] by auto
  define st' where "st' = \<lparr>child = c, child_rows = rows, child_offset = off\<rparr>"
  have "projection_next nxt f n st = Inr (b \<noteq> [], b, st')"
    unfolding projection_next_def left using r(1) f by (cases "rows = []") (simp_all add: st'_def)
  moreover have o: "owed st' = (if off = 0 then [] else drop off rows)" by (simp add: st'_def owed_def)
  have "project f rows = b @ project f (owed st')" unfolding o by (rule spec(2) [symmetric])
  then have s: "ys = b @ project f (owed st' @ rest)" unfolding ys r(2) map_append by (simp only: append_assoc)
  moreover have "b = [] \<longrightarrow> ys = []" "length b \<le> most m n" using spec(3,4) r(3) calls_pos [OF n] by (auto simp: ys)
  ultimately have "hands (projection_next nxt f) (most m n) n st ys b (project f (owed st' @ rest)) st'" unfolding hands_def by blast
  moreover have "yields m nxt (child st') rest \<and> owed st' = []" if g: "goes_on m n (length b)"
  proof (cases m)
    case (Steady N)
    have "n = N \<or> length b < n" using g Steady by simp
    then have "off = 0" using spec(1,5) r(4) Steady by auto
    moreover have "goes_on m n (length rows)" using g Steady \<open>off = 0\<close> arg_cong [OF spec(2), of length] by simp
    ultimately show ?thesis using r(5) by (simp add: st'_def owed_def)
  next
    case Sized
    then show ?thesis using r(4,5) spec(5) by (simp add: st'_def owed_def)
  next
    case (Exact N)
    then show ?thesis using r(4,5) spec(5) n by (simp add: st'_def owed_def)
  qed
  ultimately show "\<exists>b rest s'. hands (projection_next nxt f) (most m n) n st ys b rest s' \<and> (goes_on m n (length b) \<longrightarrow>
      (\<exists>xs. yields m nxt (child s') xs \<and> owed s' = [] \<and> rest = project f xs))"
    by (intro exI [of _ b] exI [of _ "project f (owed st' @ rest)"] exI [of _ st']) auto
qed (use assms in blast)

subsection \<open>Limit\<close>

theorem limit_yields:
  assumes "yields m nxt c xs" "m = Sized \<or> (\<exists>N. m = Steady N)"
  shows "yields m (limit_next nxt limit) (emitted, c) (take (limit - emitted) xs)"
proof (rule yields_coinduct [of "\<lambda>st ys. \<exists>xs. (yields m nxt (snd st) xs \<or> limit \<le> fst st) \<and> ys = take (limit - fst st) xs"])
  fix st :: "nat \<times> 'a" and ys and n :: nat
  assume "\<exists>xs. (yields m nxt (snd st) xs \<or> limit \<le> fst st) \<and> ys = take (limit - fst st) xs" and n: "calls m n"
  then obtain xs where xs: "yields m nxt (snd st) xs \<or> limit \<le> fst st" and ys: "ys = take (limit - fst st) xs" by blast
  obtain e d where st: "st = (e, d)" by (cases st)
  show "\<exists>b rest s'. hands (limit_next nxt limit) (most m n) n st ys b rest s' \<and> (goes_on m n (length b) \<longrightarrow>
      (\<exists>xs. (yields m nxt (snd s') xs \<or> limit \<le> fst s') \<and> rest = take (limit - fst s') xs))"
  proof (cases "limit \<le> e")
    case True
    then show ?thesis
      by (intro exI [of _ "[]"] exI [of _ "[]"] exI [of _ st]) (auto simp: limit_next_def st ys hands_def)
  next
    case False
    define k where "k = min n (limit - e)"
    have k: "calls m k" using assms(2) n False by (auto simp: k_def)
    have "yields m nxt d xs" using xs False by (simp add: st)
    then obtain rows rest c where r: "nxt k d = Inr (rows \<noteq> [], rows, c)" "xs = rows @ rest" "rows = [] \<longrightarrow> xs = []"
      "length rows \<le> most m k" "goes_on m k (length rows) \<longrightarrow> yields m nxt c rest" by (rule yieldsE [OF _ k])
    define b where "b = (if k < length rows then take k rows else rows)"
    have k0: "0 < k" "k \<le> n" "n \<le> most m n" using calls_pos [OF k] calls_pos [OF n] by (simp_all add: k_def)
    have "limit_next nxt limit n st = Inr (b \<noteq> [], b, e + length b, c)"
      using False k0(1,2) r(1) by (auto simp: limit_next_def st Let_def b_def k_def)
    moreover have y: "ys = b @ take (limit - (e + length b)) (drop (length b) rows @ rest)"
    proof -
      have "limit - e = length b + (limit - (e + length b))" "take (length b) (rows @ rest) = b" "length b \<le> length rows"
        using False by (auto simp: b_def k_def)
      then show ?thesis using take_add [of "length b" "limit - (e + length b)" "rows @ rest"] by (simp add: ys st r(2))
    qed
    moreover have "b = [] \<longrightarrow> ys = []" using r(2,3) k0(1) by (auto simp: b_def ys split: if_splits)
    moreover have "length b \<le> most m n" using k0 by (simp add: b_def)
    ultimately have h: "hands (limit_next nxt limit) (most m n) n st ys b (take (limit - (e + length b)) (drop (length b) rows @ rest))
        (e + length b, c)" unfolding hands_def by blast
    have "yields m nxt c (drop (length b) rows @ rest) \<or> limit \<le> e + length b" if "goes_on m n (length b)"
    proof (cases "k = limit - e \<and> k \<le> length rows")
      case True
      then show ?thesis by (auto simp: b_def)
    next
      case F: False
      then have "b = rows \<and> goes_on m k (length rows)"
        using assms(2) that r(4) F by (auto simp: b_def k_def min_def split: if_splits)
      then show ?thesis using r(5) by simp
    qed
    with h show ?thesis
      by (intro exI [of _ b] exI [of _ "take (limit - (e + length b)) (drop (length b) rows @ rest)"] exI [of _ "(e + length b, c)"]) auto
  qed
qed (use assms in auto)

subsection \<open>Init check\<close>

theorem init_check_yields:
  assumes "yields m nxt c xs"
  shows "yields m (init_check_next nxt) \<lparr>n_init = i, n_next = j, checked = Some c\<rparr> xs"
proof (rule yields_coinduct [of "\<lambda>st xs. \<exists>c. checked st = Some c \<and> yields m nxt c xs"])
  fix st :: "'a init_check" and xs and n :: nat
  assume "\<exists>c. checked st = Some c \<and> yields m nxt c xs" and n: "calls m n"
  then obtain c where c: "checked st = Some c" "yields m nxt c xs" by blast
  obtain rows rest c' where "nxt n c = Inr (rows \<noteq> [], rows, c')" "xs = rows @ rest" "rows = [] \<longrightarrow> xs = []"
    "length rows \<le> most m n" "goes_on m n (length rows) \<longrightarrow> yields m nxt c' rest"
    by (rule yieldsE [OF c(2) n])
  then show "\<exists>b rest s'. hands (init_check_next nxt) (most m n) n st xs b rest s' \<and> (goes_on m n (length b) \<longrightarrow>
      (\<exists>c. checked s' = Some c \<and> yields m nxt c rest))"
    by (intro exI [of _ rows] exI [of _ rest] exI [of _ "st\<lparr>n_next := n_next st + of_bool (rows \<noteq> []), checked := Some c'\<rparr>"])
      (simp add: init_check_next_def c(1) hands_def)
qed (use assms in simp)

end
