(* ===== verification/Join_Proofs.thy ===== *)
theory Join_Proofs
  imports Joins Executor_Proofs
begin

section \<open>Joins yield the relational join\<close>

text \<open>
  The specification of a join: for every left tuple in order, its matches among the right tuples in
  order, and for a left join a padded tuple when there are none.
\<close>

definition join_rows :: "plan \<Rightarrow> ('v tuple \<Rightarrow> 'v tuple \<Rightarrow> bool) \<Rightarrow> 'v tuple list \<Rightarrow> 'v tuple \<Rightarrow> 'v tuple list" where
  "join_rows p M us l =
     (let ms = filter (M l) us
      in if ms = [] \<and> plan_type p = LEFT then [BuildJoinTuple p l None] else map (\<lambda>u. BuildJoinTuple p l (Some u)) ms)"

definition relational_join :: "plan \<Rightarrow> ('v tuple \<Rightarrow> 'v tuple \<Rightarrow> bool) \<Rightarrow> 'v tuple list \<Rightarrow> 'v tuple list \<Rightarrow> 'v tuple list" where
  "relational_join p M ls us = concat (map (join_rows p M us) ls)"

text \<open>What is left of the join of one left tuple.\<close>

definition rest_rows :: "plan \<Rightarrow> ('v tuple \<Rightarrow> 'v tuple \<Rightarrow> bool) \<Rightarrow> 'v tuple \<Rightarrow> bool \<Rightarrow> 'v tuple list \<Rightarrow> 'v tuple list" where
  "rest_rows p M l found rs =
     map (\<lambda>u. BuildJoinTuple p l (Some u)) (filter (M l) rs) @
     (if \<not> found \<and> filter (M l) rs = [] \<and> plan_type p = LEFT then [BuildJoinTuple p l None] else [])"

lemma join_rows_rest: "join_rows p M us l = rest_rows p M l False us"
  by (simp add: join_rows_def rest_rows_def Let_def)

lemma rest_rows_Cons:
  "rest_rows p M l found (u # rs) =
     (if M l u then BuildJoinTuple p l (Some u) # rest_rows p M l True rs else rest_rows p M l found rs)"
  by (simp add: rest_rows_def)

abbreviation unplaced :: "'v tuple list \<Rightarrow> 'v tuple rows" where
  "unplaced ts \<equiv> map (\<lambda>t. (t, NO_RID)) ts"

subsection \<open>A right side that can be scanned again\<close>

locale rescan = row_source rnxt rep
  for rnxt :: "('r, 'v tuple) next_fn" and rep :: "'r \<Rightarrow> 'v tuple rows \<Rightarrow> bool" +
  fixes rinit :: "'r \<Rightarrow> 'r result" and ready :: "'r \<Rightarrow> bool" and us :: "'v tuple rows"
  assumes init_rep: "ready r \<Longrightarrow> \<exists>r'. rinit r = Inr r' \<and> rep r' us"
    and drained_ready: "rep r [] \<Longrightarrow> ready r"
begin

lemma fetch_ok:
  assumes "rep r ys"
  shows "\<exists>r' rows' idx' ys'. rep r' ys' \<and>
    (case map fst (drop idx rows @ ys) of
       [] \<Rightarrow> FetchNextRightTuple rnxt r rows idx = Some (Inr (None, r', rows', idx')) \<and> ys' = []
     | t # ts \<Rightarrow> FetchNextRightTuple rnxt r rows idx = Some (Inr (Some t, r', rows', idx')) \<and>
         map fst (drop idx' rows' @ ys') = ts)"
proof (cases "length rows \<le> idx")
  case False
  then have "drop idx rows = rows ! idx # drop (Suc idx) rows" by (simp add: Cons_nth_drop_Suc)
  with False assms show ?thesis
    by (intro exI [of _ r] exI [of _ rows] exI [of _ "Suc idx"] exI [of _ ys]) (simp add: FetchNextRightTuple.simps [of _ _ _ idx])
next
  case True
  obtain b rest r' where s: "rnxt BUSTUB_BATCH_SIZE r = Inr (b \<noteq> [], b, r')" "ys = b @ rest" "b = [] \<longrightarrow> ys = []" "rep r' rest"
    using poll_step [OF assms] by (auto simp: hands_def)
  show ?thesis
  proof (cases b)
    case Nil
    with s True show ?thesis
      by (intro exI [of _ r'] exI [of _ b] exI [of _ idx] exI [of _ rest]) (simp add: FetchNextRightTuple.simps [of _ _ _ idx])
  next
    case (Cons t ts)
    have "FetchNextRightTuple rnxt r rows idx = Some (Inr (Some (fst t), r', b, 1))"
      using True s(1) Cons by (simp add: FetchNextRightTuple.simps [of _ _ _ idx] FetchNextRightTuple.simps [of _ r' _ 0])
    with s True Cons show ?thesis
      by (intro exI [of _ r'] exI [of _ b] exI [of _ 1] exI [of _ rest]) simp
  qed
qed

text \<open>What a state of the join still owes, and a measure of the work it takes.\<close>

definition nlj_rep ::
    "plan \<Rightarrow> ('v tuple \<Rightarrow> 'v tuple \<Rightarrow> bool) \<Rightarrow> ('l, 'v tuple) next_fn \<Rightarrow> ('l, 'r, 'v) nlj \<Rightarrow> 'v tuple list \<Rightarrow> nat \<Rightarrow> bool" where
  "nlj_rep p M lnxt st out k \<longleftrightarrow> (\<exists>xs rs. polled lnxt (nlj_left st) xs \<and>
     (if has_current_left st
      then \<exists>ys. rep (nlj_right st) ys \<and> rs = map fst (drop (right_idx st) (right_tuples st) @ ys)
      else rs = [] \<and> ready (nlj_right st)) \<and>
     out = (if has_current_left st then rest_rows p M (current_left_tuple st) (current_match_found st) rs else []) @
       relational_join p M (map fst (drop (left_idx st) (left_tuples st) @ xs)) (map fst us) \<and>
     k = length (drop (left_idx st) (left_tuples st) @ xs) * (length us + 2) + (if has_current_left st then length rs + 1 else 0))"

lemma advance_ok:
  assumes "nlj_rep p M lnxt st out k"
  shows "\<exists>go st1. nlj_advance lnxt rinit st = Inr (go, st1) \<and> (\<exists>k'. nlj_rep p M lnxt st1 out k' \<and> k' \<le> k) \<and>
    (if go then has_current_left st1 else out = [])"
proof (cases "has_current_left st")
  case True
  with assms show ?thesis by (auto simp: nlj_advance_def)
next
  case False
  then obtain xs where x: "polled lnxt (nlj_left st) xs" "ready (nlj_right st)"
    "out = relational_join p M (map fst (drop (left_idx st) (left_tuples st) @ xs)) (map fst us)"
    "k = length (drop (left_idx st) (left_tuples st) @ xs) * (length us + 2)"
    using assms by (auto simp: nlj_rep_def)
  obtain r where r: "rinit (nlj_right st) = Inr r" "rep r us" using init_rep [OF x(2)] by blast
  have start: ?thesis if a: "nlj_advance lnxt rinit st = Inr (True, st\<lparr>nlj_left := l, left_tuples := rows,
      current_left_tuple := fst t, left_idx := i + 1, nlj_right := r, right_tuples := [], right_idx := 0,
      current_match_found := False, has_current_left := True\<rparr>)"
    and l: "polled lnxt l ys" and d: "drop (left_idx st) (left_tuples st) @ xs = t # drop (i + 1) rows @ ys" for l rows t i ys
  proof -
    define st1 where "st1 = st\<lparr>nlj_left := l, left_tuples := rows,
      current_left_tuple := fst t, left_idx := i + 1, nlj_right := r, right_tuples := [], right_idx := 0,
      current_match_found := False, has_current_left := True\<rparr>"
    have "out = rest_rows p M (fst t) False (map fst us) @ relational_join p M (map fst (drop (i + 1) rows @ ys)) (map fst us)"
      unfolding x(3) d by (simp add: relational_join_def join_rows_rest)
    moreover have "length (drop (i + 1) rows @ ys) * (length us + 2) + (length us + 1) \<le> k" unfolding x(4) d by simp
    ultimately have "nlj_rep p M lnxt st1 out (length (drop (i + 1) rows @ ys) * (length us + 2) + (length us + 1))"
      using l r(2) unfolding nlj_rep_def by (intro exI [of _ ys] exI [of _ "map fst us"]) (simp add: st1_def; blast)
    moreover have "has_current_left st1" by (simp add: st1_def)
    ultimately show ?thesis using a \<open>_ \<le> k\<close> unfolding st1_def [symmetric] by auto
  qed
  show ?thesis
  proof (cases "length (left_tuples st) \<le> left_idx st")
    case le: False
    then have d: "drop (left_idx st) (left_tuples st) = left_tuples st ! left_idx st # drop (left_idx st + 1) (left_tuples st)"
      by (simp add: Cons_nth_drop_Suc)
    have "nlj_advance lnxt rinit st = Inr (True, st\<lparr>nlj_left := nlj_left st, left_tuples := left_tuples st,
      current_left_tuple := fst (left_tuples st ! left_idx st), left_idx := left_idx st + 1, nlj_right := r, right_tuples := [],
      right_idx := 0, current_match_found := False, has_current_left := True\<rparr>)"
      using False le r(1) by (simp add: nlj_advance_def)
    then show ?thesis by (rule start [OF _ x(1)]) (simp add: d)
  next
    case True
    obtain b rest l where s: "lnxt BUSTUB_BATCH_SIZE (nlj_left st) = Inr (b \<noteq> [], b, l)" "xs = b @ rest" "b = [] \<longrightarrow> xs = []"
      "polled lnxt l rest" using src.poll_step [OF x(1)] by (auto simp: hands_def)
    show ?thesis
    proof (cases b)
      case Nil
      let ?st = "st\<lparr>nlj_left := l, left_tuples := b\<rparr>"
      have "nlj_advance lnxt rinit st = Inr (False, ?st)" using False True s(1) Nil by (simp add: nlj_advance_def)
      moreover have "out = []" using x(3) True s(3) Nil by (simp add: relational_join_def)
      moreover have "nlj_rep p M lnxt ?st [] 0"
        using s Nil False x(2) unfolding nlj_rep_def by (intro exI [of _ "[]"]) (simp add: relational_join_def)
      ultimately show ?thesis by auto
    next
      case (Cons t ts)
      have "nlj_advance lnxt rinit st = Inr (True, st\<lparr>nlj_left := l, left_tuples := b,
          current_left_tuple := fst t, left_idx := 0 + 1, nlj_right := r, right_tuples := [],
          right_idx := 0, current_match_found := False, has_current_left := True\<rparr>)"
        using False True s(1) Cons r(1) by (simp add: nlj_advance_def)
      then show ?thesis by (rule start [OF _ s(4)]) (use True s(2) Cons in simp)
    qed
  qed
qed

text \<open>One iteration of the loop, and the loop.\<close>

lemma fetch_step:
  assumes rp: "nlj_rep p M lnxt st1 out k" and cur: "has_current_left st1"
  obtains r rows idx where "FetchNextRightTuple rnxt (nlj_right st1) (right_tuples st1) (right_idx st1) = Some (Inr (None, r, rows, idx))"
      "\<exists>k'. nlj_rep p M lnxt (st1\<lparr>nlj_right := r, right_tuples := rows, right_idx := idx, has_current_left := False\<rparr>)
        (drop (length (rest_rows p M (current_left_tuple st1) (current_match_found st1) [])) out) k' \<and> k' < k"
      "\<exists>out'. out = rest_rows p M (current_left_tuple st1) (current_match_found st1) [] @ out'"
    | t r rows idx where "FetchNextRightTuple rnxt (nlj_right st1) (right_tuples st1) (right_idx st1) = Some (Inr (Some t, r, rows, idx))"
      "M (current_left_tuple st1) t \<Longrightarrow> \<exists>out' k'. out = BuildJoinTuple p (current_left_tuple st1) (Some t) # out' \<and> k' < k \<and>
        nlj_rep p M lnxt (st1\<lparr>nlj_right := r, right_tuples := rows, right_idx := idx, current_match_found := True\<rparr>) out' k'"
      "\<not> M (current_left_tuple st1) t \<Longrightarrow> \<exists>k'. k' < k \<and>
        nlj_rep p M lnxt (st1\<lparr>nlj_right := r, right_tuples := rows, right_idx := idx\<rparr>) out k'"
proof -
  obtain xs ys where x: "polled lnxt (nlj_left st1) xs" "rep (nlj_right st1) ys"
    "out = rest_rows p M (current_left_tuple st1) (current_match_found st1) (map fst (drop (right_idx st1) (right_tuples st1) @ ys)) @
       relational_join p M (map fst (drop (left_idx st1) (left_tuples st1) @ xs)) (map fst us)"
    "k = length (drop (left_idx st1) (left_tuples st1) @ xs) * (length us + 2) +
       (length (map fst (drop (right_idx st1) (right_tuples st1) @ ys)) + 1)"
    using rp cur unfolding nlj_rep_def by auto
  obtain r rows idx ys' where f: "rep r ys'"
    "case map fst (drop (right_idx st1) (right_tuples st1) @ ys) of
       [] \<Rightarrow> FetchNextRightTuple rnxt (nlj_right st1) (right_tuples st1) (right_idx st1) = Some (Inr (None, r, rows, idx)) \<and> ys' = []
     | t # ts \<Rightarrow> FetchNextRightTuple rnxt (nlj_right st1) (right_tuples st1) (right_idx st1) = Some (Inr (Some t, r, rows, idx)) \<and>
         map fst (drop idx rows @ ys') = ts"
    using fetch_ok [OF x(2)] by blast
  show ?thesis
  proof (cases "map fst (drop (right_idx st1) (right_tuples st1) @ ys)")
    case Nil
    have "nlj_rep p M lnxt (st1\<lparr>nlj_right := r, right_tuples := rows, right_idx := idx, has_current_left := False\<rparr>)
        (relational_join p M (map fst (drop (left_idx st1) (left_tuples st1) @ xs)) (map fst us))
        (length (drop (left_idx st1) (left_tuples st1) @ xs) * (length us + 2))"
      using f Nil x(1) drained_ready [of r] unfolding nlj_rep_def
      by (intro exI [of _ xs] exI [of _ "[]"]) simp
    with that(1) [of r rows idx] f(2) show ?thesis unfolding x(3,4) Nil by auto
  next
    case (Cons t ts)
    let ?k = "length (drop (left_idx st1) (left_tuples st1) @ xs) * (length us + 2) + (length ts + 1)"
    let ?rest = "relational_join p M (map fst (drop (left_idx st1) (left_tuples st1) @ xs)) (map fst us)"
    have d: "map fst (drop idx rows @ ys') = ts" using f(2) unfolding Cons by simp
    have "nlj_rep p M lnxt (st1\<lparr>nlj_right := r, right_tuples := rows, right_idx := idx, current_match_found := c\<rparr>)
        (rest_rows p M (current_left_tuple st1) c ts @ ?rest) ?k" for c
      using x(1) cur f(1) d [symmetric] unfolding nlj_rep_def by (intro exI [of _ xs] exI [of _ ts]) (simp; blast)
    note m = this [of True] and n = this [of "current_match_found st1"]
    have k: "?k < k" unfolding x(4) Cons by simp
    show ?thesis
    proof (rule that(2) [of t r rows idx])
      show "FetchNextRightTuple rnxt (nlj_right st1) (right_tuples st1) (right_idx st1) = Some (Inr (Some t, r, rows, idx))"
        using f(2) unfolding Cons by simp
      show "\<exists>out' k'. out = BuildJoinTuple p (current_left_tuple st1) (Some t) # out' \<and> k' < k \<and>
          nlj_rep p M lnxt (st1\<lparr>nlj_right := r, right_tuples := rows, right_idx := idx, current_match_found := True\<rparr>) out' k'"
        if "M (current_left_tuple st1) t"
        using m k that unfolding x(3) Cons rest_rows_Cons by (intro exI [of _ "rest_rows p M (current_left_tuple st1) True ts @ ?rest"]) auto
      have "st1\<lparr>nlj_right := r, right_tuples := rows, right_idx := idx, current_match_found := current_match_found st1\<rparr> =
          st1\<lparr>nlj_right := r, right_tuples := rows, right_idx := idx\<rparr>" by (cases st1) simp
      then show "\<exists>k'. k' < k \<and> nlj_rep p M lnxt (st1\<lparr>nlj_right := r, right_tuples := rows, right_idx := idx\<rparr>) out k'"
        if "\<not> M (current_left_tuple st1) t"
        using n k that unfolding x(3) Cons rest_rows_Cons by auto
    qed
  qed
qed

lemma nlj_loop_ok:
  "nlj_rep p (join_matches pred) lnxt st out k \<Longrightarrow> length batch \<le> n \<Longrightarrow>
   \<exists>b st' out' k'. nlj_loop p pred lnxt rinit rnxt n st batch = Some (Inr (b, st')) \<and>
     nlj_rep p (join_matches pred) lnxt st' out' k' \<and> batch @ unplaced out = b @ unplaced out' \<and>
     length b \<le> n \<and> (length b < n \<longrightarrow> out' = [])"
proof (induction k arbitrary: st out batch rule: less_induct)
  case (less k)
  show ?case
  proof (cases "n \<le> length batch")
    case True
    then have "nlj_loop p pred lnxt rinit rnxt n st batch = Some (Inr (batch, st))" by (subst nlj_loop.simps) simp
    with True less.prems show ?thesis by (intro exI [of _ batch] exI [of _ st] exI [of _ out] exI [of _ k]) simp
  next
    case False
    obtain go st1 k1 where a: "nlj_advance lnxt rinit st = Inr (go, st1)" "nlj_rep p (join_matches pred) lnxt st1 out k1" "k1 \<le> k"
      "if go then has_current_left st1 else out = []"
      using advance_ok [OF less.prems(1)] by blast
    show ?thesis
    proof (cases go)
      case F: False
      then have "nlj_loop p pred lnxt rinit rnxt n st batch = Some (Inr (batch, st1))"
        using False a(1) by (subst nlj_loop.simps) simp
      with F a(2,4) less.prems(2) show ?thesis by (intro exI [of _ batch] exI [of _ st1] exI [of _ out] exI [of _ k1]) simp
    next
      case T: True
      then have cur: "has_current_left st1" using a(4) by simp
      let ?l = "current_left_tuple st1"
      show ?thesis
      proof (rule fetch_step [OF a(2) cur])
        fix r rows idx
        let ?st = "st1\<lparr>nlj_right := r, right_tuples := rows, right_idx := idx, has_current_left := False\<rparr>"
        let ?pad = "rest_rows p (join_matches pred) ?l (current_match_found st1) []"
        assume f: "FetchNextRightTuple rnxt (nlj_right st1) (right_tuples st1) (right_idx st1) = Some (Inr (None, r, rows, idx))"
          "\<exists>k'. nlj_rep p (join_matches pred) lnxt ?st (drop (length ?pad) out) k' \<and> k' < k1" "\<exists>out'. out = ?pad @ out'"
        obtain k' out' where k': "nlj_rep p (join_matches pred) lnxt ?st out' k'" "k' < k1" "out = ?pad @ out'" using f(2,3) by auto
        have run: "nlj_loop p pred lnxt rinit rnxt n st batch = nlj_loop p pred lnxt rinit rnxt n ?st (batch @ unplaced ?pad)"
          using False a(1) T f(1) by (subst nlj_loop.simps) (simp add: rest_rows_def Let_def)
        have "length (batch @ unplaced ?pad) \<le> n" using False by (simp add: rest_rows_def)
        from less.IH [OF _ k'(1) this] k'(2) a(3) run k'(3) show ?thesis by simp
      next
        fix t r rows idx
        let ?st = "st1\<lparr>nlj_right := r, right_tuples := rows, right_idx := idx\<rparr>"
        let ?st2 = "st1\<lparr>nlj_right := r, right_tuples := rows, right_idx := idx, current_match_found := True\<rparr>"
        assume f: "FetchNextRightTuple rnxt (nlj_right st1) (right_tuples st1) (right_idx st1) = Some (Inr (Some t, r, rows, idx))"
          "join_matches pred ?l t \<Longrightarrow> \<exists>out' k'. out = BuildJoinTuple p ?l (Some t) # out' \<and> k' < k1 \<and>
             nlj_rep p (join_matches pred) lnxt ?st2 out' k'"
          "\<not> join_matches pred ?l t \<Longrightarrow> \<exists>k'. k' < k1 \<and> nlj_rep p (join_matches pred) lnxt ?st out k'"
        have run: "nlj_loop p pred lnxt rinit rnxt n st batch =
            (if join_matches pred ?l t then nlj_loop p pred lnxt rinit rnxt n ?st2 (batch @ [(BuildJoinTuple p ?l (Some t), NO_RID)])
             else nlj_loop p pred lnxt rinit rnxt n ?st batch)"
          using False a(1) T f(1) by (subst nlj_loop.simps) (simp add: Let_def)
        show ?thesis
        proof (cases "join_matches pred ?l t")
          case True
          then obtain out' k' where k': "out = BuildJoinTuple p ?l (Some t) # out'" "k' < k1"
            "nlj_rep p (join_matches pred) lnxt ?st2 out' k'" using f(2) by blast
          have "length (batch @ [(BuildJoinTuple p ?l (Some t), NO_RID)]) \<le> n" using False by simp
          from less.IH [OF _ k'(3) this] k'(1,2) a(3) run True show ?thesis by simp
        next
          case nm: False
          then obtain k' where "k' < k1" "nlj_rep p (join_matches pred) lnxt ?st out k'" using f(3) by blast
          from less.IH [OF _ this(2) less.prems(2)] this(1) a(3) run nm show ?thesis by simp
        qed
      qed
    qed
  qed
qed

lemma nlj_yields:
  assumes "nlj_rep p (join_matches pred) lnxt st out k"
  shows "yields Sized (nlj_next p pred lnxt rinit rnxt) st (unplaced out)"
proof (rule yields_coinduct [of "\<lambda>st ys. \<exists>out k. nlj_rep p (join_matches pred) lnxt st out k \<and> ys = unplaced out"])
  fix st ys n
  assume "\<exists>out k. nlj_rep p (join_matches pred) lnxt st out k \<and> ys = unplaced out" and n: "calls Sized n"
  then obtain out k where o: "nlj_rep p (join_matches pred) lnxt st out k" "ys = unplaced out" by blast
  obtain b st' out' k' where b: "nlj_loop p pred lnxt rinit rnxt n st [] = Some (Inr (b, st'))"
    "nlj_rep p (join_matches pred) lnxt st' out' k'" "ys = b @ unplaced out'" "length b \<le> n" "length b < n \<longrightarrow> out' = []"
    using nlj_loop_ok [OF o(1), of "[]" n] o(2) by auto
  have "b = [] \<longrightarrow> ys = []" using b(3,5) n by auto
  then have "hands (nlj_next p pred lnxt rinit rnxt) (most Sized n) n st ys b (unplaced out') st'"
    using b by (simp add: hands_def nlj_next_def)
  with b(2) show "\<exists>b rest s'. hands (nlj_next p pred lnxt rinit rnxt) (most Sized n) n st ys b rest s' \<and>
      (goes_on Sized n (length b) \<longrightarrow> (\<exists>out k. nlj_rep p (join_matches pred) lnxt s' out k \<and> rest = unplaced out))" by blast
qed (use assms in blast)

theorem nlj_join:
  assumes "linit (nlj_left st) = Inr l" "polled lnxt l ls" "ready (nlj_right st)"
  shows "\<exists>st'. nlj_init linit st = Inr st' \<and> yields Sized (nlj_next p pred lnxt rinit rnxt) st'
    (unplaced (relational_join p (join_matches pred) (map fst ls) (map fst us)))"
proof -
  let ?st = "st\<lparr>nlj_left := l, left_tuples := [], left_idx := 0, has_current_left := False\<rparr>"
  have "nlj_rep p (join_matches pred) lnxt ?st (relational_join p (join_matches pred) (map fst ls) (map fst us))
      (length ls * (length us + 2))"
    using assms(2,3) unfolding nlj_rep_def by (intro exI [of _ ls] exI [of _ "[]"]) simp
  from nlj_yields [OF this] assms(1) show ?thesis by (simp add: nlj_init_def)
qed

end

subsection \<open>Hash join\<close>

text \<open>The hash table holds, for each key without nulls, the tuples pushed with it, in order.\<close>

definition found_matches :: "'v tuple \<Rightarrow> 'v join_table \<Rightarrow> 'v tuple list" where
  "found_matches key ht = (case ht_find key ht of None \<Rightarrow> [] | Some ts \<Rightarrow> ts)"

lemma keys_equal_iff: "length k = length k' \<Longrightarrow> keys_equal k k' \<longleftrightarrow> k = k' \<and> None \<notin> set k"
  by (auto simp: keys_equal_def list_eq_iff_nth_eq in_set_conv_nth)

lemma found_push:
  "\<forall>(k', _) \<in> set ht. length k' = length k \<Longrightarrow> length key = length k \<Longrightarrow>
   found_matches key (ht_push k t ht) = found_matches key ht @ (if keys_equal k key then [t] else [])"
proof (induction ht)
  case (Cons e ht)
  obtain k0 ts where e: "e = (k0, ts)" by (cases e)
  have IH: "found_matches key (ht_push k t ht) = found_matches key ht @ (if keys_equal k key then [t] else [])"
    using Cons by auto
  have len: "length k0 = length k" using Cons.prems(1) e by simp
  show ?case
  proof (cases "keys_equal k0 k")
    case True
    then have "k0 = k" using len by (simp add: keys_equal_iff)
    with True show ?thesis by (simp add: found_matches_def e)
  next
    case False
    then have "\<not> (keys_equal k0 key \<and> keys_equal k key)" using len Cons.prems(2) by (auto simp: keys_equal_iff)
    with False IH show ?thesis by (auto simp: found_matches_def e)
  qed
qed (simp add: found_matches_def)

lemma push_lengths:
  "\<forall>(k', _) \<in> set ht. length k' = n \<Longrightarrow> length k = n \<Longrightarrow> \<forall>(k', _) \<in> set (ht_push k t ht). length k' = n"
  by (induction ht) (auto split: if_splits)

lemma found_fold:
  "\<forall>(k', _) \<in> set ht. length k' = length rk \<Longrightarrow> length key = length rk \<Longrightarrow>
   found_matches key (fold (\<lambda>(t, _). ht_push (MakeJoinKey rk t) t) rows ht) =
     found_matches key ht @ filter (\<lambda>t. keys_equal (MakeJoinKey rk t) key) (map fst rows)"
proof (induction rows arbitrary: ht)
  case (Cons r rows)
  obtain t x where r: "r = (t, x)" by (cases r)
  have len: "length (MakeJoinKey rk t) = length rk" by (simp add: MakeJoinKey_def)
  show ?case
    using Cons.IH [OF push_lengths [OF Cons.prems(1) len]] Cons.prems(2) found_push [of ht "MakeJoinKey rk t" key t] Cons.prems len
    by (simp add: r)
qed simp

definition key_match :: "('v tuple \<Rightarrow> 'v option) list \<Rightarrow> ('v tuple \<Rightarrow> 'v option) list \<Rightarrow> 'v tuple \<Rightarrow> 'v tuple \<Rightarrow> bool" where
  "key_match lk rk l u \<longleftrightarrow> keys_equal (MakeJoinKey rk u) (MakeJoinKey lk l)"

definition hj_rest :: "('l, 'r, 'v) hash_join \<Rightarrow> 'v tuple list" where
  "hj_rest st = drop (match_idx st) (case current_matches st of None \<Rightarrow> [] | Some ms \<Rightarrow> ms)"

definition hj_rep ::
    "plan \<Rightarrow> ('v tuple \<Rightarrow> 'v option) list \<Rightarrow> ('v tuple \<Rightarrow> 'v option) list \<Rightarrow> 'v tuple list \<Rightarrow> ('l, 'v tuple) next_fn \<Rightarrow>
     ('l, 'r, 'v) hash_join \<Rightarrow> 'v tuple list \<Rightarrow> nat \<Rightarrow> bool" where
  "hj_rep p lk rk us lnxt st out k \<longleftrightarrow> (\<exists>xs. polled lnxt (hj_left st) xs \<and>
     (\<forall>l. found_matches (MakeJoinKey lk l) (hash_table st) = filter (key_match lk rk l) us) \<and>
     out = (if hj_has_current_left st then rest_rows p (\<lambda>_ _. True) (hj_current_left st) (hj_match_found st) (hj_rest st) else []) @
       relational_join p (key_match lk rk) (map fst (drop (hj_left_idx st) (hj_left_tuples st) @ xs)) us \<and>
     k = length (drop (hj_left_idx st) (hj_left_tuples st) @ xs) * (length us + 2) +
       (if hj_has_current_left st then length (hj_rest st) + 1 else 0))"

lemma join_rows_filtered: "join_rows p M us l = rest_rows p (\<lambda>_ _. True) l False (filter (M l) us)"
  by (simp add: join_rows_rest rest_rows_def)

lemma hj_advance_ok:
  assumes "hj_rep p lk rk us lnxt st out k"
  shows "\<exists>go st1. hash_join_advance lk lnxt st = Inr (go, st1) \<and> (\<exists>k'. hj_rep p lk rk us lnxt st1 out k' \<and> k' \<le> k) \<and>
    (if go then hj_has_current_left st1 else out = [])"
proof (cases "hj_has_current_left st")
  case True
  with assms show ?thesis by (auto simp: hash_join_advance_def)
next
  case False
  then obtain xs where x: "polled lnxt (hj_left st) xs"
    "\<forall>l. found_matches (MakeJoinKey lk l) (hash_table st) = filter (key_match lk rk l) us"
    "out = relational_join p (key_match lk rk) (map fst (drop (hj_left_idx st) (hj_left_tuples st) @ xs)) us"
    "k = length (drop (hj_left_idx st) (hj_left_tuples st) @ xs) * (length us + 2)"
    using assms by (auto simp: hj_rep_def)
  have start: ?thesis if a: "hash_join_advance lk lnxt st = Inr (True, st\<lparr>hj_left := l, hj_left_tuples := rows,
      hj_current_left := fst t, hj_left_idx := i + 1, current_matches := ht_find (MakeJoinKey lk (fst t)) (hash_table st),
      match_idx := 0, hj_match_found := False, hj_has_current_left := True\<rparr>)"
    and l: "polled lnxt l ys" and d: "drop (hj_left_idx st) (hj_left_tuples st) @ xs = t # drop (i + 1) rows @ ys" for l rows t i ys
  proof -
    define st1 where "st1 = st\<lparr>hj_left := l, hj_left_tuples := rows,
      hj_current_left := fst t, hj_left_idx := i + 1, current_matches := ht_find (MakeJoinKey lk (fst t)) (hash_table st),
      match_idx := 0, hj_match_found := False, hj_has_current_left := True\<rparr>"
    have r: "hj_rest st1 = filter (key_match lk rk (fst t)) us"
      using x(2) by (simp add: hj_rest_def st1_def found_matches_def)
    have o: "out = rest_rows p (\<lambda>_ _. True) (fst t) False (filter (key_match lk rk (fst t)) us) @
        relational_join p (key_match lk rk) (map fst (drop (i + 1) rows @ ys)) us"
      unfolding x(3) d by (simp add: relational_join_def join_rows_filtered)
    have k: "length (drop (i + 1) rows @ ys) * (length us + 2) + (length (hj_rest st1) + 1) \<le> k"
      unfolding x(4) d r by (simp add: le_SucI)
    have "hj_rep p lk rk us lnxt st1 out (length (drop (i + 1) rows @ ys) * (length us + 2) + (length (hj_rest st1) + 1))"
      using l x(2) o r unfolding hj_rep_def by (intro exI [of _ ys]) (simp add: st1_def)
    moreover have "hj_has_current_left st1" by (simp add: st1_def)
    ultimately show ?thesis using a k unfolding st1_def [symmetric] by auto
  qed
  show ?thesis
  proof (cases "length (hj_left_tuples st) \<le> hj_left_idx st")
    case le: False
    then have d: "drop (hj_left_idx st) (hj_left_tuples st) =
        hj_left_tuples st ! hj_left_idx st # drop (hj_left_idx st + 1) (hj_left_tuples st)"
      by (simp add: Cons_nth_drop_Suc)
    let ?t = "hj_left_tuples st ! hj_left_idx st"
    have "hash_join_advance lk lnxt st = Inr (True, st\<lparr>hj_left := hj_left st, hj_left_tuples := hj_left_tuples st,
      hj_current_left := fst ?t, hj_left_idx := hj_left_idx st + 1, current_matches := ht_find (MakeJoinKey lk (fst ?t)) (hash_table st),
      match_idx := 0, hj_match_found := False, hj_has_current_left := True\<rparr>)"
      using False le by (simp add: hash_join_advance_def Let_def)
    then show ?thesis by (rule start [OF _ x(1)]) (simp add: d)
  next
    case True
    obtain b rest l where s: "lnxt BUSTUB_BATCH_SIZE (hj_left st) = Inr (b \<noteq> [], b, l)" "xs = b @ rest" "b = [] \<longrightarrow> xs = []"
      "polled lnxt l rest" using src.poll_step [OF x(1)] by (auto simp: hands_def)
    show ?thesis
    proof (cases b)
      case Nil
      let ?st = "st\<lparr>hj_left := l, hj_left_tuples := b\<rparr>"
      have "hash_join_advance lk lnxt st = Inr (False, ?st)" using False True s(1) Nil by (simp add: hash_join_advance_def)
      moreover have "out = []" using x(3) True s(3) Nil by (simp add: relational_join_def)
      moreover have "hj_rep p lk rk us lnxt ?st [] 0"
        using s Nil False x(2) unfolding hj_rep_def by (intro exI [of _ "[]"]) (simp add: relational_join_def)
      ultimately show ?thesis by auto
    next
      case (Cons t ts)
      have "hash_join_advance lk lnxt st = Inr (True, st\<lparr>hj_left := l, hj_left_tuples := b,
          hj_current_left := fst t, hj_left_idx := 0 + 1, current_matches := ht_find (MakeJoinKey lk (fst t)) (hash_table st),
          match_idx := 0, hj_match_found := False, hj_has_current_left := True\<rparr>)"
        using False True s(1) Cons by (simp add: hash_join_advance_def Let_def)
      then show ?thesis by (rule start [OF _ s(4)]) (use True s(2) Cons in simp)
    qed
  qed
qed

lemma hj_loop_ok:
  "hj_rep p lk rk us lnxt st out k \<Longrightarrow> length batch \<le> n \<Longrightarrow>
   \<exists>b st' out' k'. hash_join_loop p lk lnxt n st batch = Some (Inr (b, st')) \<and>
     hj_rep p lk rk us lnxt st' out' k' \<and> batch @ unplaced out = b @ unplaced out' \<and>
     length b \<le> n \<and> (length b < n \<longrightarrow> out' = [])"
proof (induction k arbitrary: st out batch rule: less_induct)
  case (less k)
  show ?case
  proof (cases "n \<le> length batch")
    case True
    then have "hash_join_loop p lk lnxt n st batch = Some (Inr (batch, st))" by (subst hash_join_loop.simps) simp
    with True less.prems show ?thesis by (intro exI [of _ batch] exI [of _ st] exI [of _ out] exI [of _ k]) simp
  next
    case False
    obtain go st1 k1 where a: "hash_join_advance lk lnxt st = Inr (go, st1)" "hj_rep p lk rk us lnxt st1 out k1" "k1 \<le> k"
      "if go then hj_has_current_left st1 else out = []"
      using hj_advance_ok [OF less.prems(1)] by blast
    show ?thesis
    proof (cases go)
      case F: False
      then have "hash_join_loop p lk lnxt n st batch = Some (Inr (batch, st1))"
        using False a(1) by (subst hash_join_loop.simps) simp
      with F a(2,4) less.prems(2) show ?thesis by (intro exI [of _ batch] exI [of _ st1] exI [of _ out] exI [of _ k1]) simp
    next
      case T: True
      then have cur: "hj_has_current_left st1" using a(4) by simp
      obtain xs where x: "polled lnxt (hj_left st1) xs"
        "\<forall>l. found_matches (MakeJoinKey lk l) (hash_table st1) = filter (key_match lk rk l) us"
        "out = rest_rows p (\<lambda>_ _. True) (hj_current_left st1) (hj_match_found st1) (hj_rest st1) @
           relational_join p (key_match lk rk) (map fst (drop (hj_left_idx st1) (hj_left_tuples st1) @ xs)) us"
        "k1 = length (drop (hj_left_idx st1) (hj_left_tuples st1) @ xs) * (length us + 2) + (length (hj_rest st1) + 1)"
        using a(2) cur unfolding hj_rep_def by auto
      let ?rest = "relational_join p (key_match lk rk) (map fst (drop (hj_left_idx st1) (hj_left_tuples st1) @ xs)) us"
      have more: "current_matches st1 \<noteq> None \<and> match_idx st1 < length (the (current_matches st1)) \<longleftrightarrow> hj_rest st1 \<noteq> []"
        by (auto simp: hj_rest_def split: option.splits)
      show ?thesis
      proof (cases "hj_rest st1")
        case Nil
        then have nm: "\<not> (current_matches st1 \<noteq> None \<and> match_idx st1 < length (the (current_matches st1)))" using more by blast
        let ?st = "st1\<lparr>hj_has_current_left := False\<rparr>"
        let ?pad = "rest_rows p (\<lambda>_ _. True) (hj_current_left st1) (hj_match_found st1) []"
        let ?k = "length (drop (hj_left_idx st1) (hj_left_tuples st1) @ xs) * (length us + 2)"
        have r: "hj_rep p lk rk us lnxt ?st ?rest ?k"
          using x(1,2) unfolding hj_rep_def by (intro exI [of _ xs]) simp
        have l: "length (batch @ unplaced ?pad) \<le> n" using False by (simp add: rest_rows_def)
        have run: "hash_join_loop p lk lnxt n st batch = hash_join_loop p lk lnxt n ?st (batch @ unplaced ?pad)"
          unfolding hash_join_loop.simps [of p lk lnxt n st batch] a(1) using False T by (simp add: rest_rows_def nm del: not_None_eq)
        have "?k < k" using a(3) unfolding x(4) by linarith
        from less.IH [OF this r l] show ?thesis unfolding run x(3) Nil map_append append_assoc .
      next
        case (Cons u ms)
        then have mm: "current_matches st1 \<noteq> None \<and> match_idx st1 < length (the (current_matches st1))" using more by (metis list.distinct(1))
        let ?st = "st1\<lparr>match_idx := match_idx st1 + 1, hj_match_found := True\<rparr>"
        obtain cm where cm: "current_matches st1 = Some cm" using mm by auto
        have d: "drop (match_idx st1) cm = u # ms" using Cons cm by (simp add: hj_rest_def)
        have "drop (Suc (match_idx st1)) cm = tl (drop (match_idx st1) cm)" by (simp only: drop_Suc tl_drop)
        then have u: "the (current_matches st1) ! match_idx st1 = u" "hj_rest ?st = ms"
          using nth_via_drop [OF d] d cm by (simp_all add: hj_rest_def)
        let ?k = "length (drop (hj_left_idx st1) (hj_left_tuples st1) @ xs) * (length us + 2) + (length ms + 1)"
        let ?b = "batch @ [(BuildJoinTuple p (hj_current_left st1) (Some u), NO_RID)]"
        have r: "hj_rep p lk rk us lnxt ?st (rest_rows p (\<lambda>_ _. True) (hj_current_left st1) True ms @ ?rest) ?k"
          using x(1,2) cur u(2) unfolding hj_rep_def by (intro exI [of _ xs]) simp
        have l: "length ?b \<le> n" using False by simp
        have run: "hash_join_loop p lk lnxt n st batch = hash_join_loop p lk lnxt n ?st ?b"
          unfolding hash_join_loop.simps [of p lk lnxt n st batch] a(1) using False T mm u(1) by (simp del: not_None_eq)
        have "?k < k" using a(3) unfolding x(4) Cons by simp
        moreover have "batch @ unplaced out = ?b @ unplaced (rest_rows p (\<lambda>_ _. True) (hj_current_left st1) True ms @ ?rest)"
          unfolding x(3) Cons rest_rows_Cons by simp
        ultimately show ?thesis using less.IH [OF _ r l] unfolding run by presburger
      qed
    qed
  qed
qed

lemma hj_yields:
  assumes "hj_rep p lk rk us lnxt st out k"
  shows "yields Sized (hash_join_next p lk lnxt) st (unplaced out)"
proof (rule yields_coinduct [of "\<lambda>st ys. \<exists>out k. hj_rep p lk rk us lnxt st out k \<and> ys = unplaced out"])
  fix st ys n
  assume "\<exists>out k. hj_rep p lk rk us lnxt st out k \<and> ys = unplaced out" and n: "calls Sized n"
  then obtain out k where o: "hj_rep p lk rk us lnxt st out k" "ys = unplaced out" by blast
  obtain b st' out' k' where b: "hash_join_loop p lk lnxt n st [] = Some (Inr (b, st'))"
    "hj_rep p lk rk us lnxt st' out' k'" "ys = b @ unplaced out'" "length b \<le> n" "length b < n \<longrightarrow> out' = []"
    using hj_loop_ok [OF o(1), of "[]" n] o(2) by auto
  have "b = [] \<longrightarrow> ys = []" using b(3,5) n by auto
  then have "hands (hash_join_next p lk lnxt) (most Sized n) n st ys b (unplaced out') st'"
    using b by (simp add: hands_def hash_join_next_def)
  with b(2) show "\<exists>b rest s'. hands (hash_join_next p lk lnxt) (most Sized n) n st ys b rest s' \<and>
      (goes_on Sized n (length b) \<longrightarrow> (\<exists>out k. hj_rep p lk rk us lnxt s' out k \<and> rest = unplaced out))" by blast
qed (use assms in blast)

theorem hash_join_correct:
  assumes "linit (hj_left st) = Inr l" "polled lnxt l ls" "rinit (hj_right st) = Inr r" "polled rnxt r us"
    "length lk = length rk"
  shows "\<exists>st'. hash_join_init rk linit rinit rnxt st = Inr st' \<and> yields Sized (hash_join_next p lk lnxt) st'
    (unplaced (relational_join p (key_match lk rk) (map fst ls) (map fst us)))"
proof -
  obtain r' where d: "drain rnxt r = Inr (us, r')" using src.source_drain [OF assms(4)] by blast
  define st' where "st' = st\<lparr>hj_left := l, hj_right := r',
    hash_table := fold (\<lambda>(t, _). ht_push (MakeJoinKey rk t) t) us [],
    hj_left_tuples := [], hj_left_idx := 0, hj_has_current_left := False\<rparr>"
  have run: "hash_join_init rk linit rinit rnxt st = Inr st'"
    using assms(1,3) d by (simp add: hash_join_init_def st'_def)
  have "found_matches (MakeJoinKey lk t) (hash_table st') = filter (key_match lk rk t) (map fst us)" for t
    using found_fold [of "[]" rk "MakeJoinKey lk t" us] assms(5)
    by (simp add: st'_def found_matches_def key_match_def [abs_def] MakeJoinKey_def [of lk])
  then have "hj_rep p lk rk (map fst us) lnxt st' (relational_join p (key_match lk rk) (map fst ls) (map fst us))
      (length ls * (length us + 2))"
    using assms(2) unfolding hj_rep_def by (intro exI [of _ ls]) (simp add: st'_def)
  from hj_yields [OF this] run show ?thesis by blast
qed

end
