(* ===== verification/Executor_Props.thy ===== *)
theory Executor_Props
  imports Join_Proofs
begin

section \<open>Whole queries\<close>

text \<open>
  The results of whole queries, run by \<open>Execute\<close> from any state of their executors: a pipeline of
  limit, projection and filter, the nested loop join and the hash join; the join executors against
  each other; and what goes wrong when a limit over a filter is scanned again.
\<close>

lemma owed_child [simp]: "owed (st\<lparr>child := c\<rparr>) = owed st"
  by (simp add: owed_def)

lemma execute_yields:
  assumes "init s = Inr s'" "yields m nxt s' xs" "m = Sized \<or> m = Steady BUSTUB_BATCH_SIZE \<or> m = Exact BUSTUB_BATCH_SIZE"
  shows "Execute init nxt (\<lambda>_. []) s = Inr (True, map fst xs)"
proof -
  have "polled nxt s' xs"
  proof (cases "m = Sized")
    case True
    show ?thesis by (rule sized_exact) (rule assms(2) [unfolded True])
  next
    case False
    show ?thesis
    proof (cases "m = Steady BUSTUB_BATCH_SIZE")
      case True
      show ?thesis by (rule steady_exact) (rule assms(2) [unfolded True])
    next
      case F: False
      then have "m = Exact BUSTUB_BATCH_SIZE" using False assms(3) by blast
      from assms(2) [unfolded this] show ?thesis .
    qed
  qed
  then obtain s'' where "PollExecutor nxt s' = Inr (map fst xs, s'')" using src.source_poll [of nxt s' xs] by auto
  with assms(1) show ?thesis by (simp add: Execute_def PerformChecks_def)
qed

lemma values_execute [simp]: "Execute values_init (values_next vals) (\<lambda>_. []) cursor = Inr (True, vals)"
  using execute_yields [OF _ values_yields [of vals 0], of values_init cursor] by (simp add: values_init_def comp_def)

subsection \<open>Right sides that are scanned again\<close>

interpretation table: rescan "values_next vals" "polled (values_next vals)" values_init "\<lambda>_. True" "unplaced vals" for vals
  using sized_exact [OF values_yields [of vals 0]] by unfold_locales (auto simp: values_init_def)

definition restarts :: "('r \<Rightarrow> 'r result) \<Rightarrow> ('r, 't) next_fn \<Rightarrow> 't rows \<Rightarrow> bool" where
  "restarts rinit rnxt us \<longleftrightarrow> (\<forall>r. \<exists>r'. rinit r = Inr r' \<and> yields Sized rnxt r' us)"

lemma restarts_rescan: "restarts rinit rnxt us \<Longrightarrow> rescan rnxt (polled rnxt) rinit (\<lambda>_. True) us"
  by unfold_locales (rule src.poll_step, assumption, meson restarts_def sized_exact, rule TrueI)

lemma values_restarts [simp]: "restarts values_init (values_next vals) (unplaced vals)"
  using values_yields [of vals 0] by (simp add: restarts_def values_init_def)

text \<open>A filter can be scanned again once it owes no row that passes.\<close>

interpretation filtered_table: rescan "filter_next (values_next vals) (Some p)"
    "\<lambda>st ys. \<exists>xs. polled (values_next vals) (child st) xs \<and> length (owed st) < BUSTUB_BATCH_SIZE \<and> ys = filter (passes p) (owed st @ xs)"
    "buffered_init values_init"
    "\<lambda>st. length (owed st) < BUSTUB_BATCH_SIZE \<and> filter (passes p) (owed st) = []"
    "filter (passes p) (unplaced vals)" for vals p
proof unfold_locales
  let ?rep = "\<lambda>st ys. \<exists>xs. polled (values_next vals) (child st) xs \<and> length (owed st) < BUSTUB_BATCH_SIZE \<and> ys = filter (passes p) (owed st @ xs)"
  fix st ys assume "?rep st ys"
  then obtain xs where xs: "polled (values_next vals) (child st) xs" "length (owed st) < BUSTUB_BATCH_SIZE"
    and ys: "ys = filter (passes p) (owed st @ xs)" by blast
  have "length ([] @ filter (passes p) (owed st)) < BUSTUB_BATCH_SIZE" using xs(2) le_less_trans [OF length_filter_le] by simp
  from filter_loop_ok [OF xs(1) _ _ _ this, of BUSTUB_BATCH_SIZE] obtain b st' xs' where
    "filter_loop (values_next vals) (Some p) BUSTUB_BATCH_SIZE st [] = Some (Inr (b \<noteq> [], b, st'))" "polled (values_next vals) (child st') xs'"
    "ys = b @ filter (passes p) (owed st' @ xs')" "b = [] \<longrightarrow> ys = []" "length b \<le> BUSTUB_BATCH_SIZE" "length (owed st') < BUSTUB_BATCH_SIZE"
    unfolding ys append_Nil by (auto simp: BUSTUB_BATCH_SIZE_def)
  then have "hands (filter_next (values_next vals) (Some p)) BUSTUB_BATCH_SIZE BUSTUB_BATCH_SIZE st ys b (filter (passes p) (owed st' @ xs')) st'"
    "?rep st' (filter (passes p) (owed st' @ xs'))"
    by (auto simp: hands_def filter_next_def)
  then show "\<exists>b rest s'. hands (filter_next (values_next vals) (Some p)) BUSTUB_BATCH_SIZE BUSTUB_BATCH_SIZE st ys b rest s' \<and> ?rep s' rest"
    by blast
next
  fix st :: "(nat, 'a option list) buffered"
  assume "length (owed st) < BUSTUB_BATCH_SIZE \<and> filter (passes p) (owed st) = []"
  then show "\<exists>r'. buffered_init values_init st = Inr r' \<and> (\<exists>xs. polled (values_next vals) (child r') xs \<and>
      length (owed r') < BUSTUB_BATCH_SIZE \<and> filter (passes p) (unplaced vals) = filter (passes p) (owed r' @ xs))"
    using sized_exact [OF values_yields [of vals 0]]
    by (intro exI [of _ "st\<lparr>child := 0\<rparr>"] conjI exI [of _ "unplaced vals"]) (simp_all add: buffered_init_def values_init_def)
qed auto

lemma nlj_run:
  assumes "linit (nlj_left st) = Inr l" "yields Sized lnxt l ls" "restarts rinit rnxt us"
  shows "Execute (nlj_init linit) (nlj_next p pred lnxt rinit rnxt) (\<lambda>_. []) st =
    Inr (True, relational_join p (join_matches pred) (map fst ls) (map fst us))"
proof -
  obtain st' where "nlj_init linit st = Inr st'" "yields Sized (nlj_next p pred lnxt rinit rnxt) st'
      (unplaced (relational_join p (join_matches pred) (map fst ls) (map fst us)))"
    using rescan.nlj_join [OF restarts_rescan [OF assms(3)] _ sized_exact [OF assms(2)], of linit st p pred] assms(1) by blast
  from execute_yields [where init = "nlj_init linit", OF this] show ?thesis by (simp add: comp_def)
qed

lemma hash_join_run:
  assumes "linit (hj_left st) = Inr l" "yields Sized lnxt l ls" "rinit (hj_right st) = Inr r" "yields Sized rnxt r us"
    "length lk = length rk"
  shows "Execute (hash_join_init rk linit rinit rnxt) (hash_join_next p lk lnxt) (\<lambda>_. []) st =
    Inr (True, relational_join p (key_match lk rk) (map fst ls) (map fst us))"
proof -
  obtain st' where "hash_join_init rk linit rinit rnxt st = Inr st'" "yields Sized (hash_join_next p lk lnxt) st'
      (unplaced (relational_join p (key_match lk rk) (map fst ls) (map fst us)))"
    using hash_join_correct [where linit = linit and rinit = rinit, OF _ sized_exact [OF assms(2)] _ sized_exact [OF assms(4)] assms(5)]
      assms(1,3) by blast
  from execute_yields [where init = "hash_join_init rk linit rinit rnxt", OF this] show ?thesis by (simp add: comp_def)
qed

subsection \<open>Properties\<close>

text \<open>C17: a query that limits a projection of a filter returns the first tuples, up to the limit, of the
  projected tuples that pass the filter, from every state of the limit and of the projection and filter
  whose buffers are used up; in particular the polling ends.\<close>

theorem query_pipeline:
  assumes "init (child (child st)) = Inr c" "yields Sized nxt c xs" "child_offset st = 0" "child_offset (child st) = 0"
  shows "Execute (limit_init (buffered_init (buffered_init init)))
      (limit_next (projection_next (filter_next nxt (Some p)) f) limit) (\<lambda>_. []) (emitted, st) =
    Inr (True, take limit (map f (filter (\<lambda>t. p t = Some True) (map fst xs))))"
proof -
  let ?c = "child st\<lparr>child := c\<rparr>"
  let ?st = "st\<lparr>child := ?c\<rparr>"
  have "yields (Steady BUSTUB_BATCH_SIZE) (filter_next nxt (Some p)) ?c (filter (passes p) xs)"
    using filter_yields(1) [of nxt ?c xs BUSTUB_BATCH_SIZE p] assms(2,4) by (simp add: owed_def BUSTUB_BATCH_SIZE_def)
  then have "yields (Steady BUSTUB_BATCH_SIZE) (projection_next (filter_next nxt (Some p)) f) ?st (project f (filter (passes p) xs))"
    using assms(3) by (intro projection_yields) (simp, simp only: owed_child, simp add: owed_def)
  from limit_yields [OF this, of limit 0]
  have "yields (Steady BUSTUB_BATCH_SIZE) (limit_next (projection_next (filter_next nxt (Some p)) f) limit) (0, ?st)
    (take limit (project f (filter (passes p) xs)))" by simp
  from execute_yields [OF _ this, of "limit_init (buffered_init (buffered_init init))" "(emitted, st)"] assms(1)
  show ?thesis by (simp add: limit_init_def buffered_init_def take_map filter_map comp_def)
qed

text \<open>A nested loop join whose right side can be scanned again returns, for every left tuple in order,
  the joined tuples of its matches in order, and for a left join a padded tuple when it has none.\<close>

theorem nested_loop_join_result:
  assumes "linit (nlj_left st) = Inr l" "yields Sized lnxt l ls" "restarts rinit rnxt us"
  shows "Execute (nlj_init linit) (nlj_next p pred lnxt rinit rnxt) (\<lambda>_. []) st =
    Inr (True, concat (map (\<lambda>t.
      let ms = filter (\<lambda>u. case pred of None \<Rightarrow> True | Some q \<Rightarrow> q t u = Some True) (map fst us)
      in if ms = [] \<and> plan_type p = LEFT then [BuildJoinTuple p t None] else map (\<lambda>u. BuildJoinTuple p t (Some u)) ms)
      (map fst ls)))"
  using nlj_run [of linit st l lnxt ls rinit rnxt us p pred] assms by (simp add: relational_join_def join_rows_def [abs_def] join_matches_def [abs_def])


text \<open>a nested loop join whose right side is a limit over a filter is wrong: the first scan leaves a row
  in the filter's buffer, initialising the filter again does not drop it, and the second left tuple is joined with
  it. The join of \<open>7\<close> and \<open>8\<close> with the first two positive rows of \<open>0, 1, 2, 3\<close> pairs \<open>8\<close> with \<open>3\<close> and \<open>1\<close>.\<close>

theorem stale_filter_rows:
  "Execute (nlj_init values_init)
     (nlj_next \<lparr>plan_type = INNER, left_columns = 1, right_columns = 1\<rparr> None (values_next [[Some 7], [Some (8 :: nat)]])
        (limit_init (buffered_init values_init))
        (limit_next (filter_next (values_next [[Some 0], [Some 1], [Some 2], [Some 3]]) (Some (\<lambda>t. map_option (\<lambda>v. 0 < v) (t ! 0)))) 2))
     (\<lambda>_. []) \<lparr>nlj_left = 0, nlj_right = (0, \<lparr>child = 0, child_rows = [], child_offset = 0\<rparr>), left_tuples = [], left_idx = 0,
       right_tuples = [], right_idx = 0, has_current_left = False, current_left_tuple = [], current_match_found = False\<rparr> =
   Inr (True, [[Some 7, Some 1], [Some 7, Some 2], [Some 8, Some 3], [Some 8, Some 1]])"
  by (simp add: Execute_def PerformChecks_def nlj_init_def values_init_def PollExecutor_def drain_def drain_loop.simps nlj_next_def nlj_loop.simps
    nlj_advance_def values_next_def values_loop.simps limit_init_def buffered_init_def FetchNextRightTuple.simps limit_next_def
    filter_next_def filter_loop.simps BUSTUB_BATCH_SIZE_def BuildJoinTuple_def join_matches_def Let_def upt_conv_Cons)

subsection \<open>Witnesses\<close>

theorem query_pipeline_witness:
  "Execute (limit_init (buffered_init (buffered_init values_init)))
     (limit_next (projection_next (filter_next (values_next [4, 0, 5, 6 :: nat]) (Some (\<lambda>v. Some (0 < v)))) Suc) 2)
     (\<lambda>_. []) (0, \<lparr>child = \<lparr>child = 3, child_rows = [], child_offset = 0\<rparr>, child_rows = [], child_offset = 0\<rparr>) = Inr (True, [5, 6])"
  by (subst query_pipeline [where c = 0 and xs = "map (\<lambda>v. (v, NO_RID)) [4, 0, 5, 6]"])
    (use values_yields [of "[4, 0, 5, 6 :: nat]" 0] in \<open>simp_all add: values_init_def\<close>)

theorem nested_loop_join_result_witness:
  "Execute (nlj_init values_init)
     (nlj_next \<lparr>plan_type = LEFT, left_columns = 1, right_columns = 1\<rparr> (Some (\<lambda>l r. Some (l = r)))
        (values_next [[Some 7], [Some (8 :: nat)]]) values_init (values_next [[Some 8], [Some 8]]))
     (\<lambda>_. []) \<lparr>nlj_left = 0, nlj_right = 0, left_tuples = [], left_idx = 0, right_tuples = [], right_idx = 0,
       has_current_left = False, current_left_tuple = [], current_match_found = False\<rparr> =
   Inr (True, [[Some 7, None], [Some 8, Some 8], [Some 8, Some 8]])"
  by (subst nested_loop_join_result [where l = 0 and ls = "unplaced [[Some 7], [Some 8]]" and us = "unplaced [[Some 8], [Some 8]]"])
    (use values_yields [of "[[Some 7], [Some (8 :: nat)]]" 0] values_restarts [of "[[Some 8], [Some (8 :: nat)]]"] in
      \<open>simp_all add: values_init_def BuildJoinTuple_def\<close>)


end
