(* ===== verification/Types.thy ===== *)
theory Types
  imports Prelude "HOL-Library.Signed_Division"
begin

section \<open>SQL values\<close>

text \<open>
  Models the SQL types and values of \<^verbatim>\<open>src/include/type/\<close> and \<^verbatim>\<open>src/type/value.cpp\<close>,
  \<^verbatim>\<open>type.cpp\<close>: the type ids and limits, the constructors of a value, its checks, and the
  strings and numbers the C++ library converts. A value holds the number its field of the union
  holds; the null flag is recomputed, since every constructor sets it by comparing with the null
  of the type. A \<open>VARCHAR\<close> holds its bytes with the terminator.
\<close>

datatype type_id = INVALID | BOOLEAN | TINYINT | SMALLINT | INTEGER | BIGINT | DECIMAL | VARCHAR | TIMESTAMP | VECTOR

text \<open>
  What the values use of the platform: whether a signed overflow wraps around or, as in the C++
  standard, has no meaning; and the \<open>double\<close> type with its conversions, limits and printing.
\<close>

datatype 'a parsed = Parsed 'a | Out_of_range | Invalid_argument

record 'd machine =
  wraps :: bool
  of_integer :: "int \<Rightarrow> 'd"
  to_integer :: "'d \<Rightarrow> int"
  d_add :: "'d \<Rightarrow> 'd \<Rightarrow> 'd"
  d_sub :: "'d \<Rightarrow> 'd \<Rightarrow> 'd"
  d_mul :: "'d \<Rightarrow> 'd \<Rightarrow> 'd"
  d_div :: "'d \<Rightarrow> 'd \<Rightarrow> 'd"
  d_trunc :: "'d \<Rightarrow> 'd"
  d_sqrt :: "'d \<Rightarrow> 'd"
  d_eq :: "'d \<Rightarrow> 'd \<Rightarrow> bool"
  d_lt :: "'d \<Rightarrow> 'd \<Rightarrow> bool"
  d_le :: "'d \<Rightarrow> 'd \<Rightarrow> bool"
  DBL_LOWEST :: 'd
  DBL_MAX :: 'd
  FLT_LOWEST :: 'd
  d_print :: "'d \<Rightarrow> string"
  d_parse :: "string \<Rightarrow> 'd parsed"
  d_bytes :: "'d \<Rightarrow> nat list"
  d_of_bytes :: "nat list \<Rightarrow> 'd"

subsection \<open>Machine integers\<close>

text \<open>\<open>cast w\<close> is \<open>static_cast\<close> to the signed integer of \<open>w\<close> bits.\<close>

definition cast :: "nat \<Rightarrow> int \<Rightarrow> int" where
  "cast w i = signed_take_bit (w - 1) i"

definition int_min :: "nat \<Rightarrow> int" where
  "int_min w = - (2 ^ (w - 1))"

definition int_max :: "nat \<Rightarrow> int" where
  "int_max w = 2 ^ (w - 1) - 1"

definition fits :: "nat \<Rightarrow> int \<Rightarrow> bool" where
  "fits w i \<longleftrightarrow> int_min w \<le> i \<and> i \<le> int_max w"

text \<open>The width at which C++ computes with operands of two widths, and the result of a signed
  operation with the mathematical value \<open>i\<close>.\<close>

definition promoted :: "nat \<Rightarrow> nat \<Rightarrow> nat" where
  "promoted w1 w2 = max 32 (max w1 w2)"

definition signed_arith :: "'d machine \<Rightarrow> nat \<Rightarrow> int \<Rightarrow> int result" where
  "signed_arith M w i = (if fits w i then Inr i else if wraps M then Inr (cast w i) else Inl Undefined)"

text \<open>The conversion of a double to an integer of \<open>w\<close> bits truncates; it has no meaning out of range.\<close>

definition double_cast :: "'d machine \<Rightarrow> nat \<Rightarrow> 'd \<Rightarrow> int result" where
  "double_cast M w d = (if fits w (to_integer M d) then Inr (to_integer M d) else Inl Undefined)"

subsection \<open>Strings and numbers\<close>

fun print_nat :: "nat \<Rightarrow> string" where
  "print_nat n = (if n < 10 then [char_of (48 + n)] else print_nat (n div 10) @ [char_of (48 + n mod 10)])"

declare print_nat.simps [simp del]

definition print_int :: "int \<Rightarrow> string" where
  "print_int i = (if i < 0 then CHR ''-'' # print_nat (nat (- i)) else print_nat (nat i))"

definition is_digit :: "char \<Rightarrow> bool" where
  "is_digit c \<longleftrightarrow> 48 \<le> (of_char c :: nat) \<and> (of_char c :: nat) \<le> 57"

definition is_space :: "char \<Rightarrow> bool" where
  "is_space c \<longleftrightarrow> (of_char c :: nat) = 32 \<or> (9 \<le> (of_char c :: nat) \<and> (of_char c :: nat) \<le> 13)"

definition digits_value :: "string \<Rightarrow> nat" where
  "digits_value s = foldl (\<lambda>n c. n * 10 + (of_char c - 48)) 0 s"

text \<open>\<open>stoi\<close> and \<open>stoll\<close>: white space, a sign, and digits up to the first other character.\<close>

definition parse_int :: "nat \<Rightarrow> string \<Rightarrow> int parsed" where
  "parse_int w s =
     (let s1 = dropWhile is_space s;
          negative = (s1 \<noteq> [] \<and> hd s1 = CHR ''-'');
          s2 = (if s1 \<noteq> [] \<and> (hd s1 = CHR ''-'' \<or> hd s1 = CHR ''+'') then tl s1 else s1);
          ds = takeWhile is_digit s2;
          i = (if negative then - int (digits_value ds) else int (digits_value ds))
      in if ds = [] then Invalid_argument else if fits w i then Parsed i else Out_of_range)"

text \<open>\<open>tolower\<close> on the characters of ASCII.\<close>

definition to_lower :: "char \<Rightarrow> char" where
  "to_lower c = (if 65 \<le> (of_char c :: nat) \<and> (of_char c :: nat) \<le> 90 then char_of ((of_char c :: nat) + 32) else c)"

subsection \<open>Limits\<close>

definition BUSTUB_INT8_MIN :: int where "BUSTUB_INT8_MIN = -127"
definition BUSTUB_INT16_MIN :: int where "BUSTUB_INT16_MIN = -32767"
definition BUSTUB_INT32_MIN :: int where "BUSTUB_INT32_MIN = -2147483647"
definition BUSTUB_INT64_MIN :: int where "BUSTUB_INT64_MIN = -9223372036854775807"
definition BUSTUB_INT8_MAX :: int where "BUSTUB_INT8_MAX = 127"
definition BUSTUB_INT16_MAX :: int where "BUSTUB_INT16_MAX = 32767"
definition BUSTUB_INT32_MAX :: int where "BUSTUB_INT32_MAX = 2147483647"
definition BUSTUB_INT64_MAX :: int where "BUSTUB_INT64_MAX = 9223372036854775807"
definition BUSTUB_INT8_NULL :: int where "BUSTUB_INT8_NULL = -128"
definition BUSTUB_INT16_NULL :: int where "BUSTUB_INT16_NULL = -32768"
definition BUSTUB_INT32_NULL :: int where "BUSTUB_INT32_NULL = -2147483648"
definition BUSTUB_INT64_NULL :: int where "BUSTUB_INT64_NULL = -9223372036854775808"
definition BUSTUB_BOOLEAN_NULL :: int where "BUSTUB_BOOLEAN_NULL = -128"
definition BUSTUB_TIMESTAMP_NULL :: nat where "BUSTUB_TIMESTAMP_NULL = 18446744073709551615"
definition BUSTUB_TIMESTAMP_MAX :: nat where "BUSTUB_TIMESTAMP_MAX = 11231999986399999999"

lemmas limits =
  BUSTUB_INT8_MIN_def BUSTUB_INT16_MIN_def BUSTUB_INT32_MIN_def BUSTUB_INT64_MIN_def
  BUSTUB_INT8_MAX_def BUSTUB_INT16_MAX_def BUSTUB_INT32_MAX_def BUSTUB_INT64_MAX_def
  BUSTUB_INT8_NULL_def BUSTUB_INT16_NULL_def BUSTUB_INT32_NULL_def BUSTUB_INT64_NULL_def
  BUSTUB_BOOLEAN_NULL_def BUSTUB_TIMESTAMP_NULL_def BUSTUB_TIMESTAMP_MAX_def

definition BUSTUB_DECIMAL_NULL :: "'d machine \<Rightarrow> 'd" where "BUSTUB_DECIMAL_NULL M = DBL_LOWEST M"
definition BUSTUB_DECIMAL_MIN :: "'d machine \<Rightarrow> 'd" where "BUSTUB_DECIMAL_MIN M = FLT_LOWEST M"
definition BUSTUB_DECIMAL_MAX :: "'d machine \<Rightarrow> 'd" where "BUSTUB_DECIMAL_MAX M = DBL_MAX M"

subsection \<open>Values\<close>

datatype 'd val = Invalid | Boolean int | Tinyint int | Smallint int | Integer int | Bigint int |
  Decimal 'd | Varchar "string option" | Timestamp nat

fun GetTypeId :: "'d val \<Rightarrow> type_id" where
  "GetTypeId Invalid = INVALID"
| "GetTypeId (Boolean i) = BOOLEAN"
| "GetTypeId (Tinyint i) = TINYINT"
| "GetTypeId (Smallint i) = SMALLINT"
| "GetTypeId (Integer i) = INTEGER"
| "GetTypeId (Bigint i) = BIGINT"
| "GetTypeId (Decimal d) = DECIMAL"
| "GetTypeId (Varchar s) = VARCHAR"
| "GetTypeId (Timestamp n) = TIMESTAMP"

fun IsNull :: "'d machine \<Rightarrow> 'd val \<Rightarrow> bool" where
  "IsNull M Invalid \<longleftrightarrow> True"
| "IsNull M (Boolean i) \<longleftrightarrow> i = BUSTUB_BOOLEAN_NULL"
| "IsNull M (Tinyint i) \<longleftrightarrow> i = BUSTUB_INT8_NULL"
| "IsNull M (Smallint i) \<longleftrightarrow> i = BUSTUB_INT16_NULL"
| "IsNull M (Integer i) \<longleftrightarrow> i = BUSTUB_INT32_NULL"
| "IsNull M (Bigint i) \<longleftrightarrow> i = BUSTUB_INT64_NULL"
| "IsNull M (Decimal d) \<longleftrightarrow> d_eq M d (BUSTUB_DECIMAL_NULL M)"
| "IsNull M (Varchar s) \<longleftrightarrow> s = None"
| "IsNull M (Timestamp n) \<longleftrightarrow> n = BUSTUB_TIMESTAMP_NULL"

text \<open>\<open>GetAs\<close> of a signed integer type of \<open>w\<close> bits, of a double and of an unsigned 64-bit integer.
  The operations read a value only at its own type.\<close>

fun GetAs :: "nat \<Rightarrow> 'd val \<Rightarrow> int" where
  "GetAs w (Boolean i) = cast w i"
| "GetAs w (Tinyint i) = cast w i"
| "GetAs w (Smallint i) = cast w i"
| "GetAs w (Integer i) = cast w i"
| "GetAs w (Bigint i) = cast w i"
| "GetAs w (Timestamp n) = cast w (int n)"
| "GetAs w v = 0"

fun GetAsDouble :: "'d machine \<Rightarrow> 'd val \<Rightarrow> 'd" where
  "GetAsDouble M (Decimal d) = d"
| "GetAsDouble M v = of_integer M 0"

fun GetAsUint64 :: "'d val \<Rightarrow> nat" where
  "GetAsUint64 (Timestamp n) = n"
| "GetAsUint64 v = 0"

subsection \<open>Constructors\<close>

text \<open>The constructors from a 1-byte integer, from a wider signed integer, from an unsigned 64-bit
  integer, from a double, from bytes and from a string.\<close>

definition Value_int8 :: "type_id \<Rightarrow> int \<Rightarrow> 'd val result" where
  "Value_int8 t i =
     (case t of
        BOOLEAN \<Rightarrow> Inr (Boolean (cast 8 i))
      | TINYINT \<Rightarrow> Inr (Tinyint (cast 8 i))
      | SMALLINT \<Rightarrow> Inr (Smallint (cast 16 i))
      | INTEGER \<Rightarrow> Inr (Integer (cast 32 i))
      | BIGINT \<Rightarrow> Inr (Bigint (cast 64 i))
      | _ \<Rightarrow> Inl (Thrown ''Invalid Type for one-byte Value constructor''))"

definition Value_int16 :: "type_id \<Rightarrow> int \<Rightarrow> 'd val result" where
  "Value_int16 t i =
     (case t of
        BOOLEAN \<Rightarrow> Inr (Boolean (cast 8 i))
      | TINYINT \<Rightarrow> Inr (Tinyint (cast 8 i))
      | SMALLINT \<Rightarrow> Inr (Smallint (cast 16 i))
      | INTEGER \<Rightarrow> Inr (Integer (cast 32 i))
      | BIGINT \<Rightarrow> Inr (Bigint (cast 64 i))
      | TIMESTAMP \<Rightarrow> Inr (Timestamp (nat (take_bit 64 i)))
      | _ \<Rightarrow> Inl (Thrown ''Invalid Type for two-byte Value constructor''))"

definition Value_int32 :: "type_id \<Rightarrow> int \<Rightarrow> 'd val result" where
  "Value_int32 t i =
     (case t of
        BOOLEAN \<Rightarrow> Inr (Boolean (cast 8 i))
      | TINYINT \<Rightarrow> Inr (Tinyint (cast 8 i))
      | SMALLINT \<Rightarrow> Inr (Smallint (cast 16 i))
      | INTEGER \<Rightarrow> Inr (Integer (cast 32 i))
      | BIGINT \<Rightarrow> Inr (Bigint (cast 64 i))
      | TIMESTAMP \<Rightarrow> Inr (Timestamp (nat (take_bit 64 i)))
      | _ \<Rightarrow> Inl (Thrown ''Invalid Type for integer_ Value constructor''))"

definition Value_int64 :: "type_id \<Rightarrow> int \<Rightarrow> 'd val result" where
  "Value_int64 t i =
     (case t of
        BOOLEAN \<Rightarrow> Inr (Boolean (cast 8 i))
      | TINYINT \<Rightarrow> Inr (Tinyint (cast 8 i))
      | SMALLINT \<Rightarrow> Inr (Smallint (cast 16 i))
      | INTEGER \<Rightarrow> Inr (Integer (cast 32 i))
      | BIGINT \<Rightarrow> Inr (Bigint (cast 64 i))
      | TIMESTAMP \<Rightarrow> Inr (Timestamp (nat (take_bit 64 i)))
      | _ \<Rightarrow> Inl (Thrown ''Invalid Type for eight-byte Value constructor''))"

definition Value_uint64 :: "type_id \<Rightarrow> nat \<Rightarrow> 'd val result" where
  "Value_uint64 t n =
     (case t of
        BIGINT \<Rightarrow> Inr (Bigint (cast 64 (int n)))
      | TIMESTAMP \<Rightarrow> Inr (Timestamp n)
      | _ \<Rightarrow> Inl (Thrown ''Invalid Type for timestamp_ Value constructor''))"

definition Value_double :: "type_id \<Rightarrow> 'd \<Rightarrow> 'd val result" where
  "Value_double t d = (case t of DECIMAL \<Rightarrow> Inr (Decimal d) | _ \<Rightarrow> Inl (Thrown ''Invalid Type for double Value constructor''))"

definition Value_data :: "type_id \<Rightarrow> string option \<Rightarrow> 'd val result" where
  "Value_data t bytes =
     (case t of VARCHAR \<Rightarrow> Inr (Varchar bytes) | _ \<Rightarrow> Inl (Thrown ''Invalid Type  for variable-length Value constructor''))"

definition Value_string :: "type_id \<Rightarrow> string \<Rightarrow> 'd val result" where
  "Value_string t s =
     (case t of VARCHAR \<Rightarrow> Inr (Varchar (Some (s @ [CHR 0x00])))
      | _ \<Rightarrow> Inl (Thrown ''Invalid Type  for variable-length Value constructor''))"

text \<open>The constructor a result of \<open>w\<close> bits selects.\<close>

definition Value_int :: "nat \<Rightarrow> type_id \<Rightarrow> int \<Rightarrow> 'd val result" where
  "Value_int w = (if w \<le> 8 then Value_int8 else if w \<le> 16 then Value_int16 else if w \<le> 32 then Value_int32 else Value_int64)"

subsection \<open>Checks\<close>

definition CheckInteger :: "'d val \<Rightarrow> bool" where
  "CheckInteger v = (case GetTypeId v of TINYINT \<Rightarrow> True | SMALLINT \<Rightarrow> True | INTEGER \<Rightarrow> True | BIGINT \<Rightarrow> True | _ \<Rightarrow> False)"

definition CheckComparable :: "'d val \<Rightarrow> 'd val \<Rightarrow> bool" where
  "CheckComparable v o' =
     (case GetTypeId v of
        BOOLEAN \<Rightarrow> GetTypeId o' = BOOLEAN \<or> GetTypeId o' = VARCHAR
      | TINYINT \<Rightarrow> GetTypeId o' \<in> {TINYINT, SMALLINT, INTEGER, BIGINT, DECIMAL, VARCHAR}
      | SMALLINT \<Rightarrow> GetTypeId o' \<in> {TINYINT, SMALLINT, INTEGER, BIGINT, DECIMAL, VARCHAR}
      | INTEGER \<Rightarrow> GetTypeId o' \<in> {TINYINT, SMALLINT, INTEGER, BIGINT, DECIMAL, VARCHAR}
      | BIGINT \<Rightarrow> GetTypeId o' \<in> {TINYINT, SMALLINT, INTEGER, BIGINT, DECIMAL, VARCHAR}
      | DECIMAL \<Rightarrow> GetTypeId o' \<in> {TINYINT, SMALLINT, INTEGER, BIGINT, DECIMAL, VARCHAR}
      | VARCHAR \<Rightarrow> True
      | _ \<Rightarrow> False)"

definition GetTypeSize :: "type_id \<Rightarrow> nat result" where
  "GetTypeSize t =
     (case t of
        BOOLEAN \<Rightarrow> Inr 1 | TINYINT \<Rightarrow> Inr 1 | SMALLINT \<Rightarrow> Inr 2 | INTEGER \<Rightarrow> Inr 4
      | BIGINT \<Rightarrow> Inr 8 | DECIMAL \<Rightarrow> Inr 8 | TIMESTAMP \<Rightarrow> Inr 8 | VARCHAR \<Rightarrow> Inr 0
      | _ \<Rightarrow> Inl (Thrown ''Unknown type.''))"

definition IsCoercableFrom :: "type_id \<Rightarrow> type_id \<Rightarrow> bool" where
  "IsCoercableFrom self t =
     (let numeric = {TINYINT, SMALLINT, INTEGER, BIGINT, DECIMAL} in
      case self of
        INVALID \<Rightarrow> False
      | BOOLEAN \<Rightarrow> True
      | TIMESTAMP \<Rightarrow> t = VARCHAR \<or> t = TIMESTAMP
      | VARCHAR \<Rightarrow> t \<in> numeric \<union> {BOOLEAN, TIMESTAMP, VARCHAR}
      | _ \<Rightarrow> if self \<in> numeric then t \<in> numeric \<union> {VARCHAR} else t = self)"

definition TypeIdToString :: "type_id \<Rightarrow> string" where
  "TypeIdToString t =
     (case t of
        INVALID \<Rightarrow> ''INVALID'' | BOOLEAN \<Rightarrow> ''BOOLEAN'' | TINYINT \<Rightarrow> ''TINYINT'' | SMALLINT \<Rightarrow> ''SMALLINT''
      | INTEGER \<Rightarrow> ''INTEGER'' | BIGINT \<Rightarrow> ''BIGINT'' | DECIMAL \<Rightarrow> ''DECIMAL'' | TIMESTAMP \<Rightarrow> ''TIMESTAMP''
      | VARCHAR \<Rightarrow> ''VARCHAR'' | VECTOR \<Rightarrow> ''VECTOR'')"

definition GetMinValue :: "'d machine \<Rightarrow> type_id \<Rightarrow> 'd val result" where
  "GetMinValue M t =
     (case t of
        BOOLEAN \<Rightarrow> Value_int32 t 0
      | TINYINT \<Rightarrow> Value_int8 t BUSTUB_INT8_MIN
      | SMALLINT \<Rightarrow> Value_int16 t BUSTUB_INT16_MIN
      | INTEGER \<Rightarrow> Value_int32 t BUSTUB_INT32_MIN
      | BIGINT \<Rightarrow> Value_int64 t BUSTUB_INT64_MIN
      | DECIMAL \<Rightarrow> Value_double t (BUSTUB_DECIMAL_MIN M)
      | TIMESTAMP \<Rightarrow> Value_int32 t 0
      | VARCHAR \<Rightarrow> Value_string t []
      | _ \<Rightarrow> Inl (Thrown ''Cannot get minimal value.''))"

definition GetMaxValue :: "'d machine \<Rightarrow> type_id \<Rightarrow> 'd val result" where
  "GetMaxValue M t =
     (case t of
        BOOLEAN \<Rightarrow> Value_int32 t 1
      | TINYINT \<Rightarrow> Value_int8 t BUSTUB_INT8_MAX
      | SMALLINT \<Rightarrow> Value_int16 t BUSTUB_INT16_MAX
      | INTEGER \<Rightarrow> Value_int32 t BUSTUB_INT32_MAX
      | BIGINT \<Rightarrow> Value_int64 t BUSTUB_INT64_MAX
      | DECIMAL \<Rightarrow> Value_double t (BUSTUB_DECIMAL_MAX M)
      | TIMESTAMP \<Rightarrow> Value_uint64 t BUSTUB_TIMESTAMP_MAX
      | VARCHAR \<Rightarrow> Value_data t None
      | _ \<Rightarrow> Inl (Thrown ''Cannot get max value.''))"

datatype CmpBool = CmpFalse | CmpTrue | CmpNull

definition GetCmpBool :: "bool \<Rightarrow> CmpBool" where
  "GetCmpBool b = (if b then CmpTrue else CmpFalse)"

end
