(* ===== verification/Integer_Parent.thy ===== *)
theory Integer_Parent
  imports Types
begin

section \<open>Integers of the common sizes\<close>

text \<open>
  Models \<^verbatim>\<open>src/include/type/integer_parent_type.h\<close> and \<^verbatim>\<open>src/type/varlen_type.cpp\<close>: the
  arithmetic templates the four integer types instantiate at the widths of their operands (\<open>x\<close> has
  \<open>w1\<close> bits and \<open>y\<close> has \<open>w2\<close> bits), the checks every operation starts with, and the strings
  integers are read from. The operators and methods of a type that a template or a macro uses are
  its arguments.
\<close>

definition out_of_range :: "'a result" where
  "out_of_range = Inl (Thrown ''Numeric value out of range.'')"

definition type_error :: "'a result" where
  "type_error = Inl (Thrown ''type error'')"

text \<open>Integer division truncates; a quotient that is not representable has no meaning.\<close>

definition signed_div :: "nat \<Rightarrow> int \<Rightarrow> int \<Rightarrow> int result" where
  "signed_div w x y = (if y \<noteq> 0 \<and> fits w (x sdiv y) then Inr (x sdiv y) else Inl Undefined)"

definition signed_mod :: "nat \<Rightarrow> int \<Rightarrow> int \<Rightarrow> int result" where
  "signed_mod w x y = (if y \<noteq> 0 \<and> fits w (x sdiv y) then Inr (x smod y) else Inl Undefined)"

definition AddValue :: "'d machine \<Rightarrow> nat \<Rightarrow> nat \<Rightarrow> 'd val \<Rightarrow> 'd val \<Rightarrow> 'd val result" where
  "AddValue M w1 w2 left right =
     (let x = GetAs w1 left; y = GetAs w2 right in
      rbind (signed_arith M (promoted w1 w2) (x + y)) (\<lambda>s.
        let sum1 = cast w1 s; sum2 = cast w2 s in
        if s \<noteq> sum1 \<and> s \<noteq> sum2 then out_of_range
        else if w2 \<le> w1 then
          (if (x > 0 \<and> y > 0 \<and> sum1 < 0) \<or> (x < 0 \<and> y < 0 \<and> sum1 > 0) then out_of_range
           else Value_int w1 (GetTypeId left) sum1)
        else if (x > 0 \<and> y > 0 \<and> sum2 < 0) \<or> (x < 0 \<and> y < 0 \<and> sum2 > 0) then out_of_range
        else Value_int w2 (GetTypeId right) sum2))"

definition SubtractValue :: "'d machine \<Rightarrow> nat \<Rightarrow> nat \<Rightarrow> 'd val \<Rightarrow> 'd val \<Rightarrow> 'd val result" where
  "SubtractValue M w1 w2 left right =
     (let x = GetAs w1 left; y = GetAs w2 right in
      rbind (signed_arith M (promoted w1 w2) (x - y)) (\<lambda>s.
        let diff1 = cast w1 s; diff2 = cast w2 s in
        if s \<noteq> diff1 \<and> s \<noteq> diff2 then out_of_range
        else if w2 \<le> w1 then
          (if (x > 0 \<and> y < 0 \<and> diff1 < 0) \<or> (x < 0 \<and> y > 0 \<and> diff1 > 0) then out_of_range
           else Value_int w1 (GetTypeId left) diff1)
        else if (x > 0 \<and> y < 0 \<and> diff2 < 0) \<or> (x < 0 \<and> y > 0 \<and> diff2 > 0) then out_of_range
        else Value_int w2 (GetTypeId right) diff2))"

definition MultiplyValue :: "'d machine \<Rightarrow> nat \<Rightarrow> nat \<Rightarrow> 'd val \<Rightarrow> 'd val \<Rightarrow> 'd val result" where
  "MultiplyValue M w1 w2 left right =
     (let x = GetAs w1 left; y = GetAs w2 right in
      rbind (signed_arith M (promoted w1 w2) (x * y)) (\<lambda>s.
        let prod1 = cast w1 s; prod2 = cast w2 s in
        if s \<noteq> prod1 \<and> s \<noteq> prod2 then out_of_range
        else if w2 \<le> w1 then
          rbind (if y \<noteq> 0 then rbind (signed_div (promoted w1 w2) prod1 y) (\<lambda>q. Inr (q \<noteq> x)) else Inr False)
            (\<lambda>bad. if bad then out_of_range else Value_int w1 (GetTypeId left) prod1)
        else
          rbind (if y \<noteq> 0 then rbind (signed_div (promoted w1 w2) prod2 y) (\<lambda>q. Inr (q \<noteq> x)) else Inr False)
            (\<lambda>bad. if bad then out_of_range else Value_int w2 (GetTypeId right) prod2)))"

definition DivideValue :: "'d machine \<Rightarrow> nat \<Rightarrow> nat \<Rightarrow> 'd val \<Rightarrow> 'd val \<Rightarrow> 'd val result" where
  "DivideValue M w1 w2 left right =
     (let x = GetAs w1 left; y = GetAs w2 right in
      if y = 0 then Inl (Thrown ''Division by zero.'')
      else rbind (signed_div (promoted w1 w2) x y) (\<lambda>q.
        let quot1 = cast w1 q; quot2 = cast w2 q in
        if w2 \<le> w1 then Value_int w1 (GetTypeId left) quot1 else Value_int w2 (GetTypeId right) quot2))"

definition ModuloValue :: "'d machine \<Rightarrow> nat \<Rightarrow> nat \<Rightarrow> 'd val \<Rightarrow> 'd val \<Rightarrow> 'd val result" where
  "ModuloValue M w1 w2 left right =
     (let x = GetAs w1 left; y = GetAs w2 right in
      if y = 0 then Inl (Thrown ''Division by zero.'')
      else rbind (signed_mod (promoted w1 w2) x y) (\<lambda>r.
        let quot1 = cast w1 r; quot2 = cast w2 r in
        if w2 \<le> w1 then Value_int w1 (GetTypeId left) quot1 else Value_int w2 (GetTypeId right) quot2))"

subsection \<open>The parts the operations share\<close>

text \<open>The checks of a binary operation, with what it does on a null and otherwise.\<close>

definition int_operation :: "'d machine \<Rightarrow> 'a result \<Rightarrow> 'a result \<Rightarrow> 'd val \<Rightarrow> 'd val \<Rightarrow> 'a result" where
  "int_operation M on_null body left right =
     (if \<not> CheckInteger left \<or> \<not> CheckComparable left right then Inl Assertion
      else if IsNull M left \<or> IsNull M right then on_null
      else body)"

text \<open>The switch on the type of the right operand, where the left one has \<open>w\<close> bits: an integer
  operand of \<open>w2\<close> bits, a double, or a string cast to the integer type.\<close>

definition right_switch ::
    "nat \<Rightarrow> (nat \<Rightarrow> 'd val \<Rightarrow> 'a result) \<Rightarrow> 'a result \<Rightarrow> ('d val \<Rightarrow> 'd val result) \<Rightarrow> 'd val \<Rightarrow> 'a result" where
  "right_switch w on_int on_double cast_varchar right =
     (case GetTypeId right of
        TINYINT \<Rightarrow> on_int 8 right
      | SMALLINT \<Rightarrow> on_int 16 right
      | INTEGER \<Rightarrow> on_int 32 right
      | BIGINT \<Rightarrow> on_int 64 right
      | DECIMAL \<Rightarrow> on_double
      | VARCHAR \<Rightarrow> rbind (cast_varchar right) (on_int w)
      | _ \<Rightarrow> type_error)"

text \<open>The common form of the comparison macros.\<close>

definition int_compare ::
    "'d machine \<Rightarrow> nat \<Rightarrow> ('d val \<Rightarrow> 'd val result) \<Rightarrow> (int \<Rightarrow> int \<Rightarrow> bool) \<Rightarrow> ('d \<Rightarrow> 'd \<Rightarrow> bool) \<Rightarrow> 'd val \<Rightarrow> 'd val \<Rightarrow> CmpBool result" where
  "int_compare M w cast_varchar cmp dcmp left right =
     right_switch w (\<lambda>w2 r. Inr (GetCmpBool (cmp (GetAs w left) (GetAs w2 r))))
       (Inr (GetCmpBool (dcmp (of_integer M (GetAs w left)) (GetAsDouble M right)))) cast_varchar right"

text \<open>The common form of the arithmetic macros.\<close>

definition int_modify ::
    "'d machine \<Rightarrow> nat \<Rightarrow> ('d val \<Rightarrow> 'd val result) \<Rightarrow> (nat \<Rightarrow> nat \<Rightarrow> 'd val \<Rightarrow> 'd val \<Rightarrow> 'd val result) \<Rightarrow> ('d \<Rightarrow> 'd \<Rightarrow> 'd) \<Rightarrow>
     'd val \<Rightarrow> 'd val \<Rightarrow> 'd val result" where
  "int_modify M w cast_varchar method dop left right =
     right_switch w (\<lambda>w2 r. method w w2 left r)
       (Value_double DECIMAL (dop (of_integer M (GetAs w left)) (GetAsDouble M right))) cast_varchar right"

text \<open>The remainder of doubles.\<close>

definition ValMod :: "'d machine \<Rightarrow> 'd \<Rightarrow> 'd \<Rightarrow> 'd" where
  "ValMod M x y = d_sub M x (d_mul M (d_trunc M (d_div M x y)) y)"

text \<open>The double comparisons that are not primitive.\<close>

definition d_ne :: "'d machine \<Rightarrow> 'd \<Rightarrow> 'd \<Rightarrow> bool" where "d_ne M x y \<longleftrightarrow> \<not> d_eq M x y"
definition d_gt :: "'d machine \<Rightarrow> 'd \<Rightarrow> 'd \<Rightarrow> bool" where "d_gt M x y \<longleftrightarrow> d_lt M y x"
definition d_ge :: "'d machine \<Rightarrow> 'd \<Rightarrow> 'd \<Rightarrow> bool" where "d_ge M x y \<longleftrightarrow> d_le M y x"

subsection \<open>Bytes\<close>

definition le_bytes :: "nat \<Rightarrow> int \<Rightarrow> nat list" where
  "le_bytes k i = map (\<lambda>j. nat (take_bit 8 (drop_bit (8 * j) i))) [0..<k]"

definition of_le_bytes :: "nat list \<Rightarrow> int" where
  "of_le_bytes bs = foldr (\<lambda>b n. int b + 256 * n) bs 0"

definition read_bytes :: "nat \<Rightarrow> nat list \<Rightarrow> nat list result" where
  "read_bytes k storage = (if length storage < k then Inl Undefined else Inr (take k storage))"

subsection \<open>Strings\<close>

definition VarlenType_ToString :: "'d val \<Rightarrow> string" where
  "VarlenType_ToString v = (case v of Varchar (Some bytes) \<Rightarrow> butlast bytes | _ \<Rightarrow> ''varlen_null'')"

text \<open>What a cast does with the result of \<open>stoi\<close> and its relatives: the handler catches
  \<open>std::out_of_range\<close> only.\<close>

definition parsed_or :: "'a parsed \<Rightarrow> ('a \<Rightarrow> 'b result) \<Rightarrow> 'b result" where
  "parsed_or p k = (case p of Parsed x \<Rightarrow> k x | Out_of_range \<Rightarrow> out_of_range | Invalid_argument \<Rightarrow> Inl (Thrown ''std::invalid_argument''))"

definition VarlenType_CastAs :: "'d machine \<Rightarrow> 'd val \<Rightarrow> type_id \<Rightarrow> 'd val result" where
  "VarlenType_CastAs M v t =
     (let str = VarlenType_ToString v in
      case t of
        BOOLEAN \<Rightarrow>
          (let low = map to_lower str in
           if low = ''true'' \<or> low = ''1'' \<or> low = ''t'' then Value_int32 t 1
           else if low = ''false'' \<or> low = ''0'' \<or> low = ''f'' then Value_int32 t 0
           else Inl (Thrown ''Boolean value format error.''))
      | TINYINT \<Rightarrow>
          parsed_or (parse_int 32 str) (\<lambda>i. let tinyint = cast 8 i in
            if tinyint < BUSTUB_INT8_MIN then out_of_range else Value_int8 t tinyint)
      | SMALLINT \<Rightarrow>
          parsed_or (parse_int 32 str) (\<lambda>i. let smallint = cast 16 i in
            if smallint < BUSTUB_INT16_MIN then out_of_range else Value_int16 t smallint)
      | INTEGER \<Rightarrow>
          parsed_or (parse_int 32 str) (\<lambda>i.
            if i > BUSTUB_INT32_MAX \<or> i < BUSTUB_INT32_MIN then out_of_range else Value_int32 t i)
      | BIGINT \<Rightarrow>
          parsed_or (parse_int 64 str) (\<lambda>i.
            if i > BUSTUB_INT64_MAX \<or> i < BUSTUB_INT64_MIN then out_of_range else Value_int64 t i)
      | DECIMAL \<Rightarrow>
          parsed_or (d_parse M str) (\<lambda>d.
            if d_gt M d (BUSTUB_DECIMAL_MAX M) \<or> d_lt M d (BUSTUB_DECIMAL_MIN M) then out_of_range else Value_double t d)
      | VARCHAR \<Rightarrow> Inr v
      | _ \<Rightarrow> Inl (Thrown (''VARCHAR is not coercable to '' @ TypeIdToString t)))"

text \<open>\<open>memcmp\<close> up to the shorter length, then the lengths.\<close>

fun memcmp :: "string \<Rightarrow> string \<Rightarrow> int" where
  "memcmp (a # as) (b # bs) = (if a = b then memcmp as bs else of_char a - of_char b)"
| "memcmp _ _ = 0"

definition CompareStrings :: "string \<Rightarrow> string \<Rightarrow> int" where
  "CompareStrings s1 s2 =
     (let ret = memcmp s1 s2 in if ret = 0 \<and> length s1 \<noteq> length s2 then int (length s1) - int (length s2) else ret)"

text \<open>The comparison macro; an operand without its terminator has length -1, which is asserted against.\<close>

definition VARLEN_COMPARE_FUNC ::
    "('d val \<Rightarrow> type_id \<Rightarrow> 'd val result) \<Rightarrow> (int \<Rightarrow> int \<Rightarrow> bool) \<Rightarrow> 'd val \<Rightarrow> 'd val \<Rightarrow> CmpBool result" where
  "VARLEN_COMPARE_FUNC cast_as cmp left right =
     rbind (if GetTypeId right = VARCHAR then Inr right else cast_as right VARCHAR) (\<lambda>r.
       case (left, r) of
         (Varchar (Some b1), Varchar (Some b2)) \<Rightarrow>
           if b1 = [] \<or> b2 = [] then Inl Assertion
           else Inr (GetCmpBool (cmp (CompareStrings (butlast b1) (butlast b2)) 0))
       | _ \<Rightarrow> Inl Assertion)"

definition comparable_operation :: "'d machine \<Rightarrow> 'a result \<Rightarrow> 'a result \<Rightarrow> 'd val \<Rightarrow> 'd val \<Rightarrow> 'a result" where
  "comparable_operation M on_null body left right =
     (if \<not> CheckComparable left right then Inl Assertion else if IsNull M left \<or> IsNull M right then on_null else body)"

definition VarlenType_SerializeTo :: "'d val \<Rightarrow> nat list" where
  "VarlenType_SerializeTo v =
     (case v of
        Varchar (Some bytes) \<Rightarrow> le_bytes 4 (int (length bytes)) @ map of_char bytes
      | _ \<Rightarrow> le_bytes 4 4294967295)"

definition VarlenType_DeserializeFrom :: "nat list \<Rightarrow> 'd val result" where
  "VarlenType_DeserializeFrom storage =
     rbind (read_bytes 4 storage) (\<lambda>bs.
       let len = of_le_bytes bs in
       if len = 4294967295 then Value_data VARCHAR None
       else rbind (read_bytes (nat len) (drop 4 storage)) (\<lambda>data. Value_data VARCHAR (Some (map char_of data))))"

end
