(* ===== verification/Integer_Types.thy ===== *)
theory Integer_Types
  imports Integer_Parent
begin

section \<open>The integer types\<close>

text \<open>
  Models \<^verbatim>\<open>src/type/tinyint_type.cpp\<close>, \<^verbatim>\<open>smallint_type.cpp\<close>, \<^verbatim>\<open>integer_type.cpp\<close> and
  \<^verbatim>\<open>bigint_type.cpp\<close>: each file's two macros and its methods, under the name of the class. The four
  files differ in the width, in the null an operation with a null returns and in small points of
  their methods.
\<close>

subsection \<open>Zero\<close>

definition TinyintType_IsZero :: "'d val \<Rightarrow> bool" where "TinyintType_IsZero v \<longleftrightarrow> GetAs 8 v = 0"
definition SmallintType_IsZero :: "'d val \<Rightarrow> bool" where "SmallintType_IsZero v \<longleftrightarrow> GetAs 16 v = 0"
definition IntegerType_IsZero :: "'d val \<Rightarrow> bool" where "IntegerType_IsZero v \<longleftrightarrow> GetAs 32 v = 0"
definition BigintType_IsZero :: "'d val \<Rightarrow> bool" where "BigintType_IsZero v \<longleftrightarrow> GetAs 64 v = 0"

definition DecimalType_IsZero :: "'d machine \<Rightarrow> 'd val \<Rightarrow> bool" where
  "DecimalType_IsZero M v \<longleftrightarrow> d_eq M (GetAsDouble M v) (of_integer M 0)"

definition Value_IsZero :: "'d machine \<Rightarrow> 'd val \<Rightarrow> bool result" where
  "Value_IsZero M v =
     (case GetTypeId v of
        TINYINT \<Rightarrow> Inr (TinyintType_IsZero v)
      | SMALLINT \<Rightarrow> Inr (SmallintType_IsZero v)
      | INTEGER \<Rightarrow> Inr (IntegerType_IsZero v)
      | BIGINT \<Rightarrow> Inr (BigintType_IsZero v)
      | DECIMAL \<Rightarrow> Inr (DecimalType_IsZero M v)
      | _ \<Rightarrow> Inl (Thrown ''isZero not implemented''))"

text \<open>The guard of a division.\<close>

definition nonzero_then :: "'d machine \<Rightarrow> 'd val \<Rightarrow> 'a result \<Rightarrow> 'a result" where
  "nonzero_then M right body =
     rbind (Value_IsZero M right) (\<lambda>z. if z then Inl (Thrown ''Division by zero on right-hand side'') else body)"

subsection \<open>TINYINT\<close>

definition TINYINT_COMPARE_FUNC :: "'d machine \<Rightarrow> (int \<Rightarrow> int \<Rightarrow> bool) \<Rightarrow> ('d \<Rightarrow> 'd \<Rightarrow> bool) \<Rightarrow> 'd val \<Rightarrow> 'd val \<Rightarrow> CmpBool result" where
  "TINYINT_COMPARE_FUNC M = int_compare M 8 (\<lambda>r. VarlenType_CastAs M r TINYINT)"

definition TINYINT_MODIFY_FUNC ::
    "'d machine \<Rightarrow> (nat \<Rightarrow> nat \<Rightarrow> 'd val \<Rightarrow> 'd val \<Rightarrow> 'd val result) \<Rightarrow> ('d \<Rightarrow> 'd \<Rightarrow> 'd) \<Rightarrow> 'd val \<Rightarrow> 'd val \<Rightarrow> 'd val result" where
  "TINYINT_MODIFY_FUNC M = int_modify M 8 (\<lambda>r. VarlenType_CastAs M r TINYINT)"

definition TinyintType_OperateNull :: "'d machine \<Rightarrow> 'd val \<Rightarrow> 'd val \<Rightarrow> 'd val result" where
  "TinyintType_OperateNull M left right =
     (case GetTypeId right of
        TINYINT \<Rightarrow> Value_int8 TINYINT BUSTUB_INT8_NULL
      | SMALLINT \<Rightarrow> Value_int16 SMALLINT BUSTUB_INT16_NULL
      | INTEGER \<Rightarrow> Value_int32 INTEGER BUSTUB_INT32_NULL
      | BIGINT \<Rightarrow> Value_int64 BIGINT BUSTUB_INT64_NULL
      | DECIMAL \<Rightarrow> Value_double DECIMAL (BUSTUB_DECIMAL_NULL M)
      | _ \<Rightarrow> type_error)"

definition TinyintType_Add :: "'d machine \<Rightarrow> 'd val \<Rightarrow> 'd val \<Rightarrow> 'd val result" where
  "TinyintType_Add M left right = int_operation M (TinyintType_OperateNull M left right)
     (TINYINT_MODIFY_FUNC M (AddValue M) (d_add M) left right) left right"

definition TinyintType_Subtract :: "'d machine \<Rightarrow> 'd val \<Rightarrow> 'd val \<Rightarrow> 'd val result" where
  "TinyintType_Subtract M left right = int_operation M (TinyintType_OperateNull M left right)
     (TINYINT_MODIFY_FUNC M (SubtractValue M) (d_sub M) left right) left right"

definition TinyintType_Multiply :: "'d machine \<Rightarrow> 'd val \<Rightarrow> 'd val \<Rightarrow> 'd val result" where
  "TinyintType_Multiply M left right = int_operation M (TinyintType_OperateNull M left right)
     (TINYINT_MODIFY_FUNC M (MultiplyValue M) (d_mul M) left right) left right"

definition TinyintType_Divide :: "'d machine \<Rightarrow> 'd val \<Rightarrow> 'd val \<Rightarrow> 'd val result" where
  "TinyintType_Divide M left right = int_operation M (TinyintType_OperateNull M left right)
     (nonzero_then M right (TINYINT_MODIFY_FUNC M (DivideValue M) (d_div M) left right)) left right"

definition TinyintType_Modulo :: "'d machine \<Rightarrow> 'd val \<Rightarrow> 'd val \<Rightarrow> 'd val result" where
  "TinyintType_Modulo M left right = int_operation M (TinyintType_OperateNull M left right)
     (nonzero_then M right
       (right_switch 8 (\<lambda>w2 r. ModuloValue M 8 w2 left r)
         (Value_double DECIMAL (ValMod M (of_integer M (GetAs 8 left)) (GetAsDouble M right)))
         (\<lambda>r. VarlenType_CastAs M r TINYINT) right)) left right"

definition TinyintType_Sqrt :: "'d machine \<Rightarrow> 'd val \<Rightarrow> 'd val result" where
  "TinyintType_Sqrt M v =
     (if \<not> CheckInteger v then Inl Assertion
      else if IsNull M v then Value_double DECIMAL (BUSTUB_DECIMAL_NULL M)
      else if GetAs 8 v < 0 then Inl (Thrown ''Cannot take square root of a negative number.'')
      else Value_double DECIMAL (d_sqrt M (of_integer M (GetAs 8 v))))"

definition TinyintType_CompareEquals :: "'d machine \<Rightarrow> 'd val \<Rightarrow> 'd val \<Rightarrow> CmpBool result" where
  "TinyintType_CompareEquals M left right =
     int_operation M (Inr CmpNull) (TINYINT_COMPARE_FUNC M (=) (d_eq M) left right) left right"

definition TinyintType_CompareNotEquals :: "'d machine \<Rightarrow> 'd val \<Rightarrow> 'd val \<Rightarrow> CmpBool result" where
  "TinyintType_CompareNotEquals M left right =
     int_operation M (Inr CmpNull) (TINYINT_COMPARE_FUNC M (\<noteq>) (d_ne M) left right) left right"

definition TinyintType_CompareLessThan :: "'d machine \<Rightarrow> 'd val \<Rightarrow> 'd val \<Rightarrow> CmpBool result" where
  "TinyintType_CompareLessThan M left right =
     int_operation M (Inr CmpNull) (TINYINT_COMPARE_FUNC M (<) (d_lt M) left right) left right"

definition TinyintType_CompareLessThanEquals :: "'d machine \<Rightarrow> 'd val \<Rightarrow> 'd val \<Rightarrow> CmpBool result" where
  "TinyintType_CompareLessThanEquals M left right =
     int_operation M (Inr CmpNull) (TINYINT_COMPARE_FUNC M (\<le>) (d_le M) left right) left right"

definition TinyintType_CompareGreaterThan :: "'d machine \<Rightarrow> 'd val \<Rightarrow> 'd val \<Rightarrow> CmpBool result" where
  "TinyintType_CompareGreaterThan M left right =
     int_operation M (Inr CmpNull) (TINYINT_COMPARE_FUNC M (>) (d_gt M) left right) left right"

definition TinyintType_CompareGreaterThanEquals :: "'d machine \<Rightarrow> 'd val \<Rightarrow> 'd val \<Rightarrow> CmpBool result" where
  "TinyintType_CompareGreaterThanEquals M left right =
     int_operation M (Inr CmpNull) (TINYINT_COMPARE_FUNC M (\<ge>) (d_ge M) left right) left right"

definition TinyintType_ToString :: "'d machine \<Rightarrow> 'd val \<Rightarrow> string result" where
  "TinyintType_ToString M v =
     (if \<not> CheckInteger v then Inl Assertion
      else if IsNull M v then Inr ''tinyint_null'' else Inr (print_int (GetAs 8 v)))"

definition TinyintType_SerializeTo :: "'d val \<Rightarrow> nat list" where "TinyintType_SerializeTo v = le_bytes 1 (GetAs 8 v)"

definition TinyintType_DeserializeFrom :: "nat list \<Rightarrow> 'd val result" where
  "TinyintType_DeserializeFrom storage = rbind (read_bytes 1 storage) (\<lambda>bs. Value_int8 TINYINT (cast 8 (of_le_bytes bs)))"

definition TinyintType_Copy :: "'d val \<Rightarrow> 'd val result" where
  "TinyintType_Copy v = (if \<not> CheckInteger v then Inl Assertion else Value_int8 TINYINT (GetAs 8 v))"

definition TinyintType_CastAs :: "'d machine \<Rightarrow> 'd val \<Rightarrow> type_id \<Rightarrow> 'd val result" where
  "TinyintType_CastAs M v t =
     (case t of
        TINYINT \<Rightarrow>
          if IsNull M v then Value_int8 t BUSTUB_INT8_NULL
          else TinyintType_Copy v
      | SMALLINT \<Rightarrow>
          if IsNull M v then Value_int16 t BUSTUB_INT16_NULL
          else Value_int16 t (cast 16 (GetAs 8 v))
      | INTEGER \<Rightarrow>
          if IsNull M v then Value_int32 t BUSTUB_INT32_NULL
          else Value_int32 t (cast 32 (GetAs 8 v))
      | BIGINT \<Rightarrow>
          if IsNull M v then Value_int64 t BUSTUB_INT64_NULL
          else Value_int64 t (cast 64 (GetAs 8 v))
      | DECIMAL \<Rightarrow>
          if IsNull M v then Value_double t (BUSTUB_DECIMAL_NULL M) else Value_double t (of_integer M (GetAs 8 v))
      | VARCHAR \<Rightarrow>
          if IsNull M v then Value_data VARCHAR None else rbind (TinyintType_ToString M v) (Value_string VARCHAR)
      | _ \<Rightarrow> Inl (Thrown (''tinyint is not coercable to '' @ TypeIdToString t)))"

subsection \<open>SMALLINT\<close>

definition SMALLINT_COMPARE_FUNC :: "'d machine \<Rightarrow> (int \<Rightarrow> int \<Rightarrow> bool) \<Rightarrow> ('d \<Rightarrow> 'd \<Rightarrow> bool) \<Rightarrow> 'd val \<Rightarrow> 'd val \<Rightarrow> CmpBool result" where
  "SMALLINT_COMPARE_FUNC M = int_compare M 16 (\<lambda>r. VarlenType_CastAs M r SMALLINT)"

definition SMALLINT_MODIFY_FUNC ::
    "'d machine \<Rightarrow> (nat \<Rightarrow> nat \<Rightarrow> 'd val \<Rightarrow> 'd val \<Rightarrow> 'd val result) \<Rightarrow> ('d \<Rightarrow> 'd \<Rightarrow> 'd) \<Rightarrow> 'd val \<Rightarrow> 'd val \<Rightarrow> 'd val result" where
  "SMALLINT_MODIFY_FUNC M = int_modify M 16 (\<lambda>r. VarlenType_CastAs M r SMALLINT)"

definition SmallintType_OperateNull :: "'d machine \<Rightarrow> 'd val \<Rightarrow> 'd val \<Rightarrow> 'd val result" where
  "SmallintType_OperateNull M left right =
     (case GetTypeId right of
        TINYINT \<Rightarrow> Value_int16 SMALLINT BUSTUB_INT16_NULL
      | SMALLINT \<Rightarrow> Value_int16 SMALLINT BUSTUB_INT16_NULL
      | INTEGER \<Rightarrow> Value_int32 INTEGER BUSTUB_INT32_NULL
      | BIGINT \<Rightarrow> Value_int64 BIGINT BUSTUB_INT64_NULL
      | DECIMAL \<Rightarrow> Value_double DECIMAL (BUSTUB_DECIMAL_NULL M)
      | _ \<Rightarrow> type_error)"

definition SmallintType_Add :: "'d machine \<Rightarrow> 'd val \<Rightarrow> 'd val \<Rightarrow> 'd val result" where
  "SmallintType_Add M left right = int_operation M (SmallintType_OperateNull M left right)
     (SMALLINT_MODIFY_FUNC M (AddValue M) (d_add M) left right) left right"

definition SmallintType_Subtract :: "'d machine \<Rightarrow> 'd val \<Rightarrow> 'd val \<Rightarrow> 'd val result" where
  "SmallintType_Subtract M left right = int_operation M (SmallintType_OperateNull M left right)
     (SMALLINT_MODIFY_FUNC M (SubtractValue M) (d_sub M) left right) left right"

definition SmallintType_Multiply :: "'d machine \<Rightarrow> 'd val \<Rightarrow> 'd val \<Rightarrow> 'd val result" where
  "SmallintType_Multiply M left right = int_operation M (SmallintType_OperateNull M left right)
     (SMALLINT_MODIFY_FUNC M (MultiplyValue M) (d_mul M) left right) left right"

definition SmallintType_Divide :: "'d machine \<Rightarrow> 'd val \<Rightarrow> 'd val \<Rightarrow> 'd val result" where
  "SmallintType_Divide M left right = int_operation M (SmallintType_OperateNull M left right)
     (nonzero_then M right (SMALLINT_MODIFY_FUNC M (DivideValue M) (d_div M) left right)) left right"

definition SmallintType_Modulo :: "'d machine \<Rightarrow> 'd val \<Rightarrow> 'd val \<Rightarrow> 'd val result" where
  "SmallintType_Modulo M left right = int_operation M (SmallintType_OperateNull M left right)
     (nonzero_then M right
       (right_switch 16 (\<lambda>w2 r. ModuloValue M 16 w2 left r)
         (Value_double DECIMAL (ValMod M (of_integer M (GetAs 16 left)) (GetAsDouble M right)))
         (\<lambda>r. VarlenType_CastAs M r SMALLINT) right)) left right"

definition SmallintType_Sqrt :: "'d machine \<Rightarrow> 'd val \<Rightarrow> 'd val result" where
  "SmallintType_Sqrt M v =
     (if \<not> CheckInteger v then Inl Assertion
      else if IsNull M v then Value_double DECIMAL (BUSTUB_DECIMAL_NULL M)
      else if GetAs 16 v < 0 then Inl (Thrown ''Cannot take square root of a negative number.'')
      else Value_double DECIMAL (d_sqrt M (of_integer M (GetAs 16 v))))"

definition SmallintType_CompareEquals :: "'d machine \<Rightarrow> 'd val \<Rightarrow> 'd val \<Rightarrow> CmpBool result" where
  "SmallintType_CompareEquals M left right =
     int_operation M (Inr CmpNull) (SMALLINT_COMPARE_FUNC M (=) (d_eq M) left right) left right"

definition SmallintType_CompareNotEquals :: "'d machine \<Rightarrow> 'd val \<Rightarrow> 'd val \<Rightarrow> CmpBool result" where
  "SmallintType_CompareNotEquals M left right =
     int_operation M (Inr CmpNull) (SMALLINT_COMPARE_FUNC M (\<noteq>) (d_ne M) left right) left right"

definition SmallintType_CompareLessThan :: "'d machine \<Rightarrow> 'd val \<Rightarrow> 'd val \<Rightarrow> CmpBool result" where
  "SmallintType_CompareLessThan M left right =
     int_operation M (Inr CmpNull) (SMALLINT_COMPARE_FUNC M (<) (d_lt M) left right) left right"

definition SmallintType_CompareLessThanEquals :: "'d machine \<Rightarrow> 'd val \<Rightarrow> 'd val \<Rightarrow> CmpBool result" where
  "SmallintType_CompareLessThanEquals M left right =
     int_operation M (Inr CmpNull) (SMALLINT_COMPARE_FUNC M (\<le>) (d_le M) left right) left right"

definition SmallintType_CompareGreaterThan :: "'d machine \<Rightarrow> 'd val \<Rightarrow> 'd val \<Rightarrow> CmpBool result" where
  "SmallintType_CompareGreaterThan M left right =
     int_operation M (Inr CmpNull) (SMALLINT_COMPARE_FUNC M (>) (d_gt M) left right) left right"

definition SmallintType_CompareGreaterThanEquals :: "'d machine \<Rightarrow> 'd val \<Rightarrow> 'd val \<Rightarrow> CmpBool result" where
  "SmallintType_CompareGreaterThanEquals M left right =
     int_operation M (Inr CmpNull) (SMALLINT_COMPARE_FUNC M (\<ge>) (d_ge M) left right) left right"

definition SmallintType_ToString :: "'d machine \<Rightarrow> 'd val \<Rightarrow> string result" where
  "SmallintType_ToString M v =
     (if \<not> CheckInteger v then Inl Assertion
      else
        (case GetTypeId v of
           TINYINT \<Rightarrow> if IsNull M v then Inr ''tinyint_null'' else Inr (print_int (GetAs 8 v))
         | SMALLINT \<Rightarrow> if IsNull M v then Inr ''smallint_null'' else Inr (print_int (GetAs 16 v))
         | INTEGER \<Rightarrow> if IsNull M v then Inr ''integer_null'' else Inr (print_int (GetAs 32 v))
         | BIGINT \<Rightarrow> if IsNull M v then Inr ''bigint_null'' else Inr (print_int (GetAs 64 v))
         | _ \<Rightarrow> type_error))"

definition SmallintType_SerializeTo :: "'d val \<Rightarrow> nat list" where "SmallintType_SerializeTo v = le_bytes 2 (GetAs 16 v)"

definition SmallintType_DeserializeFrom :: "nat list \<Rightarrow> 'd val result" where
  "SmallintType_DeserializeFrom storage = rbind (read_bytes 2 storage) (\<lambda>bs. Value_int16 SMALLINT (cast 16 (of_le_bytes bs)))"

definition SmallintType_Copy :: "'d val \<Rightarrow> 'd val result" where
  "SmallintType_Copy v = (if \<not> CheckInteger v then Inl Assertion else Value_int16 SMALLINT (GetAs 16 v))"

definition SmallintType_CastAs :: "'d machine \<Rightarrow> 'd val \<Rightarrow> type_id \<Rightarrow> 'd val result" where
  "SmallintType_CastAs M v t =
     (case t of
        TINYINT \<Rightarrow>
          if IsNull M v then Value_int8 t BUSTUB_INT8_NULL
          else if GetAs 16 v > BUSTUB_INT8_MAX \<or> GetAs 16 v < BUSTUB_INT8_MIN then out_of_range
          else Value_int8 t (cast 8 (GetAs 16 v))
      | SMALLINT \<Rightarrow>
          if IsNull M v then Value_int16 t BUSTUB_INT16_NULL
          else SmallintType_Copy v
      | INTEGER \<Rightarrow>
          if IsNull M v then Value_int32 t BUSTUB_INT32_NULL
          else Value_int32 t (cast 32 (GetAs 16 v))
      | BIGINT \<Rightarrow>
          if IsNull M v then Value_int64 t BUSTUB_INT64_NULL
          else Value_int64 t (cast 64 (GetAs 16 v))
      | DECIMAL \<Rightarrow>
          if IsNull M v then Value_double t (BUSTUB_DECIMAL_NULL M) else Value_double t (of_integer M (GetAs 16 v))
      | VARCHAR \<Rightarrow>
          if IsNull M v then Value_data VARCHAR None else rbind (SmallintType_ToString M v) (Value_string VARCHAR)
      | _ \<Rightarrow> Inl (Thrown (''smallint is not coercable to '' @ TypeIdToString t)))"

subsection \<open>INTEGER\<close>

definition INT_COMPARE_FUNC :: "'d machine \<Rightarrow> (int \<Rightarrow> int \<Rightarrow> bool) \<Rightarrow> ('d \<Rightarrow> 'd \<Rightarrow> bool) \<Rightarrow> 'd val \<Rightarrow> 'd val \<Rightarrow> CmpBool result" where
  "INT_COMPARE_FUNC M = int_compare M 32 (\<lambda>r. VarlenType_CastAs M r INTEGER)"

definition INT_MODIFY_FUNC ::
    "'d machine \<Rightarrow> (nat \<Rightarrow> nat \<Rightarrow> 'd val \<Rightarrow> 'd val \<Rightarrow> 'd val result) \<Rightarrow> ('d \<Rightarrow> 'd \<Rightarrow> 'd) \<Rightarrow> 'd val \<Rightarrow> 'd val \<Rightarrow> 'd val result" where
  "INT_MODIFY_FUNC M = int_modify M 32 (\<lambda>r. VarlenType_CastAs M r INTEGER)"

definition IntegerType_OperateNull :: "'d machine \<Rightarrow> 'd val \<Rightarrow> 'd val \<Rightarrow> 'd val result" where
  "IntegerType_OperateNull M left right =
     (case GetTypeId right of
        TINYINT \<Rightarrow> Value_int32 INTEGER BUSTUB_INT32_NULL
      | SMALLINT \<Rightarrow> Value_int32 INTEGER BUSTUB_INT32_NULL
      | INTEGER \<Rightarrow> Value_int32 INTEGER BUSTUB_INT32_NULL
      | BIGINT \<Rightarrow> Value_int64 BIGINT BUSTUB_INT64_NULL
      | DECIMAL \<Rightarrow> Value_double DECIMAL (BUSTUB_DECIMAL_NULL M)
      | _ \<Rightarrow> type_error)"

definition IntegerType_Add :: "'d machine \<Rightarrow> 'd val \<Rightarrow> 'd val \<Rightarrow> 'd val result" where
  "IntegerType_Add M left right = int_operation M (IntegerType_OperateNull M left right)
     (INT_MODIFY_FUNC M (AddValue M) (d_add M) left right) left right"

definition IntegerType_Subtract :: "'d machine \<Rightarrow> 'd val \<Rightarrow> 'd val \<Rightarrow> 'd val result" where
  "IntegerType_Subtract M left right = int_operation M (IntegerType_OperateNull M left right)
     (INT_MODIFY_FUNC M (SubtractValue M) (d_sub M) left right) left right"

definition IntegerType_Multiply :: "'d machine \<Rightarrow> 'd val \<Rightarrow> 'd val \<Rightarrow> 'd val result" where
  "IntegerType_Multiply M left right = int_operation M (IntegerType_OperateNull M left right)
     (INT_MODIFY_FUNC M (MultiplyValue M) (d_mul M) left right) left right"

definition IntegerType_Divide :: "'d machine \<Rightarrow> 'd val \<Rightarrow> 'd val \<Rightarrow> 'd val result" where
  "IntegerType_Divide M left right = int_operation M (IntegerType_OperateNull M left right)
     (nonzero_then M right (INT_MODIFY_FUNC M (DivideValue M) (d_div M) left right)) left right"

definition IntegerType_Modulo :: "'d machine \<Rightarrow> 'd val \<Rightarrow> 'd val \<Rightarrow> 'd val result" where
  "IntegerType_Modulo M left right = int_operation M (IntegerType_OperateNull M left right)
     (nonzero_then M right
       (right_switch 32 (\<lambda>w2 r. ModuloValue M 32 w2 left r)
         (Value_double DECIMAL (ValMod M (of_integer M (GetAs 32 left)) (GetAsDouble M right)))
         (\<lambda>r. VarlenType_CastAs M r INTEGER) right)) left right"

definition IntegerType_Sqrt :: "'d machine \<Rightarrow> 'd val \<Rightarrow> 'd val result" where
  "IntegerType_Sqrt M v =
     (if \<not> CheckInteger v then Inl Assertion
      else if IsNull M v then IntegerType_OperateNull M v v
      else if GetAs 32 v < 0 then Inl (Thrown ''Cannot take square root of a negative number.'')
      else Value_double DECIMAL (d_sqrt M (of_integer M (GetAs 32 v))))"

definition IntegerType_CompareEquals :: "'d machine \<Rightarrow> 'd val \<Rightarrow> 'd val \<Rightarrow> CmpBool result" where
  "IntegerType_CompareEquals M left right =
     int_operation M (Inr CmpNull) (INT_COMPARE_FUNC M (=) (d_eq M) left right) left right"

definition IntegerType_CompareNotEquals :: "'d machine \<Rightarrow> 'd val \<Rightarrow> 'd val \<Rightarrow> CmpBool result" where
  "IntegerType_CompareNotEquals M left right =
     int_operation M (Inr CmpNull) (INT_COMPARE_FUNC M (\<noteq>) (d_ne M) left right) left right"

definition IntegerType_CompareLessThan :: "'d machine \<Rightarrow> 'd val \<Rightarrow> 'd val \<Rightarrow> CmpBool result" where
  "IntegerType_CompareLessThan M left right =
     int_operation M (Inr CmpNull) (INT_COMPARE_FUNC M (<) (d_lt M) left right) left right"

definition IntegerType_CompareLessThanEquals :: "'d machine \<Rightarrow> 'd val \<Rightarrow> 'd val \<Rightarrow> CmpBool result" where
  "IntegerType_CompareLessThanEquals M left right =
     int_operation M (Inr CmpNull) (INT_COMPARE_FUNC M (\<le>) (d_le M) left right) left right"

definition IntegerType_CompareGreaterThan :: "'d machine \<Rightarrow> 'd val \<Rightarrow> 'd val \<Rightarrow> CmpBool result" where
  "IntegerType_CompareGreaterThan M left right =
     int_operation M (Inr CmpNull) (INT_COMPARE_FUNC M (>) (d_gt M) left right) left right"

definition IntegerType_CompareGreaterThanEquals :: "'d machine \<Rightarrow> 'd val \<Rightarrow> 'd val \<Rightarrow> CmpBool result" where
  "IntegerType_CompareGreaterThanEquals M left right =
     int_operation M (Inr CmpNull) (INT_COMPARE_FUNC M (\<ge>) (d_ge M) left right) left right"

definition IntegerType_ToString :: "'d machine \<Rightarrow> 'd val \<Rightarrow> string result" where
  "IntegerType_ToString M v =
     (if \<not> CheckInteger v then Inl Assertion
      else if IsNull M v then Inr ''integer_null'' else Inr (print_int (GetAs 32 v)))"

definition IntegerType_SerializeTo :: "'d val \<Rightarrow> nat list" where "IntegerType_SerializeTo v = le_bytes 4 (GetAs 32 v)"

definition IntegerType_DeserializeFrom :: "nat list \<Rightarrow> 'd val result" where
  "IntegerType_DeserializeFrom storage = rbind (read_bytes 4 storage) (\<lambda>bs. Value_int32 INTEGER (cast 32 (of_le_bytes bs)))"

definition IntegerType_Copy :: "'d val \<Rightarrow> 'd val result" where
  "IntegerType_Copy v = (if \<not> CheckInteger v then Inl Assertion else Value_int32 (GetTypeId v) (GetAs 32 v))"

definition IntegerType_CastAs :: "'d machine \<Rightarrow> 'd val \<Rightarrow> type_id \<Rightarrow> 'd val result" where
  "IntegerType_CastAs M v t =
     (case t of
        TINYINT \<Rightarrow>
          if IsNull M v then Value_int8 t BUSTUB_INT8_NULL
          else if GetAs 32 v > BUSTUB_INT8_MAX \<or> GetAs 32 v < BUSTUB_INT8_MIN then out_of_range
          else Value_int8 t (cast 8 (GetAs 32 v))
      | SMALLINT \<Rightarrow>
          if IsNull M v then Value_int16 t BUSTUB_INT16_NULL
          else if GetAs 32 v > BUSTUB_INT16_MAX \<or> GetAs 32 v < BUSTUB_INT16_MIN then out_of_range
          else Value_int16 t (cast 16 (GetAs 32 v))
      | INTEGER \<Rightarrow>
          if IsNull M v then Value_int32 t BUSTUB_INT32_NULL
          else Value_int32 t (cast 32 (GetAs 32 v))
      | BIGINT \<Rightarrow>
          if IsNull M v then Value_int64 t BUSTUB_INT64_NULL
          else Value_int64 t (cast 64 (GetAs 32 v))
      | DECIMAL \<Rightarrow>
          if IsNull M v then Value_double t (BUSTUB_DECIMAL_NULL M) else Value_double t (of_integer M (GetAs 32 v))
      | VARCHAR \<Rightarrow>
          if IsNull M v then Value_data VARCHAR None else rbind (IntegerType_ToString M v) (Value_string VARCHAR)
      | _ \<Rightarrow> Inl (Thrown (''Integer is not coercable to '' @ TypeIdToString t)))"

subsection \<open>BIGINT\<close>

definition BIGINT_COMPARE_FUNC :: "'d machine \<Rightarrow> (int \<Rightarrow> int \<Rightarrow> bool) \<Rightarrow> ('d \<Rightarrow> 'd \<Rightarrow> bool) \<Rightarrow> 'd val \<Rightarrow> 'd val \<Rightarrow> CmpBool result" where
  "BIGINT_COMPARE_FUNC M = int_compare M 64 (\<lambda>r. VarlenType_CastAs M r BIGINT)"

definition BIGINT_MODIFY_FUNC ::
    "'d machine \<Rightarrow> (nat \<Rightarrow> nat \<Rightarrow> 'd val \<Rightarrow> 'd val \<Rightarrow> 'd val result) \<Rightarrow> ('d \<Rightarrow> 'd \<Rightarrow> 'd) \<Rightarrow> 'd val \<Rightarrow> 'd val \<Rightarrow> 'd val result" where
  "BIGINT_MODIFY_FUNC M = int_modify M 64 (\<lambda>r. VarlenType_CastAs M r BIGINT)"

definition BigintType_OperateNull :: "'d machine \<Rightarrow> 'd val \<Rightarrow> 'd val \<Rightarrow> 'd val result" where
  "BigintType_OperateNull M left right =
     (case GetTypeId right of
        TINYINT \<Rightarrow> Value_int64 BIGINT BUSTUB_INT64_NULL
      | SMALLINT \<Rightarrow> Value_int64 BIGINT BUSTUB_INT64_NULL
      | INTEGER \<Rightarrow> Value_int64 BIGINT BUSTUB_INT64_NULL
      | BIGINT \<Rightarrow> Value_int64 BIGINT BUSTUB_INT64_NULL
      | DECIMAL \<Rightarrow> Value_double DECIMAL (BUSTUB_DECIMAL_NULL M)
      | _ \<Rightarrow> type_error)"

definition BigintType_Add :: "'d machine \<Rightarrow> 'd val \<Rightarrow> 'd val \<Rightarrow> 'd val result" where
  "BigintType_Add M left right = int_operation M (BigintType_OperateNull M left right)
     (BIGINT_MODIFY_FUNC M (AddValue M) (d_add M) left right) left right"

definition BigintType_Subtract :: "'d machine \<Rightarrow> 'd val \<Rightarrow> 'd val \<Rightarrow> 'd val result" where
  "BigintType_Subtract M left right = int_operation M (BigintType_OperateNull M left right)
     (BIGINT_MODIFY_FUNC M (SubtractValue M) (d_sub M) left right) left right"

definition BigintType_Multiply :: "'d machine \<Rightarrow> 'd val \<Rightarrow> 'd val \<Rightarrow> 'd val result" where
  "BigintType_Multiply M left right = int_operation M (BigintType_OperateNull M left right)
     (BIGINT_MODIFY_FUNC M (MultiplyValue M) (d_mul M) left right) left right"

definition BigintType_Divide :: "'d machine \<Rightarrow> 'd val \<Rightarrow> 'd val \<Rightarrow> 'd val result" where
  "BigintType_Divide M left right = int_operation M (BigintType_OperateNull M left right)
     (nonzero_then M right (BIGINT_MODIFY_FUNC M (DivideValue M) (d_div M) left right)) left right"

definition BigintType_Modulo :: "'d machine \<Rightarrow> 'd val \<Rightarrow> 'd val \<Rightarrow> 'd val result" where
  "BigintType_Modulo M left right = int_operation M (BigintType_OperateNull M left right)
     (nonzero_then M right
       (right_switch 64 (\<lambda>w2 r. ModuloValue M 64 w2 left r)
         (Value_double DECIMAL (ValMod M (of_integer M (GetAs 64 left)) (GetAsDouble M right)))
         (\<lambda>r. VarlenType_CastAs M r BIGINT) right)) left right"

definition BigintType_Sqrt :: "'d machine \<Rightarrow> 'd val \<Rightarrow> 'd val result" where
  "BigintType_Sqrt M v =
     (if \<not> CheckInteger v then Inl Assertion
      else if IsNull M v then Value_double DECIMAL (BUSTUB_DECIMAL_NULL M)
      else if GetAs 64 v < 0 then Inl (Thrown ''Cannot take square root of a negative number.'')
      else Value_double DECIMAL (d_sqrt M (of_integer M (GetAs 64 v))))"

definition BigintType_CompareEquals :: "'d machine \<Rightarrow> 'd val \<Rightarrow> 'd val \<Rightarrow> CmpBool result" where
  "BigintType_CompareEquals M left right =
     int_operation M (Inr CmpNull) (BIGINT_COMPARE_FUNC M (=) (d_eq M) left right) left right"

definition BigintType_CompareNotEquals :: "'d machine \<Rightarrow> 'd val \<Rightarrow> 'd val \<Rightarrow> CmpBool result" where
  "BigintType_CompareNotEquals M left right =
     int_operation M (Inr CmpNull) (BIGINT_COMPARE_FUNC M (\<noteq>) (d_ne M) left right) left right"

definition BigintType_CompareLessThan :: "'d machine \<Rightarrow> 'd val \<Rightarrow> 'd val \<Rightarrow> CmpBool result" where
  "BigintType_CompareLessThan M left right =
     int_operation M (Inr CmpNull) (BIGINT_COMPARE_FUNC M (<) (d_lt M) left right) left right"

definition BigintType_CompareLessThanEquals :: "'d machine \<Rightarrow> 'd val \<Rightarrow> 'd val \<Rightarrow> CmpBool result" where
  "BigintType_CompareLessThanEquals M left right =
     int_operation M (Inr CmpNull) (BIGINT_COMPARE_FUNC M (\<le>) (d_le M) left right) left right"

definition BigintType_CompareGreaterThan :: "'d machine \<Rightarrow> 'd val \<Rightarrow> 'd val \<Rightarrow> CmpBool result" where
  "BigintType_CompareGreaterThan M left right =
     int_operation M (Inr CmpNull) (BIGINT_COMPARE_FUNC M (>) (d_gt M) left right) left right"

definition BigintType_CompareGreaterThanEquals :: "'d machine \<Rightarrow> 'd val \<Rightarrow> 'd val \<Rightarrow> CmpBool result" where
  "BigintType_CompareGreaterThanEquals M left right =
     int_operation M (Inr CmpNull) (BIGINT_COMPARE_FUNC M (\<ge>) (d_ge M) left right) left right"

definition BigintType_ToString :: "'d machine \<Rightarrow> 'd val \<Rightarrow> string result" where
  "BigintType_ToString M v =
     (if \<not> CheckInteger v then Inl Assertion
      else if IsNull M v then Inr ''bigint_null'' else Inr (print_int (GetAs 64 v)))"

definition BigintType_SerializeTo :: "'d val \<Rightarrow> nat list" where "BigintType_SerializeTo v = le_bytes 8 (GetAs 64 v)"

definition BigintType_DeserializeFrom :: "nat list \<Rightarrow> 'd val result" where
  "BigintType_DeserializeFrom storage = rbind (read_bytes 8 storage) (\<lambda>bs. Value_int64 BIGINT (cast 64 (of_le_bytes bs)))"

definition BigintType_Copy :: "'d val \<Rightarrow> 'd val result" where "BigintType_Copy v = Value_int64 BIGINT (GetAs 64 v)"

definition BigintType_CastAs :: "'d machine \<Rightarrow> 'd val \<Rightarrow> type_id \<Rightarrow> 'd val result" where
  "BigintType_CastAs M v t =
     (case t of
        TINYINT \<Rightarrow>
          if IsNull M v then Value_int8 t BUSTUB_INT8_NULL
          else if GetAs 64 v > BUSTUB_INT8_MAX \<or> GetAs 64 v < BUSTUB_INT8_MIN then out_of_range
          else Value_int8 t (cast 8 (GetAs 64 v))
      | SMALLINT \<Rightarrow>
          if IsNull M v then Value_int16 t BUSTUB_INT16_NULL
          else if GetAs 64 v > BUSTUB_INT16_MAX \<or> GetAs 64 v < BUSTUB_INT16_MIN then out_of_range
          else Value_int16 t (cast 16 (GetAs 64 v))
      | INTEGER \<Rightarrow>
          if IsNull M v then Value_int32 t BUSTUB_INT32_NULL
          else if GetAs 64 v > BUSTUB_INT32_MAX \<or> GetAs 64 v < BUSTUB_INT32_MIN then out_of_range
          else Value_int32 t (cast 32 (GetAs 64 v))
      | BIGINT \<Rightarrow>
          if IsNull M v then Value_int64 t BUSTUB_INT64_NULL
          else BigintType_Copy v
      | DECIMAL \<Rightarrow>
          if IsNull M v then Value_double t (BUSTUB_DECIMAL_NULL M) else Value_double t (of_integer M (GetAs 64 v))
      | VARCHAR \<Rightarrow>
          if IsNull M v then Value_data VARCHAR None else rbind (BigintType_ToString M v) (Value_string VARCHAR)
      | _ \<Rightarrow> Inl (Thrown (''bigint is not coercable to '' @ TypeIdToString t)))"

end
