(* ===== verification/Value_Ops.thy ===== *)
theory Value_Ops
  imports Integer_Types
begin

section \<open>Operations on values\<close>

text \<open>
  Models \<^verbatim>\<open>src/type/decimal_type.cpp\<close>, \<^verbatim>\<open>boolean_type.cpp\<close>, \<^verbatim>\<open>timestamp_type.cpp\<close>, the
  comparisons of \<^verbatim>\<open>varlen_type.cpp\<close>, and the operations of \<^verbatim>\<open>src/include/type/value.h\<close>, which call
  the method of the type of their left operand; a method a type does not override is the one of
  \<^verbatim>\<open>src/type/type.cpp\<close>, which throws. Vectors are left out.
\<close>

definition not_implemented :: "string \<Rightarrow> 'a result" where
  "not_implemented name = Inl (Thrown (name @ '' not implemented''))"

subsection \<open>BOOLEAN\<close>

definition BooleanType_ToString :: "'d val \<Rightarrow> string" where
  "BooleanType_ToString v = (if GetAs 8 v = 1 then ''true'' else if GetAs 8 v = 0 then ''false'' else ''boolean_null'')"

definition BooleanType_Copy :: "'d val \<Rightarrow> 'd val result" where
  "BooleanType_Copy v = Value_int8 BOOLEAN (GetAs 8 v)"

definition BooleanType_CastAs :: "'d machine \<Rightarrow> 'd val \<Rightarrow> type_id \<Rightarrow> 'd val result" where
  "BooleanType_CastAs M v t =
     (case t of
        BOOLEAN \<Rightarrow> BooleanType_Copy v
      | VARCHAR \<Rightarrow> if IsNull M v then Value_data VARCHAR None else Value_string VARCHAR (BooleanType_ToString v)
      | _ \<Rightarrow> Inl (Thrown (''BOOLEAN is not coercable to '' @ TypeIdToString t)))"

definition BooleanType_SerializeTo :: "'d val \<Rightarrow> nat list" where "BooleanType_SerializeTo v = le_bytes 1 (GetAs 8 v)"

definition BooleanType_DeserializeFrom :: "nat list \<Rightarrow> 'd val result" where
  "BooleanType_DeserializeFrom storage = rbind (read_bytes 1 storage) (\<lambda>bs. Value_int8 BOOLEAN (cast 8 (of_le_bytes bs)))"

subsection \<open>DECIMAL\<close>

definition DecimalType_ToString :: "'d machine \<Rightarrow> 'd val \<Rightarrow> string" where
  "DecimalType_ToString M v = (if IsNull M v then ''decimal_null'' else d_print M (GetAsDouble M v))"

definition DecimalType_Copy :: "'d machine \<Rightarrow> 'd val \<Rightarrow> 'd val result" where
  "DecimalType_Copy M v = Value_double DECIMAL (GetAsDouble M v)"

definition DecimalType_CastAs :: "'d machine \<Rightarrow> 'd val \<Rightarrow> type_id \<Rightarrow> 'd val result" where
  "DecimalType_CastAs M v t =
     (let d = GetAsDouble M v in
      case t of
        TINYINT \<Rightarrow>
          if IsNull M v then Value_int8 t BUSTUB_INT8_NULL
          else if d_gt M d (of_integer M BUSTUB_INT8_MAX) \<or> d_lt M d (of_integer M BUSTUB_INT8_MIN) then out_of_range
          else rbind (double_cast M 8 d) (Value_int8 t)
      | SMALLINT \<Rightarrow>
          if IsNull M v then Value_int16 t BUSTUB_INT16_NULL
          else if d_gt M d (of_integer M BUSTUB_INT16_MAX) \<or> d_lt M d (of_integer M BUSTUB_INT16_MIN) then out_of_range
          else rbind (double_cast M 16 d) (Value_int16 t)
      | INTEGER \<Rightarrow>
          if IsNull M v then Value_int32 t BUSTUB_INT32_NULL
          else if d_gt M d (of_integer M BUSTUB_INT32_MAX) \<or> d_lt M d (of_integer M BUSTUB_INT32_MIN) then out_of_range
          else rbind (double_cast M 32 d) (Value_int32 t)
      | BIGINT \<Rightarrow>
          if IsNull M v then Value_int64 t BUSTUB_INT64_NULL
          else if d_ge M d (of_integer M BUSTUB_INT64_MAX) \<or> d_lt M d (of_integer M BUSTUB_INT64_MIN) then out_of_range
          else rbind (double_cast M 64 d) (Value_int64 t)
      | DECIMAL \<Rightarrow> DecimalType_Copy M v
      | VARCHAR \<Rightarrow> if IsNull M v then Value_data VARCHAR None else Value_string VARCHAR (DecimalType_ToString M v)
      | _ \<Rightarrow> Inl (Thrown (''DECIMAL is not coercable to '' @ TypeIdToString t)))"

text \<open>The switch of both macros: the right operand as a double.\<close>

definition double_operand :: "'d machine \<Rightarrow> 'd val \<Rightarrow> 'd result" where
  "double_operand M right =
     (case GetTypeId right of
        TINYINT \<Rightarrow> Inr (of_integer M (GetAs 8 right))
      | SMALLINT \<Rightarrow> Inr (of_integer M (GetAs 16 right))
      | INTEGER \<Rightarrow> Inr (of_integer M (GetAs 32 right))
      | BIGINT \<Rightarrow> Inr (of_integer M (GetAs 64 right))
      | DECIMAL \<Rightarrow> Inr (GetAsDouble M right)
      | VARCHAR \<Rightarrow> rbind (VarlenType_CastAs M right DECIMAL) (\<lambda>r. Inr (GetAsDouble M r))
      | _ \<Rightarrow> type_error)"

definition DECIMAL_COMPARE_FUNC :: "'d machine \<Rightarrow> ('d \<Rightarrow> 'd \<Rightarrow> bool) \<Rightarrow> 'd val \<Rightarrow> 'd val \<Rightarrow> CmpBool result" where
  "DECIMAL_COMPARE_FUNC M cmp left right =
     rbind (double_operand M right) (\<lambda>d. Inr (GetCmpBool (cmp (GetAsDouble M left) d)))"

definition DECIMAL_MODIFY_FUNC :: "'d machine \<Rightarrow> ('d \<Rightarrow> 'd \<Rightarrow> 'd) \<Rightarrow> 'd val \<Rightarrow> 'd val \<Rightarrow> 'd val result" where
  "DECIMAL_MODIFY_FUNC M dop left right =
     rbind (double_operand M right) (\<lambda>d. Value_double DECIMAL (dop (GetAsDouble M left) d))"

definition DecimalType_OperateNull :: "'d machine \<Rightarrow> 'd val \<Rightarrow> 'd val \<Rightarrow> 'd val result" where
  "DecimalType_OperateNull M left right = Value_double DECIMAL (BUSTUB_DECIMAL_NULL M)"

definition DecimalType_Add :: "'d machine \<Rightarrow> 'd val \<Rightarrow> 'd val \<Rightarrow> 'd val result" where
  "DecimalType_Add M left right =
     comparable_operation M (DecimalType_OperateNull M left right) (DECIMAL_MODIFY_FUNC M (d_add M) left right) left right"

definition DecimalType_Subtract :: "'d machine \<Rightarrow> 'd val \<Rightarrow> 'd val \<Rightarrow> 'd val result" where
  "DecimalType_Subtract M left right =
     comparable_operation M (DecimalType_OperateNull M left right) (DECIMAL_MODIFY_FUNC M (d_sub M) left right) left right"

definition DecimalType_Multiply :: "'d machine \<Rightarrow> 'd val \<Rightarrow> 'd val \<Rightarrow> 'd val result" where
  "DecimalType_Multiply M left right =
     comparable_operation M (DecimalType_OperateNull M left right) (DECIMAL_MODIFY_FUNC M (d_mul M) left right) left right"

definition DecimalType_Divide :: "'d machine \<Rightarrow> 'd val \<Rightarrow> 'd val \<Rightarrow> 'd val result" where
  "DecimalType_Divide M left right =
     comparable_operation M (DecimalType_OperateNull M left right)
       (nonzero_then M right (DECIMAL_MODIFY_FUNC M (d_div M) left right)) left right"

definition DecimalType_Modulo :: "'d machine \<Rightarrow> 'd val \<Rightarrow> 'd val \<Rightarrow> 'd val result" where
  "DecimalType_Modulo M left right =
     comparable_operation M (DecimalType_OperateNull M left right)
       (nonzero_then M right (DECIMAL_MODIFY_FUNC M (ValMod M) left right)) left right"

definition DecimalType_Sqrt :: "'d machine \<Rightarrow> 'd val \<Rightarrow> 'd val result" where
  "DecimalType_Sqrt M v =
     (if IsNull M v then Value_double DECIMAL (BUSTUB_DECIMAL_NULL M)
      else if d_lt M (GetAsDouble M v) (of_integer M 0) then Inl (Thrown ''Cannot take square root of a negative number.'')
      else Value_double DECIMAL (d_sqrt M (GetAsDouble M v)))"

definition DecimalType_CompareEquals :: "'d machine \<Rightarrow> 'd val \<Rightarrow> 'd val \<Rightarrow> CmpBool result" where
  "DecimalType_CompareEquals M left right =
     comparable_operation M (Inr CmpNull) (DECIMAL_COMPARE_FUNC M (d_eq M) left right) left right"

definition DecimalType_CompareNotEquals :: "'d machine \<Rightarrow> 'd val \<Rightarrow> 'd val \<Rightarrow> CmpBool result" where
  "DecimalType_CompareNotEquals M left right =
     comparable_operation M (Inr CmpNull) (DECIMAL_COMPARE_FUNC M (d_ne M) left right) left right"

definition DecimalType_CompareLessThan :: "'d machine \<Rightarrow> 'd val \<Rightarrow> 'd val \<Rightarrow> CmpBool result" where
  "DecimalType_CompareLessThan M left right =
     comparable_operation M (Inr CmpNull) (DECIMAL_COMPARE_FUNC M (d_lt M) left right) left right"

definition DecimalType_CompareLessThanEquals :: "'d machine \<Rightarrow> 'd val \<Rightarrow> 'd val \<Rightarrow> CmpBool result" where
  "DecimalType_CompareLessThanEquals M left right =
     comparable_operation M (Inr CmpNull) (DECIMAL_COMPARE_FUNC M (d_le M) left right) left right"

definition DecimalType_CompareGreaterThan :: "'d machine \<Rightarrow> 'd val \<Rightarrow> 'd val \<Rightarrow> CmpBool result" where
  "DecimalType_CompareGreaterThan M left right =
     comparable_operation M (Inr CmpNull) (DECIMAL_COMPARE_FUNC M (d_gt M) left right) left right"

definition DecimalType_CompareGreaterThanEquals :: "'d machine \<Rightarrow> 'd val \<Rightarrow> 'd val \<Rightarrow> CmpBool result" where
  "DecimalType_CompareGreaterThanEquals M left right =
     comparable_operation M (Inr CmpNull) (DECIMAL_COMPARE_FUNC M (d_ge M) left right) left right"

definition DecimalType_SerializeTo :: "'d machine \<Rightarrow> 'd val \<Rightarrow> nat list" where
  "DecimalType_SerializeTo M v = d_bytes M (GetAsDouble M v)"

definition DecimalType_DeserializeFrom :: "'d machine \<Rightarrow> nat list \<Rightarrow> 'd val result" where
  "DecimalType_DeserializeFrom M storage = rbind (read_bytes 8 storage) (\<lambda>bs. Value_double DECIMAL (d_of_bytes M bs))"

subsection \<open>TIMESTAMP\<close>

text \<open>A number of \<open>k\<close> digits at least, as \<open>%0kd\<close> prints it.\<close>

definition pad :: "nat \<Rightarrow> nat \<Rightarrow> string" where
  "pad k n = replicate (k - length (print_nat n)) (CHR ''0'') @ print_nat n"

definition TimestampType_ToString :: "'d machine \<Rightarrow> 'd val \<Rightarrow> string" where
  "TimestampType_ToString M v =
     (if IsNull M v then ''timestamp_null''
      else
        (let tm = GetAsUint64 v; micro = tm mod 1000000;
             tm1 = tm div 1000000; second = tm1 mod 100000; sec = second mod 60;
             second1 = second div 60; minute = second1 mod 60; second2 = second1 div 60; hour = second2 mod 24;
             tm2 = tm1 div 100000; year = tm2 mod 10000;
             tm3 = tm2 div 10000; tz = int (tm3 mod 27) - 12;
             tm4 = tm3 div 27; day = tm4 mod 32;
             tm5 = tm4 div 32; month = tm5 mod 65536;
             str = pad 4 year @ ''-'' @ pad 2 month @ ''-'' @ pad 2 day @ '' '' @ pad 2 hour @ '':'' @ pad 2 minute @ '':'' @
               pad 2 sec @ ''.'' @ pad 6 micro
         in take 26 str @ (if tz \<ge> 0 then ''+'' else ''-'') @ pad 2 (nat \<bar>tz\<bar>)))"

definition TimestampType_Copy :: "'d val \<Rightarrow> 'd val result" where
  "TimestampType_Copy v = Inr v"

definition TimestampType_CastAs :: "'d machine \<Rightarrow> 'd val \<Rightarrow> type_id \<Rightarrow> 'd val result" where
  "TimestampType_CastAs M v t =
     (case t of
        TIMESTAMP \<Rightarrow> TimestampType_Copy v
      | VARCHAR \<Rightarrow> if IsNull M v then Value_data VARCHAR None else Value_string VARCHAR (TimestampType_ToString M v)
      | _ \<Rightarrow> if t \<in> {TINYINT, SMALLINT, INTEGER, BIGINT} then Inl Assertion else Inl (Thrown ''TIMESTAMP is not coercable to ''))"

definition TimestampType_SerializeTo :: "'d val \<Rightarrow> nat list" where
  "TimestampType_SerializeTo v = le_bytes 8 (int (GetAsUint64 v))"

definition TimestampType_DeserializeFrom :: "nat list \<Rightarrow> 'd val result" where
  "TimestampType_DeserializeFrom storage = rbind (read_bytes 8 storage) (\<lambda>bs. Value_uint64 TIMESTAMP (nat (of_le_bytes bs)))"

definition TimestampType_CompareEquals :: "'d machine \<Rightarrow> 'd val \<Rightarrow> 'd val \<Rightarrow> CmpBool result" where
  "TimestampType_CompareEquals M left right =
     comparable_operation M (Inr CmpNull) (Inr (GetCmpBool (GetAsUint64 left = GetAsUint64 right))) left right"

definition TimestampType_CompareNotEquals :: "'d machine \<Rightarrow> 'd val \<Rightarrow> 'd val \<Rightarrow> CmpBool result" where
  "TimestampType_CompareNotEquals M left right =
     (if \<not> CheckComparable left right then Inl Assertion
      else if IsNull M right then Inr CmpNull
      else Inr (GetCmpBool (GetAsUint64 left \<noteq> GetAsUint64 right)))"

definition TimestampType_CompareLessThan :: "'d machine \<Rightarrow> 'd val \<Rightarrow> 'd val \<Rightarrow> CmpBool result" where
  "TimestampType_CompareLessThan M left right =
     comparable_operation M (Inr CmpNull) (Inr (GetCmpBool (GetAsUint64 left < GetAsUint64 right))) left right"

definition TimestampType_CompareLessThanEquals :: "'d machine \<Rightarrow> 'd val \<Rightarrow> 'd val \<Rightarrow> CmpBool result" where
  "TimestampType_CompareLessThanEquals M left right =
     comparable_operation M (Inr CmpNull) (Inr (GetCmpBool (GetAsUint64 left \<le> GetAsUint64 right))) left right"

definition TimestampType_CompareGreaterThan :: "'d machine \<Rightarrow> 'd val \<Rightarrow> 'd val \<Rightarrow> CmpBool result" where
  "TimestampType_CompareGreaterThan M left right =
     comparable_operation M (Inr CmpNull) (Inr (GetCmpBool (GetAs 64 left > GetAs 64 right))) left right"

definition TimestampType_CompareGreaterThanEquals :: "'d machine \<Rightarrow> 'd val \<Rightarrow> 'd val \<Rightarrow> CmpBool result" where
  "TimestampType_CompareGreaterThanEquals M left right =
     comparable_operation M (Inr CmpNull) (Inr (GetCmpBool (GetAsUint64 left \<ge> GetAsUint64 right))) left right"

subsection \<open>Values: conversions\<close>

definition Value_ToString :: "'d machine \<Rightarrow> 'd val \<Rightarrow> string result" where
  "Value_ToString M v =
     (case GetTypeId v of
        TINYINT \<Rightarrow> TinyintType_ToString M v
      | SMALLINT \<Rightarrow> SmallintType_ToString M v
      | INTEGER \<Rightarrow> IntegerType_ToString M v
      | BIGINT \<Rightarrow> BigintType_ToString M v
      | DECIMAL \<Rightarrow> Inr (DecimalType_ToString M v)
      | BOOLEAN \<Rightarrow> Inr (BooleanType_ToString v)
      | VARCHAR \<Rightarrow> Inr (VarlenType_ToString v)
      | TIMESTAMP \<Rightarrow> Inr (TimestampType_ToString M v)
      | _ \<Rightarrow> not_implemented ''ToString'')"

definition Value_Copy :: "'d machine \<Rightarrow> 'd val \<Rightarrow> 'd val result" where
  "Value_Copy M v =
     (case GetTypeId v of
        TINYINT \<Rightarrow> TinyintType_Copy v
      | SMALLINT \<Rightarrow> SmallintType_Copy v
      | INTEGER \<Rightarrow> IntegerType_Copy v
      | BIGINT \<Rightarrow> BigintType_Copy v
      | DECIMAL \<Rightarrow> DecimalType_Copy M v
      | BOOLEAN \<Rightarrow> BooleanType_Copy v
      | VARCHAR \<Rightarrow> Inr v
      | TIMESTAMP \<Rightarrow> TimestampType_Copy v
      | _ \<Rightarrow> not_implemented ''Copy'')"

definition Value_CastAs :: "'d machine \<Rightarrow> 'd val \<Rightarrow> type_id \<Rightarrow> 'd val result" where
  "Value_CastAs M v t =
     (case GetTypeId v of
        TINYINT \<Rightarrow> TinyintType_CastAs M v t
      | SMALLINT \<Rightarrow> SmallintType_CastAs M v t
      | INTEGER \<Rightarrow> IntegerType_CastAs M v t
      | BIGINT \<Rightarrow> BigintType_CastAs M v t
      | DECIMAL \<Rightarrow> DecimalType_CastAs M v t
      | BOOLEAN \<Rightarrow> BooleanType_CastAs M v t
      | VARCHAR \<Rightarrow> VarlenType_CastAs M v t
      | TIMESTAMP \<Rightarrow> TimestampType_CastAs M v t
      | _ \<Rightarrow> not_implemented ''CastAs'')"

definition Value_SerializeTo :: "'d machine \<Rightarrow> 'd val \<Rightarrow> nat list result" where
  "Value_SerializeTo M v =
     (case GetTypeId v of
        TINYINT \<Rightarrow> Inr (TinyintType_SerializeTo v)
      | SMALLINT \<Rightarrow> Inr (SmallintType_SerializeTo v)
      | INTEGER \<Rightarrow> Inr (IntegerType_SerializeTo v)
      | BIGINT \<Rightarrow> Inr (BigintType_SerializeTo v)
      | DECIMAL \<Rightarrow> Inr (DecimalType_SerializeTo M v)
      | BOOLEAN \<Rightarrow> Inr (BooleanType_SerializeTo v)
      | VARCHAR \<Rightarrow> Inr (VarlenType_SerializeTo v)
      | TIMESTAMP \<Rightarrow> Inr (TimestampType_SerializeTo v)
      | _ \<Rightarrow> not_implemented ''SerializeTo'')"

definition Value_DeserializeFrom :: "'d machine \<Rightarrow> nat list \<Rightarrow> type_id \<Rightarrow> 'd val result" where
  "Value_DeserializeFrom M storage t =
     (case t of
        TINYINT \<Rightarrow> TinyintType_DeserializeFrom storage
      | SMALLINT \<Rightarrow> SmallintType_DeserializeFrom storage
      | INTEGER \<Rightarrow> IntegerType_DeserializeFrom storage
      | BIGINT \<Rightarrow> BigintType_DeserializeFrom storage
      | DECIMAL \<Rightarrow> DecimalType_DeserializeFrom M storage
      | BOOLEAN \<Rightarrow> BooleanType_DeserializeFrom storage
      | VARCHAR \<Rightarrow> VarlenType_DeserializeFrom storage
      | TIMESTAMP \<Rightarrow> TimestampType_DeserializeFrom storage
      | _ \<Rightarrow> not_implemented ''DeserializeFrom'')"

definition Value_OperateNull :: "'d machine \<Rightarrow> 'd val \<Rightarrow> 'd val \<Rightarrow> 'd val result" where
  "Value_OperateNull M left right =
     (case GetTypeId left of
        TINYINT \<Rightarrow> TinyintType_OperateNull M left right
      | SMALLINT \<Rightarrow> SmallintType_OperateNull M left right
      | INTEGER \<Rightarrow> IntegerType_OperateNull M left right
      | BIGINT \<Rightarrow> BigintType_OperateNull M left right
      | DECIMAL \<Rightarrow> DecimalType_OperateNull M left right
      | _ \<Rightarrow> not_implemented ''OperateNull'')"

subsection \<open>Values: comparisons\<close>

text \<open>The comparisons of booleans and strings cast their right operand.\<close>

definition BOOLEAN_COMPARE_FUNC :: "'d machine \<Rightarrow> (int \<Rightarrow> int \<Rightarrow> bool) \<Rightarrow> 'd val \<Rightarrow> 'd val \<Rightarrow> CmpBool result" where
  "BOOLEAN_COMPARE_FUNC M cmp left right =
     rbind (Value_CastAs M right BOOLEAN) (\<lambda>r. Inr (GetCmpBool (cmp (GetAs 8 left) (GetAs 8 r))))"

definition BooleanType_CompareEquals :: "'d machine \<Rightarrow> 'd val \<Rightarrow> 'd val \<Rightarrow> CmpBool result" where
  "BooleanType_CompareEquals M left right =
     comparable_operation M (Inr CmpNull) (BOOLEAN_COMPARE_FUNC M (=) left right) left right"

definition BooleanType_CompareNotEquals :: "'d machine \<Rightarrow> 'd val \<Rightarrow> 'd val \<Rightarrow> CmpBool result" where
  "BooleanType_CompareNotEquals M left right =
     comparable_operation M (Inr CmpNull) (BOOLEAN_COMPARE_FUNC M (\<noteq>) left right) left right"

definition BooleanType_CompareLessThan :: "'d machine \<Rightarrow> 'd val \<Rightarrow> 'd val \<Rightarrow> CmpBool result" where
  "BooleanType_CompareLessThan M left right =
     comparable_operation M (Inr CmpNull) (BOOLEAN_COMPARE_FUNC M (<) left right) left right"

definition BooleanType_CompareLessThanEquals :: "'d machine \<Rightarrow> 'd val \<Rightarrow> 'd val \<Rightarrow> CmpBool result" where
  "BooleanType_CompareLessThanEquals M left right =
     comparable_operation M (Inr CmpNull) (BOOLEAN_COMPARE_FUNC M (\<le>) left right) left right"

definition BooleanType_CompareGreaterThan :: "'d machine \<Rightarrow> 'd val \<Rightarrow> 'd val \<Rightarrow> CmpBool result" where
  "BooleanType_CompareGreaterThan M left right =
     comparable_operation M (Inr CmpNull) (BOOLEAN_COMPARE_FUNC M (>) left right) left right"

definition BooleanType_CompareGreaterThanEquals :: "'d machine \<Rightarrow> 'd val \<Rightarrow> 'd val \<Rightarrow> CmpBool result" where
  "BooleanType_CompareGreaterThanEquals M left right =
     comparable_operation M (Inr CmpNull) (BOOLEAN_COMPARE_FUNC M (\<ge>) left right) left right"

definition VarlenType_CompareEquals :: "'d machine \<Rightarrow> 'd val \<Rightarrow> 'd val \<Rightarrow> CmpBool result" where
  "VarlenType_CompareEquals M left right =
     comparable_operation M (Inr CmpNull) (VARLEN_COMPARE_FUNC (Value_CastAs M) (=) left right) left right"

definition VarlenType_CompareNotEquals :: "'d machine \<Rightarrow> 'd val \<Rightarrow> 'd val \<Rightarrow> CmpBool result" where
  "VarlenType_CompareNotEquals M left right =
     comparable_operation M (Inr CmpNull) (VARLEN_COMPARE_FUNC (Value_CastAs M) (\<noteq>) left right) left right"

definition VarlenType_CompareLessThan :: "'d machine \<Rightarrow> 'd val \<Rightarrow> 'd val \<Rightarrow> CmpBool result" where
  "VarlenType_CompareLessThan M left right =
     comparable_operation M (Inr CmpNull) (VARLEN_COMPARE_FUNC (Value_CastAs M) (<) left right) left right"

definition VarlenType_CompareLessThanEquals :: "'d machine \<Rightarrow> 'd val \<Rightarrow> 'd val \<Rightarrow> CmpBool result" where
  "VarlenType_CompareLessThanEquals M left right =
     comparable_operation M (Inr CmpNull) (VARLEN_COMPARE_FUNC (Value_CastAs M) (\<le>) left right) left right"

definition VarlenType_CompareGreaterThan :: "'d machine \<Rightarrow> 'd val \<Rightarrow> 'd val \<Rightarrow> CmpBool result" where
  "VarlenType_CompareGreaterThan M left right =
     comparable_operation M (Inr CmpNull) (VARLEN_COMPARE_FUNC (Value_CastAs M) (>) left right) left right"

definition VarlenType_CompareGreaterThanEquals :: "'d machine \<Rightarrow> 'd val \<Rightarrow> 'd val \<Rightarrow> CmpBool result" where
  "VarlenType_CompareGreaterThanEquals M left right =
     comparable_operation M (Inr CmpNull) (VARLEN_COMPARE_FUNC (Value_CastAs M) (\<ge>) left right) left right"

definition Value_CompareEquals :: "'d machine \<Rightarrow> 'd val \<Rightarrow> 'd val \<Rightarrow> CmpBool result" where
  "Value_CompareEquals M left right =
     (case GetTypeId left of
        TINYINT \<Rightarrow> TinyintType_CompareEquals M left right
      | SMALLINT \<Rightarrow> SmallintType_CompareEquals M left right
      | INTEGER \<Rightarrow> IntegerType_CompareEquals M left right
      | BIGINT \<Rightarrow> BigintType_CompareEquals M left right
      | DECIMAL \<Rightarrow> DecimalType_CompareEquals M left right
      | BOOLEAN \<Rightarrow> BooleanType_CompareEquals M left right
      | VARCHAR \<Rightarrow> VarlenType_CompareEquals M left right
      | TIMESTAMP \<Rightarrow> TimestampType_CompareEquals M left right
      | _ \<Rightarrow> not_implemented ''CompareEquals'')"

definition Value_CompareNotEquals :: "'d machine \<Rightarrow> 'd val \<Rightarrow> 'd val \<Rightarrow> CmpBool result" where
  "Value_CompareNotEquals M left right =
     (case GetTypeId left of
        TINYINT \<Rightarrow> TinyintType_CompareNotEquals M left right
      | SMALLINT \<Rightarrow> SmallintType_CompareNotEquals M left right
      | INTEGER \<Rightarrow> IntegerType_CompareNotEquals M left right
      | BIGINT \<Rightarrow> BigintType_CompareNotEquals M left right
      | DECIMAL \<Rightarrow> DecimalType_CompareNotEquals M left right
      | BOOLEAN \<Rightarrow> BooleanType_CompareNotEquals M left right
      | VARCHAR \<Rightarrow> VarlenType_CompareNotEquals M left right
      | TIMESTAMP \<Rightarrow> TimestampType_CompareNotEquals M left right
      | _ \<Rightarrow> not_implemented ''CompareNotEquals'')"

definition Value_CompareLessThan :: "'d machine \<Rightarrow> 'd val \<Rightarrow> 'd val \<Rightarrow> CmpBool result" where
  "Value_CompareLessThan M left right =
     (case GetTypeId left of
        TINYINT \<Rightarrow> TinyintType_CompareLessThan M left right
      | SMALLINT \<Rightarrow> SmallintType_CompareLessThan M left right
      | INTEGER \<Rightarrow> IntegerType_CompareLessThan M left right
      | BIGINT \<Rightarrow> BigintType_CompareLessThan M left right
      | DECIMAL \<Rightarrow> DecimalType_CompareLessThan M left right
      | BOOLEAN \<Rightarrow> BooleanType_CompareLessThan M left right
      | VARCHAR \<Rightarrow> VarlenType_CompareLessThan M left right
      | TIMESTAMP \<Rightarrow> TimestampType_CompareLessThan M left right
      | _ \<Rightarrow> not_implemented ''CompareLessThan'')"

definition Value_CompareLessThanEquals :: "'d machine \<Rightarrow> 'd val \<Rightarrow> 'd val \<Rightarrow> CmpBool result" where
  "Value_CompareLessThanEquals M left right =
     (case GetTypeId left of
        TINYINT \<Rightarrow> TinyintType_CompareLessThanEquals M left right
      | SMALLINT \<Rightarrow> SmallintType_CompareLessThanEquals M left right
      | INTEGER \<Rightarrow> IntegerType_CompareLessThanEquals M left right
      | BIGINT \<Rightarrow> BigintType_CompareLessThanEquals M left right
      | DECIMAL \<Rightarrow> DecimalType_CompareLessThanEquals M left right
      | BOOLEAN \<Rightarrow> BooleanType_CompareLessThanEquals M left right
      | VARCHAR \<Rightarrow> VarlenType_CompareLessThanEquals M left right
      | TIMESTAMP \<Rightarrow> TimestampType_CompareLessThanEquals M left right
      | _ \<Rightarrow> not_implemented ''CompareLessThanEqual'')"

definition Value_CompareGreaterThan :: "'d machine \<Rightarrow> 'd val \<Rightarrow> 'd val \<Rightarrow> CmpBool result" where
  "Value_CompareGreaterThan M left right =
     (case GetTypeId left of
        TINYINT \<Rightarrow> TinyintType_CompareGreaterThan M left right
      | SMALLINT \<Rightarrow> SmallintType_CompareGreaterThan M left right
      | INTEGER \<Rightarrow> IntegerType_CompareGreaterThan M left right
      | BIGINT \<Rightarrow> BigintType_CompareGreaterThan M left right
      | DECIMAL \<Rightarrow> DecimalType_CompareGreaterThan M left right
      | BOOLEAN \<Rightarrow> BooleanType_CompareGreaterThan M left right
      | VARCHAR \<Rightarrow> VarlenType_CompareGreaterThan M left right
      | TIMESTAMP \<Rightarrow> TimestampType_CompareGreaterThan M left right
      | _ \<Rightarrow> not_implemented ''CompareGreaterThan'')"

definition Value_CompareGreaterThanEquals :: "'d machine \<Rightarrow> 'd val \<Rightarrow> 'd val \<Rightarrow> CmpBool result" where
  "Value_CompareGreaterThanEquals M left right =
     (case GetTypeId left of
        TINYINT \<Rightarrow> TinyintType_CompareGreaterThanEquals M left right
      | SMALLINT \<Rightarrow> SmallintType_CompareGreaterThanEquals M left right
      | INTEGER \<Rightarrow> IntegerType_CompareGreaterThanEquals M left right
      | BIGINT \<Rightarrow> BigintType_CompareGreaterThanEquals M left right
      | DECIMAL \<Rightarrow> DecimalType_CompareGreaterThanEquals M left right
      | BOOLEAN \<Rightarrow> BooleanType_CompareGreaterThanEquals M left right
      | VARCHAR \<Rightarrow> VarlenType_CompareGreaterThanEquals M left right
      | TIMESTAMP \<Rightarrow> TimestampType_CompareGreaterThanEquals M left right
      | _ \<Rightarrow> not_implemented ''CompareGreaterThanEqual'')"

definition Value_CompareExactlyEquals :: "'d machine \<Rightarrow> 'd val \<Rightarrow> 'd val \<Rightarrow> bool result" where
  "Value_CompareExactlyEquals M v o' =
     (if IsNull M v \<and> IsNull M o' then Inr True else rbind (Value_CompareEquals M v o') (\<lambda>c. Inr (c = CmpTrue)))"

subsection \<open>Values: arithmetic\<close>

definition Value_Add :: "'d machine \<Rightarrow> 'd val \<Rightarrow> 'd val \<Rightarrow> 'd val result" where
  "Value_Add M left right =
     (case GetTypeId left of
        TINYINT \<Rightarrow> TinyintType_Add M left right
      | SMALLINT \<Rightarrow> SmallintType_Add M left right
      | INTEGER \<Rightarrow> IntegerType_Add M left right
      | BIGINT \<Rightarrow> BigintType_Add M left right
      | DECIMAL \<Rightarrow> DecimalType_Add M left right
      | _ \<Rightarrow> not_implemented ''Add'')"

definition Value_Subtract :: "'d machine \<Rightarrow> 'd val \<Rightarrow> 'd val \<Rightarrow> 'd val result" where
  "Value_Subtract M left right =
     (case GetTypeId left of
        TINYINT \<Rightarrow> TinyintType_Subtract M left right
      | SMALLINT \<Rightarrow> SmallintType_Subtract M left right
      | INTEGER \<Rightarrow> IntegerType_Subtract M left right
      | BIGINT \<Rightarrow> BigintType_Subtract M left right
      | DECIMAL \<Rightarrow> DecimalType_Subtract M left right
      | _ \<Rightarrow> not_implemented ''Subtract'')"

definition Value_Multiply :: "'d machine \<Rightarrow> 'd val \<Rightarrow> 'd val \<Rightarrow> 'd val result" where
  "Value_Multiply M left right =
     (case GetTypeId left of
        TINYINT \<Rightarrow> TinyintType_Multiply M left right
      | SMALLINT \<Rightarrow> SmallintType_Multiply M left right
      | INTEGER \<Rightarrow> IntegerType_Multiply M left right
      | BIGINT \<Rightarrow> BigintType_Multiply M left right
      | DECIMAL \<Rightarrow> DecimalType_Multiply M left right
      | _ \<Rightarrow> not_implemented ''Multiply'')"

definition Value_Divide :: "'d machine \<Rightarrow> 'd val \<Rightarrow> 'd val \<Rightarrow> 'd val result" where
  "Value_Divide M left right =
     (case GetTypeId left of
        TINYINT \<Rightarrow> TinyintType_Divide M left right
      | SMALLINT \<Rightarrow> SmallintType_Divide M left right
      | INTEGER \<Rightarrow> IntegerType_Divide M left right
      | BIGINT \<Rightarrow> BigintType_Divide M left right
      | DECIMAL \<Rightarrow> DecimalType_Divide M left right
      | _ \<Rightarrow> not_implemented ''Divide'')"

definition Value_Modulo :: "'d machine \<Rightarrow> 'd val \<Rightarrow> 'd val \<Rightarrow> 'd val result" where
  "Value_Modulo M left right =
     (case GetTypeId left of
        TINYINT \<Rightarrow> TinyintType_Modulo M left right
      | SMALLINT \<Rightarrow> SmallintType_Modulo M left right
      | INTEGER \<Rightarrow> IntegerType_Modulo M left right
      | BIGINT \<Rightarrow> BigintType_Modulo M left right
      | DECIMAL \<Rightarrow> DecimalType_Modulo M left right
      | _ \<Rightarrow> not_implemented ''Modulo'')"

definition Value_Sqrt :: "'d machine \<Rightarrow> 'd val \<Rightarrow> 'd val result" where
  "Value_Sqrt M v =
     (case GetTypeId v of
        TINYINT \<Rightarrow> TinyintType_Sqrt M v
      | SMALLINT \<Rightarrow> SmallintType_Sqrt M v
      | INTEGER \<Rightarrow> IntegerType_Sqrt M v
      | BIGINT \<Rightarrow> BigintType_Sqrt M v
      | DECIMAL \<Rightarrow> DecimalType_Sqrt M v
      | _ \<Rightarrow> not_implemented ''Sqrt'')"

text \<open>The smaller and the larger of two values, by the comparison each type uses.\<close>

definition pick :: "'d machine \<Rightarrow> CmpBool result \<Rightarrow> 'd val \<Rightarrow> 'd val \<Rightarrow> 'd val result" where
  "pick M cmp left right = rbind cmp (\<lambda>c. if c = CmpTrue then Value_Copy M left else Value_Copy M right)"

definition IntegerParentType_Min :: "'d machine \<Rightarrow> 'd val \<Rightarrow> 'd val \<Rightarrow> 'd val result" where
  "IntegerParentType_Min M left right =
     int_operation M (Value_OperateNull M left right) (pick M (Value_CompareLessThan M left right) left right) left right"

definition IntegerParentType_Max :: "'d machine \<Rightarrow> 'd val \<Rightarrow> 'd val \<Rightarrow> 'd val result" where
  "IntegerParentType_Max M left right =
     int_operation M (Value_OperateNull M left right) (pick M (Value_CompareGreaterThanEquals M left right) left right) left right"

definition DecimalType_Min :: "'d machine \<Rightarrow> 'd val \<Rightarrow> 'd val \<Rightarrow> 'd val result" where
  "DecimalType_Min M left right =
     comparable_operation M (Value_OperateNull M left right) (pick M (Value_CompareLessThanEquals M left right) left right) left right"

definition DecimalType_Max :: "'d machine \<Rightarrow> 'd val \<Rightarrow> 'd val \<Rightarrow> 'd val result" where
  "DecimalType_Max M left right =
     comparable_operation M (Value_OperateNull M left right) (pick M (Value_CompareGreaterThanEquals M left right) left right) left right"

definition VarlenType_Min :: "'d machine \<Rightarrow> 'd val \<Rightarrow> 'd val \<Rightarrow> 'd val result" where
  "VarlenType_Min M left right =
     comparable_operation M (Value_OperateNull M left right) (pick M (Value_CompareLessThan M left right) left right) left right"

definition VarlenType_Max :: "'d machine \<Rightarrow> 'd val \<Rightarrow> 'd val \<Rightarrow> 'd val result" where
  "VarlenType_Max M left right =
     comparable_operation M (Value_OperateNull M left right) (pick M (Value_CompareGreaterThan M left right) left right) left right"

definition TimestampType_Min :: "'d machine \<Rightarrow> 'd val \<Rightarrow> 'd val \<Rightarrow> 'd val result" where
  "TimestampType_Min M left right =
     comparable_operation M (Value_OperateNull M left right) (pick M (Value_CompareLessThan M left right) left right) left right"

definition TimestampType_Max :: "'d machine \<Rightarrow> 'd val \<Rightarrow> 'd val \<Rightarrow> 'd val result" where
  "TimestampType_Max M left right =
     comparable_operation M (Value_OperateNull M left right) (pick M (Value_CompareGreaterThanEquals M left right) left right) left right"

definition Value_Min :: "'d machine \<Rightarrow> 'd val \<Rightarrow> 'd val \<Rightarrow> 'd val result" where
  "Value_Min M left right =
     (case GetTypeId left of
        TINYINT \<Rightarrow> IntegerParentType_Min M left right
      | SMALLINT \<Rightarrow> IntegerParentType_Min M left right
      | INTEGER \<Rightarrow> IntegerParentType_Min M left right
      | BIGINT \<Rightarrow> IntegerParentType_Min M left right
      | DECIMAL \<Rightarrow> DecimalType_Min M left right
      | VARCHAR \<Rightarrow> VarlenType_Min M left right
      | TIMESTAMP \<Rightarrow> TimestampType_Min M left right
      | _ \<Rightarrow> not_implemented ''Min'')"

definition Value_Max :: "'d machine \<Rightarrow> 'd val \<Rightarrow> 'd val \<Rightarrow> 'd val result" where
  "Value_Max M left right =
     (case GetTypeId left of
        TINYINT \<Rightarrow> IntegerParentType_Max M left right
      | SMALLINT \<Rightarrow> IntegerParentType_Max M left right
      | INTEGER \<Rightarrow> IntegerParentType_Max M left right
      | BIGINT \<Rightarrow> IntegerParentType_Max M left right
      | DECIMAL \<Rightarrow> DecimalType_Max M left right
      | VARCHAR \<Rightarrow> VarlenType_Max M left right
      | TIMESTAMP \<Rightarrow> TimestampType_Max M left right
      | _ \<Rightarrow> not_implemented ''Max'')"

end
