(* ===== verification/Value_Factory.thy ===== *)
theory Value_Factory
  imports Value_Ops
begin

section \<open>The value factory\<close>

text \<open>
  Models \<^verbatim>\<open>src/include/type/value_factory.h\<close>: the values of each type, null and zero values, and
  the casts by which the binder and the tests convert values, strings among them. Dates and times
  are packed into a timestamp as digits of a mixed radix.
\<close>

definition GetTinyIntValue :: "int \<Rightarrow> 'd val result" where "GetTinyIntValue i = Value_int8 TINYINT i"
definition GetSmallIntValue :: "int \<Rightarrow> 'd val result" where "GetSmallIntValue i = Value_int16 SMALLINT i"
definition GetIntegerValue :: "int \<Rightarrow> 'd val result" where "GetIntegerValue i = Value_int32 INTEGER i"
definition GetBigIntValue :: "int \<Rightarrow> 'd val result" where "GetBigIntValue i = Value_int64 BIGINT i"
definition GetTimestampValue :: "int \<Rightarrow> 'd val result" where "GetTimestampValue i = Value_int64 TIMESTAMP i"
definition GetDecimalValue :: "'d \<Rightarrow> 'd val result" where "GetDecimalValue d = Value_double DECIMAL d"
definition GetBooleanValue :: "int \<Rightarrow> 'd val result" where "GetBooleanValue i = Value_int8 BOOLEAN i"
definition GetVarcharValue :: "string option \<Rightarrow> 'd val result" where "GetVarcharValue bytes = Value_data VARCHAR bytes"
definition GetVarcharString :: "string \<Rightarrow> 'd val result" where "GetVarcharString s = Value_string VARCHAR s"

definition GetBooleanOfCmp :: "CmpBool \<Rightarrow> 'd val result" where
  "GetBooleanOfCmp c = Value_int8 BOOLEAN (case c of CmpNull \<Rightarrow> BUSTUB_BOOLEAN_NULL | CmpTrue \<Rightarrow> 1 | CmpFalse \<Rightarrow> 0)"

definition GetNullValueByType :: "'d machine \<Rightarrow> type_id \<Rightarrow> 'd val result" where
  "GetNullValueByType M t =
     (case t of
        BOOLEAN \<Rightarrow> GetBooleanValue BUSTUB_BOOLEAN_NULL
      | TINYINT \<Rightarrow> GetTinyIntValue BUSTUB_INT8_NULL
      | SMALLINT \<Rightarrow> GetSmallIntValue BUSTUB_INT16_NULL
      | INTEGER \<Rightarrow> GetIntegerValue BUSTUB_INT32_NULL
      | BIGINT \<Rightarrow> GetBigIntValue BUSTUB_INT64_NULL
      | DECIMAL \<Rightarrow> GetDecimalValue (BUSTUB_DECIMAL_NULL M)
      | VARCHAR \<Rightarrow> GetVarcharValue None
      | _ \<Rightarrow> Inl (Thrown ''Attempting to create invalid null type''))"

definition GetZeroValueByType :: "'d machine \<Rightarrow> type_id \<Rightarrow> 'd val result" where
  "GetZeroValueByType M t =
     (case t of
        BOOLEAN \<Rightarrow> GetBooleanValue 0
      | TINYINT \<Rightarrow> GetTinyIntValue 0
      | SMALLINT \<Rightarrow> GetSmallIntValue 0
      | INTEGER \<Rightarrow> GetIntegerValue 0
      | BIGINT \<Rightarrow> GetBigIntValue 0
      | DECIMAL \<Rightarrow> GetDecimalValue (of_integer M 0)
      | VARCHAR \<Rightarrow> GetVarcharString ''0''
      | _ \<Rightarrow> Inl (Thrown ''Unknown type for GetZeroValueType''))"

subsection \<open>Casts\<close>

definition not_coercable :: "'d machine \<Rightarrow> 'd val \<Rightarrow> type_id \<Rightarrow> 'a result" where
  "not_coercable M v t = rbind (Value_ToString M v) (\<lambda>s. Inl (Thrown (s @ '' is not coercable to '' @ TypeIdToString t @ ''.'')))"

text \<open>The casts catch both exceptions of \<open>stoi\<close> and its relatives.\<close>

definition parsed_as :: "string \<Rightarrow> string \<Rightarrow> 'a parsed \<Rightarrow> ('a \<Rightarrow> 'b result) \<Rightarrow> 'b result" where
  "parsed_as name str p k =
     (case p of
        Parsed x \<Rightarrow> k x
      | Out_of_range \<Rightarrow> out_of_range
      | Invalid_argument \<Rightarrow> Inl (Thrown (''Invalid input syntax for '' @ name @ '': '' @ str)))"

definition CastAsBigInt :: "'d machine \<Rightarrow> 'd val \<Rightarrow> 'd val result" where
  "CastAsBigInt M v =
     (if \<not> IsCoercableFrom BIGINT (GetTypeId v) then not_coercable M v BIGINT
      else if IsNull M v then GetBigIntValue BUSTUB_INT64_NULL
      else
        (case GetTypeId v of
           TINYINT \<Rightarrow> GetBigIntValue (GetAs 8 v)
         | SMALLINT \<Rightarrow> GetBigIntValue (GetAs 16 v)
         | INTEGER \<Rightarrow> GetBigIntValue (GetAs 32 v)
         | BIGINT \<Rightarrow> GetBigIntValue (GetAs 64 v)
         | DECIMAL \<Rightarrow>
             let d = GetAsDouble M v in
             if d_gt M d (of_integer M BUSTUB_INT64_MAX) \<or> d_lt M d (of_integer M BUSTUB_INT64_MIN) then out_of_range
             else rbind (double_cast M 64 d) GetBigIntValue
         | VARCHAR \<Rightarrow>
             let str = VarlenType_ToString v in
             parsed_as ''bigint'' str (parse_int 64 str) (\<lambda>i.
               if i > BUSTUB_INT64_MAX \<or> i < BUSTUB_INT64_MIN then out_of_range else GetBigIntValue i)
         | _ \<Rightarrow> not_coercable M v BIGINT))"

definition CastAsInteger :: "'d machine \<Rightarrow> 'd val \<Rightarrow> 'd val result" where
  "CastAsInteger M v =
     (if \<not> IsCoercableFrom INTEGER (GetTypeId v) then not_coercable M v INTEGER
      else if IsNull M v then GetIntegerValue BUSTUB_INT32_NULL
      else
        (case GetTypeId v of
           TINYINT \<Rightarrow> GetIntegerValue (GetAs 8 v)
         | SMALLINT \<Rightarrow> GetIntegerValue (GetAs 16 v)
         | INTEGER \<Rightarrow> GetIntegerValue (GetAs 32 v)
         | BIGINT \<Rightarrow>
             if GetAs 64 v > BUSTUB_INT32_MAX \<or> GetAs 64 v < BUSTUB_INT32_MIN then out_of_range
             else GetIntegerValue (cast 32 (GetAs 64 v))
         | DECIMAL \<Rightarrow>
             let d = GetAsDouble M v in
             if d_gt M d (of_integer M BUSTUB_INT32_MAX) \<or> d_lt M d (of_integer M BUSTUB_INT32_MIN) then out_of_range
             else rbind (double_cast M 32 d) GetIntegerValue
         | VARCHAR \<Rightarrow>
             let str = VarlenType_ToString v in
             parsed_as ''integer'' str (parse_int 32 str) (\<lambda>i.
               if i > BUSTUB_INT32_MAX \<or> i < BUSTUB_INT32_MIN then out_of_range else GetIntegerValue i)
         | _ \<Rightarrow> not_coercable M v INTEGER))"

definition CastAsSmallInt :: "'d machine \<Rightarrow> 'd val \<Rightarrow> 'd val result" where
  "CastAsSmallInt M v =
     (if \<not> IsCoercableFrom SMALLINT (GetTypeId v) then not_coercable M v SMALLINT
      else if IsNull M v then GetSmallIntValue BUSTUB_INT16_NULL
      else
        (case GetTypeId v of
           TINYINT \<Rightarrow> GetSmallIntValue (GetAs 8 v)
         | SMALLINT \<Rightarrow> GetSmallIntValue (GetAs 16 v)
         | INTEGER \<Rightarrow>
             if GetAs 32 v > BUSTUB_INT16_MAX \<or> GetAs 32 v < BUSTUB_INT16_MIN then out_of_range
             else GetSmallIntValue (cast 16 (GetAs 32 v))
         | BIGINT \<Rightarrow>
             if GetAs 64 v > BUSTUB_INT16_MAX \<or> GetAs 64 v < BUSTUB_INT16_MIN then out_of_range
             else GetSmallIntValue (cast 16 (GetAs 64 v))
         | DECIMAL \<Rightarrow>
             let d = GetAsDouble M v in
             if d_gt M d (of_integer M BUSTUB_INT16_MAX) \<or> d_lt M d (of_integer M BUSTUB_INT16_MIN) then out_of_range
             else rbind (double_cast M 16 d) GetSmallIntValue
         | VARCHAR \<Rightarrow>
             let str = VarlenType_ToString v in
             parsed_as ''smallint'' str (parse_int 32 str) (\<lambda>i.
               if cast 16 i < BUSTUB_INT16_MIN then out_of_range else GetSmallIntValue (cast 16 i))
         | _ \<Rightarrow> not_coercable M v SMALLINT))"

definition CastAsTinyInt :: "'d machine \<Rightarrow> 'd val \<Rightarrow> 'd val result" where
  "CastAsTinyInt M v =
     (if \<not> IsCoercableFrom TINYINT (GetTypeId v) then not_coercable M v TINYINT
      else if IsNull M v then GetTinyIntValue BUSTUB_INT8_NULL
      else
        (case GetTypeId v of
           TINYINT \<Rightarrow> GetTinyIntValue (GetAs 8 v)
         | SMALLINT \<Rightarrow>
             if GetAs 16 v > BUSTUB_INT8_MAX \<or> GetAs 16 v < BUSTUB_INT8_MIN then out_of_range
             else GetTinyIntValue (cast 8 (GetAs 16 v))
         | INTEGER \<Rightarrow>
             if GetAs 32 v > BUSTUB_INT8_MAX \<or> GetAs 32 v < BUSTUB_INT8_MIN then out_of_range
             else GetTinyIntValue (cast 8 (GetAs 32 v))
         | BIGINT \<Rightarrow>
             if GetAs 64 v > BUSTUB_INT8_MAX \<or> GetAs 64 v < BUSTUB_INT8_MIN then out_of_range
             else GetTinyIntValue (cast 8 (GetAs 64 v))
         | DECIMAL \<Rightarrow>
             let d = GetAsDouble M v in
             if d_gt M d (of_integer M BUSTUB_INT8_MAX) \<or> d_lt M d (of_integer M BUSTUB_INT8_MIN) then out_of_range
             else rbind (double_cast M 8 d) GetTinyIntValue
         | VARCHAR \<Rightarrow>
             let str = VarlenType_ToString v in
             parsed_as ''tinyint'' str (parse_int 32 str) (\<lambda>i.
               if cast 8 i < BUSTUB_INT8_MIN then out_of_range else GetTinyIntValue (cast 8 i))
         | _ \<Rightarrow> not_coercable M v TINYINT))"

definition CastAsDecimal :: "'d machine \<Rightarrow> 'd val \<Rightarrow> 'd val result" where
  "CastAsDecimal M v =
     (if \<not> IsCoercableFrom DECIMAL (GetTypeId v) then not_coercable M v DECIMAL
      else if IsNull M v then GetDecimalValue (BUSTUB_DECIMAL_NULL M)
      else
        (case GetTypeId v of
           TINYINT \<Rightarrow> GetDecimalValue (of_integer M (GetAs 8 v))
         | SMALLINT \<Rightarrow> GetDecimalValue (of_integer M (GetAs 16 v))
         | INTEGER \<Rightarrow> GetDecimalValue (of_integer M (GetAs 32 v))
         | BIGINT \<Rightarrow> GetDecimalValue (of_integer M (GetAs 64 v))
         | DECIMAL \<Rightarrow> GetDecimalValue (GetAsDouble M v)
         | VARCHAR \<Rightarrow>
             let str = VarlenType_ToString v in
             parsed_as ''decimal'' str (d_parse M str) (\<lambda>d.
               if d_gt M d (BUSTUB_DECIMAL_MAX M) \<or> d_lt M d (BUSTUB_DECIMAL_MIN M) then out_of_range else GetDecimalValue d)
         | _ \<Rightarrow> not_coercable M v DECIMAL))"

definition CastAsVarchar :: "'d machine \<Rightarrow> 'd val \<Rightarrow> 'd val result" where
  "CastAsVarchar M v =
     (if \<not> IsCoercableFrom VARCHAR (GetTypeId v) then not_coercable M v VARCHAR
      else if IsNull M v then GetVarcharValue None
      else if GetTypeId v \<in> {BOOLEAN, TINYINT, SMALLINT, INTEGER, BIGINT, DECIMAL, VARCHAR}
        then rbind (Value_ToString M v) GetVarcharString
      else not_coercable M v VARCHAR)"

definition CastAsBoolean :: "'d machine \<Rightarrow> 'd val \<Rightarrow> 'd val result" where
  "CastAsBoolean M v =
     (if \<not> IsCoercableFrom BOOLEAN (GetTypeId v) then not_coercable M v BOOLEAN
      else if IsNull M v then GetBooleanValue BUSTUB_BOOLEAN_NULL
      else
        (case GetTypeId v of
           BOOLEAN \<Rightarrow> GetBooleanValue (GetAs 8 v)
         | VARCHAR \<Rightarrow>
             let str = map to_lower (VarlenType_ToString v) in
             if str = ''true'' \<or> str = ''1'' \<or> str = ''t'' then GetBooleanValue 1
             else if str = ''false'' \<or> str = ''0'' \<or> str = ''f'' then GetBooleanValue 0
             else Inl (Thrown ''Boolean value format error.'')
         | _ \<Rightarrow> not_coercable M v BOOLEAN))"

subsection \<open>Timestamps\<close>

definition days_in_month :: "nat \<Rightarrow> nat \<Rightarrow> nat" where
  "days_in_month year month =
     (if (year mod 4 = 0 \<and> year mod 100 \<noteq> 0) \<or> year mod 400 = 0
      then [0, 31, 29, 31, 30, 31, 30, 31, 31, 30, 31, 30, 31] ! month
      else [0, 31, 28, 31, 30, 31, 30, 31, 31, 30, 31, 30, 31] ! month)"

text \<open>The number is computed in \<open>uint64_t\<close>; \<open>timezone\<close> is a \<open>uint32_t\<close>.\<close>

definition pack_timestamp :: "nat \<Rightarrow> nat \<Rightarrow> nat \<Rightarrow> nat \<Rightarrow> nat \<Rightarrow> nat \<Rightarrow> nat \<Rightarrow> int \<Rightarrow> nat" where
  "pack_timestamp year month day hour minute sec micro tz =
     (let timezone = nat ((tz + 12) mod 2 ^ 32) in
      (((((month * 32 + day) * 27 + timezone) * 10000 + year) * 100000 + (hour * 3600 + minute * 60 + sec)) * 1000000 + micro) mod 2 ^ 64)"

text \<open>The shape of \<open>YYYY-MM-DD HH:MM:SS.uuuuuu+TT\<close>: the separators and the digits.\<close>

definition timestamp_shape :: "string \<Rightarrow> bool" where
  "timestamp_shape str \<longleftrightarrow>
     str ! 10 = CHR '' '' \<and> str ! 4 = CHR ''-'' \<and> str ! 7 = CHR ''-'' \<and> str ! 13 = CHR '':'' \<and> str ! 16 = CHR '':'' \<and>
     str ! 19 = CHR ''.'' \<and> (str ! 26 = CHR ''+'' \<or> str ! 26 = CHR ''-'') \<and>
     (\<forall>i \<in> set [0, 1, 2, 3, 5, 6, 8, 9, 11, 12, 14, 15, 17, 18, 20, 21, 22, 23, 24, 25, 27, 28]. is_digit (str ! i))"

text \<open>The field of \<open>n\<close> digits at \<open>i\<close>, as \<open>sscanf\<close> reads it from a string of that shape.\<close>

definition field :: "nat \<Rightarrow> nat \<Rightarrow> string \<Rightarrow> nat" where
  "field i n str = digits_value (take n (drop i str))"

definition parse_timestamp :: "string \<Rightarrow> nat result" where
  "parse_timestamp str0 =
     (let str = (if length str0 = 22 then take 19 str0 @ ''.000000'' @ take 3 (drop 19 str0) else str0) in
      if length str \<noteq> 29 \<or> \<not> timestamp_shape str then Inl (Thrown ''Timestamp format error.'')
      else
        (let year = field 0 4 str; month = field 5 2 str; day = field 8 2 str; hour = field 11 2 str;
             minute = field 14 2 str; sec = field 17 2 str; micro = field 20 6 str;
             tz = (if str ! 26 = CHR ''-'' then - int (field 27 2 str) else int (field 27 2 str)) in
         if year > 9999 \<or> month > 12 \<or> day > 31 \<or> hour > 23 \<or> minute > 59 \<or> sec > 59 \<or> micro > 999999 \<or> day = 0 \<or> month = 0
         then Inl (Thrown ''Timestamp value out of range.'')
         else if day > days_in_month year month then Inl (Thrown ''Timestamp value out of range.'')
         else if tz > 26 then Inl (Thrown ''Timestamp format error.'')
         else Inr (pack_timestamp year month day hour minute sec micro tz)))"

definition CastAsTimestamp :: "'d machine \<Rightarrow> 'd val \<Rightarrow> 'd val result" where
  "CastAsTimestamp M v =
     (if \<not> IsCoercableFrom TIMESTAMP (GetTypeId v) then not_coercable M v TIMESTAMP
      else if IsNull M v then GetTimestampValue (int BUSTUB_TIMESTAMP_NULL)
      else
        (case GetTypeId v of
           TIMESTAMP \<Rightarrow> GetTimestampValue (int (GetAsUint64 v))
         | VARCHAR \<Rightarrow> rbind (parse_timestamp (VarlenType_ToString v)) (\<lambda>n. GetTimestampValue (int n))
         | _ \<Rightarrow> not_coercable M v TIMESTAMP))"

end
