(* ===== verification/Value_Proofs.thy ===== *)
theory Value_Proofs
  imports Value_Factory
begin

section \<open>Integer values compute with integers\<close>

text \<open>
  The arithmetic of the four integer types is exact or throws, when signed overflow wraps around;
  the comparisons decide the order of the integers; a value keeps its type. The lemmas on the
  templates hold at any of the widths of the types.
\<close>

subsection \<open>Machine integers\<close>

lemma fits_iff: "0 < w \<Longrightarrow> fits w i \<longleftrightarrow> - (2 ^ (w - 1)) \<le> i \<and> i < 2 ^ (w - 1)"
  by (auto simp: fits_def int_min_def int_max_def)

lemma cast_fits: "0 < w \<Longrightarrow> fits w i \<Longrightarrow> cast w i = i"
  by (simp add: fits_iff cast_def signed_take_bit_int_eq_self)

lemma fits_cast: "0 < w \<Longrightarrow> fits w (cast w i)"
  by (simp add: fits_iff cast_def signed_take_bit_int_greater_eq_minus_exp signed_take_bit_int_less_exp)

lemma cast_eq_iff: "0 < w \<Longrightarrow> cast w i = i \<longleftrightarrow> fits w i"
  using cast_fits fits_cast by metis

lemma cast_unique:
  assumes "0 < w" "fits w j" "j = i + k * 2 ^ w"
  shows "cast w i = j"
proof -
  have "take_bit w j = take_bit w i" by (simp add: assms(3) take_bit_eq_mod)
  then have "cast w j = cast w i" using assms(1) by (simp add: cast_def signed_take_bit_eq_iff_take_bit_eq)
  then show ?thesis using cast_fits [OF assms(1,2)] by simp
qed

lemma pow_half: "0 < w \<Longrightarrow> (2 :: int) ^ w = 2 * 2 ^ (w - 1)"
  by (cases w) simp_all

lemma cast_high: "0 < w \<Longrightarrow> int_max w < i \<Longrightarrow> i < 2 ^ w \<Longrightarrow> cast w i = i - 2 ^ w"
  by (rule cast_unique [of _ _ _ "-1"]) (auto simp: fits_iff int_max_def pow_half)

lemma cast_low: "0 < w \<Longrightarrow> i < int_min w \<Longrightarrow> - (2 ^ w) \<le> i \<Longrightarrow> cast w i = i + 2 ^ w"
  by (rule cast_unique [of _ _ _ 1]) (auto simp: fits_iff int_min_def pow_half)

lemma cast_congruent: "0 < w \<Longrightarrow> \<exists>k. cast w i = i + k * 2 ^ w"
proof -
  assume w: "0 < w"
  have "take_bit w (cast w i) = take_bit w i" using w by (simp add: cast_def take_bit_signed_take_bit)
  then have "2 ^ w dvd cast w i - i" by (simp add: take_bit_eq_mod mod_eq_dvd_iff)
  then obtain k where "cast w i - i = 2 ^ w * k" by (auto elim: dvdE)
  then show ?thesis by (intro exI [of _ k]) (simp add: algebra_simps)
qed

lemma fits_mono: "0 < w1 \<Longrightarrow> w1 \<le> w2 \<Longrightarrow> fits w1 i \<Longrightarrow> fits w2 i"
proof -
  assume "0 < w1" "w1 \<le> w2" "fits w1 i"
  moreover have "(2 :: int) ^ (w1 - 1) \<le> 2 ^ (w2 - 1)" using \<open>w1 \<le> w2\<close> by (intro power_increasing) auto
  ultimately show ?thesis using fits_iff [of w1 i] fits_iff [of w2 i] by linarith
qed

subsection \<open>The templates\<close>

text \<open>The widths of the four types, and what the result of an operation is when the mathematical result is \<open>s\<close>.\<close>

definition int_width :: "nat \<Rightarrow> bool" where
  "int_width w \<longleftrightarrow> w = 8 \<or> w = 16 \<or> w = 32 \<or> w = 64"

lemma promoted_width:
  assumes "int_width w1" "int_width w2"
  shows "promoted w1 w2 = max w1 w2 \<or> promoted w1 w2 = 32 \<and> w1 \<le> 16 \<and> w2 \<le> 16" "max w1 w2 \<le> promoted w1 w2" "0 < w1" "0 < w2"
  using assms by (auto simp: int_width_def promoted_def)

definition outcome :: "nat \<Rightarrow> nat \<Rightarrow> 'd val \<Rightarrow> 'd val \<Rightarrow> int \<Rightarrow> 'd val result" where
  "outcome w1 w2 left right s =
     (if fits (max w1 w2) s then Value_int (max w1 w2) (if w2 \<le> w1 then GetTypeId left else GetTypeId right) s else out_of_range)"

lemma outcome_fits:
  assumes "int_width w1" "int_width w2" "fits (max w1 w2) s"
  shows "signed_arith M (promoted w1 w2) s = Inr s" "cast (max w1 w2) s = s"
  using assms promoted_width [OF assms(1,2)] fits_mono [of "max w1 w2" "promoted w1 w2" s]
  by (auto simp: signed_arith_def cast_eq_iff)

lemma outcome_narrow:
  assumes "int_width w1" "int_width w2" "fits 32 s" "promoted w1 w2 = 32" "\<not> fits (max w1 w2) s"
  shows "signed_arith M (promoted w1 w2) s = Inr s" "cast w1 s \<noteq> s \<and> cast w2 s \<noteq> s"
  using assms promoted_width [OF assms(1,2)] cast_eq_iff [of w1 s] cast_eq_iff [of w2 s]
    fits_mono [of w1 "max w1 w2" s] fits_mono [of w2 "max w1 w2" s]
  by (auto simp: signed_arith_def)

lemma outcome_wraps:
  assumes "int_width w1" "int_width w2" "wraps M" "promoted w1 w2 = max w1 w2" "\<not> fits (max w1 w2) s"
  shows "signed_arith M (promoted w1 w2) s = Inr (cast (max w1 w2) s)" "cast (max w1 w2) (cast (max w1 w2) s) = cast (max w1 w2) s"
  using assms promoted_width [OF assms(1,2)] by (auto simp: signed_arith_def intro!: cast_fits fits_cast)

lemma sum_range:
  assumes "int_width w1" "int_width w2" "fits w1 x" "fits w2 y" "w1 \<le> 16" "w2 \<le> 16"
  shows "fits 32 (x + y)" "fits 32 (x - y)" "fits 32 (x * y)"
proof -
  have r: "- (2 ^ 15) \<le> x" "x < 2 ^ 15" "- (2 ^ 15) \<le> y" "y < 2 ^ 15"
    using fits_mono [of w1 16 x] fits_mono [of w2 16 y] promoted_width(3,4) [OF assms(1,2)] assms by (auto simp: fits_iff)
  then show "fits 32 (x + y)" "fits 32 (x - y)" by (auto simp: fits_iff)
  have "\<bar>x * y\<bar> \<le> 2 ^ 15 * 2 ^ 15" unfolding abs_mult using r by (intro mult_mono) auto
  then show "fits 32 (x * y)" by (auto simp: fits_iff abs_le_iff)
qed

lemma wide_range:
  assumes "int_width w1" "int_width w2" "fits w1 x" "fits w2 y" "x \<noteq> int_min w1" "y \<noteq> int_min w2"
  defines "p \<equiv> 2 ^ (max w1 w2 - 1)"
  shows "- p < x" "x < p" "- p < y" "y < p" "2 ^ max w1 w2 = 2 * p"
proof -
  have w: "0 < w1" "0 < w2" using promoted_width [OF assms(1,2)] by auto
  have "(2 :: int) ^ (w1 - 1) \<le> p" "(2 :: int) ^ (w2 - 1) \<le> p" unfolding p_def by (intro power_increasing; simp)+
  then show "- p < x" "x < p" "- p < y" "y < p"
    using assms(3-6) fits_iff [OF w(1)] fits_iff [OF w(2)] by (auto simp: int_min_def)
  show "2 ^ max w1 w2 = 2 * p" unfolding p_def using w by (intro pow_half) simp
qed

text \<open>A sum or a difference that does not fit comes out with the wrong sign.\<close>

lemma wrong_sign:
  assumes "int_width w1" "int_width w2" "- (2 ^ max w1 w2) + 2 \<le> s" "s \<le> 2 ^ max w1 w2 - 2" "\<not> fits (max w1 w2) s"
  shows "0 < s \<and> cast (max w1 w2) s < 0 \<or> s < 0 \<and> 0 < cast (max w1 w2) s"
proof -
  have w: "0 < max w1 w2" using promoted_width [OF assms(1,2)] by auto
  have p: "(2 :: int) ^ max w1 w2 = 2 * 2 ^ (max w1 w2 - 1)" "(0 :: int) < 2 ^ (max w1 w2 - 1)" using pow_half [OF w] by auto
  consider "int_max (max w1 w2) < s" | "s < int_min (max w1 w2)" using assms(5) by (auto simp: fits_def not_le)
  then show ?thesis
  proof cases
    case 1
    then show ?thesis using cast_high [OF w 1] assms(4) p by (auto simp: int_max_def)
  next
    case 2
    then show ?thesis using cast_low [OF w 2] assms(3) p by (auto simp: int_min_def)
  qed
qed

lemma outside_range:
  assumes "int_width w1" "int_width w2" "\<not> fits (max w1 w2) s"
  shows "s < - (2 ^ (max w1 w2 - 1)) \<or> 2 ^ (max w1 w2 - 1) \<le> s"
  using assms promoted_width [OF assms(1,2)] fits_iff [of "max w1 w2" s] by linarith

lemma promoted_cases:
  assumes "int_width w1" "int_width w2"
  obtains "promoted w1 w2 = max w1 w2" | "promoted w1 w2 = 32" "w1 \<le> 16" "w2 \<le> 16"
  using promoted_width(1) [OF assms] by auto

lemma AddValue_outcome:
  assumes M: "wraps M" and w: "int_width w1" "int_width w2" and f: "fits w1 (GetAs w1 left)" "fits w2 (GetAs w2 right)"
    and n: "GetAs w1 left \<noteq> int_min w1" "GetAs w2 right \<noteq> int_min w2"
  shows "AddValue M w1 w2 left right = outcome w1 w2 left right (GetAs w1 left + GetAs w2 right)"
proof -
  let ?x = "GetAs w1 left" let ?y = "GetAs w2 right" let ?s = "?x + ?y"
  note r = wide_range [OF w f n]
  show ?thesis
  proof (cases "fits (max w1 w2) ?s")
    case True
    from outcome_fits(1) [OF w True, of M] outcome_fits(2) [OF w True] True show ?thesis
      by (cases "w2 \<le> w1") (auto simp: AddValue_def outcome_def Let_def max_def)
  next
    case False
    from w show ?thesis
    proof (cases rule: promoted_cases)
      case 1
      have "0 < ?s \<and> cast (max w1 w2) ?s < 0 \<or> ?s < 0 \<and> 0 < cast (max w1 w2) ?s"
        using r by (intro wrong_sign [OF w _ _ False]) auto
      moreover have "0 < ?s \<longrightarrow> 0 < ?x \<and> 0 < ?y" "?s < 0 \<longrightarrow> ?x < 0 \<and> ?y < 0"
        using outside_range [OF w False] r by linarith+
      ultimately have bad: "0 < ?x \<and> 0 < ?y \<and> cast (max w1 w2) ?s < 0 \<or> ?x < 0 \<and> ?y < 0 \<and> 0 < cast (max w1 w2) ?s" by blast
      have m: "max w1 w2 = (if w2 \<le> w1 then w1 else w2)" by simp
      show ?thesis using outcome_wraps [OF w M 1 False] bad False
        unfolding m by (cases "w2 \<le> w1") (simp_all add: AddValue_def outcome_def Let_def)
    next
      case 2
      from outcome_narrow(1) [OF w sum_range(1) [OF w f 2(2,3)] 2(1) False, of M] outcome_narrow(2) [OF w sum_range(1) [OF w f 2(2,3)] 2(1) False] False show ?thesis
        by (simp add: AddValue_def outcome_def Let_def)
    qed
  qed
qed

lemma SubtractValue_outcome:
  assumes M: "wraps M" and w: "int_width w1" "int_width w2" and f: "fits w1 (GetAs w1 left)" "fits w2 (GetAs w2 right)"
    and n: "GetAs w1 left \<noteq> int_min w1" "GetAs w2 right \<noteq> int_min w2"
  shows "SubtractValue M w1 w2 left right = outcome w1 w2 left right (GetAs w1 left - GetAs w2 right)"
proof -
  let ?x = "GetAs w1 left" let ?y = "GetAs w2 right" let ?s = "?x - ?y"
  note r = wide_range [OF w f n]
  show ?thesis
  proof (cases "fits (max w1 w2) ?s")
    case True
    from outcome_fits(1) [OF w True, of M] outcome_fits(2) [OF w True] True show ?thesis
      by (cases "w2 \<le> w1") (auto simp: SubtractValue_def outcome_def Let_def max_def)
  next
    case False
    from w show ?thesis
    proof (cases rule: promoted_cases)
      case 1
      have "0 < ?s \<and> cast (max w1 w2) ?s < 0 \<or> ?s < 0 \<and> 0 < cast (max w1 w2) ?s"
        using r by (intro wrong_sign [OF w _ _ False]) auto
      moreover have "0 < ?s \<longrightarrow> 0 < ?x \<and> ?y < 0" "?s < 0 \<longrightarrow> ?x < 0 \<and> 0 < ?y"
        using outside_range [OF w False] r by linarith+
      ultimately have bad: "0 < ?x \<and> ?y < 0 \<and> cast (max w1 w2) ?s < 0 \<or> ?x < 0 \<and> 0 < ?y \<and> 0 < cast (max w1 w2) ?s" by blast
      have m: "max w1 w2 = (if w2 \<le> w1 then w1 else w2)" by simp
      show ?thesis using outcome_wraps [OF w M 1 False] bad False
        unfolding m by (cases "w2 \<le> w1") (simp_all add: SubtractValue_def outcome_def Let_def)
    next
      case 2
      from outcome_narrow(1) [OF w sum_range(2) [OF w f 2(2,3)] 2(1) False, of M]
        outcome_narrow(2) [OF w sum_range(2) [OF w f 2(2,3)] 2(1) False] False show ?thesis
        by (simp add: SubtractValue_def outcome_def Let_def)
    qed
  qed
qed

text \<open>A product that does not fit is not the multiple it is checked against.\<close>

lemma mult_sdiv: "y \<noteq> 0 \<Longrightarrow> x * y sdiv y = (x :: int)"
proof -
  assume "y \<noteq> 0"
  then have "sgn y * sgn y = 1" by (auto simp: sgn_if)
  then have "sgn x * sgn y * sgn y * \<bar>x\<bar> = sgn x * \<bar>x\<bar>" by (simp add: mult.assoc)
  with \<open>y \<noteq> 0\<close> show ?thesis by (simp add: signed_divide_int_def sgn_mult abs_mult sgn_mult_abs)
qed

lemma abs_sdiv: "\<bar>s sdiv (y :: int)\<bar> = \<bar>s\<bar> div \<bar>y\<bar>"
  by (cases "s = 0"; cases "y = 0") (simp_all add: signed_divide_int_def abs_mult abs_sgn_eq pos_imp_zdiv_nonneg_iff)

lemma quotient_fits:
  assumes "0 < w" "fits w s" "y \<noteq> 0" "s \<noteq> int_min w \<or> y \<noteq> -1"
  shows "fits w (s sdiv y)"
proof -
  consider "y = 1" | "y = -1" | "2 \<le> \<bar>y\<bar>" using assms(3) by linarith
  then show ?thesis
  proof cases
    case 3
    have s: "\<bar>s\<bar> \<le> 2 ^ (w - 1)" using assms(1,2) by (auto simp: fits_iff)
    have "\<bar>s sdiv y\<bar> \<le> \<bar>s\<bar> div 2" unfolding abs_sdiv using 3 by (intro zdiv_mono2) auto
    also have "\<dots> < 2 ^ (w - 1)" using s zero_less_power [of "2 :: int" "w - 1"] by linarith
    finally show ?thesis using assms(1) by (auto simp: fits_iff)
  qed (use assms in \<open>auto simp: fits_iff int_min_def\<close>)
qed

lemma wrapped_product:
  assumes "\<bar>y\<bar> < 2 ^ w" "y \<noteq> 0" "c = x * y + k * 2 ^ w" "c sdiv y = x"
  shows "c = x * (y :: int)"
proof -
  have "c = x * y + c smod y" using mult_sdiv_smod_eq [of y c] assms(4) by (simp add: mult.commute)
  then have "\<bar>k * 2 ^ w\<bar> < \<bar>y\<bar>" using assms(2,3) smod_int_range [of y c] by auto
  moreover have "\<bar>k * 2 ^ w\<bar> = \<bar>k\<bar> * 2 ^ w" by (simp add: abs_mult)
  ultimately have "\<bar>k\<bar> * 2 ^ w < 1 * 2 ^ w" using assms(1) by linarith
  then have "\<bar>k\<bar> < 1" by (rule mult_less_cancel_right_pos [THEN iffD1, rotated]) simp
  then have "k = 0" by simp
  then show ?thesis using assms(3) by simp
qed

lemma MultiplyValue_outcome:
  assumes M: "wraps M" and w: "int_width w1" "int_width w2" and f: "fits w1 (GetAs w1 left)" "fits w2 (GetAs w2 right)"
    and n: "GetAs w1 left \<noteq> int_min w1" "GetAs w2 right \<noteq> int_min w2"
  shows "MultiplyValue M w1 w2 left right = outcome w1 w2 left right (GetAs w1 left * GetAs w2 right)"
proof -
  let ?x = "GetAs w1 left" let ?y = "GetAs w2 right" let ?s = "?x * ?y" let ?w = "max w1 w2"
  note r = wide_range [OF w f n]
  have pw: "0 < promoted w1 w2" "?w \<le> promoted w1 w2" "0 < ?w" using promoted_width [OF w] by auto
  show ?thesis
  proof (cases "fits ?w ?s")
    case True
    have "signed_div (promoted w1 w2) ?s ?y = Inr ?x" if "?y \<noteq> 0"
    proof -
      have "?s sdiv ?y = ?x" using that by (rule mult_sdiv)
      moreover have "fits (promoted w1 w2) ?x" using f(1) pw promoted_width [OF w] by (intro fits_mono [OF _ _ f(1)]) auto
      ultimately show ?thesis using that by (simp add: signed_div_def)
    qed
    with outcome_fits(1) [OF w True, of M] outcome_fits(2) [OF w True] True show ?thesis
      by (cases "w2 \<le> w1") (auto simp: MultiplyValue_def outcome_def Let_def max_def)
  next
    case False
    from w show ?thesis
    proof (cases rule: promoted_cases)
      case 1
      let ?c = "cast ?w ?s"
      have y: "?y \<noteq> 0" using False pw by (auto simp: fits_iff)
      have c: "?c \<noteq> ?s" using False cast_eq_iff [OF pw(3)] by simp
      have "fits ?w (?c sdiv ?y)"
      proof (rule quotient_fits [OF pw(3) fits_cast [OF pw(3)] y])
        have "fits ?w (- ?x)" using r pw by (auto simp: fits_iff)
        then show "?c \<noteq> int_min ?w \<or> ?y \<noteq> -1" using False by auto
      qed
      moreover have "?c sdiv ?y \<noteq> ?x"
      proof
        assume q: "?c sdiv ?y = ?x"
        obtain k where "?c = ?s + k * 2 ^ ?w" using cast_congruent [OF pw(3)] by blast
        from wrapped_product [OF _ y this q] r c show False by linarith
      qed
      ultimately have "rbind (signed_div ?w ?c ?y) (\<lambda>q. Inr (q \<noteq> ?x)) = (Inr True :: bool result)" using y by (simp add: signed_div_def)
      with outcome_wraps [OF w M 1 False] False y show ?thesis unfolding 1
        by (cases "w2 \<le> w1") (auto simp: MultiplyValue_def outcome_def Let_def max_def 1)
    next
      case 2
      from outcome_narrow(1) [OF w sum_range(3) [OF w f 2(2,3)] 2(1) False, of M]
        outcome_narrow(2) [OF w sum_range(3) [OF w f 2(2,3)] 2(1) False] False show ?thesis
        by (simp add: MultiplyValue_def outcome_def Let_def)
    qed
  qed
qed

lemma smaller_fits:
  assumes "int_width w1" "int_width w2" "fits w1 x" "x \<noteq> int_min w1" "\<bar>q\<bar> \<le> \<bar>x\<bar>"
  shows "fits (max w1 w2) q" "fits (promoted w1 w2) q"
proof -
  have w: "0 < w1" "w1 \<le> max w1 w2" "w1 \<le> promoted w1 w2" using promoted_width [OF assms(1,2)] by auto
  have "fits w1 q" using assms(3-5) w(1) by (auto simp: fits_iff int_min_def)
  then show "fits (max w1 w2) q" "fits (promoted w1 w2) q" using w fits_mono by blast+
qed

lemma abs_smod: "y \<noteq> 0 \<Longrightarrow> \<bar>x smod (y :: int)\<bar> \<le> \<bar>x\<bar>"
  by (cases "x = 0") (simp_all add: signed_modulo_int_def abs_mult abs_sgn_eq zmod_le_nonneg_dividend)

lemma abs_sdiv_le: "\<bar>x sdiv (y :: int)\<bar> \<le> \<bar>x\<bar>"
  using sdiv_int_range [of x y] by auto

lemma DivideValue_outcome:
  assumes w: "int_width w1" "int_width w2" and f: "fits w1 (GetAs w1 left)" "GetAs w1 left \<noteq> int_min w1" and y: "GetAs w2 right \<noteq> 0"
  shows "DivideValue M w1 w2 left right = outcome w1 w2 left right (GetAs w1 left sdiv GetAs w2 right)"
proof -
  let ?q = "GetAs w1 left sdiv GetAs w2 right"
  note q = smaller_fits [OF w f abs_sdiv_le [of _ "GetAs w2 right"]]
  have "signed_div (promoted w1 w2) (GetAs w1 left) (GetAs w2 right) = Inr ?q" using q(2) y by (simp add: signed_div_def)
  moreover have "cast (max w1 w2) ?q = ?q" using q(1) promoted_width [OF w] by (simp add: cast_fits)
  ultimately show ?thesis using q(1) y
    by (cases "w2 \<le> w1") (simp_all add: DivideValue_def outcome_def Let_def max_def)
qed

lemma ModuloValue_outcome:
  assumes w: "int_width w1" "int_width w2" and f: "fits w1 (GetAs w1 left)" "GetAs w1 left \<noteq> int_min w1" and y: "GetAs w2 right \<noteq> 0"
  shows "ModuloValue M w1 w2 left right = outcome w1 w2 left right (GetAs w1 left smod GetAs w2 right)"
proof -
  let ?r = "GetAs w1 left smod GetAs w2 right"
  note r = smaller_fits(1) [OF w f abs_smod [OF y]] smaller_fits(2) [OF w f abs_sdiv_le [of _ "GetAs w2 right"]]
  have "signed_mod (promoted w1 w2) (GetAs w1 left) (GetAs w2 right) = Inr ?r" using r(2) y by (simp add: signed_mod_def)
  moreover have "cast (max w1 w2) ?r = ?r" using r(1) promoted_width [OF w] by (simp add: cast_fits)
  ultimately show ?thesis using r(1) y
    by (cases "w2 \<le> w1") (simp_all add: ModuloValue_def outcome_def Let_def max_def)
qed

subsection \<open>Values\<close>

fun wf_value :: "'d val \<Rightarrow> bool" where
  "wf_value (Boolean i) \<longleftrightarrow> fits 8 i"
| "wf_value (Tinyint i) \<longleftrightarrow> fits 8 i"
| "wf_value (Smallint i) \<longleftrightarrow> fits 16 i"
| "wf_value (Integer i) \<longleftrightarrow> fits 32 i"
| "wf_value (Bigint i) \<longleftrightarrow> fits 64 i"
| "wf_value (Timestamp n) \<longleftrightarrow> n < 2 ^ 64"
| "wf_value v \<longleftrightarrow> True"

fun type_width :: "type_id \<Rightarrow> nat" where
  "type_width TINYINT = 8"
| "type_width SMALLINT = 16"
| "type_width INTEGER = 32"
| "type_width t = 64"

definition wider :: "type_id \<Rightarrow> type_id \<Rightarrow> type_id" where
  "wider t1 t2 = (if type_width t2 \<le> type_width t1 then t1 else t2)"

fun int_val :: "type_id \<Rightarrow> int \<Rightarrow> 'd val" where
  "int_val TINYINT i = Tinyint i"
| "int_val SMALLINT i = Smallint i"
| "int_val INTEGER i = Integer i"
| "int_val t i = Bigint i"

text \<open>The result of an operation on integers of type \<open>t\<close> with the mathematical result \<open>s\<close>.\<close>

definition exact_or_out_of_range :: "type_id \<Rightarrow> int \<Rightarrow> 'd val result" where
  "exact_or_out_of_range t s = (if fits (type_width t) s then Inr (int_val t s) else out_of_range)"

lemma integer_cases:
  assumes "CheckInteger v"
  obtains i where "v = Tinyint i" | i where "v = Smallint i" | i where "v = Integer i" | i where "v = Bigint i"
  using assms by (cases v) (simp_all add: CheckInteger_def)

lemma int_width_type [simp]: "int_width (type_width t)"
  by (cases t) (simp_all add: int_width_def)

lemma cast_wider [simp]:
  "fits 8 i \<Longrightarrow> cast 64 i = i" "fits 16 i \<Longrightarrow> cast 64 i = i" "fits 32 i \<Longrightarrow> cast 64 i = i" "fits 64 i \<Longrightarrow> cast 64 i = i"
  "fits 8 i \<Longrightarrow> cast 8 i = i" "fits 16 i \<Longrightarrow> cast 16 i = i" "fits 32 i \<Longrightarrow> cast 32 i = i"
  by (rule cast_fits; simp add: fits_def int_min_def int_max_def)+

lemma int_facts:
  assumes "CheckInteger v" "wf_value v"
  shows "GetAs (type_width (GetTypeId v)) v = GetAs 64 v" "fits (type_width (GetTypeId v)) (GetAs 64 v)"
    "GetAs 64 v = int_min (type_width (GetTypeId v)) \<longleftrightarrow> IsNull M v" "v = int_val (GetTypeId v) (GetAs 64 v)"
  using assms(1) by (cases rule: integer_cases; use assms(2) in \<open>simp add: int_min_def limits\<close>)+

lemmas integer_arithmetic_defs =
  Value_Add_def TinyintType_Add_def SmallintType_Add_def IntegerType_Add_def BigintType_Add_def
  Value_Subtract_def TinyintType_Subtract_def SmallintType_Subtract_def IntegerType_Subtract_def BigintType_Subtract_def
  Value_Multiply_def TinyintType_Multiply_def SmallintType_Multiply_def IntegerType_Multiply_def BigintType_Multiply_def
  Value_Divide_def TinyintType_Divide_def SmallintType_Divide_def IntegerType_Divide_def BigintType_Divide_def
  Value_Modulo_def TinyintType_Modulo_def SmallintType_Modulo_def IntegerType_Modulo_def BigintType_Modulo_def
  TINYINT_MODIFY_FUNC_def SMALLINT_MODIFY_FUNC_def INT_MODIFY_FUNC_def BIGINT_MODIFY_FUNC_def
  int_modify_def right_switch_def int_operation_def nonzero_then_def Value_IsZero_def
  TinyintType_IsZero_def SmallintType_IsZero_def IntegerType_IsZero_def BigintType_IsZero_def

lemmas integer_comparison_defs =
  Value_CompareEquals_def TinyintType_CompareEquals_def SmallintType_CompareEquals_def IntegerType_CompareEquals_def BigintType_CompareEquals_def
  Value_CompareNotEquals_def TinyintType_CompareNotEquals_def SmallintType_CompareNotEquals_def IntegerType_CompareNotEquals_def BigintType_CompareNotEquals_def
  Value_CompareLessThan_def TinyintType_CompareLessThan_def SmallintType_CompareLessThan_def IntegerType_CompareLessThan_def BigintType_CompareLessThan_def
  Value_CompareLessThanEquals_def TinyintType_CompareLessThanEquals_def SmallintType_CompareLessThanEquals_def IntegerType_CompareLessThanEquals_def BigintType_CompareLessThanEquals_def
  Value_CompareGreaterThan_def TinyintType_CompareGreaterThan_def SmallintType_CompareGreaterThan_def IntegerType_CompareGreaterThan_def BigintType_CompareGreaterThan_def
  Value_CompareGreaterThanEquals_def TinyintType_CompareGreaterThanEquals_def SmallintType_CompareGreaterThanEquals_def IntegerType_CompareGreaterThanEquals_def BigintType_CompareGreaterThanEquals_def
  TINYINT_COMPARE_FUNC_def SMALLINT_COMPARE_FUNC_def INT_COMPARE_FUNC_def BIGINT_COMPARE_FUNC_def
  int_compare_def right_switch_def int_operation_def

lemma integer_operation:
  assumes "CheckInteger l" "CheckInteger r" "\<not> IsNull M l" "\<not> IsNull M r"
  shows "Value_Add M l r = AddValue M (type_width (GetTypeId l)) (type_width (GetTypeId r)) l r"
    "Value_Subtract M l r = SubtractValue M (type_width (GetTypeId l)) (type_width (GetTypeId r)) l r"
    "Value_Multiply M l r = MultiplyValue M (type_width (GetTypeId l)) (type_width (GetTypeId r)) l r"
    "Value_Divide M l r = (if GetAs (type_width (GetTypeId r)) r = 0 then Inl (Thrown ''Division by zero on right-hand side'')
       else DivideValue M (type_width (GetTypeId l)) (type_width (GetTypeId r)) l r)"
    "Value_Modulo M l r = (if GetAs (type_width (GetTypeId r)) r = 0 then Inl (Thrown ''Division by zero on right-hand side'')
       else ModuloValue M (type_width (GetTypeId l)) (type_width (GetTypeId r)) l r)"
  using assms(1) by (cases rule: integer_cases; use assms(2) in \<open>cases rule: integer_cases\<close>; use assms(3,4) in \<open>simp add:
    integer_arithmetic_defs CheckInteger_def CheckComparable_def\<close>)+

lemma integer_null:
  assumes "CheckInteger l" "CheckInteger r" "IsNull M l \<or> IsNull M r"
  shows "f \<in> {Value_Add M, Value_Subtract M, Value_Multiply M, Value_Divide M, Value_Modulo M} \<Longrightarrow>
    f l r = Inr (int_val (wider (GetTypeId l) (GetTypeId r)) (int_min (type_width (wider (GetTypeId l) (GetTypeId r)))))"
proof -
  assume f: "f \<in> {Value_Add M, Value_Subtract M, Value_Multiply M, Value_Divide M, Value_Modulo M}"
  have n: "fits 8 (-128)" "fits 16 (-32768)" "fits 32 (-2147483648)" "fits 64 (-9223372036854775808)"
    by (simp_all add: fits_def int_min_def int_max_def)
  have o: "Value_OperateNull M l r = Inr (int_val (wider (GetTypeId l) (GetTypeId r)) (int_min (type_width (wider (GetTypeId l) (GetTypeId r)))))"
    using assms(1) by (cases rule: integer_cases; use assms(2) in \<open>cases rule: integer_cases\<close>; simp add: Value_OperateNull_def
      TinyintType_OperateNull_def SmallintType_OperateNull_def IntegerType_OperateNull_def BigintType_OperateNull_def
      Value_int8_def Value_int16_def Value_int32_def Value_int64_def wider_def int_min_def limits n)
  have "f l r = Value_OperateNull M l r"
    using assms(1) f by (cases rule: integer_cases; use assms(2) in \<open>cases rule: integer_cases\<close>; use assms(3) in \<open>elim insertE emptyE;
      simp add: integer_arithmetic_defs CheckInteger_def CheckComparable_def Value_OperateNull_def\<close>)
  with o show ?thesis by simp
qed

lemma integer_comparison:
  assumes "CheckInteger l" "CheckInteger r" "wf_value l" "wf_value r"
  shows "Value_CompareEquals M l r = Inr (if IsNull M l \<or> IsNull M r then CmpNull else GetCmpBool (GetAs 64 l = GetAs 64 r))"
    "Value_CompareNotEquals M l r = Inr (if IsNull M l \<or> IsNull M r then CmpNull else GetCmpBool (GetAs 64 l \<noteq> GetAs 64 r))"
    "Value_CompareLessThan M l r = Inr (if IsNull M l \<or> IsNull M r then CmpNull else GetCmpBool (GetAs 64 l < GetAs 64 r))"
    "Value_CompareLessThanEquals M l r = Inr (if IsNull M l \<or> IsNull M r then CmpNull else GetCmpBool (GetAs 64 l \<le> GetAs 64 r))"
    "Value_CompareGreaterThan M l r = Inr (if IsNull M l \<or> IsNull M r then CmpNull else GetCmpBool (GetAs 64 l > GetAs 64 r))"
    "Value_CompareGreaterThanEquals M l r = Inr (if IsNull M l \<or> IsNull M r then CmpNull else GetCmpBool (GetAs 64 l \<ge> GetAs 64 r))"
  using assms(1) by (cases rule: integer_cases; use assms(2) in \<open>cases rule: integer_cases\<close>; use assms(3,4) in \<open>simp add:
    integer_comparison_defs CheckInteger_def CheckComparable_def\<close>)+

lemma Value_int_typed:
  assumes "CheckInteger (v :: 'd val)" "fits (type_width (GetTypeId v)) s"
  shows "(Value_int (type_width (GetTypeId v)) (GetTypeId v) s :: 'd val result) = Inr (int_val (GetTypeId v) s)"
  using assms(1) by (cases rule: integer_cases; use assms(2) in \<open>simp add: Value_int_def Value_int8_def Value_int16_def Value_int32_def Value_int64_def\<close>)

lemma outcome_exact:
  assumes "CheckInteger l" "CheckInteger r"
  shows "outcome (type_width (GetTypeId l)) (type_width (GetTypeId r)) l r s = exact_or_out_of_range (wider (GetTypeId l) (GetTypeId r)) s"
  using Value_int_typed [OF assms(1), of s] Value_int_typed [OF assms(2), of s]
  by (cases "type_width (GetTypeId r) \<le> type_width (GetTypeId l)") (simp_all add: outcome_def exact_or_out_of_range_def wider_def)

lemma integer_exact:
  assumes "wraps M" "CheckInteger l" "CheckInteger r" "wf_value l" "wf_value r" "\<not> IsNull M l" "\<not> IsNull M r"
  defines "t \<equiv> wider (GetTypeId l) (GetTypeId r)" and "x \<equiv> GetAs 64 l" and "y \<equiv> GetAs 64 r"
  shows "Value_Add M l r = exact_or_out_of_range t (x + y) \<and>
    Value_Subtract M l r = exact_or_out_of_range t (x - y) \<and>
    Value_Multiply M l r = exact_or_out_of_range t (x * y) \<and>
    Value_Divide M l r = (if y = 0 then Inl (Thrown ''Division by zero on right-hand side'') else Inr (int_val t (x sdiv y))) \<and>
    Value_Modulo M l r = (if y = 0 then Inl (Thrown ''Division by zero on right-hand side'') else Inr (int_val t (x smod y)))"
proof -
  let ?w1 = "type_width (GetTypeId l)" and ?w2 = "type_width (GetTypeId r)"
  note l = int_facts [OF assms(2,4)] and r = int_facts [OF assms(3,5)]
  have f: "fits ?w1 (GetAs ?w1 l)" "fits ?w2 (GetAs ?w2 r)" "GetAs ?w1 l \<noteq> int_min ?w1" "GetAs ?w2 r \<noteq> int_min ?w2"
    using l(1,2) l(3) [of M] r(1,2) r(3) [of M] assms(6,7) by simp_all
  have w: "int_width ?w1" "int_width ?w2" by simp_all
  have big: "fits (type_width t) q" if "\<bar>q\<bar> \<le> \<bar>GetAs ?w1 l\<bar>" for q
    using smaller_fits(1) [OF w f(1,3) that] by (cases "?w2 \<le> ?w1") (simp_all add: t_def wider_def max.absorb1 max.absorb2)
  note op = integer_operation [OF assms(2,3,6,7)]
  show ?thesis
  proof (intro conjI)
    show "Value_Add M l r = exact_or_out_of_range t (x + y)"
      unfolding op(1) AddValue_outcome [OF assms(1) w f] outcome_exact [OF assms(2,3)] t_def x_def y_def l(1) r(1) ..
    show "Value_Subtract M l r = exact_or_out_of_range t (x - y)"
      unfolding op(2) SubtractValue_outcome [OF assms(1) w f] outcome_exact [OF assms(2,3)] t_def x_def y_def l(1) r(1) ..
    show "Value_Multiply M l r = exact_or_out_of_range t (x * y)"
      unfolding op(3) MultiplyValue_outcome [OF assms(1) w f] outcome_exact [OF assms(2,3)] t_def x_def y_def l(1) r(1) ..
    show "Value_Divide M l r = (if y = 0 then Inl (Thrown ''Division by zero on right-hand side'') else Inr (int_val t (x sdiv y)))"
    proof (cases "y = 0")
      case False
      then have "GetAs ?w2 r \<noteq> 0" by (simp add: y_def r(1))
      from DivideValue_outcome [OF w f(1,3) this, of M] big [OF abs_sdiv_le] False this show ?thesis
        by (simp add: op(4) outcome_exact [OF assms(2,3)] t_def [symmetric] exact_or_out_of_range_def x_def y_def l(1) r(1))
    qed (simp add: op(4) y_def r(1))
    show "Value_Modulo M l r = (if y = 0 then Inl (Thrown ''Division by zero on right-hand side'') else Inr (int_val t (x smod y)))"
    proof (cases "y = 0")
      case False
      then have y: "GetAs ?w2 r \<noteq> 0" by (simp add: y_def r(1))
      from ModuloValue_outcome [OF w f(1,3) y, of M] big [OF abs_smod [OF y]] False y show ?thesis
        by (simp add: op(5) outcome_exact [OF assms(2,3)] t_def [symmetric] exact_or_out_of_range_def x_def y_def l(1) r(1))
    qed (simp add: op(5) y_def r(1))
  qed
qed

end
