(* ===== verification/Value_Props.thy ===== *)
theory Value_Props
  imports Value_Proofs
begin

section \<open>Properties of values\<close>

text \<open>
  Arithmetic is exact or throws and yields well-formed values of the right type; and the places where a
  result is a null, wraps around or cannot be computed.
\<close>

definition numeric_types :: "type_id set" where
  "numeric_types = {TINYINT, SMALLINT, INTEGER, BIGINT, DECIMAL}"

lemma numeric_cases:
  assumes "GetTypeId v \<in> numeric_types"
  obtains "CheckInteger v" | d where "v = Decimal d"
  using assms by (cases v) (simp_all add: CheckInteger_def numeric_types_def)

lemmas decimal_arithmetic_defs =
  DecimalType_Add_def DecimalType_Subtract_def DecimalType_Multiply_def DecimalType_Divide_def DecimalType_Modulo_def
  DECIMAL_MODIFY_FUNC_def double_operand_def comparable_operation_def DecimalType_OperateNull_def

lemma int_val_typed:
  fixes v :: "'d val"
  assumes "CheckInteger v" "fits (type_width (GetTypeId v)) s"
  shows "wf_value (int_val (GetTypeId v) s :: 'd val)" "GetTypeId (int_val (GetTypeId v) s :: 'd val) = GetTypeId v"
  using assms(1) by (cases rule: integer_cases; use assms(2) in simp)+

lemma wider_typed:
  fixes l r :: "'d val"
  assumes "CheckInteger l" "CheckInteger r" "fits (type_width (wider (GetTypeId l) (GetTypeId r))) s"
  shows "wf_value (int_val (wider (GetTypeId l) (GetTypeId r)) s :: 'd val)"
    "GetTypeId (int_val (wider (GetTypeId l) (GetTypeId r)) s :: 'd val) = wider (GetTypeId l) (GetTypeId r)"
  using int_val_typed [OF assms(1), of s] int_val_typed [OF assms(2), of s] assms(3) by (auto simp: wider_def split: if_splits)

definition typed_or_thrown :: "type_id \<Rightarrow> 'd val result \<Rightarrow> bool" where
  "typed_or_thrown t m \<longleftrightarrow> (case m of Inr v \<Rightarrow> wf_value v \<and> GetTypeId v = t | Inl e \<Rightarrow> \<exists>msg. e = Thrown msg)"

lemma smaller_in_type:
  assumes "CheckInteger l" "wf_value l" "\<not> IsNull M l" "\<bar>q\<bar> \<le> \<bar>GetAs 64 l\<bar>"
  shows "fits (type_width (wider (GetTypeId l) (GetTypeId r))) q"
  using smaller_fits(1) [of "type_width (GetTypeId l)" "type_width (GetTypeId r)" "GetAs 64 l" q]
    int_facts(2) [OF assms(1,2)] int_facts(3) [OF assms(1,2), of M] assms(3,4)
  by (cases "type_width (GetTypeId r) \<le> type_width (GetTypeId l)") (simp_all add: wider_def max.absorb1 max.absorb2)

lemma integer_typed:
  fixes M :: "'d machine"
  assumes "wraps M" "CheckInteger l" "CheckInteger r" "wf_value l" "wf_value r"
    "f \<in> {Value_Add M, Value_Subtract M, Value_Multiply M, Value_Divide M, Value_Modulo M}"
  shows "typed_or_thrown (wider (GetTypeId l) (GetTypeId r)) (f l r)"
proof (cases "IsNull M l \<or> IsNull M r")
  case True
  have "fits (type_width t) (int_min (type_width t))" for t by (cases t) (simp_all add: fits_def int_min_def int_max_def)
  from wider_typed [OF assms(2,3) this] integer_null [OF assms(2,3) True assms(6)] show ?thesis by (simp add: typed_or_thrown_def)
next
  case False
  then have n: "\<not> IsNull M l" "\<not> IsNull M r" by auto
  let ?t = "wider (GetTypeId l) (GetTypeId r)"
  have e: "typed_or_thrown ?t (exact_or_out_of_range ?t s :: 'd val result)" for s
    using wider_typed [OF assms(2,3), of s] by (simp add: typed_or_thrown_def exact_or_out_of_range_def out_of_range_def)
  have q: "typed_or_thrown ?t (Inr (int_val ?t s) :: 'd val result)" if "\<bar>s\<bar> \<le> \<bar>GetAs 64 l\<bar>" for s
    using wider_typed [OF assms(2,3) smaller_in_type [OF assms(2,4) n(1) that]] by (simp add: typed_or_thrown_def)
  have z: "typed_or_thrown ?t (Inl (Thrown m) :: 'd val result)" for m by (simp add: typed_or_thrown_def)
  from assms(6) show ?thesis
    by (elim insertE emptyE) (simp_all add: integer_exact [OF assms(1-5) n] e q z abs_sdiv_le abs_smod)
qed

lemma decimal_typed:
  assumes "GetTypeId l \<in> numeric_types" "GetTypeId r \<in> numeric_types" "GetTypeId l = DECIMAL \<or> GetTypeId r = DECIMAL"
    "f \<in> {Value_Add M, Value_Subtract M, Value_Multiply M, Value_Divide M, Value_Modulo M}"
  shows "typed_or_thrown DECIMAL (f l r)"
  using assms(4)
  by (elim insertE emptyE; use assms(1-3) in \<open>cases l; cases r; simp add: typed_or_thrown_def numeric_types_def integer_arithmetic_defs
    decimal_arithmetic_defs CheckInteger_def CheckComparable_def Value_double_def
    TinyintType_OperateNull_def SmallintType_OperateNull_def IntegerType_OperateNull_def BigintType_OperateNull_def\<close>)



subsection \<open>Strings\<close>

text \<open>An integer value cast to a string and back is the value.\<close>

lemma digit_char: "d < 10 \<Longrightarrow> is_digit (char_of (48 + d))" "d < 10 \<Longrightarrow> of_char (char_of (48 + d) :: char) = (48 + d :: nat)"
  by (simp_all add: is_digit_def)

lemma print_nat_digits: "print_nat n \<noteq> [] \<and> (\<forall>c \<in> set (print_nat n). is_digit c) \<and> digits_value (print_nat n) = n"
proof (induction n rule: print_nat.induct)
  case (1 n)
  show ?case
  proof (cases "n < 10")
    case True
    then show ?thesis by (simp add: print_nat.simps [of n] digits_value_def is_digit_def)
  next
    case False
    with 1 show ?thesis by (auto simp: print_nat.simps [of n] digits_value_def is_digit_def)
  qed
qed

lemma digit_chars: "is_digit c \<Longrightarrow> \<not> is_space c \<and> c \<noteq> CHR ''-'' \<and> c \<noteq> CHR ''+''"
  by (auto simp: is_digit_def is_space_def)

lemma parse_print: "fits w i \<Longrightarrow> parse_int w (print_int i) = Parsed i"
proof -
  assume f: "fits w i"
  have p: "takeWhile is_digit (print_nat n) = print_nat n" "print_nat n \<noteq> []" "digits_value (print_nat n) = n"
    "is_digit (hd (print_nat n))" "dropWhile is_space (print_nat n) = print_nat n" for n
    using print_nat_digits [of n] digit_chars [of "hd (print_nat n)"] by (cases "print_nat n"; auto simp: takeWhile_eq_all_conv)+
  show ?thesis
    using f digit_chars [OF p(4) [of "nat i"]] by (auto simp: parse_int_def print_int_def is_space_def Let_def p)
qed

lemma text_roundtrip:
  assumes "CheckInteger v" "wf_value v" "\<not> IsNull M v"
  shows "\<exists>s. Value_CastAs M v VARCHAR = Inr s \<and> Value_CastAs M s (GetTypeId v) = Inr v"
  using assms(1)
  by (cases rule: integer_cases; use assms(2,3) in \<open>simp add: Value_CastAs_def
    TinyintType_CastAs_def SmallintType_CastAs_def IntegerType_CastAs_def BigintType_CastAs_def
    TinyintType_ToString_def SmallintType_ToString_def IntegerType_ToString_def BigintType_ToString_def CheckInteger_def Value_string_def
    VarlenType_CastAs_def VarlenType_ToString_def parse_print fits_def parsed_or_def limits int_min_def int_max_def Value_int8_def Value_int16_def
    Value_int32_def Value_int64_def\<close>)

subsection \<open>Where a result is lost\<close>

text \<open>A sum in the range of the machine integer that is the null of its type is read as a null.\<close>

lemma tinyint_sum_null: "\<exists>v. Value_Add M (Tinyint (-64)) (Tinyint (-64)) = Inr v \<and> IsNull M v"
  by (simp add: integer_arithmetic_defs CheckInteger_def CheckComparable_def limits AddValue_def signed_arith_def fits_def int_min_def
    int_max_def promoted_def cast_def Value_int_def Value_int8_def)

text \<open>Without wrap-around the overflow of a 32-bit addition has no meaning: the test for it comes too late.\<close>

lemma integer_overflow_undefined: "\<not> wraps M \<Longrightarrow> Value_Add M (Integer 2147483647) (Integer 1) = Inl Undefined"
  by (simp add: integer_arithmetic_defs CheckInteger_def CheckComparable_def limits AddValue_def signed_arith_def fits_def int_min_def
    int_max_def promoted_def cast_def)

text \<open>The string \<open>300\<close> is cast to the \<open>TINYINT\<close> 44.\<close>

lemma varchar_to_tinyint_wraps: "Value_CastAs M (Varchar (Some [CHR ''3'', CHR ''0'', CHR ''0'', CHR 0x00])) TINYINT = Inr (Tinyint 44)"
  by (simp add: Value_CastAs_def VarlenType_CastAs_def VarlenType_ToString_def parse_int_def is_space_def is_digit_def
    digits_value_def parsed_or_def fits_def int_min_def int_max_def cast_def limits Value_int8_def)

text \<open>Two timestamps cannot be compared: the check of comparability fails.\<close>

lemma timestamps_not_comparable: "Value_CompareEquals M (Timestamp a) (Timestamp b) = Inl Assertion"
  by (simp add: Value_CompareEquals_def TimestampType_CompareEquals_def comparable_operation_def CheckComparable_def)

text \<open>Casting a null string to a number throws what the handler does not catch.\<close>

lemma null_varchar_cast: "Value_CastAs M (Varchar None) INTEGER = Inl (Thrown ''std::invalid_argument'')"
  by (simp add: Value_CastAs_def VarlenType_CastAs_def VarlenType_ToString_def parse_int_def is_space_def is_digit_def
    digits_value_def parsed_or_def fits_def int_min_def int_max_def cast_def limits Value_int8_def)

subsection \<open>Witnesses\<close>

text \<open>A machine that wraps around, with the integers for its doubles.\<close>

definition toy_machine :: "int machine" where
  "toy_machine = \<lparr>wraps = True, of_integer = id, to_integer = id, d_add = (+), d_sub = (-), d_mul = (*), d_div = (sdiv),
     d_trunc = id, d_sqrt = id, d_eq = (=), d_lt = (<), d_le = (\<le>), DBL_LOWEST = - (2 ^ 63), DBL_MAX = 2 ^ 63 - 1, FLT_LOWEST = - (2 ^ 62),
     d_print = print_int, d_parse = parse_int 64, d_bytes = le_bytes 8, d_of_bytes = (\<lambda>bs. cast 64 (of_le_bytes bs))\<rparr>"



end
