(* ===== verification/Tuples.thy ===== *)
theory Tuples
  imports Value_Factory
begin

section \<open>Columns, schemas and tuples\<close>

text \<open>
  Models \<^verbatim>\<open>src/include/catalog/column.h\<close>, \<^verbatim>\<open>schema.h\<close>, \<^verbatim>\<open>src/catalog/\<close> and
  \<^verbatim>\<open>src/storage/table/tuple.cpp\<close>: the placement of columns in a tuple and the bytes of a tuple, with
  the strings after the fixed part. The data of a tuple is a list of bytes; reading or writing
  outside it has no meaning.
\<close>

subsection \<open>Columns\<close>

record column =
  column_name :: string
  column_type :: type_id
  column_length :: nat
  column_offset :: nat

text \<open>\<open>TypeSize\<close> returns a \<open>uint8_t\<close>: the length of a string column is cut to a byte.\<close>

definition TypeSize :: "type_id \<Rightarrow> nat \<Rightarrow> nat result" where
  "TypeSize t len =
     (case t of
        BOOLEAN \<Rightarrow> Inr 1 | TINYINT \<Rightarrow> Inr 1 | SMALLINT \<Rightarrow> Inr 2 | INTEGER \<Rightarrow> Inr 4
      | BIGINT \<Rightarrow> Inr 8 | DECIMAL \<Rightarrow> Inr 8 | TIMESTAMP \<Rightarrow> Inr 8
      | VARCHAR \<Rightarrow> Inr (len mod 2 ^ 8) | VECTOR \<Rightarrow> Inr (len * 8 mod 2 ^ 8)
      | INVALID \<Rightarrow> Inl (Thrown ''Cannot get size of invalid type''))"

definition Column :: "string \<Rightarrow> type_id \<Rightarrow> column result" where
  "Column name t =
     rbind (TypeSize t 0) (\<lambda>len.
       if t = VARCHAR \<or> t = VECTOR then Inl Assertion
       else Inr \<lparr>column_name = name, column_type = t, column_length = len, column_offset = 0\<rparr>)"

definition Column_varlen :: "string \<Rightarrow> type_id \<Rightarrow> nat \<Rightarrow> column result" where
  "Column_varlen name t n =
     rbind (TypeSize t n) (\<lambda>len.
       if t \<noteq> VARCHAR \<and> t \<noteq> VECTOR then Inl Assertion
       else Inr \<lparr>column_name = name, column_type = t, column_length = len, column_offset = 0\<rparr>)"

definition WithColumnName :: "string \<Rightarrow> column \<Rightarrow> column" where
  "WithColumnName name c = c\<lparr>column_name := name\<rparr>"

definition IsInlined :: "column \<Rightarrow> bool" where
  "IsInlined c \<longleftrightarrow> column_type c \<noteq> VARCHAR \<and> column_type c \<noteq> VECTOR"

definition Column_ToString :: "bool \<Rightarrow> column \<Rightarrow> string" where
  "Column_ToString simplified c =
     (if simplified then
        column_name c @ '':'' @ TypeIdToString (column_type c) @
        (if column_type c = VARCHAR then ''('' @ print_nat (column_length c) @ '')'' else []) @
        (if column_type c = VECTOR then ''('' @ print_nat (column_length c div 8) @ '')'' else [])
      else
        ''Column['' @ column_name c @ '', '' @ TypeIdToString (column_type c) @ '', Offset:'' @
        print_nat (column_offset c) @ '', Length:'' @ print_nat (column_length c) @ '']'')"

subsection \<open>Schemas\<close>

record schema =
  schema_length :: nat
  columns :: "column list"
  tuple_is_inlined :: bool
  uninlined_columns :: "nat list"

text \<open>The loop of the constructor, from the column at \<open>index\<close> on.\<close>

fun add_columns :: "column list \<Rightarrow> nat \<Rightarrow> nat \<Rightarrow> schema \<Rightarrow> schema" where
  "add_columns [] index curr_offset s = s\<lparr>schema_length := curr_offset\<rparr>"
| "add_columns (c # cs) index curr_offset s =
     (let s1 = (if IsInlined c then s else s\<lparr>tuple_is_inlined := False, uninlined_columns := uninlined_columns s @ [index]\<rparr>);
          column = c\<lparr>column_offset := curr_offset\<rparr>
      in add_columns cs (index + 1) (curr_offset + (if IsInlined column then column_length column else 4))
           (s1\<lparr>columns := columns s1 @ [column]\<rparr>))"

definition Schema :: "column list \<Rightarrow> schema" where
  "Schema cs = add_columns cs 0 0 \<lparr>schema_length = 0, columns = [], tuple_is_inlined = True, uninlined_columns = []\<rparr>"

definition GetColumn :: "schema \<Rightarrow> nat \<Rightarrow> column result" where
  "GetColumn s i = (if i < length (columns s) then Inr (columns s ! i) else Inl Undefined)"

definition GetColumnCount :: "schema \<Rightarrow> nat" where
  "GetColumnCount s = length (columns s)"

fun map_result :: "('a \<Rightarrow> 'b result) \<Rightarrow> 'a list \<Rightarrow> 'b list result" where
  "map_result f [] = Inr []"
| "map_result f (x # xs) = rbind (f x) (\<lambda>y. rbind (map_result f xs) (\<lambda>ys. Inr (y # ys)))"

definition CopySchema :: "schema \<Rightarrow> nat list \<Rightarrow> schema result" where
  "CopySchema s attrs = rbind (map_result (GetColumn s) attrs) (\<lambda>cols. Inr (Schema cols))"

text \<open>The first column of a name.\<close>

fun find_column :: "string \<Rightarrow> nat \<Rightarrow> column list \<Rightarrow> nat option" where
  "find_column name i [] = None"
| "find_column name i (c # cs) = (if column_name c = name then Some i else find_column name (i + 1) cs)"

definition TryGetColIdx :: "string \<Rightarrow> schema \<Rightarrow> nat option" where
  "TryGetColIdx name s = find_column name 0 (columns s)"

definition GetColIdx :: "string \<Rightarrow> schema \<Rightarrow> nat result" where
  "GetColIdx name s = (case TryGetColIdx name s of Some i \<Rightarrow> Inr i | None \<Rightarrow> Inl (Thrown ''Column does not exist''))"

fun comma_separated :: "string list \<Rightarrow> string" where
  "comma_separated [] = []"
| "comma_separated [x] = x"
| "comma_separated (x # xs) = x @ '', '' @ comma_separated xs"

definition Schema_ToString :: "bool \<Rightarrow> schema \<Rightarrow> string" where
  "Schema_ToString simplified s =
     (if simplified then ''('' @ comma_separated (map (Column_ToString True) (columns s)) @ '')''
      else
        ''Schema[NumColumns:'' @ print_nat (GetColumnCount s) @ '', IsInlined:'' @ (if tuple_is_inlined s then ''1'' else ''0'') @
        '', Length:'' @ print_nat (schema_length s) @ ''] :: ('' @ comma_separated (map (Column_ToString True) (columns s)) @ '')'')"

subsection \<open>Tuples\<close>

definition write_bytes :: "nat \<Rightarrow> nat list \<Rightarrow> nat list \<Rightarrow> nat list result" where
  "write_bytes p bs data =
     (if p + length bs \<le> length data then Inr (take p data @ bs @ drop (p + length bs) data) else Inl Undefined)"

definition GetStorageSize :: "'d val \<Rightarrow> nat result" where
  "GetStorageSize v =
     (case v of
        Varchar None \<Rightarrow> Inr 4294967295
      | Varchar (Some bytes) \<Rightarrow> Inr (length bytes)
      | _ \<Rightarrow> Inl (Thrown ''GetStorageSize not implemented''))"

text \<open>The bytes of a string: none for a null.\<close>

definition payload_length :: "'d val \<Rightarrow> nat result" where
  "payload_length v = rbind (GetStorageSize v) (\<lambda>len. Inr (if len = 4294967295 then 0 else len))"

fun tuple_size :: "'d val list \<Rightarrow> nat list \<Rightarrow> nat \<Rightarrow> nat result" where
  "tuple_size values [] n = Inr n"
| "tuple_size values (i # idxs) n = rbind (payload_length (values ! i)) (\<lambda>len. tuple_size values idxs (n + (4 + len)))"

text \<open>The loop that serialises each attribute; \<open>offset\<close> is where the next string goes.\<close>

fun serialize_columns :: "'d machine \<Rightarrow> column list \<Rightarrow> 'd val list \<Rightarrow> nat \<Rightarrow> nat list \<Rightarrow> nat list result" where
  "serialize_columns M (c # cs) (v # vs) offset data =
     (if IsInlined c then
        rbind (Value_SerializeTo M v) (\<lambda>bs. rbind (write_bytes (column_offset c) bs data) (\<lambda>data1.
          serialize_columns M cs vs offset data1))
      else
        rbind (write_bytes (column_offset c) (le_bytes 4 (int offset)) data) (\<lambda>data1.
        rbind (Value_SerializeTo M v) (\<lambda>bs.
        rbind (write_bytes offset bs data1) (\<lambda>data2.
        rbind (payload_length v) (\<lambda>len.
          serialize_columns M cs vs (offset + (4 + len)) data2)))))"
| "serialize_columns M cs vs offset data = Inr data"

definition Tuple :: "'d machine \<Rightarrow> 'd val list \<Rightarrow> schema \<Rightarrow> nat list result" where
  "Tuple M values s =
     (if length values \<noteq> GetColumnCount s then Inl Assertion
      else
        rbind (tuple_size values (uninlined_columns s) (schema_length s)) (\<lambda>size.
          serialize_columns M (columns s) values (schema_length s) (replicate size 0)))"

text \<open>Where the bytes of a column start; the offset of a string is read as an \<open>int32_t\<close>.\<close>

definition GetDataPtr :: "schema \<Rightarrow> nat \<Rightarrow> nat list \<Rightarrow> nat list result" where
  "GetDataPtr s i data =
     rbind (GetColumn s i) (\<lambda>col.
       if length data < column_offset col then Inl Undefined
       else if IsInlined col then Inr (drop (column_offset col) data)
       else
         rbind (read_bytes 4 (drop (column_offset col) data)) (\<lambda>bs.
           let offset = cast 32 (of_le_bytes bs) in
           if offset < 0 \<or> int (length data) < offset then Inl Undefined else Inr (drop (nat offset) data)))"

definition GetValue :: "'d machine \<Rightarrow> schema \<Rightarrow> nat \<Rightarrow> nat list \<Rightarrow> 'd val result" where
  "GetValue M s i data =
     rbind (GetColumn s i) (\<lambda>col. rbind (GetDataPtr s i data) (\<lambda>ptr. Value_DeserializeFrom M ptr (column_type col)))"

definition Tuple_IsNull :: "'d machine \<Rightarrow> schema \<Rightarrow> nat \<Rightarrow> nat list \<Rightarrow> bool result" where
  "Tuple_IsNull M s i data = rbind (GetValue M s i data) (\<lambda>v. Inr (IsNull M v))"

definition KeyFromTuple :: "'d machine \<Rightarrow> schema \<Rightarrow> schema \<Rightarrow> nat list \<Rightarrow> nat list \<Rightarrow> nat list result" where
  "KeyFromTuple M s key_schema key_attrs data =
     rbind (map_result (\<lambda>i. GetValue M s i data) key_attrs) (\<lambda>values. Tuple M values key_schema)"

definition Tuple_ToString :: "'d machine \<Rightarrow> schema \<Rightarrow> nat list \<Rightarrow> string result" where
  "Tuple_ToString M s data =
     rbind (map_result (\<lambda>i. rbind (Tuple_IsNull M s i data) (\<lambda>null.
         if null then Inr ''<NULL>'' else rbind (GetValue M s i data) (Value_ToString M))) [0..<GetColumnCount s])
       (\<lambda>fields. Inr (''('' @ comma_separated fields @ '')''))"

text \<open>A stored tuple: its length and its bytes.\<close>

definition Tuple_SerializeTo :: "nat list \<Rightarrow> nat list" where
  "Tuple_SerializeTo data = le_bytes 4 (int (length data)) @ data"

definition Tuple_DeserializeFrom :: "nat list \<Rightarrow> nat list result" where
  "Tuple_DeserializeFrom storage =
     rbind (read_bytes 4 storage) (\<lambda>bs. read_bytes (nat (of_le_bytes bs)) (drop 4 storage))"

end
