(* ===== verification/Table_Page.thy ===== *)
theory Table_Page
  imports Tuples Mvcc
begin

section \<open>Table pages\<close>

text \<open>
  Models \<^verbatim>\<open>src/storage/page/table_page.cpp\<close>: a slotted page. The slots (offset, size and meta data
  of a tuple) grow from the header, the bytes of the tuples from the end of the page. The slots
  are a list of their own; \<open>page_bytes\<close> are the bytes of the page that hold tuples. A tuple is the
  list of its bytes.
\<close>

definition TABLE_PAGE_HEADER_SIZE :: nat where "TABLE_PAGE_HEADER_SIZE = 8"
definition TUPLE_INFO_SIZE :: nat where "TUPLE_INFO_SIZE = 24"

type_synonym tuple_info = "nat \<times> nat \<times> tuple_meta"

record table_page =
  next_page_id :: page_id
  tuple_infos :: "tuple_info list"
  num_deleted_tuples :: nat
  page_bytes :: "nat list"

definition Init :: "table_page \<Rightarrow> table_page" where
  "Init p = p\<lparr>next_page_id := INVALID_PAGE_ID, tuple_infos := [], num_deleted_tuples := 0\<rparr>"

definition GetNumTuples :: "table_page \<Rightarrow> nat" where
  "GetNumTuples p = length (tuple_infos p)"

definition SetNextPageId :: "page_id \<Rightarrow> table_page \<Rightarrow> table_page" where
  "SetNextPageId pid p = p\<lparr>next_page_id := pid\<rparr>"

text \<open>Where the bytes of the tuples begin.\<close>

definition slot_end_offset :: "table_page \<Rightarrow> nat" where
  "slot_end_offset p = (if tuple_infos p \<noteq> [] then fst (last (tuple_infos p)) else BUSTUB_PAGE_SIZE)"

text \<open>The subtraction is one of \<open>size_t\<close> and wraps around; the result is cut to a \<open>uint16_t\<close>.\<close>

definition GetNextTupleOffset :: "nat list \<Rightarrow> table_page \<Rightarrow> nat option" where
  "GetNextTupleOffset tuple p =
     (let tuple_offset = nat ((int (slot_end_offset p) - int (length tuple)) mod 2 ^ 64);
          offset_size = TABLE_PAGE_HEADER_SIZE + TUPLE_INFO_SIZE * (GetNumTuples p + 1)
      in if tuple_offset < offset_size then None else Some (tuple_offset mod 2 ^ 16))"

definition page_InsertTuple :: "tuple_meta \<Rightarrow> nat list \<Rightarrow> table_page \<Rightarrow> (nat option \<times> table_page) result" where
  "page_InsertTuple meta tuple p =
     (case GetNextTupleOffset tuple p of
        None \<Rightarrow> Inr (None, p)
      | Some tuple_offset \<Rightarrow>
          rbind (write_bytes tuple_offset tuple (page_bytes p)) (\<lambda>bytes.
            Inr (Some (GetNumTuples p),
                 p\<lparr>tuple_infos := tuple_infos p @ [(tuple_offset, length tuple mod 2 ^ 16, meta)], page_bytes := bytes\<rparr>)))"

definition out_of_slots :: "'a result" where
  "out_of_slots = Inl (Thrown ''Tuple ID out of range'')"

text \<open>A change of the meta data that marks a tuple deleted counts it; the counter is a \<open>uint16_t\<close>.\<close>

definition set_meta :: "nat \<Rightarrow> tuple_meta \<Rightarrow> table_page \<Rightarrow> table_page" where
  "set_meta i meta p =
     (let (offset, len, old_meta) = tuple_infos p ! i in
      p\<lparr>tuple_infos := (tuple_infos p)[i := (offset, len, meta)],
        num_deleted_tuples := (num_deleted_tuples p + of_bool (\<not> tm_is_deleted old_meta \<and> tm_is_deleted meta)) mod 2 ^ 16\<rparr>)"

definition page_UpdateTupleMeta :: "tuple_meta \<Rightarrow> rid \<Rightarrow> table_page \<Rightarrow> table_page result" where
  "page_UpdateTupleMeta meta rid p =
     (let tuple_id = snd rid in if GetNumTuples p \<le> tuple_id then out_of_slots else Inr (set_meta tuple_id meta p))"

definition page_GetTuple :: "rid \<Rightarrow> table_page \<Rightarrow> (tuple_meta \<times> nat list) result" where
  "page_GetTuple rid p =
     (let tuple_id = snd rid in
      if GetNumTuples p \<le> tuple_id then out_of_slots
      else
        (let (offset, len, meta) = tuple_infos p ! tuple_id in
         rbind (read_bytes len (drop offset (page_bytes p))) (\<lambda>bytes. Inr (meta, bytes))))"

definition page_GetTupleMeta :: "rid \<Rightarrow> table_page \<Rightarrow> tuple_meta result" where
  "page_GetTupleMeta rid p =
     (let tuple_id = snd rid in
      if GetNumTuples p \<le> tuple_id then out_of_slots else Inr (snd (snd (tuple_infos p ! tuple_id))))"

definition UpdateTupleInPlaceUnsafe :: "tuple_meta \<Rightarrow> nat list \<Rightarrow> rid \<Rightarrow> table_page \<Rightarrow> table_page result" where
  "UpdateTupleInPlaceUnsafe meta tuple rid p =
     (let tuple_id = snd rid in
      if GetNumTuples p \<le> tuple_id then out_of_slots
      else
        (let (offset, len, old_meta) = tuple_infos p ! tuple_id in
         if len \<noteq> length tuple then Inl (Thrown ''Tuple size mismatch'')
         else
           rbind (write_bytes offset tuple (page_bytes p)) (\<lambda>bytes.
             Inr ((set_meta tuple_id meta p)\<lparr>page_bytes := bytes\<rparr>))))"

end
