(* ===== verification/Table_Heap.thy ===== *)
theory Table_Heap
  imports Table_Page
begin

section \<open>Table heaps\<close>

text \<open>
  Models \<^verbatim>\<open>src/storage/table/table_heap.cpp\<close> and \<^verbatim>\<open>table_iterator.cpp\<close>: a list of table pages.
  The pages a heap reads and writes through guards are a map from page ids, as for the B+ tree,
  and \<open>NewPage\<close> counts page ids up; other tables and indexes take ids from the same counter. The
  latch and the page latches make every operation one step. The lock manager is not passed.
\<close>

record table_heap =
  first_page_id :: page_id
  last_page_id :: page_id
  th_pages :: "page_id \<rightharpoonup> table_page"
  th_next_page_id :: page_id

definition th_NewPage :: "table_heap \<Rightarrow> page_id \<times> table_heap" where
  "th_NewPage h = (th_next_page_id h, h\<lparr>th_next_page_id := th_next_page_id h + 1\<rparr>)"

definition zero_page :: table_page where
  "zero_page = \<lparr>next_page_id = 0, tuple_infos = [], num_deleted_tuples = 0, page_bytes = replicate BUSTUB_PAGE_SIZE 0\<rparr>"

definition put_page :: "page_id \<Rightarrow> table_page \<Rightarrow> table_heap \<Rightarrow> table_heap" where
  "put_page pid p h = h\<lparr>th_pages := (th_pages h)(pid \<mapsto> p)\<rparr>"

definition get_page :: "page_id \<Rightarrow> table_heap \<Rightarrow> table_page result" where
  "get_page pid h = (case th_pages h pid of None \<Rightarrow> Inl Undefined | Some p \<Rightarrow> Inr p)"

definition TableHeap :: "page_id \<Rightarrow> table_heap" where
  "TableHeap next_id =
     (let (pid, h) = th_NewPage \<lparr>first_page_id = INVALID_PAGE_ID, last_page_id = INVALID_PAGE_ID, th_pages = Map.empty, th_next_page_id = next_id\<rparr>
      in put_page pid (Init zero_page) (h\<lparr>first_page_id := pid, last_page_id := pid\<rparr>))"

definition CreateEmptyHeap :: "bool \<Rightarrow> table_heap result" where
  "CreateEmptyHeap create_table_heap =
     (if create_table_heap then Inl Assertion
      else Inr \<lparr>first_page_id = INVALID_PAGE_ID, last_page_id = INVALID_PAGE_ID, th_pages = Map.empty, th_next_page_id = 0\<rparr>)"

text \<open>The loop that finds a page with room, \<open>page\<close> being the last one: a fresh page has room, or the tuple is too large.\<close>

function insert_loop :: "nat list \<Rightarrow> table_page \<Rightarrow> table_heap \<Rightarrow> (table_page \<times> table_heap) result" where
  "insert_loop tuple page h =
     (if GetNextTupleOffset tuple page \<noteq> None then Inr (page, h)
      else if GetNumTuples page = 0 then Inl Terminated
      else
        (let (next_id, h1) = th_NewPage h;
             h2 = put_page (last_page_id h1) (SetNextPageId next_id page) h1;
             next_page = Init zero_page
         in insert_loop tuple next_page (put_page next_id next_page (h2\<lparr>last_page_id := next_id\<rparr>))))"
  by pat_completeness auto
termination
  by (relation "measure (\<lambda>(tuple, page, h). length (tuple_infos page))") (auto simp: GetNumTuples_def Init_def)

declare insert_loop.simps [simp del]

definition InsertTuple :: "tuple_meta \<Rightarrow> nat list \<Rightarrow> table_heap \<Rightarrow> (rid \<times> table_heap) result" where
  "InsertTuple meta tuple h =
     rbind (get_page (last_page_id h) h) (\<lambda>page0.
     rbind (insert_loop tuple page0 h) (\<lambda>(page, h1).
     rbind (page_InsertTuple meta tuple page) (\<lambda>(slot, page1).
       case slot of
         None \<Rightarrow> Inl Undefined
       | Some slot_id \<Rightarrow> Inr ((last_page_id h1, slot_id), put_page (last_page_id h1) page1 h1))))"

definition UpdateTupleMeta :: "tuple_meta \<Rightarrow> rid \<Rightarrow> table_heap \<Rightarrow> table_heap result" where
  "UpdateTupleMeta meta rid h =
     rbind (get_page (fst rid) h) (\<lambda>page. rbind (page_UpdateTupleMeta meta rid page) (\<lambda>page1. Inr (put_page (fst rid) page1 h)))"

definition GetTuple :: "rid \<Rightarrow> table_heap \<Rightarrow> (tuple_meta \<times> nat list) result" where
  "GetTuple rid h = rbind (get_page (fst rid) h) (page_GetTuple rid)"

definition GetTupleMeta :: "rid \<Rightarrow> table_heap \<Rightarrow> tuple_meta result" where
  "GetTupleMeta rid h = rbind (get_page (fst rid) h) (page_GetTupleMeta rid)"

text \<open>The check is \<open>None\<close> for the null pointer.\<close>

definition UpdateTupleInPlace ::
    "tuple_meta \<Rightarrow> nat list \<Rightarrow> rid \<Rightarrow> (tuple_meta \<Rightarrow> nat list \<Rightarrow> rid \<Rightarrow> bool) option \<Rightarrow> table_heap \<Rightarrow> (bool \<times> table_heap) result" where
  "UpdateTupleInPlace meta tuple rid check h =
     rbind (get_page (fst rid) h) (\<lambda>page.
     rbind (page_GetTuple rid page) (\<lambda>(old_meta, old_tup).
       if check = None \<or> the check old_meta old_tup rid
       then rbind (UpdateTupleInPlaceUnsafe meta tuple rid page) (\<lambda>page1. Inr (True, put_page (fst rid) page1 h))
       else Inr (False, h)))"

subsection \<open>Iterators\<close>

record table_iterator =
  it_rid :: rid
  stop_at_rid :: rid

definition TableIterator :: "table_heap \<Rightarrow> rid \<Rightarrow> rid \<Rightarrow> table_iterator result" where
  "TableIterator h rid stop_rid =
     (if fst rid = INVALID_PAGE_ID then Inr \<lparr>it_rid = (INVALID_PAGE_ID, 0), stop_at_rid = stop_rid\<rparr>
      else
        rbind (get_page (fst rid) h) (\<lambda>page.
          Inr \<lparr>it_rid = (if GetNumTuples page \<le> snd rid then (INVALID_PAGE_ID, 0) else rid), stop_at_rid = stop_rid\<rparr>))"

definition MakeIterator :: "table_heap \<Rightarrow> table_iterator result" where
  "MakeIterator h =
     rbind (get_page (last_page_id h) h) (\<lambda>page. TableIterator h (first_page_id h, 0) (last_page_id h, GetNumTuples page))"

definition MakeEagerIterator :: "table_heap \<Rightarrow> table_iterator result" where
  "MakeEagerIterator h = TableIterator h (first_page_id h, 0) (INVALID_PAGE_ID, 0)"

definition it_IsEnd :: "table_iterator \<Rightarrow> bool" where
  "it_IsEnd it \<longleftrightarrow> fst (it_rid it) = INVALID_PAGE_ID"

definition it_GetTuple :: "table_heap \<Rightarrow> table_iterator \<Rightarrow> (tuple_meta \<times> nat list) result" where
  "it_GetTuple h it = GetTuple (it_rid it) h"

text \<open>\<open>operator++\<close>.\<close>

definition it_advance :: "table_heap \<Rightarrow> table_iterator \<Rightarrow> table_iterator result" where
  "it_advance h it =
     rbind (get_page (fst (it_rid it)) h) (\<lambda>page.
       let pid = fst (it_rid it); next_tuple_id = snd (it_rid it) + 1; stop = stop_at_rid it in
       if fst stop \<noteq> INVALID_PAGE_ID \<and> \<not> (pid < fst stop \<or> (pid = fst stop \<and> next_tuple_id \<le> snd stop)) then Inl Assertion
       else
         Inr (it\<lparr>it_rid :=
           (if (pid, next_tuple_id) = stop then (INVALID_PAGE_ID, 0)
            else if next_tuple_id < GetNumTuples page then (pid, next_tuple_id)
            else (next_page_id page, 0))\<rparr>))"

end
