(* ===== verification/Value_Bytes.thy ===== *)
theory Value_Bytes
  imports Value_Proofs
begin

section \<open>The bytes of values\<close>

text \<open>Little-endian integers and the round trip of a value through its bytes.\<close>

lemma le_bytes_Suc: "le_bytes (Suc k) i = nat (take_bit 8 i) # le_bytes k (drop_bit 8 i)"
  by (simp add: le_bytes_def map_upt_Suc add.commute del: upt_Suc)

lemma of_le_bytes_le: "of_le_bytes (le_bytes k i) = take_bit (8 * k) i"
proof (induction k arbitrary: i)
  case (Suc k)
  have "take_bit (8 * Suc k) i = push_bit 8 (drop_bit 8 (take_bit (8 * Suc k) i)) + take_bit 8 (take_bit (8 * Suc k) i)"
    by (rule bits_ident [symmetric])
  also have "\<dots> = 256 * take_bit (8 * k) (drop_bit 8 i) + take_bit 8 i"
    by (simp add: drop_bit_take_bit push_bit_eq_mult)
  finally show ?case using Suc [of "drop_bit 8 i"] by (simp add: le_bytes_Suc of_le_bytes_def)
qed (simp add: le_bytes_def of_le_bytes_def)

lemma length_le_bytes [simp]: "length (le_bytes k i) = k"
  by (simp add: le_bytes_def)

lemma read_back: "read_bytes k (le_bytes k i @ rest) = Inr (le_bytes k i)"
  by (simp add: read_bytes_def)

lemma cast_take_bit: "0 < w \<Longrightarrow> cast w (take_bit w i) = cast w i"
  by (simp add: cast_def signed_take_bit_eq_iff_take_bit_eq)

text \<open>What a value writes reads back as the value, whatever bytes follow it: for every type but the
  invalid one, for nulls, and for strings shorter than the length that marks a null.\<close>

lemma value_roundtrip:
  assumes "wf_value v" "v \<noteq> Invalid"
    "\<And>d. v = Decimal d \<Longrightarrow> d_of_bytes M (d_bytes M d) = d \<and> length (d_bytes M d) = 8"
    "\<And>b. v = Varchar (Some b) \<Longrightarrow> length b < 2 ^ 32 - 1"
  shows "\<exists>bytes. Value_SerializeTo M v = Inr bytes \<and> Value_DeserializeFrom M (bytes @ rest) (GetTypeId v) = Inr v"
proof (cases v)
  case (Varchar s)
  show ?thesis
  proof (cases s)
    case None
    with Varchar show ?thesis
      by (simp add: Value_SerializeTo_def VarlenType_SerializeTo_def Value_DeserializeFrom_def VarlenType_DeserializeFrom_def
        read_back of_le_bytes_le Value_data_def)
  next
    case (Some b)
    have len: "take_bit 32 (int (length b)) = int (length b)" using assms(4) [of b] Varchar Some by (simp add: take_bit_int_eq_self_iff)
    have "int (length b) \<noteq> 4294967295" using assms(4) [of b] Varchar Some by simp
    with Varchar Some len show ?thesis
      by (simp add: Value_SerializeTo_def VarlenType_SerializeTo_def Value_DeserializeFrom_def VarlenType_DeserializeFrom_def
        read_back of_le_bytes_le Value_data_def read_bytes_def [of "length b"] comp_def)
  qed
next
  case (Decimal d)
  with assms(3) show ?thesis
    by (simp add: Value_SerializeTo_def DecimalType_SerializeTo_def Value_DeserializeFrom_def DecimalType_DeserializeFrom_def read_bytes_def Value_double_def)
next
  case (Timestamp n)
  with assms(1) show ?thesis
    by (simp add: Value_SerializeTo_def TimestampType_SerializeTo_def Value_DeserializeFrom_def TimestampType_DeserializeFrom_def
      read_back of_le_bytes_le Value_uint64_def take_bit_int_eq_self)
qed (use assms(1,2) in \<open>simp_all add: Value_SerializeTo_def BooleanType_SerializeTo_def TinyintType_SerializeTo_def SmallintType_SerializeTo_def
    IntegerType_SerializeTo_def BigintType_SerializeTo_def Value_DeserializeFrom_def BooleanType_DeserializeFrom_def TinyintType_DeserializeFrom_def
    SmallintType_DeserializeFrom_def IntegerType_DeserializeFrom_def BigintType_DeserializeFrom_def read_back of_le_bytes_le cast_take_bit
    Value_int8_def Value_int16_def Value_int32_def Value_int64_def\<close>)

end
