(* ===== verification/Tuple_Props.thy ===== *)
theory Tuple_Props
  imports Tuples Value_Bytes Value_Props
begin

section \<open>The bytes of tuples\<close>

text \<open>
  A schema places its columns one after the other; a tuple holds every value where its schema says,
  with the strings behind the fixed part, and reads it back.
\<close>

subsection \<open>Placement\<close>

definition width :: "column \<Rightarrow> nat" where
  "width c = (if IsInlined c then column_length c else 4)"

fun lay :: "nat \<Rightarrow> column list \<Rightarrow> column list" where
  "lay off [] = []"
| "lay off (c # cs) = c\<lparr>column_offset := off\<rparr> # lay (off + width c) cs"

definition extent :: "column list \<Rightarrow> nat" where
  "extent cs = sum_list (map width cs)"

lemma extent_simps [simp]: "extent [] = 0" "extent (c # cs) = width c + extent cs"
  by (simp_all add: extent_def)

lemma offset_update [simp]: "IsInlined (c\<lparr>column_offset := off\<rparr>) = IsInlined c" "width (c\<lparr>column_offset := off\<rparr>) = width c"
  by (simp_all add: IsInlined_def width_def)

fun uninlined :: "nat \<Rightarrow> column list \<Rightarrow> nat list" where
  "uninlined i [] = []"
| "uninlined i (c # cs) = (if IsInlined c then uninlined (Suc i) cs else i # uninlined (Suc i) cs)"

lemma add_columns_lay:
  "columns (add_columns cs i off s) = columns s @ lay off cs \<and> schema_length (add_columns cs i off s) = off + extent cs \<and>
   uninlined_columns (add_columns cs i off s) = uninlined_columns s @ uninlined i cs"
  by (induction cs i off s rule: add_columns.induct) (auto simp: Let_def width_def)

lemma Schema_facts [simp]:
  "columns (Schema cs) = lay 0 cs" "schema_length (Schema cs) = extent cs" "uninlined_columns (Schema cs) = uninlined 0 cs"
  using add_columns_lay [of cs 0 0] by (simp_all add: Schema_def)

lemma length_lay [simp]: "length (lay off cs) = length cs"
  by (induction cs arbitrary: off) auto

lemma lay_nth: "i < length cs \<Longrightarrow> column_type (lay off cs ! i) = column_type (cs ! i)"
  by (induction cs arbitrary: off i) (auto simp: nth_Cons')

subsection \<open>Values that fit their columns\<close>

definition column_ok :: "column \<Rightarrow> bool" where
  "column_ok c \<longleftrightarrow> column_type c \<noteq> INVALID \<and> column_type c \<noteq> VECTOR \<and>
     (column_type c \<noteq> VARCHAR \<longrightarrow> TypeSize (column_type c) 0 = Inr (column_length c))"

lemma Column_ok: "Column name t = Inr c \<Longrightarrow> column_ok c" "Column_varlen name VARCHAR n = Inr c \<Longrightarrow> column_ok c"
  by (auto simp: Column_def Column_varlen_def column_ok_def TypeSize_def split: type_id.splits if_splits)

fun short_string :: "'d val \<Rightarrow> bool" where
  "short_string (Varchar (Some b)) \<longleftrightarrow> length b < 2 ^ 32 - 1"
| "short_string v \<longleftrightarrow> True"

fun double_reads_back :: "'d machine \<Rightarrow> 'd val \<Rightarrow> bool" where
  "double_reads_back M (Decimal d) \<longleftrightarrow> d_of_bytes M (d_bytes M d) = d \<and> length (d_bytes M d) = 8"
| "double_reads_back M v \<longleftrightarrow> True"

definition stores :: "'d machine \<Rightarrow> column \<Rightarrow> 'd val \<Rightarrow> bool" where
  "stores M c v \<longleftrightarrow> column_ok c \<and> GetTypeId v = column_type c \<and> wf_value v \<and> short_string v \<and> double_reads_back M v"

text \<open>The number of bytes behind the fixed part.\<close>

fun payload :: "'d val \<Rightarrow> nat" where
  "payload (Varchar (Some b)) = 4 + length b"
| "payload (Varchar None) = 4"
| "payload v = 0"

lemma stores_bytes:
  assumes "stores M c v"
  obtains bs where "Value_SerializeTo M v = Inr bs" "\<And>rest. Value_DeserializeFrom M (bs @ rest) (column_type c) = Inr v"
    "length bs = (if IsInlined c then width c else payload v)"
proof -
  have v: "wf_value v" "v \<noteq> Invalid" "GetTypeId v = column_type c" using assms(1) by (auto simp: stores_def column_ok_def)
  have r: "\<exists>bs. Value_SerializeTo M v = Inr bs \<and> Value_DeserializeFrom M (bs @ rest) (GetTypeId v) = Inr v" for rest
    using v assms by (intro value_roundtrip) (auto simp: stores_def)
  obtain bs where bs: "Value_SerializeTo M v = Inr bs" using r by blast
  have "length bs = (if IsInlined c then width c else payload v)"
  proof (cases v)
    case (Varchar s)
    with v assms(1) bs show ?thesis
      by (cases s) (auto simp: Value_SerializeTo_def VarlenType_SerializeTo_def IsInlined_def)
  qed (use v assms bs in \<open>auto simp: Value_SerializeTo_def IsInlined_def width_def stores_def column_ok_def TypeSize_def
      BooleanType_SerializeTo_def TinyintType_SerializeTo_def SmallintType_SerializeTo_def IntegerType_SerializeTo_def
      BigintType_SerializeTo_def TimestampType_SerializeTo_def DecimalType_SerializeTo_def split: type_id.splits\<close>)
  with bs r v(3) that show ?thesis by (metis Inr_inject)
qed

lemma payload_inlined: "stores M c v \<Longrightarrow> IsInlined c \<Longrightarrow> payload v = 0"
  by (cases v) (auto simp: stores_def IsInlined_def)

lemma payload_length_eq: "stores M c v \<Longrightarrow> \<not> IsInlined c \<Longrightarrow> payload_length v = Inr (payload v - 4) \<and> 4 \<le> payload v"
  by (cases v rule: payload.cases) (auto simp: stores_def column_ok_def IsInlined_def payload_length_def GetStorageSize_def)

lemma tuple_size_eq:
  "list_all2 (stores M) cs vs \<Longrightarrow> tuple_size (ws @ vs) (uninlined (length ws) cs) n = Inr (n + sum_list (map payload vs))"
proof (induction cs vs arbitrary: ws n rule: list_all2_induct)
  case (Cons c cs v vs)
  have "uninlined (Suc (length ws)) cs = uninlined (length (ws @ [v])) cs" by simp
  with Cons(3) [of "ws @ [v]"] Cons(1) show ?case
    by (auto simp: payload_inlined nth_append dest: payload_length_eq simp del: length_append)
qed simp

subsection \<open>Bytes at a place\<close>

definition holds_at :: "nat \<Rightarrow> nat list \<Rightarrow> nat list \<Rightarrow> bool" where
  "holds_at p bs data \<longleftrightarrow> p + length bs \<le> length data \<and> (\<forall>k < length bs. data ! (p + k) = bs ! k)"

lemma holds_at_drop: "holds_at p bs data \<Longrightarrow> drop p data = bs @ drop (p + length bs) data"
  by (rule nth_equalityI) (auto simp: holds_at_def nth_append add.commute)

lemma write_holds:
  assumes "p + length bs \<le> length data"
  obtains data' where "write_bytes p bs data = Inr data'" "length data' = length data" "holds_at p bs data'"
    "\<And>k. k < length data \<Longrightarrow> k < p \<or> p + length bs \<le> k \<Longrightarrow> data' ! k = data ! k"
proof
  let ?d = "take p data @ bs @ drop (p + length bs) data"
  show "write_bytes p bs data = Inr ?d" "length ?d = length data" "holds_at p bs ?d"
    using assms by (auto simp: write_bytes_def holds_at_def nth_append)
  show "?d ! k = data ! k" if "k < length data" "k < p \<or> p + length bs \<le> k" for k
    using assms that by (auto simp: nth_append min_def)
qed

lemma holds_at_mono:
  "holds_at p bs data \<Longrightarrow> length data' = length data \<Longrightarrow> (\<And>k. p \<le> k \<Longrightarrow> k < p + length bs \<Longrightarrow> data' ! k = data ! k) \<Longrightarrow> holds_at p bs data'"
  by (auto simp: holds_at_def)

subsection \<open>Reading a column\<close>

definition column_value :: "'d machine \<Rightarrow> column \<Rightarrow> nat list \<Rightarrow> 'd val result" where
  "column_value M col data =
     rbind (if length data < column_offset col then Inl Undefined
            else if IsInlined col then Inr (drop (column_offset col) data)
            else
              rbind (read_bytes 4 (drop (column_offset col) data)) (\<lambda>bs.
                let offset = cast 32 (of_le_bytes bs) in
                if offset < 0 \<or> int (length data) < offset then Inl Undefined else Inr (drop (nat offset) data)))
       (\<lambda>ptr. Value_DeserializeFrom M ptr (column_type col))"

lemma GetValue_column: "i < length (columns s) \<Longrightarrow> GetValue M s i data = column_value M (columns s ! i) data"
  by (simp add: GetValue_def GetColumn_def GetDataPtr_def column_value_def)

lemma column_value_inlined:
  assumes "holds_at (column_offset c) bs data" "IsInlined c" "\<And>rest. Value_DeserializeFrom M (bs @ rest) (column_type c) = Inr v"
  shows "column_value M c data = Inr v"
  using assms holds_at_drop [OF assms(1)] by (simp add: column_value_def holds_at_def)

lemma column_value_varlen:
  assumes "holds_at (column_offset c) (le_bytes 4 (int p)) data" "\<not> IsInlined c" "p < 2 ^ 31"
    "holds_at p bs data" "\<And>rest. Value_DeserializeFrom M (bs @ rest) (column_type c) = Inr v"
  shows "column_value M c data = Inr v"
proof -
  have "fits 32 (int p)" using assms(3) by (simp add: fits_def int_min_def int_max_def)
  then have p: "cast 32 (take_bit 32 (int p)) = int p" by (simp add: cast_take_bit)
  have len: "column_offset c \<le> length data" "p \<le> length data" using assms(1,4) by (simp_all add: holds_at_def)
  show ?thesis
    using assms(2,5) holds_at_drop [OF assms(1)] holds_at_drop [OF assms(4)] len p
    by (simp add: column_value_def read_back of_le_bytes_le)
qed

subsection \<open>Writing the columns\<close>

definition reads_back :: "'d machine \<Rightarrow> column list \<Rightarrow> 'd val list \<Rightarrow> nat list \<Rightarrow> bool" where
  "reads_back M cs vs data \<longleftrightarrow> list_all2 (\<lambda>c v. column_value M c data = Inr v) cs vs"

text \<open>The bytes before the columns and between the columns and the next string are left as they are.\<close>

definition untouched :: "nat \<Rightarrow> nat \<Rightarrow> nat \<Rightarrow> nat list \<Rightarrow> nat list \<Rightarrow> bool" where
  "untouched lo hi off data data' \<longleftrightarrow>
     length data' = length data \<and> (\<forall>k < length data. k < lo \<or> (hi \<le> k \<and> k < off) \<longrightarrow> data' ! k = data ! k)"

lemma untouched_holds:
  assumes "untouched lo hi off data data'" "holds_at p bs data" "p + length bs \<le> lo \<or> (hi \<le> p \<and> p + length bs \<le> off)"
  shows "holds_at p bs data'"
  using assms(1,2)
proof (rule_tac holds_at_mono)
  show "data' ! k = data ! k" if "p \<le> k" "k < p + length bs" for k
    using assms that by (auto simp: untouched_def holds_at_def)
qed (auto simp: untouched_def)

lemma serialize_columns_ok:
  assumes "list_all2 (stores M) cs vs" "lo + extent cs \<le> off"
    "off + sum_list (map payload vs) \<le> length data" "length data < 2 ^ 31"
  shows "\<exists>data'. serialize_columns M (lay lo cs) vs off data = Inr data' \<and> untouched lo (lo + extent cs) off data data' \<and>
    reads_back M (lay lo cs) vs data'"
  using assms
proof (induction cs vs arbitrary: lo off data rule: list_all2_induct)
  case Nil
  then show ?case by (simp add: untouched_def reads_back_def)
next
  case (Cons c cs v vs)
  let ?c = "c\<lparr>column_offset := lo\<rparr>"
  obtain bs where bs: "Value_SerializeTo M v = Inr bs" "\<And>rest. Value_DeserializeFrom M (bs @ rest) (column_type ?c) = Inr v"
      "length bs = (if IsInlined c then width c else payload v)"
    using stores_bytes [OF Cons(1)] by simp metis
  show ?case
  proof (cases "IsInlined c")
    case True
    then have len: "length bs = width c" using bs by simp
    have fit: "lo + length bs \<le> length data" using Cons.prems(1,2) len by simp
    obtain d1 where d1: "write_bytes lo bs data = Inr d1" "length d1 = length data" "holds_at lo bs d1"
        "\<And>k. k < length data \<Longrightarrow> k < lo \<or> lo + length bs \<le> k \<Longrightarrow> d1 ! k = data ! k"
      using write_holds [OF fit] by metis
    obtain d2 where d2: "serialize_columns M (lay (lo + width c) cs) vs off d1 = Inr d2"
        "untouched (lo + width c) (lo + width c + extent cs) off d1 d2" "reads_back M (lay (lo + width c) cs) vs d2"
      using Cons.IH [of "lo + width c" off d1] Cons.prems d1(2) by auto
    have "holds_at lo bs d2" using untouched_holds [OF d2(2) d1(3)] len by simp
    then have "column_value M ?c d2 = Inr v" using column_value_inlined [of ?c bs d2 M v] bs(2) True by simp
    with True bs(1) d1 d2 len show ?thesis by (auto simp: untouched_def reads_back_def)
  next
    case False
    then have w: "width c = 4" "length bs = payload v" "4 \<le> payload v" "payload_length v = Inr (payload v - 4)"
      using bs payload_length_eq [OF Cons(1) False] by (auto simp: width_def)
    have fit: "lo + length (le_bytes 4 (int off)) \<le> length data" using Cons.prems(1,2) w by simp
    obtain d1 where d1: "write_bytes lo (le_bytes 4 (int off)) data = Inr d1" "length d1 = length data"
        "holds_at lo (le_bytes 4 (int off)) d1" "\<And>k. k < length data \<Longrightarrow> k < lo \<or> lo + 4 \<le> k \<Longrightarrow> d1 ! k = data ! k"
      using write_holds [OF fit] by (metis length_le_bytes)
    have fit2: "off + length bs \<le> length d1" using Cons.prems(2) w d1(2) by simp
    obtain d2 where d2: "write_bytes off bs d1 = Inr d2" "length d2 = length d1" "holds_at off bs d2"
        "\<And>k. k < length d1 \<Longrightarrow> k < off \<or> off + length bs \<le> k \<Longrightarrow> d2 ! k = d1 ! k"
      using write_holds [OF fit2] by metis
    obtain d3 where d3: "serialize_columns M (lay (lo + 4) cs) vs (off + payload v) d2 = Inr d3"
        "untouched (lo + 4) (lo + 4 + extent cs) (off + payload v) d2 d3" "reads_back M (lay (lo + 4) cs) vs d3"
      using Cons.IH [of "lo + 4" "off + payload v" d2] Cons.prems d1(2) d2(2) w(1) by auto
    have "holds_at lo (le_bytes 4 (int off)) d2"
      using holds_at_mono [OF d1(3) d2(2)] d2(4) d1(3) Cons.prems(1) w(1) by (simp add: holds_at_def)
    then have "holds_at lo (le_bytes 4 (int off)) d3" using untouched_holds [OF d3(2)] by simp
    moreover have "holds_at off bs d3" using untouched_holds [OF d3(2) d2(3)] Cons.prems(1) w by simp
    ultimately have "column_value M ?c d3 = Inr v"
      using column_value_varlen [of ?c off d3 bs M v] bs(2) False Cons.prems(2,3) by simp
    moreover have "off + (4 + (payload v - 4)) = off + payload v" using w(3) by simp
    ultimately show ?thesis
      using False bs(1) d1 d2 d3 w Cons.prems(1) by (auto simp: untouched_def reads_back_def)
  qed
qed

text \<open>C21: a tuple built from values that fit the columns of its schema, nulls and strings among them, exists as long as
  its bytes can be counted by an \<open>int32_t\<close>, has the length of the fixed part and the strings, and every column
  reads back as the value it was built from.\<close>

theorem tuple_roundtrip:
  assumes "list_all2 (stores M) cs vs" "extent cs + sum_list (map payload vs) < 2 ^ 31"
  shows "\<exists>data. Tuple M vs (Schema cs) = Inr data \<and> length data = extent cs + sum_list (map payload vs) \<and>
    (\<forall>i < length cs. GetValue M (Schema cs) i data = Inr (vs ! i))"
proof -
  let ?n = "extent cs + sum_list (map payload vs)"
  obtain data where d: "serialize_columns M (lay 0 cs) vs (extent cs) (replicate ?n 0) = Inr data"
      "untouched 0 (0 + extent cs) (extent cs) (replicate ?n 0) data" "reads_back M (lay 0 cs) vs data"
    using serialize_columns_ok [OF assms(1), of 0 "extent cs" "replicate ?n 0"] assms(2) by auto
  have s: "tuple_size vs (uninlined 0 cs) (extent cs) = Inr ?n" using tuple_size_eq [OF assms(1), of "[]"] by simp
  have len: "length vs = length cs" using assms(1) by (simp add: list_all2_lengthD)
  show ?thesis
  proof (intro exI conjI)
    show "Tuple M vs (Schema cs) = Inr data" using d(1) s len by (simp add: Tuple_def GetColumnCount_def)
    show "length data = ?n" using d(2) by (simp add: untouched_def)
    show "\<forall>i < length cs. GetValue M (Schema cs) i data = Inr (vs ! i)"
      using d(3) by (simp add: GetValue_column reads_back_def list_all2_conv_all_nth)
  qed
qed

theorem tuple_roundtrip_witness:
  "\<exists>c1 c2 c3 data. Column ''a'' INTEGER = Inr c1 \<and> Column_varlen ''b'' VARCHAR 300 = Inr c2 \<and> Column ''c'' BOOLEAN = Inr c3 \<and>
     Tuple toy_machine [Integer (-7), Varchar (Some ''hi''), Boolean BUSTUB_BOOLEAN_NULL] (Schema [c1, c2, c3]) = Inr data \<and>
     length data = 15 \<and> GetValue toy_machine (Schema [c1, c2, c3]) 1 data = Inr (Varchar (Some ''hi''))"
proof -
  let ?c1 = "\<lparr>column_name = ''a'', column_type = INTEGER, column_length = 4, column_offset = 0\<rparr>"
  let ?c2 = "\<lparr>column_name = ''b'', column_type = VARCHAR, column_length = 44, column_offset = 0\<rparr>"
  let ?c3 = "\<lparr>column_name = ''c'', column_type = BOOLEAN, column_length = 1, column_offset = 0\<rparr>"
  let ?vs = "[Integer (-7), Varchar (Some ''hi''), Boolean BUSTUB_BOOLEAN_NULL] :: int val list"
  have "list_all2 (stores toy_machine) [?c1, ?c2, ?c3] ?vs"
    by (simp add: stores_def column_ok_def TypeSize_def fits_def int_min_def int_max_def limits)
  from tuple_roundtrip [OF this] show ?thesis
    by (fastforce simp: Column_def Column_varlen_def TypeSize_def width_def IsInlined_def)
qed

end
