(* ===== verification/Table_Proofs.thy ===== *)
theory Table_Proofs
  imports Table_Heap Tuple_Props
begin

section \<open>Table pages and heaps keep their tuples\<close>

text \<open>
  The layout of a page: the tuples lie one below the other from the end of the page down to the
  slots. What a page holds is the list of its tuples with their meta data, and every operation
  is one on that list; a heap holds the tuples of its pages in the order of their ids.
\<close>

subsection \<open>Pages\<close>

text \<open>The slots of a page whose tuples end at a given offset.\<close>

fun slots_ok :: "nat \<Rightarrow> tuple_info list \<Rightarrow> bool" where
  "slots_ok end_offset [] \<longleftrightarrow> True"
| "slots_ok end_offset ((offset, len, meta) # infos) \<longleftrightarrow> offset + len = end_offset \<and> slots_ok offset infos"

definition page_ok :: "table_page \<Rightarrow> bool" where
  "page_ok p \<longleftrightarrow> length (page_bytes p) = BUSTUB_PAGE_SIZE \<and> slots_ok BUSTUB_PAGE_SIZE (tuple_infos p) \<and>
     TABLE_PAGE_HEADER_SIZE + TUPLE_INFO_SIZE * GetNumTuples p \<le> slot_end_offset p"

definition slot_tuple :: "table_page \<Rightarrow> tuple_info \<Rightarrow> tuple_meta \<times> nat list" where
  "slot_tuple p i = (case i of (offset, len, meta) \<Rightarrow> (meta, take len (drop offset (page_bytes p))))"

definition page_tuples :: "table_page \<Rightarrow> (tuple_meta \<times> nat list) list" where
  "page_tuples p = map (slot_tuple p) (tuple_infos p)"

lemma length_page_tuples [simp]: "length (page_tuples p) = GetNumTuples p"
  by (simp add: page_tuples_def GetNumTuples_def)

lemma slots_ok_append:
  "slots_ok e (xs @ ys) \<longleftrightarrow> slots_ok e xs \<and> slots_ok (if xs = [] then e else fst (last xs)) ys"
  by (induction e xs rule: slots_ok.induct) auto

lemma slots_ok_last: "slots_ok e infos \<Longrightarrow> infos \<noteq> [] \<Longrightarrow> fst (last infos) \<le> e"
  by (induction e infos rule: slots_ok.induct) (auto split: if_splits)

lemma slots_ok_range:
  assumes "slots_ok e infos" "(offset, len, meta) \<in> set infos"
  shows "fst (last infos) \<le> offset \<and> offset + len \<le> e"
  using assms
proof (induction e infos rule: slots_ok.induct)
  case (2 e off l m infos)
  show ?case
  proof (cases "(offset, len, meta) \<in> set infos")
    case True
    with 2 show ?thesis by auto
  next
    case False
    with 2 slots_ok_last [of off infos] show ?thesis by auto
  qed
qed simp

text \<open>Two slots of a page do not overlap.\<close>

lemma slots_ok_disjoint:
  assumes "slots_ok e infos" "i < j" "j < length infos"
  shows "fst (infos ! j) + fst (snd (infos ! j)) \<le> fst (infos ! i)"
  using assms
proof (induction e infos arbitrary: i j rule: slots_ok.induct)
  case (2 e off l m infos)
  obtain o' l' m' where j: "infos ! (j - 1) = (o', l', m')" by (cases "infos ! (j - 1)")
  have jl: "j - 1 < length infos" using 2 by simp
  then have "(o', l', m') \<in> set infos" using j nth_mem by metis
  note r = slots_ok_range [of off infos o' l' m', OF _ this]
  show ?case
  proof (cases i)
    case 0
    with 2 j r show ?thesis by (auto simp: nth_Cons')
  next
    case (Suc n)
    with 2(1) [of n "j - 1"] 2(2-4) show ?thesis by (auto simp: nth_Cons')
  qed
qed simp

lemma slots_ok_upd:
  "slots_ok e infos \<Longrightarrow> i < length infos \<Longrightarrow> infos ! i = (offset, len, meta0) \<Longrightarrow> slots_ok e (infos[i := (offset, len, meta)])"
proof (induction e infos arbitrary: i rule: slots_ok.induct)
  case (2 e off l m infos)
  then show ?case by (cases i) auto
qed simp

lemma read_slot:
  assumes "slots_ok BUSTUB_PAGE_SIZE (tuple_infos p)" "length (page_bytes p) = BUSTUB_PAGE_SIZE"
    "i < GetNumTuples p" "tuple_infos p ! i = (offset, len, meta)"
  shows "read_bytes len (drop offset (page_bytes p)) = Inr (snd (page_tuples p ! i)) \<and> length (snd (page_tuples p ! i)) = len \<and>
    fst (page_tuples p ! i) = meta"
proof -
  have "(offset, len, meta) \<in> set (tuple_infos p)" using assms(3,4) nth_mem by (metis GetNumTuples_def)
  then have "offset + len \<le> length (page_bytes p)" using slots_ok_range [OF assms(1)] assms(2) by fastforce
  with assms(3,4) show ?thesis by (auto simp: read_bytes_def page_tuples_def GetNumTuples_def slot_tuple_def)
qed

lemma page_GetTuple_eq: "page_ok p \<Longrightarrow> snd rid < GetNumTuples p \<Longrightarrow> page_GetTuple rid p = Inr (page_tuples p ! snd rid)"
proof -
  assume a: "page_ok p" "snd rid < GetNumTuples p"
  obtain offset len meta where i: "tuple_infos p ! snd rid = (offset, len, meta)" by (cases "tuple_infos p ! snd rid")
  with a read_slot [of p "snd rid" offset len meta] show ?thesis
    by (cases "page_tuples p ! snd rid") (auto simp: page_GetTuple_def page_ok_def)
qed

lemma page_GetTupleMeta_eq: "page_ok p \<Longrightarrow> snd rid < GetNumTuples p \<Longrightarrow> page_GetTupleMeta rid p = Inr (fst (page_tuples p ! snd rid))"
  using read_slot [of p "snd rid"] by (cases "tuple_infos p ! snd rid") (simp add: page_GetTupleMeta_def page_ok_def)

lemma page_GetTuple_out: "GetNumTuples p \<le> snd rid \<Longrightarrow> page_GetTuple rid p = out_of_slots"
  by (simp add: page_GetTuple_def)

text \<open>A write outside the other slots leaves their tuples.\<close>

lemma write_bytes_nth:
  assumes "write_bytes w bs data = Inr data'"
  shows "length data' = length data" "\<And>k. k < length data \<Longrightarrow> k < w \<or> w + length bs \<le> k \<Longrightarrow> data' ! k = data ! k"
proof -
  have "w + length bs \<le> length data" using assms by (simp add: write_bytes_def split: if_splits)
  from write_holds [OF this] assms show "length data' = length data"
    "\<And>k. k < length data \<Longrightarrow> k < w \<or> w + length bs \<le> k \<Longrightarrow> data' ! k = data ! k" by (metis Inr_inject)+
qed

lemma take_drop_write:
  assumes "write_bytes w bs data = Inr data'" "offset + len \<le> w \<or> w + length bs \<le> offset" "offset + len \<le> length data"
  shows "take len (drop offset data') = take len (drop offset data)"
proof (rule nth_equalityI)
  show "take len (drop offset data') ! k = take len (drop offset data) ! k" if "k < length (take len (drop offset data'))" for k
    using that write_bytes_nth [OF assms(1)] assms(2,3) by auto
qed (simp add: write_bytes_nth(1) [OF assms(1)])

lemma take_drop_written:
  "write_bytes w bs data = Inr data' \<Longrightarrow> take (length bs) (drop w data') = bs"
  by (auto simp: write_bytes_def split: if_splits)

lemma slot_end_le:
  assumes "page_ok p"
  shows "slot_end_offset p \<le> BUSTUB_PAGE_SIZE"
  using slots_ok_last [of BUSTUB_PAGE_SIZE "tuple_infos p"] assms by (auto simp: slot_end_offset_def page_ok_def)

text \<open>The subtraction of \<open>size_t\<close> numbers.\<close>

lemma size_minus: "b \<le> a \<Longrightarrow> a < 2 ^ 64 \<Longrightarrow> nat ((int a - int b) mod 2 ^ 64) = a - b"
proof -
  assume a: "b \<le> a" "a < 2 ^ 64"
  have "int (a - b) mod 2 ^ 64 = int (a - b)" using a(2) by (intro mod_pos_pos_trivial) auto
  with of_nat_diff [OF a(1), where 'a = int] show ?thesis by (metis nat_int)
qed

lemma size_minus_wraps: "a < b \<Longrightarrow> b < 2 ^ 63 \<Longrightarrow> nat ((int a - int b) mod 2 ^ 64) = 2 ^ 64 - (b - a)"
proof -
  assume a: "a < b" "b < 2 ^ 63"
  have "(int a - int b) mod 2 ^ 64 = (int a - int b + 2 ^ 64) mod 2 ^ 64" by (simp only: mod_add_self2)
  also have "\<dots> = int a - int b + 2 ^ 64" using a by (intro mod_pos_pos_trivial) auto
  also have "\<dots> = int (2 ^ 64 - (b - a))" using a by (simp add: of_nat_diff)
  finally show ?thesis by (metis nat_int)
qed

text \<open>Insertion: a tuple that fits is appended, one that does not fit is refused, and a tuple longer than the
  room below the last tuple is written outside the page.\<close>

lemma page_insert:
  assumes "page_ok p" "length tuple \<le> slot_end_offset p"
  shows "if slot_end_offset p - length tuple < TABLE_PAGE_HEADER_SIZE + TUPLE_INFO_SIZE * (GetNumTuples p + 1)
    then GetNextTupleOffset tuple p = None
    else GetNextTupleOffset tuple p \<noteq> None \<and> (\<exists>p'. page_InsertTuple meta tuple p = Inr (Some (GetNumTuples p), p') \<and> page_ok p' \<and>
      page_tuples p' = page_tuples p @ [(meta, tuple)] \<and> next_page_id p' = next_page_id p)"
proof -
  let ?o = "slot_end_offset p - length tuple"
  note e = slot_end_le [OF assms(1)]
  have o: "nat ((int (slot_end_offset p) - int (length tuple)) mod 2 ^ 64) = ?o"
    using assms(2) e by (intro size_minus) (simp_all add: BUSTUB_PAGE_SIZE_def)
  show ?thesis
  proof (cases "?o < TABLE_PAGE_HEADER_SIZE + TUPLE_INFO_SIZE * (GetNumTuples p + 1)")
    case True
    then show ?thesis unfolding GetNextTupleOffset_def Let_def o by simp
  next
    case False
    have m: "?o mod 65536 = ?o" "length tuple mod 65536 = length tuple" using e assms(2) by (simp_all add: BUSTUB_PAGE_SIZE_def)
    have g: "GetNextTupleOffset tuple p = Some ?o" unfolding GetNextTupleOffset_def Let_def o using False m by simp
    have fit: "?o + length tuple \<le> length (page_bytes p)" using assms e by (simp add: page_ok_def)
    then obtain bytes where w: "write_bytes ?o tuple (page_bytes p) = Inr bytes" "length bytes = length (page_bytes p)"
      using write_holds by metis
    let ?p = "p\<lparr>tuple_infos := tuple_infos p @ [(?o, length tuple, meta)], page_bytes := bytes\<rparr>"
    have keep: "slot_tuple ?p i = slot_tuple p i" if i: "i \<in> set (tuple_infos p)" for i
    proof -
      obtain off l m' where im: "i = (off, l, m')" by (cases i)
      have r: "slot_end_offset p \<le> off" "off + l \<le> BUSTUB_PAGE_SIZE"
        using slots_ok_range [of BUSTUB_PAGE_SIZE "tuple_infos p" off l m'] i im assms(1) by (auto simp: page_ok_def slot_end_offset_def)
      have "take l (drop off bytes) = take l (drop off (page_bytes p))"
        by (rule take_drop_write [OF w(1)]) (use r assms in \<open>auto simp: page_ok_def\<close>)
      then show ?thesis by (simp add: im slot_tuple_def)
    qed
    have "page_tuples ?p = page_tuples p @ [(meta, tuple)]"
      using keep take_drop_written [OF w(1)] by (simp add: page_tuples_def) (simp add: slot_tuple_def)
    moreover have "page_ok ?p"
      using assms False w(2) by (auto simp: page_ok_def slots_ok_append slot_end_offset_def GetNumTuples_def)
    ultimately show ?thesis using False g w(1) m by (simp add: page_InsertTuple_def)
  qed
qed

lemma page_insert_oversized:
  assumes "page_ok p" "slot_end_offset p < length tuple" "length tuple < 2 ^ 63"
  shows "page_InsertTuple meta tuple p = Inl Undefined"
proof -
  let ?d = "length tuple - slot_end_offset p"
  have e: "slot_end_offset p \<le> BUSTUB_PAGE_SIZE" "GetNumTuples p < 512"
    using slot_end_le [OF assms(1)] assms(1) by (auto simp: page_ok_def BUSTUB_PAGE_SIZE_def TABLE_PAGE_HEADER_SIZE_def TUPLE_INFO_SIZE_def)
  have o: "nat ((int (slot_end_offset p) - int (length tuple)) mod 2 ^ 64) = 2 ^ 64 - ?d"
    using assms(2,3) by (intro size_minus_wraps) simp_all
  let ?o = "(2 ^ 64 - ?d) mod 2 ^ 16"
  have g: "GetNextTupleOffset tuple p = Some ?o"
    unfolding GetNextTupleOffset_def Let_def o
    using e(2) assms(2,3) by (simp add: TABLE_PAGE_HEADER_SIZE_def TUPLE_INFO_SIZE_def)
  have "\<not> ?o + length tuple \<le> BUSTUB_PAGE_SIZE"
  proof
    assume a: "?o + length tuple \<le> BUSTUB_PAGE_SIZE"
    then have "?d < 2 ^ 16" "0 < ?d" using assms(2) by (simp_all add: BUSTUB_PAGE_SIZE_def)
    then have "?o = 2 ^ 16 - ?d" by (intro mod_nat_eqI) (auto simp: field_simps intro!: dvdI [of _ _ "2 ^ 48 - 1"])
    with a assms(2) show False by (simp add: BUSTUB_PAGE_SIZE_def)
  qed
  with assms(1) g show ?thesis by (simp add: page_InsertTuple_def write_bytes_def page_ok_def)
qed

text \<open>Updates change the tuple in its slot.\<close>

lemma set_meta_facts:
  assumes "page_ok p" "i < GetNumTuples p"
  shows "page_ok (set_meta i meta p)" "page_tuples (set_meta i meta p) = (page_tuples p)[i := (meta, snd (page_tuples p ! i))]"
    "next_page_id (set_meta i meta p) = next_page_id p" "GetNumTuples (set_meta i meta p) = GetNumTuples p"
    "page_bytes (set_meta i meta p) = page_bytes p"
proof -
  obtain offset len meta0 where e: "tuple_infos p ! i = (offset, len, meta0)" by (cases "tuple_infos p ! i")
  have i: "i < length (tuple_infos p)" using assms(2) by (simp add: GetNumTuples_def)
  then have ne: "tuple_infos p \<noteq> []" by auto
  have "fst (last ((tuple_infos p)[i := (offset, len, meta)])) = fst (last (tuple_infos p))"
    using i e by (cases "i = length (tuple_infos p) - 1") (simp_all add: last_list_update [OF ne] last_conv_nth [OF ne])
  with i show "page_ok (set_meta i meta p)" using assms(1) e slots_ok_upd [of BUSTUB_PAGE_SIZE "tuple_infos p" i offset len meta0 meta]
    by (auto simp: page_ok_def set_meta_def GetNumTuples_def slot_end_offset_def)
  show "page_tuples (set_meta i meta p) = (page_tuples p)[i := (meta, snd (page_tuples p ! i))]"
  proof -
    have "slot_tuple (set_meta i meta p) = slot_tuple p" by (rule ext) (simp add: slot_tuple_def set_meta_def split: prod.split)
    moreover have "tuple_infos (set_meta i meta p) = (tuple_infos p)[i := (offset, len, meta)]" using e by (simp add: set_meta_def)
    ultimately show ?thesis using i e by (simp add: page_tuples_def map_update slot_tuple_def)
  qed
qed (simp_all add: set_meta_def GetNumTuples_def split: prod.splits)

lemma page_update_meta:
  assumes "page_ok p" "snd rid < GetNumTuples p"
  shows "\<exists>p'. page_UpdateTupleMeta meta rid p = Inr p' \<and> page_ok p' \<and> next_page_id p' = next_page_id p \<and>
    page_tuples p' = (page_tuples p)[snd rid := (meta, snd (page_tuples p ! snd rid))]"
  using set_meta_facts [OF assms] assms(2) by (simp add: page_UpdateTupleMeta_def Let_def)

lemma page_update_in_place:
  assumes "page_ok p" "snd rid < GetNumTuples p" "length tuple = length (snd (page_tuples p ! snd rid))"
  shows "\<exists>p'. UpdateTupleInPlaceUnsafe meta tuple rid p = Inr p' \<and> page_ok p' \<and> next_page_id p' = next_page_id p \<and>
    page_tuples p' = (page_tuples p)[snd rid := (meta, tuple)]"
proof -
  let ?i = "snd rid"
  obtain offset len meta0 where e: "tuple_infos p ! ?i = (offset, len, meta0)" by (cases "tuple_infos p ! ?i")
  have i: "?i < length (tuple_infos p)" using assms(2) by (simp add: GetNumTuples_def)
  have ok: "slots_ok BUSTUB_PAGE_SIZE (tuple_infos p)" "length (page_bytes p) = BUSTUB_PAGE_SIZE" using assms(1) by (simp_all add: page_ok_def)
  have len: "len = length tuple" using read_slot [OF ok assms(2) e] assms(3) by simp
  have "offset + len \<le> BUSTUB_PAGE_SIZE" using slots_ok_range [OF ok(1), of offset len meta0] e i nth_mem by metis
  then obtain bytes where w: "write_bytes offset tuple (page_bytes p) = Inr bytes" "length bytes = length (page_bytes p)"
    using write_holds [of offset tuple "page_bytes p"] ok(2) len by metis
  have other: "take l (drop off bytes) = take l (drop off (page_bytes p))"
    if j: "j < length (tuple_infos p)" "j \<noteq> ?i" "tuple_infos p ! j = (off, l, m)" for j off l m
  proof (rule take_drop_write [OF w(1)])
    show "off + l \<le> offset \<or> offset + length tuple \<le> off"
      using slots_ok_disjoint [OF ok(1), of ?i j] slots_ok_disjoint [OF ok(1), of j ?i] i j e len by (cases "j < ?i") auto
    show "off + l \<le> length (page_bytes p)" using slots_ok_range [OF ok(1), of off l m] j ok(2) nth_mem by metis
  qed
  let ?p = "(set_meta ?i meta p)\<lparr>page_bytes := bytes\<rparr>"
  have infos: "tuple_infos (set_meta ?i meta p) = (tuple_infos p)[?i := (offset, len, meta)]" using e by (simp add: set_meta_def)
  have "page_tuples ?p = (page_tuples p)[?i := (meta, tuple)]"
  proof (rule nth_equalityI)
    fix j assume "j < length (page_tuples ?p)"
    then have j: "j < length (tuple_infos p)" by (simp add: GetNumTuples_def infos)
    obtain off l m where jm: "tuple_infos p ! j = (off, l, m)" by (cases "tuple_infos p ! j")
    with j other [OF j _ jm] take_drop_written [OF w(1)] len i
    show "page_tuples ?p ! j = (page_tuples p)[?i := (meta, tuple)] ! j"
      by (cases "j = ?i") (auto simp: page_tuples_def infos slot_tuple_def)
  qed (simp add: page_tuples_def infos)
  moreover have "tuple_infos (set_meta ?i meta p) \<noteq> []" using i infos by auto
  then have "page_ok ?p" using set_meta_facts(1) [OF assms(1,2), of meta] w(2)
    by (simp add: page_ok_def slot_end_offset_def GetNumTuples_def set_meta_facts(5) [OF assms(1,2)])
  ultimately show ?thesis
    using assms(2) e len w(1) set_meta_facts(3) [OF assms(1,2), of meta] by (simp add: UpdateTupleInPlaceUnsafe_def Let_def)
qed

lemma page_update_mismatch:
  assumes "page_ok p" "snd rid < GetNumTuples p" "length tuple \<noteq> length (snd (page_tuples p ! snd rid))"
  shows "UpdateTupleInPlaceUnsafe meta tuple rid p = Inl (Thrown ''Tuple size mismatch'')"
proof -
  obtain offset len meta0 where e: "tuple_infos p ! snd rid = (offset, len, meta0)" by (cases "tuple_infos p ! snd rid")
  with read_slot [OF _ _ assms(2) e] assms show ?thesis by (simp add: UpdateTupleInPlaceUnsafe_def page_ok_def)
qed

subsection \<open>Heaps\<close>

definition page_ids :: "table_heap \<Rightarrow> page_id list" where
  "page_ids h = sorted_list_of_set (dom (th_pages h))"

definition page_rows :: "(page_id \<rightharpoonup> table_page) \<Rightarrow> page_id \<Rightarrow> (rid \<times> tuple_meta \<times> nat list) list" where
  "page_rows ps i = (case ps i of None \<Rightarrow> [] | Some p \<Rightarrow> zip (map (Pair i) [0..<GetNumTuples p]) (page_tuples p))"

definition table_rows :: "table_heap \<Rightarrow> (rid \<times> tuple_meta \<times> nat list) list" where
  "table_rows h = concat (map (page_rows (th_pages h)) (page_ids h))"

text \<open>The pages of a heap are linked in the order of their ids; all but a single one hold a tuple.\<close>

fun linked :: "(page_id \<rightharpoonup> table_page) \<Rightarrow> page_id list \<Rightarrow> page_id \<Rightarrow> bool" where
  "linked ps [] e \<longleftrightarrow> True"
| "linked ps (i # ids) e \<longleftrightarrow>
     (\<exists>p. ps i = Some p \<and> page_ok p \<and> next_page_id p = (case ids of [] \<Rightarrow> e | j # _ \<Rightarrow> j)) \<and> linked ps ids e"

definition nonempty_page :: "(page_id \<rightharpoonup> table_page) \<Rightarrow> page_id \<Rightarrow> bool" where
  "nonempty_page ps i \<longleftrightarrow> (\<exists>p. ps i = Some p \<and> tuple_infos p \<noteq> [])"

definition heap_linked :: "table_heap \<Rightarrow> bool" where
  "heap_linked h \<longleftrightarrow> finite (dom (th_pages h)) \<and> page_ids h \<noteq> [] \<and> hd (page_ids h) = first_page_id h \<and> last (page_ids h) = last_page_id h \<and>
     linked (th_pages h) (page_ids h) INVALID_PAGE_ID \<and> 0 \<le> first_page_id h \<and> last_page_id h < th_next_page_id h \<and>
     (\<forall>i \<in> set (butlast (page_ids h)). nonempty_page (th_pages h) i)"

definition heap_ok :: "table_heap \<Rightarrow> bool" where
  "heap_ok h \<longleftrightarrow> heap_linked h \<and> (1 < length (page_ids h) \<longrightarrow> nonempty_page (th_pages h) (last_page_id h))"

lemma linked_append:
  "linked ps (xs @ ys) e \<longleftrightarrow> linked ps xs (hd (ys @ [e])) \<and> linked ps ys e"
proof (induction xs)
  case (Cons x xs)
  then show ?case by (cases xs; cases ys) auto
qed simp

lemma linked_cong: "(\<And>i. i \<in> set ids \<Longrightarrow> ps i = ps' i) \<Longrightarrow> linked ps ids e = linked ps' ids e"
  by (induction ids) auto

lemma linked_mem: "linked ps ids e \<Longrightarrow> i \<in> set ids \<Longrightarrow> \<exists>p. ps i = Some p \<and> page_ok p"
  by (induction ids) auto

lemma page_ids_facts:
  assumes "heap_linked h"
  shows "sorted (page_ids h)" "distinct (page_ids h)" "set (page_ids h) = dom (th_pages h)"
    "page_ids h = butlast (page_ids h) @ [last_page_id h]"
proof -
  have h: "finite (dom (th_pages h))" "page_ids h \<noteq> []" "last (page_ids h) = last_page_id h" using assms by (simp_all add: heap_linked_def)
  show "sorted (page_ids h)" "distinct (page_ids h)" "set (page_ids h) = dom (th_pages h)" using h(1) by (simp_all add: page_ids_def)
  show "page_ids h = butlast (page_ids h) @ [last_page_id h]" using h(2,3) append_butlast_last_id by metis
qed

lemma page_ids_unique: "sorted ids \<Longrightarrow> distinct ids \<Longrightarrow> set ids = dom (th_pages h) \<Longrightarrow> page_ids h = ids"
  unfolding page_ids_def by (metis sorted_list_of_set.idem_if_sorted_distinct)

lemma last_page:
  assumes "heap_linked h"
  obtains p where "th_pages h (last_page_id h) = Some p" "page_ok p" "next_page_id p = INVALID_PAGE_ID"
proof -
  from page_ids_facts(4) [OF assms] have "linked (th_pages h) (butlast (page_ids h) @ [last_page_id h]) INVALID_PAGE_ID"
    using assms by (metis heap_linked_def)
  with that show ?thesis by (auto simp: linked_append)
qed

text \<open>Replacing a page by one with the same successor and at least as many tuples.\<close>

lemma replace_page:
  assumes "heap_linked h" "th_pages h i = Some p" "page_ok p'" "next_page_id p' = next_page_id p" "tuple_infos p \<noteq> [] \<Longrightarrow> tuple_infos p' \<noteq> []"
  shows "heap_linked (put_page i p' h)" "page_ids (put_page i p' h) = page_ids h"
proof -
  have d: "dom ((th_pages h)(i \<mapsto> p')) = dom (th_pages h)" using assms(2) by auto
  then show ids: "page_ids (put_page i p' h) = page_ids h" by (simp add: page_ids_def put_page_def)
  have "linked ps ids e \<Longrightarrow> ps i = Some p \<Longrightarrow> linked (ps(i \<mapsto> p')) ids e" for ps ids e
    using assms(3,4) by (induction ids) auto
  moreover have "nonempty_page (th_pages h) j \<Longrightarrow> nonempty_page ((th_pages h)(i \<mapsto> p')) j" for j
    using assms(2,5) by (auto simp: nonempty_page_def)
  ultimately show "heap_linked (put_page i p' h)"
    using assms(1,2) d ids unfolding heap_linked_def by (simp add: put_page_def)
qed

lemma insert_loop_fits: "GetNextTupleOffset tuple page \<noteq> None \<Longrightarrow> insert_loop tuple page h = Inr (page, h)"
  by (simp add: insert_loop.simps [of tuple page h])

lemma fresh_page: "page_ok (Init zero_page)" "slot_end_offset (Init zero_page) = BUSTUB_PAGE_SIZE" "GetNumTuples (Init zero_page) = 0"
    "tuple_infos (Init zero_page) = []" "next_page_id (Init zero_page) = INVALID_PAGE_ID"
  by (simp_all add: page_ok_def Init_def zero_page_def slot_end_offset_def GetNumTuples_def BUSTUB_PAGE_SIZE_def TABLE_PAGE_HEADER_SIZE_def)

text \<open>A tuple of at most this many bytes has room on a fresh page.\<close>

definition max_tuple_length :: nat where
  "max_tuple_length = BUSTUB_PAGE_SIZE - TABLE_PAGE_HEADER_SIZE - TUPLE_INFO_SIZE"

lemma fresh_fits:
  assumes "length tuple \<le> max_tuple_length"
  shows "GetNextTupleOffset tuple (Init zero_page) \<noteq> None"
  using page_insert [OF fresh_page(1), of tuple] assms
  by (auto simp: fresh_page max_tuple_length_def BUSTUB_PAGE_SIZE_def TABLE_PAGE_HEADER_SIZE_def TUPLE_INFO_SIZE_def split: if_splits)

lemma linked_put_new:
  assumes "linked ps ids e" "new \<notin> set ids" shows "linked (ps(new \<mapsto> q)) ids e"
  using assms by (subst linked_cong [of _ _ ps]) auto

text \<open>A fresh last page: the heap with an empty page behind the last one.\<close>

definition with_new_page :: "table_page \<Rightarrow> table_heap \<Rightarrow> table_heap" where
  "with_new_page page h =
     (let (next_id, h1) = th_NewPage h;
          h2 = put_page (last_page_id h1) (SetNextPageId next_id page) h1
      in put_page next_id (Init zero_page) (h2\<lparr>last_page_id := next_id\<rparr>))"

lemma insert_loop_new:
  assumes "GetNextTupleOffset tuple page = None" "GetNumTuples page \<noteq> 0" "length tuple \<le> max_tuple_length"
  shows "insert_loop tuple page h = Inr (Init zero_page, with_new_page page h)"
  using assms fresh_fits [OF assms(3)]
  by (simp add: insert_loop.simps [of tuple page h] insert_loop_fits with_new_page_def Let_def split: prod.split)

text \<open>The outcome of an insertion, over the rows of the heap.\<close>

lemma zip_rows_append:
  "length xs = n \<Longrightarrow> zip (map (Pair i) [0..<Suc n]) (xs @ [x]) = zip (map (Pair i) [0..<n]) xs @ [((i, n), x)]"
  by simp

lemma insert_here:
  assumes "heap_linked h" "th_pages h (last_page_id h) = Some p" "page_InsertTuple meta tuple p = Inr (Some (GetNumTuples p), p')"
    "page_ok p'" "page_tuples p' = page_tuples p @ [(meta, tuple)]" "next_page_id p' = next_page_id p"
  shows "heap_ok (put_page (last_page_id h) p' h)"
    "table_rows (put_page (last_page_id h) p' h) = table_rows h @ [((last_page_id h, GetNumTuples p), meta, tuple)]"
proof -
  have n: "GetNumTuples p' = Suc (GetNumTuples p)" using assms(5) by (metis length_append_singleton length_page_tuples)
  have "tuple_infos p' \<noteq> []" using n by (auto simp: GetNumTuples_def)
  note r = replace_page [OF assms(1,2,4,6)] this
  show "heap_ok (put_page (last_page_id h) p' h)" using r by (simp add: heap_ok_def nonempty_page_def put_page_def)
  have ids: "page_ids h = butlast (page_ids h) @ [last_page_id h]" "distinct (page_ids h)" using page_ids_facts [OF assms(1)] by auto
  have "last_page_id h \<notin> set (butlast (page_ids h))" using ids by (metis distinct_append not_distinct_conv_prefix)
  then have "concat (map (page_rows ((th_pages h)(last_page_id h \<mapsto> p'))) (butlast (page_ids h))) =
      concat (map (page_rows (th_pages h)) (butlast (page_ids h)))"
    by (intro arg_cong [of _ _ concat] map_cong) (auto simp: page_rows_def)
  moreover have "page_rows ((th_pages h)(last_page_id h \<mapsto> p')) (last_page_id h) =
      page_rows (th_pages h) (last_page_id h) @ [((last_page_id h, GetNumTuples p), meta, tuple)]"
    using assms(2,5) n zip_rows_append [of "page_tuples p" "GetNumTuples p"] by (simp add: page_rows_def)
  ultimately show "table_rows (put_page (last_page_id h) p' h) = table_rows h @ [((last_page_id h, GetNumTuples p), meta, tuple)]"
    unfolding table_rows_def r(2) [OF r(3)] by (subst (1 2) ids(1)) (simp add: put_page_def)
qed

lemma with_new_page_ok:
  assumes "heap_linked h" "th_pages h (last_page_id h) = Some p" "tuple_infos p \<noteq> []"
  shows "heap_linked (with_new_page p h)" "table_rows (with_new_page p h) = table_rows h"
    "last_page_id (with_new_page p h) = th_next_page_id h" "th_pages (with_new_page p h) (th_next_page_id h) = Some (Init zero_page)"
proof -
  let ?new = "th_next_page_id h" and ?last = "last_page_id h" and ?h = "with_new_page p h"
  let ?q = "SetNextPageId ?new p"
  have ids: "page_ids h = butlast (page_ids h) @ [?last]" "sorted (page_ids h)" "distinct (page_ids h)" "set (page_ids h) = dom (th_pages h)"
    using page_ids_facts [OF assms(1)] by auto
  have lt: "?last < ?new" using assms(1) by (simp add: heap_linked_def)
  have "sorted (butlast (page_ids h) @ [?last])" "distinct (butlast (page_ids h) @ [?last])" using ids by metis+
  then have le: "i \<le> ?last" "i \<noteq> ?last" "i \<noteq> ?new" if "i \<in> set (butlast (page_ids h))" for i
    using that lt by (auto simp: sorted_append)
  have below: "i < ?new" if "i \<in> set (page_ids h)" for i
    using that le lt ids(1) by (metis Un_iff empty_iff empty_set le_less_trans set_ConsD set_append)
  have pages: "th_pages ?h = (th_pages h)(?last \<mapsto> ?q, ?new \<mapsto> Init zero_page)"
    by (simp add: with_new_page_def th_NewPage_def put_page_def)
  show l: "last_page_id ?h = ?new" "th_pages ?h ?new = Some (Init zero_page)"
    by (simp_all add: with_new_page_def th_NewPage_def put_page_def)
  have ids': "page_ids ?h = page_ids h @ [?new]"
    by (rule page_ids_unique) (use ids below assms(2) in \<open>auto simp: sorted_append pages less_imp_le domIff\<close>)
  have l0: "linked (th_pages h) (butlast (page_ids h)) ?last" "page_ok p"
    using assms(1,2) ids(1) linked_append [of "th_pages h" "butlast (page_ids h)" "[?last]"] by (auto simp: heap_linked_def)
  have q: "page_ok ?q" "next_page_id ?q = ?new" "tuple_infos ?q \<noteq> []" "page_tuples ?q = page_tuples p" "GetNumTuples ?q = GetNumTuples p"
    using l0(2) assms(3)
    by (simp_all add: SetNextPageId_def page_ok_def slot_end_offset_def GetNumTuples_def page_tuples_def slot_tuple_def)
  have same: "th_pages ?h i = th_pages h i" if "i \<in> set (butlast (page_ids h))" for i
    using le [OF that] by (simp add: pages)
  have "linked (th_pages ?h) (butlast (page_ids h)) ?last"
    using l0(1) linked_cong [of "butlast (page_ids h)" "th_pages ?h" "th_pages h"] same by simp
  then have "linked (th_pages ?h) (butlast (page_ids h) @ [?last] @ [?new]) INVALID_PAGE_ID"
    using q lt fresh_page by (simp add: linked_append pages)
  then have linked': "linked (th_pages ?h) (page_ids ?h) INVALID_PAGE_ID" using ids' ids(1) by (metis append_assoc)
  have "nonempty_page (th_pages ?h) i" if "i \<in> set (butlast (page_ids ?h))" for i
  proof (cases "i = ?last")
    case True
    then show ?thesis using q(3) lt by (simp add: nonempty_page_def pages)
  next
    case False
    have "i \<in> set (page_ids h)" using that ids' by simp
    with False have i: "i \<in> set (butlast (page_ids h))" using ids(1) by (metis Un_iff empty_iff empty_set set_ConsD set_append)
    with assms(1) show ?thesis by (simp add: heap_linked_def nonempty_page_def same [OF i])
  qed
  moreover have "first_page_id ?h = first_page_id h" "th_next_page_id ?h = ?new + 1"
    by (simp_all add: with_new_page_def th_NewPage_def put_page_def)
  ultimately show "heap_linked ?h"
    using assms(1) linked' ids' l by (auto simp: heap_linked_def pages)
  have "page_rows (th_pages ?h) ?new = []" "page_rows (th_pages ?h) ?last = page_rows (th_pages h) ?last"
    using q lt assms(2) fresh_page by (simp_all add: page_rows_def pages)
  moreover have "concat (map (page_rows (th_pages ?h)) (butlast (page_ids h))) = concat (map (page_rows (th_pages h)) (butlast (page_ids h)))"
    by (intro arg_cong [of _ _ concat] map_cong) (simp_all add: page_rows_def same)
  ultimately show "table_rows ?h = table_rows h"
    unfolding table_rows_def ids' by (subst (1 2) ids(1)) simp
qed

text \<open>Insertion appends a row under a new record id, on the last page or on a fresh one.\<close>

lemma table_insert:
  assumes "heap_ok h" "length tuple \<le> max_tuple_length" "\<And>p. th_pages h (last_page_id h) = Some p \<Longrightarrow> length tuple \<le> slot_end_offset p"
  obtains rid h' where "InsertTuple meta tuple h = Inr (rid, h')" "heap_ok h'" "table_rows h' = table_rows h @ [(rid, meta, tuple)]"
    "first_page_id h' = first_page_id h"
proof -
  have hl: "heap_linked h" using assms(1) by (simp add: heap_ok_def)
  obtain p where p: "th_pages h (last_page_id h) = Some p" "page_ok p" using last_page [OF hl] by blast
  note ins = page_insert [OF p(2) assms(3) [OF p(1)], of meta]
  show ?thesis
  proof (cases "GetNextTupleOffset tuple p = None")
    case False
    with ins obtain p' where p': "page_InsertTuple meta tuple p = Inr (Some (GetNumTuples p), p')" "page_ok p'"
        "page_tuples p' = page_tuples p @ [(meta, tuple)]" "next_page_id p' = next_page_id p" by (auto split: if_splits)
    have "InsertTuple meta tuple h = Inr ((last_page_id h, GetNumTuples p), put_page (last_page_id h) p' h)"
      using p(1) p'(1) insert_loop_fits [OF False] by (simp add: InsertTuple_def get_page_def)
    from that [OF this] insert_here [OF hl p(1) p'] show ?thesis by (simp add: put_page_def)
  next
    case True
    have ne: "tuple_infos p \<noteq> []"
    proof
      assume "tuple_infos p = []"
      with True ins assms(2) show False
        by (auto simp: slot_end_offset_def GetNumTuples_def max_tuple_length_def BUSTUB_PAGE_SIZE_def TABLE_PAGE_HEADER_SIZE_def
          TUPLE_INFO_SIZE_def split: if_splits)
    qed
    let ?h = "with_new_page p h" and ?q = "Init zero_page"
    note w = with_new_page_ok [OF hl p(1) ne]
    have fits: "GetNextTupleOffset tuple ?q \<noteq> None" by (rule fresh_fits [OF assms(2)])
    have "length tuple \<le> slot_end_offset ?q" using assms(2) by (simp add: fresh_page max_tuple_length_def)
    from page_insert [OF fresh_page(1) this, of meta] fits obtain p' where p':
        "page_InsertTuple meta tuple ?q = Inr (Some (GetNumTuples ?q), p')" "page_ok p'"
        "page_tuples p' = page_tuples ?q @ [(meta, tuple)]" "next_page_id p' = next_page_id ?q" by (auto split: if_splits)
    have "insert_loop tuple p h = Inr (?q, ?h)" using insert_loop_new [OF True _ assms(2)] ne by (simp add: GetNumTuples_def)
    then have "InsertTuple meta tuple h = Inr ((last_page_id ?h, GetNumTuples ?q), put_page (last_page_id ?h) p' ?h)"
      using p(1) p'(1) by (simp add: InsertTuple_def get_page_def)
    from that [OF this] insert_here [OF w(1) _ p'] w(2-4) show ?thesis
      by (simp add: put_page_def with_new_page_def th_NewPage_def)
  qed
qed

end
