(* ===== verification/Table_Scan.thy ===== *)
theory Table_Scan
  imports Table_Proofs "HOL-Library.Sublist"
begin

section \<open>Scans of a table\<close>

text \<open>
  A heap is a map from record ids to tuples that insertions extend; a scan visits the records
  that were there when its iterator was made, whatever is inserted or updated while it runs,
  and ends.
\<close>

subsection \<open>The record ids of a heap\<close>

definition page_rids :: "(page_id \<rightharpoonup> table_page) \<Rightarrow> page_id \<Rightarrow> rid list" where
  "page_rids ps i = (case ps i of None \<Rightarrow> [] | Some p \<Rightarrow> map (Pair i) [0..<GetNumTuples p])"

definition table_rids :: "table_heap \<Rightarrow> rid list" where
  "table_rids h = map fst (table_rows h)"

lemma page_rows_rids: "map fst (page_rows ps i) = page_rids ps i"
  by (simp add: page_rows_def page_rids_def split: option.split)

lemma table_rids_eq: "table_rids h = concat (map (page_rids (th_pages h)) (page_ids h))"
  by (simp add: table_rids_def table_rows_def map_concat comp_def page_rows_rids)

lemma mem_page_rids: "r \<in> set (page_rids ps i) \<longleftrightarrow> fst r = i \<and> (\<exists>p. ps i = Some p \<and> snd r < GetNumTuples p)"
  by (cases r; cases "ps i") (auto simp: page_rids_def)

lemma mem_page_rows: "(r, x) \<in> set (page_rows ps i) \<longleftrightarrow>
    fst r = i \<and> (\<exists>p. ps i = Some p \<and> snd r < GetNumTuples p \<and> x = page_tuples p ! snd r)"
proof (cases "ps i")
  case (Some p)
  show ?thesis
  proof
    assume "(r, x) \<in> set (page_rows ps i)"
    with Some show "fst r = i \<and> (\<exists>p. ps i = Some p \<and> snd r < GetNumTuples p \<and> x = page_tuples p ! snd r)"
      by (auto simp: page_rows_def in_set_zip)
  next
    assume "fst r = i \<and> (\<exists>p. ps i = Some p \<and> snd r < GetNumTuples p \<and> x = page_tuples p ! snd r)"
    with Some show "(r, x) \<in> set (page_rows ps i)"
      by (cases r) (auto simp: page_rows_def in_set_zip intro!: exI [of _ "snd r"])
  qed
qed (simp add: page_rows_def)

lemma mem_table_rows:
  assumes "heap_linked h"
  shows "(r, x) \<in> set (table_rows h) \<longleftrightarrow> (\<exists>p. th_pages h (fst r) = Some p \<and> snd r < GetNumTuples p \<and> x = page_tuples p ! snd r)"
  using page_ids_facts(3) [OF assms] by (auto simp: table_rows_def mem_page_rows)

lemma distinct_rids: "distinct ids \<Longrightarrow> distinct (concat (map (page_rids ps) ids))"
  by (induction ids) (auto simp: mem_page_rids page_rids_def distinct_map inj_on_def split: option.split)

lemma distinct_table_rids: "heap_linked h \<Longrightarrow> distinct (table_rids h)"
  using distinct_rids page_ids_facts(2) by (simp add: table_rids_eq)

lemma table_lookup:
  assumes "heap_linked h"
  shows "map_of (table_rows h) r = Some x \<longleftrightarrow> (\<exists>p. th_pages h (fst r) = Some p \<and> snd r < GetNumTuples p \<and> x = page_tuples p ! snd r)"
  using map_of_eq_Some_iff [of "table_rows h" r x] distinct_table_rids [OF assms] mem_table_rows [OF assms] by (simp add: table_rids_def)

lemma heap_page_ok: "heap_linked h \<Longrightarrow> th_pages h i = Some p \<Longrightarrow> page_ok p"
  using linked_mem [of "th_pages h" "page_ids h" INVALID_PAGE_ID i] page_ids_facts(3) [of h] by (auto simp: heap_linked_def)

text \<open>Reading a record.\<close>

lemma GetTuple_row:
  assumes "heap_linked h"
  shows "GetTuple r h = (case map_of (table_rows h) r of Some x \<Rightarrow> Inr x
    | None \<Rightarrow> if th_pages h (fst r) = None then Inl Undefined else out_of_slots)"
proof (cases "th_pages h (fst r)")
  case None
  then have "map_of (table_rows h) r = None" using table_lookup [OF assms, of r] by (cases "map_of (table_rows h) r") auto
  with None show ?thesis by (simp add: GetTuple_def get_page_def)
next
  case (Some p)
  show ?thesis
  proof (cases "snd r < GetNumTuples p")
    case True
    then have "map_of (table_rows h) r = Some (page_tuples p ! snd r)" using table_lookup [OF assms] Some by auto
    with Some True page_GetTuple_eq [OF heap_page_ok [OF assms Some] True] show ?thesis by (simp add: GetTuple_def get_page_def)
  next
    case False
    then have "map_of (table_rows h) r = None" using table_lookup [OF assms, of r] Some by (cases "map_of (table_rows h) r") auto
    with Some False show ?thesis by (simp add: GetTuple_def get_page_def page_GetTuple_out)
  qed
qed

text \<open>Replacing the tuple of a slot changes the row of its record id only.\<close>

lemma put_slot:
  assumes "heap_ok h" "th_pages h (fst r) = Some p" "page_ok p'" "next_page_id p' = next_page_id p" "snd r < GetNumTuples p"
    "page_tuples p' = (page_tuples p)[snd r := x]"
  shows "heap_ok (put_page (fst r) p' h)" "table_rids (put_page (fst r) p' h) = table_rids h"
    "map_of (table_rows (put_page (fst r) p' h)) = (map_of (table_rows h))(r \<mapsto> x)"
proof -
  let ?h = "put_page (fst r) p' h"
  have hl: "heap_linked h" using assms(1) by (simp add: heap_ok_def)
  have n: "GetNumTuples p' = GetNumTuples p" using assms(6) by (metis length_list_update length_page_tuples)
  then have ne: "tuple_infos p \<noteq> [] \<Longrightarrow> tuple_infos p' \<noteq> []" by (auto simp: GetNumTuples_def)
  note rp = replace_page [OF hl assms(2,3,4) ne]
  have pages: "th_pages ?h = (th_pages h)(fst r \<mapsto> p')" by (simp add: put_page_def)
  have np: "nonempty_page (th_pages h) i \<Longrightarrow> nonempty_page (th_pages ?h) i" for i
    using ne assms(2) by (auto simp: nonempty_page_def pages)
  show "heap_ok ?h" using rp np assms(1) by (simp add: heap_ok_def) (simp add: put_page_def)
  have "page_rids (th_pages ?h) = page_rids (th_pages h)"
    using n assms(2) by (auto simp: page_rids_def pages fun_eq_iff)
  then show "table_rids ?h = table_rids h" using rp(2) by (simp add: table_rids_eq)
  show "map_of (table_rows ?h) = (map_of (table_rows h))(r \<mapsto> x)"
  proof (rule ext)
    fix r'
    have "map_of (table_rows ?h) r' = Some y \<longleftrightarrow> ((map_of (table_rows h))(r \<mapsto> x)) r' = Some y" for y
      using table_lookup [OF rp(1), of r' y] table_lookup [OF hl, of r' y] assms(2,5,6) n
      by (cases "r' = r"; cases "fst r' = fst r") (auto simp: pages prod_eq_iff nth_list_update)
    then show "map_of (table_rows ?h) r' = ((map_of (table_rows h))(r \<mapsto> x)) r'"
      by (metis option.collapse)
  qed
qed

subsection \<open>The operations of a heap\<close>

lemma UpdateTupleMeta_row:
  assumes "heap_ok h" "map_of (table_rows h) r = Some (old_meta, tuple)"
  obtains h' where "UpdateTupleMeta meta r h = Inr h'" "heap_ok h'" "table_rids h' = table_rids h"
    "map_of (table_rows h') = (map_of (table_rows h))(r \<mapsto> (meta, tuple))" "first_page_id h' = first_page_id h"
proof -
  have hl: "heap_linked h" using assms(1) by (simp add: heap_ok_def)
  obtain p where p: "th_pages h (fst r) = Some p" "snd r < GetNumTuples p" "page_tuples p ! snd r = (old_meta, tuple)"
    using assms(2) table_lookup [OF hl] by fastforce
  obtain p' where p': "page_UpdateTupleMeta meta r p = Inr p'" "page_ok p'" "next_page_id p' = next_page_id p"
      "page_tuples p' = (page_tuples p)[snd r := (meta, tuple)]"
    using page_update_meta [OF heap_page_ok [OF hl p(1)] p(2), of meta] p(3) by auto
  show ?thesis
    using that [of "put_page (fst r) p' h"] put_slot [OF assms(1) p(1) p'(2,3) p(2) p'(4)] p(1) p'(1)
    by (simp add: UpdateTupleMeta_def get_page_def) (simp add: put_page_def)
qed

text \<open>An update in place replaces a tuple by one of the same length when the check holds.\<close>

lemma UpdateTupleInPlace_row:
  assumes "heap_ok h" "map_of (table_rows h) r = Some (old_meta, old)"
  shows "if check \<noteq> None \<and> \<not> the check old_meta old r then UpdateTupleInPlace meta tuple r check h = Inr (False, h)
    else if length tuple \<noteq> length old then UpdateTupleInPlace meta tuple r check h = Inl (Thrown ''Tuple size mismatch'')
    else \<exists>h'. UpdateTupleInPlace meta tuple r check h = Inr (True, h') \<and> heap_ok h' \<and> table_rids h' = table_rids h \<and>
      map_of (table_rows h') = (map_of (table_rows h))(r \<mapsto> (meta, tuple)) \<and> first_page_id h' = first_page_id h"
proof -
  have hl: "heap_linked h" using assms(1) by (simp add: heap_ok_def)
  obtain p where p: "th_pages h (fst r) = Some p" "snd r < GetNumTuples p" "page_tuples p ! snd r = (old_meta, old)"
    using assms(2) table_lookup [OF hl] by fastforce
  have ok: "page_ok p" using heap_page_ok [OF hl p(1)] .
  have g: "page_GetTuple r p = Inr (old_meta, old)" using page_GetTuple_eq [OF ok p(2)] p(3) by simp
  show ?thesis
  proof (cases "length tuple = length old")
    case True
    then obtain p' where p': "UpdateTupleInPlaceUnsafe meta tuple r p = Inr p'" "page_ok p'" "next_page_id p' = next_page_id p"
        "page_tuples p' = (page_tuples p)[snd r := (meta, tuple)]"
      using page_update_in_place [OF ok p(2), of tuple meta] p(3) by auto
    have f: "first_page_id (put_page (fst r) p' h) = first_page_id h" by (simp add: put_page_def)
    show ?thesis using put_slot [OF assms(1) p(1) p'(2,3) p(2) p'(4)] p(1) p'(1) g f True
      by (simp add: UpdateTupleInPlace_def get_page_def)
  next
    case False
    then show ?thesis using page_update_mismatch [OF ok p(2), of tuple meta] p(1,3) g by (simp add: UpdateTupleInPlace_def get_page_def)
  qed
qed

text \<open>Where an insertion succeeds: the tuple is not longer than the room on its page.\<close>

lemma insert_succeeds:
  assumes "heap_ok h" "InsertTuple meta tuple h = Inr (rid, h')" "length tuple < 2 ^ 63"
  shows "length tuple \<le> max_tuple_length" "th_pages h (last_page_id h) = Some p \<Longrightarrow> length tuple \<le> slot_end_offset p"
proof -
  have hl: "heap_linked h" using assms(1) by (simp add: heap_ok_def)
  obtain p where p: "th_pages h (last_page_id h) = Some p" "page_ok p" using last_page [OF hl] by blast
  have short: "length tuple \<le> slot_end_offset p"
  proof (rule ccontr)
    assume "\<not> ?thesis"
    then have "page_InsertTuple meta tuple p = Inl Undefined" using page_insert_oversized [OF p(2) _ assms(3)] by simp
    moreover from this have "GetNextTupleOffset tuple p \<noteq> None" by (auto simp: page_InsertTuple_def split: option.splits)
    ultimately show False using assms(2) p(1) by (simp add: InsertTuple_def get_page_def insert_loop_fits)
  qed
  have fresh: "length tuple \<le> max_tuple_length" if "GetNextTupleOffset tuple q \<noteq> None" "page_ok q" "length tuple \<le> slot_end_offset q" for q
  proof -
    have "\<not> slot_end_offset q - length tuple < TABLE_PAGE_HEADER_SIZE + TUPLE_INFO_SIZE * (GetNumTuples q + 1)"
      using page_insert [OF that(2,3), of meta] that(1) by (auto split: if_splits)
    with slot_end_le [OF that(2)] show ?thesis
      by (simp add: max_tuple_length_def TABLE_PAGE_HEADER_SIZE_def TUPLE_INFO_SIZE_def BUSTUB_PAGE_SIZE_def)
  qed
  show "length tuple \<le> max_tuple_length"
  proof (cases "GetNextTupleOffset tuple p")
    case None
    show ?thesis
    proof (rule ccontr)
      assume n: "\<not> ?thesis"
      have "length tuple \<le> BUSTUB_PAGE_SIZE" using short slot_end_le [OF p(2)] by simp
      then have "GetNextTupleOffset tuple (Init zero_page) = None" using fresh [OF _ fresh_page(1)] n
        by (cases "GetNextTupleOffset tuple (Init zero_page)") (auto simp: fresh_page)
      then have "insert_loop tuple p h = Inl Terminated"
        using None by (simp add: insert_loop.simps [of tuple p h] insert_loop.simps [of tuple "Init zero_page"] fresh_page Let_def split: prod.split)
      with assms(2) p(1) show False by (simp add: InsertTuple_def get_page_def)
    qed
  qed (use fresh p short in blast)
  show "th_pages h (last_page_id h) = Some p \<Longrightarrow> length tuple \<le> slot_end_offset p" for p
    using short p by simp
qed

subsection \<open>Steps of a heap\<close>

text \<open>What happens to a heap while a scan runs: insertions, updates, and page ids taken by others.\<close>

inductive table_step :: "table_heap \<Rightarrow> table_heap \<Rightarrow> bool" where
  inserted: "InsertTuple meta tuple h = Inr (rid, h') \<Longrightarrow> length tuple < 2 ^ 63 \<Longrightarrow> table_step h h'"
| meta_updated: "UpdateTupleMeta meta rid h = Inr h' \<Longrightarrow> table_step h h'"
| updated: "UpdateTupleInPlace meta tuple rid check h = Inr (b, h') \<Longrightarrow> table_step h h'"
| page_taken: "th_next_page_id h \<le> n \<Longrightarrow> table_step h (h\<lparr>th_next_page_id := n\<rparr>)"

lemma lookup_of_update:
  assumes "heap_linked h" "th_pages h (fst r) = Some p" "snd r < GetNumTuples p"
  obtains m t where "map_of (table_rows h) r = Some (m, t)"
  using table_lookup [OF assms(1)] assms(2,3) by (metis surj_pair)

lemma table_step_ok:
  assumes "table_step h h'" "heap_ok h"
  shows "heap_ok h' \<and> prefix (table_rids h) (table_rids h') \<and> first_page_id h' = first_page_id h"
  using assms
proof (cases rule: table_step.cases)
  case (inserted meta tuple rid)
  have "length tuple \<le> max_tuple_length" "\<And>p. th_pages h (last_page_id h) = Some p \<Longrightarrow> length tuple \<le> slot_end_offset p"
    using insert_succeeds [OF assms(2) inserted] by blast+
  from table_insert [OF assms(2) this, of meta] inserted(1) obtain rid where
    "heap_ok h'" "table_rows h' = table_rows h @ [(rid, meta, tuple)]" "first_page_id h' = first_page_id h" by (metis Inr_inject prod.inject)
  then show ?thesis by (simp add: table_rids_def)
next
  case (meta_updated meta rid)
  have hl: "heap_linked h" using assms(2) by (simp add: heap_ok_def)
  obtain p where p: "th_pages h (fst rid) = Some p" "snd rid < GetNumTuples p"
    using meta_updated by (auto simp: UpdateTupleMeta_def get_page_def page_UpdateTupleMeta_def out_of_slots_def Let_def split: option.splits if_splits)
  obtain m t where "map_of (table_rows h) rid = Some (m, t)" by (rule lookup_of_update [OF hl p])
  from UpdateTupleMeta_row [OF assms(2) this, of meta] meta_updated show ?thesis by (metis Inr_inject prefix_order.refl)
next
  case (updated meta tuple rid check b)
  have hl: "heap_linked h" using assms(2) by (simp add: heap_ok_def)
  obtain p where p: "th_pages h (fst rid) = Some p" "snd rid < GetNumTuples p"
    using updated by (auto simp: UpdateTupleInPlace_def get_page_def page_GetTuple_def out_of_slots_def Let_def split: option.splits if_splits)
  obtain m t where "map_of (table_rows h) rid = Some (m, t)" by (rule lookup_of_update [OF hl p])
  from UpdateTupleInPlace_row [OF assms(2) this, of check meta tuple] updated assms(2) show ?thesis by (auto split: if_splits)
next
  case (page_taken n)
  then show ?thesis using assms(2)
    by (auto simp: heap_ok_def heap_linked_def page_ids_def table_rids_def table_rows_def)
qed

lemma table_steps_ok:
  assumes "table_step\<^sup>*\<^sup>* h h'" "heap_ok h"
  shows "heap_ok h' \<and> prefix (table_rids h) (table_rids h') \<and> first_page_id h' = first_page_id h"
  using assms
proof (induction rule: rtranclp_induct)
  case (step h1 h2)
  then show ?case using table_step_ok [of h1 h2] by (metis prefix_order.trans)
qed simp

subsection \<open>The order of a scan\<close>

definition num_at :: "(page_id \<rightharpoonup> table_page) \<Rightarrow> page_id \<Rightarrow> nat" where
  "num_at ps i = (case ps i of None \<Rightarrow> 0 | Some p \<Rightarrow> GetNumTuples p)"

definition next_rid :: "(page_id \<rightharpoonup> table_page) \<Rightarrow> rid \<Rightarrow> rid" where
  "next_rid ps r = (if snd r + 1 < num_at ps (fst r) then (fst r, snd r + 1) else (next_page_id (the (ps (fst r))), 0))"

lemma page_rids_num: "page_rids ps i = map (Pair i) [0..<num_at ps i]"
  by (simp add: page_rids_def num_at_def split: option.split)

lemma successor:
  assumes "linked ps ids e" "\<And>i. i \<in> set (tl ids) \<Longrightarrow> 0 < num_at ps i" "Suc k < length (concat (map (page_rids ps) ids))"
  shows "concat (map (page_rids ps) ids) ! Suc k = next_rid ps (concat (map (page_rids ps) ids) ! k)"
  using assms
proof (induction ids arbitrary: k)
  case (Cons i ids)
  let ?n = "num_at ps i" and ?rest = "concat (map (page_rids ps) ids)"
  have rest: "(\<And>j. j \<in> set (tl ids) \<Longrightarrow> 0 < num_at ps j)" using Cons.prems(2) by (cases ids) auto
  consider "Suc k < ?n" | "Suc k = ?n" | "?n \<le> k" by linarith
  then show ?case
  proof cases
    case 1
    then show ?thesis by (simp add: page_rids_num nth_append next_rid_def)
  next
    case 2
    with Cons.prems(3) obtain j js where ids: "ids = j # js" by (cases ids) (auto simp: page_rids_num)
    have "0 < num_at ps j" using Cons.prems(2) ids by simp
    with 2 ids Cons.prems(1) show ?thesis by (auto simp: page_rids_num nth_append next_rid_def)
  next
    case 3
    have "?rest ! Suc (k - ?n) = next_rid ps (?rest ! (k - ?n))"
      using Cons.prems(1,3) 3 by (intro Cons.IH rest) (auto simp: page_rids_num)
    with 3 show ?thesis by (simp add: page_rids_num [of ps i] nth_append Suc_diff_le)
  qed
qed simp

lemma heap_successor:
  assumes "heap_ok h" "Suc k < length (table_rids h)"
  shows "table_rids h ! Suc k = next_rid (th_pages h) (table_rids h ! k)"
proof -
  have hl: "heap_linked h" using assms(1) by (simp add: heap_ok_def)
  have "0 < num_at (th_pages h) i" if i: "i \<in> set (tl (page_ids h))" for i
  proof -
    have "1 < length (page_ids h)" using i by (cases "page_ids h"; cases "tl (page_ids h)") auto
    then have "nonempty_page (th_pages h) (last_page_id h)" using assms(1) by (simp add: heap_ok_def)
    moreover have "i \<in> set (butlast (page_ids h)) \<or> i = last_page_id h"
      using i page_ids_facts(4) [OF hl] by (metis Un_iff empty_iff empty_set list.set_sel(2) set_ConsD set_append tl_Nil)
    ultimately have "nonempty_page (th_pages h) i" using hl by (auto simp: heap_linked_def)
    then show ?thesis by (auto simp: nonempty_page_def num_at_def GetNumTuples_def)
  qed
  moreover have "linked (th_pages h) (page_ids h) INVALID_PAGE_ID" using hl by (simp add: heap_linked_def)
  ultimately show ?thesis unfolding table_rids_eq using assms(2) by (intro successor) (simp_all add: table_rids_eq)
qed

lemma heap_last_rid:
  assumes "heap_ok h" "table_rids h \<noteq> []"
  shows "last (table_rids h) = (last_page_id h, num_at (th_pages h) (last_page_id h) - 1)" "0 < num_at (th_pages h) (last_page_id h)"
proof -
  have hl: "heap_linked h" using assms(1) by (simp add: heap_ok_def)
  have r: "table_rids h = concat (map (page_rids (th_pages h)) (butlast (page_ids h))) @ page_rids (th_pages h) (last_page_id h)"
    unfolding table_rids_eq by (subst page_ids_facts(4) [OF hl]) simp
  show n: "0 < num_at (th_pages h) (last_page_id h)"
  proof (cases "1 < length (page_ids h)")
    case True
    then have "nonempty_page (th_pages h) (last_page_id h)" using assms(1) by (simp add: heap_ok_def)
    then show ?thesis by (auto simp: nonempty_page_def num_at_def GetNumTuples_def)
  next
    case False
    then have "butlast (page_ids h) = []" by (cases "page_ids h") auto
    with r assms(2) show ?thesis by (auto simp: page_rids_num)
  qed
  then show "last (table_rids h) = (last_page_id h, num_at (th_pages h) (last_page_id h) - 1)"
    by (simp add: r page_rids_num last_map)
qed

subsection \<open>Scanning\<close>

text \<open>The loop \<open>for (; !it.IsEnd(); ++it)\<close> that reads each record; every round may find the heap changed.\<close>

fun table_scan :: "table_heap list \<Rightarrow> table_iterator \<Rightarrow> ((rid \<times> tuple_meta \<times> nat list) list \<times> table_iterator) result" where
  "table_scan [] it = Inr ([], it)"
| "table_scan (h # hs) it =
     (if it_IsEnd it then Inr ([], it)
      else rbind (it_GetTuple h it) (\<lambda>x. rbind (it_advance h it) (\<lambda>it'. rbind (table_scan hs it') (\<lambda>(rows, it2).
        Inr ((it_rid it, x) # rows, it2)))))"

text \<open>The iterator made on a heap \<open>h\<close> that has \<open>k\<close> records behind it.\<close>

definition cursor :: "table_heap \<Rightarrow> nat \<Rightarrow> table_iterator" where
  "cursor h k = \<lparr>it_rid = (if k < length (table_rids h) then table_rids h ! k else (INVALID_PAGE_ID, 0)),
     stop_at_rid = (last_page_id h, num_at (th_pages h) (last_page_id h))\<rparr>"

lemma heap_ids_nonneg:
  assumes "heap_linked h" "i \<in> set (page_ids h)"
  shows "0 \<le> i" "i \<le> last_page_id h"
proof -
  have f: "sorted (page_ids h)" "hd (page_ids h) = first_page_id h" "0 \<le> first_page_id h" "page_ids h = butlast (page_ids h) @ [last_page_id h]"
    using assms(1) page_ids_facts(1,4) by (simp_all add: heap_linked_def)
  show "0 \<le> i" using f(1-3) assms(2) by (cases "page_ids h") auto
  have "sorted (butlast (page_ids h) @ [last_page_id h])" "i \<in> set (butlast (page_ids h) @ [last_page_id h])" using f assms(2) by metis+
  then show "i \<le> last_page_id h" by (auto simp: sorted_append)
qed

lemma rid_page:
  assumes "heap_linked h" "r \<in> set (table_rids h)"
  shows "fst r \<in> set (page_ids h)" "snd r < num_at (th_pages h) (fst r)"
  using assms(2) by (auto simp: table_rids_eq page_rids_num)

lemma MakeIterator_cursor:
  assumes "heap_ok h"
  shows "MakeIterator h = Inr (cursor h 0)"
proof -
  have hl: "heap_linked h" using assms by (simp add: heap_ok_def)
  obtain p where p: "th_pages h (last_page_id h) = Some p" using last_page [OF hl] by blast
  obtain q where q: "th_pages h (first_page_id h) = Some q"
    using page_ids_facts(3) [OF hl] hl hd_in_set [of "page_ids h"] by (auto simp: heap_linked_def)
  have first: "first_page_id h \<noteq> INVALID_PAGE_ID" using hl by (auto simp: heap_linked_def INVALID_PAGE_ID_def)
  have rids: "table_rids h = page_rids (th_pages h) (first_page_id h) @ concat (map (page_rids (th_pages h)) (tl (page_ids h)))"
    using hl by (cases "page_ids h") (auto simp: table_rids_eq heap_linked_def)
  show ?thesis
  proof (cases "GetNumTuples q = 0")
    case True
    have "page_ids h = [first_page_id h]"
    proof (rule ccontr)
      assume "\<not> ?thesis"
      then have "first_page_id h \<in> set (butlast (page_ids h))" using hl by (cases "page_ids h") (auto simp: heap_linked_def)
      then have "nonempty_page (th_pages h) (first_page_id h)" using hl by (simp add: heap_linked_def)
      with q True show False by (auto simp: nonempty_page_def GetNumTuples_def)
    qed
    with rids q True have "table_rids h = []" by (simp add: page_rids_num num_at_def)
    with p q True first show ?thesis by (simp add: MakeIterator_def get_page_def TableIterator_def cursor_def num_at_def)
  next
    case False
    with rids q have "0 < length (table_rids h)" "table_rids h ! 0 = (first_page_id h, 0)"
      by (simp_all add: page_rids_num num_at_def nth_append)
    with p q False first show ?thesis by (simp add: MakeIterator_def get_page_def TableIterator_def cursor_def num_at_def)
  qed
qed

text \<open>A step of the iterator, on a heap that has grown since.\<close>

lemma advance_cursor:
  assumes "heap_ok h" "heap_ok h'" "prefix (table_rids h) (table_rids h')" "k < length (table_rids h)"
  shows "it_advance h' (cursor h k) = Inr (cursor h (Suc k))"
proof -
  have hl: "heap_linked h" "heap_linked h'" using assms(1,2) by (simp_all add: heap_ok_def)
  let ?r = "table_rids h ! k" and ?stop = "(last_page_id h, num_at (th_pages h) (last_page_id h))"
  have k': "k < length (table_rids h')" "table_rids h' ! k = ?r" using assms(3,4) by (auto simp: prefix_def nth_append)
  have r: "fst ?r \<in> set (page_ids h)" "snd ?r < num_at (th_pages h) (fst ?r)" using rid_page [OF hl(1)] assms(4) nth_mem by blast+
  have r': "fst ?r \<in> set (page_ids h')" "snd ?r < num_at (th_pages h') (fst ?r)" using rid_page [OF hl(2)] k' nth_mem by metis+
  obtain p where p: "th_pages h' (fst ?r) = Some p" using r'(1) page_ids_facts(3) [OF hl(2)] by auto
  have ne: "table_rids h \<noteq> []" using assms(4) by auto
  have "0 \<le> last_page_id h" using heap_ids_nonneg [OF hl(1) r(1)] by simp
  then have valid: "last_page_id h \<noteq> INVALID_PAGE_ID" by (auto simp: INVALID_PAGE_ID_def)
  have inside: "fst ?r < last_page_id h \<or> (fst ?r = last_page_id h \<and> snd ?r + 1 \<le> num_at (th_pages h) (last_page_id h))"
    using r heap_ids_nonneg(2) [OF hl(1) r(1)] by auto
  note last = heap_last_rid [OF assms(1) ne]
  have stop: "(fst ?r, snd ?r + 1) = ?stop \<longleftrightarrow> Suc k = length (table_rids h)"
  proof
    assume "(fst ?r, snd ?r + 1) = ?stop"
    then have "fst ?r = last_page_id h" "snd ?r = num_at (th_pages h) (last_page_id h) - 1" by auto
    then have "?r = last (table_rids h)" using last(1) by (simp add: prod_eq_iff)
    then have "table_rids h ! k = table_rids h ! (length (table_rids h) - 1)" using ne by (simp add: last_conv_nth)
    then show "Suc k = length (table_rids h)"
      using distinct_table_rids [OF hl(1)] assms(4) nth_eq_iff_index_eq [of "table_rids h" k "length (table_rids h) - 1"] by simp
  next
    assume "Suc k = length (table_rids h)"
    then have "?r = last (table_rids h)" using last_conv_nth [OF ne] by (metis diff_Suc_1)
    with last show "(fst ?r, snd ?r + 1) = ?stop" by simp
  qed
  have it: "it_rid (cursor h k) = ?r" "stop_at_rid (cursor h k) = ?stop" using assms(4) by (simp_all add: cursor_def)
  have "it_advance h' (cursor h k) = Inr ((cursor h k)\<lparr>it_rid :=
      (if (fst ?r, snd ?r + 1) = ?stop then (INVALID_PAGE_ID, 0) else next_rid (th_pages h') ?r)\<rparr>)"
    using p valid inside unfolding it_advance_def it by (simp add: get_page_def Let_def next_rid_def num_at_def)
  moreover have "table_rids h ! Suc k = next_rid (th_pages h') ?r" if "Suc k < length (table_rids h)"
    using heap_successor [OF assms(2), of k] that assms(3) k' by (auto simp: prefix_def nth_append)
  ultimately show ?thesis using stop assms(4) by (auto simp: cursor_def)
qed

lemma cursor_end: "heap_ok h \<Longrightarrow> it_IsEnd (cursor h k) \<longleftrightarrow> length (table_rids h) \<le> k"
proof -
  assume h: "heap_ok h"
  have hl: "heap_linked h" using h by (simp add: heap_ok_def)
  have "fst (table_rids h ! k) \<noteq> INVALID_PAGE_ID" if "k < length (table_rids h)"
    using heap_ids_nonneg(1) [OF hl rid_page(1) [OF hl nth_mem [OF that]]] by (auto simp: INVALID_PAGE_ID_def)
  then show ?thesis by (auto simp: it_IsEnd_def cursor_def not_less)
qed

lemma scan_from:
  assumes "heap_ok h" "\<forall>h' \<in> set hs. table_step\<^sup>*\<^sup>* h h'" "length (table_rids h) \<le> k + length hs"
  shows "\<exists>rows it. table_scan hs (cursor h k) = Inr (rows, it) \<and> it_IsEnd it \<and> map fst rows = drop k (table_rids h) \<and>
    list_all2 (\<lambda>row h'. map_of (table_rows h') (fst row) = Some (snd row)) rows (take (length rows) hs)"
  using assms(2,3)
proof (induction hs arbitrary: k)
  case Nil
  then show ?case using cursor_end [OF assms(1), of k] by simp
next
  case (Cons h' hs)
  show ?case
  proof (cases "k < length (table_rids h)")
    case True
    let ?r = "table_rids h ! k"
    have h': "heap_ok h'" "prefix (table_rids h) (table_rids h')" using table_steps_ok [of h h'] assms(1) Cons.prems(1) by auto
    have "?r \<in> set (table_rids h')" using h'(2) True by (auto simp: prefix_def)
    then obtain x where x: "map_of (table_rows h') ?r = Some x"
      by (metis map_of_eq_None_iff not_Some_eq set_map table_rids_def)
    have "it_GetTuple h' (cursor h k) = Inr x"
      using GetTuple_row [of h' ?r] h'(1) x True by (simp add: it_GetTuple_def cursor_def heap_ok_def)
    moreover have "it_rid (cursor h k) = ?r" using True by (simp add: cursor_def)
    moreover obtain rows it where "table_scan hs (cursor h (Suc k)) = Inr (rows, it)" "it_IsEnd it"
        "map fst rows = drop (Suc k) (table_rids h)"
        "list_all2 (\<lambda>row h'. map_of (table_rows h') (fst row) = Some (snd row)) rows (take (length rows) hs)"
      using Cons.IH [of "Suc k"] Cons.prems by auto
    ultimately show ?thesis
      using advance_cursor [OF assms(1) h' True] cursor_end [OF assms(1), of k] True x
      by (intro exI [of _ "(?r, x) # rows"] exI [of _ it]) (simp add: Cons_nth_drop_Suc)
  next
    case False
    then show ?thesis using cursor_end [OF assms(1), of k] by simp
  qed
qed


text \<open>A new heap is empty.\<close>

lemma TableHeap_ok: "0 \<le> n \<Longrightarrow> heap_ok (TableHeap n) \<and> table_rows (TableHeap n) = [] \<and> th_pages (TableHeap n) (last_page_id (TableHeap n)) = Some (Init zero_page)"
  using fresh_page
  by (simp add: heap_ok_def heap_linked_def TableHeap_def th_NewPage_def put_page_def page_ids_def table_rows_def page_rows_def)


end
