(* ===== verification/Expressions.thy ===== *)
theory Expressions
  imports Value_Factory
begin

section \<open>Expressions\<close>

text \<open>
  Models \<^verbatim>\<open>src/include/execution/expressions/\<close>: column, constant, arithmetic, comparison, logic and
  string expressions, evaluated on a tuple or on the two tuples of a join. A tuple is the list of
  its values. Array expressions are left out with the vectors.
\<close>

datatype ArithmeticType = Plus | Minus
datatype ComparisonType = Equal | NotEqual | LessThan | LessThanOrEqual | GreaterThan | GreaterThanOrEqual
datatype LogicType = And | Or
datatype StringExpressionType = Lower | Upper

datatype 'd expr =
    ColumnValue nat nat type_id
  | ConstantValue "'d val"
  | Arithmetic "'d expr" "'d expr" ArithmeticType
  | Comparison "'d expr" "'d expr" ComparisonType
  | Logic "'d expr" "'d expr" LogicType
  | StringExpr "'d expr" StringExpressionType

fun GetReturnType :: "'d expr \<Rightarrow> type_id" where
  "GetReturnType (ColumnValue t c ty) = ty"
| "GetReturnType (ConstantValue v) = GetTypeId v"
| "GetReturnType (Arithmetic l r op) = INTEGER"
| "GetReturnType (Comparison l r op) = BOOLEAN"
| "GetReturnType (Logic l r op) = BOOLEAN"
| "GetReturnType (StringExpr e op) = VARCHAR"

text \<open>The checks of the constructors.\<close>

definition ArithmeticExpression :: "'d expr \<Rightarrow> 'd expr \<Rightarrow> ArithmeticType \<Rightarrow> 'd expr result" where
  "ArithmeticExpression l r op =
     (if GetReturnType l \<noteq> INTEGER \<or> GetReturnType r \<noteq> INTEGER then Inl (Thrown ''only support integer for now'')
      else Inr (Arithmetic l r op))"

definition LogicExpression :: "'d expr \<Rightarrow> 'd expr \<Rightarrow> LogicType \<Rightarrow> 'd expr result" where
  "LogicExpression l r op =
     (if GetReturnType l \<noteq> BOOLEAN \<or> GetReturnType r \<noteq> BOOLEAN then Inl (Thrown ''expect boolean from either side'')
      else Inr (Logic l r op))"

definition StringExpression :: "'d expr \<Rightarrow> StringExpressionType \<Rightarrow> 'd expr result" where
  "StringExpression e op = (if GetReturnType e \<noteq> VARCHAR then Inl Terminated else Inr (StringExpr e op))"

text \<open>Arithmetic on integers: none for a null; it does not check for overflow.\<close>

definition ArithmeticExpression_PerformComputation ::
    "'d machine \<Rightarrow> ArithmeticType \<Rightarrow> 'd val \<Rightarrow> 'd val \<Rightarrow> int option result" where
  "ArithmeticExpression_PerformComputation M op lhs rhs =
     (if IsNull M lhs \<or> IsNull M rhs then Inr None
      else
        rbind (signed_arith M 32 (case op of Plus \<Rightarrow> GetAs 32 lhs + GetAs 32 rhs | Minus \<Rightarrow> GetAs 32 lhs - GetAs 32 rhs))
          (\<lambda>i. Inr (Some i)))"

definition arithmetic_value :: "'d machine \<Rightarrow> ArithmeticType \<Rightarrow> 'd val \<Rightarrow> 'd val \<Rightarrow> 'd val result" where
  "arithmetic_value M op lhs rhs =
     rbind (ArithmeticExpression_PerformComputation M op lhs rhs) (\<lambda>res.
       case res of None \<Rightarrow> GetNullValueByType M INTEGER | Some i \<Rightarrow> GetIntegerValue i)"

definition PerformComparison :: "'d machine \<Rightarrow> ComparisonType \<Rightarrow> 'd val \<Rightarrow> 'd val \<Rightarrow> CmpBool result" where
  "PerformComparison M op lhs rhs =
     (case op of
        Equal \<Rightarrow> Value_CompareEquals M lhs rhs
      | NotEqual \<Rightarrow> Value_CompareNotEquals M lhs rhs
      | LessThan \<Rightarrow> Value_CompareLessThan M lhs rhs
      | LessThanOrEqual \<Rightarrow> Value_CompareLessThanEquals M lhs rhs
      | GreaterThan \<Rightarrow> Value_CompareGreaterThan M lhs rhs
      | GreaterThanOrEqual \<Rightarrow> Value_CompareGreaterThanEquals M lhs rhs)"

definition GetBoolAsCmpBool :: "'d machine \<Rightarrow> 'd val \<Rightarrow> CmpBool" where
  "GetBoolAsCmpBool M v = (if IsNull M v then CmpNull else if GetAs 8 v \<noteq> 0 then CmpTrue else CmpFalse)"

definition LogicExpression_PerformComputation :: "'d machine \<Rightarrow> LogicType \<Rightarrow> 'd val \<Rightarrow> 'd val \<Rightarrow> CmpBool" where
  "LogicExpression_PerformComputation M op lhs rhs =
     (let l = GetBoolAsCmpBool M lhs; r = GetBoolAsCmpBool M rhs in
      case op of
        And \<Rightarrow> if l = CmpFalse \<or> r = CmpFalse then CmpFalse else if l = CmpTrue \<and> r = CmpTrue then CmpTrue else CmpNull
      | Or \<Rightarrow> if l = CmpFalse \<and> r = CmpFalse then CmpFalse else if l = CmpTrue \<or> r = CmpTrue then CmpTrue else CmpNull)"

text \<open>\<open>Compute\<close> is not implemented: it returns the empty string. A null string is a null pointer.\<close>

definition StringExpression_Compute :: "StringExpressionType \<Rightarrow> string \<Rightarrow> string" where
  "StringExpression_Compute op s = []"

definition string_value :: "StringExpressionType \<Rightarrow> 'd val \<Rightarrow> 'd val result" where
  "string_value op v =
     (case v of Varchar (Some bytes) \<Rightarrow> GetVarcharString (StringExpression_Compute op bytes) | _ \<Rightarrow> Inl Undefined)"

fun Evaluate :: "'d machine \<Rightarrow> 'd expr \<Rightarrow> 'd val list \<Rightarrow> 'd val result" where
  "Evaluate M (ColumnValue t c ty) tuple = (if c < length tuple then Inr (tuple ! c) else Inl Undefined)"
| "Evaluate M (ConstantValue v) tuple = Inr v"
| "Evaluate M (Arithmetic l r op) tuple =
     rbind (Evaluate M l tuple) (\<lambda>lhs. rbind (Evaluate M r tuple) (\<lambda>rhs. arithmetic_value M op lhs rhs))"
| "Evaluate M (Comparison l r op) tuple =
     rbind (Evaluate M l tuple) (\<lambda>lhs. rbind (Evaluate M r tuple) (\<lambda>rhs. rbind (PerformComparison M op lhs rhs) GetBooleanOfCmp))"
| "Evaluate M (Logic l r op) tuple =
     rbind (Evaluate M l tuple) (\<lambda>lhs. rbind (Evaluate M r tuple) (\<lambda>rhs.
       GetBooleanOfCmp (LogicExpression_PerformComputation M op lhs rhs)))"
| "Evaluate M (StringExpr e op) tuple = rbind (Evaluate M e tuple) (string_value op)"

fun EvaluateJoin :: "'d machine \<Rightarrow> 'd expr \<Rightarrow> 'd val list \<Rightarrow> 'd val list \<Rightarrow> 'd val result" where
  "EvaluateJoin M (ColumnValue t c ty) left right =
     (if t = 0 then (if c < length left then Inr (left ! c) else Inl Undefined)
      else if c < length right then Inr (right ! c) else Inl Undefined)"
| "EvaluateJoin M (ConstantValue v) left right = Inr v"
| "EvaluateJoin M (Arithmetic l r op) left right =
     rbind (EvaluateJoin M l left right) (\<lambda>lhs. rbind (EvaluateJoin M r left right) (\<lambda>rhs. arithmetic_value M op lhs rhs))"
| "EvaluateJoin M (Comparison l r op) left right =
     rbind (EvaluateJoin M l left right) (\<lambda>lhs. rbind (EvaluateJoin M r left right) (\<lambda>rhs.
       rbind (PerformComparison M op lhs rhs) GetBooleanOfCmp))"
| "EvaluateJoin M (Logic l r op) left right =
     rbind (EvaluateJoin M l left right) (\<lambda>lhs. rbind (EvaluateJoin M r left right) (\<lambda>rhs.
       GetBooleanOfCmp (LogicExpression_PerformComputation M op lhs rhs)))"
| "EvaluateJoin M (StringExpr e op) left right = rbind (EvaluateJoin M e left right) (string_value op)"

text \<open>A predicate holds when its value is neither null nor false.\<close>

definition holds :: "'d machine \<Rightarrow> 'd val \<Rightarrow> bool" where
  "holds M v \<longleftrightarrow> \<not> IsNull M v \<and> GetAs 8 v \<noteq> 0"

end
