(* ===== verification/Hash_Util.thy ===== *)
theory Hash_Util
  imports Value_Ops "HOL-Library.Word"
begin

unbundle bit_operations_syntax

section \<open>Hashing\<close>

text \<open>
  \<^verbatim>\<open>src/include/common/util/hash_util.h\<close>: the hash of a sequence of bytes, the combination of two
  hashes and the hash of a value, on 64-bit words. The integers of every width are widened to
  \<open>int64_t\<close> first, so an integer has the same hash at each width.
\<close>

type_synonym hash_t = "64 word"

text \<open>A step of the loop of \<open>HashBytes\<close>; the byte is read as an \<open>int8_t\<close>.\<close>

definition hash_step :: "nat \<Rightarrow> hash_t \<Rightarrow> hash_t" where
  "hash_step b h = ((push_bit 5 h XOR drop_bit 27 h) XOR word_of_int (cast 8 (int b)))"

definition HashBytes :: "nat list \<Rightarrow> hash_t" where
  "HashBytes bytes = fold hash_step bytes (of_nat (length bytes))"

definition CombineHashes :: "hash_t \<Rightarrow> hash_t \<Rightarrow> hash_t" where
  "CombineHashes l r = HashBytes (le_bytes 8 (uint l) @ le_bytes 8 (uint r))"

definition PRIME_FACTOR :: hash_t where
  "PRIME_FACTOR = 10000019"

definition SumHashes :: "hash_t \<Rightarrow> hash_t \<Rightarrow> hash_t" where
  "SumHashes l r = (l mod PRIME_FACTOR + r mod PRIME_FACTOR) mod PRIME_FACTOR"

text \<open>\<open>HashValue\<close>; the hash of the null string would read through a null pointer.\<close>

definition HashValue :: "'d machine \<Rightarrow> 'd val \<Rightarrow> hash_t result" where
  "HashValue M v =
     (case v of
        Tinyint i \<Rightarrow> Inr (HashBytes (le_bytes 8 (GetAs 8 v)))
      | Smallint i \<Rightarrow> Inr (HashBytes (le_bytes 8 (GetAs 16 v)))
      | Integer i \<Rightarrow> Inr (HashBytes (le_bytes 8 (GetAs 32 v)))
      | Bigint i \<Rightarrow> Inr (HashBytes (le_bytes 8 (GetAs 64 v)))
      | Boolean i \<Rightarrow> Inr (HashBytes (le_bytes 1 (of_bool (GetAs 8 v \<noteq> 0))))
      | Decimal d \<Rightarrow> Inr (HashBytes (d_bytes M d))
      | Varchar (Some bytes) \<Rightarrow> Inr (HashBytes (map of_char bytes))
      | Varchar None \<Rightarrow> Inl Undefined
      | Timestamp n \<Rightarrow> Inr (HashBytes (le_bytes 8 (int (GetAsUint64 v))))
      | Invalid \<Rightarrow> Inl (Thrown ''Unsupported type.''))"

text \<open>The hash of a key of several values: \<open>std::hash\<close> of \<open>HashJoinKey\<close> and of \<open>AggregateKey\<close>, which
  skip the nulls.\<close>

fun hash_key :: "'d machine \<Rightarrow> hash_t \<Rightarrow> 'd val list \<Rightarrow> hash_t result" where
  "hash_key M h [] = Inr h"
| "hash_key M h (v # vs) =
     (if IsNull M v then hash_key M h vs else rbind (HashValue M v) (\<lambda>x. hash_key M (CombineHashes h x) vs))"

subsection \<open>Equal integers have equal hashes\<close>

definition int_value :: "'d val \<Rightarrow> int option" where
  "int_value v = (case v of Tinyint i \<Rightarrow> Some (cast 8 i) | Smallint i \<Rightarrow> Some (cast 16 i) |
     Integer i \<Rightarrow> Some (cast 32 i) | Bigint i \<Rightarrow> Some (cast 64 i) | _ \<Rightarrow> None)"

lemma hash_of_int: "int_value v = Some i \<Longrightarrow> HashValue M v = Inr (HashBytes (le_bytes 8 i))"
  by (auto simp: int_value_def HashValue_def split: val.splits)

lemma hash_equal_ints: "int_value v = int_value w \<Longrightarrow> int_value v \<noteq> None \<Longrightarrow> HashValue M v = HashValue M w"
  by (metis hash_of_int option.exhaust)

end
