(* ===== verification/Sketch.thy ===== *)
theory Sketch
  imports Hash_Util "HOL-Library.Multiset"
begin

section \<open>The count-min sketch\<close>

text \<open>
  \<^verbatim>\<open>src/primer/count_min_sketch.cpp\<close> and \<^verbatim>\<open>src/include/primer/count_min_sketch.h\<close>: a matrix of
  \<open>uint32_t\<close> counters, one row per seeded hash function, which bounds from above how often an item
  was inserted. \<open>std::hash\<close> of the key type is a parameter \<open>hash\<close> of the model, and so is
  \<open>std::sort\<close>, of which \<open>TopK\<close> relies on what the standard promises of it.

  The lemmas relate a sketch to the multiset of items inserted since it was cleared: every counter
  is the number of those items in its bucket, modulo \<open>2 ^ 32\<close>.
\<close>

record sketch =
  sk_width_w :: "32 word"
  sk_depth_w :: "32 word"
  sk_matrix :: "32 word list list"

definition sk_width :: "sketch \<Rightarrow> nat" where
  "sk_width s = unat (sk_width_w s)"

definition sk_depth :: "sketch \<Rightarrow> nat" where
  "sk_depth s = unat (sk_depth_w s)"

text \<open>\<open>hash_functions_[i]\<close>: the lambda reads \<open>width_\<close> of the sketch that made it.\<close>

definition SEED_BASE :: hash_t where
  "SEED_BASE = 15445"

definition HashFunction :: "('k \<Rightarrow> hash_t) \<Rightarrow> 32 word \<Rightarrow> nat \<Rightarrow> 'k \<Rightarrow> nat" where
  "HashFunction hash w seed item = (let h1 = hash item; h2 = CombineHashes (of_nat seed) SEED_BASE in
    unat (CombineHashes h1 h2) mod unat w)"

definition CountMinSketch :: "32 word \<Rightarrow> 32 word \<Rightarrow> sketch result" where
  "CountMinSketch w d = (if w = 0 \<or> d = 0 then Inl (Thrown ''Invalid width.'')
    else Inr \<lparr>sk_width_w = w, sk_depth_w = d, sk_matrix = replicate (unat d) (replicate (unat w) 0)\<rparr>)"

text \<open>One step of the loop of \<open>Insert\<close>: \<open>matrix_[i][hash_functions_[i](item)] += 1\<close>.\<close>

definition bump :: "('k \<Rightarrow> hash_t) \<Rightarrow> 'k \<Rightarrow> nat \<Rightarrow> sketch \<Rightarrow> sketch" where
  "bump hash item i s = (let j = HashFunction hash (sk_width_w s) i item; row = sk_matrix s ! i in
    s\<lparr>sk_matrix := (sk_matrix s)[i := row[j := row ! j + 1]]\<rparr>)"

definition Insert :: "('k \<Rightarrow> hash_t) \<Rightarrow> sketch \<Rightarrow> 'k \<Rightarrow> sketch" where
  "Insert hash s item = fold (bump hash item) [0..<sk_depth s] s"

definition Merge :: "sketch \<Rightarrow> sketch \<Rightarrow> sketch result" where
  "Merge s other =
    (if sk_width_w s \<noteq> sk_width_w other \<or> sk_depth_w s \<noteq> sk_depth_w other
     then Inl (Thrown ''Incompatible CountMinSketch dimensions for merge.'')
     else Inr (s\<lparr>sk_matrix := map (\<lambda>i. map (\<lambda>j. sk_matrix s ! i ! j + sk_matrix other ! i ! j) [0..<sk_width s])
       [0..<sk_depth s]\<rparr>))"

definition Count :: "('k \<Rightarrow> hash_t) \<Rightarrow> sketch \<Rightarrow> 'k \<Rightarrow> 32 word" where
  "Count hash s item = fold (\<lambda>i result. min result (sk_matrix s ! i ! HashFunction hash (sk_width_w s) i item))
    [0..<sk_depth s] (-1)"

definition Clear :: "sketch \<Rightarrow> sketch" where
  "Clear s = s\<lparr>sk_matrix := map (\<lambda>row. replicate (length row) 0) (sk_matrix s)\<rparr>"

text \<open>\<open>TopK\<close>; \<open>std_sort\<close> is \<open>std::sort\<close> with the comparison \<open>a.second > b.second\<close>.\<close>

definition TopK :: "('k \<Rightarrow> hash_t) \<Rightarrow> (('k \<times> 32 word) list \<Rightarrow> ('k \<times> 32 word) list) \<Rightarrow> sketch \<Rightarrow>
    16 word \<Rightarrow> 'k list \<Rightarrow> ('k \<times> 32 word) list" where
  "TopK hash std_sort s k candidates = (let r = std_sort (map (\<lambda>item. (item, Count hash s item)) candidates) in
    if unat k < length r then take (unat k) r else r)"

subsection \<open>A sketch counts the items of a multiset\<close>

definition dims_ok :: "sketch \<Rightarrow> bool" where
  "dims_ok s \<longleftrightarrow> sk_width_w s \<noteq> 0 \<and> sk_depth_w s \<noteq> 0 \<and> length (sk_matrix s) = sk_depth s \<and>
    (\<forall>row \<in> set (sk_matrix s). length row = sk_width s)"

definition bucket :: "('k \<Rightarrow> hash_t) \<Rightarrow> 32 word \<Rightarrow> 'k multiset \<Rightarrow> nat \<Rightarrow> nat \<Rightarrow> nat" where
  "bucket hash w M i j = size (filter_mset (\<lambda>x. HashFunction hash w i x = j) M)"

definition sketches :: "('k \<Rightarrow> hash_t) \<Rightarrow> sketch \<Rightarrow> 'k multiset \<Rightarrow> bool" where
  "sketches hash s M \<longleftrightarrow> dims_ok s \<and>
    (\<forall>i < sk_depth s. \<forall>j < sk_width s. sk_matrix s ! i ! j = of_nat (bucket hash (sk_width_w s) M i j))"

lemma row_length: "dims_ok s \<Longrightarrow> i < sk_depth s \<Longrightarrow> length (sk_matrix s ! i) = sk_width s"
  by (simp add: dims_ok_def)

lemma dims_pos: "dims_ok s \<Longrightarrow> 0 < sk_width s" "dims_ok s \<Longrightarrow> 0 < sk_depth s"
  by (simp_all add: dims_ok_def sk_width_def sk_depth_def unat_gt_0)

lemma HashFunction_less: "dims_ok s \<Longrightarrow> HashFunction hash (sk_width_w s) i x < sk_width s"
  using dims_pos(1) [of s] by (simp add: HashFunction_def Let_def sk_width_def)

lemma bump_fields [simp]: "sk_width_w (bump hash x i s) = sk_width_w s" "sk_depth_w (bump hash x i s) = sk_depth_w s"
  by (simp_all add: bump_def Let_def)

lemma dims_okI:
  assumes "dims_ok s" "sk_width_w t = sk_width_w s" "sk_depth_w t = sk_depth_w s" "length (sk_matrix t) = length (sk_matrix s)"
    "\<And>i. i < length (sk_matrix s) \<Longrightarrow> length (sk_matrix t ! i) = length (sk_matrix s ! i)"
  shows "dims_ok t"
  using assms by (simp add: dims_ok_def all_set_conv_all_nth sk_width_def sk_depth_def)

lemma dims_bump: "dims_ok s \<Longrightarrow> dims_ok (bump hash x n s)"
  by (rule dims_okI [of s]) (auto simp: bump_def Let_def,
    metis length_list_update nth_list_update_eq nth_list_update_neq)

lemma bump_at:
  assumes "dims_ok s" "n < sk_depth s" "i < sk_depth s" "j < sk_width s"
  shows "sk_matrix (bump hash x n s) ! i ! j =
    sk_matrix s ! i ! j + of_bool (i = n \<and> j = HashFunction hash (sk_width_w s) n x)"
  using assms row_length [OF assms(1,2)] HashFunction_less [OF assms(1), of hash n x]
  by (simp add: bump_def Let_def nth_list_update dims_ok_def)

text \<open>What the loop of \<open>Insert\<close> has done after the rows below \<open>n\<close>.\<close>

lemma bump_rows:
  assumes "dims_ok s" "n \<le> sk_depth s"
  shows "sk_width_w (fold (bump hash x) [0..<n] s) = sk_width_w s \<and> sk_depth_w (fold (bump hash x) [0..<n] s) = sk_depth_w s \<and>
    dims_ok (fold (bump hash x) [0..<n] s) \<and>
    (\<forall>i < sk_depth s. \<forall>j < sk_width s. sk_matrix (fold (bump hash x) [0..<n] s) ! i ! j =
      sk_matrix s ! i ! j + of_bool (i < n \<and> j = HashFunction hash (sk_width_w s) i x))"
  using assms(2)
proof (induction n)
  case 0
  then show ?case using assms(1) by simp
next
  case (Suc n)
  define t where "t = fold (bump hash x) [0..<n] s"
  have IH: "sk_width_w t = sk_width_w s" "sk_depth_w t = sk_depth_w s" "dims_ok t"
    "\<And>i j. i < sk_depth s \<Longrightarrow> j < sk_width s \<Longrightarrow> sk_matrix t ! i ! j = sk_matrix s ! i ! j +
      of_bool (i < n \<and> j = HashFunction hash (sk_width_w s) i x)"
    using Suc by (simp_all add: t_def)
  have sz: "sk_depth t = sk_depth s" "sk_width t = sk_width s" by (simp_all add: sk_depth_def sk_width_def IH(1,2))
  have "sk_matrix (bump hash x n t) ! i ! j = sk_matrix s ! i ! j +
      of_bool (i < Suc n \<and> j = HashFunction hash (sk_width_w s) i x)" if "i < sk_depth s" "j < sk_width s" for i j
    using bump_at [OF IH(3), of n i j hash x] Suc.prems that IH(4) [OF that]
    by (auto simp: sz IH(1) less_Suc_eq)
  then show ?case using IH(1,2) dims_bump [OF IH(3), of hash x n] by (simp add: t_def)
qed

lemma bucket_add: "bucket hash w (add_mset x M) i j = bucket hash w M i j + of_bool (j = HashFunction hash w i x)"
  by (auto simp: bucket_def)

lemma bucket_union: "bucket hash w (M + N) i j = bucket hash w M i j + bucket hash w N i j"
  by (simp add: bucket_def)

lemma bucket_ge_count: "count M x \<le> bucket hash w M i (HashFunction hash w i x)"
  by (induction M) (auto simp: bucket_def)

lemma sketches_new: "CountMinSketch w d = Inr s \<Longrightarrow> sketches hash s {#}"
  by (auto simp: CountMinSketch_def sketches_def dims_ok_def sk_depth_def sk_width_def bucket_def split: if_splits)

lemma sketches_Insert:
  assumes "sketches hash s M"
  shows "sketches hash (Insert hash s x) (add_mset x M)"
proof -
  have d: "dims_ok s" using assms by (simp add: sketches_def)
  have r: "sk_width_w (Insert hash s x) = sk_width_w s" "sk_depth_w (Insert hash s x) = sk_depth_w s" "dims_ok (Insert hash s x)"
    "\<And>i j. i < sk_depth s \<Longrightarrow> j < sk_width s \<Longrightarrow> sk_matrix (Insert hash s x) ! i ! j =
      sk_matrix s ! i ! j + of_bool (j = HashFunction hash (sk_width_w s) i x)"
    using bump_rows [OF d order_refl, of hash x] by (simp_all add: Insert_def)
  show ?thesis
    using assms r(3) by (simp add: sketches_def r(1,2,4) sk_depth_def sk_width_def bucket_add)
qed

lemma sketches_Merge:
  assumes "sketches hash s M" "sketches hash t N" "Merge s t = Inr r"
  shows "sketches hash r (M + N)"
proof -
  have e: "sk_width_w t = sk_width_w s" "sk_depth_w t = sk_depth_w s" using assms(3) by (auto simp: Merge_def split: if_splits)
  have r: "sk_width_w r = sk_width_w s" "sk_depth_w r = sk_depth_w s" "sk_depth r = sk_depth s" "sk_width r = sk_width s"
    and m: "sk_matrix r = map (\<lambda>i. map (\<lambda>j. sk_matrix s ! i ! j + sk_matrix t ! i ! j) [0..<sk_width s]) [0..<sk_depth s]"
    using assms(3) by (auto simp: Merge_def sk_depth_def sk_width_def split: if_splits)
  show ?thesis
    using assms(1,2) by (auto simp: sketches_def dims_ok_def r m bucket_union e sk_depth_def [of t] sk_width_def [of t]
      sk_depth_def [of s, symmetric] sk_width_def [of s, symmetric])
qed

lemma sketches_Clear: "sketches hash s M \<Longrightarrow> sketches hash (Clear s) {#}"
  by (auto simp: sketches_def dims_ok_def Clear_def sk_depth_def sk_width_def bucket_def)

lemma Merge_ok: "sk_width_w s = sk_width_w t \<Longrightarrow> sk_depth_w s = sk_depth_w t \<Longrightarrow> \<exists>r. Merge s t = Inr r"
  by (simp add: Merge_def)

subsection \<open>What the estimate promises\<close>

lemma fold_min_le: "fold (\<lambda>i r. min r (f i)) xs a \<le> (a :: 'a::linorder)"
proof (induction xs arbitrary: a)
  case (Cons x xs)
  show ?case using Cons [of "min a (f x)"] by simp
qed simp

lemma fold_min_mem: "i \<in> set xs \<Longrightarrow> fold (\<lambda>i r. min r (f i)) xs a \<le> (f i :: 'a::linorder)"
  by (induction xs arbitrary: a) (auto intro: order_trans [OF fold_min_le])

lemma fold_min_ge: "c \<le> a \<Longrightarrow> (\<And>i. i \<in> set xs \<Longrightarrow> c \<le> f i) \<Longrightarrow> (c :: 'a::linorder) \<le> fold (\<lambda>i r. min r (f i)) xs a"
  by (induction xs arbitrary: a) auto

lemma fold_min_in: "fold (\<lambda>i r. min r (f i)) xs (a :: 'a::linorder) = a \<or> (\<exists>i \<in> set xs. fold (\<lambda>i r. min r (f i)) xs a = f i)"
proof (induction xs arbitrary: a)
  case (Cons x xs)
  show ?case using Cons [of "min a (f x)"] by (auto simp: min_def split: if_splits)
qed simp

text \<open>While fewer than \<open>2 ^ 32\<close> items went in, no counter has wrapped.\<close>

lemma counter_exact:
  assumes "sketches hash s M" "size M < 2 ^ 32" "i < sk_depth s" "j < sk_width s"
  shows "unat (sk_matrix s ! i ! j) = bucket hash (sk_width_w s) M i j"
proof -
  have "bucket hash (sk_width_w s) M i j \<le> size M"
    unfolding bucket_def by (rule size_filter_mset_lesseq)
  with assms(2) have "bucket hash (sk_width_w s) M i j < 2 ^ 32" by linarith
  then show ?thesis using assms(1,3,4) by (simp add: sketches_def unat_of_nat take_bit_eq_mod)
qed

lemma Count_least:
  assumes "sketches hash s M" "size M < 2 ^ 32"
  shows "unat (Count hash s x) \<ge> count M x \<and>
    (\<forall>i < sk_depth s. unat (Count hash s x) \<le> bucket hash (sk_width_w s) M i (HashFunction hash (sk_width_w s) i x)) \<and>
    (\<exists>i < sk_depth s. unat (Count hash s x) = bucket hash (sk_width_w s) M i (HashFunction hash (sk_width_w s) i x))"
proof -
  let ?f = "\<lambda>i. sk_matrix s ! i ! HashFunction hash (sk_width_w s) i x"
  have d: "dims_ok s" using assms(1) by (simp add: sketches_def)
  have f: "unat (?f i) = bucket hash (sk_width_w s) M i (HashFunction hash (sk_width_w s) i x)" if "i < sk_depth s" for i
    by (rule counter_exact [OF assms that HashFunction_less [OF d]])
  have le: "unat (Count hash s x) \<le> unat (?f i)" if "i < sk_depth s" for i
    unfolding Count_def using fold_min_mem [of i "[0..<sk_depth s]" ?f "-1"] that by (simp add: word_le_nat_alt)
  have "\<exists>i < sk_depth s. unat (Count hash s x) = unat (?f i)"
  proof (cases "Count hash s x = -1")
    case True
    have "?f 0 = -1" using le [of 0] dims_pos(2) [OF d] True
      by (metis word_le_nat_alt word_order.extremum_unique)
    then show ?thesis using True dims_pos(2) [OF d] by auto
  next
    case False
    then show ?thesis unfolding Count_def using fold_min_in [of ?f "[0..<sk_depth s]" "-1"] by auto
  qed
  then obtain i where i: "i < sk_depth s" "unat (Count hash s x) = unat (?f i)" by blast
  moreover have "count M x \<le> unat (?f i)" using f [OF i(1)] bucket_ge_count by metis
  ultimately show ?thesis using f le by auto
qed

subsection \<open>Any run of the operations\<close>

text \<open>\<open>sketch_history hash s M\<close>: the operations of the class have led to \<open>s\<close>, and \<open>M\<close> holds what was
  inserted since the last \<open>Clear\<close>, merged sketches included.\<close>

inductive sketch_history :: "('k \<Rightarrow> hash_t) \<Rightarrow> sketch \<Rightarrow> 'k multiset \<Rightarrow> bool" for hash where
  new: "CountMinSketch w d = Inr s \<Longrightarrow> sketch_history hash s {#}"
| insert: "sketch_history hash s M \<Longrightarrow> sketch_history hash (Insert hash s x) (add_mset x M)"
| merge: "sketch_history hash s M \<Longrightarrow> sketch_history hash t N \<Longrightarrow> Merge s t = Inr r \<Longrightarrow>
    sketch_history hash r (M + N)"
| clear: "sketch_history hash s M \<Longrightarrow> sketch_history hash (Clear s) {#}"

lemma history_sketches: "sketch_history hash s M \<Longrightarrow> sketches hash s M"
  by (induction rule: sketch_history.induct)
    (auto intro: sketches_new sketches_Insert sketches_Merge sketches_Clear)

text \<open>C25: The count-min sketch never underestimates: after any run of insertions, merges and clears that
  put fewer than \<open>2 ^ 32\<close> items into it, the estimate of an item is at least how often it is in, and it
  is the least, over the rows, of the number of items that share the item's bucket; without a
  collision in some row it is exact.\<close>

theorem sketch_estimate:
  assumes "sketch_history hash s M" "size M < 2 ^ 32"
  shows "count M x \<le> unat (Count hash s x) \<and>
    (\<forall>i < sk_depth s. unat (Count hash s x) \<le>
      size (filter_mset (\<lambda>y. HashFunction hash (sk_width_w s) i y = HashFunction hash (sk_width_w s) i x) M)) \<and>
    ((\<exists>i < sk_depth s. \<forall>y \<in># M. HashFunction hash (sk_width_w s) i y = HashFunction hash (sk_width_w s) i x \<longrightarrow> y = x) \<longrightarrow>
      unat (Count hash s x) = count M x)"
proof -
  note c = Count_least [OF history_sketches [OF assms(1)] assms(2), of x, unfolded bucket_def]
  have "unat (Count hash s x) \<le> count M x"
    if "i < sk_depth s" "\<forall>y \<in># M. HashFunction hash (sk_width_w s) i y = HashFunction hash (sk_width_w s) i x \<longrightarrow> y = x" for i
  proof -
    have "filter_mset (\<lambda>y. HashFunction hash (sk_width_w s) i y = HashFunction hash (sk_width_w s) i x) M =
        filter_mset (\<lambda>y. y = x) M"
      using that(2) by (intro filter_mset_cong) auto
    then show ?thesis using c that(1) by (metis count_replicate_mset filter_eq_replicate_mset size_replicate_mset)
  qed
  with c show ?thesis by (meson le_antisym)
qed

definition demo_sketch :: sketch where
  "demo_sketch = \<lparr>sk_width_w = 5, sk_depth_w = 2, sk_matrix = replicate 2 (replicate 5 0)\<rparr>"

theorem sketch_estimate_witness:
  "2 \<le> unat (Count of_nat (Insert of_nat (Insert of_nat (Insert of_nat demo_sketch 6) 1) 6) (6 :: nat))"
proof -
  have "CountMinSketch 5 2 = Inr demo_sketch" by (simp add: CountMinSketch_def demo_sketch_def)
  then have h: "sketch_history of_nat (Insert of_nat (Insert of_nat (Insert of_nat demo_sketch 6) 1) 6) {#6 :: nat, 1, 6#}"
    by (metis sketch_history.new sketch_history.insert)
  from sketch_estimate [OF h, of 6] show ?thesis by simp
qed

subsection \<open>The top items\<close>

text \<open>With what the standard promises of \<open>std::sort\<close> for a strict weak order, \<open>TopK\<close> returns as many
  candidates as asked for, with their estimates in descending order, and leaves out none with a
  higher estimate.\<close>

lemma TopK_best:
  assumes sorter: "\<And>xs. mset (std_sort xs) = mset xs \<and> sorted_wrt (\<lambda>a b. \<not> snd b > snd a) (std_sort xs)"
  shows "length (TopK hash std_sort s k xs) = min (unat k) (length xs) \<and>
    sorted_wrt (\<lambda>a b. snd a \<ge> snd b) (TopK hash std_sort s k xs) \<and>
    (\<exists>rest. mset (TopK hash std_sort s k xs @ rest) = mset (map (\<lambda>x. (x, Count hash s x)) xs) \<and>
      (\<forall>a \<in> set (TopK hash std_sort s k xs). \<forall>b \<in> set rest. snd b \<le> snd a))"
proof -
  define r where "r = std_sort (map (\<lambda>x. (x, Count hash s x)) xs)"
  have r: "mset r = mset (map (\<lambda>x. (x, Count hash s x)) xs)" "sorted_wrt (\<lambda>a b. snd a \<ge> snd b) r"
    using sorter [of "map (\<lambda>x. (x, Count hash s x)) xs"] by (simp_all add: r_def not_less)
  have len: "length r = length xs" using arg_cong [OF r(1), of size] by simp
  have t: "TopK hash std_sort s k xs = take (unat k) r" by (simp add: TopK_def Let_def r_def [symmetric])
  have "sorted_wrt (\<lambda>a b. snd a \<ge> snd b) (take (unat k) r @ drop (unat k) r)" using r(2) by simp
  then show ?thesis
    unfolding t sorted_wrt_append using r(1) len by (intro conjI exI [of _ "drop (unat k) r"]) auto
qed

end
