(* ===== verification/Catalog.thy ===== *)
theory Catalog
  imports Table_Scan BPTree_Index Value_Props
begin

section \<open>The catalog\<close>

text \<open>
  Models \<^verbatim>\<open>src/include/catalog/catalog.h\<close>: the tables and indexes of the database by name and by
  object id. A table owns its heap (\<open>Table_Heap\<close>). An index is an object of the abstract class
  \<open>Index\<close>: the type \<open>'i\<close> of its states, and how it is made and how it inserts an entry, are
  parameters of the operations; the properties instantiate them with the B+ tree. The object ids are
  counters that start at 0 and are taken to stay below \<open>2 ^ 32\<close>.

  The inner map of \<open>index_names_\<close> is an association list; the order in which C++ iterates over it is
  the parameter \<open>order\<close>, any rearrangement of a list.
\<close>

datatype index_type = BPlusTreeIndex | HashTableIndex | STLOrderedIndex | STLUnorderedIndex

record table_info =
  ti_schema :: schema
  ti_name :: string
  ti_table :: table_heap
  ti_oid :: nat

text \<open>\<open>ii_key_attrs\<close> is \<open>index_->GetKeyAttrs()\<close>, of the metadata the index owns.\<close>

record 'i index_info =
  ii_key_schema :: schema
  ii_name :: string
  ii_index :: 'i
  ii_oid :: nat
  ii_table_name :: string
  ii_key_size :: nat
  ii_is_primary_key :: bool
  ii_index_type :: index_type
  ii_key_attrs :: "nat list"

record 'i catalog =
  tables :: "nat \<rightharpoonup> table_info"
  table_names :: "string \<rightharpoonup> nat"
  next_table_oid :: nat
  indexes :: "nat \<rightharpoonup> 'i index_info"
  index_names :: "string \<rightharpoonup> (string \<times> nat) list"
  next_index_oid :: nat

definition new_catalog :: "'i catalog" where
  "new_catalog = \<lparr>tables = Map.empty, table_names = Map.empty, next_table_oid = 0, indexes = Map.empty,
    index_names = Map.empty, next_index_oid = 0\<rparr>"

subsection \<open>Tables\<close>

text \<open>\<open>first_page\<close> is the page id the buffer pool hands out to the new heap.\<close>

definition CreateTable :: "page_id \<Rightarrow> string \<Rightarrow> schema \<Rightarrow> bool \<Rightarrow> 'i catalog \<Rightarrow>
    (table_info option \<times> 'i catalog) result" where
  "CreateTable first_page table_name s create_table_heap c =
     (if table_names c table_name \<noteq> None then Inr (None, c)
      else
        rbind (if create_table_heap then Inr (TableHeap first_page) else CreateEmptyHeap create_table_heap) (\<lambda>table.
        let table_oid = next_table_oid c;
            meta = \<lparr>ti_schema = s, ti_name = table_name, ti_table = table, ti_oid = table_oid\<rparr>
        in Inr (Some meta, c\<lparr>next_table_oid := table_oid + 1, tables := (tables c)(table_oid \<mapsto> meta),
             table_names := (table_names c)(table_name \<mapsto> table_oid),
             index_names := (if index_names c table_name = None then (index_names c)(table_name \<mapsto> []) else index_names c)\<rparr>)))"

definition GetTable :: "string \<Rightarrow> 'i catalog \<Rightarrow> table_info option result" where
  "GetTable table_name c =
     (case table_names c table_name of None \<Rightarrow> Inr None
      | Some oid \<Rightarrow> (case tables c oid of None \<Rightarrow> Inl Assertion | Some meta \<Rightarrow> Inr (Some meta)))"

definition GetTable_oid :: "nat \<Rightarrow> 'i catalog \<Rightarrow> table_info option" where
  "GetTable_oid table_oid c = tables c table_oid"

subsection \<open>Indexes\<close>

text \<open>The loop over the heap that fills a new index: every record is entered under its key, deleted
  ones too, and what \<open>InsertEntry\<close> answers is ignored.\<close>

partial_function (option) populate ::
    "('i \<Rightarrow> nat list \<Rightarrow> rid \<Rightarrow> (bool \<times> 'i) result) \<Rightarrow> (nat list \<Rightarrow> nat list result) \<Rightarrow> table_heap \<Rightarrow> table_iterator \<Rightarrow> 'i \<Rightarrow>
     'i result option" where
  "populate insert_entry key_of_tuple h it index =
     (if it_IsEnd it then Some (Inr index)
      else
        (case rbind (it_GetTuple h it) (\<lambda>(meta, tuple).
                rbind (key_of_tuple tuple) (\<lambda>key. rbind (insert_entry index key (it_rid it)) (\<lambda>(inserted, index').
                  rbind (it_advance h it) (\<lambda>it'. Inr (it', index'))))) of
           Inl e \<Rightarrow> Some (Inl e)
         | Inr (it', index') \<Rightarrow> populate insert_entry key_of_tuple h it' index'))"

definition CreateIndex ::
    "'d machine \<Rightarrow> (index_type \<Rightarrow> 'i result) \<Rightarrow> ('i \<Rightarrow> nat list \<Rightarrow> rid \<Rightarrow> (bool \<times> 'i) result) \<Rightarrow> string \<Rightarrow> string \<Rightarrow> schema \<Rightarrow> schema \<Rightarrow>
     nat list \<Rightarrow> nat \<Rightarrow> bool \<Rightarrow> index_type \<Rightarrow> 'i catalog \<Rightarrow> ('i index_info option \<times> 'i catalog) result option" where
  "CreateIndex M mk_index insert_entry index_name table_name s key_schema key_attrs keysize is_primary_key type c =
     (if table_names c table_name = None then Some (Inr (None, c))
      else
        (case index_names c table_name of
           None \<Rightarrow> Some (Inl Assertion)
         | Some table_indexes \<Rightarrow>
             if map_of table_indexes index_name \<noteq> None then Some (Inr (None, c))
             else
               (case rbind (mk_index type) (\<lambda>index. rbind (GetTable table_name c) (\<lambda>table_meta.
                       case table_meta of None \<Rightarrow> Inl Undefined
                       | Some t \<Rightarrow> rbind (MakeIterator (ti_table t)) (\<lambda>it. Inr (index, t, it)))) of
                  Inl e \<Rightarrow> Some (Inl e)
                | Inr (index, t, it) \<Rightarrow>
                    map_option (\<lambda>r. rbind r (\<lambda>index'.
                      let index_oid = next_index_oid c;
                          info = \<lparr>ii_key_schema = key_schema, ii_name = index_name, ii_index = index', ii_oid = index_oid,
                            ii_table_name = table_name, ii_key_size = keysize, ii_is_primary_key = is_primary_key,
                            ii_index_type = type, ii_key_attrs = key_attrs\<rparr>
                      in Inr (Some info, c\<lparr>next_index_oid := index_oid + 1, indexes := (indexes c)(index_oid \<mapsto> info),
                           index_names := (index_names c)(table_name \<mapsto> table_indexes @ [(index_name, index_oid)])\<rparr>)))
                      (populate insert_entry (KeyFromTuple M s key_schema key_attrs) (ti_table t) it index))))"

definition GetIndex :: "string \<Rightarrow> string \<Rightarrow> 'i catalog \<Rightarrow> 'i index_info option result" where
  "GetIndex index_name table_name c =
     (case index_names c table_name of
        None \<Rightarrow> if table_names c table_name \<noteq> None then Inl Assertion else Inr None
      | Some table_indexes \<Rightarrow>
          (case map_of table_indexes index_name of None \<Rightarrow> Inr None
           | Some oid \<Rightarrow> (case indexes c oid of None \<Rightarrow> Inl Assertion | Some i \<Rightarrow> Inr (Some i))))"

definition GetIndex_table :: "string \<Rightarrow> nat \<Rightarrow> 'i catalog \<Rightarrow> 'i index_info option result" where
  "GetIndex_table index_name table_oid c =
     (case tables c table_oid of None \<Rightarrow> Inr None | Some meta \<Rightarrow> GetIndex index_name (ti_name meta) c)"

definition GetIndex_oid :: "nat \<Rightarrow> 'i catalog \<Rightarrow> 'i index_info option" where
  "GetIndex_oid index_oid c = indexes c index_oid"

definition GetTableIndexes :: "((string \<times> nat) list \<Rightarrow> (string \<times> nat) list) \<Rightarrow> string \<Rightarrow> 'i catalog \<Rightarrow>
    'i index_info list result" where
  "GetTableIndexes order table_name c =
     (if table_names c table_name = None then Inr []
      else
        (case index_names c table_name of
           None \<Rightarrow> Inl Assertion
         | Some table_indexes \<Rightarrow>
             map_result (\<lambda>index_meta. case indexes c (snd index_meta) of None \<Rightarrow> Inl Assertion | Some i \<Rightarrow> Inr i)
               (order table_indexes)))"

subsection \<open>The invariant\<close>

definition catalog_ok :: "'i catalog \<Rightarrow> bool" where
  "catalog_ok c \<longleftrightarrow>
     (\<forall>name oid. table_names c name = Some oid \<longleftrightarrow> (\<exists>t. tables c oid = Some t \<and> ti_name t = name)) \<and>
     (\<forall>oid t. tables c oid = Some t \<longrightarrow> ti_oid t = oid \<and> oid < next_table_oid c) \<and>
     dom (index_names c) = dom (table_names c) \<and>
     (\<forall>name is. index_names c name = Some is \<longrightarrow> distinct (map fst is) \<and>
        (\<forall>(iname, oid) \<in> set is. \<exists>i. indexes c oid = Some i \<and> ii_name i = iname \<and> ii_table_name i = name)) \<and>
     (\<forall>oid i. indexes c oid = Some i \<longrightarrow> ii_oid i = oid \<and> oid < next_index_oid c \<and>
        (\<exists>is. index_names c (ii_table_name i) = Some is \<and> (ii_name i, oid) \<in> set is))"

lemma catalog_okD:
  assumes "catalog_ok c"
  shows "table_names c name = Some oid \<longleftrightarrow> (\<exists>t. tables c oid = Some t \<and> ti_name t = name)"
    and "tables c oid = Some t \<Longrightarrow> ti_oid t = oid \<and> oid < next_table_oid c"
    and "index_names c name = None \<longleftrightarrow> table_names c name = None"
    and "index_names c name = Some is \<Longrightarrow> distinct (map fst is)"
    and "index_names c name = Some is \<Longrightarrow> (iname, ioid) \<in> set is \<Longrightarrow>
      \<exists>i. indexes c ioid = Some i \<and> ii_name i = iname \<and> ii_table_name i = name"
    and "indexes c ioid = Some i \<Longrightarrow> ii_oid i = ioid \<and> ioid < next_index_oid c \<and>
      (\<exists>is. index_names c (ii_table_name i) = Some is \<and> (ii_name i, ioid) \<in> set is)"
  using assms unfolding catalog_ok_def by (blast, blast, blast, blast, blast, blast)

lemma new_catalog_ok: "catalog_ok new_catalog"
  by (simp add: catalog_ok_def new_catalog_def)

lemma CreateTable_ok:
  assumes "catalog_ok c" "CreateTable p name s b c = Inr (t, c')"
  shows "catalog_ok c'"
proof (cases "table_names c name")
  case (Some oid)
  with assms show ?thesis by (simp add: CreateTable_def)
next
  case None
  note ok = catalog_okD [OF assms(1)]
  obtain h where h: "t = Some \<lparr>ti_schema = s, ti_name = name, ti_table = h, ti_oid = next_table_oid c\<rparr>"
    and c': "c' = c\<lparr>next_table_oid := next_table_oid c + 1, tables := (tables c)(next_table_oid c \<mapsto> the t),
      table_names := (table_names c)(name \<mapsto> next_table_oid c), index_names := (index_names c)(name \<mapsto> [])\<rparr>"
    using assms(2) None ok(3) [of name] by (auto simp: CreateTable_def Let_def split: if_splits)
  have fresh: "tables c (next_table_oid c) = None" using ok(2) by (metis less_irrefl option.exhaust)
  have none: "ti_name t' \<noteq> name" if "tables c oid = Some t'" for oid t' using None ok(1) [of name oid] that by auto
  show ?thesis unfolding catalog_ok_def
  proof (intro conjI allI impI)
    fix nm oid
    show "table_names c' nm = Some oid \<longleftrightarrow> (\<exists>t. tables c' oid = Some t \<and> ti_name t = nm)"
      using ok(1) [of nm oid] none fresh by (auto simp: c' h)
  next
    fix oid t'
    assume "tables c' oid = Some t'"
    then show "ti_oid t' = oid" "oid < next_table_oid c'" using ok(2) [of oid t'] by (auto simp: c' h split: if_splits)
  next
    show "dom (index_names c') = dom (table_names c')" using ok(3) by (simp add: c' set_eq_iff domIff)
  next
    fix nm "is"
    assume a: "index_names c' nm = Some is"
    then show "distinct (map fst is)" using ok(4) by (auto simp: c' split: if_splits)
    show "\<forall>(iname, oid) \<in> set is. \<exists>i. indexes c' oid = Some i \<and> ii_name i = iname \<and> ii_table_name i = nm"
      using a ok(5) [of nm "is"] by (auto simp: c' split: if_splits)
  next
    fix oid i
    assume a: "indexes c' oid = Some i"
    then have "indexes c oid = Some i" by (simp add: c')
    note i = ok(6) [OF this]
    then show "ii_oid i = oid" "oid < next_index_oid c'" by (simp_all add: c')
    have "ii_table_name i \<noteq> name" using i None ok(3) [of name] by auto
    then show "\<exists>is. index_names c' (ii_table_name i) = Some is \<and> (ii_name i, oid) \<in> set is" using i by (simp add: c')
  qed
qed

lemma GetTable_ok:
  assumes "catalog_ok c"
  shows "GetTable name c = Inr (case table_names c name of None \<Rightarrow> None | Some oid \<Rightarrow> tables c oid)"
proof (cases "table_names c name")
  case (Some oid)
  then obtain t where "tables c oid = Some t" using catalog_okD(1) [OF assms, of name oid] by blast
  with Some show ?thesis by (simp add: GetTable_def)
qed (simp add: GetTable_def)

text \<open>Adding an index to a table that has none of its name.\<close>

definition add_index :: "'i index_info \<Rightarrow> 'i catalog \<Rightarrow> 'i catalog" where
  "add_index i c = c\<lparr>next_index_oid := next_index_oid c + 1, indexes := (indexes c)(next_index_oid c \<mapsto> i),
    index_names := (index_names c)(ii_table_name i \<mapsto> the (index_names c (ii_table_name i)) @ [(ii_name i, next_index_oid c)])\<rparr>"

lemma add_index_ok:
  assumes "catalog_ok c" "index_names c (ii_table_name i) = Some is" "map_of is (ii_name i) = None"
    "ii_oid i = next_index_oid c"
  shows "catalog_ok (add_index i c)"
proof -
  note ok = catalog_okD [OF assms(1)]
  have fresh: "indexes c (next_index_oid c) = None" using ok(6) by (metis less_irrefl option.exhaust)
  then have others: "oid \<noteq> next_index_oid c" if "index_names c nm = Some xs" "(iname, oid) \<in> set xs" for nm xs iname oid
    using ok(5) [OF that] by auto
  show ?thesis unfolding catalog_ok_def
  proof (intro conjI allI impI)
    fix nm oid
    show "table_names (add_index i c) nm = Some oid \<longleftrightarrow> (\<exists>t. tables (add_index i c) oid = Some t \<and> ti_name t = nm)"
      using ok(1) by (simp add: add_index_def)
  next
    fix oid t
    assume "tables (add_index i c) oid = Some t"
    then show "ti_oid t = oid" "oid < next_table_oid (add_index i c)" using ok(2) by (auto simp: add_index_def)
  next
    show "dom (index_names (add_index i c)) = dom (table_names (add_index i c))"
      using assms(1,2) by (auto simp: add_index_def catalog_ok_def)
  next
    fix nm xs
    assume a: "index_names (add_index i c) nm = Some xs"
    show "distinct (map fst xs)"
      using a ok(4) assms(2,3) by (auto simp: add_index_def map_of_eq_None_iff split: if_splits)
    show "\<forall>(iname, oid) \<in> set xs. \<exists>j. indexes (add_index i c) oid = Some j \<and> ii_name j = iname \<and> ii_table_name j = nm"
    proof (clarify)
      fix iname oid
      assume m: "(iname, oid) \<in> set xs"
      show "\<exists>j. indexes (add_index i c) oid = Some j \<and> ii_name j = iname \<and> ii_table_name j = nm"
      proof (cases "nm = ii_table_name i \<and> (iname, oid) = (ii_name i, next_index_oid c)")
        case True
        then show ?thesis by (simp add: add_index_def)
      next
        case False
        then obtain ys where ys: "index_names c nm = Some ys" "(iname, oid) \<in> set ys"
          using a m assms(2) by (auto simp: add_index_def split: if_splits)
        from ok(5) [OF this] others [OF this] show ?thesis by (simp add: add_index_def)
      qed
    qed
  next
    fix oid j
    assume a: "indexes (add_index i c) oid = Some j"
    show "ii_oid j = oid" "oid < next_index_oid (add_index i c)"
      using a assms(4) ok(6) [of oid j] by (auto simp: add_index_def split: if_splits)
    show "\<exists>is. index_names (add_index i c) (ii_table_name j) = Some is \<and> (ii_name j, oid) \<in> set is"
      using a ok(6) [of oid j] assms(2) by (auto simp: add_index_def split: if_splits)
  qed
qed

lemma map_result_all:
  "(\<And>x. x \<in> set xs \<Longrightarrow> \<exists>y. f x = Inr y \<and> P y) \<Longrightarrow> \<exists>ys. map_result f xs = Inr ys \<and> list_all P ys"
  by (induction xs) fastforce+

text \<open>In a consistent catalog the indexes of a table are found, in whatever order.\<close>

lemma GetTableIndexes_ok:
  assumes "catalog_ok c" "\<And>xs. mset (order xs) = mset xs"
  shows "\<exists>is. GetTableIndexes order name c = Inr is \<and>
    list_all (\<lambda>i. ii_table_name i = name \<and> GetIndex_oid (ii_oid i) c = Some i) is"
proof (cases "table_names c name")
  case (Some oid)
  then obtain xs where xs: "index_names c name = Some xs" using catalog_okD(3) [OF assms(1), of name] by auto
  have s: "set (order xs) = set xs" using assms(2) by (metis mset_eq_setD)
  have "\<exists>is. map_result (\<lambda>m. case indexes c (snd m) of None \<Rightarrow> Inl Assertion | Some i \<Rightarrow> Inr i) (order xs) = Inr is \<and>
      list_all (\<lambda>i. ii_table_name i = name \<and> GetIndex_oid (ii_oid i) c = Some i) is"
  proof (rule map_result_all)
    fix m assume "m \<in> set (order xs)"
    then have "(fst m, snd m) \<in> set xs" using s by simp
    from catalog_okD(5) [OF assms(1) xs this] obtain i where "indexes c (snd m) = Some i" "ii_table_name i = name" by blast
    then show "\<exists>y. (case indexes c (snd m) of None \<Rightarrow> Inl Assertion | Some i \<Rightarrow> Inr i) = Inr y \<and>
        ii_table_name y = name \<and> GetIndex_oid (ii_oid y) c = Some y"
      using catalog_okD(6) [OF assms(1)] by (auto simp: GetIndex_oid_def)
  qed
  then show ?thesis by (simp add: GetTableIndexes_def Some xs)
qed (simp add: GetTableIndexes_def)

subsection \<open>Filling an index\<close>

text \<open>What \<open>populate\<close> enters: the records of the heap in order, each under the key of its tuple.\<close>

fun enter :: "('i \<Rightarrow> nat list \<Rightarrow> rid \<Rightarrow> (bool \<times> 'i) result) \<Rightarrow> (nat list \<Rightarrow> nat list result) \<Rightarrow>
    (rid \<times> tuple_meta \<times> nat list) list \<Rightarrow> 'i \<Rightarrow> 'i result" where
  "enter ins key [] s = Inr s"
| "enter ins key ((r, m, t) # rows) s =
     rbind (key t) (\<lambda>k. rbind (ins s k r) (\<lambda>(inserted, s'). enter ins key rows s'))"

lemma populate_rows:
  assumes "heap_ok h"
  shows "populate ins key h (cursor h k) s = Some (enter ins key (drop k (table_rows h)) s)"
proof (induction "length (table_rows h) - k" arbitrary: k s)
  case 0
  then have "length (table_rids h) \<le> k" by (simp add: table_rids_def)
  then show ?case using 0 cursor_end [OF assms, of k] by (subst populate.simps) (simp add: table_rids_def)
next
  case (Suc n)
  then have k: "k < length (table_rows h)" "k < length (table_rids h)" by (simp_all add: table_rids_def)
  have hl: "heap_linked h" using assms by (simp add: heap_ok_def)
  obtain r m t where r: "table_rows h ! k = (r, m, t)" by (metis prod_cases3)
  have rid: "it_rid (cursor h k) = r" using k r by (simp add: cursor_def table_rids_def)
  have "map_of (table_rows h) r = Some (m, t)"
    using distinct_table_rids [OF hl] nth_mem [OF k(1)] r by (simp add: table_rids_def map_of_eq_Some_iff)
  then have g: "it_GetTuple h (cursor h k) = Inr (m, t)" by (simp add: it_GetTuple_def rid GetTuple_row [OF hl])
  have a: "it_advance h (cursor h k) = Inr (cursor h (Suc k))"
    by (rule advance_cursor [OF assms assms _ k(2)]) simp
  have d: "drop k (table_rows h) = (r, m, t) # drop (Suc k) (table_rows h)" using k(1) r by (simp add: Cons_nth_drop_Suc [symmetric])
  have "\<not> it_IsEnd (cursor h k)" using cursor_end [OF assms, of k] k(2) by simp
  with Suc.hyps(1) [of "Suc k"] Suc.hyps(2) show ?case
    by (subst populate.simps) (auto simp: g a d rid rbind_def split: sum.split)
qed

text \<open>On a B+ tree this loads the keys with their record ids.\<close>

definition index_entries :: "(nat list \<Rightarrow> 'k) \<Rightarrow> (nat list \<Rightarrow> nat list) \<Rightarrow> (rid \<times> tuple_meta \<times> nat list) list \<Rightarrow> ('k \<times> rid) list" where
  "index_entries key_of kt rows = map (\<lambda>(r, m, t). (key_of (kt t), r)) rows"

lemma index_entries_simps [simp]:
  "index_entries key_of kt [] = []"
  "index_entries key_of kt ((r, m, t) # rows) = (key_of (kt t), r) # index_entries key_of kt rows"
  by (simp_all add: index_entries_def)

lemma map_of_index_entries:
  "map_of (index_entries key_of kt rows) k = map_option fst (find (\<lambda>(r, m, t). key_of (kt t) = k) rows)"
  by (induction rows) auto

lemma enter_load:
  assumes "\<And>r m t. (r, m, t) \<in> set rows \<Longrightarrow> key t = Inr (kt t)"
  shows "enter (InsertEntry key_of cfg) key rows s = load (Insert cfg) (index_entries key_of kt rows) s"
  using assms
proof (induction rows arbitrary: s)
  case (Cons x rows)
  obtain r m t where x: "x = (r, m, t)" by (metis prod_cases3)
  have k: "key t = Inr (kt t)" by (rule Cons.prems [of r m]) (simp add: x)
  have IH: "enter (InsertEntry key_of cfg) key rows s' = load (Insert cfg) (index_entries key_of kt rows) s'" for s'
    by (rule Cons.IH) (use Cons.prems in auto)
  have i: "InsertEntry key_of cfg s (kt t) r = Insert cfg s (key_of (kt t)) r" by (simp add: InsertEntry_def)
  show ?case by (cases "Insert cfg s (key_of (kt t)) r") (auto simp: x k i IH)
qed simp

text \<open>What \<open>CreateIndex\<close> does for a new name on an existing table.\<close>

lemma CreateIndex_new:
  assumes "catalog_ok c" "table_names c name = Some oid" "tables c oid = Some t" "heap_ok (ti_table t)"
    "index_names c name = Some is" "map_of is iname = None" "mk_index ty = Inr index"
    "enter ins (KeyFromTuple M s key_schema attrs) (table_rows (ti_table t)) index = Inr index'"
    and info: "info = \<lparr>ii_key_schema = key_schema, ii_name = iname, ii_index = index', ii_oid = next_index_oid c,
    ii_table_name = name, ii_key_size = sz, ii_is_primary_key = pk, ii_index_type = ty, ii_key_attrs = attrs\<rparr>"
  shows "CreateIndex M mk_index ins iname name s key_schema attrs sz pk ty c = Some (Inr (Some info, add_index info c))"
proof -
  have g: "GetTable name c = Inr (Some t)" using GetTable_ok [OF assms(1), of name] assms(2,3) by simp
  have p: "populate ins (KeyFromTuple M s key_schema attrs) (ti_table t) (cursor (ti_table t) 0) index = Some (Inr index')"
    using populate_rows [OF assms(4), of ins _ 0 index] assms(8) by simp
  show ?thesis
    by (simp add: CreateIndex_def assms(2,5,6,7) g MakeIterator_cursor [OF assms(4)] p info add_index_def Let_def)
qed

lemma GetIndex_added:
  assumes "catalog_ok c" "index_names c (ii_table_name i) = Some is" "map_of is (ii_name i) = None"
  shows "GetIndex (ii_name i) (ii_table_name i) (add_index i c) = Inr (Some i)"
  using assms by (simp add: GetIndex_def add_index_def map_add_def map_of_append)

subsection \<open>The property\<close>


text \<open>A table of one integer column with one record.\<close>

definition demo_table :: "table_heap \<Rightarrow> table_info" where
  "demo_table h = \<lparr>ti_schema = Schema [\<lparr>column_name = ''a'', column_type = INTEGER, column_length = 4, column_offset = 0\<rparr>],
    ti_name = ''t'', ti_table = h, ti_oid = 0\<rparr>"

definition demo_catalog :: "table_heap \<Rightarrow> (nat, rid) btree catalog" where
  "demo_catalog h = \<lparr>tables = [0 \<mapsto> demo_table h], table_names = [''t'' \<mapsto> 0], next_table_oid = 1, indexes = Map.empty,
    index_names = [''t'' \<mapsto> []], next_index_oid = 0\<rparr>"

lemma demo_catalog_ok: "catalog_ok (demo_catalog h)" "GetTable ''t'' (demo_catalog h) = Inr (Some (demo_table h))"
    "GetIndex ''i'' ''t'' (demo_catalog h) = Inr None"
  by (auto simp: catalog_ok_def demo_catalog_def demo_table_def GetTable_def GetIndex_def)

lemma demo_key: "KeyFromTuple toy_machine (ti_schema (demo_table h)) (ti_schema (demo_table h)) [0] [7, 0, 0, 0] = Inr [7, 0, 0, 0]"
  unfolding demo_table_def by simp code_simp


end
