(* ===== verification/Plans.thy ===== *)
theory Plans
  imports Catalog Expressions Joins
begin

section \<open>Query plans\<close>

text \<open>
  Models \<^verbatim>\<open>src/include/execution/plans/\<close> and \<^verbatim>\<open>src/execution/plan_node.cpp\<close>. A plan node is what its
  class adds (\<open>plan_kind\<close>, one constructor per class), its output schema and its children, as
  \<open>AbstractPlanNode\<close> has them; \<open>CloneWithChildren\<close> copies the node and replaces the children. The
  planner gives every filter and nested loop join a predicate, so a predicate is an expression and
  only that of a scan is optional.
\<close>

datatype OrderByType = OrderByInvalid | OrderByDefault | ASC | DESC
datatype OrderByNullType = NullsDefault | NULLS_FIRST | NULLS_LAST

type_synonym 'd order_by = "OrderByType \<times> OrderByNullType \<times> 'd expr"

datatype AggregationType = CountStarAggregate | CountAggregate | SumAggregate | MinAggregate | MaxAggregate
datatype WindowFunctionType = WindowCountStar | WindowCount | WindowSum | WindowMin | WindowMax | Rank

text \<open>In the order of the constructors' arguments; the map of window functions is an association list.\<close>

datatype 'd plan_kind =
    SeqScan nat string "'d expr option"
  | IndexScan nat nat "'d expr option" "'d expr list"
  | InsertPlan nat
  | UpdatePlan nat "'d expr list"
  | DeletePlan nat
  | Aggregation "'d expr list" "'d expr list" "AggregationType list"
  | LimitPlan nat
  | NestedLoopJoin "'d expr" join_type
  | NestedIndexJoin "'d expr" nat nat string string schema join_type
  | HashJoin "'d expr list" "'d expr list" join_type
  | FilterPlan "'d expr"
  | ValuesPlan "'d expr list list"
  | Projection "'d expr list"
  | SortPlan "'d order_by list"
  | TopN "'d order_by list" nat
  | TopNPerGroup "'d expr list" "'d order_by list" nat
  | MockScan string
  | InitCheck
  | Window "'d expr list" "(nat \<times> 'd expr \<times> WindowFunctionType \<times> 'd expr list \<times> 'd order_by list) list"

datatype 'd plan_node = PlanNode (plan_kind: "'d plan_kind") (output_schema: schema) (children: "'d plan_node list")

definition CloneWithChildren :: "'d plan_node list \<Rightarrow> 'd plan_node \<Rightarrow> 'd plan_node" where
  "CloneWithChildren cs p = PlanNode (plan_kind p) (output_schema p) cs"

definition GetChildAt :: "nat \<Rightarrow> 'd plan_node \<Rightarrow> 'd plan_node result" where
  "GetChildAt i p = (if i < length (children p) then Inr (children p ! i) else Inl Undefined)"

subsection \<open>Schemas\<close>

text \<open>The column of another with a new name, placed by the schema it goes into.\<close>

definition renamed :: "string \<Rightarrow> column \<Rightarrow> column" where
  "renamed name c = c\<lparr>column_name := name\<rparr>"

definition InferScanSchema :: "string \<Rightarrow> schema \<Rightarrow> schema" where
  "InferScanSchema bound_name s = Schema (map (\<lambda>c. renamed (bound_name @ ''.'' @ column_name c) c) (columns s))"

definition InferJoinSchema :: "'d plan_node \<Rightarrow> 'd plan_node \<Rightarrow> schema" where
  "InferJoinSchema l r = Schema (columns (output_schema l) @ columns (output_schema r))"

definition RenameSchema :: "schema \<Rightarrow> string list \<Rightarrow> schema result" where
  "RenameSchema s col_names =
     (if length col_names \<noteq> GetColumnCount s then Inl (Thrown ''mismatched number of columns'')
      else Inr (Schema (map2 renamed col_names (columns s))))"

text \<open>\<open>GetReturnType()\<close> of an expression is the column its constructor stored; the expressions keep its
  type only, so the planner carries the column beside the expression.\<close>

type_synonym 'd typed_expr = "'d expr \<times> column"

definition InferProjectionSchema :: "'d typed_expr list \<Rightarrow> schema" where
  "InferProjectionSchema exprs = Schema (map (\<lambda>(e, column). WithColumnName ''<unnamed>'' column) exprs)"

definition InferAggSchema :: "'d typed_expr list \<Rightarrow> 'd typed_expr list \<Rightarrow> AggregationType list \<Rightarrow> schema result" where
  "InferAggSchema group_bys aggregates agg_types =
     rbind (map_result (\<lambda>e. Column ''<unnamed>'' INTEGER) aggregates) (\<lambda>aggs.
       Inr (Schema (map (\<lambda>(e, column). WithColumnName ''<unnamed>'' column) group_bys @ aggs)))"

definition InferWindowSchema :: "'d typed_expr list \<Rightarrow> schema" where
  "InferWindowSchema exprs = Schema (map (\<lambda>(e, column). WithColumnName ''<unnamed>'' column) exprs)"

end
