(* ===== verification/Optimizer.thy ===== *)
theory Optimizer
  imports Plans
begin

section \<open>The optimizer\<close>

text \<open>
  Models \<^verbatim>\<open>src/optimizer/\<close>: the rules rewrite a plan bottom up. Each rule optimises the children,
  clones the node with them and then looks at the node itself; \<open>bottom_up\<close> is that recursion and
  the \<open>_rule\<close> of a rule is what it does with the node. \<open>catalog_\<close> and the iteration order of its maps
  are arguments. Column pruning and the rule that merges a sort and a limit return the plan as it is.
\<close>

lemma map_result_cong [fundef_cong]:
  "xs = ys \<Longrightarrow> (\<And>x. x \<in> set ys \<Longrightarrow> f x = g x) \<Longrightarrow> map_result f xs = map_result g ys"
proof (induction ys arbitrary: xs)
  case (Cons y ys)
  then have "map_result f ys = map_result g ys" "f y = g y" by auto
  with Cons.prems(1) show ?case by simp
qed simp

fun bottom_up :: "('d plan_node \<Rightarrow> 'd plan_node result) \<Rightarrow> 'd plan_node \<Rightarrow> 'd plan_node result" where
  "bottom_up rule (PlanNode k s cs) =
     rbind (map_result (bottom_up rule) cs) (\<lambda>cs'. rule (CloneWithChildren cs' (PlanNode k s cs)))"

subsection \<open>Merging projections and filters\<close>

fun identical_from :: "nat \<Rightarrow> 'd expr list \<Rightarrow> bool" where
  "identical_from idx [] \<longleftrightarrow> True"
| "identical_from idx (e # es) \<longleftrightarrow>
     (case e of ColumnValue t c ty \<Rightarrow> t = 0 \<and> c = idx | _ \<Rightarrow> False) \<and> identical_from (idx + 1) es"

definition merge_projection_rule :: "'d plan_node \<Rightarrow> 'd plan_node result" where
  "merge_projection_rule p =
     (case plan_kind p of
        Projection exprs \<Rightarrow>
          (case children p of
             [sub] \<Rightarrow>
               if map column_type (columns (output_schema sub)) = map column_type (columns (output_schema p)) \<and> identical_from 0 exprs
               then Inr (PlanNode (plan_kind sub) (output_schema p) (children sub))
               else Inr p
           | _ \<Rightarrow> Inl Terminated)
      | _ \<Rightarrow> Inr p)"

definition OptimizeMergeProjection :: "'d plan_node \<Rightarrow> 'd plan_node result" where
  "OptimizeMergeProjection = bottom_up merge_projection_rule"

text \<open>The columns of the filter are those of the left side followed by those of the right side.\<close>

fun RewriteExpressionForJoin :: "nat \<Rightarrow> nat \<Rightarrow> 'd expr \<Rightarrow> 'd expr result" where
  "RewriteExpressionForJoin left_cnt right_cnt (ColumnValue t c ty) =
     (if t \<noteq> 0 then Inl Terminated
      else if c < left_cnt then Inr (ColumnValue 0 c ty)
      else if c < left_cnt + right_cnt then Inr (ColumnValue 1 (c - left_cnt) ty)
      else Inl (Thrown ''col_idx not in range''))"
| "RewriteExpressionForJoin left_cnt right_cnt (ConstantValue v) = Inr (ConstantValue v)"
| "RewriteExpressionForJoin left_cnt right_cnt (Arithmetic l r op) =
     rbind (RewriteExpressionForJoin left_cnt right_cnt l) (\<lambda>l'. rbind (RewriteExpressionForJoin left_cnt right_cnt r) (\<lambda>r'.
       Inr (Arithmetic l' r' op)))"
| "RewriteExpressionForJoin left_cnt right_cnt (Comparison l r op) =
     rbind (RewriteExpressionForJoin left_cnt right_cnt l) (\<lambda>l'. rbind (RewriteExpressionForJoin left_cnt right_cnt r) (\<lambda>r'.
       Inr (Comparison l' r' op)))"
| "RewriteExpressionForJoin left_cnt right_cnt (Logic l r op) =
     rbind (RewriteExpressionForJoin left_cnt right_cnt l) (\<lambda>l'. rbind (RewriteExpressionForJoin left_cnt right_cnt r) (\<lambda>r'.
       Inr (Logic l' r' op)))"
| "RewriteExpressionForJoin left_cnt right_cnt (StringExpr e op) =
     rbind (RewriteExpressionForJoin left_cnt right_cnt e) (\<lambda>e'. Inr (StringExpr e' op))"

text \<open>\<open>GetAs<bool>\<close> of a null boolean, whose byte is not 0, is true.\<close>

definition IsPredicateTrue :: "'d machine \<Rightarrow> 'd expr \<Rightarrow> bool result" where
  "IsPredicateTrue M e =
     (case e of ConstantValue v \<Rightarrow> rbind (Value_CastAs M v BOOLEAN) (\<lambda>b. Inr (GetAs 8 b \<noteq> 0)) | _ \<Rightarrow> Inr False)"

definition merge_filter_nlj_rule :: "'d machine \<Rightarrow> 'd plan_node \<Rightarrow> 'd plan_node result" where
  "merge_filter_nlj_rule M p =
     (case plan_kind p of
        FilterPlan predicate \<Rightarrow>
          (case children p of
             [sub] \<Rightarrow>
               (case plan_kind sub of
                  NestedLoopJoin join_predicate join_type \<Rightarrow>
                    (case children sub of
                       [l, r] \<Rightarrow>
                         rbind (IsPredicateTrue M join_predicate) (\<lambda>always.
                           if always
                           then rbind (RewriteExpressionForJoin (GetColumnCount (output_schema l)) (GetColumnCount (output_schema r)) predicate)
                                  (\<lambda>e. Inr (PlanNode (NestedLoopJoin e join_type) (output_schema p) [l, r]))
                           else Inr p)
                     | _ \<Rightarrow> Inl Terminated)
                | _ \<Rightarrow> Inr p)
           | _ \<Rightarrow> Inl Terminated)
      | _ \<Rightarrow> Inr p)"

definition OptimizeMergeFilterNLJ :: "'d machine \<Rightarrow> 'd plan_node \<Rightarrow> 'd plan_node result" where
  "OptimizeMergeFilterNLJ M = bottom_up (merge_filter_nlj_rule M)"

definition eliminate_true_filter_rule :: "'d machine \<Rightarrow> 'd plan_node \<Rightarrow> 'd plan_node result" where
  "eliminate_true_filter_rule M p =
     (case plan_kind p of
        FilterPlan predicate \<Rightarrow>
          rbind (IsPredicateTrue M predicate) (\<lambda>always.
            if always then (case children p of [sub] \<Rightarrow> Inr sub | _ \<Rightarrow> Inl Assertion) else Inr p)
      | _ \<Rightarrow> Inr p)"

definition OptimizeEliminateTrueFilter :: "'d machine \<Rightarrow> 'd plan_node \<Rightarrow> 'd plan_node result" where
  "OptimizeEliminateTrueFilter M = bottom_up (eliminate_true_filter_rule M)"

definition merge_filter_scan_rule :: "'d plan_node \<Rightarrow> 'd plan_node result" where
  "merge_filter_scan_rule p =
     (case plan_kind p of
        FilterPlan predicate \<Rightarrow>
          (case children p of
             [sub] \<Rightarrow>
               (case plan_kind sub of
                  SeqScan oid name None \<Rightarrow> Inr (PlanNode (SeqScan oid name (Some predicate)) (output_schema p) [])
                | _ \<Rightarrow> Inr p)
           | _ \<Rightarrow> Inl Assertion)
      | _ \<Rightarrow> Inr p)"

definition OptimizeMergeFilterScan :: "'d plan_node \<Rightarrow> 'd plan_node result" where
  "OptimizeMergeFilterScan = bottom_up merge_filter_scan_rule"

subsection \<open>Joins\<close>

text \<open>The left and the right keys of a conjunction of equalities between the two sides.\<close>

fun ExtractEquiConditions :: "'d expr \<Rightarrow> ('d expr list \<times> 'd expr list) option" where
  "ExtractEquiConditions (Logic l r op) =
     (if op \<noteq> And then None
      else (case ExtractEquiConditions l of
              None \<Rightarrow> None
            | Some (ls, rs) \<Rightarrow> (case ExtractEquiConditions r of None \<Rightarrow> None | Some (ls', rs') \<Rightarrow> Some (ls @ ls', rs @ rs'))))"
| "ExtractEquiConditions (Comparison (ColumnValue t c ty) (ColumnValue t' c' ty') op) =
     (if op \<noteq> Equal \<or> t = t' then None
      else if t = 0 then Some ([ColumnValue t c ty], [ColumnValue t' c' ty'])
      else Some ([ColumnValue t' c' ty'], [ColumnValue t c ty]))"
| "ExtractEquiConditions e = None"

definition nlj_as_hash_join_rule :: "'d plan_node \<Rightarrow> 'd plan_node result" where
  "nlj_as_hash_join_rule p =
     (case plan_kind p of
        NestedLoopJoin predicate join_type \<Rightarrow>
          (case ExtractEquiConditions predicate of
             None \<Rightarrow> Inr p
           | Some (left_keys, right_keys) \<Rightarrow>
               (case children p of
                  [l, r] \<Rightarrow> Inr (PlanNode (HashJoin left_keys right_keys join_type) (output_schema p) [l, r])
                | _ \<Rightarrow> Inl Assertion))
      | _ \<Rightarrow> Inr p)"

definition OptimizeNLJAsHashJoin :: "'d plan_node \<Rightarrow> 'd plan_node result" where
  "OptimizeNLJAsHashJoin = bottom_up nlj_as_hash_join_rule"

type_synonym map_order = "(string \<times> nat) list \<Rightarrow> (string \<times> nat) list"

definition MatchIndex :: "map_order \<Rightarrow> 'i catalog \<Rightarrow> string \<Rightarrow> nat \<Rightarrow> (nat \<times> string) option result" where
  "MatchIndex order c table_name index_key_idx =
     rbind (GetTableIndexes order table_name c) (\<lambda>infos.
       Inr (map_option (\<lambda>i. (ii_oid i, ii_name i)) (find (\<lambda>i. [index_key_idx] = ii_key_attrs i) infos)))"

definition nlj_as_index_join_rule :: "map_order \<Rightarrow> 'i catalog \<Rightarrow> 'd plan_node \<Rightarrow> 'd plan_node result" where
  "nlj_as_index_join_rule order c p =
     (case plan_kind p of
        NestedLoopJoin predicate join_type \<Rightarrow>
          (case children p of
             [l, r] \<Rightarrow>
               (case (predicate, plan_kind r) of
                  (Comparison (ColumnValue lt lc lty) (ColumnValue rt rc rty) Equal, SeqScan oid name pred) \<Rightarrow>
                    (let join = \<lambda>key column. rbind (MatchIndex order c name column) (\<lambda>index.
                           case index of
                             None \<Rightarrow> Inr None
                           | Some (index_oid, index_name) \<Rightarrow>
                               Inr (Some (PlanNode (NestedIndexJoin key oid index_oid index_name name (output_schema r) join_type) (output_schema p) [l])))
                     in rbind (if lt = 0 \<and> rt = 1 then join (ColumnValue 0 lc lty) rc else Inr None) (\<lambda>first.
                        case first of
                          Some q \<Rightarrow> Inr q
                        | None \<Rightarrow>
                            rbind (if lt = 1 \<and> rt = 0 then join (ColumnValue 0 rc rty) lc else Inr None) (\<lambda>second.
                              Inr (case second of Some q \<Rightarrow> q | None \<Rightarrow> p))))
                | _ \<Rightarrow> Inr p)
           | _ \<Rightarrow> Inl Terminated)
      | _ \<Rightarrow> Inr p)"

definition OptimizeNLJAsIndexJoin :: "map_order \<Rightarrow> 'i catalog \<Rightarrow> 'd plan_node \<Rightarrow> 'd plan_node result" where
  "OptimizeNLJAsIndexJoin order c = bottom_up (nlj_as_index_join_rule order c)"

subsection \<open>Index scans\<close>

text \<open>The columns of the sort keys: none when some key is not an ascending column.\<close>

fun order_by_column_ids :: "'d order_by list \<Rightarrow> nat list option" where
  "order_by_column_ids [] = Some []"
| "order_by_column_ids ((type, nulls, e) # order_bys) =
     (if type \<noteq> ASC \<and> type \<noteq> OrderByDefault then None
      else (case e of ColumnValue t c ty \<Rightarrow> map_option ((#) c) (order_by_column_ids order_bys) | _ \<Rightarrow> None))"

definition table_indexes :: "map_order \<Rightarrow> 'i catalog \<Rightarrow> nat \<Rightarrow> (table_info \<times> 'i index_info list) result" where
  "table_indexes order c oid =
     (case GetTable_oid oid c of
        None \<Rightarrow> Inl Undefined
      | Some t \<Rightarrow> rbind (GetTableIndexes order (ti_name t) c) (\<lambda>infos. Inr (t, infos)))"

definition order_by_index_scan_rule :: "map_order \<Rightarrow> 'i catalog \<Rightarrow> 'd plan_node \<Rightarrow> 'd plan_node result" where
  "order_by_index_scan_rule order c p =
     (case plan_kind p of
        SortPlan order_bys \<Rightarrow>
          (case order_by_column_ids order_bys of
             None \<Rightarrow> Inr p
           | Some ids \<Rightarrow>
               (case children p of
                  [sub] \<Rightarrow>
                    (case plan_kind sub of
                       SeqScan oid name pred \<Rightarrow>
                         rbind (table_indexes order c oid) (\<lambda>(t, infos).
                           Inr (case find (\<lambda>i. ids = ii_key_attrs i) infos of
                                  None \<Rightarrow> p
                                | Some i \<Rightarrow> PlanNode (IndexScan (ti_oid t) (ii_oid i) None []) (output_schema p) []))
                     | _ \<Rightarrow> Inr p)
                | _ \<Rightarrow> Inl Terminated))
      | _ \<Rightarrow> Inr p)"

definition OptimizeOrderByAsIndexScan :: "map_order \<Rightarrow> 'i catalog \<Rightarrow> 'd plan_node \<Rightarrow> 'd plan_node result" where
  "OptimizeOrderByAsIndexScan order c = bottom_up (order_by_index_scan_rule order c)"

text \<open>\<open>static_cast<uint32_t>(-1)\<close>: no column yet.\<close>

definition NO_COLUMN :: nat where
  "NO_COLUMN = 4294967295"

definition equality_key :: "'d expr \<Rightarrow> 'd expr \<Rightarrow> (nat \<times> 'd expr) option" where
  "equality_key lhs rhs =
     (case (case lhs of ColumnValue t c ty \<Rightarrow> Some (c, rhs)
            | _ \<Rightarrow> (case rhs of ColumnValue t c ty \<Rightarrow> Some (c, lhs) | _ \<Rightarrow> None)) of
        Some (c, ConstantValue v) \<Rightarrow> Some (c, ConstantValue v)
      | _ \<Rightarrow> None)"

text \<open>The constants of a disjunction of equalities on one column, and the column.\<close>

fun CollectEqualityKeys :: "'d expr \<Rightarrow> nat \<Rightarrow> ('d expr list \<times> nat) option" where
  "CollectEqualityKeys (Logic l r op) col_idx =
     (if op \<noteq> Or then None
      else (case CollectEqualityKeys l col_idx of
              None \<Rightarrow> None
            | Some (left, col1) \<Rightarrow>
                (case CollectEqualityKeys r col1 of None \<Rightarrow> None | Some (right, col2) \<Rightarrow> Some (left @ right, col2))))"
| "CollectEqualityKeys (Comparison l r op) col_idx =
     (if op \<noteq> Equal then None
      else (case equality_key l r of
              None \<Rightarrow> None
            | Some (c, const) \<Rightarrow>
                if col_idx = NO_COLUMN then Some ([const], c)
                else if col_idx \<noteq> c then None else Some ([const], col_idx)))"
| "CollectEqualityKeys e col_idx = None"

definition seq_scan_as_index_scan_rule :: "map_order \<Rightarrow> 'i catalog \<Rightarrow> 'd plan_node \<Rightarrow> 'd plan_node result" where
  "seq_scan_as_index_scan_rule order c p =
     (case plan_kind p of
        SeqScan oid name (Some predicate) \<Rightarrow>
          (case CollectEqualityKeys predicate NO_COLUMN of
             None \<Rightarrow> Inr p
           | Some (keys, col_idx) \<Rightarrow>
               rbind (table_indexes order c oid) (\<lambda>(t, infos).
                 Inr (case find (\<lambda>i. ii_key_attrs i = [col_idx]) infos of
                        None \<Rightarrow> p
                      | Some i \<Rightarrow> PlanNode (IndexScan (ti_oid t) (ii_oid i) (Some predicate) keys) (output_schema p) [])))
      | _ \<Rightarrow> Inr p)"

definition OptimizeSeqScanAsIndexScan :: "map_order \<Rightarrow> 'i catalog \<Rightarrow> 'd plan_node \<Rightarrow> 'd plan_node result" where
  "OptimizeSeqScanAsIndexScan order c = bottom_up (seq_scan_as_index_scan_rule order c)"

subsection \<open>The pipelines\<close>

definition OptimizeSortLimitAsTopN :: "'d plan_node \<Rightarrow> 'd plan_node result" where
  "OptimizeSortLimitAsTopN p = Inr p"

definition OptimizeColumnPruning :: "'d plan_node \<Rightarrow> 'd plan_node result" where
  "OptimizeColumnPruning p = Inr p"

definition OptimizeCustom :: "'d machine \<Rightarrow> map_order \<Rightarrow> 'i catalog \<Rightarrow> 'd plan_node \<Rightarrow> 'd plan_node result" where
  "OptimizeCustom M order c p =
     rbind (OptimizeMergeProjection p) (\<lambda>p.
     rbind (OptimizeMergeFilterNLJ M p) (\<lambda>p.
     rbind (OptimizeNLJAsHashJoin p) (\<lambda>p.
     rbind (OptimizeOrderByAsIndexScan order c p) (\<lambda>p.
     rbind (OptimizeSortLimitAsTopN p) (\<lambda>p.
     rbind (OptimizeMergeFilterScan p) (\<lambda>p.
     OptimizeSeqScanAsIndexScan order c p))))))"

definition Optimize :: "bool \<Rightarrow> 'd machine \<Rightarrow> map_order \<Rightarrow> 'i catalog \<Rightarrow> 'd plan_node \<Rightarrow> 'd plan_node result" where
  "Optimize force_starter_rule M order c p =
     (if force_starter_rule then
        rbind (OptimizeMergeProjection p) (\<lambda>p.
        rbind (OptimizeMergeFilterNLJ M p) (\<lambda>p.
        rbind (OptimizeNLJAsIndexJoin order c p) (\<lambda>p.
        rbind (OptimizeOrderByAsIndexScan order c p) (\<lambda>p.
        rbind (OptimizeMergeFilterScan p) (\<lambda>p.
        OptimizeSeqScanAsIndexScan order c p)))))
      else OptimizeCustom M order c p)"

text \<open>\<open>StringUtil::EndsWith\<close>.\<close>

definition EndsWith :: "string \<Rightarrow> string \<Rightarrow> bool" where
  "EndsWith str tail \<longleftrightarrow> length tail \<le> length str \<and> drop (length str - length tail) str = tail"

definition EstimatedCardinality :: "string \<Rightarrow> nat option" where
  "EstimatedCardinality table_name =
     (if EndsWith table_name ''_1m'' then Some 1000000
      else if EndsWith table_name ''_100k'' then Some 100000
      else if EndsWith table_name ''_50k'' then Some 50000
      else if EndsWith table_name ''_10k'' then Some 10000
      else if EndsWith table_name ''_1k'' then Some 1000
      else if EndsWith table_name ''_100'' then Some 100
      else None)"

end
