(* ===== verification/Plan_Rows.thy ===== *)
theory Plan_Rows
  imports Optimizer Value_Props Hash_Util
begin

section \<open>What a plan returns\<close>

text \<open>
  The relational meaning of a plan, against which the rules of the optimizer are checked: the list
  of rows, or the first fault. A row is the list of its values. Scans, filters, projections, limits,
  value lists and joins mean what their executors return (theories \<open>Executor_Props\<close>,
  \<open>Join_Proofs\<close>); what the other executors make of the rows of their children is the parameter
  \<open>other_rows\<close>, so that the results hold whatever it is.
\<close>

type_synonym 'd row = "'d val list"

record 'd database =
  table_content :: "nat \<Rightarrow> 'd row list"
  other_rows :: "'d plan_kind \<Rightarrow> 'd row list list \<Rightarrow> 'd row list result"

fun keep :: "('a \<Rightarrow> bool result) \<Rightarrow> 'a list \<Rightarrow> 'a list result" where
  "keep f [] = Inr []"
| "keep f (x # xs) = rbind (f x) (\<lambda>b. rbind (keep f xs) (\<lambda>ys. Inr (if b then x # ys else ys)))"

definition satisfied :: "'d machine \<Rightarrow> 'd val result \<Rightarrow> bool result" where
  "satisfied M r = rbind r (\<lambda>v. Inr (holds M v))"

definition join_left :: "('d row \<Rightarrow> 'd row \<Rightarrow> bool result) \<Rightarrow> join_type \<Rightarrow> 'd row result \<Rightarrow> 'd row list \<Rightarrow> 'd row \<Rightarrow> 'd row list result" where
  "join_left matches type nulls rs l =
     rbind (keep (matches l) rs) (\<lambda>ms.
       if ms = [] \<and> type = LEFT then rbind nulls (\<lambda>pad. Inr [l @ pad]) else Inr (map (\<lambda>r. l @ r) ms))"

definition join_rows :: "('d row \<Rightarrow> 'd row \<Rightarrow> bool result) \<Rightarrow> join_type \<Rightarrow> 'd row result \<Rightarrow> 'd row list \<Rightarrow> 'd row list \<Rightarrow> 'd row list result" where
  "join_rows matches type nulls ls rs =
     (if type \<noteq> LEFT \<and> type \<noteq> INNER then Inl (Thrown ''join type not supported'')
      else rbind (map_result (join_left matches type nulls rs) ls) (\<lambda>rows. Inr (concat rows)))"

text \<open>What the hash table of a join finds: keys in the same bucket that are equal.\<close>

fun keys_equal_values :: "'d machine \<Rightarrow> 'd val list \<Rightarrow> 'd val list \<Rightarrow> bool result" where
  "keys_equal_values M (k # ks) (k' # ks') =
     rbind (Value_CompareEquals M k k') (\<lambda>b. if b \<noteq> CmpTrue then Inr False else keys_equal_values M ks ks')"
| "keys_equal_values M ks ks' = Inr True"

definition hash_matches :: "'d machine \<Rightarrow> 'd expr list \<Rightarrow> 'd expr list \<Rightarrow> 'd row \<Rightarrow> 'd row \<Rightarrow> bool result" where
  "hash_matches M left_keys right_keys l r =
     rbind (map_result (\<lambda>e. Evaluate M e l) left_keys) (\<lambda>ks.
     rbind (map_result (\<lambda>e. Evaluate M e r) right_keys) (\<lambda>ks'.
     rbind (hash_key M 0 ks) (\<lambda>h. rbind (hash_key M 0 ks') (\<lambda>h'.
       if h = h' then keys_equal_values M ks ks' else Inr False))))"

definition null_row :: "'d machine \<Rightarrow> type_id list \<Rightarrow> 'd row result" where
  "null_row M ts = map_result (GetNullValueByType M) ts"

definition types :: "'d plan_node \<Rightarrow> type_id list" where
  "types p = map column_type (columns (output_schema p))"

definition node_rows :: "'d machine \<Rightarrow> 'd database \<Rightarrow> 'd plan_kind \<Rightarrow> type_id list list \<Rightarrow> 'd row list list \<Rightarrow> 'd row list result" where
  "node_rows M db k tss inputs =
     (case (k, inputs) of
        (SeqScan oid name pred, []) \<Rightarrow>
          (case pred of None \<Rightarrow> Inr (table_content db oid)
           | Some e \<Rightarrow> keep (\<lambda>row. satisfied M (Evaluate M e row)) (table_content db oid))
      | (FilterPlan e, [rows]) \<Rightarrow> keep (\<lambda>row. satisfied M (Evaluate M e row)) rows
      | (Projection es, [rows]) \<Rightarrow> map_result (\<lambda>row. map_result (\<lambda>e. Evaluate M e row) es) rows
      | (LimitPlan n, [rows]) \<Rightarrow> Inr (take n rows)
      | (ValuesPlan rows, []) \<Rightarrow> map_result (map_result (\<lambda>e. Evaluate M e [])) rows
      | (NestedLoopJoin e type, [ls, rs]) \<Rightarrow>
          join_rows (\<lambda>l r. satisfied M (EvaluateJoin M e l r)) type (null_row M (tss ! 1)) ls rs
      | (HashJoin left_keys right_keys type, [ls, rs]) \<Rightarrow>
          join_rows (hash_matches M left_keys right_keys) type (null_row M (tss ! 1)) ls rs
      | _ \<Rightarrow> other_rows db k inputs)"

fun plan_rows :: "'d machine \<Rightarrow> 'd database \<Rightarrow> 'd plan_node \<Rightarrow> 'd row list result" where
  "plan_rows M db (PlanNode k s cs) =
     rbind (map_result (plan_rows M db) cs) (\<lambda>inputs. node_rows M db k (map types cs) inputs)"

subsection \<open>Well-formed plans\<close>

text \<open>An expression over a row with the column types \<open>ts\<close>, and one over the rows of a join.\<close>

fun typed :: "type_id list \<Rightarrow> 'd expr \<Rightarrow> bool" where
  "typed ts (ColumnValue t c ty) \<longleftrightarrow> t = 0 \<and> c < length ts \<and> ty = ts ! c"
| "typed ts (ConstantValue v) \<longleftrightarrow> True"
| "typed ts (Arithmetic l r op) \<longleftrightarrow> typed ts l \<and> typed ts r"
| "typed ts (Comparison l r op) \<longleftrightarrow> typed ts l \<and> typed ts r"
| "typed ts (Logic l r op) \<longleftrightarrow> typed ts l \<and> typed ts r"
| "typed ts (StringExpr e op) \<longleftrightarrow> typed ts e"

fun typed_join :: "type_id list \<Rightarrow> type_id list \<Rightarrow> 'd expr \<Rightarrow> bool" where
  "typed_join lts rts (ColumnValue t c ty) \<longleftrightarrow> t = 0 \<and> c < length lts \<and> ty = lts ! c \<or> t = 1 \<and> c < length rts \<and> ty = rts ! c"
| "typed_join lts rts (ConstantValue v) \<longleftrightarrow> True"
| "typed_join lts rts (Arithmetic l r op) \<longleftrightarrow> typed_join lts rts l \<and> typed_join lts rts r"
| "typed_join lts rts (Comparison l r op) \<longleftrightarrow> typed_join lts rts l \<and> typed_join lts rts r"
| "typed_join lts rts (Logic l r op) \<longleftrightarrow> typed_join lts rts l \<and> typed_join lts rts r"
| "typed_join lts rts (StringExpr e op) \<longleftrightarrow> typed_join lts rts e"

text \<open>The equalities of a conjunction compare two integers or two booleans, whose hashes agree when
  they are equal.\<close>

definition same_hash_types :: "type_id \<Rightarrow> type_id \<Rightarrow> bool" where
  "same_hash_types t u \<longleftrightarrow> (let ints = {TINYINT, SMALLINT, INTEGER, BIGINT} in t \<in> ints \<and> u \<in> ints \<or> t = BOOLEAN \<and> u = BOOLEAN)"

fun hashable :: "'d expr \<Rightarrow> bool" where
  "hashable (Logic l r op) \<longleftrightarrow> hashable l \<and> hashable r"
| "hashable (Comparison l r op) \<longleftrightarrow> op \<noteq> Equal \<or> same_hash_types (GetReturnType l) (GetReturnType r)"
| "hashable e \<longleftrightarrow> True"

definition rows_typed :: "type_id list \<Rightarrow> 'd row list \<Rightarrow> bool" where
  "rows_typed ts rows \<longleftrightarrow> (\<forall>row \<in> set rows. map GetTypeId row = ts)"

text \<open>A constant predicate is a boolean that is not null.\<close>

definition constant_ok :: "'d machine \<Rightarrow> 'd expr \<Rightarrow> bool" where
  "constant_ok M e \<longleftrightarrow> (case e of ConstantValue v \<Rightarrow> GetTypeId v = BOOLEAN \<and> \<not> IsNull M v | _ \<Rightarrow> True)"

definition is_constant :: "'d expr \<Rightarrow> bool" where
  "is_constant e \<longleftrightarrow> (case e of ConstantValue v \<Rightarrow> True | _ \<Rightarrow> False)"

text \<open>
  What the planner guarantees of a node with the column types \<open>ts\<close> over children with the types \<open>tss\<close>:
  the types of the columns and of the expressions over them; a join whose predicate is a constant (a
  cross product) is an inner join. Scans read tables in \<open>known\<close>. The predicates of joins, and the
  filters that may become one, have \<open>hashable\<close> equalities.
\<close>

definition node_ok :: "'d machine \<Rightarrow> 'd database \<Rightarrow> nat set \<Rightarrow> 'd plan_kind \<Rightarrow> type_id list \<Rightarrow> type_id list list \<Rightarrow> bool" where
  "node_ok M db known k ts tss \<longleftrightarrow>
     (case k of
        SeqScan oid name pred \<Rightarrow> tss = [] \<and> oid \<in> known \<and> rows_typed ts (table_content db oid)
      | FilterPlan e \<Rightarrow> tss = [ts] \<and> typed ts e \<and> constant_ok M e \<and> hashable e
      | Projection es \<Rightarrow> (\<exists>t. tss = [t] \<and> list_all (typed t) es) \<and> map GetReturnType es = ts
      | LimitPlan n \<Rightarrow> tss = [ts]
      | ValuesPlan rows \<Rightarrow> tss = [] \<and> (\<forall>row \<in> set rows. list_all (typed []) row \<and> map GetReturnType row = ts)
      | NestedLoopJoin e type \<Rightarrow> (\<exists>l r. tss = [l, r] \<and> ts = l @ r \<and> typed_join l r e) \<and> constant_ok M e \<and>
          (is_constant e \<longrightarrow> type = INNER) \<and> hashable e
      | HashJoin lk rk type \<Rightarrow> (\<exists>l r. tss = [l, r] \<and> ts = l @ r)
      | SortPlan obs \<Rightarrow> length tss = 1 \<and> (\<forall>inputs rows. other_rows db k inputs = Inr rows \<longrightarrow> rows_typed ts rows)
      | _ \<Rightarrow> (\<forall>inputs rows. other_rows db k inputs = Inr rows \<longrightarrow> rows_typed ts rows))"

fun plan_ok :: "'d machine \<Rightarrow> 'd database \<Rightarrow> nat set \<Rightarrow> 'd plan_node \<Rightarrow> bool" where
  "plan_ok M db known (PlanNode k s cs) \<longleftrightarrow>
     list_all (plan_ok M db known) cs \<and> node_ok M db known k (map column_type (columns s)) (map types cs)"

lemma plan_ok_iff:
  "plan_ok M db known p \<longleftrightarrow> list_all (plan_ok M db known) (children p) \<and> node_ok M db known (plan_kind p) (types p) (map types (children p))"
  by (cases p) (simp add: types_def)

lemma plan_rows_iff:
  "plan_rows M db p = rbind (map_result (plan_rows M db) (children p)) (node_rows M db (plan_kind p) (map types (children p)))"
  by (cases p) simp

end
