(* ===== verification/Optimizer_Proofs.thy ===== *)
theory Optimizer_Proofs
  imports Plan_Rows
begin

section \<open>The optimizer keeps what a plan returns\<close>

text \<open>
  Every rule takes a well-formed plan to a well-formed plan with the same columns that returns the
  same rows in the same order whenever the original returns: \<open>refines\<close>. \<open>bottom_up_refines\<close> reduces
  a rule to what it does with one node.
\<close>

subsection \<open>Lists of results\<close>

lemma map_result_Inr_iff: "map_result f xs = Inr ys \<longleftrightarrow> list_all2 (\<lambda>x y. f x = Inr y) xs ys"
proof (induction xs arbitrary: ys)
  case (Cons x xs)
  note IH = Cons.IH [of "tl ys", symmetric]
  show ?case by (cases ys; cases "f x"; cases "map_result f xs") (use IH in simp_all)
qed auto

lemma map_result_length: "map_result f xs = Inr ys \<Longrightarrow> length ys = length xs"
  by (simp add: map_result_Inr_iff list_all2_lengthD)

lemma map_result_mem: "map_result f xs = Inr ys \<Longrightarrow> y \<in> set ys \<Longrightarrow> \<exists>x \<in> set xs. f x = Inr y"
  unfolding map_result_Inr_iff by (induction rule: list_all2_induct) auto

lemma map_result_id: "(\<And>x. x \<in> set xs \<Longrightarrow> f x = Inr x) \<Longrightarrow> map_result f xs = Inr xs"
  by (induction xs) auto

lemma keep_ConsE:
  assumes "keep f (x # xs) = Inr ys"
  obtains b zs where "f x = Inr b" "keep f xs = Inr zs" "ys = (if b then x # zs else zs)"
  using assms by (cases "f x"; cases "keep f xs") auto

lemma keep_subset: "keep f xs = Inr ys \<Longrightarrow> set ys \<subseteq> set xs"
proof (induction xs arbitrary: ys)
  case (Cons x xs)
  from Cons.prems show ?case by (rule keep_ConsE) (use Cons.IH in \<open>auto split: if_splits\<close>)
qed simp

lemma keep_True: "(\<And>x. x \<in> set xs \<Longrightarrow> f x = Inr True) \<Longrightarrow> keep f xs = Inr xs"
  by (induction xs) auto

lemma keep_cong: "(\<And>x. x \<in> set xs \<Longrightarrow> f x = g x) \<Longrightarrow> keep f xs = keep g xs"
  by (induction xs) auto

lemma keep_append: "keep f (xs @ ys) = rbind (keep f xs) (\<lambda>us. rbind (keep f ys) (\<lambda>vs. Inr (us @ vs)))"
proof (induction xs)
  case Nil
  show ?case by (cases "keep f ys") auto
next
  case (Cons x xs)
  then show ?case by (cases "f x"; cases "keep f xs"; cases "keep f ys") auto
qed

lemma keep_map: "keep f (map g xs) = rbind (keep (\<lambda>x. f (g x)) xs) (\<lambda>us. Inr (map g us))"
proof (induction xs)
  case (Cons x xs)
  then show ?case by (cases "f (g x)"; cases "keep (\<lambda>x. f (g x)) xs") auto
qed simp

subsection \<open>The types of rows\<close>

lemma rows_typedD: "rows_typed ts rows \<Longrightarrow> row \<in> set rows \<Longrightarrow> map GetTypeId row = ts"
  by (simp add: rows_typed_def)

lemma typed_length: "map GetTypeId row = ts \<Longrightarrow> length row = length ts"
  by auto

lemma factory_types:
  "GetIntegerValue i = Inr v \<Longrightarrow> GetTypeId v = INTEGER"
  "GetBooleanOfCmp c = Inr v \<Longrightarrow> GetTypeId v = BOOLEAN"
  "string_value op x = Inr v \<Longrightarrow> GetTypeId v = VARCHAR"
  "GetNullValueByType M t = Inr v \<Longrightarrow> GetTypeId v = t"
  by (auto simp: GetIntegerValue_def Value_int32_def GetBooleanOfCmp_def Value_int8_def string_value_def GetVarcharString_def
      Value_string_def GetNullValueByType_def GetBooleanValue_def GetTinyIntValue_def GetSmallIntValue_def Value_int16_def
      GetBigIntValue_def Value_int64_def GetDecimalValue_def Value_double_def GetVarcharValue_def Value_data_def
      split: val.splits option.splits type_id.splits)

lemma arithmetic_type: "arithmetic_value M op l r = Inr v \<Longrightarrow> GetTypeId v = INTEGER"
  by (cases "ArithmeticExpression_PerformComputation M op l r")
    (auto simp: arithmetic_value_def dest: factory_types split: option.splits)

text \<open>An expression evaluates to a value of its return type.\<close>

lemma Evaluate_type: "typed ts e \<Longrightarrow> map GetTypeId row = ts \<Longrightarrow> Evaluate M e row = Inr v \<Longrightarrow> GetTypeId v = GetReturnType e"
proof (cases e)
  case (ColumnValue t c ty)
  assume "typed ts e" "map GetTypeId row = ts" "Evaluate M e row = Inr v"
  with ColumnValue show ?thesis by (auto split: if_splits)
qed (auto dest: factory_types arithmetic_type)

lemma expressions_typed:
  assumes "map_result (\<lambda>e. Evaluate M e row) es = Inr vs" "list_all (typed ts) es" "map GetTypeId row = ts"
  shows "map GetTypeId vs = map GetReturnType es"
proof -
  have "list_all2 (\<lambda>e v. Evaluate M e row = Inr v) es vs" using assms(1) by (simp add: map_result_Inr_iff)
  then show ?thesis using assms(2) by (induction rule: list_all2_induct) (auto dest: Evaluate_type [OF _ assms(3)])
qed

lemma keep_typed: "keep f rows = Inr rows' \<Longrightarrow> rows_typed ts rows \<Longrightarrow> rows_typed ts rows'"
  using keep_subset by (fastforce simp: rows_typed_def)

lemma null_row_typed: "null_row M ts = Inr row \<Longrightarrow> map GetTypeId row = ts"
proof -
  assume "null_row M ts = Inr row"
  then have "list_all2 (\<lambda>t v. GetNullValueByType M t = Inr v) ts row" by (simp add: null_row_def map_result_Inr_iff)
  then show ?thesis by (induction rule: list_all2_induct) (auto dest: factory_types)
qed

lemma join_left_typed:
  assumes "join_left m type (null_row M rts) rs l = Inr rows" "map GetTypeId l = lts" "rows_typed rts rs"
  shows "rows_typed (lts @ rts) rows"
proof -
  obtain ms where ms: "keep (m l) rs = Inr ms" using assms(1) by (cases "keep (m l) rs") (auto simp: join_left_def)
  note w = keep_typed [OF ms assms(3)]
  show ?thesis
  proof (cases "ms = [] \<and> type = LEFT")
    case True
    then obtain pad where "null_row M rts = Inr pad" "rows = [l @ pad]"
      using assms(1) ms by (cases "null_row M rts") (auto simp: join_left_def)
    then show ?thesis using null_row_typed [of M rts pad] assms(2) by (simp add: rows_typed_def)
  next
    case False
    then have "rows = map (\<lambda>r. l @ r) ms" using assms(1) ms by (auto simp: join_left_def)
    then show ?thesis using w assms(2) by (simp add: rows_typed_def)
  qed
qed

lemma join_typed:
  assumes "join_rows m type (null_row M rts) ls rs = Inr rows" "rows_typed lts ls" "rows_typed rts rs"
  shows "rows_typed (lts @ rts) rows"
proof -
  obtain xs where xs: "map_result (join_left m type (null_row M rts) rs) ls = Inr xs" "rows = concat xs"
    using assms(1) by (cases "map_result (join_left m type (null_row M rts) rs) ls") (auto simp: join_rows_def split: if_splits)
  have "rows_typed (lts @ rts) ys" if "ys \<in> set xs" for ys
    using map_result_mem [OF xs(1) that] rows_typedD [OF assms(2)] join_left_typed [OF _ _ assms(3)] by blast
  then show ?thesis by (auto simp: rows_typed_def xs(2))
qed

lemma values_typed:
  assumes "map_result (map_result (\<lambda>e. Evaluate M e [])) vs = Inr rows"
    "\<forall>v \<in> set vs. list_all (typed []) v \<and> map GetReturnType v = ts"
  shows "rows_typed ts rows"
  using map_result_mem [OF assms(1)] expressions_typed [of M "[]"] assms(2) unfolding rows_typed_def by fastforce

lemma projection_typed:
  assumes "map_result (\<lambda>row. map_result (\<lambda>e. Evaluate M e row) es) rows = Inr rows'" "list_all (typed ts) es" "rows_typed ts rows"
  shows "rows_typed (map GetReturnType es) rows'"
  using map_result_mem [OF assms(1)] expressions_typed [OF _ assms(2)] rows_typedD [OF assms(3)] unfolding rows_typed_def by metis

lemma inputs_typed:
  assumes "list_all (\<lambda>c. \<forall>rows. plan_rows M db c = Inr rows \<longrightarrow> rows_typed (types c) rows) cs"
    "map_result (plan_rows M db) cs = Inr inputs"
  shows "list_all2 rows_typed (map types cs) inputs"
  using assms by (induction cs arbitrary: inputs) (auto simp: rbind_eq_Inr_iff)

text \<open>The rows of a well-formed plan have its columns.\<close>

lemma node_typed:
  assumes "node_ok M db known k ts tss" "list_all2 rows_typed tss inputs" "node_rows M db k tss inputs = Inr rows"
  shows "rows_typed ts rows"
proof (cases k)
  case (SeqScan oid name pred)
  with assms have "tss = []" "inputs = []" "rows_typed ts (table_content db oid)" by (auto simp: node_ok_def)
  with assms(3) SeqScan show ?thesis by (auto simp: node_rows_def split: option.splits intro: keep_typed)
next
  case (FilterPlan e)
  with assms show ?thesis by (auto simp: node_ok_def node_rows_def list_all2_Cons1 intro: keep_typed)
next
  case (Projection es)
  with assms obtain t r where "tss = [t]" "list_all (typed t) es" "inputs = [r]" "rows_typed t r" by (auto simp: node_ok_def list_all2_Cons1)
  with projection_typed [of M es r rows t] assms(1,3) Projection show ?thesis by (auto simp: node_ok_def node_rows_def)
next
  case (LimitPlan n)
  with assms(1,2) obtain r where "inputs = [r]" "rows_typed ts r" by (auto simp: node_ok_def list_all2_Cons1)
  with assms(3) LimitPlan set_take_subset [of n r] show ?thesis by (fastforce simp: node_rows_def rows_typed_def)
next
  case (ValuesPlan vs)
  with assms show ?thesis by (auto simp: node_ok_def node_rows_def intro: values_typed)
next
  case (NestedLoopJoin e type)
  with assms obtain l r t u where "inputs = [l, r]" "tss = [t, u]" "rows_typed t l" "rows_typed u r" "ts = t @ u"
    by (auto simp: node_ok_def list_all2_Cons1)
  with assms(3) NestedLoopJoin show ?thesis by (auto simp: node_rows_def intro: join_typed)
next
  case (HashJoin lk rk type)
  with assms obtain l r t u where "inputs = [l, r]" "tss = [t, u]" "rows_typed t l" "rows_typed u r" "ts = t @ u"
    by (auto simp: node_ok_def list_all2_Cons1)
  with assms(3) HashJoin show ?thesis by (auto simp: node_rows_def intro: join_typed)
qed (use assms(1,3) in \<open>auto simp: node_ok_def node_rows_def\<close>)

lemma plan_typed: "plan_ok M db known p \<Longrightarrow> plan_rows M db p = Inr rows \<Longrightarrow> rows_typed (types p) rows"
proof (induction p arbitrary: rows)
  case (PlanNode k s cs)
  obtain inputs where i: "map_result (plan_rows M db) cs = Inr inputs" "node_rows M db k (map types cs) inputs = Inr rows"
    using PlanNode.prems(2) by (auto simp: rbind_eq_Inr_iff)
  have "list_all (\<lambda>c. \<forall>rows. plan_rows M db c = Inr rows \<longrightarrow> rows_typed (types c) rows) cs"
    using PlanNode.IH PlanNode.prems(1) by (auto simp: list_all_iff)
  from node_typed [OF _ inputs_typed [OF this i(1)] i(2), of known "map column_type (columns s)"] show ?case
    using PlanNode.prems(1) by (simp add: types_def)
qed

subsection \<open>Refinement\<close>

definition refines :: "'d machine \<Rightarrow> 'd database \<Rightarrow> nat set \<Rightarrow> 'd plan_node \<Rightarrow> 'd plan_node \<Rightarrow> bool" where
  "refines M db known p q \<longleftrightarrow> plan_ok M db known q \<and> types q = types p \<and>
     (\<forall>rows. plan_rows M db p = Inr rows \<longrightarrow> plan_rows M db q = Inr rows)"

definition sound_rule :: "'d machine \<Rightarrow> 'd database \<Rightarrow> nat set \<Rightarrow> ('d plan_node \<Rightarrow> 'd plan_node result) \<Rightarrow> bool" where
  "sound_rule M db known rule \<longleftrightarrow> (\<forall>p. plan_ok M db known p \<longrightarrow> (\<exists>q. rule p = Inr q \<and> refines M db known p q))"

lemma refines_refl: "plan_ok M db known p \<Longrightarrow> refines M db known p p"
  by (simp add: refines_def)

lemma refines_trans: "refines M db known p q \<Longrightarrow> refines M db known q r \<Longrightarrow> refines M db known p r"
  by (simp add: refines_def)

lemma sound_ruleD: "sound_rule M db known rule \<Longrightarrow> plan_ok M db known p \<Longrightarrow> \<exists>q. rule p = Inr q \<and> refines M db known p q"
  by (simp add: sound_rule_def)

lemma sound_then: "sound_rule M db known f \<Longrightarrow> sound_rule M db known g \<Longrightarrow> sound_rule M db known (\<lambda>p. rbind (f p) g)"
  unfolding sound_rule_def using refines_trans by (metis rbind_simps(2) refines_def)

lemma sound_keep: "sound_rule M db known Inr"
  by (simp add: sound_rule_def refines_refl)

text \<open>Replacing the children by refinements of them.\<close>

lemma refines_children:
  assumes "list_all2 (refines M db known) cs cs'"
  shows "map types cs' = map types cs" "list_all (plan_ok M db known) cs'"
    "map_result (plan_rows M db) cs = Inr inputs \<Longrightarrow> map_result (plan_rows M db) cs' = Inr inputs"
proof -
  show "map types cs' = map types cs" "list_all (plan_ok M db known) cs'"
    using assms by (induction rule: list_all2_induct) (auto simp: refines_def)
  show "map_result (plan_rows M db) cs = Inr inputs \<Longrightarrow> map_result (plan_rows M db) cs' = Inr inputs"
    using assms by (induction arbitrary: inputs rule: list_all2_induct) (auto simp: refines_def rbind_eq_Inr_iff)
qed

lemma refines_clone:
  assumes "plan_ok M db known (PlanNode k s cs)" "list_all2 (refines M db known) cs cs'"
  shows "refines M db known (PlanNode k s cs) (PlanNode k s cs')"
  using assms(1) refines_children [OF assms(2)] by (auto simp: refines_def types_def rbind_eq_Inr_iff)

lemma children_refined:
  assumes "list_all (\<lambda>c. plan_ok M db known c \<longrightarrow> (\<exists>q. f c = Inr q \<and> refines M db known c q)) cs" "list_all (plan_ok M db known) cs"
  shows "\<exists>cs'. map_result f cs = Inr cs' \<and> list_all2 (refines M db known) cs cs'"
  using assms
proof (induction cs)
  case (Cons c cs)
  then obtain cs' q where "map_result f cs = Inr cs'" "list_all2 (refines M db known) cs cs'" "f c = Inr q" "refines M db known c q"
    by auto
  then show ?case by simp
qed simp

lemma bottom_up_sound:
  assumes "sound_rule M db known rule"
  shows "sound_rule M db known (bottom_up rule)"
proof -
  have "plan_ok M db known p \<longrightarrow> (\<exists>q. bottom_up rule p = Inr q \<and> refines M db known p q)" for p
  proof (induction p)
    case (PlanNode k s cs)
    show ?case
    proof
      assume ok: "plan_ok M db known (PlanNode k s cs)"
      have "list_all (\<lambda>c. plan_ok M db known c \<longrightarrow> (\<exists>q. bottom_up rule c = Inr q \<and> refines M db known c q)) cs"
        unfolding list_all_iff using PlanNode.IH by blast
      with ok obtain cs' where cs': "map_result (bottom_up rule) cs = Inr cs'" "list_all2 (refines M db known) cs cs'"
        using children_refined [of M db known "bottom_up rule" cs] by auto
      note r = refines_clone [OF ok cs'(2)]
      then have "plan_ok M db known (PlanNode k s cs')" by (simp only: refines_def)
      then obtain q where "rule (PlanNode k s cs') = Inr q" "refines M db known (PlanNode k s cs') q"
        using sound_ruleD [OF assms] by blast
      with cs'(1) r show "\<exists>q. bottom_up rule (PlanNode k s cs) = Inr q \<and> refines M db known (PlanNode k s cs) q"
        using refines_trans by (fastforce simp: CloneWithChildren_def)
    qed
  qed
  then show ?thesis by (simp add: sound_rule_def)
qed

subsection \<open>Merging projections\<close>

lemma identical_from_eval:
  assumes "identical_from i es" "i + length es \<le> length row"
  shows "map_result (\<lambda>e. Evaluate M e row) es = Inr (take (length es) (drop i row))"
  using assms
proof (induction es arbitrary: i)
  case (Cons e es)
  then obtain ty where e: "e = ColumnValue 0 i ty" by (auto split: expr.splits)
  have "drop i row = row ! i # drop (Suc i) row" using Cons.prems(2) by (simp add: Cons_nth_drop_Suc)
  with Cons e show ?case by simp
qed simp

lemma merge_projection_sound: "sound_rule M db known merge_projection_rule"
proof -
  have "\<exists>q. merge_projection_rule p = Inr q \<and> refines M db known p q" if ok: "plan_ok M db known p" for p
  proof (cases "\<exists>exprs sub. plan_kind p = Projection exprs \<and> children p = [sub] \<and> types sub = types p \<and> identical_from 0 exprs")
    case True
    then obtain exprs sub where p: "plan_kind p = Projection exprs" "children p = [sub]" "types sub = types p" "identical_from 0 exprs"
      by blast
    let ?q = "PlanNode (plan_kind sub) (output_schema p) (children sub)"
    have rule: "merge_projection_rule p = Inr ?q" using p by (simp add: merge_projection_rule_def types_def)
    have "map GetReturnType exprs = types p" and sub: "plan_ok M db known sub"
      using ok p by (simp_all add: plan_ok_iff [of M db known p] node_ok_def)
    then have n: "length exprs = length (types p)" by (metis length_map)
    have q: "plan_ok M db known ?q" "types ?q = types p" "plan_rows M db ?q = plan_rows M db sub"
      using sub p(3) by (simp_all add: plan_ok_iff [of M db known sub] plan_rows_iff [of M db sub] types_def)
    have "plan_rows M db p = Inr rows \<Longrightarrow> plan_rows M db sub = Inr rows" for rows
    proof -
      assume r: "plan_rows M db p = Inr rows"
      then obtain sub_rows where s: "plan_rows M db sub = Inr sub_rows"
        using p by (auto simp: plan_rows_iff [of M db p] rbind_eq_Inr_iff)
      have w: "rows_typed (types p) sub_rows" using plan_typed [OF sub s] p(3) by simp
      have "map_result (\<lambda>row. map_result (\<lambda>e. Evaluate M e row) exprs) sub_rows = Inr sub_rows"
        using rows_typedD [OF w, THEN typed_length] identical_from_eval [OF p(4)] n by (intro map_result_id) simp
      with r s p show ?thesis by (simp add: plan_rows_iff [of M db p] node_rows_def)
    qed
    with rule q show ?thesis by (auto simp: refines_def)
  next
    case False
    have "merge_projection_rule p = Inr p"
    proof (cases "\<exists>exprs. plan_kind p = Projection exprs")
      case True
      then obtain exprs where k: "plan_kind p = Projection exprs" by blast
      with ok obtain sub where "children p = [sub]"
        by (auto simp: plan_ok_iff [of M db known p] node_ok_def)
      with k False show ?thesis by (auto simp: merge_projection_rule_def types_def)
    qed (simp add: merge_projection_rule_def split: plan_kind.split)
    with ok show ?thesis by (auto intro: refines_refl)
  qed
  then show ?thesis by (simp add: sound_rule_def)
qed

subsection \<open>Merging filters\<close>

lemma rewrite_for_join:
  assumes "typed (lts @ rts) e"
  shows "\<exists>e'. RewriteExpressionForJoin (length lts) (length rts) e = Inr e' \<and>
    (\<forall>l r. length l = length lts \<longrightarrow> EvaluateJoin M e' l r = Evaluate M e (l @ r)) \<and> typed_join lts rts e' \<and>
    is_constant e' = is_constant e \<and> constant_ok M e' = constant_ok M e \<and> GetReturnType e' = GetReturnType e \<and> hashable e' = hashable e"
  using assms
proof (induction e)
  case (ColumnValue t c ty)
  then show ?case by (auto simp: nth_append is_constant_def constant_ok_def)
qed (auto simp: is_constant_def constant_ok_def)

lemma predicate_true_returns: "constant_ok M e \<Longrightarrow> \<exists>b. IsPredicateTrue M e = Inr b \<and> (b \<longrightarrow> (\<exists>v. e = ConstantValue v \<and> holds M v))"
proof (cases e)
  case (ConstantValue v)
  assume "constant_ok M e"
  with ConstantValue obtain i where "v = Boolean i" "\<not> IsNull M v" by (cases v) (auto simp: constant_ok_def)
  with ConstantValue show ?thesis
    by (simp add: IsPredicateTrue_def Value_CastAs_def BooleanType_CastAs_def BooleanType_Copy_def Value_int8_def holds_def cast_def)
qed (auto simp: IsPredicateTrue_def)

lemma keep_concat: "keep f (concat (map g ls)) = rbind (map_result (\<lambda>l. keep f (g l)) ls) (\<lambda>rows. Inr (concat rows))"
proof (induction ls)
  case (Cons l ls)
  then show ?case by (cases "keep f (g l)"; cases "map_result (\<lambda>l. keep f (g l)) ls") (auto simp: keep_append)
qed simp

lemma filter_cross_product:
  "keep f (concat (map (\<lambda>l. map (\<lambda>r. l @ r) rs) ls)) = join_rows (\<lambda>l r. f (l @ r)) INNER nulls ls rs"
proof -
  have "join_left (\<lambda>l r. f (l @ r)) INNER nulls rs l = keep f (map (\<lambda>r. l @ r) rs)" for l
    by (simp add: join_left_def keep_map)
  then have "join_left (\<lambda>l r. f (l @ r)) INNER nulls rs = (\<lambda>l. keep f (map (\<lambda>r. l @ r) rs))" by blast
  then show ?thesis by (simp add: keep_concat join_rows_def)
qed

lemma cross_product:
  "(\<And>l r. m l r = Inr True) \<Longrightarrow> join_rows m INNER nulls ls rs = Inr (concat (map (\<lambda>l. map (\<lambda>r. l @ r) rs) ls))"
proof -
  assume m: "\<And>l r. m l r = Inr True"
  have "join_left m INNER nulls rs l = Inr (map (\<lambda>r. l @ r) rs)" for l
    using keep_True [of rs "m l"] m by (simp add: join_left_def)
  then have "map_result (join_left m INNER nulls rs) ls = Inr (map (\<lambda>l. map (\<lambda>r. l @ r) rs) ls)" by (induction ls) auto
  then show ?thesis by (simp add: join_rows_def)
qed

lemma join_rows_cong:
  assumes "\<And>l r. l \<in> set ls \<Longrightarrow> r \<in> set rs \<Longrightarrow> m l r = m' l r"
  shows "join_rows m type nulls ls rs = join_rows m' type nulls ls rs"
proof -
  have "join_left m type nulls rs l = join_left m' type nulls rs l" if "l \<in> set ls" for l
    using keep_cong [of rs "m l" "m' l"] assms [OF that] by (simp add: join_left_def)
  then have "map_result (join_left m type nulls rs) ls = map_result (join_left m' type nulls rs) ls" by (intro map_result_cong) auto
  then show ?thesis by (simp only: join_rows_def)
qed

text \<open>A join that evaluates its predicate without a fault gives the same with a predicate that agrees on
  the values it had.\<close>

lemma keep_mono:
  assumes "\<And>x b. x \<in> set xs \<Longrightarrow> f x = Inr b \<Longrightarrow> g x = Inr b" "keep f xs = Inr ys"
  shows "keep g xs = Inr ys"
  using assms
proof (induction xs arbitrary: ys)
  case (Cons x xs)
  from Cons.prems(2) show ?case by (rule keep_ConsE) (use Cons in auto)
qed simp

lemma join_rows_mono:
  assumes "\<And>l r b. l \<in> set ls \<Longrightarrow> r \<in> set rs \<Longrightarrow> m l r = Inr b \<Longrightarrow> m' l r = Inr b" "join_rows m type nulls ls rs = Inr rows"
  shows "join_rows m' type nulls ls rs = Inr rows"
proof -
  have l: "join_left m' type nulls rs l = Inr ys" if lm: "l \<in> set ls" "join_left m type nulls rs l = Inr ys" for l ys
  proof -
    obtain ms where "keep (m l) rs = Inr ms" using lm(2) by (cases "keep (m l) rs") (auto simp: join_left_def)
    with keep_mono [of rs "m l" "m' l" ms] assms(1) [OF lm(1)] lm(2) show ?thesis by (simp add: join_left_def)
  qed
  have "map_result (join_left m' type nulls rs) xs = Inr yss"
    if "set xs \<subseteq> set ls" "map_result (join_left m type nulls rs) xs = Inr yss" for xs yss
    using that by (induction xs arbitrary: yss) (auto simp: rbind_eq_Inr_iff l)
  with assms(2) show ?thesis
    by (cases "map_result (join_left m type nulls rs) ls") (auto simp: join_rows_def split: if_splits)
qed

lemma binary_rows:
  assumes "plan_ok M db known p" "children p = [l, r]" "plan_rows M db p = Inr rows"
  obtains ls rs where "plan_rows M db l = Inr ls" "plan_rows M db r = Inr rs" "rows_typed (types l) ls"
    "rows_typed (types r) rs" "node_rows M db (plan_kind p) [types l, types r] [ls, rs] = Inr rows"
proof -
  have ok: "plan_ok M db known l" "plan_ok M db known r" using assms(1,2) by (simp_all add: plan_ok_iff [of M db known p])
  obtain ls rs where "plan_rows M db l = Inr ls" "plan_rows M db r = Inr rs" "node_rows M db (plan_kind p) [types l, types r] [ls, rs] = Inr rows"
    using assms(2,3) by (auto simp: plan_rows_iff [of M db p] rbind_eq_Inr_iff)
  then show ?thesis using that plan_typed ok by blast
qed

lemma merge_filter_nlj_sound: "sound_rule M db known (merge_filter_nlj_rule M)"
proof -
  have "\<exists>q. merge_filter_nlj_rule M p = Inr q \<and> refines M db known p q" if ok: "plan_ok M db known p" for p
  proof (cases "\<exists>e sub j type. plan_kind p = FilterPlan e \<and> children p = [sub] \<and> plan_kind sub = NestedLoopJoin j type")
    case True
    then obtain e sub j type where p: "plan_kind p = FilterPlan e" "children p = [sub]" "plan_kind sub = NestedLoopJoin j type" by blast
    have sub: "plan_ok M db known sub" and e: "types sub = types p" "typed (types p) e" "constant_ok M e" "hashable e"
      using ok p by (simp_all add: plan_ok_iff [of M db known p] node_ok_def)
    from sub p(3) obtain l r where lr: "children sub = [l, r]"
      by (auto simp: plan_ok_iff [of M db known sub] node_ok_def map_eq_Cons_conv)
    have j: "constant_ok M j" "is_constant j \<Longrightarrow> type = INNER" "types p = types l @ types r" and lr_ok: "plan_ok M db known l" "plan_ok M db known r"
      using sub p(3) lr e(1) by (simp_all add: plan_ok_iff [of M db known sub] node_ok_def)
    obtain b where b: "IsPredicateTrue M j = Inr b" "b \<longrightarrow> (\<exists>v. j = ConstantValue v \<and> holds M v)"
      using predicate_true_returns [OF j(1)] by blast
    show ?thesis
    proof (cases b)
      case False
      then show ?thesis using p lr b(1) refines_refl [OF ok] by (simp add: merge_filter_nlj_rule_def)
    next
      case True
      then obtain v where v: "j = ConstantValue v" "holds M v" using b(2) by blast
      then have inner: "type = INNER" using j(2) by (simp add: is_constant_def)
      have cnt: "GetColumnCount (output_schema x) = length (types x)" for x :: "'a plan_node" by (simp add: GetColumnCount_def types_def)
      obtain e' where e': "RewriteExpressionForJoin (length (types l)) (length (types r)) e = Inr e'"
        "\<And>a c. length a = length (types l) \<Longrightarrow> EvaluateJoin M e' a c = Evaluate M e (a @ c)" "constant_ok M e'" "typed_join (types l) (types r) e'" "hashable e'"
        using rewrite_for_join [of "types l" "types r" e M] e(2-) j(3) by auto
      let ?q = "PlanNode (NestedLoopJoin e' INNER) (output_schema p) [l, r]"
      have rule: "merge_filter_nlj_rule M p = Inr ?q" using p lr b(1) True e'(1) inner by (simp add: merge_filter_nlj_rule_def cnt)
      have q: "plan_ok M db known ?q" "types ?q = types p"
        using lr_ok j(3) e'(3-) by (simp_all add: node_ok_def types_def)
      have "plan_rows M db ?q = Inr rows" if r: "plan_rows M db p = Inr rows" for rows
      proof -
        obtain sub_rows where s: "plan_rows M db sub = Inr sub_rows" "keep (\<lambda>row. satisfied M (Evaluate M e row)) sub_rows = Inr rows"
          using r p by (auto simp: plan_rows_iff [of M db p] rbind_eq_Inr_iff node_rows_def)
        obtain ls rs where lrs: "plan_rows M db l = Inr ls" "plan_rows M db r = Inr rs" "rows_typed (types l) ls"
            "node_rows M db (NestedLoopJoin j type) [types l, types r] [ls, rs] = Inr sub_rows"
          using binary_rows [OF sub lr s(1)] p(3) by metis
        have "sub_rows = concat (map (\<lambda>l. map (\<lambda>r. l @ r) rs) ls)"
          using lrs(4) v inner by (simp add: node_rows_def satisfied_def cross_product)
        with s(2) have "join_rows (\<lambda>l r. satisfied M (Evaluate M e (l @ r))) INNER (null_row M (types r)) ls rs = Inr rows"
          using filter_cross_product [of "\<lambda>row. satisfied M (Evaluate M e row)" rs ls "null_row M (types r)"] by simp
        moreover have "join_rows (\<lambda>l r. satisfied M (EvaluateJoin M e' l r)) INNER (null_row M (types r)) ls rs =
            join_rows (\<lambda>l r. satisfied M (Evaluate M e (l @ r))) INNER (null_row M (types r)) ls rs"
          by (rule join_rows_cong) (simp add: e'(2) rows_typedD [OF lrs(3), THEN typed_length])
        ultimately show ?thesis using lrs(1,2) by (simp add: node_rows_def)
      qed
      with rule q show ?thesis by (auto simp: refines_def)
    qed
  next
    case False
    have "merge_filter_nlj_rule M p = Inr p"
    proof (cases "\<exists>e. plan_kind p = FilterPlan e")
      case True
      with ok obtain e sub where "plan_kind p = FilterPlan e" "children p = [sub]"
        by (auto simp: plan_ok_iff [of M db known p] node_ok_def map_eq_Cons_conv)
      with False show ?thesis by (simp add: merge_filter_nlj_rule_def split: plan_kind.split)
    qed (simp add: merge_filter_nlj_rule_def split: plan_kind.split)
    with ok show ?thesis by (auto intro: refines_refl)
  qed
  then show ?thesis by (simp add: sound_rule_def)
qed

subsection \<open>Filters into scans and away\<close>

lemma merge_filter_scan_sound: "sound_rule M db known merge_filter_scan_rule"
proof -
  have "\<exists>q. merge_filter_scan_rule p = Inr q \<and> refines M db known p q" if ok: "plan_ok M db known p" for p
  proof (cases "\<exists>e. plan_kind p = FilterPlan e")
    case True
    then obtain e sub where p: "plan_kind p = FilterPlan e" "children p = [sub]" "types sub = types p" "plan_ok M db known sub"
      using ok by (auto simp: plan_ok_iff [of M db known p] node_ok_def map_eq_Cons_conv)
    show ?thesis
    proof (cases "\<exists>oid name. plan_kind sub = SeqScan oid name None")
      case True
      then obtain oid name where k: "plan_kind sub = SeqScan oid name None" by blast
      let ?q = "PlanNode (SeqScan oid name (Some e)) (output_schema p) []"
      have sub: "children sub = []" "oid \<in> known" "rows_typed (types sub) (table_content db oid)"
        using p(4) k by (simp_all add: plan_ok_iff [of M db known sub] node_ok_def)
      have "plan_ok M db known ?q" using sub(2,3) p(3) by (simp add: node_ok_def types_def)
      moreover have "plan_rows M db ?q = plan_rows M db p"
        using p k sub(1) by (simp add: plan_rows_iff [of M db p] plan_rows_iff [of M db sub] node_rows_def)
      ultimately have "refines M db known p ?q" by (simp add: refines_def types_def)
      with p k show ?thesis by (simp add: merge_filter_scan_rule_def)
    next
      case False
      then have "merge_filter_scan_rule p = Inr p" using p by (auto simp: merge_filter_scan_rule_def split: plan_kind.split option.split)
      then show ?thesis using refines_refl [OF ok] by simp
    qed
  next
    case False
    then have "merge_filter_scan_rule p = Inr p" by (simp add: merge_filter_scan_rule_def split: plan_kind.split)
    then show ?thesis using refines_refl [OF ok] by simp
  qed
  then show ?thesis by (simp add: sound_rule_def)
qed

lemma eliminate_true_filter_sound: "sound_rule M db known (eliminate_true_filter_rule M)"
proof -
  have "\<exists>q. eliminate_true_filter_rule M p = Inr q \<and> refines M db known p q" if ok: "plan_ok M db known p" for p
  proof (cases "\<exists>e. plan_kind p = FilterPlan e")
    case True
    then obtain e sub where p: "plan_kind p = FilterPlan e" "children p = [sub]" "types sub = types p" "plan_ok M db known sub" "constant_ok M e"
      using ok by (auto simp: plan_ok_iff [of M db known p] node_ok_def map_eq_Cons_conv)
    obtain b where b: "IsPredicateTrue M e = Inr b" "b \<longrightarrow> (\<exists>v. e = ConstantValue v \<and> holds M v)"
      using predicate_true_returns [OF p(5)] by blast
    show ?thesis
    proof (cases b)
      case True
      with b(2) have "Evaluate M e row = Inr v \<Longrightarrow> holds M v" for row v by auto
      with True b(2) have "plan_rows M db sub = Inr rows" if "plan_rows M db p = Inr rows" for rows
        using that p keep_True [of _ "\<lambda>row. satisfied M (Evaluate M e row)"]
        by (fastforce simp: plan_rows_iff [of M db p] node_rows_def rbind_eq_Inr_iff satisfied_def)
      with p b(1) True show ?thesis by (simp add: eliminate_true_filter_rule_def refines_def)
    next
      case False
      with p b(1) show ?thesis using refines_refl [OF ok] by (simp add: eliminate_true_filter_rule_def)
    qed
  next
    case False
    then have "eliminate_true_filter_rule M p = Inr p" by (simp add: eliminate_true_filter_rule_def split: plan_kind.split)
    then show ?thesis using refines_refl [OF ok] by simp
  qed
  then show ?thesis by (simp add: sound_rule_def)
qed

subsection \<open>Hash joins\<close>

lemma holds_boolean: "GetBooleanOfCmp c = Inr v \<Longrightarrow> holds M v \<longleftrightarrow> c = CmpTrue"
  by (cases c) (auto simp: GetBooleanOfCmp_def Value_int8_def holds_def BUSTUB_BOOLEAN_NULL_def cast_def)

lemma GetBool_holds: "GetBoolAsCmpBool M v = CmpTrue \<longleftrightarrow> holds M v"
  by (simp add: GetBoolAsCmpBool_def holds_def)

text \<open>Equality of integers and of booleans is symmetric, and equal ones have the same hash.\<close>

lemma int_equals:
  assumes "int_value a = Some i" "int_value b = Some j"
  shows "Value_CompareEquals M a b = (if IsNull M a \<or> IsNull M b then Inr CmpNull else Inr (GetCmpBool (i = j)))"
proof -
  have c: "int_operation M (Inr CmpNull) (int_compare M w f (=) g a b) a b =
      (if IsNull M a \<or> IsNull M b then Inr CmpNull else Inr (GetCmpBool (GetAs w a = j)))" for w f g
    using assms by (cases a; cases b) (auto simp: int_operation_def int_compare_def right_switch_def CheckInteger_def CheckComparable_def int_value_def)
  note defs = Value_CompareEquals_def TinyintType_CompareEquals_def SmallintType_CompareEquals_def
    IntegerType_CompareEquals_def BigintType_CompareEquals_def TINYINT_COMPARE_FUNC_def SMALLINT_COMPARE_FUNC_def
    INT_COMPARE_FUNC_def BIGINT_COMPARE_FUNC_def int_value_def
  show ?thesis by (cases a) (use assms(1) c in \<open>simp_all add: defs\<close>)
qed

lemma hash_boolean: "HashValue M (Boolean i) = Inr (HashBytes (le_bytes 1 (of_bool (cast 8 i \<noteq> 0))))"
  by (simp add: HashValue_def)

lemma boolean_equals:
  "Value_CompareEquals M (Boolean i) (Boolean j) =
     (if IsNull M (Boolean i :: 'd val) \<or> IsNull M (Boolean j :: 'd val) then Inr CmpNull else Inr (GetCmpBool (cast 8 i = cast 8 j)))"
  for M :: "'d machine"
  by (simp add: Value_CompareEquals_def BooleanType_CompareEquals_def comparable_operation_def CheckComparable_def
      BOOLEAN_COMPARE_FUNC_def Value_CastAs_def BooleanType_CastAs_def BooleanType_Copy_def Value_int8_def cast_def)

lemma same_hash_cases:
  assumes "same_hash_types (GetTypeId a) (GetTypeId b)"
  obtains i j where "int_value a = Some i" "int_value b = Some j" | i j where "a = Boolean i" "b = Boolean j"
  using assms by (cases a; cases b) (auto simp: same_hash_types_def int_value_def)

lemma equal_keys:
  assumes "same_hash_types (GetTypeId a) (GetTypeId b)"
  shows "Value_CompareEquals M b a = Value_CompareEquals M a b" "returns (Value_CompareEquals M a b)"
    "Value_CompareEquals M a b = Inr CmpTrue \<Longrightarrow> HashValue M a = HashValue M b \<and> \<not> IsNull M a \<and> \<not> IsNull M b"
    "returns (HashValue M a)" "returns (HashValue M b)"
proof -
  show "Value_CompareEquals M b a = Value_CompareEquals M a b" "returns (Value_CompareEquals M a b)"
    by (rule same_hash_cases [OF assms]; auto simp: int_equals boolean_equals eq_commute)+
  show "Value_CompareEquals M a b = Inr CmpTrue \<Longrightarrow> HashValue M a = HashValue M b \<and> \<not> IsNull M a \<and> \<not> IsNull M b"
    by (rule same_hash_cases [OF assms])
      (auto simp: int_equals boolean_equals hash_of_int GetCmpBool_def hash_boolean split: if_splits)
  show "returns (HashValue M a)" "returns (HashValue M b)"
    by (rule same_hash_cases [OF assms]; auto simp: hash_of_int hash_boolean)+
qed

text \<open>Lists of keys.\<close>

definition keys_comparable :: "'d val list \<Rightarrow> 'd val list \<Rightarrow> bool" where
  "keys_comparable ks ks' = list_all2 (\<lambda>a b. same_hash_types (GetTypeId a) (GetTypeId b)) ks ks'"

definition keys_equal_all :: "'d machine \<Rightarrow> 'd val list \<Rightarrow> 'd val list \<Rightarrow> bool" where
  "keys_equal_all M ks ks' = list_all2 (\<lambda>a b. Value_CompareEquals M a b = Inr CmpTrue) ks ks'"

lemma hash_key_returns: "(\<And>v. v \<in> set ks \<Longrightarrow> returns (HashValue M v)) \<Longrightarrow> returns (hash_key M h ks)"
proof (induction ks arbitrary: h)
  case (Cons v ks)
  then have "returns (HashValue M v)" by simp
  then obtain x where "HashValue M v = Inr x" by (rule returnsE)
  with Cons show ?case by simp
qed simp

lemma list_all2_left: "list_all2 P xs ys \<Longrightarrow> x \<in> set xs \<Longrightarrow> \<exists>y \<in> set ys. P x y"
  by (induction rule: list_all2_induct) auto

lemma list_all2_right: "list_all2 P xs ys \<Longrightarrow> y \<in> set ys \<Longrightarrow> \<exists>x \<in> set xs. P x y"
  by (induction rule: list_all2_induct) auto

lemma keys_comparable_hash:
  assumes "keys_comparable ks ks'"
  shows "returns (hash_key M h ks)" "returns (hash_key M h ks')"
    and "keys_equal_all M ks ks' \<Longrightarrow> hash_key M h ks = hash_key M h ks'"
    and "keys_equal_values M ks ks' = Inr (keys_equal_all M ks ks')"
proof -
  note all = assms [unfolded keys_comparable_def]
  have mems: "\<exists>b \<in> set ks'. same_hash_types (GetTypeId a) (GetTypeId b)" if "a \<in> set ks" for a
    using list_all2_left [OF all that] .
  have mems': "\<exists>a \<in> set ks. same_hash_types (GetTypeId a) (GetTypeId b)" if "b \<in> set ks'" for b
    using list_all2_right [OF all that] .
  show "returns (hash_key M h ks)" "returns (hash_key M h ks')"
    using mems mems' equal_keys(4,5) by (blast intro: hash_key_returns)+
  show "keys_equal_all M ks ks' \<Longrightarrow> hash_key M h ks = hash_key M h ks'"
    using assms unfolding keys_comparable_def keys_equal_all_def
  proof (induction arbitrary: h rule: list_all2_induct)
    case (Cons a as b bs)
    then have e: "HashValue M a = HashValue M b" "\<not> IsNull M a" "\<not> IsNull M b" using equal_keys(3) [of a b M] by simp_all
    obtain x where "HashValue M a = Inr x" using equal_keys(4) [OF Cons(1), of M] by (rule returnsE)
    with Cons e show ?case by simp
  qed simp
  show "keys_equal_values M ks ks' = Inr (keys_equal_all M ks ks')"
    using assms unfolding keys_comparable_def keys_equal_all_def
  proof (induction rule: list_all2_induct)
    case (Cons a as b bs)
    obtain c where "Value_CompareEquals M a b = Inr c" using equal_keys(2) [OF Cons(1), of M] by (rule returnsE)
    with Cons show ?case by simp
  qed simp
qed

lemma hash_matches_keys:
  assumes "map_result (\<lambda>e. Evaluate M e l) lks = Inr ks" "map_result (\<lambda>e. Evaluate M e r) rks = Inr ks'" "keys_comparable ks ks'"
  shows "hash_matches M lks rks l r = Inr (keys_equal_all M ks ks')"
proof -
  note k = keys_comparable_hash [OF assms(3), of M]
  obtain h h' where "hash_key M 0 ks = Inr h" "hash_key M 0 ks' = Inr h'" using k(1,2) [of 0] by (auto elim!: returnsE)
  then show ?thesis using assms(1,2) k(3) [of 0] k(4) by (auto simp: hash_matches_def)
qed

text \<open>The keys taken from a conjunction of equalities are equal exactly when it holds.\<close>

lemma map_result_append: "map_result f xs = Inr us \<Longrightarrow> map_result f ys = Inr vs \<Longrightarrow> map_result f (xs @ ys) = Inr (us @ vs)"
  by (simp add: map_result_Inr_iff list_all2_appendI)

lemma extract_equi_sound:
  assumes "ExtractEquiConditions e = Some (lks, rks)" "typed_join lts rts e" "hashable e"
    "map GetTypeId l = lts" "map GetTypeId r = rts" "EvaluateJoin M e l r = Inr v"
  shows "\<exists>ks ks'. map_result (\<lambda>e. Evaluate M e l) lks = Inr ks \<and> map_result (\<lambda>e. Evaluate M e r) rks = Inr ks' \<and>
    keys_comparable ks ks' \<and> holds M v = keys_equal_all M ks ks'"
  using assms
proof (induction e arbitrary: lks rks v rule: ExtractEquiConditions.induct)
  case (1 a b op)
  from 1(3) obtain la ra lb rb where ex: "op = And" "ExtractEquiConditions a = Some (la, ra)" "ExtractEquiConditions b = Some (lb, rb)"
    "lks = la @ lb" "rks = ra @ rb" by (auto split: if_splits option.splits)
  from 1(8) obtain u w where uw: "EvaluateJoin M a l r = Inr u" "EvaluateJoin M b l r = Inr w"
    "GetBooleanOfCmp (LogicExpression_PerformComputation M op u w) = Inr v" by (auto simp: rbind_eq_Inr_iff)
  obtain ka ka' where ka: "map_result (\<lambda>e. Evaluate M e l) la = Inr ka" "map_result (\<lambda>e. Evaluate M e r) ra = Inr ka'"
      "keys_comparable ka ka'" "holds M u = keys_equal_all M ka ka'"
    using 1(1) [of la ra u] ex 1(4-7) uw(1) by auto
  obtain kb kb' where kb: "map_result (\<lambda>e. Evaluate M e l) lb = Inr kb" "map_result (\<lambda>e. Evaluate M e r) rb = Inr kb'"
      "keys_comparable kb kb'" "holds M w = keys_equal_all M kb kb'"
    using 1(2) [of "(la, ra)" la ra lb rb w] ex 1(4-7) uw(2) by auto
  have "holds M v \<longleftrightarrow> holds M u \<and> holds M w"
    using holds_boolean [OF uw(3), of M] ex(1) GetBool_holds [of M u] GetBool_holds [of M w]
    by (auto simp: LogicExpression_PerformComputation_def Let_def)
  moreover have "length ka = length ka'" using ka(3) by (simp add: keys_comparable_def list_all2_lengthD)
  ultimately show ?case
    using ka kb map_result_append [OF ka(1) kb(1)] map_result_append [OF ka(2) kb(2)] ex(4,5)
    by (auto simp: keys_comparable_def keys_equal_all_def list_all2_append)
next
  case (2 t c ty t' c' ty' op)
  from 2(1) have op: "op = Equal" "t \<noteq> t'" by (auto split: if_splits)
  from op 2(2) consider (lr) "t = 0" "t' = 1" "c < length lts" "ty = lts ! c" "c' < length rts" "ty' = rts ! c'"
    | (rl) "t = 1" "t' = 0" "c < length rts" "ty = rts ! c" "c' < length lts" "ty' = lts ! c'" by auto
  then show ?case
  proof cases
    case lr
    have len: "c < length l" "c' < length r" "GetTypeId (l ! c) = ty" "GetTypeId (r ! c') = ty'" using lr 2(4,5) by auto
    then have h: "same_hash_types (GetTypeId (l ! c)) (GetTypeId (r ! c'))" using 2(3) op(1) by simp
    obtain x where x: "Value_CompareEquals M (l ! c) (r ! c') = Inr x" "GetBooleanOfCmp x = Inr v"
      using 2(6) op lr len by (auto simp: PerformComparison_def rbind_eq_Inr_iff)
    show ?thesis using 2(1) op lr len h x holds_boolean [OF x(2), of M]
      by (auto simp: keys_comparable_def keys_equal_all_def)
  next
    case rl
    have len: "c < length r" "c' < length l" "GetTypeId (r ! c) = ty" "GetTypeId (l ! c') = ty'" using rl 2(4,5) by auto
    then have h: "same_hash_types (GetTypeId (r ! c)) (GetTypeId (l ! c'))" using 2(3) op(1) by simp
    obtain x where x: "Value_CompareEquals M (r ! c) (l ! c') = Inr x" "GetBooleanOfCmp x = Inr v"
      using 2(6) op rl len by (auto simp: PerformComparison_def rbind_eq_Inr_iff)
    have "same_hash_types (GetTypeId (l ! c')) (GetTypeId (r ! c))" using h by (auto simp: same_hash_types_def Let_def)
    then show ?thesis using 2(1) op rl len x equal_keys(1) [OF h, of M] holds_boolean [OF x(2), of M]
      by (auto simp: keys_comparable_def keys_equal_all_def)
  qed
qed simp_all

lemma nlj_as_hash_join_sound: "sound_rule M db known nlj_as_hash_join_rule"
proof -
  have "\<exists>q. nlj_as_hash_join_rule p = Inr q \<and> refines M db known p q" if ok: "plan_ok M db known p" for p
  proof (cases "\<exists>e type lks rks. plan_kind p = NestedLoopJoin e type \<and> ExtractEquiConditions e = Some (lks, rks)")
    case True
    then obtain e type lks rks where p: "plan_kind p = NestedLoopJoin e type" "ExtractEquiConditions e = Some (lks, rks)" by blast
    then obtain l r where lr: "children p = [l, r]" "types p = types l @ types r" "typed_join (types l) (types r) e" "hashable e"
        "plan_ok M db known l" "plan_ok M db known r"
      using ok by (auto simp: plan_ok_iff [of M db known p] node_ok_def map_eq_Cons_conv)
    let ?q = "PlanNode (HashJoin lks rks type) (output_schema p) [l, r]"
    have rule: "nlj_as_hash_join_rule p = Inr ?q" using p lr by (simp add: nlj_as_hash_join_rule_def)
    have q: "plan_ok M db known ?q" "types ?q = types p" using lr by (simp_all add: node_ok_def types_def)
    have "plan_rows M db ?q = Inr rows" if rows: "plan_rows M db p = Inr rows" for rows
    proof -
      obtain ls rs where lrs: "plan_rows M db l = Inr ls" "plan_rows M db r = Inr rs" "rows_typed (types l) ls" "rows_typed (types r) rs"
          "node_rows M db (NestedLoopJoin e type) [types l, types r] [ls, rs] = Inr rows"
        using binary_rows [OF ok lr(1) rows] p(1) by metis
      have m: "hash_matches M lks rks a b = Inr t" if "a \<in> set ls" "b \<in> set rs" "satisfied M (EvaluateJoin M e a b) = Inr t" for a b t
        using that(3) extract_equi_sound [OF p(2) lr(3,4) rows_typedD [OF lrs(3) that(1)] rows_typedD [OF lrs(4) that(2)]] hash_matches_keys
        by (fastforce simp: satisfied_def rbind_eq_Inr_iff)
      then have "join_rows (hash_matches M lks rks) type (null_row M (types r)) ls rs = Inr rows"
        using join_rows_mono [of ls rs "\<lambda>l r. satisfied M (EvaluateJoin M e l r)" "hash_matches M lks rks"] lrs(5)
        by (simp add: node_rows_def)
      then show ?thesis using lrs(1,2) by (simp add: node_rows_def)
    qed
    with rule q show ?thesis by (auto simp: refines_def)
  next
    case False
    then have "nlj_as_hash_join_rule p = Inr p" by (auto simp: nlj_as_hash_join_rule_def split: plan_kind.split option.split)
    then show ?thesis using refines_refl [OF ok] by simp
  qed
  then show ?thesis by (simp add: sound_rule_def)
qed

subsection \<open>The pipelines\<close>

text \<open>In a catalog without indexes the rules that look for one leave every node as it is.\<close>

definition no_indexes :: "map_order \<Rightarrow> 'i catalog \<Rightarrow> nat set \<Rightarrow> bool" where
  "no_indexes order c known \<longleftrightarrow> (\<forall>name. GetTableIndexes order name c = Inr []) \<and> (\<forall>oid \<in> known. GetTable_oid oid c \<noteq> None)"

lemma no_indexes_table: "no_indexes order c known \<Longrightarrow> oid \<in> known \<Longrightarrow> \<exists>t. table_indexes order c oid = Inr (t, [])"
  by (auto simp: no_indexes_def table_indexes_def)

lemma sound_same:
  assumes "\<And>p. plan_ok M db known p \<Longrightarrow> rule p = Inr p"
  shows "sound_rule M db known rule"
  using assms by (auto simp: sound_rule_def intro: refines_refl)

lemma scan_known: "plan_ok M db known p \<Longrightarrow> plan_kind p = SeqScan oid name pred \<Longrightarrow> oid \<in> known"
  by (simp add: plan_ok_iff [of M db known p] node_ok_def)

lemma order_by_index_scan_sound:
  assumes "no_indexes order c known"
  shows "sound_rule M db known (order_by_index_scan_rule order c)"
proof (rule sound_same)
  fix p assume ok: "plan_ok M db known p"
  show "order_by_index_scan_rule order c p = Inr p"
  proof (cases "\<exists>obs. plan_kind p = SortPlan obs")
    case True
    then obtain obs sub where p: "plan_kind p = SortPlan obs" "children p = [sub]" "plan_ok M db known sub"
      using ok by (auto simp: plan_ok_iff [of M db known p] node_ok_def length_Suc_conv)
    then show ?thesis
      using no_indexes_table [OF assms] scan_known [OF p(3)]
      by (fastforce simp: order_by_index_scan_rule_def split: plan_kind.split option.split)
  qed (simp add: order_by_index_scan_rule_def split: plan_kind.split)
qed

lemma seq_scan_as_index_scan_sound:
  assumes "no_indexes order c known"
  shows "sound_rule M db known (seq_scan_as_index_scan_rule order c)"
proof (rule sound_same)
  fix p assume ok: "plan_ok M db known p"
  show "seq_scan_as_index_scan_rule order c p = Inr p"
    using no_indexes_table [OF assms] scan_known [OF ok]
    by (fastforce simp: seq_scan_as_index_scan_rule_def split: plan_kind.split option.split)
qed

lemma nlj_as_index_join_sound:
  assumes "no_indexes order c known"
  shows "sound_rule M db known (nlj_as_index_join_rule order c)"
proof (rule sound_same)
  fix p assume ok: "plan_ok M db known p"
  have m: "MatchIndex order c name i = Inr None" for name i using assms by (simp add: MatchIndex_def no_indexes_def)
  show "nlj_as_index_join_rule order c p = Inr p"
  proof (cases "\<exists>e type. plan_kind p = NestedLoopJoin e type")
    case True
    then obtain e type l r where "plan_kind p = NestedLoopJoin e type" "children p = [l, r]"
      using ok by (auto simp: plan_ok_iff [of M db known p] node_ok_def map_eq_Cons_conv)
    then show ?thesis
      by (simp add: nlj_as_index_join_rule_def m Let_def split: expr.split plan_kind.split ComparisonType.split)
  qed (simp add: nlj_as_index_join_rule_def split: plan_kind.split)
qed

lemmas rule_soundness = bottom_up_sound merge_projection_sound merge_filter_nlj_sound merge_filter_scan_sound
  nlj_as_hash_join_sound nlj_as_index_join_sound order_by_index_scan_sound seq_scan_as_index_scan_sound sound_then sound_keep

lemma Optimize_sound:
  assumes "no_indexes order c known"
  shows "sound_rule M db known (Optimize force M order c)"
proof -
  have custom: "sound_rule M db known (OptimizeCustom M order c)"
    unfolding OptimizeCustom_def [abs_def] OptimizeMergeProjection_def OptimizeMergeFilterNLJ_def OptimizeNLJAsHashJoin_def
      OptimizeOrderByAsIndexScan_def OptimizeSortLimitAsTopN_def [abs_def] OptimizeMergeFilterScan_def OptimizeSeqScanAsIndexScan_def
    by (intro rule_soundness assms)
  have "sound_rule M db known (\<lambda>p. rbind (OptimizeMergeProjection p) (\<lambda>p. rbind (OptimizeMergeFilterNLJ M p) (\<lambda>p.
      rbind (OptimizeNLJAsIndexJoin order c p) (\<lambda>p. rbind (OptimizeOrderByAsIndexScan order c p) (\<lambda>p.
      rbind (OptimizeMergeFilterScan p) (\<lambda>p. OptimizeSeqScanAsIndexScan order c p))))))"
    unfolding OptimizeMergeProjection_def OptimizeMergeFilterNLJ_def OptimizeNLJAsIndexJoin_def
      OptimizeOrderByAsIndexScan_def OptimizeMergeFilterScan_def OptimizeSeqScanAsIndexScan_def
    by (intro rule_soundness assms)
  with custom show ?thesis by (cases force) (simp_all add: Optimize_def [abs_def])
qed

end
