(* ===== verification/Optimizer_Props.thy ===== *)
theory Optimizer_Props
  imports Optimizer_Proofs
begin

section \<open>The optimizer's property and its limits\<close>

text \<open>
  The rules together, as \<^verbatim>\<open>optimizer_custom_rules.cpp\<close> and \<^verbatim>\<open>optimizer.cpp\<close> run them, keep the rows of a plan; and the
  plans whose rows single rules do change.
\<close>


text \<open>Two tables of one integer column, and the query \<open>SELECT * FROM a, b WHERE a.x = b.y\<close> as it is planned.\<close>

definition int_column :: "string \<Rightarrow> column" where
  "int_column name = \<lparr>column_name = name, column_type = INTEGER, column_length = 4, column_offset = 0\<rparr>"

definition demo_db :: "int database" where
  "demo_db = \<lparr>table_content = (\<lambda>oid. if oid = 0 then [[Integer 1], [Integer 2]] else [[Integer 2], [Integer 3]]),
     other_rows = (\<lambda>k inputs. Inl Assertion)\<rparr>"

definition demo_tables :: "unit catalog" where
  "demo_tables = \<lparr>tables = [0 \<mapsto> demo_table (TableHeap 0), 1 \<mapsto> (demo_table (TableHeap 1))\<lparr>ti_name := ''b'', ti_oid := 1\<rparr>],
     table_names = [''t'' \<mapsto> 0, ''b'' \<mapsto> 1], next_table_oid = 2, indexes = Map.empty, index_names = [''t'' \<mapsto> [], ''b'' \<mapsto> []], next_index_oid = 0\<rparr>"

definition demo_join :: "join_type \<Rightarrow> int plan_node" where
  "demo_join type = PlanNode (NestedLoopJoin (ConstantValue (Boolean 1)) type) (Schema [int_column ''t.x'', int_column ''b.y''])
     [PlanNode (SeqScan 0 ''t'' None) (Schema [int_column ''t.x'']) [], PlanNode (SeqScan 1 ''b'' None) (Schema [int_column ''b.y'']) []]"

definition demo_query :: "join_type \<Rightarrow> int expr \<Rightarrow> int plan_node" where
  "demo_query type e = PlanNode (Projection [ColumnValue 0 0 INTEGER, ColumnValue 0 1 INTEGER]) (Schema [int_column ''x'', int_column ''y''])
     [PlanNode (FilterPlan e) (Schema [int_column ''t.x'', int_column ''b.y'']) [demo_join type]]"

definition demo_equality :: "int expr" where
  "demo_equality = Comparison (ColumnValue 0 0 INTEGER) (ColumnValue 0 1 INTEGER) Equal"

lemma add_columns_types: "map column_type (columns (add_columns cs i off s)) = map column_type (columns s) @ map column_type cs"
  by (induction cs arbitrary: i off s) (auto simp: Let_def)

lemma Schema_types: "map column_type (columns (Schema cs)) = map column_type cs"
  by (simp add: Schema_def add_columns_types)

lemma demo_query_ok: "plan_ok toy_machine demo_db {0, 1} (demo_query INNER demo_equality)" "no_indexes id demo_tables {0, 1}"
  by (simp_all add: demo_query_def demo_join_def demo_equality_def node_ok_def types_def Schema_types int_column_def rows_typed_def
      demo_db_def constant_ok_def same_hash_types_def BUSTUB_BOOLEAN_NULL_def is_constant_def no_indexes_def demo_tables_def
      GetTableIndexes_def GetTable_oid_def)


subsection \<open>Where a rule changes the result\<close>

text \<open>A filter over a left join without a condition becomes its condition: rows the filter drops come
  back padded with nulls.\<close>

lemma demo_left_optimized:
  "Optimize True toy_machine id demo_tables (demo_query LEFT demo_equality) =
     Inr (PlanNode (NestedLoopJoin (Comparison (ColumnValue 0 0 INTEGER) (ColumnValue 1 0 INTEGER) Equal) LEFT)
       (Schema [int_column ''x'', int_column ''y'']) (children (demo_join LEFT)))"
proof -
  have "GetColumnCount (Schema cs) = length cs" for cs using arg_cong [OF Schema_types, of length cs] by (simp add: GetColumnCount_def)
  moreover have "IsPredicateTrue toy_machine (ConstantValue (Boolean 1)) = Inr True"
    by (simp add: IsPredicateTrue_def Value_CastAs_def BooleanType_CastAs_def BooleanType_Copy_def Value_int8_def cast_def)
  ultimately show ?thesis
    by (simp add: Optimize_def demo_query_def demo_join_def demo_equality_def OptimizeMergeProjection_def merge_projection_rule_def
        OptimizeMergeFilterNLJ_def merge_filter_nlj_rule_def OptimizeNLJAsIndexJoin_def nlj_as_index_join_rule_def MatchIndex_def
        OptimizeOrderByAsIndexScan_def order_by_index_scan_rule_def OptimizeMergeFilterScan_def merge_filter_scan_rule_def
        OptimizeSeqScanAsIndexScan_def seq_scan_as_index_scan_rule_def CloneWithChildren_def Schema_types int_column_def
        demo_tables_def GetTableIndexes_def Let_def)
qed

lemma merge_filter_left_join_wrong:
  "plan_rows toy_machine demo_db (demo_query LEFT demo_equality) = Inr [[Integer 2, Integer 2]]"
  "rbind (Optimize True toy_machine id demo_tables (demo_query LEFT demo_equality)) (plan_rows toy_machine demo_db) =
     Inr [[Integer 1, Integer BUSTUB_INT32_NULL], [Integer 2, Integer 2]]"
proof -
  show "plan_rows toy_machine demo_db (demo_query LEFT demo_equality) = Inr [[Integer 2, Integer 2]]" by code_simp
  show "rbind (Optimize True toy_machine id demo_tables (demo_query LEFT demo_equality)) (plan_rows toy_machine demo_db) =
     Inr [[Integer 1, Integer BUSTUB_INT32_NULL], [Integer 2, Integer 2]]"
    unfolding demo_left_optimized rbind_simps by code_simp
qed

text \<open>A null predicate counts as always true, and the filter that keeps no row is dropped.\<close>

lemma null_predicate_is_true:
  "IsPredicateTrue M (ConstantValue (Boolean BUSTUB_BOOLEAN_NULL)) = Inr True"
  "\<not> holds M (Boolean BUSTUB_BOOLEAN_NULL)"
  by (simp_all add: IsPredicateTrue_def Value_CastAs_def BooleanType_CastAs_def BooleanType_Copy_def Value_int8_def holds_def
      BUSTUB_BOOLEAN_NULL_def cast_def)

end
