(* ===== verification/Sorting.thy ===== *)
theory Sorting
  imports Plans Executor_Proofs Value_Props "HOL-Library.Multiset" "HOL-Library.List_Lexorder"
begin

section \<open>Sorting\<close>

text \<open>
  \<^verbatim>\<open>src/execution/external_merge_sort_executor.cpp\<close> and the comparator of
  \<^verbatim>\<open>src/execution/execution_common.cpp\<close>. A tuple is its values and the record id it carries. The
  executor keeps all tuples with their sort keys in a vector and sorts it with \<open>std::sort\<close>, which is
  a parameter: what the standard promises of it is the predicate \<open>sorts\<close>.
\<close>

type_synonym 'd stored = "'d val list \<times> rid"
type_synonym 'd sort_entry = "'d val list \<times> 'd stored"

subsection \<open>Comparing entries\<close>

fun compare_keys :: "'d machine \<Rightarrow> 'd order_by list \<Rightarrow> 'd val list \<Rightarrow> 'd val list \<Rightarrow> bool result" where
  "compare_keys M [] key_a key_b = Inr False"
| "compare_keys M ((direction, null_order, expr) # order_bys) (a # key_a) (b # key_b) =
     (if IsNull M a \<and> IsNull M b then compare_keys M order_bys key_a key_b
      else if IsNull M a \<or> IsNull M b then
        (let nulls_first = (null_order = NULLS_FIRST \<or> null_order = NullsDefault \<and> direction = DESC)
         in Inr (IsNull M a = nulls_first))
      else
        rbind (Value_CompareEquals M a b) (\<lambda>equal.
          if equal = CmpTrue then compare_keys M order_bys key_a key_b
          else rbind (if direction = DESC then Value_CompareGreaterThan M a b else Value_CompareLessThan M a b) (\<lambda>c.
            Inr (c = CmpTrue))))"
| "compare_keys M (_ # _) key_a key_b = Inl Undefined"

definition TupleComparator :: "'d machine \<Rightarrow> 'd order_by list \<Rightarrow> 'd sort_entry \<Rightarrow> 'd sort_entry \<Rightarrow> bool result" where
  "TupleComparator M order_bys entry_a entry_b = compare_keys M order_bys (fst entry_a) (fst entry_b)"

definition GenerateSortKey :: "'d machine \<Rightarrow> 'd stored \<Rightarrow> 'd order_by list \<Rightarrow> 'd val list result" where
  "GenerateSortKey M tuple order_bys = map_result (\<lambda>(direction, null_order, expr). Evaluate M expr (fst tuple)) order_bys"

subsection \<open>The executor\<close>

record ('s, 'd) sorter =
  sorter_child :: 's
  sorter_entries :: "'d sort_entry list"
  sorter_cursor :: nat

type_synonym 'e std_sort = "('e \<Rightarrow> 'e \<Rightarrow> bool result) \<Rightarrow> 'e list \<Rightarrow> 'e list result"

definition sort_collect :: "'d machine \<Rightarrow> 'd order_by list \<Rightarrow> 'd stored \<times> rid \<Rightarrow> 'd sort_entry list \<Rightarrow> 'd sort_entry list result" where
  "sort_collect M order_bys row es = rbind (GenerateSortKey M (fst row) order_bys) (\<lambda>key. Inr (es @ [(key, fst row)]))"

definition sort_init :: "'d machine \<Rightarrow> 'd sort_entry std_sort \<Rightarrow> ('s \<Rightarrow> 's result) \<Rightarrow> ('s, 'd stored) next_fn \<Rightarrow>
    'd order_by list \<Rightarrow> ('s, 'd) sorter \<Rightarrow> ('s, 'd) sorter result" where
  "sort_init M std_sort init nxt order_bys st =
     rbind (init (sorter_child st)) (\<lambda>c.
     rbind (consume nxt (sort_collect M order_bys) c []) (\<lambda>(es, c').
     rbind (std_sort (TupleComparator M order_bys) es) (\<lambda>sorted_es.
       Inr \<lparr>sorter_child = c', sorter_entries = sorted_es, sorter_cursor = 0\<rparr>)))"

definition sort_next :: "(('s, 'd) sorter, 'd stored) next_fn" where
  "sort_next n st =
     (let (batch, cursor) = emit_loop (\<lambda>(key, tuple). (tuple, snd tuple)) (sorter_entries st) n (sorter_cursor st) []
      in Inr (batch \<noteq> [], batch, st\<lparr>sorter_cursor := cursor\<rparr>))"

subsection \<open>The order on keys\<close>

text \<open>The values a column can be sorted by: integers of any width, booleans, strings. Their rank is a list
  of numbers, compared lexicographically; a null has none.\<close>

datatype sort_class = Integers | Booleans | Strings

fun has_class :: "sort_class \<Rightarrow> 'd val \<Rightarrow> bool" where
  "has_class Integers v \<longleftrightarrow> CheckInteger v \<and> wf_value v"
| "has_class Booleans v \<longleftrightarrow> (\<exists>i. v = Boolean i \<and> fits 8 i)"
| "has_class Strings v \<longleftrightarrow> (\<exists>s. v = Varchar s \<and> s \<noteq> Some [])"

fun rank :: "'d machine \<Rightarrow> 'd val \<Rightarrow> int list option" where
  "rank M (Varchar s) = map_option (\<lambda>bytes. map of_char (butlast bytes)) s"
| "rank M v = (if IsNull M v then None else Some [GetAs 64 v])"

definition rank_less :: "OrderByType \<Rightarrow> OrderByNullType \<Rightarrow> int list option \<Rightarrow> int list option \<Rightarrow> bool" where
  "rank_less direction null_order a b =
     (case (a, b) of
        (None, None) \<Rightarrow> False
      | (None, Some y) \<Rightarrow> null_order = NULLS_FIRST \<or> null_order = NullsDefault \<and> direction = DESC
      | (Some x, None) \<Rightarrow> \<not> (null_order = NULLS_FIRST \<or> null_order = NullsDefault \<and> direction = DESC)
      | (Some x, Some y) \<Rightarrow> if direction = DESC then y < x else x < y)"

fun precedes :: "'d machine \<Rightarrow> 'd order_by list \<Rightarrow> 'd val list \<Rightarrow> 'd val list \<Rightarrow> bool" where
  "precedes M ((direction, null_order, expr) # order_bys) (a # key_a) (b # key_b) \<longleftrightarrow>
     rank_less direction null_order (rank M a) (rank M b) \<or> rank M a = rank M b \<and> precedes M order_bys key_a key_b"
| "precedes M _ _ _ \<longleftrightarrow> False"

lemma rank_less_order:
  "\<not> rank_less d n x x"
  "rank_less d n x y \<Longrightarrow> rank_less d n y z \<Longrightarrow> rank_less d n x z"
  "rank_less d n x y \<or> x = y \<or> rank_less d n y x"
  by (cases x; cases y; cases z; auto simp: rank_less_def split: if_splits)+

lemma precedes_irrefl: "\<not> precedes M obs k k"
proof (induction obs arbitrary: k)
  case (Cons ob obs)
  then show ?case by (cases ob; cases k) (simp_all add: rank_less_order)
qed simp

lemma precedes_trans: "precedes M obs a b \<Longrightarrow> precedes M obs b c \<Longrightarrow> precedes M obs a c"
proof (induction M obs a b arbitrary: c rule: precedes.induct)
  case (1 M d n e obs a ka b kb)
  then obtain x kc where c: "c = x # kc" by (cases c) auto
  show ?case using 1 rank_less_order(2) [of d n "rank M a" "rank M b" "rank M x"] by (auto simp: c)
qed auto

text \<open>Not preceding is transitive too: the order is a strict weak order on keys of one length.\<close>

lemma not_less_trans:
  assumes "\<not> rank_less d n x y" "\<not> rank_less d n y z"
  shows "\<not> rank_less d n x z" "x = z \<Longrightarrow> y = z"
proof -
  have yx: "y = x \<or> rank_less d n y x" and zy: "z = y \<or> rank_less d n z y" using assms rank_less_order(3) by metis+
  then have zx: "z = x \<or> rank_less d n z x" using rank_less_order(2) by metis
  then show "\<not> rank_less d n x z" using rank_less_order(1,2) by metis
  show "y = z" if "x = z" using yx zy that rank_less_order(1,2) by metis
qed

lemma not_precedes_trans:
  "length a = length obs \<Longrightarrow> length b = length obs \<Longrightarrow> length c = length obs \<Longrightarrow>
   \<not> precedes M obs a b \<Longrightarrow> \<not> precedes M obs b c \<Longrightarrow> \<not> precedes M obs a c"
proof (induction obs arbitrary: a b c)
  case (Cons ob obs)
  obtain d n e where ob: "ob = (d, n, e)" by (cases ob)
  obtain x ka y kb z kc where k: "a = x # ka" "b = y # kb" "c = z # kc"
    using Cons.prems(1-3) by (metis length_Suc_conv)
  have r: "\<not> rank_less d n (rank M x) (rank M y)" "\<not> rank_less d n (rank M y) (rank M z)"
    using Cons.prems(4,5) by (auto simp: ob k)
  have "\<not> precedes M obs ka kc" if "rank M x = rank M z"
  proof -
    have "rank M x = rank M y" "rank M y = rank M z" using not_less_trans(2) [OF r that] that by simp_all
    then have "\<not> precedes M obs ka kb" "\<not> precedes M obs kb kc" using Cons.prems(4,5) by (simp_all add: ob k)
    with Cons.IH [of ka kb kc] Cons.prems(1-3) show ?thesis by (simp add: k)
  qed
  then show ?case using not_less_trans(1) [OF r] by (simp add: ob k)
qed simp

text \<open>On values of one class the comparator decides that order.\<close>

lemma Nil_first: "[] < xs \<longleftrightarrow> xs \<noteq> []" for xs :: "int list"
  by (cases xs) auto

lemma memcmp_lexicographic:
  "(memcmp s t = 0 \<and> length s = length t \<longleftrightarrow> s = t) \<and>
   (CompareStrings s t < 0 \<longleftrightarrow> (map of_char s :: int list) < map of_char t) \<and>
   (CompareStrings s t > 0 \<longleftrightarrow> (map of_char t :: int list) < map of_char s)"
proof (induction s t rule: memcmp.induct)
  case (1 a as b bs)
  have "(of_char a :: int) = of_char b \<longleftrightarrow> a = b" by simp
  with 1 show ?case by (auto simp: CompareStrings_def Let_def)
qed (auto simp: CompareStrings_def Nil_first)

lemma CompareStrings_rank:
  "CompareStrings s t = 0 \<longleftrightarrow> (map of_char s :: int list) = map of_char t"
  "CompareStrings s t < 0 \<longleftrightarrow> (map of_char s :: int list) < map of_char t"
  "CompareStrings s t > 0 \<longleftrightarrow> (map of_char t :: int list) < map of_char s"
  using memcmp_lexicographic [of s t] by (auto simp: not_less_iff_gr_or_eq)

lemma rank_None: "has_class c v \<Longrightarrow> rank M v = None \<longleftrightarrow> IsNull M v"
  by (cases c; cases v) (auto simp: CheckInteger_def)

lemma value_compare:
  assumes "has_class c a" "has_class c b" "\<not> IsNull M a" "\<not> IsNull M b"
  shows "Value_CompareEquals M a b = Inr (GetCmpBool (rank M a = rank M b))"
    "Value_CompareLessThan M a b = Inr (GetCmpBool (the (rank M a) < the (rank M b)))"
    "Value_CompareGreaterThan M a b = Inr (GetCmpBool (the (rank M b) < the (rank M a)))"
proof -
  have int: "rank M v = Some [GetAs 64 v]" if "CheckInteger v" "\<not> IsNull M v" for v :: "'a val"
    using that by (cases rule: integer_cases) simp_all
  consider (ints) "CheckInteger a" "CheckInteger b" "wf_value a" "wf_value b"
    | (bools) i j where "a = Boolean i" "b = Boolean j" "fits 8 i" "fits 8 j"
    | (strings) s t where "a = Varchar (Some s)" "b = Varchar (Some t)" "s \<noteq> []" "t \<noteq> []"
  proof (cases c)
    case Strings
    then obtain s t where "a = Varchar s" "b = Varchar t" "s \<noteq> Some []" "t \<noteq> Some []" using assms by auto
    with assms(3,4) strings show ?thesis by auto
  qed (use assms ints bools in auto)
  then have "Value_CompareEquals M a b = Inr (GetCmpBool (rank M a = rank M b)) \<and>
    Value_CompareLessThan M a b = Inr (GetCmpBool (the (rank M a) < the (rank M b))) \<and>
    Value_CompareGreaterThan M a b = Inr (GetCmpBool (the (rank M b) < the (rank M a)))"
  proof cases
    case ints
    with assms(3,4) int show ?thesis by (simp add: integer_comparison)
  next
    case bools
    with assms(3,4) show ?thesis
      by (simp add: Value_CompareEquals_def Value_CompareLessThan_def Value_CompareGreaterThan_def BooleanType_CompareEquals_def
        BooleanType_CompareLessThan_def BooleanType_CompareGreaterThan_def comparable_operation_def CheckComparable_def
        BOOLEAN_COMPARE_FUNC_def Value_CastAs_def BooleanType_CastAs_def BooleanType_Copy_def Value_int8_def)
  next
    case strings
    then show ?thesis
      by (simp add: Value_CompareEquals_def Value_CompareLessThan_def Value_CompareGreaterThan_def VarlenType_CompareEquals_def
        VarlenType_CompareLessThan_def VarlenType_CompareGreaterThan_def comparable_operation_def CheckComparable_def
        VARLEN_COMPARE_FUNC_def CompareStrings_rank)
  qed
  then show "Value_CompareEquals M a b = Inr (GetCmpBool (rank M a = rank M b))"
    "Value_CompareLessThan M a b = Inr (GetCmpBool (the (rank M a) < the (rank M b)))"
    "Value_CompareGreaterThan M a b = Inr (GetCmpBool (the (rank M b) < the (rank M a)))" by blast+
qed

definition key_ok :: "sort_class list \<Rightarrow> 'd val list \<Rightarrow> bool" where
  "key_ok cs key \<longleftrightarrow> list_all2 has_class cs key"

lemma compare_keys_precedes:
  "key_ok cs ka \<Longrightarrow> key_ok cs kb \<Longrightarrow> length cs = length obs \<Longrightarrow> compare_keys M obs ka kb = Inr (precedes M obs ka kb)"
proof (induction obs arbitrary: cs ka kb)
  case (Cons ob obs)
  obtain d n e where ob: "ob = (d, n, e)" by (cases ob)
  obtain c cs' a ka' b kb' where k: "cs = c # cs'" "ka = a # ka'" "kb = b # kb'"
    using Cons.prems by (auto simp: key_ok_def list_all2_Cons1 length_Suc_conv)
  have h: "has_class c a" "has_class c b" and rest: "compare_keys M obs ka' kb' = Inr (precedes M obs ka' kb')"
    using Cons.prems Cons.IH [of cs' ka' kb'] by (simp_all add: key_ok_def k)
  note null = rank_None [OF h(1), of M] rank_None [OF h(2), of M]
  show ?case
  proof (cases "IsNull M a \<or> IsNull M b")
    case True
    with null rest show ?thesis by (auto simp: ob k rank_less_def Let_def)
  next
    case False
    then obtain x y where r: "rank M a = Some x" "rank M b = Some y" using null by auto
    with False value_compare [OF h, of M] rest show ?thesis
      by (auto simp: ob k rank_less_def GetCmpBool_def split: if_splits)
  qed
qed simp

subsection \<open>What the executor yields\<close>

text \<open>What the standard promises of \<open>std::sort\<close>: when every comparison of two elements returns, and the
  answers are a strict weak order, the result is the elements in an order that no comparison contradicts.\<close>

definition weak_order_on :: "'e set \<Rightarrow> ('e \<Rightarrow> 'e \<Rightarrow> bool) \<Rightarrow> bool" where
  "weak_order_on A lt \<longleftrightarrow> (\<forall>a \<in> A. \<not> lt a a) \<and> (\<forall>a \<in> A. \<forall>b \<in> A. \<forall>c \<in> A. lt a b \<longrightarrow> lt b c \<longrightarrow> lt a c) \<and>
     (\<forall>a \<in> A. \<forall>b \<in> A. \<forall>c \<in> A. \<not> lt a b \<longrightarrow> \<not> lt b c \<longrightarrow> \<not> lt a c)"

definition sorts :: "'e std_sort \<Rightarrow> bool" where
  "sorts std_sort \<longleftrightarrow> (\<forall>f lt xs. (\<forall>a \<in> set xs. \<forall>b \<in> set xs. f a b = Inr (lt a b)) \<and> weak_order_on (set xs) lt \<longrightarrow>
     (\<exists>ys. std_sort f xs = Inr ys \<and> mset ys = mset xs \<and> sorted_wrt (\<lambda>a b. \<not> lt b a) ys))"

lemma sortsE:
  assumes "sorts std_sort" "\<And>a b. a \<in> set xs \<Longrightarrow> b \<in> set xs \<Longrightarrow> f a b = Inr (lt a b)" "weak_order_on (set xs) lt"
  obtains ys where "std_sort f xs = Inr ys" "mset ys = mset xs" "sorted_wrt (\<lambda>a b. \<not> lt b a) ys"
  using assms unfolding sorts_def by blast

lemma weak_orderD:
  assumes "weak_order_on A lt"
  shows "a \<in> A \<Longrightarrow> \<not> lt a a" "a \<in> A \<Longrightarrow> b \<in> A \<Longrightarrow> c \<in> A \<Longrightarrow> lt a b \<Longrightarrow> lt b c \<Longrightarrow> lt a c"
    "a \<in> A \<Longrightarrow> b \<in> A \<Longrightarrow> c \<in> A \<Longrightarrow> \<not> lt a b \<Longrightarrow> \<not> lt b c \<Longrightarrow> \<not> lt a c"
  using assms unfolding weak_order_on_def by blast+

lemma weak_order_subset: "weak_order_on A lt \<Longrightarrow> B \<subseteq> A \<Longrightarrow> weak_order_on B lt"
  unfolding weak_order_on_def by blast

lemma entries_weak_order:
  assumes "\<And>e. e \<in> A \<Longrightarrow> length (fst e) = length obs"
  shows "weak_order_on A (\<lambda>a b. precedes M obs (fst a) (fst b))"
  unfolding weak_order_on_def
  by (intro conjI ballI impI; (rule precedes_irrefl | erule (1) precedes_trans | rule not_precedes_trans))
    (simp_all add: assms)

definition tuple_key :: "'d machine \<Rightarrow> 'd order_by list \<Rightarrow> 'd stored \<Rightarrow> 'd val list" where
  "tuple_key M obs t = projr (GenerateSortKey M t obs)"

definition sortable :: "'d machine \<Rightarrow> 'd order_by list \<Rightarrow> sort_class list \<Rightarrow> 'd stored \<Rightarrow> bool" where
  "sortable M obs cs t \<longleftrightarrow> (\<exists>key. GenerateSortKey M t obs = Inr key \<and> key_ok cs key)"

lemma sortableD: "sortable M obs cs t \<Longrightarrow> GenerateSortKey M t obs = Inr (tuple_key M obs t) \<and> key_ok cs (tuple_key M obs t)"
  by (auto simp: sortable_def tuple_key_def)

lemma sort_collects:
  "\<forall>(t, r) \<in> set rows. sortable M obs cs t \<Longrightarrow>
   fold_result (sort_collect M obs) rows es = Inr (es @ map (\<lambda>(t, r). (tuple_key M obs t, t)) rows)"
proof (induction rows arbitrary: es)
  case (Cons row rows)
  obtain t r where row: "row = (t, r)" by (cases row)
  have "GenerateSortKey M t obs = Inr (tuple_key M obs t)" using Cons.prems sortableD [of M obs cs t] by (simp add: row)
  then have "sort_collect M obs row es = Inr (es @ [(tuple_key M obs t, t)])" by (simp add: row sort_collect_def)
  then show ?case using Cons.IH [of "es @ [(tuple_key M obs t, t)]"] Cons.prems by (simp add: row)
qed simp

abbreviation in_order :: "'d machine \<Rightarrow> 'd order_by list \<Rightarrow> 'd stored \<Rightarrow> 'd stored \<Rightarrow> bool" where
  "in_order M obs a b \<equiv> \<not> precedes M obs (tuple_key M obs b) (tuple_key M obs a)"

lemma sort_yields:
  assumes "sorts std_sort" "init (sorter_child st) = Inr c" "polled nxt c rows"
    and "\<forall>(t, r) \<in> set rows. sortable M obs cs t" "length cs = length obs"
  shows "\<exists>st' ts. sort_init M std_sort init nxt obs st = Inr st' \<and> yields Sized sort_next st' (map (\<lambda>t. (t, snd t)) ts) \<and>
    mset ts = mset (map fst rows) \<and> sorted_wrt (in_order M obs) ts"
proof -
  let ?es = "map (\<lambda>(t, r). (tuple_key M obs t, t)) rows"
  obtain c' where c': "consume nxt (sort_collect M obs) c [] = Inr (?es, c')"
    by (rule src.source_consume [OF assms(3), of "sort_collect M obs" "[]"]) (simp add: sort_collects [OF assms(4)])
  have ok: "key_ok cs (fst e)" if e: "e \<in> set ?es" for e
  proof -
    obtain t r where "(t, r) \<in> set rows" "e = (tuple_key M obs t, t)" using e by auto
    then show ?thesis using assms(4) sortableD [of M obs cs t] by auto
  qed
  have len: "length (fst e) = length obs" if "e \<in> set ?es" for e
    using list_all2_lengthD [OF ok [OF that, unfolded key_ok_def]] assms(5) by simp
  have decided: "TupleComparator M obs a b = Inr (precedes M obs (fst a) (fst b))" if "a \<in> set ?es" "b \<in> set ?es" for a b
    using compare_keys_precedes [OF ok [OF that(1)] ok [OF that(2)] assms(5)] by (simp add: TupleComparator_def)
  have weak: "weak_order_on (set ?es) (\<lambda>a b. precedes M obs (fst a) (fst b))" by (rule entries_weak_order) (rule len)
  obtain ys where ys: "std_sort (TupleComparator M obs) ?es = Inr ys" "mset ys = mset ?es"
      "sorted_wrt (\<lambda>a b. \<not> precedes M obs (fst b) (fst a)) ys"
    by (rule sortsE [OF assms(1) decided weak])
  define st' where "st' = \<lparr>sorter_child = c', sorter_entries = ys, sorter_cursor = 0\<rparr>"
  have keyed: "fst e = tuple_key M obs (snd e)" if "e \<in> set ys" for e
  proof -
    have "e \<in> set ?es" using that mset_eq_setD [OF ys(2)] by blast
    then show ?thesis by auto
  qed
  show ?thesis
  proof (intro exI conjI)
    show "sort_init M std_sort init nxt obs st = Inr st'" by (simp add: sort_init_def assms(2) c' ys(1) st'_def)
    have "yields Sized sort_next st' (map (\<lambda>(key, tuple). (tuple, snd tuple)) (drop (sorter_cursor st') (sorter_entries st')))"
      by (rule emit_yields [where upd = "\<lambda>st c. st\<lparr>sorter_cursor := c\<rparr>"]) (simp_all add: sort_next_def)
    then show "yields Sized sort_next st' (map (\<lambda>t. (t, snd t)) (map snd ys))"
      by (simp add: st'_def case_prod_unfold comp_def)
    have "mset (map snd ys) = mset (map snd ?es)" unfolding mset_map by (rule arg_cong [OF ys(2) [unfolded mset_map]])
    then show "mset (map snd ys) = mset (map fst rows)" by (simp add: case_prod_unfold comp_def)
    show "sorted_wrt (in_order M obs) (map snd ys)"
      unfolding sorted_wrt_map by (rule sorted_wrt_mono_rel [OF _ ys(3)]) (simp add: keyed)
  qed
qed


subsection \<open>A sort that keeps the promise\<close>

fun insert_entry_result :: "('e \<Rightarrow> 'e \<Rightarrow> bool result) \<Rightarrow> 'e \<Rightarrow> 'e list \<Rightarrow> 'e list result" where
  "insert_entry_result f x [] = Inr [x]"
| "insert_entry_result f x (y # ys) = rbind (f y x) (\<lambda>b. if b then rbind (insert_entry_result f x ys) (\<lambda>zs. Inr (y # zs)) else Inr (x # y # ys))"

fun insertion_sort :: "'e std_sort" where
  "insertion_sort f [] = Inr []"
| "insertion_sort f (x # xs) = rbind (insertion_sort f xs) (insert_entry_result f x)"

lemma insert_sorts:
  assumes "weak_order_on (insert x (set ys)) lt" "\<forall>a \<in> insert x (set ys). \<forall>b \<in> insert x (set ys). f a b = Inr (lt a b)"
    "sorted_wrt (\<lambda>a b. \<not> lt b a) ys"
  shows "\<exists>zs. insert_entry_result f x ys = Inr zs \<and> mset zs = add_mset x (mset ys) \<and> sorted_wrt (\<lambda>a b. \<not> lt b a) zs"
  using assms
proof (induction ys)
  case (Cons y ys)
  note w = weak_orderD [OF Cons.prems(1)]
  show ?case
  proof (cases "lt y x")
    case True
    obtain zs where zs: "insert_entry_result f x ys = Inr zs" "mset zs = add_mset x (mset ys)" "sorted_wrt (\<lambda>a b. \<not> lt b a) zs"
      using Cons.IH [OF weak_order_subset [OF Cons.prems(1)]] Cons.prems(2,3) by auto
    have "\<not> lt x y" using True w(1) [of x] w(2) [of x y x] by auto
    moreover have "set zs = insert x (set ys)" using mset_eq_setD [of zs "x # ys"] zs(2) by simp
    ultimately show ?thesis using True Cons.prems(2,3) zs by (simp add: add_mset_commute)
  next
    case False
    have "\<not> lt z x" if "z \<in> set ys" for z using that False Cons.prems(3) w(3) [of z y x] by simp
    with False Cons.prems(2,3) show ?thesis by simp
  qed
qed simp

lemma insertion_sort_ok:
  "\<forall>a \<in> set xs. \<forall>b \<in> set xs. f a b = Inr (lt a b) \<Longrightarrow> weak_order_on (set xs) lt \<Longrightarrow>
   \<exists>ys. insertion_sort f xs = Inr ys \<and> mset ys = mset xs \<and> sorted_wrt (\<lambda>a b. \<not> lt b a) ys"
proof (induction xs)
  case (Cons x xs)
  obtain ys where ys: "insertion_sort f xs = Inr ys" "mset ys = mset xs" "sorted_wrt (\<lambda>a b. \<not> lt b a) ys"
    using Cons.IH Cons.prems(1) weak_order_subset [OF Cons.prems(2), of "set xs"] by auto
  have "insert x (set ys) = set (x # xs)" using mset_eq_setD [OF ys(2)] by simp
  with insert_sorts [of x ys lt f] Cons.prems ys show ?case by auto
qed simp

lemma insertion_sorts: "sorts insertion_sort"
  unfolding sorts_def using insertion_sort_ok by blast

definition demo_tuples :: "int stored list" where
  "demo_tuples = [([Integer 1, Varchar (Some ''a~'')], (0, 0)), ([Integer 2, Varchar None], (0, 1)), ([Integer 1, Varchar (Some ''b~'')], (0, 2))]"

definition demo_order :: "int order_by list" where
  "demo_order = [(ASC, NullsDefault, ColumnValue 0 0 INTEGER), (DESC, NullsDefault, ColumnValue 0 1 VARCHAR)]"

lemma demo_sortable: "\<forall>(t, r) \<in> set (map (\<lambda>v. (v, NO_RID)) demo_tuples). sortable toy_machine demo_order [Integers, Strings] t"
  by (simp add: demo_tuples_def demo_order_def sortable_def GenerateSortKey_def key_ok_def CheckInteger_def fits_def int_min_def int_max_def)


end
