(* ===== verification/Aggregation.thy ===== *)
theory Aggregation
  imports Sorting Hash_Util
begin

section \<open>Aggregation\<close>

text \<open>
  \<^verbatim>\<open>src/include/execution/executors/aggregation_executor.h\<close>, \<^verbatim>\<open>src/execution/aggregation_executor.cpp\<close> and the
  keys of \<^verbatim>\<open>src/include/execution/plans/aggregation_plan.h\<close>. The hash table is an association list in the
  order of insertion; a lookup finds an entry with the hash and the key, and \<open>order\<close> is the order in
  which the \<open>unordered_map\<close> is iterated.
\<close>

subsection \<open>Aggregate values\<close>

definition initial_value :: "'d machine \<Rightarrow> AggregationType \<Rightarrow> 'd val result" where
  "initial_value M agg_type =
     (case agg_type of CountStarAggregate \<Rightarrow> GetIntegerValue 0 | _ \<Rightarrow> GetNullValueByType M INTEGER)"

definition GenerateInitialAggregateValue :: "'d machine \<Rightarrow> AggregationType list \<Rightarrow> 'd val list result" where
  "GenerateInitialAggregateValue M agg_types = map_result (initial_value M) agg_types"

definition combine_value :: "'d machine \<Rightarrow> AggregationType \<Rightarrow> 'd val \<Rightarrow> 'd val \<Rightarrow> 'd val result" where
  "combine_value M agg_type result_val input_val =
     (case agg_type of
        CountStarAggregate \<Rightarrow> rbind (GetIntegerValue 1) (Value_Add M result_val)
      | CountAggregate \<Rightarrow>
          if IsNull M input_val then Inr result_val
          else if IsNull M result_val then GetIntegerValue 1 else rbind (GetIntegerValue 1) (Value_Add M result_val)
      | SumAggregate \<Rightarrow>
          if IsNull M input_val then Inr result_val
          else if IsNull M result_val then Inr input_val else Value_Add M result_val input_val
      | MinAggregate \<Rightarrow>
          if IsNull M input_val then Inr result_val
          else if IsNull M result_val then Inr input_val else Value_Min M result_val input_val
      | MaxAggregate \<Rightarrow>
          if IsNull M input_val then Inr result_val
          else if IsNull M result_val then Inr input_val else Value_Max M result_val input_val)"

fun CombineAggregateValues :: "'d machine \<Rightarrow> AggregationType list \<Rightarrow> 'd val list \<Rightarrow> 'd val list \<Rightarrow> 'd val list result" where
  "CombineAggregateValues M [] result input = Inr result"
| "CombineAggregateValues M (ty # tys) (r # rs) (i # is) =
     rbind (combine_value M ty r i) (\<lambda>r'. rbind (CombineAggregateValues M tys rs is) (\<lambda>rs'. Inr (r' # rs')))"
| "CombineAggregateValues M (ty # tys) _ _ = Inl Undefined"

subsection \<open>The hash table\<close>

fun AggregateKey_eq :: "'d machine \<Rightarrow> 'd val list \<Rightarrow> 'd val list \<Rightarrow> bool result" where
  "AggregateKey_eq M lhs [] = Inr True"
| "AggregateKey_eq M (l # ls) (r # rs) =
     (if IsNull M l \<noteq> IsNull M r then Inr False
      else if \<not> IsNull M l then
        rbind (Value_CompareEquals M l r) (\<lambda>c. if c \<noteq> CmpTrue then Inr False else AggregateKey_eq M ls rs)
      else AggregateKey_eq M ls rs)"
| "AggregateKey_eq M [] (r # rs) = Inl Undefined"

type_synonym 'd agg_table = "('d val list \<times> 'd val list) list"

fun ht_find :: "'d machine \<Rightarrow> hash_t \<Rightarrow> 'd val list \<Rightarrow> 'd agg_table \<Rightarrow> nat option result" where
  "ht_find M h key [] = Inr None"
| "ht_find M h key ((k, v) # ht) =
     rbind (hash_key M 0 k) (\<lambda>h'. rbind (if h' = h then AggregateKey_eq M key k else Inr False) (\<lambda>same.
       if same then Inr (Some 0) else rbind (ht_find M h key ht) (\<lambda>i. Inr (map_option Suc i))))"

definition InsertCombine :: "'d machine \<Rightarrow> AggregationType list \<Rightarrow> 'd val list \<Rightarrow> 'd val list \<Rightarrow> 'd agg_table \<Rightarrow> 'd agg_table result" where
  "InsertCombine M agg_types agg_key agg_val ht =
     rbind (hash_key M 0 agg_key) (\<lambda>h. rbind (ht_find M h agg_key ht) (\<lambda>found.
       case found of
         Some i \<Rightarrow> rbind (CombineAggregateValues M agg_types (snd (ht ! i)) agg_val) (\<lambda>v. Inr (ht[i := (fst (ht ! i), v)]))
       | None \<Rightarrow>
           rbind (GenerateInitialAggregateValue M agg_types) (\<lambda>v0.
           rbind (CombineAggregateValues M agg_types v0 agg_val) (\<lambda>v. Inr (ht @ [(agg_key, v)])))))"

definition InsertInitial :: "'d machine \<Rightarrow> AggregationType list \<Rightarrow> 'd val list \<Rightarrow> 'd agg_table \<Rightarrow> 'd agg_table result" where
  "InsertInitial M agg_types agg_key ht =
     rbind (GenerateInitialAggregateValue M agg_types) (\<lambda>v.
     rbind (hash_key M 0 agg_key) (\<lambda>h. rbind (ht_find M h agg_key ht) (\<lambda>found.
       Inr (if found = None then ht @ [(agg_key, v)] else ht))))"

subsection \<open>The executor\<close>

record ('s, 'd) aggregator =
  agg_child :: 's
  agg_ht :: "'d agg_table"
  agg_cursor :: nat

definition MakeAggregateKey :: "'d machine \<Rightarrow> 'd expr list \<Rightarrow> 'd stored \<Rightarrow> 'd val list result" where
  "MakeAggregateKey M group_bys tuple = map_result (\<lambda>e. Evaluate M e (fst tuple)) group_bys"

definition MakeAggregateValue :: "'d machine \<Rightarrow> 'd expr list \<Rightarrow> 'd stored \<Rightarrow> 'd val list result" where
  "MakeAggregateValue M aggregates tuple = map_result (\<lambda>e. Evaluate M e (fst tuple)) aggregates"

definition agg_step :: "'d machine \<Rightarrow> 'd expr list \<Rightarrow> 'd expr list \<Rightarrow> AggregationType list \<Rightarrow> 'd stored \<times> rid \<Rightarrow> 'd agg_table \<Rightarrow>
    'd agg_table result" where
  "agg_step M group_bys aggregates agg_types row ht =
     rbind (MakeAggregateKey M group_bys (fst row)) (\<lambda>key. rbind (MakeAggregateValue M aggregates (fst row)) (\<lambda>val.
       InsertCombine M agg_types key val ht))"

definition agg_init :: "'d machine \<Rightarrow> ('s \<Rightarrow> 's result) \<Rightarrow> ('s, 'd stored) next_fn \<Rightarrow> 'd expr list \<Rightarrow> 'd expr list \<Rightarrow>
    AggregationType list \<Rightarrow> ('s, 'd) aggregator \<Rightarrow> ('s, 'd) aggregator result" where
  "agg_init M init nxt group_bys aggregates agg_types st =
     rbind (init (agg_child st)) (\<lambda>c.
     rbind (consume nxt (agg_step M group_bys aggregates agg_types) c []) (\<lambda>(ht, c').
     rbind (if ht = [] \<and> group_bys = [] then InsertInitial M agg_types [] ht else Inr ht) (\<lambda>ht'.
       Inr \<lparr>agg_child = c', agg_ht = ht', agg_cursor = 0\<rparr>)))"

definition agg_next :: "('d agg_table \<Rightarrow> 'd agg_table) \<Rightarrow> (('s, 'd) aggregator, 'd stored) next_fn" where
  "agg_next order n st =
     (let (batch, cursor) = emit_loop (\<lambda>(key, val). ((key @ val, NO_RID), NO_RID)) (order (agg_ht st)) n (agg_cursor st) []
      in Inr (batch \<noteq> [], batch, st\<lparr>agg_cursor := cursor\<rparr>))"

subsection \<open>Keys\<close>

text \<open>Group keys are values of one class per column; strings end with their terminator.\<close>

definition group_ok :: "sort_class list \<Rightarrow> 'd val list \<Rightarrow> bool" where
  "group_ok cs key \<longleftrightarrow> key_ok cs key \<and> (\<forall>b. Varchar (Some b) \<in> set key \<longrightarrow> last b = CHR 0x00)"

definition same_group :: "'d machine \<Rightarrow> 'd val list \<Rightarrow> 'd val list \<Rightarrow> bool" where
  "same_group M a b \<longleftrightarrow> map (rank M) a = map (rank M) b"

lemma key_eq_rank: "key_ok cs a \<Longrightarrow> key_ok cs b \<Longrightarrow> AggregateKey_eq M a b = Inr (same_group M a b)"
proof (induction cs arbitrary: a b)
  case Nil
  then show ?case by (simp add: key_ok_def same_group_def)
next
  case (Cons c cs)
  obtain x a' y b' where k: "a = x # a'" "b = y # b'" using Cons.prems by (auto simp: key_ok_def list_all2_Cons1)
  have h: "has_class c x" "has_class c y" and rest: "AggregateKey_eq M a' b' = Inr (same_group M a' b')"
    using Cons.prems Cons.IH [of a' b'] by (simp_all add: key_ok_def k)
  note null = rank_None [OF h(1), of M] rank_None [OF h(2), of M]
  show ?case
  proof (cases "IsNull M x \<or> IsNull M y")
    case True
    with null rest show ?thesis by (auto simp: k same_group_def)
  next
    case False
    with value_compare(1) [OF h, of M] rest show ?thesis by (simp add: k same_group_def GetCmpBool_def)
  qed
qed

lemma hash_rank:
  assumes "has_class c a" "has_class c b" "rank M a = rank M b" "\<not> IsNull M a"
    and "\<And>s. a = Varchar (Some s) \<Longrightarrow> last s = CHR 0x00" "\<And>s. b = Varchar (Some s) \<Longrightarrow> last s = CHR 0x00"
  shows "HashValue M a = HashValue M b" "returns (HashValue M a)"
proof -
  have nb: "\<not> IsNull M b" using assms(3,4) rank_None [OF assms(1), of M] rank_None [OF assms(2), of M] by simp
  have "HashValue M a = HashValue M b \<and> returns (HashValue M a)"
  proof (cases c)
    case Integers
    then have "CheckInteger a" "CheckInteger b" "wf_value a" "wf_value b" using assms(1,2) by simp_all
    moreover have "int_value v = Some (GetAs 64 v) \<and> rank M v = Some [GetAs 64 v]" if "CheckInteger v" "wf_value v" "\<not> IsNull M v" for v
      using that(1) by (cases rule: integer_cases; use that(2,3) in \<open>simp add: int_value_def\<close>)
    ultimately have "int_value a = Some (GetAs 64 a)" "int_value b = Some (GetAs 64 a)" using assms(3,4) nb by auto
    then show ?thesis by (simp add: hash_of_int)
  next
    case Booleans
    then obtain i j where "a = Boolean i" "b = Boolean j" "fits 8 i" "fits 8 j" using assms(1,2) by auto
    with assms(3,4) nb show ?thesis by (simp add: HashValue_def)
  next
    case Strings
    then obtain s0 t0 where "a = Varchar s0" "b = Varchar t0" "s0 \<noteq> Some []" "t0 \<noteq> Some []" using assms(1,2) by auto
    with assms(4) nb obtain s t where st: "a = Varchar (Some s)" "b = Varchar (Some t)" "s \<noteq> []" "t \<noteq> []" by auto
    have "butlast s = butlast t" using assms(3) by (simp add: st inj_map_eq_map inj_def)
    then have "s = t" using st(3,4) assms(5) [OF st(1)] assms(6) [OF st(2)] by (metis append_butlast_last_id)
    then show ?thesis by (simp add: st HashValue_def)
  qed
  then show "HashValue M a = HashValue M b" "returns (HashValue M a)" by blast+
qed

lemma group_okD: "group_ok cs key \<Longrightarrow> key_ok cs key"
  by (simp add: group_ok_def)

lemma group_ok_Cons: "group_ok (c # cs) (v # key) \<longleftrightarrow>
    has_class c v \<and> (\<forall>b. v = Varchar (Some b) \<longrightarrow> last b = CHR 0x00) \<and> group_ok cs key"
  by (auto simp: group_ok_def key_ok_def)

lemma group_hash_returns: "group_ok cs a \<Longrightarrow> returns (hash_key M h a)"
proof (induction cs arbitrary: a h)
  case (Cons c cs)
  then obtain x a' where k: "a = x # a'" by (auto simp: group_ok_def key_ok_def list_all2_Cons1)
  show ?case
  proof (cases "IsNull M x")
    case False
    with hash_rank(2) [of c x x M] Cons.prems obtain y where "HashValue M x = Inr y" by (auto simp: k group_ok_Cons elim: returnsE)
    with Cons False show ?thesis by (simp add: k group_ok_Cons)
  qed (use Cons in \<open>simp add: k group_ok_Cons\<close>)
qed (simp add: group_ok_def key_ok_def)

lemma hash_key_same: "group_ok cs a \<Longrightarrow> group_ok cs b \<Longrightarrow> same_group M a b \<Longrightarrow> hash_key M h a = hash_key M h b"
proof (induction cs arbitrary: a b h)
  case (Cons c cs)
  obtain x a' y b' where k: "a = x # a'" "b = y # b'" using Cons.prems by (auto simp: group_ok_def key_ok_def list_all2_Cons1)
  have same: "rank M x = rank M y" "same_group M a' b'" using Cons.prems(3) by (simp_all add: k same_group_def)
  have null: "IsNull M x \<longleftrightarrow> IsNull M y"
    using same(1) rank_None [of c x M] rank_None [of c y M] Cons.prems(1,2) by (simp add: k group_ok_Cons)
  have "HashValue M x = HashValue M y" if "\<not> IsNull M x"
    using hash_rank(1) [of c x y M] Cons.prems(1,2) same(1) that by (simp add: k group_ok_Cons)
  moreover have "hash_key M g a' = hash_key M g b'" for g using Cons same(2) by (simp add: k group_ok_Cons)
  ultimately show ?case using null by (simp add: k)
qed (simp add: group_ok_def key_ok_def)

text \<open>A lookup finds an entry of the same group, if there is one.\<close>

lemma ht_find_result:
  assumes "group_ok cs key" "hash_key M 0 key = Inr h" "\<forall>(k, v) \<in> set ht. group_ok cs k"
  shows "if \<exists>(k, v) \<in> set ht. same_group M key k then \<exists>i < length ht. ht_find M h key ht = Inr (Some i) \<and> same_group M key (fst (ht ! i))
    else ht_find M h key ht = Inr None"
  using assms(3)
proof (induction ht)
  case (Cons e ht)
  obtain k v where e: "e = (k, v)" by (cases e)
  have ok: "group_ok cs k" using Cons.prems by (simp add: e)
  obtain h' where h': "hash_key M 0 k = Inr h'" using group_hash_returns [OF ok, of M 0] by (rule returnsE)
  have eq: "AggregateKey_eq M key k = Inr (same_group M key k)" using assms(1) ok by (intro key_eq_rank) (auto dest: group_okD)
  show ?case
  proof (cases "same_group M key k")
    case True
    then have "h' = h" using hash_key_same [OF assms(1) ok] h' assms(2) by (metis Inr_inject)
    with True eq h' show ?thesis by (auto simp: e intro!: exI [of _ 0])
  next
    case False
    with eq h' have "ht_find M h key (e # ht) = rbind (ht_find M h key ht) (\<lambda>i. Inr (map_option Suc i))" by (simp add: e)
    then show ?thesis using Cons.IH Cons.prems False by (fastforce simp: e split: if_splits)
  qed
qed simp

subsection \<open>What the aggregates compute\<close>

definition null_integer :: "'d val" where
  "null_integer = Integer BUSTUB_INT32_NULL"

definition numbers :: "'d machine \<Rightarrow> 'd val list \<Rightarrow> int list" where
  "numbers M xs = map (GetAs 32) (filter (\<lambda>x. \<not> IsNull M x) xs)"

definition agg_spec :: "'d machine \<Rightarrow> AggregationType \<Rightarrow> 'd val list \<Rightarrow> 'd val" where
  "agg_spec M ty xs =
     (let ns = numbers M xs in
      if ty = CountStarAggregate then Integer (int (length xs))
      else if ns = [] then null_integer
      else Integer (case ty of SumAggregate \<Rightarrow> sum_list ns | MinAggregate \<Rightarrow> Min (set ns) | MaxAggregate \<Rightarrow> Max (set ns)
        | _ \<Rightarrow> int (length ns)))"

text \<open>Few enough inputs for a count, integers otherwise, and no partial sum out of range.\<close>

definition inputs_ok :: "AggregationType \<Rightarrow> 'd val list \<Rightarrow> bool" where
  "inputs_ok ty xs \<longleftrightarrow>
     (if ty = CountStarAggregate \<or> ty = CountAggregate then int (length xs) \<le> BUSTUB_INT32_MAX
      else (\<forall>x \<in> set xs. \<exists>i. x = Integer i \<and> fits 32 i) \<and>
        (ty = SumAggregate \<longrightarrow> (\<Sum>x \<leftarrow> xs. if x = null_integer then 0 else \<bar>GetAs 32 x\<bar>) \<le> BUSTUB_INT32_MAX))"

lemma add_integers:
  assumes "fits 32 x" "fits 32 y" "fits 32 (x + y)" "x \<noteq> BUSTUB_INT32_NULL" "y \<noteq> BUSTUB_INT32_NULL"
  shows "Value_Add M (Integer x) (Integer y) = Inr (Integer (x + y))"
proof -
  have "Value_Add M (Integer x) (Integer y) = AddValue M 32 32 (Integer x) (Integer y)"
    using integer_operation(1) [of "Integer x" "Integer y" M] assms(4,5) by (simp add: CheckInteger_def)
  also have "... = Inr (Integer (x + y))"
    using assms(1-3) by (auto simp: AddValue_def promoted_def signed_arith_def Value_int_def Value_int32_def Let_def)
  finally show ?thesis .
qed

lemma pick_integers:
  fixes M :: "'d machine"
  assumes "fits 32 x" "fits 32 y" "x \<noteq> BUSTUB_INT32_NULL" "y \<noteq> BUSTUB_INT32_NULL"
  shows "Value_Min M (Integer x) (Integer y) = Inr (Integer (min x y))" "Value_Max M (Integer x) (Integer y) = Inr (Integer (max x y))"
proof -
  have ok: "CheckInteger (Integer x :: 'd val)" "CheckInteger (Integer y :: 'd val)" "wf_value (Integer x :: 'd val)"
      "wf_value (Integer y :: 'd val)" "CheckComparable (Integer x) (Integer y :: 'd val)"
    using assms(1,2) by (simp_all add: CheckInteger_def CheckComparable_def)
  have copy: "Value_Copy M (Integer i) = Inr (Integer i)" if "fits 32 i" for i
    using that by (simp add: Value_Copy_def IntegerType_Copy_def Value_int32_def CheckInteger_def)
  show "Value_Min M (Integer x) (Integer y) = Inr (Integer (min x y))" "Value_Max M (Integer x) (Integer y) = Inr (Integer (max x y))"
    using ok assms copy [OF assms(1)] copy [OF assms(2)] integer_comparison [OF ok(1-4), of M]
    by (simp_all add: Value_Min_def Value_Max_def IntegerParentType_Min_def IntegerParentType_Max_def int_operation_def pick_def
      GetCmpBool_def min_def max_def)
qed

lemma numbers_snoc: "numbers M (xs @ [x]) = numbers M xs @ (if IsNull M x then [] else [GetAs 32 x])"
  by (simp add: numbers_def)

lemma numbers_ok:
  assumes "\<forall>x \<in> set xs. \<exists>i. x = Integer i \<and> fits 32 i" "n \<in> set (numbers M xs)"
  shows "fits 32 n" "n \<noteq> BUSTUB_INT32_NULL"
  using assms by (auto simp: numbers_def)

lemma numbers_abs:
  "\<forall>x \<in> set xs. \<exists>i. x = Integer i \<and> fits 32 i \<Longrightarrow>
   sum_list (map abs (numbers M xs)) = (\<Sum>x \<leftarrow> xs. if x = null_integer then 0 else \<bar>GetAs 32 x\<bar>)"
  by (induction xs) (auto simp: numbers_def null_integer_def)

lemma abs_sum_list: "\<bar>sum_list ns\<bar> \<le> sum_list (map abs ns)" for ns :: "int list"
  by (induction ns) auto

lemma null_integer_simps: "IsNull M null_integer" "GetTypeId null_integer = INTEGER"
  by (simp_all add: null_integer_def)

lemma small_fits: "\<bar>n\<bar> \<le> BUSTUB_INT32_MAX \<Longrightarrow> fits 32 n \<and> n \<noteq> BUSTUB_INT32_NULL"
  by (auto simp: fits_def int_min_def int_max_def limits)

text \<open>One more input: a step of \<open>CombineAggregateValues\<close> on the aggregate of the inputs so far.\<close>

lemma combine_count:
  fixes M :: "'d machine"
  assumes "ty = CountStarAggregate \<or> ty = CountAggregate" "inputs_ok ty (xs @ [x])"
  shows "combine_value M ty (agg_spec M ty xs) x = Inr (agg_spec M ty (xs @ [x]))"
proof -
  have len: "int (length xs) + 1 \<le> BUSTUB_INT32_MAX" using assms by (auto simp: inputs_ok_def)
  have "length (numbers M xs) \<le> length xs" by (simp add: numbers_def)
  with len have l: "int (length (numbers M xs)) + 1 \<le> BUSTUB_INT32_MAX" by linarith
  have one: "GetIntegerValue 1 = (Inr (Integer 1) :: 'd val result)" by (simp add: GetIntegerValue_def Value_int32_def cast_def)
  have add: "Value_Add M (Integer (int k)) (Integer 1) = Inr (Integer (int (Suc k)))" if "int k + 1 \<le> BUSTUB_INT32_MAX" for k
  proof -
    have "fits 32 (int k)" "fits 32 1" "fits 32 (int k + 1)" "int k \<noteq> BUSTUB_INT32_NULL" "(1 :: int) \<noteq> BUSTUB_INT32_NULL"
      using that by (auto simp: fits_def int_min_def int_max_def limits)
    from add_integers [OF this] show ?thesis by (simp add: add.commute)
  qed
  have nn: "int k \<noteq> BUSTUB_INT32_NULL" for k by (simp add: limits)
  from assms(1) show ?thesis
  proof
    assume "ty = CountStarAggregate"
    with len one add [of "length xs"] show ?thesis by (simp add: combine_value_def agg_spec_def)
  next
    assume "ty = CountAggregate"
    with l one add [of "length (numbers M xs)"] nn show ?thesis
      by (auto simp: combine_value_def agg_spec_def Let_def numbers_snoc null_integer_simps)
  qed
qed

lemma combine_numbers:
  assumes "ty \<noteq> CountStarAggregate" "ty \<noteq> CountAggregate" "inputs_ok ty (xs @ [x])"
  shows "combine_value M ty (agg_spec M ty xs) x = Inr (agg_spec M ty (xs @ [x]))"
proof -
  have ints: "\<forall>x \<in> set (xs @ [x]). \<exists>i. x = Integer i \<and> fits 32 i" using assms by (auto simp: inputs_ok_def)
  then obtain i where x: "x = Integer i" "fits 32 i" by auto
  let ?ns = "numbers M xs"
  have ns: "\<forall>n \<in> set ?ns. fits 32 n \<and> n \<noteq> BUSTUB_INT32_NULL" using numbers_ok [of xs _ M] ints by auto
  show ?thesis
  proof (cases "IsNull M x")
    case True
    then show ?thesis using assms(1,2) by (cases ty) (simp_all add: combine_value_def agg_spec_def numbers_snoc)
  next
    case False
    then have i: "i \<noteq> BUSTUB_INT32_NULL" using x(1) by simp
    have step: "combine_value M ty null_integer x = Inr x" using assms(1,2) False by (cases ty) (simp_all add: combine_value_def null_integer_simps)
    have first: "agg_spec M ty (xs @ [x]) = x" if "?ns = []"
      using that assms(1,2) False x by (cases ty) (simp_all add: agg_spec_def numbers_snoc)
    consider (empty) "?ns = []" | (sum) "?ns \<noteq> []" "ty = SumAggregate" | (least) "?ns \<noteq> []" "ty = MinAggregate"
      | (greatest) "?ns \<noteq> []" "ty = MaxAggregate" using assms(1,2) by (cases ty) auto
    then show ?thesis
    proof cases
      case empty
      with first step assms(1) show ?thesis by (simp add: agg_spec_def)
    next
      case sum
      have "sum_list (map abs (numbers M (xs @ [x]))) \<le> BUSTUB_INT32_MAX"
        using assms(3) sum(2) numbers_abs [OF ints, of M] by (simp add: inputs_ok_def)
      then have b: "sum_list (map abs ?ns) + \<bar>i\<bar> \<le> BUSTUB_INT32_MAX" using False x by (simp add: numbers_snoc)
      have "\<bar>sum_list ?ns\<bar> \<le> BUSTUB_INT32_MAX" "\<bar>sum_list ?ns + i\<bar> \<le> BUSTUB_INT32_MAX"
        using b abs_sum_list [of ?ns] by linarith+
      then have "fits 32 (sum_list ?ns)" "sum_list ?ns \<noteq> BUSTUB_INT32_NULL" "fits 32 (sum_list ?ns + i)" using small_fits by blast+
      with add_integers [of "sum_list ?ns" i M] x i False sum show ?thesis
        by (simp add: combine_value_def agg_spec_def numbers_snoc)
    next
      case least
      have "Min (set ?ns) \<in> set ?ns" using least(1) by simp
      with pick_integers(1) [of "Min (set ?ns)" i M] ns x i False least show ?thesis
        by (simp add: combine_value_def agg_spec_def numbers_snoc min.commute)
    next
      case greatest
      have "Max (set ?ns) \<in> set ?ns" using greatest(1) by simp
      with pick_integers(2) [of "Max (set ?ns)" i M] ns x i False greatest show ?thesis
        by (simp add: combine_value_def agg_spec_def numbers_snoc max.commute)
    qed
  qed
qed

lemma combine_step:
  "inputs_ok ty (xs @ [x]) \<Longrightarrow> combine_value M ty (agg_spec M ty xs) x = Inr (agg_spec M ty (xs @ [x]))"
  by (cases "ty = CountStarAggregate \<or> ty = CountAggregate") (auto intro: combine_count combine_numbers)

text \<open>The aggregates of the rows of a group, one per column.\<close>

definition agg_row :: "'d machine \<Rightarrow> AggregationType list \<Rightarrow> 'd val list list \<Rightarrow> 'd val list" where
  "agg_row M types xs = map (\<lambda>j. agg_spec M (types ! j) (map (\<lambda>v. v ! j) xs)) [0..<length types]"

lemma combine_all:
  "length rs = length tys \<Longrightarrow> length is = length tys \<Longrightarrow> (\<And>j. j < length tys \<Longrightarrow> combine_value M (tys ! j) (rs ! j) (is ! j) = Inr (f j)) \<Longrightarrow>
   CombineAggregateValues M tys rs is = Inr (map f [0..<length tys])"
proof (induction tys arbitrary: rs "is" f)
  case (Cons ty tys)
  obtain r rs' i is' where k: "rs = r # rs'" "is = i # is'" using Cons.prems(1,2) by (auto simp: length_Suc_conv)
  have "CombineAggregateValues M tys rs' is' = Inr (map (\<lambda>j. f (Suc j)) [0..<length tys])"
  proof (rule Cons.IH)
    show "combine_value M (tys ! j) (rs' ! j) (is' ! j) = Inr (f (Suc j))" if "j < length tys" for j
      using Cons.prems(3) [of "Suc j"] that by (simp add: k)
  qed (use Cons.prems in \<open>simp_all add: k\<close>)
  moreover have "combine_value M ty r i = Inr (f 0)" using Cons.prems(3) [of 0] by (simp add: k)
  moreover have "map f [0..<length (ty # tys)] = f 0 # map (\<lambda>j. f (Suc j)) [0..<length tys]"
    by (simp add: map_upt_Suc del: upt_Suc)
  ultimately show ?case by (simp add: k del: upt_Suc)
qed simp

lemma combine_agg_row:
  assumes "length v = length types" "\<forall>j < length types. inputs_ok (types ! j) (map (\<lambda>v. v ! j) (xs @ [v]))"
  shows "CombineAggregateValues M types (agg_row M types xs) v = Inr (agg_row M types (xs @ [v]))"
  unfolding agg_row_def [of M types "xs @ [v]"]
proof (rule combine_all)
  show "combine_value M (types ! j) (agg_row M types xs ! j) (v ! j) = Inr (agg_spec M (types ! j) (map (\<lambda>v. v ! j) (xs @ [v])))"
    if "j < length types" for j
    using combine_step [of "types ! j" "map (\<lambda>v. v ! j) xs" "v ! j" M] assms(2) that by (simp add: agg_row_def)
qed (use assms(1) in \<open>simp_all add: agg_row_def\<close>)

lemma initial_agg_row: "GenerateInitialAggregateValue M types = Inr (agg_row M types [])"
proof -
  have one: "initial_value M ty = Inr (agg_spec M ty [])" for ty
    by (cases ty) (simp_all add: initial_value_def agg_spec_def numbers_def null_integer_def GetNullValueByType_def
      GetIntegerValue_def Value_int32_def limits fits_def int_min_def int_max_def)
  have "map_result (initial_value M) types = Inr (map (\<lambda>ty. agg_spec M ty []) types)" by (induction types) (simp_all add: one)
  moreover have "map (\<lambda>ty. agg_spec M ty []) types = agg_row M types []" by (rule nth_equalityI) (simp_all add: agg_row_def)
  ultimately show ?thesis by (simp add: GenerateInitialAggregateValue_def)
qed

lemma inputs_ok_filter: "inputs_ok ty (map f xs) \<Longrightarrow> inputs_ok ty (map f (filter P xs))" for f :: "'a \<Rightarrow> 'd val"
proof -
  assume a: "inputs_ok ty (map f xs)"
  let ?g = "\<lambda>x :: 'd val. if x = null_integer then 0 else \<bar>GetAs 32 x\<bar>"
  have len: "int (length (filter P xs)) \<le> int (length xs)" by simp
  have sum: "(\<Sum>x \<leftarrow> map f (filter P xs). ?g x) \<le> (\<Sum>x \<leftarrow> map f xs. ?g x)" by (induction xs) auto
  show ?thesis
  proof (cases "ty = CountStarAggregate \<or> ty = CountAggregate")
    case True
    then show ?thesis using a len unfolding inputs_ok_def length_map by (metis order_trans)
  next
    case False
    with a order_trans [OF sum, of BUSTUB_INT32_MAX] show ?thesis by (simp add: inputs_ok_def)
  qed
qed

lemma inputs_ok_last: "inputs_ok ty (map f (xs @ [x])) \<Longrightarrow> inputs_ok ty [f x]"
proof -
  assume a: "inputs_ok ty (map f (xs @ [x]))"
  have "0 \<le> (\<Sum>x \<leftarrow> map f xs. if x = null_integer then 0 else \<bar>GetAs 32 x\<bar>)" by (rule sum_list_nonneg) auto
  with a show ?thesis by (auto simp: inputs_ok_def split: if_splits)
qed

subsection \<open>The groups\<close>

text \<open>The first key of every group, in the order of their first rows.\<close>

definition first_keys :: "'d machine \<Rightarrow> 'd val list list \<Rightarrow> 'd val list list" where
  "first_keys M keys = fold (\<lambda>k acc. if \<exists>k' \<in> set acc. same_group M k k' then acc else acc @ [k]) keys []"

lemma first_keys_Nil [simp]: "first_keys M [] = []"
  by (simp add: first_keys_def)

lemma first_keys_snoc:
  "first_keys M (keys @ [k]) =
     (if \<exists>k' \<in> set (first_keys M keys). same_group M k k' then first_keys M keys else first_keys M keys @ [k])"
  by (simp add: first_keys_def)

lemma same_group_equiv:
  "same_group M a a" "same_group M a b \<Longrightarrow> same_group M b a" "same_group M a b \<Longrightarrow> same_group M b c \<Longrightarrow> same_group M a c"
  by (simp_all add: same_group_def)

text \<open>They are keys of the rows, one per group, and every row belongs to one.\<close>

lemma first_keys_groups:
  "set (first_keys M keys) \<subseteq> set keys"
  "k \<in> set keys \<Longrightarrow> \<exists>k' \<in> set (first_keys M keys). same_group M k k'"
  "sorted_wrt (\<lambda>a b. \<not> same_group M a b) (first_keys M keys)"
  by (induction keys rule: rev_induct)
    (auto simp: first_keys_snoc sorted_wrt_append same_group_equiv(1) dest: same_group_equiv(2))

text \<open>The table after a list of keys and inputs.\<close>

definition groups_table :: "'d machine \<Rightarrow> AggregationType list \<Rightarrow> ('d val list \<times> 'd val list) list \<Rightarrow> 'd agg_table" where
  "groups_table M types rows =
     map (\<lambda>k. (k, agg_row M types (map snd (filter (\<lambda>(key, v). same_group M key k) rows)))) (first_keys M (map fst rows))"

lemma table_hit:
  assumes "i < length (first_keys M (map fst rows))" "same_group M key (first_keys M (map fst rows) ! i)"
  defines "k \<equiv> first_keys M (map fst rows) ! i"
  shows "groups_table M types (rows @ [(key, v)]) =
    (groups_table M types rows)[i := (k, agg_row M types (map snd (filter (\<lambda>(key, v). same_group M key k) rows) @ [v]))]"
proof -
  let ?ks = "first_keys M (map fst rows)"
  have ks: "first_keys M (map fst (rows @ [(key, v)])) = ?ks" "first_keys M (map fst rows @ [key]) = ?ks"
    using assms(1,2) by (auto simp: first_keys_snoc)
  have other: "\<not> same_group M key (?ks ! j)" if j: "j < length ?ks" "j \<noteq> i" for j
  proof
    assume a: "same_group M key (?ks ! j)"
    then have "same_group M (?ks ! i) (?ks ! j)" "same_group M (?ks ! j) (?ks ! i)"
      using assms(2) same_group_equiv(2,3) by blast+
    moreover have "\<not> same_group M (?ks ! min i j) (?ks ! max i j)"
      using sorted_wrt_nth_less [OF first_keys_groups(3), of "min i j" "max i j" M "map fst rows"] j assms(1) by auto
    ultimately show False by (cases "i \<le> j") (simp_all add: min_def max_def)
  qed
  show ?thesis
  proof (rule nth_equalityI)
    fix j assume "j < length (groups_table M types (rows @ [(key, v)]))"
    then have j: "j < length ?ks" by (simp add: groups_table_def ks)
    show "groups_table M types (rows @ [(key, v)]) ! j = ((groups_table M types rows)[i := (k, agg_row M types (map snd (filter (\<lambda>(key, v). same_group M key k) rows) @ [v]))]) ! j"
    proof (cases "j = i")
      case True
      with j assms(2) show ?thesis by (simp add: groups_table_def ks k_def)
    next
      case False
      with j other [of j] show ?thesis by (simp add: groups_table_def ks)
    qed
  qed (simp add: groups_table_def ks)
qed

lemma table_miss:
  assumes "\<forall>k \<in> set (first_keys M (map fst rows)). \<not> same_group M key k"
  shows "groups_table M types (rows @ [(key, v)]) = groups_table M types rows @ [(key, agg_row M types [v])]"
proof -
  have "\<not> same_group M key' key" if "(key', v') \<in> set rows" for key' v'
  proof
    assume "same_group M key' key"
    moreover have "key' \<in> set (map fst rows)" using that by force
    then obtain k where "k \<in> set (first_keys M (map fst rows))" "same_group M key' k"
      using first_keys_groups(2) [of key' "map fst rows" M] by blast
    ultimately show False using assms same_group_equiv(2,3) by blast
  qed
  then have "filter (\<lambda>(key', v). same_group M key' key) rows = []" by (auto simp: filter_empty_conv)
  with assms show ?thesis by (auto simp: groups_table_def first_keys_snoc same_group_equiv(1))
qed

lemma insert_combine_table:
  assumes "\<forall>(k, v) \<in> set (rows @ [(key, v)]). group_ok cs k \<and> length v = length types"
    and "\<forall>j < length types. inputs_ok (types ! j) (map (\<lambda>(k, v). v ! j) (rows @ [(key, v)]))"
  shows "InsertCombine M types key v (groups_table M types rows) = Inr (groups_table M types (rows @ [(key, v)]))"
proof -
  let ?ks = "first_keys M (map fst rows)" and ?ht = "groups_table M types rows"
  have key: "group_ok cs key" "length v = length types" using assms(1) by simp_all
  obtain h where h: "hash_key M 0 key = Inr h" using group_hash_returns [OF key(1), of M 0] by (rule returnsE)
  have keys: "fst (?ht ! i) = ?ks ! i" if "i < length ?ks" for i using that by (simp add: groups_table_def)
  have "group_ok cs k" if "k \<in> set ?ks" for k using that first_keys_groups(1) [of M "map fst rows"] assms(1) by fastforce
  then have "\<forall>(k, v) \<in> set ?ht. group_ok cs k" by (auto simp: groups_table_def)
  note found = ht_find_result [OF key(1) h this]
  have more: "\<forall>j < length types. inputs_ok (types ! j) (map (\<lambda>v. v ! j) (map snd (filter P rows) @ [v]))" if "P (key, v)" for P
    using inputs_ok_filter [of _ "\<lambda>(k, v). v ! _" "rows @ [(key, v)]" P] assms(2) that
    by (simp add: case_prod_unfold comp_def) 
  show ?thesis
  proof (cases "\<exists>k \<in> set ?ks. same_group M key k")
    case True
    then have "\<exists>(k, v) \<in> set ?ht. same_group M key k" by (auto simp: groups_table_def)
    then obtain i where i: "i < length ?ks" "ht_find M h key ?ht = Inr (Some i)" "same_group M key (?ks ! i)"
      using found keys by (auto simp: groups_table_def split: if_splits)
    let ?P = "\<lambda>(key, v). same_group M key (?ks ! i)"
    have "CombineAggregateValues M types (snd (?ht ! i)) v = Inr (agg_row M types (map snd (filter ?P rows) @ [v]))"
      using combine_agg_row [OF key(2) more [of ?P]] i by (simp add: groups_table_def)
    then show ?thesis using h i keys [OF i(1)] table_hit [OF i(1,3), of types v] by (simp add: InsertCombine_def)
  next
    case False
    then have "ht_find M h key ?ht = Inr None" using found by (auto simp: groups_table_def split: if_splits)
    moreover have "\<forall>j < length types. inputs_ok (types ! j) (map (\<lambda>v. v ! j) ([] @ [v]))"
      using inputs_ok_last assms(2) by fastforce
    then have "CombineAggregateValues M types (agg_row M types []) v = Inr (agg_row M types [v])"
      using combine_agg_row [OF key(2), of "[]" M] by simp
    ultimately show ?thesis using h table_miss [of M rows key types v] False by (simp add: InsertCombine_def initial_agg_row)
  qed
qed

subsection \<open>The executor\<close>

definition agg_inputs :: "'d machine \<Rightarrow> 'd expr list \<Rightarrow> 'd expr list \<Rightarrow> 'd stored rows \<Rightarrow> ('d val list \<times> 'd val list) list" where
  "agg_inputs M group_bys aggregates rows =
     map (\<lambda>(t, r). (projr (MakeAggregateKey M group_bys t), projr (MakeAggregateValue M aggregates t))) rows"

definition aggregable :: "'d machine \<Rightarrow> 'd expr list \<Rightarrow> 'd expr list \<Rightarrow> AggregationType list \<Rightarrow> sort_class list \<Rightarrow> 'd stored rows \<Rightarrow> bool" where
  "aggregable M group_bys aggregates types cs rows \<longleftrightarrow>
     (\<forall>(t, r) \<in> set rows. (\<exists>k. MakeAggregateKey M group_bys t = Inr k \<and> group_ok cs k) \<and>
        (\<exists>v. MakeAggregateValue M aggregates t = Inr v \<and> length v = length types)) \<and>
     (\<forall>j < length types. inputs_ok (types ! j) (map (\<lambda>(k, v). v ! j) (agg_inputs M group_bys aggregates rows)))"

lemma inputs_ok_prefix: "inputs_ok ty (xs @ ys) \<Longrightarrow> inputs_ok ty xs"
proof -
  assume a: "inputs_ok ty (xs @ ys)"
  have "0 \<le> (\<Sum>x \<leftarrow> ys. if x = null_integer then 0 else \<bar>GetAs 32 x\<bar>)" by (rule sum_list_nonneg) auto
  with a show ?thesis by (auto simp: inputs_ok_def split: if_splits)
qed

lemma aggregable_prefix: "aggregable M gb as types cs (rows @ extra) \<Longrightarrow> aggregable M gb as types cs rows"
  using inputs_ok_prefix unfolding aggregable_def agg_inputs_def map_append set_append ball_Un by blast

lemma agg_fold:
  "aggregable M gb as types cs rows \<Longrightarrow> fold_result (agg_step M gb as types) rows [] = Inr (groups_table M types (agg_inputs M gb as rows))"
proof (induction rows rule: rev_induct)
  case Nil
  show ?case by (simp add: agg_inputs_def groups_table_def)
next
  case (snoc row rows)
  obtain t r where row: "row = (t, r)" by (cases row)
  obtain k v where kv: "MakeAggregateKey M gb t = Inr k" "MakeAggregateValue M as t = Inr v"
    using snoc.prems by (auto simp: aggregable_def row)
  let ?in = "agg_inputs M gb as"
  have snoc_in: "?in (rows @ [row]) = ?in rows @ [(k, v)]" by (simp add: agg_inputs_def row kv)
  have "\<forall>(k, v) \<in> set (?in (rows @ [row])). group_ok cs k \<and> length v = length types"
    using snoc.prems by (fastforce simp: aggregable_def agg_inputs_def)
  moreover have "\<forall>j < length types. inputs_ok (types ! j) (map (\<lambda>(k, v). v ! j) (?in (rows @ [row])))"
    using snoc.prems by (simp add: aggregable_def)
  ultimately have "InsertCombine M types k v (groups_table M types (?in rows)) = Inr (groups_table M types (?in (rows @ [row])))"
    unfolding snoc_in by (rule insert_combine_table)
  with snoc.IH [OF aggregable_prefix [OF snoc.prems]] show ?case
    by (simp add: fold_result_append agg_step_def row kv)
qed

text \<open>The rows of the result: one for all the input when there is no \<open>GROUP BY\<close>, else one per group.\<close>

definition agg_result :: "'d machine \<Rightarrow> 'd expr list \<Rightarrow> 'd expr list \<Rightarrow> AggregationType list \<Rightarrow> 'd stored rows \<Rightarrow> 'd val list list" where
  "agg_result M group_bys aggregates types rows =
     (let inputs = agg_inputs M group_bys aggregates rows;
          groups = (if group_bys = [] then [[]] else first_keys M (map fst inputs))
      in map (\<lambda>k. k @ agg_row M types (map snd (filter (\<lambda>(key, v). same_group M key k) inputs))) groups)"

lemma single_group:
  assumes "rows \<noteq> []"
  shows "first_keys M (map fst (agg_inputs M [] as rows)) = [[]]"
proof -
  have "map fst (agg_inputs M [] as rows) = replicate (length rows) []"
    by (rule nth_equalityI) (simp_all add: agg_inputs_def MakeAggregateKey_def case_prod_unfold)
  moreover have "first_keys M (replicate (Suc n) []) = [[]]" for n
    by (induction n) (simp_all add: first_keys_def replicate_append_same [symmetric] same_group_equiv(1) del: replicate_Suc)
  ultimately show ?thesis using assms by (cases rows) simp_all
qed

lemma agg_yields:
  assumes "init (agg_child st) = Inr c" "polled nxt c rows" "aggregable M gb as types cs rows"
  shows "\<exists>st' ht. agg_init M init nxt gb as types st = Inr st' \<and> yields Sized (agg_next order) st' (map (\<lambda>(k, v). ((k @ v, NO_RID), NO_RID)) (order ht)) \<and>
    map (\<lambda>(k, v). k @ v) ht = agg_result M gb as types rows"
proof -
  let ?in = "agg_inputs M gb as rows"
  obtain c' where c': "consume nxt (agg_step M gb as types) c [] = Inr (groups_table M types ?in, c')"
    by (rule src.source_consume [OF assms(2), of "agg_step M gb as types" "[]"]) (simp add: agg_fold [OF assms(3)])
  define ht where "ht = (if groups_table M types ?in = [] \<and> gb = [] then [([], agg_row M types [])] else groups_table M types ?in)"
  define st' where "st' = \<lparr>agg_child = c', agg_ht = ht, agg_cursor = 0\<rparr>"
  have "(if groups_table M types ?in = [] \<and> gb = [] then InsertInitial M types [] (groups_table M types ?in) else Inr (groups_table M types ?in)) = Inr ht"
  proof (cases "groups_table M types ?in = [] \<and> gb = []")
    case True
    then show ?thesis unfolding ht_def if_P [OF True] conjunct1 [OF True] by (simp add: InsertInitial_def initial_agg_row)
  next
    case False
    show ?thesis unfolding ht_def if_not_P [OF False] ..
  qed
  then have "agg_init M init nxt gb as types st = Inr st'"
    unfolding agg_init_def assms(1) rbind_simps c' prod.case st'_def by (simp only: rbind_simps)
  moreover have "yields Sized (agg_next order) st' (map (\<lambda>(k, v). ((k @ v, NO_RID), NO_RID)) (drop (agg_cursor st') (order (agg_ht st'))))"
    by (rule emit_yields [where upd = "\<lambda>st c. st\<lparr>agg_cursor := c\<rparr>"]) (simp_all add: agg_next_def)
  moreover have "map (\<lambda>(k, v). k @ v) ht = agg_result M gb as types rows"
  proof (cases "gb = []")
    case True
    then show ?thesis using single_group [of rows M as]
      by (cases "rows = []") (simp_all add: ht_def agg_result_def groups_table_def agg_inputs_def)
  next
    case False
    then show ?thesis by (simp add: ht_def agg_result_def groups_table_def Let_def)
  qed
  ultimately show ?thesis by (auto simp: st'_def)
qed

text \<open>C27: An aggregation returns one row per group, in the order of the hash table: the group's key as its
  first row has it, with null equal to null, then \<open>COUNT(*)\<close>, the count, sum, least and greatest of the
  values that are not null, or null when there is none. Without \<open>GROUP BY\<close> there is exactly one row,
  also for an empty input. The aggregated values are integers, and no sum leaves the range.\<close>

theorem aggregation_groups:
  assumes "init (agg_child st) = Inr c" "polled nxt c rows" "aggregable M gb as types cs rows" "\<And>ht. mset (order ht) = mset ht"
  shows "\<exists>st' ts st''. agg_init M init nxt gb as types st = Inr st' \<and> PollExecutor (agg_next order) st' = Inr (ts, st'') \<and>
    mset (map fst ts) = mset (agg_result M gb as types rows)"
proof -
  obtain st' ht where a: "agg_init M init nxt gb as types st = Inr st'"
    "yields Sized (agg_next order) st' (map (\<lambda>(k, v). ((k @ v, NO_RID), NO_RID)) (order ht))"
    "map (\<lambda>(k, v). k @ v) ht = agg_result M gb as types rows"
    using agg_yields [where init = init and st = st and nxt = nxt, OF assms(1-3)] by blast
  have "image_mset (\<lambda>(k, v). k @ v) (mset (order ht)) = mset (agg_result M gb as types rows)"
    unfolding assms(4) a(3) [symmetric] by simp
  with src.source_poll [OF sized_exact [OF a(2)]] a(1) show ?thesis by (auto simp: case_prod_unfold comp_def image_mset.compositionality)
qed

definition demo_rows :: "int stored list" where
  "demo_rows = [([Integer 1, Integer 5], NO_RID), ([Integer BUSTUB_INT32_NULL, Integer 7], NO_RID), ([Integer 1, Integer 6], NO_RID),
    ([Integer BUSTUB_INT32_NULL, Integer BUSTUB_INT32_NULL], NO_RID)]"

theorem aggregation_groups_witness:
  "\<exists>st' ts st''. agg_init toy_machine values_init (values_next demo_rows) [ColumnValue 0 0 INTEGER] [ColumnValue 0 1 INTEGER, ColumnValue 0 1 INTEGER]
      [CountStarAggregate, SumAggregate] \<lparr>agg_child = 0, agg_ht = [], agg_cursor = 0\<rparr> = Inr st' \<and>
    PollExecutor (agg_next rev) st' = Inr (ts, st'') \<and>
    mset (map fst ts) = {#[Integer 1, Integer 2, Integer 11], [null_integer, Integer 2, Integer 7]#}"
proof -
  have y: "polled (values_next demo_rows) 0 (map (\<lambda>v. (v, NO_RID)) demo_rows)"
    using sized_exact [OF values_yields [of demo_rows 0]] by simp
  let ?st = "\<lparr>agg_child = 0, agg_ht = [], agg_cursor = 0\<rparr>"
  have i: "values_init (agg_child ?st) = Inr 0" by (simp add: values_init_def)
  have ok: "aggregable toy_machine [ColumnValue 0 0 INTEGER] [ColumnValue 0 1 INTEGER, ColumnValue 0 1 INTEGER]
      [CountStarAggregate, SumAggregate] [Integers] (map (\<lambda>v. (v, NO_RID)) demo_rows)"
    by (simp add: aggregable_def demo_rows_def MakeAggregateKey_def MakeAggregateValue_def group_ok_def key_ok_def CheckInteger_def
      agg_inputs_def inputs_ok_def less_Suc_eq null_integer_def limits fits_def int_min_def int_max_def cast_def)
  have r: "agg_result toy_machine [ColumnValue 0 0 INTEGER] [ColumnValue 0 1 INTEGER, ColumnValue 0 1 INTEGER]
      [CountStarAggregate, SumAggregate] (map (\<lambda>v. (v, NO_RID)) demo_rows) = [[Integer 1, Integer 2, Integer 11], [null_integer, Integer 2, Integer 7]]"
    by code_simp
  show ?thesis using aggregation_groups [where init = values_init and st = ?st and order = rev, OF i y ok] unfolding r by simp
qed

end
