(* ===== verification/Dml.thy ===== *)
theory Dml
  imports Txn_Manager Executor
begin

section \<open>Executors over versioned tables\<close>

text \<open>
  \<^verbatim>\<open>src/execution/seq_scan_executor.cpp\<close>, \<^verbatim>\<open>index_scan_executor.cpp\<close>, \<^verbatim>\<open>insert_executor.cpp\<close>,
  \<^verbatim>\<open>delete_executor.cpp\<close> and \<^verbatim>\<open>update_executor.cpp\<close> over the transaction manager of theory \<open>Txn_Manager\<close>.
  The database is threaded through every call next to the state of the executor, so that a child sees
  what its parent wrote. It is the transaction manager with its heap and the indexes of every table.
  Predicates and target expressions are functions on tuples. A call of \<open>Next\<close> that throws
  \<open>ExecutionException\<close> after a write conflict is \<open>Conflict\<close>, with the database it leaves; a statement
  otherwise hands out one row, the number of rows it touched.

  What lies outside: \<open>records\<close> lists the records a table iterator visits (theory \<open>Table_Scan\<close>), \<open>fresh\<close> is the
  slot the table heap has for a new tuple, and \<open>scan_key\<close>, \<open>insert_entry\<close> are the operations of an index.
\<close>

record ('i, 'v) dbase =
  db_mgr :: "'v txn_mgr"
  db_indexes :: "oid \<Rightarrow> 'i list"

subsection \<open>Sequential scan\<close>

definition accepts :: "('v \<Rightarrow> bool) option \<Rightarrow> 'v \<Rightarrow> bool" where
  "accepts predicate x = (case predicate of None \<Rightarrow> True | Some p \<Rightarrow> p x)"

text \<open>The state is the records the iterator has not reached.\<close>

definition seq_scan_init :: "('v txn_mgr \<Rightarrow> oid \<Rightarrow> rid list) \<Rightarrow> txn_id \<Rightarrow> oid \<Rightarrow> ('v list \<Rightarrow> bool) option \<Rightarrow>
    rid list \<times> ('i, 'v) dbase \<Rightarrow> (rid list \<times> ('i, 'v) dbase) result" where
  "seq_scan_init records tid table predicate st =
     (let (left, db) = st; m = db_mgr db in
      rbind (get_txn m tid) (\<lambda>t.
        Inr (records m table, db\<lparr>db_mgr := set_txn tid (AppendScanPredicate t table predicate) m\<rparr>)))"

fun seq_scan_loop :: "'v txn_mgr \<Rightarrow> txn_id \<Rightarrow> ('v list \<Rightarrow> bool) option \<Rightarrow> nat \<Rightarrow> rid list \<Rightarrow> 'v list rows \<Rightarrow> ('v list rows \<times> rid list) result" where
  "seq_scan_loop m tid predicate n [] batch = Inr (batch, [])"
| "seq_scan_loop m tid predicate n (rid # rids) batch =
     (if length batch < n then
        rbind (visible_tuple m tid rid) (\<lambda>visible.
          seq_scan_loop m tid predicate n rids
            (case visible of None \<Rightarrow> batch | Some tuple \<Rightarrow> if accepts predicate tuple then batch @ [(tuple, rid)] else batch))
      else Inr (batch, rid # rids))"

definition seq_scan_next :: "txn_id \<Rightarrow> ('v list \<Rightarrow> bool) option \<Rightarrow> (rid list \<times> ('i, 'v) dbase, 'v list) next_fn" where
  "seq_scan_next tid predicate n st =
     (let (rids, db) = st in
      rbind (seq_scan_loop (db_mgr db) tid predicate n rids []) (\<lambda>(batch, rids'). Inr (batch \<noteq> [], batch, (rids', db))))"

subsection \<open>Index scan\<close>

text \<open>A scan looks its keys up when it is initialised, or walks the whole index with an iterator; each record
  found by a lookup is taken once. The functions of the iterator are arguments.\<close>

datatype 'it index_cursor = Lookup "rid list" | Walk 'it

fun first_occurrences :: "'a list \<Rightarrow> 'a set \<Rightarrow> 'a list" where
  "first_occurrences [] seen = []"
| "first_occurrences (x # xs) seen = (if x \<in> seen then first_occurrences xs seen else x # first_occurrences xs (insert x seen))"

definition index_scan_init :: "('i \<Rightarrow> 'k \<Rightarrow> rid list) \<Rightarrow> ('i \<Rightarrow> 'it result) \<Rightarrow> nat \<Rightarrow> 'k list \<Rightarrow> txn_id \<Rightarrow> oid \<Rightarrow>
    ('v list \<Rightarrow> bool) option \<Rightarrow> 'it index_cursor \<times> ('i, 'v) dbase \<Rightarrow> ('it index_cursor \<times> ('i, 'v) dbase) result" where
  "index_scan_init lookup_key begin_iterator index_no pred_keys tid table predicate st =
     (let (cursor, db) = st; m = db_mgr db; index = db_indexes db table ! index_no in
      rbind (get_txn m tid) (\<lambda>t.
        let db1 = db\<lparr>db_mgr := set_txn tid (AppendScanPredicate t table predicate) m\<rparr> in
        if pred_keys \<noteq> [] then Inr (Lookup (first_occurrences (concat (map (lookup_key index) pred_keys)) {}), db1)
        else rbind (begin_iterator index) (\<lambda>it. Inr (Walk it, db1))))"

text \<open>The next record id and the cursor behind it, if the scan is not at its end.\<close>

definition cursor_take :: "('it \<Rightarrow> bool) \<Rightarrow> ('it \<Rightarrow> rid result) \<Rightarrow> ('it \<Rightarrow> 'it result) \<Rightarrow> 'it index_cursor \<Rightarrow>
    (rid \<times> 'it index_cursor) option result" where
  "cursor_take is_end deref advance cursor =
     (case cursor of
        Lookup [] \<Rightarrow> Inr None
      | Lookup (rid # rids) \<Rightarrow> Inr (Some (rid, Lookup rids))
      | Walk it \<Rightarrow>
          if is_end it then Inr None
          else rbind (deref it) (\<lambda>rid. rbind (advance it) (\<lambda>it'. Inr (Some (rid, Walk it')))))"

partial_function (option) index_scan_loop ::
    "('it index_cursor \<Rightarrow> (rid \<times> 'it index_cursor) option result) \<Rightarrow> 'v txn_mgr \<Rightarrow> txn_id \<Rightarrow> ('v list \<Rightarrow> bool) option \<Rightarrow> nat \<Rightarrow>
     'it index_cursor \<Rightarrow> 'v list rows \<Rightarrow> ('v list rows \<times> 'it index_cursor) result option" where
  "index_scan_loop take_next m tid predicate n cursor batch =
     (if length batch < n then
        (case take_next cursor of
           Inl e \<Rightarrow> Some (Inl e)
         | Inr None \<Rightarrow> Some (Inr (batch, cursor))
         | Inr (Some (rid, cursor')) \<Rightarrow>
             (case visible_tuple m tid rid of
                Inl e \<Rightarrow> Some (Inl e)
              | Inr visible \<Rightarrow>
                  index_scan_loop take_next m tid predicate n cursor'
                    (case visible of None \<Rightarrow> batch | Some tuple \<Rightarrow> if accepts predicate tuple then batch @ [(tuple, rid)] else batch)))
      else Some (Inr (batch, cursor)))"

definition index_scan_next :: "('it index_cursor \<Rightarrow> (rid \<times> 'it index_cursor) option result) \<Rightarrow> txn_id \<Rightarrow> ('v list \<Rightarrow> bool) option \<Rightarrow>
    ('it index_cursor \<times> ('i, 'v) dbase, 'v list) next_fn" where
  "index_scan_next take_next tid predicate n st =
     (let (cursor, db) = st in
      rbind (ended (index_scan_loop take_next (db_mgr db) tid predicate n cursor [])) (\<lambda>(batch, cursor').
        Inr (batch \<noteq> [], batch, (cursor', db))))"

subsection \<open>Statements\<close>

datatype outcome = Touched nat | Conflict

text \<open>A loop over rows that stops at the first conflict, and the loop over the batches of a child.\<close>

fun apply_rows :: "('r \<Rightarrow> 'db \<Rightarrow> (bool \<times> 'db) result) \<Rightarrow> 'r list \<Rightarrow> nat \<Rightarrow> 'db \<Rightarrow> (outcome \<times> 'db) result" where
  "apply_rows step [] n db = Inr (Touched n, db)"
| "apply_rows step (r # rs) n db =
     rbind (step r db) (\<lambda>(ok, db'). if ok then apply_rows step rs (n + 1) db' else Inr (Conflict, db'))"

partial_function (option) apply_loop ::
    "('c \<times> 'db, 't) next_fn \<Rightarrow> ('t \<times> rid \<Rightarrow> 'db \<Rightarrow> (bool \<times> 'db) result) \<Rightarrow> nat \<Rightarrow> 'c \<times> 'db \<Rightarrow> (outcome \<times> 'c \<times> 'db) result option" where
  "apply_loop nxt step n s =
     (case nxt BUSTUB_BATCH_SIZE s of
        Inl e \<Rightarrow> Some (Inl e)
      | Inr (status, rows, (c, db)) \<Rightarrow>
          if \<not> status then Some (Inr (Touched n, c, db))
          else
            (case apply_rows step rows n db of
               Inl e \<Rightarrow> Some (Inl e)
             | Inr (Conflict, db') \<Rightarrow> Some (Inr (Conflict, c, db'))
             | Inr (Touched n', db') \<Rightarrow> apply_loop nxt step n' (c, db')))"

text \<open>The state of a statement is whether it is done, and its child; \<open>Init\<close> initialises the child.\<close>

definition statement_init :: "('c \<times> 'db \<Rightarrow> ('c \<times> 'db) result) \<Rightarrow> bool \<times> 'c \<times> 'db \<Rightarrow> (bool \<times> 'c \<times> 'db) result" where
  "statement_init init st = rbind (init (snd st)) (\<lambda>s. Inr (False, s))"

definition insert_row :: "('i \<Rightarrow> 'v list \<Rightarrow> rid list) \<Rightarrow> ('i \<Rightarrow> 'v list \<Rightarrow> rid \<Rightarrow> bool \<times> 'i) \<Rightarrow> ('v txn_mgr \<Rightarrow> oid \<Rightarrow> 'v list \<Rightarrow> rid option) \<Rightarrow>
    txn_id \<Rightarrow> oid \<Rightarrow> 'v list \<Rightarrow> ('i, 'v) dbase \<Rightarrow> (bool \<times> ('i, 'v) dbase) result" where
  "insert_row scan_key insert_entry fresh tid table tuple db =
     rbind (InsertTupleMvcc scan_key insert_entry (fresh (db_mgr db) table tuple) (db_indexes db table) (db_mgr db) tid table tuple)
       (\<lambda>(ok, indexes, m). Inr (ok, db\<lparr>db_mgr := m, db_indexes := (db_indexes db)(table := indexes)\<rparr>))"

definition modify_row :: "txn_id \<Rightarrow> oid \<Rightarrow> rid \<Rightarrow> 'v list option \<Rightarrow> ('i, 'v) dbase \<Rightarrow> (bool \<times> ('i, 'v) dbase) result" where
  "modify_row tid table rid target db =
     rbind (ModifyTuple (db_mgr db) tid table rid target False) (\<lambda>(ok, m). Inr (ok, db\<lparr>db_mgr := m\<rparr>))"

text \<open>The call of \<open>Next\<close>: the outcome, or \<open>None\<close> when the statement is done.\<close>

definition insert_next :: "('c \<times> ('i, 'v) dbase, 'v list) next_fn \<Rightarrow> ('i \<Rightarrow> 'v list \<Rightarrow> rid list) \<Rightarrow> ('i \<Rightarrow> 'v list \<Rightarrow> rid \<Rightarrow> bool \<times> 'i) \<Rightarrow>
    ('v txn_mgr \<Rightarrow> oid \<Rightarrow> 'v list \<Rightarrow> rid option) \<Rightarrow> txn_id \<Rightarrow> oid \<Rightarrow> bool \<times> 'c \<times> ('i, 'v) dbase \<Rightarrow>
    (outcome option \<times> bool \<times> 'c \<times> ('i, 'v) dbase) result" where
  "insert_next nxt scan_key insert_entry fresh tid table st =
     (if fst st then Inr (None, st)
      else
        rbind (ended (apply_loop nxt (\<lambda>(tuple, rid). insert_row scan_key insert_entry fresh tid table tuple) 0 (snd st))) (\<lambda>(res, s).
          Inr (Some res, res \<noteq> Conflict, s)))"

definition delete_next :: "('c \<times> ('i, 'v) dbase, 'v list) next_fn \<Rightarrow> txn_id \<Rightarrow> oid \<Rightarrow> bool \<times> 'c \<times> ('i, 'v) dbase \<Rightarrow>
    (outcome option \<times> bool \<times> 'c \<times> ('i, 'v) dbase) result" where
  "delete_next nxt tid table st =
     (if fst st then Inr (None, st)
      else
        rbind (ended (apply_loop nxt (\<lambda>(tuple, rid). modify_row tid table rid None) 0 (snd st))) (\<lambda>(res, s).
          Inr (Some res, res \<noteq> Conflict, s)))"

text \<open>An update reads its child to the end first. \<open>keys\<close> are the keys of the primary key indexes of the table; a
  row whose key changes is deleted, and inserted again when all rows have been written.\<close>

definition collect_update :: "('v list \<Rightarrow> 'v list) \<Rightarrow> ('v list \<Rightarrow> 'k) list \<Rightarrow> 'v list \<times> rid \<Rightarrow>
    (rid \<times> 'v list) list \<times> rid set \<Rightarrow> ((rid \<times> 'v list) list \<times> rid set) result" where
  "collect_update target keys row acc =
     (let (tuple, rid) = row; (updates, moved) = acc; new = target tuple in
      Inr (updates @ [(rid, new)], if list_ex (\<lambda>key. key tuple \<noteq> key new) keys then insert rid moved else moved))"

definition update_rows :: "('i \<Rightarrow> 'v list \<Rightarrow> rid list) \<Rightarrow> ('i \<Rightarrow> 'v list \<Rightarrow> rid \<Rightarrow> bool \<times> 'i) \<Rightarrow> ('v txn_mgr \<Rightarrow> oid \<Rightarrow> 'v list \<Rightarrow> rid option) \<Rightarrow>
    txn_id \<Rightarrow> oid \<Rightarrow> (rid \<times> 'v list) list \<Rightarrow> rid set \<Rightarrow> ('i, 'v) dbase \<Rightarrow> (outcome \<times> ('i, 'v) dbase) result" where
  "update_rows scan_key insert_entry fresh tid table updates moved db =
     rbind (apply_rows (\<lambda>(rid, tuple). modify_row tid table rid (if rid \<in> moved then None else Some tuple)) updates 0 db) (\<lambda>(res, db1).
       if res = Conflict then Inr (Conflict, db1)
       else
         rbind (apply_rows (\<lambda>(rid, tuple). insert_row scan_key insert_entry fresh tid table tuple)
             (filter (\<lambda>(rid, tuple). rid \<in> moved) updates) 0 db1) (\<lambda>(res', db2).
           Inr (if res' = Conflict then Conflict else res, db2)))"

definition update_next :: "('c \<times> ('i, 'v) dbase, 'v list) next_fn \<Rightarrow> ('i \<Rightarrow> 'v list \<Rightarrow> rid list) \<Rightarrow> ('i \<Rightarrow> 'v list \<Rightarrow> rid \<Rightarrow> bool \<times> 'i) \<Rightarrow>
    ('v txn_mgr \<Rightarrow> oid \<Rightarrow> 'v list \<Rightarrow> rid option) \<Rightarrow> ('v list \<Rightarrow> 'v list) \<Rightarrow> ('v list \<Rightarrow> 'k) list \<Rightarrow> txn_id \<Rightarrow> oid \<Rightarrow>
    bool \<times> 'c \<times> ('i, 'v) dbase \<Rightarrow> (outcome option \<times> bool \<times> 'c \<times> ('i, 'v) dbase) result" where
  "update_next nxt scan_key insert_entry fresh target keys tid table st =
     (if fst st then Inr (None, st)
      else
        rbind (consume nxt (collect_update target keys) (snd st) ([], {})) (\<lambda>((updates, moved), (c, db)).
        rbind (update_rows scan_key insert_entry fresh tid table updates moved db) (\<lambda>(res, db').
          Inr (Some res, res \<noteq> Conflict, c, db'))))"

end
