(* ===== verification/Dml_Proofs.thy ===== *)
theory Dml_Proofs
  imports Snapshot_Isolation Dml Executor_Proofs BPTree_Index
begin

section \<open>What statements do to a table\<close>

text \<open>
  The contents of a table are the multiset of the tuples a transaction sees in it. The lemmas take
  one operation at a time: a write changes what the writer sees of one record (\<open>wrote\<close>, theory
  \<open>Snapshot_Isolation\<close>), a run of writes is \<open>wrote_all\<close>, an insertion through the indexes adds a
  tuple, a scan reads the visible records it accepts.
\<close>

subsection \<open>Contents\<close>

definition records_of :: "'v txn_mgr \<Rightarrow> oid \<Rightarrow> rid set" where
  "records_of m table = {r \<in> dom (heap m). table_of m (fst r) = table}"

definition contents :: "'v txn_mgr \<Rightarrow> txn_id \<Rightarrow> oid \<Rightarrow> 'v list multiset" where
  "contents m i table = image_mset (\<lambda>r. the (seen m i r)) (mset_set {r \<in> records_of m table. seen m i r \<noteq> None})"

lemma seen_records: "seen m i r \<noteq> None \<Longrightarrow> r \<in> dom (heap m)"
  by (metis domIff seen_absent)

lemma contents_insert:
  assumes "wrote m i rid (Some x) m'" "seen m i rid = None" "table_of m (fst rid) = table" "finite (records_of m table)"
  shows "contents m' i table = add_mset x (contents m i table)" "finite (records_of m' table)"
proof -
  have w: "dom (heap m') = insert rid (dom (heap m))" "table_of m' = table_of m" "seen m' i = (seen m i)(rid := Some x)"
    using assms(1) by (auto simp: wrote_def simp del: split_paired_All)
  have r: "records_of m' table = insert rid (records_of m table)" using w(1,2) assms(3) by (auto simp: records_of_def)
  then show "finite (records_of m' table)" using assms(4) by simp
  have s: "{r \<in> records_of m' table. seen m' i r \<noteq> None} = insert rid {r \<in> records_of m table. seen m i r \<noteq> None}"
    unfolding r w(3) by auto
  have "finite {r \<in> records_of m table. seen m i r \<noteq> None}" "rid \<notin> {r \<in> records_of m table. seen m i r \<noteq> None}"
    using assms(2,4) by auto
  then show "contents m' i table = add_mset x (contents m i table)"
    unfolding contents_def s by (auto simp: w(3) intro!: image_mset_cong)
qed

subsection \<open>Runs of writes\<close>

text \<open>\<open>f\<close> holds the records written, with what they were set to.\<close>

definition wrote_all :: "'v txn_mgr \<Rightarrow> txn_id \<Rightarrow> (rid \<rightharpoonup> 'v list option) \<Rightarrow> 'v txn_mgr \<Rightarrow> bool" where
  "wrote_all m i f m' \<longleftrightarrow> running m' i \<and> dom (heap m') = dom (heap m) \<union> dom f \<and> table_of m' = table_of m \<and>
     columns_of m' = columns_of m \<and> (\<forall>r. seen m' i r = (case f r of None \<Rightarrow> seen m i r | Some target \<Rightarrow> target))"

lemma wrote_all_none: "running m i \<Longrightarrow> wrote_all m i Map.empty m"
  by (simp add: wrote_all_def)

lemma wrote_all_one: "wrote m i rid target m' \<Longrightarrow> wrote_all m i [rid \<mapsto> target] m'"
  by (simp add: wrote_def wrote_all_def del: split_paired_All)

lemma wrote_all_trans: "wrote_all m i f m' \<Longrightarrow> wrote_all m' i g m'' \<Longrightarrow> wrote_all m i (f ++ g) m''"
  by (auto simp: wrote_all_def map_add_def Un_ac simp del: split_paired_All split: option.splits)

lemma wrote_all_records:
  "wrote_all m i f m' \<Longrightarrow> dom f \<subseteq> dom (heap m) \<Longrightarrow> records_of m' table = records_of m table"
  by (auto simp: wrote_all_def records_of_def)

text \<open>The loop over rows that modifies a record for each.\<close>

lemma modify_rows:
  assumes "running (db_mgr db) i" "\<forall>k \<in> set ks. rid k \<in> records_of (db_mgr db) table \<and>
      (\<forall>x. tg k = Some x \<longrightarrow> length x = columns_of (db_mgr db) table)"
  shows "\<exists>res db'. apply_rows (\<lambda>k. modify_row i table (rid k) (tg k)) ks n db = Inr (res, db') \<and> db_indexes db' = db_indexes db \<and>
    (if res = Conflict then tainted (db_mgr db') i
     else res = Touched (n + length ks) \<and> wrote_all (db_mgr db) i (map_of (rev (map (\<lambda>k. (rid k, tg k)) ks))) (db_mgr db'))"
  using assms
proof (induction ks arbitrary: n db)
  case Nil
  then show ?case by (simp add: wrote_all_none)
next
  case (Cons k ks)
  let ?m = "db_mgr db"
  have k: "heap ?m (rid k) \<noteq> None" "table_of ?m (fst (rid k)) = table" "\<forall>x. tg k = Some x \<longrightarrow> length x = columns_of ?m table"
    using Cons.prems(2) by (auto simp: records_of_def)
  from modify_result [OF Cons.prems(1) k, of False] show ?case
  proof (elim disjE exE conjE)
    fix m' assume "ModifyTuple ?m i table (rid k) (tg k) False = Inr (False, m')" "tainted m' i"
    then show ?thesis by (simp add: modify_row_def)
  next
    fix m' assume m': "ModifyTuple ?m i table (rid k) (tg k) False = Inr (True, m')" "wrote ?m i (rid k) (tg k) m'"
    note w = wrote_all_one [OF m'(2)]
    let ?db = "db\<lparr>db_mgr := m'\<rparr>"
    have run: "running (db_mgr ?db) i" using m'(2) by (simp add: wrote_def)
    have "dom [rid k \<mapsto> tg k] \<subseteq> dom (heap ?m)" using k(1) by auto
    note rec = wrote_all_records [OF w this, of table]
    have "\<forall>k \<in> set ks. rid k \<in> records_of (db_mgr ?db) table \<and> (\<forall>x. tg k = Some x \<longrightarrow> length x = columns_of (db_mgr ?db) table)"
      using Cons.prems(2) w rec by (simp add: wrote_all_def)
    from Cons.IH [OF run this, of "n + 1"] obtain res db' where
      r: "apply_rows (\<lambda>k. modify_row i table (rid k) (tg k)) ks (n + 1) ?db = Inr (res, db')" "db_indexes db' = db_indexes ?db"
      "if res = Conflict then tainted (db_mgr db') i
       else res = Touched (n + 1 + length ks) \<and> wrote_all (db_mgr ?db) i (map_of (rev (map (\<lambda>k. (rid k, tg k)) ks))) (db_mgr db')"
      by blast
    have "wrote_all ?m i (map_of (rev (map (\<lambda>k. (rid k, tg k)) (k # ks)))) (db_mgr db')" if "res \<noteq> Conflict"
      using wrote_all_trans [OF w, of _ "db_mgr db'"] r(3) that by (simp add: map_of_append)
    moreover have "apply_rows (\<lambda>k. modify_row i table (rid k) (tg k)) (k # ks) n db =
        apply_rows (\<lambda>k. modify_row i table (rid k) (tg k)) ks (n + 1) ?db"
      by (simp add: modify_row_def m'(1))
    ultimately show ?thesis using r by (intro exI [of _ res] exI [of _ db']) auto
  qed
qed

subsection \<open>Sequential scans\<close>

definition scan_rows :: "'v txn_mgr \<Rightarrow> txn_id \<Rightarrow> ('v list \<Rightarrow> bool) option \<Rightarrow> rid list \<Rightarrow> 'v list rows" where
  "scan_rows m i predicate rids =
     List.map_filter (\<lambda>r. case seen m i r of Some x \<Rightarrow> if accepts predicate x then Some (x, r) else None | None \<Rightarrow> None) rids"

lemma scan_rows_simps [simp]:
  "scan_rows m i predicate [] = []"
  "scan_rows m i predicate (r # rids) =
     (case seen m i r of Some x \<Rightarrow> if accepts predicate x then [(x, r)] else [] | None \<Rightarrow> []) @ scan_rows m i predicate rids"
  by (auto simp: scan_rows_def split: option.splits)

lemma scan_rows_append: "scan_rows m i predicate (xs @ ys) = scan_rows m i predicate xs @ scan_rows m i predicate ys"
  by (induction xs) auto

lemma scan_rows_cong: "(\<And>r. r \<in> set rids \<Longrightarrow> seen m i r = seen m' i r) \<Longrightarrow> scan_rows m i predicate rids = scan_rows m' i predicate rids"
  by (induction rids) auto

lemma scan_rows_mem: "(x, r) \<in> set (scan_rows m i predicate rids) \<longleftrightarrow> r \<in> set rids \<and> seen m i r = Some x \<and> accepts predicate x"
  by (induction rids) (auto split: option.splits)

lemma scan_rows_rids: "snd ` set (scan_rows m i predicate rids) = {r \<in> set rids. \<exists>x. seen m i r = Some x \<and> accepts predicate x}"
  by (induction rids) (auto split: option.splits)

lemma distinct_scan_rows: "distinct rids \<Longrightarrow> distinct (map snd (scan_rows m i predicate rids))"
  using scan_rows_rids [of m i predicate] by (induction rids) (force split: option.splits)+

text \<open>A call takes records from the front until its batch is full.\<close>

lemma seq_scan_loop_ok:
  assumes "running m i" "\<forall>r \<in> set rids. heap m r \<noteq> None" "length batch \<le> n"
  shows "\<exists>taken left. seq_scan_loop m i predicate n rids batch = Inr (batch @ scan_rows m i predicate taken, left) \<and> rids = taken @ left \<and>
    length (batch @ scan_rows m i predicate taken) \<le> n \<and> (left \<noteq> [] \<longrightarrow> length (batch @ scan_rows m i predicate taken) = n)"
  using assms(2,3)
proof (induction rids arbitrary: batch)
  case Nil
  then show ?case by (intro exI [of _ "[]"]) simp
next
  case (Cons r rids)
  show ?case
  proof (cases "length batch < n")
    case True
    let ?batch = "batch @ scan_rows m i predicate [r]"
    have v: "visible_tuple m i r = Inr (seen m i r)" using seen_visible [OF assms(1), of r] Cons.prems(1) by simp
    have step: "seq_scan_loop m i predicate n (r # rids) batch = seq_scan_loop m i predicate n rids ?batch"
      using True v by (auto split: option.split)
    have "length ?batch \<le> n" using True by (auto split: option.split)
    then obtain taken left where t: "seq_scan_loop m i predicate n rids ?batch = Inr (?batch @ scan_rows m i predicate taken, left)"
      "rids = taken @ left" "length (?batch @ scan_rows m i predicate taken) \<le> n"
      "left \<noteq> [] \<longrightarrow> length (?batch @ scan_rows m i predicate taken) = n"
      using Cons.IH [of ?batch] Cons.prems(1) by auto
    have e: "?batch @ scan_rows m i predicate taken = batch @ scan_rows m i predicate (r # taken)" by simp
    have "seq_scan_loop m i predicate n (r # rids) batch = Inr (batch @ scan_rows m i predicate (r # taken), left) \<and>
        r # rids = (r # taken) @ left" unfolding step t(1) e by (simp add: t(2))
    with t(3,4) [unfolded e] show ?thesis by blast
  next
    case False
    with Cons.prems(2) show ?thesis by (intro exI [of _ "[]"] exI [of _ "r # rids"]) simp
  qed
qed

definition scan_ready :: "txn_id \<Rightarrow> ('v list \<Rightarrow> bool) option \<Rightarrow> rid list \<times> ('i, 'v) dbase \<Rightarrow> 'v list rows \<Rightarrow> bool" where
  "scan_ready i predicate s xs \<longleftrightarrow> running (db_mgr (snd s)) i \<and> (\<forall>r \<in> set (fst s). heap (db_mgr (snd s)) r \<noteq> None) \<and>
     xs = scan_rows (db_mgr (snd s)) i predicate (fst s)"

lemma seq_scan_next_ok:
  assumes "running (db_mgr db) i" "\<forall>r \<in> set rids. heap (db_mgr db) r \<noteq> None" "0 < n"
  shows "\<exists>taken left. rids = taken @ left \<and>
    hands (seq_scan_next i predicate) n n (rids, db) (scan_rows (db_mgr db) i predicate rids)
      (scan_rows (db_mgr db) i predicate taken) (scan_rows (db_mgr db) i predicate left) (left, db) \<and>
    (scan_rows (db_mgr db) i predicate taken = [] \<longrightarrow> left = [])"
proof -
  obtain taken left where t: "seq_scan_loop (db_mgr db) i predicate n rids [] = Inr (scan_rows (db_mgr db) i predicate taken, left)"
    "rids = taken @ left" "length (scan_rows (db_mgr db) i predicate taken) \<le> n"
    "left \<noteq> [] \<longrightarrow> length (scan_rows (db_mgr db) i predicate taken) = n"
    using seq_scan_loop_ok [OF assms(1,2), of "[]" n predicate] assms(3) by auto
  have e: "left = []" if "scan_rows (db_mgr db) i predicate taken = []" using t(4) assms(3) that by auto
  show ?thesis
    by (rule exI [of _ taken], rule exI [of _ left])
      (use t(1,3) e in \<open>auto simp: t(2) hands_def seq_scan_next_def scan_rows_append\<close>)
qed

lemma seq_scan_yields: "scan_ready i predicate s xs \<Longrightarrow> yields Sized (seq_scan_next i predicate) s xs"
proof (coinduction arbitrary: s xs rule: yields_coinduct)
  case (step n s xs)
  obtain rids db where s: "s = (rids, db)" by (cases s)
  have a: "running (db_mgr db) i" "\<forall>r \<in> set rids. heap (db_mgr db) r \<noteq> None" "0 < n" and xs: "xs = scan_rows (db_mgr db) i predicate rids"
    using step by (simp_all add: s scan_ready_def)
  obtain taken left where t: "rids = taken @ left"
    "hands (seq_scan_next i predicate) n n (rids, db) xs
      (scan_rows (db_mgr db) i predicate taken) (scan_rows (db_mgr db) i predicate left) (left, db)"
    using seq_scan_next_ok [OF a, of predicate] unfolding xs by blast
  have "scan_ready i predicate (left, db) (scan_rows (db_mgr db) i predicate left)" using a t(1) by (simp add: scan_ready_def)
  with t(2) show ?case unfolding s most.simps by blast
qed

subsection \<open>Deleting what a scan accepts\<close>

text \<open>The scan goes on over what the statement has written so far: the records it has yet to reach are as they were.\<close>

abbreviation deletions :: "'v txn_mgr \<Rightarrow> txn_id \<Rightarrow> ('v list \<Rightarrow> bool) option \<Rightarrow> rid list \<Rightarrow> rid \<rightharpoonup> 'v list option" where
  "deletions m i predicate rids \<equiv> map_of (map (\<lambda>(x, r). (r, None)) (scan_rows m i predicate rids))"

lemma map_of_rev_distinct: "distinct (map fst xs) \<Longrightarrow> map_of (rev xs) = map_of xs"
proof (induction xs)
  case (Cons x xs)
  then have "fst x \<notin> dom (map_of xs)" by (simp add: dom_map_of_conv_image_fst)
  with Cons show ?case by (cases x) (auto simp: map_add_def fun_eq_iff domIff split: option.split)
qed simp

lemma deletions_dom: "dom (deletions m i predicate rids) = {r \<in> set rids. \<exists>x. seen m i r = Some x \<and> accepts predicate x}"
  unfolding scan_rows_rids [symmetric] by (simp add: dom_map_of_conv_image_fst image_image case_prod_unfold)

lemma deletions_append:
  "distinct (xs @ ys) \<Longrightarrow> deletions m i predicate xs ++ deletions m i predicate ys = deletions m i predicate (xs @ ys)"
  by (simp add: scan_rows_append map_of_append) (rule map_add_comm, auto simp: deletions_dom)

lemma delete_loop_ok:
  assumes "running (db_mgr db) i" "distinct rids" "set rids \<subseteq> records_of (db_mgr db) table"
  shows "\<exists>res left db'. apply_loop (seq_scan_next i predicate) (\<lambda>(tuple, rid). modify_row i table rid None) n (rids, db) =
      Some (Inr (res, left, db')) \<and> db_indexes db' = db_indexes db \<and>
    (if res = Conflict then tainted (db_mgr db') i
     else res = Touched (n + length (scan_rows (db_mgr db) i predicate rids)) \<and>
       wrote_all (db_mgr db) i (deletions (db_mgr db) i predicate rids) (db_mgr db'))"
  using assms
proof (induction "length rids" arbitrary: rids db n rule: less_induct)
  case less
  let ?m = "db_mgr db"
  let ?step = "\<lambda>(tuple, rid). modify_row i table rid None :: ('b, 'a) dbase \<Rightarrow> _"
  have heap: "\<forall>r \<in> set rids. heap ?m r \<noteq> None" using less.prems(3) by (auto simp: records_of_def)
  obtain taken left where t: "rids = taken @ left"
    "seq_scan_next i predicate BUSTUB_BATCH_SIZE (rids, db) =
      Inr (scan_rows ?m i predicate taken \<noteq> [], scan_rows ?m i predicate taken, (left, db))"
    "scan_rows ?m i predicate taken = [] \<longrightarrow> left = []"
    using seq_scan_next_ok [OF less.prems(1) heap, of BUSTUB_BATCH_SIZE predicate] by (auto simp: hands_def BUSTUB_BATCH_SIZE_def)
  show ?case
  proof (cases "scan_rows ?m i predicate taken = []")
    case True
    with t(3) show ?thesis
      by (subst apply_loop.simps) (simp add: t(2), simp add: t(1) wrote_all_none less.prems(1))
  next
    case False
    have "\<forall>k \<in> set (scan_rows ?m i predicate taken). snd k \<in> records_of ?m table \<and> (\<forall>x. None = Some x \<longrightarrow> length x = columns_of ?m table)"
      using less.prems(3) scan_rows_rids [of ?m i predicate taken] by (auto simp: t(1))
    from modify_rows [OF less.prems(1) this, of n] obtain res db1 where
      a: "apply_rows ?step (scan_rows ?m i predicate taken) n db = Inr (res, db1)" "db_indexes db1 = db_indexes db"
      "if res = Conflict then tainted (db_mgr db1) i else res = Touched (n + length (scan_rows ?m i predicate taken)) \<and>
         wrote_all ?m i (map_of (rev (map (\<lambda>k. (snd k, None)) (scan_rows ?m i predicate taken)))) (db_mgr db1)"
      by (auto simp: case_prod_unfold)
    show ?thesis
    proof (cases "res = Conflict")
      case True
      with a False show ?thesis by (subst apply_loop.simps) (auto simp: t(2))
    next
      case ok: False
      have u: "map_of (rev (map (\<lambda>k. (snd k, None)) (scan_rows ?m i predicate taken))) = deletions ?m i predicate taken"
        using map_of_rev_distinct [of "map (\<lambda>k. (snd k, None)) (scan_rows ?m i predicate taken)"]
          distinct_scan_rows [of taken ?m i predicate] less.prems(2) by (simp add: t(1) comp_def case_prod_unfold)
      have w: "wrote_all ?m i (deletions ?m i predicate taken) (db_mgr db1)" using a(3) ok u by simp
      have shorter: "length left < length rids" using False by (auto simp: t(1))
      have d: "dom (deletions ?m i predicate taken) \<subseteq> set taken" by (auto simp: deletions_dom)
      have rec: "records_of (db_mgr db1) table = records_of ?m table"
        by (rule wrote_all_records [OF w]) (use d less.prems(3) in \<open>auto simp: t(1) records_of_def\<close>)
      have same: "seen (db_mgr db1) i r = seen ?m i r" if "r \<in> set left" for r
      proof -
        have "r \<notin> set taken" using less.prems(2) that by (auto simp: t(1))
        with d have "deletions ?m i predicate taken r = None" by (meson domIff subsetD)
        with w show ?thesis by (simp add: wrote_all_def del: split_paired_All)
      qed
      have rows: "scan_rows (db_mgr db1) i predicate left = scan_rows ?m i predicate left" by (rule scan_rows_cong) (rule same)
      have run: "running (db_mgr db1) i" using w by (simp add: wrote_all_def)
      from less.hyps [OF shorter run, of "n + length (scan_rows ?m i predicate taken)"] obtain res' left' db' where
        b: "apply_loop (seq_scan_next i predicate) ?step (n + length (scan_rows ?m i predicate taken)) (left, db1) = Some (Inr (res', left', db'))"
        "db_indexes db' = db_indexes db1"
        "if res' = Conflict then tainted (db_mgr db') i
         else res' = Touched (n + length (scan_rows ?m i predicate taken) + length (scan_rows ?m i predicate left)) \<and>
           wrote_all (db_mgr db1) i (deletions ?m i predicate left) (db_mgr db')"
        using less.prems(2,3) unfolding rec rows by (auto simp: t(1))
      have "wrote_all ?m i (deletions ?m i predicate rids) (db_mgr db')" if "res' \<noteq> Conflict"
        using wrote_all_trans [OF w, of "deletions ?m i predicate left" "db_mgr db'"] b(3) that less.prems(2)
        by (simp add: t(1) deletions_append)
      moreover have "apply_loop (seq_scan_next i predicate) ?step n (rids, db) = Some (Inr (res', left', db'))"
        using a(1,3) ok b(1) False by (subst apply_loop.simps) (simp add: t(2))
      ultimately show ?thesis using a(2) b(2,3)
        by (intro exI [of _ res'] exI [of _ left'] exI [of _ db']) (simp add: t(1) scan_rows_append split: if_split_asm)
    qed
  qed
qed

subsection \<open>Contents after a statement\<close>

text \<open>\<open>target\<close> is what becomes of a tuple the scan accepts.\<close>

abbreviation changes :: "'v txn_mgr \<Rightarrow> txn_id \<Rightarrow> ('v list \<Rightarrow> bool) option \<Rightarrow> ('v list \<Rightarrow> 'v list option) \<Rightarrow> rid list \<Rightarrow> rid \<rightharpoonup> 'v list option" where
  "changes m i predicate target rids \<equiv> map_of (map (\<lambda>(x, r). (r, target x)) (scan_rows m i predicate rids))"

lemma changes_at:
  "r \<in> set rids \<Longrightarrow> changes m i predicate target rids r =
     (case seen m i r of Some x \<Rightarrow> if accepts predicate x then Some (target x) else None | None \<Rightarrow> None)"
proof (induction rids)
  case (Cons r' rids)
  have "changes m i predicate target rids r = None" if "r \<notin> set rids"
    using that by (auto simp: map_of_eq_None_iff image_image case_prod_unfold scan_rows_rids)
  with Cons show ?case by (cases "r = r'"; cases "r \<in> set rids") (auto split: option.splits)
qed simp

lemma contents_list:
  assumes "distinct rids" "set rids = records_of m table"
  shows "contents m i table = mset (List.map_filter (seen m i) rids)"
proof -
  have "mset_set {r \<in> records_of m table. seen m i r \<noteq> None} = filter_mset (\<lambda>r. seen m i r \<noteq> None) (mset rids)"
    unfolding assms(2) [symmetric] mset_set_set [OF assms(1), symmetric] by (rule filter_mset_mset_set [symmetric]) simp
  then show ?thesis by (simp add: contents_def List.map_filter_def comp_def mset_filter)
qed

lemma scan_rows_contents:
  assumes "distinct rids" "set rids = records_of m table"
  shows "mset (map fst (scan_rows m i predicate rids)) = filter_mset (accepts predicate) (contents m i table)"
  unfolding contents_list [OF assms] by (induction rids) (auto simp: List.map_filter_simps split: option.splits)

lemma changes_contents:
  assumes "distinct rids" "set rids = records_of m table" "wrote_all m i (changes m i predicate target rids) m'"
  shows "contents m' i table = filter_mset (\<lambda>x. \<not> accepts predicate x) (contents m i table) +
      mset (List.map_filter target (map fst (scan_rows m i predicate rids)))"
    and "records_of m' table = records_of m table"
    and "r \<notin> records_of m table \<Longrightarrow> seen m' i r = seen m i r"
proof -
  let ?f = "changes m i predicate target rids"
  have "dom ?f = snd ` set (scan_rows m i predicate rids)" by (simp add: dom_map_of_conv_image_fst image_image case_prod_unfold)
  then have d: "dom ?f \<subseteq> set rids" unfolding scan_rows_rids by simp
  also have "\<dots> \<subseteq> dom (heap m)" using assms(2) by (auto simp: records_of_def)
  finally show r: "records_of m' table = records_of m table" by (rule wrote_all_records [OF assms(3)])
  have seen': "seen m' i r = (case ?f r of None \<Rightarrow> seen m i r | Some y \<Rightarrow> y)" for r
    using assms(3) by (simp add: wrote_all_def del: split_paired_All)
  show "seen m' i r = seen m i r" if "r \<notin> records_of m table"
  proof -
    have "r \<notin> dom ?f" using d that unfolding assms(2) [symmetric] by blast
    then have "?f r = None" by (simp only: domIff not_not)
    then show ?thesis unfolding seen' by simp
  qed
  have at: "\<forall>r \<in> set rids. seen m' i r =
      (case seen m i r of Some x \<Rightarrow> if accepts predicate x then target x else Some x | None \<Rightarrow> None)"
    unfolding seen' by (auto simp: changes_at split: option.split)
  have "mset (List.map_filter (seen m' i) xs) =
      filter_mset (\<lambda>x. \<not> accepts predicate x) (mset (List.map_filter (seen m i) xs)) +
      mset (List.map_filter target (map fst (scan_rows m i predicate xs)))" if "set xs \<subseteq> set rids" for xs
    using that
  proof (induction xs)
    case (Cons r xs)
    then have "seen m' i r = (case seen m i r of Some x \<Rightarrow> if accepts predicate x then target x else Some x | None \<Rightarrow> None)"
      using at by auto
    with Cons show ?case by (auto simp: List.map_filter_simps split: option.splits)
  qed (simp add: List.map_filter_simps)
  from this [of rids] show "contents m' i table = filter_mset (\<lambda>x. \<not> accepts predicate x) (contents m i table) +
      mset (List.map_filter target (map fst (scan_rows m i predicate rids)))"
    unfolding contents_list [OF assms(1,2)] contents_list [OF assms(1) assms(2) [folded r]] by simp
qed

subsection \<open>Insertions\<close>

text \<open>What an insertion relies on of an index: an entry adds at most its own record to what a key finds.\<close>

locale row_index =
  fixes scan_key :: "'i \<Rightarrow> 'v list \<Rightarrow> rid list" and insert_entry :: "'i \<Rightarrow> 'v list \<Rightarrow> rid \<Rightarrow> bool \<times> 'i" and good :: "'i \<Rightarrow> bool"
  assumes entry_good: "good ix \<Longrightarrow> good (snd (insert_entry ix x r))"
    and entry_hits: "good ix \<Longrightarrow> set (scan_key (snd (insert_entry ix x r)) y) \<subseteq> insert r (set (scan_key ix y))"

text \<open>The indexes of a table are good and find only records of the table.\<close>

definition hits_ok :: "('i \<Rightarrow> 'v list \<Rightarrow> rid list) \<Rightarrow> ('i \<Rightarrow> bool) \<Rightarrow> ('i, 'v) dbase \<Rightarrow> oid \<Rightarrow> bool" where
  "hits_ok scan_key good db table \<longleftrightarrow>
     (\<forall>ix \<in> set (db_indexes db table). good ix \<and> (\<forall>x. set (scan_key ix x) \<subseteq> records_of (db_mgr db) table))"

text \<open>The slot of the table heap is a new record of the table.\<close>

definition fresh_ok :: "('v txn_mgr \<Rightarrow> oid \<Rightarrow> 'v list \<Rightarrow> rid option) \<Rightarrow> bool" where
  "fresh_ok fresh \<longleftrightarrow> (\<forall>m table x r. fresh m table x = Some r \<longrightarrow> heap m r = None \<and> table_of m (fst r) = table)"

lemma insert_entries_origin:
  "insert_entries f rid is = (True, is') \<Longrightarrow> ix' \<in> set is' \<Longrightarrow> \<exists>ix \<in> set is. ix' = snd (f ix rid)"
  by (induction "is" arbitrary: is') (auto simp: Let_def split: prod.splits if_splits)

text \<open>\<open>added\<close> is what a run of insertions leaves.\<close>

definition added :: "('i \<Rightarrow> 'v list \<Rightarrow> rid list) \<Rightarrow> ('i \<Rightarrow> bool) \<Rightarrow> txn_id \<Rightarrow> oid \<Rightarrow> 'v list list \<Rightarrow> ('i, 'v) dbase \<Rightarrow> ('i, 'v) dbase \<Rightarrow> bool" where
  "added scan_key good i table xs db db' \<longleftrightarrow> running (db_mgr db') i \<and> hits_ok scan_key good db' table \<and>
     finite (records_of (db_mgr db') table) \<and> table_of (db_mgr db') = table_of (db_mgr db) \<and> columns_of (db_mgr db') = columns_of (db_mgr db) \<and>
     contents (db_mgr db') i table = contents (db_mgr db) i table + mset xs \<and>
     (\<forall>r. table_of (db_mgr db) (fst r) \<noteq> table \<longrightarrow> seen (db_mgr db') i r = seen (db_mgr db) i r)"

lemma added_trans: "added sk g i table xs db db' \<Longrightarrow> added sk g i table ys db' db'' \<Longrightarrow> added sk g i table (xs @ ys) db db''"
  by (simp add: added_def del: split_paired_All)

lemma added_none:
  "running (db_mgr db) i \<Longrightarrow> hits_ok sk g db table \<Longrightarrow> finite (records_of (db_mgr db) table) \<Longrightarrow> added sk g i table [] db db"
  by (simp add: added_def)

context row_index
begin

lemma insert_row_ok:
  assumes "running (db_mgr db) i" "length x = columns_of (db_mgr db) table" "hits_ok scan_key good db table" "fresh_ok fresh"
    "finite (records_of (db_mgr db) table)"
  shows "\<exists>ok db'. insert_row scan_key insert_entry fresh i table x db = Inr (ok, db') \<and>
    (if ok then added scan_key good i table [x] db db' else tainted (db_mgr db') i)"
proof -
  let ?m = "db_mgr db" and ?is = "db_indexes db table"
  have a: "\<forall>ix \<in> set ?is. \<forall>r \<in> set (scan_key ix x). heap ?m r \<noteq> None \<and> table_of ?m (fst r) = table"
    using assms(3) unfolding hits_ok_def records_of_def by blast
  have b: "\<forall>r. fresh ?m table x = Some r \<longrightarrow> heap ?m r = None \<and> table_of ?m (fst r) = table" using assms(4) unfolding fresh_ok_def by blast
  from insert_result [where scan_key = scan_key and fresh = "fresh ?m table x" and insert_entry = insert_entry, OF assms(1,2) a b]
  show ?thesis
  proof (rule disjE; elim exE conjE)
    fix is' m' assume "InsertTupleMvcc scan_key insert_entry (fresh ?m table x) ?is ?m i table x = Inr (False, is', m')" "tainted m' i"
    then show ?thesis by (auto simp: insert_row_def)
  next
    fix rid is' m'
    assume i: "InsertTupleMvcc scan_key insert_entry (fresh ?m table x) ?is ?m i table x = Inr (True, is', m')"
      "table_of ?m (fst rid) = table" "seen ?m i rid = None" "wrote ?m i rid (Some x) m'"
      "is' = ?is \<or> insert_entries (\<lambda>ix r. insert_entry ix x r) rid ?is = (True, is')"
    let ?db = "db\<lparr>db_mgr := m', db_indexes := (db_indexes db)(table := is')\<rparr>"
    have w: "running m' i" "dom (heap m') = insert rid (dom (heap ?m))" "table_of m' = table_of ?m" "columns_of m' = columns_of ?m"
      "\<forall>r. seen m' i r = (if r = rid then Some x else seen ?m i r)" using i(4) unfolding wrote_def by blast+
    have rec: "records_of m' table = insert rid (records_of ?m table)" using w(2,3) i(2) by (auto simp: records_of_def)
    have "good ix' \<and> set (scan_key ix' y) \<subseteq> records_of m' table" if "ix' \<in> set is'" for ix' y
    proof -
      from that i(5) consider "ix' \<in> set ?is" | ix where "ix \<in> set ?is" "ix' = snd (insert_entry ix x rid)"
        using insert_entries_origin by metis
      then show ?thesis using assms(3) entry_good entry_hits [of _ x rid y] unfolding hits_ok_def rec by cases blast+
    qed
    then have h: "hits_ok scan_key good ?db table" by (simp add: hits_ok_def)
    note c = contents_insert [OF i(4,3,2) assms(5)]
    have "\<forall>r. table_of ?m (fst r) \<noteq> table \<longrightarrow> seen m' i r = seen ?m i r" using w(5) i(2) by metis
    then have "added scan_key good i table [x] db ?db" using w(1,3,4) h c unfolding added_def by simp
    with i(1) show ?thesis by (intro exI [of _ True] exI [of _ ?db]) (simp add: insert_row_def)
  qed
qed

lemma insert_rows_ok:
  assumes "running (db_mgr db) i" "\<forall>k \<in> set ks. length (tup k) = columns_of (db_mgr db) table" "hits_ok scan_key good db table"
    "fresh_ok fresh" "finite (records_of (db_mgr db) table)"
  shows "\<exists>res db'. apply_rows (\<lambda>k. insert_row scan_key insert_entry fresh i table (tup k)) ks n db = Inr (res, db') \<and>
    (if res = Conflict then tainted (db_mgr db') i
     else res = Touched (n + length ks) \<and> added scan_key good i table (map tup ks) db db')"
  using assms
proof (induction ks arbitrary: n db)
  case Nil
  then show ?case by (simp add: added_none)
next
  case (Cons k ks)
  obtain ok db1 where a: "insert_row scan_key insert_entry fresh i table (tup k) db = Inr (ok, db1)"
    "if ok then added scan_key good i table [tup k] db db1 else tainted (db_mgr db1) i"
    using insert_row_ok [OF Cons.prems(1) _ Cons.prems(3-5), of "tup k"] Cons.prems(2) by auto
  show ?case
  proof (cases ok)
    case False
    with a show ?thesis by simp
  next
    case True
    with a(2) have add: "added scan_key good i table [tup k] db db1" by simp
    then have "running (db_mgr db1) i" "\<forall>k \<in> set ks. length (tup k) = columns_of (db_mgr db1) table" "hits_ok scan_key good db1 table"
      "finite (records_of (db_mgr db1) table)" using Cons.prems(2) by (simp_all add: added_def)
    from Cons.IH [OF this(1-3) Cons.prems(4) this(4), of "n + 1"] obtain res db' where
      b: "apply_rows (\<lambda>k. insert_row scan_key insert_entry fresh i table (tup k)) ks (n + 1) db1 = Inr (res, db')"
      "if res = Conflict then tainted (db_mgr db') i
       else res = Touched (n + 1 + length ks) \<and> added scan_key good i table (map tup ks) db1 db'" by blast
    have "added scan_key good i table (map tup (k # ks)) db db'" if "res \<noteq> Conflict"
      using added_trans [OF add, of "map tup ks" db'] b(2) that by simp
    with a(1) b True show ?thesis by (intro exI [of _ res] exI [of _ db']) auto
  qed
qed

end

text \<open>A B+ tree index with its key function is one; an entry whose key is taken is refused.\<close>

definition tree_scan :: "('v list \<Rightarrow> 'k::linorder) \<times> ('k, rid) btree \<Rightarrow> 'v list \<Rightarrow> rid list" where
  "tree_scan ix x = (case ScanKey (fst ix) (snd ix) x [] of Inr rids \<Rightarrow> rids | Inl e \<Rightarrow> [])"

definition tree_insert :: "'k bt_config \<Rightarrow> ('v list \<Rightarrow> 'k::linorder) \<times> ('k, rid) btree \<Rightarrow> 'v list \<Rightarrow> rid \<Rightarrow>
    bool \<times> ('v list \<Rightarrow> 'k) \<times> ('k, rid) btree" where
  "tree_insert cfg ix x rid =
     (case InsertEntry (fst ix) cfg (snd ix) x rid of Inr (ok, container) \<Rightarrow> (ok, fst ix, container) | Inl e \<Rightarrow> (False, ix))"

definition tree_good :: "'k bt_config \<Rightarrow> ('v list \<Rightarrow> 'k::linorder) \<times> ('k, rid) btree \<Rightarrow> bool" where
  "tree_good cfg ix \<longleftrightarrow> (\<exists>m ks. index_inv cfg (snd ix) m ks)"

lemma tree_scan_inv: "index_inv cfg (snd ix) m ks \<Longrightarrow> tree_scan ix x = (case m (fst ix x) of None \<Rightarrow> [] | Some r \<Rightarrow> [r])"
  by (auto simp: tree_scan_def ScanKey_def index_get split: option.split)

lemma tree_insert_inv:
  assumes "index_inv cfg (snd ix) m ks"
  shows "\<exists>t'. tree_insert cfg ix x r = (fst ix x \<notin> ks, fst ix, t') \<and>
    index_inv cfg t' (if fst ix x \<in> ks then m else m(fst ix x \<mapsto> r)) (insert (fst ix x) ks)"
  using index_ins [OF assms, of "fst ix x" r] by (auto simp: tree_insert_def InsertEntry_def)

interpretation tree: row_index tree_scan "tree_insert cfg" "tree_good cfg" for cfg :: "('k::linorder) bt_config"
proof
  fix ix :: "('v list \<Rightarrow> 'k) \<times> ('k, rid) btree" and x r y
  assume "tree_good cfg ix"
  then obtain m ks where inv: "index_inv cfg (snd ix) m ks" unfolding tree_good_def by blast
  obtain t' where t': "tree_insert cfg ix x r = (fst ix x \<notin> ks, fst ix, t')"
    "index_inv cfg t' (if fst ix x \<in> ks then m else m(fst ix x \<mapsto> r)) (insert (fst ix x) ks)"
    using tree_insert_inv [OF inv] by blast
  show "tree_good cfg (snd (tree_insert cfg ix x r))" using t' unfolding tree_good_def by (auto simp del: fun_upd_apply)
  show "set (tree_scan (snd (tree_insert cfg ix x r)) y) \<subseteq> insert r (set (tree_scan ix y))"
    using tree_scan_inv [of cfg "(fst ix, t')"] t' tree_scan_inv [OF inv, of y] by (auto split: option.splits if_splits)
qed

subsection \<open>Reading a child that does not look at the database\<close>

definition beside :: "('c, 't) next_fn \<Rightarrow> ('c \<times> 'db, 't) next_fn" where
  "beside nxt n st = rbind (nxt n (fst st)) (\<lambda>(status, rows, c). Inr (status, rows, (c, snd st)))"

lemma apply_rows_append:
  "apply_rows step (xs @ ys) n db = rbind (apply_rows step xs n db) (\<lambda>(res, db').
     case res of Touched n' \<Rightarrow> apply_rows step ys n' db' | Conflict \<Rightarrow> Inr (Conflict, db'))"
  by (induction xs arbitrary: n db) (auto simp: rbind_def split: sum.split)

lemma apply_loop_beside:
  assumes "polled nxt c xs" "apply_rows step xs n db = Inr (res, db')"
  shows "\<exists>c'. apply_loop (beside nxt) step n (c, db) = Some (Inr (res, c', db'))"
  using assms
proof (induction "length xs" arbitrary: c xs n db rule: less_induct)
  case less
  obtain b rest c' where s: "nxt BUSTUB_BATCH_SIZE c = Inr (b \<noteq> [], b, c')" "xs = b @ rest" "b = [] \<longrightarrow> xs = []" "polled nxt c' rest"
    using src.poll_step [OF less.prems(1)] by (auto simp: hands_def)
  show ?case
  proof (cases "b = []")
    case True
    with s less.prems(2) show ?thesis by (subst apply_loop.simps) (auto simp: beside_def)
  next
    case False
    then have shorter: "length rest < length xs" using s(2) by simp
    obtain res1 db1 where a: "apply_rows step b n db = Inr (res1, db1)"
      using less.prems(2) unfolding s(2) apply_rows_append by (cases "apply_rows step b n db") auto
    show ?thesis
    proof (cases res1)
      case (Touched n')
      with less.prems(2) a have "apply_rows step rest n' db1 = Inr (res, db')" unfolding s(2) apply_rows_append by simp
      from less.hyps [OF shorter s(4) this] a Touched False s(1) show ?thesis by (subst apply_loop.simps) (simp add: beside_def)
    next
      case Conflict
      with less.prems(2) a have "res = Conflict \<and> db' = db1" unfolding s(2) apply_rows_append by simp
      with a Conflict False s(1) show ?thesis by (subst apply_loop.simps) (simp add: beside_def)
    qed
  qed
qed

end
