(* ===== verification/Dml_Props.thy ===== *)
theory Dml_Props
  imports Dml_Proofs Snapshot_Witnesses
begin

section \<open>What statements return\<close>

text \<open>
  The properties of the scan and write executors, from the call of \<open>Init\<close> to the row count: what a transaction
  sees of the table afterwards, or the write conflict that taints it.
\<close>

subsection \<open>The scan predicate\<close>

lemma noted_scan:
  assumes "running m i"
  shows "\<exists>t. txn_map m i = Some t \<and> running (set_txn i (AppendScanPredicate t table p) m) i \<and>
    seen (set_txn i (AppendScanPredicate t table p) m) i = seen m i"
proof -
  obtain t where t: "txn_map m i = Some t" "tx_state t = RUNNING" "reachable m" using assms by (auto simp: running_def)
  obtain V where V: "mvcc_ok m V" using mvcc_reachable_ok [OF t(3)] by blast
  define m' where "m' = set_txn i (AppendScanPredicate t table p) m"
  have act: "active t" using t(2) by (simp add: active_def)
  have t': "txn_map m' i = Some (AppendScanPredicate t table p)" "tx_state (AppendScanPredicate t table p) = RUNNING"
    "tx_read_ts (AppendScanPredicate t table p) = tx_read_ts t"
    using t(2) by (simp_all add: m'_def set_txn_def AppendScanPredicate_def)
  have "reachable m'" using reach_step [OF t(3) step_scan [OF t(1) act m'_def]] .
  then have "running m' i" using t' by (simp add: running_def)
  moreover have "seen m' i = seen m i"
    using seen_snapshot [OF AppendScanPredicate_ok [OF V t(1) act] t'(1,2) [unfolded m'_def]] seen_snapshot [OF V t(1,2)] t'(3)
    by (simp add: m'_def fun_eq_iff del: split_paired_All)
  ultimately show ?thesis using t(1) m'_def by blast
qed

lemma scan_started:
  assumes "running (db_mgr db) i"
  shows "\<exists>db1. seq_scan_init records i table p (left, db) = Inr (records (db_mgr db) table, db1) \<and> db_indexes db1 = db_indexes db \<and>
    running (db_mgr db1) i \<and> seen (db_mgr db1) i = seen (db_mgr db) i \<and> heap (db_mgr db1) = heap (db_mgr db) \<and>
    table_of (db_mgr db1) = table_of (db_mgr db) \<and> columns_of (db_mgr db1) = columns_of (db_mgr db)"
proof -
  obtain t where t: "txn_map (db_mgr db) i = Some t" "running (set_txn i (AppendScanPredicate t table p) (db_mgr db)) i"
    "seen (set_txn i (AppendScanPredicate t table p) (db_mgr db)) i = seen (db_mgr db) i"
    using noted_scan [OF assms] by blast
  then show ?thesis
    by (intro exI [of _ "db\<lparr>db_mgr := set_txn i (AppendScanPredicate t table p) (db_mgr db)\<rparr>"])
      (simp add: seq_scan_init_def get_txn_def Let_def, simp add: set_txn_def)
qed

text \<open>Only what the transaction sees of the records of the table enters the contents.\<close>

lemma contents_cong:
  "heap m' = heap m \<Longrightarrow> table_of m' = table_of m \<Longrightarrow> seen m' i = seen m i \<Longrightarrow>
   contents m' i table = contents m i table \<and> records_of m' table = records_of m table"
  by (simp add: contents_def records_of_def)

lemma records_heap: "set rids = records_of m table \<Longrightarrow> r \<in> set rids \<Longrightarrow> heap m r \<noteq> None"
  by (auto simp: records_of_def)

lemma other_tables: "table_of m (fst r) \<noteq> table \<Longrightarrow> r \<notin> records_of m table"
  by (simp add: records_of_def)

subsection \<open>Select\<close>

text \<open>C28: A sequential scan returns exactly the tuples of the table that the transaction sees and the predicate
  accepts, with their record ids, and notes the predicate for the validation of the transaction.\<close>

theorem seq_scan_contents:
  assumes "running (db_mgr db) i" "distinct (records (db_mgr db) table)" "set (records (db_mgr db) table) = records_of (db_mgr db) table"
  shows "\<exists>db1 rows s'. seq_scan_init records i table p (left, db) = Inr (records (db_mgr db) table, db1) \<and>
    drain (seq_scan_next i p) (records (db_mgr db) table, db1) = Inr (rows, s') \<and>
    mset (map fst rows) = filter_mset (accepts p) (contents (db_mgr db) i table) \<and>
    (\<forall>(x, r) \<in> set rows. seen (db_mgr db) i r = Some x)"
proof -
  let ?m = "db_mgr db" and ?rids = "records (db_mgr db) table"
  obtain db1 where d: "seq_scan_init records i table p (left, db) = Inr (?rids, db1)" "running (db_mgr db1) i"
    "seen (db_mgr db1) i = seen ?m i" "heap (db_mgr db1) = heap ?m" "table_of (db_mgr db1) = table_of ?m"
    using scan_started [OF assms(1), where records = records] by blast
  have rows: "scan_rows (db_mgr db1) i p ?rids = scan_rows ?m i p ?rids" by (rule scan_rows_cong) (simp add: d(3))
  have "scan_ready i p (?rids, db1) (scan_rows ?m i p ?rids)"
    using d(2) records_heap [OF assms(3)] by (simp add: scan_ready_def d(4) rows)
  then obtain s' where "drain (seq_scan_next i p) (?rids, db1) = Inr (scan_rows ?m i p ?rids, s')"
    using src.source_drain [OF sized_exact [OF seq_scan_yields]] by blast
  moreover have "\<forall>(x, r) \<in> set (scan_rows ?m i p ?rids). seen ?m i r = Some x" by (auto simp: scan_rows_mem)
  ultimately show ?thesis using d(1) scan_rows_contents [OF assms(2,3)] by blast
qed

interpretation scan: row_source "seq_scan_next i p" "\<lambda>s xs. scan_ready i p s xs \<and> snd s = db" for i p and db :: "('i, 'v) dbase"
proof
  fix s :: "rid list \<times> ('i, 'v) dbase" and xs
  assume a: "scan_ready i p s xs \<and> snd s = db"
  then obtain rids where s: "s = (rids, db)" by (cases s) simp
  have b: "running (db_mgr db) i" "\<forall>r \<in> set rids. heap (db_mgr db) r \<noteq> None" "0 < BUSTUB_BATCH_SIZE"
    "xs = scan_rows (db_mgr db) i p rids" using a by (simp_all add: s scan_ready_def BUSTUB_BATCH_SIZE_def)
  obtain taken left where t: "rids = taken @ left" "hands (seq_scan_next i p) BUSTUB_BATCH_SIZE BUSTUB_BATCH_SIZE s xs
      (scan_rows (db_mgr db) i p taken) (scan_rows (db_mgr db) i p left) (left, db)"
    using seq_scan_next_ok [OF b(1-3), of p] unfolding s b(4) by blast
  have "scan_ready i p (left, db) (scan_rows (db_mgr db) i p left)" using b(1,2) t(1) by (simp add: scan_ready_def)
  with t(2) show "\<exists>b rest s'. hands (seq_scan_next i p) BUSTUB_BATCH_SIZE BUSTUB_BATCH_SIZE s xs b rest s' \<and>
      scan_ready i p s' rest \<and> snd s' = db" by (metis snd_conv)
qed

subsection \<open>Index scans\<close>

text \<open>A scan that has looked its keys up goes over the records found as a sequential scan does.\<close>

lemma index_scan_loop_lookup:
  "index_scan_loop (cursor_take e d a) m i p n (Lookup rids) batch =
     Some (rbind (seq_scan_loop m i p n rids batch) (\<lambda>(rows, left). Inr (rows, Lookup left)))"
proof (induction rids arbitrary: batch)
  case Nil
  then show ?case by (subst index_scan_loop.simps) (simp add: cursor_take_def)
next
  case (Cons r rids)
  have take: "cursor_take e d a (Lookup (r # rids)) = Inr (Some (r, Lookup rids))" by (simp add: cursor_take_def)
  show ?case by (subst index_scan_loop.simps) (cases "visible_tuple m i r", simp_all add: take Cons)
qed

lemma index_scan_next_lookup:
  "index_scan_next (cursor_take e d a) i p n (Lookup rids, db) =
     rbind (seq_scan_next i p n (rids, db)) (\<lambda>(status, rows, s). Inr (status, rows, (Lookup (fst s), snd s)))"
  by (cases "seq_scan_loop (db_mgr db) i p n rids []") (auto simp: index_scan_next_def seq_scan_next_def index_scan_loop_lookup)

interpretation lookup: row_source "index_scan_next (cursor_take e d a) i p :: ('a index_cursor \<times> ('i, 'v) dbase, _) next_fn"
  "\<lambda>s xs. \<exists>rids. fst s = Lookup rids \<and> scan_ready i p (rids, snd s) xs"
  for e :: "'a \<Rightarrow> bool" and d a i and p :: "('v list \<Rightarrow> bool) option"
proof
  fix s :: "'a index_cursor \<times> ('i, 'v) dbase" and xs
  assume "\<exists>rids. fst s = Lookup rids \<and> scan_ready i p (rids, snd s) xs"
  then obtain rids db where s: "s = (Lookup rids, db)" "scan_ready i p (rids, db) xs" by (cases s) auto
  obtain b rest s' where h: "hands (seq_scan_next i p) BUSTUB_BATCH_SIZE BUSTUB_BATCH_SIZE (rids, db) xs b rest s'" "scan_ready i p s' rest"
    using scan.poll_step [of i p "(rids, db)" xs db] s(2) by auto
  have "hands (index_scan_next (cursor_take e d a) i p) BUSTUB_BATCH_SIZE BUSTUB_BATCH_SIZE s xs b rest (Lookup (fst s'), snd s')"
    using h(1) by (auto simp: hands_def s(1) index_scan_next_lookup)
  with h(2) show "\<exists>b rest s'. hands (index_scan_next (cursor_take e d a) i p) BUSTUB_BATCH_SIZE BUSTUB_BATCH_SIZE s xs b rest s' \<and>
      (\<exists>rids. fst s' = Lookup rids \<and> scan_ready i p (rids, snd s') rest)" by (metis fst_conv prod.collapse snd_conv)
qed

lemma first_occurrences_set: "set (first_occurrences xs S) = set xs - S" and distinct_first_occurrences: "distinct (first_occurrences xs S)"
proof -
  have set: "set (first_occurrences ys S) = set ys - S" for ys :: "'a list" and S by (induction ys arbitrary: S) auto
  then show "set (first_occurrences xs S) = set xs - S" .
  show "distinct (first_occurrences xs S)" by (induction xs arbitrary: S) (simp_all add: set)
qed


subsection \<open>Delete\<close>

text \<open>C30: A delete statement over a sequential scan either removes from what the transaction sees of the table
  exactly the tuples the predicate accepts, returns their number and leaves every other table as it was, or ends in a write conflict that
  taints the transaction.\<close>

theorem delete_statement:
  assumes "running (db_mgr db) i" "distinct (records (db_mgr db) table)" "set (records (db_mgr db) table) = records_of (db_mgr db) table"
  shows "\<exists>res fin left' db'. rbind (statement_init (seq_scan_init records i table p) (d, left, db)) (delete_next (seq_scan_next i p) i table) =
      Inr (Some res, fin, left', db') \<and> db_indexes db' = db_indexes db \<and>
    (if res = Conflict then \<not> fin \<and> tainted (db_mgr db') i
     else fin \<and> running (db_mgr db') i \<and> res = Touched (size (filter_mset (accepts p) (contents (db_mgr db) i table))) \<and>
       contents (db_mgr db') i table = filter_mset (\<lambda>x. \<not> accepts p x) (contents (db_mgr db) i table) \<and>
       (\<forall>r. table_of (db_mgr db) (fst r) \<noteq> table \<longrightarrow> seen (db_mgr db') i r = seen (db_mgr db) i r))"
proof -
  let ?m = "db_mgr db" and ?rids = "records (db_mgr db) table"
  obtain db1 where d: "seq_scan_init records i table p (left, db) = Inr (?rids, db1)" "db_indexes db1 = db_indexes db" "running (db_mgr db1) i"
    "seen (db_mgr db1) i = seen ?m i" "heap (db_mgr db1) = heap ?m" "table_of (db_mgr db1) = table_of ?m"
    using scan_started [OF assms(1), where records = records] by blast
  note c = contents_cong [OF d(5,6,4), of table]
  have rids: "set ?rids = records_of (db_mgr db1) table" using assms(3) c by simp
  obtain res left' db' where l: "apply_loop (seq_scan_next i p) (\<lambda>(tuple, rid). modify_row i table rid None) 0 (?rids, db1) =
      Some (Inr (res, left', db'))" "db_indexes db' = db_indexes db1"
    "if res = Conflict then tainted (db_mgr db') i
     else res = Touched (0 + length (scan_rows (db_mgr db1) i p ?rids)) \<and>
       wrote_all (db_mgr db1) i (deletions (db_mgr db1) i p ?rids) (db_mgr db')"
    using delete_loop_ok [OF d(3) assms(2), of table p 0] rids by auto
  have n: "size (filter_mset (accepts p) (contents ?m i table)) = length (scan_rows (db_mgr db1) i p ?rids)"
    using scan_rows_contents [OF assms(2) rids, of i p] c by (metis length_map size_mset)
  have "running (db_mgr db') i \<and> contents (db_mgr db') i table = filter_mset (\<lambda>x. \<not> accepts p x) (contents ?m i table) \<and>
      (\<forall>r. table_of ?m (fst r) \<noteq> table \<longrightarrow> seen (db_mgr db') i r = seen ?m i r)" if "res \<noteq> Conflict"
  proof -
    have w: "wrote_all (db_mgr db1) i (deletions (db_mgr db1) i p ?rids) (db_mgr db')" using l(3) that by simp
    note cc = changes_contents [OF assms(2) rids, where target = "\<lambda>_. None", OF w]
    have "List.map_filter (\<lambda>_. None) xs = []" for xs :: "'a list list" by (induction xs) (simp_all add: List.map_filter_simps)
    with cc(1) c have "contents (db_mgr db') i table = filter_mset (\<lambda>x. \<not> accepts p x) (contents ?m i table)" by simp
    moreover have "seen (db_mgr db') i r = seen ?m i r" if "table_of ?m (fst r) \<noteq> table" for r
      using cc(3) [of r] other_tables [OF that] c d(4) by simp
    ultimately show ?thesis using w by (simp add: wrote_all_def del: split_paired_All)
  qed
  with l d(1,2) n show ?thesis
    by (intro exI [of _ res] exI [of _ "res \<noteq> Conflict"] exI [of _ left'] exI [of _ db'])
      (simp add: statement_init_def delete_next_def del: split_paired_All split: if_split_asm)
qed

subsection \<open>Insert\<close>


subsection \<open>Update\<close>

text \<open>Reading the child collects the new tuples, and the records whose keys change.\<close>

abbreviation moves :: "('v list \<Rightarrow> 'v list) \<Rightarrow> ('v list \<Rightarrow> 'k) list \<Rightarrow> 'v list \<Rightarrow> bool" where
  "moves target keys x \<equiv> list_ex (\<lambda>key. key x \<noteq> key (target x)) keys"

lemma collect_folds:
  "fold_result (collect_update target keys) rows (us, mv) =
     Inr (us @ map (\<lambda>(x, r). (r, target x)) rows, mv \<union> {r. \<exists>x. (x, r) \<in> set rows \<and> moves target keys x})"
proof (induction rows arbitrary: us mv)
  case (Cons row rows)
  obtain x r where row: "row = (x, r)" by (cases row)
  have "{r'. \<exists>y. (y, r') \<in> set (row # rows) \<and> moves target keys y} =
      (if moves target keys x then {r} else {}) \<union> {r'. \<exists>y. (y, r') \<in> set rows \<and> moves target keys y}"
    by (auto simp: row)
  with Cons show ?case by (simp add: row collect_update_def Let_def)
qed simp

lemma rids_determine: "distinct (map snd rows) \<Longrightarrow> (x, r) \<in> set rows \<Longrightarrow> (y, r) \<in> set rows \<Longrightarrow> x = y"
  by (induction rows) (auto simp: image_iff)

lemma moved_iff:
  assumes "distinct (map snd rows)" "(x, r) \<in> set rows"
  shows "r \<in> {r. \<exists>x. (x, r) \<in> set rows \<and> moves target keys x} \<longleftrightarrow> moves target keys x"
  using assms rids_determine [OF assms(1)] by auto

text \<open>The contents: what is deleted and inserted again, and what is written in place, make up the new tuples.\<close>

lemma update_parts:
  "mset (List.map_filter (\<lambda>x. if P x then None else Some (f x)) xs) + mset (map f (filter P xs)) = image_mset f (mset xs)"
  by (induction xs) (auto simp: List.map_filter_simps)

lemma update_rows_ok:
  fixes db :: "(('v list \<Rightarrow> 'k::linorder) \<times> ('k, rid) btree, 'v) dbase" and keys :: "('v list \<Rightarrow> 'k) list"
  assumes run: "running (db_mgr db) i" and rids: "distinct rids" "set rids = records_of (db_mgr db) table"
    and hits: "hits_ok tree_scan (tree_good cfg) db table" and fresh: "fresh_ok fresh"
    and len: "\<forall>x. length (target x) = columns_of (db_mgr db) table"
    and rows: "rows = scan_rows (db_mgr db) i p rids" and moved: "moved = {r. \<exists>x. (x, r) \<in> set rows \<and> moves target keys x}"
  shows "\<exists>res db'. update_rows tree_scan (tree_insert cfg) fresh i table (map (\<lambda>(x, r). (r, target x)) rows) moved db = Inr (res, db') \<and>
    (if res = Conflict then tainted (db_mgr db') i
     else res = Touched (length rows) \<and> running (db_mgr db') i \<and> hits_ok tree_scan (tree_good cfg) db' table \<and>
       contents (db_mgr db') i table = filter_mset (\<lambda>x. \<not> accepts p x) (contents (db_mgr db) i table) + mset (map target (map fst rows)) \<and>
       (\<forall>r. table_of (db_mgr db) (fst r) \<noteq> table \<longrightarrow> seen (db_mgr db') i r = seen (db_mgr db) i r))"
proof -
  let ?m = "db_mgr db" and ?us = "map (\<lambda>(x, r). (r, target x)) rows"
  let ?tg = "\<lambda>k. if fst k \<in> moved then None else Some (snd k)"
  have dist: "distinct (map snd rows)" unfolding rows by (rule distinct_scan_rows [OF rids(1)])
  have mv: "r \<in> moved \<longleftrightarrow> moves target keys x" if "(x, r) \<in> set rows" for x r
    unfolding moved by (rule moved_iff [OF dist that])
  have mem: "snd ` set rows \<subseteq> records_of ?m table" unfolding rows scan_rows_rids using rids(2) by auto
  have "\<forall>k \<in> set ?us. fst k \<in> records_of ?m table \<and> (\<forall>x. ?tg k = Some x \<longrightarrow> length x = columns_of ?m table)"
    using mem len by auto
  from modify_rows [OF run this, of 0] obtain res1 db1 where
    a: "apply_rows (\<lambda>k. modify_row i table (fst k) (?tg k)) ?us 0 db = Inr (res1, db1)" "db_indexes db1 = db_indexes db"
    "if res1 = Conflict then tainted (db_mgr db1) i
     else res1 = Touched (0 + length ?us) \<and> wrote_all ?m i (map_of (rev (map (\<lambda>k. (fst k, ?tg k)) ?us))) (db_mgr db1)" by blast
  let ?upd = "update_rows tree_scan (tree_insert cfg) fresh i table ?us moved db"
  have a1: "apply_rows (\<lambda>(rid, tuple). modify_row i table rid (if rid \<in> moved then None else Some tuple)) ?us 0 db = Inr (res1, db1)"
    using a(1) by (simp add: case_prod_unfold)
  show ?thesis
  proof (cases "res1 = Conflict")
    case True
    with a1 a(3) show ?thesis by (intro exI [of _ Conflict] exI [of _ db1]) (simp add: update_rows_def)
  next
    case ok: False
    let ?tgt = "\<lambda>x. if moves target keys x then None else Some (target x)"
    have u: "map (\<lambda>k. (fst k, ?tg k)) ?us = map (\<lambda>(x, r). (r, ?tgt x)) rows"
      by (auto simp: mv)
    have "map fst (map (\<lambda>(x, r). (r, ?tgt x)) rows) = map snd rows" by (simp add: comp_def case_prod_unfold)
    then have "map_of (rev (map (\<lambda>(x, r). (r, ?tgt x)) rows)) = map_of (map (\<lambda>(x, r). (r, ?tgt x)) rows)"
      using dist by (intro map_of_rev_distinct) (simp only:)
    then have w: "wrote_all ?m i (changes ?m i p ?tgt rids) (db_mgr db1)"
      using a(3) [unfolded u] ok unfolding rows by simp
    note cc = changes_contents [OF rids w]
    have b: "running (db_mgr db1) i" "columns_of (db_mgr db1) = columns_of ?m" "table_of (db_mgr db1) = table_of ?m"
      using w by (simp_all add: wrote_all_def)
    have hits1: "hits_ok tree_scan (tree_good cfg) db1 table" using hits cc(2) by (simp add: hits_ok_def a(2))
    have fin: "finite (records_of (db_mgr db1) table)" unfolding cc(2) rids(2) [symmetric] by simp
    let ?ins = "filter (\<lambda>(rid, tuple). rid \<in> moved) ?us"
    have "\<forall>k \<in> set ?ins. length (snd k) = columns_of (db_mgr db1) table" using len b(2) by auto
    from tree.insert_rows_ok [OF b(1) this hits1 fresh fin, of 0] obtain res2 db2 where
      e: "apply_rows (\<lambda>k. insert_row tree_scan (tree_insert cfg) fresh i table (snd k)) ?ins 0 db1 = Inr (res2, db2)"
      "if res2 = Conflict then tainted (db_mgr db2) i
       else res2 = Touched (0 + length ?ins) \<and> added tree_scan (tree_good cfg) i table (map snd ?ins) db1 db2" by blast
    have "?upd = Inr (if res2 = Conflict then Conflict else res1, db2)"
      using a1 ok e(1) by (simp add: update_rows_def case_prod_unfold)
    moreover have "res1 = Touched (length rows)" using a(3) ok by simp
    moreover have "map snd ?ins = map target (filter (moves target keys) (map fst rows))"
    proof -
      have "map snd (filter (\<lambda>(rid, tuple). rid \<in> moved) (map (\<lambda>(x, r). (r, target x)) xs)) =
          map target (filter (moves target keys) (map fst xs))" if "set xs \<subseteq> set rows" for xs
        using that by (induction xs) (auto simp: mv)
      then show ?thesis by simp
    qed
    moreover have "seen (db_mgr db1) i r = seen ?m i r" if "table_of ?m (fst r) \<noteq> table" for r
      by (rule cc(3)) (rule other_tables [OF that])
    ultimately show ?thesis
      using e(2) cc(1) b(3) update_parts [of "moves target keys" target "map fst rows"]
      by (intro exI [of _ "if res2 = Conflict then Conflict else res1"] exI [of _ db2])
        (simp add: added_def rows add.assoc image_mset.compositionality del: split_paired_All split: if_split_asm)
  qed
qed


subsection \<open>A database\<close>

text \<open>The history of theory \<open>Snapshot_Witnesses\<close> after its second transaction has begun: one table with one row [5], and a B+ tree
  index with an entry for it.\<close>

definition ex_key :: "int list \<Rightarrow> nat" where
  "ex_key x = nat (hd x)"

definition ex_index :: "(int list \<Rightarrow> nat) \<times> (nat, rid) btree" where
  "ex_index = snd (tree_insert cfg4 (ex_key, BPlusTree 0) [5] (0, 0))"

definition ex_db :: "((int list \<Rightarrow> nat) \<times> (nat, rid) btree, int) dbase" where
  "ex_db = \<lparr>db_mgr = mv5, db_indexes = (\<lambda>_. [ex_index])\<rparr>"

definition ex_fresh :: "int txn_mgr \<Rightarrow> oid \<Rightarrow> int list \<Rightarrow> rid option" where
  "ex_fresh m table x = (if heap m (0, 7) = None \<and> table_of m 0 = table then Some (0, 7) else None)"

lemma ex_records: "records_of mv5 0 = {(0, 0)}" and ex_running: "running mv5 T2"
  using mv_reach(3) mv_txns(4) by (auto simp: records_of_def running_def ex_txn_def mv5_def ex_mgr_def split: if_splits)

lemma ex_seen: "seen mv5 T2 (0, 0) = Some [5]"
  by (simp add: seen_def visible_tuple_def get_txn_def mv_txns GetTupleAndUndoLink_def heap_get_def mv_heaps CollectUndoLogs_def
    ReconstructTuple_def mv_state mv_consts)

lemma ex_contents: "contents mv5 T2 0 = {#[5]#}"
proof -
  have "{r \<in> {(0, 0)}. seen mv5 T2 r \<noteq> None} = {(0, 0)}" using ex_seen by auto
  then show ?thesis by (simp only: contents_def ex_records) (simp add: ex_seen)
qed

lemma ex_hits: "hits_ok tree_scan (tree_good cfg4) ex_db 0"
proof -
  have inv: "index_inv cfg4 (snd (ex_key, BPlusTree 0 :: (nat, rid) btree)) Map.empty {}"
    using index_start [OF tree3_ok(1), of 0] by simp
  then have good: "tree_good cfg4 (ex_key, BPlusTree 0 :: (nat, rid) btree)" unfolding tree_good_def by blast
  have "tree_good cfg4 ex_index" unfolding ex_index_def by (rule tree.entry_good [OF good])
  moreover have "set (tree_scan ex_index y) \<subseteq> {(0, 0)}" for y
    using tree.entry_hits [OF good, of "[5]" "(0, 0)" y] tree_scan_inv [OF inv, of y] unfolding ex_index_def by simp
  ultimately show ?thesis by (simp add: hits_ok_def ex_db_def ex_records)
qed

lemma ex_fresh_ok: "fresh_ok ex_fresh"
  by (auto simp: fresh_ok_def ex_fresh_def split: if_splits)

lemma ex_db_parts: "running (db_mgr ex_db) T2" "contents (db_mgr ex_db) T2 0 = {#[5]#}" "records_of (db_mgr ex_db) 0 = {(0, 0)}"
    "columns_of (db_mgr ex_db) 0 = 1" "seen (db_mgr ex_db) T2 (0, 0) = Some [5]" "db_indexes ex_db 0 = [ex_index]"
  using ex_running ex_contents ex_records ex_seen by (simp_all add: ex_db_def mv_consts)

lemma ex_list: "distinct [(0, 0) :: rid]" "set [(0, 0)] = records_of (db_mgr ex_db) 0"
  by (simp_all add: ex_db_parts)

abbreviation is_five :: "(int list \<Rightarrow> bool) option" where
  "is_five \<equiv> Some (\<lambda>x. x = [5])"

theorem seq_scan_contents_witness:
  "\<exists>db1 rows s'. seq_scan_init (\<lambda>_ _. [(0, 0)]) T2 0 is_five ([], ex_db) = Inr ([(0, 0)], db1) \<and>
     drain (seq_scan_next T2 is_five) ([(0, 0)], db1) = Inr (rows, s') \<and> mset (map fst rows) = {#[5]#}"
  using seq_scan_contents [where db = ex_db and i = T2 and table = 0 and records = "\<lambda>_ _. [(0, 0)]" and p = is_five and left = "[]"] ex_db_parts
  by (auto simp: accepts_def)


theorem delete_statement_witness:
  "\<exists>res fin left' db'. rbind (statement_init (seq_scan_init (\<lambda>_ _. [(0, 0)]) T2 0 is_five) (False, [], ex_db))
      (delete_next (seq_scan_next T2 is_five) T2 0) = Inr (Some res, fin, left', db') \<and>
    (if res = Conflict then tainted (db_mgr db') T2 else res = Touched 1 \<and> contents (db_mgr db') T2 0 = {#})"
proof -
  have "filter_mset (accepts is_five) {#[5]#} = {#[5]#}" "filter_mset (\<lambda>x. \<not> accepts is_five x) {#[5]#} = {#}"
    by (simp_all add: accepts_def)
  with delete_statement [where records = "\<lambda>_ _. [(0, 0)]" and p = is_five and left = "[]" and d = False, OF ex_db_parts(1) ex_list] ex_db_parts(2)
  show ?thesis by - (elim exE conjE, intro exI conjI, assumption, simp split: if_split_asm)
qed



end
