(* ===== verification/Index_Join.thy ===== *)
theory Index_Join
  imports Dml_Proofs Executor_Props
begin

section \<open>Nested index join\<close>

text \<open>
  \<^verbatim>\<open>src/execution/nested_index_join_executor.cpp\<close> over the database of theory \<open>Dml\<close>: the outer side is a
  child, the inner tuples are what the index of the inner table finds for the outer tuple's key. The
  inner tuples are read from the table heap as they are: the newest versions, and not the versions the transaction
  may see. The result is the relational join with those tuples (theory \<open>Join_Proofs\<close>).
\<close>

record ('c, 'v) index_join =
  ij_child :: 'c
  outer_tuples :: "'v tuple rows"
  outer_idx :: nat

definition index_join_init :: "('c \<times> 'db \<Rightarrow> ('c \<times> 'db) result) \<Rightarrow> ('c, 'v) index_join \<times> 'db \<Rightarrow> (('c, 'v) index_join \<times> 'db) result" where
  "index_join_init init st =
     rbind (init (ij_child (fst st), snd st)) (\<lambda>(c, db). Inr (\<lparr>ij_child = c, outer_tuples = [], outer_idx = 0\<rparr>, db))"

text \<open>The tuples found that are not deleted.\<close>

fun live_tuples :: "'v txn_mgr \<Rightarrow> rid list \<Rightarrow> 'v list list result" where
  "live_tuples m [] = Inr []"
| "live_tuples m (rid # rids) =
     rbind (heap_get m rid) (\<lambda>(meta, tuple). rbind (live_tuples m rids) (\<lambda>ts.
       Inr (if tm_is_deleted meta then ts else tuple # ts)))"

text \<open>What one outer tuple is joined to.\<close>

definition index_rows :: "plan \<Rightarrow> ('v tuple \<Rightarrow> 'v option) \<Rightarrow> ('v \<Rightarrow> rid list) \<Rightarrow> 'v option txn_mgr \<Rightarrow> 'v tuple \<Rightarrow> 'v tuple list result" where
  "index_rows p key finds m outer =
     rbind (case key outer of None \<Rightarrow> Inr [] | Some k \<Rightarrow> live_tuples m (finds k)) (\<lambda>inner.
       Inr (if inner = [] \<and> plan_type p = LEFT then [BuildJoinTuple p outer None]
            else map (\<lambda>u. BuildJoinTuple p outer (Some u)) inner))"

text \<open>The next outer tuple; false when the outer side has ended.\<close>

definition index_join_advance :: "('c \<times> 'db, 'v tuple) next_fn \<Rightarrow> ('c, 'v) index_join \<times> 'db \<Rightarrow> (bool \<times> ('c, 'v) index_join \<times> 'db) result" where
  "index_join_advance nxt st =
     (let (j, db) = st in
      if length (outer_tuples j) \<le> outer_idx j then
        rbind (nxt BUSTUB_BATCH_SIZE (ij_child j, db)) (\<lambda>(status, rows, (c, db')).
          Inr (status, j\<lparr>ij_child := c, outer_tuples := rows, outer_idx := (if status then 0 else outer_idx j)\<rparr>, db'))
      else Inr (True, st))"

partial_function (option) index_join_loop ::
    "plan \<Rightarrow> ('c \<times> ('i, 'v option) dbase, 'v tuple) next_fn \<Rightarrow> ('v tuple \<Rightarrow> 'v option) \<Rightarrow> ('i \<Rightarrow> 'v \<Rightarrow> rid list) \<Rightarrow> oid \<Rightarrow> nat \<Rightarrow> nat \<Rightarrow>
     ('c, 'v) index_join \<times> ('i, 'v option) dbase \<Rightarrow> 'v tuple rows \<Rightarrow>
     ('v tuple rows \<times> ('c, 'v) index_join \<times> ('i, 'v option) dbase) result option" where
  "index_join_loop p nxt key scan_key table index_no n st batch =
     (if n \<le> length batch then Some (Inr (batch, st))
      else
        (case index_join_advance nxt st of
           Inl e \<Rightarrow> Some (Inl e)
         | Inr (go, j, db) \<Rightarrow>
             if \<not> go then Some (Inr (batch, j, db))
             else
               (case index_rows p key (scan_key (db_indexes db table ! index_no)) (db_mgr db) (fst (outer_tuples j ! outer_idx j)) of
                  Inl e \<Rightarrow> Some (Inl e)
                | Inr rows \<Rightarrow>
                    index_join_loop p nxt key scan_key table index_no n (j\<lparr>outer_idx := outer_idx j + 1\<rparr>, db)
                      (batch @ map (\<lambda>t. (t, NO_RID)) rows))))"

definition index_join_next ::
    "plan \<Rightarrow> ('c \<times> ('i, 'v option) dbase, 'v tuple) next_fn \<Rightarrow> ('v tuple \<Rightarrow> 'v option) \<Rightarrow> ('i \<Rightarrow> 'v \<Rightarrow> rid list) \<Rightarrow> oid \<Rightarrow> nat \<Rightarrow>
     (('c, 'v) index_join \<times> ('i, 'v option) dbase, 'v tuple) next_fn" where
  "index_join_next p nxt key scan_key table index_no n st =
     rbind (ended (index_join_loop p nxt key scan_key table index_no n st [])) (\<lambda>(batch, st'). Inr (batch \<noteq> [], batch, st'))"

subsection \<open>The join it computes\<close>

text \<open>The newest tuples of the inner table, in the order of its records.\<close>

definition newest_tuples :: "'v txn_mgr \<Rightarrow> rid list \<Rightarrow> 'v list list" where
  "newest_tuples m rids = List.map_filter (\<lambda>r. case heap m r of Some (meta, t) \<Rightarrow> if tm_is_deleted meta then None else Some t | None \<Rightarrow> None) rids"

lemma live_tuples_ok: "\<forall>r \<in> set rids. heap m r \<noteq> None \<Longrightarrow> live_tuples m rids = Inr (newest_tuples m rids)"
  by (induction rids) (auto simp: newest_tuples_def heap_get_def List.map_filter_simps)

text \<open>The index is exact for the inner column \<open>col\<close>: under each value it has the one record whose newest tuple has
  it, or records of deleted tuples.\<close>

definition index_exact :: "('v \<Rightarrow> rid list) \<Rightarrow> 'v option txn_mgr \<Rightarrow> rid list \<Rightarrow> ('v tuple \<Rightarrow> 'v option) \<Rightarrow> bool" where
  "index_exact finds m inner col \<longleftrightarrow> (\<forall>k. length (finds k) \<le> 1 \<and> (\<forall>r \<in> set (finds k). heap m r \<noteq> None) \<and>
     newest_tuples m (finds k) = filter (\<lambda>u. col u = Some k) (newest_tuples m inner))"

definition index_match :: "('v tuple \<Rightarrow> 'v option) \<Rightarrow> ('v tuple \<Rightarrow> 'v option) \<Rightarrow> 'v tuple \<Rightarrow> 'v tuple \<Rightarrow> bool" where
  "index_match key col t u \<longleftrightarrow> (\<exists>k. key t = Some k \<and> col u = Some k)"

lemma index_rows_ok:
  assumes "index_exact finds m inner col"
  shows "index_rows p key finds m t = Inr (join_rows p (index_match key col) (newest_tuples m inner) t)"
    and "length (join_rows p (index_match key col) (newest_tuples m inner) t) \<le> 1"
proof -
  have l: "live_tuples m (finds k) = Inr (filter (\<lambda>u. col u = Some k) (newest_tuples m inner))" for k
    using assms live_tuples_ok [of "finds k" m] by (simp add: index_exact_def)
  have "length (newest_tuples m rids) \<le> length rids" for rids unfolding newest_tuples_def List.map_filter_def by simp
  then have n: "length (filter (\<lambda>u. col u = Some k) (newest_tuples m inner)) \<le> 1" for k
    using assms by (metis index_exact_def le_trans)
  have match: "filter (index_match key col t) us = (case key t of None \<Rightarrow> [] | Some k \<Rightarrow> filter (\<lambda>u. col u = Some k) us)" for us
    by (induction us) (auto simp: index_match_def split: option.split)
  show "index_rows p key finds m t = Inr (join_rows p (index_match key col) (newest_tuples m inner) t)"
    by (cases "key t") (simp_all add: index_rows_def join_rows_def match l Let_def)
  show "length (join_rows p (index_match key col) (newest_tuples m inner) t) \<le> 1"
    using n by (cases "key t") (auto simp: join_rows_def match Let_def)
qed

text \<open>The child does not look at the database. What is left of the join: the outer tuples read and not used, and
  those the child still yields.\<close>

definition ij_rep :: "plan \<Rightarrow> ('v tuple \<Rightarrow> 'v tuple \<Rightarrow> bool) \<Rightarrow> 'v tuple list \<Rightarrow> ('c, 'v tuple) next_fn \<Rightarrow> ('c, 'v) index_join \<Rightarrow> 'v tuple rows \<Rightarrow> bool" where
  "ij_rep p M us nxt j ls \<longleftrightarrow> (\<exists>xs. polled nxt (ij_child j) xs \<and> ls = drop (outer_idx j) (outer_tuples j) @ xs)"

abbreviation joined :: "plan \<Rightarrow> ('v tuple \<Rightarrow> 'v tuple \<Rightarrow> bool) \<Rightarrow> 'v tuple list \<Rightarrow> 'v tuple rows \<Rightarrow> 'v tuple rows" where
  "joined p M us ls \<equiv> unplaced (relational_join p M (map fst ls) us)"

lemma index_join_advance_ok:
  assumes "ij_rep p M us nxt j ls"
  shows "if ls = [] then \<exists>j'. index_join_advance (beside nxt) (j, db) = Inr (False, j', db) \<and> ij_rep p M us nxt j' []
    else \<exists>j'. index_join_advance (beside nxt) (j, db) = Inr (True, j', db) \<and> ij_rep p M us nxt (j'\<lparr>outer_idx := outer_idx j' + 1\<rparr>) (tl ls) \<and>
      outer_tuples j' ! outer_idx j' = hd ls"
proof -
  obtain xs where x: "polled nxt (ij_child j) xs" "ls = drop (outer_idx j) (outer_tuples j) @ xs" using assms by (auto simp: ij_rep_def)
  show ?thesis
  proof (cases "length (outer_tuples j) \<le> outer_idx j")
    case False
    then have "drop (outer_idx j) (outer_tuples j) = outer_tuples j ! outer_idx j # drop (Suc (outer_idx j)) (outer_tuples j)"
      by (simp add: Cons_nth_drop_Suc)
    with x False show ?thesis by (auto simp: index_join_advance_def ij_rep_def)
  next
    case True
    obtain b rest c' where s: "nxt BUSTUB_BATCH_SIZE (ij_child j) = Inr (b \<noteq> [], b, c')" "xs = b @ rest" "b = [] \<longrightarrow> xs = []" "polled nxt c' rest"
      using src.poll_step [OF x(1)] by (auto simp: hands_def)
    show ?thesis
    proof (cases "b = []")
      case b: True
      with s x True show ?thesis by (auto simp: index_join_advance_def beside_def ij_rep_def)
    next
      case b: False
      then obtain y ys where "b = y # ys" by (cases b) auto
      with s x True show ?thesis by (auto simp: index_join_advance_def beside_def ij_rep_def)
    qed
  qed
qed

lemma index_join_loop_ok:
  assumes "ij_rep p M us nxt j ls" "length batch \<le> n" and M: "M = index_match key col"
    and ix: "index_exact (scan_key (db_indexes db table ! index_no)) (db_mgr db) inner col" and us: "us = newest_tuples (db_mgr db) inner"
  shows "\<exists>b j' ls'. index_join_loop p (beside nxt) key scan_key table index_no n (j, db) batch = Some (Inr (batch @ b, j', db)) \<and>
    ij_rep p M us nxt j' ls' \<and> joined p M us ls = b @ joined p M us ls' \<and> length (batch @ b) \<le> n \<and> (length (batch @ b) < n \<longrightarrow> ls' = [])"
  using assms(1,2)
proof (induction "length ls" arbitrary: ls j batch)
  case 0
  then have ls: "ls = []" by simp
  obtain j' where j': "index_join_advance (beside nxt) (j, db) = Inr (False, j', db)" "ij_rep p M us nxt j' []"
    using index_join_advance_ok [OF 0(2), of db] ls by auto
  show ?case
  proof (cases "n \<le> length batch")
    case True
    with 0 ls show ?thesis by (subst index_join_loop.simps) auto
  next
    case False
    with 0 ls j' show ?thesis by (subst index_join_loop.simps) auto
  qed
next
  case (Suc k)
  then obtain l rest where ls: "ls = l # rest" by (cases ls) auto
  show ?case
  proof (cases "n \<le> length batch")
    case True
    with Suc.prems show ?thesis
      by (subst index_join_loop.simps) (intro exI [of _ "[]"] exI [of _ j] exI [of _ ls], simp)
  next
    case False
    obtain j' where j': "index_join_advance (beside nxt) (j, db) = Inr (True, j', db)"
      "ij_rep p M us nxt (j'\<lparr>outer_idx := outer_idx j' + 1\<rparr>) rest" "outer_tuples j' ! outer_idx j' = l"
      using index_join_advance_ok [OF Suc.prems(1), of db] ls by auto
    let ?rows = "join_rows p M us (fst l)"
    note r = index_rows_ok [OF ix, of p key "fst l", folded us M]
    have len: "length (batch @ unplaced ?rows) \<le> n" using False r(2) by simp
    have "k = length rest" using Suc(2) ls by simp
    from Suc.hyps(1) [OF this j'(2) len] obtain b j'' ls' where
      b: "index_join_loop p (beside nxt) key scan_key table index_no n (j'\<lparr>outer_idx := outer_idx j' + 1\<rparr>, db) (batch @ unplaced ?rows) =
        Some (Inr ((batch @ unplaced ?rows) @ b, j'', db))" "ij_rep p M us nxt j'' ls'"
      "joined p M us rest = b @ joined p M us ls'" "length ((batch @ unplaced ?rows) @ b) \<le> n"
      "length ((batch @ unplaced ?rows) @ b) < n \<longrightarrow> ls' = []" by blast
    have step: "index_join_loop p (beside nxt) key scan_key table index_no n (j, db) batch =
        Some (Inr (batch @ (unplaced ?rows @ b), j'', db))"
      using False j'(1,3) r(1) b(1) by (subst index_join_loop.simps) simp
    have "joined p M us ls = (unplaced ?rows @ b) @ joined p M us ls'" using b(3) by (simp add: ls relational_join_def)
    with step b(2,4,5) show ?thesis by (metis append.assoc)
  qed
qed

lemma index_join_yields:
  assumes "ij_rep p (index_match key col) us nxt j ls" "us = newest_tuples (db_mgr db) inner"
    and "index_exact (scan_key (db_indexes db table ! index_no)) (db_mgr db) inner col"
  shows "yields Sized (index_join_next p (beside nxt) key scan_key table index_no) (j, db) (joined p (index_match key col) us ls)"
proof (rule yields_coinduct [of "\<lambda>s xs. \<exists>j ls. s = (j, db) \<and> ij_rep p (index_match key col) us nxt j ls \<and> xs = joined p (index_match key col) us ls"])
  fix s xs n
  let ?M = "index_match key col"
  assume "\<exists>j ls. s = (j, db) \<and> ij_rep p ?M us nxt j ls \<and> xs = joined p ?M us ls" and n: "calls Sized n"
  then obtain j ls where s: "s = (j, db)" "ij_rep p ?M us nxt j ls" "xs = joined p ?M us ls" by blast
  obtain b j' ls' where b: "index_join_loop p (beside nxt) key scan_key table index_no n (j, db) [] = Some (Inr (b, j', db))"
    "ij_rep p ?M us nxt j' ls'" "xs = b @ joined p ?M us ls'" "length b \<le> n" "length b < n \<longrightarrow> ls' = []"
    using index_join_loop_ok [OF s(2) _ refl _ assms(2), where batch = "[]" and n = n and scan_key = scan_key and table = table
        and index_no = index_no] assms(3) s(3) by auto
  have "b = [] \<longrightarrow> xs = []" using b(3,5) n by (auto simp: relational_join_def)
  then have "hands (index_join_next p (beside nxt) key scan_key table index_no) (most Sized n) n s xs b (joined p ?M us ls') (j', db)"
    using b(1,3,4) by (simp add: hands_def index_join_next_def s(1))
  with b(2) show "\<exists>b rest s'. hands (index_join_next p (beside nxt) key scan_key table index_no) (most Sized n) n s xs b rest s' \<and>
      (goes_on Sized n (length b) \<longrightarrow> (\<exists>j ls. s' = (j, db) \<and> ij_rep p ?M us nxt j ls \<and> rest = joined p ?M us ls))" by blast
qed (use assms in blast)

text \<open>A child that does not look at the database, initialised beside it.\<close>

definition init_beside :: "('c \<Rightarrow> 'c result) \<Rightarrow> 'c \<times> 'db \<Rightarrow> ('c \<times> 'db) result" where
  "init_beside init st = rbind (init (fst st)) (\<lambda>c. Inr (c, snd st))"

text \<open>C33: With an index that is exact for the newest tuples of the inner table, a nested index join returns what the
  nested loop join with these tuples on the equality of the key and the indexed column returns, in the same order.\<close>

theorem index_join_is_nested_loop_join:
  assumes "linit (ij_child j) = Inr l" "linit (nlj_left st) = Inr l" "yields Sized lnxt l ls"
    and "index_exact (scan_key (db_indexes db table ! index_no)) (db_mgr db) inner col"
    and "restarts rinit rnxt us" "map fst us = newest_tuples (db_mgr db) inner"
    and "\<And>t u. pred t u = Some True \<longleftrightarrow> (\<exists>k. key t = Some k \<and> col u = Some k)"
  shows "Execute (index_join_init (init_beside linit)) (index_join_next p (beside lnxt) key scan_key table index_no) (\<lambda>_. []) (j, db) =
    Execute (nlj_init linit) (nlj_next p (Some pred) lnxt rinit rnxt) (\<lambda>_. []) st"
proof -
  let ?us = "newest_tuples (db_mgr db) inner" and ?j = "\<lparr>ij_child = l, outer_tuples = [], outer_idx = 0\<rparr>"
  have "ij_rep p (index_match key col) ?us lnxt ?j ls" using sized_exact [OF assms(3)] by (simp add: ij_rep_def)
  note y = index_join_yields [OF this refl, of scan_key table index_no]
  have init: "index_join_init (init_beside linit) (j, db) = Inr (?j, db)" by (simp add: index_join_init_def init_beside_def assms(1))
  have "index_match key col = join_matches (Some pred)" by (simp add: fun_eq_iff index_match_def join_matches_def assms(7))
  with execute_yields [where init = "index_join_init (init_beside linit)", OF init y] assms(4)
    nlj_run [where linit = linit and rinit = rinit, OF assms(2,3,5), of p "Some pred"] show ?thesis by (simp add: assms(6) comp_def)
qed

text \<open>A database with one inner row (8, 1) in record (0, 0), indexed by its first column, and the outer rows 7, 8 and null.\<close>

definition ij_db :: "(nat \<rightharpoonup> rid, nat option) dbase" where
  "ij_db = \<lparr>db_mgr = (TransactionManager (\<lambda>_. 0) (\<lambda>_. 2))\<lparr>heap := [(0, 0) \<mapsto> (\<lparr>tm_ts = 1, tm_is_deleted = False\<rparr>, [Some 8, Some 1])]\<rparr>,
     db_indexes = (\<lambda>_. [[8 \<mapsto> (0, 0)]])\<rparr>"

theorem index_join_is_nested_loop_join_witness:
  "Execute (index_join_init (init_beside values_init))
     (index_join_next \<lparr>plan_type = LEFT, left_columns = 1, right_columns = 2\<rparr> (beside (values_next [[Some 7], [Some 8], [None]])) hd
        (\<lambda>ix k. case ix k of None \<Rightarrow> [] | Some r \<Rightarrow> [r]) 0 0)
     (\<lambda>_. []) (\<lparr>ij_child = 0, outer_tuples = [], outer_idx = 0\<rparr>, ij_db) =
   Inr (True, [[Some 7, None, None], [Some 8, Some 8, Some 1], [None, None, None]])"
proof -
  let ?st = "\<lparr>nlj_left = 0, nlj_right = 0, left_tuples = [], left_idx = 0, right_tuples = [], right_idx = 0,
      has_current_left = False, current_left_tuple = [], current_match_found = False\<rparr> :: (nat, nat, nat) nlj"
  let ?pred = "\<lambda>t u :: nat tuple. case (hd t, hd u) of (Some a, Some b) \<Rightarrow> Some (a = b) | _ \<Rightarrow> None"
  let ?ls = "[[Some 7], [Some 8], [None]] :: nat tuple list" and ?us = "[[Some 8, Some 1]] :: nat tuple list"
  have new: "newest_tuples (db_mgr ij_db) [(0, 0)] = ?us" by (simp add: ij_db_def newest_tuples_def List.map_filter_simps)
  let ?find = "\<lambda>ix k. case ix k of None \<Rightarrow> [] | Some (r :: rid) \<Rightarrow> [r]"
  have exact: "index_exact (?find (db_indexes ij_db 0 ! 0)) (db_mgr ij_db) [(0, 0)] hd"
    by (auto simp: index_exact_def new) (simp_all add: ij_db_def newest_tuples_def List.map_filter_simps split: if_splits)
  have pred: "?pred t u = Some True \<longleftrightarrow> (\<exists>k. hd t = Some k \<and> hd u = Some k)" for t u by (auto split: option.splits)
  have ls: "yields Sized (values_next ?ls) 0 (unplaced ?ls)" using values_yields [of ?ls 0] by simp
  have us: "restarts values_init (values_next ?us) (unplaced ?us)" by (rule values_restarts)
  have init: "values_init (nlj_left ?st) = Inr 0" by (simp add: values_init_def)
  note run = nlj_run [where st = ?st and linit = values_init and rinit = values_init, OF init ls us, of "\<lparr>plan_type = LEFT, left_columns = 1, right_columns = 2\<rparr>" "Some ?pred"]
  show ?thesis
    by (subst index_join_is_nested_loop_join [where st = ?st and pred = ?pred and us = "unplaced ?us" and inner = "[(0, 0)]" and col = hd
          and linit = values_init and l = 0 and scan_key = ?find and table = 0 and index_no = 0 and key = hd and db = ij_db
          and rinit = values_init and rnxt = "values_next ?us", OF _ init ls exact us _ pred])
      (simp add: values_init_def, simp only: new, simp, subst run,
        simp add: relational_join_def join_rows_def join_matches_def BuildJoinTuple_def upt_rec numeral_2_eq_2)
qed

end
