(* ===== verification/Bound.thy ===== *)
theory Bound
  imports Plans
begin

section \<open>Bound statements\<close>

text \<open>
  Models \<^verbatim>\<open>src/include/binder/\<close>: the statements the binder hands to the planner, with the names of
  tables and columns resolved. The expressions, table references and statements are the classes
  under \<^verbatim>\<open>expressions/\<close>, \<^verbatim>\<open>table_ref/\<close> and \<^verbatim>\<open>statement/\<close>, one constructor per class, its
  arguments in the order of the constructor's. How they print, for \<open>EXPLAIN\<close>, is left out.
\<close>

subsection \<open>Expressions\<close>

datatype WindowBoundary = INVALID_BOUNDARY | UNBOUNDED_PRECEDING | UNBOUNDED_FOLLOWING | CURRENT_ROW_RANGE | CURRENT_ROW_ROWS |
  EXPR_PRECEDING_ROWS | EXPR_FOLLOWING_ROWS | EXPR_PRECEDING_RANGE | EXPR_FOLLOWING_RANGE

datatype 'd bound_expr =
    InvalidExpr
  | BoundConstant "'d val"
  | BoundColumnRef "string list"
  | BoundAggCall string bool "'d bound_expr list"
  | BoundStar
  | BoundUnaryOp string "'d bound_expr"
  | BoundBinaryOp string "'d bound_expr" "'d bound_expr"
  | BoundAlias string "'d bound_expr"
  | BoundFuncCall string "'d bound_expr list"
  | BoundWindow string "'d bound_expr list" "'d bound_expr list" "(OrderByType \<times> OrderByNullType \<times> 'd bound_expr) list"
      "'d bound_expr option" "'d bound_expr option" WindowBoundary WindowBoundary

type_synonym 'd bound_order_by = "OrderByType \<times> OrderByNullType \<times> 'd bound_expr"

definition IsInvalid :: "'d bound_expr \<Rightarrow> bool" where
  "IsInvalid e \<longleftrightarrow> (case e of InvalidExpr \<Rightarrow> True | _ \<Rightarrow> False)"

fun HasAggregation :: "'d bound_expr \<Rightarrow> bool result" where
  "HasAggregation InvalidExpr = Inl (Thrown ''has aggregation should have been implemented!'')"
| "HasAggregation (BoundConstant v) = Inr False"
| "HasAggregation (BoundColumnRef col_name) = Inr False"
| "HasAggregation (BoundAggCall func_name is_distinct args) = Inr True"
| "HasAggregation BoundStar = Inl (Thrown ''`HasAggregation` should not have been called on `BoundStar`.'')"
| "HasAggregation (BoundUnaryOp op_name arg) = HasAggregation arg"
| "HasAggregation (BoundBinaryOp op_name larg rarg) =
     rbind (HasAggregation larg) (\<lambda>l. if l then Inr True else HasAggregation rarg)"
| "HasAggregation (BoundAlias alias e) = HasAggregation e"
| "HasAggregation (BoundFuncCall func_name args) = Inr False"
| "HasAggregation (BoundWindow func_name args partition_by order_bys start_offset end_offset b1 b2) = Inr False"

fun HasWindowFunction :: "'d bound_expr \<Rightarrow> bool" where
  "HasWindowFunction (BoundAlias alias e) = HasWindowFunction e"
| "HasWindowFunction (BoundWindow func_name args partition_by order_bys start_offset end_offset b1 b2) = True"
| "HasWindowFunction e = False"

text \<open>The parts of a name, separated by dots.\<close>

fun dotted :: "string list \<Rightarrow> string" where
  "dotted [] = []"
| "dotted [x] = x"
| "dotted (x # xs) = x @ ''.'' @ dotted xs"

definition ColumnRef_ToString :: "string list \<Rightarrow> string" where
  "ColumnRef_ToString col_name = dotted col_name"

subsection \<open>Table references and statements\<close>

record base_table_ref =
  bt_table :: string
  bt_oid :: nat
  bt_alias :: "string option"
  bt_schema :: schema

definition GetBoundTableName :: "base_table_ref \<Rightarrow> string" where
  "GetBoundTableName t = (case bt_alias t of Some a \<Rightarrow> a | None \<Rightarrow> bt_table t)"

text \<open>A list of common table expressions is a list of subqueries.\<close>

datatype 'd table_ref =
    InvalidTableRef
  | BaseTableRef base_table_ref
  | JoinRef join_type "'d table_ref" "'d table_ref" "'d bound_expr"
  | CrossProductRef "'d table_ref" "'d table_ref"
  | ExpressionListRef "'d bound_expr list list" string
  | SubqueryRef "'d subquery"
  | CTERef string string
  | EmptyTableRef
and 'd subquery = Subquery (sq_select: "'d select") (sq_names: "string list list") (sq_alias: string)
and 'd select =
  SelectStatement (st_table: "'d table_ref") (st_select_list: "'d bound_expr list") (st_where: "'d bound_expr")
    (st_group_by: "'d bound_expr list") (st_having: "'d bound_expr") (st_limit_count: "'d bound_expr") (st_limit_offset: "'d bound_expr")
    (st_sort: "(OrderByType \<times> OrderByNullType \<times> 'd bound_expr) list") (st_ctes: "'d subquery list") (st_is_distinct: bool)

definition IsEmptyTableRef :: "'d table_ref \<Rightarrow> bool" where
  "IsEmptyTableRef t \<longleftrightarrow> (case t of EmptyTableRef \<Rightarrow> True | _ \<Rightarrow> False)"

text \<open>A column reference of an update is the list of its parts; the binder leaves a null pointer, \<open>None\<close>, for
  a column the table does not have. The options of \<open>EXPLAIN\<close> are the bits of \<open>ExplainOptions\<close>.\<close>

datatype 'd bound_statement =
    SelectStmt "'d select"
  | InsertStmt base_table_ref "'d select"
  | DeleteStmt base_table_ref "'d bound_expr"
  | UpdateStmt base_table_ref "'d bound_expr" "(string list option \<times> 'd bound_expr) list"
  | CreateStmt string "column list" "string list"
  | IndexStmt string base_table_ref "string list list" string "string list" "(string \<times> int) list"
  | ExplainStmt "'d bound_statement" nat
  | VariableSetStmt string string
  | VariableShowStmt string
  | TransactionStmt string

definition StatementType_name :: "'d bound_statement \<Rightarrow> string" where
  "StatementType_name s =
     (case s of
        SelectStmt _ \<Rightarrow> ''Select''
      | InsertStmt _ _ \<Rightarrow> ''Insert''
      | DeleteStmt _ _ \<Rightarrow> ''Delete''
      | UpdateStmt _ _ _ \<Rightarrow> ''Update''
      | CreateStmt _ _ _ \<Rightarrow> ''Create''
      | IndexStmt _ _ _ _ _ _ \<Rightarrow> ''Index''
      | ExplainStmt _ _ \<Rightarrow> ''Explain''
      | VariableSetStmt _ _ \<Rightarrow> ''VariableSet''
      | VariableShowStmt _ \<Rightarrow> ''VariableShow''
      | TransactionStmt _ \<Rightarrow> ''Transaction'')"

end
