(* ===== verification/Planner_Exprs.thy ===== *)
theory Planner_Exprs
  imports Bound
begin

section \<open>Planning expressions, aggregations and window functions\<close>

text \<open>
  Models \<^verbatim>\<open>src/planner/\<close> and \<^verbatim>\<open>src/include/planner/planner.h\<close>, the part that plans within one statement:
  expressions over the rows of one child or of the two children of a join, aggregations and window functions.
  Planning an expression gives its name and the expression, with the column its constructor stores
  (\<open>GetReturnType()\<close>). The context of the planner is passed along; a context guard gives an
  operation a new one, and its caller goes on with the old one.

  What \<open>construct_array\<close> builds is the parameter \<open>mk_array\<close>: array expressions, like the vectors
  they evaluate to, are not modelled.
\<close>

subsection \<open>The context\<close>

record 'd planner_context =
  allow_aggregation :: bool
  next_aggregation :: nat
  aggregations :: "'d bound_expr list"
  expr_in_agg :: "'d typed_expr list"
  cte_list :: "'d subquery list option"

definition PlannerContext :: "'d planner_context" where
  "PlannerContext = \<lparr>allow_aggregation = False, next_aggregation = 0, aggregations = [], expr_in_agg = [], cte_list = None\<rparr>"

definition NewContext :: "'d planner_context \<Rightarrow> 'd planner_context" where
  "NewContext ctx = PlannerContext\<lparr>cte_list := cte_list ctx\<rparr>"

definition AddAggregation :: "'d bound_expr \<Rightarrow> 'd planner_context \<Rightarrow> 'd planner_context result" where
  "AddAggregation e ctx =
     (if \<not> allow_aggregation ctx then Inl (Thrown ''AggCall not allowed in this position'')
      else Inr (ctx\<lparr>aggregations := aggregations ctx @ [e]\<rparr>))"

definition UNNAMED_COLUMN :: string where
  "UNNAMED_COLUMN = ''<unnamed>''"

subsection \<open>Expression constructors\<close>

definition Value_GetColumn :: "'d val \<Rightarrow> column result" where
  "Value_GetColumn v =
     (if GetTypeId v = VARCHAR \<or> GetTypeId v = VECTOR
      then rbind (GetStorageSize v) (Column_varlen ''<val>'' (GetTypeId v))
      else Column ''<val>'' (GetTypeId v))"

definition ConstantValueExpression :: "'d val \<Rightarrow> 'd typed_expr result" where
  "ConstantValueExpression v = rbind (Value_GetColumn v) (\<lambda>c. Inr (ConstantValue v, c))"

definition ColumnValueExpression :: "nat \<Rightarrow> nat \<Rightarrow> column \<Rightarrow> 'd typed_expr" where
  "ColumnValueExpression tuple_idx col_idx c = (ColumnValue tuple_idx col_idx (column_type c), c)"

definition with_result_column :: "type_id \<Rightarrow> 'd expr result \<Rightarrow> 'd typed_expr result" where
  "with_result_column t r = rbind (Column ''<val>'' t) (\<lambda>c. rbind r (\<lambda>e. Inr (e, c)))"

fun Expression_ToString :: "'d machine \<Rightarrow> 'd expr \<Rightarrow> string result" where
  "Expression_ToString M (ColumnValue t c ty) = Inr (''#'' @ print_nat t @ ''.'' @ print_nat c)"
| "Expression_ToString M (ConstantValue v) = Value_ToString M v"
| "Expression_ToString M (Arithmetic l r op) =
     rbind (Expression_ToString M l) (\<lambda>a. rbind (Expression_ToString M r) (\<lambda>b.
       Inr (''('' @ a @ (case op of Plus \<Rightarrow> ''+'' | Minus \<Rightarrow> ''-'') @ b @ '')'')))"
| "Expression_ToString M (Comparison l r op) =
     rbind (Expression_ToString M l) (\<lambda>a. rbind (Expression_ToString M r) (\<lambda>b.
       Inr (''('' @ a @ (case op of Equal \<Rightarrow> ''='' | NotEqual \<Rightarrow> ''!='' | LessThan \<Rightarrow> ''<'' | LessThanOrEqual \<Rightarrow> ''<=''
         | GreaterThan \<Rightarrow> ''>'' | GreaterThanOrEqual \<Rightarrow> ''>='') @ b @ '')'')))"
| "Expression_ToString M (Logic l r op) =
     rbind (Expression_ToString M l) (\<lambda>a. rbind (Expression_ToString M r) (\<lambda>b.
       Inr (''('' @ a @ (case op of And \<Rightarrow> ''and'' | Or \<Rightarrow> ''or'') @ b @ '')'')))"
| "Expression_ToString M (StringExpr e op) =
     rbind (Expression_ToString M e) (\<lambda>a. Inr ((case op of Lower \<Rightarrow> ''lower'' | Upper \<Rightarrow> ''upper'') @ ''('' @ a @ '')''))"

subsection \<open>Factories\<close>

definition unsupported_call :: "string \<Rightarrow> string \<Rightarrow> nat \<Rightarrow> fault" where
  "unsupported_call what func_name n = Thrown (''unsupported '' @ what @ '' '' @ func_name @ '' with '' @ print_nat n @ '' args'')"

definition GetAggCallFromFactory :: "string \<Rightarrow> 'd typed_expr list \<Rightarrow> (AggregationType \<times> 'd typed_expr list) result" where
  "GetAggCallFromFactory func_name args =
     (case args of
        [] \<Rightarrow> if func_name = ''count_star'' then Inr (CountStarAggregate, []) else Inl (unsupported_call ''agg_call'' func_name 0)
      | [e] \<Rightarrow>
          if func_name = ''min'' then Inr (MinAggregate, [e])
          else if func_name = ''max'' then Inr (MaxAggregate, [e])
          else if func_name = ''sum'' then Inr (SumAggregate, [e])
          else if func_name = ''count'' then Inr (CountAggregate, [e])
          else Inl (unsupported_call ''agg_call'' func_name 1)
      | _ \<Rightarrow> Inl (unsupported_call ''agg_call'' func_name (length args)))"

definition GetWindowAggCallFromFactory :: "string \<Rightarrow> 'd typed_expr list \<Rightarrow> (WindowFunctionType \<times> 'd typed_expr list) result" where
  "GetWindowAggCallFromFactory func_name args =
     (case args of
        [] \<Rightarrow>
          if func_name = ''count_star'' then Inr (WindowCountStar, [])
          else if func_name = ''rank'' then Inr (Rank, [])
          else Inl (unsupported_call ''window_call'' func_name 0)
      | [e] \<Rightarrow>
          if func_name = ''min'' then Inr (WindowMin, [e])
          else if func_name = ''max'' then Inr (WindowMax, [e])
          else if func_name = ''sum'' then Inr (WindowSum, [e])
          else if func_name = ''count'' then Inr (WindowCount, [e])
          else Inl (unsupported_call ''window_call'' func_name 1)
      | _ \<Rightarrow> Inl (unsupported_call ''window_call'' func_name (length args)))"

definition comparison_of :: "string \<Rightarrow> ComparisonType option" where
  "comparison_of op_name =
     (if op_name = ''='' \<or> op_name = ''=='' then Some Equal
      else if op_name = ''!='' \<or> op_name = ''<>'' then Some NotEqual
      else if op_name = ''<'' then Some LessThan
      else if op_name = ''<='' then Some LessThanOrEqual
      else if op_name = ''>'' then Some GreaterThan
      else if op_name = ''>='' then Some GreaterThanOrEqual
      else None)"

definition GetBinaryExpressionFromFactory :: "string \<Rightarrow> 'd typed_expr \<Rightarrow> 'd typed_expr \<Rightarrow> 'd typed_expr result" where
  "GetBinaryExpressionFromFactory op_name l r =
     (case comparison_of op_name of
        Some op \<Rightarrow> with_result_column BOOLEAN (Inr (Comparison (fst l) (fst r) op))
      | None \<Rightarrow>
          if op_name = ''+'' then with_result_column INTEGER (ArithmeticExpression (fst l) (fst r) Plus)
          else if op_name = ''-'' then with_result_column INTEGER (ArithmeticExpression (fst l) (fst r) Minus)
          else if op_name = ''and'' then with_result_column BOOLEAN (LogicExpression (fst l) (fst r) And)
          else if op_name = ''or'' then with_result_column BOOLEAN (LogicExpression (fst l) (fst r) Or)
          else Inl (Thrown (''binary op '' @ op_name @ '' not supported in planner yet'')))"

definition GetFuncCallFromFactory :: "string \<Rightarrow> 'd typed_expr list \<Rightarrow> 'd typed_expr result" where
  "GetFuncCallFromFactory func_name args = Inl (Thrown (''func call '' @ func_name @ '' not supported in planner yet''))"

subsection \<open>Expressions\<close>

definition PlanColumnRef :: "'d plan_node list \<Rightarrow> string list \<Rightarrow> (string \<times> 'd typed_expr) result" where
  "PlanColumnRef cs names =
     (let col_name = ColumnRef_ToString names in
      case cs of
        [] \<Rightarrow> Inl (Thrown ''column ref should have at least one child'')
      | [c] \<Rightarrow>
          (let s = output_schema c in
           if 1 < length (filter (\<lambda>col. column_name col = col_name) (columns s))
           then Inl (Thrown ''duplicated column found in schema'')
           else rbind (GetColIdx col_name s) (\<lambda>col_idx. rbind (GetColumn s col_idx) (\<lambda>col_type.
             Inr (col_name, ColumnValueExpression 0 col_idx col_type))))
      | [l, r] \<Rightarrow>
          (case (TryGetColIdx col_name (output_schema l), TryGetColIdx col_name (output_schema r)) of
             (Some i, Some j) \<Rightarrow> Inl (Thrown (''ambiguous column name '' @ col_name))
           | (Some i, None) \<Rightarrow>
               rbind (GetColumn (output_schema l) i) (\<lambda>col_type. Inr (col_name, ColumnValueExpression 0 i col_type))
           | (None, Some j) \<Rightarrow>
               rbind (GetColumn (output_schema r) j) (\<lambda>col_type. Inr (col_name, ColumnValueExpression 1 j col_type))
           | (None, None) \<Rightarrow> Inl (Thrown (''column name '' @ col_name @ '' not found'')))
      | _ \<Rightarrow> Inl (Thrown ''no executor with expression has more than two children for now''))"

definition expression_not_supported :: "string \<Rightarrow> fault" where
  "expression_not_supported type = Thrown (''expression type '' @ type @ '' not supported in planner yet'')"

text \<open>\<open>PlanExpressions\<close> is the loop over a list of expressions.\<close>

fun PlanExpression :: "('d typed_expr list \<Rightarrow> 'd typed_expr result) \<Rightarrow> 'd plan_node list \<Rightarrow> 'd bound_expr \<Rightarrow> 'd planner_context \<Rightarrow>
      ((string \<times> 'd typed_expr) \<times> 'd planner_context) result"
  and PlanExpressions :: "('d typed_expr list \<Rightarrow> 'd typed_expr result) \<Rightarrow> 'd plan_node list \<Rightarrow> 'd bound_expr list \<Rightarrow> 'd planner_context \<Rightarrow>
      ((string \<times> 'd typed_expr) list \<times> 'd planner_context) result" where
  "PlanExpression mk_array cs (BoundAggCall func_name is_distinct args) ctx =
     (if length (expr_in_agg ctx) \<le> next_aggregation ctx then Inl (Thrown ''unexpected agg call'')
      else Inr ((UNNAMED_COLUMN, expr_in_agg ctx ! next_aggregation ctx), ctx\<lparr>next_aggregation := next_aggregation ctx + 1\<rparr>))"
| "PlanExpression mk_array cs (BoundColumnRef col_name) ctx = rbind (PlanColumnRef cs col_name) (\<lambda>r. Inr (r, ctx))"
| "PlanExpression mk_array cs (BoundBinaryOp op_name larg rarg) ctx =
     rbind (PlanExpression mk_array cs larg ctx) (\<lambda>((_, l), ctx1).
     rbind (PlanExpression mk_array cs rarg ctx1) (\<lambda>((_, r), ctx2).
     rbind (GetBinaryExpressionFromFactory op_name l r) (\<lambda>e. Inr ((UNNAMED_COLUMN, e), ctx2))))"
| "PlanExpression mk_array cs (BoundFuncCall func_name args) ctx =
     rbind (PlanExpressions mk_array cs args ctx) (\<lambda>(es, ctx1).
     rbind (if func_name = ''construct_array'' then mk_array (map snd es) else GetFuncCallFromFactory func_name (map snd es))
       (\<lambda>e. Inr ((UNNAMED_COLUMN, e), ctx1)))"
| "PlanExpression mk_array cs (BoundConstant v) ctx =
     rbind (ConstantValueExpression v) (\<lambda>e. Inr ((UNNAMED_COLUMN, e), ctx))"
| "PlanExpression mk_array cs (BoundAlias alias e) ctx =
     rbind (PlanExpression mk_array cs e ctx) (\<lambda>((_, e'), ctx1). Inr ((alias, e'), ctx1))"
| "PlanExpression mk_array cs (BoundWindow func_name args partition_by order_bys start_offset end_offset b1 b2) ctx =
     Inl (Thrown ''should not parse window expressions here'')"
| "PlanExpression mk_array cs InvalidExpr ctx = Inl (expression_not_supported ''Invalid'')"
| "PlanExpression mk_array cs BoundStar ctx = Inl (expression_not_supported ''Star'')"
| "PlanExpression mk_array cs (BoundUnaryOp op_name arg) ctx = Inl (expression_not_supported ''UnaryOperation'')"
| "PlanExpressions mk_array cs [] ctx = Inr ([], ctx)"
| "PlanExpressions mk_array cs (e # es) ctx =
     rbind (PlanExpression mk_array cs e ctx) (\<lambda>(r, ctx1).
     rbind (PlanExpressions mk_array cs es ctx1) (\<lambda>(rs, ctx2). Inr (r # rs, ctx2)))"

text \<open>Collecting the aggregate calls of an expression: each is moved to the context and replaced, in
  the statement itself, by a call without arguments.\<close>

fun AddAggCallToContext :: "'d bound_expr \<Rightarrow> 'd planner_context \<Rightarrow> ('d bound_expr \<times> 'd planner_context) result"
  and AddAggCallsToContext :: "'d bound_expr list \<Rightarrow> 'd planner_context \<Rightarrow> ('d bound_expr list \<times> 'd planner_context) result" where
  "AddAggCallToContext (BoundAggCall func_name is_distinct args) ctx =
     (let agg_name = ''__pseudo_agg#'' @ print_nat (length (aggregations ctx)) in
      rbind (AddAggregation (BoundAggCall func_name is_distinct args) ctx) (\<lambda>ctx1. Inr (BoundAggCall agg_name is_distinct [], ctx1)))"
| "AddAggCallToContext (BoundColumnRef col_name) ctx = Inr (BoundColumnRef col_name, ctx)"
| "AddAggCallToContext (BoundBinaryOp op_name larg rarg) ctx =
     rbind (AddAggCallToContext larg ctx) (\<lambda>(l, ctx1). rbind (AddAggCallToContext rarg ctx1) (\<lambda>(r, ctx2).
       Inr (BoundBinaryOp op_name l r, ctx2)))"
| "AddAggCallToContext (BoundFuncCall func_name args) ctx =
     rbind (AddAggCallsToContext args ctx) (\<lambda>(es, ctx1). Inr (BoundFuncCall func_name es, ctx1))"
| "AddAggCallToContext (BoundConstant v) ctx = Inr (BoundConstant v, ctx)"
| "AddAggCallToContext (BoundAlias alias e) ctx = rbind (AddAggCallToContext e ctx) (\<lambda>(e', ctx1). Inr (BoundAlias alias e', ctx1))"
| "AddAggCallToContext InvalidExpr ctx = Inl (expression_not_supported ''Invalid'')"
| "AddAggCallToContext BoundStar ctx = Inl (expression_not_supported ''Star'')"
| "AddAggCallToContext (BoundUnaryOp op_name arg) ctx = Inl (expression_not_supported ''UnaryOperation'')"
| "AddAggCallToContext (BoundWindow func_name args partition_by order_bys start_offset end_offset b1 b2) ctx =
     Inl (expression_not_supported ''Window'')"
| "AddAggCallsToContext [] ctx = Inr ([], ctx)"
| "AddAggCallsToContext (e # es) ctx =
     rbind (AddAggCallToContext e ctx) (\<lambda>(e', ctx1). rbind (AddAggCallsToContext es ctx1) (\<lambda>(es', ctx2). Inr (e' # es', ctx2)))"

subsection \<open>Aggregations\<close>

definition PlanAggCall :: "('d typed_expr list \<Rightarrow> 'd typed_expr result) \<Rightarrow> 'd plan_node list \<Rightarrow> string \<Rightarrow> bool \<Rightarrow> 'd bound_expr list \<Rightarrow>
    'd planner_context \<Rightarrow> (AggregationType \<times> 'd typed_expr list) result" where
  "PlanAggCall mk_array cs func_name is_distinct args ctx =
     (if is_distinct then Inl (Thrown ''distinct agg is not implemented yet'')
      else rbind (PlanExpressions mk_array cs args (NewContext ctx)) (\<lambda>(exprs, _). GetAggCallFromFactory func_name (map snd exprs)))"

text \<open>The loop over the collected calls: the input of each, its type, the name of its column and the
  reference to that column.\<close>

fun plan_agg_terms :: "('d typed_expr list \<Rightarrow> 'd typed_expr result) \<Rightarrow> 'd plan_node \<Rightarrow> 'd planner_context \<Rightarrow> nat \<Rightarrow> nat \<Rightarrow> 'd bound_expr list \<Rightarrow>
    ('d typed_expr \<times> AggregationType \<times> string \<times> 'd typed_expr) list result" where
  "plan_agg_terms mk_array child_plan ctx agg_begin_idx term_idx [] = Inr []"
| "plan_agg_terms mk_array child_plan ctx agg_begin_idx term_idx (item # items) =
     (case item of
        BoundAggCall func_name is_distinct args \<Rightarrow>
          rbind (PlanAggCall mk_array [child_plan] func_name is_distinct args ctx) (\<lambda>(agg_type, exprs).
          rbind (case exprs of
                   [] \<Rightarrow> rbind (GetIntegerValue 1) ConstantValueExpression
                 | [e] \<Rightarrow> Inr e
                 | _ \<Rightarrow> Inl (Thrown ''only agg call of zero/one arg is supported'')) (\<lambda>input.
          rbind (Column ''<agg_result>'' INTEGER) (\<lambda>agg_result.
          rbind (plan_agg_terms mk_array child_plan ctx agg_begin_idx (term_idx + 1) items) (\<lambda>terms.
            Inr ((input, agg_type, ''agg#'' @ print_nat term_idx, ColumnValueExpression 0 (agg_begin_idx + term_idx) agg_result) # terms)))))
      | _ \<Rightarrow> Inl (Thrown ''alias for agg call is not supported for now''))"

text \<open>The statement with its select list and \<open>HAVING\<close> clause rewritten.\<close>

definition rewritten :: "'d select \<Rightarrow> 'd bound_expr list \<Rightarrow> 'd bound_expr \<Rightarrow> 'd select" where
  "rewritten s items having_expr =
     SelectStatement (st_table s) items (st_where s) (st_group_by s) having_expr (st_limit_count s) (st_limit_offset s)
       (st_sort s) (st_ctes s) (st_is_distinct s)"

text \<open>The aggregation node, and the filter of the \<open>HAVING\<close> clause over it.\<close>

definition agg_columns :: "(string \<times> 'd typed_expr) list \<Rightarrow> ('d typed_expr \<times> AggregationType \<times> string \<times> 'd typed_expr) list \<Rightarrow> schema result" where
  "agg_columns group_bys terms =
     rbind (InferAggSchema (map snd group_bys) (map (\<lambda>(e, _, _, _). e) terms) (map (\<lambda>(_, t, _, _). t) terms)) (\<lambda>agg_output_schema.
       RenameSchema agg_output_schema (map fst group_bys @ map (\<lambda>(_, _, n, _). n) terms))"

definition agg_node :: "(string \<times> 'd typed_expr) list \<Rightarrow> ('d typed_expr \<times> AggregationType \<times> string \<times> 'd typed_expr) list \<Rightarrow> schema \<Rightarrow>
    'd plan_node \<Rightarrow> 'd plan_node" where
  "agg_node group_bys terms agg_schema child_plan =
     PlanNode (Aggregation (map (\<lambda>(_, e, _). e) group_bys) (map (\<lambda>((e, _), _, _, _). e) terms) (map (\<lambda>(_, t, _, _). t) terms)) agg_schema [child_plan]"

definition plan_having :: "('d typed_expr list \<Rightarrow> 'd typed_expr result) \<Rightarrow> 'd bound_expr \<Rightarrow> 'd plan_node \<Rightarrow> 'd planner_context \<Rightarrow>
    ('d plan_node \<times> 'd planner_context) result" where
  "plan_having mk_array having_expr plan ctx =
     (if IsInvalid having_expr then Inr (plan, ctx)
      else rbind (PlanExpression mk_array [plan] having_expr ctx) (\<lambda>((_, e, _), ctx1).
        Inr (PlanNode (FilterPlan e) (output_schema plan) [plan], ctx1)))"

definition collect_having :: "'d bound_expr \<Rightarrow> 'd planner_context \<Rightarrow> ('d bound_expr \<times> 'd planner_context) result" where
  "collect_having having_expr ctx = (if IsInvalid having_expr then Inr (having_expr, ctx) else AddAggCallToContext having_expr ctx)"

definition PlanSelectAgg :: "('d typed_expr list \<Rightarrow> 'd typed_expr result) \<Rightarrow> 'd select \<Rightarrow> 'd plan_node \<Rightarrow> 'd planner_context \<Rightarrow>
    ('d plan_node \<times> 'd select) result" where
  "PlanSelectAgg mk_array s child_plan ctx =
     rbind (PlanExpressions mk_array [child_plan] (st_group_by s) ((NewContext ctx)\<lparr>allow_aggregation := True\<rparr>)) (\<lambda>(group_bys, ctx1).
     rbind (collect_having (st_having s) ctx1) (\<lambda>(having_expr, ctx2).
     rbind (AddAggCallsToContext (st_select_list s) ctx2) (\<lambda>(items, ctx3).
     rbind (plan_agg_terms mk_array child_plan ctx3 (length group_bys) 0 (aggregations ctx3)) (\<lambda>terms.
     rbind (agg_columns group_bys terms) (\<lambda>agg_schema.
     rbind (plan_having mk_array having_expr (agg_node group_bys terms agg_schema child_plan)
              (ctx3\<lparr>expr_in_agg := map (\<lambda>(_, _, _, e). e) terms\<rparr>)) (\<lambda>(filtered, ctx5).
     rbind (PlanExpressions mk_array [filtered] items ctx5) (\<lambda>(exprs, _).
     rbind (RenameSchema (InferProjectionSchema (map snd exprs)) (map fst exprs)) (\<lambda>projection_schema.
       Inr (PlanNode (Projection (map (\<lambda>(_, e, _). e) exprs)) projection_schema [filtered], rewritten s items having_expr)))))))))"

subsection \<open>Window functions\<close>

fun PlanOrderBys :: "('d typed_expr list \<Rightarrow> 'd typed_expr result) \<Rightarrow> 'd plan_node list \<Rightarrow> 'd bound_order_by list \<Rightarrow> 'd planner_context \<Rightarrow>
    ('d order_by list \<times> 'd planner_context) result" where
  "PlanOrderBys mk_array cs [] ctx = Inr ([], ctx)"
| "PlanOrderBys mk_array cs ((type, null_order, e) # obs) ctx =
     rbind (PlanExpression mk_array cs e ctx) (\<lambda>((_, e', _), ctx1).
     rbind (PlanOrderBys mk_array cs obs ctx1) (\<lambda>(obs', ctx2). Inr ((type, null_order, e') # obs', ctx2)))"

fun same_order_by :: "'d machine \<Rightarrow> 'd order_by list \<Rightarrow> 'd order_by list \<Rightarrow> bool result" where
  "same_order_by M ((type, null_order, e) # obs) ((type', null_order', e') # obs') =
     (if type \<noteq> type' \<or> null_order \<noteq> null_order' then Inr False
      else rbind (Expression_ToString M e) (\<lambda>a. rbind (Expression_ToString M e') (\<lambda>b.
        if a \<noteq> b then Inr False else same_order_by M obs obs')))"
| "same_order_by M obs obs' = Inr True"

fun check_order_bys :: "'d machine \<Rightarrow> 'd order_by list \<Rightarrow> 'd order_by list list \<Rightarrow> unit result" where
  "check_order_bys M first_order_by [] = Inr ()"
| "check_order_bys M first_order_by (order_by # order_bys) =
     (if length order_by \<noteq> length first_order_by then Inl (Thrown ''order by clause of window functions are not compatible'')
      else rbind (same_order_by M order_by first_order_by) (\<lambda>same.
        if \<not> same then Inl (Thrown ''order by clause of window functions are not compatible'')
        else check_order_bys M first_order_by order_bys))"

definition CheckOrderByCompatible :: "'d machine \<Rightarrow> 'd order_by list list \<Rightarrow> unit result" where
  "CheckOrderByCompatible M order_by_exprs =
     (case order_by_exprs of [] \<Rightarrow> Inr () | first_order_by # _ \<Rightarrow> check_order_bys M first_order_by order_by_exprs)"

definition unnamed_column :: "nat \<Rightarrow> string" where
  "unnamed_column n = ''__unnamed#'' @ print_nat n"

type_synonym 'd window_function = "'d expr \<times> WindowFunctionType \<times> 'd expr list \<times> 'd order_by list"

text \<open>The body of the loop for an item that is a window function.\<close>

definition plan_window_call :: "('d typed_expr list \<Rightarrow> 'd typed_expr result) \<Rightarrow> 'd plan_node \<Rightarrow> 'd bound_expr \<Rightarrow> 'd planner_context \<Rightarrow>
    ('d window_function \<times> 'd planner_context) result" where
  "plan_window_call mk_array child_plan window_item ctx =
     (case window_item of
        BoundWindow func_name args partition_by order_bys start_offset end_offset start end \<Rightarrow>
          if start \<noteq> UNBOUNDED_PRECEDING \<or> end \<noteq> CURRENT_ROW_ROWS \<and> end \<noteq> CURRENT_ROW_RANGE
          then Inl (Thrown ''BusTub currently only support window function with default window frame settings'')
          else
            rbind (PlanExpressions mk_array [child_plan] partition_by ctx) (\<lambda>(partition, ctx1).
            if func_name = ''rank'' \<and> order_bys = [] then Inl (Thrown ''order by clause is mandatory for rank function'')
            else
              rbind (PlanOrderBys mk_array [child_plan] order_bys ctx1) (\<lambda>(order_by, ctx2).
              rbind (PlanExpressions mk_array [child_plan] args ctx2) (\<lambda>(raw_args, ctx3).
              rbind (GetWindowAggCallFromFactory func_name (map snd raw_args)) (\<lambda>(window_func_type, clean_args).
              rbind (case clean_args of
                       [] \<Rightarrow> rbind (GetIntegerValue 1) ConstantValueExpression
                     | [e] \<Rightarrow> Inr e
                     | _ \<Rightarrow> Inl (Thrown ''only agg call of zero/one arg is supported'')) (\<lambda>clean_arg.
                Inr ((fst clean_arg, window_func_type, map (\<lambda>(_, e, _). e) partition, order_by), ctx3))))))
      | _ \<Rightarrow> Inl (Thrown ''std::bad_cast''))"

text \<open>The loop over the select list, from item \<open>i\<close> on: the columns with their names, and the window
  functions by the index of their item.\<close>

fun plan_window_items :: "('d typed_expr list \<Rightarrow> 'd typed_expr result) \<Rightarrow> 'd plan_node \<Rightarrow> nat \<Rightarrow> 'd bound_expr list \<Rightarrow> 'd planner_context \<Rightarrow> nat \<Rightarrow>
    ((string \<times> 'd typed_expr) list \<times> (nat \<times> 'd window_function) list \<times> nat) result" where
  "plan_window_items mk_array child_plan i [] ctx universal_id = Inr ([], [], universal_id)"
| "plan_window_items mk_array child_plan i (item # items) ctx universal_id =
     (if \<not> HasWindowFunction item then
        rbind (PlanExpression mk_array [child_plan] item ctx) (\<lambda>((name, e), ctx1).
        let (name', universal_id') = (if name = UNNAMED_COLUMN then (unnamed_column universal_id, universal_id + 1) else (name, universal_id)) in
        rbind (plan_window_items mk_array child_plan (i + 1) items ctx1 universal_id') (\<lambda>(columns, windows, n).
          Inr ((name', e) # columns, windows, n)))
      else
        rbind (Column ''<placeholder>'' INTEGER) (\<lambda>placeholder.
        let e = ColumnValueExpression 0 4294967295 placeholder;
            (name, window_item, universal_id') =
              (case item of BoundAlias alias e \<Rightarrow> (alias, e, universal_id)
               | _ \<Rightarrow> (unnamed_column universal_id, item, universal_id + 1))
        in
        rbind (plan_window_call mk_array child_plan window_item ctx) (\<lambda>(window, ctx1).
        rbind (plan_window_items mk_array child_plan (i + 1) items ctx1 universal_id') (\<lambda>(columns, windows, n).
          Inr ((name, e) # columns, (i, window) # windows, n)))))"

definition PlanSelectWindow :: "'d machine \<Rightarrow> ('d typed_expr list \<Rightarrow> 'd typed_expr result) \<Rightarrow> 'd select \<Rightarrow> 'd plan_node \<Rightarrow> 'd planner_context \<Rightarrow> nat \<Rightarrow>
    ('d plan_node \<times> nat) result" where
  "PlanSelectWindow M mk_array s child_plan ctx universal_id =
     rbind (plan_window_items mk_array child_plan 0 (st_select_list s) ctx universal_id) (\<lambda>(columns, windows, universal_id').
     rbind (CheckOrderByCompatible M (map (\<lambda>(_, _, _, _, order_by). order_by) windows)) (\<lambda>_.
     rbind (RenameSchema (InferWindowSchema (map snd columns)) (map fst columns)) (\<lambda>window_schema.
       Inr (PlanNode (Window (map (\<lambda>(_, e, _). e) columns) windows) window_schema [child_plan], universal_id'))))"

end
