(* ===== verification/Planner.thy ===== *)
theory Planner
  imports Planner_Exprs
begin

section \<open>The planner\<close>

text \<open>
  The other part of \<^verbatim>\<open>src/planner/\<close>: from a bound statement to the plan tree of \<open>Plans\<close>.
  \<open>PlanSelect\<close>, \<open>PlanTableRef\<close> and \<open>PlanSubquery\<close> call each other as the code does; what \<open>PlanSelect\<close> does with
  the clauses of the statement once the table is planned are operations of their own.

  An expression planned outside an aggregation leaves the context as it is, so the clauses of one statement share
  the context of the statement.
\<close>

subsection \<open>Selections\<close>

text \<open>The binder has checked that aggregations and window functions do not occur together.\<close>

fun select_kind :: "'d bound_expr list \<Rightarrow> (bool \<times> bool) result" where
  "select_kind [] = Inr (False, False)"
| "select_kind (item # items) =
     rbind (HasAggregation item) (\<lambda>agg. if agg then Inr (True, False)
       else if HasWindowFunction item then Inr (False, True) else select_kind items)"

fun name_columns :: "(string \<times> 'd typed_expr) list \<Rightarrow> nat \<Rightarrow> (string \<times> 'd typed_expr) list \<times> nat" where
  "name_columns [] universal_id = ([], universal_id)"
| "name_columns ((name, e) # cols) universal_id =
     (if name = UNNAMED_COLUMN
      then (let (cols', n) = name_columns cols (universal_id + 1) in ((unnamed_column universal_id, e) # cols', n))
      else (let (cols', n) = name_columns cols universal_id in ((name, e) # cols', n)))"

definition plan_projection :: "('d typed_expr list \<Rightarrow> 'd typed_expr result) \<Rightarrow> 'd select \<Rightarrow> 'd plan_node \<Rightarrow> 'd planner_context \<Rightarrow> nat \<Rightarrow>
    ('d plan_node \<times> nat) result" where
  "plan_projection mk_array s child_plan ctx universal_id =
     rbind (PlanExpressions mk_array [child_plan] (st_select_list s) ctx) (\<lambda>(planned, _).
     let (exprs, universal_id') = name_columns planned universal_id in
     rbind (RenameSchema (InferProjectionSchema (map snd exprs)) (map fst exprs)) (\<lambda>schema.
       Inr (PlanNode (Projection (map (\<lambda>(_, e, _). e) exprs)) schema [child_plan], universal_id')))"

definition plan_where :: "('d typed_expr list \<Rightarrow> 'd typed_expr result) \<Rightarrow> 'd select \<Rightarrow> 'd plan_node \<Rightarrow> 'd planner_context \<Rightarrow>
    ('d plan_node \<times> 'd planner_context) result" where
  "plan_where mk_array s plan ctx =
     (if IsInvalid (st_where s) then Inr (plan, ctx)
      else rbind (PlanExpression mk_array [plan] (st_where s) ctx) (\<lambda>((_, e, _), ctx1).
        Inr (PlanNode (FilterPlan e) (output_schema plan) [plan], ctx1)))"

definition plan_select_list :: "'d machine \<Rightarrow> ('d typed_expr list \<Rightarrow> 'd typed_expr result) \<Rightarrow> 'd select \<Rightarrow> 'd plan_node \<Rightarrow> 'd planner_context \<Rightarrow> nat \<Rightarrow>
    ('d plan_node \<times> 'd select \<times> nat) result" where
  "plan_select_list M mk_array s plan ctx universal_id =
     rbind (select_kind (st_select_list s)) (\<lambda>(has_agg, has_window_agg).
     if has_window_agg then
       (if \<not> IsInvalid (st_having s) then Inl (Thrown ''HAVING on window function is not supported yet.'')
        else if st_group_by s \<noteq> [] then Inl (Thrown ''Group by is not allowed to use with window function.'')
        else rbind (PlanSelectWindow M mk_array s plan ctx universal_id) (\<lambda>(plan', n). Inr (plan', s, n)))
     else if \<not> IsInvalid (st_having s) \<or> st_group_by s \<noteq> [] \<or> has_agg then
       rbind (PlanSelectAgg mk_array s plan ctx) (\<lambda>(plan', s'). Inr (plan', s', universal_id))
     else rbind (plan_projection mk_array s plan ctx universal_id) (\<lambda>(plan', n). Inr (plan', s, n)))"

definition plan_distinct :: "'d select \<Rightarrow> 'd plan_node \<Rightarrow> 'd plan_node" where
  "plan_distinct s plan =
     (if st_is_distinct s
      then PlanNode (Aggregation (map (\<lambda>(i, col). fst (ColumnValueExpression 0 i col)) (enumerate 0 (columns (output_schema plan)))) [] [])
        (output_schema plan) [plan]
      else plan)"

definition plan_order_by :: "('d typed_expr list \<Rightarrow> 'd typed_expr result) \<Rightarrow> 'd select \<Rightarrow> 'd plan_node \<Rightarrow> 'd planner_context \<Rightarrow>
    'd plan_node result" where
  "plan_order_by mk_array s plan ctx =
     (if st_sort s = [] then Inr plan
      else rbind (PlanOrderBys mk_array [plan] (st_sort s) ctx) (\<lambda>(order_bys, _).
        Inr (PlanNode (SortPlan order_bys) (output_schema plan) [plan])))"

text \<open>An \<open>int32_t\<close> becomes a \<open>size_t\<close>: a negative number wraps.\<close>

definition limit_value :: "'d machine \<Rightarrow> string \<Rightarrow> 'd bound_expr \<Rightarrow> nat option result" where
  "limit_value M clause e =
     (case e of
        InvalidExpr \<Rightarrow> Inr None
      | BoundConstant v \<Rightarrow>
          rbind (Value_CastAs M v INTEGER) (\<lambda>_.
            if GetTypeId v = INTEGER then Inr (Some (nat (take_bit 64 (GetAs 32 v))))
            else Inl (Thrown (clause @ '' clause must be an integer constant.'')))
      | _ \<Rightarrow> Inl (Thrown (clause @ '' clause must be an integer constant.'')))"

definition plan_limit :: "'d machine \<Rightarrow> 'd select \<Rightarrow> 'd plan_node \<Rightarrow> 'd plan_node result" where
  "plan_limit M s plan =
     rbind (limit_value M ''LIMIT'' (st_limit_count s)) (\<lambda>limit.
     rbind (limit_value M ''OFFSET'' (st_limit_offset s)) (\<lambda>offset.
     if offset \<noteq> None then Inl (Thrown ''OFFSET clause is not supported yet.'')
     else (case limit of None \<Rightarrow> Inr plan | Some n \<Rightarrow> Inr (PlanNode (LimitPlan n) (output_schema plan) [plan]))))"

text \<open>What \<open>PlanSelect\<close> does once the table is planned.\<close>

definition plan_clauses :: "'d machine \<Rightarrow> ('d typed_expr list \<Rightarrow> 'd typed_expr result) \<Rightarrow> 'd select \<Rightarrow> 'd plan_node \<Rightarrow> 'd planner_context \<Rightarrow> nat \<Rightarrow>
    ('d plan_node \<times> 'd select \<times> nat) result" where
  "plan_clauses M mk_array s plan ctx universal_id =
     rbind (plan_where mk_array s plan ctx) (\<lambda>(filtered, ctx1).
     rbind (plan_select_list M mk_array s filtered ctx1 universal_id) (\<lambda>(selected, s', universal_id').
     rbind (plan_order_by mk_array s (plan_distinct s selected) ctx1) (\<lambda>sorted_plan.
     rbind (plan_limit M s sorted_plan) (\<lambda>limited. Inr (limited, s', universal_id')))))"

subsection \<open>Tables\<close>

definition StartsWith :: "string \<Rightarrow> string \<Rightarrow> bool" where
  "StartsWith str start = (take (length start) str = start)"

definition PlanBaseTableRef :: "'i catalog \<Rightarrow> base_table_ref \<Rightarrow> 'd plan_node result" where
  "PlanBaseTableRef cat t =
     rbind (GetTable (bt_table t) cat) (\<lambda>found.
       case found of
         None \<Rightarrow> Inl Assertion
       | Some table \<Rightarrow>
           (let schema = InferScanSchema (GetBoundTableName t) (bt_schema t) in
            if StartsWith (ti_name table) ''__'' then
              (if StartsWith (ti_name table) ''__mock'' then Inr (PlanNode (MockScan (ti_name table)) schema [])
               else Inl (Thrown (''unsupported internal table: '' @ ti_name table)))
            else Inr (PlanNode (SeqScan (ti_oid table) (ti_name table) None) schema [])))"

fun plan_value_rows :: "('d typed_expr list \<Rightarrow> 'd typed_expr result) \<Rightarrow> 'd bound_expr list list \<Rightarrow> 'd planner_context \<Rightarrow>
    ('d typed_expr list list \<times> 'd planner_context) result" where
  "plan_value_rows mk_array [] ctx = Inr ([], ctx)"
| "plan_value_rows mk_array (row # values) ctx =
     rbind (PlanExpressions mk_array [] row ctx) (\<lambda>(row_exprs, ctx1).
     rbind (plan_value_rows mk_array values ctx1) (\<lambda>(all_exprs, ctx2). Inr (map snd row_exprs # all_exprs, ctx2)))"

definition PlanExpressionListRef :: "('d typed_expr list \<Rightarrow> 'd typed_expr result) \<Rightarrow> 'd bound_expr list list \<Rightarrow> string \<Rightarrow> 'd planner_context \<Rightarrow>
    ('d plan_node \<times> 'd planner_context) result" where
  "PlanExpressionListRef mk_array values identifier ctx =
     rbind (plan_value_rows mk_array values ctx) (\<lambda>(all_exprs, ctx1).
     case all_exprs of
       [] \<Rightarrow> Inl Undefined
     | first_row # _ \<Rightarrow>
         Inr (PlanNode (ValuesPlan (map (map fst) all_exprs))
           (Schema (map (\<lambda>(idx, _, column). WithColumnName (identifier @ ''.'' @ print_nat idx) column) (enumerate 0 first_row))) [], ctx1))"

text \<open>The projection that renames the columns of a subquery.\<close>

definition plan_subquery_names :: "string \<Rightarrow> string list list \<Rightarrow> 'd plan_node \<Rightarrow> 'd plan_node result" where
  "plan_subquery_names alias select_list_name select_node =
     (let cols = columns (output_schema select_node);
          exprs = map (\<lambda>(idx, col). ColumnValueExpression 0 idx col) (enumerate 0 cols)
      in
      rbind (map_result (\<lambda>idx. if idx < length select_list_name then Inr (alias @ ''.'' @ dotted (select_list_name ! idx)) else Inl Undefined)
               [0..<length cols]) (\<lambda>output_column_names.
      rbind (RenameSchema (InferProjectionSchema exprs) output_column_names) (\<lambda>schema.
        Inr (PlanNode (Projection (map fst exprs)) schema [select_node]))))"

definition join_node :: "'d expr \<Rightarrow> join_type \<Rightarrow> 'd plan_node \<Rightarrow> 'd plan_node \<Rightarrow> 'd plan_node" where
  "join_node predicate type l r = PlanNode (NestedLoopJoin predicate type) (InferJoinSchema l r) [l, r]"

subsection \<open>The planner\<close>

text \<open>
  What outlives the planning of a part of a statement: the context, whose list of common table
  expressions is a pointer into the statement that has them, and the counter for names. Planning a
  statement rewrites it, so each operation returns what it planned as it leaves it; a common table
  expression is planned where it stands, in the list of the context.
\<close>

record 'd planner =
  planner_ctx :: "'d planner_context"
  universal_id :: nat

text \<open>A common table expression that reaches itself would be planned forever: the depth of the recursion
  is bounded by fuel, and a plan that needs more is \<open>Stuck\<close>.\<close>

definition enter_select :: "'d select \<Rightarrow> 'd planner \<Rightarrow> 'd planner" where
  "enter_select s pl =
     (let ctx = NewContext (planner_ctx pl)
      in pl\<lparr>planner_ctx := if st_ctes s \<noteq> [] then ctx\<lparr>cte_list := Some (st_ctes s)\<rparr> else ctx\<rparr>)"

text \<open>The statement as it is left, \<open>t\<close> its table, and the planner with the old context: \<open>inner\<close> is the
  planner when the table has been planned.\<close>

definition leave_select :: "'d select \<Rightarrow> 'd table_ref \<Rightarrow> 'd select \<Rightarrow> 'd planner \<Rightarrow> 'd planner \<Rightarrow> nat \<Rightarrow> 'd select \<times> 'd planner" where
  "leave_select s t s' pl inner universal_id' =
     (let list_now = cte_list (planner_ctx inner);
          own = (st_ctes s \<noteq> []);
          ctes_now = (case list_now of Some cs \<Rightarrow> if own then cs else [] | None \<Rightarrow> [])
      in (SelectStatement t (st_select_list s') (st_where s') (st_group_by s') (st_having s') (st_limit_count s') (st_limit_offset s')
            (st_sort s') ctes_now (st_is_distinct s'),
          \<lparr>planner_ctx = (if own then planner_ctx pl else (planner_ctx pl)\<lparr>cte_list := list_now\<rparr>), universal_id = universal_id'\<rparr>))"

text \<open>The place of a common table expression in a list, if it is there.\<close>

definition find_cte :: "string \<Rightarrow> 'd subquery list \<Rightarrow> nat option" where
  "find_cte cte_name cs =
     (let i = length (takeWhile (\<lambda>q. sq_alias q \<noteq> cte_name) cs) in if i < length cs then Some i else None)"

definition replace_cte :: "nat \<Rightarrow> 'd subquery \<Rightarrow> 'd planner \<Rightarrow> 'd planner" where
  "replace_cte i q pl =
     (let ctx = planner_ctx pl in pl\<lparr>planner_ctx := ctx\<lparr>cte_list := map_option (\<lambda>cs. cs[i := q]) (cte_list ctx)\<rparr>\<rparr>)"

fun PlanSelect :: "nat \<Rightarrow> 'd machine \<Rightarrow> ('d typed_expr list \<Rightarrow> 'd typed_expr result) \<Rightarrow> 'i catalog \<Rightarrow> 'd select \<Rightarrow> 'd planner \<Rightarrow>
      ('d plan_node \<times> 'd select \<times> 'd planner) result"
  and PlanTableRef :: "nat \<Rightarrow> 'd machine \<Rightarrow> ('d typed_expr list \<Rightarrow> 'd typed_expr result) \<Rightarrow> 'i catalog \<Rightarrow> 'd table_ref \<Rightarrow> 'd planner \<Rightarrow>
      ('d plan_node \<times> 'd table_ref \<times> 'd planner) result"
  and PlanSubquery :: "nat \<Rightarrow> 'd machine \<Rightarrow> ('d typed_expr list \<Rightarrow> 'd typed_expr result) \<Rightarrow> 'i catalog \<Rightarrow> 'd subquery \<Rightarrow> string \<Rightarrow> 'd planner \<Rightarrow>
      ('d plan_node \<times> 'd subquery \<times> 'd planner) result" where
  "PlanSelect 0 M mk_array cat s pl = Inl Stuck"
| "PlanSelect (Suc n) M mk_array cat s pl =
     (let pl1 = enter_select s pl in
      rbind (if IsEmptyTableRef (st_table s) then Inr (PlanNode (ValuesPlan [[]]) (Schema []) [], st_table s, pl1)
             else PlanTableRef n M mk_array cat (st_table s) pl1) (\<lambda>(plan, t, pl2).
      rbind (plan_clauses M mk_array s plan (planner_ctx pl2) (universal_id pl2)) (\<lambda>(plan', s', universal_id').
        Inr (plan', leave_select s t s' pl pl2 universal_id'))))"
| "PlanTableRef 0 M mk_array cat table pl = Inl Stuck"
| "PlanTableRef (Suc n) M mk_array cat table pl =
     (case table of
        BaseTableRef t \<Rightarrow> rbind (PlanBaseTableRef cat t) (\<lambda>plan. Inr (plan, table, pl))
      | CrossProductRef l r \<Rightarrow>
          rbind (PlanTableRef n M mk_array cat l pl) (\<lambda>(left_plan, l', pl1).
          rbind (PlanTableRef n M mk_array cat r pl1) (\<lambda>(right_plan, r', pl2).
          rbind (rbind (GetBooleanValue 1) ConstantValueExpression) (\<lambda>(predicate, _).
            Inr (join_node predicate INNER left_plan right_plan, CrossProductRef l' r', pl2))))
      | JoinRef type l r condition \<Rightarrow>
          rbind (PlanTableRef n M mk_array cat l pl) (\<lambda>(left_plan, l', pl1).
          rbind (PlanTableRef n M mk_array cat r pl1) (\<lambda>(right_plan, r', pl2).
          rbind (PlanExpression mk_array [left_plan, right_plan] condition (planner_ctx pl2)) (\<lambda>((_, predicate, _), ctx).
            Inr (join_node predicate type left_plan right_plan, JoinRef type l' r' condition, pl2\<lparr>planner_ctx := ctx\<rparr>))))
      | ExpressionListRef values identifier \<Rightarrow>
          rbind (PlanExpressionListRef mk_array values identifier (planner_ctx pl)) (\<lambda>(plan, ctx).
            Inr (plan, table, pl\<lparr>planner_ctx := ctx\<rparr>))
      | SubqueryRef q \<Rightarrow>
          rbind (PlanSubquery n M mk_array cat q (sq_alias q) pl) (\<lambda>(plan, q', pl1). Inr (plan, SubqueryRef q', pl1))
      | CTERef cte_name alias \<Rightarrow>
          (case cte_list (planner_ctx pl) of
             None \<Rightarrow> Inl Undefined
           | Some cs \<Rightarrow>
               (case find_cte cte_name cs of
                  None \<Rightarrow> Inl (Thrown ''CTE not found'')
                | Some i \<Rightarrow>
                    rbind (PlanSubquery n M mk_array cat (cs ! i) alias pl) (\<lambda>(plan, q', pl1). Inr (plan, table, replace_cte i q' pl1))))
      | InvalidTableRef \<Rightarrow> Inl (Thrown ''the table ref type Invalid is not supported in planner yet'')
      | EmptyTableRef \<Rightarrow> Inl (Thrown ''the table ref type Empty is not supported in planner yet''))"
| "PlanSubquery 0 M mk_array cat q alias pl = Inl Stuck"
| "PlanSubquery (Suc n) M mk_array cat q alias pl =
     rbind (PlanSelect n M mk_array cat (sq_select q) pl) (\<lambda>(select_node, s, pl1).
     rbind (plan_subquery_names alias (sq_names q) select_node) (\<lambda>plan. Inr (plan, Subquery s (sq_names q) (sq_alias q), pl1)))"

subsection \<open>Statements\<close>

definition row_count_schema :: "string \<Rightarrow> schema result" where
  "row_count_schema name = rbind (Column name INTEGER) (\<lambda>c. Inr (Schema [c]))"

definition PlanInsert :: "nat \<Rightarrow> 'd machine \<Rightarrow> ('d typed_expr list \<Rightarrow> 'd typed_expr result) \<Rightarrow> 'i catalog \<Rightarrow> base_table_ref \<Rightarrow> 'd select \<Rightarrow> 'd planner \<Rightarrow>
    'd plan_node result" where
  "PlanInsert n M mk_array cat table s pl =
     rbind (PlanSelect n M mk_array cat s pl) (\<lambda>(select, _, _).
     if map column_type (columns (bt_schema table)) \<noteq> map column_type (columns (output_schema select))
     then Inl (Thrown ''table schema mismatch'')
     else rbind (row_count_schema ''__bustub_internal.insert_rows'') (\<lambda>insert_schema.
       Inr (PlanNode (InsertPlan (bt_oid table)) insert_schema [select])))"

text \<open>The filter over the table that \<open>DELETE\<close> and \<open>UPDATE\<close> scan.\<close>

definition plan_table_filter :: "('d typed_expr list \<Rightarrow> 'd typed_expr result) \<Rightarrow> 'i catalog \<Rightarrow> base_table_ref \<Rightarrow> 'd bound_expr \<Rightarrow> 'd planner_context \<Rightarrow>
    ('d plan_node \<times> 'd planner_context) result" where
  "plan_table_filter mk_array cat t condition ctx =
     rbind (PlanBaseTableRef cat t) (\<lambda>table.
     rbind (PlanExpression mk_array [table] condition ctx) (\<lambda>((_, e, _), ctx1).
       Inr (PlanNode (FilterPlan e) (output_schema table) [table], ctx1)))"

definition PlanDelete :: "('d typed_expr list \<Rightarrow> 'd typed_expr result) \<Rightarrow> 'i catalog \<Rightarrow> base_table_ref \<Rightarrow> 'd bound_expr \<Rightarrow> 'd planner \<Rightarrow>
    'd plan_node result" where
  "PlanDelete mk_array cat t condition pl =
     rbind (plan_table_filter mk_array cat t condition (planner_ctx pl)) (\<lambda>(filter_plan, _).
     rbind (row_count_schema ''__bustub_internal.delete_rows'') (\<lambda>delete_schema.
       Inr (PlanNode (DeletePlan (bt_oid t)) delete_schema [filter_plan])))"

definition column_index :: "'d expr \<Rightarrow> nat result" where
  "column_index e = (case e of ColumnValue t c ty \<Rightarrow> Inr c | _ \<Rightarrow> Inl Undefined)"

fun plan_targets :: "('d typed_expr list \<Rightarrow> 'd typed_expr result) \<Rightarrow> 'd plan_node list \<Rightarrow> (string list option \<times> 'd bound_expr) list \<Rightarrow> 'd planner_context \<Rightarrow>
    'd expr option list \<Rightarrow> 'd expr option list result" where
  "plan_targets mk_array scope [] ctx target_exprs = Inr target_exprs"
| "plan_targets mk_array scope ((col, target_expr) # targets) ctx target_exprs =
     rbind (PlanExpression mk_array scope target_expr ctx) (\<lambda>((_, e, _), ctx1).
     rbind (case col of None \<Rightarrow> Inl Undefined | Some names \<Rightarrow> PlanColumnRef scope names) (\<lambda>(_, col_expr, _).
     rbind (column_index col_expr) (\<lambda>i.
     if i < length target_exprs then plan_targets mk_array scope targets ctx1 (target_exprs[i := Some e]) else Inl Undefined)))"

text \<open>The columns that are not assigned keep their value.\<close>

definition default_targets :: "schema \<Rightarrow> 'd expr option list \<Rightarrow> 'd expr list result" where
  "default_targets s target_exprs =
     map_result (\<lambda>(idx, target). case target of Some e \<Rightarrow> Inr e
       | None \<Rightarrow> rbind (GetColumn s idx) (\<lambda>col. Inr (fst (ColumnValueExpression 0 idx col)))) (enumerate 0 target_exprs)"

definition PlanUpdate :: "('d typed_expr list \<Rightarrow> 'd typed_expr result) \<Rightarrow> 'i catalog \<Rightarrow> base_table_ref \<Rightarrow> 'd bound_expr \<Rightarrow>
    (string list option \<times> 'd bound_expr) list \<Rightarrow> 'd planner \<Rightarrow> 'd plan_node result" where
  "PlanUpdate mk_array cat t condition targets pl =
     rbind (plan_table_filter mk_array cat t condition (planner_ctx pl)) (\<lambda>(filter_plan, ctx).
     rbind (plan_targets mk_array [filter_plan] targets ctx (replicate (GetColumnCount (output_schema filter_plan)) None)) (\<lambda>planned.
     rbind (default_targets (output_schema filter_plan) planned) (\<lambda>target_exprs.
     rbind (row_count_schema ''__bustub_internal.update_rows'') (\<lambda>update_schema.
       Inr (PlanNode (UpdatePlan (bt_oid t) target_exprs) update_schema [filter_plan])))))"

definition PlanQuery :: "nat \<Rightarrow> 'd machine \<Rightarrow> ('d typed_expr list \<Rightarrow> 'd typed_expr result) \<Rightarrow> 'i catalog \<Rightarrow> 'd bound_statement \<Rightarrow> 'd planner \<Rightarrow>
    'd plan_node result" where
  "PlanQuery n M mk_array cat statement pl =
     (case statement of
        SelectStmt s \<Rightarrow> rbind (PlanSelect n M mk_array cat s pl) (\<lambda>(plan, _, _). Inr plan)
      | InsertStmt t s \<Rightarrow> PlanInsert n M mk_array cat t s pl
      | DeleteStmt t condition \<Rightarrow> PlanDelete mk_array cat t condition pl
      | UpdateStmt t condition targets \<Rightarrow> PlanUpdate mk_array cat t condition targets pl
      | _ \<Rightarrow> Inl (Thrown (''the statement '' @ StatementType_name statement @ '' is not supported in planner yet'')))"

definition new_planner :: "'d planner" where
  "new_planner = \<lparr>planner_ctx = PlannerContext, universal_id = 0\<rparr>"

definition VARCHAR_DEFAULT_LENGTH :: nat where
  "VARCHAR_DEFAULT_LENGTH = 128"

definition MakeOutputSchema :: "(string \<times> type_id) list \<Rightarrow> schema result" where
  "MakeOutputSchema exprs =
     rbind (map_result (\<lambda>(col_name, type_id).
       if type_id \<noteq> VARCHAR then Column col_name type_id else Column_varlen col_name type_id VARCHAR_DEFAULT_LENGTH) exprs) (\<lambda>cols.
     Inr (Schema cols))"

end
