(* ===== verification/Query_Semantics.thy ===== *)
theory Query_Semantics
  imports Bound Plan_Rows
begin

section \<open>What a query means\<close>

text \<open>
  The meaning of a bound query over the contents of the tables, against which the planner is checked. It knows
  names and values but no positions: the rows of a \<open>FROM\<close> clause have a header of named and typed columns, and an
  expression is evaluated where the names are bound to the values of a row. It covers queries without grouping,
  \<open>DISTINCT\<close>, \<open>ORDER BY\<close> and common table expressions: base tables, cross products, inner and left joins,
  value lists and subqueries, \<open>WHERE\<close> and \<open>LIMIT\<close>. \<open>expr_type\<close>, \<open>table_header\<close> and \<open>select_types\<close> say which of
  them are well typed.
\<close>

type_synonym header = "(string \<times> type_id) list"

text \<open>The tables by name: the types of the columns, and the rows.\<close>

type_synonym 'd tables = "string \<rightharpoonup> type_id list \<times> 'd row list"

subsection \<open>Types\<close>

definition compares :: "string \<Rightarrow> bool" where
  "compares op \<longleftrightarrow> op \<in> {''='', ''=='', ''!='', ''<>'', ''<'', ''<='', ''>'', ''>=''}"

definition binary_type :: "string \<Rightarrow> type_id \<Rightarrow> type_id \<Rightarrow> type_id option" where
  "binary_type op t u =
     (if compares op then Some BOOLEAN
      else if op \<in> {''+'', ''-''} \<and> t = INTEGER \<and> u = INTEGER then Some INTEGER
      else if op \<in> {''and'', ''or''} \<and> t = BOOLEAN \<and> u = BOOLEAN then Some BOOLEAN
      else None)"

fun expr_type :: "(string \<rightharpoonup> type_id) \<Rightarrow> 'd bound_expr \<Rightarrow> type_id option" where
  "expr_type sc (BoundConstant v) = (if GetTypeId v = type_id.INVALID then None else Some (GetTypeId v))"
| "expr_type sc (BoundColumnRef names) = sc (dotted names)"
| "expr_type sc (BoundBinaryOp op l r) =
     (case (expr_type sc l, expr_type sc r) of (Some t, Some u) \<Rightarrow> binary_type op t u | _ \<Rightarrow> None)"
| "expr_type sc (BoundAlias alias e) = expr_type sc e"
| "expr_type sc e = None"

fun expr_types :: "(string \<rightharpoonup> type_id) \<Rightarrow> 'd bound_expr list \<Rightarrow> type_id list option" where
  "expr_types sc [] = Some []"
| "expr_types sc (e # es) = (case (expr_type sc e, expr_types sc es) of (Some t, Some ts) \<Rightarrow> Some (t # ts) | _ \<Rightarrow> None)"

text \<open>A name stands for a column when it is the name of just one; in the condition of a join, when only one side
  has it.\<close>

definition scope :: "header \<Rightarrow> string \<rightharpoonup> type_id" where
  "scope h name = (if length (filter (\<lambda>c. fst c = name) h) = 1 then map_of h name else None)"

definition join_scope :: "header \<Rightarrow> header \<Rightarrow> string \<rightharpoonup> type_id" where
  "join_scope l r name = (case (map_of l name, map_of r name) of (Some t, None) \<Rightarrow> Some t | (None, Some t) \<Rightarrow> Some t | _ \<Rightarrow> None)"

definition numbered :: "string \<Rightarrow> type_id list \<Rightarrow> header" where
  "numbered identifier ts = map (\<lambda>(i, t). (identifier @ ''.'' @ print_nat i, t)) (enumerate 0 ts)"

definition limit_ok :: "'d bound_expr \<Rightarrow> bool" where
  "limit_ok e \<longleftrightarrow> (case e of InvalidExpr \<Rightarrow> True | BoundConstant (Integer i) \<Rightarrow> 0 \<le> i \<and> i < 2 ^ 31 | _ \<Rightarrow> False)"

definition where_ok :: "header \<Rightarrow> 'd bound_expr \<Rightarrow> bool" where
  "where_ok h e \<longleftrightarrow> IsInvalid e \<or> expr_type (scope h) e = Some BOOLEAN"

fun table_header :: "'d tables \<Rightarrow> 'd table_ref \<Rightarrow> header option"
  and subquery_header :: "'d tables \<Rightarrow> 'd subquery \<Rightarrow> header option"
  and select_types :: "'d tables \<Rightarrow> 'd select \<Rightarrow> type_id list option" where
  "table_header T (BaseTableRef t) =
     (case T (bt_table t) of
        Some (ts, rows) \<Rightarrow>
          if map column_type (columns (bt_schema t)) = ts
          then Some (map (\<lambda>c. (GetBoundTableName t @ ''.'' @ column_name c, column_type c)) (columns (bt_schema t))) else None
      | None \<Rightarrow> None)"
| "table_header T (CrossProductRef l r) =
     (case (table_header T l, table_header T r) of (Some hl, Some hr) \<Rightarrow> Some (hl @ hr) | _ \<Rightarrow> None)"
| "table_header T (JoinRef type l r condition) =
     (case (table_header T l, table_header T r) of
        (Some hl, Some hr) \<Rightarrow>
          if type \<in> {INNER, LEFT} \<and> expr_type (join_scope hl hr) condition = Some BOOLEAN then Some (hl @ hr) else None
      | _ \<Rightarrow> None)"
| "table_header T (ExpressionListRef values identifier) =
     (case values of
        [] \<Rightarrow> None
      | row # _ \<Rightarrow>
          (case expr_types Map.empty row of
             Some ts \<Rightarrow> if list_all (\<lambda>es. expr_types Map.empty es = Some ts) values then Some (numbered identifier ts) else None
           | None \<Rightarrow> None))"
| "table_header T (SubqueryRef q) = subquery_header T q"
| "table_header T (CTERef cte_name alias) = None"
| "table_header T InvalidTableRef = None"
| "table_header T EmptyTableRef = None"
| "subquery_header T (Subquery s names alias) =
     (case select_types T s of
        Some ts \<Rightarrow> if length ts \<le> length names then Some (zip (map (\<lambda>n. alias @ ''.'' @ dotted n) names) ts) else None
      | None \<Rightarrow> None)"
| "select_types T (SelectStatement t items condition gs having lim off sorting ctes dist) =
     (case if IsEmptyTableRef t then Some [] else table_header T t of
        Some h \<Rightarrow>
          if where_ok h condition \<and> gs = [] \<and> IsInvalid having \<and> limit_ok lim \<and> IsInvalid off \<and> sorting = [] \<and> ctes = [] \<and> \<not> dist
          then expr_types (scope h) items else None
      | None \<Rightarrow> None)"

subsection \<open>Values and rows\<close>

definition comparison_value :: "'d machine \<Rightarrow> string \<Rightarrow> 'd val \<Rightarrow> 'd val \<Rightarrow> CmpBool result" where
  "comparison_value M op =
     (if op \<in> {''='', ''==''} then Value_CompareEquals M
      else if op \<in> {''!='', ''<>''} then Value_CompareNotEquals M
      else if op = ''<'' then Value_CompareLessThan M
      else if op = ''<='' then Value_CompareLessThanEquals M
      else if op = ''>'' then Value_CompareGreaterThan M
      else Value_CompareGreaterThanEquals M)"

definition binary_value :: "'d machine \<Rightarrow> string \<Rightarrow> 'd val \<Rightarrow> 'd val \<Rightarrow> 'd val result" where
  "binary_value M op a b =
     (if compares op then rbind (comparison_value M op a b) GetBooleanOfCmp
      else if op = ''+'' then arithmetic_value M Plus a b
      else if op = ''-'' then arithmetic_value M Minus a b
      else if op = ''and'' then GetBooleanOfCmp (LogicExpression_PerformComputation M And a b)
      else GetBooleanOfCmp (LogicExpression_PerformComputation M Or a b))"

fun expr_value :: "'d machine \<Rightarrow> (string \<rightharpoonup> 'd val) \<Rightarrow> 'd bound_expr \<Rightarrow> 'd val result" where
  "expr_value M env (BoundConstant v) = Inr v"
| "expr_value M env (BoundColumnRef names) = (case env (dotted names) of Some v \<Rightarrow> Inr v | None \<Rightarrow> Inl Undefined)"
| "expr_value M env (BoundBinaryOp op l r) =
     rbind (expr_value M env l) (\<lambda>a. rbind (expr_value M env r) (\<lambda>b. binary_value M op a b))"
| "expr_value M env (BoundAlias alias e) = expr_value M env e"
| "expr_value M env e = Inl Undefined"

definition bindings :: "header \<Rightarrow> 'd row \<Rightarrow> string \<rightharpoonup> 'd val" where
  "bindings h row = map_of (zip (map fst h) row)"

definition limited :: "'d bound_expr \<Rightarrow> 'd row list \<Rightarrow> 'd row list" where
  "limited e rows = (case e of BoundConstant (Integer i) \<Rightarrow> take (nat i) rows | _ \<Rightarrow> rows)"

definition selected :: "'d machine \<Rightarrow> header \<Rightarrow> 'd bound_expr \<Rightarrow> 'd row list \<Rightarrow> 'd row list result" where
  "selected M h e rows = (if IsInvalid e then Inr rows else keep (\<lambda>row. satisfied M (expr_value M (bindings h row) e)) rows)"

definition projected :: "'d machine \<Rightarrow> header \<Rightarrow> 'd bound_expr list \<Rightarrow> 'd row list \<Rightarrow> 'd row list result" where
  "projected M h items rows = map_result (\<lambda>row. map_result (expr_value M (bindings h row)) items) rows"

definition header_of :: "'d tables \<Rightarrow> 'd table_ref \<Rightarrow> header" where
  "header_of T t = (if IsEmptyTableRef t then [] else case table_header T t of Some h \<Rightarrow> h | None \<Rightarrow> [])"

fun from_rows :: "'d machine \<Rightarrow> 'd tables \<Rightarrow> 'd table_ref \<Rightarrow> 'd row list result"
  and subquery_rows :: "'d machine \<Rightarrow> 'd tables \<Rightarrow> 'd subquery \<Rightarrow> 'd row list result"
  and select_rows :: "'d machine \<Rightarrow> 'd tables \<Rightarrow> 'd select \<Rightarrow> 'd row list result" where
  "from_rows M T (BaseTableRef t) = (case T (bt_table t) of Some (ts, rows) \<Rightarrow> Inr rows | None \<Rightarrow> Inl Undefined)"
| "from_rows M T (CrossProductRef l r) =
     rbind (from_rows M T l) (\<lambda>ls. rbind (from_rows M T r) (\<lambda>rs. Inr (concat (map (\<lambda>a. map (\<lambda>b. a @ b) rs) ls))))"
| "from_rows M T (JoinRef type l r condition) =
     rbind (from_rows M T l) (\<lambda>ls. rbind (from_rows M T r) (\<lambda>rs.
       join_rows (\<lambda>a b. satisfied M (expr_value M (bindings (header_of T l @ header_of T r) (a @ b)) condition))
         type (null_row M (map snd (header_of T r))) ls rs))"
| "from_rows M T (ExpressionListRef values identifier) = map_result (map_result (expr_value M Map.empty)) values"
| "from_rows M T (SubqueryRef q) = subquery_rows M T q"
| "from_rows M T (CTERef cte_name alias) = Inl Undefined"
| "from_rows M T InvalidTableRef = Inl Undefined"
| "from_rows M T EmptyTableRef = Inr [[]]"
| "subquery_rows M T (Subquery s names alias) = select_rows M T s"
| "select_rows M T (SelectStatement t items condition gs having lim off sorting ctes dist) =
     rbind (from_rows M T t) (\<lambda>rows.
     rbind (selected M (header_of T t) condition rows) (\<lambda>rows1.
     rbind (projected M (header_of T t) items rows1) (\<lambda>rows2. Inr (limited lim rows2))))"

end
