(* ===== verification/Planner_Proofs.thy ===== *)
theory Planner_Proofs
  imports Planner Query_Semantics Optimizer_Proofs
begin

section \<open>Planned expressions\<close>

text \<open>
  A planned expression, evaluated by position, has the value of the bound expression, evaluated by name. The proof
  is the same for the rows of one child, the pairs of rows of a join and the empty row of a value list, so it is
  done once for their interface: how a name is planned and what the expressions over the row evaluate to.
\<close>

subsection \<open>Aggregate calls and their results\<close>

text \<open>Each aggregate call of an expression, in order, replaced by a result; the results that are left.\<close>

fun with_results :: "'d bound_expr \<Rightarrow> 'd val list \<Rightarrow> 'd bound_expr \<times> 'd val list" where
  "with_results (BoundAggCall func_name is_distinct args) vs =
     (case vs of v # vs' \<Rightarrow> (BoundConstant v, vs') | [] \<Rightarrow> (BoundAggCall func_name is_distinct args, []))"
| "with_results (BoundBinaryOp op l r) vs =
     (let (l', vs1) = with_results l vs; (r', vs2) = with_results r vs1 in (BoundBinaryOp op l' r', vs2))"
| "with_results (BoundAlias alias e) vs = (let (e', vs1) = with_results e vs in (BoundAlias alias e', vs1))"
| "with_results e vs = (e, vs)"

fun with_all_results :: "'d bound_expr list \<Rightarrow> 'd val list \<Rightarrow> 'd bound_expr list \<times> 'd val list" where
  "with_all_results [] vs = ([], vs)"
| "with_all_results (e # es) vs =
     (let (e', vs1) = with_results e vs; (es', vs2) = with_all_results es vs1 in (e' # es', vs2))"

lemma with_results_none: "with_results e [] = (e, [])"
  by (induction e) auto

fun function_free :: "'d bound_expr \<Rightarrow> bool" where
  "function_free (BoundFuncCall func_name args) \<longleftrightarrow> False"
| "function_free (BoundBinaryOp op l r) \<longleftrightarrow> function_free l \<and> function_free r"
| "function_free (BoundAlias alias e) \<longleftrightarrow> function_free e"
| "function_free e \<longleftrightarrow> True"

text \<open>The equalities of a conjunction compare values whose hashes agree when they are equal.\<close>

fun equal_hashes :: "(string \<rightharpoonup> type_id) \<Rightarrow> 'd bound_expr \<Rightarrow> bool" where
  "equal_hashes sc (BoundBinaryOp op l r) \<longleftrightarrow>
     (if op \<in> {''and'', ''or''} then equal_hashes sc l \<and> equal_hashes sc r
      else if op \<in> {''='', ''==''} then (case (expr_type sc l, expr_type sc r) of (Some t, Some u) \<Rightarrow> same_hash_types t u | _ \<Rightarrow> False)
      else True)"
| "equal_hashes sc (BoundAlias alias e) \<longleftrightarrow> equal_hashes sc e"
| "equal_hashes sc e \<longleftrightarrow> True"

fun constant_value :: "'d bound_expr \<Rightarrow> 'd val option" where
  "constant_value (BoundConstant v) = Some v"
| "constant_value (BoundAlias alias e) = constant_value e"
| "constant_value e = None"

subsection \<open>The binary operators\<close>

lemma Column_fixed: "t \<noteq> VARCHAR \<Longrightarrow> t \<noteq> VECTOR \<Longrightarrow> t \<noteq> type_id.INVALID \<Longrightarrow> \<exists>c. Column name t = Inr c \<and> column_type c = t"
  by (cases t) (simp_all add: Column_def TypeSize_def)

lemma Value_GetColumn_ok: "GetTypeId v \<noteq> type_id.INVALID \<Longrightarrow> \<exists>c. Value_GetColumn v = Inr c \<and> column_type c = GetTypeId v"
  using Column_fixed [of "GetTypeId v"]
  by (cases v) (auto simp: Value_GetColumn_def GetStorageSize_def Column_varlen_def TypeSize_def split: option.splits)

text \<open>What the factory makes of two expressions.\<close>

definition made_of :: "'d expr \<Rightarrow> 'd expr \<Rightarrow> string \<Rightarrow> 'd expr \<Rightarrow> bool" where
  "made_of l r op x \<longleftrightarrow>
     (\<exists>ty. x = Arithmetic l r ty \<and> (ty = Plus \<and> op = ''+'' \<or> ty = Minus \<and> op = ''-'')) \<or>
     (\<exists>ty. x = Comparison l r ty \<and> compares op \<and> comparison_of op = Some ty) \<or>
     (\<exists>ty. x = Logic l r ty \<and> (ty = And \<and> op = ''and'' \<or> ty = Or \<and> op = ''or''))"

lemma comparison_of_compares: "comparison_of op \<noteq> None \<longleftrightarrow> compares op"
  by (auto simp: comparison_of_def compares_def)

lemma factory_makes: "GetBinaryExpressionFromFactory op l r = Inr (x, c) \<Longrightarrow> made_of (fst l) (fst r) op x"
  using comparison_of_compares [of op]
  by (auto simp: GetBinaryExpressionFromFactory_def with_result_column_def made_of_def ArithmeticExpression_def LogicExpression_def
      split: option.splits if_splits)

lemma binary_expression_ok:
  assumes "binary_type op (GetReturnType (fst l)) (GetReturnType (fst r)) = Some t"
  shows "\<exists>x c. GetBinaryExpressionFromFactory op l r = Inr (x, c) \<and> GetReturnType x = t \<and> column_type c = t"
proof (cases "comparison_of op")
  case None
  then have "\<not> compares op" using comparison_of_compares [of op] by simp
  with None assms Column_fixed [of INTEGER "''<val>''"] Column_fixed [of BOOLEAN "''<val>''"] show ?thesis
    by (auto simp: binary_type_def GetBinaryExpressionFromFactory_def with_result_column_def ArithmeticExpression_def
        LogicExpression_def split: if_splits)
next
  case (Some ty)
  then have "compares op" using comparison_of_compares [of op] by simp
  with Some assms Column_fixed [of BOOLEAN "''<val>''"] show ?thesis
    by (auto simp: binary_type_def GetBinaryExpressionFromFactory_def with_result_column_def)
qed

lemma comparison_of_value: "comparison_of op = Some ty \<Longrightarrow> PerformComparison M ty a b = comparison_value M op a b"
  by (auto simp: comparison_of_def comparison_value_def PerformComparison_def split: if_splits)

subsection \<open>The interface of a scope\<close>

text \<open>
  \<open>cs\<close> are the children an expression is planned over, \<open>sc\<close> the types of the names there, \<open>value_at\<close> and \<open>env\<close> what
  a planned expression evaluates to on a row and what the names are bound to there.
\<close>

locale expression_scope =
  fixes M :: "'d machine"
    and cs :: "'d plan_node list"
    and sc :: "string \<rightharpoonup> type_id"
    and well_typed :: "'d expr \<Rightarrow> bool"
    and value_at :: "'d expr \<Rightarrow> 'r \<Rightarrow> 'd val result"
    and env :: "'r \<Rightarrow> string \<rightharpoonup> 'd val"
    and valid :: "'r \<Rightarrow> bool"
  assumes name_value: "PlanColumnRef cs names = Inr (name, e, c) \<Longrightarrow> valid x \<Longrightarrow> value_at e x = expr_value M (env x) (BoundColumnRef names)"
    and name_planned: "sc (dotted names) = Some t \<Longrightarrow> \<exists>name i j c. PlanColumnRef cs names = Inr (name, ColumnValue i j t, c) \<and> column_type c = t \<and>
        well_typed (ColumnValue i j t)"
    and well_typed_parts: "well_typed (ConstantValue v)"
      "well_typed (Arithmetic l r aop) \<longleftrightarrow> well_typed l \<and> well_typed r"
      "well_typed (Comparison l r cop) \<longleftrightarrow> well_typed l \<and> well_typed r"
      "well_typed (Logic l r lop) \<longleftrightarrow> well_typed l \<and> well_typed r"
    and value_parts: "value_at (ConstantValue v) x = Inr v"
      "value_at (Arithmetic l r aop) x = rbind (value_at l x) (\<lambda>a. rbind (value_at r x) (\<lambda>b. arithmetic_value M aop a b))"
      "value_at (Comparison l r cop) x = rbind (value_at l x) (\<lambda>a. rbind (value_at r x) (\<lambda>b. rbind (PerformComparison M cop a b) GetBooleanOfCmp))"
      "value_at (Logic l r lop) x = rbind (value_at l x) (\<lambda>a. rbind (value_at r x) (\<lambda>b. GetBooleanOfCmp (LogicExpression_PerformComputation M lop a b)))"
begin

lemma made_of_value:
  assumes "made_of l r op x" "value_at l y = a" "value_at r y = b"
  shows "value_at x y = rbind a (\<lambda>u. rbind b (\<lambda>v. binary_value M op u v))"
  using assms by (auto simp: made_of_def value_parts binary_value_def compares_def comparison_of_value)

lemma made_of_typed: "made_of l r op x \<Longrightarrow> well_typed l \<Longrightarrow> well_typed r \<Longrightarrow> well_typed x"
  by (auto simp: made_of_def well_typed_parts)

text \<open>The expressions that stand for the aggregate calls evaluate to their results.\<close>

definition results_at :: "'d planner_context \<Rightarrow> 'r \<Rightarrow> 'd val list \<Rightarrow> bool" where
  "results_at ctx y vs \<longleftrightarrow> list_all2 (\<lambda>(x, c) v. value_at x y = Inr v) (expr_in_agg ctx) vs"

lemma results_at_next [simp]: "results_at (ctx\<lparr>next_aggregation := n\<rparr>) y vs = results_at ctx y vs"
  by (simp add: results_at_def)

lemma results_atD: "results_at ctx y vs \<Longrightarrow> i < length (expr_in_agg ctx) \<Longrightarrow> i < length vs \<and> value_at (fst (expr_in_agg ctx ! i)) y = Inr (vs ! i)"
  by (auto simp: results_at_def list_all2_conv_all_nth split_beta)

definition value_planned :: "'d bound_expr \<Rightarrow> 'd expr \<Rightarrow> 'd planner_context \<Rightarrow> 'd planner_context \<Rightarrow> 'r \<Rightarrow> 'd val list \<Rightarrow> bool" where
  "value_planned e x ctx ctx' y vs \<longleftrightarrow>
     (\<exists>e'. with_results e (drop (next_aggregation ctx) vs) = (e', drop (next_aggregation ctx') vs) \<and> value_at x y = expr_value M (env y) e') \<and>
     results_at ctx' y vs"

lemma planned_value:
  "PlanExpression mk_array cs e ctx = Inr ((name, x, c), ctx') \<Longrightarrow> function_free e \<Longrightarrow> valid y \<Longrightarrow> results_at ctx y vs \<Longrightarrow>
   value_planned e x ctx ctx' y vs"
proof (induction e arbitrary: ctx ctx' name x c)
  case (BoundAggCall func_name is_distinct args)
  then have "next_aggregation ctx < length (expr_in_agg ctx)" "(x, c) = expr_in_agg ctx ! next_aggregation ctx"
    "ctx' = ctx\<lparr>next_aggregation := next_aggregation ctx + 1\<rparr>" by (auto split: if_splits)
  with results_atD [OF BoundAggCall.prems(4), of "next_aggregation ctx"] BoundAggCall.prems(4) show ?case
    by (auto simp: value_planned_def Cons_nth_drop_Suc [symmetric] dest: sym [of "(x, c)"])
next
  case (BoundColumnRef names)
  then show ?case using name_value [of names] by (auto simp: value_planned_def)
next
  case (BoundConstant v)
  then show ?case by (auto simp: value_planned_def ConstantValueExpression_def value_parts)
next
  case (BoundAlias nm e)
  then obtain n where "PlanExpression mk_array cs e ctx = Inr ((n, x, c), ctx')" by auto
  from BoundAlias.IH [OF this] BoundAlias.prems show ?case by (fastforce simp: value_planned_def)
next
  case (BoundBinaryOp op l r)
  obtain n1 xl cl ctx1 n2 xr cr where
    p: "PlanExpression mk_array cs l ctx = Inr ((n1, xl, cl), ctx1)" "PlanExpression mk_array cs r ctx1 = Inr ((n2, xr, cr), ctx')"
      "GetBinaryExpressionFromFactory op (xl, cl) (xr, cr) = Inr (x, c)"
    using BoundBinaryOp.prems(1) by fastforce
  have l: "value_planned l xl ctx ctx1 y vs" using BoundBinaryOp.IH(1) [OF p(1)] BoundBinaryOp.prems by simp
  then have r: "value_planned r xr ctx1 ctx' y vs"
    using BoundBinaryOp.IH(2) [OF p(2)] BoundBinaryOp.prems by (simp add: value_planned_def)
  from l r made_of_value [OF factory_makes [OF p(3), simplified]] show ?case by (fastforce simp: value_planned_def)
next
  case (BoundFuncCall func_name args)
  then show ?case by (auto simp: GetFuncCallFromFactory_def)
qed (auto)

subsubsection \<open>Well-typed expressions\<close>

definition planned_as :: "('d typed_expr list \<Rightarrow> 'd typed_expr result) \<Rightarrow> 'd bound_expr \<Rightarrow> type_id \<Rightarrow> string \<Rightarrow> 'd expr \<Rightarrow> column \<Rightarrow> bool" where
  "planned_as mk_array e t name x c \<longleftrightarrow>
     (\<forall>ctx. PlanExpression mk_array cs e ctx = Inr ((name, x, c), ctx)) \<and> GetReturnType x = t \<and> column_type c = t \<and> well_typed x \<and>
     (equal_hashes sc e \<longrightarrow> hashable x) \<and> (\<forall>v. x = ConstantValue v \<longrightarrow> constant_value e = Some v)"

lemma planned_value_typed:
  assumes "planned_as mk_array e t name x c" "function_free e" "valid y"
  shows "value_at x y = expr_value M (env y) e"
proof -
  have "PlanExpression mk_array cs e PlannerContext = Inr ((name, x, c), PlannerContext)" using assms(1) by (simp add: planned_as_def)
  from planned_value [OF this assms(2,3), of "[]"] show ?thesis
    by (simp add: results_at_def value_planned_def PlannerContext_def with_results_none)
qed

lemma typed_function_free: "expr_type sc e = Some t \<Longrightarrow> function_free e"
  by (induction e arbitrary: t) (auto split: option.splits)

lemma made_of_hashable:
  assumes "made_of xl xr op x" "GetReturnType xl = lty" "GetReturnType xr = rty" "expr_type sc l = Some lty" "expr_type sc r = Some rty"
    and "equal_hashes sc l \<longrightarrow> hashable xl" "equal_hashes sc r \<longrightarrow> hashable xr" "equal_hashes sc (BoundBinaryOp op l r)"
  shows "hashable x"
proof -
  have "hashable x" if x: "x = Comparison xl xr ty" "comparison_of op = Some ty" for ty
  proof (cases "ty = Equal")
    case True
    then have "op = ''='' \<or> op = ''==''" using x(2) by (simp add: comparison_of_def split: if_split_asm)
    then show ?thesis using assms(2-5,8) x(1) by (elim disjE) simp_all
  qed (use x in simp)
  moreover have "hashable x" if "x = Logic xl xr ty" "op = ''and'' \<or> op = ''or''" for ty
    using that assms(6-8) by auto
  ultimately show ?thesis using assms(1) unfolding made_of_def by force
qed

lemma binary_planned:
  assumes l: "planned_as mk_array l lty n1 xl cl" "expr_type sc l = Some lty"
    and r: "planned_as mk_array r rty n2 xr cr" "expr_type sc r = Some rty"
    and t: "binary_type op lty rty = Some t"
  shows "\<exists>x c. planned_as mk_array (BoundBinaryOp op l r) t UNNAMED_COLUMN x c"
proof -
  have types: "GetReturnType xl = lty" "GetReturnType xr = rty" using l(1) r(1) by (simp_all add: planned_as_def)
  obtain x c where f: "GetBinaryExpressionFromFactory op (xl, cl) (xr, cr) = Inr (x, c)" "GetReturnType x = t" "column_type c = t"
    using binary_expression_ok [of op "(xl, cl)" "(xr, cr)" t] t types by auto
  have made: "made_of xl xr op x" using factory_makes [OF f(1)] by simp
  have "PlanExpression mk_array cs (BoundBinaryOp op l r) ctx = Inr ((UNNAMED_COLUMN, x, c), ctx)" for ctx
    using l(1) r(1) f(1) by (simp add: planned_as_def)
  moreover have "well_typed x" using made_of_typed [OF made] l(1) r(1) by (simp add: planned_as_def)
  moreover have "equal_hashes sc (BoundBinaryOp op l r) \<longrightarrow> hashable x"
    using made_of_hashable [OF made types l(2) r(2)] l(1) r(1) by (auto simp: planned_as_def)
  moreover have "x \<noteq> ConstantValue v" for v using made by (auto simp: made_of_def)
  ultimately show ?thesis using f(2,3) unfolding planned_as_def by blast
qed

lemma typed_planned: "expr_type sc e = Some t \<Longrightarrow> \<exists>name x c. planned_as mk_array e t name x c"
proof (induction e arbitrary: t)
  case (BoundConstant v)
  then have v: "GetTypeId v \<noteq> type_id.INVALID" "t = GetTypeId v" by (auto split: if_splits)
  from Value_GetColumn_ok [OF v(1)] v(2) show ?case
    by (auto simp: planned_as_def ConstantValueExpression_def well_typed_parts)
next
  case (BoundColumnRef names)
  then obtain name i j c where p: "PlanColumnRef cs names = Inr (name, ColumnValue i j t, c)" "column_type c = t" "well_typed (ColumnValue i j t)"
    using name_planned [of names t] by auto
  then have "planned_as mk_array (BoundColumnRef names) t name (ColumnValue i j t) c" by (simp add: planned_as_def)
  then show ?case by blast
next
  case (BoundAlias nm e)
  then obtain name x c where "planned_as mk_array e t name x c" by auto
  then have "planned_as mk_array (BoundAlias nm e) t nm x c" by (simp add: planned_as_def)
  then show ?case by blast
next
  case (BoundBinaryOp op l r)
  then obtain lty rty where t: "expr_type sc l = Some lty" "expr_type sc r = Some rty" "binary_type op lty rty = Some t"
    by (auto split: option.splits)
  with BoundBinaryOp.IH binary_planned [of mk_array l lty _ _ _ r rty] show ?case by blast
qed auto

definition all_planned_as :: "('d typed_expr list \<Rightarrow> 'd typed_expr result) \<Rightarrow> 'd bound_expr list \<Rightarrow> type_id list \<Rightarrow> (string \<times> 'd typed_expr) list \<Rightarrow> bool" where
  "all_planned_as mk_array es ts ps \<longleftrightarrow>
     (\<forall>ctx. PlanExpressions mk_array cs es ctx = Inr (ps, ctx)) \<and> map (\<lambda>(_, x, _). GetReturnType x) ps = ts \<and>
     map (\<lambda>(_, _, c). column_type c) ps = ts \<and> list_all (\<lambda>(_, x, _). well_typed x) ps \<and>
     (\<forall>y. valid y \<longrightarrow> map_result (\<lambda>(_, x, _). value_at x y) ps = map_result (expr_value M (env y)) es)"

lemma all_typed_planned: "expr_types sc es = Some ts \<Longrightarrow> \<exists>ps. all_planned_as mk_array es ts ps"
proof (induction es arbitrary: ts)
  case Nil
  then show ?case by (simp add: all_planned_as_def)
next
  case (Cons e es)
  then obtain t ts' where t: "expr_type sc e = Some t" "expr_types sc es = Some ts'" "ts = t # ts'" by (auto split: option.splits)
  obtain name x c where x: "planned_as mk_array e t name x c" using typed_planned [OF t(1)] by blast
  obtain ps where ps: "all_planned_as mk_array es ts' ps" using Cons.IH [OF t(2)] by blast
  have "all_planned_as mk_array (e # es) ts ((name, x, c) # ps)"
    using x ps planned_value_typed [OF x typed_function_free [OF t(1)]] t(3) by (simp add: all_planned_as_def planned_as_def)
  then show ?case by blast
qed

text \<open>A planned list of expressions, aggregate calls included.\<close>

lemma all_planned_value:
  "PlanExpressions mk_array cs es ctx = Inr (ps, ctx') \<Longrightarrow> list_all function_free es \<Longrightarrow> valid y \<Longrightarrow> results_at ctx y vs \<Longrightarrow>
   map_result (\<lambda>(_, x, _). value_at x y) ps = map_result (expr_value M (env y)) (fst (with_all_results es (drop (next_aggregation ctx) vs)))"
proof (induction es arbitrary: ctx ps)
  case (Cons e es)
  obtain name x c ctx1 ps' where p: "PlanExpression mk_array cs e ctx = Inr ((name, x, c), ctx1)" "PlanExpressions mk_array cs es ctx1 = Inr (ps', ctx')"
    "ps = (name, x, c) # ps'"
    using Cons.prems(1) by fastforce
  have "value_planned e x ctx ctx1 y vs" using planned_value [OF p(1)] Cons.prems by simp
  with Cons.IH [OF p(2)] Cons.prems p(3) show ?case by (auto simp: value_planned_def split_beta Let_def)
qed simp

end

subsection \<open>The scopes of the planner\<close>

definition node_header :: "'d plan_node \<Rightarrow> header" where
  "node_header p = map (\<lambda>c. (column_name c, column_type c)) (columns (output_schema p))"

lemma node_header_simps [simp]:
  "map snd (node_header p) = types p" "map fst (node_header p) = map column_name (columns (output_schema p))"
  "length (node_header p) = length (columns (output_schema p))"
  by (simp_all add: node_header_def types_def)

lemma find_column_row:
  "length row = length cs \<Longrightarrow> map_of (zip (map column_name cs) row) name = map_option (\<lambda>j. row ! (j - i)) (find_column name i cs)"
proof (induction cs arbitrary: row i)
  case (Cons c cs)
  then obtain v row' where row: "row = v # row'" "length row' = length cs" by (cases row) auto
  have later: "Suc i \<le> j" if "find_column name (Suc i) cs = Some j" for j cs
    using that by (induction cs arbitrary: i) (auto split: if_splits, fastforce)
  then have "j - i = Suc (j - Suc i)" if "find_column name (Suc i) cs = Some j" for j using that by fastforce
  then show ?case using Cons.IH [OF row(2), of "Suc i"] row(1) by (auto intro!: option.map_cong)
qed simp

lemma find_column_bound: "find_column name i cs = Some j \<Longrightarrow> i \<le> j \<and> j < i + length cs"
  by (induction cs arbitrary: i) (auto split: if_splits, fastforce+)

lemma column_row:
  "length row = length (columns s) \<Longrightarrow> map_of (zip (map column_name (columns s)) row) name = map_option (\<lambda>j. row ! j) (TryGetColIdx name s)"
  using find_column_row [of row "columns s" name 0] by (simp add: TryGetColIdx_def)

lemma column_header: "map_of (node_header p) name = map_option (\<lambda>j. types p ! j) (TryGetColIdx name (output_schema p))"
proof -
  have "node_header p = zip (map column_name (columns (output_schema p))) (types p)"
    by (simp add: node_header_def types_def zip_map_map zip_same_conv_map)
  then show ?thesis by (simp add: column_row types_def)
qed

lemma TryGetColIdx_bound: "TryGetColIdx name s = Some j \<Longrightarrow> j < length (columns s)"
  using find_column_bound [of name 0 "columns s" j] by (simp add: TryGetColIdx_def)

lemma planned_column:
  "TryGetColIdx name (output_schema p) = Some j \<Longrightarrow> GetColumn (output_schema p) j = Inr (columns (output_schema p) ! j)"
  "TryGetColIdx name (output_schema p) = Some j \<Longrightarrow> column_type (columns (output_schema p) ! j) = types p ! j"
  "TryGetColIdx name (output_schema p) = Some j \<Longrightarrow> j < length (types p)"
  using TryGetColIdx_bound [of name "output_schema p" j] by (simp_all add: GetColumn_def types_def)

lemma header_count:
  "length (filter (\<lambda>c. fst c = name) (node_header p)) = length (filter (\<lambda>c. column_name c = name) (columns (output_schema p)))"
  by (simp add: node_header_def filter_map comp_def)

interpretation one_child: expression_scope M "[p]" "scope (node_header p)" "typed (types p)" "Evaluate M" "bindings (node_header p)"
    "\<lambda>row. length row = length (columns (output_schema p))" for M p
proof unfold_locales
  fix names name e c and x :: "'a row"
  assume "PlanColumnRef [p] names = Inr (name, e, c)" "length x = length (columns (output_schema p))"
  then show "Evaluate M e x = expr_value M (bindings (node_header p) x) (BoundColumnRef names)"
    using TryGetColIdx_bound
    by (auto simp: PlanColumnRef_def Let_def ColumnRef_ToString_def GetColIdx_def ColumnValueExpression_def bindings_def column_row planned_column
        split: if_splits option.splits)
next
  fix names t
  assume "scope (node_header p) (dotted names) = Some t"
  then show "\<exists>name i j c. PlanColumnRef [p] names = Inr (name, ColumnValue i j t, c) \<and> column_type c = t \<and> typed (types p) (ColumnValue i j t)"
    by (auto simp: scope_def header_count column_header PlanColumnRef_def ColumnRef_ToString_def GetColIdx_def ColumnValueExpression_def
        planned_column split: if_splits)
qed simp_all

interpretation two_children: expression_scope M "[l, r]" "join_scope (node_header l) (node_header r)" "typed_join (types l) (types r)"
    "\<lambda>e (a, b). EvaluateJoin M e a b" "\<lambda>(a, b). bindings (node_header l @ node_header r) (a @ b)"
    "\<lambda>(a, b). length a = length (columns (output_schema l)) \<and> length b = length (columns (output_schema r))" for M l r
proof unfold_locales
  fix names name e c and x :: "'a row \<times> 'a row"
  assume p: "PlanColumnRef [l, r] names = Inr (name, e, c)"
    and len: "case x of (a, b) \<Rightarrow> length a = length (columns (output_schema l)) \<and> length b = length (columns (output_schema r))"
  obtain a b where x: "x = (a, b)" by fastforce
  have env: "bindings (node_header l @ node_header r) (a @ b) = bindings (node_header r) b ++ bindings (node_header l) a"
    using len x by (simp add: bindings_def)
  show "(case x of (a, b) \<Rightarrow> EvaluateJoin M e a b) = expr_value M (case x of (a, b) \<Rightarrow> bindings (node_header l @ node_header r) (a @ b)) (BoundColumnRef names)"
    using p len x TryGetColIdx_bound
    by (auto simp: PlanColumnRef_def Let_def ColumnRef_ToString_def ColumnValueExpression_def env bindings_def column_row planned_column map_add_def
        split: if_splits option.splits)
next
  fix names t
  assume "join_scope (node_header l) (node_header r) (dotted names) = Some t"
  then show "\<exists>name i j c. PlanColumnRef [l, r] names = Inr (name, ColumnValue i j t, c) \<and> column_type c = t \<and>
      typed_join (types l) (types r) (ColumnValue i j t)"
    by (auto simp: join_scope_def column_header PlanColumnRef_def ColumnRef_ToString_def ColumnValueExpression_def
        planned_column split: option.splits)
qed auto

interpretation no_child: expression_scope M "[]" Map.empty "typed []" "\<lambda>e (_ :: unit). Evaluate M e []" "\<lambda>_. Map.empty" "\<lambda>_. True" for M
  by unfold_locales (simp_all add: PlanColumnRef_def)

end
