(* ===== verification/Planner_Correct.thy ===== *)
theory Planner_Correct
  imports Planner_Proofs
begin

section \<open>Planned queries\<close>

text \<open>
  The operations of the planner, one by one: each makes a plan node whose rows are those the query means. The
  induction over the fuel composes them.
\<close>

lemma map_result_map: "map_result f (map g xs) = map_result (\<lambda>x. f (g x)) xs"
  by (induction xs) auto

subsection \<open>Expressions over a node, over a join, and without rows\<close>

text \<open>A predicate the optimizer may move into a join: its equalities are hashable, and a constant one is not null.\<close>

definition predicate_ok :: "'d machine \<Rightarrow> (string \<rightharpoonup> type_id) \<Rightarrow> 'd bound_expr \<Rightarrow> bool" where
  "predicate_ok M sc e \<longleftrightarrow> equal_hashes sc e \<and>
     (case constant_value e of Some v \<Rightarrow> GetTypeId v = BOOLEAN \<and> \<not> IsNull M v | None \<Rightarrow> True)"

lemma planned_over:
  assumes "expr_type (scope (node_header p)) e = Some t"
  obtains name x c where "\<And>ctx. PlanExpression mk_array [p] e ctx = Inr ((name, x, c), ctx)" "GetReturnType x = t" "typed (types p) x"
    "predicate_ok M (scope (node_header p)) e \<Longrightarrow> hashable x \<and> constant_ok M x"
    "\<And>row. length row = length (types p) \<Longrightarrow> Evaluate M x row = expr_value M (bindings (node_header p) row) e"
proof -
  obtain name x c where x: "expression_scope.planned_as [p] (scope (node_header p)) (typed (types p)) mk_array e t name x c"
    using one_child.typed_planned [OF assms] by blast
  have val: "Evaluate M x row = expr_value M (bindings (node_header p) row) e" if "length row = length (types p)" for row
    using one_child.planned_value_typed [OF x one_child.typed_function_free [OF assms], of row M] that by (simp add: types_def)
  show ?thesis
    by (rule that [OF _ _ _ _ val])
      (use x in \<open>auto simp: one_child.planned_as_def predicate_ok_def constant_ok_def split: expr.splits option.splits\<close>)
qed

lemma planned_over_all:
  assumes "expr_types (scope (node_header p)) es = Some ts"
  obtains ps where "\<And>ctx. PlanExpressions mk_array [p] es ctx = Inr (ps, ctx)" "map GetReturnType (map (\<lambda>(_, x, _). x) ps) = ts"
    "map column_type (map (\<lambda>(_, _, c). c) ps) = ts" "list_all (typed (types p)) (map (\<lambda>(_, x, _). x) ps)"
    "\<And>row. length row = length (types p) \<Longrightarrow>
      map_result (\<lambda>x. Evaluate M x row) (map (\<lambda>(_, x, _). x) ps) = map_result (expr_value M (bindings (node_header p) row)) es"
proof -
  obtain ps where ps: "expression_scope.all_planned_as M [p] (typed (types p)) (Evaluate M) (bindings (node_header p))
      (\<lambda>row. length row = length (columns (output_schema p))) mk_array es ts ps"
    using one_child.all_typed_planned [OF assms] by blast
  show ?thesis
  proof (rule that)
    show "PlanExpressions mk_array [p] es ctx = Inr (ps, ctx)" for ctx using ps by (simp add: one_child.all_planned_as_def)
    show "map GetReturnType (map (\<lambda>(_, x, _). x) ps) = ts" "map column_type (map (\<lambda>(_, _, c). c) ps) = ts"
      "list_all (typed (types p)) (map (\<lambda>(_, x, _). x) ps)"
      using ps by (auto simp: one_child.all_planned_as_def list_all_iff split_beta comp_def)
    fix row :: "'a row" assume "length row = length (types p)"
    then show "map_result (\<lambda>x. Evaluate M x row) (map (\<lambda>(_, x, _). x) ps) = map_result (expr_value M (bindings (node_header p) row)) es"
      using ps unfolding one_child.all_planned_as_def by (simp add: types_def map_result_map case_prod_unfold)
  qed
qed

lemma planned_join:
  assumes "expr_type (join_scope (node_header l) (node_header r)) e = Some t"
  obtains name x c where "\<And>ctx. PlanExpression mk_array [l, r] e ctx = Inr ((name, x, c), ctx)" "GetReturnType x = t"
    "typed_join (types l) (types r) x"
    "predicate_ok M (join_scope (node_header l) (node_header r)) e \<Longrightarrow> hashable x \<and> constant_ok M x"
    "is_constant x \<Longrightarrow> constant_value e \<noteq> None"
    "\<And>a b. length a = length (types l) \<Longrightarrow> length b = length (types r) \<Longrightarrow>
      EvaluateJoin M x a b = expr_value M (bindings (node_header l @ node_header r) (a @ b)) e"
proof -
  obtain name x c where x: "expression_scope.planned_as [l, r] (join_scope (node_header l) (node_header r)) (typed_join (types l) (types r))
      mk_array e t name x c"
    using two_children.typed_planned [OF assms] by blast
  have val: "EvaluateJoin M x a b = expr_value M (bindings (node_header l @ node_header r) (a @ b)) e"
    if "length a = length (types l)" "length b = length (types r)" for a b
    using two_children.planned_value_typed [OF x two_children.typed_function_free [OF assms], of "(a, b)" M] that by (simp add: types_def)
  show ?thesis
    by (rule that [OF _ _ _ _ _ val])
      (use x in \<open>auto simp: two_children.planned_as_def predicate_ok_def constant_ok_def is_constant_def split: expr.splits option.splits\<close>)
qed

lemma planned_value_row:
  assumes "expr_types Map.empty es = Some ts"
  obtains ps where "\<And>ctx. PlanExpressions mk_array [] es ctx = Inr (ps, ctx)" "map GetReturnType (map fst (map snd ps)) = ts"
    "map column_type (map snd (map snd ps)) = ts" "list_all (typed []) (map fst (map snd ps))"
    "map_result (\<lambda>x. Evaluate M x []) (map fst (map snd ps)) = map_result (expr_value M Map.empty) es"
proof -
  obtain ps where ps: "expression_scope.all_planned_as M [] (typed []) (\<lambda>e (_ :: unit). Evaluate M e []) (\<lambda>_. Map.empty) (\<lambda>_. True)
      mk_array es ts ps"
    using no_child.all_typed_planned [OF assms] by blast
  show ?thesis
    by (rule that [of ps]) (use ps in \<open>auto simp: no_child.all_planned_as_def list_all_iff case_prod_unfold comp_def map_result_map\<close>)
qed

subsection \<open>Nodes that mean a query\<close>

text \<open>\<open>p\<close> has columns of the types \<open>ts\<close> and returns \<open>rows\<close>; where \<open>ok\<close> holds it is well formed for the optimizer.\<close>

definition realizes :: "'d machine \<Rightarrow> 'd database \<Rightarrow> nat set \<Rightarrow> bool \<Rightarrow> 'd plan_node \<Rightarrow> type_id list \<Rightarrow> 'd row list result \<Rightarrow> bool" where
  "realizes M db known ok p ts rows \<longleftrightarrow>
     types p = ts \<and> plan_rows M db p = rows \<and> (\<forall>rs. rows = Inr rs \<longrightarrow> rows_typed ts rs) \<and> (ok \<longrightarrow> plan_ok M db known p)"

lemma realizesD:
  assumes "realizes M db known ok p ts rows"
  shows "types p = ts" "plan_rows M db p = rows" "rows = Inr rs \<Longrightarrow> rows_typed ts rs" "ok \<Longrightarrow> plan_ok M db known p"
  using assms by (simp_all add: realizes_def)

lemma rows_typed_length: "rows_typed ts rows \<Longrightarrow> row \<in> set rows \<Longrightarrow> length row = length ts"
  by (auto dest!: rows_typedD)

lemma add_columns_header:
  "map (\<lambda>c. (column_name c, column_type c)) (columns (add_columns cs i off s)) =
     map (\<lambda>c. (column_name c, column_type c)) (columns s) @ map (\<lambda>c. (column_name c, column_type c)) cs"
  by (induction cs arbitrary: i off s) (auto simp: Let_def)

lemma node_header_Schema: "node_header (PlanNode k (Schema cs) ps) = map (\<lambda>c. (column_name c, column_type c)) cs"
  by (simp add: node_header_def Schema_def add_columns_header)

lemma node_header_PlanNode: "node_header (PlanNode k (output_schema p) ps) = node_header p"
  by (simp add: node_header_def)

lemma types_PlanNode: "types (PlanNode k (output_schema p) ps) = types p"
  by (simp add: types_def)

lemma types_Schema: "types (PlanNode k (Schema cs) ps) = map column_type cs"
proof -
  have "types (PlanNode k (Schema cs) ps) = map snd (node_header (PlanNode k (Schema cs) ps))" by simp
  then show ?thesis unfolding node_header_Schema by (simp add: comp_def)
qed

lemma column_count: "GetColumnCount (Schema cs) = length cs"
  using arg_cong [OF types_Schema [of undefined cs "[]"], of length] by (simp add: types_def GetColumnCount_def)

lemma rename_types:
  assumes "length names = length cs"
  shows "\<exists>s. RenameSchema (Schema cs) names = Inr s \<and> map column_type (columns s) = map column_type cs \<and>
    map column_name (columns s) = names"
proof -
  have old: "map column_type (columns (Schema cs)) = map column_type cs"
    using types_Schema [of undefined cs "[]"] by (simp add: types_def)
  then have len: "length names = length (columns (Schema cs))" using assms by (metis length_map)
  let ?cs = "map2 renamed names (columns (Schema cs))"
  have s: "RenameSchema (Schema cs) names = Inr (Schema ?cs)" using assms by (simp add: RenameSchema_def column_count)
  have "map (\<lambda>c. (column_name c, column_type c)) (columns (Schema ?cs)) = map (\<lambda>c. (column_name c, column_type c)) ?cs"
    using node_header_Schema [of undefined ?cs "[]"] by (simp add: node_header_def)
  also have "\<dots> = zip names (map column_type (columns (Schema cs)))"
    using len by (intro nth_equalityI) (simp_all add: renamed_def)
  finally have z: "map (\<lambda>c. (column_name c, column_type c)) (columns (Schema ?cs)) = zip names (map column_type cs)" using old by simp
  have "map column_type (columns (Schema ?cs)) = map column_type cs"
    using arg_cong [OF z, of "map snd"] assms by (simp add: comp_def)
  moreover have "map column_name (columns (Schema ?cs)) = names"
    using arg_cong [OF z, of "map fst"] assms by (simp add: comp_def)
  ultimately show ?thesis using s by blast
qed

subsubsection \<open>The clauses\<close>

definition where_optimizable :: "'d machine \<Rightarrow> header \<Rightarrow> 'd bound_expr \<Rightarrow> bool" where
  "where_optimizable M h e \<longleftrightarrow> IsInvalid e \<or> predicate_ok M (scope h) e"

lemma plan_where_correct:
  assumes "where_ok (node_header p) (st_where s)" "realizes M db known ok p ts rows"
  shows "\<exists>q. (\<forall>ctx. plan_where mk_array s p ctx = Inr (q, ctx)) \<and> node_header q = node_header p \<and>
    realizes M db known (ok \<and> where_optimizable M (node_header p) (st_where s)) q ts (rbind rows (selected M (node_header p) (st_where s)))"
proof (cases "IsInvalid (st_where s)")
  case True
  then have "selected M (node_header p) (st_where s) = Inr" by (simp add: selected_def fun_eq_iff)
  moreover have "rbind rows Inr = rows" by (cases rows) simp_all
  ultimately show ?thesis using True assms(2) by (auto simp: plan_where_def realizes_def where_optimizable_def)
next
  case False
  note r = realizesD [OF assms(2)]
  have "expr_type (scope (node_header p)) (st_where s) = Some BOOLEAN" using False assms(1) by (simp add: where_ok_def)
  then obtain name x c where x: "\<And>ctx. PlanExpression mk_array [p] (st_where s) ctx = Inr ((name, x, c), ctx)" "typed (types p) x"
    "predicate_ok M (scope (node_header p)) (st_where s) \<Longrightarrow> hashable x \<and> constant_ok M x"
    "\<And>row. length row = length (types p) \<Longrightarrow> Evaluate M x row = expr_value M (bindings (node_header p) row) (st_where s)"
    by (rule planned_over [where M = M and mk_array = mk_array]) metis
  let ?q = "PlanNode (FilterPlan x) (output_schema p) [p]"
  have rows: "plan_rows M db ?q = rbind rows (selected M (node_header p) (st_where s))"
  proof (cases rows)
    case (Inr rs)
    have "keep (\<lambda>row. satisfied M (Evaluate M x row)) rs = keep (\<lambda>row. satisfied M (expr_value M (bindings (node_header p) row) (st_where s))) rs"
      using x(4) rows_typed_length [OF r(3) [OF Inr]] r(1) by (intro keep_cong) simp
    then show ?thesis using Inr r(2) False by (simp add: node_rows_def selected_def)
  qed (simp add: r(2))
  have typed_rows: "rows_typed ts rs" if "rbind rows (selected M (node_header p) (st_where s)) = Inr rs" for rs
    using that r(3) False by (auto simp: selected_def intro: keep_typed)
  have "realizes M db known (ok \<and> where_optimizable M (node_header p) (st_where s)) ?q ts (rbind rows (selected M (node_header p) (st_where s)))"
    unfolding realizes_def
  proof (intro conjI allI impI)
    show "plan_ok M db known ?q" if "ok \<and> where_optimizable M (node_header p) (st_where s)"
      using that r(1,4) x(2,3) False by (simp add: node_ok_def where_optimizable_def types_def)
  qed (use r(1) rows typed_rows in \<open>auto simp: types_PlanNode simp del: plan_rows.simps\<close>)
  moreover have "\<forall>ctx. plan_where mk_array s p ctx = Inr (?q, ctx)" using x(1) False by (simp add: plan_where_def)
  ultimately show ?thesis using node_header_PlanNode [of "FilterPlan x" p "[p]"] by blast
qed

lemma name_columns_exprs: "map snd (fst (name_columns cols n)) = map snd cols"
  by (induction cols n rule: name_columns.induct) (auto split: prod.splits)

lemma map_result_cong': "(\<And>x. x \<in> set xs \<Longrightarrow> f x = g x) \<Longrightarrow> map_result f xs = map_result g xs"
  by (rule map_result_cong) simp_all

text \<open>A projection over a node that realizes \<open>rows\<close>.\<close>

lemma projection_realizes:
  assumes "realizes M db known ok p tp rows" "list_all (typed tp) xs" "map GetReturnType xs = ts" "map column_type (columns s) = ts"
  shows "realizes M db known ok (PlanNode (Projection xs) s [p]) ts (rbind rows (map_result (\<lambda>row. map_result (\<lambda>x. Evaluate M x row) xs)))"
proof -
  note r = realizesD [OF assms(1)]
  have "rows_typed ts rs" if "rbind rows (map_result (\<lambda>row. map_result (\<lambda>x. Evaluate M x row) xs)) = Inr rs" for rs
    using that projection_typed [OF _ assms(2)] r(3) assms(3) by fastforce
  moreover have "plan_ok M db known (PlanNode (Projection xs) s [p])" if ok
    using r(1) r(4) [OF that] assms(2-4) by (auto simp: node_ok_def types_def)
  ultimately show ?thesis using r(2) assms(4) by (cases rows) (auto simp: realizes_def types_def node_rows_def)
qed

lemma plan_projection_correct:
  assumes "expr_types (scope (node_header p)) (st_select_list s) = Some ts" "realizes M db known ok p tp rows"
  shows "\<exists>q n. plan_projection mk_array s p ctx uid = Inr (q, n) \<and>
    realizes M db known ok q ts (rbind rows (projected M (node_header p) (st_select_list s)))"
proof -
  note r = realizesD [OF assms(2)]
  obtain ps where ps: "\<And>ctx. PlanExpressions mk_array [p] (st_select_list s) ctx = Inr (ps, ctx)" "map GetReturnType (map (\<lambda>(_, x, _). x) ps) = ts"
    "map column_type (map (\<lambda>(_, _, c). c) ps) = ts" "list_all (typed (types p)) (map (\<lambda>(_, x, _). x) ps)"
    "\<And>row. length row = length (types p) \<Longrightarrow>
      map_result (\<lambda>x. Evaluate M x row) (map (\<lambda>(_, x, _). x) ps) = map_result (expr_value M (bindings (node_header p) row)) (st_select_list s)"
    by (rule planned_over_all [OF assms(1), where M = M and mk_array = mk_array]) metis
  obtain es n where es: "name_columns ps uid = (es, n)" by fastforce
  then have snd_es: "map snd es = map snd ps" using name_columns_exprs [of ps uid] by simp
  let ?cols = "map (\<lambda>(e, column). WithColumnName ''<unnamed>'' column) (map snd es)"
  obtain schema where sc: "RenameSchema (Schema ?cols) (map fst es) = Inr schema" "map column_type (columns schema) = map column_type ?cols"
    using rename_types [of "map fst es" ?cols] by auto
  have "map column_type ?cols = map column_type (map (\<lambda>(_, _, c). c) ps)"
    using snd_es by (simp add: case_prod_unfold WithColumnName_def comp_def flip: map_map [of snd snd])
  then have types: "map column_type (columns schema) = ts" using sc(2) ps(3) by simp
  have "map fst (map snd es) = map fst (map snd ps)" using snd_es by simp
  then have exprs: "map (\<lambda>(_, e, _). e) es = map (\<lambda>(_, x, _). x) ps" by (simp add: case_prod_unfold comp_def)
  let ?q = "PlanNode (Projection (map (\<lambda>(_, x, _). x) ps)) schema [p]"
  have "plan_projection mk_array s p ctx uid = Inr (?q, n)"
    using sc(1) by (simp add: plan_projection_def ps(1) es exprs InferProjectionSchema_def)
  moreover have "rbind rows (map_result (\<lambda>row. map_result (\<lambda>x. Evaluate M x row) (map (\<lambda>(_, x, _). x) ps))) =
      rbind rows (projected M (node_header p) (st_select_list s))"
  proof (cases rows)
    case (Inr rs)
    show ?thesis unfolding Inr rbind_simps projected_def
      by (rule map_result_cong') (use ps(5) rows_typed_length [OF r(3) [OF Inr]] r(1) in simp)
  qed simp
  ultimately show ?thesis using projection_realizes [OF assms(2) _ ps(2) types] ps(4) r(1) by metis
qed

lemma plan_limit_correct:
  assumes "limit_ok (st_limit_count s)" "IsInvalid (st_limit_offset s)" "realizes M db known ok p ts rows"
  shows "\<exists>q. plan_limit M s p = Inr q \<and> realizes M db known ok q ts (rbind rows (\<lambda>rs. Inr (limited (st_limit_count s) rs)))"
proof -
  note r = realizesD [OF assms(3)]
  have off: "limit_value M ''OFFSET'' (st_limit_offset s) = Inr None"
    using assms(2) by (simp add: limit_value_def IsInvalid_def split: bound_expr.splits)
  consider "st_limit_count s = InvalidExpr" | i where "st_limit_count s = BoundConstant (Integer i)" "0 \<le> i" "i < 2 ^ 31"
    using assms(1) by (auto simp: limit_ok_def split: bound_expr.splits val.splits)
  then show ?thesis
  proof cases
    case 1
    moreover have "rbind rows Inr = rows" by (cases rows) simp_all
    ultimately show ?thesis using off assms(3) by (simp add: plan_limit_def limited_def limit_value_def)
  next
    case 2
    have "cast 32 i = i" using 2(2,3) by (simp add: cast_def signed_take_bit_int_eq_self)
    moreover have "take_bit 64 i = i" using 2(2,3) by (simp add: take_bit_int_eq_self)
    ultimately have "limit_value M ''LIMIT'' (st_limit_count s) = Inr (Some (nat i))"
      using 2 by (simp add: limit_value_def Value_CastAs_def IntegerType_CastAs_def Value_int32_def)
    moreover have "rows_typed ts (take n rs)" if "rows_typed ts rs" for n rs
      using that set_take_subset [of n rs] by (auto simp: rows_typed_def)
    ultimately show ?thesis
      using 2(1) off r by (cases rows) (auto simp: plan_limit_def limited_def realizes_def types_PlanNode node_rows_def node_ok_def types_def)
  qed
qed

lemma typed_plain: "expr_type sc e = Some t \<Longrightarrow> HasAggregation e = Inr False \<and> \<not> HasWindowFunction e"
  by (induction e arbitrary: t) (auto split: option.splits)

lemma typed_select_kind: "expr_types sc es = Some ts \<Longrightarrow> select_kind es = Inr (False, False)"
  by (induction es arbitrary: ts) (auto split: option.splits dest: typed_plain)

text \<open>The clauses a well-typed statement has.\<close>

definition clauses_ok :: "header \<Rightarrow> 'd select \<Rightarrow> type_id list \<Rightarrow> bool" where
  "clauses_ok h s ts \<longleftrightarrow> where_ok h (st_where s) \<and> st_group_by s = [] \<and> IsInvalid (st_having s) \<and> limit_ok (st_limit_count s) \<and>
     IsInvalid (st_limit_offset s) \<and> st_sort s = [] \<and> st_ctes s = [] \<and> \<not> st_is_distinct s \<and> expr_types (scope h) (st_select_list s) = Some ts"

definition clause_rows :: "'d machine \<Rightarrow> header \<Rightarrow> 'd select \<Rightarrow> 'd row list \<Rightarrow> 'd row list result" where
  "clause_rows M h s rows =
     rbind (selected M h (st_where s) rows) (\<lambda>rows1. rbind (projected M h (st_select_list s) rows1) (\<lambda>rows2. Inr (limited (st_limit_count s) rows2)))"

lemma plan_clauses_correct:
  assumes "clauses_ok (node_header p) s ts" "realizes M db known ok p tp rows"
  shows "\<exists>q n. plan_clauses M mk_array s p ctx uid = Inr (q, s, n) \<and>
    realizes M db known (ok \<and> where_optimizable M (node_header p) (st_where s)) q ts (rbind rows (clause_rows M (node_header p) s))"
proof -
  have c: "where_ok (node_header p) (st_where s)" "st_group_by s = []" "IsInvalid (st_having s)" "limit_ok (st_limit_count s)"
    "IsInvalid (st_limit_offset s)" "st_sort s = []" "\<not> st_is_distinct s" "expr_types (scope (node_header p)) (st_select_list s) = Some ts"
    using assms(1) by (simp_all add: clauses_ok_def)
  obtain p1 where p1: "\<And>ctx. plan_where mk_array s p ctx = Inr (p1, ctx)" "node_header p1 = node_header p"
    "realizes M db known (ok \<and> where_optimizable M (node_header p) (st_where s)) p1 tp (rbind rows (selected M (node_header p) (st_where s)))"
    using plan_where_correct [OF c(1) assms(2)] by blast
  obtain p2 n where p2: "plan_projection mk_array s p1 ctx uid = Inr (p2, n)"
    "realizes M db known (ok \<and> where_optimizable M (node_header p) (st_where s)) p2 ts
      (rbind (rbind rows (selected M (node_header p) (st_where s))) (projected M (node_header p) (st_select_list s)))"
    using plan_projection_correct [OF _ p1(3), of s ts] c(8) p1(2) by metis
  obtain q where q: "plan_limit M s p2 = Inr q"
    "realizes M db known (ok \<and> where_optimizable M (node_header p) (st_where s)) q ts
      (rbind (rbind (rbind rows (selected M (node_header p) (st_where s))) (projected M (node_header p) (st_select_list s)))
        (\<lambda>rs. Inr (limited (st_limit_count s) rs)))"
    using plan_limit_correct [OF c(4,5) p2(2)] by blast
  have "plan_clauses M mk_array s p ctx uid = Inr (q, s, n)"
    using p1(1) p2(1) q(1) c(2,3,6,7) typed_select_kind [OF c(8)]
    by (simp add: plan_clauses_def plan_select_list_def plan_order_by_def plan_distinct_def)
  moreover have "rbind (rbind (rbind rows (selected M (node_header p) (st_where s))) (projected M (node_header p) (st_select_list s)))
      (\<lambda>rs. Inr (limited (st_limit_count s) rs)) = rbind rows (clause_rows M (node_header p) s)"
    by (simp add: clause_rows_def rbind_def split: sum.splits)
  ultimately show ?thesis using q(2) by (metis (no_types))
qed

subsubsection \<open>Tables\<close>

text \<open>The catalog and the database hold the tables: each is a table of the catalog, not an internal one, its
  content has the types of its columns, and the scan of its oid returns it.\<close>

definition stores :: "'d database \<Rightarrow> nat set \<Rightarrow> 'i catalog \<Rightarrow> 'd tables \<Rightarrow> bool" where
  "stores db known cat T \<longleftrightarrow>
     (\<forall>name ts rows. T name = Some (ts, rows) \<longrightarrow> rows_typed ts rows \<and>
        (\<exists>info. GetTable name cat = Inr (Some info) \<and> \<not> StartsWith (ti_name info) ''__'' \<and>
           table_content db (ti_oid info) = rows \<and> ti_oid info \<in> known))"

lemma base_table_correct:
  assumes "stores db known cat T" "table_header T (BaseTableRef t) = Some h"
  shows "\<exists>p. PlanBaseTableRef cat t = Inr p \<and> node_header p = h \<and>
    realizes M db known True p (map snd h) (from_rows M T (BaseTableRef t))"
proof -
  obtain ts rows where T: "T (bt_table t) = Some (ts, rows)" "map column_type (columns (bt_schema t)) = ts"
    and h: "h = map (\<lambda>c. (GetBoundTableName t @ ''.'' @ column_name c, column_type c)) (columns (bt_schema t))"
    using assms(2) by (auto split: option.splits if_splits)
  obtain info where info: "GetTable (bt_table t) cat = Inr (Some info)" "\<not> StartsWith (ti_name info) ''__''"
    "table_content db (ti_oid info) = rows" "ti_oid info \<in> known" "rows_typed ts rows"
    using assms(1) T(1) unfolding stores_def by blast
  let ?p = "PlanNode (SeqScan (ti_oid info) (ti_name info) None) (InferScanSchema (GetBoundTableName t) (bt_schema t)) []"
  have head: "node_header ?p = h" unfolding InferScanSchema_def node_header_Schema h by (simp add: renamed_def comp_def)
  have types: "types ?p = ts" using arg_cong [OF head, of "map snd"] T(2) h by (simp add: comp_def)
  have "realizes M db known True ?p ts (from_rows M T (BaseTableRef t))"
    using types info(3-5) T(1) by (simp add: realizes_def node_rows_def node_ok_def types_def)
  moreover have "ts = map snd h" using head types by auto
  ultimately show ?thesis using info(1,2) head by (auto simp: PlanBaseTableRef_def Let_def)
qed

lemma join_node_header: "node_header (join_node x type l r) = node_header l @ node_header r"
  by (simp add: join_node_def InferJoinSchema_def node_header_Schema) (simp add: node_header_def)

lemma join_node_types: "types (join_node x type l r) = types l @ types r"
  using arg_cong [OF join_node_header, of "map snd"] by simp

lemma join_realizes:
  assumes l: "realizes M db known okl l lt ls" and r: "realizes M db known okr r rt rs" and x: "typed_join lt rt x"
    and m: "\<And>a b. length a = length lt \<Longrightarrow> length b = length rt \<Longrightarrow> satisfied M (EvaluateJoin M x a b) = m a b"
    and ok: "ok \<Longrightarrow> okl \<and> okr \<and> constant_ok M x \<and> hashable x \<and> (is_constant x \<longrightarrow> type = INNER)"
  shows "realizes M db known ok (join_node x type l r) (lt @ rt) (rbind ls (\<lambda>ls. rbind rs (\<lambda>rs. join_rows m type (null_row M rt) ls rs)))"
proof -
  have rows: "plan_rows M db (join_node x type l r) = rbind ls (\<lambda>ls. rbind rs (\<lambda>rs. join_rows m type (null_row M rt) ls rs))"
  proof (cases ls; cases rs)
    fix us vs assume u: "ls = Inr us" "rs = Inr vs"
    have "join_rows (\<lambda>a b. satisfied M (EvaluateJoin M x a b)) type (null_row M rt) us vs = join_rows m type (null_row M rt) us vs"
      by (rule join_rows_cong) (use m rows_typed_length [OF realizesD(3) [OF l u(1)]] rows_typed_length [OF realizesD(3) [OF r u(2)]] in auto)
    then show ?thesis using u realizesD(1,2) [OF l] realizesD(1,2) [OF r] by (simp add: join_node_def node_rows_def)
  qed (use realizesD(2) [OF l] realizesD(2) [OF r] in \<open>simp_all add: join_node_def\<close>)
  have typed_rows: "rows_typed (lt @ rt) us" if "rbind ls (\<lambda>ls. rbind rs (\<lambda>rs. join_rows m type (null_row M rt) ls rs)) = Inr us" for us
    using that join_typed realizesD(3) [OF l] realizesD(3) [OF r] by fastforce
  have "plan_ok M db known (join_node x type l r)" if ok
    using ok [OF that] x realizesD(1,4) [OF l] realizesD(1,4) [OF r] join_node_types [of x type l r]
    by (simp add: join_node_def node_ok_def types_def)
  then show ?thesis
    unfolding realizes_def using rows typed_rows join_node_types [of x type l r] realizesD(1) [OF l] realizesD(1) [OF r] by simp
qed

lemma boolean_constant: "\<exists>c. rbind (GetBooleanValue 1) ConstantValueExpression = Inr (ConstantValue (Boolean 1), c)"
  by (simp add: GetBooleanValue_def Value_int8_def cast_def ConstantValueExpression_def Value_GetColumn_def Column_def TypeSize_def)

lemma cross_realizes:
  assumes "realizes M db known okl l lt ls" "realizes M db known okr r rt rs"
  shows "realizes M db known (okl \<and> okr) (join_node (ConstantValue (Boolean 1)) INNER l r) (lt @ rt)
    (rbind ls (\<lambda>ls. rbind rs (\<lambda>rs. Inr (concat (map (\<lambda>a. map (\<lambda>b. a @ b) rs) ls)))))"
proof -
  have true: "satisfied M (EvaluateJoin M (ConstantValue (Boolean 1)) a b) = Inr True" for a b :: "'a row"
    by (simp add: satisfied_def holds_def BUSTUB_BOOLEAN_NULL_def cast_def)
  have "realizes M db known (okl \<and> okr) (join_node (ConstantValue (Boolean 1)) INNER l r) (lt @ rt)
    (rbind ls (\<lambda>ls. rbind rs (\<lambda>rs. join_rows (\<lambda>a b. Inr True) INNER (null_row M rt) ls rs)))"
    by (rule join_realizes [OF assms]) (use true in \<open>simp_all add: constant_ok_def BUSTUB_BOOLEAN_NULL_def\<close>)
  then show ?thesis by (simp add: cross_product)
qed

text \<open>The rows of a value list.\<close>

lemma value_rows_correct:
  assumes "list_all (\<lambda>es. expr_types Map.empty es = Some ts) values"
  shows "\<exists>all. (\<forall>ctx. plan_value_rows mk_array values ctx = Inr (all, ctx)) \<and> length all = length values \<and>
    (\<forall>row \<in> set all. map GetReturnType (map fst row) = ts \<and> map column_type (map snd row) = ts \<and> list_all (typed []) (map fst row)) \<and>
    map_result (\<lambda>row. map_result (\<lambda>e. Evaluate M e []) (map fst row)) all = map_result (map_result (expr_value M Map.empty)) values"
  using assms
proof (induction "values")
  case (Cons es "values")
  obtain ps where ps: "\<And>ctx. PlanExpressions mk_array [] es ctx = Inr (ps, ctx)" "map GetReturnType (map fst (map snd ps)) = ts"
    "map column_type (map snd (map snd ps)) = ts" "list_all (typed []) (map fst (map snd ps))"
    "map_result (\<lambda>x. Evaluate M x []) (map fst (map snd ps)) = map_result (expr_value M Map.empty) es"
    by (rule planned_value_row [where es = es and M = M and mk_array = mk_array]) (use Cons.prems in auto)
  from Cons obtain all where all: "\<forall>ctx. plan_value_rows mk_array values ctx = Inr (all, ctx)" "length all = length values"
    "\<forall>row \<in> set all. map GetReturnType (map fst row) = ts \<and> map column_type (map snd row) = ts \<and> list_all (typed []) (map fst row)"
    "map_result (\<lambda>row. map_result (\<lambda>e. Evaluate M e []) (map fst row)) all = map_result (map_result (expr_value M Map.empty)) values"
    by auto
  show ?case by (rule exI [of _ "map snd ps # all"]) (use ps all in \<open>simp add: comp_assoc\<close>)
qed simp

lemma numbered_header:
  assumes "map column_type (map snd row) = ts"
  shows "map (\<lambda>c. (column_name c, column_type c)) (map (\<lambda>(idx, _, column). WithColumnName (identifier @ ''.'' @ print_nat idx) column) (enumerate 0 row)) =
    numbered identifier ts"
  using assms by (intro nth_equalityI) (auto simp: numbered_def nth_enumerate_eq WithColumnName_def split: prod.split)

lemma value_list_correct:
  assumes "table_header T (ExpressionListRef values identifier) = Some h"
  shows "\<exists>p. (\<forall>ctx. PlanExpressionListRef mk_array values identifier ctx = Inr (p, ctx)) \<and> node_header p = h \<and>
    realizes M db known True p (map snd h) (from_rows M T (ExpressionListRef values identifier))"
proof -
  obtain ts where ts: "list_all (\<lambda>es. expr_types Map.empty es = Some ts) values" "values \<noteq> []" "h = numbered identifier ts"
    using assms by (auto split: list.splits option.splits if_splits)
  obtain all where all: "\<forall>ctx. plan_value_rows mk_array values ctx = Inr (all, ctx)" "length all = length values"
    "\<forall>row \<in> set all. map GetReturnType (map fst row) = ts \<and> map column_type (map snd row) = ts \<and> list_all (typed []) (map fst row)"
    "map_result (\<lambda>row. map_result (\<lambda>e. Evaluate M e []) (map fst row)) all = map_result (map_result (expr_value M Map.empty)) values"
    using value_rows_correct [OF ts(1), of mk_array M] by blast
  obtain row all' where row: "all = row # all'" using all(2) ts(2) by (cases all) auto
  let ?cols = "map (\<lambda>(idx, _, column). WithColumnName (identifier @ ''.'' @ print_nat idx) column) (enumerate 0 row)"
  let ?p = "PlanNode (ValuesPlan (map (map fst) all)) (Schema ?cols) []"
  have head: "node_header ?p = h" unfolding node_header_Schema ts(3) using all(3) row by (intro numbered_header) simp
  have types: "types ?p = map snd h" using head by (metis node_header_simps(1))
  have h: "map snd h = ts" using ts(3) by (simp add: numbered_def case_prod_unfold comp_def)
  have rows: "plan_rows M db ?p = from_rows M T (ExpressionListRef values identifier)"
    using all(4) by (simp add: node_rows_def map_result_map)
  have ok: "\<forall>row \<in> set (map (map fst) all). list_all (typed []) row \<and> map GetReturnType row = ts" using all(3) by auto
  have "realizes M db known True ?p ts (from_rows M T (ExpressionListRef values identifier))"
    unfolding realizes_def
  proof (intro conjI allI impI)
    fix rs assume "from_rows M T (ExpressionListRef values identifier) = Inr rs"
    then have "map_result (map_result (\<lambda>e. Evaluate M e [])) (map (map fst) all) = Inr rs" using all(4) by (simp add: map_result_map)
    then show "rows_typed ts rs" by (rule values_typed [OF _ ok])
  qed (use rows types h ok in \<open>auto simp: node_ok_def types_def\<close>)
  then show ?thesis using head h all(1) row by (auto simp: PlanExpressionListRef_def)
qed

text \<open>The projection that renames the columns of a subquery keeps its rows.\<close>

lemma identity_row:
  assumes "length row = length cols"
  shows "map_result (\<lambda>x. Evaluate M x row) (map fst (map (\<lambda>(idx, col). ColumnValueExpression 0 idx col) (enumerate 0 cols))) = Inr row"
proof -
  have "list_all2 (\<lambda>x v. Evaluate M x row = Inr v) (map fst (map (\<lambda>(idx, col). ColumnValueExpression 0 idx col) (enumerate 0 cols))) row"
    using assms by (simp add: list_all2_conv_all_nth nth_enumerate_eq ColumnValueExpression_def)
  then show ?thesis by (simp add: map_result_Inr_iff)
qed

lemma subquery_names_correct:
  assumes "realizes M db known ok p ts rows" "length ts \<le> length names"
  shows "\<exists>q. plan_subquery_names nm names p = Inr q \<and> node_header q = zip (map (\<lambda>n. nm @ ''.'' @ dotted n) names) ts \<and>
    realizes M db known ok q ts rows"
proof -
  note r = realizesD [OF assms(1)]
  let ?cols = "columns (output_schema p)"
  let ?exprs = "map (\<lambda>(idx, col). ColumnValueExpression 0 idx col) (enumerate 0 ?cols) :: 'a typed_expr list"
  let ?names = "map (\<lambda>i. nm @ ''.'' @ dotted (names ! i)) [0..<length ?cols]"
  have len: "length ?cols = length ts" using r(1) by (auto simp: types_def)
  have "map_result (\<lambda>idx. if idx < length names then Inr (nm @ ''.'' @ dotted (names ! idx)) else Inl Undefined) [0..<length ?cols] = Inr ?names"
    using assms(2) len by (simp add: map_result_Inr_iff list_all2_conv_all_nth)
  moreover obtain s where s: "RenameSchema (InferProjectionSchema ?exprs) ?names = Inr s"
    "map column_type (columns s) = map column_type (map (\<lambda>(e, column). WithColumnName ''<unnamed>'' column) ?exprs)"
    "map column_name (columns s) = ?names"
    using rename_types [of ?names "map (\<lambda>(e, column). WithColumnName ''<unnamed>'' column) ?exprs"] by (auto simp: InferProjectionSchema_def)
  have types: "map column_type (columns s) = ts"
    unfolding s(2) r(1) [symmetric] types_def by (intro nth_equalityI) (simp_all add: nth_enumerate_eq ColumnValueExpression_def WithColumnName_def)
  let ?q = "PlanNode (Projection (map fst ?exprs)) s [p]"
  have typed: "list_all (typed ts) (map fst ?exprs)" "map GetReturnType (map fst ?exprs) = ts"
    using r(1) by (auto simp: list_all_length nth_enumerate_eq ColumnValueExpression_def types_def intro!: nth_equalityI)
  have "rbind rows (map_result (\<lambda>row. map_result (\<lambda>x. Evaluate M x row) (map fst ?exprs))) = rows"
  proof (cases rows)
    case (Inr rs)
    show ?thesis unfolding Inr rbind_simps
      by (rule map_result_id, rule identity_row) (use rows_typed_length [OF r(3) [OF Inr]] len in simp)
  qed simp
  then have "realizes M db known ok ?q ts rows" using projection_realizes [OF assms(1) typed types] by simp
  moreover have "node_header ?q = zip (map (\<lambda>n. nm @ ''.'' @ dotted n) names) ts"
  proof -
    have "node_header ?q = zip (map column_name (columns s)) (map column_type (columns s))"
      by (simp add: node_header_def zip_map_map zip_same_conv_map)
    also have "\<dots> = zip (map (\<lambda>n. nm @ ''.'' @ dotted n) names) ts"
      unfolding s(3) types using len assms(2) by (intro nth_equalityI) simp_all
    finally show ?thesis .
  qed
  ultimately show ?thesis using s(1) by (auto simp: plan_subquery_names_def Let_def)
qed

subsection \<open>The induction\<close>

text \<open>The predicates of a statement that the optimizer may move are ones it may move.\<close>

fun optimizable_table :: "'d machine \<Rightarrow> 'd tables \<Rightarrow> 'd table_ref \<Rightarrow> bool"
  and optimizable_subquery :: "'d machine \<Rightarrow> 'd tables \<Rightarrow> 'd subquery \<Rightarrow> bool"
  and optimizable :: "'d machine \<Rightarrow> 'd tables \<Rightarrow> 'd select \<Rightarrow> bool" where
  "optimizable_table M T (CrossProductRef l r) \<longleftrightarrow> optimizable_table M T l \<and> optimizable_table M T r"
| "optimizable_table M T (JoinRef type l r condition) \<longleftrightarrow> optimizable_table M T l \<and> optimizable_table M T r \<and>
     predicate_ok M (join_scope (header_of T l) (header_of T r)) condition \<and> (type = INNER \<or> constant_value condition = None)"
| "optimizable_table M T (SubqueryRef q) \<longleftrightarrow> optimizable_subquery M T q"
| "optimizable_table M T t \<longleftrightarrow> True"
| "optimizable_subquery M T (Subquery s names nm) \<longleftrightarrow> optimizable M T s"
| "optimizable M T (SelectStatement t items condition gs having lim off sorting ctes dist) \<longleftrightarrow>
     (IsEmptyTableRef t \<or> optimizable_table M T t) \<and> where_optimizable M (header_of T t) condition"

text \<open>What the induction carries: planning succeeds, leaves the statement and the context as they were, and the
  plan means the query.\<close>

definition table_planned :: "'d machine \<Rightarrow> 'd database \<Rightarrow> nat set \<Rightarrow> ('d typed_expr list \<Rightarrow> 'd typed_expr result) \<Rightarrow> 'i catalog \<Rightarrow> 'd tables \<Rightarrow> nat \<Rightarrow>
    'd table_ref \<Rightarrow> header \<Rightarrow> bool" where
  "table_planned M db known mk_array cat T n t h \<longleftrightarrow>
     (\<forall>pl. \<exists>p uid. PlanTableRef n M mk_array cat t pl = Inr (p, t, pl\<lparr>universal_id := uid\<rparr>) \<and> node_header p = h \<and>
        realizes M db known (optimizable_table M T t) p (map snd h) (from_rows M T t))"

definition select_planned :: "'d machine \<Rightarrow> 'd database \<Rightarrow> nat set \<Rightarrow> ('d typed_expr list \<Rightarrow> 'd typed_expr result) \<Rightarrow> 'i catalog \<Rightarrow> 'd tables \<Rightarrow> nat \<Rightarrow>
    'd select \<Rightarrow> type_id list \<Rightarrow> bool" where
  "select_planned M db known mk_array cat T n s ts \<longleftrightarrow>
     (\<forall>pl. \<exists>p uid. PlanSelect n M mk_array cat s pl = Inr (p, s, pl\<lparr>universal_id := uid\<rparr>) \<and>
        realizes M db known (optimizable M T s) p ts (select_rows M T s))"

definition subquery_planned :: "'d machine \<Rightarrow> 'd database \<Rightarrow> nat set \<Rightarrow> ('d typed_expr list \<Rightarrow> 'd typed_expr result) \<Rightarrow> 'i catalog \<Rightarrow> 'd tables \<Rightarrow> nat \<Rightarrow>
    'd subquery \<Rightarrow> header \<Rightarrow> bool" where
  "subquery_planned M db known mk_array cat T n q h \<longleftrightarrow>
     (\<forall>pl. \<exists>p uid. PlanSubquery n M mk_array cat q (sq_alias q) pl = Inr (p, q, pl\<lparr>universal_id := uid\<rparr>) \<and> node_header p = h \<and>
        realizes M db known (optimizable_subquery M T q) p (map snd h) (subquery_rows M T q))"

lemma realizes_mono: "realizes M db known ok p ts rows \<Longrightarrow> (ok' \<Longrightarrow> ok) \<Longrightarrow> realizes M db known ok' p ts rows"
  by (auto simp: realizes_def)

lemma subquery_step:
  assumes "subquery_header T q = Some h"
    and "\<And>ts. select_types T (sq_select q) = Some ts \<Longrightarrow> select_planned M db known mk_array cat T n (sq_select q) ts"
  shows "subquery_planned M db known mk_array cat T (Suc n) q h"
proof (cases q)
  case (Subquery s names nm)
  then obtain ts where ts: "select_types T s = Some ts" "length ts \<le> length names" "h = zip (map (\<lambda>n. nm @ ''.'' @ dotted n) names) ts"
    using assms(1) by (auto split: option.splits if_splits)
  have h: "map snd h = ts" using ts(2,3) by (simp add: map_snd_zip_take)
  have "\<exists>p uid. PlanSubquery (Suc n) M mk_array cat q (sq_alias q) pl = Inr (p, q, pl\<lparr>universal_id := uid\<rparr>) \<and> node_header p = h \<and>
        realizes M db known (optimizable_subquery M T q) p (map snd h) (subquery_rows M T q)" for pl
  proof -
    obtain p uid where p: "PlanSelect n M mk_array cat s pl = Inr (p, s, pl\<lparr>universal_id := uid\<rparr>)"
      "realizes M db known (optimizable M T s) p ts (select_rows M T s)"
      using assms(2) ts(1) Subquery unfolding select_planned_def by fastforce
    obtain p' where "plan_subquery_names nm names p = Inr p'" "node_header p' = h" "realizes M db known (optimizable M T s) p' ts (select_rows M T s)"
      using subquery_names_correct [OF p(2) ts(2)] ts(3) by blast
    with p(1) Subquery h show ?thesis by auto
  qed
  then show ?thesis by (simp add: subquery_planned_def)
qed

lemma select_step:
  fixes M :: "'d machine"
  assumes "select_types T s = Some ts"
    and "\<And>h. table_header T (st_table s) = Some h \<Longrightarrow> table_planned M db known mk_array cat T n (st_table s) h"
  shows "select_planned M db known mk_array cat T (Suc n) s ts"
proof (cases s)
  case (SelectStatement t items condition gs having lim off sorting ctes dist)
  obtain h where h: "(if IsEmptyTableRef t then Some [] else table_header T t) = Some h" "clauses_ok h s ts"
    using assms(1) SelectStatement by (auto simp: clauses_ok_def split: option.splits if_splits)
  then have head: "header_of T t = h" by (auto simp: header_of_def)
  have rows: "select_rows M T s = rbind (from_rows M T t) (clause_rows M h s)"
    using head SelectStatement by (simp add: clause_rows_def [abs_def])
  have opt: "optimizable M T s \<longleftrightarrow> (IsEmptyTableRef t \<or> optimizable_table M T t) \<and> where_optimizable M h (st_where s)"
    using head SelectStatement by simp
  have none: "st_ctes s = []" using h(2) by (simp add: clauses_ok_def)
  have table: "\<exists>p uid. (if IsEmptyTableRef (st_table s) then Inr (PlanNode (ValuesPlan [[]]) (Schema []) [], st_table s, pl)
        else PlanTableRef n M mk_array cat (st_table s) pl) = Inr (p, t, pl\<lparr>universal_id := uid\<rparr>) \<and> node_header p = h \<and>
      realizes M db known (IsEmptyTableRef t \<or> optimizable_table M T t) p (map snd h) (from_rows M T t)" for pl
  proof (cases "IsEmptyTableRef t")
    case True
    then have t: "t = EmptyTableRef" "h = []" using h(1) by (auto simp: IsEmptyTableRef_def split: table_ref.splits)
    have "node_header (PlanNode (ValuesPlan [[]]) (Schema []) [] :: 'd plan_node) = []" by (simp only: node_header_Schema list.map)
    moreover have "realizes M db known True (PlanNode (ValuesPlan [[]]) (Schema []) []) [] (Inr [[]])"
      by (simp add: realizes_def types_def node_rows_def rows_typed_def node_ok_def Schema_def)
    moreover have "pl = pl\<lparr>universal_id := universal_id pl\<rparr>" by simp
    ultimately show ?thesis using True t SelectStatement
      by (intro exI [of _ "PlanNode (ValuesPlan [[]]) (Schema []) []"] exI [of _ "universal_id pl"]) (simp add: realizes_def)
  next
    case False
    then show ?thesis using assms(2) h(1) SelectStatement by (auto simp: table_planned_def)
  qed
  have "\<exists>p uid. PlanSelect (Suc n) M mk_array cat s pl = Inr (p, s, pl\<lparr>universal_id := uid\<rparr>) \<and>
        realizes M db known (optimizable M T s) p ts (select_rows M T s)" for pl
  proof -
    let ?pl1 = "enter_select s pl"
    obtain p uid where p: "(if IsEmptyTableRef (st_table s) then Inr (PlanNode (ValuesPlan [[]]) (Schema []) [], st_table s, ?pl1)
        else PlanTableRef n M mk_array cat (st_table s) ?pl1) = Inr (p, t, ?pl1\<lparr>universal_id := uid\<rparr>)" "node_header p = h"
      "realizes M db known (IsEmptyTableRef t \<or> optimizable_table M T t) p (map snd h) (from_rows M T t)"
      using table by blast
    obtain q uid' where q: "plan_clauses M mk_array s p (planner_ctx ?pl1) uid = Inr (q, s, uid')"
      "realizes M db known ((IsEmptyTableRef t \<or> optimizable_table M T t) \<and> where_optimizable M h (st_where s)) q ts
        (rbind (from_rows M T t) (clause_rows M h s))"
      using plan_clauses_correct [OF _ p(3), of s ts] h(2) p(2) by metis
    have "leave_select s t s pl (?pl1\<lparr>universal_id := uid\<rparr>) uid' = (s, pl\<lparr>universal_id := uid'\<rparr>)"
      using none SelectStatement by (simp add: leave_select_def enter_select_def NewContext_def PlannerContext_def split: option.splits)
    with p(1) q have "PlanSelect (Suc n) M mk_array cat s pl = Inr (q, s, pl\<lparr>universal_id := uid'\<rparr>)" by (simp add: Let_def)
    moreover have "realizes M db known (optimizable M T s) q ts (select_rows M T s)" using q(2) unfolding rows opt .
    ultimately show ?thesis by blast
  qed
  then show ?thesis by (simp add: select_planned_def)
qed

lemma join_step:
  assumes "table_header T (JoinRef type l r condition) = Some h"
    and l: "\<And>h. table_header T l = Some h \<Longrightarrow> table_planned M db known mk_array cat T n l h"
    and r: "\<And>h. table_header T r = Some h \<Longrightarrow> table_planned M db known mk_array cat T n r h"
  shows "table_planned M db known mk_array cat T (Suc n) (JoinRef type l r condition) h"
proof -
  obtain hl hr where h: "table_header T l = Some hl" "table_header T r = Some hr" "h = hl @ hr"
    "expr_type (join_scope hl hr) condition = Some BOOLEAN"
    using assms(1) by (auto split: option.splits if_splits)
  have head: "header_of T l = hl" "header_of T r = hr" using h by (auto simp: header_of_def IsEmptyTableRef_def split: table_ref.splits)
  let ?rows = "rbind (from_rows M T l) (\<lambda>ls. rbind (from_rows M T r) (\<lambda>rs.
      join_rows (\<lambda>a b. satisfied M (expr_value M (bindings (hl @ hr) (a @ b)) condition)) type (null_row M (map snd hr)) ls rs))"
  have "\<exists>p uid. PlanTableRef (Suc n) M mk_array cat (JoinRef type l r condition) pl = Inr (p, JoinRef type l r condition, pl\<lparr>universal_id := uid\<rparr>) \<and>
      node_header p = h \<and> realizes M db known (optimizable_table M T (JoinRef type l r condition)) p (map snd h) ?rows" for pl
  proof -
    obtain pa ua where a: "PlanTableRef n M mk_array cat l pl = Inr (pa, l, pl\<lparr>universal_id := ua\<rparr>)" "node_header pa = hl"
      "realizes M db known (optimizable_table M T l) pa (map snd hl) (from_rows M T l)"
      using l [OF h(1)] unfolding table_planned_def by blast
    obtain pb ub where b: "PlanTableRef n M mk_array cat r (pl\<lparr>universal_id := ua\<rparr>) = Inr (pb, r, pl\<lparr>universal_id := ua\<rparr>\<lparr>universal_id := ub\<rparr>)"
      "node_header pb = hr" "realizes M db known (optimizable_table M T r) pb (map snd hr) (from_rows M T r)"
      using r [OF h(2)] unfolding table_planned_def by blast
    obtain name x c where x: "\<And>ctx. PlanExpression mk_array [pa, pb] condition ctx = Inr ((name, x, c), ctx)"
      "typed_join (types pa) (types pb) x" "predicate_ok M (join_scope hl hr) condition \<Longrightarrow> hashable x \<and> constant_ok M x"
      "is_constant x \<Longrightarrow> constant_value condition \<noteq> None"
      "\<And>u v. length u = length (types pa) \<Longrightarrow> length v = length (types pb) \<Longrightarrow>
        EvaluateJoin M x u v = expr_value M (bindings (hl @ hr) (u @ v)) condition"
      using planned_join [of pa pb condition BOOLEAN mk_array M] h(4) a(2) b(2) by metis
    have types: "types pa = map snd hl" "types pb = map snd hr" using realizesD(1) [OF a(3)] realizesD(1) [OF b(3)] by simp_all
    have "realizes M db known (optimizable_table M T (JoinRef type l r condition)) (join_node x type pa pb) (map snd hl @ map snd hr) ?rows"
      by (rule join_realizes [OF a(3) b(3)]) (use x types head in auto)
    moreover have "PlanTableRef (Suc n) M mk_array cat (JoinRef type l r condition) pl =
        Inr (join_node x type pa pb, JoinRef type l r condition, pl\<lparr>universal_id := ub\<rparr>)"
      using a(1) b(1) x(1) by simp
    ultimately show ?thesis using join_node_header [of x type pa pb] a(2) b(2) h(3) by auto
  qed
  then show ?thesis unfolding table_planned_def using head by simp
qed

lemma cross_step:
  fixes M :: "'d machine"
  assumes "table_header T (CrossProductRef l r) = Some h"
    and l: "\<And>h. table_header T l = Some h \<Longrightarrow> table_planned M db known mk_array cat T n l h"
    and r: "\<And>h. table_header T r = Some h \<Longrightarrow> table_planned M db known mk_array cat T n r h"
  shows "table_planned M db known mk_array cat T (Suc n) (CrossProductRef l r) h"
proof -
  obtain hl hr where h: "table_header T l = Some hl" "table_header T r = Some hr" "h = hl @ hr"
    using assms(1) by (auto split: option.splits)
  have "\<exists>p uid. PlanTableRef (Suc n) M mk_array cat (CrossProductRef l r) pl = Inr (p, CrossProductRef l r, pl\<lparr>universal_id := uid\<rparr>) \<and>
      node_header p = h \<and> realizes M db known (optimizable_table M T (CrossProductRef l r)) p (map snd h) (from_rows M T (CrossProductRef l r))" for pl
  proof -
    obtain pa ua where a: "PlanTableRef n M mk_array cat l pl = Inr (pa, l, pl\<lparr>universal_id := ua\<rparr>)" "node_header pa = hl"
      "realizes M db known (optimizable_table M T l) pa (map snd hl) (from_rows M T l)"
      using l [OF h(1)] unfolding table_planned_def by blast
    obtain pb ub where b: "PlanTableRef n M mk_array cat r (pl\<lparr>universal_id := ua\<rparr>) = Inr (pb, r, pl\<lparr>universal_id := ua\<rparr>\<lparr>universal_id := ub\<rparr>)"
      "node_header pb = hr" "realizes M db known (optimizable_table M T r) pb (map snd hr) (from_rows M T r)"
      using r [OF h(2)] unfolding table_planned_def by blast
    obtain c where c: "rbind (GetBooleanValue 1) ConstantValueExpression = Inr (ConstantValue (Boolean 1) :: 'd expr, c)"
      by (rule exE [OF boolean_constant])
    have "PlanTableRef (Suc n) M mk_array cat (CrossProductRef l r) pl =
        Inr (join_node (ConstantValue (Boolean 1)) INNER pa pb, CrossProductRef l r, pl\<lparr>universal_id := ub\<rparr>)"
      using a(1) b(1) c by simp
    then show ?thesis using cross_realizes [OF a(3) b(3)] join_node_header [of _ INNER pa pb] a(2) b(2) h(3) by auto
  qed
  then show ?thesis unfolding table_planned_def by blast
qed

lemma table_step:
  fixes M :: "'d machine"
  assumes st: "stores db known cat T" and h: "table_header T t = Some h"
    and t: "\<And>t' h. size t' < size t \<Longrightarrow> table_header T t' = Some h \<Longrightarrow> table_planned M db known mk_array cat T n t' h"
    and q: "\<And>q h. t = SubqueryRef q \<Longrightarrow> subquery_header T q = Some h \<Longrightarrow> subquery_planned M db known mk_array cat T n q h"
  shows "table_planned M db known mk_array cat T (Suc n) t h"
proof (cases t)
  case (BaseTableRef b)
  obtain p where p: "PlanBaseTableRef cat b = Inr p" "node_header p = h" "realizes M db known True p (map snd h) (from_rows M T t)"
    using base_table_correct [OF st, of b h M] h BaseTableRef by auto
  show ?thesis unfolding table_planned_def
  proof
    fix pl :: "'d planner"
    show "\<exists>p uid. PlanTableRef (Suc n) M mk_array cat t pl = Inr (p, t, pl\<lparr>universal_id := uid\<rparr>) \<and> node_header p = h \<and>
        realizes M db known (optimizable_table M T t) p (map snd h) (from_rows M T t)"
      by (rule exI [of _ p], rule exI [of _ "universal_id pl"]) (use p BaseTableRef in simp)
  qed
next
  case (ExpressionListRef vals ident)
  obtain p where p: "\<forall>ctx. PlanExpressionListRef mk_array vals ident ctx = Inr (p, ctx)" "node_header p = h"
    "realizes M db known True p (map snd h) (from_rows M T t)"
    using value_list_correct [of T vals ident h mk_array M db known] h ExpressionListRef by auto
  show ?thesis unfolding table_planned_def
  proof
    fix pl :: "'d planner"
    show "\<exists>p uid. PlanTableRef (Suc n) M mk_array cat t pl = Inr (p, t, pl\<lparr>universal_id := uid\<rparr>) \<and> node_header p = h \<and>
        realizes M db known (optimizable_table M T t) p (map snd h) (from_rows M T t)"
      by (rule exI [of _ p], rule exI [of _ "universal_id pl"]) (use p ExpressionListRef in simp)
  qed
next
  case (JoinRef type l r condition)
  show ?thesis unfolding JoinRef by (rule join_step) (use h t JoinRef in auto)
next
  case (CrossProductRef l r)
  show ?thesis unfolding CrossProductRef by (rule cross_step) (use h t CrossProductRef in auto)
next
  case (SubqueryRef q')
  then have "subquery_planned M db known mk_array cat T n q' h" using q h by simp
  then have "\<exists>p uid. PlanSubquery n M mk_array cat q' (sq_alias q') pl = Inr (p, q', pl\<lparr>universal_id := uid\<rparr>) \<and> node_header p = h \<and>
        realizes M db known (optimizable_subquery M T q') p (map snd h) (subquery_rows M T q')" for pl
    unfolding subquery_planned_def by blast
  then show ?thesis using SubqueryRef by (auto simp: table_planned_def rbind_eq_Inr_iff)
qed (use h in auto)

lemma planned:
  assumes st: "stores db known cat T"
  shows "(\<forall>t h. size t < n \<longrightarrow> table_header T t = Some h \<longrightarrow> table_planned M db known mk_array cat T n t h) \<and>
    (\<forall>q h. size q < n \<longrightarrow> subquery_header T q = Some h \<longrightarrow> subquery_planned M db known mk_array cat T n q h) \<and>
    (\<forall>s ts. size s < n \<longrightarrow> select_types T s = Some ts \<longrightarrow> select_planned M db known mk_array cat T n s ts)"
proof (induction n)
  case (Suc n)
  then have IH: "\<And>t h. size t < n \<Longrightarrow> table_header T t = Some h \<Longrightarrow> table_planned M db known mk_array cat T n t h"
    "\<And>q h. size q < n \<Longrightarrow> subquery_header T q = Some h \<Longrightarrow> subquery_planned M db known mk_array cat T n q h"
    "\<And>s ts. size s < n \<Longrightarrow> select_types T s = Some ts \<Longrightarrow> select_planned M db known mk_array cat T n s ts"
    by blast+
  have "table_planned M db known mk_array cat T (Suc n) t h" if "size t < Suc n" "table_header T t = Some h" for t h
    by (rule table_step [OF st that(2)]) (use that IH in auto)
  moreover have "subquery_planned M db known mk_array cat T (Suc n) q h" if "size q < Suc n" "subquery_header T q = Some h" for q h
    by (rule subquery_step [OF that(2)]) (use that IH in \<open>cases q, auto\<close>)
  moreover have "select_planned M db known mk_array cat T (Suc n) s ts" if "size s < Suc n" "select_types T s = Some ts" for s ts
    by (rule select_step [OF that(2)]) (use that IH in \<open>cases s, auto\<close>)
  ultimately show ?case by blast
qed simp

lemmas planned_select = planned [THEN conjunct2, THEN conjunct2, rule_format]

end
