(* ===== verification/Planner_Aggs.thy ===== *)
theory Planner_Aggs
  imports Planner_Correct
begin

section \<open>Planned aggregations\<close>

text \<open>
  Aggregate calls are collected and replaced in one order, planned in that order, and looked up by a counter when the
  clause they came from is planned over the aggregation: the lemmas follow the calls of a statement through
  \<open>PlanSelectAgg\<close>.
\<close>

fun agg_calls :: "'d bound_expr \<Rightarrow> 'd bound_expr list" where
  "agg_calls (BoundAggCall func_name is_distinct args) = [BoundAggCall func_name is_distinct args]"
| "agg_calls (BoundBinaryOp op l r) = agg_calls l @ agg_calls r"
| "agg_calls (BoundAlias nm e) = agg_calls e"
| "agg_calls e = []"

text \<open>The calls of a statement: those of \<open>HAVING\<close>, then those of the select list.\<close>

definition select_calls :: "'d select \<Rightarrow> 'd bound_expr list" where
  "select_calls s = agg_calls (st_having s) @ concat (map agg_calls (st_select_list s))"

definition rewritten_as :: "'d bound_expr \<Rightarrow> 'd bound_expr \<Rightarrow> bool" where
  "rewritten_as e e' \<longleftrightarrow> function_free e' \<and> (\<forall>vs. length (agg_calls e) \<le> length vs \<longrightarrow> with_results e' vs = with_results e vs)"

lemma with_results_rest: "length (agg_calls e) \<le> length vs \<Longrightarrow> snd (with_results e vs) = drop (length (agg_calls e)) vs"
proof (induction e arbitrary: vs)
  case (BoundAggCall f d args)
  then show ?case by (cases vs) auto
next
  case (BoundBinaryOp op l r)
  then have "length (agg_calls r) \<le> length (snd (with_results l vs))" by simp
  then show ?case using BoundBinaryOp by (simp add: split_beta Let_def add.commute)
next
  case (BoundAlias nm e)
  then show ?case by (simp add: split_beta Let_def)
qed simp_all

lemma binary_rewritten:
  assumes "rewritten_as l l'" "rewritten_as r r'"
  shows "rewritten_as (BoundBinaryOp op l r) (BoundBinaryOp op l' r')"
  using assms with_results_rest [of l] by (auto simp: rewritten_as_def split_beta Let_def)

lemma call_collected:
  "AddAggCallToContext e ctx = Inr (e', ctx') \<Longrightarrow> function_free e \<Longrightarrow>
   ctx' = ctx\<lparr>aggregations := aggregations ctx @ agg_calls e\<rparr> \<and> rewritten_as e e'"
proof (induction e arbitrary: e' ctx ctx')
  case (BoundAggCall f d args)
  then show ?case
    by (auto simp: Let_def AddAggregation_def rewritten_as_def neq_Nil_conv Suc_le_length_iff split: if_splits)
next
  case (BoundBinaryOp op l r)
  then obtain l' ctx1 r' where p: "AddAggCallToContext l ctx = Inr (l', ctx1)" "AddAggCallToContext r ctx1 = Inr (r', ctx')"
    "e' = BoundBinaryOp op l' r'" by fastforce
  then show ?case using BoundBinaryOp.IH(1) [OF p(1)] BoundBinaryOp.IH(2) [OF p(2)] BoundBinaryOp.prems(2) binary_rewritten by auto
next
  case (BoundAlias nm e)
  then obtain e1 where p: "AddAggCallToContext e ctx = Inr (e1, ctx')" "e' = BoundAlias nm e1" by fastforce
  then show ?case using BoundAlias.IH [OF p(1)] BoundAlias.prems(2) by (auto simp: rewritten_as_def split_beta Let_def)
qed (auto simp: rewritten_as_def)

lemma calls_collected:
  "AddAggCallsToContext es ctx = Inr (es', ctx') \<Longrightarrow> list_all function_free es \<Longrightarrow>
   ctx' = ctx\<lparr>aggregations := aggregations ctx @ concat (map agg_calls es)\<rparr> \<and> list_all2 rewritten_as es es'"
proof (induction es arbitrary: es' ctx)
  case (Cons e es)
  then obtain e1 ctx1 es1 where p: "AddAggCallToContext e ctx = Inr (e1, ctx1)" "AddAggCallsToContext es ctx1 = Inr (es1, ctx')"
    "es' = e1 # es1" by fastforce
  then show ?case using call_collected [OF p(1)] Cons.IH [OF p(2)] Cons.prems(2) by auto
qed simp

lemma list_rewritten:
  "list_all2 rewritten_as es es' \<Longrightarrow> length (concat (map agg_calls es)) \<le> length vs \<Longrightarrow> with_all_results es' vs = with_all_results es vs"
proof (induction es es' arbitrary: vs rule: list_all2_induct)
  case (Cons e es e' es')
  then have "with_results e' vs = with_results e vs" "length (concat (map agg_calls es)) \<le> length (snd (with_results e vs))"
    using with_results_rest [of e vs] by (simp_all add: rewritten_as_def)
  then show ?case using Cons.IH by (simp add: split_beta Let_def)
qed simp

text \<open>A call and what the aggregation computes for it.\<close>

definition computes :: "('d typed_expr list \<Rightarrow> 'd typed_expr result) \<Rightarrow> 'd plan_node \<Rightarrow> 'd planner_context \<Rightarrow> 'd bound_expr \<Rightarrow>
    'd expr \<times> AggregationType \<Rightarrow> bool" where
  "computes mk_array child_plan ctx call = (\<lambda>(input, agg_type).
     \<exists>func_name is_distinct args es. call = BoundAggCall func_name is_distinct args \<and>
       PlanAggCall mk_array [child_plan] func_name is_distinct args ctx = Inr (agg_type, es) \<and>
       input = (case es of [] \<Rightarrow> ConstantValue (Integer 1) | e # _ \<Rightarrow> fst e))"

lemma computes_context: "cte_list ctx = cte_list ctx' \<Longrightarrow> computes mk_array p ctx = computes mk_array p ctx'"
  by (simp add: computes_def [abs_def] PlanAggCall_def NewContext_def)

lemma count_one: "rbind (GetIntegerValue 1) ConstantValueExpression = Inr e \<Longrightarrow> fst e = ConstantValue (Integer 1)"
  by (auto simp: GetIntegerValue_def Value_int32_def cast_def ConstantValueExpression_def)

lemma terms_planned:
  "plan_agg_terms mk_array p ctx b i items = Inr terms \<Longrightarrow>
   list_all2 (computes mk_array p ctx) items (map (\<lambda>((x, _), t, _, _). (x, t)) terms) \<and>
   map (\<lambda>(_, _, _, e, _). e) terms = map (\<lambda>k. ColumnValue 0 (b + k) INTEGER) [i..<i + length items]"
proof (induction items arbitrary: i terms)
  case (Cons item items)
  obtain f d args where item: "item = BoundAggCall f d args" using Cons.prems by (auto split: bound_expr.splits)
  obtain t es input agg_result terms' where p: "PlanAggCall mk_array [p] f d args ctx = Inr (t, es)"
    "(case es of [] \<Rightarrow> rbind (GetIntegerValue 1) ConstantValueExpression | [e] \<Rightarrow> Inr e
       | _ \<Rightarrow> Inl (Thrown ''only agg call of zero/one arg is supported'')) = Inr input"
    "Column ''<agg_result>'' INTEGER = Inr agg_result" "plan_agg_terms mk_array p ctx b (i + 1) items = Inr terms'"
    "terms = (input, t, ''agg#'' @ print_nat i, ColumnValueExpression 0 (b + i) agg_result) # terms'"
    using Cons.prems item by fastforce
  have "fst input = (case es of [] \<Rightarrow> ConstantValue (Integer 1) | e # _ \<Rightarrow> fst e)"
    using p(2) count_one [of input] by (cases es) (simp_all split: list.split_asm)
  moreover have "column_type agg_result = INTEGER" using p(3) by (auto simp: Column_def TypeSize_def)
  moreover have "[i..<i + length (item # items)] = i # [Suc i..<Suc i + length items]"
    by (simp add: upt_conv_Cons del: upt_Suc)
  ultimately show ?case using Cons.IH [OF p(4)] p(1,5) item
    by (auto simp: computes_def ColumnValueExpression_def case_prod_unfold)
qed simp

lemma RenameSchema_length: "RenameSchema s names = Inr s' \<Longrightarrow> length (columns s') = length names"
  using column_count [of "map2 renamed names (columns s)"] by (auto simp: RenameSchema_def GetColumnCount_def split: if_splits)

subsection \<open>The aggregation and the clauses over it\<close>

lemma agg_columns_length: "agg_columns group_bys terms = Inr sch \<Longrightarrow> length (columns sch) = length group_bys + length terms"
  using RenameSchema_length by (fastforce simp: agg_columns_def)

text \<open>Over a row of the aggregation, the references to the calls evaluate to their results.\<close>

lemma references_evaluate:
  assumes "map (\<lambda>(_, _, _, e, _). e) terms = map (\<lambda>k. ColumnValue 0 (length groups + k) INTEGER) [0..<length results]"
    "expr_in_agg ctx = map (\<lambda>(_, _, _, e). e) terms"
  shows "expression_scope.results_at (Evaluate M) ctx (groups @ results) results"
proof -
  have len: "length terms = length results" using arg_cong [OF assms(1), of length] by simp
  have "Evaluate M (fst (expr_in_agg ctx ! k)) (groups @ results) = Inr (results ! k)" if k: "k < length results" for k
  proof -
    have "fst (expr_in_agg ctx ! k) = map (\<lambda>(_, _, _, e, _). e) terms ! k" using assms(2) k len by (simp add: case_prod_unfold)
    then show ?thesis using k assms(1) by simp
  qed
  then show ?thesis using len assms(2)
    by (simp add: one_child.results_at_def list_all2_conv_all_nth case_prod_unfold)
qed

text \<open>The results that \<open>HAVING\<close> leaves to the select list.\<close>

definition results_left :: "'d select \<Rightarrow> 'd val list \<Rightarrow> 'd val list" where
  "results_left s results = drop (length (agg_calls (st_having s))) results"

lemma IsInvalid_iff: "IsInvalid e \<longleftrightarrow> e = InvalidExpr"
  by (simp add: IsInvalid_def split: bound_expr.split)

lemma having_collected:
  assumes "collect_having e ctx = Inr (e', ctx')" "function_free e"
  shows "ctx' = ctx\<lparr>aggregations := aggregations ctx @ agg_calls e\<rparr> \<and> rewritten_as e e' \<and> (IsInvalid e' \<longleftrightarrow> IsInvalid e)"
proof (cases "IsInvalid e")
  case True
  then show ?thesis using assms by (auto simp: collect_having_def rewritten_as_def IsInvalid_iff)
next
  case False
  have "\<not> IsInvalid e'" if "AddAggCallToContext e ctx = Inr (e', ctx')"
    using that by (cases e) (auto simp: IsInvalid_def Let_def)
  then show ?thesis using False assms call_collected [of e ctx e' ctx'] by (simp add: collect_having_def)
qed

text \<open>The filter of \<open>HAVING\<close>, on a row of the aggregation.\<close>

lemma having_planned:
  assumes p: "plan_having mk_array e agg ctx = Inr (filtered, ctx')" and e: "function_free e"
    and row: "length row = length (columns (output_schema agg))"
    and res: "expression_scope.results_at (Evaluate M) ctx row results" "next_aggregation ctx = 0"
  shows "output_schema filtered = output_schema agg \<and> expression_scope.results_at (Evaluate M) ctx' row results \<and>
    drop (next_aggregation ctx') results = snd (with_results e results) \<and>
    (if IsInvalid e then filtered = agg
     else \<exists>x. filtered = PlanNode (FilterPlan x) (output_schema agg) [agg] \<and>
       Evaluate M x row = expr_value M (bindings (node_header agg) row) (fst (with_results e results)))"
proof (cases "IsInvalid e")
  case True
  then show ?thesis using p res by (auto simp: plan_having_def IsInvalid_iff)
next
  case False
  then obtain name x c where x: "PlanExpression mk_array [agg] e ctx = Inr ((name, x, c), ctx')"
    "filtered = PlanNode (FilterPlan x) (output_schema agg) [agg]"
    using p by (fastforce simp: plan_having_def)
  have "expression_scope.value_planned M (Evaluate M) (bindings (node_header agg)) e x ctx ctx' row results"
    by (rule one_child.planned_value [OF x(1) e row res(1)])
  then show ?thesis using x(2) False res(2) by (auto simp: one_child.value_planned_def)
qed

text \<open>Without aggregate results in the context, planning leaves it as it is.\<close>

lemma context_kept:
  "PlanExpression mk_array cs e ctx = Inr (r, ctx') \<Longrightarrow> expr_in_agg ctx = [] \<Longrightarrow> ctx' = ctx"
  "PlanExpressions mk_array cs es ctx = Inr (rs, ctx') \<Longrightarrow> expr_in_agg ctx = [] \<Longrightarrow> ctx' = ctx"
  by (induction mk_array cs e ctx and mk_array cs es ctx arbitrary: r ctx' and rs ctx' rule: PlanExpression_PlanExpressions.induct)
    (simp_all, fastforce+)

lemma PlanExpressions_length: "PlanExpressions mk_array cs es ctx = Inr (rs, ctx') \<Longrightarrow> length rs = length es"
  by (induction es arbitrary: ctx rs) fastforce+

text \<open>A planned aggregation: its node, its calls and the clauses over it.\<close>

definition agg_planned :: "('d typed_expr list \<Rightarrow> 'd typed_expr result) \<Rightarrow> 'd select \<Rightarrow> 'd plan_node \<Rightarrow> 'd planner_context \<Rightarrow>
    'd plan_node \<Rightarrow> 'd plan_node \<Rightarrow> nat \<Rightarrow> bool" where
  "agg_planned mk_array s child_plan ctx agg filtered n \<longleftrightarrow>
     (\<exists>gs inputs agg_types sch. agg = PlanNode (Aggregation gs inputs agg_types) sch [child_plan] \<and> length gs = length (st_group_by s) \<and>
        length inputs = n \<and> length agg_types = n \<and> length (columns sch) = length gs + n \<and> list_all2 (computes mk_array child_plan ctx) (select_calls s) (zip inputs agg_types)) \<and>
     output_schema filtered = output_schema agg"

definition clauses_planned :: "'d machine \<Rightarrow> 'd select \<Rightarrow> 'd plan_node \<Rightarrow> 'd plan_node \<Rightarrow> 'd expr list \<Rightarrow> 'd row \<Rightarrow> 'd val list \<Rightarrow> bool" where
  "clauses_planned M s agg filtered xs row results \<longleftrightarrow>
     (if IsInvalid (st_having s) then filtered = agg
      else \<exists>x. filtered = PlanNode (FilterPlan x) (output_schema agg) [agg] \<and>
        Evaluate M x row = expr_value M (bindings (node_header agg) row) (fst (with_results (st_having s) results))) \<and>
     map_result (\<lambda>x. Evaluate M x row) xs =
       map_result (expr_value M (bindings (node_header agg) row)) (fst (with_all_results (st_select_list s) (results_left s results)))"

lemma clauses_evaluate:
  assumes h: "plan_having mk_array having_expr agg ctx = Inr (filtered, ctx')" "rewritten_as (st_having s) having_expr"
      "IsInvalid having_expr \<longleftrightarrow> IsInvalid (st_having s)"
    and i: "PlanExpressions mk_array [filtered] items ctx' = Inr (exprs, ctx'')" "list_all2 rewritten_as (st_select_list s) items"
    and row: "length row = length (columns (output_schema agg))" "length results = length (select_calls s)"
    and res: "expression_scope.results_at (Evaluate M) ctx row results" "next_aggregation ctx = 0"
  shows "clauses_planned M s agg filtered (map (\<lambda>(_, x, _). x) exprs) row results"
proof -
  have free: "function_free having_expr" "list_all function_free items"
    using h(2) i(2) by (auto simp: rewritten_as_def list_all_length list_all2_conv_all_nth)
  have same: "with_results having_expr results = with_results (st_having s) results"
    using h(2) row(2) by (simp add: rewritten_as_def select_calls_def)
  have left: "snd (with_results (st_having s) results) = results_left s results"
    using with_results_rest [of "st_having s" results] row(2) by (simp add: results_left_def select_calls_def)
  note f = having_planned [OF h(1) free(1) row(1) res, unfolded same left]
  have head: "node_header filtered = node_header agg" using f by (simp add: node_header_def)
  have "map_result (\<lambda>(_, x, _). Evaluate M x row) exprs =
      map_result (expr_value M (bindings (node_header filtered) row)) (fst (with_all_results items (results_left s results)))"
    using one_child.all_planned_value [OF i(1) free(2), of row M results] f row(1) by simp
  moreover have "with_all_results items (results_left s results) = with_all_results (st_select_list s) (results_left s results)"
    by (rule list_rewritten [OF i(2)]) (use row(2) in \<open>simp add: results_left_def select_calls_def\<close>)
  ultimately show ?thesis using f head h(3) by (auto simp: clauses_planned_def map_result_map case_prod_unfold)
qed

text \<open>C36: When an aggregation is planned, the node over the child computes the aggregate calls of \<open>HAVING\<close> and the
  select list, one column per call in the order the calls are written, each with its type and its argument; and on every
  row of that node (the values of the groups, then the results) the planned \<open>HAVING\<close> predicate and the planned select
  list have the values of the clauses of the statement with each call replaced by its own result.\<close>

theorem aggregates_resolved:
  assumes p: "PlanSelectAgg mk_array s child_plan ctx = Inr (plan, s')" and free: "function_free (st_having s)" "list_all function_free (st_select_list s)"
  shows "\<exists>agg filtered xs sch n. plan = PlanNode (Projection xs) sch [filtered] \<and> agg_planned mk_array s child_plan ctx agg filtered n \<and>
    (\<forall>groups results. length groups = length (st_group_by s) \<longrightarrow> length results = n \<longrightarrow>
       clauses_planned M s agg filtered xs (groups @ results) results)"
proof -
  obtain group_bys ctx1 having_expr ctx2 items ctx3 terms agg_schema filtered ctx5 exprs ctx6 sch where
    g: "PlanExpressions mk_array [child_plan] (st_group_by s) ((NewContext ctx)\<lparr>allow_aggregation := True\<rparr>) = Inr (group_bys, ctx1)" and
    h: "collect_having (st_having s) ctx1 = Inr (having_expr, ctx2)" and
    i: "AddAggCallsToContext (st_select_list s) ctx2 = Inr (items, ctx3)" and
    t: "plan_agg_terms mk_array child_plan ctx3 (length group_bys) 0 (aggregations ctx3) = Inr terms" and
    c: "agg_columns group_bys terms = Inr agg_schema" and
    f: "plan_having mk_array having_expr (agg_node group_bys terms agg_schema child_plan) (ctx3\<lparr>expr_in_agg := map (\<lambda>(_, _, _, e). e) terms\<rparr>) =
      Inr (filtered, ctx5)" and
    e: "PlanExpressions mk_array [filtered] items ctx5 = Inr (exprs, ctx6)" and
    plan: "plan = PlanNode (Projection (map (\<lambda>(_, e, _). e) exprs)) sch [filtered]"
    using p unfolding PlanSelectAgg_def by (elim rbind_InrE) (simp split: prod.splits add: rbind_eq_Inr_iff, blast)
  let ?agg = "agg_node group_bys terms agg_schema child_plan"
  have ctx1: "ctx1 = (NewContext ctx)\<lparr>allow_aggregation := True\<rparr>" using context_kept(2) [OF g] by (simp add: NewContext_def PlannerContext_def)
  note hc = having_collected [OF h free(1)] and ic = calls_collected [OF i free(2)]
  have calls: "aggregations ctx3 = select_calls s" "next_aggregation ctx3 = 0" "cte_list ctx3 = cte_list ctx"
    using hc ic ctx1 by (simp_all add: select_calls_def NewContext_def PlannerContext_def)
  note tp = terms_planned [OF t]
  have len: "length terms = length (select_calls s)" using list_all2_lengthD [OF conjunct1 [OF tp]] calls(1) by simp
  have groups: "length group_bys = length (st_group_by s)" using PlanExpressions_length [OF g] .
  have out: "output_schema filtered = output_schema ?agg"
    using f by (auto simp: plan_having_def split: if_splits)
  have "agg_planned mk_array s child_plan ctx ?agg filtered (length terms)"
    using tp calls out groups agg_columns_length [OF c] computes_context [OF calls(3)]
    by (auto simp: agg_planned_def agg_node_def zip_map_map zip_same_conv_map case_prod_unfold comp_def)
  moreover have "clauses_planned M s ?agg filtered (map (\<lambda>(_, e, _). e) exprs) (gs @ results) results"
    if gs: "length gs = length (st_group_by s)" "length results = length terms" for gs results :: "'a val list"
  proof (rule clauses_evaluate [OF f _ _ e])
    show "expression_scope.results_at (Evaluate M) (ctx3\<lparr>expr_in_agg := map (\<lambda>(_, _, _, e). e) terms\<rparr>) (gs @ results) results"
      by (rule references_evaluate) (use tp gs groups len calls(1) in auto)
  qed (use hc ic gs len calls groups agg_columns_length [OF c] in \<open>auto simp: agg_node_def\<close>)
  ultimately show ?thesis using plan by blast
qed

text \<open>\<open>SELECT count(*) + max(t.a) FROM t GROUP BY t.b HAVING sum(t.a) > 1\<close>.\<close>

definition demo_child :: "int plan_node" where
  "demo_child =
     PlanNode (SeqScan 0 ''t'' None)
       (Schema [\<lparr>column_name = ''t.a'', column_type = INTEGER, column_length = 4, column_offset = 0\<rparr>,
                \<lparr>column_name = ''t.b'', column_type = INTEGER, column_length = 4, column_offset = 0\<rparr>]) []"

definition demo_agg :: "int select" where
  "demo_agg = SelectStatement EmptyTableRef
     [BoundBinaryOp ''+'' (BoundAggCall ''count_star'' False []) (BoundAggCall ''max'' False [BoundColumnRef [''t'', ''a'']])]
     InvalidExpr [BoundColumnRef [''t'', ''b'']]
     (BoundBinaryOp ''>'' (BoundAggCall ''sum'' False [BoundColumnRef [''t'', ''a'']]) (BoundConstant (Integer 1)))
     InvalidExpr InvalidExpr [] [] False"

theorem aggregates_resolved_witness:
  "\<exists>plan s' xs sch filtered. PlanSelectAgg (\<lambda>_. Inl Undefined) demo_agg demo_child PlannerContext = Inr (plan, s') \<and>
     plan = PlanNode (Projection xs) sch [filtered] \<and>
     map_result (\<lambda>x. Evaluate toy_machine x ([Integer 7] @ [Integer 5, Integer 2, Integer 9])) xs = Inr [Integer 11]"
proof -
  have "returns (PlanSelectAgg (\<lambda>_. Inl Undefined) demo_agg demo_child PlannerContext)" by code_simp
  then obtain plan s' where p: "PlanSelectAgg (\<lambda>_. Inl Undefined) demo_agg demo_child PlannerContext = Inr (plan, s')"
    by (auto elim: returnsE)
  have free: "function_free (st_having demo_agg)" "list_all function_free (st_select_list demo_agg)" by (simp_all add: demo_agg_def)
  have groups: "length [Integer 7 :: int val] = length (st_group_by demo_agg)" by (simp add: demo_agg_def)
  obtain agg filtered xs sch n where w: "plan = PlanNode (Projection xs) sch [filtered]"
    "agg_planned (\<lambda>_. Inl Undefined) demo_agg demo_child PlannerContext agg filtered n"
    "\<forall>gs results. length gs = length (st_group_by demo_agg) \<longrightarrow> length results = n \<longrightarrow>
       clauses_planned toy_machine demo_agg agg filtered xs (gs @ results) results"
    using aggregates_resolved [OF p free, of toy_machine] by blast
  have "n = 3" using w(2) by (auto simp: agg_planned_def select_calls_def demo_agg_def list_all2_iff)
  then have "clauses_planned toy_machine demo_agg agg filtered xs ([Integer 7] @ [Integer 5, Integer 2, Integer 9]) [Integer 5, Integer 2, Integer 9]"
    using w(3) [rule_format, OF groups, of "[Integer 5, Integer 2, Integer 9]"] by simp
  then have "map_result (\<lambda>x. Evaluate toy_machine x ([Integer 7] @ [Integer 5, Integer 2, Integer 9])) xs = Inr [Integer 11]"
    by (simp add: clauses_planned_def demo_agg_def results_left_def binary_value_def compares_def arithmetic_value_def
        ArithmeticExpression_PerformComputation_def toy_machine_def signed_arith_def fits_def int_min_def int_max_def GetIntegerValue_def
        Value_int32_def cast_def BUSTUB_INT32_NULL_def)
  then show ?thesis using p w(1) by blast
qed

end
