(* ===== verification/Planner_Props.thy ===== *)
theory Planner_Props
  imports Planner_Aggs Optimizer_Props
begin

section \<open>The planner's properties and its limits\<close>

text \<open>
  The plan of a query means the query, and still does after the optimizer; aggregate calls and the assignments of
  an update find their columns; and the statements the planner gets wrong.
\<close>

subsection \<open>Queries\<close>

text \<open>C34: A well-typed query (base tables, cross products, inner and left joins, value lists and subqueries, with
  \<open>WHERE\<close> and \<open>LIMIT\<close>) is planned without an error, the recursion no deeper than the size of the statement; the plan has
  the column types of the query and its rows, computed by position, are those the query means, computed by name, with
  the same fault where the evaluation of a value fails; every row has those types.\<close>

theorem planned_query:
  assumes "stores db known cat T" "select_types T s = Some ts" "size s < n"
  shows "\<exists>p. PlanQuery n M mk_array cat (SelectStmt s) new_planner = Inr p \<and> types p = ts \<and> plan_rows M db p = select_rows M T s \<and>
    (\<forall>rows. select_rows M T s = Inr rows \<longrightarrow> (\<forall>row \<in> set rows. map GetTypeId row = ts))"
proof -
  obtain p uid where "PlanSelect n M mk_array cat s new_planner = Inr (p, s, new_planner\<lparr>universal_id := uid\<rparr>)"
    "realizes M db known (optimizable M T s) p ts (select_rows M T s)"
    using planned_select [OF assms(1,3,2), of M mk_array] unfolding select_planned_def by blast
  then show ?thesis by (auto simp: PlanQuery_def realizes_def rows_typed_def)
qed


text \<open>\<open>SELECT q.u + 1 FROM t JOIN (SELECT b.x AS u FROM b WHERE b.x > 1) AS q ON t.x = q.u LIMIT 5\<close>, over the tables of the
  optimizer's example.\<close>

definition query_table :: "string \<Rightarrow> int table_ref" where
  "query_table name = BaseTableRef \<lparr>bt_table = name, bt_oid = 0, bt_alias = None, bt_schema = Schema [int_column ''x'']\<rparr>"

definition plain_select :: "'d table_ref \<Rightarrow> 'd bound_expr list \<Rightarrow> 'd bound_expr \<Rightarrow> 'd bound_expr \<Rightarrow> 'd select" where
  "plain_select t items condition lim = SelectStatement t items condition [] InvalidExpr lim InvalidExpr [] [] False"

definition demo_select :: "int select" where
  "demo_select =
     plain_select
       (JoinRef INNER (query_table ''t'')
         (SubqueryRef (Subquery (plain_select (query_table ''b'') [BoundAlias ''u'' (BoundColumnRef [''b'', ''x''])]
            (BoundBinaryOp ''>'' (BoundColumnRef [''b'', ''x'']) (BoundConstant (Integer 1))) InvalidExpr) [[''u'']] ''q''))
         (BoundBinaryOp ''='' (BoundColumnRef [''t'', ''x'']) (BoundColumnRef [''q'', ''u''])))
       [BoundBinaryOp ''+'' (BoundColumnRef [''q'', ''u'']) (BoundConstant (Integer 1))]
       InvalidExpr (BoundConstant (Integer 5))"

definition demo_contents :: "int tables" where
  "demo_contents = [''t'' \<mapsto> ([INTEGER], [[Integer 1], [Integer 2]]), ''b'' \<mapsto> ([INTEGER], [[Integer 2], [Integer 3]])]"

lemma demo_stores: "stores demo_db {0, 1} demo_tables demo_contents"
  by (auto simp: stores_def demo_contents_def demo_db_def demo_tables_def demo_table_def GetTable_def rows_typed_def StartsWith_def
      split: if_splits)

lemma demo_select_ok: "select_types demo_contents demo_select = Some [INTEGER]" "size demo_select < 60"
  "optimizable toy_machine demo_contents demo_select" "select_rows toy_machine demo_contents demo_select = Inr [[Integer 3]]"
  by code_simp+

theorem planned_query_witness:
  "\<exists>p. PlanQuery 60 toy_machine (\<lambda>_. Inl Undefined) demo_tables (SelectStmt demo_select) new_planner = Inr p \<and>
     plan_rows toy_machine demo_db p = Inr [[Integer 3]]"
  using planned_query [OF demo_stores demo_select_ok(1,2), of toy_machine "\<lambda>_. Inl Undefined"] demo_select_ok(4) by auto


subsection \<open>Updates\<close>

text \<open>The row an update makes of a row: each column has the value of the last assignment to its name, or its old one.\<close>

definition assignments :: "(string list option \<times> 'd bound_expr) list \<Rightarrow> string \<rightharpoonup> 'd bound_expr" where
  "assignments targets = map_of (rev (concat (map (\<lambda>(col, e). case col of Some names \<Rightarrow> [(dotted names, e)] | None \<Rightarrow> []) targets)))"

definition assigned :: "'d machine \<Rightarrow> header \<Rightarrow> (string list option \<times> 'd bound_expr) list \<Rightarrow> 'd row \<Rightarrow> 'd row result" where
  "assigned M h targets row =
     map_result (\<lambda>(c, v). case assignments targets (fst c) of Some e \<Rightarrow> expr_value M (bindings h row) e | None \<Rightarrow> Inr v) (zip h row)"

lemma assignments_snoc: "assignments (targets @ [(Some names, e)]) = (assignments targets)(dotted names \<mapsto> e)"
  by (simp add: assignments_def)

text \<open>The expressions collected so far stand for the assignments made so far.\<close>

definition stands_for :: "'d machine \<Rightarrow> 'd plan_node \<Rightarrow> 'd row \<Rightarrow> 'd expr option list \<Rightarrow> (string list option \<times> 'd bound_expr) list \<Rightarrow> bool" where
  "stands_for M p row xs targets \<longleftrightarrow> length xs = length (columns (output_schema p)) \<and>
     (\<forall>i < length xs. map_option (\<lambda>x. Evaluate M x row) (xs ! i) =
        map_option (expr_value M (bindings (node_header p) row)) (assignments targets (column_name (columns (output_schema p) ! i))))"

lemma single_column:
  assumes "\<not> Suc 0 < length (filter (\<lambda>c. column_name c = name) cs)" "i < length cs" "j < length cs"
    "column_name (cs ! i) = name" "column_name (cs ! j) = name"
  shows "i = j"
proof (rule ccontr)
  assume "i \<noteq> j"
  then have "card {i, j} = 2" by simp
  moreover have "{i, j} \<subseteq> {k. k < length cs \<and> column_name (cs ! k) = name}" using assms by auto
  ultimately have "2 \<le> length (filter (\<lambda>c. column_name c = name) cs)"
    using card_mono [of "{k. k < length cs \<and> column_name (cs ! k) = name}" "{i, j}"] by (simp add: length_filter_conv_card)
  then show False using assms(1) by simp
qed

lemma find_column_name: "find_column name i cs = Some j \<Longrightarrow> column_name (cs ! (j - i)) = name"
proof (induction cs arbitrary: i)
  case (Cons c cs)
  show ?case
  proof (cases "column_name c = name")
    case False
    then have f: "find_column name (Suc i) cs = Some j" using Cons.prems by simp
    then have "j - i = Suc (j - Suc i)" using find_column_bound [OF f] by arith
    then show ?thesis using Cons.IH [OF f] by simp
  qed (use Cons.prems in auto)
qed simp

lemma target_column:
  assumes "PlanColumnRef [p] col = Inr (name, x, c)"
  obtains j ty where "x = ColumnValue 0 j ty" "j < length (columns (output_schema p))"
    "\<And>i. i < length (columns (output_schema p)) \<Longrightarrow> column_name (columns (output_schema p) ! i) = dotted col \<longleftrightarrow> i = j"
proof -
  let ?cs = "columns (output_schema p)"
  have one: "\<not> Suc 0 < length (filter (\<lambda>c. column_name c = dotted col) ?cs)"
    using assms by (auto simp: PlanColumnRef_def ColumnRef_ToString_def Let_def split: if_splits)
  obtain j where j: "TryGetColIdx (dotted col) (output_schema p) = Some j" "\<exists>ty. x = ColumnValue 0 j ty"
    using assms one by (auto simp: PlanColumnRef_def ColumnRef_ToString_def Let_def GetColIdx_def ColumnValueExpression_def split: option.splits)
  have len: "j < length ?cs" using TryGetColIdx_bound [OF j(1)] .
  have "column_name (?cs ! j) = dotted col" using j(1) find_column_name [of "dotted col" 0 ?cs j] by (simp add: TryGetColIdx_def)
  then have "column_name (?cs ! i) = dotted col \<longleftrightarrow> i = j" if "i < length ?cs" for i
    using single_column [OF one that len] by blast
  with j(2) len that show ?thesis by blast
qed

lemma targets_planned:
  "plan_targets mk_array [p] targets ctx xs = Inr xs' \<Longrightarrow> list_all (\<lambda>(_, e). function_free e) targets \<Longrightarrow> expr_in_agg ctx = [] \<Longrightarrow>
   length row = length (columns (output_schema p)) \<Longrightarrow> stands_for M p row xs made \<Longrightarrow> stands_for M p row xs' (made @ targets)"
proof (induction targets arbitrary: ctx xs made)
  case (Cons t targets)
  obtain target e where target: "t = (target, e)" by fastforce
  obtain col where t: "t = (Some col, e)" using Cons.prems(1) target by (cases target) auto
  obtain n x c ctx1 n' cx c' j where p: "PlanExpression mk_array [p] e ctx = Inr ((n, x, c), ctx1)" "PlanColumnRef [p] col = Inr (n', cx, c')"
    "column_index cx = Inr j" "j < length xs" "plan_targets mk_array [p] targets ctx1 (xs[j := Some x]) = Inr xs'"
    using Cons.prems(1) t by (fastforce split: if_splits)
  have ctx1: "ctx1 = ctx" using context_kept(1) [OF p(1)] Cons.prems(3) by simp
  have "expression_scope.value_planned M (Evaluate M) (bindings (node_header p)) e x ctx ctx1 row []"
    by (rule one_child.planned_value [OF p(1)]) (use Cons.prems t in \<open>simp_all add: one_child.results_at_def\<close>)
  then have value_x: "Evaluate M x row = expr_value M (bindings (node_header p) row) e"
    by (simp add: one_child.value_planned_def with_results_none)
  obtain k ty where k: "cx = ColumnValue 0 k ty"
    "\<And>i. i < length (columns (output_schema p)) \<Longrightarrow> column_name (columns (output_schema p) ! i) = dotted col \<longleftrightarrow> i = k"
    using target_column [OF p(2)] by blast
  have "k = j" using p(3) k(1) by (simp add: column_index_def)
  then have "stands_for M p row (xs[j := Some x]) (made @ [(Some col, e)])"
    using Cons.prems(5) k(2) value_x by (auto simp: stands_for_def assignments_snoc nth_list_update)
  from Cons.IH [OF p(5) _ _ Cons.prems(4) this] Cons.prems(2,3) ctx1 t show ?case by simp
qed simp

lemma map_result_pointwise: "length xs = length ys \<Longrightarrow> (\<And>i. i < length xs \<Longrightarrow> f (xs ! i) = g (ys ! i)) \<Longrightarrow> map_result f xs = map_result g ys"
proof -
  assume "length xs = length ys" "\<And>i. i < length xs \<Longrightarrow> f (xs ! i) = g (ys ! i)"
  then have "map f xs = map g ys" by (intro nth_equalityI) simp_all
  then show ?thesis using map_result_map [of "\<lambda>x. x" f xs] map_result_map [of "\<lambda>x. x" g ys] by simp
qed

lemma defaults_evaluate:
  assumes "default_targets (output_schema p) xs = Inr es" "stands_for M p row xs targets" "length row = length (columns (output_schema p))"
  shows "map_result (\<lambda>x. Evaluate M x row) es = assigned M (node_header p) targets row"
proof -
  have es: "list_all2 (\<lambda>(i, x) e. (case x of Some e' \<Rightarrow> e = e' | None \<Rightarrow> \<exists>ty. e = ColumnValue 0 i ty)) (enumerate 0 xs) es"
    using assms(1) unfolding default_targets_def map_result_Inr_iff
    by (rule list_all2_mono) (auto simp: ColumnValueExpression_def split: option.splits)
  have len: "length es = length row" using list_all2_lengthD [OF es] assms(2,3) by (simp add: stands_for_def)
  show ?thesis unfolding assigned_def
  proof (rule map_result_pointwise)
    fix i assume i: "i < length es"
    then have xi: "case xs ! i of Some e' \<Rightarrow> es ! i = e' | None \<Rightarrow> \<exists>ty. es ! i = ColumnValue 0 i ty"
      using list_all2_nthD2 [OF es i] list_all2_lengthD [OF es] by (simp add: nth_enumerate_eq)
    have si: "map_option (\<lambda>x. Evaluate M x row) (xs ! i) =
        map_option (expr_value M (bindings (node_header p) row)) (assignments targets (fst (node_header p ! i)))"
      using assms(2,3) len i by (simp add: stands_for_def node_header_def)
    show "Evaluate M (es ! i) row = (case zip (node_header p) row ! i of (c, v) \<Rightarrow>
        case assignments targets (fst c) of Some e \<Rightarrow> expr_value M (bindings (node_header p) row) e | None \<Rightarrow> Inr v)"
      using xi si len i assms(3) by (cases "xs ! i"; cases "assignments targets (fst (node_header p ! i))") auto
  qed (use len assms(3) in simp)
qed

text \<open>C37: The plan of an update scans the table through a filter that evaluates the \<open>WHERE\<close> clause, and its target
  expressions, one for each column of the table in order, make of every row the row in which each assigned column has the
  value of its expression over the old row and every other column keeps its value; an assignment by name finds its column
  wherever it stands, and the last one to a column counts.\<close>

theorem update_targets:
  assumes "PlanUpdate mk_array cat t condition targets new_planner = Inr plan"
    "list_all (\<lambda>(_, e). function_free e) targets" "function_free condition"
  shows "\<exists>table x sch xs. PlanBaseTableRef cat t = Inr table \<and>
    plan = PlanNode (UpdatePlan (bt_oid t) xs) sch [PlanNode (FilterPlan x) (output_schema table) [table]] \<and>
    (\<forall>row. length row = length (types table) \<longrightarrow>
       Evaluate M x row = expr_value M (bindings (node_header table) row) condition \<and>
       map_result (\<lambda>x. Evaluate M x row) xs = assigned M (node_header table) targets row)"
proof -
  obtain table n x c ctx xs es sch where p: "PlanBaseTableRef cat t = Inr table" "PlanExpression mk_array [table] condition PlannerContext = Inr ((n, x, c), ctx)"
    "plan_targets mk_array [PlanNode (FilterPlan x) (output_schema table) [table]] targets ctx (replicate (GetColumnCount (output_schema table)) None) = Inr xs"
    "default_targets (output_schema table) xs = Inr es"
    "plan = PlanNode (UpdatePlan (bt_oid t) es) sch [PlanNode (FilterPlan x) (output_schema table) [table]]"
    using assms(1) by (fastforce simp: PlanUpdate_def plan_table_filter_def new_planner_def)
  let ?f = "PlanNode (FilterPlan x) (output_schema table) [table]"
  have none: "expr_in_agg PlannerContext = []" "ctx = PlannerContext"
    using context_kept(1) [OF p(2)] by (simp_all add: PlannerContext_def)
  have head: "node_header ?f = node_header table" by (simp add: node_header_def)
  have "Evaluate M x row = expr_value M (bindings (node_header table) row) condition \<and>
      map_result (\<lambda>x. Evaluate M x row) es = assigned M (node_header table) targets row" if row: "length row = length (types table)" for row
  proof
    have len: "length row = length (columns (output_schema table))" using row by (simp add: types_def)
    have "expression_scope.value_planned M (Evaluate M) (bindings (node_header table)) condition x PlannerContext ctx row []"
      by (rule one_child.planned_value [OF p(2)]) (use assms(3) len none in \<open>simp_all add: one_child.results_at_def\<close>)
    then show "Evaluate M x row = expr_value M (bindings (node_header table) row) condition"
      by (simp add: one_child.value_planned_def with_results_none)
    have start: "stands_for M ?f row (replicate (GetColumnCount (output_schema table)) None) []"
      by (simp add: stands_for_def GetColumnCount_def assignments_def)
    have "stands_for M ?f row xs ([] @ targets)"
      by (rule targets_planned [OF p(3) assms(2) _ _ start]) (use none len in simp_all)
    then show "map_result (\<lambda>x. Evaluate M x row) es = assigned M (node_header table) targets row"
      using defaults_evaluate [of ?f xs es M row targets] p(4) len head by simp
  qed
  then show ?thesis using p(1,5) by blast
qed

text \<open>\<open>UPDATE t SET x = t.x + 1\<close>.\<close>

definition demo_update :: "int plan_node result" where
  "demo_update = PlanUpdate (\<lambda>_. Inl Undefined) demo_tables
     \<lparr>bt_table = ''t'', bt_oid = 0, bt_alias = None, bt_schema = Schema [int_column ''x'', int_column ''y'']\<rparr> (BoundConstant (Boolean 1))
     [(Some [''t'', ''y''], BoundBinaryOp ''+'' (BoundColumnRef [''t'', ''x'']) (BoundConstant (Integer 1)))] new_planner"

theorem update_targets_witness:
  "\<exists>plan xs sch f. demo_update = Inr plan \<and> plan = PlanNode (UpdatePlan 0 xs) sch [f] \<and>
     map_result (\<lambda>x. Evaluate toy_machine x [Integer 7, Integer 0]) xs = Inr [Integer 7, Integer 8]"
proof -
  let ?t = "\<lparr>bt_table = ''t'', bt_oid = 0, bt_alias = None, bt_schema = Schema [int_column ''x'', int_column ''y'']\<rparr>"
  let ?targets = "[(Some [''t'', ''y''], BoundBinaryOp ''+'' (BoundColumnRef [''t'', ''x'']) (BoundConstant (Integer 1)))] :: (string list option \<times> int bound_expr) list"
  have "returns demo_update" by code_simp
  then obtain plan where plan: "demo_update = Inr plan" by (auto elim: returnsE)
  have table: "map_sum id node_header (PlanBaseTableRef demo_tables ?t :: int plan_node result) = Inr [(''t.x'', INTEGER), (''t.y'', INTEGER)]"
    by code_simp
  obtain table x sch xs where w: "PlanBaseTableRef demo_tables ?t = Inr table"
    "plan = PlanNode (UpdatePlan (bt_oid ?t) xs) sch [PlanNode (FilterPlan x) (output_schema table) [table]]"
    "\<forall>row. length row = length (types table) \<longrightarrow> Evaluate toy_machine x row = expr_value toy_machine (bindings (node_header table) row) (BoundConstant (Boolean 1)) \<and>
       map_result (\<lambda>x. Evaluate toy_machine x row) xs = assigned toy_machine (node_header table) ?targets row"
    using update_targets [OF plan [unfolded demo_update_def], of toy_machine] by auto
  have head: "node_header table = [(''t.x'', INTEGER), (''t.y'', INTEGER)]" using table w(1) by simp
  have "types table = [INTEGER, INTEGER]" using head by (metis node_header_simps(1) list.simps(8,9) snd_conv)
  then have "map_result (\<lambda>x. Evaluate toy_machine x [Integer 7, Integer 0]) xs = assigned toy_machine (node_header table) ?targets [Integer 7, Integer 0]"
    using w(3) by simp
  also have "\<dots> = Inr [Integer 7, Integer 8]" unfolding head by code_simp
  finally show ?thesis using plan w(2) by auto
qed

subsection \<open>What an insert checks and an update does not\<close>

text \<open>The rows of an \<open>INSERT\<close> must have the types of the columns of the table; otherwise the statement is rejected.\<close>

lemma insert_checks_types:
  assumes "stores db known cat T" "select_types T s = Some ts" "size s < n"
  shows "\<exists>p. types p = ts \<and> plan_rows M db p = select_rows M T s \<and>
    PlanInsert n M mk_array cat t s new_planner =
      (if map column_type (columns (bt_schema t)) \<noteq> ts then Inl (Thrown ''table schema mismatch'')
       else Inr (PlanNode (InsertPlan (bt_oid t)) (Schema [int_column ''__bustub_internal.insert_rows'']) [p]))"
proof -
  obtain p uid where p: "PlanSelect n M mk_array cat s new_planner = Inr (p, s, new_planner\<lparr>universal_id := uid\<rparr>)"
    "realizes M db known (optimizable M T s) p ts (select_rows M T s)"
    using planned_select [OF assms(1,3,2), of M mk_array] unfolding select_planned_def by blast
  then have "map column_type (columns (output_schema p)) = ts" using realizesD(1) [OF p(2)] by (simp add: types_def)
  then show ?thesis using p
    by (intro exI [of _ p]) (simp add: PlanInsert_def realizes_def row_count_schema_def Column_def TypeSize_def int_column_def)
qed

text \<open>An update may assign a string to an integer column: \<open>UPDATE t SET x = 'abc'\<close> is planned, and the tuple the executor
  then builds from the row is written past the end of its buffer.\<close>

definition mistyped_update :: "int plan_node result" where
  "mistyped_update = PlanUpdate (\<lambda>_. Inl Undefined) demo_tables
     \<lparr>bt_table = ''t'', bt_oid = 0, bt_alias = None, bt_schema = Schema [int_column ''x'']\<rparr> (BoundConstant (Boolean 1))
     [(Some [''t'', ''x''], BoundConstant (Varchar (Some ''abc'')))] new_planner"

lemma update_types_unchecked:
  "rbind mistyped_update (\<lambda>p. Inr (plan_kind p)) = Inr (UpdatePlan 0 [ConstantValue (Varchar (Some ''abc''))])"
  "map_result (\<lambda>x. Evaluate toy_machine x [Integer 1]) [ConstantValue (Varchar (Some ''abc''))] = Inr [Varchar (Some ''abc'')]"
  "Tuple toy_machine [Varchar (Some ''abc'')] (Schema [int_column ''x'']) = Inl Undefined"
  by code_simp+

subsection \<open>Where the planner goes wrong\<close>

text \<open>Planning an aggregation replaces its calls in the statement itself. A common table expression with an aggregation
  can be used once; the second time its calls are the replacements, which no function has the name of:
  \<open>WITH q AS (SELECT count(*) AS c FROM t) SELECT * FROM q AS x, q AS y\<close>.\<close>

definition counting :: "int subquery" where
  "counting = Subquery (plain_select (query_table ''t'') [BoundAlias ''c'' (BoundAggCall ''count_star'' False [])] InvalidExpr InvalidExpr) [[''c'']] ''q''"

definition with_counting :: "int table_ref \<Rightarrow> string list \<Rightarrow> int select" where
  "with_counting t names = SelectStatement t (map (\<lambda>name. BoundColumnRef [name, ''c'']) names) InvalidExpr [] InvalidExpr InvalidExpr InvalidExpr [] [counting] False"

lemma aggregate_cte_used_twice:
  "returns (PlanQuery 9 toy_machine (\<lambda>_. Inl Undefined) demo_tables (SelectStmt (with_counting (CTERef ''q'' ''x'') [''x''])) new_planner)"
  "PlanQuery 9 toy_machine (\<lambda>_. Inl Undefined) demo_tables
     (SelectStmt (with_counting (CrossProductRef (CTERef ''q'' ''x'') (CTERef ''q'' ''y'')) [''x'', ''y''])) new_planner =
     Inl (Thrown ''unsupported agg_call __pseudo_agg#0 with 0 args'')"
  by code_simp+

text \<open>A negative \<open>LIMIT\<close> becomes a limit no result reaches.\<close>

lemma negative_limit:
  "limit_value M ''LIMIT'' (BoundConstant (Integer (- 1))) = Inr (Some 18446744073709551615)"
proof -
  have "take_bit 64 (- 1 :: int) = 18446744073709551615" by (simp add: take_bit_minus_one_eq_mask mask_eq_exp_minus_1)
  then show ?thesis
    by (simp add: limit_value_def Value_CastAs_def IntegerType_CastAs_def Value_int32_def cast_def BUSTUB_INT32_NULL_def)
qed

end
