(* ===== verification/Parse_Tree.thy ===== *)
theory Parse_Tree
  imports Bound
begin

section \<open>Parse trees\<close>

text \<open>
  What the binder reads: the trees of the vendored PostgreSQL parser (\<^verbatim>\<open>third_party/libpg_query/include/nodes/\<close>),
  one constructor per structure the binder knows, with the fields it reads. A field that can be null is an option. A
  null \<open>PGList\<close> is the empty list, which the parser does not make otherwise; a query that is not a \<open>SELECT\<close> is null. Nodes of any other
  structure have only their tag, as \<open>NodeTagToString\<close> prints it.
\<close>

datatype pg_value = PGInteger int | PGFloat string | PGString string | PGNull | PGOtherValue string

datatype PGAExpr_Kind = PG_AEXPR_OP | PG_AEXPR_OP_ANY | PG_AEXPR_OP_ALL | PG_AEXPR_DISTINCT | PG_AEXPR_NOT_DISTINCT | PG_AEXPR_NULLIF |
  PG_AEXPR_OF | PG_AEXPR_IN | PG_AEXPR_LIKE | PG_AEXPR_ILIKE | PG_AEXPR_GLOB | PG_AEXPR_SIMILAR | PG_AEXPR_BETWEEN | PG_AEXPR_NOT_BETWEEN |
  PG_AEXPR_BETWEEN_SYM | PG_AEXPR_NOT_BETWEEN_SYM | AEXPR_PAREN

datatype PGBoolExprType = PG_AND_EXPR | PG_OR_EXPR | PG_NOT_EXPR

datatype PGJoinType = PG_JOIN_INNER | PG_JOIN_LEFT | PG_JOIN_FULL | PG_JOIN_RIGHT | PG_JOIN_SEMI | PG_JOIN_ANTI | PG_JOIN_UNIQUE_OUTER |
  PG_JOIN_UNIQUE_INNER

datatype PGSortByDir = PG_SORTBY_DEFAULT | PG_SORTBY_ASC | PG_SORTBY_DESC | SORTBY_USING
datatype PGSortByNulls = PG_SORTBY_NULLS_DEFAULT | PG_SORTBY_NULLS_FIRST | PG_SORTBY_NULLS_LAST

text \<open>The arguments are, in this order: \<open>PGColumnRef\<close>: the fields; \<open>PGAStar\<close>: the relation of
  \<open>t.*\<close>; \<open>PGResTarget\<close>: the name and the value;
  \<open>PGFuncCall\<close>: the first part of the name, the arguments, \<open>agg_distinct\<close> and \<open>over\<close>; \<open>PGAExpr\<close>: the kind, the first
  part of the name and the operands; \<open>PGSortBy\<close>: the expression, direction and place of nulls; \<open>PGRangeVar\<close>: the
  name and the alias; \<open>PGJoinExpr\<close>: the type, both sides and \<open>quals\<close>; \<open>PGRangeSubselect\<close>: \<open>lateral\<close>, the subquery and its
  alias; \<open>PGWindowDef\<close>: the clauses \<open>PARTITION BY\<close> and \<open>ORDER BY\<close>, the offsets and the frame options.\<close>

datatype pg_node =
    PGValue pg_value
  | PGColumnRef "pg_node list"
  | PGAConst pg_value
  | PGAStar "string option"
  | PGResTarget "string option" "pg_node option"
  | PGFuncCall string "pg_node list" bool "pg_window option"
  | PGAExpr PGAExpr_Kind string "pg_node option" "pg_node option"
  | PGBoolExpr PGBoolExprType "pg_node list"
  | PGSortBy pg_node PGSortByDir PGSortByNulls
  | PGRangeVar string "string option"
  | PGJoinExpr PGJoinType pg_node pg_node "pg_node option"
  | PGRangeSubselect bool pg_select "string option"
  | PGOther string
and pg_window = PGWindowDef "pg_node list" "pg_node list" "pg_node option" "pg_node option" nat
and pg_select =
  PGSelectStmt (pg_distinct: "pg_node option list") (pg_targets: "pg_node list") (pg_from: "pg_node list") (pg_where: "pg_node option")
    (pg_group: "pg_node list") (pg_having: "pg_node option") (pg_values: "pg_node list list") (pg_sort: "pg_node list")
    (pg_offset: "pg_node option") (pg_limit: "pg_node option") (pg_with: "pg_with option")
and pg_with = PGWithClause "pg_cte list" bool
and pg_cte = PGCommonTableExpr string "pg_select option" bool

subsection \<open>Statements\<close>

datatype PGConstrType = PG_CONSTR_NULL | PG_CONSTR_NOTNULL | PG_CONSTR_DEFAULT | PG_CONSTR_IDENTITY | PG_CONSTR_CHECK | PG_CONSTR_PRIMARY |
  PG_CONSTR_UNIQUE | PG_CONSTR_EXCLUSION | PG_CONSTR_FOREIGN | PG_CONSTR_ATTR_DEFERRABLE | PG_CONSTR_ATTR_NOT_DEFERRABLE |
  PG_CONSTR_ATTR_DEFERRED | PG_CONSTR_ATTR_IMMEDIATE | PG_CONSTR_COMPRESSION | PG_CONSTR_GENERATED_VIRTUAL | PG_CONSTR_GENERATED_STORED

text \<open>A constraint is its type and its keys.\<close>

type_synonym pg_constraint = "PGConstrType \<times> string list"

text \<open>\<open>cd_type\<close> is the last part of the name of the type and \<open>cd_typmods\<close> its modifiers.\<close>

record pg_column_def =
  cd_name :: "string option"
  cd_collated :: bool
  cd_type :: string
  cd_typmods :: "pg_node list"
  cd_constraints :: "pg_constraint list"

datatype pg_table_elt = PGColumnDef pg_column_def | PGConstraint pg_constraint | PGOtherElt

text \<open>An element of an index: its name and its operator class. A \<open>PGDefElem\<close>: its name and its argument.\<close>

type_synonym pg_index_elem = "string option \<times> string list"
type_synonym pg_def_elem = "string \<times> pg_node option"

datatype PGTransactionStmtKind = PG_TRANS_STMT_BEGIN | PG_TRANS_STMT_START | PG_TRANS_STMT_COMMIT | PG_TRANS_STMT_ROLLBACK |
  PG_TRANS_STMT_SAVEPOINT | PG_TRANS_STMT_RELEASE | PG_TRANS_STMT_ROLLBACK_TO | PG_TRANS_STMT_PREPARE | PG_TRANS_STMT_COMMIT_PREPARED |
  TRANS_STMT_ROLLBACK_PREPARED

text \<open>\<open>PGInsertStmt\<close>: the table, the columns and the source; \<open>PGDeleteStmt\<close>: the table and the condition;
  \<open>PGUpdateStmt\<close>: the table, whether there are a \<open>WITH\<close> and a \<open>FROM\<close> clause, the condition and the targets; \<open>PGCreateStmt\<close>: the
  table and its elements; \<open>PGIndexStmt\<close>: the name, the table, the access method, the elements and the options.\<close>

datatype pg_stmt =
    PGRawStmt pg_stmt
  | PGCreateStmt string "pg_table_elt list"
  | PGInsertStmt string "pg_node list" "pg_select option"
  | PGSelect pg_select
  | PGExplainStmt pg_stmt "pg_def_elem list"
  | PGDeleteStmt string "pg_node option"
  | PGUpdateStmt string bool bool "pg_node option" "(string \<times> pg_node option) list"
  | PGIndexStmt "string option" string "string option" "pg_index_elem list" "pg_def_elem list"
  | PGVariableSetStmt string "pg_node list"
  | PGVariableShowStmt string
  | PGTransactionStmt PGTransactionStmtKind
  | PGOtherStmt string

end
