(* ===== verification/Binder_Exprs.thy ===== *)
theory Binder_Exprs
  imports Parse_Tree
begin

section \<open>Binding columns and expressions\<close>

text \<open>
  Models \<^verbatim>\<open>src/binder/bind_select.cpp\<close>, the part that resolves the columns of an expression in the table in scope. What the
  binder keeps is a record that is passed along: the table whose columns are in scope, the common table
  expressions in scope, and the counter that names what has no name. A null pointer is \<open>None\<close>.
\<close>

record 'd bind_state =
  table_scope :: "'d table_ref option"
  cte_scope :: "'d subquery list option"
  item_id :: nat

definition new_bind_state :: "'d bind_state" where
  "new_bind_state = \<lparr>table_scope = None, cte_scope = None, item_id = 0\<rparr>"

text \<open>A context guard clears the scope, and restores both scopes when it is destroyed.\<close>

definition open_context :: "'d bind_state \<Rightarrow> 'd bind_state" where
  "open_context b = b\<lparr>table_scope := None\<rparr>"

definition close_context :: "'d bind_state \<Rightarrow> 'd bind_state \<Rightarrow> 'd bind_state" where
  "close_context b b' = b'\<lparr>table_scope := table_scope b, cte_scope := cte_scope b\<rparr>"

definition numbered_name :: "string \<Rightarrow> nat \<Rightarrow> string" where
  "numbered_name kind n = kind @ print_nat n"

definition string_lower :: "string \<Rightarrow> string" where
  "string_lower = map to_lower"

fun NodeTagToString :: "pg_node \<Rightarrow> string" where
  "NodeTagToString (PGValue (PGInteger i)) = ''T_Integer''"
| "NodeTagToString (PGValue (PGFloat s)) = ''T_Float''"
| "NodeTagToString (PGValue (PGString s)) = ''T_String''"
| "NodeTagToString (PGValue PGNull) = ''T_Null''"
| "NodeTagToString (PGValue (PGOtherValue tag)) = tag"
| "NodeTagToString (PGColumnRef parts) = ''T_ColumnRef''"
| "NodeTagToString (PGAConst v) = ''TAConst''"
| "NodeTagToString (PGAStar rel) = ''TAStar''"
| "NodeTagToString (PGResTarget name e) = ''T_ResTarget''"
| "NodeTagToString (PGFuncCall name args dist over) = ''T_FuncCall''"
| "NodeTagToString (PGAExpr kind name l r) = ''TAExpr''"
| "NodeTagToString (PGBoolExpr op args) = ''T_BoolExpr''"
| "NodeTagToString (PGSortBy e dir nulls) = ''T_SortBy''"
| "NodeTagToString (PGRangeVar name alias) = ''T_RangeVar''"
| "NodeTagToString (PGJoinExpr type l r quals) = ''T_JoinExpr''"
| "NodeTagToString (PGRangeSubselect lateral q alias) = ''T_RangeSubselect''"
| "NodeTagToString (PGOther tag) = tag"

subsection \<open>Column references\<close>

definition Prepend :: "string list option \<Rightarrow> string \<Rightarrow> string list option" where
  "Prepend self table_name = map_option (\<lambda>col_name. table_name # col_name) self"

definition ambiguous :: "string list \<Rightarrow> string \<Rightarrow> fault" where
  "ambiguous col_name place = Thrown (dotted col_name @ '' is ambiguous'' @ place)"

text \<open>The loop over the columns; the last argument is the reference found so far.\<close>

fun resolve_in_columns :: "string list \<Rightarrow> column list \<Rightarrow> string list option \<Rightarrow> string list option result" where
  "resolve_in_columns col_name [] so_far = Inr so_far"
| "resolve_in_columns col_name (c # cs) so_far =
     (if [string_lower (column_name c)] = col_name
      then (if so_far \<noteq> None then Inl (ambiguous col_name '' in schema'') else resolve_in_columns col_name cs (Some [column_name c]))
      else resolve_in_columns col_name cs so_far)"

definition ResolveColumnRefFromSchema :: "schema \<Rightarrow> string list \<Rightarrow> string list option result" where
  "ResolveColumnRefFromSchema s col_name = (if length col_name \<noteq> 1 then Inr None else resolve_in_columns col_name (columns s) None)"

text \<open>Both resolvers of a table try the name as it is, and without its first part when that is the name of the table.\<close>

definition pick_resolved :: "string list \<Rightarrow> string \<Rightarrow> string list option \<Rightarrow> string list option \<Rightarrow> string list option result" where
  "pick_resolved col_name place direct stripped =
     (if stripped \<noteq> None \<and> direct \<noteq> None then Inl (ambiguous col_name place)
      else if stripped \<noteq> None then Inr stripped else Inr direct)"

definition ResolveColumnRefFromBaseTableRef :: "base_table_ref \<Rightarrow> string list \<Rightarrow> string list option result" where
  "ResolveColumnRefFromBaseTableRef t col_name =
     (let bound_table_name = GetBoundTableName t in
      rbind (ResolveColumnRefFromSchema (bt_schema t) col_name) (\<lambda>direct.
      rbind (if 1 < length col_name \<and> hd col_name = bound_table_name then ResolveColumnRefFromSchema (bt_schema t) (List.tl col_name) else Inr None) (\<lambda>stripped.
        pick_resolved col_name ('' in table '' @ bt_table t) (Prepend direct bound_table_name) (Prepend stripped bound_table_name))))"

definition MatchSuffix :: "string list \<Rightarrow> string list \<Rightarrow> bool" where
  "MatchSuffix name_end full_name \<longleftrightarrow>
     length name_end \<le> length full_name \<and> take (length name_end) (rev (map string_lower full_name)) = rev name_end"

fun resolve_in_names :: "string list \<Rightarrow> string list list \<Rightarrow> string list option \<Rightarrow> string list option result" where
  "resolve_in_names col_name [] so_far = Inr so_far"
| "resolve_in_names col_name (n # ns) so_far =
     (if MatchSuffix col_name n
      then (if so_far \<noteq> None then Inl (ambiguous col_name '' in subquery select list'') else resolve_in_names col_name ns (Some n))
      else resolve_in_names col_name ns so_far)"

definition ResolveColumnRefFromSelectList :: "string list list \<Rightarrow> string list \<Rightarrow> string list option result" where
  "ResolveColumnRefFromSelectList select_list_name col_name = resolve_in_names col_name select_list_name None"

definition ResolveColumnRefFromSubqueryRef :: "'d subquery \<Rightarrow> string \<Rightarrow> string list \<Rightarrow> string list option result" where
  "ResolveColumnRefFromSubqueryRef q alias col_name =
     rbind (ResolveColumnRefFromSelectList (sq_names q) col_name) (\<lambda>direct.
     rbind (if 1 < length col_name \<and> hd col_name = alias then ResolveColumnRefFromSelectList (sq_names q) (List.tl col_name) else Inr None) (\<lambda>stripped.
       pick_resolved col_name ('' in subquery '' @ sq_alias q) (Prepend direct (sq_alias q)) (Prepend stripped (sq_alias q))))"

text \<open>The common table expression of a name: the first that has it.\<close>

definition scope_cte :: "'d subquery list option \<Rightarrow> string \<Rightarrow> 'd subquery result" where
  "scope_cte ctes cte_name =
     (case ctes of
        None \<Rightarrow> Inl Undefined
      | Some cs \<Rightarrow> (case find (\<lambda>q. cte_name = sq_alias q) cs of Some q \<Rightarrow> Inr q | None \<Rightarrow> Inl (Thrown ''CTE not found'')))"

definition either_column :: "string list \<Rightarrow> string list option \<Rightarrow> string list option \<Rightarrow> string list option result" where
  "either_column col_name left_column right_column =
     (if left_column \<noteq> None \<and> right_column \<noteq> None then Inl (ambiguous col_name '''')
      else if left_column \<noteq> None then Inr left_column else Inr right_column)"

fun ResolveColumnInternal :: "'d subquery list option \<Rightarrow> 'd table_ref \<Rightarrow> string list \<Rightarrow> string list option result" where
  "ResolveColumnInternal ctes (BaseTableRef t) col_name = ResolveColumnRefFromBaseTableRef t col_name"
| "ResolveColumnInternal ctes (CrossProductRef l r) col_name =
     rbind (ResolveColumnInternal ctes l col_name) (\<lambda>left_column.
     rbind (ResolveColumnInternal ctes r col_name) (\<lambda>right_column. either_column col_name left_column right_column))"
| "ResolveColumnInternal ctes (JoinRef type l r condition) col_name =
     rbind (ResolveColumnInternal ctes l col_name) (\<lambda>left_column.
     rbind (ResolveColumnInternal ctes r col_name) (\<lambda>right_column. either_column col_name left_column right_column))"
| "ResolveColumnInternal ctes (SubqueryRef q) col_name = ResolveColumnRefFromSubqueryRef q (sq_alias q) col_name"
| "ResolveColumnInternal ctes (CTERef cte_name alias) col_name =
     rbind (scope_cte ctes cte_name) (\<lambda>q. ResolveColumnRefFromSubqueryRef q alias col_name)"
| "ResolveColumnInternal ctes t col_name = Inl (Thrown ''unsupported TableReferenceType'')"

definition ResolveColumn :: "'d bind_state \<Rightarrow> string list \<Rightarrow> 'd bound_expr result" where
  "ResolveColumn b col_name =
     (case table_scope b of
        None \<Rightarrow> Inl Undefined
      | Some t \<Rightarrow>
          (case t of
             InvalidTableRef \<Rightarrow> Inl Assertion
           | _ \<Rightarrow> rbind (ResolveColumnInternal (cte_scope b) t col_name) (\<lambda>expr.
               case expr of None \<Rightarrow> Inl (Thrown (''column '' @ dotted col_name @ '' not found'')) | Some full_name \<Rightarrow> Inr (BoundColumnRef full_name))))"

text \<open>The columns of \<open>SELECT *\<close>. Those of a common table expression get the name of the reference.\<close>

definition subquery_columns :: "'d subquery \<Rightarrow> string list list" where
  "subquery_columns q = map (\<lambda>col_name. sq_alias q # col_name) (sq_names q)"

fun GetAllColumns :: "'d subquery list option \<Rightarrow> 'd table_ref \<Rightarrow> string list list result" where
  "GetAllColumns ctes (BaseTableRef t) = Inr (map (\<lambda>c. [GetBoundTableName t, column_name c]) (columns (bt_schema t)))"
| "GetAllColumns ctes (CrossProductRef l r) =
     rbind (GetAllColumns ctes l) (\<lambda>cols. rbind (GetAllColumns ctes r) (\<lambda>append_columns. Inr (cols @ append_columns)))"
| "GetAllColumns ctes (JoinRef type l r condition) =
     rbind (GetAllColumns ctes l) (\<lambda>cols. rbind (GetAllColumns ctes r) (\<lambda>append_columns. Inr (cols @ append_columns)))"
| "GetAllColumns ctes (SubqueryRef q) = Inr (subquery_columns q)"
| "GetAllColumns ctes (CTERef cte_name alias) =
     rbind (scope_cte ctes cte_name) (\<lambda>q. Inr (map (\<lambda>col_name. col_name[0 := alias]) (subquery_columns q)))"
| "GetAllColumns ctes t = Inl (Thrown ''select * cannot be used with this TableReferenceType'')"

subsection \<open>Expressions\<close>

definition BindConstant :: "'d machine \<Rightarrow> pg_value \<Rightarrow> 'd bound_expr result" where
  "BindConstant M v =
     rbind (case v of
        PGInteger i \<Rightarrow> if 2147483647 < i then Inl Terminated else GetIntegerValue (cast 32 i)
      | PGFloat s \<Rightarrow>
          (case d_parse M s of
             Parsed d \<Rightarrow> GetDecimalValue d
           | Out_of_range \<Rightarrow> Inl (Thrown ''std::out_of_range'')
           | Invalid_argument \<Rightarrow> Inl (Thrown ''std::invalid_argument''))
      | PGString s \<Rightarrow> GetVarcharString s
      | PGNull \<Rightarrow> GetNullValueByType M INTEGER
      | PGOtherValue tag \<Rightarrow> Inl (Thrown (''unsupported pg value: '' @ tag))) (\<lambda>v. Inr (BoundConstant v))"

fun field_names :: "pg_node list \<Rightarrow> string list result" where
  "field_names [] = Inr []"
| "field_names (PGValue (PGString s) # parts) = rbind (field_names parts) (\<lambda>names. Inr (s # names))"
| "field_names (_ # parts) = Inl Undefined"

definition is_star :: "'d bound_expr \<Rightarrow> bool" where
  "is_star e \<longleftrightarrow> (case e of BoundStar \<Rightarrow> True | _ \<Rightarrow> False)"

definition BindStar :: "string option \<Rightarrow> 'd bound_expr result" where
  "BindStar rel = Inr BoundStar"

definition BindColumnRef :: "'d bind_state \<Rightarrow> pg_node list \<Rightarrow> 'd bound_expr result" where
  "BindColumnRef b parts =
     (case parts of
        [] \<Rightarrow> Inl Undefined
      | PGValue (PGString s) # _ \<Rightarrow> rbind (field_names parts) (ResolveColumn b)
      | PGAStar rel # _ \<Rightarrow> BindStar rel
      | head_node # _ \<Rightarrow> Inl (Thrown (''ColumnRef type '' @ NodeTagToString head_node @ '' not implemented!'')))"

text \<open>\<open>frame_option bit opts\<close> tests a flag of \<open>PGWindowDef.frameOptions\<close>, by the number of its bit.\<close>

definition frame_option :: "nat \<Rightarrow> nat \<Rightarrow> bool" where
  "frame_option n opts \<longleftrightarrow> odd (opts div 2 ^ n)"

definition BindWindowFrame :: "nat \<Rightarrow> (WindowBoundary \<times> WindowBoundary) result" where
  "BindWindowFrame opts =
     (if frame_option 5 opts \<or> frame_option 6 opts
      then Inl (Thrown ''Window frames starting with unbounded following or ending in unbounded preceding make no sense'')
      else
        let range_mode = frame_option 1 opts;
            start =
              (if frame_option 4 opts then UNBOUNDED_PRECEDING
               else if frame_option 10 opts then (if range_mode then EXPR_PRECEDING_RANGE else EXPR_PRECEDING_ROWS)
               else if frame_option 12 opts then (if range_mode then EXPR_FOLLOWING_RANGE else EXPR_FOLLOWING_ROWS)
               else if frame_option 8 opts then (if range_mode then CURRENT_ROW_RANGE else CURRENT_ROW_ROWS)
               else INVALID_BOUNDARY);
            end =
              (if frame_option 7 opts then UNBOUNDED_FOLLOWING
               else if frame_option 11 opts then (if range_mode then EXPR_PRECEDING_RANGE else EXPR_PRECEDING_ROWS)
               else if frame_option 13 opts then (if range_mode then EXPR_FOLLOWING_RANGE else EXPR_FOLLOWING_ROWS)
               else if frame_option 9 opts then (if range_mode then CURRENT_ROW_RANGE else CURRENT_ROW_ROWS)
               else INVALID_BOUNDARY)
        in Inr (start, end))"

definition aggregate_names :: "string list" where
  "aggregate_names = [''min'', ''max'', ''first'', ''last'', ''sum'', ''count'', ''rank'', ''row_number'']"

definition rewritten_name :: "string \<Rightarrow> 'd bound_expr list \<Rightarrow> string" where
  "rewritten_name func_name args = (if func_name = ''count'' \<and> args = [] \<or> func_name = ''row_number'' then ''count_star'' else func_name)"

text \<open>Left-associative chains of \<open>AND\<close> and \<open>OR\<close>.\<close>

definition BindBoolOp :: "PGBoolExprType \<Rightarrow> 'd bound_expr list \<Rightarrow> 'd bound_expr result" where
  "BindBoolOp boolop exprs =
     (case boolop of
        PG_NOT_EXPR \<Rightarrow> (case exprs of [e] \<Rightarrow> Inr (BoundUnaryOp ''not'' e) | _ \<Rightarrow> Inl (Thrown ''NOT should have 1 arg''))
      | _ \<Rightarrow>
          (case exprs of
             e1 # e2 # es \<Rightarrow>
               let op_name = (if boolop = PG_AND_EXPR then ''and'' else ''or'')
               in Inr (foldl (BoundBinaryOp op_name) (BoundBinaryOp op_name e1 e2) es)
           | _ \<Rightarrow> Inl (Thrown (if boolop = PG_AND_EXPR then ''AND should have at least 1 arg'' else ''OR should have at least 1 arg''))))"

definition BindOperator :: "string \<Rightarrow> 'd bound_expr option \<Rightarrow> 'd bound_expr option \<Rightarrow> 'd bound_expr result" where
  "BindOperator name left_expr right_expr =
     (case (left_expr, right_expr) of
        (Some l, Some r) \<Rightarrow> Inr (BoundBinaryOp name l r)
      | (None, Some r) \<Rightarrow> Inr (BoundUnaryOp name r)
      | _ \<Rightarrow> Inl (Thrown ''unsupported AExpr: left == null while right != null''))"

definition bind_direction :: "PGSortByDir \<Rightarrow> OrderByType result" where
  "bind_direction dir =
     (case dir of PG_SORTBY_DEFAULT \<Rightarrow> Inr OrderByDefault | PG_SORTBY_ASC \<Rightarrow> Inr ASC | PG_SORTBY_DESC \<Rightarrow> Inr DESC
      | SORTBY_USING \<Rightarrow> Inl (Thrown ''unimplemented order by type''))"

definition bind_nulls :: "PGSortByNulls \<Rightarrow> OrderByNullType" where
  "bind_nulls nulls = (case nulls of PG_SORTBY_NULLS_DEFAULT \<Rightarrow> NullsDefault | PG_SORTBY_NULLS_FIRST \<Rightarrow> NULLS_FIRST | PG_SORTBY_NULLS_LAST \<Rightarrow> NULLS_LAST)"

definition optional_expr :: "('n \<Rightarrow> 'd bound_expr result) \<Rightarrow> 'n option \<Rightarrow> 'd bound_expr option result" where
  "optional_expr f n = (case n of None \<Rightarrow> Inr None | Some e \<Rightarrow> rbind (f e) (\<lambda>e'. Inr (Some e')))"

lemma optional_expr_cong [fundef_cong]:
  "n = n' \<Longrightarrow> (\<And>e. n' = Some e \<Longrightarrow> f e = g e) \<Longrightarrow> optional_expr f n = optional_expr g n'"
  by (auto simp: optional_expr_def split: option.splits)

lemma rbind_cong [fundef_cong]: "m = m' \<Longrightarrow> (\<And>x. m' = Inr x \<Longrightarrow> k x = k' x) \<Longrightarrow> rbind m k = rbind m' k'"
  by (cases m') auto

text \<open>\<open>BindExpressions\<close> is the loop over the arguments of a call, \<open>BindListItems\<close> the one of \<open>BindExpressionList\<close>, which
  does not take a star, and \<open>BindSortItems\<close> the one of \<open>BindSort\<close>.\<close>

fun BindExpression :: "'d machine \<Rightarrow> 'd bind_state \<Rightarrow> pg_node \<Rightarrow> 'd bound_expr result"
  and BindExpressions :: "'d machine \<Rightarrow> 'd bind_state \<Rightarrow> pg_node list \<Rightarrow> 'd bound_expr list result"
  and BindListItems :: "'d machine \<Rightarrow> 'd bind_state \<Rightarrow> pg_node list \<Rightarrow> 'd bound_expr list result"
  and BindSortItems :: "'d machine \<Rightarrow> 'd bind_state \<Rightarrow> pg_node list \<Rightarrow> 'd bound_order_by list result"
  and BindWindowExpression :: "'d machine \<Rightarrow> 'd bind_state \<Rightarrow> string \<Rightarrow> 'd bound_expr list \<Rightarrow> pg_window \<Rightarrow> 'd bound_expr result" where
  "BindExpression M b (PGColumnRef parts) = BindColumnRef b parts"
| "BindExpression M b (PGAConst v) = BindConstant M v"
| "BindExpression M b (PGResTarget name e) =
     (case e of
        None \<Rightarrow> Inl Assertion
      | Some e' \<Rightarrow> rbind (BindExpression M b e') (\<lambda>expr. Inr (case name of None \<Rightarrow> expr | Some n \<Rightarrow> BoundAlias n expr)))"
| "BindExpression M b (PGAStar rel) = BindStar rel"
| "BindExpression M b (PGFuncCall name args agg_distinct over) =
     (let function_name = string_lower name in
      rbind (BindExpressions M b args) (\<lambda>call_args.
      if function_name \<in> set aggregate_names
      then (let function_name' = rewritten_name function_name call_args in
            case over of
              None \<Rightarrow> Inr (BoundAggCall function_name' agg_distinct call_args)
            | Some w \<Rightarrow>
                if agg_distinct then Inl (Thrown ''DISTINCT is not supported in window functions'')
                else BindWindowExpression M b function_name' call_args w)
      else Inr (BoundFuncCall function_name call_args)))"
| "BindExpression M b (PGAExpr kind name lexpr rexpr) =
     (if kind \<noteq> PG_AEXPR_OP then Inl (Thrown ''unsupported op in AExpr'')
      else rbind (optional_expr (BindExpression M b) lexpr) (\<lambda>left_expr.
           rbind (optional_expr (BindExpression M b) rexpr) (\<lambda>right_expr. BindOperator name left_expr right_expr)))"
| "BindExpression M b (PGBoolExpr boolop args) =
     rbind (if args = [] then Inl Undefined else BindListItems M b args) (BindBoolOp boolop)"
| "BindExpression M b node = Inl (Thrown (''Expr of type '' @ NodeTagToString node @ '' not implemented''))"
| "BindExpressions M b [] = Inr []"
| "BindExpressions M b (n # ns) = rbind (BindExpression M b n) (\<lambda>e. rbind (BindExpressions M b ns) (\<lambda>es. Inr (e # es)))"
| "BindListItems M b [] = Inr []"
| "BindListItems M b (n # ns) =
     rbind (BindExpression M b n) (\<lambda>e.
       if is_star e then Inl (Thrown ''unsupported * in expression list'')
       else rbind (BindListItems M b ns) (\<lambda>es. Inr (e # es)))"
| "BindSortItems M b [] = Inr []"
| "BindSortItems M b (n # ns) =
     (case n of
        PGSortBy target dir nulls \<Rightarrow>
          rbind (bind_direction dir) (\<lambda>type.
          rbind (BindExpression M b target) (\<lambda>e.
          rbind (BindSortItems M b ns) (\<lambda>order_by. Inr ((type, bind_nulls nulls, e) # order_by))))
      | _ \<Rightarrow> Inl (Thrown ''unsupported order by node''))"
| "BindWindowExpression M b func_name call_args (PGWindowDef partition_clause order_clause start_offset end_offset opts) =
     rbind (BindListItems M b partition_clause) (\<lambda>partition_by.
     rbind (BindSortItems M b order_clause) (\<lambda>sorting.
     rbind (optional_expr (BindExpression M b) start_offset) (\<lambda>start_expr.
     rbind (optional_expr (BindExpression M b) end_offset) (\<lambda>end_expr.
     rbind (BindWindowFrame opts) (\<lambda>(start, end).
       Inr (BoundWindow func_name call_args partition_by sorting start_expr end_expr start end))))))"

text \<open>A null list is dereferenced.\<close>

definition BindExpressionList :: "'d machine \<Rightarrow> 'd bind_state \<Rightarrow> pg_node list \<Rightarrow> 'd bound_expr list result" where
  "BindExpressionList M b list = (if list = [] then Inl Undefined else BindListItems M b list)"

end
