(* ===== verification/Binder.thy ===== *)
theory Binder
  imports Binder_Exprs Planner
begin

section \<open>The binder\<close>

text \<open>
  The other part of \<^verbatim>\<open>src/binder/\<close>: from a parse tree to a bound statement (\<^verbatim>\<open>bind_select.cpp\<close>,
  \<^verbatim>\<open>bind_insert.cpp\<close>, \<^verbatim>\<open>bind_create.cpp\<close>, \<^verbatim>\<open>bind_variable.cpp\<close>, \<^verbatim>\<open>transformer.cpp\<close>). \<open>BindSelect\<close>, \<open>BindTableRef\<close>
  and \<open>BindSubquery\<close> call each other as the code does; what \<open>BindSelect\<close> does with the other clauses once the
  table is bound is an operation of its own.
\<close>

subsection \<open>Clauses\<close>

text \<open>The loop over the select list, with what its variables hold.\<close>

fun bind_select_items :: "'d machine \<Rightarrow> 'd bind_state \<Rightarrow> pg_node list \<Rightarrow> 'd bound_expr list \<Rightarrow> bool \<Rightarrow> bool \<Rightarrow> bool \<Rightarrow> 'd bound_expr list result" where
  "bind_select_items M b [] select_list is_select_star has_agg has_window_agg =
     (if has_agg \<and> has_window_agg then Inl (Thrown ''cannot have both normal agg and window agg in same query'') else Inr select_list)"
| "bind_select_items M b (n # ns) select_list is_select_star has_agg has_window_agg =
     rbind (BindExpression M b n) (\<lambda>expr.
       if is_star expr then
         (if select_list \<noteq> [] then Inl (Thrown ''select * cannot have other expressions in list'')
          else rbind (case table_scope b of None \<Rightarrow> Inl Undefined | Some t \<Rightarrow> GetAllColumns (cte_scope b) t) (\<lambda>cols.
            bind_select_items M b ns (map BoundColumnRef cols) True has_agg has_window_agg))
       else if is_select_star then Inl (Thrown ''select * cannot have other expressions in list'')
       else rbind (HasAggregation expr) (\<lambda>agg.
         bind_select_items M b ns (select_list @ [expr]) is_select_star (has_agg \<or> agg) (has_window_agg \<or> HasWindowFunction expr)))"

definition BindSelectList :: "'d machine \<Rightarrow> 'd bind_state \<Rightarrow> pg_node list \<Rightarrow> 'd bound_expr list result" where
  "BindSelectList M b list = bind_select_items M b list [] False False False"

fun bind_value_rows :: "'d machine \<Rightarrow> 'd bind_state \<Rightarrow> pg_node list list \<Rightarrow> 'd bound_expr list list \<Rightarrow> 'd bound_expr list list result" where
  "bind_value_rows M b [] all_values =
     (if all_values = [] then Inl (Thrown ''at least one row of values should be provided'') else Inr all_values)"
| "bind_value_rows M b (row # rows) all_values =
     rbind (BindExpressionList M b row) (\<lambda>es.
     if all_values \<noteq> [] \<and> length (hd all_values) \<noteq> length es then Inl (Thrown ''values must have the same length'')
     else bind_value_rows M b rows (all_values @ [es]))"

definition BindValuesList :: "'d machine \<Rightarrow> 'd bind_state \<Rightarrow> pg_node list list \<Rightarrow> 'd bound_expr list list result" where
  "BindValuesList M b rows = bind_value_rows M b rows []"

text \<open>A clause that is left out is the invalid expression.\<close>

definition bind_clause :: "'d machine \<Rightarrow> 'd bind_state \<Rightarrow> pg_node option \<Rightarrow> 'd bound_expr result" where
  "bind_clause M b n = (case n of None \<Rightarrow> Inr InvalidExpr | Some e \<Rightarrow> BindExpression M b e)"

definition bind_distinct :: "pg_node option list \<Rightarrow> bool result" where
  "bind_distinct d =
     (case d of [] \<Rightarrow> Inr False | None # _ \<Rightarrow> Inr True | Some _ # _ \<Rightarrow> Inl (Thrown ''DISTINCT ON is not supported''))"

definition BindGroupBy :: "'d machine \<Rightarrow> 'd bind_state \<Rightarrow> pg_node list \<Rightarrow> 'd bound_expr list result" where
  "BindGroupBy M b list = (if list = [] then Inr [] else BindExpressionList M b list)"

text \<open>What \<open>BindSelect\<close> does once the table is bound and in scope.\<close>

definition bind_clauses :: "'d machine \<Rightarrow> 'd bind_state \<Rightarrow> pg_select \<Rightarrow> 'd table_ref \<Rightarrow> 'd subquery list \<Rightarrow> 'd select result" where
  "bind_clauses M b s t ctes =
     rbind (bind_distinct (pg_distinct s)) (\<lambda>is_distinct.
     rbind (if pg_targets s = [] then Inl (Thrown ''no select list'') else BindSelectList M b (pg_targets s)) (\<lambda>select_list.
     rbind (bind_clause M b (pg_where s)) (\<lambda>where_expr.
     rbind (BindGroupBy M b (pg_group s)) (\<lambda>group_by.
     rbind (bind_clause M b (pg_having s)) (\<lambda>having_expr.
     rbind (bind_clause M b (pg_limit s)) (\<lambda>limit_count.
     rbind (bind_clause M b (pg_offset s)) (\<lambda>limit_offset.
     rbind (BindSortItems M b (pg_sort s)) (\<lambda>sorting.
       Inr (SelectStatement t select_list where_expr group_by having_expr limit_count limit_offset sorting ctes is_distinct)))))))))"

text \<open>\<open>VALUES\<close>: the columns have their numbers as names.\<close>

definition bind_values :: "'d machine \<Rightarrow> 'd bind_state \<Rightarrow> pg_node list list \<Rightarrow> ('d select \<times> 'd bind_state) result" where
  "bind_values M b rows =
     (let values_list_name = numbered_name ''__values#'' (item_id b);
          b' = b\<lparr>item_id := item_id b + 1\<rparr>
      in rbind (BindValuesList M b' rows) (\<lambda>value_list.
         case value_list of
           [] \<Rightarrow> Inl Undefined
         | row # _ \<Rightarrow>
             Inr (SelectStatement (ExpressionListRef value_list values_list_name)
               (map (\<lambda>i. BoundColumnRef [values_list_name, print_nat i]) [0..<length row])
               InvalidExpr [] InvalidExpr InvalidExpr InvalidExpr [] [] False, b')))"

subsection \<open>Tables\<close>

definition BindBaseTableRef :: "'i catalog \<Rightarrow> string \<Rightarrow> string option \<Rightarrow> base_table_ref result" where
  "BindBaseTableRef cat table_name alias =
     rbind (GetTable table_name cat) (\<lambda>info.
       case info of
         None \<Rightarrow> Inl (Thrown (''invalid table '' @ table_name))
       | Some i \<Rightarrow> Inr \<lparr>bt_table = table_name, bt_oid = ti_oid i, bt_alias = alias, bt_schema = ti_schema i\<rparr>)"

definition BindRangeVar :: "'i catalog \<Rightarrow> 'd bind_state \<Rightarrow> string \<Rightarrow> string option \<Rightarrow> 'd table_ref result" where
  "BindRangeVar cat b relname alias =
     (case cte_scope b of
        Some cs \<Rightarrow>
          (case find (\<lambda>q. sq_alias q = relname) cs of
             Some q \<Rightarrow> Inr (CTERef (sq_alias q) (case alias of Some a \<Rightarrow> a | None \<Rightarrow> relname))
           | None \<Rightarrow> rbind (BindBaseTableRef cat relname alias) (\<lambda>t. Inr (BaseTableRef t)))
      | None \<Rightarrow> rbind (BindBaseTableRef cat relname alias) (\<lambda>t. Inr (BaseTableRef t)))"

fun join_code :: "PGJoinType \<Rightarrow> nat" where
  "join_code PG_JOIN_INNER = 0"
| "join_code PG_JOIN_LEFT = 1"
| "join_code PG_JOIN_FULL = 2"
| "join_code PG_JOIN_RIGHT = 3"
| "join_code PG_JOIN_SEMI = 4"
| "join_code PG_JOIN_ANTI = 5"
| "join_code PG_JOIN_UNIQUE_OUTER = 6"
| "join_code PG_JOIN_UNIQUE_INNER = 7"

definition bind_join_type :: "PGJoinType \<Rightarrow> join_type result" where
  "bind_join_type t =
     (case t of PG_JOIN_INNER \<Rightarrow> Inr INNER | PG_JOIN_LEFT \<Rightarrow> Inr LEFT | PG_JOIN_FULL \<Rightarrow> Inr OUTER | PG_JOIN_RIGHT \<Rightarrow> Inr RIGHT
      | _ \<Rightarrow> Inl (Thrown (''Join type '' @ print_nat (join_code t) @ '' not supported'')))"

text \<open>The names of the items of a subquery: of a column, its own name, of an alias the alias; the others are numbered.\<close>

fun item_names :: "'d bound_expr list \<Rightarrow> nat \<Rightarrow> string list list \<times> nat" where
  "item_names [] n = ([], n)"
| "item_names (e # es) n =
     (case e of
        BoundColumnRef col_name \<Rightarrow> (let (names, n') = item_names es n in (col_name # names, n'))
      | BoundAlias alias _ \<Rightarrow> (let (names, n') = item_names es n in ([alias] # names, n'))
      | _ \<Rightarrow> (let (names, n') = item_names es (n + 1) in ([numbered_name ''__item#'' n] # names, n')))"

definition name_subquery :: "string \<Rightarrow> 'd select \<Rightarrow> 'd bind_state \<Rightarrow> 'd subquery \<times> 'd bind_state" where
  "name_subquery alias s b = (let (names, n) = item_names (st_select_list s) (item_id b) in (Subquery s names alias, b\<lparr>item_id := n\<rparr>))"

subsection \<open>Queries\<close>

text \<open>The scope of the condition of a join is the join itself, whose condition is still null; here it is the invalid expression, which
  the binder does not look at.\<close>

definition bind_condition :: "'d machine \<Rightarrow> 'd bind_state \<Rightarrow> join_type \<Rightarrow> 'd table_ref \<Rightarrow> 'd table_ref \<Rightarrow> pg_node option \<Rightarrow> 'd table_ref result" where
  "bind_condition M b type l r quals =
     (case quals of
        None \<Rightarrow> Inl Assertion
      | Some q \<Rightarrow> rbind (BindExpression M (b\<lparr>table_scope := Some (JoinRef type l r InvalidExpr)\<rparr>) q) (\<lambda>condition. Inr (JoinRef type l r condition)))"

function (sequential) BindSelect :: "'d machine \<Rightarrow> 'i catalog \<Rightarrow> 'd bind_state \<Rightarrow> pg_select \<Rightarrow> ('d select \<times> 'd bind_state) result"
  and BindSubquery :: "'d machine \<Rightarrow> 'i catalog \<Rightarrow> 'd bind_state \<Rightarrow> pg_select \<Rightarrow> string \<Rightarrow> ('d subquery \<times> 'd bind_state) result"
  and BindCTE :: "'d machine \<Rightarrow> 'i catalog \<Rightarrow> 'd bind_state \<Rightarrow> bool \<Rightarrow> pg_cte list \<Rightarrow> ('d subquery list \<times> 'd bind_state) result"
  and BindWith :: "'d machine \<Rightarrow> 'i catalog \<Rightarrow> 'd bind_state \<Rightarrow> pg_with option \<Rightarrow> ('d subquery list \<times> 'd bind_state) result"
  and BindFrom :: "'d machine \<Rightarrow> 'i catalog \<Rightarrow> 'd bind_state \<Rightarrow> pg_node list \<Rightarrow> ('d table_ref \<times> 'd bind_state) result"
  and BindTables :: "'d machine \<Rightarrow> 'i catalog \<Rightarrow> 'd bind_state \<Rightarrow> 'd table_ref \<Rightarrow> pg_node list \<Rightarrow> ('d table_ref \<times> 'd bind_state) result"
  and BindTableRef :: "'d machine \<Rightarrow> 'i catalog \<Rightarrow> 'd bind_state \<Rightarrow> pg_node \<Rightarrow> ('d table_ref \<times> 'd bind_state) result" where
  "BindSelect M cat b (PGSelectStmt dist targets from cond grouping having rows sorting offset limit with_clause) =
     (if rows \<noteq> [] then rbind (bind_values M (open_context b) rows) (\<lambda>(s, b1). Inr (s, close_context b b1))
      else
        rbind (BindWith M cat (open_context b) with_clause) (\<lambda>(ctes, b1).
        rbind (BindFrom M cat b1 from) (\<lambda>(t, b2).
        rbind (bind_clauses M (b2\<lparr>table_scope := Some t\<rparr>)
                 (PGSelectStmt dist targets from cond grouping having rows sorting offset limit with_clause) t ctes) (\<lambda>s.
          Inr (s, close_context b b2)))))"
| "BindSubquery M cat b q alias = rbind (BindSelect M cat b q) (\<lambda>(s, b1). Inr (name_subquery alias s b1))"
| "BindCTE M cat b recursive [] = Inr ([], b)"
| "BindCTE M cat b recursive (PGCommonTableExpr ctename ctequery cterecursive # cs) =
     (case ctequery of
        None \<Rightarrow> Inl (Thrown ''SELECT not found'')
      | Some q \<Rightarrow>
          if cterecursive \<or> recursive then Inl (Thrown ''recursive CTE not supported'')
          else rbind (BindSubquery M cat b q ctename) (\<lambda>(sq, b1).
               rbind (BindCTE M cat b1 recursive cs) (\<lambda>(sqs, b2). Inr (sq # sqs, b2))))"
| "BindWith M cat b None = Inr ([], b)"
| "BindWith M cat b (Some (PGWithClause ctes recursive)) =
     (if ctes = [] then Inl Undefined
      else rbind (BindCTE M cat b recursive ctes) (\<lambda>(sqs, b1). Inr (sqs, b1\<lparr>cte_scope := Some sqs\<rparr>)))"
| "BindFrom M cat b [] = Inr (EmptyTableRef, b)"
| "BindFrom M cat b (n # ns) =
     rbind (BindTableRef M cat (open_context b) n) (\<lambda>(t, b1).
     rbind (BindTables M cat b1 t ns) (\<lambda>(t', b2). Inr (t', close_context b b2)))"
| "BindTables M cat b t [] = Inr (t, b)"
| "BindTables M cat b t (n # ns) =
     rbind (BindTableRef M cat b n) (\<lambda>(t', b1). BindTables M cat b1 (CrossProductRef t t') ns)"
| "BindTableRef M cat b (PGRangeVar relname alias) = rbind (BindRangeVar cat b relname alias) (\<lambda>t. Inr (t, b))"
| "BindTableRef M cat b (PGJoinExpr jointype larg rarg quals) =
     rbind (bind_join_type jointype) (\<lambda>join_type.
     rbind (BindTableRef M cat (open_context b) larg) (\<lambda>(l, b1).
     rbind (BindTableRef M cat b1 rarg) (\<lambda>(r, b2).
     rbind (bind_condition M b2 join_type l r quals) (\<lambda>join_ref. Inr (join_ref, close_context b b2)))))"
| "BindTableRef M cat b (PGRangeSubselect lateral q alias) =
     (if lateral then Inl (Thrown ''LATERAL in subquery is not supported'')
      else
        (case alias of
           Some a \<Rightarrow> rbind (BindSubquery M cat b q a) (\<lambda>(sq, b1). Inr (SubqueryRef sq, b1))
         | None \<Rightarrow>
             rbind (BindSubquery M cat (b\<lparr>item_id := item_id b + 1\<rparr>) q (numbered_name ''__subquery#'' (item_id b))) (\<lambda>(sq, b1).
               Inr (SubqueryRef sq, b1))))"
| "BindTableRef M cat b node = Inl (Thrown (''unsupported node type: '' @ NodeTagToString node))"
  by pat_completeness auto

text \<open>Each operation is called on a smaller part of the parse tree.\<close>

termination
  by (relation "measure (case_sum
        (case_sum (\<lambda>(M, cat, b, s). 2 * size s) (case_sum (\<lambda>(M, cat, b, q, alias). 2 * size q + 1) (\<lambda>(M, cat, b, recursive, cs). 2 * size_list size cs)))
        (case_sum (case_sum (\<lambda>(M, cat, b, w). 2 * size_option size w) (\<lambda>(M, cat, b, ns). 2 * size_list size ns))
          (case_sum (\<lambda>(M, cat, b, t, ns). 2 * size_list size ns) (\<lambda>(M, cat, b, n). 2 * size n))))") auto

subsection \<open>Statements on tables\<close>

definition BindInsert :: "'d machine \<Rightarrow> 'i catalog \<Rightarrow> 'd bind_state \<Rightarrow> string \<Rightarrow> pg_node list \<Rightarrow> pg_select option \<Rightarrow> ('d bound_statement \<times> 'd bind_state) result" where
  "BindInsert M cat b relname cols select_stmt =
     (if cols \<noteq> [] then Inl (Thrown ''insert only supports all columns, don't specify columns'')
      else rbind (BindBaseTableRef cat relname None) (\<lambda>t.
        if StartsWith (bt_table t) ''__'' then Inl (Thrown (''invalid table for insert: '' @ bt_table t))
        else
          (case select_stmt of
             None \<Rightarrow> Inl Undefined
           | Some s \<Rightarrow> rbind (BindSelect M cat b s) (\<lambda>(select, b1). Inr (InsertStmt t select, b1)))))"

definition bind_filter :: "'d machine \<Rightarrow> 'd bind_state \<Rightarrow> pg_node option \<Rightarrow> 'd bound_expr result" where
  "bind_filter M b cond = (case cond of None \<Rightarrow> rbind (GetBooleanValue 1) (\<lambda>v. Inr (BoundConstant v)) | Some e \<Rightarrow> BindExpression M b e)"

definition table_context :: "base_table_ref \<Rightarrow> 'd bind_state \<Rightarrow> 'd bind_state" where
  "table_context t b = (open_context b)\<lparr>table_scope := Some (BaseTableRef t)\<rparr>"

definition BindDelete :: "'d machine \<Rightarrow> 'i catalog \<Rightarrow> 'd bind_state \<Rightarrow> string \<Rightarrow> pg_node option \<Rightarrow> 'd bound_statement result" where
  "BindDelete M cat b relname cond =
     rbind (BindBaseTableRef cat relname None) (\<lambda>t.
     rbind (bind_filter M (table_context t b) cond) (\<lambda>expr. Inr (DeleteStmt t expr)))"

fun bind_update_targets :: "'d machine \<Rightarrow> 'd bind_state \<Rightarrow> base_table_ref \<Rightarrow> (string \<times> pg_node option) list \<Rightarrow>
    (string list option \<times> 'd bound_expr) list result" where
  "bind_update_targets M b t [] = Inr []"
| "bind_update_targets M b t ((name, v) # targets) =
     rbind (ResolveColumnRefFromBaseTableRef t [name]) (\<lambda>col.
     rbind (case v of None \<Rightarrow> Inl Assertion | Some e \<Rightarrow> BindExpression M b e) (\<lambda>expr.
     rbind (bind_update_targets M b t targets) (\<lambda>target_expr. Inr ((col, expr) # target_expr))))"

definition BindUpdate :: "'d machine \<Rightarrow> 'i catalog \<Rightarrow> 'd bind_state \<Rightarrow> string \<Rightarrow> bool \<Rightarrow> bool \<Rightarrow> pg_node option \<Rightarrow>
    (string \<times> pg_node option) list \<Rightarrow> 'd bound_statement result" where
  "BindUpdate M cat b relname has_with has_from cond targets =
     (if has_with then Inl (Thrown ''update with clause not supported yet'')
      else if has_from then Inl (Thrown ''update from clause not supported yet'')
      else
        rbind (BindBaseTableRef cat relname None) (\<lambda>t.
        rbind (bind_filter M (table_context t b) cond) (\<lambda>filter_expr.
        rbind (bind_update_targets M (table_context t b) t targets) (\<lambda>target_expr.
          Inr (UpdateStmt t filter_expr target_expr)))))"

subsection \<open>Definitions of tables and indexes\<close>

text \<open>The number a modifier prints as; \<open>stoi\<close> throws what it cannot read, and the \<open>int\<close> becomes a \<open>uint32_t\<close>.\<close>

definition type_modifier :: "'d machine \<Rightarrow> 'd bind_state \<Rightarrow> string \<Rightarrow> pg_node list \<Rightarrow> nat result" where
  "type_modifier M b missing typmods =
     rbind (BindExpressionList M b typmods) (\<lambda>exprs.
       case exprs of
         [e] \<Rightarrow>
           (case e of
              BoundConstant v \<Rightarrow>
                rbind (Value_ToString M v) (\<lambda>s.
                  case parse_int 32 s of
                    Parsed i \<Rightarrow> Inr (nat (take_bit 32 i))
                  | Out_of_range \<Rightarrow> Inl (Thrown ''std::out_of_range'')
                  | Invalid_argument \<Rightarrow> Inl (Thrown ''std::invalid_argument''))
            | _ \<Rightarrow> Inl (Thrown ''std::bad_cast''))
       | _ \<Rightarrow> Inl (Thrown missing))"

definition BindColumnDefinition :: "'d machine \<Rightarrow> 'd bind_state \<Rightarrow> pg_column_def \<Rightarrow> column result" where
  "BindColumnDefinition M b cdef =
     (let colname = (case cd_name cdef of None \<Rightarrow> [] | Some n \<Rightarrow> n);
          name = cd_type cdef
      in
      if cd_collated cdef then Inl (Thrown ''coll clause on column is not supported'')
      else if name = ''int4'' then Column colname INTEGER
      else if name = ''double'' then Column colname DECIMAL
      else if name = ''bool'' then Column colname BOOLEAN
      else if name = ''varchar'' then
        rbind (type_modifier M b ''should specify max length for varchar field'' (cd_typmods cdef)) (Column_varlen colname VARCHAR)
      else if name = ''vector'' then
        rbind (type_modifier M b ''should specify vector length'' (cd_typmods cdef)) (Column_varlen colname VECTOR)
      else Inl (Thrown (''unsupported type: '' @ name)))"

fun bind_column_constraints :: "string \<Rightarrow> pg_constraint list \<Rightarrow> string list \<Rightarrow> string list result" where
  "bind_column_constraints colname [] pk = Inr pk"
| "bind_column_constraints colname ((contype, ks) # cs) pk =
     (if contype \<noteq> PG_CONSTR_PRIMARY then Inl (Thrown ''unsupported constraint'')
      else if pk \<noteq> [] then Inl (Thrown ''cannot have two primary keys'')
      else bind_column_constraints colname cs [colname])"

text \<open>For a constraint of the table the code goes on through all the elements that follow it, whatever they are,
  and reads each as a constraint.\<close>

fun bind_table_constraints :: "pg_table_elt list \<Rightarrow> string list \<Rightarrow> string list result" where
  "bind_table_constraints [] pk = Inr pk"
| "bind_table_constraints (e # es) pk =
     (case e of
        PGConstraint (contype, ks) \<Rightarrow>
          if contype \<noteq> PG_CONSTR_PRIMARY then Inl (Thrown ''unsupported constraint'')
          else if pk \<noteq> [] then Inl (Thrown ''cannot have two primary keys'')
          else bind_table_constraints es ks
      | _ \<Rightarrow> Inl Undefined)"

fun bind_table_elts :: "'d machine \<Rightarrow> 'd bind_state \<Rightarrow> pg_table_elt list \<Rightarrow> column list \<Rightarrow> string list \<Rightarrow> (column list \<times> string list) result" where
  "bind_table_elts M b [] cols pk = Inr (cols, pk)"
| "bind_table_elts M b (e # es) cols pk =
     (case e of
        PGColumnDef cdef \<Rightarrow>
          rbind (BindColumnDefinition M b cdef) (\<lambda>centry.
          rbind (bind_column_constraints (column_name centry) (cd_constraints cdef) pk) (\<lambda>pk'.
            bind_table_elts M b es (cols @ [centry]) pk'))
      | PGConstraint c \<Rightarrow> rbind (bind_table_constraints (e # es) pk) (\<lambda>pk'. bind_table_elts M b es cols pk')
      | PGOtherElt \<Rightarrow> Inl (Thrown ''ColumnDef type not handled yet''))"

definition BindCreate :: "'d machine \<Rightarrow> 'd bind_state \<Rightarrow> string \<Rightarrow> pg_table_elt list \<Rightarrow> 'd bound_statement result" where
  "BindCreate M b relname elts =
     rbind (bind_table_elts M b elts [] []) (\<lambda>(cols, pk).
       if cols = [] then Inl (Thrown ''should have at least 1 column'') else Inr (CreateStmt relname cols pk))"

fun bind_index_elems :: "'d bind_state \<Rightarrow> base_table_ref \<Rightarrow> pg_index_elem list \<Rightarrow> (string list \<times> string) list result" where
  "bind_index_elems b t [] = Inr []"
| "bind_index_elems b t ((name, opclass) # elems) =
     (case name of
        None \<Rightarrow> Inl (Thrown ''create index by expr is not supported yet'')
      | Some n \<Rightarrow>
          rbind (ResolveColumn (b\<lparr>table_scope := Some (BaseTableRef t)\<rparr>) [n] :: 'd bound_expr result) (\<lambda>column_ref.
          case column_ref of
            BoundColumnRef col_name \<Rightarrow>
              rbind (bind_index_elems b t elems) (\<lambda>cols. Inr ((col_name, case opclass of [] \<Rightarrow> [] | opt # _ \<Rightarrow> opt) # cols))
          | _ \<Rightarrow> Inl (Thrown ''std::bad_cast'')))"

text \<open>Without an argument the value of an option is not initialized; one that is not a number is read as if it were.\<close>

fun index_options :: "pg_def_elem list \<Rightarrow> (string \<times> int) list result" where
  "index_options [] = Inr []"
| "index_options ((name, arg) # elems) =
     (case arg of
        Some (PGValue (PGInteger i)) \<Rightarrow> rbind (index_options elems) (\<lambda>opts. Inr ((name, cast 32 i) # opts))
      | _ \<Rightarrow> Inl Undefined)"

definition BindIndex :: "'i catalog \<Rightarrow> 'd bind_state \<Rightarrow> string option \<Rightarrow> string \<Rightarrow> string option \<Rightarrow> pg_index_elem list \<Rightarrow> pg_def_elem list \<Rightarrow>
    'd bound_statement result" where
  "BindIndex cat b idxname relname access_method elems opts =
     rbind (BindBaseTableRef cat relname None) (\<lambda>t.
     rbind (bind_index_elems b t elems) (\<lambda>cols.
     let index_type = (case access_method of None \<Rightarrow> [] | Some m \<Rightarrow> if m = ''art'' then [] else m) in
     rbind (index_options opts) (\<lambda>options.
     case idxname of
       None \<Rightarrow> Inl Undefined
     | Some n \<Rightarrow> Inr (IndexStmt n t (map fst cols) index_type (map snd cols) options))))"

subsection \<open>Other statements\<close>

definition BindVariableSet :: "'d machine \<Rightarrow> 'd bind_state \<Rightarrow> string \<Rightarrow> pg_node list \<Rightarrow> 'd bound_statement result" where
  "BindVariableSet M b name args =
     rbind (BindExpressionList M b args) (\<lambda>exprs.
       case exprs of
         [e] \<Rightarrow>
           (case e of
              BoundConstant v \<Rightarrow> rbind (Value_ToString M v) (\<lambda>s. Inr (VariableSetStmt name s))
            | _ \<Rightarrow> Inl (Thrown ''Only constant is supported''))
       | _ \<Rightarrow> Inl (Thrown ''Only exactly one arg is supported''))"

definition BindTransaction :: "PGTransactionStmtKind \<Rightarrow> 'd bound_statement result" where
  "BindTransaction kind =
     (case kind of
        PG_TRANS_STMT_COMMIT \<Rightarrow> Inr (TransactionStmt ''commit'')
      | PG_TRANS_STMT_ROLLBACK \<Rightarrow> Inr (TransactionStmt ''abort'')
      | PG_TRANS_STMT_BEGIN \<Rightarrow> Inr (TransactionStmt ''begin'')
      | _ \<Rightarrow> Inl (Thrown ''unsupported txn statement kind''))"

text \<open>The bits of \<open>ExplainOptions\<close>; every layer is explained unless the statement names some.\<close>

definition explain_flags :: "bool \<Rightarrow> bool \<Rightarrow> bool \<Rightarrow> bool \<Rightarrow> nat" where
  "explain_flags binding planning optimizing schemas = of_bool binding + 2 * of_bool planning + 4 * of_bool optimizing + 8 * of_bool schemas"

definition explain_options :: "pg_def_elem list \<Rightarrow> nat" where
  "explain_options elems =
     (if elems = [] then explain_flags True True True True
      else
        let given = (\<lambda>long short. list_ex (\<lambda>(name, _). name = long \<or> name = short) elems)
        in explain_flags (given ''binder'' ''b'') (given ''planner'' ''p'') (given ''optimizer'' ''o'') (given ''schema'' ''s''))"

fun BindStatement :: "'d machine \<Rightarrow> 'i catalog \<Rightarrow> 'd bind_state \<Rightarrow> pg_stmt \<Rightarrow> ('d bound_statement \<times> 'd bind_state) result" where
  "BindStatement M cat b (PGRawStmt stmt) = BindStatement M cat b stmt"
| "BindStatement M cat b (PGCreateStmt relname elts) = rbind (BindCreate M b relname elts) (\<lambda>s. Inr (s, b))"
| "BindStatement M cat b (PGInsertStmt relname cols select_stmt) = BindInsert M cat b relname cols select_stmt"
| "BindStatement M cat b (PGSelect s) = rbind (BindSelect M cat b s) (\<lambda>(select, b1). Inr (SelectStmt select, b1))"
| "BindStatement M cat b (PGExplainStmt stmt elems) =
     rbind (BindStatement M cat b stmt) (\<lambda>(s, b1). Inr (ExplainStmt s (explain_options elems), b1))"
| "BindStatement M cat b (PGDeleteStmt relname cond) = rbind (BindDelete M cat b relname cond) (\<lambda>s. Inr (s, b))"
| "BindStatement M cat b (PGUpdateStmt relname has_with has_from cond targets) =
     rbind (BindUpdate M cat b relname has_with has_from cond targets) (\<lambda>s. Inr (s, b))"
| "BindStatement M cat b (PGIndexStmt idxname relname access_method elems opts) =
     rbind (BindIndex cat b idxname relname access_method elems opts) (\<lambda>s. Inr (s, b))"
| "BindStatement M cat b (PGVariableSetStmt name args) = rbind (BindVariableSet M b name args) (\<lambda>s. Inr (s, b))"
| "BindStatement M cat b (PGVariableShowStmt name) = Inr (VariableShowStmt name, b)"
| "BindStatement M cat b (PGTransactionStmt kind) = rbind (BindTransaction kind) (\<lambda>s. Inr (s, b))"
| "BindStatement M cat b (PGOtherStmt tag) = Inl (Thrown tag)"

end
