(* ===== verification/Binder_Resolve.thy ===== *)
theory Binder_Resolve
  imports Binder Planner_Aggs
begin

section \<open>What a column name stands for\<close>

text \<open>
  A reference definition of column resolution: the columns of a \<open>FROM\<close> clause that a name fits. The binder resolves
  the name when there is just one, calls it not found when there is none, and ambiguous otherwise.
\<close>

text \<open>A table in a \<open>FROM\<close> clause: the name its columns are bound under, the name the query calls it by, and the
  names of its columns.\<close>

type_synonym column_source = "string \<times> string \<times> string list list"

fun table_columns :: "'d subquery list option \<Rightarrow> 'd table_ref \<Rightarrow> column_source list option" where
  "table_columns ctes (BaseTableRef t) = Some [(GetBoundTableName t, GetBoundTableName t, map (\<lambda>c. [column_name c]) (columns (bt_schema t)))]"
| "table_columns ctes (CrossProductRef l r) =
     (case (table_columns ctes l, table_columns ctes r) of (Some xs, Some ys) \<Rightarrow> Some (xs @ ys) | _ \<Rightarrow> None)"
| "table_columns ctes (JoinRef type l r condition) =
     (case (table_columns ctes l, table_columns ctes r) of (Some xs, Some ys) \<Rightarrow> Some (xs @ ys) | _ \<Rightarrow> None)"
| "table_columns ctes (SubqueryRef q) = Some [(sq_alias q, sq_alias q, sq_names q)]"
| "table_columns ctes (CTERef cte_name alias) =
     (case scope_cte ctes cte_name of Inr q \<Rightarrow> Some [(sq_alias q, alias, sq_names q)] | Inl _ \<Rightarrow> None)"
| "table_columns ctes t = None"

text \<open>The columns of a table that a name fits: the name is the end of the column's name, or the name of the table followed by
  such an end. A column that fits in both ways counts twice.\<close>

definition fitting :: "string list \<Rightarrow> column_source \<Rightarrow> string list list" where
  "fitting col_name src =
     (case src of (bound, name, ns) \<Rightarrow>
        map (\<lambda>n. bound # n) (filter (MatchSuffix col_name) ns @
          (if 1 < length col_name \<and> hd col_name = name then filter (MatchSuffix (List.tl col_name)) ns else [])))"

definition candidates :: "string list \<Rightarrow> column_source list \<Rightarrow> string list list" where
  "candidates col_name srcs = concat (map (fitting col_name) srcs)"

text \<open>The result of a search with these hits.\<close>

definition only_hit :: "'a list \<Rightarrow> 'a option result \<Rightarrow> bool" where
  "only_hit hits r \<longleftrightarrow> (if length hits = 0 then r = Inr None else if length hits = 1 then r = Inr (Some (hd hits)) else \<exists>m. r = Inl (Thrown m))"

lemma only_hit_iffs:
  assumes "only_hit hits r"
  shows "r = Inr (Some x) \<longleftrightarrow> hits = [x]" "r = Inr None \<longleftrightarrow> hits = []" "(\<exists>m. r = Inl (Thrown m)) \<longleftrightarrow> 1 < length hits"
  using assms by (cases hits; cases "List.tl hits"; force simp: only_hit_def)+

lemma only_hit_append:
  assumes "only_hit xs r" "only_hit ys r'"
  shows "only_hit (xs @ ys) (rbind r (\<lambda>a. rbind r' (\<lambda>b. either_column col_name a b)))"
proof (cases xs)
  case Nil
  then show ?thesis using assms by (cases r') (auto simp: only_hit_def either_column_def)
next
  case (Cons x xs')
  then show ?thesis using assms by (cases xs'; cases ys; cases "List.tl ys") (auto simp: only_hit_def either_column_def ambiguous_def)
qed

lemma only_hit_pick:
  assumes "only_hit xs r" "only_hit ys r'"
  shows "only_hit (map (\<lambda>n. p # n) (xs @ ys)) (rbind r (\<lambda>a. rbind r' (\<lambda>b. pick_resolved col_name place (Prepend a p) (Prepend b p))))"
proof (cases xs)
  case Nil
  then show ?thesis using assms by (cases r'; cases ys; cases "List.tl ys") (auto simp: only_hit_def pick_resolved_def Prepend_def)
next
  case (Cons x xs')
  then show ?thesis using assms
    by (cases xs'; cases ys; cases "List.tl ys") (auto simp: only_hit_def pick_resolved_def Prepend_def ambiguous_def)
qed

lemma names_searched: "only_hit ((case so_far of None \<Rightarrow> [] | Some n \<Rightarrow> [n]) @ filter (MatchSuffix col_name) ns) (resolve_in_names col_name ns so_far)"
proof (induction ns arbitrary: so_far)
  case Nil
  then show ?case by (cases so_far) (simp_all add: only_hit_def)
next
  case (Cons n ns)
  show ?case
  proof (cases so_far)
    case None
    then show ?thesis using Cons [of None] Cons [of "Some n"] by simp
  next
    case (Some m)
    then show ?thesis using Cons [of so_far] by (auto simp: only_hit_def ambiguous_def)
  qed
qed

lemma select_list_searched: "only_hit (filter (MatchSuffix col_name) ns) (ResolveColumnRefFromSelectList ns col_name)"
  using names_searched [of None] by (simp add: ResolveColumnRefFromSelectList_def)

text \<open>A schema is searched like a select list whose items are named after its columns.\<close>

lemma column_suffix: "col_name \<noteq> [] \<Longrightarrow> MatchSuffix col_name [c] \<longleftrightarrow> col_name = [string_lower c]"
  by (cases col_name) (auto simp: MatchSuffix_def)

lemma columns_as_names:
  "length col_name = 1 \<Longrightarrow>
   map_sum (\<lambda>_. ()) id (resolve_in_columns col_name cs so_far) = map_sum (\<lambda>_. ()) id (resolve_in_names col_name (map (\<lambda>c. [column_name c]) cs) so_far) \<and>
   (\<forall>e. resolve_in_columns col_name cs so_far = Inl e \<longrightarrow> (\<exists>m. e = Thrown m))"
  by (induction cs arbitrary: so_far) (auto simp: column_suffix ambiguous_def length_Suc_conv)

lemma schema_searched:
  assumes "col_name \<noteq> []"
  shows "only_hit (filter (MatchSuffix col_name) (map (\<lambda>c. [column_name c]) (columns s))) (ResolveColumnRefFromSchema s col_name)"
proof (cases "length col_name = 1")
  case True
  let ?ns = "map (\<lambda>c. [column_name c]) (columns s)"
  have "only_hit (filter (MatchSuffix col_name) ?ns) (resolve_in_names col_name ?ns None)" using names_searched [of None] by simp
  then show ?thesis using columns_as_names [OF True, of "columns s" None] True
    by (cases "resolve_in_columns col_name (columns s) None"; cases "resolve_in_names col_name ?ns None")
      (auto simp: only_hit_def ResolveColumnRefFromSchema_def split: if_splits)
next
  case False
  then have "\<not> MatchSuffix col_name [c]" for c using assms by (auto simp: column_suffix)
  then have "filter (MatchSuffix col_name) (map (\<lambda>c. [column_name c]) (columns s)) = []" by (auto simp: filter_empty_conv)
  then show ?thesis using False by (simp add: only_hit_def ResolveColumnRefFromSchema_def)
qed

lemma only_hit_if: "only_hit xs r \<Longrightarrow> only_hit (if c then xs else []) (if c then r else Inr None)"
  by (simp add: only_hit_def)

lemma table_searched:
  assumes "col_name \<noteq> []"
  shows "only_hit (fitting col_name (GetBoundTableName t, GetBoundTableName t, map (\<lambda>c. [column_name c]) (columns (bt_schema t))))
    (ResolveColumnRefFromBaseTableRef t col_name)"
proof -
  let ?strips = "1 < length col_name \<and> hd col_name = GetBoundTableName t"
  have "only_hit (if ?strips then filter (MatchSuffix (List.tl col_name)) (map (\<lambda>c. [column_name c]) (columns (bt_schema t))) else [])
      (if ?strips then ResolveColumnRefFromSchema (bt_schema t) (List.tl col_name) else Inr None)"
    by (cases ?strips; cases col_name) (auto simp: only_hit_def [of "[]"] intro!: schema_searched)
  from only_hit_pick [OF schema_searched [OF assms] this] show ?thesis
    by (simp add: ResolveColumnRefFromBaseTableRef_def fitting_def Let_def)
qed

lemma subquery_searched:
  "only_hit (fitting col_name (sq_alias q, alias, sq_names q)) (ResolveColumnRefFromSubqueryRef q alias col_name)"
  unfolding ResolveColumnRefFromSubqueryRef_def fitting_def prod.case
  by (rule only_hit_pick [OF select_list_searched only_hit_if [OF select_list_searched]])

lemma resolution:
  "col_name \<noteq> [] \<Longrightarrow> table_columns ctes t = Some srcs \<Longrightarrow> only_hit (candidates col_name srcs) (ResolveColumnInternal ctes t col_name)"
proof (induction ctes t col_name arbitrary: srcs rule: ResolveColumnInternal.induct)
  case (2 ctes l r col_name)
  then show ?case by (auto simp: candidates_def split: option.splits intro!: only_hit_append)
next
  case (3 ctes type l r condition col_name)
  then show ?case by (auto simp: candidates_def split: option.splits intro!: only_hit_append)
qed (auto simp: candidates_def table_searched subquery_searched split: sum.splits)

end
