(* ===== verification/Binder_Names.thy ===== *)
theory Binder_Names
  imports Binder_Resolve
begin

section \<open>The columns of a planned table\<close>

text \<open>
  The columns of the plan of a table have the names the binder expects. A plan of a statement has one column per item of its
  select list; planning rewrites statements, and keeps what the names of a common table expression depend on.
\<close>

subsection \<open>One column per item\<close>

lemma names_Schema: "map column_name (columns (Schema cs)) = map column_name cs"
proof -
  have "map fst (node_header (PlanNode undefined (Schema cs) [])) = map column_name cs" unfolding node_header_Schema by simp
  then show ?thesis by simp
qed

lemma laid_names [simp]: "map column_name (lay k cs) = map column_name cs"
  by (induction cs arbitrary: k) simp_all

lemma length_Schema: "length (columns (Schema cs)) = length cs"
  using arg_cong [OF names_Schema [of cs], of length] by simp

lemma AddAggCalls_length: "AddAggCallsToContext es ctx = Inr (es', ctx') \<Longrightarrow> length es' = length es"
  by (induction es arbitrary: ctx es') fastforce+

lemma window_items_length:
  "plan_window_items mk_array p i items ctx n = Inr (cols, ws, n') \<Longrightarrow> length cols = length items"
  by (induction items arbitrary: i ctx n cols ws) (auto split: if_splits prod.splits bound_expr.splits simp: Let_def)

lemma name_columns_length: "length (fst (name_columns cols n)) = length cols"
  by (induction cols n rule: name_columns.induct) (auto simp: case_prod_unfold Let_def)

lemma agg_columns_count:
  "PlanSelectAgg mk_array s p ctx = Inr (q, s') \<Longrightarrow> length (columns (output_schema q)) = length (st_select_list s) \<and>
     length (st_select_list s') = length (st_select_list s)"
  by (auto simp: PlanSelectAgg_def rewritten_def dest!: AddAggCalls_length RenameSchema_length PlanExpressions_length)

lemma select_list_columns:
  assumes "plan_select_list M mk_array s p ctx n = Inr (q, s', n')"
  shows "length (columns (output_schema q)) = length (st_select_list s) \<and> length (st_select_list s') = length (st_select_list s)"
  using assms
  by (auto simp: plan_select_list_def PlanSelectWindow_def plan_projection_def Let_def case_prod_unfold name_columns_length
      dest!: agg_columns_count RenameSchema_length PlanExpressions_length window_items_length split: if_splits)

lemma clauses_columns:
  assumes "plan_clauses M mk_array s p ctx n = Inr (q, s', n')"
  shows "length (columns (output_schema q)) = length (st_select_list s) \<and> length (st_select_list s') = length (st_select_list s)"
proof -
  obtain filtered ctx1 selected sorted_plan where p:
    "plan_select_list M mk_array s filtered ctx1 n = Inr (selected, s', n')"
    "plan_order_by mk_array s (plan_distinct s selected) ctx1 = Inr sorted_plan" "plan_limit M s sorted_plan = Inr q"
    using assms by (auto simp: plan_clauses_def)
  have "output_schema q = output_schema selected"
    using p(2,3) by (auto simp: plan_limit_def plan_order_by_def plan_distinct_def split: if_splits option.splits)
  then show ?thesis using select_list_columns [OF p(1)] by simp
qed

subsection \<open>What planning keeps\<close>

text \<open>What the columns of a common table expression depend on.\<close>

definition signature :: "'d subquery \<Rightarrow> string list list \<times> string \<times> nat" where
  "signature q = (sq_names q, sq_alias q, length (st_select_list (sq_select q)))"

definition cte_signatures :: "'d subquery list option \<Rightarrow> (string list list \<times> string \<times> nat) list option" where
  "cte_signatures = map_option (map signature)"

lemma expression_keeps:
  "PlanExpression mk_array cs e ctx = Inr (r, ctx') \<Longrightarrow> cte_list ctx' = cte_list ctx"
  "PlanExpressions mk_array cs es ctx = Inr (rs, ctx') \<Longrightarrow> cte_list ctx' = cte_list ctx"
  by (induction mk_array cs e ctx and mk_array cs es ctx arbitrary: r ctx' and rs ctx' rule: PlanExpression_PlanExpressions.induct)
    (auto split: if_splits)

lemma value_rows_keep: "plan_value_rows mk_array rows ctx = Inr (es, ctx') \<Longrightarrow> cte_list ctx' = cte_list ctx"
  by (induction rows arbitrary: ctx es) (fastforce dest: expression_keeps)+

lemma value_list_keeps: "PlanExpressionListRef mk_array rows ident ctx = Inr (p, ctx') \<Longrightarrow> cte_list ctx' = cte_list ctx"
  by (auto simp: PlanExpressionListRef_def dest: value_rows_keep split: list.splits)

lemma leave_select_keeps:
  assumes "cte_signatures (cte_list (planner_ctx inner)) = cte_signatures (cte_list (planner_ctx (enter_select s pl)))"
  shows "cte_signatures (cte_list (planner_ctx (snd (leave_select s t s' pl inner n)))) = cte_signatures (cte_list (planner_ctx pl))"
    "st_select_list (fst (leave_select s t s' pl inner n)) = st_select_list s'"
  using assms by (auto simp: leave_select_def enter_select_def NewContext_def Let_def)

lemma replace_keeps:
  assumes "cte_signatures (cte_list (planner_ctx pl)) = cte_signatures (Some cs)" "i < length cs" "signature q = signature (cs ! i)"
  shows "cte_signatures (cte_list (planner_ctx (replace_cte i q pl))) = cte_signatures (Some cs)"
proof -
  obtain cs' where cs': "cte_list (planner_ctx pl) = Some cs'" "map signature cs' = map signature cs"
    using assms(1) by (auto simp: cte_signatures_def)
  have "map signature (cs'[i := q]) = (map signature cs)[i := signature (cs ! i)]" using cs'(2) assms(3) by (simp add: map_update)
  also have "\<dots> = map signature cs" using assms(2) by (metis list_update_id nth_map)
  finally show ?thesis using cs'(1) by (simp add: replace_cte_def cte_signatures_def Let_def)
qed

lemma find_cte_bound: "find_cte cte_name cs = Some i \<Longrightarrow> i < length cs"
  by (auto simp: find_cte_def Let_def split: if_splits)

definition keeps :: "nat \<Rightarrow> 'd machine \<Rightarrow> ('d typed_expr list \<Rightarrow> 'd typed_expr result) \<Rightarrow> 'i catalog \<Rightarrow> bool" where
  "keeps n M mk_array cat \<longleftrightarrow>
     (\<forall>s pl p s' pl'. PlanSelect n M mk_array cat s pl = Inr (p, s', pl') \<longrightarrow>
        length (columns (output_schema p)) = length (st_select_list s) \<and> length (st_select_list s') = length (st_select_list s) \<and>
        cte_signatures (cte_list (planner_ctx pl')) = cte_signatures (cte_list (planner_ctx pl))) \<and>
     (\<forall>t pl p t' pl'. PlanTableRef n M mk_array cat t pl = Inr (p, t', pl') \<longrightarrow>
        cte_signatures (cte_list (planner_ctx pl')) = cte_signatures (cte_list (planner_ctx pl))) \<and>
     (\<forall>q alias pl p q' pl'. PlanSubquery n M mk_array cat q alias pl = Inr (p, q', pl') \<longrightarrow>
        signature q' = signature q \<and> cte_signatures (cte_list (planner_ctx pl')) = cte_signatures (cte_list (planner_ctx pl)))"

lemma keepsD:
  assumes "keeps n M mk_array cat"
  shows "PlanSelect n M mk_array cat s pl = Inr (p, s', pl') \<Longrightarrow> length (columns (output_schema p)) = length (st_select_list s)"
    "PlanSelect n M mk_array cat s pl = Inr (p, s', pl') \<Longrightarrow> length (st_select_list s') = length (st_select_list s)"
    "PlanSelect n M mk_array cat s pl = Inr (p, s', pl') \<Longrightarrow> cte_signatures (cte_list (planner_ctx pl')) = cte_signatures (cte_list (planner_ctx pl))"
    "PlanTableRef n M mk_array cat t pl = Inr (p, t', pl') \<Longrightarrow> cte_signatures (cte_list (planner_ctx pl')) = cte_signatures (cte_list (planner_ctx pl))"
    "PlanSubquery n M mk_array cat q alias pl = Inr (p, q', pl') \<Longrightarrow> signature q' = signature q"
    "PlanSubquery n M mk_array cat q alias pl = Inr (p, q', pl') \<Longrightarrow> cte_signatures (cte_list (planner_ctx pl')) = cte_signatures (cte_list (planner_ctx pl))"
  using assms unfolding keeps_def by blast+

lemma select_keeps:
  assumes "keeps n M mk_array cat" "PlanSelect (Suc n) M mk_array cat s pl = Inr (p, s', pl')"
  shows "length (columns (output_schema p)) = length (st_select_list s) \<and> length (st_select_list s') = length (st_select_list s) \<and>
    cte_signatures (cte_list (planner_ctx pl')) = cte_signatures (cte_list (planner_ctx pl))"
proof -
  obtain q t inner s1 uid where p: "(if IsEmptyTableRef (st_table s) then Inr (PlanNode (ValuesPlan [[]]) (Schema []) [], st_table s, enter_select s pl)
             else PlanTableRef n M mk_array cat (st_table s) (enter_select s pl)) = Inr (q, t, inner)"
    "plan_clauses M mk_array s q (planner_ctx inner) (universal_id inner) = Inr (p, s1, uid)"
    "leave_select s t s1 pl inner uid = (s', pl')"
    using assms(2) by (auto simp: Let_def)
  have "cte_signatures (cte_list (planner_ctx inner)) = cte_signatures (cte_list (planner_ctx (enter_select s pl)))"
    using p(1) keepsD(4) [OF assms(1)] by (auto split: if_splits)
  from leave_select_keeps [OF this, of t s1 uid] clauses_columns [OF p(2)] p(3) show ?thesis by simp
qed

lemma table_keeps:
  assumes "keeps n M mk_array cat" "PlanTableRef (Suc n) M mk_array cat t pl = Inr (p, t', pl')"
  shows "cte_signatures (cte_list (planner_ctx pl')) = cte_signatures (cte_list (planner_ctx pl))"
proof (cases t)
  case (CTERef cte_name nm)
  obtain cs i q pl1 where c: "cte_list (planner_ctx pl) = Some cs" "find_cte cte_name cs = Some i"
    "PlanSubquery n M mk_array cat (cs ! i) nm pl = Inr (p, q, pl1)" "pl' = replace_cte i q pl1"
    using assms(2) CTERef by (auto split: option.splits)
  then show ?thesis
    using replace_keeps [of pl1 cs i q] find_cte_bound [OF c(2)] keepsD(5,6) [OF assms(1) c(3)] by simp
qed (use assms(2) in \<open>auto dest!: keepsD [OF assms(1)] expression_keeps value_list_keeps\<close>)

lemma subquery_keeps:
  assumes "keeps n M mk_array cat" "PlanSubquery (Suc n) M mk_array cat q alias pl = Inr (p, q', pl')"
  shows "signature q' = signature q \<and> cte_signatures (cte_list (planner_ctx pl')) = cte_signatures (cte_list (planner_ctx pl))"
  using assms(2) keepsD(2,3) [OF assms(1)] by (fastforce simp: signature_def)

lemma planning_keeps: "keeps n M mk_array cat"
proof (induction n)
  case 0
  show ?case by (simp add: keeps_def)
next
  case (Suc n)
  show ?case unfolding keeps_def
    using select_keeps [OF Suc] table_keeps [OF Suc] subquery_keeps [OF Suc] by (intro conjI allI impI) blast+
qed

subsection \<open>The names of the columns\<close>

text \<open>The names of the columns as the query calls them, and as the binder does; they differ for a common table
  expression under another name.\<close>

definition column_names :: "column_source list \<Rightarrow> string list list" where
  "column_names srcs = concat (map (\<lambda>(bound, name, ns). map (\<lambda>n. name # n) ns) srcs)"

definition own_names :: "column_source list \<Rightarrow> bool" where
  "own_names srcs \<longleftrightarrow> list_all (\<lambda>(bound, name, _). bound = name) srcs"

definition names_ok :: "'d subquery \<Rightarrow> bool" where
  "names_ok q \<longleftrightarrow> length (sq_names q) = length (st_select_list (sq_select q)) \<and> [] \<notin> set (sq_names q)"

definition ctes_ok :: "'d subquery list option \<Rightarrow> bool" where
  "ctes_ok ctes \<longleftrightarrow> (case ctes of None \<Rightarrow> True | Some cs \<Rightarrow> list_all names_ok cs)"

fun table_ok :: "'d table_ref \<Rightarrow> bool" where
  "table_ok (CrossProductRef l r) \<longleftrightarrow> table_ok l \<and> table_ok r"
| "table_ok (JoinRef type l r condition) \<longleftrightarrow> table_ok l \<and> table_ok r"
| "table_ok (SubqueryRef q) \<longleftrightarrow> names_ok q"
| "table_ok t \<longleftrightarrow> True"

lemma scan_names:
  assumes "PlanBaseTableRef cat t = Inr p"
  shows "map column_name (columns (output_schema p)) = map (\<lambda>c. dotted [GetBoundTableName t, column_name c]) (columns (bt_schema t))"
proof -
  have "output_schema p = InferScanSchema (GetBoundTableName t) (bt_schema t)"
    using assms by (auto simp: PlanBaseTableRef_def Let_def split: option.splits if_splits)
  then show ?thesis by (simp add: InferScanSchema_def renamed_def)
qed

lemma join_names: "map column_name (columns (output_schema (join_node x type l r))) =
    map column_name (columns (output_schema l)) @ map column_name (columns (output_schema r))"
  by (simp add: join_node_def InferJoinSchema_def)

lemma dotted_Cons: "xs \<noteq> [] \<Longrightarrow> dotted (x # xs) = x @ ''.'' @ dotted xs"
  by (cases xs) simp_all

lemma subquery_column_names:
  assumes "plan_subquery_names nm names p = Inr q" "length (columns (output_schema p)) = length names" "[] \<notin> set names"
  shows "map column_name (columns (output_schema q)) = map (\<lambda>n. dotted (nm # n)) names"
proof -
  let ?n = "length names"
  let ?exprs = "map (\<lambda>(idx, col). ColumnValueExpression 0 idx col) (enumerate 0 (columns (output_schema p))) :: 'a typed_expr list"
  obtain ns s where ns: "map_result (\<lambda>idx. if idx < ?n then Inr (nm @ ''.'' @ dotted (names ! idx)) else Inl Undefined) [0..<?n] = Inr ns"
    "RenameSchema (InferProjectionSchema ?exprs) ns = Inr s" "output_schema q = s"
    using assms(1,2) by (auto simp: plan_subquery_names_def Let_def)
  have ns': "ns = map (\<lambda>n. nm @ ''.'' @ dotted n) names"
    using ns(1) by (auto simp: map_result_Inr_iff list_all2_conv_all_nth intro!: nth_equalityI)
  have "map column_name (columns s) = ns"
    using rename_types [of ns "map (\<lambda>(e, column). WithColumnName ''<unnamed>'' column) ?exprs"] ns(2) ns' assms(2)
    by (auto simp: InferProjectionSchema_def)
  moreover have "nm @ ''.'' @ dotted n = dotted (nm # n)" if "n \<in> set names" for n
    using that assms(3) dotted_Cons [of n nm] by metis
  ultimately show ?thesis using ns(3) ns' by simp
qed

lemma signature_names: "signature q = signature q' \<Longrightarrow> sq_names q = sq_names q' \<and> sq_alias q = sq_alias q' \<and> names_ok q = names_ok q'"
  by (auto simp: signature_def names_ok_def)

lemma same_cte:
  "map signature cs = map signature cs' \<Longrightarrow> find_cte cte_name cs = Some i \<Longrightarrow> find (\<lambda>q. cte_name = sq_alias q) cs' = Some q \<Longrightarrow>
   signature (cs ! i) = signature q"
proof (induction cs' arbitrary: cs i)
  case (Cons c' cs')
  then obtain c cs1 where c: "cs = c # cs1" "signature c = signature c'" "map signature cs1 = map signature cs'" by auto
  have alias_c: "sq_alias c = sq_alias c'" using signature_names [OF c(2)] by simp
  show ?case
  proof (cases "sq_alias c = cte_name")
    case True
    then show ?thesis using Cons.prems(2,3) c(1,2) alias_c by (auto simp: find_cte_def)
  next
    case False
    then obtain j where "find_cte cte_name cs1 = Some j" "i = Suc j"
      using Cons.prems(2) c(1) by (auto simp: find_cte_def Let_def split: if_splits)
    then show ?thesis using Cons.IH [OF c(3)] Cons.prems(3) False alias_c c(1) by auto
  qed
qed simp

lemma subquery_named:
  assumes "PlanSubquery n M mk_array cat q nm pl = Inr (p, q', pl')" "names_ok q"
  shows "map column_name (columns (output_schema p)) = map (\<lambda>x. dotted (nm # x)) (sq_names q)"
proof (cases n)
  case (Suc m)
  then obtain select_node s pl1 where p: "PlanSelect m M mk_array cat (sq_select q) pl = Inr (select_node, s, pl1)"
    "plan_subquery_names nm (sq_names q) select_node = Inr p"
    using assms(1) by auto
  show ?thesis
    by (rule subquery_column_names [OF p(2)]) (use keepsD(1) [OF planning_keeps p(1)] assms(2) in \<open>auto simp: names_ok_def\<close>)
qed (use assms(1) in simp)

lemma cte_named:
  assumes "PlanTableRef n M mk_array cat (CTERef cte_name nm) pl = Inr (p, t', pl')" "scope_cte ctes cte_name = Inr q"
    "cte_signatures (cte_list (planner_ctx pl)) = cte_signatures ctes" "ctes_ok ctes"
  shows "map column_name (columns (output_schema p)) = map (\<lambda>x. dotted (nm # x)) (sq_names q)"
proof (cases n)
  case (Suc m)
  obtain cs' where cs': "ctes = Some cs'" "find (\<lambda>q. cte_name = sq_alias q) cs' = Some q"
    using assms(2) by (auto simp: scope_cte_def split: option.splits)
  obtain cs i q1 pl1 where c: "cte_list (planner_ctx pl) = Some cs" "find_cte cte_name cs = Some i"
    "PlanSubquery m M mk_array cat (cs ! i) nm pl = Inr (p, q1, pl1)"
    using assms(1) Suc by (auto split: option.splits)
  have "signature (cs ! i) = signature q" using same_cte [OF _ c(2) cs'(2)] assms(3) c(1) cs'(1) by (simp add: cte_signatures_def)
  moreover have "names_ok q" using assms(4) cs' by (auto simp: ctes_ok_def list_all_iff find_Some_iff)
  ultimately show ?thesis using subquery_named [OF c(3)] signature_names by metis
qed (use assms(1) in simp)

lemma table_named:
  "PlanTableRef n M mk_array cat t pl = Inr (p, t', pl') \<Longrightarrow> table_columns ctes t = Some srcs \<Longrightarrow>
   cte_signatures (cte_list (planner_ctx pl)) = cte_signatures ctes \<Longrightarrow> ctes_ok ctes \<Longrightarrow> table_ok t \<Longrightarrow>
   map column_name (columns (output_schema p)) = map dotted (column_names srcs)"
proof (induction ctes t arbitrary: n pl p t' pl' srcs rule: table_columns.induct)
  case (1 ctes b)
  then show ?case by (cases n) (auto simp: column_names_def scan_names comp_def)
next
  case (2 ctes l r)
  obtain m where n: "n = Suc m" using 2(3) by (cases n) auto
  obtain pa l' pl1 pb r' pl2 x where p: "PlanTableRef m M mk_array cat l pl = Inr (pa, l', pl1)" "PlanTableRef m M mk_array cat r pl1 = Inr (pb, r', pl2)"
    "p = join_node x INNER pa pb"
    using 2(3) n by auto
  obtain xs ys where srcs: "table_columns ctes l = Some xs" "table_columns ctes r = Some ys" "srcs = xs @ ys"
    using 2(4) by (auto split: option.splits)
  show ?case using 2(1) [OF p(1) srcs(1)] 2(2) [OF p(2) srcs(2)] 2(5-) keepsD(4) [OF planning_keeps p(1)] p(3) srcs(3)
    by (simp add: join_names column_names_def)
next
  case (3 ctes type l r condition)
  obtain m where n: "n = Suc m" using 3(3) by (cases n) auto
  obtain pa l' pl1 pb r' pl2 x where p: "PlanTableRef m M mk_array cat l pl = Inr (pa, l', pl1)" "PlanTableRef m M mk_array cat r pl1 = Inr (pb, r', pl2)"
    "p = join_node x type pa pb"
    using 3(3) n by auto
  obtain xs ys where srcs: "table_columns ctes l = Some xs" "table_columns ctes r = Some ys" "srcs = xs @ ys"
    using 3(4) by (auto split: option.splits)
  show ?case using 3(1) [OF p(1) srcs(1)] 3(2) [OF p(2) srcs(2)] 3(5-) keepsD(4) [OF planning_keeps p(1)] p(3) srcs(3)
    by (simp add: join_names column_names_def)
next
  case (4 ctes q)
  obtain m where n: "n = Suc m" using 4(1) by (cases n) auto
  show ?case using 4 n by (auto simp: column_names_def dest!: subquery_named)
next
  case (5 ctes cte_name nm)
  obtain q where q: "scope_cte ctes cte_name = Inr q" "srcs = [(sq_alias q, nm, sq_names q)]" using 5(2) by (auto split: sum.splits)
  show ?case using cte_named [OF 5(1) q(1) 5(3,4)] q(2) by (simp add: column_names_def)
qed auto

end
