(* ===== verification/Binder_Refs.thy ===== *)
theory Binder_Refs
  imports Binder_Names
begin

section \<open>The column references of bound expressions\<close>

text \<open>Every column reference in a bound expression is the result of resolving a name in the table in scope.\<close>

fun column_refs :: "'d bound_expr \<Rightarrow> string list list" where
  "column_refs (BoundColumnRef names) = [names]"
| "column_refs (BoundAggCall func_name is_distinct args) = concat (map column_refs args)"
| "column_refs (BoundUnaryOp op e) = column_refs e"
| "column_refs (BoundBinaryOp op l r) = column_refs l @ column_refs r"
| "column_refs (BoundAlias alias e) = column_refs e"
| "column_refs (BoundFuncCall func_name args) = concat (map column_refs args)"
| "column_refs (BoundWindow func_name args partition_by order_bys start_offset end_offset b1 b2) =
     concat (map column_refs args) @ concat (map column_refs partition_by) @ concat (map (\<lambda>(_, _, e). column_refs e) order_bys) @
     (case start_offset of None \<Rightarrow> [] | Some e \<Rightarrow> column_refs e) @ (case end_offset of None \<Rightarrow> [] | Some e \<Rightarrow> column_refs e)"
| "column_refs e = []"

definition resolved :: "'d bind_state \<Rightarrow> string list \<Rightarrow> bool" where
  "resolved b names \<longleftrightarrow> (\<exists>t col_name. table_scope b = Some t \<and> col_name \<noteq> [] \<and> ResolveColumnInternal (cte_scope b) t col_name = Inr (Some names))"

lemma column_resolved:
  assumes "BindColumnRef b parts = Inr e" "names \<in> set (column_refs e)"
  shows "resolved b names"
proof (cases "\<exists>s rest. parts = PGValue (PGString s) # rest")
  case True
  then obtain s rest where "parts = PGValue (PGString s) # rest" by blast
  then have "rbind (field_names parts) (ResolveColumn b) = Inr e" "field_names parts \<noteq> Inr []" using assms(1)
    by (auto simp: BindColumnRef_def rbind_eq_Inr_iff)
  then obtain col_name where c: "ResolveColumn b col_name = Inr e" "col_name \<noteq> []" by auto
  then obtain t where "table_scope b = Some t" "rbind (ResolveColumnInternal (cte_scope b) t col_name) (\<lambda>expr.
      case expr of None \<Rightarrow> Inl (Thrown (''column '' @ dotted col_name @ '' not found'')) | Some full_name \<Rightarrow> Inr (BoundColumnRef full_name)) = Inr e"
    by (auto simp: ResolveColumn_def split: option.splits table_ref.splits)
  then obtain full_name where "table_scope b = Some t" "ResolveColumnInternal (cte_scope b) t col_name = Inr (Some full_name)"
    "e = BoundColumnRef full_name"
    by (auto split: option.splits)
  then show ?thesis using c(2) assms(2) unfolding resolved_def by (intro exI [of _ t] exI [of _ col_name]) simp
next
  case False
  then have "e = BoundStar" using assms(1)
    by (auto simp: BindColumnRef_def BindStar_def split: list.splits pg_node.splits pg_value.splits)
  then show ?thesis using assms(2) by simp
qed

lemma BindOperator_refs: "BindOperator name l r = Inr e \<Longrightarrow> set (column_refs e) \<subseteq>
    (case l of None \<Rightarrow> {} | Some x \<Rightarrow> set (column_refs x)) \<union> (case r of None \<Rightarrow> {} | Some x \<Rightarrow> set (column_refs x))"
  by (auto simp: BindOperator_def split: option.splits)

lemma foldl_refs: "set (column_refs (foldl (BoundBinaryOp op) e es)) = set (column_refs e) \<union> (\<Union>x\<in>set es. set (column_refs x))"
  by (induction es arbitrary: e) auto

lemma BindBoolOp_refs: "BindBoolOp boolop es = Inr e \<Longrightarrow> set (column_refs e) \<subseteq> (\<Union>x\<in>set es. set (column_refs x))"
  by (auto simp: BindBoolOp_def Let_def foldl_refs split: PGBoolExprType.splits list.splits)

lemma constant_refs: "BindConstant M v = Inr e \<Longrightarrow> column_refs e = []"
  by (auto simp: BindConstant_def)

definition refs_resolved :: "'d bind_state \<Rightarrow> 'd bound_expr list \<Rightarrow> bool" where
  "refs_resolved b es \<longleftrightarrow> (\<forall>e\<in>set es. \<forall>names\<in>set (column_refs e). resolved b names)"

lemma refs_resolved_simps [simp]:
  "refs_resolved b []" "refs_resolved b (e # es) \<longleftrightarrow> (\<forall>names\<in>set (column_refs e). resolved b names) \<and> refs_resolved b es"
  by (auto simp: refs_resolved_def)

lemma list_items_Cons:
  assumes "BindListItems M b (n # ns) = Inr es"
  obtains e es' where "BindExpression M b n = Inr e" "BindListItems M b ns = Inr es'" "es = e # es'"
  using assms by (auto split: if_splits)

lemma sort_items_Cons:
  assumes "BindSortItems M b (n # ns) = Inr obs"
  obtains e dir nulls type obs' target where "n = PGSortBy target dir nulls" "BindExpression M b target = Inr e" "BindSortItems M b ns = Inr obs'"
    "bind_direction dir = Inr type" "obs = (type, bind_nulls nulls, e) # obs'"
  using assms by (cases n) auto

lemma optional_resolved:
  "optional_expr f n = Inr r \<Longrightarrow> (\<And>x e. n = Some x \<Longrightarrow> f x = Inr e \<Longrightarrow> refs_resolved b [e]) \<Longrightarrow>
   refs_resolved b (case r of None \<Rightarrow> [] | Some e \<Rightarrow> [e])"
  by (auto simp: optional_expr_def split: option.splits)

lemma expressions_resolved:
  "BindExpression M b n = Inr e \<Longrightarrow> refs_resolved b [e]"
  "BindExpressions M b ns = Inr es \<Longrightarrow> refs_resolved b es"
  "BindListItems M b ns' = Inr es' \<Longrightarrow> refs_resolved b es'"
  "BindSortItems M b obs = Inr obs' \<Longrightarrow> refs_resolved b (map (\<lambda>(_, _, x). x) obs')"
  "BindWindowExpression M b func_name args w = Inr e' \<Longrightarrow> refs_resolved b args \<Longrightarrow> refs_resolved b [e']"
proof (induction M b n and M b ns and M b ns' and M b obs and M b func_name args w arbitrary: e and es and es' and obs' and e'
    rule: BindExpression_BindExpressions_BindListItems_BindSortItems_BindWindowExpression.induct)
  case (1 M b parts)
  then show ?case using column_resolved by (auto simp: refs_resolved_def)
next
  case (3 M b name v)
  then obtain v' x where x: "v = Some v'" "BindExpression M b v' = Inr x" "e = (case name of None \<Rightarrow> x | Some n \<Rightarrow> BoundAlias n x)"
    by (auto split: option.splits)
  then show ?case using 3(1) [OF x(1,2)] by (auto simp: refs_resolved_def split: option.splits)
next
  case (5 M b name args agg_distinct over)
  then obtain call_args where a: "BindExpressions M b args = Inr call_args" by (auto simp: Let_def)
  then have IH: "refs_resolved b call_args" using 5(1) by blast
  show ?case
  proof (cases "string_lower name \<in> set aggregate_names \<and> over \<noteq> None")
    case True
    then obtain w where w: "over = Some w" "BindWindowExpression M b (rewritten_name (string_lower name) call_args) call_args w = Inr e" "\<not> agg_distinct"
      using 5(3) a by (auto simp: Let_def split: if_splits)
    show ?thesis by (rule 5(2) [OF refl a _ refl w(1,3,2) IH]) (use True in simp)
  next
    case False
    then have "e = BoundAggCall (rewritten_name (string_lower name) call_args) agg_distinct call_args \<or> e = BoundFuncCall (string_lower name) call_args"
      using 5(3) a by (cases over) (simp_all add: Let_def split: if_splits)
    then show ?thesis using IH by (auto simp: refs_resolved_def)
  qed
next
  case (6 M b kind name lexpr rexpr)
  then obtain l r where p: "optional_expr (BindExpression M b) lexpr = Inr l" "optional_expr (BindExpression M b) rexpr = Inr r"
    "BindOperator name l r = Inr e" "kind = PG_AEXPR_OP"
    by (auto split: if_splits)
  have "refs_resolved b (case l of None \<Rightarrow> [] | Some e \<Rightarrow> [e])" by (rule optional_resolved [OF p(1)]) (use 6(1) p(4) in blast)
  moreover have "refs_resolved b (case r of None \<Rightarrow> [] | Some e \<Rightarrow> [e])" by (rule optional_resolved [OF p(2)]) (use 6(2) p(1,4) in blast)
  ultimately show ?case using BindOperator_refs [OF p(3)] by (auto simp: refs_resolved_def split: option.splits)
next
  case (7 M b boolop args)
  then obtain xs where xs: "args \<noteq> []" "BindListItems M b args = Inr xs" "BindBoolOp boolop xs = Inr e" by (auto split: if_splits)
  then show ?case using 7(1) BindBoolOp_refs [OF xs(3)] by (fastforce simp: refs_resolved_def)
next
  case (10 M b n ns)
  then obtain x xs where "BindExpression M b n = Inr x" "BindExpressions M b ns = Inr xs" "es = x # xs" by auto
  then show ?case using 10(1,2) by fastforce
next
  case (12 M b n ns)
  then obtain x xs where "BindExpression M b n = Inr x" "\<not> is_star x" "BindListItems M b ns = Inr xs" "es' = x # xs" by (auto split: if_splits)
  then show ?case using 12(1,2) by fastforce
next
  case (14 M b n ns)
  from 14(3) show ?case by (rule sort_items_Cons) (use 14(1,2) in fastforce)
next
  case (15 M b func_name call_args partition_clause order_clause start_offset end_offset opts)
  then obtain partition_by sorting start_expr end_expr b1 b2 where w: "BindListItems M b partition_clause = Inr partition_by"
    "BindSortItems M b order_clause = Inr sorting" "optional_expr (BindExpression M b) start_offset = Inr start_expr"
    "optional_expr (BindExpression M b) end_offset = Inr end_expr"
    "e' = BoundWindow func_name call_args partition_by sorting start_expr end_expr b1 b2"
    by auto
  have "refs_resolved b partition_by" "refs_resolved b (map (\<lambda>(_, _, x). x) sorting)" using 15(1,2) w(1,2) by blast+
  moreover have "refs_resolved b (case start_expr of None \<Rightarrow> [] | Some e \<Rightarrow> [e])"
    by (rule optional_resolved [OF w(3)]) (use 15(3) w(1,2) in blast)
  moreover have "refs_resolved b (case end_expr of None \<Rightarrow> [] | Some e \<Rightarrow> [e])"
    by (rule optional_resolved [OF w(4)]) (use 15(4) w(1-3) in blast)
  ultimately show ?case using 15(6) w(5) by (fastforce simp: refs_resolved_def split: option.splits)
qed (auto simp: BindStar_def constant_refs refs_resolved_def)

end
