(* ===== verification/Binder_Props.thy ===== *)
theory Binder_Props
  imports Binder_Refs Planner_Props
begin

section \<open>Bound columns are found by the planner\<close>

subsection \<open>A resolved column is the only one of its name\<close>

definition times_in :: "'a list \<Rightarrow> 'a \<Rightarrow> nat" where
  "times_in xs x = length (filter (\<lambda>y. y = x) xs)"

lemma times_in_append: "times_in (xs @ ys) x = times_in xs x + times_in ys x"
  by (simp add: times_in_def)

lemma times_in_member: "times_in xs x \<noteq> 0 \<Longrightarrow> x \<in> set xs"
  by (auto simp: times_in_def filter_empty_conv)

text \<open>Whether a column fits a name depends on its full name only, when its table is called by the name its columns are bound under.\<close>

definition fits :: "string list \<Rightarrow> string list \<Rightarrow> bool" where
  "fits col_name full_name \<longleftrightarrow> MatchSuffix col_name (List.tl full_name) \<or>
     1 < length col_name \<and> hd col_name = hd full_name \<and> MatchSuffix (List.tl col_name) (List.tl full_name)"

lemma fitting_fits: "full_name \<in> set (fitting col_name (name, name, ns)) \<Longrightarrow> fits col_name full_name"
  by (auto simp: fitting_def fits_def split: if_splits)

lemma times_fitting:
  assumes "fits col_name full_name"
  shows "times_in (map (\<lambda>n. name # n) ns) full_name \<le> times_in (fitting col_name (name, name, ns)) full_name"
proof -
  have same: "times_in (map (\<lambda>n. name # n) (filter P ns)) full_name = times_in (map (\<lambda>n. name # n) ns) full_name"
    if "P (List.tl full_name)" for P
    using that by (induction ns) (auto simp: times_in_def)
  show ?thesis
  proof (cases "MatchSuffix col_name (List.tl full_name)")
    case True
    then show ?thesis using same by (auto simp: fitting_def times_in_append)
  next
    case False
    then have strips: "1 < length col_name" "hd col_name = hd full_name" "MatchSuffix (List.tl col_name) (List.tl full_name)"
      using assms by (auto simp: fits_def)
    show ?thesis
    proof (cases "hd full_name = name")
      case True
      then show ?thesis using strips same by (simp add: fitting_def times_in_append)
    next
      case False
      then have "times_in (map (\<lambda>n. name # n) ns) full_name = 0" by (auto simp: times_in_def filter_empty_conv)
      then show ?thesis by simp
    qed
  qed
qed

lemma times_candidates:
  assumes "own_names srcs" "fits col_name full_name"
  shows "times_in (column_names srcs) full_name \<le> times_in (candidates col_name srcs) full_name"
  using assms(1)
proof (induction srcs)
  case (Cons src srcs)
  then obtain name ns where src: "src = (name, name, ns)" "own_names srcs" by (cases src) (auto simp: own_names_def)
  show ?case using Cons.IH [OF src(2)] times_fitting [OF assms(2), of name ns] src(1)
    by (simp add: column_names_def candidates_def times_in_append)
qed (simp add: times_in_def column_names_def)

lemma candidates_among: "own_names srcs \<Longrightarrow> set (candidates col_name srcs) \<subseteq> set (column_names srcs) \<inter> Collect (fits col_name)"
proof (induction srcs)
  case (Cons src srcs)
  then obtain name ns where src: "src = (name, name, ns)" "own_names srcs" by (cases src) (auto simp: own_names_def)
  have "set (fitting col_name src) \<subseteq> set (map (\<lambda>n. name # n) ns)" using src(1) by (auto simp: fitting_def split: if_splits)
  moreover have "set (fitting col_name src) \<subseteq> Collect (fits col_name)" using fitting_fits src(1) by blast
  ultimately show ?case using Cons.IH [OF src(2)] src(1) by (auto simp: column_names_def candidates_def)
qed (simp add: candidates_def)

lemma resolved_once:
  assumes "own_names srcs" "candidates col_name srcs = [full_name]"
  shows "times_in (column_names srcs) full_name = 1"
proof -
  have "full_name \<in> set (column_names srcs)" "fits col_name full_name" using candidates_among [OF assms(1), of col_name] assms(2) by auto
  then have "times_in (column_names srcs) full_name \<le> 1" using times_candidates [OF assms(1)] assms(2) by (fastforce simp: times_in_def)
  moreover have "0 < times_in (column_names srcs) full_name"
    using \<open>full_name \<in> set (column_names srcs)\<close> by (auto simp: times_in_def filter_empty_conv)
  ultimately show ?thesis by simp
qed

subsection \<open>Names as strings\<close>

text \<open>The planner compares the names with their parts joined by dots, which says the same when the parts have none.\<close>

definition dot_free :: "string list \<Rightarrow> bool" where
  "dot_free names \<longleftrightarrow> names \<noteq> [] \<and> list_all (\<lambda>part. CHR ''.'' \<notin> set part) names"

lemma split_at_dot: "x @ CHR ''.'' # xs = y @ CHR ''.'' # ys \<Longrightarrow> CHR ''.'' \<notin> set x \<Longrightarrow> CHR ''.'' \<notin> set y \<Longrightarrow> x = y \<and> xs = ys"
  by (induction x arbitrary: y) (case_tac y; auto)+

lemma dotted_inject: "dot_free xs \<Longrightarrow> dot_free ys \<Longrightarrow> dotted xs = dotted ys \<longleftrightarrow> xs = ys"
proof (induction xs arbitrary: ys)
  case (Cons x xs)
  obtain y ys' where ys: "ys = y # ys'" using Cons.prems(2) by (cases ys) (simp_all add: dot_free_def)
  have free: "CHR ''.'' \<notin> set x" "CHR ''.'' \<notin> set y" using Cons.prems ys by (simp_all add: dot_free_def)
  show ?case
  proof (cases "xs = [] \<or> ys' = []")
    case True
    then show ?thesis using free ys by (cases xs; cases ys') auto
  next
    case False
    then have "dotted (x # xs) = x @ CHR ''.'' # dotted xs" "dotted ys = y @ CHR ''.'' # dotted ys'"
      using ys by (simp_all add: dotted_Cons)
    moreover have "dot_free xs" "dot_free ys'" using Cons.prems False ys by (auto simp: dot_free_def)
    ultimately show ?thesis using Cons.IH [of ys'] split_at_dot [OF _ free, of "dotted xs" "dotted ys'"] ys by (metis list.inject)
  qed
qed (simp add: dot_free_def)

lemma dotted_once:
  assumes "list_all dot_free xs" "times_in xs x = 1"
  shows "length (filter (\<lambda>s. s = dotted x) (map dotted xs)) = 1"
proof -
  have "x \<in> set xs" using times_in_member [of xs x] assms(2) by simp
  then have "filter (\<lambda>y. dotted y = dotted x) xs = filter (\<lambda>y. y = x) xs"
    using assms(1) by (intro filter_cong) (auto simp: list_all_iff dotted_inject)
  then show ?thesis using assms(2) by (simp add: times_in_def filter_map comp_def)
qed

subsection \<open>The planner's search\<close>

lemma found_column:
  assumes "map column_name (columns (output_schema p)) = map dotted full_names" "list_all dot_free full_names" "times_in full_names names = 1"
  shows "\<exists>i < length (columns (output_schema p)). full_names ! i = names \<and>
    PlanColumnRef [p] names = Inr (dotted names, ColumnValueExpression 0 i (columns (output_schema p) ! i))"
proof -
  let ?cs = "columns (output_schema p)"
  have len: "length ?cs = length full_names" using arg_cong [OF assms(1), of length] by simp
  have one: "length (filter (\<lambda>c. column_name c = dotted names) ?cs) = 1"
    using dotted_once [OF assms(2,3)] unfolding assms(1) [symmetric] by (simp add: filter_map comp_def)
  then have "filter (\<lambda>c. column_name c = dotted names) ?cs \<noteq> []" by force
  then have "dotted names \<in> fst ` set (node_header p)" by (force simp: node_header_def filter_empty_conv)
  then have "map_of (node_header p) (dotted names) \<noteq> None" by (simp add: map_of_eq_None_iff)
  then obtain i where i: "TryGetColIdx (dotted names) (output_schema p) = Some i" by (auto simp: column_header)
  have bound: "i < length ?cs" using TryGetColIdx_bound [OF i] .
  have "column_name (?cs ! i) = dotted names"
    using i bound column_row [of "map column_name ?cs" "output_schema p" "dotted names"]
    by (auto simp: zip_same_conv_map map_of_map_restrict dest!: map_of_SomeD)
  then have "dotted (full_names ! i) = dotted names" using nth_map [of i ?cs column_name] bound len assms(1) by simp
  moreover have "dot_free names" "dot_free (full_names ! i)"
    using assms(2,3) bound len times_in_member [of full_names names] by (simp_all add: list_all_iff)
  ultimately have "full_names ! i = names" using dotted_inject by blast
  moreover have "PlanColumnRef [p] names = Inr (dotted names, ColumnValueExpression 0 i (?cs ! i))"
    using i one bound by (simp add: PlanColumnRef_def ColumnRef_ToString_def GetColIdx_def GetColumn_def Let_def)
  ultimately show ?thesis using bound by blast
qed

subsection \<open>What binding yields\<close>

lemma resolved_nonempty: "ResolveColumnInternal ctes t col_name = Inr (Some names) \<Longrightarrow> names \<noteq> []"
proof (induction ctes t col_name arbitrary: names rule: ResolveColumnInternal.induct)
  case (1 ctes t col_name)
  then show ?case
    by (auto simp: ResolveColumnRefFromBaseTableRef_def pick_resolved_def Prepend_def Let_def split: if_splits)
next
  case (4 ctes q col_name)
  then show ?case by (auto simp: ResolveColumnRefFromSubqueryRef_def pick_resolved_def Prepend_def split: if_splits)
next
  case (5 ctes cte_name nm col_name)
  then show ?case by (auto simp: ResolveColumnRefFromSubqueryRef_def pick_resolved_def Prepend_def split: if_splits)
qed (auto simp: either_column_def split: if_splits)

lemma star_columns_nonempty: "GetAllColumns ctes t = Inr cols \<Longrightarrow> [] \<notin> set cols"
proof (induction ctes t arbitrary: cols rule: GetAllColumns.induct)
  case (5 ctes cte_name nm)
  then show ?case by (auto simp: subquery_columns_def)
qed (auto simp: subquery_columns_def)

definition named_columns :: "'d bound_expr list \<Rightarrow> bool" where
  "named_columns es \<longleftrightarrow> BoundColumnRef [] \<notin> set es"

lemma bound_nonempty: "BindExpression M b n = Inr e \<Longrightarrow> e \<noteq> BoundColumnRef []"
  using expressions_resolved(1) [of M b n e] resolved_nonempty by (fastforce simp: resolved_def)

lemma select_items_named:
  "bind_select_items M b ns es star agg win = Inr es' \<Longrightarrow> named_columns es \<Longrightarrow> named_columns es'"
proof (induction M b ns es star agg win rule: bind_select_items.induct)
  case (2 M b n ns es star agg win)
  obtain e where e: "BindExpression M b n = Inr e" using 2(3) by auto
  show ?case
  proof (cases "is_star e")
    case True
    then obtain t cols where t: "es = []" "table_scope b = Some t" "GetAllColumns (cte_scope b) t = Inr cols"
      "bind_select_items M b ns (map BoundColumnRef cols) True agg win = Inr es'"
      using 2(3) e by (auto split: if_splits option.splits)
    then have "named_columns (map BoundColumnRef cols)" using star_columns_nonempty [OF t(3)] by (auto simp: named_columns_def)
    with 2(1) e True t show ?thesis by auto
  next
    case False
    then obtain a where a: "\<not> star" "HasAggregation e = Inr a"
      "bind_select_items M b ns (es @ [e]) star (agg \<or> a) (win \<or> HasWindowFunction e) = Inr es'"
      using 2(3) e by (auto split: if_splits)
    then have "named_columns (es @ [e])" using bound_nonempty [OF e] 2(4) by (auto simp: named_columns_def)
    with 2(2) e False a show ?thesis by auto
  qed
qed (auto split: if_splits)

lemma clauses_named:
  "bind_clauses M b s t ctes = Inr s' \<Longrightarrow> named_columns (st_select_list s') \<and> st_table s' = t \<and> st_ctes s' = ctes"
  by (auto simp: bind_clauses_def BindSelectList_def named_columns_def [of "[]"] dest: select_items_named split: if_splits)

lemma item_names_ok: "named_columns es \<Longrightarrow> length (fst (item_names es n)) = length es \<and> [] \<notin> set (fst (item_names es n))"
  by (induction es n rule: item_names.induct) (auto simp: named_columns_def Let_def case_prod_unfold numbered_name_def split: bound_expr.splits)

lemma name_subquery_ok:
  assumes "named_columns (st_select_list s)"
  shows "names_ok (fst (name_subquery nm s b))" "cte_scope (snd (name_subquery nm s b)) = cte_scope b"
  using item_names_ok [OF assms, of "item_id b"] by (auto simp: name_subquery_def names_ok_def case_prod_unfold Let_def)

lemma values_named: "bind_values M b rows = Inr (s, b') \<Longrightarrow> named_columns (st_select_list s)"
  by (auto simp: bind_values_def named_columns_def Let_def split: list.splits)

lemma range_var_ok: "BindRangeVar cat b relname nm = Inr t \<Longrightarrow> table_ok t"
  by (auto simp: BindRangeVar_def split: option.splits)

text \<open>A bound table has a name for every column of its subqueries, and the scope of common table expressions is restored.\<close>

lemma binding_ok:
  "BindSelect M cat b s = Inr (s', b') \<Longrightarrow> named_columns (st_select_list s') \<and> cte_scope b' = cte_scope b"
  "BindSubquery M cat b q nm = Inr (q', b') \<Longrightarrow> names_ok q' \<and> cte_scope b' = cte_scope b"
  "BindCTE M cat b rec cs = Inr (qs, b') \<Longrightarrow> list_all names_ok qs \<and> length qs = length cs \<and> cte_scope b' = cte_scope b"
  "BindWith M cat b w = Inr (qs, b') \<Longrightarrow> list_all names_ok qs \<and> cte_scope b' = (if qs = [] then cte_scope b else Some qs)"
  "BindFrom M cat b ns = Inr (t, b') \<Longrightarrow> table_ok t \<and> cte_scope b' = cte_scope b"
  "BindTables M cat b t0 ns = Inr (t, b') \<Longrightarrow> table_ok t0 \<Longrightarrow> table_ok t \<and> cte_scope b' = cte_scope b"
  "BindTableRef M cat b n = Inr (t, b') \<Longrightarrow> table_ok t \<and> cte_scope b' = cte_scope b"
proof (induction M cat b s and M cat b q nm and M cat b rec cs and M cat b w and M cat b ns and M cat b t0 ns and M cat b n
    arbitrary: s' b' and q' b' and qs b' and qs b' and t b' and t b' and t b'
    rule: BindSelect_BindSubquery_BindCTE_BindWith_BindFrom_BindTables_BindTableRef.induct)
  case (1 M cat b dist targets tables cond grouping having rows sorting offset limit with_clause)
  show ?case
  proof (cases "rows = []")
    case True
    then obtain ctes b1 t b2 where "b' = close_context b b2" "bind_clauses M (b2\<lparr>table_scope := Some t\<rparr>)
        (PGSelectStmt dist targets tables cond grouping having rows sorting offset limit with_clause) t ctes = Inr s'"
      using 1(3) by auto
    then show ?thesis using clauses_named by (fastforce simp: close_context_def)
  next
    case False
    then obtain b1 where "bind_values M (open_context b) rows = Inr (s', b1)" "b' = close_context b b1" using 1(3) by auto
    then show ?thesis using values_named by (fastforce simp: close_context_def)
  qed
next
  case (2 M cat b q nm)
  from 2(2) obtain s b1 where s: "BindSelect M cat b q = Inr (s, b1)" "(q', b') = name_subquery nm s b1" by auto
  then show ?case using 2(1) [OF s(1)] name_subquery_ok [of s nm b1] by (metis fst_conv snd_conv)
next
  case (4 M cat b rec ctename ctequery cterecursive cs)
  from 4(3) obtain q sq b1 sqs where q: "ctequery = Some q" "\<not> (cterecursive \<or> rec)" "BindSubquery M cat b q ctename = Inr (sq, b1)"
    "BindCTE M cat b1 rec cs = Inr (sqs, b')" "qs = sq # sqs"
    by (auto split: option.splits if_splits)
  then show ?case using 4(1) [OF q(1-3)] 4(2) [OF q(1-3) refl q(4)] by simp
next
  case (6 M cat b ctes rec)
  from 6(2) obtain b1 where b1: "ctes \<noteq> []" "BindCTE M cat b rec ctes = Inr (qs, b1)" "b' = b1\<lparr>cte_scope := Some qs\<rparr>" by (auto split: if_splits)
  then show ?case using 6(1) [OF b1(1,2)] by auto
next
  case (8 M cat b n ns)
  from 8(3) obtain t1 b1 b2 where t: "BindTableRef M cat (open_context b) n = Inr (t1, b1)" "BindTables M cat b1 t1 ns = Inr (t, b2)" "b' = close_context b b2"
    by auto
  then show ?case using 8(1) [OF t(1)] 8(2) [OF t(1) refl t(2)] by (simp add: close_context_def)
next
  case (10 M cat b t0 n ns)
  from 10(3) obtain t1 b1 where t: "BindTableRef M cat b n = Inr (t1, b1)" "BindTables M cat b1 (CrossProductRef t0 t1) ns = Inr (t, b')" by auto
  then show ?case using 10(1) [OF t(1)] 10(2) [OF t(1) refl t(2)] 10(4) by simp
next
  case (12 M cat b jointype larg rarg quals)
  from 12(3) obtain ty l b1 r b2 where t: "bind_join_type jointype = Inr ty" "BindTableRef M cat (open_context b) larg = Inr (l, b1)"
    "BindTableRef M cat b1 rarg = Inr (r, b2)" "bind_condition M b2 ty l r quals = Inr t" "b' = close_context b b2"
    by auto
  have "table_ok l" "table_ok r" using 12(1) [OF t(1,2)] 12(2) [OF t(1,2) refl t(3)] by simp_all
  then show ?case using t(4,5) by (auto simp: close_context_def bind_condition_def split: option.splits)
next
  case (13 M cat b lateral q nm)
  show ?case
  proof (cases nm)
    case None
    then obtain sq where sq: "BindSubquery M cat (b\<lparr>item_id := item_id b + 1\<rparr>) q (numbered_name ''__subquery#'' (item_id b)) = Inr (sq, b')"
      "\<not> lateral" "t = SubqueryRef sq"
      using 13(3) by (auto split: if_splits)
    then show ?thesis using 13(1) [OF sq(2) None sq(1)] by simp
  next
    case (Some a)
    then obtain sq where sq: "BindSubquery M cat b q a = Inr (sq, b')" "\<not> lateral" "t = SubqueryRef sq" using 13(3) by (auto split: if_splits)
    then show ?thesis using 13(2) [OF sq(2) Some sq(1)] by simp
  qed
qed (auto dest: range_var_ok)

subsection \<open>The binder and the planner agree\<close>

text \<open>The common table expressions in scope while the clauses of a statement are bound.\<close>

definition clause_ctes :: "'d bind_state \<Rightarrow> 'd select \<Rightarrow> 'd subquery list option" where
  "clause_ctes b s = (if st_ctes s = [] then cte_scope b else Some (st_ctes s))"

text \<open>The binder and the planner start with the same common table expressions in scope.\<close>

definition same_ctes :: "'d bind_state \<Rightarrow> 'd planner \<Rightarrow> bool" where
  "same_ctes b pl \<longleftrightarrow> ctes_ok (cte_scope b) \<and> cte_signatures (cte_list (planner_ctx pl)) = cte_signatures (cte_scope b)"

lemma same_ctes_start: "same_ctes new_bind_state new_planner"
  by (simp add: same_ctes_def new_bind_state_def new_planner_def PlannerContext_def ctes_ok_def cte_signatures_def)

lemma select_parts:
  assumes "BindSelect M cat b pg = Inr (s, b')" "pg_values pg = []"
  obtains b2 where "bind_clauses M (b2\<lparr>table_scope := Some (st_table s)\<rparr>) pg (st_table s) (st_ctes s) = Inr s" "cte_scope b2 = clause_ctes b s"
    "table_ok (st_table s)" "list_all names_ok (st_ctes s)"
proof -
  obtain dist targets tables cond grouping having sorting offset limit w where pg: "pg = PGSelectStmt dist targets tables cond grouping having [] sorting offset limit w"
    using assms(2) by (cases pg) simp
  obtain ctes b1 t b2 where p: "BindWith M cat (open_context b) w = Inr (ctes, b1)" "BindFrom M cat b1 tables = Inr (t, b2)"
    "bind_clauses M (b2\<lparr>table_scope := Some t\<rparr>) pg t ctes = Inr s"
    using assms(1) unfolding pg by auto
  have "st_table s = t" "st_ctes s = ctes" using clauses_named [OF p(3)] by simp_all
  moreover have "cte_scope b2 = (if ctes = [] then cte_scope b else Some ctes)" "table_ok t" "list_all names_ok ctes"
    using binding_ok(4) [OF p(1)] binding_ok(5) [OF p(2)] by (auto simp: open_context_def)
  ultimately show ?thesis using that p(3) by (simp add: clause_ctes_def)
qed

text \<open>The columns of the planned table, by the names the query calls them.\<close>

lemma planned_names:
  assumes "BindSelect M cat b pg = Inr (s, b')" "pg_values pg = []" "same_ctes b pl"
    "PlanTableRef n M' mk_array cat' (st_table s) (enter_select s pl) = Inr (p, t', pl')" "table_columns (clause_ctes b s) (st_table s) = Some srcs"
  shows "map column_name (columns (output_schema p)) = map dotted (column_names srcs)"
proof -
  obtain b2 where b2: "table_ok (st_table s)" "list_all names_ok (st_ctes s)" using select_parts [OF assms(1,2)] by metis
  have "cte_signatures (cte_list (planner_ctx (enter_select s pl))) = cte_signatures (clause_ctes b s)" "ctes_ok (clause_ctes b s)"
    using assms(3) b2(2) by (auto simp: same_ctes_def enter_select_def clause_ctes_def NewContext_def ctes_ok_def Let_def)
  then show ?thesis using table_named [OF assms(4,5) _ _ b2(1)] by blast
qed

fun binds_star :: "pg_node \<Rightarrow> bool" where
  "binds_star (PGColumnRef (PGAStar rel # parts)) \<longleftrightarrow> True"
| "binds_star (PGAStar rel) \<longleftrightarrow> True"
| "binds_star (PGResTarget None (Some n)) \<longleftrightarrow> binds_star n"
| "binds_star n \<longleftrightarrow> False"

lemma column_ref_star: "BindColumnRef b parts = Inr BoundStar \<Longrightarrow> binds_star (PGColumnRef parts)"
  by (auto simp: BindColumnRef_def ResolveColumn_def split: list.splits pg_node.splits pg_value.splits option.splits table_ref.splits)

lemma is_star_iff: "is_star e \<longleftrightarrow> e = BoundStar"
  by (simp add: is_star_def split: bound_expr.splits)

lemma window_no_star: "BindWindowExpression M b func_name args w \<noteq> Inr BoundStar"
  by (cases w) (auto simp: rbind_eq_Inr_iff)

lemma foldl_no_star: "foldl (BoundBinaryOp op) (BoundBinaryOp op l r) es \<noteq> BoundStar"
  by (induction es rule: rev_induct) simp_all

lemma star_bound: "BindExpression M b n = Inr BoundStar \<Longrightarrow> binds_star n"
proof (induction n rule: binds_star.induct)
  case (3 n)
  then show ?case by auto
next
  case "4_1"
  then show ?case by simp
next
  case "4_2"
  then show ?case by (simp add: BindColumnRef_def)
qed (auto simp: column_ref_star BindConstant_def Let_def BindOperator_def BindBoolOp_def foldl_no_star window_no_star
    split: if_splits option.splits list.splits PGBoolExprType.splits dest!: column_ref_star)

lemma select_items_resolved:
  "bind_select_items M b ns es star agg win = Inr es' \<Longrightarrow> \<not> list_ex binds_star ns \<Longrightarrow> refs_resolved b es \<Longrightarrow> refs_resolved b es'"
proof (induction M b ns es star agg win rule: bind_select_items.induct)
  case (2 M b n ns es star agg win)
  obtain e where e: "BindExpression M b n = Inr e" using 2(3) by auto
  have no_star: "\<not> is_star e" using star_bound e 2(4) by (auto simp: is_star_iff)
  then obtain a where a: "\<not> star" "HasAggregation e = Inr a"
    "bind_select_items M b ns (es @ [e]) star (agg \<or> a) (win \<or> HasWindowFunction e) = Inr es'"
    using 2(3) e by (auto split: if_splits)
  have "refs_resolved b (es @ [e])" using 2(5) expressions_resolved(1) [OF e] by (auto simp: refs_resolved_def)
  with 2(2) [OF e no_star a(1,2)] a 2(4) show ?case by simp
qed (auto split: if_splits)

lemma clauses_resolved:
  assumes "bind_clauses M b pg t ctes = Inr s"
  shows "refs_resolved b (st_where s # st_group_by s @ (if list_ex binds_star (pg_targets pg) then [] else st_select_list s))"
proof -
  obtain d items cond gs having lim off sorting where p: "BindSelectList M b (pg_targets pg) = Inr items" "bind_clause M b (pg_where pg) = Inr cond"
    "BindGroupBy M b (pg_group pg) = Inr gs" "s = SelectStatement t items cond gs having lim off sorting ctes d"
    using assms by (auto simp: bind_clauses_def split: if_splits)
  have "refs_resolved b [cond]" using p(2) expressions_resolved(1) by (auto simp: bind_clause_def simp del: refs_resolved_simps split: option.splits)
    (simp add: refs_resolved_def)
  moreover have "refs_resolved b gs" using p(3) expressions_resolved(3) by (auto simp: BindGroupBy_def BindExpressionList_def split: if_splits)
  moreover have "\<not> list_ex binds_star (pg_targets pg) \<Longrightarrow> refs_resolved b items"
    using select_items_resolved [OF p(1) [unfolded BindSelectList_def]] by simp
  ultimately show ?thesis using p(4) by (auto simp: refs_resolved_def)
qed



lemma select_list_bound: "bind_clauses M b pg t ctes = Inr s \<Longrightarrow> BindSelectList M b (pg_targets pg) = Inr (st_select_list s)"
  by (auto simp: bind_clauses_def split: if_splits)

lemma star_columns_listed: "GetAllColumns ctes t = Inr cols \<Longrightarrow> \<exists>srcs. table_columns ctes t = Some srcs \<and> cols = column_names srcs"
proof (induction ctes t arbitrary: cols rule: GetAllColumns.induct)
  case (2 ctes l r)
  then show ?case by (fastforce simp: column_names_def)
next
  case (3 ctes type l r condition)
  then show ?case by (fastforce simp: column_names_def)
qed (auto simp: column_names_def subquery_columns_def comp_def)

text \<open>C40: \<open>SELECT *\<close> selects the columns of the planned \<open>FROM\<close> clause, all of them, in their order.\<close>

theorem star_selects_all:
  assumes "BindSelect M cat b pg = Inr (s, b')" "pg_values pg = []" "same_ctes b pl" "pg_targets pg = [target]" "binds_star target"
    "PlanTableRef n M' mk_array cat' (st_table s) (enter_select s pl) = Inr (p, t', pl')"
  shows "\<exists>cols. st_select_list s = map BoundColumnRef cols \<and> map dotted cols = map column_name (columns (output_schema p))"
proof -
  obtain b2 where b2: "bind_clauses M (b2\<lparr>table_scope := Some (st_table s)\<rparr>) pg (st_table s) (st_ctes s) = Inr s" "cte_scope b2 = clause_ctes b s"
    using select_parts [OF assms(1,2)] by metis
  have star: "BindExpression M b3 target = Inr BoundStar" for b3 :: "'a bind_state"
    using assms(5) by (induction target rule: binds_star.induct) (auto simp: BindColumnRef_def BindStar_def)
  obtain cols where cols: "GetAllColumns (clause_ctes b s) (st_table s) = Inr cols" "st_select_list s = map BoundColumnRef cols"
    using select_list_bound [OF b2(1)] b2(2) assms(4) star by (auto simp: BindSelectList_def is_star_iff split: if_splits)
  then obtain srcs where "table_columns (clause_ctes b s) (st_table s) = Some srcs" "cols = column_names srcs"
    using star_columns_listed by blast
  with planned_names [OF assms(1-3,6)] cols(2) show ?thesis by auto
qed

end
