(* ===== verification/Binder_Examples.thy ===== *)
theory Binder_Examples
  imports Binder_Props
begin

section \<open>Queries through the binder and the planner\<close>

text \<open>
  Concrete statements on two tables, \<open>t(x)\<close> and \<open>u(x, y)\<close>: the properties of \<open>Binder_Props\<close> at work, and
  statements that the binder and the planner do not treat as they should.
\<close>

definition sql_ref :: "string list \<Rightarrow> pg_node" where
  "sql_ref names = PGColumnRef (map (\<lambda>n. PGValue (PGString n)) names)"

definition sql_star :: "string option \<Rightarrow> pg_node" where
  "sql_star rel = PGResTarget None (Some (PGColumnRef [PGAStar rel]))"

definition sql_item :: "pg_node \<Rightarrow> pg_node" where
  "sql_item n = PGResTarget None (Some n)"

definition sql_query :: "pg_node list \<Rightarrow> pg_node list \<Rightarrow> pg_node option \<Rightarrow> pg_select" where
  "sql_query targets tabs cond = PGSelectStmt [] targets tabs cond [] None [] [] None None None"

definition sql_with :: "string \<Rightarrow> pg_select \<Rightarrow> pg_node list \<Rightarrow> pg_node list \<Rightarrow> pg_select" where
  "sql_with name q targets tabs =
     PGSelectStmt [] targets tabs None [] None [] [] None None (Some (PGWithClause [PGCommonTableExpr name (Some q) False] False))"

definition sql_ordered :: "pg_node \<Rightarrow> pg_select \<Rightarrow> pg_select" where
  "sql_ordered e s =
     PGSelectStmt [] (pg_targets s) (pg_from s) None [] None [] [PGSortBy e PG_SORTBY_DEFAULT PG_SORTBY_NULLS_DEFAULT] None None None"

definition sql_values :: "pg_node \<Rightarrow> pg_select" where
  "sql_values e = PGSelectStmt [] [] [] None [] None [[e]] [] None None None"

definition shop_table :: "nat \<Rightarrow> string \<Rightarrow> string list \<Rightarrow> table_info" where
  "shop_table oid name cols = \<lparr>ti_schema = Schema (map int_column cols), ti_name = name, ti_table = TableHeap (int oid), ti_oid = oid\<rparr>"

definition shop :: "unit catalog" where
  "shop = \<lparr>tables = [0 \<mapsto> shop_table 0 ''t'' [''x''], 1 \<mapsto> shop_table 1 ''u'' [''x'', ''y'']], table_names = [''t'' \<mapsto> 0, ''u'' \<mapsto> 1],
     next_table_oid = 2, indexes = Map.empty, index_names = [''t'' \<mapsto> [], ''u'' \<mapsto> []], next_index_oid = 0\<rparr>"

definition bind_and_plan :: "nat \<Rightarrow> pg_stmt \<Rightarrow> int plan_node result" where
  "bind_and_plan n stmt =
     rbind (BindStatement toy_machine shop new_bind_state stmt) (\<lambda>(s, _). PlanQuery n toy_machine (\<lambda>_. Inl Undefined) shop s new_planner)"

text \<open>The names of the columns of the result.\<close>

definition result_columns :: "pg_select \<Rightarrow> string list result" where
  "result_columns s = rbind (bind_and_plan 20 (PGSelect s)) (\<lambda>q. Inr (map column_name (columns (output_schema q))))"

definition sql_t :: pg_select where
  "sql_t = sql_query [sql_item (sql_ref [''x''])] [PGRangeVar ''t'' None] None"

text \<open>What a run of the binder and one of the planner unfold.\<close>

lemmas binder_defs =
  BindSelectList_def BindValuesList_def bind_clause_def bind_distinct_def BindGroupBy_def bind_clauses_def bind_values_def
  BindBaseTableRef_def BindRangeVar_def bind_join_type_def name_subquery_def bind_condition_def BindInsert_def bind_filter_def
  table_context_def BindDelete_def BindUpdate_def type_modifier_def BindColumnDefinition_def BindCreate_def BindIndex_def
  BindVariableSet_def BindTransaction_def explain_flags_def explain_options_def new_bind_state_def open_context_def close_context_def
  numbered_name_def string_lower_def Prepend_def ambiguous_def ResolveColumnRefFromSchema_def pick_resolved_def
  ResolveColumnRefFromBaseTableRef_def MatchSuffix_def ResolveColumnRefFromSelectList_def ResolveColumnRefFromSubqueryRef_def
  scope_cte_def either_column_def ResolveColumn_def subquery_columns_def BindConstant_def is_star_def BindStar_def BindColumnRef_def
  frame_option_def BindWindowFrame_def aggregate_names_def rewritten_name_def BindBoolOp_def BindOperator_def bind_direction_def
  bind_nulls_def optional_expr_def BindExpressionList_def to_lower_def GetBoundTableName_def shop_def shop_table_def int_column_def
  GetTable_def Let_def sql_ref_def sql_star_def sql_item_def sql_query_def sql_with_def sql_ordered_def sql_values_def

lemmas planning_defs =
  plan_projection_def plan_where_def plan_select_list_def plan_distinct_def plan_order_by_def limit_value_def
  plan_limit_def plan_clauses_def StartsWith_def PlanBaseTableRef_def PlanExpressionListRef_def plan_subquery_names_def join_node_def
  enter_select_def leave_select_def find_cte_def replace_cte_def row_count_schema_def PlanInsert_def plan_table_filter_def
  PlanDelete_def column_index_def default_targets_def PlanUpdate_def PlanQuery_def new_planner_def VARCHAR_DEFAULT_LENGTH_def
  MakeOutputSchema_def Column_def TypeSize_def int_column_def IsInvalid_def ColumnRef_ToString_def GetBoundTableName_def
  IsEmptyTableRef_def StatementType_name_def PlannerContext_def NewContext_def AddAggregation_def UNNAMED_COLUMN_def Value_GetColumn_def
  ConstantValueExpression_def ColumnValueExpression_def with_result_column_def unsupported_call_def GetAggCallFromFactory_def
  GetWindowAggCallFromFactory_def comparison_of_def GetBinaryExpressionFromFactory_def GetFuncCallFromFactory_def PlanColumnRef_def
  expression_not_supported_def PlanAggCall_def rewritten_def agg_columns_def agg_node_def plan_having_def collect_having_def
  PlanSelectAgg_def CheckOrderByCompatible_def unnamed_column_def plan_window_call_def PlanSelectWindow_def CloneWithChildren_def
  GetChildAt_def renamed_def InferScanSchema_def InferJoinSchema_def RenameSchema_def InferProjectionSchema_def InferAggSchema_def
  InferWindowSchema_def to_lower_def GetColIdx_def TryGetColIdx_def GetColumn_def GetColumnCount_def WithColumnName_def shop_def
  shop_table_def GetTable_def Let_def returns_def upt_rec

lemma toy_values: "GetBooleanValue 1 = Inr (Boolean 1 :: int val)" "GetIntegerValue (cast 32 3) = Inr (Integer 3 :: int val)"
  by code_simp+

subsection \<open>The properties\<close>

text \<open>\<open>SELECT a.x FROM t AS a, (SELECT y AS z FROM u) AS q WHERE z = 3\<close>.\<close>

definition demo_sql :: "pg_node list \<Rightarrow> pg_select" where
  "demo_sql targets =
     sql_query targets
       [PGRangeVar ''t'' (Some ''a''),
        PGRangeSubselect False (sql_query [PGResTarget (Some ''z'') (Some (sql_ref [''y'']))] [PGRangeVar ''u'' None] None) (Some ''q'')]
       (Some (PGAExpr PG_AEXPR_OP ''='' (Some (sql_ref [''z''])) (Some (PGAConst (PGInteger 3)))))"

definition demo_bound :: "pg_node list \<Rightarrow> (int select \<times> int bind_state) result" where
  "demo_bound targets = BindSelect toy_machine shop new_bind_state (demo_sql targets)"

definition demo_from :: "int select \<Rightarrow> (int plan_node \<times> int table_ref \<times> int planner) result" where
  "demo_from s = PlanTableRef 20 toy_machine (\<lambda>_. Inl Undefined) shop (st_table s) (enter_select s new_planner)"

lemma demo_bound_ok:
  "(case demo_bound [sql_item (sql_ref [''a'', ''x''])] of
      Inr (s, b) \<Rightarrow> returns (demo_from s) \<and> column_refs (st_where s) = [[''q'', ''z'']] \<and>
        table_columns (clause_ctes new_bind_state s) (st_table s) = Some [(''a'', ''a'', [[''x'']]), (''q'', ''q'', [[''z'']])]
    | Inl e \<Rightarrow> False) \<and>
   (case demo_bound [sql_star None] of Inr (s, b) \<Rightarrow> returns (demo_from s) | Inl e \<Rightarrow> False)"
  apply (simp add: binder_defs toy_values demo_bound_def demo_from_def demo_sql_def)
  apply (simp add: numeral_eq_Suc toy_values planning_defs)
  done


theorem star_selects_all_witness:
  "\<exists>s b p t pl cols. demo_bound [sql_star None] = Inr (s, b) \<and> demo_from s = Inr (p, t, pl) \<and>
     st_select_list s = map BoundColumnRef cols \<and> map dotted cols = map column_name (columns (output_schema p))"
proof -
  obtain s b where s: "demo_bound [sql_star None] = Inr (s, b)" "returns (demo_from s)" using demo_bound_ok [THEN conjunct2] by (auto split: sum.splits)
  then obtain p t pl where p: "demo_from s = Inr (p, t, pl)" by (metis prod_cases3 returnsE)
  have pg: "pg_values (demo_sql [sql_star None]) = []" "pg_targets (demo_sql [sql_star None]) = [sql_star None]" "binds_star (sql_star None)"
    by (simp_all add: demo_sql_def sql_query_def sql_star_def)
  show ?thesis
    using star_selects_all [OF s(1) [unfolded demo_bound_def] pg(1) same_ctes_start pg(2,3) p [unfolded demo_from_def]] s p by blast
qed

definition shop_ref :: "string \<Rightarrow> string list \<Rightarrow> int table_ref" where
  "shop_ref name cols = BaseTableRef \<lparr>bt_table = ''u'', bt_oid = 1, bt_alias = Some name, bt_schema = Schema (map int_column cols)\<rparr>"


subsection \<open>Where the binder and the planner go wrong\<close>

definition sql_c :: pg_select where
  "sql_c = sql_query [PGResTarget (Some ''c'') (Some (sql_ref [''x'']))] [PGRangeVar ''t'' None] None"

text \<open>
  \<^item> \<open>WITH q AS (SELECT x AS c FROM t) SELECT r.c FROM q AS r\<close>: the column is bound under the name of the common table expression,
    and the planner knows it by the name of the reference. \<open>SELECT *\<close> does get it right.
  \<^item> \<open>SELECT t.x FROM (SELECT x FROM t) AS t\<close>: the one column fits the name in two ways.
  \<^item> \<open>SELECT t.* FROM t, u\<close> selects the columns of both tables.
  \<^item> \<open>SELECT x AS c FROM t\<close> cannot be ordered: \<open>c\<close> is not a column of the table, where the binder looks for it, and \<open>x\<close> is not a
    column of the result, where the planner does.
\<close>

lemma columns_not_found:
  "result_columns (sql_with ''q'' sql_c [sql_item (sql_ref [''q'', ''c''])] [PGRangeVar ''q'' None]) = Inr [''q.c''] \<and>
   result_columns (sql_with ''q'' sql_c [sql_item (sql_ref [''r'', ''c''])] [PGRangeVar ''q'' (Some ''r'')]) = Inl (Thrown ''Column does not exist'') \<and>
   result_columns (sql_with ''q'' sql_c [sql_star None] [PGRangeVar ''q'' (Some ''r'')]) = Inr [''r.c''] \<and>
   result_columns (sql_query [sql_item (sql_ref [''t'', ''x''])] [PGRangeSubselect False sql_t (Some ''t'')] None) =
     Inl (Thrown ''t.x is ambiguous in subquery t'') \<and>
   result_columns (sql_query [sql_star (Some ''t'')] [PGRangeVar ''t'' None, PGRangeVar ''u'' None] None) = Inr [''t.x'', ''u.x'', ''u.y''] \<and>
   result_columns (sql_ordered (sql_ref [''x'']) sql_t) = Inr [''t.x''] \<and>
   result_columns (sql_ordered (sql_ref [''c'']) sql_c) = Inl (Thrown ''column c not found'') \<and>
   result_columns (sql_ordered (sql_ref [''x'']) sql_c) = Inl (Thrown ''Column does not exist'')"
  apply (simp add: binder_defs toy_values result_columns_def bind_and_plan_def sql_t_def sql_c_def)
  apply (simp add: numeral_eq_Suc toy_values planning_defs)
  done

text \<open>Null pointers: the condition of \<open>t CROSS JOIN u\<close>, the scope of a column in \<open>VALUES (x)\<close>, the source of
  \<open>INSERT INTO t DEFAULT VALUES\<close>, a target of \<open>UPDATE\<close> that is not a column, and the length of a \<open>varchar\<close> without one. A
  constraint of a table that has a column after it, as in \<open>CREATE TABLE s(PRIMARY KEY (a), a int)\<close>, reads the column as a constraint.\<close>

definition column_a :: "string \<Rightarrow> pg_table_elt" where
  "column_a type = PGColumnDef \<lparr>cd_name = Some ''a'', cd_collated = False, cd_type = type, cd_typmods = [], cd_constraints = []\<rparr>"

lemma null_pointers:
  "result_columns (sql_query [sql_star None] [PGJoinExpr PG_JOIN_INNER (PGRangeVar ''t'' None) (PGRangeVar ''u'' None) None] None) = Inl Assertion \<and>
   bind_and_plan 20 (PGInsertStmt ''t'' [] (Some (sql_values (sql_ref [''x''])))) = Inl Undefined \<and>
   bind_and_plan 20 (PGInsertStmt ''t'' [] None) = Inl Undefined \<and>
   bind_and_plan 20 (PGUpdateStmt ''t'' False False None [(''z'', Some (PGAConst (PGInteger 3)))]) = Inl Undefined \<and>
   bind_and_plan 20 (PGCreateStmt ''s'' [column_a ''varchar'']) = Inl Undefined \<and>
   bind_and_plan 20 (PGCreateStmt ''s'' [PGConstraint (PG_CONSTR_PRIMARY, [''a'']), column_a ''int4'']) = Inl Undefined"
  apply (simp add: binder_defs toy_values result_columns_def bind_and_plan_def column_a_def)
  apply (simp add: numeral_eq_Suc toy_values planning_defs)
  done

subsection \<open>A query that is planned forever\<close>

text \<open>A common table expression that selects from an outer one of its own name:
  \<open>WITH q AS (SELECT x FROM t) SELECT * FROM (WITH q AS (SELECT x FROM q) SELECT * FROM q) AS s\<close>. The binder takes
  the inner one from the outer one; the planner finds the inner one in the innermost list, and so plans it to plan it.\<close>

definition inner_q :: "int subquery" where
  "inner_q = Subquery (SelectStatement (CTERef ''q'' ''q'') [BoundColumnRef [''q'', ''t'', ''x'']] InvalidExpr [] InvalidExpr InvalidExpr InvalidExpr [] [] False)
     [[''q'', ''t'', ''x'']] ''q''"

lemma inner_q_bound:
  "case BindSelect toy_machine shop new_bind_state
      (sql_with ''q'' sql_t [sql_star None]
        [PGRangeSubselect False (sql_with ''q'' (sql_query [sql_item (sql_ref [''x''])] [PGRangeVar ''q'' None] None) [sql_star None] [PGRangeVar ''q'' None]) (Some ''s'')]) of
     Inr (s, b) \<Rightarrow> (case st_table s of SubqueryRef q \<Rightarrow> st_ctes (sq_select q) = [inner_q] \<and> st_table (sq_select q) = CTERef ''q'' ''q'' | _ \<Rightarrow> False)
   | Inl e \<Rightarrow> False"
  by (simp add: binder_defs sql_t_def inner_q_def)

lemma inner_q_stuck:
  "cte_list (planner_ctx pl) = Some [inner_q] \<Longrightarrow>
   PlanTableRef n M mk_array cat (CTERef ''q'' ''q'') pl = Inl Stuck \<and> PlanSubquery n M mk_array cat inner_q ''q'' pl = Inl Stuck \<and>
   PlanSelect n M mk_array cat (sq_select inner_q) pl = Inl Stuck"
proof (induction n arbitrary: pl)
  case (Suc n)
  have found: "find_cte ''q'' [inner_q] = Some 0" by (simp add: find_cte_def inner_q_def)
  have "cte_list (planner_ctx (enter_select (sq_select inner_q) pl)) = Some [inner_q]"
    using Suc.prems by (simp add: enter_select_def NewContext_def inner_q_def)
  from Suc.IH [OF this] Suc.IH [OF Suc.prems] Suc.prems found show ?case
    by (simp add: inner_q_def IsEmptyTableRef_def)
qed simp

end
