(* ===== verification/Spec2Isabelle.thy ===== *)
theory Spec2Isabelle
  imports Arc_Proofs Disk_Proofs BufferPool_Runs BPTree_Index Snapshot_Witnesses Executor_Props Value_Props Table_Scan Expressions
    Sketch Optimizer_Props Sorting Aggregation Dml_Props Index_Join Planner_Props Binder_Examples
begin

text \<open>
  BusTub is a relational database system in C++ (\<^verbatim>\<open>src/bustub-master/src/\<close>; all paths below are relative to
  this directory). A query passes through these parts: the binder resolves the names in the parse tree of a statement, the planner turns
  the bound statement into a tree of plan nodes, which is rewritten by the optimizer, the execution engine pulls batches of tuples from a tree of executors, the
  executors read and write table heaps and B+ tree indexes through the catalog and the transaction
  manager, and both live in pages that page guards hand out from the buffer pool, which keeps a bounded number of
  pages in memory and moves the others to and from the disk.

  \<^bold>\<open>Parts and theories.\<close> The theories follow the code from the disk upwards; a theory of definitions is
  named after what it models, and \<open>_Proofs\<close>, \<open>_Inv\<close>, \<open>_Props\<close> hold the lemmas and properties.

  \<^item> \<open>Prelude\<close>: \<^verbatim>\<open>common/config.h\<close>, \<^verbatim>\<open>common/macros.h\<close>. A C++ operation that can fail returns
    \<open>fault + 'a\<close>: an exception, a failed assertion, undefined behaviour, a call that never returns.
  \<^item> \<open>Disk\<close>, \<open>Disk_Proofs\<close>: \<^verbatim>\<open>storage/disk/\<close>: the file and memory disk managers, the channel and the
    scheduler's worker. The managers interpret one contract (a locale) that the buffer pool relies on.
  \<^item> \<open>Replacer_Spec\<close>, \<open>Arc\<close>, \<open>Arc_Proofs\<close>: \<^verbatim>\<open>buffer/arc_replacer.cpp\<close> with the four lists, the maps and the
    adaptive target; \<open>Replacer_Spec\<close> is the contract the pool uses and the replacer interprets.
  \<^item> \<open>BufferPool\<close>, \<open>BufferPool_Proofs\<close>, \<open>BufferPool_Runs\<close>: \<^verbatim>\<open>buffer/buffer_pool_manager.cpp\<close>,
    \<^verbatim>\<open>storage/page/page_guard.cpp\<close>. The proofs hold for any disk with the contract; the runs interleave the
    critical sections of any number of threads that hold guards.
  \<^item> \<open>BPTree_Pages\<close>, \<open>BPTree\<close>, \<open>BPTree_Inv\<close>, \<open>BPTree_Insert\<close>, \<open>BPTree_Remove\<close>, \<open>BPTree_Correct\<close>, \<open>BPTree_Props\<close>,
    \<open>BPTree_Index\<close>: \<^verbatim>\<open>storage/page/b_plus_tree_*.cpp\<close>, \<^verbatim>\<open>storage/index/\<close>. The pages of a tree are a map from page ids,
    which is what the theorems of the pool justify; the invariant relates them to a tree of sorted
    leaves, and the index operations to a finite map (the locale \<open>ordered_index\<close>).
  \<^item> \<open>Types\<close>, \<open>Integer_Parent\<close>, \<open>Integer_Types\<close>, \<open>Value_Ops\<close>, \<open>Value_Factory\<close> and \<open>Value_Proofs\<close>, \<open>Value_Bytes\<close>, \<open>Value_Props\<close>:
    \<^verbatim>\<open>type/\<close> and \<^verbatim>\<open>include/type/\<close>, each class with its own methods and the dispatch of \<open>Value\<close>.
  \<^item> \<open>Tuples\<close>, \<open>Tuple_Props\<close>: \<^verbatim>\<open>catalog/\<close> columns and schemas, \<^verbatim>\<open>storage/table/tuple.cpp\<close>.
  \<^item> \<open>Table_Page\<close>, \<open>Table_Heap\<close>, \<open>Table_Proofs\<close>, \<open>Table_Scan\<close>: slotted pages, table heaps and their iterator.
  \<^item> \<open>Watermark\<close>, \<open>Mvcc\<close>, \<open>Txn_Manager\<close>, \<open>Mvcc_Inv\<close>, \<open>Mvcc_Steps\<close>, \<open>Mvcc_Ops\<close>, \<open>Mvcc_Finish\<close>, \<open>Mvcc_Commit\<close>,
    \<open>Mvcc_Verify\<close>, \<open>Mvcc_Props\<close>, \<open>Snapshot_Isolation\<close>, \<open>Snapshot_Witnesses\<close>: \<^verbatim>\<open>concurrency/\<close> and the version chains of
    \<^verbatim>\<open>execution/execution_common.cpp\<close>. The invariant represents heap, undo links and undo logs by a list of
    versions per record; \<open>Mvcc_Props\<close> is the step relation of the manager, and \<open>Snapshot_Isolation\<close> states what its runs
    guarantee without mentioning the version lists.
  \<^item> \<open>Executor\<close>, \<open>Executor_Proofs\<close>, \<open>Executor_Props\<close>, \<open>Joins\<close>, \<open>Join_Proofs\<close>, \<open>Sorting\<close>, \<open>Aggregation\<close>: the execution
    engine and the executors over any children (\<^verbatim>\<open>execution/\<close>). \<open>yields\<close> is the contract of the iterator
    interface, and each executor is shown to yield the result of its relational operator.
  \<^item> \<open>Dml\<close>, \<open>Dml_Proofs\<close>, \<open>Dml_Props\<close>, \<open>Index_Join\<close>: the executors that read and write versioned tables: scans, insert, delete,
    update, nested index join. They compose the executors with the transaction manager and the B+ tree index.
  \<^item> \<open>Expressions\<close>, \<open>Hash_Util\<close>, \<open>Catalog\<close>, \<open>Plans\<close>, \<open>Optimizer\<close>, \<open>Plan_Rows\<close>, \<open>Optimizer_Proofs\<close>, \<open>Optimizer_Props\<close>: expressions,
    hashing, the catalog, plan nodes and every rule of \<^verbatim>\<open>optimizer/\<close>, against a relational meaning of plans.
  \<^item> \<open>Bound\<close>, \<open>Planner_Exprs\<close>, \<open>Planner\<close>, \<open>Query_Semantics\<close>, \<open>Planner_Proofs\<close>, \<open>Planner_Correct\<close>, \<open>Planner_Aggs\<close>,
    \<open>Planner_Props\<close>: the statements of \<^verbatim>\<open>binder/\<close> and all of \<^verbatim>\<open>planner/\<close>, from the bound statement to the plan, with the
    statement it rewrites on the way. \<open>Query_Semantics\<close> says what a query means by names; the locale \<open>expression_scope\<close> is
    the interface of the rows an expression is planned over, with one interpretation per way the planner calls it.
    The plan means the query, and still does after the optimizer.
  \<^item> \<open>Parse_Tree\<close>, \<open>Binder_Exprs\<close>, \<open>Binder\<close>, \<open>Binder_Resolve\<close>, \<open>Binder_Names\<close>, \<open>Binder_Refs\<close>, \<open>Binder_Props\<close>, \<open>Binder_Examples\<close>:
    all of \<^verbatim>\<open>binder/\<close> from the parse tree to the bound statement, with its scopes. \<open>Binder_Resolve\<close> says which columns fit a name,
    and the resolution finds the only one; \<open>Binder_Names\<close> and \<open>Binder_Refs\<close> follow the names into the planner, which finds
    every column the binder has resolved. \<open>Binder_Examples\<close> has statements that go wrong.
  \<^item> \<open>Sketch\<close>: \<^verbatim>\<open>primer/count_min_sketch.cpp\<close>.

  \<^bold>\<open>How the code is rendered.\<close> A class is a record, an operation a function from the state to the result and the new
  state, a throwing call an error value. An operation under a mutex is one step. Loops are structural or well-founded recursion, or
  partial functions with a proof that they return. Iteration over an unordered container is a parameter
  \<open>order\<close> or a fold over a list in any order. Integers are numbers with the wrap-around of their width written out where the code
  can reach it, and words in the hashes. A pointer to an expression or a predicate is a function on tuples in the executors, and a
  syntax tree in the planner and optimizer theories.

  \<^bold>\<open>Fuel.\<close> The walk along an undo chain has fuel \<open>log_fuel\<close>, the number of undo logs there are; the walks through a B+ tree have
  the number of its pages, and the scan of an index \<open>scan_fuel\<close>, the number of its slots. The lemmas about these
  walks show that the fuel is enough in every state that satisfies the invariants: the result is never \<open>Stuck\<close>. The planner's
  recursion has fuel because a common table expression is planned where it is referred to; the size of a statement
  without them is enough.

  \<^bold>\<open>Parameters.\<close> What the code takes from outside the repository is an argument: floating point and signed
  overflow (\<open>machine\<close>), \<open>std::hash\<close>, \<open>std::sort\<close> with the law \<open>sorts\<close> of the standard, the iteration order
  of hash maps. Between components, an argument stands for a part that another theory models: the disk's virtual methods for
  the pool, the records a table iterator visits and the slot of a new tuple for the executors over versioned
  tables, the index a \<open>CreateIndex\<close> builds. Properties instantiate them or state the law they need.

  \<^bold>\<open>Restrictions.\<close> The columns of a versioned table have fixed sizes. Each operation of the transaction manager is one step
  (the code holds the page lock or a mutex over it). The keys of a hash join are of one type in \<open>Joins\<close>, and hashable integers and booleans in
  \<open>Plan_Rows\<close>. The optimizer theorem is for tables without an index: the rules that pick an index are modelled, and compared with the
  sequential scan in \<open>Dml_Props\<close> and \<open>Index_Join\<close>. An index join reads the newest versions, and not the visible ones.
  A removal from a B+ tree is correct where its leaf keeps enough entries; what the code does when a leaf is borrowed
  from or merged is shown by lemmas of \<open>BPTree_Index\<close>, such as \<open>bt_first_key_removal\<close> and \<open>bt_borrow_right_loses_child\<close>.

  The planner's theorems on queries leave out grouping, \<open>DISTINCT\<close>, \<open>ORDER BY\<close>, window functions and common table
  expressions, which are modelled (\<open>Planner_Aggs\<close> treats the aggregate calls). The theorem that the planner finds the columns of the binder is
  for queries that refer to common table expressions by their own names; under another name it does not hold.

  \<^bold>\<open>Not modelled.\<close> The replacers, lock manager, hash tables on disk, recovery, window, sort and top-N executors, tries and other primer tasks
  are stubs in this repository: their bodies throw or return constants. The scanner and the parser of the binder are those of the vendored
  PostgreSQL parser, whose trees are where the model begins; a node type that the binder does not read is only a tag. The shell, the printing of plans and
  expressions, the tables generated for tests, the tools and the bootcamp examples are input and output or tests.
  Vectors (\<^verbatim>\<open>VECTOR\<close> columns and array expressions) are left out of the types.
\<close>

end
